(* ===== verification/Kernel_Prelude.thy ===== *)
theory Kernel_Prelude
  imports Main "HOL-Library.Word"
begin

text \<open>
  Shared vocabulary of the development: C integer conversions (a value is a natural
  number below \<open>2^w\<close>, and every conversion or wrapping operation is written out),
  the kernel's jiffies arithmetic on 64-bit words, bitmaps as predicates on bit numbers,
  and the generic lemmas on loops and counting that the component theories use.
\<close>

section \<open>Collections\<close>

named_theorems u32_simps \<open>arithmetic of the 16/32-bit conversions\<close>
named_theorems bitmap_simps \<open>pointwise behaviour of bitmap loops\<close>

section \<open>C integers\<close>

definition u16 :: "nat \<Rightarrow> nat" where
  "u16 n = n mod 2 ^ 16"

definition u32 :: "nat \<Rightarrow> nat" where
  "u32 n = n mod 2 ^ 32"

text \<open>Unsigned 32-bit subtraction, which wraps when the result would be negative.\<close>

definition sub32 :: "nat \<Rightarrow> nat \<Rightarrow> nat" where
  "sub32 a b = (if b \<le> a then a - b else u32 (a + 2 ^ 32 - b))"

text \<open>Conversion of an integer to \<open>s16\<close> (two's complement, as gcc defines it).\<close>

definition s16 :: "int \<Rightarrow> int" where
  "s16 x = (x + 2 ^ 15) mod 2 ^ 16 - 2 ^ 15"

definition UINT_MAX :: nat where
  "UINT_MAX = 2 ^ 32 - 1"

lemma u32_id [u32_simps]: "n < 2 ^ 32 \<Longrightarrow> u32 n = n"
  by (simp add: u32_def)

lemma u16_id [u32_simps]: "n < 2 ^ 16 \<Longrightarrow> u16 n = n"
  by (simp add: u16_def)

lemma u32_lt [simp]: "u32 n < 4294967296"
  by (simp add: u32_def)

lemma u16_lt [simp]: "u16 n < 65536"
  by (simp add: u16_def)

lemma u32_le_self: "u32 n \<le> n"
  by (simp add: u32_def)

lemma sub32_le [u32_simps]: "b \<le> a \<Longrightarrow> sub32 a b = a - b"
  by (simp add: sub32_def)

lemma u32_0 [simp]: "u32 0 = 0"
  by (simp add: u32_def)

lemma u32_add_left: "u32 (u32 a + b) = u32 (a + b)"
  by (simp add: u32_def mod_add_left_eq)

lemma sub32_u32: "sub32 (u32 (a + b)) (u32 a) = u32 b"
proof -
  have le: "u32 a \<le> 2 ^ 32" by (simp add: less_imp_le)
  have *: "sub32 x y = (x + 2 ^ 32 - y) mod 2 ^ 32" if "x < 2 ^ 32" "y < 2 ^ 32" for x y
  proof (cases "y \<le> x")
    case True
    have "(x + 2 ^ 32 - y) mod 2 ^ 32 = ((x - y) + 2 ^ 32) mod 2 ^ 32" using True by simp
    also have "\<dots> = (x - y) mod 2 ^ 32" by (rule mod_add_self2)
    also have "\<dots> = x - y" using that by simp
    finally show ?thesis using True by (simp add: sub32_def)
  next
    case False
    then show ?thesis by (simp add: sub32_def u32_def)
  qed
  have "sub32 (u32 (a + b)) (u32 a) = (u32 (a + b) + 2 ^ 32 - u32 a) mod 2 ^ 32"
    by (rule *) (simp_all add: u32_def)
  also have "\<dots> = (u32 (a + b) + (2 ^ 32 - u32 a)) mod 2 ^ 32"
    using le by simp
  also have "\<dots> = ((a + b) + (2 ^ 32 - u32 a)) mod 2 ^ 32"
    by (simp only: u32_def mod_add_left_eq)
  also have "\<dots> = ((a + (2 ^ 32 - u32 a)) + b) mod 2 ^ 32"
    by (simp only: ac_simps)
  also have "\<dots> = ((a + (2 ^ 32 - u32 a)) mod 2 ^ 32 + b) mod 2 ^ 32"
    by (simp only: mod_add_left_eq)
  also have "(a + (2 ^ 32 - u32 a)) mod 2 ^ 32 = (u32 a + (2 ^ 32 - u32 a)) mod 2 ^ 32"
    by (simp only: u32_def mod_add_left_eq)
  also have "\<dots> = 0" using le by simp
  finally show ?thesis by (simp add: u32_def)
qed

lemma sub32_u32_add: "a < 2 ^ 32 \<Longrightarrow> sub32 (u32 (a + b)) a = u32 b"
  using sub32_u32[of a b] by (simp add: u32_id)

lemma div_eq_range_iff: "0 < w \<Longrightarrow> s div w = g \<longleftrightarrow> g * w \<le> s \<and> s < g * w + w" for w :: nat
  using dividend_less_div_times[of w s] div_nat_eqI[of w g s] times_div_less_eq_dividend[of w s]
  by (auto simp: mult.commute add.commute)

section \<open>Jiffies\<close>

type_synonym jiffies_t = "64 word"

text \<open>The kernel's comparisons: the difference read as a signed \<open>long\<close>.\<close>

definition time_after :: "jiffies_t \<Rightarrow> jiffies_t \<Rightarrow> bool" where
  "time_after a b \<longleftrightarrow> sint (b - a) < 0"

definition time_before :: "jiffies_t \<Rightarrow> jiffies_t \<Rightarrow> bool" where
  "time_before a b \<longleftrightarrow> time_after b a"

definition time_after_eq :: "jiffies_t \<Rightarrow> jiffies_t \<Rightarrow> bool" where
  "time_after_eq a b \<longleftrightarrow> 0 \<le> sint (a - b)"

lemma time_after_eq_refl [simp]: "time_after_eq a a"
  by (simp add: time_after_eq_def)

section \<open>Bitmaps\<close>

type_synonym bitmap = "nat \<Rightarrow> bool"

text \<open>
  The loops \<open>for (i = 0; i < n; i++) set_bit(lo + i, m)\<close> and the same with
  \<open>clear_bit\<close>.
\<close>

primrec set_bits :: "nat \<Rightarrow> nat \<Rightarrow> bitmap \<Rightarrow> bitmap" where
  "set_bits lo 0 m = m"
| "set_bits lo (Suc n) m = (set_bits lo n m)(lo + n := True)"

primrec clear_bits :: "nat \<Rightarrow> nat \<Rightarrow> bitmap \<Rightarrow> bitmap" where
  "clear_bits lo 0 m = m"
| "clear_bits lo (Suc n) m = (clear_bits lo n m)(lo + n := False)"

lemma set_bits_iff [bitmap_simps]: "set_bits lo n m s \<longleftrightarrow> lo \<le> s \<and> s < lo + n \<or> m s"
  by (induction n) auto

lemma clear_bits_iff [bitmap_simps]: "clear_bits lo n m s \<longleftrightarrow> \<not> (lo \<le> s \<and> s < lo + n) \<and> m s"
  by (induction n) auto

section \<open>Counting array entries\<close>

definition count_idx :: "('a \<Rightarrow> bool) \<Rightarrow> (nat \<Rightarrow> 'a) \<Rightarrow> nat \<Rightarrow> nat" where
  "count_idx P f n = length (filter (\<lambda>i. P (f i)) [0..<n])"

lemma count_idx_0 [simp]: "count_idx P f 0 = 0"
  by (simp add: count_idx_def)

lemma count_idx_Suc: "count_idx P f (Suc n) = count_idx P f n + of_bool (P (f n))"
  by (simp add: count_idx_def)

lemma count_idx_upd_ge: "n \<le> j \<Longrightarrow> count_idx P (f(j := x)) n = count_idx P f n"
  by (induction n) (simp_all add: count_idx_Suc)

lemma count_idx_upd:
  "j < n \<Longrightarrow> count_idx P (f(j := x)) n + of_bool (P (f j)) = count_idx P f n + of_bool (P x)"
proof (induction n)
  case (Suc n)
  show ?case
  proof (cases "j = n")
    case True
    then show ?thesis
      using count_idx_upd_ge[of n j P f x] by (simp add: count_idx_Suc del: fun_upd_apply) simp
  next
    case False
    with Suc show ?thesis by (simp add: count_idx_Suc)
  qed
qed simp

lemma count_idx_pos: "j < n \<Longrightarrow> P (f j) \<Longrightarrow> 0 < count_idx P f n"
proof (induction n)
  case (Suc n)
  then show ?case by (cases "j = n") (simp_all add: count_idx_Suc)
qed simp

lemma count_idx_0_iff: "count_idx P f n = 0 \<longleftrightarrow> (\<forall>i<n. \<not> P (f i))"
  by (auto simp: count_idx_def filter_empty_conv)

lemma count_idx_le: "count_idx P f n \<le> n"
  using length_filter_le[of "\<lambda>i. P (f i)" "[0..<n]"] by (simp add: count_idx_def)

section \<open>Loops over index ranges\<close>

text \<open>
  A loop \<open>for (i = a; i < b; i++)\<close> whose body maps the state to the next one is a
  \<open>fold\<close> over \<open>[a..<b]\<close>. An invariant of the body is one of the loop.
\<close>

lemma fold_upt_invariant:
  assumes "I s"
    and "\<And>i s. i \<in> set xs \<Longrightarrow> I s \<Longrightarrow> I (f i s)"
  shows "I (fold f xs s)"
  using assms by (induction xs arbitrary: s) auto

end
