(* ===== verification/F2fs_Sb.thy ===== *)
theory F2fs_Sb
  imports Kernel_Prelude
begin

text \<open>
  The part of \<open>struct f2fs_sb_info\<close> that the discard code reads: the geometry of
  the volume with the address macros of \<open>segment.h\<close>, the segment entries, the GC
  mode and the memory and utilisation checks. Kernel services (clock, random numbers,
  conversion between milliseconds and jiffies, memory totals) and the constants of
  \<open>linux/f2fs_fs.h\<close> are not part of the repository: they are fields of the record.
  Segment and block numbers are natural numbers; the 32-bit wrap-around of the address
  macros is written out.
\<close>

section \<open>Superblock information\<close>

datatype gc_mode = GC_NORMAL | GC_IDLE_CB | GC_IDLE_GREEDY | GC_IDLE_AT
  | GC_URGENT_HIGH | GC_URGENT_LOW

datatype seg_type = CURSEG_HOT_DATA | CURSEG_WARM_DATA | CURSEG_COLD_DATA
  | CURSEG_HOT_NODE | CURSEG_WARM_NODE | CURSEG_COLD_NODE

record seg_entry =
  se_type :: seg_type
  valid_blocks :: nat
  ckpt_valid_blocks :: nat

record f2fs_sb_info =
  sb_gc_mode :: gc_mode
  log_blocksize :: nat
  log_blocks_per_seg :: nat
  blocks_per_seg :: nat
  segs_per_sec :: nat
  seg0_blkaddr :: nat
  start_segno :: nat          \<comment> \<open>\<open>FREE_I(sbi)->start_segno\<close>\<close>
  main_segments :: nat
  sentries :: "nat \<Rightarrow> seg_entry"
  total_valid_block_count :: nat
  user_block_count :: nat
  nm_ram_thresh :: "nat option"  \<comment> \<open>\<open>nm_i->ram_thresh\<close>; \<open>None\<close> when \<open>nm_i\<close> is NULL\<close>
  totalram :: nat
  totalhigh :: nat
  page_shift :: nat
  sizeof_discard_cmd :: nat
  max_discard_sectors :: "nat option"  \<comment> \<open>\<open>None\<close>: no super block, device or queue\<close>
  lfs_mode :: bool
  need_fsck :: bool
  NULL_ADDR :: nat
  NEW_ADDR :: nat
  COMPRESS_ADDR :: nat
  jiffies :: jiffies_t
  msecs_to_jiffies :: "nat \<Rightarrow> jiffies_t"
  jiffies_to_msecs :: "jiffies_t \<Rightarrow> nat"
  get_random_u32 :: nat
  stack_junk :: "nat \<Rightarrow> nat \<Rightarrow> nat \<Rightarrow> nat \<times> nat"
    \<comment> \<open>contents of the two local variables that the window scan reads before it writes
        them, by group, offset and length\<close>

section \<open>Address macros of segment.h\<close>

definition NULL_SEGNO :: nat where
  "NULL_SEGNO = UINT_MAX"

definition is_valid_data_blkaddr :: "f2fs_sb_info \<Rightarrow> nat \<Rightarrow> bool" where
  "is_valid_data_blkaddr sbi blkaddr \<longleftrightarrow>
     \<not> (blkaddr = NEW_ADDR sbi \<or> blkaddr = NULL_ADDR sbi \<or> blkaddr = COMPRESS_ADDR sbi)"

definition GET_R2L_SEGNO :: "f2fs_sb_info \<Rightarrow> nat \<Rightarrow> nat" where
  "GET_R2L_SEGNO sbi segno = u32 (segno + start_segno sbi)"

definition GET_L2R_SEGNO :: "f2fs_sb_info \<Rightarrow> nat \<Rightarrow> nat" where
  "GET_L2R_SEGNO sbi segno = sub32 segno (start_segno sbi)"

definition START_BLOCK :: "f2fs_sb_info \<Rightarrow> nat \<Rightarrow> nat" where
  "START_BLOCK sbi segno =
     u32 (seg0_blkaddr sbi + u32 (GET_R2L_SEGNO sbi segno * 2 ^ log_blocks_per_seg sbi))"

definition GET_SEGOFF_FROM_SEG0 :: "f2fs_sb_info \<Rightarrow> nat \<Rightarrow> nat" where
  "GET_SEGOFF_FROM_SEG0 sbi blk_addr = sub32 blk_addr (seg0_blkaddr sbi)"

definition GET_SEGNO_FROM_SEG0 :: "f2fs_sb_info \<Rightarrow> nat \<Rightarrow> nat" where
  "GET_SEGNO_FROM_SEG0 sbi blk_addr =
     GET_SEGOFF_FROM_SEG0 sbi blk_addr div 2 ^ log_blocks_per_seg sbi"

definition GET_SEGNO :: "f2fs_sb_info \<Rightarrow> nat \<Rightarrow> nat" where
  "GET_SEGNO sbi blk_addr =
     (if \<not> is_valid_data_blkaddr sbi blk_addr then NULL_SEGNO
      else GET_L2R_SEGNO sbi (GET_SEGNO_FROM_SEG0 sbi blk_addr))"

definition SEGMENT_SIZE :: "f2fs_sb_info \<Rightarrow> nat" where
  "SEGMENT_SIZE sbi = 2 ^ (log_blocksize sbi + log_blocks_per_seg sbi)"

definition MAIN_SEGS :: "f2fs_sb_info \<Rightarrow> nat" where
  "MAIN_SEGS sbi = main_segments sbi"

definition get_valid_blocks_seg :: "f2fs_sb_info \<Rightarrow> nat \<Rightarrow> nat" where
  \<comment> \<open>\<open>get_valid_blocks(sbi, segno, false)\<close>\<close>
  "get_valid_blocks_seg sbi segno = valid_blocks (sentries sbi segno)"

definition IS_COLD :: "seg_type \<Rightarrow> bool" where
  "IS_COLD t \<longleftrightarrow> t = CURSEG_COLD_NODE \<or> t = CURSEG_COLD_DATA"

definition utilization :: "f2fs_sb_info \<Rightarrow> nat" where
  "utilization sbi = (total_valid_block_count sbi * 100) div user_block_count sbi"

text \<open>The \<open>DISCARD_CACHE\<close> case of \<open>f2fs_available_free_memory\<close>, for a command count.\<close>

definition f2fs_available_free_memory :: "f2fs_sb_info \<Rightarrow> nat \<Rightarrow> bool" where
  "f2fs_available_free_memory sbi discard_cmds =
     (case nm_ram_thresh sbi of
        None \<Rightarrow> True
      | Some ram_thresh \<Rightarrow>
          (let avail_ram = totalram sbi - totalhigh sbi;
               mem_size = (discard_cmds * sizeof_discard_cmd sbi) div 2 ^ page_shift sbi
           in mem_size < avail_ram * ram_thresh div 100))"

section \<open>Well-formed geometry\<close>

text \<open>
  A mounted volume: the main area lies inside the 32-bit block address space, segments
  have \<open>2 ^ log_blocks_per_seg\<close> blocks, and the reserved addresses are outside the
  main area.
\<close>

definition main_start :: "f2fs_sb_info \<Rightarrow> nat" where
  "main_start sbi = seg0_blkaddr sbi + start_segno sbi * 2 ^ log_blocks_per_seg sbi"

definition main_end :: "f2fs_sb_info \<Rightarrow> nat" where
  "main_end sbi = main_start sbi + main_segments sbi * 2 ^ log_blocks_per_seg sbi"

definition geom_ok :: "f2fs_sb_info \<Rightarrow> bool" where
  "geom_ok sbi \<longleftrightarrow>
     blocks_per_seg sbi = 2 ^ log_blocks_per_seg sbi \<and>
     main_end sbi < 2 ^ 32 \<and>
     (\<forall>a \<in> {NULL_ADDR sbi, NEW_ADDR sbi, COMPRESS_ADDR sbi}.
        \<not> (main_start sbi \<le> a \<and> a < main_end sbi))"

lemma geom_ok_bps: "geom_ok sbi \<Longrightarrow> blocks_per_seg sbi = 2 ^ log_blocks_per_seg sbi"
  by (simp add: geom_ok_def)

lemma START_BLOCK_eq:
  assumes "geom_ok sbi" "segno \<le> main_segments sbi"
  shows "START_BLOCK sbi segno = main_start sbi + segno * blocks_per_seg sbi"
proof -
  let ?B = "2 ^ log_blocks_per_seg sbi :: nat"
  have end32: "main_end sbi < 2 ^ 32" and bps: "blocks_per_seg sbi = ?B"
    using assms(1) by (simp_all add: geom_ok_def)
  have le: "segno * ?B \<le> main_segments sbi * ?B"
    using assms(2) by simp
  have total: "seg0_blkaddr sbi + (segno + start_segno sbi) * ?B < 2 ^ 32"
  proof -
    have "seg0_blkaddr sbi + start_segno sbi * ?B + main_segments sbi * ?B < 2 ^ 32"
      using end32 by (simp add: main_end_def main_start_def)
    with le show ?thesis unfolding add_mult_distrib by linarith
  qed
  have "segno + start_segno sbi \<le> (segno + start_segno sbi) * ?B" by simp
  with total have small: "segno + start_segno sbi < 2 ^ 32" by linarith
  show ?thesis
    unfolding START_BLOCK_def GET_R2L_SEGNO_def main_start_def
    using total small bps by (simp add: u32_id algebra_simps)
qed

lemma GET_SEGNO_main:
  assumes "geom_ok sbi" "main_start sbi \<le> b" "b < main_end sbi"
  shows "GET_SEGNO sbi b = (b - main_start sbi) div blocks_per_seg sbi"
proof -
  let ?B = "2 ^ log_blocks_per_seg sbi :: nat"
  have bps: "blocks_per_seg sbi = ?B" using assms(1) by (simp add: geom_ok_def)
  have valid: "is_valid_data_blkaddr sbi b"
    using assms by (auto simp: geom_ok_def is_valid_data_blkaddr_def)
  define d where "d = b - main_start sbi"
  have b: "b = seg0_blkaddr sbi + (start_segno sbi * ?B + d)"
    using assms(2) by (simp add: d_def main_start_def)
  have "(start_segno sbi * ?B + d) div ?B = start_segno sbi + d div ?B"
    by simp
  moreover have "sub32 b (seg0_blkaddr sbi) = start_segno sbi * ?B + d"
    using b by (simp add: sub32_le)
  ultimately show ?thesis
    unfolding GET_SEGNO_def GET_L2R_SEGNO_def GET_SEGNO_FROM_SEG0_def GET_SEGOFF_FROM_SEG0_def
    using bps valid by (simp add: sub32_le d_def[symmetric])
qed

lemma GET_SEGNO_less:
  assumes "geom_ok sbi" "main_start sbi \<le> b" "b < main_end sbi"
  shows "GET_SEGNO sbi b < main_segments sbi"
proof -
  have "b - main_start sbi < main_segments sbi * blocks_per_seg sbi"
    using assms by (simp add: geom_ok_bps main_end_def)
  then show ?thesis
    using assms by (simp add: GET_SEGNO_main less_mult_imp_div_less)
qed

end
