(* ===== verification/Rb_Tree.thy ===== *)
theory Rb_Tree
  imports Kernel_Prelude "HOL-Library.Tree"
begin

text \<open>
  The interval lookups of \<open>extent_cache.c\<close> and \<open>swod.c\<close> over red-black trees of
  entries with a start and a length. The tree's shape is whatever the kernel's rb-tree
  library made of it: the functions walk an arbitrary binary tree, and the theorems
  relate them to the in-order sequence of its nodes, which is what \<open>rb_next\<close> and
  \<open>rb_prev\<close> enumerate.
\<close>

section \<open>Entries and in-order neighbours\<close>

record rb_entry =
  ofs :: nat
  elen :: nat

definition eend :: "'a rb_entry_scheme \<Rightarrow> nat" where
  "eend re = ofs re + elen re"

text \<open>Entries are non-empty, ordered and disjoint: \<open>f2fs_check_rb_tree_consistence\<close>.\<close>

fun check_rb_tree_consistence :: "'a rb_entry_scheme list \<Rightarrow> bool" where
  "check_rb_tree_consistence (cur # nxt # rest) =
     (if eend cur > ofs nxt then False else check_rb_tree_consistence (nxt # rest))"
| "check_rb_tree_consistence _ = True"

definition disjoint_sorted :: "'a rb_entry_scheme list \<Rightarrow> bool" where
  "disjoint_sorted res \<longleftrightarrow>
     (\<forall>re \<in> set res. 0 < elen re) \<and> sorted_wrt (\<lambda>a b. eend a \<le> ofs b) res"

text \<open>The element after, and before, a node in the in-order sequence.\<close>

fun rb_next_in :: "'a rb_entry_scheme list \<Rightarrow> 'a rb_entry_scheme \<Rightarrow> 'a rb_entry_scheme option" where
  "rb_next_in (x # y # ys) re = (if x = re then Some y else rb_next_in (y # ys) re)"
| "rb_next_in _ re = None"

fun rb_prev_in :: "'a rb_entry_scheme list \<Rightarrow> 'a rb_entry_scheme \<Rightarrow> 'a rb_entry_scheme option" where
  "rb_prev_in (x # y # ys) re = (if y = re then Some x else rb_prev_in (y # ys) re)"
| "rb_prev_in _ re = None"

section \<open>Lookups\<close>

fun lookup_rb_tree_fast :: "'a rb_entry_scheme option \<Rightarrow> nat \<Rightarrow> 'a rb_entry_scheme option" where
  "lookup_rb_tree_fast None o' = None"
| "lookup_rb_tree_fast (Some re) o' = (if ofs re \<le> o' \<and> eend re > o' then Some re else None)"

fun lookup_rb_tree_slow :: "'a rb_entry_scheme tree \<Rightarrow> nat \<Rightarrow> 'a rb_entry_scheme option" where
  "lookup_rb_tree_slow Leaf o' = None"
| "lookup_rb_tree_slow (Node l re r) o' =
     (if o' < ofs re then lookup_rb_tree_slow l o'
      else if o' \<ge> eend re then lookup_rb_tree_slow r o'
      else Some re)"

definition f2fs_lookup_rb_tree :: "'a rb_entry_scheme tree \<Rightarrow> 'a rb_entry_scheme option \<Rightarrow> nat \<Rightarrow> 'a rb_entry_scheme option" where
  "f2fs_lookup_rb_tree root cached_re o' =
     (case lookup_rb_tree_fast cached_re o' of
        None \<Rightarrow> lookup_rb_tree_slow root o'
      | Some re \<Rightarrow> Some re)"

text \<open>
  \<open>f2fs_lookup_rb_tree_for_insert\<close> followed by \<open>rb_link_node\<close>: the new node becomes
  a leaf where the walk ends. \<open>None\<close> is the \<open>f2fs_bug_on\<close> of an overlapping entry;
  the second component of the result is \<open>*leftmost\<close>.
\<close>

fun f2fs_lookup_rb_tree_for_insert ::
    "'a rb_entry_scheme tree \<Rightarrow> 'a rb_entry_scheme \<Rightarrow> bool \<Rightarrow> ('a rb_entry_scheme tree \<times> bool) option" where
  "f2fs_lookup_rb_tree_for_insert Leaf new leftmost = Some (Node Leaf new Leaf, leftmost)"
| "f2fs_lookup_rb_tree_for_insert (Node l re r) new leftmost =
     (if ofs new < ofs re then
        map_option (\<lambda>(l', lm). (Node l' re r, lm)) (f2fs_lookup_rb_tree_for_insert l new leftmost)
      else if ofs new \<ge> eend re then
        map_option (\<lambda>(r', lm). (Node l re r', lm)) (f2fs_lookup_rb_tree_for_insert r new False)
      else None)"

text \<open>
  The walk of \<open>f2fs_lookup_rb_tree_ret\<close>: the entry hit, or the last node visited
  (\<open>parent\<close>).
\<close>

fun rb_walk :: "'a rb_entry_scheme tree \<Rightarrow> 'a rb_entry_scheme option \<Rightarrow> nat \<Rightarrow> 'a rb_entry_scheme option \<times> 'a rb_entry_scheme option" where
  "rb_walk Leaf parent o' = (None, parent)"
| "rb_walk (Node l re r) parent o' =
     (if o' < ofs re then rb_walk l (Some re) o'
      else if o' \<ge> eend re then rb_walk r (Some re) o'
      else (Some re, Some re))"

text \<open>The result \<open>(entry, prev_entry, next_entry)\<close> of \<open>f2fs_lookup_rb_tree_ret\<close>.\<close>

definition lookup_neighbors ::
    "'a rb_entry_scheme tree \<Rightarrow> 'a rb_entry_scheme \<Rightarrow> nat \<Rightarrow> bool \<Rightarrow>
     'a rb_entry_scheme option \<times> 'a rb_entry_scheme option \<times> 'a rb_entry_scheme option" where
  "lookup_neighbors root re o' force =
     (Some re,
      if o' = ofs re \<or> force then rb_prev_in (inorder root) re else None,
      if o' = eend re - 1 \<or> force then rb_next_in (inorder root) re else None)"

definition f2fs_lookup_rb_tree_ret ::
    "'a rb_entry_scheme tree \<Rightarrow> 'a rb_entry_scheme option \<Rightarrow> nat \<Rightarrow> bool \<Rightarrow>
     'a rb_entry_scheme option \<times> 'a rb_entry_scheme option \<times> 'a rb_entry_scheme option" where
  "f2fs_lookup_rb_tree_ret root cached_re o' force =
     (if root = Leaf then (None, None, None)
      else
        (case lookup_rb_tree_fast cached_re o' of
           Some re \<Rightarrow> lookup_neighbors root re o' force
         | None \<Rightarrow>
             (case rb_walk root None o' of
                (Some re, _) \<Rightarrow> lookup_neighbors root re o' force
              | (None, None) \<Rightarrow> (None, None, None)
              | (None, Some parent) \<Rightarrow>
                  (None,
                   if o' < ofs parent then rb_prev_in (inorder root) parent else Some parent,
                   if o' > ofs parent then rb_next_in (inorder root) parent else Some parent))))"

text \<open>\<open>swod_rb_lower_bound\<close>: the first entry that ends after a block.\<close>

fun swod_rb_lower_bound :: "'a rb_entry_scheme tree \<Rightarrow> nat \<Rightarrow> 'a rb_entry_scheme option \<Rightarrow> 'a rb_entry_scheme option" where
  "swod_rb_lower_bound Leaf blk best = best"
| "swod_rb_lower_bound (Node l re r) blk best =
     (if eend re \<le> blk then swod_rb_lower_bound r blk best
      else swod_rb_lower_bound l blk (Some re))"


section \<open>Specification on the in-order sequence\<close>

definition covers :: "nat \<Rightarrow> 'a rb_entry_scheme \<Rightarrow> bool" where
  "covers o' re \<longleftrightarrow> ofs re \<le> o' \<and> o' < eend re"

definition last_before :: "nat \<Rightarrow> 'a rb_entry_scheme list \<Rightarrow> 'a rb_entry_scheme option" where
  "last_before o' res = find (\<lambda>re. eend re \<le> o') (rev res)"

definition first_after :: "nat \<Rightarrow> 'a rb_entry_scheme list \<Rightarrow> 'a rb_entry_scheme option" where
  "first_after o' res = find (\<lambda>re. o' < ofs re) res"

lemma ofs_le_eend [simp]: "ofs re \<le> eend re"
  by (simp add: eend_def)

lemma find_append: "find P (xs @ ys) = (case find P xs of None \<Rightarrow> find P ys | Some x \<Rightarrow> Some x)"
  by (induction xs) auto

lemma find_None_all: "(\<And>x. x \<in> set xs \<Longrightarrow> \<not> P x) \<Longrightarrow> find P xs = None"
  by (auto simp: find_None_iff)

lemma find_Some_split:
  "find P xs = Some a \<Longrightarrow> \<exists>us vs. xs = us @ a # vs \<and> P a \<and> (\<forall>x \<in> set us. \<not> P x)"
proof (induction xs)
  case (Cons x xs)
  show ?case
  proof (cases "P x")
    case True
    with Cons.prems show ?thesis by (intro exI[of _ "[]"] exI[of _ xs]) auto
  next
    case False
    with Cons obtain us vs where "xs = us @ a # vs" "P a" "\<forall>x \<in> set us. \<not> P x" by auto
    with False show ?thesis by (intro exI[of _ "x # us"] exI[of _ vs]) auto
  qed
qed simp

lemma disjoint_sorted_append:
  "disjoint_sorted (xs @ ys) \<longleftrightarrow>
     disjoint_sorted xs \<and> disjoint_sorted ys \<and> (\<forall>a \<in> set xs. \<forall>b \<in> set ys. eend a \<le> ofs b)"
  by (auto simp: disjoint_sorted_def sorted_wrt_append)

lemma disjoint_sorted_Cons:
  "disjoint_sorted (x # xs) \<longleftrightarrow>
     0 < elen x \<and> disjoint_sorted xs \<and> (\<forall>b \<in> set xs. eend x \<le> ofs b)"
  by (auto simp: disjoint_sorted_def)

lemma disjoint_sorted_Nil [simp]: "disjoint_sorted []"
  by (simp add: disjoint_sorted_def)

lemmas disjoint_sorted_simps = disjoint_sorted_append disjoint_sorted_Cons

lemma disjoint_sorted_elen: "disjoint_sorted xs \<Longrightarrow> x \<in> set xs \<Longrightarrow> ofs x < eend x"
  by (simp add: disjoint_sorted_def eend_def)

lemma disjoint_sorted_check: "disjoint_sorted xs \<Longrightarrow> check_rb_tree_consistence xs"
  by (induction xs rule: check_rb_tree_consistence.induct) (auto simp: disjoint_sorted_Cons)

lemma check_disjoint_sorted:
  "check_rb_tree_consistence xs \<Longrightarrow> \<forall>x \<in> set xs. 0 < elen x \<Longrightarrow> disjoint_sorted xs"
proof (induction xs rule: check_rb_tree_consistence.induct)
  case (1 cur nxt rest)
  then have ds: "disjoint_sorted (nxt # rest)" and le: "eend cur \<le> ofs nxt"
    by (auto split: if_splits)
  have "eend cur \<le> ofs b" if "b \<in> set rest" for b
    using ds that le by (auto simp: disjoint_sorted_Cons eend_def)
  with 1 ds le show ?case by (auto simp: disjoint_sorted_Cons)
qed (auto simp: disjoint_sorted_Cons)

text \<open>An entry cannot cover a position that lies in another one.\<close>

lemma covers_unique:
  assumes "disjoint_sorted xs" "a \<in> set xs" "b \<in> set xs" "covers o' a" "covers o' b"
  shows "a = b"
  using assms by (induction xs) (fastforce simp: disjoint_sorted_Cons covers_def)+

section \<open>Correctness of the walks\<close>

lemma lookup_slow_find:
  "disjoint_sorted (inorder t) \<Longrightarrow> lookup_rb_tree_slow t o' = find (covers o') (inorder t)"
proof (induction t)
  case (Node l re r)
  have ds: "disjoint_sorted (inorder l)" "disjoint_sorted (inorder r)"
    and l: "\<And>a. a \<in> set (inorder l) \<Longrightarrow> eend a \<le> ofs re"
    and r: "\<And>b. b \<in> set (inorder r) \<Longrightarrow> eend re \<le> ofs b"
    using Node.prems by (auto simp: disjoint_sorted_simps)
  have re: "ofs re < eend re" using Node.prems by (auto intro: disjoint_sorted_elen)
  have nl: "find (covers o') (inorder l) = None" if "ofs re \<le> o'"
    using l that by (intro find_None_all) (fastforce simp: covers_def)
  have nr: "find (covers o') (inorder r) = None" if "o' < eend re"
    using r that by (intro find_None_all) (fastforce simp: covers_def)
  have c: "covers o' re \<longleftrightarrow> \<not> o' < ofs re \<and> \<not> eend re \<le> o'"
    by (auto simp: covers_def)
  show ?case
    using Node.IH(1)[OF ds(1)] Node.IH(2)[OF ds(2)] nl nr re c
    by (auto simp: find_append split: option.split)
qed simp

lemma lower_bound_find:
  "disjoint_sorted (inorder t) \<Longrightarrow>
   swod_rb_lower_bound t blk best =
     (case find (\<lambda>re. blk < eend re) (inorder t) of None \<Rightarrow> best | Some re \<Rightarrow> Some re)"
proof (induction t arbitrary: best)
  case (Node l re r)
  have ds: "disjoint_sorted (inorder l)" "disjoint_sorted (inorder r)"
    and l: "\<And>a. a \<in> set (inorder l) \<Longrightarrow> eend a \<le> ofs re"
    using Node.prems by (auto simp: disjoint_sorted_simps)
  have re: "ofs re < eend re" using Node.prems by (auto intro: disjoint_sorted_elen)
  have nl: "find (\<lambda>re. blk < eend re) (inorder l) = None" if "eend re \<le> blk"
    using l re that by (intro find_None_all) fastforce
  show ?case
    using Node.IH(1)[OF ds(1)] Node.IH(2)[OF ds(2)] nl
    by (auto simp: find_append split: option.split)
qed simp

lemma insert_inorder:
  assumes "disjoint_sorted (inorder t)" "\<forall>re \<in> set (inorder t). \<not> covers (ofs new) re"
  shows "\<exists>t' lm'. f2fs_lookup_rb_tree_for_insert t new lm = Some (t', lm') \<and>
     inorder t' = filter (\<lambda>re. ofs re < ofs new) (inorder t) @ new #
                  filter (\<lambda>re. \<not> ofs re < ofs new) (inorder t) \<and>
     (lm' \<longleftrightarrow> lm \<and> (\<forall>re \<in> set (inorder t). ofs new < ofs re))"
  using assms
proof (induction t arbitrary: lm)
  case (Node l re r)
  have ds: "disjoint_sorted (inorder l)" "disjoint_sorted (inorder r)"
    and l: "\<And>a. a \<in> set (inorder l) \<Longrightarrow> ofs a < eend a \<and> eend a \<le> ofs re"
    and r: "\<And>b. b \<in> set (inorder r) \<Longrightarrow> eend re \<le> ofs b"
    and re: "ofs re < eend re"
    using Node.prems(1) disjoint_sorted_elen[OF Node.prems(1)]
    by (auto simp: disjoint_sorted_simps)
  have nc: "\<not> covers (ofs new) re" "\<forall>re \<in> set (inorder l). \<not> covers (ofs new) re"
    "\<forall>re \<in> set (inorder r). \<not> covers (ofs new) re"
    using Node.prems(2) by auto
  show ?case
  proof (cases "ofs new < ofs re")
    case True
    obtain t' lm' where IH: "f2fs_lookup_rb_tree_for_insert l new lm = Some (t', lm')"
      "inorder t' = filter (\<lambda>re. ofs re < ofs new) (inorder l) @ new #
                    filter (\<lambda>re. \<not> ofs re < ofs new) (inorder l)"
      "lm' \<longleftrightarrow> lm \<and> (\<forall>re \<in> set (inorder l). ofs new < ofs re)"
      using Node.IH(1)[OF ds(1) nc(2), of lm] by blast
    have "filter (\<lambda>re. ofs re < ofs new) (inorder r) = []"
      "filter (\<lambda>re. \<not> ofs re < ofs new) (inorder r) = inorder r"
      using r re True by (force simp: filter_empty_conv filter_id_conv)+
    with IH True r re show ?thesis by fastforce
  next
    case False
    then have ge: "eend re \<le> ofs new" using nc(1) by (simp add: covers_def)
    obtain t' lm' where IH: "f2fs_lookup_rb_tree_for_insert r new False = Some (t', lm')"
      "inorder t' = filter (\<lambda>re. ofs re < ofs new) (inorder r) @ new #
                    filter (\<lambda>re. \<not> ofs re < ofs new) (inorder r)"
      "\<not> lm'"
      using Node.IH(2)[OF ds(2) nc(3), of False] by blast
    have "filter (\<lambda>re. \<not> ofs re < ofs new) (inorder l) = []"
      "filter (\<lambda>re. ofs re < ofs new) (inorder l) = inorder l"
      using l re ge by (force simp: filter_empty_conv filter_id_conv)+
    with IH False ge re show ?thesis by auto
  qed
qed simp

text \<open>
  In-order context of the walk: what it left behind on the left ends at or before the
  position, what it left on the right starts after it, and \<open>parent\<close> is the neighbour it
  came from.
\<close>

definition walk_ctx ::
    "'a rb_entry_scheme list \<Rightarrow> 'a rb_entry_scheme list \<Rightarrow> 'a rb_entry_scheme option \<Rightarrow> nat \<Rightarrow> bool" where
  "walk_ctx xs ys parent o' \<longleftrightarrow>
     (\<forall>a \<in> set xs. eend a \<le> o') \<and> (\<forall>b \<in> set ys. o' < ofs b) \<and>
     (case parent of None \<Rightarrow> xs = [] \<and> ys = []
      | Some p \<Rightarrow> xs \<noteq> [] \<and> last xs = p \<or> ys \<noteq> [] \<and> hd ys = p)"

lemma rb_walk_ctx:
  assumes "disjoint_sorted (xs @ inorder t @ ys)" "walk_ctx xs ys parent o'"
  shows "case rb_walk t parent o' of
      (Some re, _) \<Rightarrow> re \<in> set (inorder t) \<and> covers o' re
    | (None, parent') \<Rightarrow>
        (\<exists>xs' ys'. xs' @ ys' = xs @ inorder t @ ys \<and> walk_ctx xs' ys' parent' o')"
  using assms
proof (induction t arbitrary: xs ys parent)
  case (Node l re r)
  have l: "\<And>a. a \<in> set (inorder l) \<Longrightarrow> eend a \<le> ofs re"
    and r: "\<And>b. b \<in> set (inorder r) \<Longrightarrow> eend re \<le> ofs b"
    and re: "ofs re < eend re"
    using Node.prems(1) by (auto simp: disjoint_sorted_simps eend_def)
  consider "o' < ofs re" | "ofs re \<le> o'" "eend re \<le> o'" | "ofs re \<le> o'" "o' < eend re"
    by linarith
  then show ?case
  proof cases
    case 1
    have "walk_ctx xs (re # inorder r @ ys) (Some re) o'"
      using Node.prems(2) 1 r re by (fastforce simp: walk_ctx_def)
    then show ?thesis
      using Node.IH(1)[of xs "re # inorder r @ ys" "Some re"] Node.prems(1) 1
      by (auto split: prod.splits option.splits)
  next
    case 2
    have "walk_ctx (xs @ inorder l @ [re]) ys (Some re) o'"
      using Node.prems(2) 2 l by (fastforce simp: walk_ctx_def)
    then show ?thesis
      using Node.IH(2)[of "xs @ inorder l @ [re]" ys "Some re"] Node.prems(1) 2
      by (auto split: prod.splits option.splits)
  next
    case 3
    then show ?thesis by (simp add: covers_def)
  qed
qed (auto split: option.splits)

lemma disjoint_sorted_distinct: "disjoint_sorted xs \<Longrightarrow> distinct xs"
  by (induction xs) (fastforce simp: disjoint_sorted_Cons eend_def)+

lemma rb_next_in_split:
  "distinct (xs @ re # ys) \<Longrightarrow> rb_next_in (xs @ re # ys) re = (case ys of [] \<Rightarrow> None | y # _ \<Rightarrow> Some y)"
proof (induction xs)
  case Nil
  then show ?case by (cases ys) auto
next
  case (Cons x xs)
  then show ?case by (cases xs) auto
qed

lemma rb_prev_in_notin: "re \<notin> set ys \<Longrightarrow> rb_prev_in (y # ys) re = None"
  by (induction ys arbitrary: y) auto

lemma rb_prev_in_split:
  "distinct (xs @ re # ys) \<Longrightarrow> rb_prev_in (xs @ re # ys) re = (if xs = [] then None else Some (last xs))"
proof (induction xs)
  case Nil
  then show ?case by (simp add: rb_prev_in_notin)
next
  case (Cons x xs)
  then show ?case by (cases xs) auto
qed

lemma last_before_split:
  assumes "\<forall>a \<in> set xs. eend a \<le> o'" "\<forall>b \<in> set ys. o' < eend b"
  shows "last_before o' (xs @ ys) = (if xs = [] then None else Some (last xs))"
proof -
  have "find (\<lambda>re. eend re \<le> o') (rev ys) = None"
    using assms(2) by (intro find_None_all) fastforce
  moreover have "find (\<lambda>re. eend re \<le> o') (rev xs) = (if xs = [] then None else Some (last xs))"
    using assms(1) by (cases xs rule: rev_cases) auto
  ultimately show ?thesis by (simp add: last_before_def find_append)
qed

lemma first_after_split:
  assumes "\<forall>a \<in> set xs. ofs a \<le> o'" "\<forall>b \<in> set ys. o' < ofs b"
  shows "first_after o' (xs @ ys) = (case ys of [] \<Rightarrow> None | y # _ \<Rightarrow> Some y)"
proof -
  have "find (\<lambda>re. o' < ofs re) xs = None"
    using assms(1) by (intro find_None_all) fastforce
  with assms(2) show ?thesis by (cases ys) (auto simp: first_after_def find_append)
qed

text \<open>The three results when an entry is hit, and when none is.\<close>

lemma neighbors_hit:
  assumes ds: "disjoint_sorted (xs @ re # ys)" and c: "covers o' re"
  shows "find (covers o') (xs @ re # ys) = Some re"
    and "last_before o' (xs @ re # ys) = rb_prev_in (xs @ re # ys) re"
    and "first_after o' (xs @ re # ys) = rb_next_in (xs @ re # ys) re"
proof -
  have l: "\<forall>a \<in> set xs. eend a \<le> ofs re" and r: "\<forall>b \<in> set ys. eend re \<le> ofs b"
    and ne: "\<forall>a \<in> set (xs @ re # ys). ofs a < eend a"
    using ds disjoint_sorted_elen[OF ds] by (auto simp: disjoint_sorted_simps)
  have d: "distinct (xs @ re # ys)" using ds by (rule disjoint_sorted_distinct)
  have "find (covers o') xs = None"
    using l c by (intro find_None_all) (fastforce simp: covers_def)
  with c show "find (covers o') (xs @ re # ys) = Some re" by (simp add: find_append)
  have "last_before o' (xs @ (re # ys)) = (if xs = [] then None else Some (last xs))"
  proof (rule last_before_split)
    show "\<forall>a \<in> set xs. eend a \<le> o'" using l c by (fastforce simp: covers_def)
    have "o' < eend b" if "b \<in> set ys" for b
    proof -
      have "eend re \<le> ofs b" "ofs b < eend b" "o' < eend re"
        using r c ne that by (simp_all add: covers_def)
      then show ?thesis by linarith
    qed
    with c show "\<forall>b \<in> set (re # ys). o' < eend b" by (simp add: covers_def)
  qed
  with d show "last_before o' (xs @ re # ys) = rb_prev_in (xs @ re # ys) re"
    by (simp add: rb_prev_in_split)
  have "first_after o' ((xs @ [re]) @ ys) = (case ys of [] \<Rightarrow> None | y # _ \<Rightarrow> Some y)"
  proof (rule first_after_split)
    have "ofs a \<le> o'" if "a \<in> set xs" for a
    proof -
      have "eend a \<le> ofs re" "ofs re \<le> o'" using l c that by (simp_all add: covers_def)
      then show ?thesis using ofs_le_eend[of a] by linarith
    qed
    with c show "\<forall>a \<in> set (xs @ [re]). ofs a \<le> o'" by (auto simp: covers_def)
    show "\<forall>b \<in> set ys. o' < ofs b" using r c less_le_trans by (fastforce simp: covers_def)
  qed
  with d show "first_after o' (xs @ re # ys) = rb_next_in (xs @ re # ys) re"
    by (simp add: rb_next_in_split)
qed

lemma neighbors_miss:
  assumes ds: "disjoint_sorted (xs @ ys)" and ctx: "walk_ctx xs ys (Some p) o'"
  shows "find (covers o') (xs @ ys) = None"
    and "last_before o' (xs @ ys) = (if o' < ofs p then rb_prev_in (xs @ ys) p else Some p)"
    and "first_after o' (xs @ ys) = (if o' > ofs p then rb_next_in (xs @ ys) p else Some p)"
proof -
  have l: "\<forall>a \<in> set xs. eend a \<le> o'" and r: "\<forall>b \<in> set ys. o' < ofs b"
    and p: "xs \<noteq> [] \<and> last xs = p \<or> ys \<noteq> [] \<and> hd ys = p"
    using ctx by (auto simp: walk_ctx_def)
  have ne: "\<forall>a \<in> set (xs @ ys). ofs a < eend a"
    using disjoint_sorted_elen[OF ds] by blast
  have d: "distinct (xs @ ys)" using ds by (rule disjoint_sorted_distinct)
  show "find (covers o') (xs @ ys) = None"
    using l r by (intro find_None_all) (fastforce simp: covers_def)
  have lb: "last_before o' (xs @ ys) = (if xs = [] then None else Some (last xs))"
  proof (rule last_before_split [OF l])
    have "o' < eend b" if "b \<in> set ys" for b
      using r ne that order.strict_trans[of o' "ofs b" "eend b"] by simp
    then show "\<forall>b \<in> set ys. o' < eend b" by blast
  qed
  have fa: "first_after o' (xs @ ys) = (case ys of [] \<Rightarrow> None | y # _ \<Rightarrow> Some y)"
  proof (rule first_after_split [OF _ r])
    have "ofs a \<le> o'" if "a \<in> set xs" for a
      using l that ofs_le_eend[of a] order.trans by blast
    then show "\<forall>a \<in> set xs. ofs a \<le> o'" by blast
  qed
  have left: "\<not> o' < ofs p \<and> ofs p < o'" if "xs \<noteq> [] \<and> last xs = p"
  proof -
    have "p \<in> set xs" using that last_in_set by blast
    with l ne have "eend p \<le> o'" "ofs p < eend p" by auto
    then show ?thesis by linarith
  qed
  have right: "ys \<noteq> [] \<and> hd ys = p \<Longrightarrow> o' < ofs p" using r by auto
  have split_left: "xs \<noteq> [] \<Longrightarrow> xs @ ys = butlast xs @ last xs # ys" by simp
  show "last_before o' (xs @ ys) = (if o' < ofs p then rb_prev_in (xs @ ys) p else Some p)"
    using p
  proof
    assume "xs \<noteq> [] \<and> last xs = p"
    with lb left show ?thesis by simp
  next
    assume a: "ys \<noteq> [] \<and> hd ys = p"
    then have "rb_prev_in (xs @ ys) p = (if xs = [] then None else Some (last xs))"
      using d rb_prev_in_split[of xs p "tl ys"] by (metis list.collapse)
    with lb right[OF a] show ?thesis by simp
  qed
  show "first_after o' (xs @ ys) = (if o' > ofs p then rb_next_in (xs @ ys) p else Some p)"
    using p
  proof
    assume a: "xs \<noteq> [] \<and> last xs = p"
    then have "rb_next_in (xs @ ys) p = (case ys of [] \<Rightarrow> None | y # _ \<Rightarrow> Some y)"
      using d rb_next_in_split[of "butlast xs" p ys] split_left by metis
    with fa left[OF a] show ?thesis by simp
  next
    assume a: "ys \<noteq> [] \<and> hd ys = p"
    with fa right[OF a] show ?thesis by (auto split: list.split)
  qed
qed

lemma lookup_ret_spec:
  assumes ds: "disjoint_sorted (inorder t)"
  shows "f2fs_lookup_rb_tree_ret t None o' True =
     (find (covers o') (inorder t), last_before o' (inorder t), first_after o' (inorder t))"
proof (cases "t = Leaf")
  case True
  then show ?thesis
    by (simp add: f2fs_lookup_rb_tree_ret_def last_before_def first_after_def)
next
  case False
  have ctx: "walk_ctx [] [] None o'" by (simp add: walk_ctx_def)
  note walk = rb_walk_ctx[of "[]" t "[]" None o', simplified, OF ds ctx]
  show ?thesis
  proof (cases "fst (rb_walk t None o')")
    case (Some re)
    then obtain par where w: "rb_walk t None o' = (Some re, par)" by (cases "rb_walk t None o'") auto
    with walk have "re \<in> set (inorder t)" and c: "covers o' re" by auto
    then obtain xs ys where s: "inorder t = xs @ re # ys" by (meson split_list)
    show ?thesis
      using neighbors_hit[of xs re ys o'] ds c w False
      by (simp add: f2fs_lookup_rb_tree_ret_def lookup_neighbors_def s)
  next
    case None
    then obtain par where w: "rb_walk t None o' = (None, par)" by (cases "rb_walk t None o'") auto
    with walk obtain xs ys where s: "xs @ ys = inorder t" and c: "walk_ctx xs ys par o'"
      by auto
    note s = s [symmetric]
    have "xs @ ys \<noteq> []" using False s by (cases t) auto
    with c obtain p where p: "par = Some p" by (cases par) (auto simp: walk_ctx_def)
    show ?thesis
      using neighbors_miss[of xs ys p o'] ds c w False
      by (simp add: f2fs_lookup_rb_tree_ret_def s p)
  qed
qed

section \<open>The interface of an ordered interval index\<close>

text \<open>
  What the clients of the trees rely on: a lookup returns the entry that covers a
  position with the entries before and after it. Insertion of an entry that overlaps
  none puts it in its place.
\<close>

lemma miss_split:
  assumes "disjoint_sorted cmds" "\<forall>c \<in> set cmds. \<not> covers lo c"
  shows "\<exists>xs ys. cmds = xs @ ys \<and> (\<forall>a \<in> set xs. eend a \<le> lo) \<and> (\<forall>b \<in> set ys. lo < ofs b)"
  using assms
proof (induction cmds)
  case (Cons c cmds)
  show ?case
  proof (cases "eend c \<le> lo")
    case True
    then obtain xs ys where "cmds = xs @ ys" "\<forall>a \<in> set xs. eend a \<le> lo" "\<forall>b \<in> set ys. lo < ofs b"
      using Cons by (auto simp: disjoint_sorted_Cons)
    with True show ?thesis by (intro exI[of _ "c # xs"] exI[of _ ys]) simp
  next
    case False
    then have "lo < ofs c" using Cons.prems(2) by (auto simp: covers_def)
    moreover have "lo < ofs b" if "b \<in> set cmds" for b
      using Cons.prems(1) that False by (auto simp: disjoint_sorted_Cons)
    ultimately show ?thesis by (intro exI[of _ "[]"] exI[of _ "c # cmds"]) auto
  qed
qed simp

locale interval_index =
  fixes seq :: "'t \<Rightarrow> 'a rb_entry_scheme list"
    and look :: "'t \<Rightarrow> nat \<Rightarrow> 'a rb_entry_scheme option \<times> 'a rb_entry_scheme option \<times> 'a rb_entry_scheme option"
    and ins :: "'t \<Rightarrow> 'a rb_entry_scheme \<Rightarrow> 't option"
  assumes look_spec: "disjoint_sorted (seq t) \<Longrightarrow>
      look t p = (find (covers p) (seq t), last_before p (seq t), first_after p (seq t))"
    and ins_spec: "disjoint_sorted (seq t) \<Longrightarrow> \<forall>re \<in> set (seq t). \<not> covers (ofs new) re \<Longrightarrow>
      \<exists>t'. ins t new = Some t' \<and>
        seq t' = filter (\<lambda>re. ofs re < ofs new) (seq t) @ new # filter (\<lambda>re. \<not> ofs re < ofs new) (seq t)"
begin

lemma hit_covers:
  "disjoint_sorted (seq t) \<Longrightarrow> look t p = (Some re, pr, nx) \<Longrightarrow> re \<in> set (seq t) \<and> covers p re"
  using look_spec[of t p] by (auto simp: find_Some_iff)

text \<open>A hit is found exactly when some entry covers the position.\<close>

lemma hit_iff:
  "disjoint_sorted (seq t) \<Longrightarrow> fst (look t p) \<noteq> None \<longleftrightarrow> (\<exists>re \<in> set (seq t). covers p re)"
  using look_spec[of t p] by (auto simp: find_None_iff simp del: not_None_eq)

text \<open>Between the neighbours there is no other entry.\<close>

lemma neighbours_bracket:
  assumes "disjoint_sorted (seq t)" "look t p = (None, Some a, Some b)"
  shows "eend a \<le> p \<and> p < ofs b \<and> (\<forall>re \<in> set (seq t). ofs re \<le> ofs a \<or> ofs b \<le> ofs re)"
proof -
  have lb: "last_before p (seq t) = Some a" and fa: "first_after p (seq t) = Some b"
    and nc: "\<forall>re \<in> set (seq t). \<not> covers p re"
    using look_spec[OF assms(1), of p] assms(2) find_None_iff[of "covers p" "seq t"] by auto
  obtain xs ys where s: "rev (seq t) = xs @ a # ys" "eend a \<le> p" "\<forall>x \<in> set xs. \<not> eend x \<le> p"
    using lb find_Some_split[of _ "rev (seq t)" a] unfolding last_before_def by blast
  obtain us vs where u: "seq t = us @ b # vs" "p < ofs b" "\<forall>x \<in> set us. \<not> p < ofs x"
    using fa find_Some_split[of _ "seq t" b] unfolding first_after_def by blast
  have "ofs re \<le> ofs a \<or> ofs b \<le> ofs re" if re: "re \<in> set (seq t)" for re
  proof (cases "p < ofs re")
    case True
    with u re have "re = b \<or> re \<in> set vs" by auto
    then show ?thesis
    proof
      assume "re \<in> set vs"
      then have "eend b \<le> ofs re" using assms(1) u(1) by (auto simp: disjoint_sorted_simps)
      then show ?thesis using ofs_le_eend[of b] by linarith
    qed simp
  next
    case False
    then have "eend re \<le> p" using nc re by (auto simp: covers_def)
    with s re have "re = a \<or> re \<in> set ys" by (metis Un_iff set_ConsD set_append set_rev)
    moreover have "seq t = rev ys @ a # rev xs" using s(1) by (metis append.assoc append_Cons append_Nil rev.simps(2) rev_append rev_rev_ident)
    ultimately have "re = a \<or> eend re \<le> ofs a" using assms(1) by (auto simp: disjoint_sorted_simps)
    then show ?thesis using order.trans[OF ofs_le_eend[of re], of "ofs a"] by blast
  qed
  with s(2) u(2) show ?thesis by blast
qed

text \<open>Inserting a non-empty entry that overlaps none keeps the order.\<close>

lemma ins_disjoint_sorted:
  assumes ds: "disjoint_sorted (seq t)" and ne: "0 < elen new"
    and apart: "\<forall>re \<in> set (seq t). eend re \<le> ofs new \<or> eend new \<le> ofs re"
  shows "\<exists>t'. ins t new = Some t' \<and> disjoint_sorted (seq t') \<and> set (seq t') = insert new (set (seq t))"
proof -
  have new: "ofs new < eend new" using ne by (simp add: eend_def)
  have nc: "\<forall>re \<in> set (seq t). \<not> covers (ofs new) re"
    using apart new by (auto simp: covers_def)
  obtain t' where t': "ins t new = Some t'"
    "seq t' = filter (\<lambda>re. ofs re < ofs new) (seq t) @ new # filter (\<lambda>re. \<not> ofs re < ofs new) (seq t)"
    using ins_spec[OF ds nc] by blast
  have "disjoint_sorted (filter P (seq t))" for P
    using ds by (auto simp: disjoint_sorted_def intro: sorted_wrt_filter)
  moreover have "eend a \<le> ofs new" if "a \<in> set (seq t)" "ofs a < ofs new" for a
    using apart that new ofs_le_eend[of new] by fastforce
  moreover have "eend new \<le> ofs b" if "b \<in> set (seq t)" "\<not> ofs b < ofs new" for b
  proof -
    have "ofs b < eend b" using disjoint_sorted_elen[OF ds that(1)] .
    with apart that show ?thesis by fastforce
  qed
  ultimately have "disjoint_sorted (seq t')"
    using ne ofs_le_eend[of new] unfolding t'(2) by (fastforce simp: disjoint_sorted_simps)
  with t' show ?thesis by auto
qed

end

interpretation rbt: interval_index inorder
  "\<lambda>t p. f2fs_lookup_rb_tree_ret t None p True"
  "\<lambda>t new. map_option fst (f2fs_lookup_rb_tree_for_insert t new True)"
proof unfold_locales
  fix t :: "'a rb_entry_scheme tree" and p
  assume "disjoint_sorted (inorder t)"
  then show "f2fs_lookup_rb_tree_ret t None p True =
      (find (covers p) (inorder t), last_before p (inorder t), first_after p (inorder t))"
    by (rule lookup_ret_spec)
next
  fix t :: "'a rb_entry_scheme tree" and new :: "'a rb_entry_scheme"
  assume "disjoint_sorted (inorder t)" "\<forall>re \<in> set (inorder t). \<not> covers (ofs new) re"
  then show "\<exists>t'. map_option fst (f2fs_lookup_rb_tree_for_insert t new True) = Some t' \<and>
      inorder t' = filter (\<lambda>re. ofs re < ofs new) (inorder t) @ new #
                   filter (\<lambda>re. \<not> ofs re < ofs new) (inorder t)"
    using insert_inorder[of t new True] by fastforce
qed

end
