(* ===== verification/Dcc_Types.thy ===== *)
theory Dcc_Types
  imports F2fs_Sb Rb_Tree
begin

text \<open>
  The data structures of the discard machinery: discard commands and policies and
  \<open>struct discard_cmd_control\<close> (\<open>f2fs.h\<close>), the SWOD hints and controller
  (\<open>swod.h\<close>). C arrays indexed by segment or group are functions on natural numbers,
  so that an access outside the array is visible in the model; the statistics counters
  of the controller are a record of their own. A discard command is identified by
  \<open>dc_id\<close>, its address.
\<close>

section \<open>Discard commands\<close>

datatype dc_state_t = D_PREP | D_PARTIAL | D_SUBMIT | D_DONE

text \<open>
  \<open>struct discard_info\<close> overlays \<open>struct rb_entry\<close> (\<open>lstart\<close> is \<open>ofs\<close>, \<open>len\<close> is
  \<open>elen\<close>), which is what the casts around the tree lookups rely on.
\<close>

record discard_info = rb_entry +
  pstart :: nat                 \<comment> \<open>\<open>start\<close>: address inside the device\<close>

abbreviation lstart :: "'a rb_entry_scheme \<Rightarrow> nat" where
  "lstart \<equiv> ofs"

abbreviation dlen :: "'a rb_entry_scheme \<Rightarrow> nat" where
  "dlen \<equiv> elen"

datatype dpolicy_type = DPOLICY_BG | DPOLICY_FORCE | DPOLICY_FSTRIM | DPOLICY_UMOUNT

record discard_cmd = discard_info +
  dc_id :: nat
  bdev :: nat
  dc_ref :: nat
  dc_state :: dc_state_t
  queued :: nat
  dc_error :: int
  bio_ref :: nat
  submit_time :: nat
  policy_type :: "dpolicy_type option"   \<comment> \<open>\<open>None\<close> is \<open>-1\<close>\<close>
  orig_len :: nat
  enq_jiffies :: jiffies_t
  swod_skip :: bool

record discard_policy =
  dp_type :: dpolicy_type
  min_interval :: nat
  mid_interval :: nat
  max_interval :: nat
  max_requests :: nat
  io_aware_gran :: nat
  io_aware :: bool
  dp_sync :: bool
  ordered :: bool
  dp_timeout :: bool
  granularity :: nat

section \<open>SWOD hints and controller\<close>

datatype swod_group_state = SWOD_G_NORMAL | SWOD_G_HELD | SWOD_G_PARKED

datatype swod_action = SWOD_ACT_BYPASS | SWOD_ACT_SHORT_HOLD | SWOD_ACT_COMPLETION_HOLD

datatype swod_release_reason = SWOD_REL_SUCCESS | SWOD_REL_TIMEOUT | SWOD_REL_PRESSURE
  | SWOD_REL_CAPTURE | SWOD_REL_MATURE | SWOD_REL_BYPASS

text \<open>The formation fields \<open>last_pend_blks\<close>, \<open>last_nr_cmds\<close> and \<open>last_sample_jiffies\<close> of a
  segment hint are never read or written and are left out.\<close>

record swod_seg_hint =
  pend_blks :: nat
  nr_cmds :: nat
  oldest_jiffies :: jiffies_t

record swod_group_hint =
  g_state :: swod_group_state
  g_action :: swod_action
  wce_eligible :: bool
  hold_off :: nat
  hold_len :: nat
  hold_qbp :: nat
  hold_lbp :: nat
  park_score :: nat
  hold_until :: jiffies_t
  park_until :: jiffies_t
  last_eval :: jiffies_t
  start_qbp :: nat
  start_lbp :: nat
  start_nr_cmds :: nat
  start_avg_piece :: nat
  last_qbp :: nat
  last_lbp :: nat
  last_nr_cmds :: nat
  last_avg_piece :: nat
  last_q_growth :: int
  last_cmd_growth :: int

text \<open>The \<open>atomic64_t\<close> statistics of \<open>struct swod_ctrl\<close>.\<close>

record swod_stats =
  hold_cnt :: nat
  skip_cnt :: nat
  skip_check_cnt :: nat
  skip_miss_noheld_cnt :: nat
  skip_miss_timeout_cnt :: nat
  skip_miss_success_cnt :: nat
  skip_miss_overlap_cnt :: nat
  eval_blocked_cnt :: nat
  eval_no_candidate_cnt :: nat
  success_release_cnt :: nat
  timeout_release_cnt :: nat
  pressure_release_cnt :: nat
  gc_pick_bg_cnt :: nat
  gc_pick_fg_cnt :: nat
  gc_fallback_cnt :: nat
  frag_ipu_pick_cnt :: nat
  frag_ipu_skip_target_cnt :: nat
  frag_ipu_skip_hot_cnt :: nat
  frag_ipu_skip_age_cnt :: nat
  frag_ipu_skip_shape_cnt :: nat
  short_hold_cnt :: nat
  completion_hold_cnt :: nat
  capture_followup_cnt :: nat
  capture_blocks :: nat
  coverage_gain_blocks :: int
  start_nr_cmds_sum :: nat
  release_nr_cmds_sum :: nat
  wce_eligible_cnt :: nat
  wce_blocked_low_maturity_cnt :: nat
  wce_blocked_high_lres_cnt :: nat
  overlap_bypass_cnt :: nat
  policy_bypass_cnt :: nat
  capture_release_cnt :: nat
  mature_release_cnt :: nat
  bypass_release_cnt :: nat

record swod_ctrl =
  nr_main_segs :: nat
  win_segs :: nat
  nr_groups :: nat
  nr_held_groups :: nat
  nr_parked_groups :: nat
  nr_wce_groups :: int
  seg_hint :: "nat \<Rightarrow> swod_seg_hint"
  grp_hint :: "nat \<Rightarrow> swod_group_hint"
  hold_segmap :: bitmap
  park_segmap :: bitmap
  wce_segmap :: bitmap
  stats :: swod_stats
  eval_batch_size :: nat
  eval_next_gid :: nat
  eval_running :: int
  eval_pending :: "nat option"   \<comment> \<open>delay in ms of the queued \<open>eval_work\<close>\<close>

section \<open>Discard command control\<close>

text \<open>The SWOD tunables of \<open>struct discard_cmd_control\<close>, set by mount code and sysfs.\<close>

record swod_tunables =
  swod_enable :: nat
  swod_win_segs :: nat
  swod_qcov_thr_bp :: nat
  swod_lres_thr_bp :: nat
  swod_hold_min_ms :: nat
  swod_hold_max_ms :: nat
  swod_hold_scale_bp :: nat
  swod_cmd_pressure :: nat
  swod_blk_pressure :: nat
  swod_max_held_groups :: nat
  swod_formation_enable :: nat
  swod_short_hold_min_ms :: nat
  swod_short_hold_max_ms :: nat
  swod_frag_min_cmds :: nat
  swod_frag_max_avg_piece_blks :: nat
  swod_frag_min_pend_blks :: nat
  swod_growth_min_bp :: nat
  swod_wce_qcov_thr_bp :: nat
  swod_wce_lres_thr_bp :: nat
  swod_overlap_skip_ratio_bp :: nat
  swod_completion_enable :: nat
  swod_gc_bg_enable :: nat
  swod_gc_fg_enable :: nat
  swod_frag_ipu_enable :: nat
  swod_frag_ipu_max_pend_blks :: nat
  swod_frag_ipu_min_cmds :: nat
  swod_frag_ipu_age_ms :: nat
  swod_frag_ipu_skip_hot :: nat

text \<open>
  \<open>root\<close> is the in-order sequence of the rb-tree of commands (\<open>Rb_Tree\<close> shows that the
  tree walks of the code compute on it what the list functions do); \<open>pend_list\<close>,
  \<open>wait_list\<close> and \<open>fstrim_list\<close> hold command addresses. \<open>next_id\<close> is the slab
  allocator: the next unused address. The thread handle, the wait queue, the mutex and the
  entry list of small discards are not state of the operations modelled here.
\<close>

record discard_cmd_control =
  root :: "discard_cmd list"
  pend_list :: "nat \<Rightarrow> nat list"
  wait_list :: "nat list"
  fstrim_list :: "nat list"
  next_id :: nat
  discard_wake :: bool
  discard_granularity :: nat
  undiscard_blks :: nat
  next_pos :: nat
  issued_discard :: int
  queued_discard :: int
  discard_cmd_cnt :: nat
  discard_back_only_merge_cnt :: nat
  discard_front_only_merge_cnt :: nat
  discard_both_merge_cnt :: nat
  tun :: swod_tunables
  swod :: "swod_ctrl option"

definition SWOD_BP_ONE :: nat where "SWOD_BP_ONE = 10000"
definition SWOD_MAX_WIN_SEGS :: nat where "SWOD_MAX_WIN_SEGS = 16"
definition SWOD_WCE_PARK_MIN_MS :: nat where "SWOD_WCE_PARK_MIN_MS = 500"
definition SWOD_WCE_PARK_MAX_MS :: nat where "SWOD_WCE_PARK_MAX_MS = 2000"
definition SWOD_WCE_PARK_LRES_CAP_BP :: nat where "SWOD_WCE_PARK_LRES_CAP_BP = 2000"
definition DEF_DISCARD_URGENT_UTIL :: nat where "DEF_DISCARD_URGENT_UTIL = 80"

lemmas swod_consts = SWOD_BP_ONE_def SWOD_MAX_WIN_SEGS_def SWOD_WCE_PARK_MIN_MS_def
  SWOD_WCE_PARK_MAX_MS_def SWOD_WCE_PARK_LRES_CAP_BP_def DEF_DISCARD_URGENT_UTIL_def

end
