(* ===== verification/Swod_Window.thy ===== *)
theory Swod_Window
  imports Dcc_Types
begin

text \<open>
  The group windows of SWOD (first half of \<open>swod.c\<close>): group arithmetic, hold and park
  times, clearing a group, installing a held window, parking, dropping and releasing it,
  and the invariant that ties the group hints to the bitmaps and counters. A function of
  the source that dereferences \<open>dcc->swod\<close> takes the controller \<open>sw\<close> as an argument
  and returns the updated one.
\<close>

section \<open>Group arithmetic\<close>

definition swod_enabled :: "discard_cmd_control option \<Rightarrow> bool" where
  "swod_enabled dcc =
     (case dcc of None \<Rightarrow> False | Some d \<Rightarrow> swod_enable (tun d) \<noteq> 0 \<and> swod d \<noteq> None)"

definition swod_gid :: "swod_ctrl \<Rightarrow> nat \<Rightarrow> nat" where
  "swod_gid sw segno = segno div win_segs sw"

definition swod_group_first_seg :: "swod_ctrl \<Rightarrow> nat \<Rightarrow> nat" where
  "swod_group_first_seg sw gid = gid * win_segs sw"

definition swod_group_nsegs :: "swod_ctrl \<Rightarrow> nat \<Rightarrow> nat" where
  "swod_group_nsegs sw gid =
     (let first = swod_group_first_seg sw gid
      in if first \<ge> nr_main_segs sw then 0 else min (win_segs sw) (nr_main_segs sw - first))"

definition swod_is_urgent :: "f2fs_sb_info \<Rightarrow> bool" where
  "swod_is_urgent sbi \<longleftrightarrow> sb_gc_mode sbi = GC_URGENT_HIGH \<or> sb_gc_mode sbi = GC_URGENT_LOW"

definition swod_max_hold_len :: "f2fs_sb_info \<Rightarrow> swod_ctrl \<Rightarrow> nat \<Rightarrow> nat" where
  "swod_max_hold_len sbi sw gid =
     (let n = swod_group_nsegs sw gid
      in if sb_gc_mode sbi = GC_URGENT_HIGH then min n 1
         else if sb_gc_mode sbi = GC_URGENT_LOW then min n 2
         else n)"

definition swod_default_win_segs :: "f2fs_sb_info \<Rightarrow> nat" where
  "swod_default_win_segs sbi =
     (case max_discard_sectors sbi of
        None \<Rightarrow> 1
      | Some sectors \<Rightarrow>
          (let seg_bytes = SEGMENT_SIZE sbi;
               max_bytes = sectors * 2 ^ 9
           in if max_bytes = 0 \<or> seg_bytes = 0 then 1
              else (let n = u32 (max_bytes div seg_bytes);
                        n = (if n = 0 then 1 else n);
                        n = (if n > 4 then 4 else n)
                    in if n > SWOD_MAX_WIN_SEGS then SWOD_MAX_WIN_SEGS else n)))"

definition swod_regime_blocked ::
    "f2fs_sb_info \<Rightarrow> discard_cmd_control \<Rightarrow> discard_policy option \<Rightarrow> bool" where
  "swod_regime_blocked sbi dcc dpolicy =
     (if \<not> swod_enabled (Some dcc) then True
      else if (case dpolicy of None \<Rightarrow> False | Some dp \<Rightarrow> dp_type dp \<noteq> DPOLICY_BG) \<and> \<not> swod_is_urgent sbi
        then True
      else if utilization sbi > DEF_DISCARD_URGENT_UTIL then True
      else if \<not> f2fs_available_free_memory sbi (discard_cmd_cnt dcc) then True
      else False)"

section \<open>Hold and park times\<close>

definition swod_calc_hold_ms :: "swod_tunables \<Rightarrow> nat \<Rightarrow> nat \<Rightarrow> nat \<Rightarrow> nat" where
  "swod_calc_hold_ms t run_len qcov_bp lres_bp =
     (let hold = swod_hold_min_ms t;
          hold = (if run_len > 1 then u32 (hold + u32 ((run_len - 1) * 10)) else hold);
          hold = (if qcov_bp > swod_qcov_thr_bp t
                  then u32 (hold + (qcov_bp - swod_qcov_thr_bp t) div 100) else hold);
          hold = (if swod_lres_thr_bp t > lres_bp
                  then u32 (hold + (swod_lres_thr_bp t - lres_bp) div 100) else hold);
          hold = (if swod_hold_scale_bp t \<noteq> 0
                  then u32 (hold * swod_hold_scale_bp t div SWOD_BP_ONE) else hold);
          hold = (if hold < swod_hold_min_ms t then swod_hold_min_ms t else hold)
      in if hold > swod_hold_max_ms t then swod_hold_max_ms t else hold)"

definition swod_group_is_active :: "swod_group_hint \<Rightarrow> bool" where
  "swod_group_is_active g \<longleftrightarrow> g_state g = SWOD_G_HELD \<or> g_state g = SWOD_G_PARKED"

definition swod_group_deadline :: "swod_group_hint \<Rightarrow> jiffies_t" where
  "swod_group_deadline g = (if g_state g = SWOD_G_PARKED then park_until g else hold_until g)"

definition swod_calc_park_ms :: "swod_tunables \<Rightarrow> nat \<Rightarrow> nat \<Rightarrow> nat \<Rightarrow> nat" where
  "swod_calc_park_ms t run_len qcov_bp lres_bp =
     (let park = swod_calc_hold_ms t run_len qcov_bp lres_bp;
          park = u32 (park * 4);
          park = (if park < swod_hold_max_ms t then swod_hold_max_ms t else park);
          park = (if park < SWOD_WCE_PARK_MIN_MS then SWOD_WCE_PARK_MIN_MS else park)
      in if park > SWOD_WCE_PARK_MAX_MS then SWOD_WCE_PARK_MAX_MS else park)"

definition swod_park_budget :: "swod_tunables \<Rightarrow> nat" where
  "swod_park_budget t = max 4 (swod_max_held_groups t div 2)"

definition swod_calc_short_hold_ms :: "f2fs_sb_info \<Rightarrow> swod_tunables \<Rightarrow> nat" where
  "swod_calc_short_hold_ms sbi t =
     (let hold = swod_short_hold_min_ms t;
          range = sub32 (swod_short_hold_max_ms t) (swod_short_hold_min_ms t)
      in if range \<noteq> 0 then u32 (hold + get_random_u32 sbi mod range) else hold)"

section \<open>Clearing and accounting\<close>

definition group_cleared :: "jiffies_t \<Rightarrow> swod_group_hint" where
  "group_cleared now = \<lparr>
     g_state = SWOD_G_NORMAL, g_action = SWOD_ACT_BYPASS, wce_eligible = False,
     hold_off = 0, hold_len = 0, hold_qbp = 0, hold_lbp = 0, park_score = 0,
     hold_until = 0, park_until = 0, last_eval = now,
     start_qbp = 0, start_lbp = 0, start_nr_cmds = 0, start_avg_piece = 0,
     last_qbp = 0, last_lbp = 0, last_nr_cmds = 0, last_avg_piece = 0,
     last_q_growth = 0, last_cmd_growth = 0 \<rparr>"

definition swod_clear_group_locked :: "f2fs_sb_info \<Rightarrow> swod_ctrl \<Rightarrow> nat \<Rightarrow> swod_ctrl" where
  "swod_clear_group_locked sbi sw gid =
     (let g = grp_hint sw gid;
          first = swod_group_first_seg sw gid;
          nsegs = swod_group_nsegs sw gid;
          held = (if g_state g = SWOD_G_HELD \<and> nr_held_groups sw \<noteq> 0
                  then nr_held_groups sw - 1 else nr_held_groups sw);
          parked = (if \<not> (g_state g = SWOD_G_HELD \<and> nr_held_groups sw \<noteq> 0)
                       \<and> g_state g = SWOD_G_PARKED \<and> nr_parked_groups sw \<noteq> 0
                    then nr_parked_groups sw - 1 else nr_parked_groups sw);
          was_wce = (wce_eligible g \<and> nr_wce_groups sw > 0);
          start_cmds = (if was_wce then start_nr_cmds g else 0);
          last_cmds = (if was_wce then last_nr_cmds g else 0);
          st = stats sw
      in sw\<lparr> nr_held_groups := held,
             nr_parked_groups := parked,
             nr_wce_groups := (if was_wce then nr_wce_groups sw - 1 else nr_wce_groups sw),
             grp_hint := (grp_hint sw)(gid := group_cleared (jiffies sbi)),
             hold_segmap := clear_bits first nsegs (hold_segmap sw),
             park_segmap := clear_bits first nsegs (park_segmap sw),
             wce_segmap := clear_bits first nsegs (wce_segmap sw),
             stats := (if start_cmds \<noteq> 0
                       then st\<lparr>start_nr_cmds_sum := start_nr_cmds_sum st + start_cmds,
                               release_nr_cmds_sum := release_nr_cmds_sum st + last_cmds\<rparr>
                       else st) \<rparr>)"

definition swod_account_release :: "swod_ctrl \<Rightarrow> swod_release_reason \<Rightarrow> swod_ctrl" where
  "swod_account_release sw why =
     (let st = stats sw
      in sw\<lparr>stats := (case why of
           SWOD_REL_SUCCESS \<Rightarrow> st\<lparr>success_release_cnt := success_release_cnt st + 1\<rparr>
         | SWOD_REL_TIMEOUT \<Rightarrow> st\<lparr>timeout_release_cnt := timeout_release_cnt st + 1\<rparr>
         | SWOD_REL_PRESSURE \<Rightarrow> st\<lparr>pressure_release_cnt := pressure_release_cnt st + 1\<rparr>
         | SWOD_REL_CAPTURE \<Rightarrow> st\<lparr>capture_release_cnt := capture_release_cnt st + 1\<rparr>
         | SWOD_REL_MATURE \<Rightarrow> st\<lparr>mature_release_cnt := mature_release_cnt st + 1\<rparr>
         | SWOD_REL_BYPASS \<Rightarrow> st\<lparr>bypass_release_cnt := bypass_release_cnt st + 1\<rparr>)\<rparr>)"

definition swod_drop_group_locked ::
    "f2fs_sb_info \<Rightarrow> swod_ctrl \<Rightarrow> nat \<Rightarrow> swod_release_reason \<Rightarrow> swod_ctrl" where
  "swod_drop_group_locked sbi sw gid why =
     swod_clear_group_locked sbi (swod_account_release sw why) gid"

section \<open>Window features\<close>

definition win_first :: "swod_ctrl \<Rightarrow> nat \<Rightarrow> nat" where
  "win_first sw gid = swod_group_first_seg sw gid + hold_off (grp_hint sw gid)"

text \<open>
  The loop of \<open>swod_collect_window_locked\<close> over the window's segments: pending blocks,
  valid blocks, cold segments and the oldest enqueue time; \<open>None\<close> when a segment is
  outside the main area.
\<close>

fun collect_loop ::
    "f2fs_sb_info \<Rightarrow> swod_ctrl \<Rightarrow> nat list \<Rightarrow> nat \<times> nat \<times> nat \<times> jiffies_t \<Rightarrow>
     (nat \<times> nat \<times> nat \<times> jiffies_t) option" where
  "collect_loop sbi sw [] acc = Some acc"
| "collect_loop sbi sw (segno # segs) (q, l, cold, oldest_j) =
     (if segno \<ge> nr_main_segs sw then None
      else
        (let h = seg_hint sw segno
         in collect_loop sbi sw segs
              (u32 (q + pend_blks h),
               u32 (l + get_valid_blocks_seg sbi segno),
               (if IS_COLD (se_type (sentries sbi segno)) then cold + 1 else cold),
               (if oldest_jiffies h \<noteq> 0 \<and>
                   (oldest_j = 0 \<or> time_before (oldest_jiffies h) oldest_j)
                then oldest_jiffies h else oldest_j))))"

text \<open>\<open>Some (qbp, lbp, cold_cnt, oldest)\<close> when the source returns true.\<close>

definition swod_collect_window_locked ::
    "f2fs_sb_info \<Rightarrow> swod_ctrl \<Rightarrow> nat \<Rightarrow> (nat \<times> nat \<times> nat \<times> jiffies_t) option" where
  "swod_collect_window_locked sbi sw gid =
     (let g = grp_hint sw gid
      in if \<not> swod_group_is_active g \<or> hold_len g = 0 then None
         else
           (case collect_loop sbi sw [win_first sw gid..<win_first sw gid + hold_len g] (0, 0, 0, 0) of
              None \<Rightarrow> None
            | Some (q, l, cold, oldest_j) \<Rightarrow>
                (let cap = hold_len g * blocks_per_seg sbi
                 in if cap = 0 then None
                    else Some (u32 (q * SWOD_BP_ONE div cap), u32 (l * SWOD_BP_ONE div cap),
                               cold, oldest_j))))"

definition swod_calc_park_score ::
    "f2fs_sb_info \<Rightarrow> nat \<Rightarrow> nat \<Rightarrow> nat \<Rightarrow> nat \<Rightarrow> jiffies_t \<Rightarrow> jiffies_t \<Rightarrow> nat" where
  "swod_calc_park_score sbi len qbp lbp cold_cnt oldest now =
     (let age_ms = (if oldest \<noteq> 0 \<and> \<not> time_after oldest now
                    then jiffies_to_msecs sbi (now - oldest) else 0);
          age_ms = (if age_ms > 1000 then 1000 else age_ms)
      in u32 (cold_cnt * 100000 + len * 10000 + qbp * 2 + (SWOD_BP_ONE - min lbp SWOD_BP_ONE) + age_ms))"

definition swod_window_ready_locked :: "f2fs_sb_info \<Rightarrow> swod_ctrl \<Rightarrow> nat \<Rightarrow> bool" where
  "swod_window_ready_locked sbi sw gid =
     (let g = grp_hint sw gid
      in if \<not> swod_group_is_active g \<or> hold_len g = 0 then False
         else list_all
                (\<lambda>segno. segno < nr_main_segs sw \<and>
                         pend_blks (seg_hint sw segno) = blocks_per_seg sbi \<and>
                         get_valid_blocks_seg sbi segno = 0)
                [win_first sw gid..<win_first sw gid + hold_len g])"

section \<open>Parking and releasing\<close>

text \<open>The victim scan of \<open>swod_try_park_group_locked\<close>: the parked group with the least score.\<close>

fun park_victim :: "swod_ctrl \<Rightarrow> nat list \<Rightarrow> nat option \<Rightarrow> nat option" where
  "park_victim sw [] victim = victim"
| "park_victim sw (i # is) victim =
     park_victim sw is
       (if g_state (grp_hint sw i) \<noteq> SWOD_G_PARKED then victim
        else (case victim of
                None \<Rightarrow> Some i
              | Some v \<Rightarrow> if park_score (grp_hint sw i) < park_score (grp_hint sw v)
                          then Some i else victim))"

definition park_group ::
    "f2fs_sb_info \<Rightarrow> swod_tunables \<Rightarrow> swod_ctrl \<Rightarrow> nat \<Rightarrow> nat \<Rightarrow> nat \<Rightarrow> nat \<Rightarrow> jiffies_t \<Rightarrow> swod_ctrl" where
  "park_group sbi t sw gid qbp lbp score now =
     (let g = grp_hint sw gid;
          lo = win_first sw gid;
          n = hold_len g
      in sw\<lparr> nr_held_groups := (if nr_held_groups sw \<noteq> 0 then nr_held_groups sw - 1 else nr_held_groups sw),
             nr_wce_groups := (if wce_eligible g \<and> nr_wce_groups sw > 0
                               then nr_wce_groups sw - 1 else nr_wce_groups sw),
             hold_segmap := clear_bits lo n (hold_segmap sw),
             wce_segmap := clear_bits lo n (wce_segmap sw),
             park_segmap := set_bits lo n (park_segmap sw),
             grp_hint := (grp_hint sw)(gid := g\<lparr>
               g_state := SWOD_G_PARKED,
               hold_qbp := u16 qbp,
               hold_lbp := u16 lbp,
               park_score := score,
               hold_until := 0,
               park_until := now + msecs_to_jiffies sbi (swod_calc_park_ms t (hold_len g) qbp lbp),
               last_eval := now,
               wce_eligible := False \<rparr>),
             nr_parked_groups := nr_parked_groups sw + 1 \<rparr>)"

text \<open>The result is \<open>Some sw'\<close> where the source returns true, \<open>None\<close> where it returns false
  (it has changed nothing then).\<close>

definition swod_try_park_group_locked ::
    "f2fs_sb_info \<Rightarrow> swod_tunables \<Rightarrow> swod_ctrl \<Rightarrow> nat \<Rightarrow> swod_release_reason \<Rightarrow> jiffies_t \<Rightarrow>
     swod_ctrl option" where
  "swod_try_park_group_locked sbi t sw gid why now =
     (if g_state (grp_hint sw gid) \<noteq> SWOD_G_HELD then None
      else if why \<noteq> SWOD_REL_TIMEOUT \<and> why \<noteq> SWOD_REL_PRESSURE then None
      else
        (case swod_collect_window_locked sbi sw gid of
           None \<Rightarrow> None
         | Some (qbp, lbp, cold_cnt, oldest) \<Rightarrow>
             (if qbp < swod_qcov_thr_bp t then None
              else if lbp = 0 \<or> lbp > min SWOD_WCE_PARK_LRES_CAP_BP (u32 (swod_lres_thr_bp t + 1000)) then None
              else
                (let score = swod_calc_park_score sbi (hold_len (grp_hint sw gid)) qbp lbp cold_cnt oldest now
                 in if nr_parked_groups sw \<ge> swod_park_budget t then
                      (case park_victim sw [0..<nr_groups sw] None of
                         None \<Rightarrow> None
                       | Some v \<Rightarrow>
                           (if score \<le> park_score (grp_hint sw v) then None
                            else Some (park_group sbi t
                                   (swod_drop_group_locked sbi sw v SWOD_REL_PRESSURE)
                                   gid qbp lbp score now)))
                    else Some (park_group sbi t sw gid qbp lbp score now)))))"

definition swod_release_group_locked ::
    "f2fs_sb_info \<Rightarrow> swod_tunables \<Rightarrow> swod_ctrl \<Rightarrow> nat \<Rightarrow> swod_release_reason \<Rightarrow> swod_ctrl" where
  "swod_release_group_locked sbi t sw gid why =
     (case swod_try_park_group_locked sbi t sw gid why (jiffies sbi) of
        Some sw' \<Rightarrow> sw'
      | None \<Rightarrow> swod_drop_group_locked sbi sw gid why)"

section \<open>Installing a window\<close>

definition swod_install_candidate ::
    "f2fs_sb_info \<Rightarrow> swod_tunables \<Rightarrow> swod_ctrl \<Rightarrow> nat \<Rightarrow> nat \<Rightarrow> nat \<Rightarrow> nat \<Rightarrow> nat \<Rightarrow> nat \<Rightarrow> nat \<Rightarrow>
     swod_action \<Rightarrow> jiffies_t \<Rightarrow> swod_ctrl" where
  "swod_install_candidate sbi t sw gid off len qbp lbp ncmds avg_piece action now =
     (let g = grp_hint sw gid;
          lo = swod_group_first_seg sw gid + off;
          wce = (action = SWOD_ACT_COMPLETION_HOLD \<and> qbp \<ge> swod_wce_qcov_thr_bp t \<and>
                 lbp \<le> swod_wce_lres_thr_bp t);
          st = stats sw;
          st = (if wce then st\<lparr>wce_eligible_cnt := wce_eligible_cnt st + 1\<rparr> else st);
          st = (if action = SWOD_ACT_SHORT_HOLD then st\<lparr>short_hold_cnt := short_hold_cnt st + 1\<rparr>
                else if action = SWOD_ACT_COMPLETION_HOLD
                then st\<lparr>completion_hold_cnt := completion_hold_cnt st + 1\<rparr> else st);
          st = st\<lparr>hold_cnt := hold_cnt st + 1\<rparr>
      in sw\<lparr> grp_hint := (grp_hint sw)(gid := g\<lparr>
               g_state := SWOD_G_HELD, g_action := action,
               hold_off := u16 off, hold_len := u16 len, hold_qbp := qbp, hold_lbp := lbp,
               park_score := 0,
               hold_until := now + msecs_to_jiffies sbi
                 (if action = SWOD_ACT_SHORT_HOLD then swod_calc_short_hold_ms sbi t
                  else swod_calc_hold_ms t len qbp lbp),
               park_until := 0, last_eval := now,
               start_qbp := qbp, start_lbp := lbp, start_nr_cmds := ncmds, start_avg_piece := avg_piece,
               last_qbp := qbp, last_lbp := lbp, last_nr_cmds := ncmds, last_avg_piece := avg_piece,
               last_q_growth := 0, last_cmd_growth := 0,
               wce_eligible := wce \<rparr>),
             nr_wce_groups := (if wce then nr_wce_groups sw + 1 else nr_wce_groups sw),
             nr_held_groups := nr_held_groups sw + 1,
             hold_segmap := set_bits lo len (hold_segmap sw),
             park_segmap := clear_bits lo len (park_segmap sw),
             wce_segmap := (if wce then set_bits lo len (wce_segmap sw)
                            else clear_bits lo len (wce_segmap sw)),
             stats := st \<rparr>)"

end
