(* ===== verification/Swod_Inv.thy ===== *)
theory Swod_Inv
  imports Swod_Window
begin

text \<open>
  The invariant of the SWOD controller and its preservation by the operations of
  \<open>Swod_Window\<close>. The group hints are the truth; the three bitmaps, which GC and the
  write path read without the lock, and the three counters, which guard the fast paths,
  are derived from them.
\<close>

section \<open>The invariant\<close>

definition in_window :: "swod_group_hint \<Rightarrow> nat \<Rightarrow> nat \<Rightarrow> bool" where
  "in_window g first s \<longleftrightarrow> first + hold_off g \<le> s \<and> s < first + hold_off g + hold_len g"

definition grp_ok :: "nat \<Rightarrow> swod_group_hint \<Rightarrow> bool" where
  "grp_ok nsegs g \<longleftrightarrow>
     (if swod_group_is_active g then 0 < hold_len g \<and> hold_off g + hold_len g \<le> nsegs
      else hold_len g = 0) \<and>
     (wce_eligible g \<longrightarrow> g_state g = SWOD_G_HELD \<and> g_action g = SWOD_ACT_COMPLETION_HOLD) \<and>
     (swod_group_is_active g \<longrightarrow> g_action g \<noteq> SWOD_ACT_BYPASS)"

definition swod_dims :: "swod_ctrl \<Rightarrow> bool" where
  "swod_dims sw \<longleftrightarrow>
     0 < win_segs sw \<and> win_segs sw \<le> SWOD_MAX_WIN_SEGS \<and>
     nr_groups sw = (nr_main_segs sw + win_segs sw - 1) div win_segs sw"

definition seg_grp :: "swod_ctrl \<Rightarrow> nat \<Rightarrow> swod_group_hint" where
  "seg_grp sw s = grp_hint sw (swod_gid sw s)"

definition seg_in_win :: "swod_ctrl \<Rightarrow> nat \<Rightarrow> bool" where
  "seg_in_win sw s \<longleftrightarrow> in_window (seg_grp sw s) (swod_group_first_seg sw (swod_gid sw s)) s"

definition is_held :: "swod_group_hint \<Rightarrow> bool" where "is_held g \<longleftrightarrow> g_state g = SWOD_G_HELD"
definition is_parked :: "swod_group_hint \<Rightarrow> bool" where "is_parked g \<longleftrightarrow> g_state g = SWOD_G_PARKED"

definition swod_bits :: "swod_ctrl \<Rightarrow> bool" where
  "swod_bits sw \<longleftrightarrow>
     (\<forall>s < nr_main_segs sw.
        (hold_segmap sw s \<longleftrightarrow> is_held (seg_grp sw s) \<and> seg_in_win sw s) \<and>
        (park_segmap sw s \<longleftrightarrow> is_parked (seg_grp sw s) \<and> seg_in_win sw s) \<and>
        (wce_segmap sw s \<longleftrightarrow> wce_eligible (seg_grp sw s) \<and> seg_in_win sw s))"

definition swod_counts :: "swod_ctrl \<Rightarrow> bool" where
  "swod_counts sw \<longleftrightarrow>
     nr_held_groups sw = count_idx is_held (grp_hint sw) (nr_groups sw) \<and>
     nr_parked_groups sw = count_idx is_parked (grp_hint sw) (nr_groups sw) \<and>
     nr_wce_groups sw = int (count_idx wce_eligible (grp_hint sw) (nr_groups sw))"

definition swod_inv :: "swod_ctrl \<Rightarrow> bool" where
  "swod_inv sw \<longleftrightarrow>
     swod_dims sw \<and>
     (\<forall>gid < nr_groups sw. grp_ok (swod_group_nsegs sw gid) (grp_hint sw gid)) \<and>
     swod_bits sw \<and> swod_counts sw"

lemmas swod_geo = swod_gid_def swod_group_first_seg_def swod_group_nsegs_def Let_def

section \<open>Geometry of groups\<close>

lemma gid_less: "swod_dims sw \<Longrightarrow> s < nr_main_segs sw \<Longrightarrow> swod_gid sw s < nr_groups sw"
proof -
  assume d: "swod_dims sw" and s: "s < nr_main_segs sw"
  have w: "0 < win_segs sw" using d by (simp add: swod_dims_def)
  have "s + win_segs sw \<le> nr_main_segs sw + win_segs sw - 1" using s by simp
  then have "(s + win_segs sw) div win_segs sw \<le> (nr_main_segs sw + win_segs sw - 1) div win_segs sw"
    by (rule div_le_mono)
  moreover have "(s + win_segs sw) div win_segs sw = Suc (s div win_segs sw)"
    using w div_add_self2[of "win_segs sw" s] by simp
  ultimately show ?thesis using d by (simp add: swod_gid_def swod_dims_def)
qed

lemma first_seg_less: "swod_dims sw \<Longrightarrow> gid < nr_groups sw \<Longrightarrow> swod_group_first_seg sw gid < nr_main_segs sw"
proof -
  assume d: "swod_dims sw" and g: "gid < nr_groups sw"
  have w: "0 < win_segs sw" using d by (simp add: swod_dims_def)
  have "Suc gid \<le> (nr_main_segs sw + win_segs sw - 1) div win_segs sw"
    using d g by (simp add: swod_dims_def)
  then have "Suc gid * win_segs sw \<le> nr_main_segs sw + win_segs sw - 1"
    using w by (simp add: less_eq_div_iff_mult_less_eq)
  with w show ?thesis by (simp add: swod_group_first_seg_def)
qed

lemma nsegs_bounds:
  assumes "swod_dims sw" "gid < nr_groups sw"
  shows "0 < swod_group_nsegs sw gid" "swod_group_nsegs sw gid \<le> 16"
    and "swod_group_first_seg sw gid + swod_group_nsegs sw gid \<le> nr_main_segs sw"
  using first_seg_less[OF assms] assms(1)
  by (auto simp: swod_group_nsegs_def Let_def swod_dims_def SWOD_MAX_WIN_SEGS_def)

text \<open>A segment of the main area lies in a group's range exactly when that is its group.\<close>

lemma in_group_iff:
  assumes "swod_dims sw" "s < nr_main_segs sw"
  shows "swod_group_first_seg sw gid \<le> s \<and> s < swod_group_first_seg sw gid + swod_group_nsegs sw gid
     \<longleftrightarrow> swod_gid sw s = gid"
proof -
  have w: "0 < win_segs sw" using assms(1) by (simp add: swod_dims_def)
  have "swod_group_first_seg sw gid \<le> s \<and> s < swod_group_first_seg sw gid + swod_group_nsegs sw gid
     \<longleftrightarrow> gid * win_segs sw \<le> s \<and> s < gid * win_segs sw + win_segs sw"
    using assms(2) by (auto simp: swod_geo Let_def)
  also have "\<dots> \<longleftrightarrow> s div win_segs sw = gid"
    by (rule div_eq_range_iff [OF w, symmetric])
  finally show ?thesis by (simp add: swod_gid_def)
qed

lemma gid_of_window:
  assumes "swod_dims sw" "gid < nr_groups sw"
    and "swod_group_first_seg sw gid + off \<le> s" "s < swod_group_first_seg sw gid + off + len"
    and "off + len \<le> swod_group_nsegs sw gid"
  shows "s < nr_main_segs sw" "swod_gid sw s = gid"
proof -
  show s: "s < nr_main_segs sw" using assms nsegs_bounds(3)[OF assms(1,2)] by linarith
  show "swod_gid sw s = gid" using in_group_iff[OF assms(1) s, of gid] assms by simp
qed

section \<open>Replacing one group\<close>

text \<open>
  Every operation on windows replaces the hint of one group and makes bitmaps and
  counters follow. This lemma is the only place where the invariant is rebuilt.
\<close>

lemma swod_inv_replace:
  assumes inv: "swod_inv sw" and gid: "gid < nr_groups sw"
    and dims: "nr_main_segs sw' = nr_main_segs sw" "win_segs sw' = win_segs sw" "nr_groups sw' = nr_groups sw"
    and grp: "grp_hint sw' = (grp_hint sw)(gid := g)" and ok: "grp_ok (swod_group_nsegs sw gid) g"
    and bits: "\<And>s. s < nr_main_segs sw \<Longrightarrow> swod_gid sw s \<noteq> gid \<Longrightarrow>
        hold_segmap sw' s = hold_segmap sw s \<and> park_segmap sw' s = park_segmap sw s \<and>
        wce_segmap sw' s = wce_segmap sw s"
      "\<And>s. s < nr_main_segs sw \<Longrightarrow> swod_gid sw s = gid \<Longrightarrow>
        (hold_segmap sw' s \<longleftrightarrow> is_held g \<and> in_window g (swod_group_first_seg sw gid) s) \<and>
        (park_segmap sw' s \<longleftrightarrow> is_parked g \<and> in_window g (swod_group_first_seg sw gid) s) \<and>
        (wce_segmap sw' s \<longleftrightarrow> wce_eligible g \<and> in_window g (swod_group_first_seg sw gid) s)"
    and cnt: "nr_held_groups sw' + of_bool (is_held (grp_hint sw gid)) = nr_held_groups sw + of_bool (is_held g)"
      "nr_parked_groups sw' + of_bool (is_parked (grp_hint sw gid)) = nr_parked_groups sw + of_bool (is_parked g)"
      "nr_wce_groups sw' + of_bool (wce_eligible (grp_hint sw gid)) = nr_wce_groups sw + of_bool (wce_eligible g)"
  shows "swod_inv sw'"
proof -
  have geo: "swod_group_nsegs sw' = swod_group_nsegs sw" "swod_gid sw' = swod_gid sw"
    "swod_group_first_seg sw' = swod_group_first_seg sw"
    using dims by (auto simp: swod_geo fun_eq_iff Let_def)
  have "swod_dims sw'" using inv dims by (simp add: swod_inv_def swod_dims_def)
  moreover have "\<forall>gid < nr_groups sw'. grp_ok (swod_group_nsegs sw' gid) (grp_hint sw' gid)"
    using inv ok by (simp add: geo dims grp swod_inv_def)
  moreover have "swod_bits sw'"
    unfolding swod_bits_def
  proof (intro allI impI)
    fix s
    assume "s < nr_main_segs sw'"
    then have s: "s < nr_main_segs sw" by (simp add: dims)
    show "(hold_segmap sw' s \<longleftrightarrow> is_held (seg_grp sw' s) \<and> seg_in_win sw' s) \<and>
        (park_segmap sw' s \<longleftrightarrow> is_parked (seg_grp sw' s) \<and> seg_in_win sw' s) \<and>
        (wce_segmap sw' s \<longleftrightarrow> wce_eligible (seg_grp sw' s) \<and> seg_in_win sw' s)"
    proof (cases "swod_gid sw s = gid")
      case True
      with bits(2)[OF s True] show ?thesis by (simp add: seg_grp_def seg_in_win_def geo grp)
    next
      case False
      then show ?thesis
        using bits(1)[OF s False] inv s
        by (simp add: seg_grp_def seg_in_win_def geo grp swod_inv_def swod_bits_def)
    qed
  qed
  moreover have "swod_counts sw'"
  proof -
    have "count_idx P (grp_hint sw') (nr_groups sw') + of_bool (P (grp_hint sw gid)) =
        count_idx P (grp_hint sw) (nr_groups sw) + of_bool (P g)" for P
      using count_idx_upd[OF gid, of P "grp_hint sw" g] by (simp add: grp dims)
    from this[of is_held] this[of is_parked] this[of wce_eligible] cnt inv
    show ?thesis by (simp add: swod_counts_def swod_inv_def of_bool_def split: if_splits)
  qed
  ultimately show ?thesis by (simp add: swod_inv_def)
qed

section \<open>The counters bound the groups they count\<close>

lemma swod_inv_countsD:
  assumes "swod_inv sw" "gid < nr_groups sw"
  shows "is_held (grp_hint sw gid) \<Longrightarrow> 0 < nr_held_groups sw"
    and "is_parked (grp_hint sw gid) \<Longrightarrow> 0 < nr_parked_groups sw"
    and "wce_eligible (grp_hint sw gid) \<Longrightarrow> 0 < nr_wce_groups sw"
  using assms count_idx_pos[OF assms(2), of _ "grp_hint sw"]
  by (auto simp: swod_inv_def swod_counts_def)

lemma swod_inv_grp_ok:
  "swod_inv sw \<Longrightarrow> gid < nr_groups sw \<Longrightarrow> grp_ok (swod_group_nsegs sw gid) (grp_hint sw gid)"
  by (simp add: swod_inv_def)

lemma swod_inv_dims: "swod_inv sw \<Longrightarrow> swod_dims sw"
  by (simp add: swod_inv_def)

lemma is_held_parked: "swod_group_is_active g \<longleftrightarrow> is_held g \<or> is_parked g" "is_held g \<Longrightarrow> \<not> is_parked g"
  by (auto simp: swod_group_is_active_def is_held_def is_parked_def)

section \<open>Frames\<close>

text \<open>What the operations on windows leave alone.\<close>

definition same_dims :: "swod_ctrl \<Rightarrow> swod_ctrl \<Rightarrow> bool" where
  "same_dims sw sw' \<longleftrightarrow>
     nr_main_segs sw' = nr_main_segs sw \<and> win_segs sw' = win_segs sw \<and> nr_groups sw' = nr_groups sw \<and>
     seg_hint sw' = seg_hint sw"

lemma same_dims_refl [simp]: "same_dims sw sw"
  by (simp add: same_dims_def)

lemma same_dims_trans [trans]: "same_dims a b \<Longrightarrow> same_dims b c \<Longrightarrow> same_dims a c"
  by (simp add: same_dims_def)

lemma same_dims_geo:
  assumes "same_dims sw sw'"
  shows "swod_group_first_seg sw' gid = swod_group_first_seg sw gid"
    "swod_group_nsegs sw' gid = swod_group_nsegs sw gid" "swod_gid sw' s = swod_gid sw s"
    "nr_groups sw' = nr_groups sw" "nr_main_segs sw' = nr_main_segs sw" "seg_hint sw' = seg_hint sw"
  using assms by (simp_all add: same_dims_def swod_geo)

lemma account_release_same:
  "grp_hint (swod_account_release sw why) = grp_hint sw"
  "nr_held_groups (swod_account_release sw why) = nr_held_groups sw"
  "nr_parked_groups (swod_account_release sw why) = nr_parked_groups sw"
  "nr_wce_groups (swod_account_release sw why) = nr_wce_groups sw"
  "hold_segmap (swod_account_release sw why) = hold_segmap sw"
  "park_segmap (swod_account_release sw why) = park_segmap sw"
  "wce_segmap (swod_account_release sw why) = wce_segmap sw"
  "same_dims sw (swod_account_release sw why)"
  by (simp_all add: swod_account_release_def same_dims_def Let_def)

lemma clear_same: "same_dims sw (swod_clear_group_locked sbi sw gid)"
  by (simp add: swod_clear_group_locked_def same_dims_def Let_def)

lemma drop_same: "same_dims sw (swod_drop_group_locked sbi sw gid why)"
  using clear_same account_release_same(8) same_dims_trans
  unfolding swod_drop_group_locked_def by blast

lemma drop_grp_hint:
  "grp_hint (swod_drop_group_locked sbi sw gid why) = (grp_hint sw)(gid := group_cleared (jiffies sbi))"
  by (simp add: swod_drop_group_locked_def swod_clear_group_locked_def account_release_same Let_def)

lemma install_same:
  "same_dims sw (swod_install_candidate sbi t sw gid off len qbp lbp nc avg action now)"
  by (simp add: swod_install_candidate_def same_dims_def Let_def)

lemma park_group_same: "same_dims sw (park_group sbi t sw gid qbp lbp score now)"
  by (simp add: park_group_def same_dims_def Let_def)

section \<open>Preservation\<close>

lemma group_cleared_simps [simp]:
  "g_state (group_cleared now) = SWOD_G_NORMAL" "hold_len (group_cleared now) = 0"
  "\<not> wce_eligible (group_cleared now)" "\<not> is_held (group_cleared now)"
  "\<not> is_parked (group_cleared now)" "\<not> swod_group_is_active (group_cleared now)"
  by (simp_all add: group_cleared_def is_held_def is_parked_def swod_group_is_active_def)

lemma group_cleared_ok: "grp_ok n (group_cleared now)"
  by (simp add: grp_ok_def)

text \<open>The statistics are not part of the invariant.\<close>

lemma swod_inv_stats [simp]: "swod_inv (sw\<lparr>stats := st\<rparr>) \<longleftrightarrow> swod_inv sw"
  by (simp add: swod_inv_def swod_dims_def swod_bits_def swod_counts_def seg_grp_def seg_in_win_def
      swod_geo)

lemma same_dims_stats [simp]: "same_dims sw (sw'\<lparr>stats := st\<rparr>) \<longleftrightarrow> same_dims sw sw'"
  by (simp add: same_dims_def)

lemma geo_stats [simp]:
  "swod_group_nsegs (sw\<lparr>stats := st\<rparr>) = swod_group_nsegs sw"
  "swod_group_first_seg (sw\<lparr>stats := st\<rparr>) = swod_group_first_seg sw"
  by (simp_all add: fun_eq_iff swod_geo)

lemma account_release_inv: "swod_inv (swod_account_release sw why) \<longleftrightarrow> swod_inv sw"
proof -
  have "swod_account_release sw why = sw\<lparr>stats := stats (swod_account_release sw why)\<rparr>"
    by (simp add: swod_account_release_def Let_def)
  then show ?thesis by (metis swod_inv_stats)
qed

lemma clear_group_inv:
  assumes inv: "swod_inv sw" and gid: "gid < nr_groups sw"
  shows "swod_inv (swod_clear_group_locked sbi sw gid)"
proof (rule swod_inv_replace [OF inv gid])
  let ?sw = "swod_clear_group_locked sbi sw gid"
  note C = swod_clear_group_locked_def Let_def
  show "grp_hint ?sw = (grp_hint sw)(gid := group_cleared (jiffies sbi))" by (simp add: C)
  show "grp_ok (swod_group_nsegs sw gid) (group_cleared (jiffies sbi))" by (rule group_cleared_ok)
  note in_grp = in_group_iff[OF swod_inv_dims[OF inv]]
  fix s
  assume s: "s < nr_main_segs sw"
  show "hold_segmap ?sw s = hold_segmap sw s \<and> park_segmap ?sw s = park_segmap sw s \<and>
      wce_segmap ?sw s = wce_segmap sw s" if "swod_gid sw s \<noteq> gid"
    using in_grp[OF s, of gid] that by (auto simp: C clear_bits_iff)
  show "(hold_segmap ?sw s \<longleftrightarrow> is_held (group_cleared (jiffies sbi)) \<and>
          in_window (group_cleared (jiffies sbi)) (swod_group_first_seg sw gid) s) \<and>
      (park_segmap ?sw s \<longleftrightarrow> is_parked (group_cleared (jiffies sbi)) \<and>
          in_window (group_cleared (jiffies sbi)) (swod_group_first_seg sw gid) s) \<and>
      (wce_segmap ?sw s \<longleftrightarrow> wce_eligible (group_cleared (jiffies sbi)) \<and>
          in_window (group_cleared (jiffies sbi)) (swod_group_first_seg sw gid) s)"
    if "swod_gid sw s = gid"
    using in_grp[OF s, of gid] that by (auto simp: C clear_bits_iff)
next
  note C = swod_clear_group_locked_def Let_def
  note pos = swod_inv_countsD[OF inv gid]
  let ?sw = "swod_clear_group_locked sbi sw gid" and ?c = "group_cleared (jiffies sbi)"
  show "nr_held_groups ?sw + of_bool (is_held (grp_hint sw gid)) = nr_held_groups sw + of_bool (is_held ?c)"
    using pos(1) by (auto simp: C is_held_def)
  show "nr_parked_groups ?sw + of_bool (is_parked (grp_hint sw gid)) = nr_parked_groups sw + of_bool (is_parked ?c)"
    using pos(2) by (auto simp: C is_held_def is_parked_def)
  show "nr_wce_groups ?sw + of_bool (wce_eligible (grp_hint sw gid)) = nr_wce_groups sw + of_bool (wce_eligible ?c)"
    using pos(3) by (auto simp: C)
qed (simp_all add: swod_clear_group_locked_def Let_def)

lemma drop_group_inv:
  "swod_inv sw \<Longrightarrow> gid < nr_groups sw \<Longrightarrow> swod_inv (swod_drop_group_locked sbi sw gid why)"
  unfolding swod_drop_group_locked_def
  by (rule clear_group_inv) (simp_all add: account_release_inv same_dims_geo[OF account_release_same(8)])

lemma install_inv:
  assumes inv: "swod_inv sw" and gid: "gid < nr_groups sw"
    and normal: "\<not> swod_group_is_active (grp_hint sw gid)"
    and len: "0 < len" "off + len \<le> swod_group_nsegs sw gid"
    and act: "action \<noteq> SWOD_ACT_BYPASS"
  shows "swod_inv (swod_install_candidate sbi t sw gid off len qbp lbp nc avg action now)"
proof -
  let ?sw = "swod_install_candidate sbi t sw gid off len qbp lbp nc avg action now"
  let ?g = "grp_hint ?sw gid"
  note I = swod_install_candidate_def Let_def
  note dims = swod_inv_dims[OF inv]
  have small: "len < 2 ^ 16" "off < 2 ^ 16" using len nsegs_bounds(2)[OF dims gid] by auto
  have g: "hold_off ?g = off" "hold_len ?g = len" "g_state ?g = SWOD_G_HELD" "g_action ?g = action"
    using small by (simp_all add: I u16_id)
  have wce_act: "wce_eligible ?g \<Longrightarrow> action = SWOD_ACT_COMPLETION_HOLD" by (simp add: I)
  have old: "\<not> is_held (grp_hint sw gid)" "\<not> is_parked (grp_hint sw gid)" "\<not> wce_eligible (grp_hint sw gid)"
    using normal swod_inv_grp_ok[OF inv gid]
    by (auto simp: is_held_parked grp_ok_def is_held_def)
  have win: "in_window ?g first s \<longleftrightarrow> first + off \<le> s \<and> s < first + off + len" for first s
    by (simp add: in_window_def g)
  have out: "\<not> (hold_segmap sw s \<or> park_segmap sw s \<or> wce_segmap sw s)"
    if "s < nr_main_segs sw" "swod_gid sw s = gid" for s
    using inv that old by (simp add: swod_inv_def swod_bits_def seg_grp_def)
  show ?thesis
  proof (rule swod_inv_replace [OF inv gid])
    show "grp_hint ?sw = (grp_hint sw)(gid := ?g)" by (simp add: I)
    show "grp_ok (swod_group_nsegs sw gid) ?g"
      using len act g wce_act by (auto simp: grp_ok_def swod_group_is_active_def)
    fix s
    assume s: "s < nr_main_segs sw"
    show "hold_segmap ?sw s = hold_segmap sw s \<and> park_segmap ?sw s = park_segmap sw s \<and>
        wce_segmap ?sw s = wce_segmap sw s" if "swod_gid sw s \<noteq> gid"
      using gid_of_window(2)[OF dims gid _ _ len(2), of s] that
      by (auto simp: I set_bits_iff clear_bits_iff)
    show "(hold_segmap ?sw s \<longleftrightarrow> is_held ?g \<and> in_window ?g (swod_group_first_seg sw gid) s) \<and>
        (park_segmap ?sw s \<longleftrightarrow> is_parked ?g \<and> in_window ?g (swod_group_first_seg sw gid) s) \<and>
        (wce_segmap ?sw s \<longleftrightarrow> wce_eligible ?g \<and> in_window ?g (swod_group_first_seg sw gid) s)"
      if "swod_gid sw s = gid"
      using out[OF s that] unfolding win
      by (auto simp: I set_bits_iff clear_bits_iff is_held_def is_parked_def)
  qed (use old in \<open>auto simp: I is_held_def is_parked_def\<close>)
qed

lemma park_group_inv:
  assumes inv: "swod_inv sw" and gid: "gid < nr_groups sw"
    and held: "g_state (grp_hint sw gid) = SWOD_G_HELD"
  shows "swod_inv (park_group sbi t sw gid qbp lbp score now)"
proof -
  let ?sw = "park_group sbi t sw gid qbp lbp score now" and ?o = "grp_hint sw gid"
  let ?g = "grp_hint ?sw gid" and ?f = "swod_group_first_seg sw gid"
  note P = park_group_def Let_def
  note dims = swod_inv_dims[OF inv]
  have g: "hold_off ?g = hold_off ?o" "hold_len ?g = hold_len ?o" "g_state ?g = SWOD_G_PARKED"
    "g_action ?g = g_action ?o" "\<not> wce_eligible ?g"
    by (simp_all add: P)
  have ok: "0 < hold_len ?o" "hold_off ?o + hold_len ?o \<le> swod_group_nsegs sw gid"
    "g_action ?o \<noteq> SWOD_ACT_BYPASS"
    using swod_inv_grp_ok[OF inv gid] held by (auto simp: grp_ok_def swod_group_is_active_def)
  have win: "in_window ?g first s \<longleftrightarrow> in_window ?o first s" for first s
    by (simp add: in_window_def g)
  have lo: "win_first sw gid = ?f + hold_off ?o" by (simp add: win_first_def)
  have bit: "hold_segmap sw s = in_window ?o ?f s \<and> \<not> park_segmap sw s \<and> (wce_segmap sw s \<longrightarrow> in_window ?o ?f s)"
    if "s < nr_main_segs sw" "swod_gid sw s = gid" for s
    using inv that held
    by (auto simp: swod_inv_def swod_bits_def seg_grp_def seg_in_win_def is_held_def is_parked_def)
  show ?thesis
  proof (rule swod_inv_replace [OF inv gid])
    show "grp_hint ?sw = (grp_hint sw)(gid := ?g)" by (simp add: P)
    show "grp_ok (swod_group_nsegs sw gid) ?g"
      using ok g by (auto simp: grp_ok_def swod_group_is_active_def)
    fix s
    assume s: "s < nr_main_segs sw"
    show "hold_segmap ?sw s = hold_segmap sw s \<and> park_segmap ?sw s = park_segmap sw s \<and>
        wce_segmap ?sw s = wce_segmap sw s" if "swod_gid sw s \<noteq> gid"
      using gid_of_window(2)[OF dims gid _ _ ok(2), of s] that
      by (auto simp: P lo set_bits_iff clear_bits_iff)
    show "(hold_segmap ?sw s \<longleftrightarrow> is_held ?g \<and> in_window ?g ?f s) \<and>
        (park_segmap ?sw s \<longleftrightarrow> is_parked ?g \<and> in_window ?g ?f s) \<and>
        (wce_segmap ?sw s \<longleftrightarrow> wce_eligible ?g \<and> in_window ?g ?f s)"
      if "swod_gid sw s = gid"
      using bit[OF s that] unfolding win
      by (auto simp: P lo set_bits_iff clear_bits_iff is_held_def is_parked_def in_window_def)
  next
    note pos = swod_inv_countsD[OF inv gid]
    show "nr_held_groups ?sw + of_bool (is_held ?o) = nr_held_groups sw + of_bool (is_held ?g)"
      using pos(1) held by (auto simp: P is_held_def)
    show "nr_parked_groups ?sw + of_bool (is_parked ?o) = nr_parked_groups sw + of_bool (is_parked ?g)"
      using held by (auto simp: P is_parked_def)
    show "nr_wce_groups ?sw + of_bool (wce_eligible ?o) = nr_wce_groups sw + of_bool (wce_eligible ?g)"
      using pos(3) by (auto simp: P)
  qed (simp_all add: P)
qed

section \<open>Release: park or drop\<close>

lemma park_victim_parked:
  "park_victim sw is v = Some w \<Longrightarrow> (v = Some w \<or> w \<in> set is \<and> g_state (grp_hint sw w) = SWOD_G_PARKED)"
  by (induction sw "is" v rule: park_victim.induct) (auto split: if_splits option.splits)

text \<open>
  A successful park: possibly the drop of another, parked group, then the park of the
  held one.
\<close>

lemma try_park_cases:
  assumes "swod_try_park_group_locked sbi t sw gid why now = Some sw'"
  obtains (park) qbp lbp score where
      "g_state (grp_hint sw gid) = SWOD_G_HELD" "nr_parked_groups sw < swod_park_budget t"
      "sw' = park_group sbi t sw gid qbp lbp score now"
  | (evict) v qbp lbp score where
      "g_state (grp_hint sw gid) = SWOD_G_HELD" "v < nr_groups sw" "v \<noteq> gid"
      "g_state (grp_hint sw v) = SWOD_G_PARKED" "park_score (grp_hint sw v) < score"
      "sw' = park_group sbi t (swod_drop_group_locked sbi sw v SWOD_REL_PRESSURE) gid qbp lbp score now"
proof (cases "swod_park_budget t \<le> nr_parked_groups sw")
  case True
  with assms obtain v qbp lbp score where e: "g_state (grp_hint sw gid) = SWOD_G_HELD"
    "park_victim sw [0..<nr_groups sw] None = Some v" "park_score (grp_hint sw v) < score"
    "sw' = park_group sbi t (swod_drop_group_locked sbi sw v SWOD_REL_PRESSURE) gid qbp lbp score now"
    unfolding swod_try_park_group_locked_def Let_def
    by (auto simp: not_le split: if_splits option.splits)
  from park_victim_parked[OF e(2)] have "v < nr_groups sw" "g_state (grp_hint sw v) = SWOD_G_PARKED"
    by auto
  with e show ?thesis by (intro evict[of v score qbp lbp]) auto
next
  case False
  with assms obtain qbp lbp score where "g_state (grp_hint sw gid) = SWOD_G_HELD"
    "sw' = park_group sbi t sw gid qbp lbp score now"
    unfolding swod_try_park_group_locked_def Let_def
    by (auto split: if_splits option.splits)
  with False show ?thesis by (intro park[of qbp lbp score]) auto
qed

lemma try_park_inv:
  assumes inv: "swod_inv sw" and gid: "gid < nr_groups sw"
    and park: "swod_try_park_group_locked sbi t sw gid why now = Some sw'"
  shows "swod_inv sw' \<and> same_dims sw sw'"
  using park
proof (cases rule: try_park_cases)
  case (park qbp lbp score)
  then show ?thesis using park_group_inv[OF inv gid] park_group_same by blast
next
  case (evict v qbp lbp score)
  let ?d = "swod_drop_group_locked sbi sw v SWOD_REL_PRESSURE"
  have "swod_inv ?d" "gid < nr_groups ?d" "g_state (grp_hint ?d gid) = SWOD_G_HELD"
    using drop_group_inv[OF inv evict(2)] gid evict(1,3) same_dims_geo(4)[OF drop_same]
    by (simp_all add: drop_grp_hint)
  from park_group_inv[OF this] show ?thesis
    using evict(6) same_dims_trans[OF drop_same park_group_same] by simp
qed

lemma release_group_inv:
  assumes "swod_inv sw" "gid < nr_groups sw"
  shows "swod_inv (swod_release_group_locked sbi t sw gid why)"
    and "same_dims sw (swod_release_group_locked sbi t sw gid why)"
  using try_park_inv[OF assms] drop_group_inv[OF assms] drop_same
  by (auto simp: swod_release_group_locked_def split: option.splits)

end
