(* ===== verification/Swod_Eval.thy ===== *)
theory Swod_Eval
  imports Swod_Inv
begin

text \<open>
  Rebuilding the per-segment hints from the discard tree, and the evaluation of a group:
  the scan of all sub-windows for a candidate, the eviction of a victim when too many
  groups are held, and the installation of the winner (\<open>swod_rebuild_groups_locked\<close>
  and \<open>swod_eval_group_locked\<close>).
\<close>

section \<open>Cutting a block range at segment borders\<close>

text \<open>
  The loop \<open>while (cur < end) { segno = GET_SEGNO(cur); ... cur += piece; }\<close> of
  \<open>swod_rebuild_groups_locked\<close>, \<open>__create_discard_cmd\<close> and \<open>__submit_discard_cmd\<close>,
  as the list of its (segment, piece) pairs. The fuel bounds the iterations; \<open>None\<close>
  is a loop that has not ended. \<open>seg_pieces_total\<close> shows that \<open>end - cur\<close> is enough
  inside the main area.
\<close>

fun seg_pieces :: "f2fs_sb_info \<Rightarrow> nat \<Rightarrow> nat \<Rightarrow> nat \<Rightarrow> (nat \<times> nat) list option" where
  "seg_pieces sbi 0 cur hi = (if cur < hi then None else Some [])"
| "seg_pieces sbi (Suc n) cur hi =
     (if cur < hi then
        (let segno = GET_SEGNO sbi cur;
             seg_end = START_BLOCK sbi (segno + 1);
             piece = sub32 (min hi seg_end) cur
         in map_option (\<lambda>ps. (segno, piece) # ps) (seg_pieces sbi n (u32 (cur + piece)) hi))
      else Some [])"

definition seg_pieces_of :: "f2fs_sb_info \<Rightarrow> nat \<Rightarrow> nat \<Rightarrow> (nat \<times> nat) list" where
  "seg_pieces_of sbi lo hi = (case seg_pieces sbi (hi - lo) lo hi of None \<Rightarrow> [] | Some ps \<Rightarrow> ps)"

section \<open>Rebuilding the segment hints\<close>

definition hint_cleared :: swod_seg_hint where
  "hint_cleared = \<lparr>pend_blks = 0, nr_cmds = 0, oldest_jiffies = 0\<rparr>"

definition add_piece :: "jiffies_t \<Rightarrow> nat \<times> nat \<Rightarrow> swod_ctrl \<Rightarrow> swod_ctrl" where
  "add_piece enq sp sw =
     (let segno = fst sp; piece = snd sp; h = seg_hint sw segno
      in sw\<lparr>seg_hint := (seg_hint sw)(segno := h\<lparr>
           pend_blks := u32 (pend_blks h + piece),
           nr_cmds := u32 (nr_cmds h + 1),
           oldest_jiffies := (if oldest_jiffies h = 0 \<or> time_before enq (oldest_jiffies h)
                              then enq else oldest_jiffies h)\<rparr>)\<rparr>)"

definition rebuild_cmd :: "f2fs_sb_info \<Rightarrow> nat \<Rightarrow> nat \<Rightarrow> discard_cmd \<Rightarrow> swod_ctrl \<Rightarrow> swod_ctrl" where
  "rebuild_cmd sbi scan_start scan_end dc sw =
     (if dc_state dc \<noteq> D_PREP then sw
      else fold (add_piece (enq_jiffies dc))
             (seg_pieces_of sbi (max (lstart dc) scan_start) (min (eend dc) scan_end)) sw)"

text \<open>The commands from the lower bound on, in the order of \<open>rb_next\<close>.\<close>

definition rb_from :: "'a rb_entry_scheme list \<Rightarrow> nat \<Rightarrow> 'a rb_entry_scheme list" where
  "rb_from cmds blk = dropWhile (\<lambda>dc. eend dc \<le> blk) cmds"

definition swod_rebuild_groups_locked ::
    "f2fs_sb_info \<Rightarrow> discard_cmd_control \<Rightarrow> swod_ctrl \<Rightarrow> nat \<Rightarrow> nat \<Rightarrow> swod_ctrl" where
  "swod_rebuild_groups_locked sbi dcc sw gid0 gid1 =
     (if gid0 > gid1 then sw
      else
        (let start_seg = swod_group_first_seg sw gid0;
             end_seg = min (nr_main_segs sw) (swod_group_first_seg sw gid1 + win_segs sw);
             sw = sw\<lparr>seg_hint := (\<lambda>s. if start_seg \<le> s \<and> s < end_seg then hint_cleared else seg_hint sw s)\<rparr>
         in if start_seg \<ge> end_seg then sw
            else
              (let scan_start = START_BLOCK sbi start_seg;
                   scan_end = START_BLOCK sbi end_seg
               in fold (rebuild_cmd sbi scan_start scan_end)
                    (takeWhile (\<lambda>dc. lstart dc < scan_end) (rb_from (root dcc) scan_start)) sw)))"

section \<open>Window features and scores\<close>

text \<open>\<open>(qbp, lbp, ncmds, avg_piece, pend_blks)\<close> of \<open>swod_build_window_feat\<close>.\<close>

definition swod_build_window_feat ::
    "f2fs_sb_info \<Rightarrow> swod_ctrl \<Rightarrow> nat \<Rightarrow> nat \<Rightarrow> nat \<Rightarrow> nat \<times> nat \<times> nat \<times> nat \<times> nat" where
  "swod_build_window_feat sbi sw first off len =
     (let segs = [first + off..<first + off + len];
          q = fold (\<lambda>s acc. u32 (acc + pend_blks (seg_hint sw s))) segs 0;
          l = fold (\<lambda>s acc. u32 (acc + get_valid_blocks_seg sbi s)) segs 0;
          ncmds = fold (\<lambda>s acc. u32 (acc + nr_cmds (seg_hint sw s))) segs 0;
          pend = q;
          cap = len * blocks_per_seg sbi
      in ((if cap \<noteq> 0 then u16 (q * SWOD_BP_ONE div cap) else 0),
          (if cap \<noteq> 0 then u16 (l * SWOD_BP_ONE div cap) else 0),
          min ncmds 65535,
          (if ncmds \<noteq> 0 then min 65535 (u16 (pend * SWOD_BP_ONE div ncmds)) else 0),
          pend))"

definition swod_score_formation :: "swod_tunables \<Rightarrow> nat \<Rightarrow> int \<Rightarrow> int \<Rightarrow> int" where
  "swod_score_formation t avg_piece q_growth cmd_growth =
     (if avg_piece \<noteq> 0 \<and> avg_piece \<le> swod_frag_max_avg_piece_blks t then 1000 else 0) +
     (if q_growth > 0 then q_growth div 10 else 0) +
     (if cmd_growth > 0 then cmd_growth * 100 else 0)"

section \<open>The window scan\<close>

text \<open>The \<open>best_short_*\<close> and \<open>best_complete_*\<close> locals of \<open>swod_eval_group_locked\<close>.\<close>

record swod_best =
  b_found :: bool
  b_score :: int
  b_off :: nat
  b_len :: nat
  b_qbp :: nat
  b_lbp :: nat
  b_ncmds :: nat
  b_avg_piece :: nat
  b_pend_blks :: nat
  b_oldest :: jiffies_t

definition best_init :: swod_best where
  "best_init = \<lparr>b_found = False, b_score = 0, b_off = 0, b_len = 0, b_qbp = 0, b_lbp = UINT_MAX,
     b_ncmds = 0, b_avg_piece = 0, b_pend_blks = 0, b_oldest = 0\<rparr>"

primrec prefix_sum :: "(nat \<Rightarrow> nat) \<Rightarrow> nat \<Rightarrow> nat" where
  "prefix_sum f 0 = 0"
| "prefix_sum f (Suc i) = u32 (prefix_sum f i + f i)"

definition short_better :: "swod_best \<Rightarrow> int \<Rightarrow> nat \<Rightarrow> nat \<Rightarrow> bool" where
  "short_better b fscore len lbp \<longleftrightarrow>
     \<not> b_found b \<or> fscore > b_score b \<or> (fscore = b_score b \<and> len < b_len b) \<or>
     (fscore = b_score b \<and> len = b_len b \<and> lbp < b_lbp b)"

definition complete_better :: "swod_best \<Rightarrow> nat \<Rightarrow> nat \<Rightarrow> jiffies_t \<Rightarrow> bool" where
  "complete_better b len lbp cur_oldest \<longleftrightarrow>
     \<not> b_found b \<or> len > b_len b \<or> (len = b_len b \<and> lbp < b_lbp b) \<or>
     (len = b_len b \<and> lbp = b_lbp b \<and>
      (b_oldest b = 0 \<or> time_before cur_oldest (b_oldest b)))"

definition eval_window ::
    "f2fs_sb_info \<Rightarrow> swod_tunables \<Rightarrow> swod_ctrl \<Rightarrow> nat \<Rightarrow> nat \<Rightarrow> nat \<Rightarrow> jiffies_t \<Rightarrow>
     swod_best \<times> swod_best \<Rightarrow> swod_best \<times> swod_best" where
  "eval_window sbi t sw gid off len cur_oldest bests =
     (let short = fst bests; complete = snd bests;
          g = grp_hint sw gid;
          first = swod_group_first_seg sw gid;
          qpref = prefix_sum (\<lambda>i. pend_blks (seg_hint sw (first + i)));
          q = sub32 (qpref (off + len)) (qpref off);
          cap = len * blocks_per_seg sbi;
          qbp = fst (stack_junk sbi gid off len);
          lbp = snd (stack_junk sbi gid off len)
      in if q = cap then bests
         else if lbp > swod_lres_thr_bp t then bests
         else
           (let feat = swod_build_window_feat sbi sw first off len;
                cand_ncmds = fst (snd (snd feat));
                cand_avg_piece = fst (snd (snd (snd feat)));
                cand_pend_blks = snd (snd (snd (snd feat)));
                held = (g_state g = SWOD_G_HELD \<and> hold_len g > 0);
                fq_growth = (if held then s16 (s16 (int qbp) - s16 (int (last_qbp g))) else 0);
                fcmd_growth = (if held then s16 (s16 (int cand_ncmds) - s16 (int (last_nr_cmds g))) else 0);
                fscore = swod_score_formation t cand_avg_piece fq_growth fcmd_growth;
                cand = \<lparr>b_found = True, b_score = fscore, b_off = off, b_len = len, b_qbp = u32 qbp,
                        b_lbp = u32 lbp, b_ncmds = cand_ncmds, b_avg_piece = cand_avg_piece,
                        b_pend_blks = cand_pend_blks, b_oldest = cur_oldest\<rparr>
            in ((if cand_ncmds \<ge> swod_frag_min_cmds t \<and>
                    cand_avg_piece \<le> swod_frag_max_avg_piece_blks t \<and>
                    cand_pend_blks \<ge> swod_frag_min_pend_blks t \<and>
                    fscore \<ge> 100 \<and> short_better short fscore len lbp
                 then cand else short),
                (if qbp \<ge> swod_wce_qcov_thr_bp t \<and> lbp \<le> swod_wce_lres_thr_bp t \<and>
                    complete_better complete len lbp cur_oldest
                 then cand else complete))))"

definition upd_oldest :: "jiffies_t \<Rightarrow> jiffies_t \<Rightarrow> jiffies_t" where
  "upd_oldest o1 cur_oldest =
     (if o1 \<noteq> 0 \<and> (cur_oldest = 0 \<or> time_before o1 cur_oldest) then o1 else cur_oldest)"

definition eval_len_step ::
    "f2fs_sb_info \<Rightarrow> swod_tunables \<Rightarrow> swod_ctrl \<Rightarrow> nat \<Rightarrow> nat \<Rightarrow> nat \<Rightarrow>
     jiffies_t \<times> swod_best \<times> swod_best \<Rightarrow> jiffies_t \<times> swod_best \<times> swod_best" where
  "eval_len_step sbi t sw gid off len st =
     (let endi = off + len - 1;
          cur_oldest = upd_oldest
            (oldest_jiffies (seg_hint sw (swod_group_first_seg sw gid + endi))) (fst st)
      in (cur_oldest, eval_window sbi t sw gid off len cur_oldest (snd st)))"

definition eval_off_step ::
    "f2fs_sb_info \<Rightarrow> swod_tunables \<Rightarrow> swod_ctrl \<Rightarrow> nat \<Rightarrow> nat \<Rightarrow> swod_best \<times> swod_best \<Rightarrow> swod_best \<times> swod_best" where
  "eval_off_step sbi t sw gid off bests =
     (let n = swod_group_nsegs sw gid;
          max_this_len = min (swod_max_hold_len sbi sw gid) (n - off)
      in snd (fold (eval_len_step sbi t sw gid off) [1..<Suc max_this_len] (0, bests)))"

definition eval_scan ::
    "f2fs_sb_info \<Rightarrow> swod_tunables \<Rightarrow> swod_ctrl \<Rightarrow> nat \<Rightarrow> swod_best \<times> swod_best" where
  "eval_scan sbi t sw gid =
     fold (eval_off_step sbi t sw gid) [0..<swod_group_nsegs sw gid] (best_init, best_init)"

section \<open>Eviction and evaluation\<close>

text \<open>The held group with the worst window: least coverage, then most live blocks, then shortest.\<close>

fun held_victim :: "swod_ctrl \<Rightarrow> nat list \<Rightarrow> nat option \<Rightarrow> nat option" where
  "held_victim sw [] victim = victim"
| "held_victim sw (i # is) victim =
     held_victim sw is
       (let cand = grp_hint sw i
        in if g_state cand \<noteq> SWOD_G_HELD then victim
           else (case victim of
                   None \<Rightarrow> Some i
                 | Some v' \<Rightarrow>
                     (let v = grp_hint sw v'
                      in if hold_qbp cand < hold_qbp v \<or>
                            (hold_qbp cand = hold_qbp v \<and> hold_lbp cand > hold_lbp v) \<or>
                            (hold_qbp cand = hold_qbp v \<and> hold_lbp cand = hold_lbp v \<and>
                             hold_len cand < hold_len v)
                         then Some i else victim)))"

text \<open>Whether the candidate may replace the victim.\<close>

definition beats_victim :: "swod_best \<Rightarrow> swod_group_hint \<Rightarrow> bool" where
  "beats_victim b v \<longleftrightarrow>
     \<not> (b_qbp b < hold_qbp v) \<and>
     \<not> (b_qbp b = hold_qbp v \<and> b_lbp b > hold_lbp v) \<and>
     \<not> (b_qbp b = hold_qbp v \<and> b_lbp b = hold_lbp v \<and> b_len b \<le> hold_len v)"

text \<open>From the chosen candidate on: make room, account the growth, install.\<close>

definition eval_install ::
    "f2fs_sb_info \<Rightarrow> swod_tunables \<Rightarrow> swod_ctrl \<Rightarrow> nat \<Rightarrow> swod_best \<Rightarrow> swod_action \<Rightarrow> jiffies_t \<Rightarrow> swod_ctrl" where
  "eval_install sbi t sw gid b action now =
     (let room =
        (if nr_held_groups sw \<ge> swod_max_held_groups t then
           (case held_victim sw [0..<nr_groups sw] None of
              None \<Rightarrow> None
            | Some v \<Rightarrow>
                (if beats_victim b (grp_hint sw v)
                 then Some (swod_release_group_locked sbi t sw v SWOD_REL_PRESSURE) else None))
         else Some sw)
      in case room of
           None \<Rightarrow> sw
         | Some sw1 \<Rightarrow>
             (let g = grp_hint sw1 gid;
                  gain = int (b_qbp b) - int (last_qbp g);
                  sw2 = (if g_state g = SWOD_G_HELD \<and> hold_len g > 0 \<and> gain > 0
                         then sw1\<lparr>stats := (stats sw1)\<lparr>coverage_gain_blocks :=
                                coverage_gain_blocks (stats sw1) + gain\<rparr>\<rparr>
                         else sw1)
              in swod_install_candidate sbi t sw2 gid (b_off b) (b_len b) (u16 (b_qbp b)) (u16 (b_lbp b))
                   (b_ncmds b) (b_avg_piece b) action now))"

definition swod_eval_group_locked ::
    "f2fs_sb_info \<Rightarrow> discard_cmd_control \<Rightarrow> swod_ctrl \<Rightarrow> nat \<Rightarrow> jiffies_t \<Rightarrow> swod_ctrl" where
  "swod_eval_group_locked sbi dcc sw gid now =
     (let t = tun dcc; g = grp_hint sw gid; max_len = swod_max_hold_len sbi sw gid
      in if swod_group_nsegs sw gid = 0 then sw
         else if swod_regime_blocked sbi dcc None then
           (let sw1 = sw\<lparr>stats := (stats sw)\<lparr>eval_blocked_cnt := eval_blocked_cnt (stats sw) + 1\<rparr>\<rparr>
            in if swod_group_is_active g then swod_drop_group_locked sbi sw1 gid SWOD_REL_PRESSURE else sw1)
         else
           (let sw1 = (if swod_group_is_active g \<and> hold_len g > max_len
                       then swod_drop_group_locked sbi sw gid SWOD_REL_PRESSURE else sw);
                g1 = grp_hint sw1 gid
            in if swod_group_is_active g1 then
                 (if swod_window_ready_locked sbi sw1 gid
                  then swod_release_group_locked sbi t sw1 gid SWOD_REL_SUCCESS
                  else if time_after_eq now (swod_group_deadline g1)
                  then swod_release_group_locked sbi t sw1 gid SWOD_REL_TIMEOUT
                  else sw1)
               else
                 (let bests = eval_scan sbi t sw1 gid; short = fst bests; complete = snd bests
                  in if b_found short then
                       (let st = stats sw1;
                            sw2 = sw1\<lparr>stats := st\<lparr>capture_followup_cnt := capture_followup_cnt st + 1,
                                                  capture_blocks := capture_blocks st + b_pend_blks short\<rparr>\<rparr>
                        in eval_install sbi t sw2 gid short SWOD_ACT_SHORT_HOLD now)
                     else if b_found complete
                     then eval_install sbi t sw1 gid complete SWOD_ACT_COMPLETION_HOLD now
                     else sw1\<lparr>stats := (stats sw1)\<lparr>eval_no_candidate_cnt :=
                                 eval_no_candidate_cnt (stats sw1) + 1\<rparr>\<rparr>)))"

section \<open>What the scan can find\<close>

text \<open>
  The candidates lie inside the group and are no longer than the GC mode allows, whatever
  the uninitialised locals hold; a short-hold candidate meets the fragment thresholds.
\<close>

definition cand_in_group :: "f2fs_sb_info \<Rightarrow> swod_ctrl \<Rightarrow> nat \<Rightarrow> swod_best \<Rightarrow> bool" where
  "cand_in_group sbi sw gid b \<longleftrightarrow>
     (b_found b \<longrightarrow> 0 < b_len b \<and> b_len b \<le> swod_max_hold_len sbi sw gid \<and>
                   b_off b + b_len b \<le> swod_group_nsegs sw gid)"

definition short_ok :: "swod_tunables \<Rightarrow> swod_best \<Rightarrow> bool" where
  "short_ok t b \<longleftrightarrow>
     (b_found b \<longrightarrow> swod_frag_min_cmds t \<le> b_ncmds b \<and> 0 < b_avg_piece b \<and>
        b_avg_piece b \<le> swod_frag_max_avg_piece_blks t \<and> swod_frag_min_pend_blks t \<le> b_pend_blks b)"

definition scan_ok :: "f2fs_sb_info \<Rightarrow> swod_tunables \<Rightarrow> swod_ctrl \<Rightarrow> nat \<Rightarrow> swod_best \<times> swod_best \<Rightarrow> bool" where
  "scan_ok sbi t sw gid bests \<longleftrightarrow>
     cand_in_group sbi sw gid (fst bests) \<and> cand_in_group sbi sw gid (snd bests) \<and> short_ok t (fst bests)"

text \<open>The group is normal while it is scanned, so the growth terms of the score are zero.\<close>

lemma score_no_growth: "swod_score_formation t a 0 0 \<ge> 100 \<longleftrightarrow> 0 < a \<and> a \<le> swod_frag_max_avg_piece_blks t"
  by (simp add: swod_score_formation_def)

lemma eval_window_ok:
  assumes "scan_ok sbi t sw gid bests" and normal: "\<not> swod_group_is_active (grp_hint sw gid)"
    and "0 < len" "len \<le> swod_max_hold_len sbi sw gid" "off + len \<le> swod_group_nsegs sw gid"
  shows "scan_ok sbi t sw gid (eval_window sbi t sw gid off len o1 bests)"
proof -
  have nh: "g_state (grp_hint sw gid) \<noteq> SWOD_G_HELD"
    using normal by (simp add: swod_group_is_active_def)
  show ?thesis
    using assms(1,3-5) nh score_no_growth
    unfolding eval_window_def Let_def scan_ok_def
    by (simp add: cand_in_group_def short_ok_def)
qed

lemma eval_scan_ok:
  assumes normal: "\<not> swod_group_is_active (grp_hint sw gid)"
  shows "scan_ok sbi t sw gid (eval_scan sbi t sw gid)"
  unfolding eval_scan_def
proof (rule fold_upt_invariant)
  show "scan_ok sbi t sw gid (best_init, best_init)"
    by (simp add: scan_ok_def cand_in_group_def short_ok_def best_init_def)
next
  fix off bests
  assume off: "off \<in> set [0..<swod_group_nsegs sw gid]" and ok: "scan_ok sbi t sw gid bests"
  let ?m = "min (swod_max_hold_len sbi sw gid) (swod_group_nsegs sw gid - off)"
  have "scan_ok sbi t sw gid (snd (fold (eval_len_step sbi t sw gid off) [1..<Suc ?m] (0, bests)))"
  proof (rule fold_upt_invariant [where I = "\<lambda>st. scan_ok sbi t sw gid (snd st)"])
    show "scan_ok sbi t sw gid (snd (0 :: jiffies_t, bests))" using ok by simp
  next
    fix len and st :: "jiffies_t \<times> swod_best \<times> swod_best"
    assume "len \<in> set [1..<Suc ?m]" "scan_ok sbi t sw gid (snd st)"
    with off normal show "scan_ok sbi t sw gid (snd (eval_len_step sbi t sw gid off len st))"
      unfolding eval_len_step_def Let_def by (auto intro!: eval_window_ok)
  qed
  then show "scan_ok sbi t sw gid (eval_off_step sbi t sw gid off bests)"
    by (simp add: eval_off_step_def Let_def)
qed

section \<open>Evaluation keeps the invariant\<close>

lemma held_victim_held:
  "held_victim sw is v = Some w \<Longrightarrow> (v = Some w \<or> w \<in> set is \<and> g_state (grp_hint sw w) = SWOD_G_HELD)"
  by (induction sw "is" v rule: held_victim.induct) (auto simp: Let_def split: if_splits option.splits)

text \<open>Groups that are not active stay so when another group is released.\<close>

lemma drop_other: "i \<noteq> gid \<Longrightarrow> grp_hint (swod_drop_group_locked sbi sw gid why) i = grp_hint sw i"
  by (simp add: drop_grp_hint)

lemma park_group_other: "i \<noteq> gid \<Longrightarrow> grp_hint (park_group sbi t sw gid q l sc now) i = grp_hint sw i"
  by (simp add: park_group_def Let_def)

lemma release_keeps_normal:
  assumes "\<not> swod_group_is_active (grp_hint sw i)" "swod_group_is_active (grp_hint sw gid)"
  shows "grp_hint (swod_release_group_locked sbi t sw gid why) i = grp_hint sw i"
proof -
  have ne: "i \<noteq> gid" using assms by auto
  show ?thesis
  proof (cases "swod_try_park_group_locked sbi t sw gid why (jiffies sbi)")
    case None
    with ne show ?thesis by (simp add: swod_release_group_locked_def drop_other)
  next
    case (Some sw')
    from Some have "grp_hint sw' i = grp_hint sw i"
    proof (cases rule: try_park_cases)
      case (park qbp lbp score)
      with ne show ?thesis by (simp add: park_group_other)
    next
      case (evict v qbp lbp score)
      then have "v \<noteq> i" using assms(1) by (auto simp: swod_group_is_active_def)
      with evict ne show ?thesis by (simp add: park_group_other drop_other)
    qed
    with Some show ?thesis by (simp add: swod_release_group_locked_def)
  qed
qed

lemma eval_install_inv:
  assumes inv: "swod_inv sw" and gid: "gid < nr_groups sw"
    and normal: "\<not> swod_group_is_active (grp_hint sw gid)"
    and b: "b_found b" "cand_in_group sbi sw gid b" and act: "action \<noteq> SWOD_ACT_BYPASS"
  shows "swod_inv (eval_install sbi t sw gid b action now)"
    and "same_dims sw (eval_install sbi t sw gid b action now)"
proof -
  have install: "swod_inv (swod_install_candidate sbi t sw1 gid (b_off b) (b_len b) q l nc av action now) \<and>
      same_dims sw (swod_install_candidate sbi t sw1 gid (b_off b) (b_len b) q l nc av action now)"
    if "swod_inv sw1" "same_dims sw sw1" "grp_hint sw1 gid = grp_hint sw gid" for sw1 q l nc av
    using that b gid normal act same_dims_geo[OF that(2)] same_dims_trans[OF that(2) install_same]
    by (auto intro!: install_inv simp: cand_in_group_def)
  have not_held: "g_state (grp_hint sw gid) \<noteq> SWOD_G_HELD"
    using normal by (simp add: swod_group_is_active_def)
  have "swod_inv (eval_install sbi t sw gid b action now) \<and> same_dims sw (eval_install sbi t sw gid b action now)"
  proof (cases "swod_max_held_groups t \<le> nr_held_groups sw")
    case False
    with install[OF inv same_dims_refl refl] not_held show ?thesis
      by (simp add: eval_install_def Let_def)
  next
    case True
    show ?thesis
    proof (cases "held_victim sw [0..<nr_groups sw] None")
      case None
      with True inv show ?thesis by (simp add: eval_install_def Let_def)
    next
      case (Some v)
      let ?r = "swod_release_group_locked sbi t sw v SWOD_REL_PRESSURE"
      have v: "v < nr_groups sw" "swod_group_is_active (grp_hint sw v)"
        using held_victim_held[OF Some] by (auto simp: swod_group_is_active_def)
      have "grp_hint ?r gid = grp_hint sw gid" using release_keeps_normal[OF normal v(2)] .
      with install[OF release_group_inv[OF inv v(1)]] not_held True Some inv show ?thesis
        by (simp add: eval_install_def Let_def)
    qed
  qed
  then show "swod_inv (eval_install sbi t sw gid b action now)"
    and "same_dims sw (eval_install sbi t sw gid b action now)" by blast+
qed

lemma eval_group_inv:
  assumes inv: "swod_inv sw" and gid: "gid < nr_groups sw"
  shows "swod_inv (swod_eval_group_locked sbi dcc sw gid now) \<and>
         same_dims sw (swod_eval_group_locked sbi dcc sw gid now)"
proof -
  define sw1 where "sw1 = (if swod_group_is_active (grp_hint sw gid) \<and>
      hold_len (grp_hint sw gid) > swod_max_hold_len sbi sw gid
    then swod_drop_group_locked sbi sw gid SWOD_REL_PRESSURE else sw)"
  have s1: "swod_inv sw1" "same_dims sw sw1" "gid < nr_groups sw1"
    using drop_group_inv[OF inv gid] inv drop_same gid same_dims_geo(4)[OF drop_same]
    by (auto simp: sw1_def)
  have geo: "swod_group_nsegs (sw\<lparr>stats := st\<rparr>) gid = swod_group_nsegs sw gid" for st by simp
  have install: "swod_inv (eval_install sbi t sw2 gid b action now) \<and>
      same_dims sw (eval_install sbi t sw2 gid b action now)"
    if "\<not> swod_group_is_active (grp_hint sw1 gid)" "b_found b" "cand_in_group sbi sw1 gid b"
      "action \<noteq> SWOD_ACT_BYPASS" "sw2 = sw1\<lparr>stats := st\<rparr>" for t b action st sw2
    using that s1 eval_install_inv[of sw2 gid b sbi action t now]
      same_dims_trans[OF s1(2), of "eval_install sbi t sw2 gid b action now"]
    by (simp add: cand_in_group_def swod_max_hold_len_def same_dims_def)
  have scan: "cand_in_group sbi sw1 gid (fst (eval_scan sbi t sw1 gid))"
    "cand_in_group sbi sw1 gid (snd (eval_scan sbi t sw1 gid))"
    if "\<not> swod_group_is_active (grp_hint sw1 gid)" for t
    using eval_scan_ok[OF that] by (simp_all add: scan_ok_def)
  have same: "sw1 = sw1\<lparr>stats := stats sw1\<rparr>" by simp
  have rel: "swod_inv (swod_release_group_locked sbi t sw1 gid why) \<and>
      same_dims sw (swod_release_group_locked sbi t sw1 gid why)" for t why
    using release_group_inv[OF s1(1,3)] same_dims_trans[OF s1(2)] by blast
  have drop: "swod_inv (swod_drop_group_locked sbi (sw\<lparr>stats := st\<rparr>) gid why) \<and>
      same_dims sw (swod_drop_group_locked sbi (sw\<lparr>stats := st\<rparr>) gid why)" for st why
    using drop_group_inv[of "sw\<lparr>stats := st\<rparr>" gid] inv gid drop_same[of "sw\<lparr>stats := st\<rparr>"]
    by (simp add: same_dims_def)
  show ?thesis
    unfolding swod_eval_group_locked_def Let_def sw1_def[symmetric]
    using inv s1 rel drop scan install[OF _ _ _ _ refl] install[OF _ _ _ _ same]
    by simp
qed

section \<open>Limits on held and parked groups\<close>

definition within_limits :: "swod_tunables \<Rightarrow> swod_ctrl \<Rightarrow> swod_ctrl \<Rightarrow> bool" where
  "within_limits t sw sw' \<longleftrightarrow>
     nr_held_groups sw' \<le> max (nr_held_groups sw) (swod_max_held_groups t) \<and>
     nr_parked_groups sw' \<le> max (nr_parked_groups sw) (swod_park_budget t)"

lemma within_limits_refl [simp]: "within_limits t sw sw"
  by (simp add: within_limits_def)

lemma within_limits_stats [simp]:
  "within_limits t sw (sw'\<lparr>stats := st\<rparr>) \<longleftrightarrow> within_limits t sw sw'"
  "within_limits t (sw\<lparr>stats := st\<rparr>) sw' \<longleftrightarrow> within_limits t sw sw'"
  by (simp_all add: within_limits_def)

lemma within_limits_trans [trans]:
  "within_limits t a b \<Longrightarrow> within_limits t b c \<Longrightarrow> within_limits t a c"
  by (auto simp: within_limits_def)

lemma drop_counts:
  "nr_held_groups (swod_drop_group_locked sbi sw gid why) =
     (if is_held (grp_hint sw gid) then nr_held_groups sw - 1 else nr_held_groups sw)"
  "nr_parked_groups (swod_drop_group_locked sbi sw gid why) =
     (if is_parked (grp_hint sw gid) then nr_parked_groups sw - 1 else nr_parked_groups sw)"
  by (auto simp: swod_drop_group_locked_def swod_clear_group_locked_def account_release_same Let_def
      is_held_def is_parked_def)

lemma drop_limits: "within_limits t sw (swod_drop_group_locked sbi sw gid why)"
  by (auto simp: within_limits_def drop_counts)

text \<open>Releasing a held group frees one slot, whether it is parked or dropped.\<close>

lemma release_limits:
  assumes "swod_inv sw" "gid < nr_groups sw"
  shows "within_limits t sw (swod_release_group_locked sbi t sw gid why)"
    and "is_held (grp_hint sw gid) \<Longrightarrow>
      nr_held_groups (swod_release_group_locked sbi t sw gid why) = nr_held_groups sw - 1"
proof -
  have "within_limits t sw (swod_release_group_locked sbi t sw gid why) \<and>
    (is_held (grp_hint sw gid) \<longrightarrow>
      nr_held_groups (swod_release_group_locked sbi t sw gid why) = nr_held_groups sw - 1)"
  proof (cases "swod_try_park_group_locked sbi t sw gid why (jiffies sbi)")
    case None
    then show ?thesis using drop_limits by (simp add: swod_release_group_locked_def drop_counts)
  next
    case (Some sw')
    from Some have "within_limits t sw sw' \<and> nr_held_groups sw' = nr_held_groups sw - 1"
    proof (cases rule: try_park_cases)
      case (park qbp lbp score)
      then show ?thesis by (auto simp: within_limits_def park_group_def Let_def)
    next
      case (evict v qbp lbp score)
      then have "is_parked (grp_hint sw v)" "\<not> is_held (grp_hint sw v)"
        by (simp_all add: is_parked_def is_held_def)
      moreover from swod_inv_countsD(2)[OF assms(1) evict(2) this(1)]
      have "nr_parked_groups sw \<noteq> 0" by simp
      ultimately show ?thesis
        using evict(6) by (auto simp: within_limits_def park_group_def Let_def drop_counts)
    qed
    with Some show ?thesis by (simp add: swod_release_group_locked_def)
  qed
  then show "within_limits t sw (swod_release_group_locked sbi t sw gid why)"
    and "is_held (grp_hint sw gid) \<Longrightarrow>
      nr_held_groups (swod_release_group_locked sbi t sw gid why) = nr_held_groups sw - 1" by blast+
qed

lemma install_counts:
  "nr_held_groups (swod_install_candidate sbi t sw gid off len q l nc av action now) = nr_held_groups sw + 1"
  "nr_parked_groups (swod_install_candidate sbi t sw gid off len q l nc av action now) = nr_parked_groups sw"
  by (simp_all add: swod_install_candidate_def Let_def)

lemma eval_install_limits:
  assumes inv: "swod_inv sw"
  shows "within_limits t sw (eval_install sbi t sw gid b action now)"
proof (cases "swod_max_held_groups t \<le> nr_held_groups sw")
  case False
  then show ?thesis by (auto simp: eval_install_def Let_def within_limits_def install_counts)
next
  case True
  show ?thesis
  proof (cases "held_victim sw [0..<nr_groups sw] None")
    case None
    with True show ?thesis by (simp add: eval_install_def Let_def)
  next
    case (Some v)
    have v: "v < nr_groups sw" "is_held (grp_hint sw v)"
      using held_victim_held[OF Some] by (auto simp: is_held_def)
    have "0 < nr_held_groups sw" using swod_inv_countsD(1)[OF inv v(1)] v(2) by simp
    with True Some release_limits(1)[OF inv v(1), of t sbi SWOD_REL_PRESSURE]
      release_limits(2)[OF inv v(1,2), of sbi t SWOD_REL_PRESSURE]
    show ?thesis
      by (auto simp: eval_install_def Let_def within_limits_def install_counts)
  qed
qed

lemma eval_group_limits:
  assumes inv: "swod_inv sw" and gid: "gid < nr_groups sw"
  shows "within_limits (tun dcc) sw (swod_eval_group_locked sbi dcc sw gid now)"
proof -
  define sw1 where "sw1 = (if swod_group_is_active (grp_hint sw gid) \<and>
      hold_len (grp_hint sw gid) > swod_max_hold_len sbi sw gid
    then swod_drop_group_locked sbi sw gid SWOD_REL_PRESSURE else sw)"
  have s1: "swod_inv sw1" "gid < nr_groups sw1" and l1: "within_limits (tun dcc) sw sw1"
    using drop_group_inv[OF inv gid] inv gid same_dims_geo(4)[OF drop_same] drop_limits
    by (auto simp: sw1_def)
  have rel: "within_limits (tun dcc) sw (swod_release_group_locked sbi (tun dcc) sw1 gid why)" for why
    using within_limits_trans[OF l1 release_limits(1)[OF s1]] .
  have ins: "within_limits (tun dcc) sw (eval_install sbi (tun dcc) (sw1\<lparr>stats := st\<rparr>) gid b a now)" for st b a
    using within_limits_trans[OF l1] eval_install_limits[of "sw1\<lparr>stats := st\<rparr>" "tun dcc"] s1(1) by simp
  have ins0: "within_limits (tun dcc) sw (eval_install sbi (tun dcc) sw1 gid b a now)" for b a
    using within_limits_trans[OF l1 eval_install_limits[OF s1(1)]] .
  have drop: "within_limits (tun dcc) sw (swod_drop_group_locked sbi (sw\<lparr>stats := st\<rparr>) gid why)" for st why
    using drop_limits[of "tun dcc" "sw\<lparr>stats := st\<rparr>"] by simp
  show ?thesis
    unfolding swod_eval_group_locked_def Let_def sw1_def[symmetric]
    using l1 rel ins ins0 drop by simp
qed

section \<open>Frame: no write outside the arrays\<close>

text \<open>Two controllers agree on group hints and bitmap bits beyond the arrays' ends.\<close>

definition same_outside :: "swod_ctrl \<Rightarrow> swod_ctrl \<Rightarrow> bool" where
  "same_outside sw sw' \<longleftrightarrow>
     (\<forall>i \<ge> nr_groups sw. grp_hint sw' i = grp_hint sw i) \<and>
     (\<forall>s \<ge> nr_main_segs sw. hold_segmap sw' s = hold_segmap sw s \<and>
        park_segmap sw' s = park_segmap sw s \<and> wce_segmap sw' s = wce_segmap sw s)"

lemma same_outside_refl [simp]: "same_outside sw sw"
  by (simp add: same_outside_def)

lemma same_outside_stats [simp]:
  "same_outside sw (sw'\<lparr>stats := st\<rparr>) \<longleftrightarrow> same_outside sw sw'"
  "same_outside (sw\<lparr>stats := st\<rparr>) sw' \<longleftrightarrow> same_outside sw sw'"
  by (simp_all add: same_outside_def)

lemma same_outside_trans:
  "same_outside a b \<Longrightarrow> same_dims a b \<Longrightarrow> same_outside b c \<Longrightarrow> same_outside a c"
  by (simp add: same_outside_def same_dims_def)

lemma clear_outside:
  assumes "swod_dims sw" "gid < nr_groups sw"
  shows "same_outside sw (swod_clear_group_locked sbi sw gid)"
  using assms nsegs_bounds(3)[OF assms]
  by (auto simp: same_outside_def swod_clear_group_locked_def Let_def clear_bits_iff)

lemma drop_outside:
  assumes "swod_dims sw" "gid < nr_groups sw"
  shows "same_outside sw (swod_drop_group_locked sbi sw gid why)"
proof -
  let ?a = "swod_account_release sw why"
  have "swod_dims ?a" "gid < nr_groups ?a"
    using assms by (simp_all add: swod_account_release_def Let_def swod_dims_def)
  from clear_outside[OF this] show ?thesis
    by (simp add: swod_drop_group_locked_def same_outside_def account_release_same
        same_dims_geo[OF account_release_same(8)])
qed

lemma park_group_outside:
  assumes "swod_inv sw" "gid < nr_groups sw" "g_state (grp_hint sw gid) = SWOD_G_HELD"
  shows "same_outside sw (park_group sbi t sw gid q l sc now)"
proof -
  have "win_first sw gid + hold_len (grp_hint sw gid) \<le> nr_main_segs sw"
    using swod_inv_grp_ok[OF assms(1,2)] assms(3) nsegs_bounds(3)[OF swod_inv_dims[OF assms(1)] assms(2)]
    by (simp add: grp_ok_def swod_group_is_active_def win_first_def)
  with assms(2) show ?thesis
    by (auto simp: same_outside_def park_group_def Let_def clear_bits_iff set_bits_iff)
qed

lemma release_outside:
  assumes "swod_inv sw" "gid < nr_groups sw"
  shows "same_outside sw (swod_release_group_locked sbi t sw gid why)"
proof (cases "swod_try_park_group_locked sbi t sw gid why (jiffies sbi)")
  case None
  then show ?thesis
    using drop_outside[OF swod_inv_dims[OF assms(1)] assms(2)] by (simp add: swod_release_group_locked_def)
next
  case (Some sw')
  from Some have "same_outside sw sw'"
  proof (cases rule: try_park_cases)
    case (park qbp lbp score)
    then show ?thesis using park_group_outside[OF assms] by simp
  next
    case (evict v qbp lbp score)
    let ?d = "swod_drop_group_locked sbi sw v SWOD_REL_PRESSURE"
    have "swod_inv ?d" "gid < nr_groups ?d" "g_state (grp_hint ?d gid) = SWOD_G_HELD"
      using drop_group_inv[OF assms(1) evict(2)] assms(2) evict(1,3) same_dims_geo(4)[OF drop_same]
      by (simp_all add: drop_grp_hint)
    from same_outside_trans[OF drop_outside[OF swod_inv_dims[OF assms(1)] evict(2)] drop_same
        park_group_outside[OF this]] evict(6)
    show ?thesis by simp
  qed
  with Some show ?thesis by (simp add: swod_release_group_locked_def)
qed

lemma install_outside:
  assumes "swod_dims sw" "gid < nr_groups sw" "off + len \<le> swod_group_nsegs sw gid"
  shows "same_outside sw (swod_install_candidate sbi t sw gid off len q l nc av action now)"
  using assms nsegs_bounds(3)[OF assms(1,2)]
  by (auto simp: same_outside_def swod_install_candidate_def Let_def clear_bits_iff set_bits_iff)

lemma eval_install_outside:
  assumes inv: "swod_inv sw" and gid: "gid < nr_groups sw"
    and normal: "\<not> swod_group_is_active (grp_hint sw gid)" and b: "b_found b" "cand_in_group sbi sw gid b"
  shows "same_outside sw (eval_install sbi t sw gid b action now)"
proof -
  have install: "same_outside sw1 (swod_install_candidate sbi t sw1 gid (b_off b) (b_len b) q l nc av action now)"
    if "swod_inv sw1" "same_dims sw sw1" for sw1 q l nc av
    using that b gid swod_inv_dims[OF that(1)] same_dims_geo[OF that(2)]
    by (intro install_outside) (auto simp: cand_in_group_def)
  have nh: "g_state (grp_hint sw gid) \<noteq> SWOD_G_HELD"
    using normal by (simp add: swod_group_is_active_def)
  show ?thesis
  proof (cases "swod_max_held_groups t \<le> nr_held_groups sw")
    case False
    with install[OF inv same_dims_refl] nh show ?thesis by (simp add: eval_install_def Let_def)
  next
    case True
    show ?thesis
    proof (cases "held_victim sw [0..<nr_groups sw] None")
      case None
      with True show ?thesis by (simp add: eval_install_def Let_def)
    next
      case (Some v)
      have v: "v < nr_groups sw" "swod_group_is_active (grp_hint sw v)"
        using held_victim_held[OF Some] by (auto simp: swod_group_is_active_def)
      note r = release_group_inv[OF inv v(1)] release_outside[OF inv v(1)]
      from same_outside_trans[OF r(3,2) install[OF r(1,2)]]
        release_keeps_normal[OF normal v(2)] nh True Some
      show ?thesis by (simp add: eval_install_def Let_def)
    qed
  qed
qed

lemma eval_group_outside:
  assumes inv: "swod_inv sw" and gid: "gid < nr_groups sw"
  shows "same_outside sw (swod_eval_group_locked sbi dcc sw gid now)"
proof -
  define sw1 where "sw1 = (if swod_group_is_active (grp_hint sw gid) \<and>
      hold_len (grp_hint sw gid) > swod_max_hold_len sbi sw gid
    then swod_drop_group_locked sbi sw gid SWOD_REL_PRESSURE else sw)"
  note dims = swod_inv_dims[OF inv]
  have s1: "swod_inv sw1" "gid < nr_groups sw1" "same_dims sw sw1" "same_outside sw sw1"
    using drop_group_inv[OF inv gid] inv gid same_dims_geo(4)[OF drop_same] drop_same
      drop_outside[OF dims gid]
    by (auto simp: sw1_def)
  have rel: "same_outside sw (swod_release_group_locked sbi t sw1 gid why)" for t why
    using same_outside_trans[OF s1(4,3) release_outside[OF s1(1,2)]] .
  have ins: "same_outside sw (eval_install sbi t (sw1\<lparr>stats := st\<rparr>) gid b a now)"
    if "\<not> swod_group_is_active (grp_hint sw1 gid)" "b_found b" "cand_in_group sbi sw1 gid b" for st t b a
  proof -
    have "same_outside (sw1\<lparr>stats := st\<rparr>) (eval_install sbi t (sw1\<lparr>stats := st\<rparr>) gid b a now)"
      using that s1 by (intro eval_install_outside) (simp_all add: cand_in_group_def swod_max_hold_len_def)
    then show ?thesis using same_outside_trans[OF s1(4,3)] by simp
  qed
  note ins0 = ins[where st = "stats sw1", simplified]
  have scan: "cand_in_group sbi sw1 gid (fst (eval_scan sbi t sw1 gid))"
    "cand_in_group sbi sw1 gid (snd (eval_scan sbi t sw1 gid))"
    if "\<not> swod_group_is_active (grp_hint sw1 gid)" for t
    using eval_scan_ok[OF that] by (simp_all add: scan_ok_def)
  have drop: "same_outside sw (swod_drop_group_locked sbi (sw\<lparr>stats := st\<rparr>) gid why)" for st why
    using drop_outside[of "sw\<lparr>stats := st\<rparr>" gid] dims gid by (simp add: swod_dims_def)
  show ?thesis
    unfolding swod_eval_group_locked_def Let_def sw1_def[symmetric]
    using s1(4) rel drop scan ins ins0 by simp
qed

end
