(* ===== verification/Swod_Api.thy ===== *)
theory Swod_Api
  imports Swod_Eval
begin

text \<open>
  The entry points of SWOD (second half of \<open>swod.c\<close>): initialisation and teardown,
  the refresh after a change of the discard tree, the skip decision of the issue loop,
  release and timeout sweeps, the advisory lookups of GC and of the write path, and the
  background evaluation work. They take the discard control \<open>dcc\<close> with its optional
  controller and return the updated one. \<open>cmd_lock\<close> makes each of them one step, except
  for \<open>f2fs_swod_eval_work\<close>: it evaluates its groups without taking the lock, and its batch
  is modelled as one step that nothing interrupts.
\<close>

section \<open>Initialisation\<close>

datatype errno = EINVAL | ENOMEM | EIO | EOPNOTSUPP

text \<open>
  One array allocation of \<open>f2fs_swod_init\<close>: \<open>f2fs_kmalloc\<close> succeeds and hands out
  memory with whatever contents it had, or it fails and \<open>f2fs_kvzalloc\<close> hands out
  zeroed memory, or both fail.
\<close>

datatype 'a array_alloc = Kmalloc 'a | Kvzalloc | Alloc_failed

fun array_contents :: "'a \<Rightarrow> 'a array_alloc \<Rightarrow> 'a" where
  "array_contents zero (Kmalloc c) = c"
| "array_contents zero Kvzalloc = zero"
| "array_contents zero Alloc_failed = zero"

fun alloc_failed :: "'a array_alloc \<Rightarrow> bool" where
  "alloc_failed Alloc_failed = True"
| "alloc_failed _ = False"

record swod_allocs =
  a_ctrl :: bool                                  \<comment> \<open>\<open>f2fs_kzalloc\<close> of the controller\<close>
  a_seg_hint :: "(nat \<Rightarrow> swod_seg_hint) array_alloc"
  a_grp_hint :: "(nat \<Rightarrow> swod_group_hint) array_alloc"
  a_hold :: "bitmap array_alloc"
  a_park :: "bitmap array_alloc"
  a_wce :: "bitmap array_alloc"

definition zero_stats :: swod_stats where
  "zero_stats = \<lparr>hold_cnt = 0, skip_cnt = 0, skip_check_cnt = 0, skip_miss_noheld_cnt = 0,
     skip_miss_timeout_cnt = 0, skip_miss_success_cnt = 0, skip_miss_overlap_cnt = 0,
     eval_blocked_cnt = 0, eval_no_candidate_cnt = 0, success_release_cnt = 0,
     timeout_release_cnt = 0, pressure_release_cnt = 0, gc_pick_bg_cnt = 0, gc_pick_fg_cnt = 0,
     gc_fallback_cnt = 0, frag_ipu_pick_cnt = 0,
     frag_ipu_skip_target_cnt = 0, frag_ipu_skip_hot_cnt = 0, frag_ipu_skip_age_cnt = 0,
     frag_ipu_skip_shape_cnt = 0, short_hold_cnt = 0, completion_hold_cnt = 0,
     capture_followup_cnt = 0, capture_blocks = 0, coverage_gain_blocks = 0,
     start_nr_cmds_sum = 0, release_nr_cmds_sum = 0, wce_eligible_cnt = 0,
     wce_blocked_low_maturity_cnt = 0, wce_blocked_high_lres_cnt = 0,
     overlap_bypass_cnt = 0, policy_bypass_cnt = 0, capture_release_cnt = 0,
     mature_release_cnt = 0, bypass_release_cnt = 0\<rparr>"

definition dflt :: "nat \<Rightarrow> nat \<Rightarrow> nat" where
  "dflt d v = (if v = 0 then d else v)"

text \<open>The tunables after the defaults that are set before the allocations.\<close>

definition swod_init_tun :: "f2fs_sb_info \<Rightarrow> swod_tunables \<Rightarrow> swod_tunables" where
  "swod_init_tun sbi t =
     t\<lparr> swod_win_segs := min (dflt (swod_default_win_segs sbi) (swod_win_segs t)) SWOD_MAX_WIN_SEGS,
        swod_qcov_thr_bp := dflt 8500 (swod_qcov_thr_bp t),
        swod_lres_thr_bp := dflt 1000 (swod_lres_thr_bp t),
        swod_hold_min_ms := dflt 50 (swod_hold_min_ms t),
        swod_hold_max_ms := dflt 300 (swod_hold_max_ms t),
        swod_cmd_pressure := dflt 4096 (swod_cmd_pressure t),
        swod_blk_pressure := dflt (2 ^ 20) (swod_blk_pressure t),
        swod_max_held_groups := dflt 64 (swod_max_held_groups t) \<rparr>"

text \<open>The formation tunables, set once the allocations have succeeded.\<close>

definition swod_init_formation :: "swod_tunables \<Rightarrow> swod_tunables" where
  "swod_init_formation t =
     t\<lparr> swod_formation_enable := dflt 1 (swod_formation_enable t),
        swod_short_hold_min_ms := dflt 1 (swod_short_hold_min_ms t),
        swod_short_hold_max_ms := dflt 10 (swod_short_hold_max_ms t),
        swod_frag_min_cmds := dflt 8 (swod_frag_min_cmds t),
        swod_frag_max_avg_piece_blks := dflt 16 (swod_frag_max_avg_piece_blks t),
        swod_frag_min_pend_blks := dflt 32 (swod_frag_min_pend_blks t),
        swod_growth_min_bp := dflt 100 (swod_growth_min_bp t),
        swod_wce_qcov_thr_bp := dflt 7000 (swod_wce_qcov_thr_bp t),
        swod_wce_lres_thr_bp := dflt 2000 (swod_wce_lres_thr_bp t),
        swod_overlap_skip_ratio_bp := dflt 5000 (swod_overlap_skip_ratio_bp t) \<rparr>"

definition swod_new_ctrl :: "f2fs_sb_info \<Rightarrow> swod_tunables \<Rightarrow> swod_allocs \<Rightarrow> swod_ctrl" where
  "swod_new_ctrl sbi t al =
     \<lparr> nr_main_segs = MAIN_SEGS sbi, win_segs = swod_win_segs t,
       nr_groups = (MAIN_SEGS sbi + swod_win_segs t - 1) div swod_win_segs t,
       nr_held_groups = 0, nr_parked_groups = 0, nr_wce_groups = 0,
       seg_hint = array_contents (\<lambda>_. hint_cleared) (a_seg_hint al),
       grp_hint = array_contents (\<lambda>_. group_cleared 0) (a_grp_hint al),
       hold_segmap = array_contents (\<lambda>_. False) (a_hold al),
       park_segmap = array_contents (\<lambda>_. False) (a_park al),
       wce_segmap = array_contents (\<lambda>_. False) (a_wce al),
       stats = zero_stats,
       eval_batch_size = 16, eval_next_gid = 0, eval_running = 0, eval_pending = None \<rparr>"

definition f2fs_swod_init ::
    "f2fs_sb_info \<Rightarrow> swod_allocs \<Rightarrow> discard_cmd_control option \<Rightarrow>
     discard_cmd_control option \<times> errno option" where
  "f2fs_swod_init sbi al dcc =
     (case dcc of
        None \<Rightarrow> (None, Some EINVAL)
      | Some d \<Rightarrow>
          (if swod d \<noteq> None then (Some d, None)
           else if \<not> a_ctrl al then (Some d, Some ENOMEM)
           else
             (let t = swod_init_tun sbi (tun d);
                  d1 = d\<lparr>tun := t\<rparr>
              in if alloc_failed (a_seg_hint al) \<or> alloc_failed (a_grp_hint al) \<or>
                    alloc_failed (a_hold al) \<or> alloc_failed (a_park al) \<or> alloc_failed (a_wce al)
                 then (Some d1, Some ENOMEM)
                 else (Some (d1\<lparr>tun := swod_init_formation t, swod := Some (swod_new_ctrl sbi t al)\<rparr>),
                       None))))"

section \<open>Background work and teardown\<close>

definition f2fs_swod_cancel_eval :: "discard_cmd_control \<Rightarrow> discard_cmd_control" where
  "f2fs_swod_cancel_eval dcc =
     (if \<not> swod_enabled (Some dcc) then dcc
      else dcc\<lparr>swod := map_option (\<lambda>sw. sw\<lparr>eval_pending := None\<rparr>) (swod dcc)\<rparr>)"

text \<open>The second result is the delayed work still queued on the freed controller.\<close>

definition f2fs_swod_destroy :: "discard_cmd_control option \<Rightarrow> discard_cmd_control option \<times> nat option" where
  "f2fs_swod_destroy dcc =
     (case dcc of
        None \<Rightarrow> (None, None)
      | Some d \<Rightarrow>
          (if swod d = None then (Some d, None)
           else (let d1 = f2fs_swod_cancel_eval d
                 in (Some (d1\<lparr>swod := None\<rparr>), Option.bind (swod d1) eval_pending))))"

definition f2fs_swod_queue_eval :: "discard_cmd_control \<Rightarrow> discard_cmd_control" where
  "f2fs_swod_queue_eval dcc =
     (if \<not> swod_enabled (Some dcc) then dcc
      else dcc\<lparr>swod := map_option
             (\<lambda>sw. if eval_pending sw = None \<and> eval_running sw = 0
                   then sw\<lparr>eval_pending := Some 100\<rparr> else sw) (swod dcc)\<rparr>)"

section \<open>Release and sweep\<close>

definition release_all_locked :: "f2fs_sb_info \<Rightarrow> swod_ctrl \<Rightarrow> swod_release_reason \<Rightarrow> swod_ctrl" where
  \<comment> \<open>\<open>__f2fs_swod_release_all_locked\<close>\<close>
  "release_all_locked sbi sw why =
     fold (\<lambda>gid sw. if swod_group_is_active (grp_hint sw gid)
                    then swod_drop_group_locked sbi sw gid why else sw) [0..<nr_groups sw] sw"

definition f2fs_swod_release_all ::
    "f2fs_sb_info \<Rightarrow> discard_cmd_control \<Rightarrow> swod_release_reason \<Rightarrow> discard_cmd_control" where
  "f2fs_swod_release_all sbi dcc why =
     (if \<not> swod_enabled (Some dcc) then dcc
      else dcc\<lparr>swod := map_option (\<lambda>sw. release_all_locked sbi sw why) (swod dcc)\<rparr>)"

definition sweep_group ::
    "f2fs_sb_info \<Rightarrow> swod_tunables \<Rightarrow> jiffies_t \<Rightarrow> nat \<Rightarrow> swod_ctrl \<Rightarrow> swod_ctrl" where
  "sweep_group sbi t now gid sw =
     (let g = grp_hint sw gid
      in if \<not> swod_group_is_active g then sw
         else if time_after_eq now (swod_group_deadline g)
         then swod_release_group_locked sbi t sw gid SWOD_REL_TIMEOUT else sw)"

definition sweep_timeout :: "f2fs_sb_info \<Rightarrow> swod_tunables \<Rightarrow> swod_ctrl \<Rightarrow> jiffies_t \<Rightarrow> swod_ctrl" where
  "sweep_timeout sbi t sw now =
     (if nr_held_groups sw = 0 then sw
      else fold (sweep_group sbi t now) [0..<nr_groups sw] sw)"

definition f2fs_swod_sweep_timeout ::
    "f2fs_sb_info \<Rightarrow> discard_cmd_control \<Rightarrow> jiffies_t \<Rightarrow> discard_cmd_control" where
  "f2fs_swod_sweep_timeout sbi dcc now =
     (if \<not> swod_enabled (Some dcc) then dcc
      else dcc\<lparr>swod := map_option (\<lambda>sw. sweep_timeout sbi (tun dcc) sw now) (swod dcc)\<rparr>)"

section \<open>Refresh and background evaluation\<close>

definition refresh_around ::
    "f2fs_sb_info \<Rightarrow> discard_cmd_control \<Rightarrow> swod_ctrl \<Rightarrow> nat \<Rightarrow> nat \<Rightarrow> swod_ctrl" where
  "refresh_around sbi dcc sw lstart' len =
     (let seg0 = GET_SEGNO sbi lstart';
          seg1 = GET_SEGNO sbi (lstart' + len - 1);
          gid0 = swod_gid sw seg0;
          gid1 = swod_gid sw seg1;
          gid0 = (if gid0 > 0 then gid0 - 1 else gid0);
          gid1 = (if gid1 + 1 < nr_groups sw then gid1 + 1 else gid1)
      in fold (\<lambda>g sw. swod_eval_group_locked sbi dcc sw g (jiffies sbi)) [gid0..<Suc gid1]
           (swod_rebuild_groups_locked sbi dcc sw gid0 gid1))"

definition f2fs_swod_refresh_around_locked ::
    "f2fs_sb_info \<Rightarrow> discard_cmd_control \<Rightarrow> nat \<Rightarrow> nat \<Rightarrow> discard_cmd_control" where
  "f2fs_swod_refresh_around_locked sbi dcc lstart' len =
     (if \<not> swod_enabled (Some dcc) \<or> len = 0 then dcc
      else dcc\<lparr>swod := map_option (\<lambda>sw. refresh_around sbi dcc sw lstart' len) (swod dcc)\<rparr>)"

text \<open>
  The body of \<open>f2fs_swod_eval_work\<close> once the \<open>eval_running\<close> test is passed. The gid
  the loop ends with decides cursor and delay.
\<close>

definition eval_batch :: "f2fs_sb_info \<Rightarrow> discard_cmd_control \<Rightarrow> swod_ctrl \<Rightarrow> jiffies_t \<Rightarrow> swod_ctrl" where
  "eval_batch sbi dcc sw now =
     (let start_gid = eval_next_gid sw;
          gid = (if start_gid < nr_groups sw
                 then min (start_gid + eval_batch_size sw) (nr_groups sw) else start_gid);
          sw1 = fold (\<lambda>g sw. swod_eval_group_locked sbi dcc sw g now) [start_gid..<gid] sw;
          sw2 = sw1\<lparr>eval_next_gid := (if gid < nr_groups sw1 then gid else 0), eval_running := 0\<rparr>;
          held_after = nr_held_groups sw2;
          sw3 = sweep_timeout sbi (tun dcc) sw2 now
      in sw3\<lparr>eval_pending := (if gid < nr_groups sw3
              then Some (if held_after > 0 then 200 else 1000) else Some 5000)\<rparr>)"

text \<open>\<open>atomic_cmpxchg\<close> returns the old value and stores the new one if the old one is 0.\<close>

definition f2fs_swod_eval_work :: "f2fs_sb_info \<Rightarrow> discard_cmd_control \<Rightarrow> discard_cmd_control" where
  "f2fs_swod_eval_work sbi dcc =
     (if \<not> swod_enabled (Some dcc) then dcc
      else dcc\<lparr>swod := map_option
             (\<lambda>sw. let old = eval_running sw;
                       sw1 = (if old = 0 then sw\<lparr>eval_running := 1\<rparr> else sw)
                   in if \<not> (old \<noteq> 0) then sw1 else eval_batch sbi dcc sw1 (jiffies sbi)) (swod dcc)\<rparr>)"

section \<open>The skip decision of the issue loop\<close>

text \<open>The marked-command fast path: some group of the range is active and not expired.\<close>

definition skip_marked :: "swod_ctrl \<Rightarrow> jiffies_t \<Rightarrow> nat \<Rightarrow> nat \<Rightarrow> bool" where
  "skip_marked sw now gid0 gid1 =
     list_ex (\<lambda>gid. let g = grp_hint sw gid
                    in swod_group_is_active g \<and> \<not> time_after_eq now (swod_group_deadline g))
       [gid0..<Suc gid1]"

fun skip_loop ::
    "f2fs_sb_info \<Rightarrow> swod_tunables \<Rightarrow> jiffies_t \<Rightarrow> nat \<Rightarrow> nat \<Rightarrow> nat list \<Rightarrow> bool \<Rightarrow> swod_ctrl \<Rightarrow>
     bool \<times> swod_ctrl" where
  "skip_loop sbi t now seg0 seg1 [] saw_active sw =
     (False, if \<not> saw_active
             then sw\<lparr>stats := (stats sw)\<lparr>skip_miss_noheld_cnt := skip_miss_noheld_cnt (stats sw) + 1\<rparr>\<rparr>
             else sw)"
| "skip_loop sbi t now seg0 seg1 (gid # gids) saw_active sw =
     (let g = grp_hint sw gid; st = stats sw
      in if \<not> swod_group_is_active g then skip_loop sbi t now seg0 seg1 gids saw_active sw
         else if time_after_eq now (swod_group_deadline g) then
           skip_loop sbi t now seg0 seg1 gids True
             (swod_release_group_locked sbi t
                (sw\<lparr>stats := st\<lparr>skip_miss_timeout_cnt := skip_miss_timeout_cnt st + 1\<rparr>\<rparr>) gid SWOD_REL_TIMEOUT)
         else if swod_window_ready_locked sbi sw gid then
           skip_loop sbi t now seg0 seg1 gids True
             (swod_release_group_locked sbi t
                (sw\<lparr>stats := st\<lparr>skip_miss_success_cnt := skip_miss_success_cnt st + 1\<rparr>\<rparr>) gid SWOD_REL_SUCCESS)
         else
           (let held_first = swod_group_first_seg sw gid + hold_off g;
                held_last = sub32 (held_first + hold_len g) 1
            in if seg1 < held_first \<or> seg0 > held_last then
                 skip_loop sbi t now seg0 seg1 gids True
                   (sw\<lparr>stats := st\<lparr>skip_miss_overlap_cnt := skip_miss_overlap_cnt st + 1\<rparr>\<rparr>)
               else
                 (let overlap_start = max seg0 held_first;
                      overlap_end = min seg1 held_last;
                      overlap_segs = overlap_end - overlap_start + 1;
                      cmd_segs = sub32 seg1 seg0 + 1;
                      overlap_ratio_bp = u32 (overlap_segs * SWOD_BP_ONE div cmd_segs)
                  in if g_action g = SWOD_ACT_SHORT_HOLD \<and>
                        overlap_ratio_bp < swod_overlap_skip_ratio_bp t then
                       skip_loop sbi t now seg0 seg1 gids True
                         (sw\<lparr>stats := st\<lparr>overlap_bypass_cnt := overlap_bypass_cnt st + 1\<rparr>\<rparr>)
                     else if g_action g = SWOD_ACT_BYPASS then
                       skip_loop sbi t now seg0 seg1 gids True
                         (sw\<lparr>stats := st\<lparr>policy_bypass_cnt := policy_bypass_cnt st + 1\<rparr>\<rparr>)
                     else (True, sw\<lparr>stats := st\<lparr>skip_cnt := skip_cnt st + 1\<rparr>\<rparr>))))"

text \<open>Result: the decision, the new value of \<open>dc->swod_skip\<close>, the controller.\<close>

definition should_skip ::
    "f2fs_sb_info \<Rightarrow> swod_tunables \<Rightarrow> swod_ctrl \<Rightarrow> discard_cmd \<Rightarrow> jiffies_t \<Rightarrow> bool \<times> bool \<times> swod_ctrl" where
  "should_skip sbi t sw dc now =
     (if nr_held_groups sw = 0 \<and> \<not> swod_skip dc then (False, swod_skip dc, sw)
      else
        (let sw = sw\<lparr>stats := (stats sw)\<lparr>skip_check_cnt := skip_check_cnt (stats sw) + 1\<rparr>\<rparr>
         in if dc_state dc \<noteq> D_PREP then (False, swod_skip dc, sw)
            else
              (let seg0 = GET_SEGNO sbi (lstart dc);
                   seg1 = GET_SEGNO sbi (eend dc - 1);
                   gid0 = swod_gid sw seg0;
                   gid1 = swod_gid sw seg1;
                   st = stats sw
               in if swod_skip dc \<and> skip_marked sw now gid0 gid1 then
                    (True, False, sw\<lparr>stats := st\<lparr>skip_cnt := skip_cnt st + 1\<rparr>\<rparr>)
                  else
                    (let sw = (if swod_skip dc
                               then sw\<lparr>stats := st\<lparr>skip_miss_timeout_cnt := skip_miss_timeout_cnt st + 1\<rparr>\<rparr>
                               else sw);
                         res = skip_loop sbi t now seg0 seg1 [gid0..<Suc gid1] False sw
                     in (fst res, False, snd res)))))"

definition f2fs_swod_should_skip_locked ::
    "f2fs_sb_info \<Rightarrow> discard_cmd_control \<Rightarrow> discard_cmd \<Rightarrow> jiffies_t \<Rightarrow>
     bool \<times> bool \<times> discard_cmd_control" where
  "f2fs_swod_should_skip_locked sbi dcc dc now =
     (case swod dcc of
        None \<Rightarrow> (False, swod_skip dc, dcc)
      | Some sw \<Rightarrow>
          (if \<not> swod_enabled (Some dcc) then (False, swod_skip dc, dcc)
           else (let res = should_skip sbi (tun dcc) sw dc now
                 in (fst res, fst (snd res), dcc\<lparr>swod := Some (snd (snd res))\<rparr>))))"

section \<open>Advisory lookups\<close>

definition on_swod :: "discard_cmd_control \<Rightarrow> (swod_ctrl \<Rightarrow> bool) \<Rightarrow> bool" where
  "on_swod dcc f = (case swod dcc of None \<Rightarrow> False | Some sw \<Rightarrow> swod_enable (tun dcc) \<noteq> 0 \<and> f sw)"

definition f2fs_swod_has_held :: "discard_cmd_control \<Rightarrow> bool" where
  "f2fs_swod_has_held dcc = on_swod dcc (\<lambda>sw. nr_held_groups sw \<noteq> 0)"

definition range_held :: "swod_ctrl \<Rightarrow> nat \<Rightarrow> nat \<Rightarrow> bool" where
  "range_held sw segno nr_segs =
     (if nr_segs = 0 \<or> segno \<ge> nr_main_segs sw then False
      else if nr_held_groups sw = 0 then False
      else list_ex (hold_segmap sw) [segno..<min (nr_main_segs sw) (segno + nr_segs)])"

definition f2fs_swod_range_held :: "discard_cmd_control \<Rightarrow> nat \<Rightarrow> nat \<Rightarrow> bool" where
  "f2fs_swod_range_held dcc segno nr_segs = on_swod dcc (\<lambda>sw. range_held sw segno nr_segs)"

definition f2fs_swod_has_wce_target :: "discard_cmd_control \<Rightarrow> bool" where
  "f2fs_swod_has_wce_target dcc =
     on_swod dcc (\<lambda>sw. nr_held_groups sw \<noteq> 0 \<or> nr_parked_groups sw \<noteq> 0 \<or> nr_wce_groups sw \<noteq> 0)"

definition range_wce_target :: "swod_ctrl \<Rightarrow> nat \<Rightarrow> nat \<Rightarrow> bool" where
  "range_wce_target sw segno nr_segs =
     (if nr_segs = 0 \<or> segno \<ge> nr_main_segs sw then False
      else if nr_held_groups sw = 0 \<and> nr_parked_groups sw = 0 \<and> nr_wce_groups sw = 0 then False
      else list_ex (\<lambda>s. hold_segmap sw s \<or> park_segmap sw s \<or> wce_segmap sw s)
             [segno..<min (nr_main_segs sw) (segno + nr_segs)])"

definition f2fs_swod_range_wce_target :: "discard_cmd_control \<Rightarrow> nat \<Rightarrow> nat \<Rightarrow> bool" where
  "f2fs_swod_range_wce_target dcc segno nr_segs = on_swod dcc (\<lambda>sw. range_wce_target sw segno nr_segs)"

definition f2fs_swod_seg_wce_eligible :: "discard_cmd_control \<Rightarrow> nat \<Rightarrow> bool" where
  "f2fs_swod_seg_wce_eligible dcc segno =
     on_swod dcc (\<lambda>sw. if nr_wce_groups sw = 0 then False
                       else if segno \<ge> nr_main_segs sw then False
                       else wce_segmap sw segno)"

definition f2fs_swod_seg_held :: "discard_cmd_control \<Rightarrow> nat \<Rightarrow> bool" where
  "f2fs_swod_seg_held dcc segno = f2fs_swod_range_held dcc segno 1"

definition f2fs_swod_mark_held_cmd :: "f2fs_sb_info \<Rightarrow> discard_cmd_control \<Rightarrow> nat \<Rightarrow> nat \<Rightarrow> bool" where
  "f2fs_swod_mark_held_cmd sbi dcc lstart' len =
     on_swod dcc (\<lambda>sw. if nr_held_groups sw = 0 then False
       else f2fs_swod_range_held dcc (GET_SEGNO sbi lstart')
              (u32 (sub32 (GET_SEGNO sbi (lstart' + len - 1)) (GET_SEGNO sbi lstart') + 1)))"

text \<open>The inode properties the fragment-IPU selector looks at.\<close>

record frag_inode =
  file_is_hot :: bool
  fi_hot_data :: bool
  file_is_cold :: bool

definition frag_ipu_decide ::
    "f2fs_sb_info \<Rightarrow> discard_cmd_control \<Rightarrow> swod_ctrl \<Rightarrow> frag_inode \<Rightarrow> nat \<Rightarrow> bool \<times> swod_stats" where
  "frag_ipu_decide sbi dcc sw inode segno =
     (let t = tun dcc; st = stats sw; h = seg_hint sw segno
      in if f2fs_swod_seg_held dcc segno then
           (False, st\<lparr>frag_ipu_skip_target_cnt := frag_ipu_skip_target_cnt st + 1\<rparr>)
         else if swod_frag_ipu_skip_hot t \<noteq> 0 \<and> (file_is_hot inode \<or> fi_hot_data inode) then
           (False, st\<lparr>frag_ipu_skip_hot_cnt := frag_ipu_skip_hot_cnt st + 1\<rparr>)
         else if pend_blks h = 0 \<or> pend_blks h < u32 (discard_granularity dcc * 4) then
           (False, st\<lparr>frag_ipu_skip_shape_cnt := frag_ipu_skip_shape_cnt st + 1\<rparr>)
         else if nr_cmds h < swod_frag_ipu_min_cmds t then
           (False, st\<lparr>frag_ipu_skip_shape_cnt := frag_ipu_skip_shape_cnt st + 1\<rparr>)
         else if oldest_jiffies h = 0 \<or> time_after (oldest_jiffies h) (jiffies sbi) then
           (False, st\<lparr>frag_ipu_skip_age_cnt := frag_ipu_skip_age_cnt st + 1\<rparr>)
         else
           (let age_ms = jiffies_to_msecs sbi (jiffies sbi - oldest_jiffies h);
                age_thr = swod_frag_ipu_age_ms t;
                age_thr = (if \<not> file_is_cold inode then u32 (age_thr * 2) else age_thr)
            in if age_ms < age_thr then
                 (False, st\<lparr>frag_ipu_skip_age_cnt := frag_ipu_skip_age_cnt st + 1\<rparr>)
               else (True, st\<lparr>frag_ipu_pick_cnt := frag_ipu_pick_cnt st + 1\<rparr>)))"

definition f2fs_swod_should_frag_ipu ::
    "f2fs_sb_info \<Rightarrow> discard_cmd_control \<Rightarrow> frag_inode \<Rightarrow> nat \<Rightarrow> bool \<times> discard_cmd_control" where
  "f2fs_swod_should_frag_ipu sbi dcc inode old_blkaddr =
     (case swod dcc of
        None \<Rightarrow> (False, dcc)
      | Some sw \<Rightarrow>
          (if swod_enable (tun dcc) = 0 \<or> swod_frag_ipu_enable (tun dcc) = 0 then (False, dcc)
           else if \<not> lfs_mode sbi then (False, dcc)
           else if \<not> is_valid_data_blkaddr sbi old_blkaddr then (False, dcc)
           else if \<not> f2fs_swod_has_held dcc then (False, dcc)
           else
             (let segno = GET_SEGNO sbi old_blkaddr
              in if segno \<ge> nr_main_segs sw then (False, dcc)
                 else (let res = frag_ipu_decide sbi dcc sw inode segno
                       in (fst res, dcc\<lparr>swod := Some (sw\<lparr>stats := snd res\<rparr>)\<rparr>)))))"

end
