(* ===== verification/State_Machine.thy ===== *)
theory State_Machine
  imports Main
begin

text \<open>
  The contract between a component and the code that drives it: a step function on
  states, the condition under which the caller may issue an event, and an invariant.
  Components interpret the locales with their own operations; reachability and the
  lifting to runs are proved here once.
\<close>

inductive reach :: "('e \<Rightarrow> 's \<Rightarrow> 's) \<Rightarrow> ('e \<Rightarrow> 's \<Rightarrow> bool) \<Rightarrow> 's \<Rightarrow> 's \<Rightarrow> bool"
  for step enabled s0 where
  reach_start: "reach step enabled s0 s0"
| reach_step: "reach step enabled s0 s \<Longrightarrow> enabled e s \<Longrightarrow> reach step enabled s0 (step e s)"

inductive_cases reachE: "reach step enabled s0 s"

locale guarded_machine =
  fixes step :: "'e \<Rightarrow> 's \<Rightarrow> 's"
    and enabled :: "'e \<Rightarrow> 's \<Rightarrow> bool"
    and inv :: "'s \<Rightarrow> bool"
  assumes step_inv: "inv s \<Longrightarrow> enabled e s \<Longrightarrow> inv (step e s)"
begin

lemma reach_inv: "reach step enabled s0 s \<Longrightarrow> inv s0 \<Longrightarrow> inv s"
  by (induction rule: reach.induct) (auto intro: step_inv)

end

text \<open>A machine whose steps move along a preorder, such as a limit that is never exceeded.\<close>

locale bounded_machine = guarded_machine +
  fixes rel :: "'b \<Rightarrow> 'b \<Rightarrow> bool"
  assumes rel_refl: "inv s \<Longrightarrow> rel s s"
    and rel_trans: "rel s1 s2 \<Longrightarrow> rel s2 s3 \<Longrightarrow> rel s1 s3"
    and step_rel: "inv s \<Longrightarrow> enabled e s \<Longrightarrow> rel s (step e s)"
begin

lemma reach_rel: "reach step enabled s0 s \<Longrightarrow> inv s0 \<Longrightarrow> rel s0 s"
proof (induction rule: reach.induct)
  case reach_start
  then show ?case by (rule rel_refl)
next
  case (reach_step s e)
  from reach_step.hyps(1) reach_step.prems have "inv s" by (rule reach_inv)
  with reach_step show ?case using rel_trans step_rel by blast
qed

end

end
