(* ===== verification/Swod_Api_Inv.thy ===== *)
theory Swod_Api_Inv
  imports Swod_Api State_Machine
begin

text \<open>
  The invariant is kept by every entry point of SWOD, with the functional behaviour of
  releases, sweeps, skip decisions and lookups. \<open>swod_step\<close> is the state machine of
  entry points; the invariant holds along every run of it.
\<close>

section \<open>The invariant does not read hints, cursor or work state\<close>

lemma swod_inv_seg_hint [simp]: "swod_inv (sw\<lparr>seg_hint := h\<rparr>) \<longleftrightarrow> swod_inv sw"
  by (simp add: swod_inv_def swod_dims_def swod_bits_def swod_counts_def seg_grp_def seg_in_win_def swod_geo)

lemma swod_inv_work [simp]:
  "swod_inv (sw\<lparr>eval_pending := p\<rparr>) \<longleftrightarrow> swod_inv sw"
  "swod_inv (sw\<lparr>eval_running := r\<rparr>) \<longleftrightarrow> swod_inv sw"
  "swod_inv (sw\<lparr>eval_next_gid := n\<rparr>) \<longleftrightarrow> swod_inv sw"
  by (simp_all add: swod_inv_def swod_dims_def swod_bits_def swod_counts_def seg_grp_def seg_in_win_def swod_geo)

text \<open>Loops over groups whose body keeps invariant and dimensions.\<close>

definition inv_from :: "swod_ctrl \<Rightarrow> swod_ctrl \<Rightarrow> bool" where
  "inv_from sw sw' \<longleftrightarrow> swod_inv sw' \<and> nr_groups sw' = nr_groups sw \<and> nr_main_segs sw' = nr_main_segs sw"

lemma inv_from_refl: "swod_inv sw \<Longrightarrow> inv_from sw sw"
  by (simp add: inv_from_def)

lemma inv_fromI: "swod_inv sw' \<Longrightarrow> same_dims sw sw' \<Longrightarrow> inv_from sw sw'"
  by (simp add: inv_from_def same_dims_def)

lemma inv_from_trans: "inv_from a b \<Longrightarrow> inv_from b c \<Longrightarrow> inv_from a c"
  by (simp add: inv_from_def)

lemma fold_groups_inv:
  assumes "swod_inv sw" "\<And>g. g \<in> set gs \<Longrightarrow> g < nr_groups sw"
    and "\<And>g s. swod_inv s \<Longrightarrow> g < nr_groups s \<Longrightarrow> swod_inv (f g s) \<and> same_dims s (f g s)"
  shows "inv_from sw (fold f gs sw)"
proof (rule fold_upt_invariant)
  show "inv_from sw sw" using assms(1) by (rule inv_from_refl)
next
  fix g s
  assume g: "g \<in> set gs" and s: "inv_from sw s"
  then have "swod_inv s" "g < nr_groups s" using assms(2) by (simp_all add: inv_from_def)
  from assms(3)[OF this] have "inv_from s (f g s)" by (simp add: inv_fromI)
  with s show "inv_from sw (f g s)" by (rule inv_from_trans)
qed

section \<open>Release all\<close>

lemma release_all_inv:
  assumes "swod_inv sw"
  shows "inv_from sw (release_all_locked sbi sw why)"
  unfolding release_all_locked_def
  using assms by (intro fold_groups_inv) (auto simp: drop_group_inv drop_same)

lemma release_all_normal:
  assumes "swod_inv sw" "gid < nr_groups sw"
  shows "\<not> swod_group_is_active (grp_hint (release_all_locked sbi sw why) gid)"
proof -
  let ?f = "\<lambda>gid sw. if swod_group_is_active (grp_hint sw gid)
                     then swod_drop_group_locked sbi sw gid why else sw"
  have "\<forall>i < n. \<not> swod_group_is_active (grp_hint (fold ?f [0..<n] sw) i)" for n
    by (induction n) (auto simp: less_Suc_eq drop_grp_hint)
  with assms(2) show ?thesis by (simp add: release_all_locked_def)
qed

text \<open>With no active group, bitmaps and counters are zero.\<close>

lemma swod_inv_idle:
  assumes inv: "swod_inv sw" and idle: "\<forall>gid < nr_groups sw. \<not> swod_group_is_active (grp_hint sw gid)"
  shows "nr_held_groups sw = 0" "nr_parked_groups sw = 0" "nr_wce_groups sw = 0"
    and "s < nr_main_segs sw \<Longrightarrow> \<not> hold_segmap sw s \<and> \<not> park_segmap sw s \<and> \<not> wce_segmap sw s"
proof -
  have n: "\<not> is_held (grp_hint sw i) \<and> \<not> is_parked (grp_hint sw i) \<and> \<not> wce_eligible (grp_hint sw i)"
    if "i < nr_groups sw" for i
    using idle that swod_inv_grp_ok[OF inv that]
    by (auto simp: swod_group_is_active_def is_held_def is_parked_def grp_ok_def)
  show "nr_held_groups sw = 0" "nr_parked_groups sw = 0" "nr_wce_groups sw = 0"
    using inv n by (simp_all add: swod_inv_def swod_counts_def count_idx_0_iff)
  show "\<not> hold_segmap sw s \<and> \<not> park_segmap sw s \<and> \<not> wce_segmap sw s" if "s < nr_main_segs sw"
    using inv that n[OF gid_less[OF swod_inv_dims[OF inv] that]]
    by (simp add: swod_inv_def swod_bits_def seg_grp_def)
qed

section \<open>Sweep\<close>

lemma sweep_group_inv:
  "swod_inv sw \<Longrightarrow> gid < nr_groups sw \<Longrightarrow>
   swod_inv (sweep_group sbi t now gid sw) \<and> same_dims sw (sweep_group sbi t now gid sw)"
  by (simp add: sweep_group_def Let_def release_group_inv)

lemma sweep_timeout_inv: "swod_inv sw \<Longrightarrow> inv_from sw (sweep_timeout sbi t sw now)"
  unfolding sweep_timeout_def
  using fold_groups_inv[of sw "[0..<nr_groups sw]" "sweep_group sbi t now"] sweep_group_inv
  by (auto simp: inv_from_refl)

text \<open>A release never makes a group held, and it ends the hold of the released group.\<close>

lemma park_group_not_held: "\<not> is_held (grp_hint (park_group sbi t sw gid q l sc now) gid)"
  by (simp add: park_group_def Let_def is_held_def)

lemma release_not_held: "\<not> is_held (grp_hint (swod_release_group_locked sbi t sw gid why) gid)"
proof (cases "swod_try_park_group_locked sbi t sw gid why (jiffies sbi)")
  case None
  then show ?thesis by (simp add: swod_release_group_locked_def drop_grp_hint)
next
  case (Some sw')
  from Some have "\<not> is_held (grp_hint sw' gid)"
    by (cases rule: try_park_cases) (simp_all add: park_group_not_held)
  with Some show ?thesis by (simp add: swod_release_group_locked_def)
qed

lemma release_held_mono:
  assumes "is_held (grp_hint (swod_release_group_locked sbi t sw gid why) i)"
  shows "grp_hint (swod_release_group_locked sbi t sw gid why) i = grp_hint sw i"
proof -
  have ne: "i \<noteq> gid" using assms release_not_held by blast
  show ?thesis
  proof (cases "swod_try_park_group_locked sbi t sw gid why (jiffies sbi)")
    case None
    with ne show ?thesis by (simp add: swod_release_group_locked_def drop_other)
  next
    case (Some sw')
    then have eq: "swod_release_group_locked sbi t sw gid why = sw'"
      by (simp add: swod_release_group_locked_def)
    from Some show ?thesis
    proof (cases rule: try_park_cases)
      case (park qbp lbp score)
      with ne eq show ?thesis by (simp add: park_group_other)
    next
      case (evict v qbp lbp score)
      with assms eq ne have "i \<noteq> v" by (auto simp: park_group_other drop_grp_hint)
      with evict ne eq show ?thesis by (simp add: park_group_other drop_other)
    qed
  qed
qed

lemma sweep_group_cases:
  "sweep_group sbi t now gid sw =
     (if swod_group_is_active (grp_hint sw gid) \<and> time_after_eq now (swod_group_deadline (grp_hint sw gid))
      then swod_release_group_locked sbi t sw gid SWOD_REL_TIMEOUT else sw)"
  by (simp add: sweep_group_def Let_def)

lemma sweep_held_mono:
  "is_held (grp_hint (sweep_group sbi t now gid sw) i) \<Longrightarrow> grp_hint (sweep_group sbi t now gid sw) i = grp_hint sw i"
  using release_held_mono[of sbi t sw gid SWOD_REL_TIMEOUT i]
  by (cases "swod_group_is_active (grp_hint sw gid)";
      cases "time_after_eq now (swod_group_deadline (grp_hint sw gid))")
    (simp_all add: sweep_group_cases)

lemma sweep_held_alive:
  assumes "is_held (grp_hint (sweep_group sbi t now gid sw) gid)"
  shows "\<not> time_after_eq now (hold_until (grp_hint (sweep_group sbi t now gid sw) gid))"
proof (cases "swod_group_is_active (grp_hint sw gid) \<and> time_after_eq now (swod_group_deadline (grp_hint sw gid))")
  case True
  then have "sweep_group sbi t now gid sw = swod_release_group_locked sbi t sw gid SWOD_REL_TIMEOUT"
    by (simp add: sweep_group_cases)
  with assms release_not_held show ?thesis by simp
next
  case False
  then have "sweep_group sbi t now gid sw = sw" by (auto simp: sweep_group_cases)
  with assms False show ?thesis
    by (simp add: is_held_def swod_group_is_active_def swod_group_deadline_def)
qed

lemma sweep_all_alive:
  assumes "is_held (grp_hint (fold (sweep_group sbi t now) [0..<n] sw) gid)" "gid < n"
  shows "\<not> time_after_eq now (hold_until (grp_hint (fold (sweep_group sbi t now) [0..<n] sw) gid))"
  using assms
proof (induction n)
  case (Suc n)
  let ?s = "fold (sweep_group sbi t now) [0..<n] sw"
  show ?case
  proof (cases "gid = n")
    case True
    with Suc.prems sweep_held_alive[of sbi t now n ?s] show ?thesis by simp
  next
    case False
    with Suc.prems sweep_held_mono[of sbi t now n ?s gid]
    have "grp_hint (sweep_group sbi t now n ?s) gid = grp_hint ?s gid" by simp
    with False Suc show ?thesis by simp
  qed
qed simp

section \<open>Rebuild, refresh, background work\<close>

lemma add_piece_frame: "\<exists>h. add_piece enq p sw = sw\<lparr>seg_hint := h\<rparr>"
  by (auto simp: add_piece_def Let_def)

lemma fold_seg_hint_frame:
  assumes "\<And>x s. \<exists>h. f x s = s\<lparr>seg_hint := h\<rparr>"
  shows "\<exists>h. fold f xs sw = sw\<lparr>seg_hint := h\<rparr>"
proof (induction xs arbitrary: sw)
  case Nil
  show ?case by (rule exI[of _ "seg_hint sw"]) simp
next
  case (Cons x xs)
  obtain h where "f x sw = sw\<lparr>seg_hint := h\<rparr>" using assms by blast
  with Cons[of "sw\<lparr>seg_hint := h\<rparr>"] show ?case by auto
qed

lemma rebuild_cmd_frame: "\<exists>h. rebuild_cmd sbi a b dc sw = sw\<lparr>seg_hint := h\<rparr>"
proof (cases "dc_state dc = D_PREP")
  case True
  then show ?thesis
    using fold_seg_hint_frame[of "add_piece (enq_jiffies dc)"] add_piece_frame
    by (simp add: rebuild_cmd_def)
next
  case False
  then show ?thesis by (auto simp: rebuild_cmd_def intro: exI[of _ "seg_hint sw"])
qed

lemma rebuild_frame: "\<exists>h. swod_rebuild_groups_locked sbi dcc sw gid0 gid1 = sw\<lparr>seg_hint := h\<rparr>"
proof -
  have "\<exists>h. fold (rebuild_cmd sbi a b) xs (sw\<lparr>seg_hint := h0\<rparr>) = sw\<lparr>seg_hint := h\<rparr>" for a b xs h0
    using fold_seg_hint_frame[of "rebuild_cmd sbi a b" xs "sw\<lparr>seg_hint := h0\<rparr>"] rebuild_cmd_frame by auto
  moreover have "\<exists>h. sw = sw\<lparr>seg_hint := h\<rparr>" by (rule exI[of _ "seg_hint sw"]) simp
  ultimately show ?thesis
    unfolding swod_rebuild_groups_locked_def Let_def by auto
qed

lemma eval_fold_inv:
  assumes "swod_inv sw" "\<And>g. g \<in> set gs \<Longrightarrow> g < nr_groups sw"
  shows "inv_from sw (fold (\<lambda>g sw. swod_eval_group_locked sbi dcc sw g now) gs sw)"
  using assms by (intro fold_groups_inv) (auto simp: eval_group_inv)

lemma refresh_around_inv:
  assumes inv: "swod_inv sw"
    and "GET_SEGNO sbi (lo + len - 1) < nr_main_segs sw"
  shows "inv_from sw (refresh_around sbi dcc sw lo len)"
proof -
  define g0 where "g0 = (let g = swod_gid sw (GET_SEGNO sbi lo) in if g > 0 then g - 1 else g)"
  define g1 where "g1 = (let g = swod_gid sw (GET_SEGNO sbi (lo + len - 1))
    in if g + 1 < nr_groups sw then g + 1 else g)"
  have g1: "g1 < nr_groups sw"
    using gid_less[OF swod_inv_dims[OF inv] assms(2)] by (simp add: g1_def Let_def)
  obtain h where h: "swod_rebuild_groups_locked sbi dcc sw g0 g1 = sw\<lparr>seg_hint := h\<rparr>"
    using rebuild_frame by blast
  have "inv_from (sw\<lparr>seg_hint := h\<rparr>)
      (fold (\<lambda>g sw. swod_eval_group_locked sbi dcc sw g (jiffies sbi)) [g0..<Suc g1] (sw\<lparr>seg_hint := h\<rparr>))"
    using inv g1 by (intro eval_fold_inv) auto
  moreover have "refresh_around sbi dcc sw lo len =
      fold (\<lambda>g sw. swod_eval_group_locked sbi dcc sw g (jiffies sbi)) [g0..<Suc g1] (sw\<lparr>seg_hint := h\<rparr>)"
    unfolding refresh_around_def Let_def g0_def[unfolded Let_def, symmetric] g1_def[unfolded Let_def, symmetric] h ..
  ultimately show ?thesis by (simp add: inv_from_def)
qed

lemma eval_batch_inv:
  assumes inv: "swod_inv sw"
  shows "inv_from sw (eval_batch sbi dcc sw now)"
proof -
  define gid where "gid = (if eval_next_gid sw < nr_groups sw
    then min (eval_next_gid sw + eval_batch_size sw) (nr_groups sw) else eval_next_gid sw)"
  define sw1 where "sw1 = fold (\<lambda>g sw. swod_eval_group_locked sbi dcc sw g now) [eval_next_gid sw..<gid] sw"
  define sw2 where "sw2 = sw1\<lparr>eval_next_gid := (if gid < nr_groups sw1 then gid else 0), eval_running := 0\<rparr>"
  have "inv_from sw sw1"
    unfolding sw1_def using inv by (intro eval_fold_inv) (auto simp: gid_def split: if_splits)
  then have "inv_from sw sw2" by (simp add: sw2_def inv_from_def)
  moreover from this have "inv_from sw2 (sweep_timeout sbi (tun dcc) sw2 now)"
    by (intro sweep_timeout_inv) (simp add: inv_from_def)
  ultimately have "inv_from sw (sweep_timeout sbi (tun dcc) sw2 now)" by (rule inv_from_trans)
  then show ?thesis
    unfolding eval_batch_def Let_def gid_def[symmetric] sw1_def[symmetric] sw2_def[symmetric]
    by (simp add: inv_from_def)
qed

section \<open>Skip decision\<close>

lemma skip_loop_inv:
  assumes "swod_inv sw" "\<And>g. g \<in> set gids \<Longrightarrow> g < nr_groups sw"
  shows "inv_from sw (snd (skip_loop sbi t now seg0 seg1 gids saw sw))"
  using assms
proof (induction gids arbitrary: saw sw)
  case Nil
  then show ?case by (simp add: inv_from_def)
next
  case (Cons gid gids)
  have gid: "gid < nr_groups sw" and rest: "\<And>g. g \<in> set gids \<Longrightarrow> g < nr_groups sw"
    using Cons.prems(2) by auto
  have stats: "inv_from sw (snd (skip_loop sbi t now seg0 seg1 gids s (sw\<lparr>stats := st\<rparr>)))" for s st
    using Cons.IH[of "sw\<lparr>stats := st\<rparr>" s] Cons.prems(1) rest by (simp add: inv_from_def)
  have rel: "inv_from sw (snd (skip_loop sbi t now seg0 seg1 gids s
      (swod_release_group_locked sbi t (sw\<lparr>stats := st\<rparr>) gid why)))" for s st why
  proof -
    have r: "inv_from sw (swod_release_group_locked sbi t (sw\<lparr>stats := st\<rparr>) gid why)"
      using release_group_inv[of "sw\<lparr>stats := st\<rparr>" gid] Cons.prems(1) gid
      by (simp add: inv_from_def same_dims_def)
    then show ?thesis
      using Cons.IH[of "swod_release_group_locked sbi t (sw\<lparr>stats := st\<rparr>) gid why" s] rest
      by (simp add: inv_from_def)
  qed
  show ?case
    using Cons.IH[OF Cons.prems(1) rest] Cons.prems(1) stats rel
    by (simp add: Let_def inv_from_def)
qed

lemma should_skip_inv:
  assumes inv: "swod_inv sw" and "GET_SEGNO sbi (eend dc - 1) < nr_main_segs sw"
  shows "inv_from sw (snd (snd (should_skip sbi t sw dc now)))"
proof -
  have g1: "swod_gid sw (GET_SEGNO sbi (eend dc - 1)) < nr_groups sw"
    using gid_less[OF swod_inv_dims[OF inv] assms(2)] .
  have gid: "swod_gid (sw\<lparr>stats := st\<rparr>) s = swod_gid sw s" for st s by (simp add: swod_gid_def)
  have loop: "inv_from sw (snd (skip_loop sbi t now s0 s1 [g0..<Suc (swod_gid sw (GET_SEGNO sbi (eend dc - 1)))]
      False (sw\<lparr>stats := st\<rparr>)))" for s0 s1 g0 st
  proof -
    have "inv_from (sw\<lparr>stats := st\<rparr>) (snd (skip_loop sbi t now s0 s1
        [g0..<Suc (swod_gid sw (GET_SEGNO sbi (eend dc - 1)))] False (sw\<lparr>stats := st\<rparr>)))"
      using inv g1 by (intro skip_loop_inv) auto
    then show ?thesis unfolding inv_from_def by simp
  qed
  show ?thesis
    using inv loop unfolding should_skip_def Let_def gid
    by (simp add: inv_from_refl inv_from_def)
qed

text \<open>
  Soundness of a skip by the loop: some group of the command's range is active and
  unexpired, not ready, and its window meets the command's segments.
\<close>

definition skip_reason :: "f2fs_sb_info \<Rightarrow> swod_ctrl \<Rightarrow> jiffies_t \<Rightarrow> nat \<Rightarrow> nat \<Rightarrow> nat \<Rightarrow> bool" where
  "skip_reason sbi sw now seg0 seg1 gid \<longleftrightarrow>
     (let g = grp_hint sw gid; lo = swod_group_first_seg sw gid + hold_off g
      in swod_group_is_active g \<and> \<not> time_after_eq now (swod_group_deadline g) \<and>
         \<not> swod_window_ready_locked sbi sw gid \<and> g_action g \<noteq> SWOD_ACT_BYPASS \<and>
         lo \<le> seg1 \<and> seg0 < lo + hold_len g)"

lemma skip_reason_cong:
  assumes "same_dims sw sw'" "grp_hint sw' gid = grp_hint sw gid"
  shows "skip_reason sbi sw' now seg0 seg1 gid = skip_reason sbi sw now seg0 seg1 gid"
  using assms same_dims_geo[OF assms(1)]
  by (simp add: skip_reason_def swod_window_ready_locked_def win_first_def Let_def)

text \<open>A release leaves no other group active that was not the same before.\<close>

lemma release_active_mono:
  assumes "i \<noteq> gid" "swod_group_is_active (grp_hint (swod_release_group_locked sbi t sw gid why) i)"
  shows "grp_hint (swod_release_group_locked sbi t sw gid why) i = grp_hint sw i"
proof (cases "swod_try_park_group_locked sbi t sw gid why (jiffies sbi)")
  case None
  with assms show ?thesis by (simp add: swod_release_group_locked_def drop_other)
next
  case (Some sw')
  then have eq: "swod_release_group_locked sbi t sw gid why = sw'"
    by (simp add: swod_release_group_locked_def)
  from Some show ?thesis
  proof (cases rule: try_park_cases)
    case (park qbp lbp score)
    with assms eq show ?thesis by (simp add: park_group_other)
  next
    case (evict v qbp lbp score)
    with assms eq have "i \<noteq> v" by (auto simp: park_group_other drop_grp_hint)
    with evict assms(1) eq show ?thesis by (simp add: park_group_other drop_other)
  qed
qed

lemma skip_loop_sound:
  assumes "swod_inv sw" "\<And>g. g \<in> set gids \<Longrightarrow> g < nr_groups sw" "distinct gids"
    and "fst (skip_loop sbi t now seg0 seg1 gids saw sw)"
  shows "\<exists>gid \<in> set gids. skip_reason sbi sw now seg0 seg1 gid"
  using assms
proof (induction gids arbitrary: saw sw)
  case (Cons gid gids)
  let ?g = "grp_hint sw gid"
  have gid: "gid < nr_groups sw" and rest: "\<And>g. g \<in> set gids \<Longrightarrow> g < nr_groups sw" and "distinct gids"
    using Cons.prems(2,3) by auto
  have via: ?case
    if skip: "fst (skip_loop sbi t now seg0 seg1 gids s sw')" and inv: "swod_inv sw'" and dims: "same_dims sw sw'"
      and same: "\<And>i. i \<noteq> gid \<Longrightarrow> swod_group_is_active (grp_hint sw' i) \<Longrightarrow> grp_hint sw' i = grp_hint sw i" for s sw'
  proof -
    obtain g where g: "g \<in> set gids" "skip_reason sbi sw' now seg0 seg1 g"
      using Cons.IH[of sw' s] skip inv rest \<open>distinct gids\<close> same_dims_geo(4)[OF dims] by auto
    then have "grp_hint sw' g = grp_hint sw g"
      using same[of g] Cons.prems(3) by (auto simp: skip_reason_def Let_def)
    with g skip_reason_cong[OF dims] show ?thesis by auto
  qed
  have st: ?case if "fst (skip_loop sbi t now seg0 seg1 gids s (sw\<lparr>stats := st\<rparr>))" for s st
    using via[OF that] Cons.prems(1) by simp
  have rel: ?case if "fst (skip_loop sbi t now seg0 seg1 gids s
      (swod_release_group_locked sbi t (sw\<lparr>stats := st\<rparr>) gid why))" for s st why
  proof (rule via[OF that])
    show "swod_inv (swod_release_group_locked sbi t (sw\<lparr>stats := st\<rparr>) gid why)"
      and "same_dims sw (swod_release_group_locked sbi t (sw\<lparr>stats := st\<rparr>) gid why)"
      using release_group_inv[of "sw\<lparr>stats := st\<rparr>" gid] Cons.prems(1) gid by (simp_all add: same_dims_def)
    show "grp_hint (swod_release_group_locked sbi t (sw\<lparr>stats := st\<rparr>) gid why) i = grp_hint sw i"
      if "i \<noteq> gid" "swod_group_is_active (grp_hint (swod_release_group_locked sbi t (sw\<lparr>stats := st\<rparr>) gid why) i)"
      for i using release_active_mono[OF that] by simp
  qed
  show ?case
  proof (cases "swod_group_is_active ?g \<and> \<not> time_after_eq now (swod_group_deadline ?g) \<and>
      \<not> swod_window_ready_locked sbi sw gid")
    case False
    then consider "\<not> swod_group_is_active ?g"
      | "swod_group_is_active ?g" "time_after_eq now (swod_group_deadline ?g)"
      | "swod_group_is_active ?g" "\<not> time_after_eq now (swod_group_deadline ?g)" "swod_window_ready_locked sbi sw gid"
      by blast
    then show ?thesis
      by cases (use Cons.prems(4) via[OF _ Cons.prems(1)] rel in \<open>simp_all add: Let_def\<close>)
  next
    case True
    let ?lo = "swod_group_first_seg sw gid + hold_off ?g"
    have len: "0 < hold_len ?g"
      using swod_inv_grp_ok[OF Cons.prems(1) gid] True by (simp add: grp_ok_def)
    then have last: "sub32 (?lo + hold_len ?g) 1 = ?lo + hold_len ?g - 1" by (simp add: sub32_le)
    show ?thesis
    proof (cases "?lo \<le> seg1 \<and> seg0 < ?lo + hold_len ?g \<and> g_action ?g \<noteq> SWOD_ACT_BYPASS")
      case overlap: True
      then have "skip_reason sbi sw now seg0 seg1 gid"
        using True by (simp add: skip_reason_def Let_def)
      then show ?thesis by auto
    next
      case no: False
      with Cons.prems(4) True last len have "\<exists>st. fst (skip_loop sbi t now seg0 seg1 gids True (sw\<lparr>stats := st\<rparr>))"
        by (auto simp: Let_def split: if_splits)
      then show ?thesis using st by blast
    qed
  qed
qed simp

section \<open>Lookups answer from the windows\<close>

text \<open>Whether a main-area segment lies in the window of a held group (or parked, or eligible).\<close>

definition seg_held :: "swod_ctrl \<Rightarrow> nat \<Rightarrow> bool" where
  "seg_held sw s \<longleftrightarrow> is_held (seg_grp sw s) \<and> seg_in_win sw s"

definition seg_targeted :: "swod_ctrl \<Rightarrow> nat \<Rightarrow> bool" where
  "seg_targeted sw s \<longleftrightarrow> swod_group_is_active (seg_grp sw s) \<and> seg_in_win sw s"

lemma held_bit: "swod_inv sw \<Longrightarrow> s < nr_main_segs sw \<Longrightarrow> hold_segmap sw s \<longleftrightarrow> seg_held sw s"
  by (simp add: swod_inv_def swod_bits_def seg_held_def)

lemma target_bits:
  assumes "swod_inv sw" "s < nr_main_segs sw"
  shows "hold_segmap sw s \<or> park_segmap sw s \<or> wce_segmap sw s \<longleftrightarrow> seg_targeted sw s"
proof -
  have "grp_ok (swod_group_nsegs sw (swod_gid sw s)) (seg_grp sw s)"
    using swod_inv_grp_ok[OF assms(1) gid_less[OF swod_inv_dims[OF assms(1)] assms(2)]]
    by (simp add: seg_grp_def)
  then show ?thesis
    using assms
    by (auto simp: swod_inv_def swod_bits_def seg_targeted_def is_held_parked(1) grp_ok_def is_held_def)
qed

text \<open>The counter shortcuts never hide a window.\<close>

lemma seg_held_count: "swod_inv sw \<Longrightarrow> s < nr_main_segs sw \<Longrightarrow> seg_held sw s \<Longrightarrow> nr_held_groups sw \<noteq> 0"
  using swod_inv_countsD(1)[OF _ gid_less[OF swod_inv_dims]] by (fastforce simp: seg_held_def seg_grp_def)

lemma seg_targeted_count:
  assumes "swod_inv sw" "s < nr_main_segs sw" "seg_targeted sw s"
  shows "nr_held_groups sw \<noteq> 0 \<or> nr_parked_groups sw \<noteq> 0"
proof -
  have g: "swod_gid sw s < nr_groups sw" using assms gid_less swod_inv_dims by blast
  from assms(3) have "is_held (grp_hint sw (swod_gid sw s)) \<or> is_parked (grp_hint sw (swod_gid sw s))"
    by (simp add: seg_targeted_def is_held_parked(1) seg_grp_def)
  then show ?thesis using swod_inv_countsD(1,2)[OF assms(1) g] by fastforce
qed

lemma range_held_spec:
  assumes "swod_inv sw"
  shows "range_held sw segno n \<longleftrightarrow> (\<exists>s. segno \<le> s \<and> s < segno + n \<and> s < nr_main_segs sw \<and> seg_held sw s)"
  using assms seg_held_count[OF assms] held_bit[OF assms]
  by (auto simp: range_held_def list_ex_iff)

lemma range_wce_target_spec:
  assumes "swod_inv sw"
  shows "range_wce_target sw segno n \<longleftrightarrow>
    (\<exists>s. segno \<le> s \<and> s < segno + n \<and> s < nr_main_segs sw \<and> seg_targeted sw s)"
proof -
  have "range_wce_target sw segno n \<longleftrightarrow>
      (nr_held_groups sw \<noteq> 0 \<or> nr_parked_groups sw \<noteq> 0 \<or> nr_wce_groups sw \<noteq> 0) \<and>
      (\<exists>s. segno \<le> s \<and> s < segno + n \<and> s < nr_main_segs sw \<and>
        (hold_segmap sw s \<or> park_segmap sw s \<or> wce_segmap sw s))"
    by (auto simp: range_wce_target_def list_ex_iff)
  then show ?thesis using target_bits[OF assms] seg_targeted_count[OF assms] by blast
qed

section \<open>The state machine of entry points\<close>

text \<open>
  Events of the callers: the discard code refreshes, asks for a skip, releases and
  sweeps, the work queue fires, the write path asks for fragment IPU, an administrator
  changes the tunables, the discard code changes its commands and the segment hints in
  whatever way. Time and segment entries are those of the event's \<open>sbi\<close>.
\<close>

datatype swod_event =
    Ev_refresh nat nat
  | Ev_skip discard_cmd jiffies_t
  | Ev_release_all swod_release_reason
  | Ev_sweep jiffies_t
  | Ev_queue
  | Ev_work
  | Ev_frag_ipu frag_inode nat
  | Ev_tune swod_tunables
  | Ev_discard "discard_cmd list" "nat \<Rightarrow> swod_seg_hint"

fun swod_step :: "f2fs_sb_info \<times> swod_event \<Rightarrow> discard_cmd_control \<Rightarrow> discard_cmd_control" where
  "swod_step (sbi, Ev_refresh lo len) dcc = f2fs_swod_refresh_around_locked sbi dcc lo len"
| "swod_step (sbi, Ev_skip dc now) dcc = snd (snd (f2fs_swod_should_skip_locked sbi dcc dc now))"
| "swod_step (sbi, Ev_release_all why) dcc = f2fs_swod_release_all sbi dcc why"
| "swod_step (sbi, Ev_sweep now) dcc = f2fs_swod_sweep_timeout sbi dcc now"
| "swod_step (sbi, Ev_queue) dcc = f2fs_swod_queue_eval dcc"
| "swod_step (sbi, Ev_work) dcc = f2fs_swod_eval_work sbi dcc"
| "swod_step (sbi, Ev_frag_ipu inode blk) dcc = snd (f2fs_swod_should_frag_ipu sbi dcc inode blk)"
| "swod_step (sbi, Ev_tune t) dcc = dcc\<lparr>tun := t\<rparr>"
| "swod_step (sbi, Ev_discard cmds h) dcc =
     dcc\<lparr>root := cmds, swod := map_option (\<lambda>sw. sw\<lparr>seg_hint := h\<rparr>) (swod dcc)\<rparr>"

text \<open>
  What the callers owe: ranges lie in the main area of the volume the controller was
  made for.
\<close>

fun swod_enabled_ev :: "f2fs_sb_info \<times> swod_event \<Rightarrow> discard_cmd_control \<Rightarrow> bool" where
  "swod_enabled_ev (sbi, Ev_refresh lo len) dcc =
     (\<forall>sw. swod dcc = Some sw \<longrightarrow> GET_SEGNO sbi (lo + len - 1) < nr_main_segs sw)"
| "swod_enabled_ev (sbi, Ev_skip dc now) dcc =
     (\<forall>sw. swod dcc = Some sw \<longrightarrow> GET_SEGNO sbi (eend dc - 1) < nr_main_segs sw)"
| "swod_enabled_ev _ dcc = True"

definition dcc_swod_inv :: "discard_cmd_control \<Rightarrow> bool" where
  "dcc_swod_inv dcc \<longleftrightarrow> (\<forall>sw. swod dcc = Some sw \<longrightarrow> swod_inv sw)"

lemma swod_step_inv:
  assumes "dcc_swod_inv dcc" "swod_enabled_ev ev dcc"
  shows "dcc_swod_inv (swod_step ev dcc)"
proof (cases "swod dcc")
  case None
  with assms show ?thesis
    by (cases ev; cases "snd ev")
      (auto simp: dcc_swod_inv_def f2fs_swod_refresh_around_locked_def f2fs_swod_should_skip_locked_def
        f2fs_swod_release_all_def f2fs_swod_sweep_timeout_def f2fs_swod_queue_eval_def
        f2fs_swod_eval_work_def f2fs_swod_should_frag_ipu_def)
next
  case (Some sw)
  with assms have inv: "swod_inv sw" by (simp add: dcc_swod_inv_def)
  obtain sbi e where ev: "ev = (sbi, e)" by (cases ev)
  show ?thesis
  proof (cases e)
    case (Ev_refresh lo len)
    with refresh_around_inv[OF inv, of sbi lo len dcc] assms ev Some show ?thesis
      by (auto simp: dcc_swod_inv_def f2fs_swod_refresh_around_locked_def inv_from_def)
  next
    case (Ev_skip dc now)
    with should_skip_inv[OF inv, of sbi dc "tun dcc" now] assms ev Some show ?thesis
      by (simp add: dcc_swod_inv_def f2fs_swod_should_skip_locked_def inv_from_def Let_def)
  next
    case (Ev_release_all why)
    with release_all_inv[OF inv] ev Some show ?thesis
      by (auto simp: dcc_swod_inv_def f2fs_swod_release_all_def inv_from_def inv)
  next
    case (Ev_sweep now)
    with sweep_timeout_inv[OF inv] ev Some show ?thesis
      by (auto simp: dcc_swod_inv_def f2fs_swod_sweep_timeout_def inv_from_def inv)
  next
    case Ev_queue
    with ev Some inv show ?thesis
      by (auto simp: dcc_swod_inv_def f2fs_swod_queue_eval_def)
  next
    case Ev_work
    with eval_batch_inv[OF inv] ev Some inv show ?thesis
      by (auto simp: dcc_swod_inv_def f2fs_swod_eval_work_def inv_from_def Let_def)
  next
    case (Ev_frag_ipu inode blk)
    with ev Some inv show ?thesis
      by (auto simp: dcc_swod_inv_def f2fs_swod_should_frag_ipu_def Let_def)
  next
    case (Ev_tune t)
    with assms ev show ?thesis by (simp add: dcc_swod_inv_def)
  next
    case (Ev_discard cmds h)
    with ev Some inv show ?thesis by (auto simp: dcc_swod_inv_def)
  qed
qed

interpretation swodm: guarded_machine swod_step swod_enabled_ev dcc_swod_inv
  by unfold_locales (rule swod_step_inv)

section \<open>Initialisation establishes the invariant on zeroed memory\<close>

definition zeroed :: "swod_allocs \<Rightarrow> bool" where
  "zeroed al \<longleftrightarrow>
     array_contents (\<lambda>_. group_cleared 0) (a_grp_hint al) = (\<lambda>_. group_cleared 0) \<and>
     array_contents (\<lambda>_. False) (a_hold al) = (\<lambda>_. False) \<and>
     array_contents (\<lambda>_. False) (a_park al) = (\<lambda>_. False) \<and>
     array_contents (\<lambda>_. False) (a_wce al) = (\<lambda>_. False)"

lemma default_win_segs_bounds: "0 < swod_default_win_segs sbi \<and> swod_default_win_segs sbi \<le> 4"
  by (auto simp: swod_default_win_segs_def Let_def swod_consts split: option.split)

lemma init_win_segs: "0 < swod_win_segs (swod_init_tun sbi t) \<and> swod_win_segs (swod_init_tun sbi t) \<le> 16"
  using default_win_segs_bounds[of sbi] by (auto simp: swod_init_tun_def dflt_def swod_consts)

lemma new_ctrl_dims: "swod_dims (swod_new_ctrl sbi (swod_init_tun sbi t) al)"
  using init_win_segs[of sbi t] by (simp add: swod_dims_def swod_new_ctrl_def swod_consts)

lemma new_ctrl_inv: "zeroed al \<Longrightarrow> swod_inv (swod_new_ctrl sbi (swod_init_tun sbi t) al)"
  using new_ctrl_dims[of sbi t al]
  unfolding swod_inv_def
  by (auto simp: swod_bits_def swod_counts_def zeroed_def swod_new_ctrl_def group_cleared_ok seg_grp_def
      count_idx_0_iff)

lemma init_cases:
  assumes "f2fs_swod_init sbi al (Some d) = (r, None)" "swod d = None"
  shows "\<exists>d'. r = Some d' \<and> tun d' = swod_init_formation (swod_init_tun sbi (tun d)) \<and>
    swod d' = Some (swod_new_ctrl sbi (swod_init_tun sbi (tun d)) al)"
  using assms by (auto simp: f2fs_swod_init_def Let_def split: if_splits)

end
