(* ===== verification/Swod_Limits.thy ===== *)
theory Swod_Limits
  imports Swod_Api_Inv
begin

text \<open>
  Along every run of the SWOD entry points with fixed tunables: no more groups are held
  than \<open>swod_max_held_groups\<close>, no more are parked than \<open>swod_park_budget\<close>, and nothing
  is written outside the group array and the bitmaps.
\<close>

definition moves :: "swod_tunables \<Rightarrow> swod_ctrl \<Rightarrow> swod_ctrl \<Rightarrow> bool" where
  "moves t sw sw' \<longleftrightarrow> inv_from sw sw' \<and> within_limits t sw sw' \<and> same_outside sw sw'"

lemma moves_refl: "swod_inv sw \<Longrightarrow> moves t sw sw"
  by (simp add: moves_def inv_from_def)

lemma moves_trans: "moves t a b \<Longrightarrow> moves t b c \<Longrightarrow> moves t a c"
  using inv_from_trans[of a b c] within_limits_trans[of t a b c]
  by (auto simp: moves_def same_outside_def inv_from_def)

lemma moves_simps [simp]:
  "moves t (sw\<lparr>stats := st\<rparr>) sw' \<longleftrightarrow> moves t sw sw'"
  "moves t sw (sw'\<lparr>stats := st\<rparr>) \<longleftrightarrow> moves t sw sw'"
  "moves t (sw\<lparr>seg_hint := h\<rparr>) sw' \<longleftrightarrow> moves t sw sw'"
  "moves t sw (sw'\<lparr>seg_hint := h\<rparr>) \<longleftrightarrow> moves t sw sw'"
  "moves t sw (sw'\<lparr>eval_pending := p\<rparr>) \<longleftrightarrow> moves t sw sw'"
  "moves t sw (sw'\<lparr>eval_running := r\<rparr>) \<longleftrightarrow> moves t sw sw'"
  "moves t (sw\<lparr>eval_running := r\<rparr>) sw' \<longleftrightarrow> moves t sw sw'"
  "moves t sw (sw'\<lparr>eval_next_gid := n\<rparr>) \<longleftrightarrow> moves t sw sw'"
  by (simp_all add: moves_def inv_from_def within_limits_def same_outside_def)

lemma moves_inv: "moves t sw sw' \<Longrightarrow> swod_inv sw' \<and> nr_groups sw' = nr_groups sw \<and> nr_main_segs sw' = nr_main_segs sw"
  by (simp add: moves_def inv_from_def)

lemma fold_moves:
  assumes "swod_inv sw" "\<And>g. g \<in> set gs \<Longrightarrow> g < nr_groups sw"
    and "\<And>g s. swod_inv s \<Longrightarrow> g < nr_groups s \<Longrightarrow> moves t s (f g s)"
  shows "moves t sw (fold f gs sw)"
proof (rule fold_upt_invariant)
  show "moves t sw sw" using assms(1) by (rule moves_refl)
next
  fix g s
  assume g: "g \<in> set gs" and s: "moves t sw s"
  then have "moves t s (f g s)" using assms(2,3) moves_inv[OF s] by simp
  with s show "moves t sw (f g s)" by (rule moves_trans)
qed

lemma drop_moves: "swod_inv sw \<Longrightarrow> gid < nr_groups sw \<Longrightarrow> moves t sw (swod_drop_group_locked sbi sw gid why)"
  by (simp add: moves_def inv_fromI drop_group_inv drop_same drop_limits drop_outside swod_inv_dims)

lemma release_moves:
  "swod_inv sw \<Longrightarrow> gid < nr_groups sw \<Longrightarrow> moves t sw (swod_release_group_locked sbi t sw gid why)"
  by (simp add: moves_def inv_fromI release_group_inv release_limits(1) release_outside)

lemma eval_moves:
  "swod_inv sw \<Longrightarrow> gid < nr_groups sw \<Longrightarrow> moves (tun dcc) sw (swod_eval_group_locked sbi dcc sw gid now)"
  by (simp add: moves_def inv_fromI eval_group_inv eval_group_limits eval_group_outside)

lemma release_all_moves: "swod_inv sw \<Longrightarrow> moves t sw (release_all_locked sbi sw why)"
  unfolding release_all_locked_def by (rule fold_moves) (auto simp: drop_moves moves_refl)

lemma sweep_moves: "swod_inv sw \<Longrightarrow> moves t sw (sweep_timeout sbi t sw now)"
  unfolding sweep_timeout_def
  using fold_moves[of sw "[0..<nr_groups sw]" t "sweep_group sbi t now"]
  by (auto simp: sweep_group_cases release_moves moves_refl)

lemma refresh_moves:
  assumes inv: "swod_inv sw" and "GET_SEGNO sbi (lo + len - 1) < nr_main_segs sw"
  shows "moves (tun dcc) sw (refresh_around sbi dcc sw lo len)"
proof -
  define g0 where "g0 = (let g = swod_gid sw (GET_SEGNO sbi lo) in if g > 0 then g - 1 else g)"
  define g1 where "g1 = (let g = swod_gid sw (GET_SEGNO sbi (lo + len - 1))
    in if g + 1 < nr_groups sw then g + 1 else g)"
  have g1: "g1 < nr_groups sw"
    using gid_less[OF swod_inv_dims[OF inv] assms(2)] by (simp add: g1_def Let_def)
  obtain h where h: "swod_rebuild_groups_locked sbi dcc sw g0 g1 = sw\<lparr>seg_hint := h\<rparr>"
    using rebuild_frame by blast
  have "moves (tun dcc) (sw\<lparr>seg_hint := h\<rparr>)
      (fold (\<lambda>g sw. swod_eval_group_locked sbi dcc sw g (jiffies sbi)) [g0..<Suc g1] (sw\<lparr>seg_hint := h\<rparr>))"
    using inv g1 by (intro fold_moves) (auto simp: eval_moves)
  then show ?thesis
    unfolding refresh_around_def Let_def g0_def[unfolded Let_def, symmetric] g1_def[unfolded Let_def, symmetric] h
    by simp
qed

lemma eval_batch_moves:
  assumes inv: "swod_inv sw"
  shows "moves (tun dcc) sw (eval_batch sbi dcc sw now)"
proof -
  define gid where "gid = (if eval_next_gid sw < nr_groups sw
    then min (eval_next_gid sw + eval_batch_size sw) (nr_groups sw) else eval_next_gid sw)"
  define sw1 where "sw1 = fold (\<lambda>g sw. swod_eval_group_locked sbi dcc sw g now) [eval_next_gid sw..<gid] sw"
  define sw2 where "sw2 = sw1\<lparr>eval_next_gid := (if gid < nr_groups sw1 then gid else 0), eval_running := 0\<rparr>"
  have "moves (tun dcc) sw sw1"
    unfolding sw1_def using inv by (intro fold_moves) (auto simp: gid_def eval_moves split: if_splits)
  then have m2: "moves (tun dcc) sw sw2" by (simp add: sw2_def)
  from moves_trans[OF m2 sweep_moves] moves_inv[OF m2]
  show ?thesis
    unfolding eval_batch_def Let_def gid_def[symmetric] sw1_def[symmetric] sw2_def[symmetric] by simp
qed

lemma skip_loop_moves:
  assumes "swod_inv sw" "\<And>g. g \<in> set gids \<Longrightarrow> g < nr_groups sw"
  shows "moves t sw (snd (skip_loop sbi t now seg0 seg1 gids saw sw))"
  using assms
proof (induction gids arbitrary: saw sw)
  case Nil
  then show ?case by (simp add: moves_refl)
next
  case (Cons gid gids)
  have gid: "gid < nr_groups sw" and rest: "\<And>g. g \<in> set gids \<Longrightarrow> g < nr_groups sw"
    using Cons.prems(2) by auto
  have stats: "moves t sw (snd (skip_loop sbi t now seg0 seg1 gids s (sw\<lparr>stats := st\<rparr>)))" for s st
    using Cons.IH[of "sw\<lparr>stats := st\<rparr>" s] Cons.prems(1) rest by simp
  have rel: "moves t sw (snd (skip_loop sbi t now seg0 seg1 gids s
      (swod_release_group_locked sbi t (sw\<lparr>stats := st\<rparr>) gid why)))" for s st why
  proof -
    have r: "moves t sw (swod_release_group_locked sbi t (sw\<lparr>stats := st\<rparr>) gid why)"
      using release_moves[of "sw\<lparr>stats := st\<rparr>" gid t sbi why] Cons.prems(1) gid by simp
    have "moves t (swod_release_group_locked sbi t (sw\<lparr>stats := st\<rparr>) gid why)
        (snd (skip_loop sbi t now seg0 seg1 gids s (swod_release_group_locked sbi t (sw\<lparr>stats := st\<rparr>) gid why)))"
      using moves_inv[OF r] rest by (intro Cons.IH) simp_all
    with r show ?thesis by (rule moves_trans)
  qed
  show ?case
    using Cons.IH[OF Cons.prems(1) rest] Cons.prems(1) stats rel by (simp add: Let_def moves_refl)
qed

lemma should_skip_moves:
  assumes inv: "swod_inv sw" and "GET_SEGNO sbi (eend dc - 1) < nr_main_segs sw"
  shows "moves t sw (snd (snd (should_skip sbi t sw dc now)))"
proof -
  have gid: "swod_gid (sw\<lparr>stats := st\<rparr>) s = swod_gid sw s" for st s by (simp add: swod_gid_def)
  have loop: "moves t sw (snd (skip_loop sbi t now s0 s1 [g0..<Suc (swod_gid sw (GET_SEGNO sbi (eend dc - 1)))]
      False (sw\<lparr>stats := st\<rparr>)))" for s0 s1 g0 st
  proof -
    have "moves t (sw\<lparr>stats := st\<rparr>) (snd (skip_loop sbi t now s0 s1
        [g0..<Suc (swod_gid sw (GET_SEGNO sbi (eend dc - 1)))] False (sw\<lparr>stats := st\<rparr>)))"
      using inv gid_less[OF swod_inv_dims[OF inv] assms(2)] by (intro skip_loop_moves) auto
    then show ?thesis unfolding moves_simps .
  qed
  show ?thesis
    using inv loop unfolding should_skip_def Let_def gid by (simp add: moves_refl)
qed

section \<open>The machine with fixed tunables\<close>

definition fixed_ev :: "f2fs_sb_info \<times> swod_event \<Rightarrow> discard_cmd_control \<Rightarrow> bool" where
  "fixed_ev ev dcc \<longleftrightarrow> swod_enabled_ev ev dcc \<and> (\<forall>t. snd ev \<noteq> Ev_tune t)"

definition dcc_moves :: "discard_cmd_control \<Rightarrow> discard_cmd_control \<Rightarrow> bool" where
  "dcc_moves dcc dcc' \<longleftrightarrow> tun dcc' = tun dcc \<and> rel_option (moves (tun dcc)) (swod dcc) (swod dcc')"

lemma swod_step_moves:
  assumes "dcc_swod_inv dcc" "fixed_ev ev dcc"
  shows "dcc_moves dcc (swod_step ev dcc)"
proof (cases "swod dcc")
  case None
  obtain sbi e where ev: "ev = (sbi, e)" by (cases ev)
  from None assms ev show ?thesis
    by (cases e)
      (auto simp: fixed_ev_def dcc_moves_def f2fs_swod_refresh_around_locked_def f2fs_swod_should_skip_locked_def
        f2fs_swod_release_all_def f2fs_swod_sweep_timeout_def f2fs_swod_queue_eval_def
        f2fs_swod_eval_work_def f2fs_swod_should_frag_ipu_def)
next
  case (Some sw)
  with assms have inv: "swod_inv sw" by (simp add: dcc_swod_inv_def)
  obtain sbi e where ev: "ev = (sbi, e)" by (cases ev)
  note m = refresh_moves[OF inv] should_skip_moves[OF inv] release_all_moves[OF inv] sweep_moves[OF inv]
    eval_batch_moves moves_refl[OF inv]
  from Some assms(2) ev inv m show ?thesis
    by (cases e)
      (auto simp: fixed_ev_def dcc_moves_def f2fs_swod_refresh_around_locked_def f2fs_swod_should_skip_locked_def
        f2fs_swod_release_all_def f2fs_swod_sweep_timeout_def f2fs_swod_queue_eval_def
        f2fs_swod_eval_work_def f2fs_swod_should_frag_ipu_def Let_def)
qed

lemma dcc_moves_refl: "dcc_swod_inv dcc \<Longrightarrow> dcc_moves dcc dcc"
  by (cases "swod dcc") (simp_all add: dcc_moves_def dcc_swod_inv_def moves_refl)

lemma dcc_moves_trans: "dcc_moves a b \<Longrightarrow> dcc_moves b c \<Longrightarrow> dcc_moves a c"
  by (cases "swod a"; cases "swod b"; cases "swod c") (auto simp: dcc_moves_def intro: moves_trans)

interpretation swodl: bounded_machine swod_step fixed_ev dcc_swod_inv dcc_moves
  by unfold_locales
    (auto simp: fixed_ev_def dcc_moves_refl swod_step_inv intro: dcc_moves_trans swod_step_moves[unfolded fixed_ev_def])

end
