(* ===== verification/Swod_Live.thy ===== *)
theory Swod_Live
  imports Swod_Limits
begin

text \<open>
  The entry points of SWOD that the file system really reaches: commands are created and
  removed (\<open>Lv_discard\<close>), each creation queues the evaluation work (\<open>Lv_queue\<close>), the work
  queue takes the pending work and clears its pending bit (\<open>Lv_start\<close>) and then runs it (\<open>Lv_run\<close>), the
  discard thread releases and sweeps, the write path asks for fragment IPU, sysfs changes the tunables. The
  refresh and the skip decision have no caller. \<open>f2fs_swod_eval_work\<close> returns when
  \<open>atomic_cmpxchg\<close> reports that no evaluation was running, so the first run only marks
  the work as running: no group is evaluated, unless the work is queued again just between the start of
  that run and its test.
\<close>

datatype live_event =
    Lv_discard "discard_cmd list" "nat \<Rightarrow> swod_seg_hint"
  | Lv_queue
  | Lv_start
  | Lv_run
  | Lv_release_all swod_release_reason
  | Lv_sweep jiffies_t
  | Lv_frag_ipu frag_inode nat
  | Lv_tune swod_tunables

text \<open>
  The state: whether a worker has taken the work and has not tested \<open>eval_running\<close> yet, and the control. Taking
  the work makes it possible to queue it again.
\<close>

type_synonym live_state = "bool \<times> discard_cmd_control"

definition start_work :: "live_state \<Rightarrow> live_state" where
  "start_work st =
     (let (taken, dcc) = st
      in case swod dcc of
           None \<Rightarrow> st
         | Some sw \<Rightarrow> (if taken \<or> eval_pending sw = None then st else (True, dcc\<lparr>swod := Some (sw\<lparr>eval_pending := None\<rparr>)\<rparr>)))"

fun live_step :: "f2fs_sb_info \<times> live_event \<Rightarrow> live_state \<Rightarrow> live_state" where
  "live_step (sbi, Lv_discard cmds h) (w, dcc) = (w, swod_step (sbi, Ev_discard cmds h) dcc)"
| "live_step (sbi, Lv_queue) (w, dcc) = (w, f2fs_swod_queue_eval dcc)"
| "live_step (sbi, Lv_start) (w, dcc) = start_work (w, dcc)"
| "live_step (sbi, Lv_run) (w, dcc) = (if w then (False, f2fs_swod_eval_work sbi dcc) else (w, dcc))"
| "live_step (sbi, Lv_release_all why) (w, dcc) = (w, f2fs_swod_release_all sbi dcc why)"
| "live_step (sbi, Lv_sweep now) (w, dcc) = (w, f2fs_swod_sweep_timeout sbi dcc now)"
| "live_step (sbi, Lv_frag_ipu inode blk) (w, dcc) = (w, snd (f2fs_swod_should_frag_ipu sbi dcc inode blk))"
| "live_step (sbi, Lv_tune t) (w, dcc) = (w, dcc\<lparr>tun := t\<rparr>)"

text \<open>No request to queue the work falls between its start and its test.\<close>

fun undisturbed :: "f2fs_sb_info \<times> live_event \<Rightarrow> live_state \<Rightarrow> bool" where
  "undisturbed (sbi, Lv_queue) (w, dcc) \<longleftrightarrow> \<not> w"
| "undisturbed e st \<longleftrightarrow> True"

definition all_normal :: "swod_ctrl \<Rightarrow> bool" where
  "all_normal sw \<longleftrightarrow> (\<forall>gid < nr_groups sw. \<not> swod_group_is_active (grp_hint sw gid))"

definition never_evaluates :: "bool \<Rightarrow> swod_ctrl \<Rightarrow> bool" where
  "never_evaluates w sw \<longleftrightarrow> (if eval_running sw = 0 then w \<longrightarrow> eval_pending sw = None else eval_pending sw = None \<and> \<not> w)"

definition ctrl_live :: "bool \<Rightarrow> swod_ctrl \<Rightarrow> bool" where
  "ctrl_live w sw \<longleftrightarrow> swod_inv sw \<and> all_normal sw \<and> never_evaluates w sw"

definition live_inv :: "live_state \<Rightarrow> bool" where
  "live_inv st \<longleftrightarrow> (\<forall>sw. swod (snd st) = Some sw \<longrightarrow> ctrl_live (fst st) sw)"

lemma all_normal_simps [simp]:
  "all_normal (sw\<lparr>stats := st\<rparr>) = all_normal sw"
  "all_normal (sw\<lparr>seg_hint := h\<rparr>) = all_normal sw"
  "all_normal (sw\<lparr>eval_pending := p\<rparr>) = all_normal sw"
  "all_normal (sw\<lparr>eval_running := r\<rparr>) = all_normal sw"
  by (simp_all add: all_normal_def)

text \<open>With every group normal, releasing and sweeping do nothing.\<close>

lemma release_all_idle:
  assumes "all_normal sw"
  shows "release_all_locked sbi sw why = sw"
proof -
  have "fold (\<lambda>gid sw. if swod_group_is_active (grp_hint sw gid)
      then swod_drop_group_locked sbi sw gid why else sw) [0..<nr_groups sw] sw = sw"
    by (rule fold_upt_invariant[where I = "\<lambda>s. s = sw"]) (use assms in \<open>auto simp: all_normal_def\<close>)
  then show ?thesis by (simp add: release_all_locked_def)
qed

lemma sweep_idle: "swod_inv sw \<Longrightarrow> all_normal sw \<Longrightarrow> sweep_timeout sbi t sw now = sw"
  using swod_inv_idle(1)[of sw] by (simp add: sweep_timeout_def all_normal_def)

lemma run_idle:
  assumes "live_inv (True, dcc)" "swod dcc = Some sw" "swod_enabled (Some dcc)"
  shows "f2fs_swod_eval_work sbi dcc = dcc\<lparr>swod := Some (sw\<lparr>eval_running := 1\<rparr>)\<rparr>"
proof -
  have "eval_running sw = 0" using assms by (auto simp: live_inv_def ctrl_live_def never_evaluates_def split: if_splits)
  with assms show ?thesis by (simp add: f2fs_swod_eval_work_def swod_enabled_def)
qed

lemma run_live:
  assumes "live_inv (True, dcc)"
  shows "live_inv (False, f2fs_swod_eval_work sbi dcc)"
proof (cases "swod_enabled (Some dcc)")
  case True
  then obtain sw where sw: "swod dcc = Some sw" by (auto simp: swod_enabled_def)
  have "ctrl_live True sw" using assms sw by (simp add: live_inv_def)
  then show ?thesis using run_idle[OF assms sw True] by (simp add: live_inv_def ctrl_live_def never_evaluates_def split: if_splits)
next
  case False
  have "ctrl_live False sw" if "ctrl_live True sw" for sw using that unfolding ctrl_live_def never_evaluates_def by presburger
  moreover have "f2fs_swod_eval_work sbi dcc = dcc" unfolding f2fs_swod_eval_work_def using False by (rule if_P)
  ultimately show ?thesis using assms unfolding live_inv_def fst_conv snd_conv by metis
qed

lemma start_live:
  assumes "live_inv (w, dcc)"
  shows "live_inv (start_work (w, dcc))"
proof (cases "\<exists>sw. swod dcc = Some sw \<and> \<not> w \<and> eval_pending sw \<noteq> None")
  case True
  then obtain sw where sw: "swod dcc = Some sw" "\<not> w" "eval_pending sw \<noteq> None" by blast
  then have "ctrl_live False sw" using assms by (simp add: live_inv_def)
  then have "ctrl_live True (sw\<lparr>eval_pending := None\<rparr>)" using sw(3) by (simp add: ctrl_live_def never_evaluates_def split: if_splits)
  then show ?thesis using sw by (auto simp: start_work_def live_inv_def)
next
  case False
  then have "start_work (w, dcc) = (w, dcc)" by (auto simp: start_work_def split: option.split)
  then show ?thesis using assms by simp
qed

lemma live_inv_map:
  assumes "live_inv (w, dcc)" "\<And>sw. ctrl_live w sw \<Longrightarrow> ctrl_live w (f sw)"
  shows "live_inv (w, dcc\<lparr>swod := map_option f (swod dcc)\<rparr>)"
  using assms by (auto simp: live_inv_def)

lemma live_inv_tun: "live_inv (w, dcc) \<Longrightarrow> live_inv (w, dcc\<lparr>tun := t\<rparr>)"
  by (simp add: live_inv_def)

lemma queue_live: "live_inv (False, dcc) \<Longrightarrow> live_inv (False, f2fs_swod_queue_eval dcc)"
  unfolding f2fs_swod_queue_eval_def
  using live_inv_map[of False dcc "\<lambda>sw. if eval_pending sw = None \<and> eval_running sw = 0
      then sw\<lparr>eval_pending := Some 100\<rparr> else sw"]
  by (simp add: ctrl_live_def never_evaluates_def)

lemma release_all_live: "live_inv (w, dcc) \<Longrightarrow> live_inv (w, f2fs_swod_release_all sbi dcc why)"
  unfolding f2fs_swod_release_all_def
  using live_inv_map[of w dcc "\<lambda>sw. release_all_locked sbi sw why"] by (simp add: ctrl_live_def release_all_idle)

lemma sweep_live: "live_inv (w, dcc) \<Longrightarrow> live_inv (w, f2fs_swod_sweep_timeout sbi dcc now)"
  unfolding f2fs_swod_sweep_timeout_def
  using live_inv_map[of w dcc "\<lambda>sw. sweep_timeout sbi (tun dcc) sw now"] by (simp add: ctrl_live_def sweep_idle)

lemma frag_ipu_live: "live_inv (w, dcc) \<Longrightarrow> live_inv (w, snd (f2fs_swod_should_frag_ipu sbi dcc inode blk))"
proof (cases "swod dcc")
  case (Some sw)
  assume "live_inv (w, dcc)"
  with Some have "live_inv (w, dcc\<lparr>swod := Some (sw\<lparr>stats := st\<rparr>)\<rparr>)" for st
    by (simp add: live_inv_def ctrl_live_def never_evaluates_def)
  with Some \<open>live_inv (w, dcc)\<close> show ?thesis by (simp add: f2fs_swod_should_frag_ipu_def Let_def)
qed (simp add: f2fs_swod_should_frag_ipu_def)

lemma live_step_inv: "live_inv (w, dcc) \<Longrightarrow> undisturbed (sbi, e) (w, dcc) \<Longrightarrow> live_inv (live_step (sbi, e) (w, dcc))"
proof (cases e)
  case (Lv_discard cmds h)
  moreover assume "live_inv (w, dcc)"
  ultimately show ?thesis by (auto simp: live_inv_def ctrl_live_def never_evaluates_def)
next
  case Lv_run
  moreover assume "live_inv (w, dcc)"
  ultimately show ?thesis using run_live[of dcc sbi] by (cases w) simp_all
qed (simp_all add: queue_live release_all_live sweep_live frag_ipu_live live_inv_tun start_live)

interpretation livem: guarded_machine live_step undisturbed live_inv
  by unfold_locales (metis live_step_inv surj_pair)

lemma new_ctrl_live:
  assumes "zeroed al" "swod d = Some (swod_new_ctrl sbi (swod_init_tun sbi t) al)"
  shows "live_inv (False, d)"
  using assms new_ctrl_inv[OF assms(1)]
  by (auto simp: live_inv_def ctrl_live_def all_normal_def never_evaluates_def swod_new_ctrl_def zeroed_def)

lemma live_no_target:
  assumes "live_inv (w, dcc)"
  shows "\<not> f2fs_swod_has_held dcc" "\<not> f2fs_swod_has_wce_target dcc"
    and "\<not> fst (f2fs_swod_should_frag_ipu sbi dcc inode blk)"
proof -
  have z: "nr_held_groups sw = 0 \<and> nr_parked_groups sw = 0 \<and> nr_wce_groups sw = 0"
    if "swod dcc = Some sw" for sw
    using assms that swod_inv_idle[of sw] by (simp add: live_inv_def ctrl_live_def all_normal_def)
  show held: "\<not> f2fs_swod_has_held dcc" and "\<not> f2fs_swod_has_wce_target dcc"
    using z by (auto simp: f2fs_swod_has_held_def f2fs_swod_has_wce_target_def on_swod_def split: option.splits)
  show "\<not> fst (f2fs_swod_should_frag_ipu sbi dcc inode blk)"
    using held by (auto simp: f2fs_swod_should_frag_ipu_def Let_def split: option.splits)
qed

end
