(* ===== verification/Swod_Rebuild.thy ===== *)
theory Swod_Rebuild
  imports Swod_Api_Inv
begin

text \<open>
  Functional correctness of the segment hints: cutting a range at segment borders
  terminates and covers the range exactly, and a rebuild leaves in every segment's hint
  the number of pending blocks and commands that the discard tree has there.
\<close>

section \<open>Blocks of a range inside a segment\<close>

definition seg_start :: "f2fs_sb_info \<Rightarrow> nat \<Rightarrow> nat" where
  "seg_start sbi s = main_start sbi + s * blocks_per_seg sbi"

definition overlap :: "f2fs_sb_info \<Rightarrow> nat \<Rightarrow> nat \<Rightarrow> nat \<Rightarrow> nat" where
  "overlap sbi lo hi s = min hi (seg_start sbi (Suc s)) - max lo (seg_start sbi s)"

definition pieces_in :: "nat \<Rightarrow> (nat \<times> nat) list \<Rightarrow> nat list" where
  "pieces_in s ps = map snd (filter (\<lambda>p. fst p = s) ps)"

lemma seg_start_mono: "s \<le> s' \<Longrightarrow> seg_start sbi s \<le> seg_start sbi s'"
  by (simp add: seg_start_def)

lemma seg_start_Suc: "seg_start sbi (Suc s) = seg_start sbi s + blocks_per_seg sbi"
  by (simp add: seg_start_def)

lemma bps_pos: "geom_ok sbi \<Longrightarrow> 0 < blocks_per_seg sbi"
  by (simp add: geom_ok_bps)

lemma main_end_seg_start: "geom_ok sbi \<Longrightarrow> main_end sbi = seg_start sbi (main_segments sbi)"
  by (simp add: main_end_def seg_start_def geom_ok_bps)

text \<open>The segment of a block of the main area.\<close>

lemma GET_SEGNO_range:
  assumes "geom_ok sbi" "main_start sbi \<le> b" "b < main_end sbi"
  shows "seg_start sbi (GET_SEGNO sbi b) \<le> b" "b < seg_start sbi (Suc (GET_SEGNO sbi b))"
    and "GET_SEGNO sbi b < main_segments sbi"
    and "START_BLOCK sbi (GET_SEGNO sbi b + 1) = seg_start sbi (Suc (GET_SEGNO sbi b))"
proof -
  let ?s = "GET_SEGNO sbi b" and ?B = "blocks_per_seg sbi"
  have "?s * ?B \<le> b - main_start sbi \<and> b - main_start sbi < ?s * ?B + ?B"
    using div_eq_range_iff[OF bps_pos[OF assms(1)], of "b - main_start sbi" ?s] GET_SEGNO_main[OF assms]
    by simp
  then show "seg_start sbi ?s \<le> b" "b < seg_start sbi (Suc ?s)"
    using assms(2) by (auto simp: seg_start_def)
  show lt: "?s < main_segments sbi" using GET_SEGNO_less[OF assms] .
  show "START_BLOCK sbi (?s + 1) = seg_start sbi (Suc ?s)"
    using START_BLOCK_eq[OF assms(1), of "?s + 1"] lt by (simp add: seg_start_def)
qed

section \<open>Cutting a range\<close>

definition cut_ok :: "f2fs_sb_info \<Rightarrow> nat \<Rightarrow> nat \<Rightarrow> (nat \<times> nat) list \<Rightarrow> bool" where
  "cut_ok sbi lo hi ps \<longleftrightarrow>
     (\<forall>s. pieces_in s ps = (if overlap sbi lo hi s = 0 then [] else [overlap sbi lo hi s])) \<and>
     (\<forall>p \<in> set ps. fst p < main_segments sbi)"

lemma seg_pieces_total:
  assumes geo: "geom_ok sbi" and "main_start sbi \<le> cur" "hi \<le> main_end sbi" "hi - cur \<le> n"
  shows "\<exists>ps. seg_pieces sbi n cur hi = Some ps \<and> cut_ok sbi cur hi ps"
  using assms(2-)
proof (induction n arbitrary: cur)
  case 0
  then have "seg_pieces sbi 0 cur hi = Some []" by simp
  moreover have "overlap sbi cur hi s = 0" for s using 0 by (auto simp: overlap_def)
  ultimately show ?case by (simp add: cut_ok_def pieces_in_def)
next
  case (Suc n)
  show ?case
  proof (cases "cur < hi")
    case False
    then have "overlap sbi cur hi s = 0" for s by (auto simp: overlap_def)
    with False show ?thesis by (simp add: cut_ok_def pieces_in_def)
  next
    case True
    let ?s = "GET_SEGNO sbi cur"
    let ?e = "seg_start sbi (Suc ?s)"
    let ?next = "min hi ?e"
    have "cur < main_end sbi" using True Suc.prems by simp
    note seg = GET_SEGNO_range[OF geo Suc.prems(1) this]
    have lt: "cur < ?next" using seg(2) True by simp
    have "hi < 2 ^ 32" using Suc.prems(2) geo by (auto simp: geom_ok_def)
    then have n32: "?next < 2 ^ 32" by (rule min.strict_coboundedI1)
    have piece: "sub32 ?next cur = ?next - cur" "u32 (cur + (?next - cur)) = ?next"
      using lt n32 by (simp_all add: sub32_le u32_id)
    have "hi - ?next \<le> n" using lt Suc.prems(3) by linarith
    then obtain ps where ps: "seg_pieces sbi n ?next hi = Some ps" "cut_ok sbi ?next hi ps"
      using Suc.IH[of ?next] Suc.prems(1,2) lt by auto
    have eq: "seg_pieces sbi (Suc n) cur hi = Some ((?s, ?next - cur) # ps)"
      using True ps(1) seg(4) piece by (simp add: Let_def)
    have here: "overlap sbi cur hi ?s = ?next - cur" "overlap sbi ?next hi ?s = 0"
      using seg(1) lt by (simp_all add: overlap_def)
    have other: "overlap sbi cur hi s = overlap sbi ?next hi s" if "s \<noteq> ?s" for s
    proof (cases "s < ?s")
      case True
      then have "seg_start sbi (Suc s) \<le> cur" using seg(1) seg_start_mono[of "Suc s" ?s sbi] by simp
      with lt show ?thesis unfolding overlap_def by linarith
    next
      case False
      then have "?e \<le> seg_start sbi s" using that seg_start_mono[of "Suc ?s" s sbi] by simp
      with lt show ?thesis unfolding overlap_def by linarith
    qed
    have "cut_ok sbi cur hi ((?s, ?next - cur) # ps)"
      unfolding cut_ok_def
    proof (intro conjI allI)
      fix s
      show "pieces_in s ((?s, ?next - cur) # ps) =
          (if overlap sbi cur hi s = 0 then [] else [overlap sbi cur hi s])"
        using ps(2) here other lt by (cases "s = ?s") (auto simp: cut_ok_def pieces_in_def)
      show "\<forall>p \<in> set ((?s, ?next - cur) # ps). fst p < main_segments sbi"
        using ps(2) seg(3) by (auto simp: cut_ok_def)
    qed
    with eq show ?thesis by blast
  qed
qed

lemma seg_pieces_of_cut:
  assumes "geom_ok sbi" "main_start sbi \<le> lo" "hi \<le> main_end sbi"
  shows "cut_ok sbi lo hi (seg_pieces_of sbi lo hi)"
  using seg_pieces_total[OF assms order_refl] by (auto simp: seg_pieces_of_def)

section \<open>Accumulating hints\<close>

lemma add_pieces_pend:
  "pend_blks (seg_hint (fold (add_piece j) ps sw) s) =
     (if pieces_in s ps = [] then pend_blks (seg_hint sw s)
      else u32 (pend_blks (seg_hint sw s) + sum_list (pieces_in s ps)))"
proof (induction ps arbitrary: sw)
  case (Cons p ps)
  show ?case
    using Cons.IH[of "add_piece j p sw"]
    by (auto simp: add_piece_def Let_def pieces_in_def u32_add_left add.assoc filter_empty_conv)
qed (simp add: pieces_in_def)

lemma add_pieces_cmds:
  "nr_cmds (seg_hint (fold (add_piece j) ps sw) s) =
     (if pieces_in s ps = [] then nr_cmds (seg_hint sw s)
      else u32 (nr_cmds (seg_hint sw s) + length (pieces_in s ps)))"
proof (induction ps arbitrary: sw)
  case (Cons p ps)
  show ?case
    using Cons.IH[of "add_piece j p sw"] u32_add_left[of "nr_cmds (seg_hint sw s) + 1"]
    by (auto simp: add_piece_def Let_def pieces_in_def filter_empty_conv)
qed (simp add: pieces_in_def)

text \<open>Adding one command's pieces: its overlap with the segment, and one command if any.\<close>

lemma add_cut:
  assumes "cut_ok sbi lo hi ps"
    and "pend_blks (seg_hint sw s) = u32 a" "nr_cmds (seg_hint sw s) = u32 c"
  shows "pend_blks (seg_hint (fold (add_piece j) ps sw) s) = u32 (a + overlap sbi lo hi s)"
    and "nr_cmds (seg_hint (fold (add_piece j) ps sw) s) = u32 (c + of_bool (0 < overlap sbi lo hi s))"
  using assms by (auto simp: add_pieces_pend add_pieces_cmds cut_ok_def u32_add_left)

section \<open>The rebuild\<close>

definition cmd_overlap :: "f2fs_sb_info \<Rightarrow> nat \<Rightarrow> discard_cmd \<Rightarrow> nat" where
  "cmd_overlap sbi s dc = (if dc_state dc = D_PREP then overlap sbi (lstart dc) (eend dc) s else 0)"

definition pending_in_seg :: "f2fs_sb_info \<Rightarrow> discard_cmd list \<Rightarrow> nat \<Rightarrow> nat" where
  "pending_in_seg sbi cmds s = sum_list (map (cmd_overlap sbi s) cmds)"

definition cmds_in_seg :: "f2fs_sb_info \<Rightarrow> discard_cmd list \<Rightarrow> nat \<Rightarrow> nat" where
  "cmds_in_seg sbi cmds s = length (filter (\<lambda>dc. 0 < cmd_overlap sbi s dc) cmds)"

lemma overlap_clip:
  assumes "start \<le> seg_start sbi s" "seg_start sbi (Suc s) \<le> stop"
  shows "overlap sbi (max lo start) (min hi stop) s = overlap sbi lo hi s"
  using assms by (auto simp: overlap_def)

lemma rebuild_fold:
  assumes geo: "geom_ok sbi" and seg: "a \<le> seg_start sbi s" "seg_start sbi (Suc s) \<le> b"
    and main: "main_start sbi \<le> a" "b \<le> main_end sbi"
    and "pend_blks (seg_hint sw s) = u32 p" "nr_cmds (seg_hint sw s) = u32 c"
  shows "pend_blks (seg_hint (fold (rebuild_cmd sbi a b) cmds sw) s) = u32 (p + pending_in_seg sbi cmds s) \<and>
         nr_cmds (seg_hint (fold (rebuild_cmd sbi a b) cmds sw) s) = u32 (c + cmds_in_seg sbi cmds s)"
  using assms(6,7)
proof (induction cmds arbitrary: sw p c)
  case (Cons dc cmds)
  let ?o = "cmd_overlap sbi s dc"
  have "pend_blks (seg_hint (rebuild_cmd sbi a b dc sw) s) = u32 (p + ?o) \<and>
      nr_cmds (seg_hint (rebuild_cmd sbi a b dc sw) s) = u32 (c + of_bool (0 < ?o))"
  proof (cases "dc_state dc = D_PREP")
    case True
    have "cut_ok sbi (max (lstart dc) a) (min (eend dc) b)
        (seg_pieces_of sbi (max (lstart dc) a) (min (eend dc) b))"
      using main by (intro seg_pieces_of_cut[OF geo]) auto
    from add_cut[OF this Cons.prems] True seg show ?thesis
      by (simp add: rebuild_cmd_def cmd_overlap_def overlap_clip)
  next
    case False
    with Cons.prems show ?thesis by (simp add: rebuild_cmd_def cmd_overlap_def)
  qed
  with Cons.IH show ?case
    by (simp add: pending_in_seg_def cmds_in_seg_def add.assoc of_bool_def)
qed (simp add: pending_in_seg_def cmds_in_seg_def)

text \<open>Commands that end before the scan or start after it do not meet its segments.\<close>

lemma outside_overlap:
  "eend dc \<le> seg_start sbi s \<or> seg_start sbi (Suc s) \<le> lstart dc \<Longrightarrow> cmd_overlap sbi s dc = 0"
  by (auto simp: cmd_overlap_def overlap_def)

lemma pending_skip:
  assumes "\<And>dc. dc \<in> set xs \<Longrightarrow> cmd_overlap sbi s dc = 0"
  shows "pending_in_seg sbi (xs @ ys) s = pending_in_seg sbi ys s \<and> cmds_in_seg sbi (xs @ ys) s = cmds_in_seg sbi ys s"
    and "pending_in_seg sbi (ys @ xs) s = pending_in_seg sbi ys s \<and> cmds_in_seg sbi (ys @ xs) s = cmds_in_seg sbi ys s"
proof -
  have "map (cmd_overlap sbi s) xs = map (\<lambda>_. 0) xs" "filter (\<lambda>dc. 0 < cmd_overlap sbi s dc) xs = []"
    using assms by (auto simp: filter_empty_conv)
  then show "pending_in_seg sbi (xs @ ys) s = pending_in_seg sbi ys s \<and> cmds_in_seg sbi (xs @ ys) s = cmds_in_seg sbi ys s"
    "pending_in_seg sbi (ys @ xs) s = pending_in_seg sbi ys s \<and> cmds_in_seg sbi (ys @ xs) s = cmds_in_seg sbi ys s"
    by (simp_all add: pending_in_seg_def cmds_in_seg_def sum_list_triv)
qed

lemma scan_window:
  assumes ds: "disjoint_sorted cmds" and seg: "a \<le> seg_start sbi s" "seg_start sbi (Suc s) \<le> b"
  shows "pending_in_seg sbi (takeWhile (\<lambda>dc. lstart dc < b) (rb_from cmds a)) s = pending_in_seg sbi cmds s"
    and "cmds_in_seg sbi (takeWhile (\<lambda>dc. lstart dc < b) (rb_from cmds a)) s = cmds_in_seg sbi cmds s"
proof -
  define pre mid post where "pre = takeWhile (\<lambda>dc. eend dc \<le> a) cmds"
    and "mid = takeWhile (\<lambda>dc. lstart dc < b) (rb_from cmds a)"
    and "post = dropWhile (\<lambda>dc. lstart dc < b) (rb_from cmds a)"
  have split: "cmds = pre @ mid @ post" by (simp add: pre_def mid_def post_def rb_from_def)
  have z1: "cmd_overlap sbi s dc = 0" if "dc \<in> set pre" for dc
    using that seg(1) by (intro outside_overlap) (auto simp: pre_def dest: set_takeWhileD)
  have z2: "cmd_overlap sbi s dc = 0" if d: "dc \<in> set post" for dc
  proof -
    obtain x xs where x: "post = x # xs" using d by (cases post) auto
    then have "\<not> lstart x < b" unfolding post_def by (metis hd_dropWhile list.discI list.sel(1))
    moreover have "lstart x \<le> lstart dc"
      using ds d x split by (auto simp: disjoint_sorted_simps intro: order.trans[OF ofs_le_eend])
    ultimately show ?thesis using seg(2) by (intro outside_overlap) simp
  qed
  show "pending_in_seg sbi mid s = pending_in_seg sbi cmds s" "cmds_in_seg sbi mid s = cmds_in_seg sbi cmds s"
    using pending_skip(1)[of pre sbi s "mid @ post", OF z1] pending_skip(2)[of post sbi s mid, OF z2] split
    by simp_all
qed

lemma rebuild_groups_spec:
  assumes geo: "geom_ok sbi" and dims: "swod_dims sw" "nr_main_segs sw = main_segments sbi"
    and ds: "disjoint_sorted (root dcc)"
    and s: "swod_group_first_seg sw gid0 \<le> s" "s < nr_main_segs sw"
      "s < swod_group_first_seg sw gid1 + win_segs sw" and g: "gid0 \<le> gid1"
  shows "pend_blks (seg_hint (swod_rebuild_groups_locked sbi dcc sw gid0 gid1) s) =
           u32 (pending_in_seg sbi (root dcc) s)"
    and "nr_cmds (seg_hint (swod_rebuild_groups_locked sbi dcc sw gid0 gid1) s) =
           u32 (cmds_in_seg sbi (root dcc) s)"
proof -
  define st where "st = swod_group_first_seg sw gid0"
  define en where "en = min (nr_main_segs sw) (swod_group_first_seg sw gid1 + win_segs sw)"
  define sw0 where "sw0 = sw\<lparr>seg_hint := (\<lambda>s. if st \<le> s \<and> s < en then hint_cleared else seg_hint sw s)\<rparr>"
  define cmds where "cmds = takeWhile (\<lambda>dc. lstart dc < START_BLOCK sbi en) (rb_from (root dcc) (START_BLOCK sbi st))"
  have se: "st \<le> s" "s < en" "en \<le> main_segments sbi" using s dims by (auto simp: st_def en_def)
  have eq: "swod_rebuild_groups_locked sbi dcc sw gid0 gid1 =
      fold (rebuild_cmd sbi (START_BLOCK sbi st) (START_BLOCK sbi en)) cmds sw0"
    using g se unfolding swod_rebuild_groups_locked_def Let_def st_def[symmetric] en_def[symmetric]
      sw0_def[symmetric] cmds_def by simp
  have blk: "START_BLOCK sbi st = seg_start sbi st" "START_BLOCK sbi en = seg_start sbi en"
    using START_BLOCK_eq[OF geo] se by (simp_all add: seg_start_def)
  have lo: "seg_start sbi st \<le> seg_start sbi s" using se(1) by (rule seg_start_mono)
  have hi: "seg_start sbi (Suc s) \<le> seg_start sbi en" using se(2) by (intro seg_start_mono) simp
  have m: "main_start sbi \<le> seg_start sbi st" "seg_start sbi en \<le> main_end sbi"
    using seg_start_mono[OF se(3), of sbi] by (simp_all add: main_end_seg_start[OF geo] seg_start_def[of sbi st])
  have init: "pend_blks (seg_hint sw0 s) = u32 0" "nr_cmds (seg_hint sw0 s) = u32 0"
    using se by (simp_all add: sw0_def hint_cleared_def)
  have "pend_blks (seg_hint (fold (rebuild_cmd sbi (seg_start sbi st) (seg_start sbi en)) cmds sw0) s) =
        u32 (pending_in_seg sbi cmds s) \<and>
      nr_cmds (seg_hint (fold (rebuild_cmd sbi (seg_start sbi st) (seg_start sbi en)) cmds sw0) s) =
        u32 (cmds_in_seg sbi cmds s)"
    using rebuild_fold[OF geo lo hi m init, of cmds] by simp
  with eq blk scan_window[OF ds lo hi]
  show "pend_blks (seg_hint (swod_rebuild_groups_locked sbi dcc sw gid0 gid1) s) = u32 (pending_in_seg sbi (root dcc) s)"
    "nr_cmds (seg_hint (swod_rebuild_groups_locked sbi dcc sw gid0 gid1) s) = u32 (cmds_in_seg sbi (root dcc) s)"
    by (simp_all add: cmds_def)
qed

end
