(* ===== verification/Swod_Example.thy ===== *)
theory Swod_Example
  imports Swod_Live Swod_Rebuild "HOL-Library.Code_Target_Nat"
begin

text \<open>
  A small volume on which the properties of SWOD are instantiated: four segments of 512
  blocks, groups of two segments, a clock of one tick per millisecond.
\<close>

definition ex_sbi :: f2fs_sb_info where
  "ex_sbi = \<lparr>sb_gc_mode = GC_NORMAL, log_blocksize = 12, log_blocks_per_seg = 9, blocks_per_seg = 512,
     segs_per_sec = 1, seg0_blkaddr = 512, start_segno = 4, main_segments = 4,
     sentries = (\<lambda>s. \<lparr>se_type = CURSEG_WARM_DATA, valid_blocks = 40, ckpt_valid_blocks = 40\<rparr>),
     total_valid_block_count = 320, user_block_count = 4096, nm_ram_thresh = None, totalram = 0, totalhigh = 0,
     page_shift = 12, sizeof_discard_cmd = 100, max_discard_sectors = Some 16384,
     lfs_mode = True, need_fsck = False, NULL_ADDR = 0, NEW_ADDR = UINT_MAX, COMPRESS_ADDR = UINT_MAX - 1,
     jiffies = 1000, msecs_to_jiffies = (\<lambda>ms. of_nat ms), jiffies_to_msecs = unat,
     get_random_u32 = 7, stack_junk = (\<lambda>_ _ _. (9000, 500))\<rparr>"

definition ex_tun :: swod_tunables where
  "ex_tun = \<lparr>swod_enable = 1, swod_win_segs = 2, swod_qcov_thr_bp = 8500, swod_lres_thr_bp = 1000,
     swod_hold_min_ms = 50, swod_hold_max_ms = 300, swod_hold_scale_bp = 10000, swod_cmd_pressure = 4096,
     swod_blk_pressure = 1048576, swod_max_held_groups = 64, swod_formation_enable = 1,
     swod_short_hold_min_ms = 1, swod_short_hold_max_ms = 10, swod_frag_min_cmds = 8,
     swod_frag_max_avg_piece_blks = 16, swod_frag_min_pend_blks = 32, swod_growth_min_bp = 100,
     swod_wce_qcov_thr_bp = 7000, swod_wce_lres_thr_bp = 2000, swod_overlap_skip_ratio_bp = 5000,
     swod_completion_enable = 0, swod_gc_bg_enable = 1, swod_gc_fg_enable = 1, swod_frag_ipu_enable = 1,
     swod_frag_ipu_max_pend_blks = 64, swod_frag_ipu_min_cmds = 2, swod_frag_ipu_age_ms = 100,
     swod_frag_ipu_skip_hot = 1\<rparr>"

text \<open>Commands are numbered by their start address.\<close>

definition ex_cmd :: "nat \<Rightarrow> nat \<Rightarrow> discard_cmd" where
  "ex_cmd lo len = \<lparr>ofs = lo, elen = len, pstart = lo, dc_id = lo, bdev = 0, dc_ref = 0, dc_state = D_PREP,
     queued = 0, dc_error = 0, bio_ref = 0, submit_time = 0, policy_type = None, orig_len = 0, enq_jiffies = 900, swod_skip = False\<rparr>"

text \<open>Pending discards of 472 blocks in the first two segments of the volume.\<close>

definition ex_dcc :: discard_cmd_control where
  "ex_dcc = \<lparr>root = [ex_cmd 2560 472, ex_cmd 3072 472], pend_list = (\<lambda>_. []), wait_list = [], fstrim_list = [],
     next_id = 10000, discard_wake = False, discard_granularity = 16, undiscard_blks = 944, next_pos = 0,
     issued_discard = 0, queued_discard = 0, discard_cmd_cnt = 2, discard_back_only_merge_cnt = 0,
     discard_front_only_merge_cnt = 0, discard_both_merge_cnt = 0, tun = ex_tun, swod = None\<rparr>"

definition ex_al :: swod_allocs where
  "ex_al = \<lparr>a_ctrl = True, a_seg_hint = Kvzalloc, a_grp_hint = Kvzalloc, a_hold = Kvzalloc, a_park = Kvzalloc,
     a_wce = Kvzalloc\<rparr>"

definition ex_init :: discard_cmd_control where
  "ex_init = the (fst (f2fs_swod_init ex_sbi ex_al (Some ex_dcc)))"

definition ex_held :: discard_cmd_control where
  "ex_held = f2fs_swod_refresh_around_locked ex_sbi ex_init 2560 472"

lemma ex_init_ok: "f2fs_swod_init ex_sbi ex_al (Some ex_dcc) = (Some ex_init, None)" "swod ex_dcc = None"
  by (simp_all add: ex_init_def f2fs_swod_init_def ex_dcc_def ex_al_def Let_def)

lemma ex_zeroed: "zeroed ex_al"
  by (simp add: zeroed_def ex_al_def)

lemma ex_geom: "geom_ok ex_sbi"
  by (simp add: geom_ok_def main_end_def main_start_def ex_sbi_def UINT_MAX_def)

lemma ex_inv: "dcc_swod_inv ex_init"
  using init_cases[OF ex_init_ok] new_ctrl_inv[OF ex_zeroed] by (auto simp: dcc_swod_inv_def)

text \<open>The refresh finds a window in both groups and holds it.\<close>

lemma ex_refresh_enabled: "fixed_ev (ex_sbi, Ev_refresh 2560 472) ex_init"
proof -
  have "GET_SEGNO ex_sbi (2560 + 472 - 1) = 0" by code_simp
  moreover have "nr_main_segs sw = 4" if "swod ex_init = Some sw" for sw
    using that init_cases[OF ex_init_ok] by (auto simp: swod_new_ctrl_def MAIN_SEGS_def ex_sbi_def)
  ultimately show ?thesis by (auto simp: fixed_ev_def)
qed

lemma ex_held_reach: "reach swod_step fixed_ev ex_init ex_held" "reach swod_step swod_enabled_ev ex_init ex_held"
  using reach_step[OF reach_start, of fixed_ev "(ex_sbi, Ev_refresh 2560 472)" ex_init swod_step]
    reach_step[OF reach_start, of swod_enabled_ev "(ex_sbi, Ev_refresh 2560 472)" ex_init swod_step]
    ex_refresh_enabled
  by (simp_all add: ex_held_def fixed_ev_def)

definition ex_sw :: swod_ctrl where
  "ex_sw = the (swod ex_held)"

lemma ex_sw_some: "swod ex_held = Some ex_sw"
proof -
  have "swod ex_held \<noteq> None"
    using init_cases[OF ex_init_ok] by (auto simp: ex_held_def f2fs_swod_refresh_around_locked_def)
  then show ?thesis by (simp add: ex_sw_def)
qed

lemma ex_sw_inv: "swod_inv ex_sw"
  using swodm.reach_inv[OF ex_held_reach(2) ex_inv] ex_sw_some by (simp add: dcc_swod_inv_def)

lemma ex_sw_dims: "nr_groups ex_sw = 2" "nr_main_segs ex_sw = 4"
  using swodl.reach_rel[OF ex_held_reach(1) ex_inv] ex_sw_some init_cases[OF ex_init_ok]
  by (auto simp: dcc_moves_def moves_def inv_from_def swod_new_ctrl_def MAIN_SEGS_def ex_sbi_def swod_init_tun_def
      ex_dcc_def ex_tun_def dflt_def swod_consts)

lemma ex_sw_held: "nr_held_groups ex_sw = 2" "is_held (grp_hint ex_sw 0)"
  by code_simp+

end
