(* ===== verification/Swod_Props.thy ===== *)
theory Swod_Props
  imports Swod_Example
begin

text \<open>
  What the SWOD component promises to the rest of the file system, stated over its entry
  points, with each property applied to the example volume; the last section shows where
  the code departs from what it means to do.
\<close>

section \<open>Helper lemmas\<close>

lemma init_inv:
  assumes "f2fs_swod_init sbi al (Some d) = (Some d', None)" "swod d = None" "zeroed al"
  shows "dcc_swod_inv d'"
  using init_cases[OF assms(1,2)] new_ctrl_inv[OF assms(3)] by (auto simp: dcc_swod_inv_def)

lemma init_ctrl:
  assumes "f2fs_swod_init sbi al (Some d) = (Some d', None)" "swod d = None"
  shows "swod d' = Some (swod_new_ctrl sbi (swod_init_tun sbi (tun d)) al)"
  using init_cases[OF assms] by auto

text \<open>A release may park a window but never lengthens it.\<close>

lemma release_hold_len:
  "hold_len (grp_hint (swod_release_group_locked sbi t sw gid why) gid) \<le> hold_len (grp_hint sw gid)"
proof (cases "swod_try_park_group_locked sbi t sw gid why (jiffies sbi)")
  case None
  then show ?thesis by (simp add: swod_release_group_locked_def drop_grp_hint)
next
  case (Some sw')
  from Some have "hold_len (grp_hint sw' gid) \<le> hold_len (grp_hint sw gid)"
    by (cases rule: try_park_cases) (simp_all add: park_group_def Let_def drop_other)
  with Some show ?thesis by (simp add: swod_release_group_locked_def)
qed

lemma install_hold_len:
  "hold_len (grp_hint (swod_install_candidate sbi t sw gid off len q l nc av action now) gid) \<le> len"
  by (simp add: swod_install_candidate_def Let_def u16_def)

lemma eval_install_len:
  assumes "\<not> swod_group_is_active (grp_hint sw gid)" "b_len b \<le> m"
    and "swod_group_is_active (grp_hint (eval_install sbi t sw gid b a now) gid)"
  shows "hold_len (grp_hint (eval_install sbi t sw gid b a now) gid) \<le> m"
proof -
  note il = order_trans[OF install_hold_len assms(2)]
  show ?thesis
    using assms il unfolding eval_install_def Let_def by (auto split: option.splits if_splits)
qed

lemma max_hold_len_frame:
  "same_dims sw sw' \<Longrightarrow> swod_max_hold_len sbi sw' gid = swod_max_hold_len sbi sw gid"
  by (simp add: swod_max_hold_len_def same_dims_geo)

lemma eval_group_len:
  assumes inv: "swod_inv sw" and gid: "gid < nr_groups sw"
    and act: "swod_group_is_active (grp_hint (swod_eval_group_locked sbi dcc sw gid now) gid)"
  shows "\<not> swod_regime_blocked sbi dcc None"
    and "hold_len (grp_hint (swod_eval_group_locked sbi dcc sw gid now) gid) \<le> swod_max_hold_len sbi sw gid"
proof -
  have n: "swod_group_nsegs sw gid \<noteq> 0" using nsegs_bounds(1)[OF swod_inv_dims[OF inv] gid] by simp
  show nb: "\<not> swod_regime_blocked sbi dcc None"
    using act n by (cases "swod_group_is_active (grp_hint sw gid)") (auto simp: swod_eval_group_locked_def Let_def drop_grp_hint)
  define sw1 where "sw1 = (if swod_group_is_active (grp_hint sw gid) \<and>
      hold_len (grp_hint sw gid) > swod_max_hold_len sbi sw gid
    then swod_drop_group_locked sbi sw gid SWOD_REL_PRESSURE else sw)"
  let ?m = "swod_max_hold_len sbi sw gid"
  have m1: "swod_max_hold_len sbi sw1 gid = ?m"
    by (simp add: sw1_def max_hold_len_frame[OF drop_same])
  have eq: "swod_eval_group_locked sbi dcc sw gid now =
      (if swod_group_is_active (grp_hint sw1 gid) then
         (if swod_window_ready_locked sbi sw1 gid
          then swod_release_group_locked sbi (tun dcc) sw1 gid SWOD_REL_SUCCESS
          else if time_after_eq now (swod_group_deadline (grp_hint sw1 gid))
          then swod_release_group_locked sbi (tun dcc) sw1 gid SWOD_REL_TIMEOUT else sw1)
       else (let bests = eval_scan sbi (tun dcc) sw1 gid; short = fst bests; complete = snd bests; st = stats sw1
         in if b_found short then
              eval_install sbi (tun dcc) (sw1\<lparr>stats := st\<lparr>capture_followup_cnt := capture_followup_cnt st + 1,
                capture_blocks := capture_blocks st + b_pend_blks short\<rparr>\<rparr>) gid short SWOD_ACT_SHORT_HOLD now
            else if b_found complete
            then eval_install sbi (tun dcc) sw1 gid complete SWOD_ACT_COMPLETION_HOLD now
            else sw1\<lparr>stats := st\<lparr>eval_no_candidate_cnt := eval_no_candidate_cnt st + 1\<rparr>\<rparr>))"
    using nb n unfolding swod_eval_group_locked_def Let_def sw1_def[symmetric] by simp
  show "hold_len (grp_hint (swod_eval_group_locked sbi dcc sw gid now) gid) \<le> ?m"
  proof (cases "swod_group_is_active (grp_hint sw1 gid)")
    case True
    then have l1: "hold_len (grp_hint sw1 gid) \<le> ?m"
      by (auto simp: sw1_def drop_grp_hint split: if_splits)
    from eq True l1 order_trans[OF release_hold_len l1] show ?thesis by simp
  next
    case False
    note ok = eval_scan_ok[OF False, of sbi "tun dcc", unfolded scan_ok_def cand_in_group_def m1]
    have len: "hold_len (grp_hint (eval_install sbi (tun dcc) (sw1\<lparr>stats := st\<rparr>) gid b a now) gid) \<le> ?m"
      if "swod_group_is_active (grp_hint (eval_install sbi (tun dcc) (sw1\<lparr>stats := st\<rparr>) gid b a now) gid)"
        "b_len b \<le> ?m" for st b a
      using eval_install_len[of "sw1\<lparr>stats := st\<rparr>" gid b ?m] that False by simp
    show ?thesis
      using eq act False ok len len[where st = "stats sw1", simplified]
      by (simp add: Let_def split: if_splits)
  qed
qed

lemma ex_skip_facts:
  "GET_SEGNO ex_sbi 2560 = 0" "GET_SEGNO ex_sbi (eend (ex_cmd 2560 472) - 1) = 0"
  by code_simp+

lemma ex_held_tun: "tun ex_held = ex_tun" "swod_enabled (Some ex_held)"
proof -
  have "tun ex_init = ex_tun"
    using init_cases[OF ex_init_ok]
    by (auto simp: ex_dcc_def swod_init_tun_def swod_init_formation_def dflt_def ex_tun_def swod_consts)
  then show "tun ex_held = ex_tun" by (simp add: ex_held_def f2fs_swod_refresh_around_locked_def)
  then show "swod_enabled (Some ex_held)" by (simp add: swod_enabled_def ex_sw_some ex_tun_def)
qed

section \<open>The promises of the component\<close>

text \<open>
  C17. Whatever sequence of SWOD entry points runs after a successful initialisation on
  zeroed arrays, whatever the clock, the segment entries, the tunables and the commands
  are between them: every window lies inside its group, the hold, park and WCE bitmaps
  are exactly the windows of the held, parked and eligible groups, and the three counters
  count those groups.
\<close>

theorem swod_runs_keep_invariant:
  assumes "f2fs_swod_init sbi al (Some d) = (Some d', None)" "swod d = None" "zeroed al"
    and "reach swod_step swod_enabled_ev d' s"
  shows "\<forall>sw. swod s = Some sw \<longrightarrow> swod_inv sw"
  using swodm.reach_inv[OF assms(4) init_inv[OF assms(1-3)]] by (simp add: dcc_swod_inv_def)

theorem swod_runs_keep_invariant_witness:
  "swod ex_held = Some ex_sw \<and> swod_inv ex_sw \<and> is_held (grp_hint ex_sw 0)"
  using swod_runs_keep_invariant[OF ex_init_ok ex_zeroed ex_held_reach(2)] ex_sw_some ex_sw_held by simp

text \<open>
  C18. From initialisation on zeroed arrays and while the tunables stay as they are, never more groups are held than
  \<open>swod_max_held_groups\<close> and never more parked than the park budget, and no operation
  writes a group hint beyond \<open>nr_groups\<close> or a bitmap bit beyond \<open>nr_main_segs\<close>. (The code takes the arrays from
  \<open>f2fs_kmalloc\<close>, which does not clear them; on arrays with other contents the limits need not hold.)
\<close>

theorem swod_runs_within_limits:
  assumes "f2fs_swod_init sbi al (Some d) = (Some d', None)" "swod d = None" "zeroed al"
    and "reach swod_step fixed_ev d' s" "swod s = Some sw"
  shows "nr_held_groups sw \<le> swod_max_held_groups (tun s) \<and> nr_parked_groups sw \<le> swod_park_budget (tun s) \<and>
    (nr_groups sw \<le> i \<longrightarrow> grp_hint sw i = group_cleared 0) \<and>
    (nr_main_segs sw \<le> j \<longrightarrow> \<not> hold_segmap sw j \<and> \<not> park_segmap sw j \<and> \<not> wce_segmap sw j)"
proof -
  define sw0 where "sw0 = swod_new_ctrl sbi (swod_init_tun sbi (tun d)) al"
  have d': "swod d' = Some sw0" using init_ctrl[OF assms(1,2)] by (simp add: sw0_def)
  have "dcc_moves d' s" using swodl.reach_rel[OF assms(4) init_inv[OF assms(1-3)]] .
  then have m: "moves (tun s) sw0 sw" and t: "tun s = tun d'"
    using d' assms(5) by (simp_all add: dcc_moves_def)
  have z: "nr_held_groups sw0 = 0" "nr_parked_groups sw0 = 0" "grp_hint sw0 = (\<lambda>_. group_cleared 0)"
    "hold_segmap sw0 = (\<lambda>_. False)" "park_segmap sw0 = (\<lambda>_. False)" "wce_segmap sw0 = (\<lambda>_. False)"
    using assms(3) by (simp_all add: sw0_def swod_new_ctrl_def zeroed_def)
  have "nr_held_groups sw \<le> swod_max_held_groups (tun s)" "nr_parked_groups sw \<le> swod_park_budget (tun s)"
    using m z by (simp_all add: moves_def within_limits_def)
  moreover have "nr_groups sw \<le> i \<Longrightarrow> grp_hint sw i = group_cleared 0"
    "nr_main_segs sw \<le> j \<Longrightarrow> \<not> hold_segmap sw j \<and> \<not> park_segmap sw j \<and> \<not> wce_segmap sw j"
    using m z by (simp_all add: moves_def same_outside_def inv_from_def)
  ultimately show ?thesis by blast
qed

theorem swod_runs_within_limits_witness:
  "nr_held_groups ex_sw = 2 \<and> nr_held_groups ex_sw \<le> 64 \<and> nr_parked_groups ex_sw \<le> 32 \<and>
   grp_hint ex_sw 2 = group_cleared 0 \<and> \<not> hold_segmap ex_sw 4"
  using swod_runs_within_limits[OF ex_init_ok ex_zeroed ex_held_reach(1) ex_sw_some, of 2 4]
  by (simp add: ex_held_tun ex_sw_held ex_sw_dims swod_park_budget_def ex_tun_def)

text \<open>
  C31. A command that is not marked is held back by \<open>f2fs_swod_should_skip_locked\<close> only
  if it is still pending and some group of its range has an active, unexpired, not yet
  complete window that meets the segments of the command and is not a bypass window.
\<close>

theorem swod_skip_sound:
  assumes "swod dcc = Some sw" "swod_inv sw" "GET_SEGNO sbi (eend dc - 1) < nr_main_segs sw"
    and "\<not> swod_skip dc" "fst (f2fs_swod_should_skip_locked sbi dcc dc now)"
  shows "dc_state dc = D_PREP \<and>
    (\<exists>gid < nr_groups sw. skip_reason sbi sw now (GET_SEGNO sbi (lstart dc)) (GET_SEGNO sbi (eend dc - 1)) gid)"
proof -
  define sw1 where "sw1 = sw\<lparr>stats := (stats sw)\<lparr>skip_check_cnt := skip_check_cnt (stats sw) + 1\<rparr>\<rparr>"
  let ?s0 = "GET_SEGNO sbi (lstart dc)" and ?s1 = "GET_SEGNO sbi (eend dc - 1)"
  have prep: "dc_state dc = D_PREP"
    and skip: "fst (skip_loop sbi (tun dcc) now ?s0 ?s1 [swod_gid sw1 ?s0..<Suc (swod_gid sw1 ?s1)] False sw1)"
    using assms unfolding f2fs_swod_should_skip_locked_def should_skip_def Let_def sw1_def
    by (auto split: if_splits)
  have inv: "swod_inv sw1" and dims: "same_dims sw sw1" using assms(2) by (simp_all add: sw1_def)
  have g1: "swod_gid sw1 ?s1 < nr_groups sw1"
    using gid_less[OF swod_inv_dims[OF inv]] assms(3) by (simp add: sw1_def)
  have "\<exists>gid \<in> set [swod_gid sw1 ?s0..<Suc (swod_gid sw1 ?s1)]. skip_reason sbi sw1 now ?s0 ?s1 gid"
    by (rule skip_loop_sound[OF inv _ _ skip]) (use g1 in \<open>auto simp del: upt_Suc\<close>)
  then obtain gid where gid: "gid < Suc (swod_gid sw1 ?s1)" "skip_reason sbi sw1 now ?s0 ?s1 gid"
    unfolding set_upt by auto
  moreover from gid(1) g1 have "gid < nr_groups sw1" by linarith
  ultimately have "gid < nr_groups sw1" "skip_reason sbi sw1 now ?s0 ?s1 gid" by blast+
  then show ?thesis using prep skip_reason_cong[OF dims, of gid] by (auto simp: sw1_def)
qed

theorem swod_skip_sound_witness:
  "\<exists>gid < 2. skip_reason ex_sbi ex_sw 1000 0 0 gid"
proof -
  have "fst (f2fs_swod_should_skip_locked ex_sbi ex_held (ex_cmd 2560 472) 1000)" by code_simp
  from swod_skip_sound[OF ex_sw_some ex_sw_inv _ _ this] show ?thesis
    using ex_skip_facts by (simp add: ex_sw_dims ex_cmd_def)
qed

text \<open>
  C32. While SWOD is enabled, after \<open>f2fs_swod_sweep_timeout\<close> on a consistent controller no group is held whose
  deadline has passed. With \<open>swod_enable\<close> off the function returns at once.
\<close>

theorem swod_sweep_no_expired_hold:
  assumes "swod_enabled (Some dcc)" "swod dcc = Some sw" "swod_inv sw"
    and "swod (f2fs_swod_sweep_timeout sbi dcc now) = Some sw'" "gid < nr_groups sw'" "is_held (grp_hint sw' gid)"
  shows "\<not> time_after_eq now (hold_until (grp_hint sw' gid))"
proof -
  have sw': "sw' = sweep_timeout sbi (tun dcc) sw now"
    using assms by (simp add: f2fs_swod_sweep_timeout_def)
  have n: "nr_groups sw' = nr_groups sw"
    using sweep_timeout_inv[OF assms(3)] by (simp add: sw' inv_from_def)
  show ?thesis
  proof (cases "nr_held_groups sw = 0")
    case True
    then show ?thesis
      using swod_inv_countsD(1)[OF assms(3)] assms(5,6) n by (fastforce simp: sw' sweep_timeout_def)
  next
    case False
    then show ?thesis using sweep_all_alive assms(5,6) n by (simp add: sw' sweep_timeout_def)
  qed
qed

theorem swod_sweep_no_expired_hold_witness:
  "\<not> time_after_eq 1001 (hold_until (grp_hint (the (swod (f2fs_swod_sweep_timeout ex_sbi ex_held 1001))) 0))"
proof -
  let ?s = "the (swod (f2fs_swod_sweep_timeout ex_sbi ex_held 1001))"
  have some: "swod (f2fs_swod_sweep_timeout ex_sbi ex_held 1001) = Some ?s"
    using ex_held_tun(2) by (simp add: f2fs_swod_sweep_timeout_def ex_sw_some)
  have "is_held (grp_hint ?s 0)" by code_simp
  moreover have "0 < nr_groups ?s"
    using sweep_timeout_inv[OF ex_sw_inv] ex_held_tun(2) ex_sw_dims
    by (simp add: f2fs_swod_sweep_timeout_def ex_sw_some inv_from_def)
  ultimately show ?thesis
    using swod_sweep_no_expired_hold[OF ex_held_tun(2) ex_sw_some ex_sw_inv some] by blast
qed

text \<open>
  \<open>f2fs_swod_release_all\<close> leaves no window at all: every group is normal, the three
  counters are zero and the three bitmaps are empty.
\<close>

theorem swod_release_all_clears:
  assumes "swod_enabled (Some dcc)" "swod dcc = Some sw" "swod_inv sw"
    and "swod (f2fs_swod_release_all sbi dcc why) = Some sw'"
  shows "(\<forall>gid < nr_groups sw'. \<not> swod_group_is_active (grp_hint sw' gid)) \<and>
    nr_held_groups sw' = 0 \<and> nr_parked_groups sw' = 0 \<and> nr_wce_groups sw' = 0 \<and>
    (\<forall>s < nr_main_segs sw'. \<not> hold_segmap sw' s \<and> \<not> park_segmap sw' s \<and> \<not> wce_segmap sw' s)"
proof -
  have sw': "sw' = release_all_locked sbi sw why"
    using assms by (simp add: f2fs_swod_release_all_def)
  note inv = release_all_inv[OF assms(3), of sbi why, folded sw', unfolded inv_from_def]
  have idle: "\<forall>gid < nr_groups sw'. \<not> swod_group_is_active (grp_hint sw' gid)"
    using release_all_normal[OF assms(3)] inv by (simp add: sw')
  with swod_inv_idle[of sw'] inv show ?thesis by blast
qed

theorem swod_release_all_clears_witness:
  "nr_held_groups ex_sw = 2 \<and>
   nr_held_groups (the (swod (f2fs_swod_release_all ex_sbi ex_held SWOD_REL_PRESSURE))) = 0"
  using swod_release_all_clears[OF ex_held_tun(2) ex_sw_some ex_sw_inv, of ex_sbi SWOD_REL_PRESSURE
      "the (swod (f2fs_swod_release_all ex_sbi ex_held SWOD_REL_PRESSURE))"]
    ex_held_tun(2) ex_sw_held(1)
  by (simp add: f2fs_swod_release_all_def ex_sw_some)

text \<open>
  The lookups that GC and the write path ask answer from the windows: a range is held
  iff it contains a main-area segment in the window of a held group, and a WCE target iff
  it contains one in the window of a held or parked group.
\<close>

theorem swod_lookups_spec:
  assumes "swod dcc = Some sw" "swod_inv sw" "swod_enable (tun dcc) \<noteq> 0"
  shows "(f2fs_swod_range_held dcc segno n \<longleftrightarrow>
      (\<exists>s. segno \<le> s \<and> s < segno + n \<and> s < nr_main_segs sw \<and> is_held (seg_grp sw s) \<and> seg_in_win sw s)) \<and>
    (f2fs_swod_range_wce_target dcc segno n \<longleftrightarrow>
      (\<exists>s. segno \<le> s \<and> s < segno + n \<and> s < nr_main_segs sw \<and>
           swod_group_is_active (seg_grp sw s) \<and> seg_in_win sw s))"
  using assms range_held_spec[OF assms(2)] range_wce_target_spec[OF assms(2)]
  by (simp_all add: f2fs_swod_range_held_def f2fs_swod_range_wce_target_def on_swod_def seg_held_def seg_targeted_def)

theorem swod_lookups_spec_witness:
  "\<exists>s. s < 1 \<and> is_held (seg_grp ex_sw s) \<and> seg_in_win ex_sw s"
proof -
  have "f2fs_swod_range_held ex_held 0 1" by code_simp
  with swod_lookups_spec[OF ex_sw_some ex_sw_inv, of 0 1] ex_held_tun show ?thesis
    by (auto simp: ex_tun_def)
qed

text \<open>
  C33. Rebuilding the groups \<open>gid0..gid1\<close> recomputes the hints from the discard tree: each
  segment of the range then counts the blocks and the pieces that the pending (\<open>D_PREP\<close>)
  commands have inside that segment (as 32-bit counters).
\<close>

theorem swod_rebuild_recounts:
  assumes "geom_ok sbi" "swod_dims sw" "nr_main_segs sw = main_segments sbi" "disjoint_sorted (root dcc)"
    and "gid0 \<le> gid1" "swod_group_first_seg sw gid0 \<le> s" "s < nr_main_segs sw"
      "s < swod_group_first_seg sw gid1 + win_segs sw"
  shows "pend_blks (seg_hint (swod_rebuild_groups_locked sbi dcc sw gid0 gid1) s) =
           u32 (pending_in_seg sbi (root dcc) s) \<and>
    nr_cmds (seg_hint (swod_rebuild_groups_locked sbi dcc sw gid0 gid1) s) =
           u32 (cmds_in_seg sbi (root dcc) s)"
  using rebuild_groups_spec[OF assms(1-4,6-8,5)] by simp_all

theorem swod_rebuild_recounts_witness:
  "pend_blks (seg_hint (swod_rebuild_groups_locked ex_sbi ex_held ex_sw 0 1) 1) = u32 (pending_in_seg ex_sbi (root ex_held) 1) \<and>
   pending_in_seg ex_sbi (root ex_held) 1 = 472"
proof -
  have r: "root ex_held = [ex_cmd 2560 472, ex_cmd 3072 472]"
    using init_cases[OF ex_init_ok] by (simp add: ex_held_def f2fs_swod_refresh_around_locked_def
        ex_init_def f2fs_swod_init_def ex_dcc_def ex_al_def Let_def)
  have ds: "disjoint_sorted (root ex_held)"
    by (simp add: r disjoint_sorted_def ex_cmd_def eend_def)
  have w: "win_segs ex_sw \<noteq> 0" using ex_sw_inv by (simp add: swod_inv_def swod_dims_def)
  have m: "nr_main_segs ex_sw = main_segments ex_sbi" by (simp add: ex_sw_dims ex_sbi_def)
  have "pending_in_seg ex_sbi (root ex_held) 1 = 472" unfolding r by code_simp
  with swod_rebuild_recounts[OF ex_geom swod_inv_dims[OF ex_sw_inv] m ds, of 0 1 1] w show ?thesis
    by (simp add: swod_group_first_seg_def ex_sw_dims)
qed

text \<open>
  The loop that cuts a block range at segment borders ends within \<open>hi - lo\<close> rounds
  inside the main area, and its pieces are the intersections of the range with the
  segments, one piece per segment met and none for the others.
\<close>

theorem seg_pieces_terminates:
  assumes "geom_ok sbi" "main_start sbi \<le> lo" "hi \<le> main_end sbi"
  shows "\<exists>ps. seg_pieces sbi (hi - lo) lo hi = Some ps \<and> cut_ok sbi lo hi ps"
  using seg_pieces_total[OF assms] by simp

theorem seg_pieces_terminates_witness:
  "\<exists>ps. seg_pieces ex_sbi 500 3000 3500 = Some ps \<and> cut_ok ex_sbi 3000 3500 ps"
  using seg_pieces_terminates[OF ex_geom, of 3000 3500] by (simp add: main_start_def main_end_def ex_sbi_def)

text \<open>
  The times of the windows: a completion hold lies between \<open>swod_hold_min_ms\<close> and
  \<open>swod_hold_max_ms\<close> whatever the 32-bit intermediate results are, a short hold lies in
  the interval from its minimum to its maximum without the maximum itself, a park time
  between 500 and 2000 milliseconds.
\<close>

theorem swod_times_in_range:
  assumes "swod_hold_min_ms t \<le> swod_hold_max_ms t"
    and "swod_short_hold_min_ms t < swod_short_hold_max_ms t" "swod_short_hold_max_ms t < 2 ^ 32"
  shows "swod_hold_min_ms t \<le> swod_calc_hold_ms t n q l \<and> swod_calc_hold_ms t n q l \<le> swod_hold_max_ms t \<and>
    swod_short_hold_min_ms t \<le> swod_calc_short_hold_ms sbi t \<and>
    swod_calc_short_hold_ms sbi t < swod_short_hold_max_ms t \<and>
    500 \<le> swod_calc_park_ms t n q l \<and> swod_calc_park_ms t n q l \<le> 2000"
proof -
  have hold: "swod_hold_min_ms t \<le> swod_calc_hold_ms t n q l \<and> swod_calc_hold_ms t n q l \<le> swod_hold_max_ms t"
    using assms(1) by (simp add: swod_calc_hold_ms_def Let_def)
  let ?lo = "swod_short_hold_min_ms t" and ?hi = "swod_short_hold_max_ms t"
  let ?r = "get_random_u32 sbi mod (?hi - ?lo)"
  have "?r < ?hi - ?lo" using assms(2) by simp
  with assms(2) have "?lo + ?r < ?hi" by linarith
  moreover from this assms(3) have "u32 (?lo + ?r) = ?lo + ?r" by (simp add: u32_id)
  ultimately have short: "?lo \<le> swod_calc_short_hold_ms sbi t \<and> swod_calc_short_hold_ms sbi t < ?hi"
    using assms(2) by (simp add: swod_calc_short_hold_ms_def Let_def sub32_le)
  have "500 \<le> swod_calc_park_ms t n q l \<and> swod_calc_park_ms t n q l \<le> 2000"
    by (simp add: swod_calc_park_ms_def Let_def swod_consts)
  with hold short show ?thesis by blast
qed

theorem swod_times_in_range_witness:
  "50 \<le> swod_calc_hold_ms ex_tun 2 9000 500 \<and> swod_calc_hold_ms ex_tun 2 9000 500 \<le> 300 \<and>
   1 \<le> swod_calc_short_hold_ms ex_sbi ex_tun \<and> swod_calc_short_hold_ms ex_sbi ex_tun < 10"
  using swod_times_in_range[of ex_tun 2 9000 500 ex_sbi] by (simp add: ex_tun_def)

text \<open>
  C34. After a group was evaluated it is active only if the regime allows holding, and
  then its window is no longer than the GC mode allows (one segment in urgent-high, two in
  urgent-low mode): a window that was held before the mode changed is given up.
\<close>

theorem swod_eval_respects_gc_mode:
  assumes "swod_inv sw" "gid < nr_groups sw"
    and "swod_group_is_active (grp_hint (swod_eval_group_locked sbi dcc sw gid now) gid)"
  shows "\<not> swod_regime_blocked sbi dcc None \<and>
    hold_len (grp_hint (swod_eval_group_locked sbi dcc sw gid now) gid) \<le>
      (case sb_gc_mode sbi of GC_URGENT_HIGH \<Rightarrow> 1 | GC_URGENT_LOW \<Rightarrow> 2 | _ \<Rightarrow> win_segs sw)"
proof -
  have nb: "\<not> swod_regime_blocked sbi dcc None" using eval_group_len(1)[OF assms] .
  have "swod_max_hold_len sbi sw gid \<le>
      (case sb_gc_mode sbi of GC_URGENT_HIGH \<Rightarrow> 1 | GC_URGENT_LOW \<Rightarrow> 2 | _ \<Rightarrow> win_segs sw)"
    by (cases "sb_gc_mode sbi") (auto simp: swod_max_hold_len_def swod_group_nsegs_def Let_def)
  with eval_group_len(2)[OF assms] nb show ?thesis by linarith
qed

theorem swod_eval_respects_gc_mode_witness:
  "hold_len (grp_hint (swod_eval_group_locked (ex_sbi\<lparr>sb_gc_mode := GC_URGENT_HIGH\<rparr>) ex_init
     (the (swod ex_init)) 0 1000) 0) \<le> 1"
proof -
  have sw: "swod ex_init = Some (the (swod ex_init))" using init_ctrl[OF ex_init_ok] by simp
  have inv: "swod_inv (the (swod ex_init))" using ex_inv sw unfolding dcc_swod_inv_def by blast
  have "nr_groups (the (swod ex_init)) = 2"
    using init_ctrl[OF ex_init_ok]
    by (simp add: swod_new_ctrl_def MAIN_SEGS_def ex_sbi_def swod_init_tun_def ex_dcc_def ex_tun_def dflt_def swod_consts)
  moreover have "swod_group_is_active (grp_hint (swod_eval_group_locked (ex_sbi\<lparr>sb_gc_mode := GC_URGENT_HIGH\<rparr>) ex_init
     (the (swod ex_init)) 0 1000) 0)" by code_simp
  ultimately show ?thesis
    using swod_eval_respects_gc_mode[OF inv, of 0 "ex_sbi\<lparr>sb_gc_mode := GC_URGENT_HIGH\<rparr>"] by simp
qed

end
