(* ===== verification/Swod_Findings.thy ===== *)
theory Swod_Findings
  imports Swod_Props
begin

text \<open>
  Where the SWOD code does not do what it means to do: the evaluation work that never
  evaluates, arrays that are not zeroed, a score computed from uninitialised locals, a
  unit error in the fragment test, a sweep that forgets parked windows and a teardown
  that leaves the work queued.
\<close>

section \<open>Helper lemmas\<close>

lemma feat_avg_piece:
  assumes "swod_build_window_feat sbi sw first off len = (q, l, n, a, p)" "0 < n" "n \<le> p" "p < 6 * n" "n < 65535"
  shows "10000 \<le> a"
proof -
  define m where "m = fold (\<lambda>s acc. u32 (acc + nr_cmds (seg_hint sw s))) [first + off..<first + off + len] 0"
  have n: "n = min m 65535" and a: "m \<noteq> 0 \<Longrightarrow> a = min 65535 (u16 (p * 10000 div m))"
    using assms(1) by (auto simp: swod_build_window_feat_def Let_def m_def swod_consts)
  then have m: "m = n" using assms(5) by simp
  have "p * 10000 div n < 60000" using assms(2,4) by (simp add: less_mult_imp_div_less)
  moreover have "10000 * n div n \<le> p * 10000 div n" using assms(3) by (intro div_le_mono) simp
  ultimately show ?thesis using a m assms(2) by (simp add: u16_def)
qed

definition ex_sw0 :: swod_ctrl where
  "ex_sw0 = the (swod ex_init)"

text \<open>Arrays with the contents of freed memory: group 0 looks held, but no bit and no count says so.\<close>

definition ex_garbage :: swod_allocs where
  "ex_garbage = ex_al\<lparr>a_grp_hint := Kmalloc (\<lambda>_. (group_cleared 0)\<lparr>g_state := SWOD_G_HELD, hold_len := 1\<rparr>)\<rparr>"

text \<open>The held windows of the example after their deadline: both are parked.\<close>

definition ex_parked :: discard_cmd_control where
  "ex_parked = ex_held\<lparr>swod := Some (swod_release_group_locked ex_sbi ex_tun
     (swod_release_group_locked ex_sbi ex_tun ex_sw 1 SWOD_REL_TIMEOUT) 0 SWOD_REL_TIMEOUT)\<rparr>"

section \<open>Findings\<close>

text \<open>
  C36. In the program as it is called, SWOD holds nothing: from initialisation on zeroed arrays, along
  every run of command creation, queued, started and executed evaluation work, releases, sweeps, write-path queries and
  tuning in which no request to queue the work falls between the moment a worker takes it (which clears its pending bit) and its
  test of \<open>eval_running\<close>, there is no held group, no WCE target for GC and no in-place update for
  fragments. A work item that is executed only sets \<open>eval_running\<close>, and once that is set, \<open>f2fs_swod_queue_eval\<close> does not
  queue the work again. The test of \<open>f2fs_swod_eval_work\<close> on the result of \<open>atomic_cmpxchg\<close> is inverted, and the other
  callers of the evaluation are commented out; only a request inside that short window would make a later run evaluate.
\<close>

theorem swod_never_holds:
  assumes "f2fs_swod_init sbi al (Some d) = (Some d', None)" "swod d = None" "zeroed al"
    and "reach live_step undisturbed (False, d') (w, s)"
  shows "\<not> f2fs_swod_has_held s \<and> \<not> f2fs_swod_has_wce_target s \<and>
    \<not> fst (f2fs_swod_should_frag_ipu sbi' s inode blk) \<and>
    (w \<and> swod s = Some sw \<and> swod_enabled (Some s) \<longrightarrow> f2fs_swod_eval_work sbi' s = s\<lparr>swod := Some (sw\<lparr>eval_running := 1\<rparr>)\<rparr>) \<and>
    (swod s = Some sw \<and> eval_running sw \<noteq> 0 \<longrightarrow> eval_pending sw = None \<and> f2fs_swod_queue_eval s = s)"
proof -
  have "live_inv (False, d')" using new_ctrl_live[OF assms(3) init_ctrl[OF assms(1,2)]] .
  from livem.reach_inv[OF assms(4) this] have s: "live_inv (w, s)" .
  have "eval_pending sw = None \<and> f2fs_swod_queue_eval s = s" if "swod s = Some sw" "eval_running sw \<noteq> 0"
    using s that by (simp add: live_inv_def ctrl_live_def never_evaluates_def f2fs_swod_queue_eval_def)
  moreover have "f2fs_swod_eval_work sbi' s = s\<lparr>swod := Some (sw\<lparr>eval_running := 1\<rparr>)\<rparr>" if w "swod s = Some sw" "swod_enabled (Some s)"
    using run_idle[of s sw sbi'] s that by simp
  ultimately show ?thesis using live_no_target[OF s] by blast
qed

text \<open>The work is queued, taken and executed.\<close>

definition ex_ran :: discard_cmd_control where
  "ex_ran = snd (live_step (ex_sbi, Lv_run) (live_step (ex_sbi, Lv_start) (live_step (ex_sbi, Lv_queue) (False, ex_init))))"

theorem swod_never_holds_witness:
  "\<not> f2fs_swod_has_held ex_ran \<and> eval_running (the (swod ex_ran)) = 1 \<and> f2fs_swod_queue_eval ex_ran = ex_ran"
proof -
  let ?q = "live_step (ex_sbi, Lv_queue) (False, ex_init)"
  have q: "reach live_step undisturbed (False, ex_init) ?q" by (rule reach_step[OF reach_start]) simp
  have st: "reach live_step undisturbed (False, ex_init) (live_step (ex_sbi, Lv_start) ?q)" by (rule reach_step[OF q]) simp
  have r: "reach live_step undisturbed (False, ex_init) (live_step (ex_sbi, Lv_run) (live_step (ex_sbi, Lv_start) ?q))"
    by (rule reach_step[OF st]) (simp add: start_work_def split: option.split)
  then have f: "reach live_step undisturbed (False, ex_init) (fst (live_step (ex_sbi, Lv_run) (live_step (ex_sbi, Lv_start) ?q)), ex_ran)"
    by (simp only: ex_ran_def prod.collapse)
  have e: "eval_running (the (swod ex_ran)) = 1" "swod ex_ran \<noteq> None" by code_simp+
  then obtain sw where "swod ex_ran = Some sw" by blast
  then show ?thesis using swod_never_holds[OF ex_init_ok ex_zeroed f, where sw = sw] e by simp
qed

text \<open>
  \<open>f2fs_swod_init\<close> takes its arrays from \<open>f2fs_kmalloc\<close>, which does not clear them:
  initialisation can succeed in a state where a group counts as held that no counter and no
  bitmap knows of, so that the invariant does not hold.
\<close>

theorem swod_init_unzeroed:
  "\<exists>al d' sw. f2fs_swod_init ex_sbi al (Some ex_dcc) = (Some d', None) \<and> swod d' = Some sw \<and>
     is_held (grp_hint sw 0) \<and> nr_held_groups sw = 0 \<and> \<not> swod_inv sw"
proof (intro exI conjI)
  let ?t = "swod_init_tun ex_sbi ex_tun"
  let ?sw = "swod_new_ctrl ex_sbi ?t ex_garbage"
  show "f2fs_swod_init ex_sbi ex_garbage (Some ex_dcc) =
      (Some (ex_dcc\<lparr>tun := swod_init_formation ?t, swod := Some ?sw\<rparr>), None)"
    by (simp add: f2fs_swod_init_def ex_garbage_def ex_al_def ex_dcc_def Let_def)
  show "swod (ex_dcc\<lparr>tun := swod_init_formation ?t, swod := Some ?sw\<rparr>) = Some ?sw" by simp
  show held: "is_held (grp_hint ?sw 0)" and none: "nr_held_groups ?sw = 0"
    by (simp_all add: swod_new_ctrl_def ex_garbage_def ex_al_def is_held_def)
  have "0 < nr_groups ?sw"
    by (simp add: swod_new_ctrl_def MAIN_SEGS_def ex_sbi_def swod_init_tun_def ex_tun_def dflt_def swod_consts)
  with swod_inv_countsD(1)[of ?sw 0] held none show "\<not> swod_inv ?sw" by auto
qed

text \<open>
  \<open>swod_eval_group_locked\<close> reads its locals \<open>qbp\<close> and \<open>lbp\<close> without having set them,
  so the stack decides what is held: on the same volume and the same commands, one stack
  makes the evaluation hold a group that has no pending discard at all, and another stack
  makes it hold nothing.
\<close>

theorem swod_eval_reads_stack:
  "\<exists>junk junk'.
     pend_blks (seg_hint ex_sw0 2) = 0 \<and> pend_blks (seg_hint ex_sw0 3) = 0 \<and>
     is_held (grp_hint (swod_eval_group_locked (ex_sbi\<lparr>stack_junk := junk\<rparr>) ex_init ex_sw0 1 1000) 1) \<and>
     \<not> is_held (grp_hint (swod_eval_group_locked (ex_sbi\<lparr>stack_junk := junk'\<rparr>) ex_init ex_sw0 1 1000) 1)"
proof (intro exI conjI)
  show "pend_blks (seg_hint ex_sw0 2) = 0" "pend_blks (seg_hint ex_sw0 3) = 0" by code_simp+
  show "is_held (grp_hint (swod_eval_group_locked (ex_sbi\<lparr>stack_junk := \<lambda>_ _ _. (9000, 500)\<rparr>) ex_init ex_sw0 1 1000) 1)"
    by code_simp
  show "\<not> is_held (grp_hint (swod_eval_group_locked (ex_sbi\<lparr>stack_junk := \<lambda>_ _ _. (0, 0)\<rparr>) ex_init ex_sw0 1 1000) 1)"
    by code_simp
qed

text \<open>
  The fragment test of the short hold compares an average piece in 1/10000 blocks with a
  limit in blocks: a window of fewer than 65535 commands that average between one and six
  blocks, far below the default limit of 16 blocks, is never a short-hold candidate while
  the limit is below 10000.
\<close>

theorem swod_short_hold_misses_fragments:
  assumes "\<not> swod_group_is_active (grp_hint sw gid)" "swod_frag_max_avg_piece_blks t < 10000"
    and "swod_build_window_feat sbi sw (swod_group_first_seg sw gid) off len = (q, l, n, a, p)"
      "0 < n" "n \<le> p" "p < 6 * n" "n < 65535"
  shows "fst (eval_window sbi t sw gid off len oldest bests) = fst bests"
  using assms(2) feat_avg_piece[OF assms(3-7)] by (simp add: eval_window_def Let_def assms(3))

theorem swod_short_hold_misses_fragments_witness:
  "fst (eval_window ex_sbi ex_tun (ex_sw0\<lparr>seg_hint := \<lambda>_. \<lparr>pend_blks = 64, nr_cmds = 16, oldest_jiffies = 900\<rparr>\<rparr>)
     0 0 1 900 (best_init, best_init)) = best_init"
proof -
  let ?sw = "ex_sw0\<lparr>seg_hint := \<lambda>_. \<lparr>pend_blks = 64, nr_cmds = 16, oldest_jiffies = 900\<rparr>\<rparr>"
  have feat: "swod_build_window_feat ex_sbi ?sw (swod_group_first_seg ?sw 0) 0 1 = (1250, 781, 16, 40000, 64)"
    by code_simp
  have "\<not> swod_group_is_active (grp_hint ?sw 0)"
    using init_ctrl[OF ex_init_ok] ex_zeroed by (simp add: ex_sw0_def swod_new_ctrl_def zeroed_def)
  from swod_short_hold_misses_fragments[OF this _ feat, of ex_tun 900 "(best_init, best_init)"]
  show ?thesis by (simp add: ex_tun_def)
qed

text \<open>
  The sweep looks only at the number of held groups before it starts: once every held
  window has been parked, \<open>f2fs_swod_sweep_timeout\<close> changes nothing any more, however long
  ago the parked windows expired.
\<close>

theorem swod_sweep_ignores_parked:
  assumes "swod dcc = Some sw" "nr_held_groups sw = 0"
  shows "f2fs_swod_sweep_timeout sbi dcc now = dcc"
  using assms by (simp add: f2fs_swod_sweep_timeout_def sweep_timeout_def)

theorem swod_sweep_ignores_parked_witness:
  "f2fs_swod_sweep_timeout ex_sbi ex_parked 9000 = ex_parked \<and>
   is_parked (grp_hint (the (swod ex_parked)) 0) \<and>
   time_after_eq 9000 (park_until (grp_hint (the (swod ex_parked)) 0))"
proof -
  have "nr_held_groups (the (swod ex_parked)) = 0" by code_simp
  moreover have "is_parked (grp_hint (the (swod ex_parked)) 0)" by code_simp
  moreover have "time_after_eq 9000 (park_until (grp_hint (the (swod ex_parked)) 0))" by code_simp
  ultimately show ?thesis
    using swod_sweep_ignores_parked[of ex_parked "the (swod ex_parked)" ex_sbi 9000] by (simp add: ex_parked_def)
qed

text \<open>
  \<open>f2fs_swod_destroy\<close> cancels the evaluation work only while SWOD is enabled: when it
  was switched off through sysfs after the work was queued, the controller is freed with
  the work still pending on it.
\<close>

theorem swod_destroy_leaves_work:
  assumes "swod d = Some sw" "swod_enable (tun d) = 0"
  shows "f2fs_swod_destroy (Some d) = (Some (d\<lparr>swod := None\<rparr>), eval_pending sw)"
  using assms by (simp add: f2fs_swod_destroy_def f2fs_swod_cancel_eval_def swod_enabled_def)

theorem swod_destroy_leaves_work_witness:
  "snd (f2fs_swod_destroy (Some ((f2fs_swod_queue_eval ex_init)\<lparr>tun := ex_tun\<lparr>swod_enable := 0\<rparr>\<rparr>))) = Some 100"
proof -
  let ?d = "(f2fs_swod_queue_eval ex_init)\<lparr>tun := ex_tun\<lparr>swod_enable := 0\<rparr>\<rparr>"
  have "eval_pending (the (swod ?d)) = Some 100" by code_simp
  moreover have "swod ?d = Some (the (swod ?d))"
    using init_ctrl[OF ex_init_ok] by (simp add: f2fs_swod_queue_eval_def)
  ultimately show ?thesis using swod_destroy_leaves_work[of ?d "the (swod ?d)"] by simp
qed

end
