(* ===== verification/Discard.thy ===== *)
theory Discard
  imports Swod_Api
begin

text \<open>
  The discard commands of \<open>segment.c\<close>: creating, merging, punching, submitting, waiting for
  and dropping commands. The tree is the in-order list \<open>root\<close>; pointers to commands are
  their addresses \<open>dc_id\<close>; the lists hold addresses. The operations run under \<open>cmd_lock\<close>,
  and completions of bios happen between them. Block addresses are natural numbers (the
  volume has fewer than \<open>2 ^ 32\<close> blocks); the block counter wraps like the 32-bit field it is.
\<close>

section \<open>Environment\<close>

text \<open>
  What the block layer, the clock and the I/O monitor decide: the discard limit of a device
  in sectors, whether a device supports discard and where it starts, the error of
  issuing a range (0 for success; fault injection included), the error a completed bio
  carries, whether the device is idle and whether the umount timeout is over when a
  command is looked at.
\<close>

record dev_env =
  max_sectors :: "nat \<Rightarrow> nat"
  support_discard :: "nat \<Rightarrow> bool"
  dev_start_blk :: "nat \<Rightarrow> nat"        \<comment> \<open>\<open>FDEV(f2fs_target_device_index(blk)).start_blk\<close>; 0 with one device\<close>
  issue_err :: "nat \<Rightarrow> nat \<Rightarrow> int"     \<comment> \<open>by start and length\<close>
  bio_err :: "nat \<Rightarrow> int"              \<comment> \<open>by command\<close>
  is_idle :: "nat \<Rightarrow> bool"             \<comment> \<open>by command\<close>
  umount_time_over :: "nat \<Rightarrow> bool"    \<comment> \<open>by pending list\<close>
  umount_time_over_cmd :: "nat \<Rightarrow> bool"  \<comment> \<open>by command\<close>
  ktime :: nat

definition MAX_PLIST_NUM :: nat where "MAX_PLIST_NUM = 512"
definition DEFAULT_DISCARD_GRANULARITY :: nat where "DEFAULT_DISCARD_GRANULARITY = 16"
definition DEF_MIN_DISCARD_ISSUE_TIME :: nat where "DEF_MIN_DISCARD_ISSUE_TIME = 50"
definition DEF_MID_DISCARD_ISSUE_TIME :: nat where "DEF_MID_DISCARD_ISSUE_TIME = 500"
definition DEF_MAX_DISCARD_ISSUE_TIME :: nat where "DEF_MAX_DISCARD_ISSUE_TIME = 60000"

definition plist_idx :: "nat \<Rightarrow> nat" where
  "plist_idx blk_num = (if blk_num \<ge> MAX_PLIST_NUM then MAX_PLIST_NUM - 1 else sub32 blk_num 1)"

definition SECTOR_TO_BLOCK :: "nat \<Rightarrow> nat" where
  "SECTOR_TO_BLOCK sectors = sectors div 2 ^ 3"

section \<open>Tree and list primitives\<close>

definition find_dc :: "discard_cmd_control \<Rightarrow> nat \<Rightarrow> discard_cmd option" where
  "find_dc dcc i = find (\<lambda>c. dc_id c = i) (root dcc)"

definition set_dc :: "discard_cmd \<Rightarrow> discard_cmd_control \<Rightarrow> discard_cmd_control" where
  "set_dc dc dcc = dcc\<lparr>root := map (\<lambda>c. if dc_id c = dc_id dc then dc else c) (root dcc)\<rparr>"

fun rb_next_id :: "discard_cmd list \<Rightarrow> nat \<Rightarrow> nat option" where
  "rb_next_id (x # y # ys) i = (if dc_id x = i then Some (dc_id y) else rb_next_id (y # ys) i)"
| "rb_next_id _ i = None"

definition rb_insert :: "discard_cmd \<Rightarrow> discard_cmd list \<Rightarrow> discard_cmd list" where
  "rb_insert new cmds =
     filter (\<lambda>c. lstart c < lstart new) cmds @ new # filter (\<lambda>c. \<not> lstart c < lstart new) cmds"

definition rb_lookup_ret ::
    "discard_cmd list \<Rightarrow> nat \<Rightarrow> discard_cmd option \<times> discard_cmd option \<times> discard_cmd option" where
  "rb_lookup_ret cmds blk = (find (covers blk) cmds, last_before blk cmds, first_after blk cmds)"

definition list_del :: "nat \<Rightarrow> discard_cmd_control \<Rightarrow> discard_cmd_control" where
  "list_del i dcc =
     dcc\<lparr>pend_list := (\<lambda>k. filter (\<lambda>j. j \<noteq> i) (pend_list dcc k)),
         wait_list := filter (\<lambda>j. j \<noteq> i) (wait_list dcc),
         fstrim_list := filter (\<lambda>j. j \<noteq> i) (fstrim_list dcc)\<rparr>"

definition pend_add_tail :: "nat \<Rightarrow> nat \<Rightarrow> discard_cmd_control \<Rightarrow> discard_cmd_control" where
  "pend_add_tail k i dcc = dcc\<lparr>pend_list := (pend_list dcc)(k := pend_list dcc k @ [i])\<rparr>"

definition wait_add_tail :: "dpolicy_type \<Rightarrow> nat \<Rightarrow> discard_cmd_control \<Rightarrow> discard_cmd_control" where
  "wait_add_tail ty i dcc =
     (if ty = DPOLICY_FSTRIM then dcc\<lparr>fstrim_list := fstrim_list dcc @ [i]\<rparr>
      else dcc\<lparr>wait_list := wait_list dcc @ [i]\<rparr>)"

definition is_discard_mergeable :: "'a rb_entry_scheme \<Rightarrow> 'b rb_entry_scheme \<Rightarrow> nat \<Rightarrow> bool" where
  "is_discard_mergeable back front max_len \<longleftrightarrow>
     eend back = lstart front \<and> dlen back + dlen front \<le> max_len"

definition is_discard_back_mergeable :: "'a rb_entry_scheme \<Rightarrow> 'b rb_entry_scheme \<Rightarrow> nat \<Rightarrow> bool" where
  "is_discard_back_mergeable cur back max_len = is_discard_mergeable back cur max_len"

definition is_discard_front_mergeable :: "'a rb_entry_scheme \<Rightarrow> 'b rb_entry_scheme \<Rightarrow> nat \<Rightarrow> bool" where
  "is_discard_front_mergeable cur front max_len = is_discard_mergeable cur front max_len"

section \<open>Segment hints of a command\<close>

text \<open>
  The loops of \<open>__create_discard_cmd\<close> and \<open>__submit_discard_cmd\<close> over the segments of a
  range; they stop at a segment outside the main area. Fuel as in \<open>seg_pieces\<close>.
\<close>

fun hint_pieces :: "f2fs_sb_info \<Rightarrow> nat \<Rightarrow> nat \<Rightarrow> nat \<Rightarrow> nat \<Rightarrow> (nat \<times> nat) list option" where
  "hint_pieces sbi nr 0 cur hi = (if cur < hi then None else Some [])"
| "hint_pieces sbi nr (Suc n) cur hi =
     (if cur < hi then
        (let s = GET_SEGNO sbi cur
         in if s \<ge> nr then Some []
            else (let seg_end = START_BLOCK sbi (s + 1);
                      piece = sub32 (min hi seg_end) cur
                  in map_option (\<lambda>ps. (s, piece) # ps) (hint_pieces sbi nr n (u32 (cur + piece)) hi)))
      else Some [])"

definition hint_pieces_of :: "f2fs_sb_info \<Rightarrow> nat \<Rightarrow> nat \<Rightarrow> nat \<Rightarrow> (nat \<times> nat) list" where
  "hint_pieces_of sbi nr lo hi = (case hint_pieces sbi nr (hi - lo) lo hi of None \<Rightarrow> [] | Some ps \<Rightarrow> ps)"

definition sub_piece :: "nat \<times> nat \<Rightarrow> swod_ctrl \<Rightarrow> swod_ctrl" where
  "sub_piece sp sw =
     (let segno = fst sp; piece = snd sp; h = seg_hint sw segno
      in sw\<lparr>seg_hint := (seg_hint sw)(segno := h\<lparr>
           pend_blks := (if pend_blks h \<ge> piece then pend_blks h - piece else pend_blks h),
           nr_cmds := (if nr_cmds h \<noteq> 0 then nr_cmds h - 1 else nr_cmds h)\<rparr>)\<rparr>)"

definition hints_add :: "f2fs_sb_info \<Rightarrow> nat \<Rightarrow> nat \<Rightarrow> discard_cmd_control \<Rightarrow> discard_cmd_control" where
  "hints_add sbi lo len dcc =
     (if swod_enabled (Some dcc)
      then f2fs_swod_queue_eval
             (dcc\<lparr>swod := map_option
                (\<lambda>sw. fold (add_piece (jiffies sbi)) (hint_pieces_of sbi (nr_main_segs sw) lo (lo + len)) sw)
                (swod dcc)\<rparr>)
      else dcc)"

definition hints_sub :: "f2fs_sb_info \<Rightarrow> nat \<Rightarrow> nat \<Rightarrow> discard_cmd_control \<Rightarrow> discard_cmd_control" where
  "hints_sub sbi lo len dcc =
     (if swod_enabled (Some dcc) \<and> len \<noteq> 0
      then dcc\<lparr>swod := map_option
             (\<lambda>sw. fold sub_piece (hint_pieces_of sbi (nr_main_segs sw) lo (lo + len)) sw) (swod dcc)\<rparr>
      else dcc)"

section \<open>Creating and removing commands\<close>

definition new_cmd :: "f2fs_sb_info \<Rightarrow> nat \<Rightarrow> nat \<Rightarrow> nat \<Rightarrow> nat \<Rightarrow> nat \<Rightarrow> discard_cmd" where
  "new_cmd sbi i bd lo start len =
     \<lparr>ofs = lo, elen = len, pstart = start, dc_id = i, bdev = bd, dc_ref = 0, dc_state = D_PREP, queued = 0,
      dc_error = 0, bio_ref = 0, submit_time = 0, policy_type = None, orig_len = 0,
      enq_jiffies = jiffies sbi, swod_skip = False\<rparr>"

text \<open>
  The warning \<open>f2fs_bug_on\<close> of an empty command is not recorded: the callers create commands for ranges that
  are not empty.
\<close>

definition create_discard_cmd ::
    "f2fs_sb_info \<Rightarrow> discard_cmd_control \<Rightarrow> nat \<Rightarrow> nat \<Rightarrow> nat \<Rightarrow> nat \<Rightarrow> discard_cmd \<times> discard_cmd_control" where
  "create_discard_cmd sbi dcc bd lo start len =
     (let dc = new_cmd sbi (next_id dcc) bd lo start len;
          dcc = pend_add_tail (plist_idx len) (dc_id dc) (dcc\<lparr>next_id := next_id dcc + 1\<rparr>);
          dcc = hints_add sbi lo len dcc
      in (dc, dcc\<lparr>discard_cmd_cnt := discard_cmd_cnt dcc + 1,
                  undiscard_blks := u32 (undiscard_blks dcc + len)\<rparr>))"

definition attach_discard_cmd ::
    "f2fs_sb_info \<Rightarrow> discard_cmd_control \<Rightarrow> nat \<Rightarrow> nat \<Rightarrow> nat \<Rightarrow> nat \<Rightarrow> discard_cmd_control" where
  "attach_discard_cmd sbi dcc bd lo start len =
     (let res = create_discard_cmd sbi dcc bd lo start len
      in (snd res)\<lparr>root := rb_insert (fst res) (root (snd res))\<rparr>)"

definition insert_discard_tree ::
    "f2fs_sb_info \<Rightarrow> discard_cmd_control \<Rightarrow> nat \<Rightarrow> nat \<Rightarrow> nat \<Rightarrow> nat \<Rightarrow> discard_cmd_control" where
  "insert_discard_tree sbi dcc bd lo start len = attach_discard_cmd sbi dcc bd lo start len"

definition detach_discard_cmd :: "discard_cmd_control \<Rightarrow> discard_cmd \<Rightarrow> discard_cmd_control" where
  "detach_discard_cmd dcc dc =
     (let dcc = (if dc_state dc = D_DONE then dcc\<lparr>queued_discard := queued_discard dcc - int (queued dc)\<rparr> else dcc);
          dcc = list_del (dc_id dc) dcc
      in dcc\<lparr>root := filter (\<lambda>c. dc_id c \<noteq> dc_id dc) (root dcc),
             undiscard_blks := sub32 (undiscard_blks dcc) (dlen dc),
             discard_cmd_cnt := discard_cmd_cnt dcc - 1\<rparr>)"

text \<open>The warning \<open>f2fs_bug_on\<close> of a command that somebody still waits for is not recorded.\<close>

definition remove_discard_cmd :: "discard_cmd_control \<Rightarrow> discard_cmd \<Rightarrow> discard_cmd_control" where
  "remove_discard_cmd dcc dc = (if bio_ref dc \<noteq> 0 then dcc else detach_discard_cmd dcc dc)"

definition relocate_discard_cmd :: "discard_cmd_control \<Rightarrow> discard_cmd \<Rightarrow> discard_cmd_control" where
  "relocate_discard_cmd dcc dc = pend_add_tail (plist_idx (dlen dc)) (dc_id dc) (list_del (dc_id dc) dcc)"

text \<open>\<open>f2fs_submit_discard_endio\<close> for one bio of a command.\<close>

definition submit_discard_endio :: "int \<Rightarrow> discard_cmd \<Rightarrow> discard_cmd" where
  "submit_discard_endio status dc =
     (let dc = (if dc_error dc = 0 then dc\<lparr>dc_error := status\<rparr> else dc);
          dc = dc\<lparr>bio_ref := bio_ref dc - 1\<rparr>
      in if bio_ref dc = 0 \<and> dc_state dc = D_SUBMIT then dc\<lparr>dc_state := D_DONE\<rparr> else dc)"

section \<open>Policies\<close>

text \<open>The fields that a policy type does not set keep the value the structure had.\<close>

definition init_discard_policy ::
    "f2fs_sb_info \<Rightarrow> discard_cmd_control \<Rightarrow> discard_policy \<Rightarrow> dpolicy_type \<Rightarrow> nat \<Rightarrow> discard_policy" where
  "init_discard_policy sbi dcc dp ty gran =
     (let dp = dp\<lparr>dp_type := ty, dp_sync := True, ordered := False, granularity := gran, max_requests := 8,
                 io_aware_gran := MAX_PLIST_NUM, dp_timeout := False\<rparr>
      in case ty of
           DPOLICY_BG \<Rightarrow>
             (let dp = dp\<lparr>min_interval := DEF_MIN_DISCARD_ISSUE_TIME, mid_interval := DEF_MID_DISCARD_ISSUE_TIME,
                         max_interval := DEF_MAX_DISCARD_ISSUE_TIME, io_aware := True, dp_sync := False,
                         ordered := True\<rparr>
              in if utilization sbi > DEF_DISCARD_URGENT_UTIL
                 then dp\<lparr>granularity := 1,
                         max_interval := (if discard_cmd_cnt dcc \<noteq> 0 then DEF_MIN_DISCARD_ISSUE_TIME
                                          else max_interval dp)\<rparr>
                 else dp)
         | DPOLICY_FORCE \<Rightarrow>
             dp\<lparr>min_interval := DEF_MIN_DISCARD_ISSUE_TIME, mid_interval := DEF_MID_DISCARD_ISSUE_TIME,
                max_interval := DEF_MAX_DISCARD_ISSUE_TIME, io_aware := False\<rparr>
         | DPOLICY_FSTRIM \<Rightarrow> dp\<lparr>io_aware := False\<rparr>
         | DPOLICY_UMOUNT \<Rightarrow> dp\<lparr>io_aware := False, granularity := 1, dp_timeout := True\<rparr>)"

section \<open>Punching a block out\<close>

definition punch_discard_cmd ::
    "f2fs_sb_info \<Rightarrow> discard_cmd_control \<Rightarrow> discard_cmd \<Rightarrow> nat \<Rightarrow> discard_cmd_control" where
  "punch_discard_cmd sbi dcc dc blkaddr =
     (if dc_state dc = D_DONE \<or> dlen dc = 1 then remove_discard_cmd dcc dc
      else
        (let di_lstart = lstart dc; di_len = dlen dc; di_start = pstart dc;
             modified = (blkaddr > di_lstart);
             dcc = dcc\<lparr>undiscard_blks := sub32 (undiscard_blks dcc) di_len\<rparr>;
             dc1 = dc\<lparr>elen := sub32 blkaddr (lstart dc)\<rparr>;
             dcc = (if modified
                    then relocate_discard_cmd
                           ((set_dc dc1 dcc)\<lparr>undiscard_blks := u32 (undiscard_blks dcc + dlen dc1)\<rparr>) dc1
                    else dcc);
             dc2 = dc\<lparr>ofs := lstart dc + 1, elen := dlen dc - 1, pstart := pstart dc + 1\<rparr>
         in if blkaddr < di_lstart + di_len - 1 then
              (if modified
               then insert_discard_tree sbi dcc (bdev dc) (blkaddr + 1) (di_start + blkaddr + 1 - di_lstart)
                      (di_lstart + di_len - 1 - blkaddr)
               else relocate_discard_cmd
                      ((set_dc dc2 dcc)\<lparr>undiscard_blks := u32 (undiscard_blks dcc + dlen dc2)\<rparr>) dc2)
            else dcc))"

section \<open>Adding a range\<close>

text \<open>The loop of \<open>__update_discard_tree_range\<close>: its locals, the gap to fill, one round.\<close>

definition max_discard_blocks :: "dev_env \<Rightarrow> nat \<Rightarrow> nat" where
  "max_discard_blocks env bd = SECTOR_TO_BLOCK (max_sectors env bd)"

text \<open>The gap between \<open>prev_dc\<close> and \<open>next_dc\<close>; \<open>None\<close> when it starts at or after the end.\<close>

definition update_gap ::
    "nat \<Rightarrow> nat \<Rightarrow> nat \<Rightarrow> discard_cmd option \<Rightarrow> discard_cmd option \<Rightarrow> discard_info \<Rightarrow> discard_info option" where
  "update_gap lo start end' prev nxt di =
     (case prev of
        None \<Rightarrow> Some di
      | Some p \<Rightarrow>
          (let l = (if eend p < lo then lo else eend p)
           in if l \<ge> end' then None
              else Some \<lparr>ofs = l,
                         elen = (case nxt of
                                   None \<Rightarrow> end' - l
                                 | Some n \<Rightarrow> if lstart n > end' then end' - l else sub32 (lstart n) l),
                         pstart = start + l - lo\<rparr>))"

definition can_merge_back :: "dev_env \<Rightarrow> nat \<Rightarrow> discard_cmd option \<Rightarrow> discard_info \<Rightarrow> bool" where
  "can_merge_back env bd prev di =
     (case prev of
        None \<Rightarrow> False
      | Some p \<Rightarrow> dc_state p = D_PREP \<and> bdev p = bd \<and>
                  is_discard_back_mergeable di p (max_discard_blocks env bd))"

definition can_merge_front :: "dev_env \<Rightarrow> nat \<Rightarrow> discard_cmd option \<Rightarrow> discard_info \<Rightarrow> bool" where
  "can_merge_front env bd nxt di =
     (case nxt of
        None \<Rightarrow> False
      | Some n \<Rightarrow> dc_state n = D_PREP \<and> bdev n = bd \<and>
                  is_discard_front_mergeable di n (max_discard_blocks env bd))"

definition merge_back :: "discard_cmd_control \<Rightarrow> discard_cmd \<Rightarrow> discard_info \<Rightarrow> discard_cmd \<times> discard_cmd_control" where
  "merge_back dcc p di =
     (let p' = p\<lparr>elen := dlen p + dlen di\<rparr>
      in (p', relocate_discard_cmd
                ((set_dc p' dcc)\<lparr>undiscard_blks := u32 (undiscard_blks dcc + dlen di)\<rparr>) p'))"

definition merge_front ::
    "discard_cmd_control \<Rightarrow> discard_cmd \<Rightarrow> discard_info \<Rightarrow> discard_cmd option \<Rightarrow> discard_cmd_control" where
  "merge_front dcc n di tdc =
     (let n' = n\<lparr>ofs := lstart di, elen := dlen n + dlen di, pstart := pstart di\<rparr>;
          dcc = relocate_discard_cmd
                  ((set_dc n' dcc)\<lparr>undiscard_blks := u32 (undiscard_blks dcc + dlen di)\<rparr>) n'
      in case tdc of None \<Rightarrow> dcc | Some t \<Rightarrow> remove_discard_cmd dcc t)"

definition count_merge :: "bool \<Rightarrow> bool \<Rightarrow> discard_cmd_control \<Rightarrow> discard_cmd_control" where
  "count_merge back front dcc =
     (if back \<and> front then dcc\<lparr>discard_both_merge_cnt := discard_both_merge_cnt dcc + 1\<rparr>
      else if back then dcc\<lparr>discard_back_only_merge_cnt := discard_back_only_merge_cnt dcc + 1\<rparr>
      else if front then dcc\<lparr>discard_front_only_merge_cnt := discard_front_only_merge_cnt dcc + 1\<rparr>
      else dcc)"

definition di_of :: "discard_cmd \<Rightarrow> discard_info" where
  "di_of dc = \<lparr>ofs = lstart dc, elen = dlen dc, pstart = pstart dc\<rparr>"

text \<open>The back merge: \<open>tdc\<close>, the range after it and the control.\<close>

definition back_step ::
    "dev_env \<Rightarrow> nat \<Rightarrow> discard_cmd_control \<Rightarrow> discard_cmd option \<Rightarrow> discard_info \<Rightarrow>
     discard_cmd option \<times> discard_info \<times> discard_cmd_control" where
  "back_step env bd dcc prev di =
     (case prev of
        None \<Rightarrow> (None, di, dcc)
      | Some p \<Rightarrow>
          (if can_merge_back env bd prev di
           then (let res = merge_back dcc p di in (Some (fst res), di_of (fst res), snd res))
           else (None, di, dcc)))"

definition front_step ::
    "dev_env \<Rightarrow> nat \<Rightarrow> discard_cmd_control \<Rightarrow> discard_cmd option \<Rightarrow> discard_info \<Rightarrow> discard_cmd option \<Rightarrow>
     bool \<times> discard_cmd_control" where
  "front_step env bd dcc nxt di tdc =
     (case nxt of
        None \<Rightarrow> (False, dcc)
      | Some n \<Rightarrow> if can_merge_front env bd nxt di then (True, merge_front dcc n di tdc) else (False, dcc))"

definition update_round ::
    "dev_env \<Rightarrow> f2fs_sb_info \<Rightarrow> nat \<Rightarrow> discard_cmd_control \<Rightarrow> discard_cmd option \<Rightarrow> discard_cmd option \<Rightarrow>
     discard_info \<Rightarrow> discard_cmd_control" where
  "update_round env sbi bd dcc prev nxt di =
     (if dlen di = 0 then dcc
      else
        (let (tdc, di1, dcc1) = back_step env bd dcc prev di;
             (front, dcc2) = front_step env bd dcc1 nxt di1 tdc;
             dcc3 = count_merge (tdc \<noteq> None) front dcc2
         in if tdc = None \<and> \<not> front
            then insert_discard_tree sbi dcc3 bd (lstart di) (pstart di) (dlen di)
            else dcc3))"

fun update_loop ::
    "dev_env \<Rightarrow> f2fs_sb_info \<Rightarrow> nat \<Rightarrow> nat \<Rightarrow> nat \<Rightarrow> nat \<Rightarrow> nat \<Rightarrow> discard_cmd_control \<Rightarrow> nat option \<Rightarrow> nat option \<Rightarrow>
     discard_info \<Rightarrow> discard_cmd_control option" where
  "update_loop env sbi bd lo start end' 0 dcc prev nxt di = None"
| "update_loop env sbi bd lo start end' (Suc n) dcc prev nxt di =
     (case update_gap lo start end' (Option.bind prev (find_dc dcc)) (Option.bind nxt (find_dc dcc)) di of
        None \<Rightarrow> Some dcc
      | Some di \<Rightarrow>
          (let dcc = update_round env sbi bd dcc (Option.bind prev (find_dc dcc)) (Option.bind nxt (find_dc dcc)) di
           in case nxt of
                None \<Rightarrow> Some dcc
              | Some i \<Rightarrow> update_loop env sbi bd lo start end' n dcc (Some i) (rb_next_id (root dcc) i) di))"

definition update_range ::
    "dev_env \<Rightarrow> f2fs_sb_info \<Rightarrow> discard_cmd_control \<Rightarrow> nat \<Rightarrow> nat \<Rightarrow> nat \<Rightarrow> nat \<Rightarrow> discard_cmd_control option" where
  "update_range env sbi dcc bd lo start len =
     (let (hit, prev, nxt) = rb_lookup_ret (root dcc) lo;
          prev = (case hit of None \<Rightarrow> prev | Some dc \<Rightarrow> Some dc);
          di = (if prev = None
                then \<lparr>ofs = lo,
                      elen = min (case nxt of None \<Rightarrow> len | Some n \<Rightarrow> sub32 (lstart n) lo) len,
                      pstart = start\<rparr>
                else \<lparr>ofs = 0, elen = 0, pstart = 0\<rparr>)
      in update_loop env sbi bd lo start (lo + len) (length (root dcc) + 1) dcc
           (map_option dc_id prev) (map_option dc_id nxt) di)"

text \<open>\<open>update_range_total\<close> shows that the loop always ends, so the default is never taken.\<close>

definition update_discard_tree_range ::
    "dev_env \<Rightarrow> f2fs_sb_info \<Rightarrow> discard_cmd_control \<Rightarrow> nat \<Rightarrow> nat \<Rightarrow> nat \<Rightarrow> nat \<Rightarrow> discard_cmd_control" where
  "update_discard_tree_range env sbi dcc bd lo start len =
     (case update_range env sbi dcc bd lo start len of None \<Rightarrow> dcc | Some d \<Rightarrow> d)"

definition queue_discard_cmd ::
    "dev_env \<Rightarrow> f2fs_sb_info \<Rightarrow> discard_cmd_control \<Rightarrow> nat \<Rightarrow> nat \<Rightarrow> nat \<Rightarrow> discard_cmd_control" where
  "queue_discard_cmd env sbi dcc bd blkstart blklen =
     (if \<not> support_discard env bd then dcc
      else update_discard_tree_range env sbi dcc bd blkstart (blkstart - dev_start_blk env blkstart) blklen)"

section \<open>Submitting\<close>

text \<open>The locals of \<open>__submit_discard_cmd\<close> with the command it works on and the bios it has sent.\<close>

record submit_st =
  s_dc :: discard_cmd
  s_lstart :: nat
  s_start :: nat
  s_len :: nat
  s_total :: nat
  s_issued :: nat
  s_err :: int
  s_bios :: nat

definition submit_round :: "dev_env \<Rightarrow> discard_policy \<Rightarrow> submit_st \<Rightarrow> submit_st" where
  "submit_round env dp st =
     (let dc = s_dc st;
          maxb = max_discard_blocks env (bdev dc);
          len = (if s_len st > maxb then maxb else s_len st);
          issued = s_issued st + 1;
          last = (\<not> s_len st > maxb \<or> issued = max_requests dp);
          dc = dc\<lparr>elen := dlen dc + len\<rparr>;
          err = issue_err env (s_start st) len
      in if err \<noteq> 0 then
           st\<lparr>s_dc := (if dc_state dc = D_PARTIAL then dc\<lparr>dc_state := D_SUBMIT\<rparr> else dc),
              s_len := len, s_issued := issued, s_err := err\<rparr>
         else
           (let dc = dc\<lparr>dc_state := (if last then D_SUBMIT else D_PARTIAL), bio_ref := bio_ref dc + 1\<rparr>;
                dc = (if bio_ref dc = 1
                      then dc\<lparr>submit_time := ktime env, policy_type := Some (dp_type dp), orig_len := s_total st\<rparr>
                      else dc);
                dc = dc\<lparr>queued := (queued dc + 1) mod 2 ^ 8\<rparr>
            in st\<lparr>s_dc := dc, s_lstart := s_lstart st + len, s_start := s_start st + len,
                  s_total := s_total st - len, s_len := s_total st - len, s_issued := issued,
                  s_bios := s_bios st + 1\<rparr>))"

text \<open>
  \<open>while (total_len && *issued < max_requests && !err)\<close>; the argument is the number of
  requests that are left, \<open>max_requests - issued\<close>.
\<close>

primrec submit_loop :: "dev_env \<Rightarrow> discard_policy \<Rightarrow> nat \<Rightarrow> submit_st \<Rightarrow> submit_st" where
  "submit_loop env dp 0 st = st"
| "submit_loop env dp (Suc n) st =
     (if s_total st \<noteq> 0 \<and> s_err st = 0 then submit_loop env dp n (submit_round env dp st) else st)"

text \<open>Result: error, number of issued requests, control.\<close>

definition submit_discard_cmd ::
    "dev_env \<Rightarrow> f2fs_sb_info \<Rightarrow> discard_policy \<Rightarrow> discard_cmd_control \<Rightarrow> discard_cmd \<Rightarrow> nat \<Rightarrow>
     int \<times> nat \<times> discard_cmd_control" where
  "submit_discard_cmd env sbi dp dcc dc issued =
     (if dc_state dc \<noteq> D_PREP then (0, issued, dcc)
      else if need_fsck sbi then (0, issued, dcc)
      else
        (let st = submit_loop env dp (max_requests dp - issued)
                    \<lparr>s_dc = dc\<lparr>elen := 0\<rparr>, s_lstart = lstart dc, s_start = pstart dc, s_len = dlen dc,
                     s_total = dlen dc, s_issued = issued, s_err = 0, s_bios = 0\<rparr>;
             dcc = set_dc (s_dc st) dcc;
             dcc = (if s_bios st = 0 then dcc
                    else wait_add_tail (dp_type dp) (dc_id dc) (list_del (dc_id dc)
                      (dcc\<lparr>queued_discard := queued_discard dcc + int (s_bios st),
                          issued_discard := issued_discard dcc + int (s_bios st)\<rparr>)));
             dcc = (if s_err st = 0 \<and> s_len st \<noteq> 0
                    then update_discard_tree_range env sbi
                           (dcc\<lparr>undiscard_blks := sub32 (undiscard_blks dcc) (s_len st)\<rparr>)
                           (bdev dc) (s_lstart st) (s_start st) (s_len st)
                    else dcc)
         in (s_err st, s_issued st, hints_sub sbi (lstart dc) (dlen dc) dcc)))"

section \<open>Issuing\<close>

text \<open>
  The loop of \<open>__issue_discard_cmd_orderly\<close> along the tree from a command on. Result: issued
  requests, whether I/O interrupted it, whether it reached the end of the tree, control.
\<close>

fun orderly_loop ::
    "dev_env \<Rightarrow> f2fs_sb_info \<Rightarrow> discard_policy \<Rightarrow> nat \<Rightarrow> nat option \<Rightarrow> nat \<Rightarrow> discard_cmd_control \<Rightarrow>
     (nat \<times> bool \<times> bool \<times> discard_cmd_control) option" where
  "orderly_loop env sbi dp 0 cur issued dcc = None"
| "orderly_loop env sbi dp (Suc n) cur issued dcc =
     (case Option.bind cur (find_dc dcc) of
        None \<Rightarrow> Some (issued, False, True, dcc)
      | Some dc \<Rightarrow>
          (if dc_state dc \<noteq> D_PREP
           then orderly_loop env sbi dp n (rb_next_id (root dcc) (dc_id dc)) issued dcc
           else if io_aware dp \<and> \<not> is_idle env (dc_id dc) then Some (issued, True, False, dcc)
           else
             (let (err, issued, dcc) =
                    submit_discard_cmd env sbi dp (dcc\<lparr>next_pos := eend dc\<rparr>) dc issued
              in if issued \<ge> max_requests dp then Some (issued, False, False, dcc)
                 else (let nxt = rb_next_id (root dcc) (dc_id dc);
                           dcc = (if err \<noteq> 0
                                  then (case find_dc dcc (dc_id dc) of
                                          None \<Rightarrow> dcc | Some d \<Rightarrow> remove_discard_cmd dcc d)
                                  else dcc)
                       in orderly_loop env sbi dp n nxt issued dcc))))"

text \<open>Results of the issue functions: \<open>None\<close> is \<open>-1\<close>, interrupted before anything was issued.\<close>

definition issue_discard_cmd_orderly ::
    "dev_env \<Rightarrow> f2fs_sb_info \<Rightarrow> discard_policy \<Rightarrow> discard_cmd_control \<Rightarrow> nat option \<times> discard_cmd_control" where
  "issue_discard_cmd_orderly env sbi dp dcc =
     (let (hit, prev, nxt) = rb_lookup_ret (root dcc) (next_pos dcc);
          cur = (case hit of None \<Rightarrow> nxt | Some dc \<Rightarrow> Some dc)
      in case orderly_loop env sbi dp (length (root dcc) + 1) (map_option dc_id cur) 0 dcc of
           None \<Rightarrow> (Some 0, dcc)
         | Some (issued, intr, at_end, dcc) \<Rightarrow>
             ((if issued = 0 \<and> intr then None else Some issued),
              (if at_end then dcc\<lparr>next_pos := 0\<rparr> else dcc)))"

text \<open>
  One pending list. The iteration is over the addresses that were on it at the start:
  a submission adds to the list only when it uses up the requests, which ends the loop.
\<close>

fun issue_list ::
    "dev_env \<Rightarrow> f2fs_sb_info \<Rightarrow> discard_policy \<Rightarrow> nat \<Rightarrow> nat list \<Rightarrow> nat \<Rightarrow> discard_cmd_control \<Rightarrow>
     nat \<times> bool \<times> discard_cmd_control" where
  "issue_list env sbi dp k [] issued dcc = (issued, False, dcc)"
| "issue_list env sbi dp k (i # ids) issued dcc =
     (case find_dc dcc i of
        None \<Rightarrow> issue_list env sbi dp k ids issued dcc
      | Some dc \<Rightarrow>
          (if dp_timeout dp \<and> umount_time_over_cmd env i then (issued, False, dcc)
           else if io_aware dp \<and> k < io_aware_gran dp \<and> \<not> is_idle env i then (issued, True, dcc)
           else (let (err, issued, dcc) = submit_discard_cmd env sbi dp dcc dc issued
                 in if issued \<ge> max_requests dp then (issued, False, dcc)
                    else issue_list env sbi dp k ids issued dcc)))"

text \<open>
  The \<open>for\<close> loop over the lists from the longest down; the list index is \<open>k - 1\<close>. The result
  \<open>Inl\<close> is the return through the orderly path.
\<close>

fun issue_lists ::
    "dev_env \<Rightarrow> f2fs_sb_info \<Rightarrow> discard_policy \<Rightarrow> nat \<Rightarrow> nat \<Rightarrow> discard_cmd_control \<Rightarrow>
     (nat option \<times> discard_cmd_control) + (nat \<times> bool \<times> discard_cmd_control)" where
  "issue_lists env sbi dp 0 issued dcc = Inr (issued, False, dcc)"
| "issue_lists env sbi dp (Suc i) issued dcc =
     (if dp_timeout dp \<and> umount_time_over env i then Inr (issued, False, dcc)
      else if i + 1 < granularity dp then Inr (issued, False, dcc)
      else if i + 1 < DEFAULT_DISCARD_GRANULARITY \<and> ordered dp
        then Inl (issue_discard_cmd_orderly env sbi dp dcc)
      else
        (let (issued, intr, dcc) = issue_list env sbi dp i (pend_list dcc i) issued dcc
         in if issued \<ge> max_requests dp \<or> intr then Inr (issued, intr, dcc)
            else issue_lists env sbi dp i issued dcc))"

section \<open>Waiting and dropping\<close>

text \<open>Waiting for a command: all its bios end.\<close>

definition complete_cmd :: "dev_env \<Rightarrow> discard_cmd \<Rightarrow> discard_cmd" where
  "complete_cmd env dc = (submit_discard_endio (bio_err env (dc_id dc)) ^^ bio_ref dc) dc"

definition drop_discard_cmd :: "discard_cmd_control \<Rightarrow> bool \<times> discard_cmd_control" where
  "drop_discard_cmd dcc =
     fold (\<lambda>i acc. fold (\<lambda>j (dropped, dcc).
              (case find_dc dcc j of
                 None \<Rightarrow> (dropped, dcc) | Some dc \<Rightarrow> (True, remove_discard_cmd dcc dc)))
            (pend_list (snd acc) i) acc)
       (rev [0..<MAX_PLIST_NUM]) (False, dcc)"

text \<open>
  \<open>__wait_one_discard_bio\<close>: the length trimmed and the control. The warning \<open>f2fs_bug_on\<close> of a command that
  is not done after the wait is not recorded.
\<close>

definition wait_one_discard_bio :: "dev_env \<Rightarrow> discard_cmd_control \<Rightarrow> discard_cmd \<Rightarrow> nat \<times> discard_cmd_control" where
  "wait_one_discard_bio env dcc dc =
     (let dc = complete_cmd env dc;
          dc = dc\<lparr>dc_ref := dc_ref dc - 1\<rparr>;
          dcc = set_dc dc dcc
      in if dc_ref dc = 0 then ((if dc_error dc = 0 then dlen dc else 0), remove_discard_cmd dcc dc)
         else (0, dcc))"

text \<open>
  The body of \<open>__wait_discard_cmd_range\<close> under the lock: it removes finished commands of the
  range until it finds one to wait for. Result: that command, blocks trimmed, control.
\<close>

fun wait_scan ::
    "nat \<Rightarrow> nat \<Rightarrow> nat \<Rightarrow> nat list \<Rightarrow> nat \<Rightarrow> discard_cmd_control \<Rightarrow> nat option \<times> nat \<times> discard_cmd_control" where
  "wait_scan gran start end' [] trimmed dcc = (None, trimmed, dcc)"
| "wait_scan gran start end' (i # ids) trimmed dcc =
     (case find_dc dcc i of
        None \<Rightarrow> wait_scan gran start end' ids trimmed dcc
      | Some dc \<Rightarrow>
          (if eend dc \<le> start \<or> end' \<le> lstart dc then wait_scan gran start end' ids trimmed dcc
           else if dlen dc < gran then wait_scan gran start end' ids trimmed dcc
           else if dc_state dc = D_DONE \<and> dc_ref dc = 0 then
             wait_scan gran start end' ids
               (if dc_error dc = 0 then u32 (trimmed + dlen dc) else trimmed) (remove_discard_cmd dcc dc)
           else (Some i, trimmed, set_dc (dc\<lparr>dc_ref := dc_ref dc + 1\<rparr>) dcc)))"

fun wait_loop ::
    "dev_env \<Rightarrow> dpolicy_type \<Rightarrow> nat \<Rightarrow> nat \<Rightarrow> nat \<Rightarrow> nat \<Rightarrow> nat \<Rightarrow> discard_cmd_control \<Rightarrow>
     (nat \<times> discard_cmd_control) option" where
  "wait_loop env ty gran start end' 0 trimmed dcc = None"
| "wait_loop env ty gran start end' (Suc n) trimmed dcc =
     (let ids = (if ty = DPOLICY_FSTRIM then fstrim_list dcc else wait_list dcc);
          (need_wait, trimmed, dcc) = wait_scan gran start end' ids trimmed dcc
      in case Option.bind need_wait (find_dc dcc) of
           None \<Rightarrow> Some (trimmed, dcc)
         | Some dc \<Rightarrow>
             (let (len, dcc) = wait_one_discard_bio env dcc dc
              in wait_loop env ty gran start end' n (u32 (trimmed + len)) dcc))"

text \<open>Each round removes a command from the list, or the caller would wait for another waiter.\<close>

definition wait_discard_cmd_range ::
    "dev_env \<Rightarrow> discard_policy \<Rightarrow> nat \<Rightarrow> nat \<Rightarrow> discard_cmd_control \<Rightarrow> nat \<times> discard_cmd_control" where
  "wait_discard_cmd_range env dp start end' dcc =
     (case wait_loop env (dp_type dp) (granularity dp) start end' (length (root dcc) + 1) 0 dcc of
        None \<Rightarrow> (0, dcc) | Some r \<Rightarrow> r)"

definition wait_all_discard_cmd ::
    "dev_env \<Rightarrow> f2fs_sb_info \<Rightarrow> discard_policy option \<Rightarrow> discard_policy \<Rightarrow> discard_cmd_control \<Rightarrow>
     nat \<times> discard_cmd_control" where
  "wait_all_discard_cmd env sbi dpolicy stack dcc =
     (case dpolicy of
        Some dp \<Rightarrow> wait_discard_cmd_range env dp 0 UINT_MAX dcc
      | None \<Rightarrow>
          (let dp1 = init_discard_policy sbi dcc stack DPOLICY_FSTRIM 1;
               (b1, dcc) = wait_discard_cmd_range env dp1 0 UINT_MAX dcc;
               dp2 = init_discard_policy sbi dcc dp1 DPOLICY_UMOUNT 1;
               (b2, dcc) = wait_discard_cmd_range env dp2 0 UINT_MAX dcc
           in (u32 (b1 + b2), dcc)))"

definition f2fs_wait_discard_bio ::
    "dev_env \<Rightarrow> f2fs_sb_info \<Rightarrow> discard_cmd_control \<Rightarrow> nat \<Rightarrow> discard_cmd_control" where
  "f2fs_wait_discard_bio env sbi dcc blkaddr =
     (case find (covers blkaddr) (root dcc) of
        None \<Rightarrow> dcc
      | Some dc \<Rightarrow>
          (if dc_state dc = D_PREP then punch_discard_cmd sbi dcc dc blkaddr
           else (let dc = dc\<lparr>dc_ref := dc_ref dc + 1\<rparr>
                 in snd (wait_one_discard_bio env (set_dc dc dcc) dc))))"

section \<open>The issue function and the thread\<close>

text \<open>
  \<open>__issue_discard_cmd\<close>. At umount it waits for what it issued and starts again until a pass
  issues nothing; the fuel is the number of blocks, since each pass that issues something
  and is waited for takes at least one block out of the tree.
\<close>

fun issue_discard_cmd ::
    "dev_env \<Rightarrow> f2fs_sb_info \<Rightarrow> discard_policy \<Rightarrow> nat \<Rightarrow> discard_cmd_control \<Rightarrow>
     (nat option \<times> discard_cmd_control) option" where
  "issue_discard_cmd env sbi dp 0 dcc = None"
| "issue_discard_cmd env sbi dp (Suc n) dcc =
     (case issue_lists env sbi dp MAX_PLIST_NUM 0 dcc of
        Inl r \<Rightarrow> Some r
      | Inr (issued, intr, dcc) \<Rightarrow>
          (if dp_type dp = DPOLICY_UMOUNT \<and> issued \<noteq> 0
           then issue_discard_cmd env sbi dp n (snd (wait_all_discard_cmd env sbi (Some dp) dp dcc))
           else Some ((if issued = 0 \<and> intr then None else Some issued), dcc)))"

definition f2fs_issue_discard_timeout ::
    "dev_env \<Rightarrow> f2fs_sb_info \<Rightarrow> discard_policy \<Rightarrow> nat \<Rightarrow> discard_cmd_control \<Rightarrow>
     (bool \<times> discard_cmd_control) option" where
  "f2fs_issue_discard_timeout env sbi stack fuel dcc =
     (let dp = init_discard_policy sbi dcc stack DPOLICY_UMOUNT (discard_granularity dcc)
      in case issue_discard_cmd env sbi dp fuel dcc of
           None \<Rightarrow> None
         | Some (_, dcc) \<Rightarrow>
             (let (dropped, dcc) = drop_discard_cmd dcc;
                  (_, dcc) = wait_all_discard_cmd env sbi None dp dcc
              in Some (dropped, dcc)))"

text \<open>What happens around one round of \<open>issue_discard_thread\<close>: freezing, a read-only mount, a stop request.\<close>

record thread_env =
  froze :: bool
  readonly :: bool
  should_stop :: bool
  time_to_wait :: nat

text \<open>
  One round of the thread before and after its sleep. Result: \<open>None\<close> when the thread ends,
  otherwise the next sleep, the policy left on its stack and the control.
\<close>

definition thread_policy :: "f2fs_sb_info \<Rightarrow> discard_cmd_control \<Rightarrow> discard_policy \<Rightarrow> discard_policy" where
  "thread_policy sbi dcc stack =
     (if sb_gc_mode sbi = GC_URGENT_HIGH \<or> \<not> f2fs_available_free_memory sbi (discard_cmd_cnt dcc)
      then init_discard_policy sbi dcc stack DPOLICY_FORCE 1
      else init_discard_policy sbi dcc stack DPOLICY_BG (discard_granularity dcc))"

definition thread_before_sleep ::
    "f2fs_sb_info \<Rightarrow> discard_policy \<Rightarrow> nat \<Rightarrow> discard_cmd_control \<Rightarrow> nat \<times> discard_policy \<times> discard_cmd_control" where
  "thread_before_sleep sbi stack wait_ms dcc =
     (let dp = thread_policy sbi dcc stack;
          dcc = (if (dp_type dp \<noteq> DPOLICY_BG \<or> granularity dp = 1) \<and> sb_gc_mode sbi \<noteq> GC_URGENT_HIGH
                 then f2fs_swod_release_all sbi dcc SWOD_REL_PRESSURE else dcc);
          wait_ms = (if discard_cmd_cnt dcc = 0 then max_interval dp else wait_ms)
      in (wait_ms, dp, dcc))"

definition thread_after_sleep ::
    "dev_env \<Rightarrow> thread_env \<Rightarrow> f2fs_sb_info \<Rightarrow> discard_policy \<Rightarrow> nat \<Rightarrow> discard_cmd_control \<Rightarrow>
     (nat \<times> discard_cmd_control) option" where
  "thread_after_sleep env te sbi dp wait_ms dcc =
     (let dcc = dcc\<lparr>discard_wake := False\<rparr>;
          dcc = (if queued_discard dcc \<noteq> 0 then snd (wait_all_discard_cmd env sbi None dp dcc) else dcc)
      in if froze te \<or> readonly te then (if should_stop te then None else Some (wait_ms, dcc))
         else if should_stop te then None
         else if need_fsck sbi then Some (max_interval dp, dcc)
         else if discard_cmd_cnt dcc = 0 then Some (wait_ms, dcc)
         else
           (case issue_discard_cmd env sbi dp 1 dcc of
              None \<Rightarrow> None
            | Some (issued, dcc) \<Rightarrow>
                (let dcc = f2fs_swod_sweep_timeout sbi dcc (jiffies sbi)
                 in case issued of
                      None \<Rightarrow> Some ((if time_to_wait te = 0 then mid_interval dp else time_to_wait te), dcc)
                    | Some k \<Rightarrow>
                        (if k > 0
                         then Some (min_interval dp, snd (wait_all_discard_cmd env sbi (Some dp) dp dcc))
                         else Some (max_interval dp, dcc)))))"

end
