(* ===== verification/Discard_Inv.thy ===== *)
theory Discard_Inv
  imports Discard "HOL-Library.Multiset"
begin

text \<open>
  The bookkeeping of the discard commands: addresses are unique, the block counter is the
  sum of the lengths, the command counter the size of the tree, a pending command is on
  exactly the list of its length and a submitted one on a wait list. Each primitive keeps
  it; the order of the tree is a matter of its own (\<open>Discard_Merge\<close>).
\<close>

definition blocks :: "'a rb_entry_scheme list \<Rightarrow> nat set" where
  "blocks cmds = {b. \<exists>c \<in> set cmds. covers b c}"

definition total_len :: "'a rb_entry_scheme list \<Rightarrow> nat" where
  "total_len cmds = sum_list (map elen cmds)"

definition pend_ok :: "discard_cmd_control \<Rightarrow> bool" where
  "pend_ok dcc \<longleftrightarrow>
     (\<forall>k. distinct (pend_list dcc k)) \<and>
     (\<forall>k i. i \<in> set (pend_list dcc k) \<longleftrightarrow>
        (\<exists>c \<in> set (root dcc). dc_id c = i \<and> dc_state c = D_PREP \<and> plist_idx (dlen c) = k))"

definition wait_ok :: "discard_cmd_control \<Rightarrow> bool" where
  "wait_ok dcc \<longleftrightarrow>
     distinct (wait_list dcc @ fstrim_list dcc) \<and>
     (\<forall>i. i \<in> set (wait_list dcc @ fstrim_list dcc) \<longleftrightarrow>
        (\<exists>c \<in> set (root dcc). dc_id c = i \<and> dc_state c \<noteq> D_PREP))"

definition acct :: "discard_cmd_control \<Rightarrow> bool" where
  "acct dcc \<longleftrightarrow>
     distinct (map dc_id (root dcc)) \<and>
     (\<forall>c \<in> set (root dcc). dc_id c < next_id dcc \<and> eend c < 2 ^ 32 \<and> (dc_state c = D_PREP \<longrightarrow> bio_ref c = 0 \<and> dc_ref c = 0)) \<and>
     undiscard_blks dcc = u32 (total_len (root dcc)) \<and>
     discard_cmd_cnt dcc = length (root dcc) \<and> pend_ok dcc \<and> wait_ok dcc"

lemma total_len_simps [simp]:
  "total_len [] = 0" "total_len (c # cs) = elen c + total_len cs" "total_len (xs @ ys) = total_len xs + total_len ys"
  by (simp_all add: total_len_def)

lemma blocks_simps [simp]:
  "blocks [] = {}" "blocks (c # cs) = {ofs c..<eend c} \<union> blocks cs" "blocks (xs @ ys) = blocks xs \<union> blocks ys"
  by (auto simp: blocks_def covers_def)

text \<open>What the fields mean that the primitives do not touch.\<close>

lemma acct_cong:
  assumes "root d' = root d" "next_id d' = next_id d" "undiscard_blks d' = undiscard_blks d"
    "discard_cmd_cnt d' = discard_cmd_cnt d" "pend_list d' = pend_list d" "wait_list d' = wait_list d"
    "fstrim_list d' = fstrim_list d"
  shows "acct d' = acct d"
  by (simp add: acct_def pend_ok_def wait_ok_def assms)

lemma hints_frame [simp]:
  "root (hints_add sbi lo len d) = root d" "next_id (hints_add sbi lo len d) = next_id d"
  "undiscard_blks (hints_add sbi lo len d) = undiscard_blks d"
  "discard_cmd_cnt (hints_add sbi lo len d) = discard_cmd_cnt d"
  "pend_list (hints_add sbi lo len d) = pend_list d" "wait_list (hints_add sbi lo len d) = wait_list d"
  "fstrim_list (hints_add sbi lo len d) = fstrim_list d"
  "root (hints_sub sbi lo len d) = root d" "next_id (hints_sub sbi lo len d) = next_id d"
  "undiscard_blks (hints_sub sbi lo len d) = undiscard_blks d"
  "discard_cmd_cnt (hints_sub sbi lo len d) = discard_cmd_cnt d"
  "pend_list (hints_sub sbi lo len d) = pend_list d" "wait_list (hints_sub sbi lo len d) = wait_list d"
  "fstrim_list (hints_sub sbi lo len d) = fstrim_list d"
  by (simp_all add: hints_add_def hints_sub_def f2fs_swod_queue_eval_def)

lemma count_merge_frame [simp]:
  "root (count_merge b f d) = root d" "next_id (count_merge b f d) = next_id d"
  "undiscard_blks (count_merge b f d) = undiscard_blks d" "discard_cmd_cnt (count_merge b f d) = discard_cmd_cnt d"
  "pend_list (count_merge b f d) = pend_list d" "wait_list (count_merge b f d) = wait_list d"
  "fstrim_list (count_merge b f d) = fstrim_list d"
  by (simp_all add: count_merge_def)

lemma count_merge_acct [simp]: "acct (count_merge b f d) = acct d"
  by (rule acct_cong) simp_all

section \<open>Finding and replacing by address\<close>

lemma acct_split:
  assumes "acct dcc" "root dcc = xs @ c # ys"
  shows "x \<in> set xs \<union> set ys \<Longrightarrow> dc_id x \<noteq> dc_id c"
proof -
  assume x: "x \<in> set xs \<union> set ys"
  have "distinct (map dc_id (xs @ c # ys))" using assms unfolding acct_def by metis
  then have "dc_id c \<notin> dc_id ` (set xs \<union> set ys)" by auto
  with x show ?thesis by (metis imageI)
qed

lemma find_dc_split:
  assumes "acct dcc" "root dcc = xs @ c # ys"
  shows "find_dc dcc (dc_id c) = Some c"
proof -
  have "find (\<lambda>x. dc_id x = dc_id c) xs = None"
    using acct_split[OF assms] by (intro find_None_all) auto
  then show ?thesis by (simp add: find_dc_def assms(2) find_append)
qed

lemma set_dc_split:
  assumes "acct dcc" "root dcc = xs @ c # ys" "dc_id c' = dc_id c"
  shows "root (set_dc c' dcc) = xs @ c' # ys"
proof -
  have "map (\<lambda>x. if dc_id x = dc_id c then c' else x) zs = zs" if "set zs \<subseteq> set xs \<union> set ys" for zs
    using acct_split[OF assms(1,2)] that by (intro map_idI) auto
  from this[of xs] this[of ys] show ?thesis using assms by (simp add: set_dc_def)
qed

lemma rb_next_id_split:
  assumes "\<And>x. x \<in> set xs \<Longrightarrow> dc_id x \<noteq> dc_id c"
  shows "rb_next_id (xs @ c # ys) (dc_id c) = (case ys of [] \<Rightarrow> None | y # _ \<Rightarrow> Some (dc_id y))"
  using assms
proof (induction xs)
  case Nil
  then show ?case by (cases ys) auto
next
  case (Cons x xs)
  then show ?case by (cases xs) auto
qed

lemma set_dc_frame [simp]:
  "next_id (set_dc c d) = next_id d" "undiscard_blks (set_dc c d) = undiscard_blks d"
  "discard_cmd_cnt (set_dc c d) = discard_cmd_cnt d" "pend_list (set_dc c d) = pend_list d"
  "wait_list (set_dc c d) = wait_list d" "fstrim_list (set_dc c d) = fstrim_list d"
  "queued_discard (set_dc c d) = queued_discard d" "issued_discard (set_dc c d) = issued_discard d"
  by (simp_all add: set_dc_def)

lemma relocate_frame [simp]:
  "root (relocate_discard_cmd d c) = root d" "next_id (relocate_discard_cmd d c) = next_id d"
  "undiscard_blks (relocate_discard_cmd d c) = undiscard_blks d"
  "discard_cmd_cnt (relocate_discard_cmd d c) = discard_cmd_cnt d"
  by (simp_all add: relocate_discard_cmd_def pend_add_tail_def list_del_def)

section \<open>Resizing a pending command\<close>

lemma resize_acct:
  assumes a: "acct dcc" and r: "root dcc = xs @ c # ys"
    and c: "dc_state c = D_PREP" and c': "dc_id c' = dc_id c" "dc_state c' = D_PREP" "bio_ref c' = 0" "dc_ref c' = 0"
    and e: "eend c' < 2 ^ 32" and u: "u = u32 (total_len (xs @ c' # ys))"
  shows "acct (relocate_discard_cmd ((set_dc c' dcc)\<lparr>undiscard_blks := u\<rparr>) c')"
proof -
  let ?d = "relocate_discard_cmd ((set_dc c' dcc)\<lparr>undiscard_blks := u\<rparr>) c'"
  have r': "root ?d = xs @ c' # ys" using set_dc_split[OF a r c'(1)] by simp
  have ne: "x \<in> set xs \<union> set ys \<Longrightarrow> dc_id x \<noteq> dc_id c" for x using acct_split[OF a r] .
  have pend: "i \<in> set (pend_list dcc k) \<longleftrightarrow>
      (\<exists>x \<in> set (xs @ c # ys). dc_id x = i \<and> dc_state x = D_PREP \<and> plist_idx (dlen x) = k)" for i k
    using a unfolding acct_def pend_ok_def r by blast
  have wait: "i \<in> set (wait_list dcc @ fstrim_list dcc) \<longleftrightarrow>
      (\<exists>x \<in> set (xs @ c # ys). dc_id x = i \<and> dc_state x \<noteq> D_PREP)" for i
    using a unfolding acct_def wait_ok_def r by blast
  have pl: "pend_list ?d k = filter (\<lambda>j. j \<noteq> dc_id c) (pend_list dcc k) @
      (if k = plist_idx (dlen c') then [dc_id c] else [])" for k
    by (simp add: relocate_discard_cmd_def pend_add_tail_def list_del_def c'(1))
  have "pend_ok ?d"
    unfolding pend_ok_def r'
  proof (intro conjI allI)
    fix k show "distinct (pend_list ?d k)"
      using a by (simp add: pl acct_def pend_ok_def)
  next
    fix k i
    show "i \<in> set (pend_list ?d k) \<longleftrightarrow>
        (\<exists>x \<in> set (xs @ c' # ys). dc_id x = i \<and> dc_state x = D_PREP \<and> plist_idx (dlen x) = k)"
      using pend[of i k] ne c' c by (auto simp: pl)
  qed
  moreover have "wait_ok ?d"
  proof -
    have wl: "wait_list ?d = wait_list dcc" "fstrim_list ?d = fstrim_list dcc"
      using wait[of "dc_id c"] ne c
      by (auto simp: relocate_discard_cmd_def pend_add_tail_def list_del_def c'(1) filter_id_conv)
    show ?thesis
      using a wait ne c c' unfolding wait_ok_def r' wl acct_def by (auto simp: r wait_ok_def)
  qed
  ultimately show ?thesis
    using a r u e c' r' by (simp add: acct_def)
qed

definition same_waits :: "discard_cmd_control \<Rightarrow> discard_cmd_control \<Rightarrow> bool" where
  "same_waits d d' \<longleftrightarrow> wait_list d' = wait_list d \<and> fstrim_list d' = fstrim_list d"

lemma same_waits_trans: "same_waits a b \<Longrightarrow> same_waits b c \<Longrightarrow> same_waits a c"
  by (simp add: same_waits_def)

text \<open>A pending command is on no wait list, so the operations on it leave those lists alone.\<close>

lemma prep_not_waiting:
  assumes "acct d" "root d = xs @ c # ys" "dc_state c = D_PREP"
  shows "dc_id c \<notin> set (wait_list d)" "dc_id c \<notin> set (fstrim_list d)"
proof -
  have "\<not> (\<exists>x \<in> set (root d). dc_id x = dc_id c \<and> dc_state x \<noteq> D_PREP)"
    using acct_split[OF assms(1,2)] assms(2,3) by auto
  then have "dc_id c \<notin> set (wait_list d @ fstrim_list d)"
    using assms(1) unfolding acct_def wait_ok_def by blast
  then show "dc_id c \<notin> set (wait_list d)" "dc_id c \<notin> set (fstrim_list d)" by auto
qed

lemma resize_waits:
  assumes "acct d" "root d = xs @ c # ys" "dc_state c = D_PREP" "dc_id c' = dc_id c"
  shows "same_waits d (relocate_discard_cmd ((set_dc c' d)\<lparr>undiscard_blks := u\<rparr>) c')"
  using prep_not_waiting[OF assms(1-3)] assms(4)
  by (auto simp: same_waits_def relocate_discard_cmd_def pend_add_tail_def list_del_def filter_id_conv)

section \<open>Removing a command\<close>

lemma detach_root:
  assumes "acct dcc" "root dcc = xs @ c # ys"
  shows "root (detach_discard_cmd dcc c) = xs @ ys"
proof -
  have "filter (\<lambda>x. dc_id x \<noteq> dc_id c) zs = zs" if "set zs \<subseteq> set xs \<union> set ys" for zs
    using acct_split[OF assms] that by (intro filter_True) auto
  from this[of xs] this[of ys] assms(2) show ?thesis
    by (simp add: detach_discard_cmd_def list_del_def Let_def)
qed

lemma detach_frame [simp]:
  "next_id (detach_discard_cmd d c) = next_id d"
  "pend_list (detach_discard_cmd d c) = (\<lambda>k. filter (\<lambda>j. j \<noteq> dc_id c) (pend_list d k))"
  "wait_list (detach_discard_cmd d c) = filter (\<lambda>j. j \<noteq> dc_id c) (wait_list d)"
  "fstrim_list (detach_discard_cmd d c) = filter (\<lambda>j. j \<noteq> dc_id c) (fstrim_list d)"
  "undiscard_blks (detach_discard_cmd d c) = sub32 (undiscard_blks d) (elen c)"
  "discard_cmd_cnt (detach_discard_cmd d c) = discard_cmd_cnt d - 1"
  by (simp_all add: detach_discard_cmd_def list_del_def Let_def)

lemma detach_acct:
  assumes a: "acct dcc" and r: "root dcc = xs @ c # ys"
  shows "acct (detach_discard_cmd dcc c)"
proof -
  let ?d = "detach_discard_cmd dcc c"
  have r': "root ?d = xs @ ys" using detach_root[OF a r] .
  have ne: "x \<in> set xs \<union> set ys \<Longrightarrow> dc_id x \<noteq> dc_id c" for x using acct_split[OF a r] .
  have pend: "i \<in> set (pend_list dcc k) \<longleftrightarrow>
      (\<exists>x \<in> set (xs @ c # ys). dc_id x = i \<and> dc_state x = D_PREP \<and> plist_idx (dlen x) = k)" for i k
    using a unfolding acct_def pend_ok_def r by blast
  have wait: "i \<in> set (wait_list dcc) \<union> set (fstrim_list dcc) \<longleftrightarrow>
      (\<exists>x \<in> set (xs @ c # ys). dc_id x = i \<and> dc_state x \<noteq> D_PREP)" for i
    using a unfolding acct_def wait_ok_def r set_append by blast
  have "pend_ok ?d"
    unfolding pend_ok_def r'
  proof (intro conjI allI)
    fix k show "distinct (pend_list ?d k)" using a by (simp add: acct_def pend_ok_def)
  next
    fix k i
    show "i \<in> set (pend_list ?d k) \<longleftrightarrow>
        (\<exists>x \<in> set (xs @ ys). dc_id x = i \<and> dc_state x = D_PREP \<and> plist_idx (dlen x) = k)"
      using pend[of i k] ne by auto
  qed
  moreover have "wait_ok ?d"
    unfolding wait_ok_def r'
  proof (intro conjI allI)
    show "distinct (wait_list ?d @ fstrim_list ?d)" using a by (auto simp: acct_def wait_ok_def)
  next
    fix i
    show "i \<in> set (wait_list ?d @ fstrim_list ?d) \<longleftrightarrow> (\<exists>x \<in> set (xs @ ys). dc_id x = i \<and> dc_state x \<noteq> D_PREP)"
      using wait[of i] ne by auto
  qed
  moreover have "undiscard_blks ?d = u32 (total_len (xs @ ys))"
  proof -
    have "eend c < 2 ^ 32" using a r by (simp add: acct_def)
    then have "elen c < 2 ^ 32" by (simp add: eend_def)
    from sub32_u32_add[OF this, of "total_len xs + total_len ys"] show ?thesis
      using a r by (simp add: acct_def add.left_commute)
  qed
  ultimately show ?thesis using a r r' by (simp add: acct_def)
qed

lemma remove_prep:
  assumes "acct dcc" "root dcc = xs @ c # ys" "bio_ref c = 0"
  shows "acct (remove_discard_cmd dcc c)" "root (remove_discard_cmd dcc c) = xs @ ys"
    "next_id (remove_discard_cmd dcc c) = next_id dcc"
  using detach_acct[OF assms(1,2)] detach_root[OF assms(1,2)] assms(3) by (simp_all add: remove_discard_cmd_def)

lemma remove_waits:
  assumes "acct d" "root d = xs @ c # ys" "dc_state c = D_PREP"
  shows "same_waits d (remove_discard_cmd d c)"
  using prep_not_waiting[OF assms]
  by (auto simp: same_waits_def remove_discard_cmd_def filter_id_conv)

section \<open>Adding a command\<close>

lemma insert_frame:
  "root (insert_discard_tree sbi dcc bd lo start len) = rb_insert (new_cmd sbi (next_id dcc) bd lo start len) (root dcc)"
  "next_id (insert_discard_tree sbi dcc bd lo start len) = next_id dcc + 1"
  "pend_list (insert_discard_tree sbi dcc bd lo start len) =
     (pend_list dcc)(plist_idx len := pend_list dcc (plist_idx len) @ [next_id dcc])"
  "wait_list (insert_discard_tree sbi dcc bd lo start len) = wait_list dcc"
  "fstrim_list (insert_discard_tree sbi dcc bd lo start len) = fstrim_list dcc"
  "undiscard_blks (insert_discard_tree sbi dcc bd lo start len) = u32 (undiscard_blks dcc + len)"
  "discard_cmd_cnt (insert_discard_tree sbi dcc bd lo start len) = discard_cmd_cnt dcc + 1"
  by (simp_all add: insert_discard_tree_def attach_discard_cmd_def create_discard_cmd_def Let_def pend_add_tail_def
      new_cmd_def)

lemma rb_insert_props:
  "set (rb_insert c cs) = insert c (set cs)" "length (rb_insert c cs) = Suc (length cs)"
  "total_len (rb_insert c cs) = elen c + total_len cs" "blocks (rb_insert c cs) = {ofs c..<eend c} \<union> blocks cs"
  "distinct (map dc_id (rb_insert c cs)) \<longleftrightarrow> dc_id c \<notin> dc_id ` set cs \<and> distinct (map dc_id cs)"
proof -
  let ?lt = "\<lambda>x. lstart x < lstart c"
  have m: "mset (rb_insert c cs) = add_mset c (mset cs)"
    by (simp add: rb_insert_def mset_filter)
  show s: "set (rb_insert c cs) = insert c (set cs)" by (auto simp: rb_insert_def)
  show "length (rb_insert c cs) = Suc (length cs)" using arg_cong[OF m, of size] by simp
  show "total_len (rb_insert c cs) = elen c + total_len cs"
    using arg_cong[OF m, of "\<lambda>M. sum_mset (image_mset elen M)"] by (simp add: total_len_def sum_mset_sum_list flip: mset_map)
  show "blocks (rb_insert c cs) = {ofs c..<eend c} \<union> blocks cs"
    unfolding blocks_def s by (auto simp: covers_def)
  have "mset (map dc_id (rb_insert c cs)) = mset (map dc_id (c # cs))" using m by simp
  then have "distinct (map dc_id (rb_insert c cs)) \<longleftrightarrow> distinct (map dc_id (c # cs))"
    by (rule mset_eq_imp_distinct_iff)
  then show "distinct (map dc_id (rb_insert c cs)) \<longleftrightarrow> dc_id c \<notin> dc_id ` set cs \<and> distinct (map dc_id cs)" by simp
qed

lemma insert_acct:
  assumes a: "acct dcc" and e: "lo + len < 2 ^ 32"
  shows "acct (insert_discard_tree sbi dcc bd lo start len)"
proof -
  let ?d = "insert_discard_tree sbi dcc bd lo start len" and ?n = "new_cmd sbi (next_id dcc) bd lo start len"
  have n: "dc_id ?n = next_id dcc" "dc_state ?n = D_PREP" "bio_ref ?n = 0" "dc_ref ?n = 0" "dlen ?n = len" "eend ?n = lo + len"
    by (simp_all add: new_cmd_def eend_def)
  have r': "set (root ?d) = insert ?n (set (root dcc))" by (simp add: insert_frame rb_insert_props)
  have fresh: "c \<in> set (root dcc) \<Longrightarrow> dc_id c < next_id dcc" for c using a by (simp add: acct_def)
  have pend: "i \<in> set (pend_list dcc k) \<longleftrightarrow>
      (\<exists>x \<in> set (root dcc). dc_id x = i \<and> dc_state x = D_PREP \<and> plist_idx (dlen x) = k)" for i k
    using a unfolding acct_def pend_ok_def by blast
  then have nin: "next_id dcc \<notin> set (pend_list dcc k)" for k using fresh by fastforce
  have "pend_ok ?d"
    unfolding pend_ok_def r'
  proof (intro conjI allI)
    fix k show "distinct (pend_list ?d k)" using a nin by (simp add: acct_def pend_ok_def insert_frame)
  next
    fix k i
    show "i \<in> set (pend_list ?d k) \<longleftrightarrow>
        (\<exists>x \<in> insert ?n (set (root dcc)). dc_id x = i \<and> dc_state x = D_PREP \<and> plist_idx (dlen x) = k)"
      using pend[of i k] by (auto simp: insert_frame n)
  qed
  moreover have "wait_ok ?d" using a n unfolding acct_def wait_ok_def r' insert_frame(4,5) by auto
  moreover have "distinct (map dc_id (root ?d))"
  proof -
    have "dc_id ?n \<notin> dc_id ` set (root dcc)" using fresh n(1) by force
    then show ?thesis using a by (simp add: insert_frame(1) rb_insert_props acct_def)
  qed
  moreover have "undiscard_blks ?d = u32 (total_len (root ?d))"
    using a u32_add_left[of "total_len (root dcc)" len]
    by (simp add: insert_frame rb_insert_props n acct_def add.commute)
  moreover have "discard_cmd_cnt ?d = length (root ?d)"
    using a by (simp add: insert_frame rb_insert_props acct_def)
  moreover have "\<forall>c \<in> set (root ?d). dc_id c < next_id ?d \<and> eend c < 2 ^ 32 \<and> (dc_state c = D_PREP \<longrightarrow> bio_ref c = 0 \<and> dc_ref c = 0)"
    using a n e by (auto simp: r' insert_frame(2) acct_def less_Suc_eq)
  ultimately show ?thesis by (simp add: acct_def)
qed

lemma rb_insert_split:
  assumes "\<And>x. x \<in> set xs \<Longrightarrow> lstart x < lstart c" "\<And>y. y \<in> set ys \<Longrightarrow> \<not> lstart y < lstart c"
  shows "rb_insert c (xs @ ys) = xs @ c # ys"
proof -
  have "filter (\<lambda>x. lstart x < lstart c) xs = xs" "filter (\<lambda>x. \<not> lstart x < lstart c) xs = []"
    using assms(1) by (auto intro: filter_True filter_False)
  moreover have "filter (\<lambda>x. lstart x < lstart c) ys = []" "filter (\<lambda>x. \<not> lstart x < lstart c) ys = ys"
    using assms(2) by (auto intro: filter_True filter_False)
  ultimately show ?thesis unfolding rb_insert_def filter_append by simp
qed

end
