(* ===== verification/Discard_Merge.thy ===== *)
theory Discard_Merge
  imports Discard_Inv
begin

text \<open>
  Adding a range to the tree (\<open>__update_discard_tree_range\<close>): the loop ends, the tree stays
  ordered and disjoint, it covers exactly the blocks it covered before and the range, and
  commands that were already submitted are untouched.
\<close>

section \<open>Merging\<close>

lemma acct_undiscard_add:
  "acct dcc \<Longrightarrow> total_len cmds = total_len (root dcc) + n \<Longrightarrow> u32 (undiscard_blks dcc + n) = u32 (total_len cmds)"
  by (simp add: acct_def u32_add_left)

lemma merge_back_ok:
  assumes a: "acct dcc" and r: "root dcc = xs @ p # ys" and p: "dc_state p = D_PREP"
    and e: "eend p + elen di < 2 ^ 32"
  defines "p' \<equiv> p\<lparr>elen := elen p + elen di\<rparr>"
  shows "fst (merge_back dcc p di) = p'" "acct (snd (merge_back dcc p di))"
    "root (snd (merge_back dcc p di)) = xs @ p' # ys" "same_waits dcc (snd (merge_back dcc p di))"
proof -
  have bio: "bio_ref p = 0" "dc_ref p = 0" using a r p by (simp_all add: acct_def)
  have u: "u32 (undiscard_blks dcc + elen di) = u32 (total_len (xs @ p' # ys))"
    by (rule acct_undiscard_add[OF a]) (simp add: r p'_def)
  have id: "dc_id p' = dc_id p" "dc_state p' = D_PREP" "bio_ref p' = 0" "dc_ref p' = 0" "eend p' < 2 ^ 32"
    using p bio e by (simp_all add: p'_def eend_def)
  show "fst (merge_back dcc p di) = p'" by (simp add: merge_back_def p'_def Let_def)
  show "acct (snd (merge_back dcc p di))"
    using resize_acct[OF a r p id u] by (simp add: merge_back_def p'_def Let_def)
  show "root (snd (merge_back dcc p di)) = xs @ p' # ys"
    using set_dc_split[OF a r id(1)] by (simp add: merge_back_def p'_def Let_def)
  show "same_waits dcc (snd (merge_back dcc p di))"
    using resize_waits[OF a r p id(1)] by (simp add: merge_back_def p'_def Let_def)
qed

definition grown :: "discard_cmd \<Rightarrow> discard_info \<Rightarrow> discard_cmd" where
  "grown n di = n\<lparr>ofs := lstart di, elen := elen n + elen di, pstart := pstart di\<rparr>"

lemma grown_simps [simp]:
  "ofs (grown n di) = ofs di" "elen (grown n di) = elen n + elen di" "dc_id (grown n di) = dc_id n"
  "dc_state (grown n di) = dc_state n" "bio_ref (grown n di) = bio_ref n" "dc_ref (grown n di) = dc_ref n"
  by (simp_all add: grown_def)

lemma merge_front_ok:
  assumes a: "acct dcc" and r: "root dcc = xs @ n # ys" and n: "dc_state n = D_PREP" and adj: "eend di = lstart n"
  shows "acct (merge_front dcc n di None)" "root (merge_front dcc n di None) = xs @ grown n di # ys"
    "same_waits dcc (merge_front dcc n di None)"
    "\<lbrakk>xs = xs0 @ [t]; bio_ref t = 0; dc_state t = D_PREP\<rbrakk> \<Longrightarrow> same_waits dcc (merge_front dcc n di (Some t))"
    "\<lbrakk>xs = xs0 @ [t]; bio_ref t = 0\<rbrakk> \<Longrightarrow> acct (merge_front dcc n di (Some t))"
    "\<lbrakk>xs = xs0 @ [t]; bio_ref t = 0\<rbrakk> \<Longrightarrow> root (merge_front dcc n di (Some t)) = xs0 @ grown n di # ys"
proof -
  have bio: "bio_ref n = 0" "dc_ref n = 0" and en: "eend n < 2 ^ 32" using a r n by (simp_all add: acct_def)
  have u: "u32 (undiscard_blks dcc + elen di) = u32 (total_len (xs @ grown n di # ys))"
    by (rule acct_undiscard_add[OF a]) (simp add: r)
  have e: "eend (grown n di) < 2 ^ 32" using adj en by (simp add: eend_def)
  let ?d = "relocate_discard_cmd
      ((set_dc (grown n di) dcc)\<lparr>undiscard_blks := u32 (undiscard_blks dcc + elen di)\<rparr>) (grown n di)"
  have d: "acct ?d" using resize_acct[OF a r n _ _ _ _ e u] n bio by simp
  have rd: "root ?d = xs @ grown n di # ys" using set_dc_split[OF a r, of "grown n di"] by simp
  have m: "merge_front dcc n di None = ?d" "merge_front dcc n di (Some t) = remove_discard_cmd ?d t"
    by (simp_all add: merge_front_def grown_def Let_def)
  show "acct (merge_front dcc n di None)" "root (merge_front dcc n di None) = xs @ grown n di # ys"
    using d rd m by simp_all
  have w: "same_waits dcc ?d" using resize_waits[OF a r n, of "grown n di"] by simp
  then show "same_waits dcc (merge_front dcc n di None)" using m by simp
  show "\<lbrakk>xs = xs0 @ [t]; bio_ref t = 0; dc_state t = D_PREP\<rbrakk> \<Longrightarrow> same_waits dcc (merge_front dcc n di (Some t))"
    using remove_waits[OF d, of xs0 t "grown n di # ys"] rd m(2) same_waits_trans[OF w] by simp
  show "\<lbrakk>xs = xs0 @ [t]; bio_ref t = 0\<rbrakk> \<Longrightarrow> acct (merge_front dcc n di (Some t))"
    "\<lbrakk>xs = xs0 @ [t]; bio_ref t = 0\<rbrakk> \<Longrightarrow> root (merge_front dcc n di (Some t)) = xs0 @ grown n di # ys"
    using remove_prep(1,2)[OF d, of xs0 t "grown n di # ys"] rd m(2) by simp_all
qed

section \<open>One round\<close>

text \<open>The gap \<open>di\<close> between the commands \<open>xs\<close> and \<open>ys\<close> is filled in one of these ways.\<close>

lemma update_round_cases:
  assumes a: "acct dcc" and r: "root dcc = xs @ ys"
    and prev: "prev = None \<or> (\<exists>xs0 p. xs = xs0 @ [p] \<and> prev = Some p)"
    and nxt: "nxt = (case ys of [] \<Rightarrow> None | y # _ \<Rightarrow> Some y)"
    and lo: "\<forall>x \<in> set xs. 0 < elen x \<and> eend x \<le> lstart di"
    and hi: "\<forall>y \<in> set ys. eend di \<le> lstart y" and e: "eend di < 2 ^ 32"
  obtains (skip) "elen di = 0" "update_round env sbi bd dcc prev nxt di = dcc"
  | (ins) c where "0 < elen di" "acct (update_round env sbi bd dcc prev nxt di)"
      "root (update_round env sbi bd dcc prev nxt di) = xs @ c # ys"
      "ofs c = ofs di" "elen c = elen di" "dc_state c = D_PREP"
      "same_waits dcc (update_round env sbi bd dcc prev nxt di)"
  | (mback) xs0 p where "0 < elen di" "acct (update_round env sbi bd dcc prev nxt di)" "xs = xs0 @ [p]"
      "root (update_round env sbi bd dcc prev nxt di) = xs0 @ p\<lparr>elen := elen p + elen di\<rparr> # ys"
      "eend p = ofs di" "dc_state p = D_PREP"
      "same_waits dcc (update_round env sbi bd dcc prev nxt di)"
  | (mfront) y zs where "0 < elen di" "acct (update_round env sbi bd dcc prev nxt di)" "ys = y # zs"
      "root (update_round env sbi bd dcc prev nxt di) = xs @ grown y di # zs"
      "eend di = ofs y" "dc_state y = D_PREP"
      "same_waits dcc (update_round env sbi bd dcc prev nxt di)"
  | (mboth) xs0 p y zs where "0 < elen di" "acct (update_round env sbi bd dcc prev nxt di)"
      "xs = xs0 @ [p]" "ys = y # zs"
      "root (update_round env sbi bd dcc prev nxt di) =
         xs0 @ grown y (di_of (p\<lparr>elen := elen p + elen di\<rparr>)) # zs"
      "eend p = ofs di" "eend di = ofs y" "dc_state p = D_PREP" "dc_state y = D_PREP"
      "same_waits dcc (update_round env sbi bd dcc prev nxt di)"
proof (cases "elen di = 0")
  case True
  then show ?thesis using skip by (simp add: update_round_def)
next
  case False
  then have pos: "0 < elen di" by simp
  show ?thesis
  proof (cases "can_merge_back env bd prev di")
    case nb: False
    have bs: "back_step env bd dcc prev di = (None, di, dcc)"
      using nb by (cases prev) (simp_all add: back_step_def)
    show ?thesis
    proof (cases "can_merge_front env bd nxt di")
      case nf: False
      have fs: "front_step env bd dcc nxt di None = (False, dcc)"
        using nf by (cases nxt) (simp_all add: front_step_def)
      let ?c = "new_cmd sbi (next_id dcc) bd (lstart di) (pstart di) (dlen di)"
      have eq: "update_round env sbi bd dcc prev nxt di =
          insert_discard_tree sbi dcc bd (lstart di) (pstart di) (dlen di)"
        using pos by (simp add: update_round_def bs fs count_merge_def)
      have ne: "ofs x < eend x" if "x \<in> set xs" for x using lo that by (simp add: eend_def)
      have "rb_insert ?c (xs @ ys) = xs @ ?c # ys"
      proof (rule rb_insert_split)
        show "x \<in> set xs \<Longrightarrow> lstart x < lstart ?c" for x
          using lo ne[of x] by (force simp: new_cmd_def)
        show "y \<in> set ys \<Longrightarrow> \<not> lstart y < lstart ?c" for y
          using hi pos by (force simp: new_cmd_def eend_def)
      qed
      then have "root (update_round env sbi bd dcc prev nxt di) = xs @ ?c # ys"
        by (simp add: eq insert_frame r)
      moreover have "acct (update_round env sbi bd dcc prev nxt di)"
        unfolding eq using insert_acct[OF a, of "lstart di" "dlen di"] e by (simp add: eend_def)
      moreover have "same_waits dcc (update_round env sbi bd dcc prev nxt di)"
        by (simp add: eq same_waits_def insert_frame)
      ultimately show ?thesis using ins[OF pos, of ?c] by (simp add: new_cmd_def)
    next
      case f: True
      then obtain y zs where y: "ys = y # zs" "nxt = Some y" "dc_state y = D_PREP" "eend di = ofs y"
        using nxt by (cases ys) (auto simp: can_merge_front_def is_discard_front_mergeable_def is_discard_mergeable_def)
      have fs: "front_step env bd dcc nxt di None = (True, merge_front dcc y di None)"
        using f y(2) by (simp add: front_step_def)
      have eq: "update_round env sbi bd dcc prev nxt di = count_merge False True (merge_front dcc y di None)"
        using pos by (simp add: update_round_def bs fs)
      have ry: "root dcc = xs @ y # zs" using r y by simp
      note m = merge_front_ok(1-3)[OF a ry y(3,4)]
      show ?thesis using mfront[OF pos _ y(1) _ y(4,3)] m by (simp add: eq same_waits_def)
    qed
  next
    case b: True
    then obtain xs0 p where p: "xs = xs0 @ [p]" "prev = Some p" "dc_state p = D_PREP" "eend p = ofs di"
      using prev by (auto simp: can_merge_back_def is_discard_back_mergeable_def is_discard_mergeable_def)
    let ?p = "p\<lparr>elen := elen p + elen di\<rparr>"
    have rp: "root dcc = xs0 @ p # ys" using r p by simp
    have ep: "eend p + elen di < 2 ^ 32" using p(4) e by (simp add: eend_def)
    define d1 where "d1 = snd (merge_back dcc p di)"
    note m = merge_back_ok[OF a rp p(3) ep]
    have bs: "back_step env bd dcc prev di = (Some ?p, di_of ?p, d1)"
      using b p(2) m(1) by (simp add: back_step_def Let_def d1_def)
    have d1: "acct d1" "root d1 = (xs0 @ [?p]) @ ys" and w1: "same_waits dcc d1" using m by (simp_all add: d1_def)
    show ?thesis
    proof (cases "can_merge_front env bd nxt (di_of ?p)")
      case nf: False
      have "front_step env bd d1 nxt (di_of ?p) (Some ?p) = (False, d1)"
        using nf by (cases nxt) (simp_all add: front_step_def)
      then have eq: "update_round env sbi bd dcc prev nxt di = count_merge True False d1"
        using pos by (simp add: update_round_def bs)
      show ?thesis using mback[OF pos _ p(1) _ p(4,3)] d1 w1 by (simp add: eq same_waits_def)
    next
      case f: True
      then obtain y zs where y: "ys = y # zs" "nxt = Some y" "dc_state y = D_PREP" "eend (di_of ?p) = ofs y"
        using nxt by (cases ys) (auto simp: can_merge_front_def is_discard_front_mergeable_def is_discard_mergeable_def)
      have "front_step env bd d1 nxt (di_of ?p) (Some ?p) = (True, merge_front d1 y (di_of ?p) (Some ?p))"
        using f y(2) by (simp add: front_step_def)
      then have eq: "update_round env sbi bd dcc prev nxt di =
          count_merge True True (merge_front d1 y (di_of ?p) (Some ?p))"
        using pos by (simp add: update_round_def bs)
      have ry: "root d1 = (xs0 @ [?p]) @ y # zs" using d1 y by simp
      have bio: "bio_ref ?p = 0" using a rp p(3) by (simp add: acct_def)
      note mf = merge_front_ok(5,6)[OF d1(1) ry y(3,4) refl bio]
      have pp: "dc_state ?p = D_PREP" using p(3) by simp
      note w2 = same_waits_trans[OF w1 merge_front_ok(4)[OF d1(1) ry y(3,4) refl bio pp]]
      have adj: "eend di = ofs y" using y(4) p(4) by (simp add: di_of_def eend_def)
      show ?thesis using mboth[OF pos _ p(1) y(1) _ p(4) adj p(3) y(3)] mf w2 by (simp add: eq same_waits_def)
    qed
  qed
qed

definition busy :: "discard_cmd list \<Rightarrow> discard_cmd list" where
  "busy cmds = filter (\<lambda>c. dc_state c \<noteq> D_PREP) cmds"

lemma busy_simps [simp]:
  "busy [] = []" "busy (xs @ ys) = busy xs @ busy ys"
  "busy (c # cs) = (if dc_state c = D_PREP then busy cs else c # busy cs)"
  by (simp_all add: busy_def)

definition round_ok :: "discard_cmd_control \<Rightarrow> discard_cmd list \<Rightarrow> discard_info \<Rightarrow> discard_cmd_control \<Rightarrow> bool" where
  "round_ok dcc ys di d' \<longleftrightarrow>
     acct d' \<and> disjoint_sorted (root d') \<and>
     blocks (root d') = blocks (root dcc) \<union> {ofs di..<eend di} \<and> busy (root d') = busy (root dcc) \<and>
     same_waits dcc d' \<and>
     (\<forall>y zs. ys = y # zs \<longrightarrow> (\<exists>xs' y'. root d' = xs' @ y' # zs \<and> dc_id y' = dc_id y \<and> eend y' = eend y))"

lemma update_round_ok:
  assumes a: "acct dcc" and ds: "disjoint_sorted (root dcc)" and r: "root dcc = xs @ ys"
    and prev: "prev = None \<or> (\<exists>xs0 p. xs = xs0 @ [p] \<and> prev = Some p)"
    and nxt: "nxt = (case ys of [] \<Rightarrow> None | y # _ \<Rightarrow> Some y)"
    and lo: "\<And>x. x \<in> set xs \<Longrightarrow> eend x \<le> ofs di" and hi: "\<And>y. y \<in> set ys \<Longrightarrow> eend di \<le> ofs y"
    and e: "eend di < 2 ^ 32"
  shows "round_ok dcc ys di (update_round env sbi bd dcc prev nxt di)"
proof -
  have lo': "\<forall>x \<in> set xs. 0 < elen x \<and> eend x \<le> ofs di" and hi': "\<forall>y \<in> set ys. eend di \<le> ofs y"
    using ds lo hi r by (auto simp: disjoint_sorted_def)
  have dsx: "disjoint_sorted xs" "disjoint_sorted ys" and ap: "\<forall>x \<in> set xs. \<forall>y \<in> set ys. eend x \<le> ofs y"
    using ds r by (simp_all add: disjoint_sorted_append)
  have lodi: "ofs di \<le> eend di" by simp
  from a r prev nxt lo' hi' e show ?thesis
  proof (cases rule: update_round_cases[where env = env and sbi = sbi and bd = bd])
    case skip
    then show ?thesis
      using a ds r by (fastforce simp: round_ok_def eend_def same_waits_def)
  next
    case (ins c)
    have ec: "eend c = eend di" using ins by (simp add: eend_def)
    have "disjoint_sorted (xs @ c # ys)"
      using dsx ap ins lo hi ec by (auto simp: disjoint_sorted_simps)
    moreover have "\<exists>xs' y'. xs @ c # ys = xs' @ y' # zs \<and> dc_id y' = dc_id y \<and> eend y' = eend y"
      if "ys = y # zs" for y zs using that by (intro exI[of _ "xs @ [c]"] exI[of _ y]) simp
    ultimately show ?thesis
      using ins ec r by (auto simp: round_ok_def)
  next
    case (mback xs0 p)
    let ?p = "p\<lparr>elen := elen p + elen di\<rparr>"
    have ep: "eend ?p = eend di" "ofs ?p = ofs p" using mback(5) by (simp_all add: eend_def)
    have "disjoint_sorted (xs0 @ ?p # ys)"
      using dsx ap hi ep mback(3) by (auto simp: disjoint_sorted_simps)
    moreover have "{ofs p..<eend di} = {ofs p..<eend p} \<union> {ofs di..<eend di}"
    proof -
      have "ofs p \<le> ofs di" using mback(5) by (metis ofs_le_eend)
      then show ?thesis using ivl_disj_un_two(3)[of "ofs p" "eend p" "eend di"] mback(5) by simp
    qed
    moreover have "\<exists>xs' y'. xs0 @ ?p # ys = xs' @ y' # zs \<and> dc_id y' = dc_id y \<and> eend y' = eend y"
      if "ys = y # zs" for y zs using that by (intro exI[of _ "xs0 @ [?p]"] exI[of _ y]) simp
    ultimately show ?thesis
      using mback(2-4,6,7) ep r by (auto simp: round_ok_def)
  next
    case (mfront y zs)
    have ey: "eend (grown y di) = eend y" using mfront(5) by (simp add: eend_def)
    have "disjoint_sorted (xs @ grown y di # zs)"
      using dsx ap lo ey mfront(3) by (auto simp: disjoint_sorted_simps)
    moreover have "{ofs di..<eend y} = {ofs di..<eend di} \<union> {ofs y..<eend y}"
      using ivl_disj_un_two(3)[of "ofs di" "ofs y" "eend y"] lodi mfront(5) by simp
    ultimately show ?thesis
      using mfront(2-4,6,7) ey r by (auto simp: round_ok_def)
  next
    case (mboth xs0 p y zs)
    let ?g = "grown y (di_of (p\<lparr>elen := elen p + elen di\<rparr>))"
    have eg: "eend ?g = eend y" "ofs ?g = ofs p" using mboth(6,7) by (simp_all add: eend_def di_of_def)
    have "disjoint_sorted (xs0 @ ?g # zs)"
      using dsx ap eg mboth(3,4) by (auto simp: disjoint_sorted_simps di_of_def)
    moreover have "{ofs p..<eend y} = {ofs p..<eend p} \<union> {ofs di..<eend di} \<union> {ofs y..<eend y}"
    proof -
      have "ofs p \<le> ofs y" using mboth(6,7) ofs_le_eend[of p] lodi by linarith
      then show ?thesis
        using ivl_disj_un_two(3)[of "ofs p" "ofs di" "ofs y"] ivl_disj_un_two(3)[of "ofs p" "ofs y" "eend y"]
          mboth(6,7) ofs_le_eend[of p] lodi by simp
    qed
    ultimately show ?thesis
      using mboth(2-5,8-10) eg r by (auto simp: round_ok_def)
  qed
qed

section \<open>The loop\<close>

lemma nxt_find:
  assumes "acct dcc" "root dcc = xs @ ys"
  shows "Option.bind (case ys of [] \<Rightarrow> None | y # _ \<Rightarrow> Some (dc_id y)) (find_dc dcc) =
    (case ys of [] \<Rightarrow> None | y # _ \<Rightarrow> Some y)"
  using assms find_dc_split[OF assms(1)] by (cases ys) auto

lemma update_loop_ok:
  assumes "acct dcc" "disjoint_sorted (root dcc)" "root dcc = xs @ p # ys" "length ys < n"
    and "\<forall>y \<in> set ys. lo \<le> ofs y" "end' < 2 ^ 32"
  shows "\<exists>d'. update_loop env sbi bd lo start end' n dcc (Some (dc_id p))
      (case ys of [] \<Rightarrow> None | y # _ \<Rightarrow> Some (dc_id y)) di = Some d' \<and>
    acct d' \<and> disjoint_sorted (root d') \<and> busy (root d') = busy (root dcc) \<and>
    same_waits dcc d' \<and> blocks (root d') = blocks (root dcc) \<union> {max (eend p) lo..<end'}"
  using assms
proof (induction n arbitrary: dcc xs p ys di)
  case (Suc n)
  note a = Suc.prems(1) and ds = Suc.prems(2) and r = Suc.prems(3)
  let ?nxt = "case ys of [] \<Rightarrow> None | y # _ \<Rightarrow> Some y"
  let ?l = "max (eend p) lo"
  have fp: "find_dc dcc (dc_id p) = Some p" using find_dc_split[OF a r] .
  have fn: "Option.bind (case ys of [] \<Rightarrow> None | y # _ \<Rightarrow> Some (dc_id y)) (find_dc dcc) = ?nxt"
    using nxt_find[OF a, of "xs @ [p]" ys] r by simp
  have l: "(if eend p < lo then lo else eend p) = ?l" by simp
  show ?case
  proof (cases "?l < end'")
    case False
    then have "update_gap lo start end' (Some p) ?nxt di = None"
      by (auto simp: update_gap_def Let_def)
    moreover have empty: "{?l..<end'} = {}" using False by simp
    ultimately show ?thesis unfolding empty using fp fn a ds by (simp add: same_waits_def)
  next
    case True
    define len where "len = (case ys of [] \<Rightarrow> end' - ?l | y # _ \<Rightarrow> if ofs y > end' then end' - ?l else ofs y - ?l)"
    define gap where "gap = \<lparr>ofs = ?l, elen = len, pstart = start + ?l - lo\<rparr>"
    have ly: "?l \<le> ofs y" if "y \<in> set ys" for y
      using ds r that Suc.prems(5) by (auto simp: disjoint_sorted_simps)
    have g: "update_gap lo start end' (Some p) ?nxt di = Some gap"
      using True ly by (auto simp: update_gap_def Let_def gap_def len_def sub32_le split: list.splits)
    have og: "ofs gap = ?l" by (simp add: gap_def)
    have eg: "eend gap = (case ys of [] \<Rightarrow> end' | y # _ \<Rightarrow> min end' (ofs y))"
      using True ly by (auto simp: gap_def eend_def len_def split: list.splits)
    have hi: "eend gap \<le> ofs y" if "y \<in> set ys" for y
      using that ds r by (auto simp: eg disjoint_sorted_simps split: list.splits)
        (meson min.coboundedI2 ofs_le_eend order_trans)
    have e32: "eend gap < 2 ^ 32" using Suc.prems(6) by (auto simp: eg split: list.splits)
    have lo': "eend x \<le> ofs gap" if "x \<in> set (xs @ [p])" for x
      using that ds r og by (auto simp: disjoint_sorted_simps) (meson max.coboundedI1 ofs_le_eend order_trans)
    have r2: "root dcc = (xs @ [p]) @ ys" using r by simp
    define d1 where "d1 = update_round env sbi bd dcc (Some p) ?nxt gap"
    have ok: "round_ok dcc ys gap d1"
      unfolding d1_def by (rule update_round_ok[OF a ds r2 _ refl lo' hi e32]) auto
    show ?thesis
    proof (cases ys)
      case Nil
      have "d1 = update_round env sbi bd dcc (Some p) None gap" by (simp add: d1_def Nil)
      with ok eg og Nil show ?thesis
        using fp fn g by (simp add: round_ok_def)
    next
      case (Cons y zs)
      obtain xs' y' where y': "root d1 = xs' @ y' # zs" "dc_id y' = dc_id y" "eend y' = eend y"
        using ok Cons by (auto simp: round_ok_def)
      have d1: "acct d1" "disjoint_sorted (root d1)" using ok by (simp_all add: round_ok_def)
      have nx: "rb_next_id (root d1) (dc_id y) = (case zs of [] \<Rightarrow> None | z # _ \<Rightarrow> Some (dc_id z))"
        using rb_next_id_split[of xs' y' zs] acct_split[OF d1(1) y'(1)] y'(1,2) by simp
      obtain d' where d': "update_loop env sbi bd lo start end' n d1 (Some (dc_id y')) (rb_next_id (root d1) (dc_id y)) gap = Some d'"
        "acct d'" "disjoint_sorted (root d')" "busy (root d') = busy (root d1)" "same_waits d1 d'"
        "blocks (root d') = blocks (root d1) \<union> {max (eend y') lo..<end'}"
        using Suc.IH[OF d1 y'(1), of gap] Suc.prems(4-6) Cons nx by auto
      have "update_loop env sbi bd lo start end' (Suc n) dcc (Some (dc_id p))
          (case ys of [] \<Rightarrow> None | y # _ \<Rightarrow> Some (dc_id y)) di = Some d'"
      proof -
        have "d1 = update_round env sbi bd dcc (Some p) (Some y) gap" by (simp add: d1_def Cons)
        with fp fn g d'(1) y'(2) Cons show ?thesis by (simp add: Let_def)
      qed
      moreover have "blocks (root d') = blocks (root dcc) \<union> {?l..<end'}"
      proof -
        have "{ofs y..<eend y} \<subseteq> blocks (root dcc)" by (auto simp: r Cons)
        moreover have "{?l..<end'} = {?l..<min end' (ofs y)} \<union> {ofs y..<end'}"
          using ly[of y] True Cons by auto
        moreover have "{ofs y..<end'} \<subseteq> {ofs y..<eend y} \<union> {max (eend y) lo..<end'}"
          using ly[of y] Cons by auto
        moreover have "{max (eend y) lo..<end'} \<subseteq> {ofs y..<end'}"
          using max.coboundedI1[OF ofs_le_eend[of y], of lo] by auto
        ultimately show ?thesis
          using d'(6) ok eg og y'(3) Cons by (auto simp: round_ok_def)
      qed
      moreover have "same_waits dcc d'" using same_waits_trans[OF _ d'(5)] ok by (simp add: round_ok_def)
      ultimately show ?thesis using d' ok by (auto simp: round_ok_def)
    qed
  qed
qed simp

section \<open>The whole operation\<close>

lemma map_option_hd: "map_option f (case ys of [] \<Rightarrow> None | y # _ \<Rightarrow> Some y) = (case ys of [] \<Rightarrow> None | y # _ \<Rightarrow> Some (f y))"
  by (cases ys) auto

definition added :: "discard_cmd_control \<Rightarrow> nat \<Rightarrow> nat \<Rightarrow> discard_cmd_control \<Rightarrow> bool" where
  "added dcc lo end' d' \<longleftrightarrow>
     acct d' \<and> disjoint_sorted (root d') \<and> busy (root d') = busy (root dcc) \<and> same_waits dcc d' \<and>
     blocks (root d') = blocks (root dcc) \<union> {lo..<end'}"

lemma update_range_hit:
  assumes a: "acct dcc" and ds: "disjoint_sorted (root dcc)" and end32: "lo + len < 2 ^ 32"
    and hit: "find (covers lo) (root dcc) = Some p"
  shows "\<exists>d'. update_range env sbi dcc bd lo start len = Some d' \<and> added dcc lo (lo + len) d'"
proof -
  obtain xs ys where r: "root dcc = xs @ p # ys" and p: "covers lo p"
    using find_Some_split[OF hit] by blast
  have nxt: "first_after lo (root dcc) = (case ys of [] \<Rightarrow> None | y # _ \<Rightarrow> Some y)"
  proof -
    have "disjoint_sorted (xs @ p # ys)" using ds r by simp
    from neighbors_hit(3)[OF this p] disjoint_sorted_distinct[OF this] rb_next_in_split[of xs p ys]
    show ?thesis by (simp add: r)
  qed
  have after: "\<forall>y \<in> set ys. lo \<le> ofs y"
    using ds r p by (auto simp: disjoint_sorted_simps covers_def)
  have len: "length ys < length (root dcc) + 1" by (simp add: r)
  obtain d' where d': "update_loop env sbi bd lo start (lo + len) (length (root dcc) + 1) dcc (Some (dc_id p))
      (case ys of [] \<Rightarrow> None | y # _ \<Rightarrow> Some (dc_id y)) \<lparr>ofs = 0, elen = 0, pstart = 0\<rparr> = Some d'"
    "acct d'" "disjoint_sorted (root d')" "busy (root d') = busy (root dcc)" "same_waits dcc d'"
    "blocks (root d') = blocks (root dcc) \<union> {max (eend p) lo..<lo + len}"
    using update_loop_ok[OF a ds r len after end32] by blast
  have "update_range env sbi dcc bd lo start len = Some d'"
    using d'(1) by (simp add: update_range_def rb_lookup_ret_def hit nxt map_option_hd
        del: update_loop.simps)
  moreover have "blocks (root dcc) \<union> {max (eend p) lo..<lo + len} = blocks (root dcc) \<union> {lo..<lo + len}"
    using p by (auto simp: r covers_def)
  ultimately show ?thesis using d' by (auto simp: added_def)
qed

lemma update_range_prev:
  assumes a: "acct dcc" and ds: "disjoint_sorted (root dcc)" and end32: "lo + len < 2 ^ 32"
    and miss: "find (covers lo) (root dcc) = None"
    and r: "root dcc = (xs @ [p]) @ ys" and xs: "\<forall>x \<in> set (xs @ [p]). eend x \<le> lo" and ys: "\<forall>y \<in> set ys. lo < ofs y"
  shows "\<exists>d'. update_range env sbi dcc bd lo start len = Some d' \<and> added dcc lo (lo + len) d'"
proof -
  have nxt: "first_after lo (root dcc) = (case ys of [] \<Rightarrow> None | y # _ \<Rightarrow> Some y)"
    unfolding r using xs ys by (intro first_after_split) (auto intro: order_trans[OF ofs_le_eend])
  have ys': "\<forall>b \<in> set ys. lo < eend b" using ys by (auto intro: order_less_le_trans[OF _ ofs_le_eend])
  have prev: "last_before lo (root dcc) = Some p"
    unfolding r using last_before_split[OF xs ys'] by simp
  have r': "root dcc = xs @ p # ys" using r by simp
  have len: "length ys < length (root dcc) + 1" by (simp add: r)
  have after: "\<forall>y \<in> set ys. lo \<le> ofs y" using ys by auto
  obtain d' where d': "update_loop env sbi bd lo start (lo + len) (length (root dcc) + 1) dcc (Some (dc_id p))
      (case ys of [] \<Rightarrow> None | y # _ \<Rightarrow> Some (dc_id y)) \<lparr>ofs = 0, elen = 0, pstart = 0\<rparr> = Some d'"
    "acct d'" "disjoint_sorted (root d')" "busy (root d') = busy (root dcc)" "same_waits dcc d'"
    "blocks (root d') = blocks (root dcc) \<union> {max (eend p) lo..<lo + len}"
    using update_loop_ok[OF a ds r' len after end32] by blast
  have "update_range env sbi dcc bd lo start len = Some d'"
    using d'(1) by (simp add: update_range_def rb_lookup_ret_def miss nxt prev map_option_hd
        del: update_loop.simps)
  moreover have "max (eend p) lo = lo" using xs by simp
  ultimately show ?thesis using d' by (simp add: added_def)
qed

lemma update_range_first:
  assumes a: "acct dcc" and ds: "disjoint_sorted (root dcc)" and end32: "lo + len < 2 ^ 32"
    and miss: "find (covers lo) (root dcc) = None" and ys: "\<forall>y \<in> set (root dcc). lo < ofs y"
  shows "\<exists>d'. update_range env sbi dcc bd lo start len = Some d' \<and> added dcc lo (lo + len) d'"
proof -
  define gap where "gap = \<lparr>ofs = lo, elen = min (case root dcc of [] \<Rightarrow> len | y # _ \<Rightarrow> ofs y - lo) len, pstart = start\<rparr>"
  have ys': "\<forall>b \<in> set (root dcc). lo < eend b" using ys by (auto intro: order_less_le_trans[OF _ ofs_le_eend])
  have nxt: "first_after lo (root dcc) = (case root dcc of [] \<Rightarrow> None | y # _ \<Rightarrow> Some y)"
    using first_after_split[of "[]" lo "root dcc"] ys by simp
  have prev: "last_before lo (root dcc) = None"
    using last_before_split[of "[]" lo "root dcc"] ys' by simp
  have eg: "eend gap = (case root dcc of [] \<Rightarrow> lo + len | y # _ \<Rightarrow> min (ofs y) (lo + len))"
    using ys by (auto simp: gap_def eend_def split: list.splits)
  have hi: "eend gap \<le> ofs y" if "y \<in> set (root dcc)" for y
    using that ds by (auto simp: eg disjoint_sorted_simps split: list.splits)
      (meson min.coboundedI1 ofs_le_eend order_trans)
  have e32: "eend gap < 2 ^ 32" using end32 by (auto simp: eg split: list.splits)
  define d1 where "d1 = update_round env sbi bd dcc None (case root dcc of [] \<Rightarrow> None | y # _ \<Rightarrow> Some y) gap"
  have ok: "round_ok dcc (root dcc) gap d1"
    unfolding d1_def by (rule update_round_ok[OF a ds, of "[]"]) (use hi e32 in auto)
  have "\<exists>d'. update_loop env sbi bd lo start (lo + len) (length (root dcc) + 1) dcc None
      (case root dcc of [] \<Rightarrow> None | y # _ \<Rightarrow> Some (dc_id y)) gap = Some d' \<and> added dcc lo (lo + len) d'"
  proof (cases "root dcc")
    case Nil
    then have "eend gap = lo + len" "ofs gap = lo" by (simp_all add: eg, simp add: gap_def)
    moreover have "d1 = update_round env sbi bd dcc None None gap" by (simp add: d1_def Nil)
    ultimately show ?thesis
      using ok Nil by (simp add: update_gap_def round_ok_def added_def)
  next
    case (Cons y zs)
    obtain xs' y' where y': "root d1 = xs' @ y' # zs" "dc_id y' = dc_id y" "eend y' = eend y"
      using ok Cons by (auto simp: round_ok_def)
    have d1: "acct d1" "disjoint_sorted (root d1)" using ok by (simp_all add: round_ok_def)
    have nx: "rb_next_id (root d1) (dc_id y) = (case zs of [] \<Rightarrow> None | z # _ \<Rightarrow> Some (dc_id z))"
      using rb_next_id_split[of xs' y' zs] acct_split[OF d1(1) y'(1)] y'(1,2) by simp
    have len: "length zs < length (root dcc)" and after: "\<forall>z \<in> set zs. lo \<le> ofs z"
      using Cons ys by auto
    obtain d' where d': "update_loop env sbi bd lo start (lo + len) (length (root dcc)) d1 (Some (dc_id y'))
        (case zs of [] \<Rightarrow> None | z # _ \<Rightarrow> Some (dc_id z)) gap = Some d'"
      "acct d'" "disjoint_sorted (root d')" "busy (root d') = busy (root d1)" "same_waits d1 d'"
      "blocks (root d') = blocks (root d1) \<union> {max (eend y') lo..<lo + len}"
      using update_loop_ok[OF d1 y'(1) len after end32] by blast
    have fy: "find_dc dcc (dc_id y) = Some y" using find_dc_split[OF a, of "[]" y zs] Cons by simp
    have "d1 = update_round env sbi bd dcc None (Some y) gap" by (simp add: d1_def Cons)
    then have "update_loop env sbi bd lo start (lo + len) (length (root dcc) + 1) dcc None (Some (dc_id y)) gap = Some d'"
      using d'(1) y'(2) nx fy by (simp add: update_gap_def Let_def)
    moreover have "blocks (root d') = blocks (root dcc) \<union> {lo..<lo + len}"
    proof -
      have lo_y: "lo < ofs y" using ys Cons by simp
      have "{ofs y..<eend y} \<subseteq> blocks (root dcc)" by (auto simp: Cons)
      moreover have "{lo..<lo + len} \<subseteq> {lo..<min (ofs y) (lo + len)} \<union> {ofs y..<eend y} \<union> {max (eend y) lo..<lo + len}"
        by auto
      moreover have "{lo..<min (ofs y) (lo + len)} \<subseteq> {lo..<lo + len}" "{max (eend y) lo..<lo + len} \<subseteq> {lo..<lo + len}"
        by auto
      moreover have "ofs gap = lo" "eend gap = min (ofs y) (lo + len)" by (simp add: gap_def, simp add: eg Cons)
      ultimately show ?thesis using d'(6) ok y'(3) by (auto simp: round_ok_def)
    qed
    moreover have "same_waits dcc d'" using same_waits_trans[OF _ d'(5)] ok by (simp add: round_ok_def)
    ultimately show ?thesis using d' ok Cons by (auto simp: added_def round_ok_def)
  qed
  moreover have "update_range env sbi dcc bd lo start len =
      update_loop env sbi bd lo start (lo + len) (length (root dcc) + 1) dcc None
        (case root dcc of [] \<Rightarrow> None | y # _ \<Rightarrow> Some (dc_id y)) gap"
  proof -
    have len: "(case first_after lo (root dcc) of None \<Rightarrow> len | Some n \<Rightarrow> sub32 (ofs n) lo) =
        (case root dcc of [] \<Rightarrow> len | y # _ \<Rightarrow> ofs y - lo)"
      using ys by (auto simp: nxt sub32_le split: list.splits)
    show ?thesis
      unfolding update_range_def rb_lookup_ret_def miss prev len prod.case Let_def
      by (simp add: nxt map_option_hd gap_def del: update_loop.simps)
  qed
  ultimately show ?thesis by simp
qed

lemma update_range_total:
  assumes "acct dcc" "disjoint_sorted (root dcc)" "lo + len < 2 ^ 32"
  shows "\<exists>d'. update_range env sbi dcc bd lo start len = Some d' \<and> added dcc lo (lo + len) d'"
proof (cases "find (covers lo) (root dcc)")
  case (Some p)
  then show ?thesis using update_range_hit[OF assms] by blast
next
  case None
  then obtain xs ys where s: "root dcc = xs @ ys" "\<forall>a \<in> set xs. eend a \<le> lo" "\<forall>b \<in> set ys. lo < ofs b"
    using miss_split[OF assms(2), of lo] by (auto simp: find_None_iff)
  show ?thesis
  proof (cases xs rule: rev_cases)
    case Nil
    with s update_range_first[OF assms None] show ?thesis by simp
  next
    case (snoc xs0 p)
    with s update_range_prev[OF assms None, of xs0 p ys] show ?thesis by simp
  qed
qed

lemma update_discard_tree_range_ok:
  assumes "acct dcc" "disjoint_sorted (root dcc)" "lo + len < 2 ^ 32"
  shows "added dcc lo (lo + len) (update_discard_tree_range env sbi dcc bd lo start len)"
  using update_range_total[OF assms, of env sbi bd start] by (auto simp: update_discard_tree_range_def)

end
