(* ===== verification/Discard_Ops.thy ===== *)
theory Discard_Ops
  imports Discard_Merge
begin

text \<open>
  The other operations on commands: punching a block out of a pending command, dropping all
  pending commands, and submitting a command. Each keeps the bookkeeping and the order of
  the tree.
\<close>

section \<open>Punching\<close>

lemma blocks_split:
  assumes ds: "disjoint_sorted (xs @ c # ys)" and b: "covers b c"
  shows "b \<notin> blocks xs" "b \<notin> blocks ys"
proof -
  have "x = c" if "x \<in> set (xs @ c # ys)" "covers b x" for x
    using covers_unique[OF ds that(1) _ that(2) b] by simp
  moreover have "c \<notin> set xs" "c \<notin> set ys" using disjoint_sorted_distinct[OF ds] by auto
  ultimately show "b \<notin> blocks xs" "b \<notin> blocks ys" by (auto simp: blocks_def)
qed

lemma resize_punch:
  assumes a: "acct dcc" and r: "root dcc = xs @ c # ys" and c: "dc_state c = D_PREP"
    and c': "dc_id c' = dc_id c" "dc_state c' = D_PREP" "bio_ref c' = 0" "dc_ref c' = 0" "eend c' < 2 ^ 32"
  defines "d0 \<equiv> dcc\<lparr>undiscard_blks := sub32 (undiscard_blks dcc) (elen c)\<rparr>"
  defines "d' \<equiv> relocate_discard_cmd ((set_dc c' d0)\<lparr>undiscard_blks := u32 (undiscard_blks d0 + elen c')\<rparr>) c'"
  shows "acct d'" "root d' = xs @ c' # ys"
proof -
  have "eend c < 2 ^ 32" using a r by (simp add: acct_def)
  then have "elen c < 2 ^ 32" by (simp add: eend_def)
  from sub32_u32_add[OF this, of "total_len xs + total_len ys"]
  have "undiscard_blks d0 = u32 (total_len xs + total_len ys)"
    using a r by (simp add: acct_def d0_def add.left_commute)
  then have u: "u32 (undiscard_blks d0 + elen c') = u32 (total_len (xs @ c' # ys))"
    using u32_add_left[of "total_len xs + total_len ys" "elen c'"] by (simp add: add.commute add.left_commute)
  have eq: "d' = relocate_discard_cmd ((set_dc c' dcc)\<lparr>undiscard_blks := u32 (undiscard_blks d0 + elen c')\<rparr>) c'"
    by (simp add: d'_def d0_def set_dc_def)
  show "acct d'" unfolding eq by (rule resize_acct[OF a r c c'(1-5) u])
  show "root d' = xs @ c' # ys" using set_dc_split[OF a r c'(1)] by (simp add: eq)
qed

definition punched :: "discard_cmd_control \<Rightarrow> nat \<Rightarrow> discard_cmd_control \<Rightarrow> bool" where
  "punched dcc blk d' \<longleftrightarrow>
     acct d' \<and> disjoint_sorted (root d') \<and> busy (root d') = busy (root dcc) \<and>
     blocks (root d') = blocks (root dcc) - {blk}"

lemma punch_ok:
  assumes a: "acct dcc" and ds: "disjoint_sorted (root dcc)" and r: "root dcc = xs @ c # ys"
    and c: "dc_state c = D_PREP" and b: "covers blk c"
  shows "punched dcc blk (punch_discard_cmd sbi dcc c blk)"
proof -
  have bio: "bio_ref c = 0" "dc_ref c = 0" and e32: "eend c < 2 ^ 32" using a r c by (simp_all add: acct_def)
  have dsr: "disjoint_sorted (xs @ c # ys)" using ds r by simp
  note out = blocks_split[OF dsr b]
  have ord: "disjoint_sorted xs" "disjoint_sorted ys" "\<forall>x \<in> set xs. eend x \<le> ofs c" "\<forall>y \<in> set ys. eend c \<le> ofs y"
    "\<forall>x \<in> set xs. \<forall>y \<in> set ys. eend x \<le> ofs y" "0 < elen c"
    using dsr by (auto simp: disjoint_sorted_simps)
  have inb: "ofs c \<le> blk" "blk < ofs c + elen c" using b by (simp_all add: covers_def eend_def)
  show ?thesis
  proof (cases "elen c = 1")
    case True
    then have p: "punch_discard_cmd sbi dcc c blk = remove_discard_cmd dcc c" by (simp add: punch_discard_cmd_def)
    note rm = remove_prep[OF a r bio(1)]
    have "{ofs c..<eend c} = {blk}" using True inb by (auto simp: eend_def)
    with rm p out c show ?thesis
      using ord by (auto simp: punched_def r disjoint_sorted_append)
  next
    case False
    show ?thesis
    proof (cases "blk > ofs c")
      case eq: False
      then have blk: "blk = ofs c" using inb by simp
      let ?c = "c\<lparr>ofs := ofs c + 1, elen := elen c - 1, pstart := pstart c + 1\<rparr>"
      have ec: "eend ?c = eend c" using ord(6) by (simp add: eend_def)
      note rp = resize_punch[OF a r c, of ?c]
      have lt: "ofs c < ofs c + elen c - 1" using False ord(6) by linarith
      let ?d = "punch_discard_cmd sbi dcc c blk"
      have d: "acct ?d" "root ?d = xs @ ?c # ys"
        using rp c bio e32 ec False eq blk lt
        by (simp_all add: punch_discard_cmd_def Let_def)
      have "disjoint_sorted (root ?d)"
        unfolding d(2) using ord ec False by (auto simp: disjoint_sorted_simps)
      moreover have "{ofs c..<eend c} - {blk} = {ofs ?c..<eend ?c}" using ec blk by auto
      ultimately show ?thesis using d out ec c by (auto simp: punched_def r)
    next
      case gt: True
      let ?c = "c\<lparr>elen := blk - ofs c\<rparr>"
      have ec: "eend ?c = blk" using gt by (simp add: eend_def)
      let ?d0 = "dcc\<lparr>undiscard_blks := sub32 (undiscard_blks dcc) (elen c)\<rparr>"
      let ?d1 = "relocate_discard_cmd ((set_dc ?c ?d0)\<lparr>undiscard_blks := u32 (undiscard_blks ?d0 + elen ?c)\<rparr>) ?c"
      have blk32: "blk < 2 ^ 32" using b e32 by (simp add: covers_def)
      have d1: "acct ?d1" "root ?d1 = xs @ ?c # ys"
        using resize_punch[OF a r c, of ?c] c bio ec blk32 by simp_all
      have ds1: "disjoint_sorted (xs @ ?c # ys)"
        using ord ec gt inb by (auto simp: disjoint_sorted_simps eend_def)
      show ?thesis
      proof (cases "blk < ofs c + elen c - 1")
        case last: False
        then have e: "blk + 1 = eend c" using inb by (simp add: eend_def)
        have p: "punch_discard_cmd sbi dcc c blk = ?d1"
          using False gt last c by (simp add: punch_discard_cmd_def Let_def sub32_le)
        have "{ofs c..<eend c} - {blk} = {ofs ?c..<eend ?c}" using ec e by auto
        with d1 ds1 out c show ?thesis unfolding punched_def p r by auto
      next
        case mid: True
        let ?n = "new_cmd sbi (next_id ?d1) (bdev c) (blk + 1) (pstart c + blk + 1 - ofs c) (ofs c + elen c - 1 - blk)"
        have p: "punch_discard_cmd sbi dcc c blk = insert_discard_tree sbi ?d1 (bdev c) (blk + 1)
            (pstart c + blk + 1 - ofs c) (ofs c + elen c - 1 - blk)"
          using False gt mid c by (simp add: punch_discard_cmd_def Let_def sub32_le)
        have n: "ofs ?n = blk + 1" "elen ?n = ofs c + elen c - 1 - blk" "eend ?n = eend c" "dc_state ?n = D_PREP"
          using mid by (simp_all add: new_cmd_def eend_def)
        have "rb_insert ?n ((xs @ [?c]) @ ys) = (xs @ [?c]) @ ?n # ys"
        proof (rule rb_insert_split)
          show "ofs x < ofs ?n" if "x \<in> set (xs @ [?c])" for x
          proof -
            have "ofs x \<le> blk"
            proof (cases "x = ?c")
              case False
              then have "eend x \<le> ofs c" using that ord(3) by simp
              then show ?thesis using gt ofs_le_eend[of x] by linarith
            qed (use gt in simp)
            then show ?thesis unfolding n(1) by simp
          qed
          show "\<not> ofs y < ofs ?n" if "y \<in> set ys" for y
          proof -
            have "eend c \<le> ofs y" using that ord(4) by simp
            then show ?thesis unfolding n(1) using inb(2) by (simp add: eend_def)
          qed
        qed
        then have rt: "root (punch_discard_cmd sbi dcc c blk) = xs @ ?c # ?n # ys"
          using p d1(2) by (simp add: insert_frame)
        have ac: "acct (punch_discard_cmd sbi dcc c blk)"
          unfolding p using e32 mid by (intro insert_acct[OF d1(1)]) (simp add: eend_def)
        have "disjoint_sorted (xs @ ?c # ?n # ys)"
          using ds1 ord ec n mid by (auto simp: disjoint_sorted_simps)
        moreover have "{ofs c..<eend c} - {blk} = {ofs ?c..<eend ?c} \<union> {ofs ?n..<eend ?n}"
          using ec n inb by (auto simp: eend_def)
        ultimately show ?thesis using rt ac out c n(4) by (auto simp: punched_def r)
      qed
    qed
  qed
qed

section \<open>Dropping all pending commands\<close>

definition drop_ids :: "nat list \<Rightarrow> bool \<times> discard_cmd_control \<Rightarrow> bool \<times> discard_cmd_control" where
  "drop_ids ids acc =
     fold (\<lambda>j (dropped, dcc).
        (case find_dc dcc j of None \<Rightarrow> (dropped, dcc) | Some dc \<Rightarrow> (True, remove_discard_cmd dcc dc))) ids acc"

lemma drop_discard_cmd_eq:
  "drop_discard_cmd dcc = fold (\<lambda>k acc. drop_ids (pend_list (snd acc) k) acc) (rev [0..<MAX_PLIST_NUM]) (False, dcc)"
  by (simp add: drop_discard_cmd_def drop_ids_def)

lemma drop_ids_ok:
  assumes "acct d" "\<forall>c \<in> set (root d). dc_id c \<in> set ids \<longrightarrow> bio_ref c = 0"
  shows "acct (snd (drop_ids ids (b, d)))"
    "root (snd (drop_ids ids (b, d))) = filter (\<lambda>c. dc_id c \<notin> set ids) (root d)"
proof -
  have "acct (snd (drop_ids ids (b, d))) \<and>
      root (snd (drop_ids ids (b, d))) = filter (\<lambda>c. dc_id c \<notin> set ids) (root d)"
    using assms
  proof (induction ids arbitrary: b d)
    case Nil
    then show ?case by (simp add: drop_ids_def)
  next
    case (Cons i ids)
    show ?case
    proof (cases "find_dc d i")
      case None
      then have "filter (\<lambda>c. dc_id c \<notin> set (i # ids)) (root d) = filter (\<lambda>c. dc_id c \<notin> set ids) (root d)"
        by (intro filter_cong) (auto simp: find_dc_def find_None_iff)
      with Cons.IH[of d b] Cons.prems None show ?thesis by (simp add: drop_ids_def)
    next
      case (Some c)
      then obtain xs ys where r: "root d = xs @ c # ys" and c: "dc_id c = i"
        using find_Some_split by (fastforce simp: find_dc_def)
      have bio: "bio_ref c = 0" using Cons.prems(2) r c by simp
      note rm = remove_prep[OF Cons.prems(1) r bio]
      have "filter (\<lambda>x. dc_id x \<notin> set (i # ids)) (root d) = filter (\<lambda>x. dc_id x \<notin> set ids) (xs @ ys)"
      proof -
        have "filter (\<lambda>x. dc_id x \<notin> set (i # ids)) zs = filter (\<lambda>x. dc_id x \<notin> set ids) zs"
          if "set zs \<subseteq> set xs \<union> set ys" for zs
          using acct_split[OF Cons.prems(1) r] c that by (intro filter_cong) auto
        from this[of xs] this[of ys] c show ?thesis by (simp add: r)
      qed
      with Cons.IH[of "remove_discard_cmd d c" True] Cons.prems(2) rm Some r show ?thesis
        by (simp add: drop_ids_def)
    qed
  qed
  then show "acct (snd (drop_ids ids (b, d)))"
    "root (snd (drop_ids ids (b, d))) = filter (\<lambda>c. dc_id c \<notin> set ids) (root d)" by blast+
qed

lemma pend_list_prep:
  assumes "acct d" "c \<in> set (root d)"
  shows "dc_id c \<in> set (pend_list d k) \<longleftrightarrow> dc_state c = D_PREP \<and> plist_idx (elen c) = k"
proof -
  have "distinct (map dc_id (root d))" using assms(1) by (simp add: acct_def)
  then have "x = c" if "x \<in> set (root d)" "dc_id x = dc_id c" for x
    using that assms(2) by (auto simp: distinct_map inj_on_def)
  then show ?thesis using assms unfolding acct_def pend_ok_def by blast
qed

lemma drop_list_ok:
  assumes "acct d"
  shows "acct (snd (drop_ids (pend_list d k) (b, d)))"
    "root (snd (drop_ids (pend_list d k) (b, d))) =
       filter (\<lambda>c. \<not> (dc_state c = D_PREP \<and> plist_idx (elen c) = k)) (root d)"
proof -
  have bio: "\<forall>c \<in> set (root d). dc_id c \<in> set (pend_list d k) \<longrightarrow> bio_ref c = 0"
    using assms pend_list_prep[OF assms] by (auto simp: acct_def)
  show "acct (snd (drop_ids (pend_list d k) (b, d)))" using drop_ids_ok(1)[OF assms bio] .
  show "root (snd (drop_ids (pend_list d k) (b, d))) =
      filter (\<lambda>c. \<not> (dc_state c = D_PREP \<and> plist_idx (elen c) = k)) (root d)"
    unfolding drop_ids_ok(2)[OF assms bio] using pend_list_prep[OF assms] by (intro filter_cong) auto
qed

lemma drop_fold_ok:
  assumes "acct d"
  shows "acct (snd (fold (\<lambda>k acc. drop_ids (pend_list (snd acc) k) acc) ks (b, d))) \<and>
    root (snd (fold (\<lambda>k acc. drop_ids (pend_list (snd acc) k) acc) ks (b, d))) =
      filter (\<lambda>c. \<not> (dc_state c = D_PREP \<and> plist_idx (elen c) \<in> set ks)) (root d)"
  using assms
proof (induction ks arbitrary: b d)
  case (Cons k ks)
  obtain b1 d1 where d1: "drop_ids (pend_list d k) (b, d) = (b1, d1)" by fastforce
  note ok = drop_list_ok[OF Cons.prems, of k b, unfolded d1]
  have "filter (\<lambda>c. \<not> (dc_state c = D_PREP \<and> plist_idx (elen c) \<in> set ks)) (root d1) =
      filter (\<lambda>c. \<not> (dc_state c = D_PREP \<and> plist_idx (elen c) \<in> set (k # ks))) (root d)"
    using ok(2) by (auto intro: filter_cong)
  with Cons.IH[of d1 b1] ok(1) d1 show ?case by simp
qed simp

lemma plist_idx_less: "0 < n \<Longrightarrow> plist_idx n < MAX_PLIST_NUM"
  by (auto simp: plist_idx_def MAX_PLIST_NUM_def sub32_le)

lemma disjoint_sorted_filter: "disjoint_sorted cmds \<Longrightarrow> disjoint_sorted (filter P cmds)"
  by (auto simp: disjoint_sorted_def sorted_wrt_filter)

lemma drop_ok:
  assumes "acct d" "disjoint_sorted (root d)"
  shows "acct (snd (drop_discard_cmd d))" "root (snd (drop_discard_cmd d)) = busy (root d)"
    "disjoint_sorted (root (snd (drop_discard_cmd d)))"
proof -
  note f = drop_fold_ok[OF assms(1), of "rev [0..<MAX_PLIST_NUM]" False, folded drop_discard_cmd_eq]
  show "acct (snd (drop_discard_cmd d))" using f by blast
  have "filter (\<lambda>c. \<not> (dc_state c = D_PREP \<and> plist_idx (elen c) \<in> set (rev [0..<MAX_PLIST_NUM]))) (root d) = busy (root d)"
    unfolding busy_def using assms(2) plist_idx_less by (intro filter_cong) (auto simp: disjoint_sorted_def)
  then show r: "root (snd (drop_discard_cmd d)) = busy (root d)" using f by simp
  show "disjoint_sorted (root (snd (drop_discard_cmd d)))"
    unfolding r busy_def using assms(2) by (rule disjoint_sorted_filter)
qed

section \<open>Submitting\<close>

text \<open>The loop invariant of \<open>__submit_discard_cmd\<close> while no error occurs.\<close>

definition sub_inv :: "discard_policy \<Rightarrow> discard_cmd \<Rightarrow> submit_st \<Rightarrow> bool" where
  "sub_inv dp dc st \<longleftrightarrow>
     s_err st = 0 \<and> s_len st = s_total st \<and> elen (s_dc st) + s_total st = elen dc \<and>
     s_lstart st = ofs dc + elen (s_dc st) \<and> s_start st = pstart dc + elen (s_dc st) \<and>
     dc_id (s_dc st) = dc_id dc \<and> ofs (s_dc st) = ofs dc \<and> bdev (s_dc st) = bdev dc \<and>
     bio_ref (s_dc st) = s_bios st \<and> dc_ref (s_dc st) = dc_ref dc \<and> s_issued st \<le> max_requests dp \<and>
     (s_bios st \<noteq> 0 \<longrightarrow> 0 < elen (s_dc st) \<and>
        dc_state (s_dc st) = (if s_total st = 0 \<or> s_issued st = max_requests dp then D_SUBMIT else D_PARTIAL))"

lemma submit_round_ok:
  assumes "sub_inv dp dc st" "s_total st \<noteq> 0" "s_issued st < max_requests dp"
    and "\<And>s n. issue_err env s n = 0" "0 < max_discard_blocks env (bdev dc)"
  shows "sub_inv dp dc (submit_round env dp st)" "s_issued (submit_round env dp st) = s_issued st + 1"
    "s_bios (submit_round env dp st) = s_bios st + 1"
  using assms by (auto simp: sub_inv_def submit_round_def Let_def)

lemma submit_loop_ok:
  assumes "sub_inv dp dc st" "n = max_requests dp - s_issued st"
    and "\<And>s n. issue_err env s n = 0" "0 < max_discard_blocks env (bdev dc)"
  shows "sub_inv dp dc (submit_loop env dp n st) \<and>
    (s_total (submit_loop env dp n st) = 0 \<or> s_issued (submit_loop env dp n st) = max_requests dp) \<and>
    s_issued st \<le> s_issued (submit_loop env dp n st) \<and> s_bios st \<le> s_bios (submit_loop env dp n st) \<and>
    (s_total st \<noteq> 0 \<and> s_issued st < max_requests dp \<longrightarrow>
       s_bios st < s_bios (submit_loop env dp n st) \<and> s_issued st < s_issued (submit_loop env dp n st))"
  using assms(1,2)
proof (induction n arbitrary: st)
  case 0
  then show ?case by (auto simp: sub_inv_def)
next
  case (Suc n)
  show ?case
  proof (cases "s_total st = 0")
    case True
    then have "submit_loop env dp (Suc n) st = st" by simp
    with True Suc.prems(1) show ?thesis by (auto simp del: submit_loop.simps)
  next
    case False
    have lt: "s_issued st < max_requests dp" using Suc.prems(2) by simp
    note rd = submit_round_ok[OF Suc.prems(1) False lt assms(3,4)]
    have n: "n = max_requests dp - s_issued (submit_round env dp st)" using Suc.prems(2) rd(2) by simp
    have err: "s_err st = 0" using Suc.prems(1) by (simp add: sub_inv_def)
    from Suc.IH[OF rd(1) n] rd(2,3) False err show ?thesis by auto
  qed
qed

text \<open>Moving a command from its pending list to a wait list, with part of its length.\<close>

lemma submit_move_acct:
  assumes a: "acct d" and r: "root d = xs @ c # ys" and c: "dc_state c = D_PREP"
    and c': "dc_id c' = dc_id c" "dc_state c' \<noteq> D_PREP" "elen c' + k = elen c" "ofs c' = ofs c"
    and d1_def: "d1 = (wait_add_tail ty (dc_id c) (list_del (dc_id c)
      ((set_dc c' d)\<lparr>queued_discard := q, issued_discard := i\<rparr>)))\<lparr>undiscard_blks := sub32 (undiscard_blks d) k\<rparr>"
  shows "acct d1" "root d1 = xs @ c' # ys"
    "wait_list d1 = wait_list d @ (if ty = DPOLICY_FSTRIM then [] else [dc_id c])"
proof -
  show r': "root d1 = xs @ c' # ys"
    using set_dc_split[OF a r c'(1)] by (simp add: d1_def wait_add_tail_def list_del_def)
  have ne: "x \<in> set xs \<union> set ys \<Longrightarrow> dc_id x \<noteq> dc_id c" for x using acct_split[OF a r] .
  have pend: "j \<in> set (pend_list d m) \<longleftrightarrow>
      (\<exists>x \<in> set (xs @ c # ys). dc_id x = j \<and> dc_state x = D_PREP \<and> plist_idx (dlen x) = m)" for j m
    using a unfolding acct_def pend_ok_def r by blast
  have wait: "j \<in> set (wait_list d) \<union> set (fstrim_list d) \<longleftrightarrow>
      (\<exists>x \<in> set (xs @ c # ys). dc_id x = j \<and> dc_state x \<noteq> D_PREP)" for j
    using a unfolding acct_def wait_ok_def r set_append by blast
  have nw: "dc_id c \<notin> set (wait_list d) \<union> set (fstrim_list d)" using wait[of "dc_id c"] ne c by auto
  have l: "pend_list d1 = (\<lambda>m. filter (\<lambda>j. j \<noteq> dc_id c) (pend_list d m))"
    "wait_list d1 = wait_list d @ (if ty = DPOLICY_FSTRIM then [] else [dc_id c])"
    "fstrim_list d1 = fstrim_list d @ (if ty = DPOLICY_FSTRIM then [dc_id c] else [])"
    using nw by (auto simp: d1_def wait_add_tail_def list_del_def filter_id_conv)
  show "wait_list d1 = wait_list d @ (if ty = DPOLICY_FSTRIM then [] else [dc_id c])" by (rule l(2))
  have "pend_ok d1"
    unfolding pend_ok_def r'
  proof (intro conjI allI)
    fix m show "distinct (pend_list d1 m)" using a by (simp add: l acct_def pend_ok_def)
  next
    fix m j
    show "j \<in> set (pend_list d1 m) \<longleftrightarrow>
        (\<exists>x \<in> set (xs @ c' # ys). dc_id x = j \<and> dc_state x = D_PREP \<and> plist_idx (dlen x) = m)"
      using pend[of j m] ne c' by (auto simp: l)
  qed
  moreover have "wait_ok d1"
    unfolding wait_ok_def r'
  proof (intro conjI allI)
    show "distinct (wait_list d1 @ fstrim_list d1)" using a nw by (auto simp: l acct_def wait_ok_def)
  next
    fix j
    show "j \<in> set (wait_list d1 @ fstrim_list d1) \<longleftrightarrow> (\<exists>x \<in> set (xs @ c' # ys). dc_id x = j \<and> dc_state x \<noteq> D_PREP)"
      using wait[of j] ne c c' by (auto simp: l)
  qed
  moreover have "undiscard_blks d1 = u32 (total_len (xs @ c' # ys))"
  proof -
    have "eend c < 2 ^ 32" using a r by (simp add: acct_def)
    then have "k < 2 ^ 32" using c'(3) by (simp add: eend_def)
    from sub32_u32_add[OF this, of "total_len (xs @ c' # ys)"] show ?thesis
      using a r c'(3)[symmetric]
      by (simp add: acct_def d1_def wait_add_tail_def list_del_def add.commute add.left_commute)
  qed
  moreover have "eend c' < 2 ^ 32" using a r c' by (simp add: acct_def eend_def)
  moreover have "next_id d1 = next_id d" "discard_cmd_cnt d1 = discard_cmd_cnt d"
    by (simp_all add: d1_def wait_add_tail_def list_del_def)
  ultimately show "acct d1"
    using a r r' c' by (simp add: acct_def)
qed

text \<open>What a successful submission leaves: the same blocks, the command submitted from its start on.\<close>

definition submitted :: "dpolicy_type \<Rightarrow> discard_cmd_control \<Rightarrow> discard_cmd \<Rightarrow> discard_cmd_control \<Rightarrow> bool" where
  "submitted ty dcc dc d' \<longleftrightarrow>
     set (wait_list d') = set (wait_list dcc) \<union> (if ty = DPOLICY_FSTRIM then {} else {dc_id dc}) \<and> acct d' \<and> disjoint_sorted (root d') \<and> blocks (root d') = blocks (root dcc) \<and>
     (\<exists>c. c \<in> set (root d') \<and> dc_id c = dc_id dc \<and> dc_state c = D_SUBMIT \<and> ofs c = ofs dc \<and> 0 < elen c \<and>
        elen c \<le> elen dc \<and> 0 < bio_ref c \<and> dc_ref c = 0 \<and>
        set (busy (root d')) = insert c (set (busy (root dcc))))"

lemma busy_in: "c \<in> set cmds \<Longrightarrow> dc_state c \<noteq> D_PREP \<Longrightarrow> c \<in> set (busy cmds)"
  by (simp add: busy_def)

lemma busy_sub: "c \<in> set (busy cmds) \<Longrightarrow> c \<in> set cmds"
  by (simp add: busy_def)

lemma submit_ok:
  assumes a: "acct dcc" and ds: "disjoint_sorted (root dcc)" and r: "root dcc = xs @ dc # ys"
    and dc: "dc_state dc = D_PREP" and fsck: "\<not> need_fsck sbi" and iss: "issued < max_requests dp"
    and noerr: "\<And>s n. issue_err env s n = 0" and max: "0 < max_discard_blocks env (bdev dc)"
  shows "case submit_discard_cmd env sbi dp dcc dc issued of
      (err, issued', d') \<Rightarrow> err = 0 \<and> issued < issued' \<and> issued' \<le> max_requests dp \<and> submitted (dp_type dp) dcc dc d'"
proof -
  have bio: "bio_ref dc = 0" "dc_ref dc = 0" and e32: "eend dc < 2 ^ 32" using a r dc by (simp_all add: acct_def)
  have pos: "0 < elen dc" using ds r by (simp add: disjoint_sorted_simps)
  define st where "st = submit_loop env dp (max_requests dp - issued)
      \<lparr>s_dc = dc\<lparr>elen := 0\<rparr>, s_lstart = lstart dc, s_start = pstart dc, s_len = dlen dc,
       s_total = dlen dc, s_issued = issued, s_err = 0, s_bios = 0\<rparr>"
  have init: "sub_inv dp dc \<lparr>s_dc = dc\<lparr>elen := 0\<rparr>, s_lstart = lstart dc, s_start = pstart dc, s_len = dlen dc,
       s_total = dlen dc, s_issued = issued, s_err = 0, s_bios = 0\<rparr>"
    using bio iss by (simp add: sub_inv_def)
  have fin: "sub_inv dp dc st" "s_total st = 0 \<or> s_issued st = max_requests dp" "0 < s_bios st" "issued < s_issued st"
    using submit_loop_ok[OF init _ noerr max] pos iss by (auto simp: st_def)
  let ?c = "s_dc st" and ?k = "s_total st"
  have c: "dc_id ?c = dc_id dc" "dc_state ?c = D_SUBMIT" "elen ?c + ?k = elen dc" "ofs ?c = ofs dc" "0 < elen ?c"
    "0 < bio_ref ?c" "dc_ref ?c = 0"
    and st: "s_err st = 0" "s_len st = ?k" "s_lstart st = eend ?c" "s_issued st \<le> max_requests dp"
    using fin bio by (auto simp: sub_inv_def eend_def)
  define d0 where "d0 = wait_add_tail (dp_type dp) (dc_id dc) (list_del (dc_id dc)
      ((set_dc ?c dcc)\<lparr>queued_discard := queued_discard dcc + int (s_bios st),
        issued_discard := issued_discard dcc + int (s_bios st)\<rparr>))"
  define d1 where "d1 = d0\<lparr>undiscard_blks := sub32 (undiscard_blks dcc) ?k\<rparr>"
  have u0: "undiscard_blks d0 = undiscard_blks dcc" by (simp add: d0_def wait_add_tail_def list_del_def)
  note mv = submit_move_acct[OF a r dc c(1) _ c(3,4) d1_def[unfolded d0_def]]
  have d1: "acct d1" "root d1 = xs @ ?c # ys"
    and wl: "set (wait_list d1) = set (wait_list dcc) \<union> (if dp_type dp = DPOLICY_FSTRIM then {} else {dc_id dc})"
    using mv c(2) by simp_all
  have ec: "eend ?c \<le> eend dc" using c by (simp add: eend_def)
  have ds1: "disjoint_sorted (root d1)"
    using ds r c ec by (fastforce simp: d1 disjoint_sorted_simps)
  have b1: "blocks (root d1) \<union> {eend ?c..<eend dc} = blocks (root dcc)"
  proof -
    have "{ofs dc..<eend dc} = {ofs ?c..<eend ?c} \<union> {eend ?c..<eend dc}"
      using ivl_disj_un_two(3)[OF ofs_le_eend[of ?c] ec] c(4) by simp
    then show ?thesis by (auto simp: d1 r)
  qed
  define d2 where "d2 = (if ?k \<noteq> 0 then update_discard_tree_range env sbi d1 (bdev dc) (eend ?c) (s_start st) ?k else d0)"
  have res: "submit_discard_cmd env sbi dp dcc dc issued = (0, s_issued st, hints_sub sbi (lstart dc) (dlen dc) d2)"
    unfolding submit_discard_cmd_def st_def[symmetric] Let_def d2_def d1_def
    using dc fsck fin(3) st c(1) u0 by (simp add: d0_def)
  have d2: "added d1 (eend ?c) (eend dc) d2"
  proof (cases "?k = 0")
    case True
    then have "{eend ?c..<eend dc} = {}" using c by (simp add: eend_def)
    moreover have "acct d1 = acct d0" using True u0 by (intro acct_cong) (simp_all add: d1_def sub32_le)
    moreover have "root d1 = root d0" "same_waits d1 d0" by (simp_all add: d1_def same_waits_def)
    ultimately show ?thesis using True d1(1) ds1 by (simp add: d2_def added_def)
  next
    case False
    have e: "eend ?c + ?k = eend dc" using c by (simp add: eend_def)
    with update_discard_tree_range_ok[OF d1(1) ds1, of "eend ?c" ?k env sbi "bdev dc" "s_start st"] e32 False
    show ?thesis by (simp add: d2_def)
  qed
  have "?c \<in> set (root d2)"
    using d2 busy_in[of ?c "root d1"] busy_sub[of ?c "root d2"] d1(2) c(2) by (auto simp: added_def)
  moreover have "acct (hints_sub sbi (lstart dc) (dlen dc) d2) = acct d2" by (rule acct_cong) simp_all
  moreover have "wait_list d2 = wait_list d1" using d2 by (simp add: added_def same_waits_def)
  ultimately have "submitted (dp_type dp) dcc dc (hints_sub sbi (lstart dc) (dlen dc) d2)"
    using d2 b1 c dc wl by (auto simp: submitted_def added_def d1(2) r intro!: exI[of _ ?c])
  then show ?thesis using res fin(4) st(4) by simp
qed

end
