(* ===== verification/Discard_Flow.thy ===== *)
theory Discard_Flow
  imports Discard_Ops State_Machine
begin

text \<open>
  Waiting for commands, issuing them and the umount path. Besides bookkeeping and order,
  a submitted command has its bios outstanding or is done, and nobody waits for it between
  the operations; this is an invariant of all operations while the device accepts the
  requests, and the umount path leaves no command behind.
\<close>

definition cmd_flight :: "discard_cmd \<Rightarrow> bool" where
  "cmd_flight c \<longleftrightarrow> dc_ref c = 0 \<and> (dc_state c = D_DONE \<and> bio_ref c = 0 \<or> dc_state c = D_SUBMIT \<and> 0 < bio_ref c)"

definition dcc_ok :: "discard_cmd_control \<Rightarrow> bool" where
  "dcc_ok dcc \<longleftrightarrow> acct dcc \<and> disjoint_sorted (root dcc) \<and> (\<forall>c \<in> set (busy (root dcc)). cmd_flight c)"

lemma dcc_ok_busy: "dcc_ok dcc \<Longrightarrow> c \<in> set (root dcc) \<Longrightarrow> dc_state c \<noteq> D_PREP \<Longrightarrow> cmd_flight c"
  by (auto simp: dcc_ok_def busy_def)

lemma dcc_ok_cong: "root d' = root d \<Longrightarrow> acct d' = acct d \<Longrightarrow> dcc_ok d' = dcc_ok d"
  by (simp add: dcc_ok_def)

section \<open>Completion\<close>

lemma endio_frame [simp]:
  "dc_id (submit_discard_endio s c) = dc_id c" "ofs (submit_discard_endio s c) = ofs c"
  "elen (submit_discard_endio s c) = elen c" "dc_ref (submit_discard_endio s c) = dc_ref c"
  "queued (submit_discard_endio s c) = queued c" "bio_ref (submit_discard_endio s c) = bio_ref c - 1"
  by (simp_all add: submit_discard_endio_def Let_def)

lemma endio_state:
  "dc_state (submit_discard_endio s c) = (if bio_ref c - 1 = 0 \<and> dc_state c = D_SUBMIT then D_DONE else dc_state c)"
  by (simp add: submit_discard_endio_def Let_def)

lemma endio_iter:
  "dc_id ((submit_discard_endio s ^^ n) c) = dc_id c \<and> ofs ((submit_discard_endio s ^^ n) c) = ofs c \<and>
   elen ((submit_discard_endio s ^^ n) c) = elen c \<and> dc_ref ((submit_discard_endio s ^^ n) c) = dc_ref c \<and>
   bio_ref ((submit_discard_endio s ^^ n) c) = bio_ref c - n \<and>
   (dc_state c = D_SUBMIT \<longrightarrow> 0 < n \<longrightarrow> n \<le> bio_ref c \<longrightarrow>
      dc_state ((submit_discard_endio s ^^ n) c) = (if n = bio_ref c then D_DONE else D_SUBMIT))"
  by (induction n) (auto simp: endio_state)

lemma complete_ok:
  assumes "dc_state c = D_DONE \<and> bio_ref c = 0 \<or> dc_state c = D_SUBMIT \<and> 0 < bio_ref c"
  shows "dc_state (complete_cmd env c) = D_DONE" "bio_ref (complete_cmd env c) = 0"
    "dc_id (complete_cmd env c) = dc_id c" "ofs (complete_cmd env c) = ofs c"
    "elen (complete_cmd env c) = elen c" "dc_ref (complete_cmd env c) = dc_ref c"
  using endio_iter[where s = "bio_err env (dc_id c)" and n = "bio_ref c" and c = c] assms by (auto simp: complete_cmd_def)

text \<open>Replacing a submitted command by one with the same range.\<close>

lemma set_busy_acct:
  assumes a: "acct d" and r: "root d = xs @ c # ys" and c: "dc_state c \<noteq> D_PREP"
    and c': "dc_id c' = dc_id c" "dc_state c' \<noteq> D_PREP" "elen c' = elen c" "ofs c' = ofs c"
  shows "acct (set_dc c' d)" "root (set_dc c' d) = xs @ c' # ys"
proof -
  show r': "root (set_dc c' d) = xs @ c' # ys" using set_dc_split[OF a r c'(1)] .
  have ee: "eend c' = eend c" using c' by (simp add: eend_def)
  have p: "pend_ok (set_dc c' d)" using a c c' unfolding acct_def pend_ok_def r' by (simp add: r)
  have w: "wait_ok (set_dc c' d)" using a c c' unfolding acct_def wait_ok_def r' by (simp add: r)
  show "acct (set_dc c' d)" using a r r' p w c' ee unfolding acct_def by simp
qed

lemma wait_one_ok:
  assumes a: "acct d" and r: "root d = xs @ c # ys"
    and c: "dc_ref c = 1" "dc_state c = D_DONE \<and> bio_ref c = 0 \<or> dc_state c = D_SUBMIT \<and> 0 < bio_ref c"
  shows "acct (snd (wait_one_discard_bio env d c))" "root (snd (wait_one_discard_bio env d c)) = xs @ ys"
proof -
  note k = complete_ok[OF c(2), of env]
  let ?c = "(complete_cmd env c)\<lparr>dc_ref := dc_ref (complete_cmd env c) - 1\<rparr>"
  have nc: "dc_state c \<noteq> D_PREP" using c(2) by auto
  have s: "acct (set_dc ?c d)" "root (set_dc ?c d) = xs @ ?c # ys"
    using set_busy_acct[OF a r nc, of ?c] k by simp_all
  have w: "snd (wait_one_discard_bio env d c) = remove_discard_cmd (set_dc ?c d) ?c"
    using k(6) c(1) by (simp add: wait_one_discard_bio_def Let_def)
  show "acct (snd (wait_one_discard_bio env d c))" "root (snd (wait_one_discard_bio env d c)) = xs @ ys"
    unfolding w using remove_prep(1,2)[OF s] k(2) by simp_all
qed

lemma ref_up:
  assumes a: "acct d" and r: "root d = xs @ c # ys" and c: "cmd_flight c"
  shows "acct (set_dc (c\<lparr>dc_ref := dc_ref c + 1\<rparr>) d)"
    "root (set_dc (c\<lparr>dc_ref := dc_ref c + 1\<rparr>) d) = xs @ c\<lparr>dc_ref := dc_ref c + 1\<rparr> # ys"
  using set_busy_acct[OF a r, of "c\<lparr>dc_ref := dc_ref c + 1\<rparr>"] c by (auto simp: cmd_flight_def)

section \<open>Before a block is reused\<close>

lemma remove_mid_ok:
  assumes "disjoint_sorted (xs @ c # ys)"
  shows "disjoint_sorted (xs @ ys)"
  using assms by (auto simp: disjoint_sorted_simps)

lemma wait_discard_bio_ok:
  assumes ok: "dcc_ok d"
  shows "dcc_ok (f2fs_wait_discard_bio env sbi d blk)" "blk \<notin> blocks (root (f2fs_wait_discard_bio env sbi d blk))"
    "blocks (root (f2fs_wait_discard_bio env sbi d blk)) \<subseteq> blocks (root d)"
proof -
  let ?d = "f2fs_wait_discard_bio env sbi d blk"
  have a: "acct d" and ds: "disjoint_sorted (root d)" using ok by (simp_all add: dcc_ok_def)
  have "dcc_ok ?d \<and> blk \<notin> blocks (root ?d) \<and> blocks (root ?d) \<subseteq> blocks (root d)"
  proof (cases "find (covers blk) (root d)")
    case None
    then have "f2fs_wait_discard_bio env sbi d blk = d" "blk \<notin> blocks (root d)"
      using find_None_iff[of "covers blk" "root d"] by (simp_all add: f2fs_wait_discard_bio_def blocks_def)
    with ok show ?thesis by simp
  next
    case (Some c)
    then obtain xs ys where r: "root d = xs @ c # ys" and cov: "covers blk c"
      using find_Some_split[OF Some] by blast
    show ?thesis
    proof (cases "dc_state c = D_PREP")
      case True
      then have "?d = punch_discard_cmd sbi d c blk" using Some by (simp add: f2fs_wait_discard_bio_def)
      with punch_ok[OF a ds r True cov] ok show ?thesis by (auto simp: punched_def dcc_ok_def)
    next
      case False
      have fl: "cmd_flight c" using dcc_ok_busy[OF ok _ False] r by simp
      let ?c = "c\<lparr>dc_ref := dc_ref c + 1\<rparr>"
      have w: "?d = snd (wait_one_discard_bio env (set_dc ?c d) ?c)"
        using Some False by (simp add: f2fs_wait_discard_bio_def Let_def)
      have d': "acct ?d" "root ?d = xs @ ys"
        unfolding w using wait_one_ok[OF ref_up[OF a r fl]] fl by (simp_all add: cmd_flight_def)
      have "disjoint_sorted (xs @ c # ys)" using ds r by simp
      note out = blocks_split[OF this cov] remove_mid_ok[OF this]
      show ?thesis using d' out ok r False by (auto simp: dcc_ok_def)
    qed
  qed
  then show "dcc_ok ?d" "blk \<notin> blocks (root ?d)" "blocks (root ?d) \<subseteq> blocks (root d)" by blast+
qed

section \<open>Issuing\<close>

text \<open>A device that accepts every request and takes at least one block per request.\<close>

definition healthy :: "dev_env \<Rightarrow> bool" where
  "healthy env \<longleftrightarrow> (\<forall>s n. issue_err env s n = 0) \<and> (\<forall>bd. 0 < max_discard_blocks env bd)"

definition kept :: "discard_cmd_control \<Rightarrow> discard_cmd_control \<Rightarrow> bool" where
  "kept d d' \<longleftrightarrow> dcc_ok d' \<and> blocks (root d') = blocks (root d) \<and> set (wait_list d) \<subseteq> set (wait_list d')"

lemma kept_refl: "dcc_ok d \<Longrightarrow> kept d d"
  by (simp add: kept_def)

lemma kept_trans: "kept a b \<Longrightarrow> kept b c \<Longrightarrow> kept a c"
  by (auto simp: kept_def)

text \<open>Once a request was issued, some command is on the wait list.\<close>

definition waits_after :: "discard_policy \<Rightarrow> nat \<Rightarrow> nat \<Rightarrow> discard_cmd_control \<Rightarrow> bool" where
  "waits_after dp issued issued' d' \<longleftrightarrow> (dp_type dp \<noteq> DPOLICY_FSTRIM \<and> issued < issued' \<longrightarrow> wait_list d' \<noteq> [])"

lemma waits_after_trans:
  "waits_after dp i j d \<Longrightarrow> kept d d' \<Longrightarrow> waits_after dp j k d' \<Longrightarrow> j \<le> k \<Longrightarrow> waits_after dp i k d'"
  by (cases "i < j"; cases "j < k") (auto simp: waits_after_def kept_def)

lemma kept_ok: "kept d d' \<Longrightarrow> dcc_ok d'"
  by (simp add: kept_def)

lemma find_dc_some:
  "find_dc d i = Some c \<Longrightarrow> dc_id c = i \<and> (\<exists>xs ys. root d = xs @ c # ys)"
  unfolding find_dc_def by (drule find_Some_split) auto

lemma submit_kept:
  assumes ok: "dcc_ok d" and r: "root d = xs @ c # ys" and iss: "issued < max_requests dp" and h: "healthy env"
    and res: "submit_discard_cmd env sbi dp d c issued = (err, issued', d')"
  shows "err = 0 \<and> issued \<le> issued' \<and> issued' \<le> max_requests dp \<and> kept d d' \<and> waits_after dp issued issued' d'"
proof (cases "dc_state c = D_PREP \<and> \<not> need_fsck sbi")
  case False
  then have "submit_discard_cmd env sbi dp d c issued = (0, issued, d)"
    by (auto simp: submit_discard_cmd_def)
  with res iss kept_refl[OF ok] show ?thesis by (auto simp: waits_after_def)
next
  case True
  have a: "acct d" "disjoint_sorted (root d)" using ok by (simp_all add: dcc_ok_def)
  have n: "\<And>s n. issue_err env s n = 0" "0 < max_discard_blocks env (bdev c)" using h by (simp_all add: healthy_def)
  have s: "err = 0" "issued < issued'" "issued' \<le> max_requests dp" "submitted (dp_type dp) d c d'"
    using submit_ok[OF a r _ _ iss n, of sbi] True res by simp_all
  obtain c' where c': "dc_state c' = D_SUBMIT" "0 < bio_ref c'" "dc_ref c' = 0"
    "set (busy (root d')) = insert c' (set (busy (root d)))"
    using s(4) by (auto simp: submitted_def)
  then have "\<forall>x \<in> set (busy (root d')). cmd_flight x" using ok by (auto simp: dcc_ok_def cmd_flight_def)
  with s show ?thesis by (auto simp: submitted_def kept_def dcc_ok_def waits_after_def)
qed

lemma issue_list_kept:
  assumes "dcc_ok d" "issued < max_requests dp" "healthy env"
  shows "case issue_list env sbi dp k ids issued d of
      (issued', intr, d') \<Rightarrow> kept d d' \<and> issued \<le> issued' \<and> issued' \<le> max_requests dp \<and> waits_after dp issued issued' d'"
  using assms(1,2)
proof (induction ids arbitrary: issued d)
  case Nil
  then show ?case by (simp add: kept_refl waits_after_def)
next
  case (Cons i ids)
  show ?case
  proof (cases "find_dc d i")
    case None
    with Cons show ?thesis by simp
  next
    case (Some c)
    then obtain xs ys where r: "root d = xs @ c # ys" using find_dc_some by blast
    obtain err issued1 d1 where res: "submit_discard_cmd env sbi dp d c issued = (err, issued1, d1)" by (metis prod_cases3)
    note s = submit_kept[OF Cons.prems(1) r Cons.prems(2) assms(3) res]
    have next_step: "case issue_list env sbi dp k ids issued1 d1 of
        (issued', intr, d') \<Rightarrow> kept d d' \<and> issued \<le> issued' \<and> issued' \<le> max_requests dp \<and> waits_after dp issued issued' d'"
      if lt: "issued1 < max_requests dp"
    proof -
      obtain issued2 intr2 d2 where r2: "issue_list env sbi dp k ids issued1 d1 = (issued2, intr2, d2)" by (metis prod_cases3)
      have "kept d1 d2 \<and> issued1 \<le> issued2 \<and> issued2 \<le> max_requests dp \<and> waits_after dp issued1 issued2 d2"
        using Cons.IH[OF _ lt, of d1] s kept_ok[of d d1] r2 by simp
      with s r2 show ?thesis
        using kept_trans[of d d1 d2] waits_after_trans[of dp issued issued1 d1 d2 issued2] by simp
    qed
    have stay: "waits_after dp issued issued d" by (simp add: waits_after_def)
    show ?thesis
      using Some res s next_step stay Cons.prems kept_refl[OF Cons.prems(1)] by auto
  qed
qed

lemma orderly_kept:
  assumes "dcc_ok d" "issued < max_requests dp" "healthy env"
    and "orderly_loop env sbi dp n cur issued d = Some (issued', intr, at_end, d')"
  shows "kept d d' \<and> issued' \<le> max_requests dp"
  using assms(1,2,4)
proof (induction n arbitrary: cur issued d)
  case (Suc n)
  show ?case
  proof (cases "Option.bind cur (find_dc d)")
    case None
    with Suc.prems kept_refl show ?thesis by auto
  next
    case (Some c)
    then obtain i where "find_dc d i = Some c" by (auto simp: bind_eq_Some_conv)
    then obtain xs ys where r: "root d = xs @ c # ys" using find_dc_some by blast
    let ?d0 = "d\<lparr>next_pos := eend c\<rparr>"
    have ok0: "dcc_ok ?d0" using Suc.prems(1) dcc_ok_cong[of ?d0 d] acct_cong[of ?d0 d] by simp
    obtain err issued1 d1 where res: "submit_discard_cmd env sbi dp ?d0 c issued = (err, issued1, d1)" by (metis prod_cases3)
    have r0: "root ?d0 = xs @ c # ys" using r by simp
    note s = submit_kept[OF ok0 r0 Suc.prems(2) assms(3) res]
    have k: "kept d d1" using s by (simp add: kept_def)
    consider "dc_state c \<noteq> D_PREP" | "dc_state c = D_PREP" "io_aware dp \<and> \<not> is_idle env (dc_id c)"
      | "dc_state c = D_PREP" "\<not> (io_aware dp \<and> \<not> is_idle env (dc_id c))" by blast
    then show ?thesis
    proof cases
      case 1
      with Suc.IH[OF Suc.prems(1,2)] Suc.prems(3) Some show ?thesis by simp
    next
      case 2
      with Suc.prems Some kept_refl show ?thesis by auto
    next
      case 3
      then have eq: "orderly_loop env sbi dp (Suc n) cur issued d =
          (if issued1 \<ge> max_requests dp then Some (issued1, False, False, d1)
           else orderly_loop env sbi dp n (rb_next_id (root d1) (dc_id c)) issued1 d1)"
        using Some res s by (auto simp: Let_def)
      show ?thesis
      proof (cases "issued1 < max_requests dp")
        case False
        with eq Suc.prems(3) k s show ?thesis by auto
      next
        case True
        with eq Suc.prems(3) Suc.IH[OF kept_ok[OF k] True] kept_trans[OF k] show ?thesis by auto
      qed
    qed
  qed
qed simp

lemma kept_next_pos: "kept d d' \<Longrightarrow> kept d (d'\<lparr>next_pos := p\<rparr>)"
  using dcc_ok_cong[of "d'\<lparr>next_pos := p\<rparr>" d'] acct_cong[of "d'\<lparr>next_pos := p\<rparr>" d'] by (simp add: kept_def)

lemma issue_orderly_kept:
  assumes "dcc_ok d" "0 < max_requests dp" "healthy env"
  shows "kept d (snd (issue_discard_cmd_orderly env sbi dp d))"
proof -
  define cur where "cur = (case find (covers (next_pos d)) (root d) of
      None \<Rightarrow> first_after (next_pos d) (root d) | Some dc \<Rightarrow> Some dc)"
  show ?thesis
  proof (cases "orderly_loop env sbi dp (length (root d) + 1) (map_option dc_id cur) 0 d")
    case None
    then show ?thesis
      using kept_refl[OF assms(1)]
      unfolding issue_discard_cmd_orderly_def rb_lookup_ret_def Let_def prod.case cur_def by simp
  next
    case (Some r)
    obtain issued intr at_end d' where r: "r = (issued, intr, at_end, d')" by (metis prod_cases4)
    have k: "kept d d'" using orderly_kept[OF assms(1) _ assms(3) Some[unfolded r]] assms(2) by simp
    have "snd (issue_discard_cmd_orderly env sbi dp d) = (if at_end then d'\<lparr>next_pos := 0\<rparr> else d')"
      using Some unfolding issue_discard_cmd_orderly_def rb_lookup_ret_def Let_def prod.case r
      by (simp add: cur_def)
    with k kept_next_pos[OF k] show ?thesis by simp
  qed
qed

lemma issue_lists_kept:
  assumes "dcc_ok d" "issued < max_requests dp" "healthy env"
  shows "case issue_lists env sbi dp n issued d of
      Inl (r, d') \<Rightarrow> kept d d'
    | Inr (issued', intr, d') \<Rightarrow> kept d d' \<and> issued \<le> issued' \<and> issued' \<le> max_requests dp \<and> waits_after dp issued issued' d'"
  using assms(1,2)
proof (induction n arbitrary: issued d)
  case 0
  then show ?case by (simp add: kept_refl waits_after_def)
next
  case (Suc i)
  obtain issued1 intr1 d1 where res: "issue_list env sbi dp i (pend_list d i) issued d = (issued1, intr1, d1)"
    by (metis prod_cases3)
  have k: "kept d d1" "issued1 \<le> max_requests dp" "issued \<le> issued1" "waits_after dp issued issued1 d1"
    using issue_list_kept[OF Suc.prems assms(3), of sbi i "pend_list d i"] res by simp_all
  have rec: "case issue_lists env sbi dp i issued1 d1 of
      Inl (r, d') \<Rightarrow> kept d d'
    | Inr (issued', intr, d') \<Rightarrow> kept d d' \<and> issued \<le> issued' \<and> issued' \<le> max_requests dp \<and> waits_after dp issued issued' d'"
    if "issued1 < max_requests dp"
    using Suc.IH[OF kept_ok[OF k(1)] that] kept_trans[OF k(1)] waits_after_trans[OF k(4)] k(3)
    by (auto split: sum.splits)
  have o: "kept d (snd (issue_discard_cmd_orderly env sbi dp d))"
    using issue_orderly_kept[OF Suc.prems(1) _ assms(3)] Suc.prems(2) by simp
  consider "dp_timeout dp \<and> umount_time_over env i \<or> i + 1 < granularity dp"
    | "\<not> (dp_timeout dp \<and> umount_time_over env i \<or> i + 1 < granularity dp)"
      "i + 1 < DEFAULT_DISCARD_GRANULARITY \<and> ordered dp"
    | "\<not> (dp_timeout dp \<and> umount_time_over env i \<or> i + 1 < granularity dp)"
      "\<not> (i + 1 < DEFAULT_DISCARD_GRANULARITY \<and> ordered dp)" by blast
  then show ?case
  proof cases
    case 1
    then show ?thesis using Suc.prems kept_refl by (auto simp: waits_after_def)
  next
    case 2
    with o show ?thesis by (auto simp: case_prod_unfold)
  next
    case 3
    then have "issue_lists env sbi dp (Suc i) issued d =
        (if issued1 \<ge> max_requests dp \<or> intr1 then Inr (issued1, intr1, d1) else issue_lists env sbi dp i issued1 d1)"
      using res by auto
    with k rec show ?thesis by auto
  qed
qed

section \<open>Waiting\<close>

definition shrunk :: "discard_cmd_control \<Rightarrow> discard_cmd_control \<Rightarrow> bool" where
  "shrunk d d' \<longleftrightarrow> dcc_ok d' \<and> set (root d') \<subseteq> set (root d) \<and> length (root d') \<le> length (root d) \<and>
     set (wait_list d') \<subseteq> set (wait_list d) \<and> set (fstrim_list d') \<subseteq> set (fstrim_list d)"

lemma shrunk_refl: "dcc_ok d \<Longrightarrow> shrunk d d"
  by (simp add: shrunk_def)

lemma shrunk_trans: "shrunk a b \<Longrightarrow> shrunk b c \<Longrightarrow> shrunk a c"
  by (auto simp: shrunk_def)

lemma remove_shrunk:
  assumes ok: "dcc_ok d" and r: "root d = xs @ c # ys" and bio: "bio_ref c = 0"
  shows "shrunk d (remove_discard_cmd d c)" "root (remove_discard_cmd d c) = xs @ ys"
proof -
  have a: "acct d" and ds: "disjoint_sorted (xs @ c # ys)" using ok r by (simp_all add: dcc_ok_def)
  note rm = remove_prep[OF a r bio]
  show "root (remove_discard_cmd d c) = xs @ ys" by (rule rm(2))
  have "dcc_ok (remove_discard_cmd d c)"
    using ok rm remove_mid_ok[OF ds] r by (auto simp: dcc_ok_def split: if_splits)
  then show "shrunk d (remove_discard_cmd d c)"
    using rm(2) r bio by (auto simp: shrunk_def remove_discard_cmd_def)
qed

definition eligible :: "nat \<Rightarrow> nat \<Rightarrow> nat \<Rightarrow> discard_cmd \<Rightarrow> bool" where
  "eligible gran start end' c \<longleftrightarrow> \<not> (eend c \<le> start \<or> end' \<le> ofs c) \<and> gran \<le> elen c"

text \<open>The scan ends with no finished command of the range left, or with one to wait for.\<close>

lemma wait_scan_ok:
  assumes "dcc_ok d" "\<forall>c \<in> set (root d). dc_id c \<in> set ids \<longrightarrow> dc_state c \<noteq> D_PREP"
    and "wait_scan gran start end' ids tr d = (need, tr', d')"
  shows "(case need of
      None \<Rightarrow> shrunk d d' \<and> (\<forall>c \<in> set (root d'). dc_id c \<in> set ids \<longrightarrow> \<not> eligible gran start end' c)
    | Some i \<Rightarrow> \<exists>d0 xs c ys. shrunk d d0 \<and> root d0 = xs @ c # ys \<and> cmd_flight c \<and> dc_id c = i \<and>
        d' = set_dc (c\<lparr>dc_ref := dc_ref c + 1\<rparr>) d0)"
  using assms
proof (induction ids arbitrary: d tr)
  case Nil
  then show ?case by (auto simp: shrunk_refl)
next
  case (Cons i ids)
  show ?case
  proof (cases "find_dc d i")
    case None
    then have "\<forall>c \<in> set (root d). dc_id c \<noteq> i" by (auto simp: find_dc_def find_None_iff)
    with Cons.IH[of d tr] Cons.prems None show ?thesis
      by (auto simp: shrunk_def split: option.splits)
  next
    case (Some c)
    then obtain xs ys where c: "dc_id c = i" and r: "root d = xs @ c # ys" using find_dc_some by blast
    have busy: "dc_state c \<noteq> D_PREP" using Cons.prems(2) c r by simp
    have fl: "cmd_flight c" using dcc_ok_busy[OF Cons.prems(1) _ busy] r by simp
    have a: "acct d" using Cons.prems(1) by (simp add: dcc_ok_def)
    show ?thesis
    proof (cases "eligible gran start end' c")
      case False
      then have eq: "wait_scan gran start end' (i # ids) tr d = wait_scan gran start end' ids tr d"
        using Some by (auto simp: eligible_def)
      have only: "x = c" if "x \<in> set (root d)" "dc_id x = i" for x
        using that acct_split[OF a r] c by (auto simp: r)
      have IH: "wait_scan gran start end' ids tr d = (need, tr', d')" using Cons.prems(3) eq by simp
      show ?thesis
        using Cons.IH[OF Cons.prems(1) _ IH] Cons.prems(2) only False
        by (auto simp: shrunk_def split: option.splits)
    next
      case el: True
      show ?thesis
      proof (cases "dc_state c = D_DONE")
        case True
        have bio: "bio_ref c = 0" "dc_ref c = 0" using fl True by (auto simp: cmd_flight_def)
        note rm = remove_shrunk[OF Cons.prems(1) r bio(1)]
        obtain tr1 where eq: "wait_scan gran start end' (i # ids) tr d =
            wait_scan gran start end' ids tr1 (remove_discard_cmd d c)"
          using Some el True bio by (auto simp: eligible_def)
        then have IHp: "wait_scan gran start end' ids tr1 (remove_discard_cmd d c) = (need, tr', d')"
          using Cons.prems(3) by simp
        have gone: "\<forall>x \<in> set (root (remove_discard_cmd d c)). dc_id x \<noteq> i"
          using acct_split[OF a r] c rm(2) by auto
        have ok1: "dcc_ok (remove_discard_cmd d c)" using rm(1) by (simp add: shrunk_def)
        have pre: "\<forall>x \<in> set (root (remove_discard_cmd d c)). dc_id x \<in> set ids \<longrightarrow> dc_state x \<noteq> D_PREP"
          using Cons.prems(2) rm(2) r by auto
        note IH = Cons.IH[OF ok1 pre IHp]
        show ?thesis
        proof (cases need)
          case None
          with IH gone shrunk_trans[OF rm(1)] show ?thesis by (auto simp: shrunk_def)
        next
          case (Some j)
          with IH shrunk_trans[OF rm(1)] show ?thesis by fastforce
        qed
      next
        case False
        then have "wait_scan gran start end' (i # ids) tr d = (Some i, tr, set_dc (c\<lparr>dc_ref := dc_ref c + 1\<rparr>) d)"
          using Some el by (auto simp: eligible_def)
        then have "need = Some i" "d' = set_dc (c\<lparr>dc_ref := dc_ref c + 1\<rparr>) d" using Cons.prems(3) by simp_all
        with shrunk_refl[OF Cons.prems(1)] r fl c show ?thesis by auto
      qed
    qed
  qed
qed

definition list_of :: "dpolicy_type \<Rightarrow> discard_cmd_control \<Rightarrow> nat list" where
  "list_of ty d = (if ty = DPOLICY_FSTRIM then fstrim_list d else wait_list d)"

lemma waiting_busy:
  assumes "acct d" "c \<in> set (root d)" "dc_id c \<in> set (list_of ty d)"
  shows "dc_state c \<noteq> D_PREP"
proof -
  obtain xs ys where r: "root d = xs @ c # ys" using assms(2) by (meson split_list)
  show ?thesis using prep_not_waiting[OF assms(1) r] assms(3) by (auto simp: list_of_def split: if_splits)
qed

lemma shrunk_list_of: "shrunk d d' \<Longrightarrow> set (list_of ty d') \<subseteq> set (list_of ty d)"
  by (simp add: shrunk_def list_of_def)

lemma wait_one_shrunk:
  assumes ok: "dcc_ok d" and r: "root d = xs @ c # ys" and fl: "cmd_flight c"
  defines "c' \<equiv> c\<lparr>dc_ref := dc_ref c + 1\<rparr>"
  shows "shrunk d (snd (wait_one_discard_bio env (set_dc c' d) c'))"
    "length (root (snd (wait_one_discard_bio env (set_dc c' d) c'))) < length (root d)"
proof -
  let ?d = "snd (wait_one_discard_bio env (set_dc c' d) c')"
  have a: "acct d" and ds: "disjoint_sorted (xs @ c # ys)" using ok r by (simp_all add: dcc_ok_def)
  note up = ref_up[OF a r fl, folded c'_def]
  have c': "dc_ref c' = 1" "dc_state c' = D_DONE \<and> bio_ref c' = 0 \<or> dc_state c' = D_SUBMIT \<and> 0 < bio_ref c'"
    using fl by (auto simp: cmd_flight_def c'_def)
  note w = wait_one_ok[OF up c', of env]
  have "dcc_ok ?d" using w remove_mid_ok[OF ds] ok r by (auto simp: dcc_ok_def split: if_splits)
  moreover have "set (wait_list ?d) \<subseteq> set (wait_list d)" "set (fstrim_list ?d) \<subseteq> set (fstrim_list d)"
    by (auto simp: wait_one_discard_bio_def Let_def remove_discard_cmd_def)
  ultimately show "shrunk d ?d" using w(2) r by (auto simp: shrunk_def)
  show "length (root ?d) < length (root d)" using w(2) r by simp
qed

lemma wait_loop_ok:
  assumes "dcc_ok d" "length (root d) < n"
  shows "\<exists>tr' d'. wait_loop env ty gran start end' n tr d = Some (tr', d') \<and> shrunk d d' \<and>
    (\<forall>c \<in> set (root d'). dc_id c \<in> set (list_of ty d') \<longrightarrow> \<not> eligible gran start end' c)"
  using assms
proof (induction n arbitrary: d tr)
  case (Suc n)
  obtain need tr1 d1 where scan: "wait_scan gran start end' (list_of ty d) tr d = (need, tr1, d1)" by (metis prod_cases3)
  have a: "acct d" using Suc.prems(1) by (simp add: dcc_ok_def)
  have pre: "\<forall>c \<in> set (root d). dc_id c \<in> set (list_of ty d) \<longrightarrow> dc_state c \<noteq> D_PREP"
    using waiting_busy[OF a] by blast
  note ok = wait_scan_ok[OF Suc.prems(1) pre scan]
  have loop: "wait_loop env ty gran start end' (Suc n) tr d =
      (case Option.bind need (find_dc d1) of
         None \<Rightarrow> Some (tr1, d1)
       | Some dc \<Rightarrow> (let (len, dcc) = wait_one_discard_bio env d1 dc
                     in wait_loop env ty gran start end' n (u32 (tr1 + len)) dcc))"
    using scan by (simp add: list_of_def Let_def)
  show ?case
  proof (cases need)
    case None
    with ok shrunk_list_of[of d d1 ty] loop show ?thesis by auto
  next
    case (Some i)
    then obtain d0 xs c ys where s: "shrunk d d0" "root d0 = xs @ c # ys" "cmd_flight c" "dc_id c = i"
      "d1 = set_dc (c\<lparr>dc_ref := dc_ref c + 1\<rparr>) d0" using ok by auto
    let ?c = "c\<lparr>dc_ref := dc_ref c + 1\<rparr>"
    have ok0: "dcc_ok d0" and len0: "length (root d0) \<le> length (root d)" using s(1) by (simp_all add: shrunk_def)
    have a0: "acct d0" using ok0 by (simp add: dcc_ok_def)
    have f: "find_dc d1 i = Some ?c"
      using find_dc_split[OF ref_up[OF a0 s(2,3)]] s(4,5) by simp
    define d2 where "d2 = snd (wait_one_discard_bio env d1 ?c)"
    note w = wait_one_shrunk[OF ok0 s(2,3), of env, folded s(5) d2_def]
    have ok2: "dcc_ok d2" using w(1) by (simp add: shrunk_def)
    obtain len where one: "wait_one_discard_bio env d1 ?c = (len, d2)" by (metis d2_def prod.collapse)
    obtain tr' d' where d': "wait_loop env ty gran start end' n (u32 (tr1 + len)) d2 = Some (tr', d')" "shrunk d2 d'"
      "\<forall>c \<in> set (root d'). dc_id c \<in> set (list_of ty d') \<longrightarrow> \<not> eligible gran start end' c"
      using Suc.IH[OF ok2, of "u32 (tr1 + len)"] w(2) len0 Suc.prems(2) by auto
    have "wait_loop env ty gran start end' (Suc n) tr d = Some (tr', d')"
      using loop Some f one d'(1) by simp
    with d' shrunk_trans[OF shrunk_trans[OF s(1) w(1)]] show ?thesis by blast
  qed
qed simp

end
