(* ===== verification/Discard_Machine.thy ===== *)
theory Discard_Machine
  imports Discard_Flow
begin

text \<open>
  The discard commands as a state machine: ranges are queued, blocks are reused, passes
  issue requests, bios complete, commands are waited for and dropped. The invariant
  \<open>dcc_ok\<close> holds along every run; the umount path terminates and leaves nothing behind.
\<close>

section \<open>Waiting for everything\<close>

lemma eligible_all:
  assumes "dcc_ok d" "c \<in> set (root d)" "gran \<le> 1"
  shows "eligible gran 0 UINT_MAX c"
proof -
  have "0 < elen c" "eend c < 2 ^ 32" using assms by (auto simp: dcc_ok_def disjoint_sorted_def acct_def)
  then show ?thesis using assms(3) by (auto simp: eligible_def eend_def UINT_MAX_def)
qed

lemma wait_range_full:
  fixes env :: dev_env and dp :: discard_policy
  assumes ok: "dcc_ok d"
  defines "d' \<equiv> snd (wait_discard_cmd_range env dp 0 UINT_MAX d)"
  shows "shrunk d d'" "granularity dp \<le> 1 \<Longrightarrow> list_of (dp_type dp) d' = []"
proof -
  obtain tr d1 where w: "wait_loop env (dp_type dp) (granularity dp) 0 UINT_MAX (length (root d) + 1) 0 d = Some (tr, d1)"
    "shrunk d d1" "\<forall>c \<in> set (root d1). dc_id c \<in> set (list_of (dp_type dp) d1) \<longrightarrow> \<not> eligible (granularity dp) 0 UINT_MAX c"
    using wait_loop_ok[OF ok, of "length (root d) + 1"] by fastforce
  have d': "d' = d1" using w(1) by (simp add: d'_def wait_discard_cmd_range_def del: wait_loop.simps)
  show "shrunk d d'" using w(2) d' by simp
  have ok1: "dcc_ok d1" using w(2) by (simp add: shrunk_def)
  show "list_of (dp_type dp) d' = []" if g: "granularity dp \<le> 1"
  proof (rule ccontr)
    assume "list_of (dp_type dp) d' \<noteq> []"
    then obtain i where i: "i \<in> set (list_of (dp_type dp) d1)" using d' by (cases "list_of (dp_type dp) d1") auto
    then have "i \<in> set (wait_list d1 @ fstrim_list d1)" by (auto simp: list_of_def split: if_splits)
    then obtain c where c: "c \<in> set (root d1)" "dc_id c = i"
      using ok1 unfolding dcc_ok_def acct_def wait_ok_def by blast
    with w(3) i eligible_all[OF ok1 c(1) g] show False by blast
  qed
qed

lemma policy_simps [simp]:
  "dp_type (init_discard_policy sbi d stack ty g) = ty" "max_requests (init_discard_policy sbi d stack ty g) = 8"
  "granularity (init_discard_policy sbi d stack DPOLICY_FSTRIM g) = g"
  "granularity (init_discard_policy sbi d stack DPOLICY_UMOUNT g) = 1"
  by (cases ty; simp add: init_discard_policy_def Let_def)+

lemma busy_empty:
  assumes "dcc_ok d" "wait_list d = []" "fstrim_list d = []"
  shows "busy (root d) = []"
proof -
  have "\<not> (\<exists>c \<in> set (root d). dc_state c \<noteq> D_PREP)"
    using assms unfolding dcc_ok_def acct_def wait_ok_def by auto
  then show ?thesis by (auto simp: busy_def filter_empty_conv)
qed

lemma wait_all_none:
  fixes env :: dev_env and sbi :: f2fs_sb_info and stack :: discard_policy
  assumes ok: "dcc_ok d"
  defines "d' \<equiv> snd (wait_all_discard_cmd env sbi None stack d)"
  shows "shrunk d d'" "busy (root d') = []"
proof -
  define dp1 where "dp1 = init_discard_policy sbi d stack DPOLICY_FSTRIM 1"
  define d1 where "d1 = snd (wait_discard_cmd_range env dp1 0 UINT_MAX d)"
  define dp2 where "dp2 = init_discard_policy sbi d1 dp1 DPOLICY_UMOUNT 1"
  have d': "d' = snd (wait_discard_cmd_range env dp2 0 UINT_MAX d1)"
    by (simp add: d'_def wait_all_discard_cmd_def Let_def case_prod_unfold dp1_def d1_def dp2_def)
  have w1: "shrunk d d1" "fstrim_list d1 = []"
    using wait_range_full[OF ok, where env = env and dp = dp1] by (simp_all add: d1_def dp1_def list_of_def)
  have ok1: "dcc_ok d1" using w1 by (simp add: shrunk_def)
  have w2: "shrunk d1 d'" "wait_list d' = []"
    using wait_range_full[OF ok1, where env = env and dp = dp2] by (simp_all add: d' dp2_def list_of_def)
  show "shrunk d d'" using shrunk_trans[OF w1(1) w2(1)] .
  have "fstrim_list d' = []" "dcc_ok d'" using w2(1) w1(2) by (simp_all add: shrunk_def)
  with w2(2) busy_empty show "busy (root d') = []" by blast
qed

section \<open>The umount path\<close>

lemma finite_blocks [simp]: "finite (blocks cmds)"
proof -
  have "blocks cmds = (\<Union>c \<in> set cmds. {ofs c..<eend c})" by (auto simp: blocks_def covers_def)
  then show ?thesis by simp
qed

lemma shrunk_blocks_less:
  assumes ok: "dcc_ok d" and s: "shrunk d d'" and c: "c \<in> set (root d)" "c \<notin> set (root d')"
  shows "card (blocks (root d')) < card (blocks (root d))"
proof (rule psubset_card_mono)
  have ds: "disjoint_sorted (root d)" using ok by (simp add: dcc_ok_def)
  have cov: "covers (ofs c) c" using disjoint_sorted_elen[OF ds c(1)] by (simp add: covers_def)
  have "ofs c \<in> blocks (root d)" using c(1) cov by (auto simp: blocks_def)
  moreover have "ofs c \<notin> blocks (root d')"
    using covers_unique[OF ds _ c(1) _ cov] s c(2) by (auto simp: blocks_def shrunk_def)
  moreover have "blocks (root d') \<subseteq> blocks (root d)" using s by (auto simp: blocks_def shrunk_def)
  ultimately show "blocks (root d') \<subset> blocks (root d)" by blast
qed simp

lemma wait_round_less:
  fixes env :: dev_env
  assumes ok: "dcc_ok d" and ne: "wait_list d \<noteq> []" and dp: "dp_type dp \<noteq> DPOLICY_FSTRIM" "granularity dp \<le> 1"
  defines "d' \<equiv> snd (wait_discard_cmd_range env dp 0 UINT_MAX d)"
  shows "dcc_ok d'" "card (blocks (root d')) < card (blocks (root d))"
proof -
  note w = wait_range_full[OF ok, where env = env and dp = dp, folded d'_def]
  have wl: "wait_list d' = []" using w(2)[OF dp(2)] dp(1) by (simp add: list_of_def)
  show ok': "dcc_ok d'" using w(1) by (simp add: shrunk_def)
  obtain i where i: "i \<in> set (wait_list d)" using ne by (cases "wait_list d") auto
  then have "i \<notin> set (fstrim_list d)" using ok by (auto simp: dcc_ok_def acct_def wait_ok_def)
  then have nin: "i \<notin> set (wait_list d' @ fstrim_list d')" using w(1) wl by (auto simp: shrunk_def)
  obtain c where c: "c \<in> set (root d)" "dc_id c = i" "dc_state c \<noteq> D_PREP"
    using ok i unfolding dcc_ok_def acct_def wait_ok_def by fastforce
  have "c \<notin> set (root d')"
    using nin ok' c(2,3) unfolding dcc_ok_def acct_def wait_ok_def by blast
  from shrunk_blocks_less[OF ok w(1) c(1) this]
  show "card (blocks (root d')) < card (blocks (root d))" .
qed

text \<open>The control afterwards is consistent and covers no new block.\<close>

definition fewer :: "discard_cmd_control \<Rightarrow> discard_cmd_control \<Rightarrow> bool" where
  "fewer d d' \<longleftrightarrow> dcc_ok d' \<and> blocks (root d') \<subseteq> blocks (root d)"

lemma fewer_refl: "dcc_ok d \<Longrightarrow> fewer d d"
  by (simp add: fewer_def)

lemma fewer_trans: "fewer a b \<Longrightarrow> fewer b c \<Longrightarrow> fewer a c"
  by (auto simp: fewer_def)

lemma shrunk_fewer: "shrunk d d' \<Longrightarrow> fewer d d'"
  by (auto simp: shrunk_def fewer_def blocks_def)

lemma kept_fewer: "kept d d' \<Longrightarrow> fewer d d'"
  by (simp add: kept_def fewer_def)

lemma issue_umount_total:
  assumes "dcc_ok d" "card (blocks (root d)) < n" "healthy env"
    and dp: "dp_type dp = DPOLICY_UMOUNT" "granularity dp \<le> 1" "0 < max_requests dp"
  shows "\<exists>r d'. issue_discard_cmd env sbi dp n d = Some (r, d') \<and> fewer d d'"
  using assms(1,2)
proof (induction n arbitrary: d)
  case (Suc n)
  note k = issue_lists_kept[OF Suc.prems(1) dp(3) assms(3), of sbi MAX_PLIST_NUM]
  show ?case
  proof (cases "issue_lists env sbi dp MAX_PLIST_NUM 0 d")
    case (Inl r)
    with k show ?thesis by (cases r) (auto simp: kept_def fewer_def)
  next
    case (Inr r)
    obtain issued intr d1 where r: "r = (issued, intr, d1)" by (metis prod_cases3)
    have k1: "kept d d1" "waits_after dp 0 issued d1" using k Inr r by simp_all
    have ok1: "dcc_ok d1" using k1 by (simp add: kept_def)
    show ?thesis
    proof (cases "issued = 0")
      case True
      with Inr r kept_fewer[OF k1(1)] show ?thesis by simp
    next
      case False
      then have ne: "wait_list d1 \<noteq> []" using k1(2) dp(1) by (simp add: waits_after_def)
      let ?d2 = "snd (wait_discard_cmd_range env dp 0 UINT_MAX d1)"
      have w: "dcc_ok ?d2" "card (blocks (root ?d2)) < card (blocks (root d1))"
        using wait_round_less[OF ok1 ne, where dp = dp and env = env] dp by simp_all
      have "blocks (root d1) = blocks (root d)" using k1(1) by (simp add: kept_def)
      then have "card (blocks (root ?d2)) < n" using w(2) Suc.prems(2) by simp
      from Suc.IH[OF w(1) this] obtain r' d' where IH: "issue_discard_cmd env sbi dp n ?d2 = Some (r', d')" "fewer ?d2 d'" by blast
      have "fewer d d'" using fewer_trans[OF fewer_trans[OF kept_fewer[OF k1(1)] shrunk_fewer[OF wait_range_full(1)[OF ok1]]] IH(2)] .
      then show ?thesis using Inr r False dp(1) IH(1) by (simp add: wait_all_discard_cmd_def)
    qed
  qed
qed simp

lemma umount_total:
  assumes ok: "dcc_ok d" and h: "healthy env" and n: "card (blocks (root d)) < n"
  shows "\<exists>dropped d'. f2fs_issue_discard_timeout env sbi stack n d = Some (dropped, d') \<and> dcc_ok d' \<and> root d' = []"
proof -
  define dp where "dp = init_discard_policy sbi d stack DPOLICY_UMOUNT (discard_granularity d)"
  obtain r d1 where i: "issue_discard_cmd env sbi dp n d = Some (r, d1)" "dcc_ok d1"
    using issue_umount_total[OF ok n h, of dp sbi] by (auto simp: dp_def fewer_def)
  have a1: "acct d1" "disjoint_sorted (root d1)" using i(2) by (simp_all add: dcc_ok_def)
  obtain dropped d2 where dr: "drop_discard_cmd d1 = (dropped, d2)" by fastforce
  note dk = drop_ok[OF a1, unfolded dr]
  have bb: "busy (busy cmds) = busy cmds" for cmds by (simp add: busy_def)
  have ok2: "dcc_ok d2" using dk i(2) by (simp add: dcc_ok_def bb)
  define d3 where "d3 = snd (wait_all_discard_cmd env sbi None dp d2)"
  note w = wait_all_none[OF ok2, where env = env and sbi = sbi and stack = dp, folded d3_def]
  have "root d3 = []"
  proof -
    have "set (root d3) \<subseteq> set (busy (root d1))" using w(1) dk(2) by (simp add: shrunk_def)
    then have "root d3 = busy (root d3)" by (auto simp: busy_def intro!: filter_True[symmetric])
    with w(2) show ?thesis by simp
  qed
  moreover have "f2fs_issue_discard_timeout env sbi stack n d = Some (dropped, d3)"
    using i(1) dr by (simp add: f2fs_issue_discard_timeout_def dp_def[symmetric] Let_def d3_def case_prod_unfold
        del: issue_discard_cmd.simps)
  moreover have "dcc_ok d3" using w(1) by (simp add: shrunk_def)
  ultimately show ?thesis by blast
qed

section \<open>Blocks and lengths\<close>

lemma card_blocks: "disjoint_sorted cmds \<Longrightarrow> card (blocks cmds) = total_len cmds"
proof (induction cmds)
  case (Cons c cs)
  have "{ofs c..<eend c} \<inter> blocks cs = {}"
    using Cons.prems by (fastforce simp: disjoint_sorted_simps blocks_def covers_def)
  then have "card (blocks (c # cs)) = elen c + card (blocks cs)"
    by (simp add: card_Un_disjoint eend_def)
  with Cons show ?case by (simp add: disjoint_sorted_simps)
qed simp

section \<open>The events\<close>

text \<open>
  What happens to the control between two acquisitions of \<open>cmd_lock\<close>: a range is queued, a
  block is about to be reused, a bio ends, a pass issues commands, somebody waits for a
  range, the thread makes a round, pending commands are dropped. An event carries the
  environment and the super block it runs against.
\<close>

datatype discard_event =
    Dc_queue dev_env f2fs_sb_info nat nat nat
  | Dc_reuse dev_env f2fs_sb_info nat
  | Dc_endio int nat
  | Dc_issue dev_env f2fs_sb_info discard_policy
  | Dc_wait dev_env discard_policy nat nat
  | Dc_round dev_env thread_env f2fs_sb_info discard_policy nat
  | Dc_drop

definition endio_step :: "int \<Rightarrow> nat \<Rightarrow> discard_cmd_control \<Rightarrow> discard_cmd_control" where
  "endio_step status i dcc =
     (case find_dc dcc i of None \<Rightarrow> dcc | Some c \<Rightarrow> set_dc (submit_discard_endio status c) dcc)"

definition issue_step ::
    "dev_env \<Rightarrow> f2fs_sb_info \<Rightarrow> discard_policy \<Rightarrow> discard_cmd_control \<Rightarrow> discard_cmd_control" where
  "issue_step env sbi dp dcc =
     (case issue_discard_cmd env sbi dp (total_len (root dcc) + 1) dcc of None \<Rightarrow> dcc | Some (_, d) \<Rightarrow> d)"

definition thread_round ::
    "dev_env \<Rightarrow> thread_env \<Rightarrow> f2fs_sb_info \<Rightarrow> discard_policy \<Rightarrow> nat \<Rightarrow> discard_cmd_control \<Rightarrow> discard_cmd_control" where
  "thread_round env te sbi stack wait_ms dcc =
     (let (wait_ms, dp, dcc) = thread_before_sleep sbi stack wait_ms dcc
      in case thread_after_sleep env te sbi dp wait_ms dcc of None \<Rightarrow> dcc | Some (_, d) \<Rightarrow> d)"

fun discard_step :: "discard_event \<Rightarrow> discard_cmd_control \<Rightarrow> discard_cmd_control" where
  "discard_step (Dc_queue env sbi bd lo len) d = queue_discard_cmd env sbi d bd lo len"
| "discard_step (Dc_reuse env sbi blk) d = f2fs_wait_discard_bio env sbi d blk"
| "discard_step (Dc_endio status i) d = endio_step status i d"
| "discard_step (Dc_issue env sbi dp) d = issue_step env sbi dp d"
| "discard_step (Dc_wait env dp lo hi) d = snd (wait_discard_cmd_range env dp lo hi d)"
| "discard_step (Dc_round env te sbi stack wait_ms) d = thread_round env te sbi stack wait_ms d"
| "discard_step Dc_drop d = snd (drop_discard_cmd d)"

text \<open>
  Ranges are on the volume, the device accepts requests, a bio ends only while it is
  outstanding, and a policy allows at least one request (\<open>init_discard_policy\<close> allows 8).
\<close>

fun discard_enabled :: "discard_event \<Rightarrow> discard_cmd_control \<Rightarrow> bool" where
  "discard_enabled (Dc_queue env sbi bd lo len) d \<longleftrightarrow> lo + len < 2 ^ 32"
| "discard_enabled (Dc_endio status i) d \<longleftrightarrow>
     (case find_dc d i of None \<Rightarrow> False | Some c \<Rightarrow> dc_state c = D_SUBMIT \<and> 0 < bio_ref c)"
| "discard_enabled (Dc_issue env sbi dp) d \<longleftrightarrow>
     healthy env \<and> 0 < max_requests dp \<and> (dp_type dp = DPOLICY_UMOUNT \<longrightarrow> granularity dp \<le> 1)"
| "discard_enabled (Dc_round env te sbi stack wait_ms) d \<longleftrightarrow> healthy env"
| "discard_enabled _ d \<longleftrightarrow> True"

section \<open>Every event keeps the invariant\<close>

lemma queue_dcc_ok:
  assumes "dcc_ok d" "lo + len < 2 ^ 32"
  shows "dcc_ok (queue_discard_cmd env sbi d bd lo len)"
  using update_discard_tree_range_ok[of d lo len env sbi bd] assms
  by (auto simp: queue_discard_cmd_def dcc_ok_def added_def)

lemma endio_flight: "cmd_flight c \<Longrightarrow> dc_state c = D_SUBMIT \<Longrightarrow> cmd_flight (submit_discard_endio s c)"
  by (auto simp: cmd_flight_def endio_state)

lemma endio_dcc_ok:
  assumes ok: "dcc_ok d" and en: "discard_enabled (Dc_endio s i) d"
  shows "dcc_ok (endio_step s i d)" "blocks (root (endio_step s i d)) = blocks (root d)"
proof -
  obtain c where c: "find_dc d i = Some c" "dc_state c = D_SUBMIT" using en by (auto split: option.splits)
  obtain xs ys where r: "root d = xs @ c # ys" using find_dc_some[OF c(1)] by (meson split_list)
  let ?c = "submit_discard_endio s c"
  have a: "acct d" using ok by (simp add: dcc_ok_def)
  have st: "dc_state ?c \<noteq> D_PREP" using c(2) by (simp add: endio_state)
  have k: "acct (set_dc ?c d)" "root (set_dc ?c d) = xs @ ?c # ys"
    using set_busy_acct[OF a r, of ?c] c(2) st by simp_all
  have e: "endio_step s i d = set_dc ?c d" using c(1) by (simp add: endio_step_def)
  have fl: "cmd_flight ?c" using endio_flight[OF _ c(2)] dcc_ok_busy[OF ok] r c(2) by simp
  have ee: "eend ?c = eend c" by (simp add: eend_def)
  show "dcc_ok (endio_step s i d)"
    using ok fl c(2) st by (simp add: dcc_ok_def e k r disjoint_sorted_simps ee)
  show "blocks (root (endio_step s i d)) = blocks (root d)" by (simp add: e k(2) r ee)
qed

lemma issue_once:
  assumes "dcc_ok d" "healthy env" "0 < max_requests dp" "dp_type dp \<noteq> DPOLICY_UMOUNT"
  shows "\<exists>r d'. issue_discard_cmd env sbi dp (Suc n) d = Some (r, d') \<and> kept d d'"
  using issue_lists_kept[OF assms(1,3,2), of sbi MAX_PLIST_NUM] assms(4)
  by (auto split: sum.splits prod.splits)

lemma issue_fewer:
  assumes "dcc_ok d" "discard_enabled (Dc_issue env sbi dp) d"
  shows "fewer d (issue_step env sbi dp d)"
proof (cases "dp_type dp = DPOLICY_UMOUNT")
  case True
  have "card (blocks (root d)) < total_len (root d) + 1" using assms(1) by (simp add: card_blocks dcc_ok_def)
  with issue_umount_total[OF assms(1) this, of env dp sbi] True assms(2) show ?thesis
    by (auto simp: issue_step_def simp del: issue_discard_cmd.simps)
next
  case False
  with issue_once[of d env dp sbi "total_len (root d)"] assms show ?thesis
    by (auto simp: issue_step_def simp del: issue_discard_cmd.simps intro: kept_fewer)
qed

lemma drop_fewer:
  assumes "dcc_ok d"
  shows "fewer d (snd (drop_discard_cmd d))"
proof -
  have "busy (busy (root d)) = busy (root d)" "blocks (busy (root d)) \<subseteq> blocks (root d)" by (auto simp: busy_def blocks_def)
  then show ?thesis using assms drop_ok[of d] by (simp add: dcc_ok_def fewer_def)
qed

lemma swod_only_fewer:
  assumes "dcc_ok d"
  shows "fewer d (f2fs_swod_release_all sbi d why)" "fewer d (f2fs_swod_sweep_timeout sbi d now)" "fewer d (d\<lparr>discard_wake := b\<rparr>)"
  using assms
  by (simp_all add: fewer_def dcc_ok_def acct_def pend_ok_def wait_ok_def f2fs_swod_release_all_def f2fs_swod_sweep_timeout_def)

lemma wait_all_fewer:
  assumes "dcc_ok d"
  shows "fewer d (snd (wait_all_discard_cmd env sbi None stack d))" "fewer d (snd (wait_all_discard_cmd env sbi (Some dp) stack d))"
  using shrunk_fewer[OF wait_all_none(1)[OF assms]] shrunk_fewer[OF wait_range_full(1)[OF assms]]
  by (simp_all add: wait_all_discard_cmd_def)

lemma thread_policy_type: "dp_type (thread_policy sbi d stack) \<noteq> DPOLICY_UMOUNT" "max_requests (thread_policy sbi d stack) = 8"
  by (simp_all add: thread_policy_def)

lemma thread_after_fewer:
  assumes ok: "dcc_ok d" and h: "healthy env" and dp: "dp_type dp \<noteq> DPOLICY_UMOUNT" "0 < max_requests dp"
    and res: "thread_after_sleep env te sbi dp wait_ms d = Some (w, d')"
  shows "fewer d d'"
proof -
  define d0 where "d0 = d\<lparr>discard_wake := False\<rparr>"
  define d1 where "d1 = (if queued_discard d0 \<noteq> 0 then snd (wait_all_discard_cmd env sbi None dp d0) else d0)"
  have f0: "fewer d d0" unfolding d0_def by (rule swod_only_fewer[OF ok])
  then have ok0: "dcc_ok d0" by (simp add: fewer_def)
  have f1: "fewer d d1" using f0 fewer_trans[OF f0 wait_all_fewer(1)[OF ok0]] by (simp add: d1_def)
  then have ok1: "dcc_ok d1" by (simp add: fewer_def)
  obtain r d2 where i: "issue_discard_cmd env sbi dp 1 d1 = Some (r, d2)" "kept d1 d2"
    using issue_once[OF ok1 h dp(2,1), of sbi 0] by auto
  let ?d3 = "f2fs_swod_sweep_timeout sbi d2 (jiffies sbi)"
  have f3: "fewer d ?d3" using fewer_trans[OF fewer_trans[OF f1 kept_fewer[OF i(2)]] swod_only_fewer(2)[OF kept_ok[OF i(2)]]] .
  then have ok3: "dcc_ok ?d3" by (simp add: fewer_def)
  show ?thesis
    using res[unfolded thread_after_sleep_def, folded d0_def] f1 f3 fewer_trans[OF f3 wait_all_fewer(2)[OF ok3]]
    unfolding Let_def d1_def[symmetric] i(1)
    by (auto split: if_splits option.splits)
qed

lemma round_fewer:
  assumes "dcc_ok d" "healthy env"
  shows "fewer d (thread_round env te sbi stack wait_ms d)"
proof -
  obtain w dp d1 where b: "thread_before_sleep sbi stack wait_ms d = (w, dp, d1)" by (metis prod_cases3)
  have dp: "dp = thread_policy sbi d stack" and f1: "fewer d d1"
    using b swod_only_fewer[OF assms(1)] fewer_refl[OF assms(1)] by (auto simp: thread_before_sleep_def Let_def)
  then have ok1: "dcc_ok d1" by (simp add: fewer_def)
  show ?thesis
    using fewer_trans[OF f1 thread_after_fewer[OF ok1 assms(2), of dp]] f1
    by (auto simp: thread_round_def b dp thread_policy_type split: option.splits)
qed

text \<open>Only queueing a range adds blocks.\<close>

lemma discard_step_fewer:
  assumes ok: "dcc_ok d" and en: "discard_enabled e d" and nq: "\<And>env sbi bd lo len. e \<noteq> Dc_queue env sbi bd lo len"
  shows "fewer d (discard_step e d)"
proof (cases e)
  case (Dc_wait env dp lo hi)
  obtain tr d1 where "wait_loop env (dp_type dp) (granularity dp) lo hi (length (root d) + 1) 0 d = Some (tr, d1)" "shrunk d d1"
    using wait_loop_ok[OF ok, of "length (root d) + 1"] by fastforce
  then show ?thesis using Dc_wait shrunk_fewer by (simp add: wait_discard_cmd_range_def del: wait_loop.simps)
next
  case (Dc_reuse env sbi blk)
  then show ?thesis using wait_discard_bio_ok[OF ok] by (simp add: fewer_def)
next
  case (Dc_endio status i)
  then show ?thesis using endio_dcc_ok[OF ok] en by (simp add: fewer_def del: discard_enabled.simps)
next
  case (Dc_issue env sbi dp)
  then show ?thesis using issue_fewer[OF ok] en by (simp del: discard_enabled.simps)
qed (use ok en nq in \<open>simp_all add: round_fewer drop_fewer\<close>)

lemma discard_step_ok:
  assumes "dcc_ok d" "discard_enabled e d"
  shows "dcc_ok (discard_step e d)"
proof (cases "\<exists>env sbi bd lo len. e = Dc_queue env sbi bd lo len")
  case True
  then show ?thesis using assms queue_dcc_ok by auto
next
  case False
  then show ?thesis using discard_step_fewer[OF assms] by (simp add: fewer_def)
qed

interpretation discardm: guarded_machine discard_step discard_enabled dcc_ok
  by unfold_locales (rule discard_step_ok)

end
