(* ===== verification/Discard_Props.thy ===== *)
theory Discard_Props
  imports Discard_Machine Swod_Example
begin

text \<open>
  The properties of the discard commands. The example is a control without SWOD on the
  volume of \<open>Swod_Example\<close>, with a device that takes eight blocks per request.
\<close>

definition dx_env :: dev_env where
  "dx_env = \<lparr>max_sectors = (\<lambda>_. 64), support_discard = (\<lambda>_. True), dev_start_blk = (\<lambda>_. 0),
     issue_err = (\<lambda>_ _. 0), bio_err = (\<lambda>_. 0), is_idle = (\<lambda>_. True), umount_time_over = (\<lambda>_. False),
     umount_time_over_cmd = (\<lambda>_. False), ktime = 5\<rparr>"

definition dx_new :: discard_cmd_control where
  "dx_new = ex_dcc\<lparr>root := [], undiscard_blks := 0, discard_cmd_cnt := 0, tun := ex_tun\<lparr>swod_enable := 0\<rparr>\<rparr>"

definition dx_two :: discard_cmd_control where
  "dx_two = queue_discard_cmd dx_env ex_sbi (queue_discard_cmd dx_env ex_sbi dx_new 0 2600 6) 0 2608 3"

lemma dx_new_ok: "dcc_ok dx_new"
  by (simp add: dcc_ok_def acct_def pend_ok_def wait_ok_def dx_new_def ex_dcc_def u32_def)

lemma dx_healthy: "healthy dx_env"
  by (simp add: healthy_def dx_env_def max_discard_blocks_def SECTOR_TO_BLOCK_def)

lemma dx_two_ok: "dcc_ok dx_two"
  by (simp add: dx_two_def queue_dcc_ok dx_new_ok)

lemma dx_two_acct: "acct dx_two" "disjoint_sorted (root dx_two)"
  using dx_two_ok by (simp_all add: dcc_ok_def)

lemma dx_two_root: "map (\<lambda>c. (dc_id c, ofs c, elen c, dc_state c)) (root dx_two) = [(10000, 2600, 6, D_PREP), (10001, 2608, 3, D_PREP)]"
  by code_simp

section \<open>Runs\<close>

text \<open>
  C11. From any control that satisfies the invariant, every sequence of the events of the
  discard subsystem (queueing ranges, reusing blocks, completions, issue passes, waits,
  rounds of the thread, drops) leads to a control in which the commands are disjoint and in
  order, \<open>undiscard_blks\<close> is the number of blocks they cover modulo \<open>2 ^ 32\<close>,
  \<open>discard_cmd_cnt\<close> their number, every pending command is on the list of its length, and
  every other one is on a wait list. The devices accept every request (\<open>healthy\<close>; one that fails loses blocks that
  \<open>undiscard_blks\<close> still counts), queued ranges end below block \<open>2 ^ 32\<close>, only outstanding bios complete, and the
  policy of an issue pass allows at least one request and, for umount, commands of every length (\<open>discard_enabled\<close>).
\<close>

theorem discard_runs_keep_invariant:
  assumes "dcc_ok d0" "reach discard_step discard_enabled d0 d"
  shows "dcc_ok d \<and> disjoint_sorted (root d) \<and> undiscard_blks d = u32 (card (blocks (root d))) \<and>
    discard_cmd_cnt d = length (root d) \<and>
    (\<forall>c \<in> set (root d). if dc_state c = D_PREP then dc_id c \<in> set (pend_list d (plist_idx (elen c)))
                        else dc_id c \<in> set (wait_list d @ fstrim_list d))"
proof -
  have ok: "dcc_ok d" using discardm.reach_inv[OF assms(2,1)] .
  then have a: "acct d" and ds: "disjoint_sorted (root d)" by (simp_all add: dcc_ok_def)
  have "\<forall>c \<in> set (root d). if dc_state c = D_PREP then dc_id c \<in> set (pend_list d (plist_idx (elen c)))
        else dc_id c \<in> set (wait_list d @ fstrim_list d)"
    using a unfolding acct_def pend_ok_def wait_ok_def by auto
  moreover have "undiscard_blks d = u32 (card (blocks (root d)))" "discard_cmd_cnt d = length (root d)"
    using a ds by (simp_all add: acct_def card_blocks)
  ultimately show ?thesis using ok ds by blast
qed

lemma dx_two_reach: "reach discard_step discard_enabled dx_new dx_two"
proof -
  let ?e1 = "Dc_queue dx_env ex_sbi 0 2600 6" and ?e2 = "Dc_queue dx_env ex_sbi 0 2608 3"
  have "reach discard_step discard_enabled dx_new (discard_step ?e2 (discard_step ?e1 dx_new))"
    by (intro reach.intros) simp_all
  then show ?thesis by (simp add: dx_two_def)
qed

theorem discard_runs_keep_invariant_witness:
  "dcc_ok dx_new \<and> reach discard_step discard_enabled dx_new dx_two \<and> undiscard_blks dx_two = u32 (card (blocks (root dx_two)))"
  using discard_runs_keep_invariant[OF dx_new_ok dx_two_reach] dx_new_ok dx_two_reach by simp

section \<open>Operations\<close>

text \<open>
  C16. \<open>__update_discard_tree_range\<close> ends, and afterwards the commands cover exactly the
  blocks they covered and the range: nothing is lost and nothing is covered twice. Commands
  that are no longer pending stay as they are; they are neither merged nor replaced.
\<close>

theorem update_range_adds_exactly:
  assumes "acct dcc" "disjoint_sorted (root dcc)" "lo + len < 2 ^ 32"
  shows "\<exists>d'. update_range env sbi dcc bd lo start len = Some d' \<and> acct d' \<and> disjoint_sorted (root d') \<and>
    blocks (root d') = blocks (root dcc) \<union> {lo..<lo + len} \<and> busy (root d') = busy (root dcc)"
  using update_range_total[OF assms, of env sbi bd start] by (auto simp: added_def)

theorem update_range_adds_exactly_witness:
  "\<exists>d'. update_range dx_env ex_sbi dx_two 0 2603 2603 20 = Some d' \<and> blocks (root d') = blocks (root dx_two) \<union> {2603..<2603 + 20}"
  using update_range_adds_exactly[OF dx_two_acct, of 2603 20 dx_env ex_sbi 0 2603] by auto

text \<open>
  C28. Before a block is written again, \<open>f2fs_wait_discard_bio\<close> makes sure that no command
  covers it: pending commands are cut around it, a submitted one is waited for and removed.
  It never adds a block to the tree.
\<close>

theorem wait_discard_bio_frees_block:
  assumes "dcc_ok d"
  shows "dcc_ok (f2fs_wait_discard_bio env sbi d blk) \<and> blk \<notin> blocks (root (f2fs_wait_discard_bio env sbi d blk)) \<and>
    blocks (root (f2fs_wait_discard_bio env sbi d blk)) \<subseteq> blocks (root d)"
  using wait_discard_bio_ok[OF assms] by blast

theorem wait_discard_bio_frees_block_witness:
  "2603 \<in> blocks (root dx_two) \<and> 2603 \<notin> blocks (root (f2fs_wait_discard_bio dx_env ex_sbi dx_two 2603))"
proof -
  have "\<exists>c \<in> set (root dx_two). ofs c = 2600 \<and> elen c = 6" using dx_two_root by (auto simp: map_eq_Cons_conv)
  then have "2603 \<in> blocks (root dx_two)" by (force simp: blocks_def covers_def eend_def)
  with wait_discard_bio_frees_block[OF dx_two_ok, of dx_env ex_sbi 2603] show ?thesis by simp
qed

text \<open>
  C29. Punching a block out of a pending command takes exactly this block out of the tree,
  splits the command when the block is inside, and keeps counters and lists.
\<close>

theorem punch_removes_block:
  assumes "acct dcc" "disjoint_sorted (root dcc)" "c \<in> set (root dcc)" "dc_state c = D_PREP" "covers blk c"
  shows "acct (punch_discard_cmd sbi dcc c blk) \<and> disjoint_sorted (root (punch_discard_cmd sbi dcc c blk)) \<and>
    blocks (root (punch_discard_cmd sbi dcc c blk)) = blocks (root dcc) - {blk} \<and>
    busy (root (punch_discard_cmd sbi dcc c blk)) = busy (root dcc)"
proof -
  obtain xs ys where "root dcc = xs @ c # ys" using assms(3) by (meson split_list)
  from punch_ok[OF assms(1,2) this assms(4,5)] show ?thesis by (simp add: punched_def)
qed

theorem punch_removes_block_witness:
  "\<exists>c. c \<in> set (root dx_two) \<and> covers 2603 c \<and>
     blocks (root (punch_discard_cmd ex_sbi dx_two c 2603)) = blocks (root dx_two) - {2603}"
proof -
  have "\<exists>c \<in> set (root dx_two). ofs c = 2600 \<and> elen c = 6 \<and> dc_state c = D_PREP"
    using dx_two_root by (auto simp: map_eq_Cons_conv)
  then obtain c where c: "c \<in> set (root dx_two)" "dc_state c = D_PREP" "covers 2603 c"
    by (auto simp: covers_def eend_def)
  with punch_removes_block[OF dx_two_acct c, of ex_sbi] show ?thesis by blast
qed

text \<open>
  C30. When the device accepts its requests and takes at least one block with each, the volume is not marked for
  fsck (\<open>SBI_NEED_FSCK\<close>), and fewer than \<open>max_requests\<close> of the policy have been issued, \<open>__submit_discard_cmd\<close> on a
  pending command issues at least one request, keeps every block in the tree (what the requests do not cover becomes a pending
  command again), and leaves the command submitted, outstanding and on a wait list, with a
  prefix of its range.
\<close>

theorem submit_keeps_blocks:
  assumes "acct dcc" "disjoint_sorted (root dcc)" "dc \<in> set (root dcc)" "dc_state dc = D_PREP" "\<not> need_fsck sbi"
    and "issued < max_requests dp" "\<And>s n. issue_err env s n = 0" "0 < max_discard_blocks env (bdev dc)"
    and "submit_discard_cmd env sbi dp dcc dc issued = (err, issued', d')"
  shows "err = 0 \<and> issued < issued' \<and> issued' \<le> max_requests dp \<and> acct d' \<and> disjoint_sorted (root d') \<and>
    blocks (root d') = blocks (root dcc) \<and>
    (\<exists>c \<in> set (root d'). dc_id c = dc_id dc \<and> dc_state c = D_SUBMIT \<and> ofs c = ofs dc \<and> 0 < elen c \<and>
       elen c \<le> elen dc \<and> 0 < bio_ref c)"
proof -
  obtain xs ys where "root dcc = xs @ dc # ys" using assms(3) by (meson split_list)
  from submit_ok[OF assms(1,2) this assms(4-8)] show ?thesis using assms(9) by (auto simp: submitted_def)
qed

definition dx_dp :: discard_policy where
  "dx_dp = init_discard_policy ex_sbi dx_two
     \<lparr>dp_type = DPOLICY_BG, min_interval = 0, mid_interval = 0, max_interval = 0, max_requests = 0, io_aware_gran = 0,
      io_aware = False, dp_sync = False, ordered = False, dp_timeout = False, granularity = 0\<rparr> DPOLICY_UMOUNT 1"

theorem submit_keeps_blocks_witness:
  "\<exists>dc \<in> set (root dx_two). dc_state dc = D_PREP \<and>
     blocks (root (snd (snd (submit_discard_cmd dx_env ex_sbi dx_dp dx_two dc 7)))) = blocks (root dx_two)"
proof -
  have "\<exists>c \<in> set (root dx_two). dc_state c = D_PREP" using dx_two_root by (auto simp: map_eq_Cons_conv)
  then obtain c where c: "c \<in> set (root dx_two)" "dc_state c = D_PREP" by blast
  obtain err i d where res: "submit_discard_cmd dx_env ex_sbi dx_dp dx_two c 7 = (err, i, d)" by (metis prod_cases3)
  have n: "\<not> need_fsck ex_sbi" "7 < max_requests dx_dp" "issue_err dx_env s k = 0" "0 < max_discard_blocks dx_env b" for s k b
    using dx_healthy by (simp_all add: ex_sbi_def dx_dp_def healthy_def)
  from submit_keeps_blocks[OF dx_two_acct c n(1,2,3,4) res] c res show ?thesis by auto
qed

text \<open>
  \<open>__drop_discard_cmd\<close> removes the pending commands of all lengths and nothing else.
\<close>

theorem drop_leaves_submitted:
  assumes "acct d" "disjoint_sorted (root d)"
  shows "root (snd (drop_discard_cmd d)) = filter (\<lambda>c. dc_state c \<noteq> D_PREP) (root d) \<and> acct (snd (drop_discard_cmd d)) \<and>
    (\<forall>k. pend_list (snd (drop_discard_cmd d)) k = [])"
proof -
  note k = drop_ok[OF assms]
  have "pend_list (snd (drop_discard_cmd d)) j = []" for j
  proof (rule ccontr)
    assume "pend_list (snd (drop_discard_cmd d)) j \<noteq> []"
    then obtain i where "i \<in> set (pend_list (snd (drop_discard_cmd d)) j)"
      by (cases "pend_list (snd (drop_discard_cmd d)) j") auto
    then have "\<exists>c \<in> set (root (snd (drop_discard_cmd d))). dc_state c = D_PREP"
      using k(1) unfolding acct_def pend_ok_def by blast
    then show False by (simp add: k(2) busy_def)
  qed
  with k show ?thesis by (simp add: busy_def)
qed

theorem drop_leaves_submitted_witness:
  "pend_list dx_two 5 \<noteq> [] \<and> root (snd (drop_discard_cmd dx_two)) = []"
proof -
  have "pend_list dx_two 5 = [10000]" by code_simp
  moreover have "filter (\<lambda>c. dc_state c \<noteq> D_PREP) (root dx_two) = []" using dx_two_root by (auto simp: map_eq_Cons_conv)
  ultimately show ?thesis using drop_leaves_submitted[OF dx_two_acct] by simp
qed

text \<open>
  C26. On devices that accept every request, the umount path \<open>f2fs_issue_discard_timeout\<close> ends, started on a control
  that satisfies the invariant: the loop of \<open>__issue_discard_cmd\<close>
  needs at most as many passes as there are blocks in the tree, however the timeouts fall.
  It leaves no command, and counters that say so.
\<close>

theorem umount_leaves_nothing:
  assumes "dcc_ok d" "healthy env" "card (blocks (root d)) < n"
  shows "\<exists>dropped d'. f2fs_issue_discard_timeout env sbi stack n d = Some (dropped, d') \<and> root d' = [] \<and>
    discard_cmd_cnt d' = 0 \<and> undiscard_blks d' = 0 \<and> wait_list d' = [] \<and> fstrim_list d' = []"
proof -
  obtain dropped d' where r: "f2fs_issue_discard_timeout env sbi stack n d = Some (dropped, d')" "dcc_ok d'" "root d' = []"
    using umount_total[OF assms, of sbi stack] by blast
  have "i \<notin> set (wait_list d' @ fstrim_list d')" for i
    using r(2,3) unfolding dcc_ok_def acct_def wait_ok_def by (metis empty_iff empty_set)
  then have "wait_list d' @ fstrim_list d' = []" by (cases "wait_list d' @ fstrim_list d'") fastforce+
  moreover have "discard_cmd_cnt d' = 0" "undiscard_blks d' = 0"
    using r(2,3) by (simp_all add: dcc_ok_def acct_def u32_def)
  ultimately show ?thesis using r by (intro exI[of _ dropped] exI[of _ d']) simp
qed

theorem umount_leaves_nothing_witness:
  "card (blocks (root dx_two)) < 10 \<and>
   (\<exists>dropped d'. f2fs_issue_discard_timeout dx_env ex_sbi dx_dp 10 dx_two = Some (dropped, d') \<and> root d' = [])"
proof -
  have "total_len (root dx_two) = 9" by code_simp
  then have "card (blocks (root dx_two)) < 10" using dx_two_acct by (simp add: card_blocks)
  with umount_leaves_nothing[OF dx_two_ok dx_healthy this, of ex_sbi dx_dp] show ?thesis by auto
qed

section \<open>The tree and the address macros\<close>

text \<open>
  C21. The list operations of the model are what the tree walks of \<open>extent_cache.c\<close> compute
  on the tree: lookup with neighbours, the lower bound of \<open>swod.c\<close>, and insertion, whose walk
  never meets an overlapping entry.
\<close>

theorem rb_tree_refines_list:
  assumes "disjoint_sorted (inorder t)"
  shows "f2fs_lookup_rb_tree_ret t None p True = rb_lookup_ret (inorder t) p \<and>
    f2fs_lookup_rb_tree t None p = find (covers p) (inorder t) \<and>
    swod_rb_lower_bound t p None = find (\<lambda>c. p < eend c) (inorder t) \<and>
    ((\<forall>c \<in> set (inorder t). \<not> covers (ofs new) c) \<longrightarrow>
      (\<exists>t'. map_option fst (f2fs_lookup_rb_tree_for_insert t new True) = Some t' \<and> inorder t' = rb_insert new (inorder t)))"
  using rbt.look_spec[OF assms, of p] rbt.ins_spec[OF assms, of new] lookup_slow_find[OF assms, of p]
    lower_bound_find[OF assms, of p None]
  by (simp add: rb_lookup_ret_def rb_insert_def f2fs_lookup_rb_tree_def split: option.splits)

theorem rb_tree_refines_list_witness:
  "f2fs_lookup_rb_tree_ret (Node (Node Leaf (ex_cmd 5 2) Leaf) (ex_cmd 10 4) Leaf) None 12 True =
     rb_lookup_ret [ex_cmd 5 2, ex_cmd 10 4] 12 \<and>
   (\<exists>t'. map_option fst (f2fs_lookup_rb_tree_for_insert (Node (Node Leaf (ex_cmd 5 2) Leaf) (ex_cmd 10 4) Leaf) (ex_cmd 8 1) True) = Some t' \<and>
     inorder t' = [ex_cmd 5 2, ex_cmd 8 1, ex_cmd 10 4])"
  using rb_tree_refines_list[of "Node (Node Leaf (ex_cmd 5 2) Leaf) (ex_cmd 10 4) Leaf" 12 "ex_cmd 8 1"]
  by (simp add: disjoint_sorted_def eend_def ex_cmd_def covers_def rb_insert_def)

text \<open>
  C35. On a mounted volume \<open>START_BLOCK\<close> and \<open>GET_SEGNO\<close> are inverse: every block of the main
  area lies in the segment that \<open>GET_SEGNO\<close> names, which is a main segment.
\<close>

theorem segno_block_roundtrip:
  assumes "geom_ok sbi" "main_start sbi \<le> b" "b < main_end sbi"
  shows "GET_SEGNO sbi b < MAIN_SEGS sbi \<and> START_BLOCK sbi (GET_SEGNO sbi b) \<le> b \<and>
    b < START_BLOCK sbi (GET_SEGNO sbi b + 1) \<and> GET_SEGNO sbi (START_BLOCK sbi (GET_SEGNO sbi b)) = GET_SEGNO sbi b"
proof -
  let ?s = "GET_SEGNO sbi b" and ?B = "blocks_per_seg sbi"
  have less: "?s < main_segments sbi" using GET_SEGNO_less[OF assms] .
  have s: "?s = (b - main_start sbi) div ?B" using GET_SEGNO_main[OF assms] .
  have B: "0 < ?B" using assms(1) by (simp add: geom_ok_bps)
  have st: "START_BLOCK sbi ?s = main_start sbi + ?s * ?B" "START_BLOCK sbi (?s + 1) = main_start sbi + (?s + 1) * ?B"
    using START_BLOCK_eq[OF assms(1)] less by simp_all
  have "?s * ?B \<le> b - main_start sbi" "b - main_start sbi < (?s + 1) * ?B"
    using s B div_times_less_eq_dividend dividend_less_div_times[OF B] by (simp_all add: add.commute)
  then have b: "START_BLOCK sbi ?s \<le> b" "b < START_BLOCK sbi (?s + 1)" using st assms(2) by linarith+
  have "main_start sbi \<le> START_BLOCK sbi ?s" "START_BLOCK sbi ?s < main_end sbi" using st b(1) assms(3) by simp_all
  then have "GET_SEGNO sbi (START_BLOCK sbi ?s) = ?s" using GET_SEGNO_main[OF assms(1)] st(1) B by simp
  with less b show ?thesis by (simp add: MAIN_SEGS_def)
qed

theorem segno_block_roundtrip_witness:
  "GET_SEGNO ex_sbi 3100 < MAIN_SEGS ex_sbi \<and> START_BLOCK ex_sbi (GET_SEGNO ex_sbi 3100) \<le> 3100 \<and>
    3100 < START_BLOCK ex_sbi (GET_SEGNO ex_sbi 3100 + 1)"
  using segno_block_roundtrip[OF ex_geom, of 3100] by (simp add: main_start_def main_end_def ex_sbi_def)

section \<open>A failed request\<close>

text \<open>
  C37. When the first request of a command fails and the command is longer than the device
  takes at once, the command keeps the length of that request: the rest of its blocks leaves
  the tree and is never discarded, while \<open>undiscard_blks\<close> still counts them, and the command
  stays on the pending list of its old length.
\<close>

theorem submit_error_loses_blocks:
  fixes env :: dev_env and dc :: discard_cmd
  defines "m \<equiv> max_discard_blocks env (bdev dc)"
  assumes ok: "acct dcc" "disjoint_sorted (root dcc)" "dc \<in> set (root dcc)" "dc_state dc = D_PREP" "\<not> need_fsck sbi"
    and iss: "issued < max_requests dp" and err: "issue_err env (pstart dc) m \<noteq> 0" "m < elen dc"
    and res: "submit_discard_cmd env sbi dp dcc dc issued = (e, issued', d')"
  shows "e = issue_err env (pstart dc) m \<and> blocks (root d') = blocks (root dcc) - {ofs dc + m..<eend dc} \<and>
    undiscard_blks d' = undiscard_blks dcc \<and> pend_list d' = pend_list dcc"
proof -
  obtain xs ys where r: "root dcc = xs @ dc # ys" using ok(3) by (meson split_list)
  obtain k where k: "max_requests dp - issued = Suc k" using iss by (cases "max_requests dp - issued") auto
  have stop: "submit_loop env dp n st = st" if "s_err st \<noteq> 0" for n st using that by (cases n) auto
  let ?dc = "dc\<lparr>elen := m\<rparr>"
  have "e = issue_err env (pstart dc) m \<and> d' = hints_sub sbi (ofs dc) (elen dc) (set_dc ?dc dcc)"
    using res ok(4,5) err
    by (simp add: submit_discard_cmd_def k submit_round_def Let_def m_def[symmetric] stop)
  moreover have "root (set_dc ?dc dcc) = xs @ ?dc # ys" using set_dc_split[OF ok(1) r] by simp
  moreover have "blocks (xs @ ?dc # ys) = blocks (xs @ dc # ys) - {ofs dc + m..<eend dc}"
  proof -
    have out: "eend x \<le> ofs dc" if "x \<in> set xs" for x using that ok(2) r by (auto simp: disjoint_sorted_simps)
    have out': "eend dc \<le> ofs y" if "y \<in> set ys" for y using that ok(2) r by (auto simp: disjoint_sorted_simps)
    have "blocks xs \<inter> {ofs dc + m..<eend dc} = {}" "blocks ys \<inter> {ofs dc + m..<eend dc} = {}"
      using out out' by (fastforce simp: blocks_def covers_def)+
    then show ?thesis using err(2) by (auto simp: eend_def)
  qed
  ultimately show ?thesis using r by simp
qed

theorem submit_error_loses_blocks_witness:
  "\<exists>d dc d'. dc \<in> set (root d) \<and> acct d \<and> snd (snd (submit_discard_cmd (dx_env\<lparr>issue_err := (\<lambda>_ _. - 5), max_sectors := (\<lambda>_. 8)\<rparr>) ex_sbi dx_dp d dc 0)) = d' \<and>
     undiscard_blks d' \<noteq> u32 (card (blocks (root d')))"
proof -
  let ?env = "dx_env\<lparr>issue_err := (\<lambda>_ _. - 5), max_sectors := (\<lambda>_. 8)\<rparr>"
  have "\<exists>c \<in> set (root dx_two). ofs c = 2600 \<and> elen c = 6 \<and> dc_state c = D_PREP"
    using dx_two_root by (auto simp: map_eq_Cons_conv)
  then obtain c where c: "c \<in> set (root dx_two)" "dc_state c = D_PREP" "ofs c = 2600" "elen c = 6" by blast
  obtain e i d where res: "submit_discard_cmd ?env ex_sbi dx_dp dx_two c 0 = (e, i, d)" by (metis prod_cases3)
  have m: "max_discard_blocks ?env b = 1" for b by (simp add: max_discard_blocks_def SECTOR_TO_BLOCK_def)
  have l: "blocks (root d) = blocks (root dx_two) - {2601..<2606}" "undiscard_blks d = undiscard_blks dx_two"
    using submit_error_loses_blocks[where env = ?env, OF dx_two_acct c(1,2) _ _ _ _ res] m c
    by (simp_all add: ex_sbi_def dx_dp_def eend_def)
  have u: "undiscard_blks dx_two = u32 (card (blocks (root dx_two)))" "undiscard_blks dx_two = 9"
    using dx_two_acct by (simp add: acct_def card_blocks) code_simp
  have sub: "{2601..<2606} \<subseteq> blocks (root dx_two)" using c by (auto simp: blocks_def covers_def eend_def intro!: bexI[of _ c])
  have card9: "card (blocks (root dx_two)) = 9"
  proof -
    have "total_len (root dx_two) = 9" by code_simp
    then show ?thesis using dx_two_acct by (simp add: card_blocks)
  qed
  have "card (blocks (root d)) = 4" using sub card9 by (simp add: l card_Diff_subset)
  then have "undiscard_blks d \<noteq> u32 (card (blocks (root d)))" using l u by (simp add: u32_def)
  then show ?thesis using c(1) dx_two_acct(1) res by (metis snd_conv)
qed

end
