(* ===== verification/Extent.thy ===== *)
theory Extent
  imports Rb_Tree
begin

text \<open>
  The extent cache of \<open>extent_cache.c\<close>: per inode a tree of extents, the largest extent, and
  the list of all extent nodes in the order of their use. A tree is its in-order sequence;
  a pointer to a node is its address \<open>en_id\<close>, on the global list together with the inode of
  its tree (\<open>en->et\<close>). Allocations of nodes may fail: \<open>ext_alloc\<close> says which succeed. Page
  offsets and block addresses are 32-bit; \<open>u32\<close> is written where the code computes them.
\<close>

section \<open>Data\<close>

record extent_info = rb_entry +
  ei_blk :: nat
  ei_c_len :: nat

record extent_node = extent_info +
  en_id :: nat

record extent_tree =
  et_ino :: nat
  et_root :: "extent_node list"
  cached_en :: "nat option"
  largest :: extent_info
  node_cnt :: nat
  largest_updated :: bool

text \<open>The fields of \<open>f2fs_sb_info\<close> of the extent cache.\<close>

record ext_sbi =
  extent_tree_root :: "nat \<rightharpoonup> extent_tree"
  extent_list :: "(nat \<times> nat) list"
  zombie_list :: "nat list"
  total_ext_tree :: nat
  total_zombie_tree :: nat
  total_ext_node :: nat
  ext_next_id :: nat
  ext_alloc :: "nat \<Rightarrow> bool"
  opt_extent_cache :: bool
  sb_has_readonly :: bool
  s_list_empty :: bool

record ext_inode =
  i_ino :: nat
  i_nlink :: nat
  i_has_tree :: bool        \<comment> \<open>\<open>F2FS_I(inode)->extent_tree\<close> is set\<close>
  fi_no_extent :: bool
  fi_compressed :: bool
  i_is_reg :: bool
  i_is_bad :: bool
  i_dirty :: bool

definition F2FS_MIN_EXTENT_LEN :: nat where "F2FS_MIN_EXTENT_LEN = 64"

abbreviation fofs :: "'a rb_entry_scheme \<Rightarrow> nat" where "fofs \<equiv> ofs"

definition ei_of :: "'a extent_info_scheme \<Rightarrow> extent_info" where
  "ei_of e = \<lparr>ofs = fofs e, elen = elen e, ei_blk = ei_blk e, ei_c_len = ei_c_len e\<rparr>"

definition set_extent_info :: "nat \<Rightarrow> nat \<Rightarrow> nat \<Rightarrow> extent_info" where
  "set_extent_info fo blk len = \<lparr>ofs = fo, elen = len, ei_blk = blk, ei_c_len = 0\<rparr>"

definition is_extent_mergeable :: "'a extent_info_scheme \<Rightarrow> 'b extent_info_scheme \<Rightarrow> bool" where
  "is_extent_mergeable back front =
     (if ei_c_len back \<noteq> 0 \<and> elen back \<noteq> ei_c_len back then False
      else if ei_c_len front \<noteq> 0 \<and> elen front \<noteq> ei_c_len front then False
      else u32 (fofs back + elen back) = fofs front \<and> u32 (ei_blk back + elen back) = ei_blk front)"

definition is_back_mergeable :: "'a extent_info_scheme \<Rightarrow> 'b extent_info_scheme \<Rightarrow> bool" where
  "is_back_mergeable cur back = is_extent_mergeable back cur"

definition is_front_mergeable :: "'a extent_info_scheme \<Rightarrow> 'b extent_info_scheme \<Rightarrow> bool" where
  "is_front_mergeable cur front = is_extent_mergeable cur front"

definition f2fs_may_extent_tree :: "ext_sbi \<Rightarrow> ext_inode \<Rightarrow> bool" where
  "f2fs_may_extent_tree sb i =
     (if \<not> opt_extent_cache sb \<or> fi_no_extent i \<or> fi_compressed i \<and> \<not> sb_has_readonly sb then False
      else if s_list_empty sb then False
      else i_is_reg i)"

section \<open>Nodes of a tree\<close>

definition find_en :: "extent_tree \<Rightarrow> nat \<Rightarrow> extent_node option" where
  "find_en et i = find (\<lambda>e. en_id e = i) (et_root et)"

definition set_en :: "extent_node \<Rightarrow> extent_tree \<Rightarrow> extent_tree" where
  "set_en en et = et\<lparr>et_root := map (\<lambda>e. if en_id e = en_id en then en else e) (et_root et)\<rparr>"

fun en_next :: "extent_node list \<Rightarrow> nat \<Rightarrow> nat option" where
  "en_next (x # y # ys) i = (if en_id x = i then Some (en_id y) else en_next (y # ys) i)"
| "en_next _ i = None"

definition en_insert :: "extent_node \<Rightarrow> extent_node list \<Rightarrow> extent_node list" where
  "en_insert new es = filter (\<lambda>e. fofs e < fofs new) es @ new # filter (\<lambda>e. \<not> fofs e < fofs new) es"

definition try_update_largest_extent :: "extent_tree \<Rightarrow> extent_node \<Rightarrow> extent_tree" where
  "try_update_largest_extent et en =
     (if elen en > elen (largest et) then et\<lparr>largest := ei_of en, largest_updated := True\<rparr> else et)"

definition attach_extent_node ::
    "ext_sbi \<Rightarrow> extent_tree \<Rightarrow> extent_info \<Rightarrow> extent_node option \<times> ext_sbi \<times> extent_tree" where
  "attach_extent_node sb et ei =
     (let i = ext_next_id sb; sb = sb\<lparr>ext_next_id := i + 1\<rparr>
      in if \<not> ext_alloc sb i then (None, sb, et)
         else (let en = \<lparr>ofs = fofs ei, elen = elen ei, ei_blk = ei_blk ei, ei_c_len = ei_c_len ei, en_id = i\<rparr>
               in (Some en, sb\<lparr>total_ext_node := total_ext_node sb + 1\<rparr>,
                   et\<lparr>et_root := en_insert en (et_root et), node_cnt := node_cnt et + 1\<rparr>)))"

definition detach_extent_node :: "ext_sbi \<Rightarrow> extent_tree \<Rightarrow> nat \<Rightarrow> ext_sbi \<times> extent_tree" where
  "detach_extent_node sb et i =
     (sb\<lparr>total_ext_node := total_ext_node sb - 1\<rparr>,
      et\<lparr>et_root := filter (\<lambda>e. en_id e \<noteq> i) (et_root et), node_cnt := node_cnt et - 1,
         cached_en := (if cached_en et = Some i then None else cached_en et)\<rparr>)"

definition list_del_en :: "ext_sbi \<Rightarrow> nat \<Rightarrow> nat \<Rightarrow> ext_sbi" where
  "list_del_en sb ino i = sb\<lparr>extent_list := filter (\<lambda>x. x \<noteq> (ino, i)) (extent_list sb)\<rparr>"

text \<open>
  The warnings \<open>f2fs_bug_on\<close> of a node that is on no list, here, and of a position behind the node, in the
  invalidation of a range below, are not recorded.
\<close>

definition release_extent_node :: "ext_sbi \<Rightarrow> extent_tree \<Rightarrow> nat \<Rightarrow> ext_sbi \<times> extent_tree" where
  "release_extent_node sb et i = detach_extent_node (list_del_en sb (et_ino et) i) et i"

text \<open>Moving a node to the end of the global list; it becomes the cached node of its tree.\<close>

definition touch_en :: "ext_sbi \<Rightarrow> extent_tree \<Rightarrow> nat \<Rightarrow> ext_sbi \<times> extent_tree" where
  "touch_en sb et i =
     (if (et_ino et, i) \<in> set (extent_list sb)
      then ((list_del_en sb (et_ino et) i)\<lparr>extent_list := extent_list (list_del_en sb (et_ino et) i) @ [(et_ino et, i)]\<rparr>,
            et\<lparr>cached_en := Some i\<rparr>)
      else (sb, et))"

definition insert_extent_tree ::
    "ext_sbi \<Rightarrow> extent_tree \<Rightarrow> extent_info \<Rightarrow> extent_node option \<times> ext_sbi \<times> extent_tree" where
  "insert_extent_tree sb et ei =
     (case attach_extent_node sb et ei of
        (None, sb, et) \<Rightarrow> (None, sb, et)
      | (Some en, sb, et) \<Rightarrow>
          (Some en, sb\<lparr>extent_list := extent_list sb @ [(et_ino et, en_id en)]\<rparr>,
           (try_update_largest_extent et en)\<lparr>cached_en := Some (en_id en)\<rparr>))"

definition init_extent_tree ::
    "ext_sbi \<Rightarrow> extent_tree \<Rightarrow> extent_info \<Rightarrow> extent_node option \<times> ext_sbi \<times> extent_tree" where
  "init_extent_tree sb et ei =
     (case attach_extent_node sb et ei of
        (None, sb, et) \<Rightarrow> (None, sb, et)
      | (Some en, sb, et) \<Rightarrow> (Some en, sb, et\<lparr>largest := ei_of en, cached_en := Some (en_id en)\<rparr>))"

text \<open>Result: the number of nodes freed.\<close>

definition free_extent_tree :: "ext_sbi \<Rightarrow> extent_tree \<Rightarrow> nat \<times> ext_sbi \<times> extent_tree" where
  "free_extent_tree sb et =
     (let res = fold (\<lambda>i (sb, et). release_extent_node sb et i) (map en_id (et_root et)) (sb, et)
      in (node_cnt et - node_cnt (snd res), res))"

definition drop_largest_extent :: "extent_tree \<Rightarrow> nat \<Rightarrow> nat \<Rightarrow> extent_tree" where
  "drop_largest_extent et fo len =
     (if fo < u32 (fofs (largest et) + elen (largest et)) \<and> fo + len > fofs (largest et)
      then et\<lparr>largest := (largest et)\<lparr>elen := 0\<rparr>, largest_updated := True\<rparr> else et)"

section \<open>Lookup\<close>

text \<open>
  \<open>f2fs_lookup_rb_tree\<close> with the cached node, and \<open>f2fs_lookup_rb_tree_ret\<close> with the cached
  node and without \<open>force\<close>, on the in-order sequence.
\<close>

definition en_cached :: "extent_tree \<Rightarrow> extent_node option" where
  "en_cached et = Option.bind (cached_en et) (find_en et)"

definition lookup_en :: "extent_tree \<Rightarrow> nat \<Rightarrow> extent_node option" where
  "lookup_en et p =
     (case lookup_rb_tree_fast (en_cached et) p of
        Some e \<Rightarrow> Some e | None \<Rightarrow> find (covers p) (et_root et))"

definition lookup_en_ret ::
    "extent_tree \<Rightarrow> nat \<Rightarrow> extent_node option \<times> extent_node option \<times> extent_node option" where
  "lookup_en_ret et p =
     (case lookup_en et p of
        Some e \<Rightarrow> (Some e, if p = fofs e then rb_prev_in (et_root et) e else None,
                          if p = eend e - 1 then rb_next_in (et_root et) e else None)
      | None \<Rightarrow> (None, last_before p (et_root et), first_after p (et_root et)))"

text \<open>\<open>f2fs_lookup_extent_tree\<close>: the extent found, or \<open>None\<close>.\<close>

definition f2fs_lookup_extent_tree ::
    "ext_sbi \<Rightarrow> extent_tree \<Rightarrow> nat \<Rightarrow> extent_info option \<times> ext_sbi \<times> extent_tree" where
  "f2fs_lookup_extent_tree sb et pgofs =
     (if fofs (largest et) \<le> pgofs \<and> u32 (fofs (largest et) + elen (largest et)) > pgofs
      then (Some (largest et), sb, et)
      else case lookup_en et (u32 pgofs) of
             None \<Rightarrow> (None, sb, et)
           | Some en \<Rightarrow> (Some (ei_of en), touch_en sb et (en_id en)))"

section \<open>Update\<close>

definition merge_prev :: "extent_tree \<Rightarrow> extent_info \<Rightarrow> extent_node option \<Rightarrow> extent_node option \<times> extent_info \<times> extent_tree" where
  "merge_prev et ei prev_ex =
     (case prev_ex of
        None \<Rightarrow> (None, ei, et)
      | Some p \<Rightarrow>
          (if is_back_mergeable ei p
           then (let p' = p\<lparr>elen := u32 (elen p + elen ei)\<rparr> in (Some p', ei_of p', set_en p' et))
           else (None, ei, et)))"

definition try_merge_extent_node ::
    "ext_sbi \<Rightarrow> extent_tree \<Rightarrow> extent_info \<Rightarrow> extent_node option \<Rightarrow> extent_node option \<Rightarrow>
     extent_node option \<times> ext_sbi \<times> extent_tree" where
  "try_merge_extent_node sb et ei prev_ex next_ex =
     (let (en, ei, et) = merge_prev et ei prev_ex;
          (en, sb, et) =
            (case next_ex of
               None \<Rightarrow> (en, sb, et)
             | Some n \<Rightarrow>
                 (if is_front_mergeable ei n
                  then (let n' = n\<lparr>ofs := fofs ei, ei_blk := ei_blk ei, elen := u32 (elen n + elen ei)\<rparr>;
                            et = set_en n' et;
                            (sb, et) = (case en of None \<Rightarrow> (sb, et) | Some p \<Rightarrow> release_extent_node sb et (en_id p))
                        in (Some n', sb, et))
                  else (en, sb, et)))
      in case en of
           None \<Rightarrow> (None, sb, et)
         | Some e \<Rightarrow> (Some e, touch_en sb (try_update_largest_extent et e) (en_id e)))"

text \<open>
  One extent of the range \<open>[pos, end')\<close> in \<open>f2fs_update_extent_tree_range\<close>: it is cut, split or
  released. Result: the left part if one is kept (the new \<open>prev_en\<close>), \<open>next_en\<close>, the state.
\<close>

definition invalidate_en ::
    "ext_sbi \<Rightarrow> extent_tree \<Rightarrow> nat \<Rightarrow> nat \<Rightarrow> extent_node \<Rightarrow> bool \<times> nat option \<times> ext_sbi \<times> extent_tree" where
  "invalidate_en sb et pos end' en =
     (let org_end = u32 (fofs en + elen en);
          left = (pos > fofs en \<and> pos - fofs en \<ge> F2FS_MIN_EXTENT_LEN);
          right = (end' < org_end \<and> org_end - end' \<ge> F2FS_MIN_EXTENT_LEN);
          en' = (if left then en\<lparr>elen := pos - fofs en\<rparr> else en);
          en'' = (if \<not> left \<and> right
                  then en\<lparr>ofs := end', ei_blk := u32 (ei_blk en + (end' - fofs en)), elen := elen en - (end' - fofs en)\<rparr>
                  else en');
          et = set_en en'' et;
          (new, sb, et) =
            (if left \<and> right
             then insert_extent_tree sb et (set_extent_info end' (u32 (end' - fofs en + ei_blk en)) (org_end - end'))
             else (None, sb, et));
          next_en = (if right \<and> \<not> left then Some (en_id en)
                     else case new of Some e \<Rightarrow> Some (en_id e) | None \<Rightarrow> en_next (et_root et) (en_id en));
          (sb, et) = (if left \<or> right then (sb, try_update_largest_extent et en'')
                      else release_extent_node sb et (en_id en))
      in (left, next_en, sb, et))"

text \<open>The \<open>while\<close> loop; the result carries \<open>prev_en\<close>, \<open>next_en\<close> and \<open>dei.len\<close>.\<close>

fun invalidate_loop ::
    "nat \<Rightarrow> nat \<Rightarrow> nat \<Rightarrow> ext_sbi \<Rightarrow> extent_tree \<Rightarrow> nat option \<Rightarrow> nat option \<Rightarrow> nat option \<Rightarrow> nat \<Rightarrow>
     (nat option \<times> nat option \<times> nat \<times> ext_sbi \<times> extent_tree) option" where
  "invalidate_loop 0 pos end' sb et en prev next dlen = None"
| "invalidate_loop (Suc n) pos end' sb et en prev next dlen =
     (case Option.bind en (find_en et) of
        None \<Rightarrow> Some (prev, next, dlen, sb, et)
      | Some e \<Rightarrow>
          (if fofs e < end'
           then (let (left, next', sb', et') = invalidate_en sb et pos end' e
                 in invalidate_loop n pos end' sb' et' next' (if left then Some (en_id e) else prev) next' (elen e))
           else Some (prev, next, dlen, sb, et)))"

text \<open>Step 3: the new extent is merged with its neighbours or inserted.\<close>

definition merge_or_insert ::
    "ext_sbi \<Rightarrow> extent_tree \<Rightarrow> extent_info \<Rightarrow> extent_node option \<Rightarrow> extent_node option \<Rightarrow> ext_sbi \<times> extent_tree" where
  "merge_or_insert sb et ei pn nn =
     (let (merged, sb, et) = try_merge_extent_node sb et ei pn nn
      in case merged of Some _ \<Rightarrow> (sb, et) | None \<Rightarrow> (let (_, sb, et) = insert_extent_tree sb et ei in (sb, et)))"

definition update_extent_tree ::
    "ext_sbi \<Rightarrow> extent_tree \<Rightarrow> nat \<Rightarrow> nat \<Rightarrow> nat \<Rightarrow> (bool \<times> ext_sbi \<times> extent_tree) option" where
  "update_extent_tree sb et fo blkaddr len =
     (let prev_len = elen (largest et);
          et = drop_largest_extent et fo len;
          (hit, prev_en, next_en) = lookup_en_ret et (u32 fo);
          en = (case hit of None \<Rightarrow> next_en | Some e \<Rightarrow> Some e)
      in case invalidate_loop (length (et_root et) + 1) (u32 fo) (u32 (fo + len)) sb et
                (map_option en_id en) (map_option en_id prev_en) (map_option en_id next_en) 0 of
           None \<Rightarrow> None
         | Some (prev, next, dlen, sb, et) \<Rightarrow>
             (if blkaddr = 0 then Some (False, sb, et)
              else
                (let ei = set_extent_info (u32 fo) blkaddr len;
                     (sb, et) = merge_or_insert sb et ei (Option.bind prev (find_en et)) (Option.bind next (find_en et));
                     give_up = (dlen \<ge> 1 \<and> prev_len < F2FS_MIN_EXTENT_LEN \<and> elen (largest et) < F2FS_MIN_EXTENT_LEN);
                     et = (if give_up then et\<lparr>largest := (largest et)\<lparr>elen := 0\<rparr>, largest_updated := True\<rparr> else et)
                 in Some (give_up, sb, et))))"

section \<open>Entry points\<close>

definition put_tree :: "ext_sbi \<Rightarrow> extent_tree \<Rightarrow> ext_sbi" where
  "put_tree sb et = sb\<lparr>extent_tree_root := (extent_tree_root sb)(et_ino et \<mapsto> et)\<rparr>"

text \<open>\<open>update_extent_tree_total\<close> shows that the loop ends, so the first case of the result is never taken.\<close>

definition f2fs_update_extent_tree_range ::
    "ext_sbi \<Rightarrow> ext_inode \<Rightarrow> nat \<Rightarrow> nat \<Rightarrow> nat \<Rightarrow> ext_sbi \<times> ext_inode" where
  "f2fs_update_extent_tree_range sb i fo blkaddr len =
     (case (if i_has_tree i then extent_tree_root sb (i_ino i) else None) of
        None \<Rightarrow> (sb, i)
      | Some et \<Rightarrow>
          (if fi_no_extent i then (sb, i)
           else case update_extent_tree sb et fo blkaddr len of
                  None \<Rightarrow> (sb, i)
                | Some (give_up, sb, et) \<Rightarrow>
                    (let (sb, et) = (if give_up then snd (free_extent_tree sb et) else (sb, et))
                     in (put_tree sb (et\<lparr>largest_updated := False\<rparr>),
                         i\<lparr>fi_no_extent := give_up, i_dirty := (i_dirty i \<or> largest_updated et)\<rparr>))))"

text \<open>
  The variant for compressed files of read-only images; a null tree is \<open>None\<close>. An extent is never
  replaced: a page that is cached already keeps its extent.
\<close>

definition f2fs_update_extent_tree_range_compressed ::
    "ext_sbi \<Rightarrow> ext_inode \<Rightarrow> nat \<Rightarrow> nat \<Rightarrow> nat \<Rightarrow> nat \<Rightarrow> ext_sbi option" where
  "f2fs_update_extent_tree_range_compressed sb i fo blkaddr llen c_len =
     (if fi_no_extent i then Some sb
      else case (if i_has_tree i then extent_tree_root sb (i_ino i) else None) of
             None \<Rightarrow> None
           | Some et \<Rightarrow>
               (let (hit, prev_en, next_en) = lookup_en_ret et (u32 fo)
                in case hit of
                     Some _ \<Rightarrow> Some sb
                   | None \<Rightarrow>
                       (let ei = (set_extent_info (u32 fo) blkaddr llen)\<lparr>ei_c_len := c_len\<rparr>;
                            (sb, et) = merge_or_insert sb et ei prev_en next_en
                        in Some (put_tree sb et))))"

definition new_extent_tree :: "nat \<Rightarrow> extent_tree" where
  "new_extent_tree ino =
     \<lparr>et_ino = ino, et_root = [], cached_en = None, largest = set_extent_info 0 0 0, node_cnt = 0, largest_updated = False\<rparr>"

definition grab_extent_tree :: "ext_sbi \<Rightarrow> ext_inode \<Rightarrow> ext_sbi \<times> ext_inode" where
  "grab_extent_tree sb i =
     ((case extent_tree_root sb (i_ino i) of
         None \<Rightarrow> (put_tree sb (new_extent_tree (i_ino i)))\<lparr>total_ext_tree := total_ext_tree sb + 1\<rparr>
       | Some et \<Rightarrow> sb\<lparr>total_zombie_tree := total_zombie_tree sb - 1,
                        zombie_list := filter (\<lambda>x. x \<noteq> i_ino i) (zombie_list sb)\<rparr>),
      i\<lparr>i_has_tree := True\<rparr>)"

text \<open>
  \<open>__f2fs_init_extent_tree\<close> with the extent stored in the inode page (\<open>None\<close>: no page).
  Result: whether the extent in the page was dropped, and the state.
\<close>

definition init_extent_tree_inode ::
    "ext_sbi \<Rightarrow> ext_inode \<Rightarrow> extent_info option \<Rightarrow> bool \<times> ext_sbi \<times> ext_inode" where
  "init_extent_tree_inode sb i i_ext =
     (if \<not> f2fs_may_extent_tree sb i
      then (case i_ext of Some e \<Rightarrow> elen e \<noteq> 0 | None \<Rightarrow> False, sb, i)
      else
        (let (sb, i) = grab_extent_tree sb i
         in case i_ext of
              None \<Rightarrow> (False, sb, i)
            | Some e \<Rightarrow>
                (if elen e = 0 then (False, sb, i)
                 else case extent_tree_root sb (i_ino i) of
                        None \<Rightarrow> (False, sb, i)
                      | Some et \<Rightarrow>
                          (if node_cnt et \<noteq> 0 then (False, sb, i)
                           else (case init_extent_tree sb et (set_extent_info (fofs e) (ei_blk e) (elen e)) of
                                   (None, sb, et) \<Rightarrow> (False, put_tree sb et, i)
                                 | (Some en, sb, et) \<Rightarrow>
                                     (False, put_tree (sb\<lparr>extent_list := extent_list sb @ [(et_ino et, en_id en)]\<rparr>) et, i))))))"

definition f2fs_init_extent_tree ::
    "ext_sbi \<Rightarrow> ext_inode \<Rightarrow> extent_info option \<Rightarrow> bool \<times> ext_sbi \<times> ext_inode" where
  "f2fs_init_extent_tree sb i i_ext =
     (let (dropped, sb, i) = init_extent_tree_inode sb i i_ext
      in (dropped, sb, if \<not> i_has_tree i then i\<lparr>fi_no_extent := True\<rparr> else i))"

definition f2fs_lookup_extent_cache ::
    "ext_sbi \<Rightarrow> ext_inode \<Rightarrow> nat \<Rightarrow> extent_info option \<times> ext_sbi" where
  "f2fs_lookup_extent_cache sb i pgofs =
     (if \<not> f2fs_may_extent_tree sb i then (None, sb)
      else case (if i_has_tree i then extent_tree_root sb (i_ino i) else None) of
             None \<Rightarrow> (None, sb)
           | Some et \<Rightarrow> (let (res, sb, et) = f2fs_lookup_extent_tree sb et pgofs in (res, put_tree sb et)))"

definition f2fs_update_extent_cache_range ::
    "ext_sbi \<Rightarrow> ext_inode \<Rightarrow> nat \<Rightarrow> nat \<Rightarrow> nat \<Rightarrow> ext_sbi \<times> ext_inode" where
  "f2fs_update_extent_cache_range sb i fo blkaddr len =
     (if \<not> f2fs_may_extent_tree sb i then (sb, i) else f2fs_update_extent_tree_range sb i fo blkaddr len)"

text \<open>\<open>f2fs_update_extent_cache\<close>; \<open>new_addr\<close> is \<open>NEW_ADDR\<close>, \<open>fo\<close> the page offset of the data block.\<close>

definition f2fs_update_extent_cache ::
    "nat \<Rightarrow> ext_sbi \<Rightarrow> ext_inode \<Rightarrow> nat \<Rightarrow> nat \<Rightarrow> ext_sbi \<times> ext_inode" where
  "f2fs_update_extent_cache new_addr sb i fo data_blkaddr =
     (if \<not> f2fs_may_extent_tree sb i then (sb, i)
      else f2fs_update_extent_tree_range sb i fo (if data_blkaddr = new_addr then 0 else data_blkaddr) 1)"

definition f2fs_destroy_extent_node :: "ext_sbi \<Rightarrow> ext_inode \<Rightarrow> nat \<times> ext_sbi" where
  "f2fs_destroy_extent_node sb i =
     (case (if i_has_tree i then extent_tree_root sb (i_ino i) else None) of
        None \<Rightarrow> (0, sb)
      | Some et \<Rightarrow>
          (if node_cnt et = 0 then (0, sb)
           else (let (n, sb, et) = free_extent_tree sb et in (n, put_tree sb et))))"

text \<open>\<open>f2fs_drop_extent_tree\<close>: \<open>None\<close> where the code follows a null \<open>extent_tree\<close>.\<close>

definition f2fs_drop_extent_tree :: "ext_sbi \<Rightarrow> ext_inode \<Rightarrow> (ext_sbi \<times> ext_inode) option" where
  "f2fs_drop_extent_tree sb i =
     (if \<not> f2fs_may_extent_tree sb i then Some (sb, i)
      else case (if i_has_tree i then extent_tree_root sb (i_ino i) else None) of
             None \<Rightarrow> None
           | Some et \<Rightarrow>
               (let (_, sb, et) = free_extent_tree sb et
                in Some (put_tree sb (et\<lparr>largest := (largest et)\<lparr>elen := 0\<rparr>\<rparr>),
                         i\<lparr>fi_no_extent := True, i_dirty := (i_dirty i \<or> elen (largest et) \<noteq> 0)\<rparr>)))"

definition f2fs_destroy_extent_tree :: "ext_sbi \<Rightarrow> ext_inode \<Rightarrow> ext_sbi \<times> ext_inode" where
  "f2fs_destroy_extent_tree sb i =
     (case (if i_has_tree i then extent_tree_root sb (i_ino i) else None) of
        None \<Rightarrow> (sb, i)
      | Some et \<Rightarrow>
          (if i_nlink i \<noteq> 0 \<and> \<not> i_is_bad i \<and> node_cnt et \<noteq> 0
           then (sb\<lparr>zombie_list := zombie_list sb @ [i_ino i], total_zombie_tree := total_zombie_tree sb + 1\<rparr>, i)
           else (let (_, sb) = f2fs_destroy_extent_node sb i
                 in (sb\<lparr>extent_tree_root := (extent_tree_root sb)(i_ino i := None), total_ext_tree := total_ext_tree sb - 1\<rparr>,
                     i\<lparr>i_has_tree := False\<rparr>))))"

section \<open>Shrinking\<close>

text \<open>
  The first loop of \<open>f2fs_shrink_extent_tree\<close> over the trees of inodes that are gone. Result: nodes
  and trees freed, whether the quota is reached, the state.
\<close>

fun shrink_zombies :: "nat \<Rightarrow> nat list \<Rightarrow> nat \<Rightarrow> nat \<Rightarrow> ext_sbi \<Rightarrow> nat \<times> nat \<times> bool \<times> ext_sbi" where
  "shrink_zombies nr [] node_cnt' tree_cnt sb = (node_cnt', tree_cnt, False, sb)"
| "shrink_zombies nr (ino # inos) node_cnt' tree_cnt sb =
     (case extent_tree_root sb ino of
        None \<Rightarrow> shrink_zombies nr inos node_cnt' tree_cnt sb
      | Some et \<Rightarrow>
          (let (n, sb, et) = (if node_cnt et \<noteq> 0 then free_extent_tree sb et else (0, sb, et));
               node_cnt' = node_cnt' + n;
               sb = sb\<lparr>zombie_list := filter (\<lambda>x. x \<noteq> ino) (zombie_list sb),
                      extent_tree_root := (extent_tree_root sb)(ino := None),
                      total_ext_tree := total_ext_tree sb - 1, total_zombie_tree := total_zombie_tree sb - 1\<rparr>;
               tree_cnt = tree_cnt + 1
           in if node_cnt' + tree_cnt \<ge> nr then (node_cnt', tree_cnt, True, sb)
              else shrink_zombies nr inos node_cnt' tree_cnt sb))"

text \<open>The second loop over the least recently used nodes; \<open>locked\<close> tells which trees are in use.\<close>

fun shrink_lru :: "(nat \<Rightarrow> bool) \<Rightarrow> nat \<Rightarrow> nat \<Rightarrow> ext_sbi \<Rightarrow> nat \<times> ext_sbi" where
  "shrink_lru locked 0 node_cnt' sb = (node_cnt', sb)"
| "shrink_lru locked (Suc remained) node_cnt' sb =
     (case extent_list sb of
        [] \<Rightarrow> (node_cnt', sb)
      | (ino, i) # rest \<Rightarrow>
          (if locked ino then shrink_lru locked remained node_cnt' (sb\<lparr>extent_list := rest @ [(ino, i)]\<rparr>)
           else case extent_tree_root sb ino of
                  None \<Rightarrow> (node_cnt', sb)
                | Some et \<Rightarrow>
                    (let (sb, et) = detach_extent_node (sb\<lparr>extent_list := rest\<rparr>) et i
                     in shrink_lru locked remained (node_cnt' + 1) (put_tree sb et))))"

definition f2fs_shrink_extent_tree :: "bool \<Rightarrow> bool \<Rightarrow> (nat \<Rightarrow> bool) \<Rightarrow> ext_sbi \<Rightarrow> nat \<Rightarrow> nat \<times> ext_sbi" where
  "f2fs_shrink_extent_tree trylock1 trylock2 locked sb nr_shrink =
     (if \<not> opt_extent_cache sb then (0, sb)
      else if total_zombie_tree sb \<noteq> 0 \<and> \<not> trylock1 then (0, sb)
      else
        (let (node_cnt', tree_cnt, reached, sb) =
               (if total_zombie_tree sb \<noteq> 0 then shrink_zombies nr_shrink (zombie_list sb) 0 0 sb else (0, 0, False, sb))
         in if reached \<or> \<not> trylock2 then (node_cnt' + tree_cnt, sb)
            else (let (n, sb) = shrink_lru locked (nr_shrink - (node_cnt' + tree_cnt)) node_cnt' sb
                  in (n + tree_cnt, sb))))"

definition f2fs_init_extent_cache_info :: "ext_sbi \<Rightarrow> ext_sbi" where
  "f2fs_init_extent_cache_info sb =
     sb\<lparr>extent_tree_root := Map.empty, extent_list := [], total_ext_tree := 0, zombie_list := [], total_zombie_tree := 0,
        total_ext_node := 0\<rparr>"

end
