(* ===== verification/Extent_Inv.thy ===== *)
theory Extent_Inv
  imports Extent
begin

text \<open>
  The structure of an extent tree together with the global list and counters: nodes are
  disjoint and in order, addresses unique, \<open>node_cnt\<close> and \<open>total_ext_node\<close> count, and the global
  list holds exactly the nodes. Each primitive keeps it. \<open>base\<close> and \<open>L\<close> stand for the nodes of
  the other trees.
\<close>

definition ei_ok :: "'a extent_info_scheme \<Rightarrow> bool" where
  "ei_ok e \<longleftrightarrow> eend e < 2 ^ 32 \<and> ei_blk e + elen e < 2 ^ 32 \<and> ei_c_len e = 0"

definition ids :: "extent_tree \<Rightarrow> nat set" where
  "ids et = en_id ` set (et_root et)"

definition tree_ok :: "nat \<Rightarrow> (nat \<times> nat) set \<Rightarrow> ext_sbi \<Rightarrow> extent_tree \<Rightarrow> bool" where
  "tree_ok base L sb et \<longleftrightarrow>
     disjoint_sorted (et_root et) \<and> distinct (map en_id (et_root et)) \<and> node_cnt et = length (et_root et) \<and>
     (\<forall>e \<in> set (et_root et). ei_ok e \<and> en_id e < ext_next_id sb) \<and> ei_ok (largest et) \<and>
     (\<forall>i. cached_en et = Some i \<longrightarrow> i \<in> ids et) \<and>
     distinct (extent_list sb) \<and> set (extent_list sb) = L \<union> Pair (et_ino et) ` ids et \<and>
     (\<forall>x \<in> L. fst x \<noteq> et_ino et \<and> snd x < ext_next_id sb) \<and> total_ext_node sb = base + length (et_root et)"

definition agrees :: "'a extent_info_scheme \<Rightarrow> (nat \<rightharpoonup> nat) \<Rightarrow> bool" where
  "agrees e f \<longleftrightarrow> (\<forall>p. covers p e \<longrightarrow> f p = Some (ei_blk e + (p - ofs e)))"

lemma ei_of_simps [simp]:
  "ofs (ei_of e) = ofs e" "elen (ei_of e) = elen e" "ei_blk (ei_of e) = ei_blk e" "ei_c_len (ei_of e) = ei_c_len e"
  "eend (ei_of e) = eend e" "ei_ok (ei_of e) = ei_ok e" "agrees (ei_of e) f = agrees e f"
  by (simp_all add: ei_of_def eend_def ei_ok_def agrees_def covers_def)

lemma set_extent_info_simps [simp]:
  "ofs (set_extent_info fo b l) = fo" "elen (set_extent_info fo b l) = l" "ei_blk (set_extent_info fo b l) = b"
  "ei_c_len (set_extent_info fo b l) = 0" "eend (set_extent_info fo b l) = fo + l"
  by (simp_all add: set_extent_info_def eend_def)

section \<open>Nodes by address\<close>

lemma id_split:
  assumes "distinct (map en_id (xs @ c # ys))"
  shows "x \<in> set xs \<union> set ys \<Longrightarrow> en_id x \<noteq> en_id c"
proof -
  have "en_id c \<notin> en_id ` (set xs \<union> set ys)" using assms by auto
  then show "x \<in> set xs \<union> set ys \<Longrightarrow> en_id x \<noteq> en_id c" by (metis imageI)
qed

lemma find_en_split:
  assumes "distinct (map en_id (et_root et))" "et_root et = xs @ c # ys"
  shows "find_en et (en_id c) = Some c"
proof -
  have "find (\<lambda>e. en_id e = en_id c) xs = None"
    using id_split[of xs c ys] assms by (intro find_None_all) simp
  then show ?thesis by (simp add: find_en_def assms(2) find_append)
qed

lemma set_en_split:
  assumes "distinct (map en_id (et_root et))" "et_root et = xs @ c # ys" "en_id c' = en_id c"
  shows "et_root (set_en c' et) = xs @ c' # ys"
proof -
  have "map (\<lambda>e. if en_id e = en_id c then c' else e) zs = zs" if "set zs \<subseteq> set xs \<union> set ys" for zs
    using id_split[of xs c ys] that assms by (intro map_idI) auto
  from this[of xs] this[of ys] show ?thesis using assms by (simp add: set_en_def)
qed

lemma set_en_frame [simp]:
  "et_ino (set_en c et) = et_ino et" "cached_en (set_en c et) = cached_en et" "largest (set_en c et) = largest et"
  "node_cnt (set_en c et) = node_cnt et" "largest_updated (set_en c et) = largest_updated et"
  by (simp_all add: set_en_def)

lemma en_next_split:
  assumes "distinct (map en_id (xs @ c # ys))"
  shows "en_next (xs @ c # ys) (en_id c) = map_option en_id (case ys of [] \<Rightarrow> None | y # _ \<Rightarrow> Some y)"
  using assms
proof (induction xs)
  case Nil
  then show ?case by (cases ys) auto
next
  case (Cons x xs)
  then show ?case by (cases xs) auto
qed

lemma en_insert_split:
  assumes "\<forall>x \<in> set xs. ofs x < ofs new" "\<forall>y \<in> set ys. ofs new \<le> ofs y"
  shows "en_insert new (xs @ ys) = xs @ new # ys"
proof -
  have "filter (\<lambda>e. ofs e < ofs new) xs = xs" "filter (\<lambda>e. \<not> ofs e < ofs new) xs = []"
    "filter (\<lambda>e. ofs e < ofs new) ys = []" "filter (\<lambda>e. \<not> ofs e < ofs new) ys = ys"
    using assms by (auto simp: filter_empty_conv filter_id_conv not_less)
  then show ?thesis by (simp add: en_insert_def)
qed

section \<open>Primitives\<close>

lemma largest_frame [simp]:
  "et_root (try_update_largest_extent et e) = et_root et" "et_ino (try_update_largest_extent et e) = et_ino et"
  "node_cnt (try_update_largest_extent et e) = node_cnt et" "cached_en (try_update_largest_extent et e) = cached_en et"
  by (simp_all add: try_update_largest_extent_def)

lemma largest_ok: "ei_ok (largest et) \<Longrightarrow> ei_ok e \<Longrightarrow> ei_ok (largest (try_update_largest_extent et e))"
  by (simp add: try_update_largest_extent_def)

lemma largest_agrees: "agrees (largest et) f \<Longrightarrow> agrees e f \<Longrightarrow> agrees (largest (try_update_largest_extent et e)) f"
  by (simp add: try_update_largest_extent_def)

lemma largest_tree_ok: "tree_ok base L sb et \<Longrightarrow> ei_ok e \<Longrightarrow> tree_ok base L sb (try_update_largest_extent et e)"
  by (simp add: tree_ok_def largest_ok ids_def)

lemma drop_largest_frame [simp]:
  "et_root (drop_largest_extent et fo len) = et_root et" "et_ino (drop_largest_extent et fo len) = et_ino et"
  "cached_en (drop_largest_extent et fo len) = cached_en et" "node_cnt (drop_largest_extent et fo len) = node_cnt et"
  by (simp_all add: drop_largest_extent_def)

lemma replace_ok:
  assumes t: "tree_ok base L sb et" and r: "et_root et = xs @ c # ys"
    and c': "en_id c' = en_id c" "ei_ok c'" "disjoint_sorted (xs @ c' # ys)"
  shows "tree_ok base L sb (set_en c' et)" "et_root (set_en c' et) = xs @ c' # ys"
proof -
  have d: "distinct (map en_id (et_root et))" using t by (simp add: tree_ok_def)
  show r': "et_root (set_en c' et) = xs @ c' # ys" using set_en_split[OF d r c'(1)] .
  have "ids (set_en c' et) = ids et" using c'(1) by (simp add: ids_def r r')
  then show "tree_ok base L sb (set_en c' et)" using t c' unfolding tree_ok_def r' by (simp add: r)
qed

lemma detach_split:
  assumes d: "distinct (map en_id (et_root et))" and r: "et_root et = xs @ c # ys"
  shows "filter (\<lambda>e. en_id e \<noteq> en_id c) (et_root et) = xs @ ys"
  using id_split[of xs c ys] d r by (auto simp: filter_id_conv)

lemma release_frame [simp]:
  "largest (snd (release_extent_node sb et i)) = largest et" "et_ino (snd (release_extent_node sb et i)) = et_ino et"
  "ext_next_id (fst (release_extent_node sb et i)) = ext_next_id sb"
  "extent_tree_root (fst (release_extent_node sb et i)) = extent_tree_root sb"
  "largest_updated (snd (release_extent_node sb et i)) = largest_updated et"
  by (simp_all add: release_extent_node_def detach_extent_node_def list_del_en_def)

lemma release_ok:
  assumes t: "tree_ok base L sb et" and r: "et_root et = xs @ c # ys"
    and res: "release_extent_node sb et (en_id c) = (sb', et')"
  shows "tree_ok base L sb' et'" "et_root et' = xs @ ys"
proof -
  have d: "distinct (map en_id (et_root et))" using t by (simp add: tree_ok_def)
  have r': "et_root et' = xs @ ys"
    using detach_split[OF d r] res by (auto simp: release_extent_node_def detach_extent_node_def)
  have nin: "en_id c \<notin> ids et'" using id_split[of xs c ys] d r by (auto simp: ids_def r')
  have ids: "ids et = insert (en_id c) (ids et')" by (auto simp: ids_def r r')
  have ds: "disjoint_sorted (xs @ ys)" using t r by (auto simp: tree_ok_def disjoint_sorted_simps)
  have st: "et_ino et' = et_ino et" "largest et' = largest et" "node_cnt et' = node_cnt et - 1"
    "cached_en et' = (if cached_en et = Some (en_id c) then None else cached_en et)"
    "ext_next_id sb' = ext_next_id sb" "total_ext_node sb' = total_ext_node sb - 1"
    "extent_list sb' = filter (\<lambda>x. x \<noteq> (et_ino et, en_id c)) (extent_list sb)"
    using res by (auto simp: release_extent_node_def detach_extent_node_def list_del_en_def)
  have "set (extent_list sb') = L \<union> Pair (et_ino et') ` ids et'"
    using t nin unfolding tree_ok_def by (auto simp: st ids)
  then show "tree_ok base L sb' et'" "et_root et' = xs @ ys"
    using t ds d r r' unfolding tree_ok_def by (auto simp: st ids)
qed

lemma touch_ok:
  assumes t: "tree_ok base L sb et" and i: "i \<in> ids et" and res: "touch_en sb et i = (sb', et')"
  shows "tree_ok base L sb' et'" "et_root et' = et_root et" "largest et' = largest et" "et_ino et' = et_ino et"
    "largest_updated et' = largest_updated et"
proof -
  have "(et_ino et, i) \<in> set (extent_list sb)" using t i by (simp add: tree_ok_def)
  then have e: "et' = et\<lparr>cached_en := Some i\<rparr>"
    "sb' = sb\<lparr>extent_list := filter (\<lambda>x. x \<noteq> (et_ino et, i)) (extent_list sb) @ [(et_ino et, i)]\<rparr>"
    using res by (auto simp: touch_en_def list_del_en_def)
  have ii: "ids et' = ids et" by (simp add: ids_def e)
  show "tree_ok base L sb' et'" using t i unfolding tree_ok_def ii by (auto simp: e)
qed (use res in \<open>auto simp: touch_en_def split: if_splits\<close>)

lemma insert_ok:
  assumes t: "tree_ok base L sb et" and r: "et_root et = xs @ ys"
    and ei: "ei_ok ei" "0 < elen ei" "\<forall>x \<in> set xs. eend x \<le> ofs ei" "\<forall>y \<in> set ys. eend ei \<le> ofs y"
    and res: "insert_extent_tree sb et ei = (new, sb', et')"
  shows "tree_ok base L sb' et'" "et_ino et' = et_ino et"
    "case new of None \<Rightarrow> et_root et' = xs @ ys \<and> largest et' = largest et
     | Some en \<Rightarrow> et_root et' = xs @ en # ys \<and> ei_of en = ei \<and> en_id en = ext_next_id sb \<and>
                  largest et' = largest (try_update_largest_extent et en)"
proof -
  let ?i = "ext_next_id sb"
  let ?en = "\<lparr>ofs = ofs ei, elen = elen ei, ei_blk = ei_blk ei, ei_c_len = ei_c_len ei, en_id = ?i\<rparr>"
  have ds: "disjoint_sorted (xs @ ys)" using t r by (simp add: tree_ok_def)
  have "\<forall>x \<in> set xs. ofs x < ofs ei"
    using ei(3) ds disjoint_sorted_elen[OF ds] by fastforce
  moreover have "\<forall>y \<in> set ys. ofs ei \<le> ofs y" using ei(4) by (metis le_trans ofs_le_eend)
  ultimately have ins: "en_insert ?en (xs @ ys) = xs @ ?en # ys" by (intro en_insert_split) simp_all
  have fresh: "?i \<notin> ids et" using t by (auto simp: tree_ok_def ids_def)
  have ee: "eend ?en = eend ei" "ei_ok ?en = ei_ok ei" "ei_of ?en = ei" by (simp_all add: eend_def ei_ok_def ei_of_def)
  have ds': "disjoint_sorted (xs @ ?en # ys)" using ds ei ee(1) by (auto simp: disjoint_sorted_simps)
  have "tree_ok base L sb' et' \<and> et_ino et' = et_ino et \<and>
    (case new of None \<Rightarrow> et_root et' = xs @ ys \<and> largest et' = largest et
     | Some en \<Rightarrow> et_root et' = xs @ en # ys \<and> ei_of en = ei \<and> en_id en = ?i \<and>
                  largest et' = largest (try_update_largest_extent et en))"
  proof (cases "ext_alloc sb ?i")
    case False
    then have e: "new = None" "sb' = sb\<lparr>ext_next_id := ?i + 1\<rparr>" "et' = et"
      using res by (simp_all add: insert_extent_tree_def attach_extent_node_def Let_def)
    then show ?thesis using t r by (auto simp: tree_ok_def less_Suc_eq)
  next
    case True
    let ?et = "et\<lparr>et_root := xs @ ?en # ys, node_cnt := node_cnt et + 1\<rparr>"
    have e: "new = Some ?en" "et' = (try_update_largest_extent ?et ?en)\<lparr>cached_en := Some ?i\<rparr>"
      "sb' = sb\<lparr>ext_next_id := ?i + 1, total_ext_node := total_ext_node sb + 1, extent_list := extent_list sb @ [(et_ino et, ?i)]\<rparr>"
      using res True by (simp_all add: insert_extent_tree_def attach_extent_node_def Let_def r ins)
    have la: "largest et' = largest (try_update_largest_extent et ?en)" by (simp add: e try_update_largest_extent_def)
    have ok: "ei_ok (largest et')" using la largest_ok[of et ?en] t ei(1) ee(2) by (simp add: tree_ok_def)
    have i': "ids et' = insert ?i (ids et)" by (auto simp: ids_def e r)
    have "tree_ok base L sb' et'"
      using t ds' fresh ok ei(1) ee(2) unfolding tree_ok_def i' by (auto simp: e r ids_def less_Suc_eq)
    with la show ?thesis by (simp add: e ee)
  qed
  then show "tree_ok base L sb' et'" "et_ino et' = et_ino et"
    "case new of None \<Rightarrow> et_root et' = xs @ ys \<and> largest et' = largest et
     | Some en \<Rightarrow> et_root et' = xs @ en # ys \<and> ei_of en = ei \<and> en_id en = ext_next_id sb \<and>
                  largest et' = largest (try_update_largest_extent et en)" by blast+
qed

lemma free_fold_ok:
  assumes "tree_ok base L sb et" "et_root et = xs"
  shows "case fold (\<lambda>i (sb, et). release_extent_node sb et i) (map en_id xs) (sb, et) of
      (sb', et') \<Rightarrow> tree_ok base L sb' et' \<and> et_root et' = [] \<and> largest et' = largest et \<and> et_ino et' = et_ino et \<and>
        largest_updated et' = largest_updated et \<and> ext_next_id sb' = ext_next_id sb \<and>
        extent_tree_root sb' = extent_tree_root sb"
  using assms
proof (induction xs arbitrary: sb et)
  case (Cons x xs)
  obtain sb1 et1 where rel: "release_extent_node sb et (en_id x) = (sb1, et1)" by fastforce
  have k: "tree_ok base L sb1 et1" "et_root et1 = xs" using release_ok[OF Cons.prems(1), of "[]" x xs] Cons.prems(2) rel by simp_all
  show ?case
    using Cons.IH[OF k] rel release_frame[of sb et "en_id x"] by (auto split: prod.splits)
qed auto

lemma free_ok:
  assumes "tree_ok base L sb et" "free_extent_tree sb et = (n, sb', et')"
  shows "tree_ok base L sb' et'" "et_root et' = []" "largest et' = largest et" "et_ino et' = et_ino et"
    "n = length (et_root et)" "largest_updated et' = largest_updated et" "extent_tree_root sb' = extent_tree_root sb"
proof -
  note f = free_fold_ok[OF assms(1) refl]
  have e: "(sb', et') = fold (\<lambda>i (sb, et). release_extent_node sb et i) (map en_id (et_root et)) (sb, et)"
    "n = node_cnt et - node_cnt et'" using assms(2) by (auto simp: free_extent_tree_def Let_def)
  show "tree_ok base L sb' et'" "et_root et' = []" "largest et' = largest et" "et_ino et' = et_ino et"
    "largest_updated et' = largest_updated et" "extent_tree_root sb' = extent_tree_root sb"
    using f unfolding e(1)[symmetric] by simp_all
  then show "n = length (et_root et)" using e(2) assms(1) by (simp add: tree_ok_def)
qed

end
