(* ===== verification/Extent_Update.thy ===== *)
theory Extent_Update
  imports Extent_Inv
begin

text \<open>
  Updating a range. \<open>f\<close> is the mapping of the file before, \<open>f'\<close> after the update; they differ only
  in \<open>[pos, end')\<close>. The loop leaves a tree in which nothing of the range is cached and
  everything that is cached agrees with \<open>f'\<close>.
\<close>

section \<open>Parts of an extent\<close>

lemma agrees_outside:
  assumes "agrees e f" "\<And>p. p < pos \<or> end' \<le> p \<Longrightarrow> f' p = f p" "eend e \<le> pos \<or> end' \<le> ofs e"
  shows "agrees e f'"
  using assms unfolding agrees_def covers_def by (metis le_trans less_le_trans)

lemma left_part:
  assumes "agrees c f" "ei_ok c" "ofs c < pos" "pos < eend c"
  shows "agrees (c\<lparr>elen := pos - ofs c\<rparr>) f" "ei_ok (c\<lparr>elen := pos - ofs c\<rparr>)" "eend (c\<lparr>elen := pos - ofs c\<rparr>) = pos"
  using assms by (auto simp: agrees_def covers_def eend_def ei_ok_def)

definition right_ei :: "'a extent_info_scheme \<Rightarrow> nat \<Rightarrow> extent_info" where
  "right_ei c end' = set_extent_info end' (ei_blk c + (end' - ofs c)) (eend c - end')"

lemma right_part:
  assumes "agrees c f" "ei_ok c" "ofs c \<le> end'" "end' < eend c"
  shows "agrees (right_ei c end') f" "ei_ok (right_ei c end')" "eend (right_ei c end') = eend c"
    "set_extent_info end' (u32 (end' - ofs c + ei_blk c)) (u32 (ofs c + elen c) - end') = right_ei c end'"
    "ei_of (c\<lparr>ofs := end', ei_blk := u32 (ei_blk c + (end' - ofs c)), elen := elen c - (end' - ofs c)\<rparr>) = right_ei c end'"
proof -
  have lt: "ei_blk c + (end' - ofs c) < 2 ^ 32" "eend c < 2 ^ 32" using assms by (auto simp: ei_ok_def eend_def)
  show "agrees (right_ei c end') f"
    using assms by (auto simp: right_ei_def agrees_def covers_def eend_def)
  show "ei_ok (right_ei c end')" using assms by (simp add: right_ei_def ei_ok_def eend_def)
  show "eend (right_ei c end') = eend c" using assms by (simp add: right_ei_def)
  show "set_extent_info end' (u32 (end' - ofs c + ei_blk c)) (u32 (ofs c + elen c) - end') = right_ei c end'"
    using lt by (simp add: right_ei_def u32_id eend_def add.commute)
  show "ei_of (c\<lparr>ofs := end', ei_blk := u32 (ei_blk c + (end' - ofs c)), elen := elen c - (end' - ofs c)\<rparr>) = right_ei c end'"
    using lt assms(2,3) by (simp add: right_ei_def u32_id ei_of_def set_extent_info_def eend_def ei_ok_def)
qed

lemma ei_of_eqD:
  assumes "ei_of e = ei"
  shows "ofs e = ofs ei" "elen e = elen ei" "eend e = eend ei" "ei_ok e = ei_ok ei" "agrees e f = agrees ei f"
  using assms ei_of_simps[of e] by auto

section \<open>One extent\<close>

definition upd_inv ::
    "nat \<Rightarrow> (nat \<times> nat) set \<Rightarrow> (nat \<rightharpoonup> nat) \<Rightarrow> (nat \<rightharpoonup> nat) \<Rightarrow> nat \<Rightarrow> nat option \<Rightarrow> ext_sbi \<Rightarrow> extent_tree \<Rightarrow>
     extent_node list \<Rightarrow> extent_node list \<Rightarrow> bool" where
  "upd_inv base L f f' pos prev sb et A B \<longleftrightarrow>
     tree_ok base L sb et \<and> et_root et = A @ B \<and> (\<forall>a \<in> set A. eend a \<le> pos \<and> agrees a f') \<and>
     (\<forall>b \<in> set B. pos < eend b \<and> agrees b f) \<and> agrees (largest et) f' \<and>
     (\<forall>i. prev = Some i \<longrightarrow> (\<exists>a \<in> set A. en_id a = i))"

definition hd_id :: "extent_node list \<Rightarrow> nat option" where
  "hd_id es = map_option en_id (case es of [] \<Rightarrow> None | e # _ \<Rightarrow> Some e)"

definition shorter :: "nat \<Rightarrow> extent_node list \<Rightarrow> extent_node list \<Rightarrow> bool" where
  "shorter end' B' B \<longleftrightarrow> length B' < length B \<or> length B' = length B \<and> B' \<noteq> [] \<and> ofs (hd B') = end'"

lemma inv_root:
  assumes "upd_inv base L f f' pos prev sb et A B"
  shows "distinct (map en_id (et_root et))" "et_root et = A @ B" "tree_ok base L sb et"
  using assms unfolding upd_inv_def tree_ok_def by blast+

lemma inv_sorted:
  assumes "upd_inv base L f f' pos prev sb et A (c # B)"
  shows "disjoint_sorted (A @ c # B)" "distinct (map en_id (A @ c # B))" "ei_ok c" "0 < elen c"
    "\<forall>b \<in> set B. eend c \<le> ofs b" "disjoint_sorted A" "disjoint_sorted B"
    "\<forall>a \<in> set A. eend a \<le> ofs c" "\<forall>a \<in> set A. \<forall>b \<in> set B. eend a \<le> ofs b"
proof -
  have "tree_ok base L sb et" "et_root et = A @ c # B" using assms by (simp_all add: upd_inv_def)
  then have "disjoint_sorted (A @ c # B)" "distinct (map en_id (A @ c # B))" "ei_ok c"
    unfolding tree_ok_def by auto
  then show "disjoint_sorted (A @ c # B)" "distinct (map en_id (A @ c # B))" "ei_ok c" "0 < elen c"
    "\<forall>b \<in> set B. eend c \<le> ofs b" "disjoint_sorted A" "disjoint_sorted B"
    "\<forall>a \<in> set A. eend a \<le> ofs c" "\<forall>a \<in> set A. \<forall>b \<in> set B. eend a \<le> ofs b"
    by (simp_all add: disjoint_sorted_simps)
qed

text \<open>The four ways to cut an extent. In each the rest of the tree is as before.\<close>

lemma cut_left:
  assumes i: "upd_inv base L f f' pos prev sb et A (c # B)" and lt: "ofs c < pos"
    and ff: "\<And>p. p < pos \<or> end' \<le> p \<Longrightarrow> f' p = f p"
  defines "c1 \<equiv> c\<lparr>elen := pos - ofs c\<rparr>"
  shows "upd_inv base L f f' pos (Some (en_id c)) sb (set_en c1 et) (A @ [c1]) B" "agrees c1 f'" "ei_ok c1"
    "et_root (set_en c1 et) = A @ c1 # B" "eend c1 = pos"
proof -
  note s = inv_sorted[OF i]
  have c: "agrees c f" "pos < eend c" using i by (simp_all add: upd_inv_def)
  note l = left_part[OF c(1) s(3) lt c(2), folded c1_def]
  have c1: "ofs c1 = ofs c" "en_id c1 = en_id c" "0 < elen c1" using lt by (simp_all add: c1_def)
  have ds: "disjoint_sorted (A @ c1 # B)" using s c1 l(3) c(2) by (fastforce simp: disjoint_sorted_simps)
  have t: "tree_ok base L sb et" "et_root et = A @ c # B" using i by (simp_all add: upd_inv_def)
  note r = replace_ok[OF t c1(2) l(2) ds]
  show ag: "agrees c1 f'" using agrees_outside[OF l(1) ff] l(3) by simp
  show "upd_inv base L f f' pos (Some (en_id c)) sb (set_en c1 et) (A @ [c1]) B"
    using i r ag l(3) c1 by (auto simp: upd_inv_def)
  show "ei_ok c1" "et_root (set_en c1 et) = A @ c1 # B" "eend c1 = pos" using l r by simp_all
qed

lemma cut_right:
  assumes i: "upd_inv base L f f' pos prev sb et A (c # B)" and le: "ofs c \<le> end'" "end' < eend c" "pos < end'"
  defines "c2 \<equiv> c\<lparr>ofs := end', ei_blk := u32 (ei_blk c + (end' - ofs c)), elen := elen c - (end' - ofs c)\<rparr>"
  shows "upd_inv base L f f' pos prev sb (set_en c2 et) A (c2 # B)" "agrees c2 f" "ei_ok c2" "ofs c2 = end'"
proof -
  note s = inv_sorted[OF i]
  have c: "agrees c f" using i by (simp add: upd_inv_def)
  note rp = right_part[OF c s(3) le(1,2)]
  note e = ei_of_eqD[OF rp(5)[folded c2_def]]
  have c2: "en_id c2 = en_id c" "ofs c2 = end'" "eend c2 = eend c" "0 < elen c2"
    using e rp(3) le by (simp_all add: c2_def eend_def)
  have ds: "disjoint_sorted (A @ c2 # B)" using s c2 le(1) by (fastforce simp: disjoint_sorted_simps)
  have t: "tree_ok base L sb et" "et_root et = A @ c # B" using i by (simp_all add: upd_inv_def)
  show "agrees c2 f" "ei_ok c2" "ofs c2 = end'" using e rp c2 by simp_all
  with replace_ok[OF t c2(1) _ ds] show "upd_inv base L f f' pos prev sb (set_en c2 et) A (c2 # B)"
    using i c2 le by (auto simp: upd_inv_def)
qed

lemma cut_insert:
  assumes i: "upd_inv base L f f' pos prev sb et A B" and ei: "ei_ok ei" "0 < elen ei" "agrees ei f" "agrees ei f'" "pos \<le> ofs ei"
    and lim: "\<forall>b \<in> set B. eend ei \<le> ofs b" and res: "insert_extent_tree sb et ei = (new, sb', et')"
  shows "upd_inv base L f f' pos prev sb' et' A (case new of None \<Rightarrow> B | Some e \<Rightarrow> e # B)"
    "new = Some e \<Longrightarrow> ofs e = ofs ei"
proof -
  have t: "tree_ok base L sb et" "et_root et = A @ B" using i by (simp_all add: upd_inv_def)
  have "\<forall>a \<in> set A. eend a \<le> ofs ei" using i ei(5) by (fastforce simp: upd_inv_def)
  note k = insert_ok[OF t ei(1,2) this lim res]
  have "upd_inv base L f f' pos prev sb' et' A (case new of None \<Rightarrow> B | Some e \<Rightarrow> e # B) \<and>
    (new = Some e \<longrightarrow> ofs e = ofs ei)"
  proof (cases new)
    case None
    with i k show ?thesis by (auto simp: upd_inv_def)
  next
    case (Some n)
    have n: "ei_of n = ei" "et_root et' = A @ n # B" "largest et' = largest (try_update_largest_extent et n)"
      using k(3) Some by simp_all
    note e = ei_of_eqD[OF n(1)]
    have "agrees (largest et') f'" using n(3) largest_agrees[of et f' n] i e(5) ei(4) by (simp add: upd_inv_def)
    moreover have "pos < eend n" using ei(2,5) e by (simp add: eend_def)
    ultimately show ?thesis using i k(1) n(2) e ei(3) Some by (auto simp: upd_inv_def)
  qed
  then show "upd_inv base L f f' pos prev sb' et' A (case new of None \<Rightarrow> B | Some e \<Rightarrow> e # B)"
    "new = Some e \<Longrightarrow> ofs e = ofs ei" by blast+
qed

lemma upd_inv_largest:
  assumes "upd_inv base L f f' pos prev sb et A B" "agrees e f'" "ei_ok e"
  shows "upd_inv base L f f' pos prev sb (try_update_largest_extent et e) A B"
  using assms largest_tree_ok[of base L sb et e] largest_agrees[of et f' e] by (simp add: upd_inv_def)

lemma cut_none:
  assumes i: "upd_inv base L f f' pos prev sb et A (c # B)" and res: "release_extent_node sb et (en_id c) = (sb', et')"
  shows "upd_inv base L f f' pos prev sb' et' A B"
proof -
  have t: "tree_ok base L sb et" "et_root et = A @ c # B" using i by (simp_all add: upd_inv_def)
  show ?thesis using i release_ok[OF t res] release_frame(1)[of sb et "en_id c"] res by (auto simp: upd_inv_def)
qed

lemma next_id:
  assumes "upd_inv base L f f' pos prev sb et A (c # B)"
  shows "en_next (et_root et) (en_id c) = hd_id B"
  using en_next_split[OF inv_sorted(2)[OF assms]] assms by (simp add: upd_inv_def hd_id_def)

lemma next_id_last:
  assumes "upd_inv base L f f' pos prev sb et (A @ [c]) B"
  shows "en_next (et_root et) (en_id c) = hd_id B"
proof -
  have r: "et_root et = A @ c # B" using inv_root(2)[OF assms] by simp
  have "distinct (map en_id (A @ c # B))" using inv_root(1)[OF assms] unfolding r .
  then show ?thesis unfolding r hd_id_def by (rule en_next_split)
qed

text \<open>The round of the loop.\<close>

lemma invalidate_en_ok:
  assumes i: "upd_inv base L f f' pos prev sb et A (c # B)" and c: "ofs c < end'" "pos < end'"
    and ff: "\<And>p. p < pos \<or> end' \<le> p \<Longrightarrow> f' p = f p"
    and res: "invalidate_en sb et pos end' c = (lf, nxt, sb', et')"
  shows "\<exists>A' B'. upd_inv base L f f' pos (if lf then Some (en_id c) else prev) sb' et' A' B' \<and>
    nxt = hd_id B' \<and> shorter end' B' (c # B)"
proof -
  note s = inv_sorted[OF i]
  have e32: "u32 (ofs c + elen c) = eend c" using s(3) by (simp add: ei_ok_def eend_def u32_id)
  let ?l = "pos > ofs c \<and> pos - ofs c \<ge> F2FS_MIN_EXTENT_LEN" and ?r = "end' < eend c \<and> eend c - end' \<ge> F2FS_MIN_EXTENT_LEN"
  let ?c1 = "c\<lparr>elen := pos - ofs c\<rparr>"
  let ?c2 = "c\<lparr>ofs := end', ei_blk := u32 (ei_blk c + (end' - ofs c)), elen := elen c - (end' - ofs c)\<rparr>"
  have same: "set_en c et = et"
  proof -
    have "et_root (set_en c et) = et_root et"
      using set_en_split[of et A c B c] s(2) i by (simp add: upd_inv_def)
    then show ?thesis by (simp add: set_en_def)
  qed
  consider (both) "?l" "?r" | (left) "?l" "\<not> ?r" | (right) "\<not> ?l" "?r" | (none) "\<not> ?l" "\<not> ?r" by blast
  then show ?thesis
  proof cases
    case both
    note k = cut_left[OF i _ ff, of end'] and rp = right_part[of c f end']
    have ri: "set_extent_info end' (u32 (end' - ofs c + ei_blk c)) (eend c - end') = right_ei c end'"
      "agrees (right_ei c end') f" "ei_ok (right_ei c end')" "eend (right_ei c end') = eend c"
      using rp i both c s(3) e32 by (simp_all add: upd_inv_def)
    have ri': "agrees (right_ei c end') f'" using agrees_outside[OF ri(2) ff] by (simp add: right_ei_def)
    obtain new sb1 et1 where ins: "insert_extent_tree sb (set_en ?c1 et) (right_ei c end') = (new, sb1, et1)"
      by (metis prod_cases3)
    let ?B = "case new of None \<Rightarrow> B | Some e \<Rightarrow> e # B"
    have pre: "ofs c < pos" "0 < elen (right_ei c end')" "pos \<le> ofs (right_ei c end')" "ofs (right_ei c end') = end'"
      "\<forall>b \<in> set B. eend (right_ei c end') \<le> ofs b" using both s(5) ri(4) c(2) by (simp_all add: right_ei_def)
    note u1 = cut_insert[OF k(1)[OF pre(1)] ri(3) pre(2) ri(2) ri' pre(3,5) ins, unfolded pre(4)]
    have nxt: "(case new of Some e \<Rightarrow> Some (en_id e) | None \<Rightarrow> en_next (et_root et1) (en_id c)) = hd_id ?B"
      using next_id_last[OF u1(1)] by (auto simp: hd_id_def split: option.splits)
    have "invalidate_en sb et pos end' c = (True, hd_id ?B, sb1, try_update_largest_extent et1 ?c1)"
      using both nxt by (simp add: invalidate_en_def e32 ri(1) ins)
    moreover have "upd_inv base L f f' pos (Some (en_id c)) sb1 (try_update_largest_extent et1 ?c1) (A @ [?c1]) ?B"
      using upd_inv_largest[OF u1(1) k(2,3)[OF pre(1)]] .
    moreover have "shorter end' ?B (c # B)" using u1(2) by (auto simp: shorter_def split: option.splits)
    ultimately show ?thesis using res by auto
  next
    case left
    note k = cut_left[OF i _ ff, of end']
    have "invalidate_en sb et pos end' c = (True, hd_id B, sb, try_update_largest_extent (set_en ?c1 et) ?c1)"
      using left next_id_last[OF k(1)] by (auto simp: invalidate_en_def e32 Let_def)
    moreover have "upd_inv base L f f' pos (Some (en_id c)) sb (try_update_largest_extent (set_en ?c1 et) ?c1) (A @ [?c1]) B"
      using upd_inv_largest[OF k(1,2,3)] left by simp
    ultimately show ?thesis using res by (auto simp: shorter_def)
  next
    case right
    note k = cut_right[OF i _ _ c(2)]
    have le: "ofs c \<le> end'" "end' < eend c" using right c(1) by simp_all
    have ag: "agrees ?c2 f'" using agrees_outside[OF k(2)[OF le] ff] by simp
    have "invalidate_en sb et pos end' c = (False, Some (en_id c), sb, try_update_largest_extent (set_en ?c2 et) ?c2)"
      using right by (auto simp: invalidate_en_def e32 Let_def)
    moreover have "upd_inv base L f f' pos prev sb (try_update_largest_extent (set_en ?c2 et) ?c2) A (?c2 # B)"
      using upd_inv_largest[OF k(1)[OF le] ag k(3)[OF le]] .
    ultimately show ?thesis using res by (intro exI[of _ A] exI[of _ "?c2 # B"]) (auto simp: shorter_def hd_id_def)
  next
    case none
    have "invalidate_en sb et pos end' c = (False, hd_id B, release_extent_node sb et (en_id c))"
      using none next_id[OF i] by (auto simp: invalidate_en_def e32 same)
    moreover obtain sb1 et1 where r: "release_extent_node sb et (en_id c) = (sb1, et1)" by fastforce
    moreover have "upd_inv base L f f' pos prev sb1 et1 A B" using cut_none[OF i r] .
    ultimately show ?thesis using res by (auto simp: shorter_def)
  qed
qed

section \<open>The loop\<close>

lemma find_hd:
  assumes "upd_inv base L f f' pos prev sb et A B"
  shows "Option.bind (hd_id B) (find_en et) = (case B of [] \<Rightarrow> None | b # _ \<Rightarrow> Some b)"
proof (cases B)
  case (Cons b B')
  have "find_en et (en_id b) = Some b" using find_en_split[OF inv_root(1)[OF assms]] inv_root(2)[OF assms] Cons by simp
  with Cons show ?thesis by (simp add: hd_id_def)
qed (simp add: hd_id_def)

lemma invalidate_loop_ok:
  assumes "upd_inv base L f f' pos prev sb et A B" "pos < end'"
    and ff: "\<And>p. p < pos \<or> end' \<le> p \<Longrightarrow> f' p = f p"
    and "length B < n"
    and "Option.bind nxt (find_en et) = None \<or> B \<noteq> [] \<and> (ofs (hd B) < end' \<or> nxt = hd_id B)"
  shows "\<exists>prev' nxt' dlen' sb' et' A' B'.
    invalidate_loop n pos end' sb et (hd_id B) prev nxt dlen = Some (prev', nxt', dlen', sb', et') \<and>
    upd_inv base L f f' pos prev' sb' et' A' B' \<and> (\<forall>b \<in> set B'. end' \<le> ofs b) \<and>
    (Option.bind nxt' (find_en et') = None \<or> B' \<noteq> [] \<and> nxt' = hd_id B')"
  using assms(1,4,5)
proof (induction n arbitrary: prev sb et A B nxt dlen)
  case (Suc n)
  show ?case
  proof (cases "B \<noteq> [] \<and> ofs (hd B) < end'")
    case False
    have "\<forall>b \<in> set B. end' \<le> ofs b"
    proof (cases B)
      case (Cons b B')
      then have "end' \<le> ofs b" "\<forall>x \<in> set B'. eend b \<le> ofs x" using False inv_sorted(5)[of base L f f' pos prev sb et A b B'] Suc.prems(1) by auto
      with Cons show ?thesis by (metis le_trans ofs_le_eend set_ConsD)
    qed simp
    moreover have "invalidate_loop (Suc n) pos end' sb et (hd_id B) prev nxt dlen = Some (prev, nxt, dlen, sb, et)"
      using False find_hd[OF Suc.prems(1)] by (auto split: list.splits)
    ultimately show ?thesis using Suc.prems(1,3) False by blast
  next
    case True
    then obtain c B' where B: "B = c # B'" "ofs c < end'" by (cases B) auto
    obtain lf nxt1 sb1 et1 where inv: "invalidate_en sb et pos end' c = (lf, nxt1, sb1, et1)" by (metis prod_cases4)
    obtain A1 B1 where u1: "upd_inv base L f f' pos (if lf then Some (en_id c) else prev) sb1 et1 A1 B1"
      "nxt1 = hd_id B1" "shorter end' B1 (c # B')"
      using invalidate_en_ok[OF Suc.prems(1)[unfolded B(1)] B(2) assms(2) ff inv] by blast
    have step: "invalidate_loop (Suc n) pos end' sb et (hd_id B) prev nxt dlen =
        invalidate_loop n pos end' sb1 et1 (hd_id B1) (if lf then Some (en_id c) else prev) nxt1 (elen c)"
      using find_hd[OF Suc.prems(1)] B inv u1(2) by simp
    have nb: "Option.bind nxt1 (find_en et1) = None \<or> B1 \<noteq> [] \<and> (ofs (hd B1) < end' \<or> nxt1 = hd_id B1)"
      using u1(2) by (cases "B1 = []") (simp_all add: hd_id_def)
    show ?thesis
    proof (cases "length B1 < n")
      case True
      from Suc.IH[OF u1(1) True nb] step show ?thesis by metis
    next
      case False
      then have "length B1 = n" "B1 \<noteq> []" "ofs (hd B1) = end'" using u1(3) Suc.prems(2) B(1) by (auto simp: shorter_def)
      then obtain m b B2 where m: "n = Suc m" "B1 = b # B2" "ofs b = end'" by (cases B1) auto
      have "invalidate_loop n pos end' sb1 et1 (hd_id B1) (if lf then Some (en_id c) else prev) nxt1 (elen c) =
          Some (if lf then Some (en_id c) else prev, nxt1, elen c, sb1, et1)"
        using find_hd[OF u1(1)] m by simp
      moreover have "\<forall>x \<in> set B1. end' \<le> ofs x"
        using inv_sorted(5)[of base L f f' pos _ sb1 et1 A1 b B2] u1(1) m by (metis le_trans ofs_le_eend order_refl set_ConsD)
      moreover have "B1 \<noteq> []" using m by simp
      ultimately show ?thesis unfolding step using u1(1,2) by blast
    qed
  qed
qed simp

section \<open>Merging\<close>

definition sound :: "(nat \<rightharpoonup> nat) \<Rightarrow> extent_tree \<Rightarrow> bool" where
  "sound f et \<longleftrightarrow> (\<forall>e \<in> set (et_root et). agrees e f) \<and> agrees (largest et) f"

definition cached_range :: "nat \<Rightarrow> nat \<Rightarrow> extent_tree \<Rightarrow> bool" where
  "cached_range pos end' et \<longleftrightarrow> (\<forall>p. pos \<le> p \<and> p < end' \<longrightarrow> (\<exists>e \<in> set (et_root et). covers p e))"

lemma soundI:
  assumes "upd_inv base L f f' pos prev sb et A B" "\<And>p. p < pos \<or> end' \<le> p \<Longrightarrow> f' p = f p" "\<forall>b \<in> set B. end' \<le> ofs b"
  shows "sound f' et"
proof -
  have "agrees b f'" if "b \<in> set B" for b
  proof (rule agrees_outside)
    show "agrees b f" using assms(1) that by (simp add: upd_inv_def)
    show "\<And>p. p < pos \<or> end' \<le> p \<Longrightarrow> f' p = f p" by (rule assms(2))
    show "eend b \<le> pos \<or> end' \<le> ofs b" using assms(3) that by blast
  qed
  then show ?thesis using assms(1) by (auto simp: upd_inv_def sound_def)
qed

lemma release_set_en:
  "release_extent_node sb (set_en n et) i = (fst (release_extent_node sb et i), set_en n (snd (release_extent_node sb et i)))"
proof -
  have "filter (\<lambda>e. en_id e \<noteq> i) (map (\<lambda>e. if en_id e = en_id n then n else e) es) =
      map (\<lambda>e. if en_id e = en_id n then n else e) (filter (\<lambda>e. en_id e \<noteq> i) es)" for es
    by (induction es) auto
  then show ?thesis by (simp add: release_extent_node_def detach_extent_node_def list_del_en_def set_en_def)
qed

text \<open>An extent that ends where the range starts is the last before it, and dually.\<close>

lemma last_of_A:
  assumes "disjoint_sorted (A @ B)" "p \<in> set A" "\<forall>a \<in> set A. eend a \<le> pos" "eend p = pos"
  shows "\<exists>A1. A = A1 @ [p]"
proof -
  obtain A1 A2 where A: "A = A1 @ p # A2" using assms(2) by (meson split_list)
  have "eend p \<le> ofs a \<and> 0 < elen a \<and> eend a \<le> pos" if "a \<in> set A2" for a
    using assms(1,3) that A disjoint_sorted_elen[of "A @ B" a] by (auto simp: disjoint_sorted_simps eend_def)
  then have "A2 = []" using assms(4) by (cases A2) (fastforce simp: eend_def)+
  with A show ?thesis by simp
qed

lemma first_of_B:
  assumes "disjoint_sorted (A @ B)" "n \<in> set B" "\<forall>b \<in> set B. end' \<le> ofs b" "ofs n = end'"
  shows "\<exists>B2. B = n # B2"
proof -
  obtain B1 B2 where B: "B = B1 @ n # B2" using assms(2) by (meson split_list)
  have "eend b \<le> ofs n \<and> 0 < elen b \<and> end' \<le> ofs b" if "b \<in> set B1" for b
    using assms(1,3) that B disjoint_sorted_elen[of "A @ B" b] by (auto simp: disjoint_sorted_simps eend_def)
  then have "B1 = []" using assms(4) by (cases B1) (fastforce simp: eend_def)+
  with B show ?thesis by simp
qed

lemma agrees_append:
  assumes "agrees a f" "agrees b f" "eend a = ofs b" "ei_blk a + elen a = ei_blk b"
    and "ofs c = ofs a" "elen c = elen a + elen b" "ei_blk c = ei_blk a"
  shows "agrees c f"
  unfolding agrees_def
proof (intro allI impI)
  fix p assume p: "covers p c"
  show "f p = Some (ei_blk c + (p - ofs c))"
  proof (cases "p < eend a")
    case True
    then show ?thesis using p assms by (auto simp: agrees_def covers_def eend_def)
  next
    case False
    then have "covers p b" using p assms by (auto simp: covers_def eend_def)
    then show ?thesis using False assms by (auto simp: agrees_def eend_def)
  qed
qed

lemma mergeable_eq:
  assumes "ei_ok a" "ei_ok b" "is_extent_mergeable a b"
  shows "eend a = ofs b" "ei_blk a + elen a = ei_blk b"
  using assms by (auto simp: is_extent_mergeable_def ei_ok_def eend_def u32_id split: if_splits)

text \<open>
  The state between the two merges: the range is part of the last extent before it, or not
  yet in the tree; \<open>ei\<close> is the extent that holds the range.
\<close>

definition mid_ok ::
    "nat \<Rightarrow> (nat \<times> nat) set \<Rightarrow> (nat \<rightharpoonup> nat) \<Rightarrow> nat \<Rightarrow> nat \<Rightarrow> extent_node option \<Rightarrow> extent_info \<Rightarrow> ext_sbi \<Rightarrow> extent_tree \<Rightarrow>
     extent_node list \<Rightarrow> extent_node list \<Rightarrow> bool" where
  "mid_ok base L f' pos end' en ei sb et A B \<longleftrightarrow>
     tree_ok base L sb et \<and> sound f' et \<and> ei_ok ei \<and> agrees ei f' \<and> 0 < elen ei \<and> ofs ei \<le> pos \<and> eend ei = end' \<and>
     et_root et = A @ (case en of None \<Rightarrow> [] | Some p \<Rightarrow> [p]) @ B \<and> (\<forall>b \<in> set B. end' \<le> ofs b) \<and>
     (\<forall>a \<in> set A. eend a \<le> ofs ei) \<and> (\<forall>p. en = Some p \<longrightarrow> ei_of p = ei)"

lemma merge_prev_ok:
  assumes i: "upd_inv base L f f' pos prev sb et A B" and ff: "\<And>p. p < pos \<or> end' \<le> p \<Longrightarrow> f' p = f p"
    and B: "\<forall>b \<in> set B. end' \<le> ofs b"
    and ei: "ei_ok ei" "agrees ei f'" "0 < elen ei" "ofs ei = pos" "eend ei = end'"
    and p: "\<And>q. pn = Some q \<Longrightarrow> q \<in> set A"
    and res: "merge_prev et ei pn = (en, ei', et')"
  shows "\<exists>A'. mid_ok base L f' pos end' en ei' sb et' A' B"
proof (cases "\<exists>q. pn = Some q \<and> is_back_mergeable ei q")
  case False
  then have "en = None" "ei' = ei" "et' = et" using res by (auto simp: merge_prev_def split: option.splits if_splits)
  moreover have "sound f' et" using soundI[OF i ff B] .
  ultimately show ?thesis using i B ei by (auto simp: mid_ok_def upd_inv_def)
next
  case True
  then obtain q where q: "pn = Some q" "is_extent_mergeable q ei" by (auto simp: is_back_mergeable_def)
  define q' where "q' = q\<lparr>elen := u32 (elen q + elen ei)\<rparr>"
  have e: "en = Some q'" "ei' = ei_of q'" "et' = set_en q' et"
    using res q by (simp_all add: merge_prev_def is_back_mergeable_def q'_def Let_def)
  note r = inv_root[OF i]
  have ds: "disjoint_sorted (A @ B)" using r(2,3) by (simp add: tree_ok_def)
  have qA: "q \<in> set A" "ei_ok q" "agrees q f'" using p[OF q(1)] i r(2,3) by (auto simp: tree_ok_def upd_inv_def)
  note m = mergeable_eq[OF qA(2) ei(1) q(2)]
  have len: "elen q + elen ei < 2 ^ 32" using ei m by (simp add: ei_ok_def eend_def)
  have q': "ofs q' = ofs q" "elen q' = elen q + elen ei" "ei_blk q' = ei_blk q" "en_id q' = en_id q" "eend q' = end'" "ei_ok q'"
    using len qA(2) ei m by (simp_all add: q'_def u32_id eend_def ei_ok_def)
  have ag: "agrees q' f'" using agrees_append[OF qA(3) ei(2) m q'(1,2,3)] .
  have "\<forall>a \<in> set A. eend a \<le> pos" "eend q = pos" using i m(1) ei(4) by (simp_all add: upd_inv_def)
  from last_of_A[OF ds qA(1) this] obtain A1 where A: "A = A1 @ [q]" by blast
  have ds': "disjoint_sorted (A1 @ q' # B)"
    using ds A B q' ei(3) by (auto simp: disjoint_sorted_simps)
  have rt: "et_root et = A1 @ q # B" using r(2) A by simp
  note k = replace_ok[OF r(3) rt q'(4,6) ds']
  have "sound f' et'" using soundI[OF i ff B] k(2) ag rt by (auto simp: sound_def e)
  moreover have "\<forall>a \<in> set A1. eend a \<le> ofs q'" using ds A q'(1) by (auto simp: disjoint_sorted_simps)
  moreover have "ofs q' \<le> pos" using m(1) ei(4) q'(1) by (metis ofs_le_eend)
  ultimately have "mid_ok base L f' pos end' en ei' sb et' A1 B"
    using k B q' ag ei(3) unfolding mid_ok_def e by simp
  then show ?thesis by blast
qed

text \<open>The second merge.\<close>

lemma merge_next_ok:
  assumes mid: "mid_ok base L f' pos end' en ei sb et A B" and n: "n \<in> set B" "is_extent_mergeable ei n"
  defines "n' \<equiv> n\<lparr>ofs := ofs ei, ei_blk := ei_blk ei, elen := u32 (elen n + elen ei)\<rparr>"
    and "st \<equiv> (case en of None \<Rightarrow> (sb, et) | Some p \<Rightarrow> release_extent_node sb et (en_id p))"
  shows "tree_ok base L (fst st) (set_en n' (snd st))" "sound f' (set_en n' (snd st))" "n' \<in> set (et_root (set_en n' (snd st)))"
    "ofs n' \<le> pos" "end' \<le> eend n'" "ei_ok n'" "agrees n' f'"
proof -
  have t: "tree_ok base L sb et" and so: "sound f' et" and ei: "ei_ok ei" "agrees ei f'" "0 < elen ei" "ofs ei \<le> pos" "eend ei = end'"
    and r: "et_root et = A @ (case en of None \<Rightarrow> [] | Some p \<Rightarrow> [p]) @ B"
    using mid by (simp_all add: mid_ok_def)
  have nB: "ei_ok n" "agrees n f'" using t so n(1) r by (auto simp: tree_ok_def sound_def)
  note m = mergeable_eq[OF ei(1) nB(1) n(2)]
  have len: "elen n + elen ei < 2 ^ 32" using nB(1) m by (simp add: ei_ok_def eend_def)
  have n': "ofs n' = ofs ei" "elen n' = elen ei + elen n" "ei_blk n' = ei_blk ei" "en_id n' = en_id n" "eend n' = eend n" "ei_ok n'"
    using len nB(1) m by (simp_all add: n'_def u32_id eend_def ei_ok_def)
  show "ei_ok n'" by (rule n'(6))
  show ag: "agrees n' f'" using agrees_append[OF ei(2) nB(2) m n'(1,2,3)] .
  show "ofs n' \<le> pos" "end' \<le> eend n'" using n' ei(4,5) m(1) by (auto simp: eend_def)
  have st: "tree_ok base L (fst st) (snd st)" "et_root (snd st) = A @ B" "largest (snd st) = largest et"
  proof -
    obtain sb1 et1 where s1: "st = (sb1, et1)" by fastforce
    show "tree_ok base L (fst st) (snd st)" "et_root (snd st) = A @ B"
      using t r release_ok[OF t, of A _ B sb1 et1] s1 by (auto simp: st_def split: option.splits)
    show "largest (snd st) = largest et" by (simp add: st_def split: option.splits)
  qed
  have ds: "disjoint_sorted (A @ B)" using st by (simp add: tree_ok_def)
  have "\<forall>b \<in> set B. end' \<le> ofs b" using mid by (simp add: mid_ok_def)
  from first_of_B[OF ds n(1) this] m(1) ei(5) obtain B2 where B: "B = n # B2" by auto
  have ds': "disjoint_sorted (A @ n' # B2)"
    using ds B n' ei(3) mid by (auto simp: disjoint_sorted_simps mid_ok_def)
  note k = replace_ok[OF st(1) st(2)[unfolded B] n'(4,6) ds']
  show "tree_ok base L (fst st) (set_en n' (snd st))" "n' \<in> set (et_root (set_en n' (snd st)))" using k by simp_all
  show "sound f' (set_en n' (snd st))" using so ag k(2) r st(3) B by (auto simp: sound_def)
qed

text \<open>The end of a merge: the largest extent and the list.\<close>

lemma merge_end_ok:
  assumes t: "tree_ok base L sb et" "sound f' et" and e: "e \<in> set (et_root et)" "ofs e \<le> pos" "end' \<le> eend e"
    and res: "touch_en sb (try_update_largest_extent et e) (en_id e) = (sb', et')"
  shows "tree_ok base L sb' et'" "sound f' et'" "cached_range pos end' et'" "et_ino et' = et_ino et"
proof -
  have ok: "ei_ok e" "agrees e f'" using t e by (auto simp: tree_ok_def sound_def)
  have i: "en_id e \<in> ids (try_update_largest_extent et e)" using e by (simp add: ids_def)
  note k = touch_ok[OF largest_tree_ok[OF t(1) ok(1)] i res]
  show "tree_ok base L sb' et'" "et_ino et' = et_ino et" using k by simp_all
  show "sound f' et'" using k t(2) largest_agrees[of et f' e] ok by (simp add: sound_def)
  show "cached_range pos end' et'" using e k(2) by (auto simp: cached_range_def covers_def intro!: bexI[of _ e])
qed

lemma try_merge_ok:
  assumes i: "upd_inv base L f f' pos prev sb et A B" and ff: "\<And>p. p < pos \<or> end' \<le> p \<Longrightarrow> f' p = f p"
    and B: "\<forall>b \<in> set B. end' \<le> ofs b"
    and ei: "ei_ok ei" "agrees ei f'" "0 < elen ei" "ofs ei = pos" "eend ei = end'"
    and p: "\<And>q. pn = Some q \<Longrightarrow> q \<in> set A" and n: "\<And>q. nn = Some q \<Longrightarrow> q \<in> set B"
    and res: "try_merge_extent_node sb et ei pn nn = (r, sb', et')"
  shows "case r of None \<Rightarrow> sb' = sb \<and> et' = et
    | Some e \<Rightarrow> tree_ok base L sb' et' \<and> sound f' et' \<and> cached_range pos end' et' \<and> et_ino et' = et_ino et"
proof -
  obtain en ei1 et1 where mp: "merge_prev et ei pn = (en, ei1, et1)" by (metis prod_cases3)
  obtain A' where mid: "mid_ok base L f' pos end' en ei1 sb et1 A' B" using merge_prev_ok[OF i ff B ei p mp] by blast
  have ino: "et_ino et1 = et_ino et" and none: "en = None \<Longrightarrow> et1 = et"
    using mp by (auto simp: merge_prev_def Let_def split: option.splits if_splits)
  show ?thesis
  proof (cases "\<exists>q. nn = Some q \<and> is_front_mergeable ei1 q")
    case True
    then obtain q where q: "nn = Some q" "is_extent_mergeable ei1 q" by (auto simp: is_front_mergeable_def)
    define n' where "n' = q\<lparr>ofs := ofs ei1, ei_blk := ei_blk ei1, elen := u32 (elen q + elen ei1)\<rparr>"
    define st where "st = (case en of None \<Rightarrow> (sb, et1) | Some p \<Rightarrow> release_extent_node sb et1 (en_id p))"
    note k = merge_next_ok[OF mid n[OF q(1)] q(2), folded n'_def, folded st_def]
    have "(case en of None \<Rightarrow> (sb, set_en n' et1) | Some p \<Rightarrow> release_extent_node sb (set_en n' et1) (en_id p)) = (fst st, set_en n' (snd st))"
      by (simp add: st_def release_set_en split: option.splits)
    then have tm: "try_merge_extent_node sb et ei pn nn =
        (Some n', touch_en (fst st) (try_update_largest_extent (set_en n' (snd st)) n') (en_id n'))"
      using q by (simp add: try_merge_extent_node_def mp is_front_mergeable_def n'_def[symmetric])
    have "et_ino (snd st) = et_ino et" using ino by (simp add: st_def split: option.splits)
    with merge_end_ok[OF k(1,2,3,4,5), of sb' et'] tm res show ?thesis by auto
  next
    case False
    then have tm: "try_merge_extent_node sb et ei pn nn =
        (case en of None \<Rightarrow> (None, sb, et1) | Some e \<Rightarrow> (Some e, touch_en sb (try_update_largest_extent et1 e) (en_id e)))"
      by (auto simp: try_merge_extent_node_def mp split: option.splits)
    show ?thesis
    proof (cases en)
      case None
      with tm res none show ?thesis by auto
    next
      case (Some e)
      have e: "ei_of e = ei1" "tree_ok base L sb et1" "sound f' et1" "e \<in> set (et_root et1)" "ofs ei1 \<le> pos" "eend ei1 = end'"
        using mid Some by (simp_all add: mid_ok_def)
      with merge_end_ok[OF e(2,3,4), of pos end' sb' et'] ei_of_eqD[OF e(1)] tm res Some ino show ?thesis by auto
    qed
  qed
qed

section \<open>The update of a tree\<close>

definition upd_map :: "(nat \<rightharpoonup> nat) \<Rightarrow> nat \<Rightarrow> nat \<Rightarrow> nat \<Rightarrow> (nat \<rightharpoonup> nat)" where
  "upd_map f fo blkaddr len =
     (\<lambda>p. if fo \<le> p \<and> p < fo + len then (if blkaddr = 0 then None else Some (blkaddr + (p - fo))) else f p)"

lemma lookup_en_find:
  assumes t: "tree_ok base L sb et"
  shows "lookup_en et p = find (covers p) (et_root et)"
proof (cases "lookup_rb_tree_fast (en_cached et) p")
  case (Some e)
  then obtain i where i: "find_en et i = Some e" and c: "covers p e"
    by (auto simp: en_cached_def covers_def elim!: lookup_rb_tree_fast.elims split: if_splits Option.bind_splits)
  have "e \<in> set (et_root et)" using i by (auto simp: find_en_def find_Some_iff)
  then obtain xs ys where r: "et_root et = xs @ e # ys" by (meson split_list)
  have "disjoint_sorted (xs @ e # ys)" using t r by (simp add: tree_ok_def)
  from neighbors_hit(1)[OF this c] show ?thesis using Some r by (simp add: lookup_en_def)
qed (simp add: lookup_en_def)

lemma drop_largest_agrees:
  assumes "agrees (largest et) f" "ei_ok (largest et)"
  shows "agrees (largest (drop_largest_extent et fo len)) (upd_map f fo blkaddr len)"
    "ei_ok (largest (drop_largest_extent et fo len))"
proof -
  have e: "u32 (ofs (largest et) + elen (largest et)) = eend (largest et)"
    using assms(2) by (simp add: ei_ok_def eend_def u32_id)
  show "agrees (largest (drop_largest_extent et fo len)) (upd_map f fo blkaddr len)"
    using assms(1) unfolding drop_largest_extent_def e
    by (auto simp: agrees_def covers_def upd_map_def eend_def)
  show "ei_ok (largest (drop_largest_extent et fo len))"
    using assms(2) by (auto simp: drop_largest_extent_def ei_ok_def eend_def)
qed

text \<open>What the lookup before the loop establishes.\<close>

lemma update_start:
  fixes blkaddr :: nat
  assumes t: "tree_ok base L sb et" and so: "sound f et" and len: "0 < len" "fo + len < 2 ^ 32"
  defines "et0 \<equiv> drop_largest_extent et fo len" and "f' \<equiv> upd_map f fo blkaddr len"
  assumes look: "lookup_en_ret et0 fo = (hit, prev, nxt)"
  defines "en \<equiv> (case hit of None \<Rightarrow> nxt | Some e \<Rightarrow> Some e)"
  shows "\<exists>A B. upd_inv base L f f' fo (map_option en_id prev) sb et0 A B \<and> map_option en_id en = hd_id B \<and>
    (Option.bind (map_option en_id nxt) (find_en et0) = None \<or>
     B \<noteq> [] \<and> (ofs (hd B) < fo + len \<or> map_option en_id nxt = hd_id B))"
proof -
  have r0: "et_root et0 = et_root et" by (simp add: et0_def)
  have la: "agrees (largest et0) f'" "ei_ok (largest et0)"
    using drop_largest_agrees[of et f] t so by (simp_all add: tree_ok_def sound_def et0_def f'_def)
  have t0: "tree_ok base L sb et0" using t la(2) by (simp add: tree_ok_def et0_def ids_def)
  have ds: "disjoint_sorted (et_root et)" using t by (simp add: tree_ok_def)
  have pos: "fo < eend b" if "b \<in> set (et_root et)" "fo < ofs b" for b using that by (metis le_trans less_le_trans ofs_le_eend order.strict_trans2)
  have ff: "f' p = f p" if "p < fo \<or> fo + len \<le> p" for p using that by (auto simp: f'_def upd_map_def)
  have inv: "upd_inv base L f f' fo pr sb et0 A B"
    if "et_root et = A @ B" "\<forall>a \<in> set A. eend a \<le> fo" "\<forall>b \<in> set B. fo < eend b" "\<forall>i. pr = Some i \<longrightarrow> (\<exists>a \<in> set A. en_id a = i)" for A B pr
  proof -
    have "agrees a f'" if "a \<in> set A" for a
    proof (rule agrees_outside[where pos = fo and end' = "fo + len"])
      show "agrees a f" using so that \<open>et_root et = A @ B\<close> by (simp add: sound_def)
      show "eend a \<le> fo \<or> fo + len \<le> ofs a" using that \<open>\<forall>a \<in> set A. eend a \<le> fo\<close> by blast
    qed (rule ff)
    then show ?thesis using t0 r0 that la so by (simp add: upd_inv_def sound_def)
  qed
  show ?thesis
  proof (cases "find (covers fo) (et_root et)")
    case (Some e)
    then obtain X Y where r: "et_root et = X @ e # Y" and c: "covers fo e" using find_Some_split[OF Some] by blast
    have hit: "hit = Some e" "prev = (if fo = ofs e then rb_prev_in (et_root et) e else None)"
      using look lookup_en_find[OF t0, of fo] Some by (auto simp: lookup_en_ret_def r0)
    have s: "disjoint_sorted (X @ e # Y)" using ds r by simp
    have X: "\<forall>a \<in> set X. eend a \<le> fo" and Y: "\<forall>b \<in> set (e # Y). fo < eend b"
    proof -
      show "\<forall>a \<in> set X. eend a \<le> fo" using s c by (fastforce simp: disjoint_sorted_simps covers_def)
      have "fo < eend b" if "b \<in> set Y" for b
      proof -
        have "eend e \<le> ofs b" using s that by (simp add: disjoint_sorted_simps)
        then show ?thesis using c ofs_le_eend[of b] unfolding covers_def by linarith
      qed
      then show "\<forall>b \<in> set (e # Y). fo < eend b" using c by (simp add: covers_def)
    qed
    have pv: "\<forall>i. map_option en_id prev = Some i \<longrightarrow> (\<exists>a \<in> set X. en_id a = i)"
      using hit(2) rb_prev_in_split[of X e Y] disjoint_sorted_distinct[OF s] by (auto simp: r)
    have "ofs e < fo + len" using c len(1) by (simp add: covers_def)
    then show ?thesis using inv[OF r X Y pv] hit(1)
      by (intro exI[of _ X] exI[of _ "e # Y"]) (simp add: en_def hd_id_def)
  next
    case None
    then obtain X Y where r: "et_root et = X @ Y" "\<forall>a \<in> set X. eend a \<le> fo" "\<forall>b \<in> set Y. fo < ofs b"
      using miss_split[OF ds, of fo] by (auto simp: find_None_iff)
    have Y: "\<forall>b \<in> set Y. fo < eend b" using pos r by auto
    have l: "last_before fo (et_root et) = (if X = [] then None else Some (last X))"
      "first_after fo (et_root et) = (case Y of [] \<Rightarrow> None | y # _ \<Rightarrow> Some y)"
      using last_before_split[of X fo Y] first_after_split[of X fo Y] r Y
      by (auto simp: r(1)) (metis le_trans ofs_le_eend)
    have hit: "hit = None" "prev = (if X = [] then None else Some (last X))" "nxt = (case Y of [] \<Rightarrow> None | y # _ \<Rightarrow> Some y)"
      using look lookup_en_find[OF t0, of fo] None l by (auto simp: lookup_en_ret_def r0)
    have pv: "\<forall>i. map_option en_id prev = Some i \<longrightarrow> (\<exists>a \<in> set X. en_id a = i)" using hit(2) by auto
    have "map_option en_id nxt = hd_id Y" using hit(3) by (simp add: hd_id_def)
    then show ?thesis using inv[OF r(1,2) Y pv] hit(1)
      by (intro exI[of _ X] exI[of _ Y]) (auto simp: en_def hd_id_def split: list.splits)
  qed
qed

section \<open>What the update of a tree leaves alone\<close>

definition sb_frame :: "ext_sbi \<Rightarrow> _" where
  "sb_frame sb = (extent_tree_root sb, zombie_list sb, total_ext_tree sb, total_zombie_tree sb, ext_alloc sb,
     opt_extent_cache sb, sb_has_readonly sb, s_list_empty sb)"

lemma release_keeps [simp]: "sb_frame (fst (release_extent_node sb et i)) = sb_frame sb"
  by (simp add: sb_frame_def release_extent_node_def detach_extent_node_def list_del_en_def)

lemma touch_keeps [simp]: "sb_frame (fst (touch_en sb et i)) = sb_frame sb"
  by (simp add: sb_frame_def touch_en_def list_del_en_def)

lemma insert_keeps:
  "insert_extent_tree sb et ei = (r, sb', et') \<Longrightarrow> sb_frame sb' = sb_frame sb \<and> et_ino et' = et_ino et"
  by (auto simp: sb_frame_def insert_extent_tree_def attach_extent_node_def Let_def split: if_splits)

lemma invalidate_keeps:
  assumes "invalidate_en sb et pos end' c = (lf, nxt, sb', et')"
  shows "sb_frame sb' = sb_frame sb \<and> et_ino et' = et_ino et"
proof -
  have rel: "release_extent_node sb1 et1 i = (sb2, et2) \<Longrightarrow> sb_frame sb2 = sb_frame sb1 \<and> et_ino et2 = et_ino et1"
    for sb1 et1 i sb2 et2 using release_keeps[of sb1 et1 i] release_frame(2)[of sb1 et1 i] by simp
  show ?thesis
    using assms unfolding invalidate_en_def Let_def by (auto split: prod.splits if_splits dest!: insert_keeps rel)
qed

lemma loop_keeps:
  "invalidate_loop n pos end' sb et en prev nxt dlen = Some (p, q, dl, sb', et') \<Longrightarrow>
   sb_frame sb' = sb_frame sb \<and> et_ino et' = et_ino et"
proof (induction n arbitrary: sb et en prev nxt dlen)
  case (Suc n)
  show ?case
  proof (cases "Option.bind en (find_en et)")
    case (Some e)
    obtain lf nx sb1 et1 where i: "invalidate_en sb et pos end' e = (lf, nx, sb1, et1)" by (metis prod_cases4)
    show ?thesis using Suc.prems Suc.IH invalidate_keeps[OF i] Some i by (auto split: if_splits)
  qed (use Suc.prems in auto)
qed simp

lemma merge_keeps: "try_merge_extent_node sb et ei pn nn = (r, sb', et') \<Longrightarrow> sb_frame sb' = sb_frame sb"
  unfolding try_merge_extent_node_def Let_def
  by (auto split: prod.splits option.splits if_splits) (metis fst_conv release_keeps touch_keeps)+

text \<open>The last part of the update: the new range is merged into a neighbour or inserted.\<close>

lemma insert_new_ok:
  assumes i: "upd_inv base L f f' fo prev sb et A B" and B: "\<forall>b \<in> set B. eend ei \<le> ofs b" and so: "sound f' et"
    and ei: "ei_ok ei" "agrees ei f'" "0 < elen ei" "ofs ei = fo"
    and ins: "insert_extent_tree sb et ei = (new, sb', et')"
  shows "tree_ok base L sb' et'" "sound f' et'" "new \<noteq> None \<Longrightarrow> cached_range fo (eend ei) et'"
proof -
  have t1: "tree_ok base L sb et" "et_root et = A @ B" using inv_root[OF i] by simp_all
  have "\<forall>x \<in> set A. eend x \<le> ofs ei" using i ei(4) by (simp add: upd_inv_def)
  note k = insert_ok[OF t1 ei(1,3) this B ins]
  show "tree_ok base L sb' et'" by (rule k)
  have "sound f' et' \<and> (new \<noteq> None \<longrightarrow> cached_range fo (eend ei) et')"
  proof (cases new)
    case (Some e)
    have e: "ei_of e = ei" "et_root et' = A @ e # B" "largest et' = largest (try_update_largest_extent et e)"
      using k(3) Some by simp_all
    note d = ei_of_eqD[OF e(1)]
    have "cached_range fo (eend ei) et'" using e(2) d ei(4) by (auto simp: cached_range_def covers_def intro!: bexI[of _ e])
    then show ?thesis using so ei(2) t1(2) e d(5) largest_agrees[of et f' e] by (auto simp: sound_def)
  qed (use k(3) so t1(2) in \<open>auto simp: sound_def\<close>)
  then show "sound f' et'" "new \<noteq> None \<Longrightarrow> cached_range fo (eend ei) et'" by blast+
qed

lemma merge_or_insert_ok:
  assumes i: "upd_inv base L f f' fo prev sb et A B" and ff: "\<And>p. p < fo \<or> fo + len \<le> p \<Longrightarrow> f' p = f p"
    and B: "\<forall>b \<in> set B. fo + len \<le> ofs b"
    and ei: "ei_ok ei" "agrees ei f'" "0 < elen ei" "ofs ei = fo" "eend ei = fo + len"
    and p: "\<And>q. pn = Some q \<Longrightarrow> q \<in> set A" and n: "\<And>q. nn = Some q \<Longrightarrow> q \<in> set B"
    and res: "merge_or_insert sb et ei pn nn = (sb', et')"
  shows "tree_ok base L sb' et' \<and> sound f' et' \<and> et_ino et' = et_ino et \<and> sb_frame sb' = sb_frame sb \<and>
    ((\<forall>i. ext_alloc sb i) \<longrightarrow> cached_range fo (fo + len) et')"
proof -
  obtain m sb2 et2 where mg: "try_merge_extent_node sb et ei pn nn = (m, sb2, et2)" by (metis prod_cases3)
  note mok = try_merge_ok[OF i ff B ei p n mg]
  show ?thesis
  proof (cases m)
    case (Some e)
    with mok mg res merge_keeps[OF mg] show ?thesis by (simp add: merge_or_insert_def)
  next
    case None
    obtain new sb3 et3 where ins: "insert_extent_tree sb et ei = (new, sb3, et3)" by (metis prod_cases3)
    have S: "sb' = sb3" "et' = et3" using res None mok mg ins by (simp_all add: merge_or_insert_def)
    have "new \<noteq> None" if "\<forall>i. ext_alloc sb i"
      using that ins by (auto simp: insert_extent_tree_def attach_extent_node_def Let_def)
    then show ?thesis
      using insert_new_ok[OF i B[folded ei(5)] soundI[OF i ff B] ei(1-4) ins] insert_keeps[OF ins] ei(5) S by auto
  qed
qed

text \<open>
  The update as a whole: it ends, the result agrees with the new mapping, and when nodes can
  be allocated the new range is cached (unless the cache of this inode is given up).
\<close>

lemma prev_in_A:
  assumes i: "upd_inv base L f f' pos prev sb et A B" and q: "Option.bind prev (find_en et) = Some q"
  shows "q \<in> set A"
proof -
  obtain j a where a: "prev = Some j" "a \<in> set A" "en_id a = j" "find_en et j = Some q"
    using q i by (auto simp: upd_inv_def bind_eq_Some_conv)
  obtain X Y where "A = X @ a # Y" using a(2) by (meson split_list)
  then have "find_en et (en_id a) = Some a" using find_en_split[OF inv_root(1)[OF i], of X a "Y @ B"] inv_root(2)[OF i] by simp
  with a show ?thesis by simp
qed

lemma update_extent_tree_total:
  assumes t: "tree_ok base L sb et" and so: "sound f et" and len: "0 < len" "fo + len < 2 ^ 32" "blkaddr + len < 2 ^ 32"
  defines "f' \<equiv> upd_map f fo blkaddr len"
  shows "\<exists>g sb' et'. update_extent_tree sb et fo blkaddr len = Some (g, sb', et') \<and> tree_ok base L sb' et' \<and>
    sound f' et' \<and> et_ino et' = et_ino et \<and> sb_frame sb' = sb_frame sb \<and> (g \<longrightarrow> elen (largest et') = 0) \<and>
    (blkaddr \<noteq> 0 \<longrightarrow> (\<forall>i. ext_alloc sb i) \<longrightarrow> cached_range fo (fo + len) et')"
proof -
  define et0 where "et0 = drop_largest_extent et fo len"
  obtain hit prev nxt where look: "lookup_en_ret et0 fo = (hit, prev, nxt)" by (metis prod_cases3)
  define en where "en = (case hit of None \<Rightarrow> nxt | Some e \<Rightarrow> Some e)"
  have ff: "f' p = f p" if "p < fo \<or> fo + len \<le> p" for p using that by (auto simp: f'_def upd_map_def)
  have pe: "fo < fo + len" using len by simp
  have u: "u32 fo = fo" "u32 (fo + len) = fo + len" using len by (simp_all add: u32_id)
  obtain A B where st: "upd_inv base L f f' fo (map_option en_id prev) sb et0 A B" "map_option en_id en = hd_id B"
    "Option.bind (map_option en_id nxt) (find_en et0) = None \<or>
     B \<noteq> [] \<and> (ofs (hd B) < fo + len \<or> map_option en_id nxt = hd_id B)"
    using update_start[OF t so len(1,2) look[unfolded et0_def], of blkaddr]
    unfolding et0_def[symmetric] f'_def[symmetric] en_def[symmetric] by blast
  have lB: "length B < length (et_root et0) + 1" using inv_root(2)[OF st(1)] by simp
  obtain prev' nxt' dlen sb1 et1 A1 B1 where lp:
    "invalidate_loop (length (et_root et0) + 1) fo (fo + len) sb et0 (hd_id B) (map_option en_id prev) (map_option en_id nxt) 0 =
       Some (prev', nxt', dlen, sb1, et1)"
    and i1: "upd_inv base L f f' fo prev' sb1 et1 A1 B1" and B1: "\<forall>b \<in> set B1. fo + len \<le> ofs b"
    and nx: "Option.bind nxt' (find_en et1) = None \<or> B1 \<noteq> [] \<and> nxt' = hd_id B1"
    using invalidate_loop_ok[OF st(1) pe ff lB st(3), of 0] by blast
  have fr1: "sb_frame sb1 = sb_frame sb" "et_ino et1 = et_ino et" using loop_keeps[OF lp] by (simp_all add: et0_def)
  define pn where "pn = Option.bind prev' (find_en et1)"
  define nn where "nn = Option.bind nxt' (find_en et1)"
  have nB: "q \<in> set B1" if "nn = Some q" for q
    using that nx find_hd[OF i1] by (auto simp: nn_def split: list.splits)
  let ?ei = "set_extent_info fo blkaddr len"
  obtain sb2 et2 where mi: "merge_or_insert sb1 et1 ?ei pn nn = (sb2, et2)" by fastforce
  let ?g = "dlen \<ge> 1 \<and> elen (largest et) < F2FS_MIN_EXTENT_LEN \<and> elen (largest et2) < F2FS_MIN_EXTENT_LEN"
  let ?et = "if ?g then et2\<lparr>largest := (largest et2)\<lparr>elen := 0\<rparr>, largest_updated := True\<rparr> else et2"
  have upd: "update_extent_tree sb et fo blkaddr len = (if blkaddr = 0 then Some (False, sb1, et1) else Some (?g, sb2, ?et))"
    using lp st(2) mi by (simp add: update_extent_tree_def Let_def et0_def[symmetric] u look en_def[symmetric]
        pn_def nn_def del: invalidate_loop.simps)
  show ?thesis
  proof (cases "blkaddr = 0")
    case True
    then show ?thesis using upd i1 soundI[OF i1 ff B1] fr1 by (auto simp: upd_inv_def)
  next
    case False
    have ei: "ei_ok ?ei" "agrees ?ei f'" "0 < elen ?ei" "ofs ?ei = fo" "eend ?ei = fo + len"
      using len False by (auto simp: ei_ok_def agrees_def covers_def f'_def upd_map_def)
    note S = merge_or_insert_ok[OF i1 ff B1 ei prev_in_A[OF i1, folded pn_def] nB mi]
    have "tree_ok base L sb2 ?et" "sound f' ?et" "et_ino ?et = et_ino et" "?g \<longrightarrow> elen (largest ?et) = 0"
      "cached_range fo (fo + len) ?et = cached_range fo (fo + len) et2"
      using S fr1 by (auto simp: tree_ok_def ids_def sound_def ei_ok_def agrees_def covers_def eend_def cached_range_def)
    then show ?thesis using upd False S fr1 by (intro exI[of _ ?g] exI[of _ sb2] exI[of _ ?et]) (auto simp: sb_frame_def)
  qed
qed

end
