(* ===== verification/Extent_Machine.thy ===== *)
theory Extent_Machine
  imports Extent_Update State_Machine
begin

text \<open>
  The extent cache of a whole file system: the trees of all inodes, the global list and the
  counters, the inodes in memory, and, as a ghost, the block mapping of every file. The
  entry points of \<open>extent_cache.c\<close> are the events. The invariant says that the structures and
  counters are consistent and that every cached extent agrees with the file's mapping.
\<close>

section \<open>All trees\<close>

definition nodes_of :: "(nat \<rightharpoonup> extent_tree) \<Rightarrow> (nat \<times> nat) set" where
  "nodes_of T = (SIGMA k : dom T. ids (the (T k)))"

definition node_sum :: "(nat \<rightharpoonup> extent_tree) \<Rightarrow> nat" where
  "node_sum T = (\<Sum>k \<in> dom T. length (et_root (the (T k))))"

definition et_local :: "ext_sbi \<Rightarrow> extent_tree \<Rightarrow> bool" where
  "et_local sb et \<longleftrightarrow>
     disjoint_sorted (et_root et) \<and> distinct (map en_id (et_root et)) \<and> node_cnt et = length (et_root et) \<and>
     (\<forall>e \<in> set (et_root et). ei_ok e \<and> en_id e < ext_next_id sb) \<and> ei_ok (largest et) \<and>
     (\<forall>i. cached_en et = Some i \<longrightarrow> i \<in> ids et)"

definition trees_ok :: "ext_sbi \<Rightarrow> (nat \<Rightarrow> nat \<rightharpoonup> nat) \<Rightarrow> bool" where
  "trees_ok sb f \<longleftrightarrow>
     (let T = extent_tree_root sb
      in finite (dom T) \<and> (\<forall>k et. T k = Some et \<longrightarrow> et_ino et = k \<and> et_local sb et \<and> sound (f k) et) \<and>
         distinct (extent_list sb) \<and> set (extent_list sb) = nodes_of T \<and> total_ext_node sb = node_sum T \<and>
         total_ext_tree sb = card (dom T))"

lemma tree_ok_local:
  "tree_ok base L sb et \<longleftrightarrow> et_local sb et \<and> distinct (extent_list sb) \<and>
     set (extent_list sb) = L \<union> Pair (et_ino et) ` ids et \<and>
     (\<forall>x \<in> L. fst x \<noteq> et_ino et \<and> snd x < ext_next_id sb) \<and> total_ext_node sb = base + length (et_root et)"
  unfolding tree_ok_def et_local_def by blast

lemma nodes_of_upd: "nodes_of (T(k \<mapsto> et)) = nodes_of (T(k := None)) \<union> Pair k ` ids et"
  by (auto simp: nodes_of_def split: if_splits)

lemma nodes_of_restrict: "T k = Some et \<Longrightarrow> nodes_of T = nodes_of (T(k := None)) \<union> Pair k ` ids et"
  using nodes_of_upd[of T k et] by (simp add: fun_upd_idem)

lemma node_sum_upd:
  assumes "finite (dom T)"
  shows "node_sum (T(k \<mapsto> et)) = node_sum (T(k := None)) + length (et_root et)"
proof -
  define D where "D = dom T - {k}"
  have D: "dom (T(k \<mapsto> et)) = insert k D" "dom (T(k := None)) = D" "finite D" "k \<notin> D"
    using assms by (auto simp: D_def)
  have "node_sum (T(k \<mapsto> et)) = (\<Sum>j \<in> D. length (et_root (the ((T(k \<mapsto> et)) j)))) + length (et_root et)"
    unfolding node_sum_def D(1) by (subst sum.insert) (use D in simp_all)
  also have "(\<Sum>j \<in> D. length (et_root (the ((T(k \<mapsto> et)) j)))) = node_sum (T(k := None))"
    unfolding node_sum_def D(2) by (rule sum.cong) (use D in auto)
  finally show ?thesis .
qed

lemma node_sum_restrict:
  "finite (dom T) \<Longrightarrow> T k = Some et \<Longrightarrow> node_sum T = node_sum (T(k := None)) + length (et_root et)"
  using node_sum_upd[of T k et] by (simp add: fun_upd_idem)

lemma in_nodes_of: "(j, i) \<in> nodes_of T \<longleftrightarrow> (\<exists>et. T j = Some et \<and> i \<in> ids et)"
  by (auto simp: nodes_of_def)

text \<open>From all trees to one tree with the rest as its surroundings, and back.\<close>

lemma trees_okD:
  assumes "trees_ok sb f" "extent_tree_root sb k = Some et"
  shows "et_ino et = k" "sound (f k) et"
    "tree_ok (node_sum ((extent_tree_root sb)(k := None))) (nodes_of ((extent_tree_root sb)(k := None))) sb et"
proof -
  show "et_ino et = k" "sound (f k) et" using assms by (auto simp: trees_ok_def Let_def)
  have lt: "\<forall>x \<in> nodes_of ((extent_tree_root sb)(k := None)). fst x \<noteq> k \<and> snd x < ext_next_id sb"
    using assms unfolding trees_ok_def Let_def
    by (fastforce simp: in_nodes_of et_local_def ids_def split: if_splits)
  then show "tree_ok (node_sum ((extent_tree_root sb)(k := None))) (nodes_of ((extent_tree_root sb)(k := None))) sb et"
    using assms nodes_of_restrict[of "extent_tree_root sb" k et] node_sum_restrict[of "extent_tree_root sb" k et]
    by (simp add: tree_ok_local trees_ok_def Let_def)
qed

lemma others_local:
  assumes t: "trees_ok sb f" and j: "extent_tree_root sb j = Some ej" "j \<noteq> k"
    and lt: "\<forall>x \<in> nodes_of ((extent_tree_root sb)(k := None)). snd x < ext_next_id sb'"
  shows "et_local sb' ej"
proof -
  have "i < ext_next_id sb'" if "i \<in> ids ej" for i
    using lt[THEN bspec, of "(j, i)"] that j by (simp add: in_nodes_of)
  then show ?thesis using t j(1) by (fastforce simp: trees_ok_def Let_def et_local_def ids_def)
qed

lemma trees_okI:
  assumes t: "trees_ok sb f" and T: "extent_tree_root sb = T" and k: "T k = Some et"
    and ok: "tree_ok (node_sum (T(k := None))) (nodes_of (T(k := None))) sb' et'" "et_ino et' = k" "sound f' et'"
    and fr: "sb_frame sb' = sb_frame sb"
  shows "trees_ok (put_tree sb' et') (f(k := f'))"
proof -
  have T': "extent_tree_root sb' = T" "total_ext_tree sb' = total_ext_tree sb" using fr T by (simp_all add: sb_frame_def)
  have fin: "finite (dom T)" "total_ext_tree sb = card (dom T)" using t T by (auto simp: trees_ok_def Let_def)
  have loc: "et_local (put_tree sb' et') ej" if "T j = Some ej" "j \<noteq> k" for j ej
    using others_local[of sb f j ej k sb'] t T that ok(1) by (simp add: tree_ok_local et_local_def put_tree_def)
  have so: "et_ino ej = j \<and> sound (f j) ej" if "T j = Some ej" for j ej
    using t T that by (auto simp: trees_ok_def Let_def)
  have l': "et_local (put_tree sb' et') et'" using ok(1) by (simp add: tree_ok_local et_local_def put_tree_def)
  have each: "\<forall>j ej. (T(k \<mapsto> et')) j = Some ej \<longrightarrow> et_ino ej = j \<and> et_local (put_tree sb' et') ej \<and> sound ((f(k := f')) j) ej"
  proof (intro allI impI)
    fix j ej assume "(T(k \<mapsto> et')) j = Some ej"
    then consider "j = k" "ej = et'" | "j \<noteq> k" "T j = Some ej" by (metis fun_upd_apply option.inject)
    then show "et_ino ej = j \<and> et_local (put_tree sb' et') ej \<and> sound ((f(k := f')) j) ej"
    proof cases
      case 1
      then show ?thesis using ok(2,3) l' by simp
    next
      case 2
      then show ?thesis using loc[OF 2(2,1)] so[OF 2(2)] by (metis fun_upd_other)
    qed
  qed
  have p: "extent_tree_root (put_tree sb' et') = T(k \<mapsto> et')" "extent_list (put_tree sb' et') = extent_list sb'"
    "total_ext_node (put_tree sb' et') = total_ext_node sb'" "total_ext_tree (put_tree sb' et') = card (dom T)"
    using ok(2) T' fin(2) by (simp_all add: put_tree_def)
  have ls: "distinct (extent_list sb')" "set (extent_list sb') = nodes_of (T(k \<mapsto> et'))" "total_ext_node sb' = node_sum (T(k \<mapsto> et'))"
    using ok(1) unfolding tree_ok_local nodes_of_upd node_sum_upd[OF fin(1)] ok(2) by blast+
  have c: "card (dom (T(k \<mapsto> et'))) = card (dom T)" "finite (dom (T(k \<mapsto> et')))" using k fin by (simp_all add: insert_absorb domI)
  show ?thesis unfolding trees_ok_def Let_def p c(1) using each ls c(2) by blast
qed

lemma trees_ok_remove:
  assumes t: "trees_ok sb f" and T: "extent_tree_root sb = T" and k: "T k = Some et"
    and ok: "tree_ok (node_sum (T(k := None))) (nodes_of (T(k := None))) sb' et'" "et_root et' = []"
    and sb': "extent_tree_root sb'' = T(k := None)" "total_ext_tree sb'' = total_ext_tree sb - 1"
      "extent_list sb'' = extent_list sb'" "total_ext_node sb'' = total_ext_node sb'" "ext_next_id sb'' = ext_next_id sb'"
  shows "trees_ok sb'' (f(k := f'))"
proof -
  have fin: "finite (dom T)" "total_ext_tree sb = card (dom T)" using t T by (auto simp: trees_ok_def Let_def)
  have loc: "et_local sb'' ej" if "T j = Some ej" "j \<noteq> k" for j ej
    using others_local[of sb f j ej k sb''] t T that ok(1) sb'(5) by (simp add: tree_ok_local)
  have so: "et_ino ej = j \<and> sound (f j) ej" if "T j = Some ej" for j ej
    using t T that by (auto simp: trees_ok_def Let_def)
  have "dom (T(k := None)) = dom T - {k}" by auto
  then have "card (dom (T(k := None))) = card (dom T) - 1" using k by (simp add: domI)
  then show ?thesis
    using loc so ok fin sb' by (auto simp: trees_ok_def Let_def tree_ok_local ids_def split: if_splits)
qed

lemma trees_ok_add:
  assumes t: "trees_ok sb f" and k: "extent_tree_root sb k = None"
  shows "trees_ok ((put_tree sb (new_extent_tree k))\<lparr>total_ext_tree := total_ext_tree sb + 1\<rparr>) f"
proof -
  let ?T = "extent_tree_root sb"
  let ?n = "new_extent_tree k"
  have i: "ids ?n = {}" "et_ino ?n = k" by (simp_all add: ids_def new_extent_tree_def)
  have loc: "et_local sb ?n" "sound (f k) ?n"
    by (simp_all add: et_local_def new_extent_tree_def sound_def agrees_def covers_def ei_ok_def eend_def)
  have fin: "finite (dom ?T)" using t by (simp add: trees_ok_def Let_def)
  have T: "?T(k := None) = ?T" using k by (simp add: fun_upd_idem)
  show ?thesis
    using t loc fin k nodes_of_upd[of ?T k ?n] node_sum_upd[of ?T k ?n]
    unfolding trees_ok_def Let_def T i by (auto simp: put_tree_def i et_local_def new_extent_tree_def domIff)
qed

section \<open>The system\<close>

record ext_sys =
  x_sb :: ext_sbi
  x_inode :: "nat \<rightharpoonup> ext_inode"
  x_map :: "nat \<Rightarrow> nat \<rightharpoonup> nat"

datatype ext_event =
    Xe_init ext_inode "extent_info option"
  | Xe_update nat nat nat nat
  | Xe_lookup nat nat
  | Xe_drop nat
  | Xe_destroy_node nat
  | Xe_evict nat nat bool
  | Xe_shrink bool bool "nat \<Rightarrow> bool" nat

definition on_inode :: "nat \<Rightarrow> (ext_inode \<Rightarrow> ext_sys) \<Rightarrow> ext_sys \<Rightarrow> ext_sys" where
  "on_inode ino g s = (case x_inode s ino of None \<Rightarrow> s | Some i \<Rightarrow> g i)"

text \<open>
  An eviction reads the link count and \<open>is_bad_inode\<close> of that moment; a file without links loses
  its mapping. An update is the change of the mapping together with the call to the cache.
\<close>

fun ext_step :: "ext_event \<Rightarrow> ext_sys \<Rightarrow> ext_sys" where
  "ext_step (Xe_init i i_ext) s =
     (let (_, sb, i) = f2fs_init_extent_tree (x_sb s) i i_ext
      in s\<lparr>x_sb := sb, x_inode := (x_inode s)(i_ino i \<mapsto> i)\<rparr>)"
| "ext_step (Xe_update ino fo blk len) s =
     on_inode ino (\<lambda>i. let (sb, i) = f2fs_update_extent_cache_range (x_sb s) i fo blk len
       in s\<lparr>x_sb := sb, x_inode := (x_inode s)(ino \<mapsto> i), x_map := (x_map s)(ino := upd_map (x_map s ino) fo blk len)\<rparr>) s"
| "ext_step (Xe_lookup ino p) s =
     on_inode ino (\<lambda>i. s\<lparr>x_sb := snd (f2fs_lookup_extent_cache (x_sb s) i p)\<rparr>) s"
| "ext_step (Xe_drop ino) s =
     on_inode ino (\<lambda>i. case f2fs_drop_extent_tree (x_sb s) i of
         None \<Rightarrow> s | Some (sb, i) \<Rightarrow> s\<lparr>x_sb := sb, x_inode := (x_inode s)(ino \<mapsto> i)\<rparr>) s"
| "ext_step (Xe_destroy_node ino) s =
     on_inode ino (\<lambda>i. s\<lparr>x_sb := snd (f2fs_destroy_extent_node (x_sb s) i)\<rparr>) s"
| "ext_step (Xe_evict ino nlink bad) s =
     on_inode ino (\<lambda>i. let (sb, _) = f2fs_destroy_extent_tree (x_sb s) (i\<lparr>i_nlink := nlink, i_is_bad := bad\<rparr>)
       in s\<lparr>x_sb := sb, x_inode := (x_inode s)(ino := None),
            x_map := (x_map s)(ino := if nlink = 0 then Map.empty else x_map s ino)\<rparr>) s"
| "ext_step (Xe_shrink l1 l2 locked nr) s =
     s\<lparr>x_sb := snd (f2fs_shrink_extent_tree l1 l2 locked (x_sb s) nr)\<rparr>"

text \<open>
  An inode is read once, with an extent that agrees with its file, and an inode that had a
  tree before its eviction may have one again; updates stay within the 32-bit offsets.
\<close>

definition ext_fits :: "(nat \<rightharpoonup> nat) \<Rightarrow> extent_info option \<Rightarrow> bool" where
  "ext_fits f i_ext \<longleftrightarrow>
     (case i_ext of None \<Rightarrow> True
      | Some e \<Rightarrow> elen e \<noteq> 0 \<longrightarrow> eend e < 2 ^ 32 \<and> ei_blk e + elen e < 2 ^ 32 \<and> agrees e f)"

fun ext_enabled :: "ext_event \<Rightarrow> ext_sys \<Rightarrow> bool" where
  "ext_enabled (Xe_init i i_ext) s \<longleftrightarrow>
     x_inode s (i_ino i) = None \<and> \<not> i_has_tree i \<and> ext_fits (x_map s (i_ino i)) i_ext \<and>
     (extent_tree_root (x_sb s) (i_ino i) \<noteq> None \<longrightarrow> f2fs_may_extent_tree (x_sb s) i)"
| "ext_enabled (Xe_update ino fo blk len) s \<longleftrightarrow> 0 < len \<and> fo + len < 2 ^ 32 \<and> blk + len < 2 ^ 32"
| "ext_enabled (Xe_lookup ino p) s \<longleftrightarrow> p < 2 ^ 32"
| "ext_enabled _ s \<longleftrightarrow> True"

section \<open>The invariant\<close>

definition may_later :: "ext_sbi \<Rightarrow> ext_inode \<Rightarrow> bool" where
  "may_later sb i \<longleftrightarrow> f2fs_may_extent_tree sb (i\<lparr>fi_no_extent := False\<rparr>)"

text \<open>An inode in memory: it has a tree unless it has given up caching, and then nothing is cached.\<close>

definition inode_ok :: "ext_sbi \<Rightarrow> nat \<Rightarrow> ext_inode \<Rightarrow> bool" where
  "inode_ok sb ino i \<longleftrightarrow>
     i_ino i = ino \<and>
     (if i_has_tree i
      then may_later sb i \<and> ino \<notin> set (zombie_list sb) \<and>
           (\<exists>et. extent_tree_root sb ino = Some et \<and> (fi_no_extent i \<longrightarrow> et_root et = [] \<and> elen (largest et) = 0))
      else fi_no_extent i \<and> extent_tree_root sb ino = None)"

definition zombies_ok :: "ext_sbi \<Rightarrow> bool" where
  "zombies_ok sb \<longleftrightarrow>
     distinct (zombie_list sb) \<and> total_zombie_tree sb = length (zombie_list sb) \<and>
     set (zombie_list sb) \<subseteq> dom (extent_tree_root sb)"

definition ext_inv :: "ext_sys \<Rightarrow> bool" where
  "ext_inv s \<longleftrightarrow>
     trees_ok (x_sb s) (x_map s) \<and> zombies_ok (x_sb s) \<and>
     (\<forall>ino. case x_inode s ino of
        Some i \<Rightarrow> inode_ok (x_sb s) ino i
      | None \<Rightarrow> extent_tree_root (x_sb s) ino \<noteq> None \<longrightarrow> ino \<in> set (zombie_list (x_sb s)))"

text \<open>What an operation on the tree of one inode leaves of the rest.\<close>

definition sb_flags :: "ext_sbi \<Rightarrow> _" where
  "sb_flags sb = (opt_extent_cache sb, sb_has_readonly sb, s_list_empty sb)"

definition others :: "nat \<Rightarrow> ext_sbi \<Rightarrow> ext_sbi \<Rightarrow> bool" where
  "others ino sb sb' \<longleftrightarrow>
     sb_flags sb' = sb_flags sb \<and>
     (\<forall>j. j \<noteq> ino \<longrightarrow> extent_tree_root sb' j = extent_tree_root sb j \<and> (j \<in> set (zombie_list sb') \<longleftrightarrow> j \<in> set (zombie_list sb)))"

lemma may_later_cong: "sb_flags sb' = sb_flags sb \<Longrightarrow> may_later sb' i = may_later sb i"
  by (simp add: sb_flags_def may_later_def f2fs_may_extent_tree_def)

lemma others_inode_ok: "others ino sb sb' \<Longrightarrow> j \<noteq> ino \<Longrightarrow> inode_ok sb' j i = inode_ok sb j i"
  using may_later_cong[of sb' sb i] by (auto simp: others_def inode_ok_def)

text \<open>A step on one inode: the invariant of the rest is kept when \<open>others\<close> holds.\<close>

lemma ext_invI:
  assumes i: "ext_inv s" and t: "trees_ok sb' (x_map s')" "zombies_ok sb'" and o: "others ino (x_sb s) sb'"
    and s': "x_sb s' = sb'" "x_inode s' = (x_inode s)(ino := ii)"
    and own: "case ii of Some i \<Rightarrow> inode_ok sb' ino i | None \<Rightarrow> extent_tree_root sb' ino \<noteq> None \<longrightarrow> ino \<in> set (zombie_list sb')"
  shows "ext_inv s'"
proof -
  have "case x_inode s' j of Some i \<Rightarrow> inode_ok sb' j i
      | None \<Rightarrow> extent_tree_root sb' j \<noteq> None \<longrightarrow> j \<in> set (zombie_list sb')" for j
  proof (cases "j = ino")
    case False
    moreover have "case x_inode s j of Some i \<Rightarrow> inode_ok (x_sb s) j i
      | None \<Rightarrow> extent_tree_root (x_sb s) j \<noteq> None \<longrightarrow> j \<in> set (zombie_list (x_sb s))" using i by (simp add: ext_inv_def)
    ultimately show ?thesis using others_inode_ok[OF o False] o s' by (auto simp: others_def split: option.splits)
  qed (use own s' in auto)
  then show ?thesis using t unfolding ext_inv_def s'(1) by blast
qed

lemma others_refl [simp]: "others ino sb sb" by (simp add: others_def)

lemma put_tree_simps [simp]:
  "extent_tree_root (put_tree sb et) = (extent_tree_root sb)(et_ino et \<mapsto> et)" "zombie_list (put_tree sb et) = zombie_list sb"
  "total_zombie_tree (put_tree sb et) = total_zombie_tree sb" "sb_flags (put_tree sb et) = sb_flags sb"
  by (simp_all add: put_tree_def sb_flags_def)

lemma frameD:
  assumes "sb_frame sb' = sb_frame sb"
  shows "extent_tree_root sb' = extent_tree_root sb" "zombie_list sb' = zombie_list sb" "total_ext_tree sb' = total_ext_tree sb"
    "total_zombie_tree sb' = total_zombie_tree sb" "sb_flags sb' = sb_flags sb"
  using assms by (simp_all add: sb_frame_def sb_flags_def)

lemma put_tree_ok:
  assumes inv: "trees_ok sb f" "zombies_ok sb" and T: "extent_tree_root sb ino = Some et"
    and ok: "tree_ok (node_sum ((extent_tree_root sb)(ino := None))) (nodes_of ((extent_tree_root sb)(ino := None))) sb' et'"
      "et_ino et' = ino" "sound f' et'"
    and fr: "sb_frame sb' = sb_frame sb"
  shows "trees_ok (put_tree sb' et') (f(ino := f'))" "zombies_ok (put_tree sb' et')" "others ino sb (put_tree sb' et')"
proof -
  show "trees_ok (put_tree sb' et') (f(ino := f'))" by (rule trees_okI[OF inv(1) refl T ok fr])
  show "zombies_ok (put_tree sb' et')" "others ino sb (put_tree sb' et')"
    using inv(2) ok(2) frameD[OF fr] by (auto simp: zombies_ok_def others_def)
qed

lemma free_keeps:
  assumes "free_extent_tree sb et = (n, sb', et')"
  shows "sb_frame sb' = sb_frame sb"
proof -
  have "sb_frame (fst (fold (\<lambda>i (sb, et). release_extent_node sb et i) is (sb, et))) = sb_frame sb" for "is"
  proof (induction "is" arbitrary: sb et)
    case (Cons i "is")
    show ?case using Cons[of "fst (release_extent_node sb et i)" "snd (release_extent_node sb et i)"] by simp
  qed simp
  then show ?thesis using assms by (auto simp: free_extent_tree_def Let_def) (metis fst_conv)
qed

lemma ext_inv_own:
  "ext_inv s \<Longrightarrow> case x_inode s ino of Some i \<Rightarrow> inode_ok (x_sb s) ino i
      | None \<Rightarrow> extent_tree_root (x_sb s) ino \<noteq> None \<longrightarrow> ino \<in> set (zombie_list (x_sb s))"
  by (simp add: ext_inv_def)

lemma inode_tree:
  assumes "ext_inv s" "x_inode s ino = Some i" "i_has_tree i"
  obtains et where "extent_tree_root (x_sb s) ino = Some et" "i_ino i = ino" "may_later (x_sb s) i" "ino \<notin> set (zombie_list (x_sb s))"
    "fi_no_extent i \<longrightarrow> et_root et = [] \<and> elen (largest et) = 0"
proof -
  show thesis using that assms(2,3) ext_inv_own[OF assms(1), of ino] by (auto simp: inode_ok_def)
qed

lemma inode_no_tree:
  assumes "ext_inv s" "x_inode s ino = Some i" "\<not> i_has_tree i"
  shows "fi_no_extent i" "extent_tree_root (x_sb s) ino = None" "i_ino i = ino"
proof -
  show "fi_no_extent i" "extent_tree_root (x_sb s) ino = None" "i_ino i = ino" using assms(2,3) ext_inv_own[OF assms(1), of ino] by (auto simp: inode_ok_def)
qed

lemma may_tree: "f2fs_may_extent_tree sb i \<longleftrightarrow> \<not> fi_no_extent i \<and> may_later sb i"
  by (auto simp: f2fs_may_extent_tree_def may_later_def)

section \<open>Every event keeps the invariant\<close>

lemma lookup_tree_ok:
  assumes t: "tree_ok base L sb et" and so: "sound f et" and p: "p < 2 ^ 32"
    and res: "f2fs_lookup_extent_tree sb et p = (r, sb', et')"
  shows "tree_ok base L sb' et'" "et_root et' = et_root et" "largest et' = largest et" "et_ino et' = et_ino et"
    "sb_frame sb' = sb_frame sb"
    "case r of Some e \<Rightarrow> covers p e \<and> agrees e f | None \<Rightarrow> \<forall>e \<in> set (et_root et). \<not> covers p e"
proof -
  let ?lg = "ofs (largest et) \<le> p \<and> u32 (ofs (largest et) + elen (largest et)) > p"
  have u: "u32 p = p" "u32 (ofs (largest et) + elen (largest et)) = eend (largest et)"
    using p t by (simp_all add: u32_id tree_ok_def ei_ok_def eend_def)
  have all: "tree_ok base L sb' et' \<and> et_root et' = et_root et \<and> largest et' = largest et \<and> et_ino et' = et_ino et \<and>
    sb_frame sb' = sb_frame sb \<and>
    (case r of Some e \<Rightarrow> covers p e \<and> agrees e f | None \<Rightarrow> \<forall>e \<in> set (et_root et). \<not> covers p e)"
  proof (cases "?lg \<or> lookup_en et p = None")
    case True
    have "find (covers p) (et_root et) = None" if "lookup_en et p = None" using that lookup_en_find[OF t] by simp
    then show ?thesis using True res t so u
      by (auto simp: f2fs_lookup_extent_tree_def sound_def covers_def eend_def find_None_iff split: if_splits)
  next
    case False
    then obtain e where e: "lookup_en et p = Some e" by auto
    have c: "covers p e" "e \<in> set (et_root et)" using e lookup_en_find[OF t, of p] by (auto simp: find_Some_iff)
    have "en_id e \<in> ids et" using c(2) by (simp add: ids_def)
    then have "tree_ok base L sb' et' \<and> et_root et' = et_root et \<and> largest et' = largest et \<and> et_ino et' = et_ino et"
      and r: "r = Some (ei_of e)" and to: "touch_en sb et (en_id e) = (sb', et')"
      using False res e u touch_ok[OF t, of "en_id e" sb' et'] by (auto simp: f2fs_lookup_extent_tree_def)
    moreover have "sb_frame sb' = sb_frame sb" using touch_keeps[of sb et "en_id e"] unfolding to by simp
    moreover have "covers p (ei_of e) \<and> agrees (ei_of e) f" using c so by (simp add: sound_def covers_def)
    ultimately show ?thesis by simp
  qed
  then show "tree_ok base L sb' et'" "et_root et' = et_root et" "largest et' = largest et" "et_ino et' = et_ino et"
    "sb_frame sb' = sb_frame sb"
    "case r of Some e \<Rightarrow> covers p e \<and> agrees e f | None \<Rightarrow> \<forall>e \<in> set (et_root et). \<not> covers p e" by blast+
qed

lemma free_tree_ok:
  assumes "tree_ok base L sb et" "sound f et" "free_extent_tree sb et = (n, sb', et')"
  shows "sound g (et'\<lparr>largest := (largest et')\<lparr>elen := 0\<rparr>\<rparr>)" "tree_ok base L sb' (et'\<lparr>largest := (largest et')\<lparr>elen := 0\<rparr>\<rparr>)"
    "sound f et'"
  using free_ok[OF assms(1,3)] assms(2)
  by (auto simp: sound_def agrees_def covers_def eend_def tree_ok_def ei_ok_def ids_def)

text \<open>A step of an inode with a tree.\<close>

lemma tree_step:
  assumes inv: "ext_inv s" and i: "x_inode s ino = Some i" "i_has_tree i" and et: "extent_tree_root (x_sb s) ino = Some et"
    and ok: "tree_ok (node_sum ((extent_tree_root (x_sb s))(ino := None))) (nodes_of ((extent_tree_root (x_sb s))(ino := None))) sb' et'"
      "et_ino et' = ino" "sound f' et'" "sb_frame sb' = sb_frame (x_sb s)"
    and i': "i_ino i' = i_ino i" "i_has_tree i'" "may_later (x_sb s) i' = may_later (x_sb s) i"
      "fi_no_extent i' \<Longrightarrow> et_root et' = [] \<and> elen (largest et') = 0"
    and s': "x_sb s' = put_tree sb' et'" "x_inode s' = (x_inode s)(ino \<mapsto> i')" "x_map s' = (x_map s)(ino := f')"
  shows "ext_inv s'"
proof -
  have tz: "trees_ok (x_sb s) (x_map s)" "zombies_ok (x_sb s)" using inv by (simp_all add: ext_inv_def)
  note q = put_tree_ok[OF tz et ok]
  obtain et0 where x: "i_ino i = ino" "may_later (x_sb s) i" "ino \<notin> set (zombie_list (x_sb s))"
    by (rule inode_tree[OF inv i])
  have "inode_ok (put_tree sb' et') ino i'"
    using i' x frameD[OF ok(4)] may_later_cong[of "put_tree sb' et'" "x_sb s" i'] ok(2) by (auto simp: inode_ok_def)
  then show ?thesis using ext_invI[OF inv _ q(2,3) s'(1,2)] q(1) s'(3) by simp
qed

lemma tree_facts:
  assumes inv: "ext_inv s" and i: "x_inode s ino = Some i" "i_has_tree i"
  obtains et where "extent_tree_root (x_sb s) ino = Some et" "i_ino i = ino" "et_ino et = ino" "sound (x_map s ino) et"
    "tree_ok (node_sum ((extent_tree_root (x_sb s))(ino := None))) (nodes_of ((extent_tree_root (x_sb s))(ino := None))) (x_sb s) et"
    "fi_no_extent i \<longrightarrow> et_root et = [] \<and> elen (largest et) = 0"
proof -
  obtain et where et: "extent_tree_root (x_sb s) ino = Some et" "i_ino i = ino"
    "fi_no_extent i \<longrightarrow> et_root et = [] \<and> elen (largest et) = 0" by (rule inode_tree[OF inv i])
  have "trees_ok (x_sb s) (x_map s)" using inv by (simp add: ext_inv_def)
  from that[OF et(1,2) trees_okD[OF this et(1)] et(3)] show thesis .
qed

lemma step_lookup:
  assumes inv: "ext_inv s" and en: "ext_enabled (Xe_lookup ino p) s"
  shows "ext_inv (ext_step (Xe_lookup ino p) s)"
proof (cases "\<exists>i. x_inode s ino = Some i \<and> f2fs_may_extent_tree (x_sb s) i \<and> i_has_tree i")
  case True
  then obtain i where i: "x_inode s ino = Some i" "f2fs_may_extent_tree (x_sb s) i" "i_has_tree i" by blast
  obtain et where et: "extent_tree_root (x_sb s) ino = Some et" "i_ino i = ino" "et_ino et = ino" "sound (x_map s ino) et"
    "tree_ok (node_sum ((extent_tree_root (x_sb s))(ino := None))) (nodes_of ((extent_tree_root (x_sb s))(ino := None))) (x_sb s) et"
    by (rule tree_facts[OF inv i(1,3)])
  obtain r sb' et' where l: "f2fs_lookup_extent_tree (x_sb s) et p = (r, sb', et')" by (metis prod_cases3)
  have p: "p < 2 ^ 32" using en by simp
  note k = lookup_tree_ok[OF et(5,4) p l]
  have so: "sound (x_map s ino) et'" "et_ino et' = ino" using et(3,4) k(2-4) by (simp_all add: sound_def)
  have nx: "\<not> fi_no_extent i" using i(2) by (simp add: may_tree)
  have "ext_step (Xe_lookup ino p) s = s\<lparr>x_sb := put_tree sb' et'\<rparr>"
    using i et l by (simp add: on_inode_def f2fs_lookup_extent_cache_def)
  then show ?thesis using i nx
    by (intro tree_step[OF inv i(1,3) et(1) k(1) so(2,1) k(5), of i]) (simp_all add: fun_upd_idem)
next
  case False
  then have "ext_step (Xe_lookup ino p) s = s"
    by (auto simp: on_inode_def f2fs_lookup_extent_cache_def split: option.splits)
  with inv show ?thesis by simp
qed

lemma step_drop:
  assumes inv: "ext_inv s"
  shows "ext_inv (ext_step (Xe_drop ino) s)"
    "x_inode s ino = Some i \<Longrightarrow> f2fs_drop_extent_tree (x_sb s) i \<noteq> None"
proof -
  have "ext_inv (ext_step (Xe_drop ino) s) \<and> (\<forall>i. x_inode s ino = Some i \<longrightarrow> f2fs_drop_extent_tree (x_sb s) i \<noteq> None)"
  proof (cases "\<exists>i. x_inode s ino = Some i \<and> f2fs_may_extent_tree (x_sb s) i")
    case True
    then obtain i where i: "x_inode s ino = Some i" "f2fs_may_extent_tree (x_sb s) i" by blast
    then have ht: "i_has_tree i" using inode_no_tree(1)[OF inv i(1)] by (auto simp: may_tree)
    obtain et where et: "extent_tree_root (x_sb s) ino = Some et" "i_ino i = ino" "et_ino et = ino" "sound (x_map s ino) et"
      "tree_ok (node_sum ((extent_tree_root (x_sb s))(ino := None))) (nodes_of ((extent_tree_root (x_sb s))(ino := None))) (x_sb s) et"
      by (rule tree_facts[OF inv i(1) ht])
    obtain n sb' et' where f: "free_extent_tree (x_sb s) et = (n, sb', et')" by (metis prod_cases3)
    let ?et = "et'\<lparr>largest := (largest et')\<lparr>elen := 0\<rparr>\<rparr>"
    let ?i = "i\<lparr>fi_no_extent := True, i_dirty := (i_dirty i \<or> elen (largest et') \<noteq> 0)\<rparr>"
    have d: "f2fs_drop_extent_tree (x_sb s) i = Some (put_tree sb' ?et, ?i)"
      using i ht et f by (simp add: f2fs_drop_extent_tree_def)
    have e: "et_ino ?et = ino" "et_root ?et = []" using free_ok[OF et(5) f] et(3) by simp_all
    have "ext_step (Xe_drop ino) s = s\<lparr>x_sb := put_tree sb' ?et, x_inode := (x_inode s)(ino \<mapsto> ?i)\<rparr>"
      using i d by (simp add: on_inode_def)
    then have "ext_inv (ext_step (Xe_drop ino) s)" using ht e(2)
      by (intro tree_step[OF inv i(1) ht et(1) free_tree_ok(2)[OF et(5,4) f] e(1) free_tree_ok(1)[OF et(5,4) f, of "x_map s ino"] free_keeps[OF f], of ?i])
        (simp_all add: may_later_def f2fs_may_extent_tree_def fun_upd_idem)
    with d i(1) show ?thesis by simp
  next
    case False
    then have "ext_step (Xe_drop ino) s = s \<and> (\<forall>i. x_inode s ino = Some i \<longrightarrow> f2fs_drop_extent_tree (x_sb s) i \<noteq> None)"
      by (auto simp: on_inode_def f2fs_drop_extent_tree_def fun_upd_idem split: option.splits)
    with inv show ?thesis by simp
  qed
  then show "ext_inv (ext_step (Xe_drop ino) s)"
    "x_inode s ino = Some i \<Longrightarrow> f2fs_drop_extent_tree (x_sb s) i \<noteq> None" by blast+
qed

lemma sound_empty: "et_root et = [] \<Longrightarrow> elen (largest et) = 0 \<Longrightarrow> sound f et"
  by (auto simp: sound_def agrees_def covers_def eend_def)

lemma largest_updated_frame [simp]:
  "tree_ok base L sb (et\<lparr>largest_updated := u\<rparr>) = tree_ok base L sb et" "sound f (et\<lparr>largest_updated := u\<rparr>) = sound f et"
  "cached_range a b (et\<lparr>largest_updated := u\<rparr>) = cached_range a b et"
  by (simp_all add: tree_ok_def sound_def ids_def cached_range_def)

lemma trees_ok_map:
  assumes "trees_ok sb f" "\<And>et. extent_tree_root sb k = Some et \<Longrightarrow> sound f' et"
  shows "trees_ok sb (f(k := f'))"
  using assms by (auto simp: trees_ok_def Let_def)

text \<open>The update of a tree, with the release of all nodes when caching is given up.\<close>

lemma update_range_ok:
  assumes t: "tree_ok base L sb et" and so: "sound f et" and len: "0 < len" "fo + len < 2 ^ 32" "blk + len < 2 ^ 32"
    and i: "i_has_tree i" "\<not> fi_no_extent i" "extent_tree_root sb (i_ino i) = Some et"
  shows "\<exists>g d sb' et'. f2fs_update_extent_tree_range sb i fo blk len = (put_tree sb' et', i\<lparr>fi_no_extent := g, i_dirty := d\<rparr>) \<and>
    tree_ok base L sb' et' \<and> sound (upd_map f fo blk len) et' \<and> et_ino et' = et_ino et \<and> sb_frame sb' = sb_frame sb \<and>
    (g \<longrightarrow> et_root et' = [] \<and> elen (largest et') = 0) \<and>
    (\<not> g \<longrightarrow> blk \<noteq> 0 \<longrightarrow> (\<forall>j. ext_alloc sb j) \<longrightarrow> cached_range fo (fo + len) et')"
proof -
  obtain g sb1 et1 where u: "update_extent_tree sb et fo blk len = Some (g, sb1, et1)" "tree_ok base L sb1 et1"
    "sound (upd_map f fo blk len) et1" "et_ino et1 = et_ino et" "sb_frame sb1 = sb_frame sb" "g \<longrightarrow> elen (largest et1) = 0"
    "blk \<noteq> 0 \<longrightarrow> (\<forall>i. ext_alloc sb i) \<longrightarrow> cached_range fo (fo + len) et1"
    using update_extent_tree_total[OF t so len] by blast
  obtain n sb2 et2 where f: "free_extent_tree sb1 et1 = (n, sb2, et2)" by (metis prod_cases3)
  note fk = free_ok[OF u(2) f] free_keeps[OF f]
  define sb3 where "sb3 = (if g then sb2 else sb1)"
  define et3 where "et3 = (if g then et2 else et1)"
  have e: "f2fs_update_extent_tree_range sb i fo blk len =
      (put_tree sb3 (et3\<lparr>largest_updated := False\<rparr>), i\<lparr>fi_no_extent := g, i_dirty := (i_dirty i \<or> largest_updated et3)\<rparr>)"
    using i u(1) f by (simp add: f2fs_update_extent_tree_range_def sb3_def et3_def)
  have "tree_ok base L sb3 et3" "et_ino et3 = et_ino et" "sb_frame sb3 = sb_frame sb"
    and g: "g \<Longrightarrow> et_root et3 = [] \<and> elen (largest et3) = 0"
    using u(2-6) fk by (simp_all add: sb3_def et3_def)
  moreover have "sound (upd_map f fo blk len) et3" "\<not> g \<Longrightarrow> et3 = et1"
    using g sound_empty[of et3] u(3) by (cases g) (simp_all add: et3_def)
  ultimately show ?thesis
    unfolding e using u(7) g by (intro exI[of _ g] exI[of _ "i_dirty i \<or> largest_updated et3"] exI[of _ sb3]
      exI[of _ "et3\<lparr>largest_updated := False\<rparr>"]) simp
qed

lemma step_update:
  assumes inv: "ext_inv s" and en: "ext_enabled (Xe_update ino fo blk len) s"
  shows "ext_inv (ext_step (Xe_update ino fo blk len) s)"
proof (cases "x_inode s ino")
  case None
  with inv show ?thesis by (simp add: on_inode_def)
next
  case (Some i)
  let ?f = "upd_map (x_map s ino) fo blk len"
  have len: "0 < len" "fo + len < 2 ^ 32" "blk + len < 2 ^ 32" using en by simp_all
  show ?thesis
  proof (cases "i_has_tree i \<and> \<not> fi_no_extent i")
    case True
    then have h: "i_has_tree i" "\<not> fi_no_extent i" by simp_all
    obtain et where et: "extent_tree_root (x_sb s) ino = Some et" "i_ino i = ino" "et_ino et = ino" "sound (x_map s ino) et"
      "tree_ok (node_sum ((extent_tree_root (x_sb s))(ino := None))) (nodes_of ((extent_tree_root (x_sb s))(ino := None))) (x_sb s) et"
      by (rule tree_facts[OF inv Some h(1)])
    have may: "f2fs_may_extent_tree (x_sb s) i" using inode_tree[OF inv Some h(1)] h(2) by (metis may_tree)
    obtain g d sb' et' where u:
      "f2fs_update_extent_tree_range (x_sb s) i fo blk len = (put_tree sb' et', i\<lparr>fi_no_extent := g, i_dirty := d\<rparr>)"
      "tree_ok (node_sum ((extent_tree_root (x_sb s))(ino := None))) (nodes_of ((extent_tree_root (x_sb s))(ino := None))) sb' et'"
      "sound ?f et'" "et_ino et' = ino" "sb_frame sb' = sb_frame (x_sb s)" "g \<longrightarrow> et_root et' = [] \<and> elen (largest et') = 0"
      using update_range_ok[OF et(5,4) len h, unfolded et(2,3), OF et(1)] by blast
    show ?thesis using h may Some u(1,6)
      by (intro tree_step[OF inv Some h(1) et(1) u(2,4,3,5), of "i\<lparr>fi_no_extent := g, i_dirty := d\<rparr>"])
        (auto simp: on_inode_def f2fs_update_extent_cache_range_def may_later_def f2fs_may_extent_tree_def)
  next
    case False
    have nx: "fi_no_extent i" using False inode_no_tree(1)[OF inv Some] by blast
    have tz: "trees_ok (x_sb s) (x_map s)" "zombies_ok (x_sb s)" using inv by (simp_all add: ext_inv_def)
    have own: "inode_ok (x_sb s) ino i" using inv Some by (auto simp: ext_inv_def dest: spec[of _ ino])
    have "sound ?f et" if "extent_tree_root (x_sb s) ino = Some et" for et
      using own that nx sound_empty[of et] by (auto simp: inode_ok_def split: if_splits)
    then have t: "trees_ok (x_sb s) ((x_map s)(ino := ?f))" using trees_ok_map[OF tz(1)] by blast
    have st: "ext_step (Xe_update ino fo blk len) s = s\<lparr>x_map := (x_map s)(ino := ?f)\<rparr>"
      using Some nx by (simp add: on_inode_def f2fs_update_extent_cache_range_def may_tree fun_upd_idem)
    show ?thesis unfolding st
      by (rule ext_invI[OF inv _ tz(2) others_refl, of _ ino "Some i"]) (use t Some own in \<open>simp_all add: fun_upd_idem\<close>)
  qed
qed

lemma step_destroy_node:
  assumes inv: "ext_inv s"
  shows "ext_inv (ext_step (Xe_destroy_node ino) s)"
proof (cases "\<exists>i. x_inode s ino = Some i \<and> i_has_tree i")
  case True
  then obtain i where i: "x_inode s ino = Some i" "i_has_tree i" by blast
  obtain et where et: "extent_tree_root (x_sb s) ino = Some et" "i_ino i = ino" "et_ino et = ino" "sound (x_map s ino) et"
    "tree_ok (node_sum ((extent_tree_root (x_sb s))(ino := None))) (nodes_of ((extent_tree_root (x_sb s))(ino := None))) (x_sb s) et"
    "fi_no_extent i \<longrightarrow> et_root et = [] \<and> elen (largest et) = 0"
    by (rule tree_facts[OF inv i])
  obtain n sb' et' where f: "free_extent_tree (x_sb s) et = (n, sb', et')" by (metis prod_cases3)
  note fk = free_ok[OF et(5) f]
  show ?thesis
  proof (cases "node_cnt et = 0")
    case True
    then have "ext_step (Xe_destroy_node ino) s = s" using i et by (simp add: on_inode_def f2fs_destroy_extent_node_def)
    with inv show ?thesis by simp
  next
    case False
    have "ext_step (Xe_destroy_node ino) s = s\<lparr>x_sb := put_tree sb' et'\<rparr>"
      using i et f False by (simp add: on_inode_def f2fs_destroy_extent_node_def)
    then show ?thesis using i fk et(3,6)
      by (intro tree_step[OF inv i et(1) fk(1) _ free_tree_ok(3)[OF et(5,4) f] free_keeps[OF f], of i]) (simp_all add: fun_upd_idem)
  qed
next
  case False
  then have "ext_step (Xe_destroy_node ino) s = s"
    by (auto simp: on_inode_def f2fs_destroy_extent_node_def split: option.splits)
  with inv show ?thesis by simp
qed

text \<open>Reading an inode: its tree is created or taken back from the zombies, then the stored extent is added.\<close>

lemma length_filter_out: "distinct xs \<Longrightarrow> k \<in> set xs \<Longrightarrow> length (filter (\<lambda>x. x \<noteq> k) xs) = length xs - 1"
proof (induction xs)
  case (Cons x xs)
  have "filter (\<lambda>y. y \<noteq> x) xs = xs" using Cons.prems(1) by (intro filter_True) auto
  moreover have "xs \<noteq> []" if "k \<noteq> x" using that Cons.prems(2) by auto
  ultimately show ?case using Cons by (cases "k = x") (auto simp: Suc_diff_1)
qed simp

lemma grab_ok:
  assumes inv: "ext_inv s" and no: "x_inode s (i_ino i) = None" and may: "f2fs_may_extent_tree (x_sb s) i"
    and g: "grab_extent_tree (x_sb s) i = (sb', i')"
  shows "ext_inv (s\<lparr>x_sb := sb', x_inode := (x_inode s)(i_ino i \<mapsto> i')\<rparr>)" "i' = i\<lparr>i_has_tree := True\<rparr>"
proof -
  let ?k = "i_ino i"
  have tz: "trees_ok (x_sb s) (x_map s)" "zombies_ok (x_sb s)" using inv by (simp_all add: ext_inv_def)
  have zo: "extent_tree_root (x_sb s) ?k \<noteq> None \<longleftrightarrow> ?k \<in> set (zombie_list (x_sb s))"
    using inv no by (auto simp: ext_inv_def zombies_ok_def dest: spec[of _ ?k])
  show i': "i' = i\<lparr>i_has_tree := True\<rparr>" using g by (auto simp: grab_extent_tree_def)
  have nx: "\<not> fi_no_extent i" "may_later (x_sb s) i'" using may by (auto simp: i' may_later_def f2fs_may_extent_tree_def split: if_splits)
  have "trees_ok sb' (x_map s) \<and> zombies_ok sb' \<and> others ?k (x_sb s) sb' \<and> ?k \<notin> set (zombie_list sb') \<and>
    extent_tree_root sb' ?k \<noteq> None"
  proof (cases "extent_tree_root (x_sb s) ?k")
    case None
    then have e: "sb' = (put_tree (x_sb s) (new_extent_tree ?k))\<lparr>total_ext_tree := total_ext_tree (x_sb s) + 1\<rparr>"
      using g by (simp add: grab_extent_tree_def)
    have "?k \<notin> set (zombie_list (x_sb s))" using zo None by simp
    then show ?thesis using trees_ok_add[OF tz(1) None] tz(2)
      by (auto simp: e zombies_ok_def others_def put_tree_def new_extent_tree_def sb_flags_def)
  next
    case (Some et)
    then have e: "sb' = (x_sb s)\<lparr>total_zombie_tree := total_zombie_tree (x_sb s) - 1,
        zombie_list := filter (\<lambda>x. x \<noteq> ?k) (zombie_list (x_sb s))\<rparr>"
      using g by (simp add: grab_extent_tree_def)
    have "length (filter (\<lambda>x. x \<noteq> ?k) (zombie_list (x_sb s))) = length (zombie_list (x_sb s)) - 1"
      using zo Some tz(2) by (intro length_filter_out) (simp_all add: zombies_ok_def)
    then show ?thesis using tz Some by (auto simp: e zombies_ok_def others_def sb_flags_def trees_ok_def Let_def et_local_def)
  qed
  then have o: "trees_ok sb' (x_map s)" "zombies_ok sb'" "others ?k (x_sb s) sb'" "?k \<notin> set (zombie_list sb')"
    "extent_tree_root sb' ?k \<noteq> None" by blast+
  have "may_later sb' i'" using nx(2) may_later_cong[of sb' "x_sb s" i'] o(3) by (simp add: others_def)
  then have "inode_ok sb' ?k i'" using o(4,5) nx(1) by (auto simp: inode_ok_def i')
  then show "ext_inv (s\<lparr>x_sb := sb', x_inode := (x_inode s)(?k \<mapsto> i')\<rparr>)"
    by (intro ext_invI[OF inv _ o(2,3), of _ "Some i'"]) (use o(1) in simp_all)
qed

lemma init_tree_ok:
  assumes t: "tree_ok base L sb et" and e: "node_cnt et = 0" and ei: "ei_ok ei" "0 < elen ei" "agrees ei f" and so: "sound f et"
    and res: "init_extent_tree sb et ei = (new, sb', et')"
  shows "case new of None \<Rightarrow> tree_ok base L sb' et' \<and> sound f et'
    | Some en \<Rightarrow> tree_ok base L (sb'\<lparr>extent_list := extent_list sb' @ [(et_ino et', en_id en)]\<rparr>) et' \<and> sound f et'"
    "et_ino et' = et_ino et" "sb_frame sb' = sb_frame sb"
proof -
  have r: "et_root et = []" using t e by (simp add: tree_ok_def)
  have "(case new of None \<Rightarrow> tree_ok base L sb' et' \<and> sound f et'
    | Some en \<Rightarrow> tree_ok base L (sb'\<lparr>extent_list := extent_list sb' @ [(et_ino et', en_id en)]\<rparr>) et' \<and> sound f et') \<and>
    et_ino et' = et_ino et \<and> sb_frame sb' = sb_frame sb"
  proof (cases "ext_alloc sb (ext_next_id sb)")
    case False
    then have "new = None" "sb' = sb\<lparr>ext_next_id := ext_next_id sb + 1\<rparr>" "et' = et"
      using res by (simp_all add: init_extent_tree_def attach_extent_node_def Let_def)
    then show ?thesis using t r so by (auto simp: tree_ok_def less_Suc_eq sb_frame_def)
  next
    case True
    let ?en = "\<lparr>ofs = ofs ei, elen = elen ei, ei_blk = ei_blk ei, ei_c_len = ei_c_len ei, en_id = ext_next_id sb\<rparr>"
    have ee: "ei_of ?en = ei" by (simp add: ei_of_def)
    note d = ei_of_eqD[OF ee]
    have x: "new = Some ?en" "et' = et\<lparr>et_root := [?en], node_cnt := 1, largest := ei, cached_en := Some (ext_next_id sb)\<rparr>"
      "sb' = sb\<lparr>ext_next_id := ext_next_id sb + 1, total_ext_node := total_ext_node sb + 1\<rparr>"
      using res True e by (auto simp: init_extent_tree_def attach_extent_node_def Let_def r en_insert_def ee)
    have "sound f et'" using d(5)[of f] ei(3) by (simp add: x sound_def)
    moreover have "tree_ok base L (sb'\<lparr>extent_list := extent_list sb' @ [(et_ino et', en_id ?en)]\<rparr>) et'"
      using t ei d(4) r by (auto simp: tree_ok_def x ids_def disjoint_sorted_simps less_Suc_eq)
    ultimately show ?thesis by (simp add: x sb_frame_def)
  qed
  then show "case new of None \<Rightarrow> tree_ok base L sb' et' \<and> sound f et'
    | Some en \<Rightarrow> tree_ok base L (sb'\<lparr>extent_list := extent_list sb' @ [(et_ino et', en_id en)]\<rparr>) et' \<and> sound f et'"
    "et_ino et' = et_ino et" "sb_frame sb' = sb_frame sb" by blast+
qed

lemma step_init:
  assumes inv: "ext_inv s" and en: "ext_enabled (Xe_init i i_ext) s"
  shows "ext_inv (ext_step (Xe_init i i_ext) s)"
proof -
  let ?k = "i_ino i"
  have g: "x_inode s ?k = None" "\<not> i_has_tree i" "ext_fits (x_map s ?k) i_ext"
    "extent_tree_root (x_sb s) ?k \<noteq> None \<longrightarrow> f2fs_may_extent_tree (x_sb s) i" using en by simp_all
  show ?thesis
  proof (cases "f2fs_may_extent_tree (x_sb s) i")
    case False
    have tz: "trees_ok (x_sb s) (x_map s)" "zombies_ok (x_sb s)" using inv by (simp_all add: ext_inv_def)
    have st: "ext_step (Xe_init i i_ext) s = s\<lparr>x_inode := (x_inode s)(?k \<mapsto> i\<lparr>fi_no_extent := True\<rparr>)\<rparr>"
      using False g(2) by (simp add: f2fs_init_extent_tree_def init_extent_tree_inode_def)
    show ?thesis unfolding st
      by (rule ext_invI[OF inv _ tz(2) others_refl, of _ ?k "Some (i\<lparr>fi_no_extent := True\<rparr>)"])
        (use tz g False in \<open>simp_all add: inode_ok_def\<close>)
  next
    case True
    obtain sb1 i1 where gr: "grab_extent_tree (x_sb s) i = (sb1, i1)" by fastforce
    define s1 where "s1 = s\<lparr>x_sb := sb1, x_inode := (x_inode s)(?k \<mapsto> i1)\<rparr>"
    have i1: "i1 = i\<lparr>i_has_tree := True\<rparr>" and inv1: "ext_inv s1"
      using grab_ok[OF inv g(1) True gr] by (simp_all add: s1_def)
    have h1: "x_inode s1 ?k = Some i1" "i_has_tree i1" "x_map s1 = x_map s" "x_sb s1 = sb1" by (simp_all add: s1_def i1)
    obtain et where et: "extent_tree_root (x_sb s1) ?k = Some et" "i_ino i1 = ?k" "et_ino et = ?k" "sound (x_map s1 ?k) et"
      "tree_ok (node_sum ((extent_tree_root (x_sb s1))(?k := None))) (nodes_of ((extent_tree_root (x_sb s1))(?k := None))) (x_sb s1) et"
      by (rule tree_facts[OF inv1 h1(1,2)])
    have nx: "\<not> fi_no_extent i1" using True by (simp add: i1 may_tree)
    show ?thesis
    proof (cases "\<exists>e. i_ext = Some e \<and> elen e \<noteq> 0 \<and> node_cnt et = 0")
      case False
      then have "ext_step (Xe_init i i_ext) s = s1"
        using True gr et h1 by (auto simp: f2fs_init_extent_tree_def init_extent_tree_inode_def s1_def i1 split: option.splits)
      then show ?thesis using inv1 by simp
    next
      case 2: True
      then obtain e where e: "i_ext = Some e" "elen e \<noteq> 0" "node_cnt et = 0" by blast
      let ?ei = "set_extent_info (ofs e) (ei_blk e) (elen e)"
      have ei: "ei_ok ?ei" "0 < elen ?ei" "agrees ?ei (x_map s1 ?k)"
        using g(3) e by (auto simp: ext_fits_def ei_ok_def agrees_def covers_def h1 eend_def)
      obtain new sb2 et2 where it: "init_extent_tree (x_sb s1) et ?ei = (new, sb2, et2)" by (metis prod_cases3)
      note k = init_tree_ok[OF et(5) e(3) ei et(4) it]
      define sb3 where "sb3 = (case new of None \<Rightarrow> sb2 | Some en \<Rightarrow> sb2\<lparr>extent_list := extent_list sb2 @ [(et_ino et2, en_id en)]\<rparr>)"
      have st: "ext_step (Xe_init i i_ext) s = s1\<lparr>x_sb := put_tree sb3 et2\<rparr>"
        using True gr et h1 e it
        by (auto simp: f2fs_init_extent_tree_def init_extent_tree_inode_def s1_def i1 sb3_def split: option.splits)
      have k3: "tree_ok (node_sum ((extent_tree_root (x_sb s1))(?k := None))) (nodes_of ((extent_tree_root (x_sb s1))(?k := None))) sb3 et2"
        "sound (x_map s1 ?k) et2" "sb_frame sb3 = sb_frame (x_sb s1)"
        using k(1,3) by (auto simp: sb3_def sb_frame_def split: option.splits)
      show ?thesis unfolding st using nx et(2,3) k(2) h1
        by (intro tree_step[OF inv1 h1(1,2) et(1) k3(1) _ k3(2,3), of i1]) (simp_all add: fun_upd_idem)
    qed
  qed
qed

lemma step_evict:
  assumes inv: "ext_inv s"
  shows "ext_inv (ext_step (Xe_evict ino nlink bad) s)"
proof (cases "x_inode s ino")
  case None
  with inv show ?thesis by (simp add: on_inode_def)
next
  case (Some i)
  let ?f = "(x_map s)(ino := if nlink = 0 then Map.empty else x_map s ino)"
  let ?i = "i\<lparr>i_nlink := nlink, i_is_bad := bad\<rparr>"
  let ?s = "\<lambda>sb. s\<lparr>x_sb := sb, x_inode := (x_inode s)(ino := None), x_map := ?f\<rparr>"
  have tz: "trees_ok (x_sb s) (x_map s)" "zombies_ok (x_sb s)" using inv by (simp_all add: ext_inv_def)
  have fin: "ext_inv (ext_step (Xe_evict ino nlink bad) s)"
    if st: "fst (f2fs_destroy_extent_tree (x_sb s) ?i) = sb'" and t: "trees_ok sb' ?f" "zombies_ok sb'" "others ino (x_sb s) sb'"
      and own: "extent_tree_root sb' ino \<noteq> None \<longrightarrow> ino \<in> set (zombie_list sb')" for sb'
  proof -
    have e: "ext_step (Xe_evict ino nlink bad) s = ?s sb'" using Some st by (simp add: on_inode_def case_prod_unfold)
    show ?thesis unfolding e by (rule ext_invI[OF inv _ t(2,3), of _ None]) (use t own in simp_all)
  qed
  show ?thesis
  proof (cases "i_has_tree i")
    case False
    then show ?thesis
      using inode_no_tree[OF inv Some False] tz trees_ok_map[OF tz(1), of ino "if nlink = 0 then Map.empty else x_map s ino"]
      by (intro fin[of "x_sb s"]) (simp_all add: f2fs_destroy_extent_tree_def)
  next
    case True
    obtain et where et: "extent_tree_root (x_sb s) ino = Some et" "i_ino i = ino" "et_ino et = ino" "sound (x_map s ino) et"
      "tree_ok (node_sum ((extent_tree_root (x_sb s))(ino := None))) (nodes_of ((extent_tree_root (x_sb s))(ino := None))) (x_sb s) et"
      by (rule tree_facts[OF inv Some True])
    have nz: "ino \<notin> set (zombie_list (x_sb s))" by (rule inode_tree[OF inv Some True])
    show ?thesis
    proof (cases "nlink \<noteq> 0 \<and> \<not> bad \<and> node_cnt et \<noteq> 0")
      case z: True
      have "fst (f2fs_destroy_extent_tree (x_sb s) ?i) =
          (x_sb s)\<lparr>zombie_list := zombie_list (x_sb s) @ [ino], total_zombie_tree := total_zombie_tree (x_sb s) + 1\<rparr>"
        using z True et by (simp add: f2fs_destroy_extent_tree_def)
      from fin[OF this] show ?thesis using z tz nz et(1)
        by (auto simp: zombies_ok_def others_def sb_flags_def trees_ok_def Let_def et_local_def)
    next
      case z: False
      obtain n sb1 et1 where f: "free_extent_tree (x_sb s) et = (n, sb1, et1)" by (metis prod_cases3)
      define sb2 where "sb2 = snd (f2fs_destroy_extent_node (x_sb s) ?i)"
      have "sb2 = x_sb s \<and> node_cnt et = 0 \<or> sb2 = put_tree sb1 et1"
        using True et f by (auto simp: sb2_def f2fs_destroy_extent_node_def)
      then have "\<exists>sb1 et1. tree_ok (node_sum ((extent_tree_root (x_sb s))(ino := None))) (nodes_of ((extent_tree_root (x_sb s))(ino := None))) sb1 et1 \<and>
          et_root et1 = [] \<and> sb_frame sb1 = sb_frame (x_sb s) \<and> et_ino et1 = ino \<and> (sb2 = sb1 \<or> sb2 = put_tree sb1 et1)"
      proof
        assume "sb2 = x_sb s \<and> node_cnt et = 0"
        then show ?thesis using et by (intro exI[of _ "x_sb s"] exI[of _ et]) (simp add: tree_ok_def)
      next
        assume "sb2 = put_tree sb1 et1"
        then show ?thesis using free_ok[OF et(5) f] free_keeps[OF f] et(3) by (intro exI[of _ sb1] exI[of _ et1]) simp
      qed
      then obtain sb1 et1 where
        k: "tree_ok (node_sum ((extent_tree_root (x_sb s))(ino := None))) (nodes_of ((extent_tree_root (x_sb s))(ino := None))) sb1 et1"
          "et_root et1 = []" "sb_frame sb1 = sb_frame (x_sb s)" "et_ino et1 = ino" "sb2 = sb1 \<or> sb2 = put_tree sb1 et1" by blast
      define sb3 where "sb3 = sb2\<lparr>extent_tree_root := (extent_tree_root sb2)(ino := None), total_ext_tree := total_ext_tree sb2 - 1\<rparr>"
      have e: "fst (f2fs_destroy_extent_tree (x_sb s) ?i) = sb3"
        using z True et by (auto simp: f2fs_destroy_extent_tree_def sb3_def sb2_def case_prod_unfold Let_def)
      have "extent_tree_root sb3 = (extent_tree_root (x_sb s))(ino := None)" "total_ext_tree sb3 = total_ext_tree (x_sb s) - 1"
        "extent_list sb3 = extent_list sb1" "total_ext_node sb3 = total_ext_node sb1" "ext_next_id sb3 = ext_next_id sb1"
        and z3: "zombie_list sb3 = zombie_list (x_sb s)" "total_zombie_tree sb3 = total_zombie_tree (x_sb s)"
          "sb_flags sb3 = sb_flags (x_sb s)" "extent_tree_root sb3 = (extent_tree_root (x_sb s))(ino := None)"
        using k(4,5) frameD[OF k(3)] by (auto simp: sb3_def put_tree_def sb_flags_def)
      from trees_ok_remove[OF tz(1) refl et(1) k(1,2) this(1-5)] show ?thesis
        using z3 tz(2) nz by (intro fin[OF e]) (auto simp: zombies_ok_def others_def)
    qed
  qed
qed

text \<open>The shrinker: what it returns is what it freed.\<close>

lemma zombie_gone:
  assumes inv: "ext_inv s" and z: "ino \<in> set (zombie_list (x_sb s))"
  shows "x_inode s ino = None"
proof (rule ccontr)
  assume "x_inode s ino \<noteq> None"
  then obtain i where "x_inode s ino = Some i" by blast
  then have "inode_ok (x_sb s) ino i" using inv by (auto simp: ext_inv_def dest: spec[of _ ino])
  moreover have "extent_tree_root (x_sb s) ino \<noteq> None" using inv z by (auto simp: ext_inv_def zombies_ok_def)
  ultimately show False using z by (simp add: inode_ok_def split: if_splits)
qed

lemma zombie_step:
  assumes inv: "ext_inv (s\<lparr>x_sb := sb\<rparr>)" and z: "ino \<in> set (zombie_list sb)"
    and et: "extent_tree_root sb ino = Some et"
    and f: "(if node_cnt et \<noteq> 0 then free_extent_tree sb et else (0, sb, et)) = (n, sb1, et1)"
    and sb': "sb' = sb1\<lparr>zombie_list := filter (\<lambda>x. x \<noteq> ino) (zombie_list sb1),
                      extent_tree_root := (extent_tree_root sb1)(ino := None),
                      total_ext_tree := total_ext_tree sb1 - 1, total_zombie_tree := total_zombie_tree sb1 - 1\<rparr>"
  shows "ext_inv (s\<lparr>x_sb := sb'\<rparr>)" "total_ext_node sb' + n = total_ext_node sb" "total_ext_tree sb' + 1 = total_ext_tree sb"
    "zombie_list sb' = filter (\<lambda>x. x \<noteq> ino) (zombie_list sb)"
proof -
  have tz: "trees_ok sb (x_map s)" "zombies_ok sb" using inv by (simp_all add: ext_inv_def)
  note d = trees_okD[OF tz(1) et]
  have no: "x_inode s ino = None" using zombie_gone[OF inv] z by simp
  have k: "tree_ok (node_sum ((extent_tree_root sb)(ino := None))) (nodes_of ((extent_tree_root sb)(ino := None))) sb1 et1"
    "et_root et1 = []" "sb_frame sb1 = sb_frame sb" "n = length (et_root et)"
  proof -
    have "et_root et = []" if "node_cnt et = 0" using d(3) that by (simp add: tree_ok_def)
    then consider "free_extent_tree sb et = (n, sb1, et1)" | "n = 0" "sb1 = sb" "et1 = et" "et_root et = []"
      using f by (cases "node_cnt et = 0") simp_all
    then have "tree_ok (node_sum ((extent_tree_root sb)(ino := None))) (nodes_of ((extent_tree_root sb)(ino := None))) sb1 et1 \<and>
      et_root et1 = [] \<and> sb_frame sb1 = sb_frame sb \<and> n = length (et_root et)"
    proof cases
      case 1
      from free_ok[OF d(3) 1] free_keeps[OF 1] show ?thesis by blast
    qed (use d(3) in simp)
    then show "tree_ok (node_sum ((extent_tree_root sb)(ino := None))) (nodes_of ((extent_tree_root sb)(ino := None))) sb1 et1"
      "et_root et1 = []" "sb_frame sb1 = sb_frame sb" "n = length (et_root et)" by blast+
  qed
  note fr = frameD[OF k(3)]
  have s3: "extent_tree_root sb' = (extent_tree_root sb)(ino := None)" "total_ext_tree sb' = total_ext_tree sb - 1"
    "extent_list sb' = extent_list sb1" "total_ext_node sb' = total_ext_node sb1" "ext_next_id sb' = ext_next_id sb1"
    using fr by (simp_all add: sb')
  have t: "trees_ok sb' (x_map s)" using trees_ok_remove[OF tz(1) refl et k(1,2) s3, of "x_map s ino"] by (simp add: fun_upd_idem)
  have "length (filter (\<lambda>x. x \<noteq> ino) (zombie_list sb)) = length (zombie_list sb) - 1"
    using length_filter_out[OF _ z] tz(2) by (simp add: zombies_ok_def)
  then have zo: "zombies_ok sb'" "others ino sb sb'"
    using tz(2) fr s3(1) by (auto simp: sb' zombies_ok_def others_def sb_flags_def)
  show "ext_inv (s\<lparr>x_sb := sb'\<rparr>)"
    by (rule ext_invI[OF inv _ zo(1), of _ ino None]) (use t zo(2) no s3(1) in \<open>simp_all add: fun_upd_idem\<close>)
  have "card (dom (extent_tree_root sb)) \<noteq> 0" using et tz(1) by (auto simp: trees_ok_def Let_def domIff)
  then show "total_ext_tree sb' + 1 = total_ext_tree sb" using tz(1) s3(2) by (simp add: trees_ok_def Let_def)
  show "total_ext_node sb' + n = total_ext_node sb" using s3(4) k(1,2,4) d(3) by (simp add: tree_ok_def)
  show "zombie_list sb' = filter (\<lambda>x. x \<noteq> ino) (zombie_list sb)" using fr by (simp add: sb')
qed

lemma shrink_zombies_ok:
  "ext_inv (s\<lparr>x_sb := sb\<rparr>) \<Longrightarrow> set inos \<subseteq> set (zombie_list sb) \<Longrightarrow> distinct inos \<Longrightarrow>
   shrink_zombies nr inos nc tc sb = (nc', tc', r, sb') \<Longrightarrow>
   ext_inv (s\<lparr>x_sb := sb'\<rparr>) \<and> total_ext_node sb' + nc' = total_ext_node sb + nc \<and> total_ext_tree sb' + tc' = total_ext_tree sb + tc"
proof (induction inos arbitrary: nc tc sb)
  case (Cons ino inos)
  obtain et where et: "extent_tree_root sb ino = Some et"
    using Cons.prems(1,2) by (auto simp: ext_inv_def zombies_ok_def)
  obtain n sb1 et1 where f: "(if node_cnt et \<noteq> 0 then free_extent_tree sb et else (0, sb, et)) = (n, sb1, et1)"
    by (metis prod_cases3)
  define sb2 where "sb2 = sb1\<lparr>zombie_list := filter (\<lambda>x. x \<noteq> ino) (zombie_list sb1),
      extent_tree_root := (extent_tree_root sb1)(ino := None),
      total_ext_tree := total_ext_tree sb1 - 1, total_zombie_tree := total_zombie_tree sb1 - 1\<rparr>"
  have z: "ino \<in> set (zombie_list sb)" using Cons.prems(2) by simp
  note k = zombie_step[OF Cons.prems(1) z et f sb2_def]
  have rec: "(if nc + n + (tc + 1) \<ge> nr then (nc + n, tc + 1, True, sb2) else shrink_zombies nr inos (nc + n) (tc + 1) sb2) = (nc', tc', r, sb')"
    using Cons.prems(4) et f by (cases "nc + n + (tc + 1) \<ge> nr") (simp_all add: Let_def sb2_def)
  show ?case
  proof (cases "nc + n + (tc + 1) \<ge> nr")
    case True
    then show ?thesis using rec k by auto
  next
    case False
    have sub: "set inos \<subseteq> set (zombie_list sb2)" "distinct inos" using Cons.prems(2,3) k(4) by auto
    show ?thesis using Cons.IH[OF k(1) sub, of "nc + n" "tc + 1"] rec False k(2,3) by simp
  qed
qed simp

lemma trees_ok_rotate:
  "trees_ok (sb\<lparr>extent_list := l\<rparr>) f \<longleftrightarrow> trees_ok sb f"
  if "distinct l = distinct (extent_list sb)" "set l = set (extent_list sb)" for l and sb :: ext_sbi and f
  using that by (simp add: trees_ok_def Let_def et_local_def)

lemma ext_inv_rotate:
  assumes inv: "ext_inv (s\<lparr>x_sb := sb\<rparr>)" and l: "distinct l = distinct (extent_list sb)" "set l = set (extent_list sb)"
  shows "ext_inv (s\<lparr>x_sb := sb\<lparr>extent_list := l\<rparr>\<rparr>)"
proof -
  have "inode_ok (sb\<lparr>extent_list := l\<rparr>) j i = inode_ok sb j i" for j i
    by (simp add: inode_ok_def may_later_def f2fs_may_extent_tree_def)
  moreover have "zombies_ok (sb\<lparr>extent_list := l\<rparr>) = zombies_ok sb" by (simp add: zombies_ok_def)
  ultimately show ?thesis using inv trees_ok_rotate[OF l] by (simp add: ext_inv_def cong: option.case_cong)
qed

lemma lru_step:
  assumes inv: "ext_inv (s\<lparr>x_sb := sb\<rparr>)" and l: "extent_list sb = (ino, i) # rest"
    and et: "extent_tree_root sb ino = Some et" and d: "detach_extent_node (sb\<lparr>extent_list := rest\<rparr>) et i = (sb', et')"
  shows "ext_inv (s\<lparr>x_sb := put_tree sb' et'\<rparr>)" "total_ext_node (put_tree sb' et') + 1 = total_ext_node sb"
    "total_ext_tree (put_tree sb' et') = total_ext_tree sb"
proof -
  have tz: "trees_ok sb (x_map s)" "zombies_ok sb" using inv by (simp_all add: ext_inv_def)
  note D = trees_okD[OF tz(1) et]
  have dl: "distinct ((ino, i) # rest)" "(ino, i) \<in> nodes_of (extent_tree_root sb)" using tz(1) l by (auto simp: trees_ok_def Let_def)
  have "filter (\<lambda>x. x \<noteq> (ino, i)) rest = rest" using dl(1) by (intro filter_True) auto
  then have rel: "release_extent_node sb et i = (sb', et')"
    using d l D(1) by (simp add: release_extent_node_def list_del_en_def)
  obtain c where c: "c \<in> set (et_root et)" "en_id c = i" using dl(2) et by (auto simp: in_nodes_of ids_def)
  then obtain xs ys where r: "et_root et = xs @ c # ys" by (meson split_list)
  note k = release_ok[OF D(3) r rel[folded c(2)]]
  have fr: "sb_frame sb' = sb_frame sb" "et_ino et' = ino" "largest et' = largest et"
    using release_keeps[of sb et i] release_frame[of sb et i] D(1) unfolding rel by simp_all
  have so: "sound (x_map s ino) et'" using D(2) k(2) r fr(3) by (auto simp: sound_def)
  note q = put_tree_ok[OF tz et k(1) fr(2) so fr(1)]
  have own0: "case x_inode s ino of Some i \<Rightarrow> inode_ok sb ino i
      | None \<Rightarrow> extent_tree_root sb ino \<noteq> None \<longrightarrow> ino \<in> set (zombie_list sb)"
    using ext_inv_own[OF inv, of ino] by (cases "x_inode s ino") simp_all
  have own: "case x_inode s ino of Some i \<Rightarrow> inode_ok (put_tree sb' et') ino i
      | None \<Rightarrow> extent_tree_root (put_tree sb' et') ino \<noteq> None \<longrightarrow> ino \<in> set (zombie_list (put_tree sb' et'))"
  proof (cases "x_inode s ino")
    case None
    with own0 et frameD[OF fr(1)] show ?thesis by simp
  next
    case (Some j)
    then have "inode_ok sb ino j" using own0 by simp
    then show ?thesis using Some et r frameD[OF fr(1)] fr(2) may_later_cong[of "put_tree sb' et'" sb j]
      by (auto simp: inode_ok_def split: if_splits)
  qed
  show "ext_inv (s\<lparr>x_sb := put_tree sb' et'\<rparr>)"
    by (rule ext_invI[OF inv _ q(2), of _ ino "x_inode s ino"]) (use q own in \<open>simp_all add: fun_upd_idem\<close>)
  show "total_ext_node (put_tree sb' et') + 1 = total_ext_node sb" "total_ext_tree (put_tree sb' et') = total_ext_tree sb"
    using k D(3) r frameD[OF fr(1)] by (simp_all add: put_tree_def tree_ok_def)
qed

lemma shrink_lru_ok:
  "ext_inv (s\<lparr>x_sb := sb\<rparr>) \<Longrightarrow> shrink_lru locked m nc sb = (nc', sb') \<Longrightarrow>
   ext_inv (s\<lparr>x_sb := sb'\<rparr>) \<and> total_ext_node sb' + nc' = total_ext_node sb + nc \<and> total_ext_tree sb' = total_ext_tree sb \<and>
   nc' \<le> nc + m"
proof (induction m arbitrary: nc sb)
  case (Suc m)
  show ?case
  proof (cases "extent_list sb")
    case Nil
    with Suc.prems show ?thesis by simp
  next
    case (Cons x rest)
    obtain ino i where x: "x = (ino, i)" by fastforce
    have l: "extent_list sb = (ino, i) # rest" using Cons x by simp
    show ?thesis
    proof (cases "locked ino")
      case True
      let ?sb = "sb\<lparr>extent_list := rest @ [(ino, i)]\<rparr>"
      have "ext_inv (s\<lparr>x_sb := ?sb\<rparr>)"
        by (rule ext_inv_rotate[OF Suc.prems(1)]) (auto simp: l)
      from Suc.IH[OF this] show ?thesis using Suc.prems(2) l True by fastforce
    next
      case False
      have tz: "trees_ok sb (x_map s)" using Suc.prems(1) by (simp add: ext_inv_def)
      obtain et where et: "extent_tree_root sb ino = Some et" using tz l by (force simp: trees_ok_def Let_def nodes_of_def)
      obtain sb1 et1 where d: "detach_extent_node (sb\<lparr>extent_list := rest\<rparr>) et i = (sb1, et1)" by fastforce
      note k = lru_step[OF Suc.prems(1) l et d]
      have "shrink_lru locked m (nc + 1) (put_tree sb1 et1) = (nc', sb')" using Suc.prems(2) l False et d by simp
      from Suc.IH[OF k(1) this] k(2,3) show ?thesis by simp
    qed
  qed
qed simp

lemma shrink_ok:
  assumes inv: "ext_inv s" and res: "f2fs_shrink_extent_tree l1 l2 locked (x_sb s) nr = (n, sb')"
  shows "ext_inv (s\<lparr>x_sb := sb'\<rparr>)"
    "total_ext_node sb' + total_ext_tree sb' + n = total_ext_node (x_sb s) + total_ext_tree (x_sb s)"
proof -
  obtain nc tc r sb1 where z: "(if total_zombie_tree (x_sb s) \<noteq> 0 then shrink_zombies nr (zombie_list (x_sb s)) 0 0 (x_sb s)
      else (0, 0, False, x_sb s)) = (nc, tc, r, sb1)" by (metis prod_cases4)
  have "distinct (zombie_list (x_sb s))" using inv by (simp add: ext_inv_def zombies_ok_def)
  then have k: "ext_inv (s\<lparr>x_sb := sb1\<rparr>) \<and> total_ext_node sb1 + nc = total_ext_node (x_sb s) \<and>
      total_ext_tree sb1 + tc = total_ext_tree (x_sb s)"
    using shrink_zombies_ok[of "x_sb s" s "zombie_list (x_sb s)" nr 0 0 nc tc r sb1] z inv by (auto split: if_splits)
  obtain n2 sb2 where l: "shrink_lru locked (nr - (nc + tc)) nc sb1 = (n2, sb2)" by fastforce
  have "ext_inv (s\<lparr>x_sb := sb'\<rparr>) \<and>
    total_ext_node sb' + total_ext_tree sb' + n = total_ext_node (x_sb s) + total_ext_tree (x_sb s)"
  proof (cases "\<not> opt_extent_cache (x_sb s) \<or> total_zombie_tree (x_sb s) \<noteq> 0 \<and> \<not> l1")
    case True
    then have "(0, x_sb s) = (n, sb')" using res by (cases "opt_extent_cache (x_sb s)") (simp_all add: f2fs_shrink_extent_tree_def)
    then show ?thesis using inv by auto
  next
    case False
    then have "(if r \<or> \<not> l2 then (nc + tc, sb1) else (n2 + tc, sb2)) = (n, sb')"
      using res z l by (auto simp: f2fs_shrink_extent_tree_def)
    then show ?thesis using k shrink_lru_ok[OF conjunct1[OF k] l] by (cases "r \<or> \<not> l2") auto
  qed
  then show "ext_inv (s\<lparr>x_sb := sb'\<rparr>)"
    "total_ext_node sb' + total_ext_tree sb' + n = total_ext_node (x_sb s) + total_ext_tree (x_sb s)" by blast+
qed

text \<open>With all locks free, the shrinker frees what was asked for, or everything.\<close>

lemma shrink_lru_progress:
  "ext_inv (s\<lparr>x_sb := sb\<rparr>) \<Longrightarrow> \<forall>k. \<not> locked k \<Longrightarrow> shrink_lru locked m nc sb = (nc', sb') \<Longrightarrow>
   nc' = nc + m \<or> extent_list sb' = []"
proof (induction m arbitrary: nc sb)
  case (Suc m)
  show ?case
  proof (cases "extent_list sb")
    case Nil
    with Suc.prems show ?thesis by simp
  next
    case (Cons x rest)
    obtain ino i where x: "x = (ino, i)" by fastforce
    have l: "extent_list sb = (ino, i) # rest" using Cons x by simp
    obtain et where et: "extent_tree_root sb ino = Some et"
      using Suc.prems(1) l by (force simp: ext_inv_def trees_ok_def Let_def nodes_of_def)
    obtain sb1 et1 where d: "detach_extent_node (sb\<lparr>extent_list := rest\<rparr>) et i = (sb1, et1)" by fastforce
    have "shrink_lru locked m (nc + 1) (put_tree sb1 et1) = (nc', sb')"
      using Suc.prems(2)[THEN spec, of ino] Suc.prems(3) l et d by simp
    from Suc.IH[OF lru_step(1)[OF Suc.prems(1) l et d] Suc.prems(2) this] show ?thesis by simp
  qed
qed simp

lemma shrink_progress:
  assumes inv: "ext_inv s" and free: "opt_extent_cache (x_sb s) \<and> l1 \<and> l2 \<and> (\<forall>k. \<not> locked k)"
    and res: "f2fs_shrink_extent_tree l1 l2 locked (x_sb s) nr = (n, sb')"
  shows "nr \<le> n \<or> extent_list sb' = []"
proof -
  obtain nc tc r sb1 where z: "(if total_zombie_tree (x_sb s) \<noteq> 0 then shrink_zombies nr (zombie_list (x_sb s)) 0 0 (x_sb s)
      else (0, 0, False, x_sb s)) = (nc, tc, r, sb1)" by (metis prod_cases4)
  have "distinct (zombie_list (x_sb s))" using inv by (simp add: ext_inv_def zombies_ok_def)
  then have k: "ext_inv (s\<lparr>x_sb := sb1\<rparr>)"
    using shrink_zombies_ok[of "x_sb s" s "zombie_list (x_sb s)" nr 0 0 nc tc r sb1] z inv by (auto split: if_splits)
  have rn: "nr \<le> nc + tc" if "r"
  proof -
    have "shrink_zombies nr inos a b sb0 = (nc, tc, r, sb1) \<Longrightarrow> nr \<le> nc + tc" for inos a b sb0
      using that by (induction nr inos a b sb0 rule: shrink_zombies.induct)
        (auto simp: Let_def split: option.splits prod.splits if_splits)
    then show ?thesis using z that by (auto split: if_splits)
  qed
  obtain n2 sb2 where l: "shrink_lru locked (nr - (nc + tc)) nc sb1 = (n2, sb2)" by fastforce
  have "(if r then (nc + tc, sb1) else (n2 + tc, sb2)) = (n, sb')"
    using res z l free by (auto simp: f2fs_shrink_extent_tree_def)
  then show ?thesis using rn shrink_lru_progress[OF k _ l] free by (cases r) auto
qed

lemma ext_step_ok: "ext_inv s \<Longrightarrow> ext_enabled e s \<Longrightarrow> ext_inv (ext_step e s)"
proof (cases e)
  case (Xe_shrink l1 l2 locked nr)
  assume "ext_inv s"
  obtain n sb' where r: "f2fs_shrink_extent_tree l1 l2 locked (x_sb s) nr = (n, sb')" by fastforce
  from shrink_ok(1)[OF \<open>ext_inv s\<close> r] Xe_shrink r show ?thesis by simp
qed (simp_all only: step_init step_update step_lookup step_drop step_destroy_node step_evict)

interpretation extentm: guarded_machine ext_step ext_enabled ext_inv
  by unfold_locales (rule ext_step_ok)

end
