(* ===== verification/Extent_Props.thy ===== *)
theory Extent_Props
  imports Extent_Machine "HOL-Library.Code_Target_Nat"
begin

text \<open>
  What the extent cache promises: along every run from the mount, lookups return the mapping
  of the file, an update is visible to the next lookup, the counters are exact, and the shrinker
  reports what it freed.
\<close>

definition ext_start :: "ext_sbi \<Rightarrow> (nat \<Rightarrow> nat \<rightharpoonup> nat) \<Rightarrow> ext_sys" where
  "ext_start sb f = \<lparr>x_sb = f2fs_init_extent_cache_info sb, x_inode = Map.empty, x_map = f\<rparr>"

lemma ext_start_inv: "ext_inv (ext_start sb f)"
  by (simp add: ext_start_def ext_inv_def f2fs_init_extent_cache_info_def trees_ok_def Let_def nodes_of_def node_sum_def zombies_ok_def)

lemma ext_reach_inv: "reach ext_step ext_enabled (ext_start sb f) s \<Longrightarrow> ext_inv s"
  using extentm.reach_inv ext_start_inv by blast

lemma lookup_cache_ok:
  assumes inv: "ext_inv s" and i: "x_inode s ino = Some i" and p: "p < 2 ^ 32"
    and l: "fst (f2fs_lookup_extent_cache (x_sb s) i p) = Some e"
  shows "ofs e \<le> p \<and> p < ofs e + elen e \<and> x_map s ino p = Some (ei_blk e + (p - ofs e))"
proof -
  have h: "f2fs_may_extent_tree (x_sb s) i" "i_has_tree i"
    using l by (auto simp: f2fs_lookup_extent_cache_def split: if_splits)
  obtain et where et: "extent_tree_root (x_sb s) ino = Some et" "i_ino i = ino" "et_ino et = ino" "sound (x_map s ino) et"
    "tree_ok (node_sum ((extent_tree_root (x_sb s))(ino := None))) (nodes_of ((extent_tree_root (x_sb s))(ino := None))) (x_sb s) et"
    by (rule tree_facts[OF inv i h(2)])
  obtain r sb' et' where lk: "f2fs_lookup_extent_tree (x_sb s) et p = (r, sb', et')" by (metis prod_cases3)
  have "r = Some e" using l h et(1,2) lk by (simp add: f2fs_lookup_extent_cache_def)
  with lookup_tree_ok(6)[OF et(5,4) p lk] show ?thesis by (simp add: covers_def agrees_def eend_def)
qed

lemma lookup_cache_hit:
  assumes inv: "ext_inv s" and i: "x_inode s ino = Some i" "\<not> fi_no_extent i" and p: "p < 2 ^ 32"
    and et: "extent_tree_root (x_sb s) ino = Some et" and c: "e \<in> set (et_root et)" "covers p e"
  shows "fst (f2fs_lookup_extent_cache (x_sb s) i p) \<noteq> None"
proof -
  have ht: "i_has_tree i" using inode_no_tree(1)[OF inv i(1)] i(2) by blast
  obtain et1 where e1: "extent_tree_root (x_sb s) ino = Some et1" "i_ino i = ino" "sound (x_map s ino) et1"
    "tree_ok (node_sum ((extent_tree_root (x_sb s))(ino := None))) (nodes_of ((extent_tree_root (x_sb s))(ino := None))) (x_sb s) et1"
    by (rule tree_facts[OF inv i(1) ht])
  have may: "f2fs_may_extent_tree (x_sb s) i" using inode_tree[OF inv i(1) ht] i(2) by (metis may_tree)
  obtain r sb' et' where lk: "f2fs_lookup_extent_tree (x_sb s) et1 p = (r, sb', et')" by (metis prod_cases3)
  have "r \<noteq> None" using lookup_tree_ok(6)[OF e1(4,3) p lk] c et e1(1) by (auto split: option.splits)
  then show ?thesis using may ht e1(1,2) lk by (auto simp: f2fs_lookup_extent_cache_def)
qed

section \<open>A concrete run\<close>

text \<open>A regular file of inode 5 is read, then its pages 100 to 199 are mapped to blocks from 5000 on.\<close>

definition xx_sb :: ext_sbi where
  "xx_sb = \<lparr>extent_tree_root = Map.empty, extent_list = [], zombie_list = [], total_ext_tree = 0, total_zombie_tree = 0,
     total_ext_node = 0, ext_next_id = 0, ext_alloc = (\<lambda>_. True), opt_extent_cache = True, sb_has_readonly = False,
     s_list_empty = False\<rparr>"

definition xx_inode :: ext_inode where
  "xx_inode = \<lparr>i_ino = 5, i_nlink = 1, i_has_tree = False, fi_no_extent = False, fi_compressed = False, i_is_reg = True,
     i_is_bad = False, i_dirty = False\<rparr>"

definition xx_s0 :: ext_sys where "xx_s0 = ext_start xx_sb (\<lambda>_. Map.empty)"
definition xx_s1 :: ext_sys where "xx_s1 = ext_step (Xe_init xx_inode None) xx_s0"
definition xx_s2 :: ext_sys where "xx_s2 = ext_step (Xe_update 5 100 5000 100) xx_s1"

lemma xx_inode_1: "x_inode xx_s1 5 = Some (xx_inode\<lparr>i_has_tree := True\<rparr>)" by code_simp

lemma xx_inode_2: "x_inode xx_s2 5 = Some (xx_inode\<lparr>i_has_tree := True, i_dirty := True\<rparr>)" by code_simp

lemma xx_lookup:
  "fst (f2fs_lookup_extent_cache (x_sb xx_s2) (xx_inode\<lparr>i_has_tree := True, i_dirty := True\<rparr>) 150) =
     Some \<lparr>ofs = 100, elen = 100, ei_blk = 5000, ei_c_len = 0\<rparr>"
  by code_simp

lemma xx_reach: "reach ext_step ext_enabled (ext_start xx_sb (\<lambda>_. Map.empty)) xx_s1"
  "reach ext_step ext_enabled (ext_start xx_sb (\<lambda>_. Map.empty)) xx_s2"
proof -
  have "ext_enabled (Xe_init xx_inode None) xx_s0"
    by (simp add: xx_s0_def ext_start_def xx_sb_def xx_inode_def f2fs_init_extent_cache_info_def ext_fits_def)
  then show r1: "reach ext_step ext_enabled (ext_start xx_sb (\<lambda>_. Map.empty)) xx_s1"
    unfolding xx_s1_def xx_s0_def by (rule reach_step[OF reach_start])
  show "reach ext_step ext_enabled (ext_start xx_sb (\<lambda>_. Map.empty)) xx_s2"
    unfolding xx_s2_def by (rule reach_step[OF r1]) simp
qed

section \<open>Properties\<close>

text \<open>
  C12. Along every run of the extent cache from the mount (inodes read and evicted, mappings
  changed, lookups, drops, shrinking, with failing allocations anywhere), whatever
  \<open>f2fs_lookup_extent_cache\<close> returns for an inode in memory is an extent that covers the page and
  gives the block the file really maps there.
\<close>
theorem extent_lookup_coherent:
  assumes "reach ext_step ext_enabled (ext_start sb f) s" and "x_inode s ino = Some i" and "p < 2 ^ 32"
    and "fst (f2fs_lookup_extent_cache (x_sb s) i p) = Some e"
  shows "ofs e \<le> p \<and> p < ofs e + elen e \<and> x_map s ino p = Some (ei_blk e + (p - ofs e))"
  by (rule lookup_cache_ok[OF ext_reach_inv[OF assms(1)] assms(2-4)])

theorem extent_lookup_coherent_witness:
  "x_map xx_s2 5 150 = Some 5050"
  using extent_lookup_coherent[OF xx_reach(2) xx_inode_2 _ xx_lookup] by simp

text \<open>
  C13. When node allocations succeed, a mapping change of an inode that keeps its cache is visible
  at once: the lookup of every page of the range that was just mapped to blocks from \<open>blk\<close> on
  succeeds and gives the new block.
\<close>
theorem extent_update_visible:
  assumes "reach ext_step ext_enabled (ext_start sb f) s" and "ext_enabled (Xe_update ino fo blk len) s"
    and "x_inode s ino = Some i" and "\<not> fi_no_extent i" and "blk \<noteq> 0" and "\<forall>j. ext_alloc (x_sb s) j"
    and "s' = ext_step (Xe_update ino fo blk len) s" and "x_inode s' ino = Some i'" and "\<not> fi_no_extent i'"
    and "fo \<le> p" and "p < fo + len"
  shows "\<exists>e. fst (f2fs_lookup_extent_cache (x_sb s') i' p) = Some e \<and> ofs e \<le> p \<and> p < ofs e + elen e \<and>
    ei_blk e + (p - ofs e) = blk + (p - fo)"
proof -
  have inv: "ext_inv s" by (rule ext_reach_inv[OF assms(1)])
  have inv': "ext_inv s'" using step_update[OF inv assms(2)] assms(7) by simp
  have len: "0 < len" "fo + len < 2 ^ 32" "blk + len < 2 ^ 32" and p: "p < 2 ^ 32" using assms(2,11) by simp_all
  have ht: "i_has_tree i" using inode_no_tree(1)[OF inv assms(3)] assms(4) by blast
  obtain et where et: "extent_tree_root (x_sb s) ino = Some et" "i_ino i = ino" "et_ino et = ino" "sound (x_map s ino) et"
    "tree_ok (node_sum ((extent_tree_root (x_sb s))(ino := None))) (nodes_of ((extent_tree_root (x_sb s))(ino := None))) (x_sb s) et"
    by (rule tree_facts[OF inv assms(3) ht])
  have may: "f2fs_may_extent_tree (x_sb s) i" using inode_tree[OF inv assms(3) ht] assms(4) by (metis may_tree)
  obtain g d sb1 et1 where u:
    "f2fs_update_extent_tree_range (x_sb s) i fo blk len = (put_tree sb1 et1, i\<lparr>fi_no_extent := g, i_dirty := d\<rparr>)"
    "et_ino et1 = ino" "\<not> g \<longrightarrow> blk \<noteq> 0 \<longrightarrow> (\<forall>j. ext_alloc (x_sb s) j) \<longrightarrow> cached_range fo (fo + len) et1"
    using update_range_ok[OF et(5,4) len ht assms(4), unfolded et(2,3), OF et(1)] by blast
  have s': "x_sb s' = put_tree sb1 et1" "i' = i\<lparr>fi_no_extent := g, i_dirty := d\<rparr>"
    "x_map s' ino = upd_map (x_map s ino) fo blk len"
    using assms(3,7,8) may u(1) by (simp_all add: on_inode_def f2fs_update_extent_cache_range_def)
  have "\<not> g" using s'(2) assms(9) by simp
  then have "cached_range fo (fo + len) et1" using u(3) assms(5,6) by blast
  then obtain e1 where e1: "e1 \<in> set (et_root et1)" "covers p e1" using assms(10,11) by (auto simp: cached_range_def)
  have "extent_tree_root (x_sb s') ino = Some et1" using s'(1) u(2) by simp
  from lookup_cache_hit[OF inv' assms(8,9) p this e1]
  obtain e where e: "fst (f2fs_lookup_extent_cache (x_sb s') i' p) = Some e" by auto
  from lookup_cache_ok[OF inv' assms(8) p e] s'(3) assms(5,10,11) e show ?thesis by (auto simp: upd_map_def)
qed

theorem extent_update_visible_witness:
  "\<exists>e. fst (f2fs_lookup_extent_cache (x_sb xx_s2) (xx_inode\<lparr>i_has_tree := True, i_dirty := True\<rparr>) 199) = Some e \<and>
     ofs e \<le> 199 \<and> 199 < ofs e + elen e \<and> ei_blk e + (199 - ofs e) = 5099"
proof -
  have a: "\<forall>j. ext_alloc (x_sb xx_s1) j"
    by (simp add: xx_s1_def xx_s0_def ext_start_def xx_sb_def xx_inode_def f2fs_init_extent_cache_info_def
        f2fs_init_extent_tree_def init_extent_tree_inode_def grab_extent_tree_def put_tree_def f2fs_may_extent_tree_def)
  show ?thesis
    using extent_update_visible[OF xx_reach(1) _ xx_inode_1 _ _ a xx_s2_def xx_inode_2, of 199]
    by (simp add: xx_inode_def)
qed

text \<open>
  C25. Along every run the counters are exact: \<open>total_ext_node\<close> is the number of nodes on the
  global list, \<open>total_ext_tree\<close> the number of trees, \<open>total_zombie_tree\<close> the length of the zombie
  list; and \<open>f2fs_drop_extent_tree\<close> never follows a null tree pointer.
\<close>
theorem extent_counters_exact:
  assumes "reach ext_step ext_enabled (ext_start sb f) s"
  shows "total_ext_node (x_sb s) = length (extent_list (x_sb s)) \<and> total_ext_tree (x_sb s) = card (dom (extent_tree_root (x_sb s))) \<and>
    total_zombie_tree (x_sb s) = length (zombie_list (x_sb s)) \<and>
    (\<forall>ino i. x_inode s ino = Some i \<longrightarrow> f2fs_drop_extent_tree (x_sb s) i \<noteq> None)"
proof -
  have inv: "ext_inv s" by (rule ext_reach_inv[OF assms])
  let ?T = "extent_tree_root (x_sb s)"
  have t: "finite (dom ?T)" "distinct (extent_list (x_sb s))" "set (extent_list (x_sb s)) = nodes_of ?T"
    "total_ext_node (x_sb s) = node_sum ?T" "\<forall>k et. ?T k = Some et \<longrightarrow> et_local (x_sb s) et"
    "total_ext_tree (x_sb s) = card (dom ?T)" using inv by (simp_all add: ext_inv_def trees_ok_def Let_def)
  have "card (ids (the (?T k))) = length (et_root (the (?T k)))" if kd: "k \<in> dom ?T" for k
  proof -
    obtain et where "?T k = Some et" "et_local (x_sb s) et" using t(5) kd by blast
    then show ?thesis using distinct_card[of "map en_id (et_root et)"] by (simp add: et_local_def ids_def)
  qed
  then have "card (nodes_of ?T) = node_sum ?T" using t(1) by (simp add: nodes_of_def node_sum_def card_SigmaI ids_def)
  then have "total_ext_node (x_sb s) = length (extent_list (x_sb s))" using t(2-4) distinct_card by fastforce
  with inv t(6) step_drop(2)[OF inv] show ?thesis by (auto simp: ext_inv_def zombies_ok_def)
qed

theorem extent_counters_exact_witness:
  "total_ext_node (x_sb xx_s2) = 1 \<and> f2fs_drop_extent_tree (x_sb xx_s2) (xx_inode\<lparr>i_has_tree := True, i_dirty := True\<rparr>) \<noteq> None"
proof -
  have "extent_list (x_sb xx_s2) = [(5, 0)]" by code_simp
  with extent_counters_exact[OF xx_reach(2)] xx_inode_2 show ?thesis by simp
qed

text \<open>
  In every state a run can reach, \<open>f2fs_shrink_extent_tree\<close> returns exactly the number of nodes
  and trees it freed, whatever locks it fails to get; and when it gets all locks, it frees
  as much as it was asked for unless no node is left.
\<close>
theorem extent_shrink_counts:
  assumes "reach ext_step ext_enabled (ext_start sb f) s" and "f2fs_shrink_extent_tree l1 l2 locked (x_sb s) nr = (n, sb')"
  shows "total_ext_node sb' + total_ext_tree sb' + n = total_ext_node (x_sb s) + total_ext_tree (x_sb s) \<and>
    (opt_extent_cache (x_sb s) \<and> l1 \<and> l2 \<and> (\<forall>k. \<not> locked k) \<longrightarrow> nr \<le> n \<or> extent_list sb' = [])"
  using shrink_ok[OF ext_reach_inv[OF assms(1)] assms(2)] shrink_progress[OF ext_reach_inv[OF assms(1)]] assms(2) by blast

theorem extent_shrink_counts_witness:
  "fst (f2fs_shrink_extent_tree True True (\<lambda>_. False) (x_sb xx_s2) 3) = 1 \<and>
   total_ext_node (snd (f2fs_shrink_extent_tree True True (\<lambda>_. False) (x_sb xx_s2) 3)) +
   total_ext_tree (snd (f2fs_shrink_extent_tree True True (\<lambda>_. False) (x_sb xx_s2) 3)) + 1 =
     total_ext_node (x_sb xx_s2) + total_ext_tree (x_sb xx_s2)"
proof -
  obtain n sb' where r: "f2fs_shrink_extent_tree True True (\<lambda>_. False) (x_sb xx_s2) 3 = (n, sb')" by fastforce
  have "fst (f2fs_shrink_extent_tree True True (\<lambda>_. False) (x_sb xx_s2) 3) = 1" by code_simp
  then show ?thesis using extent_shrink_counts[OF xx_reach(2) r] r by simp
qed

end
