(* ===== verification/Kernel_Bits.thy ===== *)
theory Kernel_Bits
  imports Kernel_Prelude
begin

text \<open>
  Bit searches of the kernel (\<open>find_next_bit\<close> and friends) on bitmaps, the number of set
  bits, and unsigned fields that are changed by a signed amount.
\<close>

section \<open>Searching\<close>

definition find_next_bit :: "bitmap \<Rightarrow> nat \<Rightarrow> nat \<Rightarrow> nat" where
  "find_next_bit m n start = (case find m [start..<n] of Some i \<Rightarrow> i | None \<Rightarrow> n)"

definition find_next_zero_bit :: "bitmap \<Rightarrow> nat \<Rightarrow> nat \<Rightarrow> nat" where
  "find_next_zero_bit m = find_next_bit (\<lambda>i. \<not> m i)"

lemma find_next_bit_less:
  assumes "find_next_bit m n s < n"
  shows "m (find_next_bit m n s)" "s \<le> find_next_bit m n s"
proof -
  have "m (find_next_bit m n s) \<and> s \<le> find_next_bit m n s"
  proof (cases "find m [s..<n]")
    case None
    with assms show ?thesis by (simp add: find_next_bit_def)
  next
    case (Some i)
    then have "m i \<and> s \<le> i" by (auto simp: find_Some_iff)
    then show ?thesis using Some by (simp add: find_next_bit_def)
  qed
  then show "m (find_next_bit m n s)" "s \<le> find_next_bit m n s" by blast+
qed

lemma find_next_bit_le: "find_next_bit m n s \<le> n"
proof (cases "find m [s..<n]")
  case (Some i)
  then have "i \<in> set [s..<n]" using find_Some_iff[of m "[s..<n]" i] by (metis nth_mem)
  with Some show ?thesis by (simp add: find_next_bit_def)
qed (simp add: find_next_bit_def)

lemma find_next_bit_exists:
  assumes "s \<le> i" "i < n" "m i"
  shows "find_next_bit m n s < n"
proof (cases "find m [s..<n]")
  case None
  with assms show ?thesis by (auto simp: find_None_iff)
next
  case (Some j)
  then have "j \<in> set [s..<n]" using find_Some_iff[of m "[s..<n]" j] by (metis nth_mem)
  with Some show ?thesis by (simp add: find_next_bit_def)
qed

lemma find_next_bit_skips:
  assumes "s \<le> i" "i < find_next_bit m n s"
  shows "\<not> m i"
proof (cases "find m [s..<n]")
  case None
  with assms show ?thesis by (auto simp: find_None_iff find_next_bit_def)
next
  case (Some j)
  then obtain k where k: "k < n - s" "j = s + k" "\<forall>l < k. \<not> m (s + l)"
    by (auto simp: find_Some_iff)
  have "i = s + (i - s)" "i - s < k" using assms Some k(2) by (auto simp: find_next_bit_def)
  with k(3) show ?thesis by metis
qed

lemma find_next_bit_ge: "find_next_bit m n s \<ge> n \<longleftrightarrow> (\<forall>i. s \<le> i \<and> i < n \<longrightarrow> \<not> m i)"
  using find_next_bit_exists[of s _ n m] find_next_bit_less[of m n s] by (metis not_le)

lemmas zero_bit_less = find_next_bit_less[where m = "\<lambda>i. \<not> m i" for m, folded find_next_zero_bit_def]
lemmas zero_bit_exists = find_next_bit_exists[where m = "\<lambda>i. \<not> m i" for m, folded find_next_zero_bit_def]
lemmas zero_bit_skips = find_next_bit_skips[where m = "\<lambda>i. \<not> m i" for m, folded find_next_zero_bit_def]
lemmas zero_bit_le = find_next_bit_le[where m = "\<lambda>i. \<not> m i" for m, folded find_next_zero_bit_def]

section \<open>Counting\<close>

abbreviation bits :: "bitmap \<Rightarrow> nat \<Rightarrow> nat" where
  "bits m n \<equiv> count_idx (\<lambda>b. b) m n"

lemma bits_set: "j < n \<Longrightarrow> \<not> m j \<Longrightarrow> bits (m(j := True)) n = bits m n + 1"
  using count_idx_upd[of j n "\<lambda>b. b" m True] by simp

lemma bits_clear: "j < n \<Longrightarrow> m j \<Longrightarrow> bits (m(j := False)) n = bits m n - 1"
  using count_idx_upd[of j n "\<lambda>b. b" m False] by simp

lemma bits_cong: "(\<And>i. i < n \<Longrightarrow> m i = m' i) \<Longrightarrow> bits m n = bits m' n"
  unfolding count_idx_def by (intro arg_cong[where f = length] filter_cong) auto

lemma bits_eq_0: "bits m n = 0 \<longleftrightarrow> (\<forall>i < n. \<not> m i)"
  by (rule count_idx_0_iff)

lemma bits_pos: "j < n \<Longrightarrow> m j \<Longrightarrow> 0 < bits m n"
  using count_idx_pos[of j n "\<lambda>b. b" m] by simp

lemma bits_full: "bits m n < n \<Longrightarrow> \<exists>i < n. \<not> m i"
proof (rule ccontr)
  assume "bits m n < n" "\<not> (\<exists>i < n. \<not> m i)"
  then have "filter m [0..<n] = [0..<n]" by (simp add: filter_id_conv)
  with \<open>bits m n < n\<close> show False by (simp add: count_idx_def)
qed

section \<open>Unsigned fields\<close>

text \<open>\<open>x += d\<close> for an unsigned field of \<open>w\<close> bits.\<close>

definition addu :: "nat \<Rightarrow> nat \<Rightarrow> int \<Rightarrow> nat" where
  "addu w x d = nat ((int x + d) mod 2 ^ w)"

lemma addu_eq: "0 \<le> int x + d \<Longrightarrow> int x + d < 2 ^ w \<Longrightarrow> addu w x d = nat (int x + d)"
  by (simp add: addu_def)

lemma int_less_pow: "x < 2 ^ w \<longleftrightarrow> int x < 2 ^ w"
  by (metis of_nat_less_iff of_nat_numeral of_nat_power)

lemma addu_up [simp]: "addu w x 1 = x + 1" if "x + 1 < 2 ^ w"
proof -
  have "int x + 1 < 2 ^ w" using int_less_pow[THEN iffD1, OF that] by simp
  then show ?thesis by (simp add: addu_eq nat_add_distrib)
qed

lemma addu_down [simp]: "addu w x (- 1) = x - 1" if "0 < x" "x < 2 ^ w"
proof -
  have "int x < 2 ^ w" by (rule int_less_pow[THEN iffD1, OF that(2)])
  then have "int x + - 1 < 2 ^ w" "0 \<le> int x + - 1" using that(1) by linarith+
  then have "addu w x (- 1) = nat (int x + - 1)" by (intro addu_eq)
  then show ?thesis using that(1) by simp
qed

lemma addu_0 [simp]: "addu w x 0 = x" if "x < 2 ^ w"
  using int_less_pow[THEN iffD1, OF that] by (simp add: addu_eq)

end
