(* ===== verification/Segment.thy ===== *)
theory Segment
  imports Kernel_Bits F2fs_Sb Discard
begin

text \<open>
  The segment manager of \<open>segment.c\<close> and \<open>segment.h\<close>: the SIT cache with the validity maps of
  every segment, the map of free segments and sections, the lists of dirty and prefree
  segments, the current segments of the logs, allocation and invalidation of blocks. The maps are
  bitmaps over block offsets, segments or sections; counters keep their width. A failed
  \<open>f2fs_bug_on\<close> sets \<open>sm_bug\<close> and the code goes on, as it does without \<open>CONFIG_F2FS_CHECK_FS\<close>.
\<close>

section \<open>Data\<close>

datatype curseg_id = C_log seg_type | CURSEG_COLD_DATA_PINNED | CURSEG_ALL_DATA_ATGC

datatype alloc_mode = LFS | SSR | AT_SSR

datatype dirty_type = Dirty_log seg_type | DIRTY | PRE

type_synonym summary = "nat \<times> nat \<times> nat"

record sit_entry = seg_entry +
  cur_valid_map :: bitmap
  ckpt_valid_map :: bitmap
  discard_map :: bitmap
  se_mtime :: nat

record sit_info =
  sm_sentries :: "nat \<Rightarrow> sit_entry"
  sec_valid :: "nat \<Rightarrow> nat"
  dirty_sentries_bitmap :: bitmap
  dirty_sentries :: nat
  written_valid_blocks :: nat
  elapsed_time :: nat
  mounted_time :: nat
  max_mtime :: nat

record free_segmap_info =
  free_segments :: nat
  free_sections :: nat
  free_segmap :: bitmap
  free_secmap :: bitmap

record dirty_seglist_info =
  dirty_segmap :: "dirty_type \<Rightarrow> bitmap"
  nr_dirty :: "dirty_type \<Rightarrow> int"
  dirty_secmap :: bitmap
  victim_secmap :: bitmap

record curseg_info =
  sum_entries :: "nat \<Rightarrow> summary"
  sum_type_node :: bool
  alloc_type :: alloc_mode
  cs_seg_type :: seg_type
  cs_segno :: nat
  next_blkoff :: nat
  cs_zone :: nat
  next_segno :: nat
  inited :: bool

text \<open>
  \<open>gc_state\<close> is what victim selection keeps between its calls; it is the business of \<open>gc.c\<close>.
  \<open>ssa\<close> is the summary area by segment, \<open>entry_list\<close> the small discards collected for the next
  checkpoint.
\<close>

record 'g sm_info =
  sit :: sit_info
  fsm :: free_segmap_info
  dsl :: dirty_seglist_info
  curseg :: "curseg_id \<Rightarrow> curseg_info"
  ssa :: "nat \<Rightarrow> nat \<Rightarrow> summary"
  discard_blks :: nat
  unusable_block_count :: nat
  entry_list :: "(nat \<times> bitmap) list"
  nr_discards :: nat
  sm_dcc :: discard_cmd_control
  gc_state :: 'g
  sm_bug :: bool

text \<open>
  The geometry, mount options and flags, the clock, and the results of calls out of the
  component: whether a summary page can be read, and the page counts of \<open>f2fs_need_SSR\<close> in
  sections. \<open>SIT_ENTRY_PER_BLOCK\<close> is a constant of \<open>linux/f2fs_fs.h\<close>.
\<close>

record seg_env =
  geo :: f2fs_sb_info
  secs_per_zone :: nat
  total_sections :: nat
  blkzoned :: bool
  unusable_blocks_per_sec :: nat
  SIT_ENTRY_PER_BLOCK :: nat
  cp_disabled :: bool
  block_unit_discard :: bool
  opt_noheap :: bool
  alloc_mode_reuse :: bool
  crc_recovery :: bool
  alloc_next :: nat             \<comment> \<open>\<open>last_victim[ALLOC_NEXT]\<close>\<close>
  boottime :: nat
  sum_page_ok :: "nat \<Rightarrow> bool"
  dirty_node_secs :: nat
  dirty_dent_secs :: nat
  dirty_imeta_secs :: nat
  min_ssr_sections :: nat
  reserved_sections :: nat
  seg_dev :: dev_env

definition all_cursegs :: "curseg_id list" where
  "all_cursegs = [C_log CURSEG_HOT_DATA, C_log CURSEG_WARM_DATA, C_log CURSEG_COLD_DATA, C_log CURSEG_HOT_NODE,
     C_log CURSEG_WARM_NODE, C_log CURSEG_COLD_NODE, CURSEG_COLD_DATA_PINNED, CURSEG_ALL_DATA_ATGC]"

definition bug_on :: "bool \<Rightarrow> 'g sm_info \<Rightarrow> 'g sm_info" where
  "bug_on c sm = (if c then sm\<lparr>sm_bug := True\<rparr> else sm)"

section \<open>Geometry\<close>

definition IS_DATASEG :: "seg_type \<Rightarrow> bool" where
  "IS_DATASEG t \<longleftrightarrow> t \<in> {CURSEG_HOT_DATA, CURSEG_WARM_DATA, CURSEG_COLD_DATA}"

definition IS_NODESEG :: "seg_type \<Rightarrow> bool" where
  "IS_NODESEG t \<longleftrightarrow> t \<in> {CURSEG_HOT_NODE, CURSEG_WARM_NODE, CURSEG_COLD_NODE}"

definition is_large_section :: "seg_env \<Rightarrow> bool" where
  "is_large_section env \<longleftrightarrow> segs_per_sec (geo env) > 1"

definition BLKS_PER_SEC :: "seg_env \<Rightarrow> nat" where
  "BLKS_PER_SEC env = segs_per_sec (geo env) * blocks_per_seg (geo env)"

definition CAP_BLKS_PER_SEC :: "seg_env \<Rightarrow> nat" where
  "CAP_BLKS_PER_SEC env = BLKS_PER_SEC env - unusable_blocks_per_sec env"

definition CAP_SEGS_PER_SEC :: "seg_env \<Rightarrow> nat" where
  "CAP_SEGS_PER_SEC env = segs_per_sec (geo env) - unusable_blocks_per_sec env div 2 ^ log_blocks_per_seg (geo env)"

definition GET_SEC_FROM_SEG :: "seg_env \<Rightarrow> nat \<Rightarrow> nat" where
  "GET_SEC_FROM_SEG env segno = (if segno = NULL_SEGNO then NULL_SEGNO else segno div segs_per_sec (geo env))"

definition GET_SEG_FROM_SEC :: "seg_env \<Rightarrow> nat \<Rightarrow> nat" where
  "GET_SEG_FROM_SEC env secno = u32 (secno * segs_per_sec (geo env))"

definition GET_ZONE_FROM_SEC :: "seg_env \<Rightarrow> nat \<Rightarrow> nat" where
  "GET_ZONE_FROM_SEC env secno = (if secno = NULL_SEGNO then NULL_SEGNO else secno div secs_per_zone env)"

definition GET_ZONE_FROM_SEG :: "seg_env \<Rightarrow> nat \<Rightarrow> nat" where
  "GET_ZONE_FROM_SEG env segno = GET_ZONE_FROM_SEC env (GET_SEC_FROM_SEG env segno)"

definition GET_BLKOFF_FROM_SEG0 :: "f2fs_sb_info \<Rightarrow> nat \<Rightarrow> nat" where
  "GET_BLKOFF_FROM_SEG0 sbi blk = GET_SEGOFF_FROM_SEG0 sbi blk mod blocks_per_seg sbi"

definition START_SEGNO :: "seg_env \<Rightarrow> nat \<Rightarrow> nat" where
  "START_SEGNO env segno = segno div SIT_ENTRY_PER_BLOCK env * SIT_ENTRY_PER_BLOCK env"

definition f2fs_usable_zone_blks_in_seg :: "seg_env \<Rightarrow> nat \<Rightarrow> nat" where
  "f2fs_usable_zone_blks_in_seg env segno =
     (if unusable_blocks_per_sec env = 0 then blocks_per_seg (geo env)
      else
        (let secno = GET_SEC_FROM_SEG env segno;
             seg_start = START_BLOCK (geo env) segno;
             sec_start_blkaddr = START_BLOCK (geo env) (GET_SEG_FROM_SEC env secno);
             sec_cap_blkaddr = u32 (sec_start_blkaddr + CAP_BLKS_PER_SEC env)
         in if seg_start \<ge> sec_cap_blkaddr then 0
            else if seg_start + blocks_per_seg (geo env) > sec_cap_blkaddr then sec_cap_blkaddr - seg_start
            else blocks_per_seg (geo env)))"

definition f2fs_usable_blks_in_seg :: "seg_env \<Rightarrow> nat \<Rightarrow> nat" where
  "f2fs_usable_blks_in_seg env segno =
     (if blkzoned env then f2fs_usable_zone_blks_in_seg env segno else blocks_per_seg (geo env))"

definition f2fs_usable_segs_in_sec :: "seg_env \<Rightarrow> nat \<Rightarrow> nat" where
  "f2fs_usable_segs_in_sec env segno = (if blkzoned env then CAP_SEGS_PER_SEC env else segs_per_sec (geo env))"

definition IS_CURSEG :: "'g sm_info \<Rightarrow> nat \<Rightarrow> bool" where
  "IS_CURSEG sm segno \<longleftrightarrow> list_ex (\<lambda>c. cs_segno (curseg sm c) = segno) all_cursegs"

definition IS_CURSEC :: "seg_env \<Rightarrow> 'g sm_info \<Rightarrow> nat \<Rightarrow> bool" where
  "IS_CURSEC env sm secno \<longleftrightarrow> list_ex (\<lambda>c. cs_segno (curseg sm c) div segs_per_sec (geo env) = secno) all_cursegs"

definition NEXT_FREE_BLKADDR :: "seg_env \<Rightarrow> curseg_info \<Rightarrow> nat" where
  "NEXT_FREE_BLKADDR env c = u32 (START_BLOCK (geo env) (cs_segno c) + next_blkoff c)"

section \<open>Valid blocks\<close>

definition get_seg_entry :: "'g sm_info \<Rightarrow> nat \<Rightarrow> sit_entry" where
  "get_seg_entry sm segno = sm_sentries (sit sm) segno"

definition put_seg_entry :: "nat \<Rightarrow> sit_entry \<Rightarrow> 'g sm_info \<Rightarrow> 'g sm_info" where
  "put_seg_entry segno se sm = sm\<lparr>sit := (sit sm)\<lparr>sm_sentries := (sm_sentries (sit sm))(segno := se)\<rparr>\<rparr>"

definition get_valid_blocks :: "seg_env \<Rightarrow> 'g sm_info \<Rightarrow> nat \<Rightarrow> bool \<Rightarrow> nat" where
  "get_valid_blocks env sm segno use_section =
     (if use_section \<and> is_large_section env then sec_valid (sit sm) (GET_SEC_FROM_SEG env segno)
      else valid_blocks (get_seg_entry sm segno))"

definition get_ckpt_valid_blocks :: "seg_env \<Rightarrow> 'g sm_info \<Rightarrow> nat \<Rightarrow> bool \<Rightarrow> nat" where
  "get_ckpt_valid_blocks env sm segno use_section =
     (if use_section \<and> is_large_section env
      then (let start_segno = START_SEGNO env segno
            in fold (\<lambda>i blocks. u32 (blocks + ckpt_valid_blocks (get_seg_entry sm (start_segno + i)))) [0..<segs_per_sec (geo env)] 0)
      else ckpt_valid_blocks (get_seg_entry sm segno))"

definition mark_sit_entry_dirty :: "nat \<Rightarrow> 'g sm_info \<Rightarrow> bool \<times> 'g sm_info" where
  "mark_sit_entry_dirty segno sm =
     (if dirty_sentries_bitmap (sit sm) segno then (True, sm)
      else (False, sm\<lparr>sit := (sit sm)\<lparr>dirty_sentries_bitmap := (dirty_sentries_bitmap (sit sm))(segno := True),
                                       dirty_sentries := dirty_sentries (sit sm) + 1\<rparr>\<rparr>))"

definition set_sit_entry_type :: "seg_type \<Rightarrow> nat \<Rightarrow> bool \<Rightarrow> 'g sm_info \<Rightarrow> 'g sm_info" where
  "set_sit_entry_type t segno modified sm =
     (let sm = put_seg_entry segno ((get_seg_entry sm segno)\<lparr>se_type := t\<rparr>) sm
      in if modified then snd (mark_sit_entry_dirty segno sm) else sm)"

definition get_mtime :: "seg_env \<Rightarrow> 'g sm_info \<Rightarrow> bool \<Rightarrow> nat" where
  "get_mtime env sm base_time =
     (let now = boottime env; s = sit sm
      in if now \<ge> mounted_time s then elapsed_time s + now - mounted_time s
         else if \<not> base_time
         then (let diff = mounted_time s - now in if elapsed_time s \<ge> diff then elapsed_time s - diff else 0)
         else elapsed_time s)"

definition get_segment_mtime :: "seg_env \<Rightarrow> 'g sm_info \<Rightarrow> nat \<Rightarrow> nat" where
  "get_segment_mtime env sm blkaddr =
     (let segno = GET_SEGNO (geo env) blkaddr
      in if segno = NULL_SEGNO then 0 else se_mtime (get_seg_entry sm segno))"

definition update_segment_mtime :: "seg_env \<Rightarrow> nat \<Rightarrow> nat \<Rightarrow> 'g sm_info \<Rightarrow> 'g sm_info" where
  "update_segment_mtime env blkaddr old_mtime sm =
     (let segno = GET_SEGNO (geo env) blkaddr; ctime = get_mtime env sm False;
          mtime = (if old_mtime \<noteq> 0 then old_mtime else ctime)
      in if segno = NULL_SEGNO then sm
         else
           (let se = get_seg_entry sm segno;
                se = (if se_mtime se = 0 then se\<lparr>se_mtime := mtime\<rparr>
                      else se\<lparr>se_mtime := (se_mtime se * valid_blocks se + mtime) mod 2 ^ 64 div (valid_blocks se + 1)\<rparr>);
                sm = put_seg_entry segno se sm
            in if ctime > max_mtime (sit sm) then sm\<lparr>sit := (sit sm)\<lparr>max_mtime := ctime\<rparr>\<rparr> else sm))"

text \<open>
  \<open>update_sit_entry\<close>, the part on the entry: the new entry, the amount left for the other
  counters, the changes of \<open>discard_blks\<close> and \<open>unusable_block_count\<close>, and whether a check failed.
\<close>

definition update_entry_set :: "seg_env \<Rightarrow> nat \<Rightarrow> sit_entry \<Rightarrow> sit_entry \<times> int \<times> int \<times> int \<times> bool" where
  "update_entry_set env offset se =
     (let exist = cur_valid_map se offset;
          se = se\<lparr>cur_valid_map := (cur_valid_map se)(offset := True)\<rparr>;
          del = (if exist then 0 else 1 :: int);
          se = (if exist then se\<lparr>valid_blocks := addu 10 (valid_blocks se) (- 1)\<rparr> else se);
          first = (block_unit_discard env \<and> \<not> discard_map se offset);
          se = (if block_unit_discard env then se\<lparr>discard_map := (discard_map se)(offset := True)\<rparr> else se);
          se = (if \<not> cp_disabled env
                then (if ckpt_valid_map se offset then se
                      else se\<lparr>ckpt_valid_map := (ckpt_valid_map se)(offset := True),
                             ckpt_valid_blocks := addu 10 (ckpt_valid_blocks se) 1\<rparr>)
                else se)
      in (se, del, if first then - 1 else 0, 0, exist))"

definition update_entry_clear :: "seg_env \<Rightarrow> nat \<Rightarrow> sit_entry \<Rightarrow> sit_entry \<times> int \<times> int \<times> int \<times> bool" where
  "update_entry_clear env offset se =
     (let exist = cur_valid_map se offset;
          se = se\<lparr>cur_valid_map := (cur_valid_map se)(offset := False)\<rparr>;
          del = (if exist then - 1 else 0 :: int);
          se = (if exist then se else se\<lparr>valid_blocks := addu 10 (valid_blocks se) 1\<rparr>);
          unusable = (if exist \<and> cp_disabled env \<and> ckpt_valid_map se offset then 1 else 0);
          freed = (block_unit_discard env \<and> discard_map se offset);
          se = (if block_unit_discard env then se\<lparr>discard_map := (discard_map se)(offset := False)\<rparr> else se)
      in (se, del, if freed then 1 else 0, unusable, \<not> exist))"

text \<open>The end of \<open>update_sit_entry\<close>: what is common to both directions.\<close>

definition finish_sit_entry :: "seg_env \<Rightarrow> nat \<Rightarrow> nat \<Rightarrow> sit_entry \<times> int \<times> int \<times> int \<times> bool \<Rightarrow> 'g sm_info \<Rightarrow> 'g sm_info" where
  "finish_sit_entry env segno offset u sm =
     (let (se, del, dd, du, bug) = u;
          se = (if ckpt_valid_map se offset then se else se\<lparr>ckpt_valid_blocks := addu 10 (ckpt_valid_blocks se) del\<rparr>);
          sm = bug_on bug (put_seg_entry segno se sm);
          sm = sm\<lparr>discard_blks := addu 32 (discard_blks sm) dd, unusable_block_count := addu 32 (unusable_block_count sm) du\<rparr>;
          sm = snd (mark_sit_entry_dirty segno sm);
          sm = sm\<lparr>sit := (sit sm)\<lparr>written_valid_blocks := addu 32 (written_valid_blocks (sit sm)) del\<rparr>\<rparr>;
          secno = GET_SEC_FROM_SEG env segno
      in if is_large_section env
         then sm\<lparr>sit := (sit sm)\<lparr>sec_valid := (sec_valid (sit sm))(secno := addu 32 (sec_valid (sit sm) secno) del)\<rparr>\<rparr>
         else sm)"

definition update_sit_entry :: "seg_env \<Rightarrow> nat \<Rightarrow> int \<Rightarrow> 'g sm_info \<Rightarrow> 'g sm_info" where
  "update_sit_entry env blkaddr del sm =
     (let segno = GET_SEGNO (geo env) blkaddr
      in if segno = NULL_SEGNO then sm
         else
           (let se = get_seg_entry sm segno;
                new_vblocks = int (valid_blocks se) + del;
                offset = GET_BLKOFF_FROM_SEG0 (geo env) blkaddr;
                sm = bug_on (new_vblocks < 0 \<or> new_vblocks > int (f2fs_usable_blks_in_seg env segno)) sm;
                se = se\<lparr>valid_blocks := addu 10 (valid_blocks se) del\<rparr>
            in finish_sit_entry env segno offset
                 (if del > 0 then update_entry_set env offset se else update_entry_clear env offset se) sm))"

definition f2fs_is_checkpointed_data :: "seg_env \<Rightarrow> 'g sm_info \<Rightarrow> nat \<Rightarrow> bool" where
  "f2fs_is_checkpointed_data env sm blkaddr =
     (if \<not> is_valid_data_blkaddr (geo env) blkaddr then True
      else ckpt_valid_map (get_seg_entry sm (GET_SEGNO (geo env) blkaddr)) (GET_BLKOFF_FROM_SEG0 (geo env) blkaddr))"

section \<open>Dirty segments\<close>

definition set_dirty :: "dirty_type \<Rightarrow> nat \<Rightarrow> dirty_seglist_info \<Rightarrow> dirty_seglist_info" where
  "set_dirty t segno d =
     (if dirty_segmap d t segno then d
      else d\<lparr>dirty_segmap := (dirty_segmap d)(t := (dirty_segmap d t)(segno := True)), nr_dirty := (nr_dirty d)(t := nr_dirty d t + 1)\<rparr>)"

definition clear_dirty :: "dirty_type \<Rightarrow> nat \<Rightarrow> dirty_seglist_info \<Rightarrow> dirty_seglist_info" where
  "clear_dirty t segno d =
     (if \<not> dirty_segmap d t segno then d
      else d\<lparr>dirty_segmap := (dirty_segmap d)(t := (dirty_segmap d t)(segno := False)), nr_dirty := (nr_dirty d)(t := nr_dirty d t - 1)\<rparr>)"

text \<open>\<open>__locate_dirty_segment\<close>; a type beyond the logs cannot occur in \<^typ>\<open>seg_type\<close>.\<close>

definition locate_dirty :: "seg_env \<Rightarrow> nat \<Rightarrow> dirty_type \<Rightarrow> 'g sm_info \<Rightarrow> 'g sm_info" where
  "locate_dirty env segno t sm =
     (if IS_CURSEG sm segno then sm
      else
        (let sm = sm\<lparr>dsl := set_dirty t segno (dsl sm)\<rparr>
         in if t \<noteq> DIRTY then sm
            else
              (let sm = sm\<lparr>dsl := set_dirty (Dirty_log (se_type (get_seg_entry sm segno))) segno (dsl sm)\<rparr>
               in if \<not> is_large_section env then sm
                  else
                    (let secno = GET_SEC_FROM_SEG env segno;
                         vb = get_valid_blocks env sm segno True;
                         sm = bug_on (vb = 0 \<or> vb = BLKS_PER_SEC env) sm
                     in if \<not> IS_CURSEC env sm secno
                        then sm\<lparr>dsl := (dsl sm)\<lparr>dirty_secmap := (dirty_secmap (dsl sm))(secno := True)\<rparr>\<rparr>
                        else sm))))"

definition remove_dirty :: "seg_env \<Rightarrow> nat \<Rightarrow> dirty_type \<Rightarrow> 'g sm_info \<Rightarrow> 'g sm_info" where
  "remove_dirty env segno t sm =
     (let sm = sm\<lparr>dsl := clear_dirty t segno (dsl sm)\<rparr>
      in if t \<noteq> DIRTY then sm
         else
           (let sm = sm\<lparr>dsl := clear_dirty (Dirty_log (se_type (get_seg_entry sm segno))) segno (dsl sm)\<rparr>;
                secno = GET_SEC_FROM_SEG env segno;
                vb = get_valid_blocks env sm segno True;
                sm = (if vb = 0 then sm\<lparr>dsl := (dsl sm)\<lparr>victim_secmap := (victim_secmap (dsl sm))(secno := False)\<rparr>\<rparr> else sm)
            in if \<not> is_large_section env then sm
               else if vb = 0 \<or> vb = BLKS_PER_SEC env
               then sm\<lparr>dsl := (dsl sm)\<lparr>dirty_secmap := (dirty_secmap (dsl sm))(secno := False)\<rparr>\<rparr>
               else if \<not> IS_CURSEC env sm secno
               then sm\<lparr>dsl := (dsl sm)\<lparr>dirty_secmap := (dirty_secmap (dsl sm))(secno := True)\<rparr>\<rparr>
               else sm))"

definition locate_dirty_segment :: "seg_env \<Rightarrow> nat \<Rightarrow> 'g sm_info \<Rightarrow> 'g sm_info" where
  "locate_dirty_segment env segno sm =
     (if segno = NULL_SEGNO \<or> IS_CURSEG sm segno then sm
      else
        (let usable_blocks = f2fs_usable_blks_in_seg env segno;
             vb = get_valid_blocks env sm segno False;
             ckpt_vb = get_ckpt_valid_blocks env sm segno False
         in if vb = 0 \<and> (\<not> cp_disabled env \<or> ckpt_vb = usable_blocks)
            then remove_dirty env segno DIRTY (locate_dirty env segno PRE sm)
            else if vb < usable_blocks then locate_dirty env segno DIRTY sm
            else remove_dirty env segno DIRTY sm))"

text \<open>The bits of \<open>for_each_set_bit\<close> are read as the loop goes: a bit that is cleared before its turn is skipped.\<close>

definition f2fs_dirty_to_prefree :: "seg_env \<Rightarrow> 'g sm_info \<Rightarrow> 'g sm_info" where
  "f2fs_dirty_to_prefree env sm =
     fold (\<lambda>segno sm.
        if \<not> dirty_segmap (dsl sm) DIRTY segno then sm
        else if get_valid_blocks env sm segno False \<noteq> 0 then sm
        else if IS_CURSEG sm segno then sm
        else remove_dirty env segno DIRTY (locate_dirty env segno PRE sm)) [0..<MAIN_SEGS (geo env)] sm"

definition get_free_segment :: "seg_env \<Rightarrow> 'g sm_info \<Rightarrow> nat" where
  "get_free_segment env sm =
     (case find (\<lambda>segno. dirty_segmap (dsl sm) DIRTY segno \<and> get_valid_blocks env sm segno False = 0 \<and>
                        get_ckpt_valid_blocks env sm segno False = 0) [0..<MAIN_SEGS (geo env)] of
        Some segno \<Rightarrow> segno | None \<Rightarrow> NULL_SEGNO)"

definition f2fs_invalidate_blocks :: "seg_env \<Rightarrow> nat \<Rightarrow> 'g sm_info \<Rightarrow> 'g sm_info" where
  "f2fs_invalidate_blocks env addr sm =
     (let segno = GET_SEGNO (geo env) addr; sm = bug_on (addr = NULL_ADDR (geo env)) sm
      in if addr = NEW_ADDR (geo env) \<or> addr = COMPRESS_ADDR (geo env) then sm
         else locate_dirty_segment env segno (update_sit_entry env addr (- 1) (update_segment_mtime env addr 0 sm)))"

section \<open>Free segments\<close>

definition set_free :: "seg_env \<Rightarrow> nat \<Rightarrow> free_segmap_info \<Rightarrow> free_segmap_info" where
  "set_free env segno fi =
     (let secno = GET_SEC_FROM_SEG env segno; start_segno = GET_SEG_FROM_SEC env secno;
          fi = fi\<lparr>free_segmap := (free_segmap fi)(segno := False), free_segments := addu 32 (free_segments fi) 1\<rparr>;
          nxt = find_next_bit (free_segmap fi) (start_segno + segs_per_sec (geo env)) start_segno
      in if nxt \<ge> start_segno + f2fs_usable_segs_in_sec env segno
         then fi\<lparr>free_secmap := (free_secmap fi)(secno := False), free_sections := addu 32 (free_sections fi) 1\<rparr>
         else fi)"

definition set_inuse :: "seg_env \<Rightarrow> nat \<Rightarrow> free_segmap_info \<Rightarrow> free_segmap_info" where
  "set_inuse env segno fi =
     (let secno = GET_SEC_FROM_SEG env segno;
          fi = fi\<lparr>free_segmap := (free_segmap fi)(segno := True), free_segments := addu 32 (free_segments fi) (- 1)\<rparr>
      in if free_secmap fi secno then fi
         else fi\<lparr>free_secmap := (free_secmap fi)(secno := True), free_sections := addu 32 (free_sections fi) (- 1)\<rparr>)"

definition set_test_and_free :: "seg_env \<Rightarrow> nat \<Rightarrow> bool \<Rightarrow> 'g sm_info \<Rightarrow> 'g sm_info" where
  "set_test_and_free env segno inmem sm =
     (let fi = fsm sm; secno = GET_SEC_FROM_SEG env segno; start_segno = GET_SEG_FROM_SEC env secno
      in if \<not> free_segmap fi segno then sm
         else
           (let fi = fi\<lparr>free_segmap := (free_segmap fi)(segno := False), free_segments := addu 32 (free_segments fi) 1\<rparr>
            in if \<not> inmem \<and> IS_CURSEC env sm secno then sm\<lparr>fsm := fi\<rparr>
               else
                 (let nxt = find_next_bit (free_segmap fi) (start_segno + segs_per_sec (geo env)) start_segno
                  in if nxt \<ge> start_segno + f2fs_usable_segs_in_sec env segno \<and> free_secmap fi secno
                     then sm\<lparr>fsm := fi\<lparr>free_secmap := (free_secmap fi)(secno := False), free_sections := addu 32 (free_sections fi) 1\<rparr>\<rparr>
                     else sm\<lparr>fsm := fi\<rparr>)))"

definition set_test_and_inuse :: "seg_env \<Rightarrow> nat \<Rightarrow> 'g sm_info \<Rightarrow> 'g sm_info" where
  "set_test_and_inuse env segno sm =
     (if free_segmap (fsm sm) segno then sm else sm\<lparr>fsm := set_inuse env segno (fsm sm)\<rparr>)"

definition set_prefree_as_free_segments :: "seg_env \<Rightarrow> 'g sm_info \<Rightarrow> 'g sm_info" where
  "set_prefree_as_free_segments env sm =
     fold (\<lambda>segno sm. if dirty_segmap (dsl sm) PRE segno then set_test_and_free env segno False sm else sm)
       [0..<MAIN_SEGS (geo env)] sm"

section \<open>Current segments\<close>

definition is_next_segment_free :: "seg_env \<Rightarrow> 'g sm_info \<Rightarrow> curseg_info \<Rightarrow> bool" where
  "is_next_segment_free env sm c =
     (let segno = u32 (cs_segno c + 1)
      in if segno < MAIN_SEGS (geo env) \<and> segno mod segs_per_sec (geo env) \<noteq> 0 then \<not> free_segmap (fsm sm) segno else False)"

text \<open>The \<open>while\<close> loop of \<open>get_new_segment\<close> that walks to the left.\<close>

fun left_scan :: "bitmap \<Rightarrow> nat \<Rightarrow> nat \<Rightarrow> nat" where
  "left_scan m n 0 = (if m 0 then find_next_zero_bit m n 0 else 0)"
| "left_scan m n (Suc k) = (if m (Suc k) then left_scan m n k else Suc k)"

text \<open>
  One pass from \<open>find_other_zone\<close> to \<open>skip_left\<close>: section, \<open>left_start\<close>, \<open>go_left\<close> and whether a
  check failed.
\<close>

definition find_section :: "seg_env \<Rightarrow> free_segmap_info \<Rightarrow> bool \<Rightarrow> nat \<Rightarrow> nat \<Rightarrow> bool \<Rightarrow> nat \<times> nat \<times> bool \<times> bool" where
  "find_section env fi to_right hint left_start go_left =
     (let n = total_sections env;
          secno = find_next_zero_bit (free_secmap fi) n hint;
          full = (secno \<ge> n);
          go_left' = (go_left \<or> full \<and> \<not> to_right);
          left_start' = (if full \<and> \<not> to_right then sub32 hint 1 else left_start);
          secno' = (if full \<and> to_right then find_next_zero_bit (free_secmap fi) n 0 else secno)
      in if \<not> go_left' then (secno', left_start', False, secno' \<ge> n)
         else (let l = left_scan (free_secmap fi) n left_start' in (l, l, True, l \<ge> n)))"

text \<open>Whether the section found in the first pass is taken, and the hint for the other pass.\<close>

definition zone_ok :: "seg_env \<Rightarrow> 'g sm_info \<Rightarrow> bool \<Rightarrow> nat \<Rightarrow> nat \<Rightarrow> bool \<Rightarrow> bool" where
  "zone_ok env sm to_right old_zoneno zoneno go_left \<longleftrightarrow>
     (let total_zones = total_sections env div secs_per_zone env
      in secs_per_zone env = 1 \<or> zoneno = old_zoneno \<or>
         \<not> to_right \<and> (\<not> go_left \<and> zoneno + 1 \<ge> total_zones \<or> go_left \<and> zoneno = 0) \<or>
         \<not> list_ex (\<lambda>c. cs_zone (curseg sm c) = zoneno) all_cursegs)"

definition other_zone_hint :: "seg_env \<Rightarrow> nat \<Rightarrow> bool \<Rightarrow> nat" where
  "other_zone_hint env zoneno go_left =
     (let total_zones = total_sections env div secs_per_zone env
      in if go_left then sub32 (zoneno * secs_per_zone env) 1
         else if zoneno + 1 \<ge> total_zones then 0 else (zoneno + 1) * secs_per_zone env)"

definition pick_segment :: "seg_env \<Rightarrow> 'g sm_info \<Rightarrow> nat \<Rightarrow> bool \<Rightarrow> bool \<Rightarrow> nat \<times> bool" where
  "pick_segment env sm newseg new_sec to_right =
     (let fi = fsm sm; hint = GET_SEC_FROM_SEG env newseg; old_zoneno = GET_ZONE_FROM_SEG env newseg;
          lim = GET_SEG_FROM_SEC env (hint + 1);
          segno = find_next_zero_bit (free_segmap fi) lim (newseg + 1)
      in if \<not> new_sec \<and> u32 (newseg + 1) mod segs_per_sec (geo env) \<noteq> 0 \<and> segno < lim then (segno, False)
         else
           (let (secno, left_start, go_left, bug) = find_section env fi to_right hint hint False;
                zoneno = GET_ZONE_FROM_SEC env secno
            in if zone_ok env sm to_right old_zoneno zoneno go_left then (GET_SEG_FROM_SEC env secno, bug)
               else
                 (let (secno, _, _, bug') = find_section env fi to_right (other_zone_hint env zoneno go_left) left_start go_left
                  in (GET_SEG_FROM_SEC env secno, bug \<or> bug'))))"

definition get_new_segment :: "seg_env \<Rightarrow> nat \<Rightarrow> bool \<Rightarrow> bool \<Rightarrow> 'g sm_info \<Rightarrow> nat \<times> 'g sm_info" where
  "get_new_segment env newseg new_sec to_right sm =
     (let (segno, bug) = pick_segment env sm newseg new_sec to_right;
          sm = bug_on (bug \<or> free_segmap (fsm sm) segno) sm
      in (segno, sm\<lparr>fsm := set_inuse env segno (fsm sm)\<rparr>))"

definition upd_curseg :: "curseg_id \<Rightarrow> (curseg_info \<Rightarrow> curseg_info) \<Rightarrow> 'g sm_info \<Rightarrow> 'g sm_info" where
  "upd_curseg c f sm = sm\<lparr>curseg := (curseg sm)(c := f (curseg sm c))\<rparr>"

definition reset_curseg :: "seg_env \<Rightarrow> curseg_id \<Rightarrow> bool \<Rightarrow> 'g sm_info \<Rightarrow> 'g sm_info" where
  "reset_curseg env type modified sm =
     (let seg_type = cs_seg_type (curseg sm type);
          sm = upd_curseg type (\<lambda>c. c\<lparr>inited := True, cs_segno := next_segno c, cs_zone := GET_ZONE_FROM_SEG env (next_segno c),
                                    next_blkoff := 0, next_segno := NULL_SEGNO, sum_type_node := IS_NODESEG seg_type\<rparr>) sm
      in set_sit_entry_type seg_type (cs_segno (curseg sm type)) modified sm)"

definition get_next_segno :: "seg_env \<Rightarrow> 'g sm_info \<Rightarrow> curseg_id \<Rightarrow> nat" where
  "get_next_segno env sm type =
     (let c = curseg sm type
      in if is_large_section env then cs_segno c
         else if \<not> inited c then 0
         else if cp_disabled env then 0
         else if opt_noheap env \<and> (cs_seg_type c = CURSEG_HOT_DATA \<or> IS_NODESEG (cs_seg_type c)) then 0
         else if alloc_next env \<noteq> 0 then alloc_next env
         else if alloc_mode_reuse env then 0
         else cs_segno c)"

definition write_sum_page :: "curseg_id \<Rightarrow> 'g sm_info \<Rightarrow> 'g sm_info" where
  "write_sum_page type sm =
     (let c = curseg sm type in if inited c then sm\<lparr>ssa := (ssa sm)(cs_segno c := sum_entries c)\<rparr> else sm)"

definition new_curseg :: "seg_env \<Rightarrow> curseg_id \<Rightarrow> bool \<Rightarrow> 'g sm_info \<Rightarrow> 'g sm_info" where
  "new_curseg env type new_sec sm =
     (let sm = write_sum_page type sm;
          to_right = (cs_seg_type (curseg sm type) \<in> {CURSEG_WARM_DATA, CURSEG_COLD_DATA} \<or> opt_noheap env);
          (segno, sm) = get_new_segment env (get_next_segno env sm type) new_sec to_right sm;
          sm = upd_curseg type (\<lambda>c. c\<lparr>next_segno := segno\<rparr>) sm;
          sm = reset_curseg env type True sm
      in upd_curseg type (\<lambda>c. c\<lparr>alloc_type := LFS\<rparr>) sm)"

definition next_free_blkoff :: "seg_env \<Rightarrow> 'g sm_info \<Rightarrow> nat \<Rightarrow> nat \<Rightarrow> nat" where
  "next_free_blkoff env sm segno start =
     (let se = get_seg_entry sm segno
      in find_next_zero_bit (\<lambda>i. ckpt_valid_map se i \<or> cur_valid_map se i) (blocks_per_seg (geo env)) start)"

definition refresh_next_blkoff :: "seg_env \<Rightarrow> curseg_id \<Rightarrow> 'g sm_info \<Rightarrow> 'g sm_info" where
  "refresh_next_blkoff env type sm =
     upd_curseg type (\<lambda>c. c\<lparr>next_blkoff :=
       (if alloc_type c = SSR then next_free_blkoff env sm (cs_segno c) (next_blkoff c + 1) else u16 (next_blkoff c + 1))\<rparr>) sm"

definition f2fs_segment_has_free_slot :: "seg_env \<Rightarrow> 'g sm_info \<Rightarrow> nat \<Rightarrow> bool" where
  "f2fs_segment_has_free_slot env sm segno \<longleftrightarrow> next_free_blkoff env sm segno 0 < blocks_per_seg (geo env)"

definition change_curseg :: "seg_env \<Rightarrow> curseg_id \<Rightarrow> 'g sm_info \<Rightarrow> 'g sm_info" where
  "change_curseg env type sm =
     (let new_segno = next_segno (curseg sm type);
          sm = write_sum_page type sm;
          sm = set_test_and_inuse env new_segno sm;
          sm = remove_dirty env new_segno DIRTY (remove_dirty env new_segno PRE sm);
          sm = reset_curseg env type True sm;
          sm = upd_curseg type (\<lambda>c. c\<lparr>alloc_type := SSR, next_blkoff := next_free_blkoff env sm (cs_segno c) 0\<rparr>) sm
      in upd_curseg type (\<lambda>c. c\<lparr>sum_entries := (if sum_page_ok env new_segno then ssa sm new_segno else (\<lambda>_. (0, 0, 0)))\<rparr>) sm)"

section \<open>Allocation\<close>

text \<open>
  \<open>get_ssr_segment\<close> asks victim selection (\<open>v_ops->get_victim\<close>, a function pointer) for a dirty
  segment of the log, then of the other logs of the same kind. \<open>gv\<close> is that function, called with
  \<open>BG_GC\<close>: log, mode, age.
\<close>

type_synonym 'g victim_fn = "seg_env \<Rightarrow> seg_type \<Rightarrow> alloc_mode \<Rightarrow> nat \<Rightarrow> 'g sm_info \<Rightarrow> nat option \<times> 'g sm_info"

definition ssr_types :: "seg_type \<Rightarrow> seg_type list" where
  "ssr_types t =
     (if IS_NODESEG t
      then (if t = CURSEG_HOT_NODE then [CURSEG_HOT_NODE, CURSEG_WARM_NODE, CURSEG_COLD_NODE]
            else [CURSEG_COLD_NODE, CURSEG_WARM_NODE, CURSEG_HOT_NODE])
      else (if t = CURSEG_HOT_DATA then [CURSEG_HOT_DATA, CURSEG_WARM_DATA, CURSEG_COLD_DATA]
            else [CURSEG_COLD_DATA, CURSEG_WARM_DATA, CURSEG_HOT_DATA]))"

fun ssr_search :: "'g victim_fn \<Rightarrow> seg_env \<Rightarrow> alloc_mode \<Rightarrow> nat \<Rightarrow> seg_type list \<Rightarrow> 'g sm_info \<Rightarrow> nat option \<times> 'g sm_info" where
  "ssr_search gv env mode age [] sm = (None, sm)"
| "ssr_search gv env mode age (t # ts) sm =
     (case gv env t mode age sm of
        (Some segno, sm) \<Rightarrow> (Some segno, sm)
      | (None, sm) \<Rightarrow> ssr_search gv env mode age ts sm)"

definition get_ssr_segment ::
    "'g victim_fn \<Rightarrow> seg_env \<Rightarrow> curseg_id \<Rightarrow> alloc_mode \<Rightarrow> nat \<Rightarrow> 'g sm_info \<Rightarrow> bool \<times> 'g sm_info" where
  "get_ssr_segment gv env type mode age sm =
     (let t = cs_seg_type (curseg sm type);
          (r, sm) = ssr_search gv env mode age (t # filter (\<lambda>i. i \<noteq> t) (ssr_types t)) sm
      in case r of
           Some segno \<Rightarrow> (True, upd_curseg type (\<lambda>c. c\<lparr>next_segno := segno\<rparr>) sm)
         | None \<Rightarrow>
             (let segno = get_free_segment env sm
              in if cp_disabled env \<and> segno \<noteq> NULL_SEGNO then (True, upd_curseg type (\<lambda>c. c\<lparr>next_segno := segno\<rparr>) sm)
                 else (False, sm)))"

definition f2fs_need_SSR :: "seg_env \<Rightarrow> 'g sm_info \<Rightarrow> bool" where
  "f2fs_need_SSR env sm =
     (if lfs_mode (geo env) then False
      else if sb_gc_mode (geo env) = GC_URGENT_HIGH then True
      else if cp_disabled env then True
      else free_sections (fsm sm) \<le>
        dirty_node_secs env + 2 * dirty_dent_secs env + dirty_imeta_secs env + min_ssr_sections env + reserved_sections env)"

definition need_new_seg :: "'g victim_fn \<Rightarrow> seg_env \<Rightarrow> curseg_id \<Rightarrow> 'g sm_info \<Rightarrow> bool \<times> 'g sm_info" where
  "need_new_seg gv env type sm =
     (let c = curseg sm type
      in if \<not> crc_recovery env \<and> cs_seg_type c = CURSEG_WARM_NODE then (True, sm)
         else if alloc_type c = LFS \<and> is_next_segment_free env sm c \<and> \<not> cp_disabled env then (True, sm)
         else if \<not> f2fs_need_SSR env sm then (True, sm)
         else (let (found, sm) = get_ssr_segment gv env type SSR 0 sm in (\<not> found, sm)))"

definition get_atssr_segment ::
    "'g victim_fn \<Rightarrow> seg_env \<Rightarrow> curseg_id \<Rightarrow> seg_type \<Rightarrow> alloc_mode \<Rightarrow> nat \<Rightarrow> 'g sm_info \<Rightarrow> 'g sm_info" where
  "get_atssr_segment gv env type target_type mode age sm =
     (let sm = upd_curseg type (\<lambda>c. c\<lparr>cs_seg_type := target_type\<rparr>) sm;
          (found, sm) = get_ssr_segment gv env type mode age sm
      in if found
         then (let t = se_type (get_seg_entry sm (next_segno (curseg sm type)))
               in change_curseg env type (upd_curseg type (\<lambda>c. c\<lparr>cs_seg_type := t\<rparr>) sm))
         else new_curseg env type True (upd_curseg type (\<lambda>c. c\<lparr>cs_seg_type := CURSEG_COLD_DATA\<rparr>) sm))"

definition has_curseg_space :: "seg_env \<Rightarrow> curseg_info \<Rightarrow> bool" where
  "has_curseg_space env c \<longleftrightarrow> next_blkoff c < f2fs_usable_blks_in_seg env (cs_segno c)"

definition add_sum_entry :: "curseg_id \<Rightarrow> summary \<Rightarrow> 'g sm_info \<Rightarrow> 'g sm_info" where
  "add_sum_entry type entry sm = upd_curseg type (\<lambda>c. c\<lparr>sum_entries := (sum_entries c)(next_blkoff c := entry)\<rparr>) sm"

text \<open>The replacement of a current segment that is full.\<close>

definition next_curseg :: "'g victim_fn \<Rightarrow> seg_env \<Rightarrow> curseg_id \<Rightarrow> nat \<Rightarrow> 'g sm_info \<Rightarrow> 'g sm_info" where
  "next_curseg gv env type old_segno sm =
     (if type = CURSEG_ALL_DATA_ATGC
      then (let se = get_seg_entry sm old_segno in get_atssr_segment gv env type (se_type se) AT_SSR (se_mtime se) sm)
      else (let (new, sm) = need_new_seg gv env type sm
            in if new then new_curseg env type False sm else change_curseg env type sm))"

text \<open>
  \<open>f2fs_allocate_data_block\<close>: the address and the new state. What follows for the page (the node
  footer and the list of the bio) is outside the component.
\<close>

definition f2fs_allocate_data_block ::
    "'g victim_fn \<Rightarrow> seg_env \<Rightarrow> nat \<Rightarrow> summary \<Rightarrow> curseg_id \<Rightarrow> 'g sm_info \<Rightarrow> nat \<times> 'g sm_info" where
  "f2fs_allocate_data_block gv env old_blkaddr entry type sm =
     (let from_gc = (type = CURSEG_ALL_DATA_ATGC);
          old_segno = GET_SEGNO (geo env) old_blkaddr;
          sm = bug_on (from_gc \<and> (old_segno = NULL_SEGNO \<or> IS_NODESEG (se_type (get_seg_entry sm old_segno)))) sm;
          new_blkaddr = NEXT_FREE_BLKADDR env (curseg sm type);
          sm = bug_on (next_blkoff (curseg sm type) \<ge> blocks_per_seg (geo env)) sm;
          sm = sm\<lparr>sm_dcc := f2fs_wait_discard_bio (seg_dev env) (geo env) (sm_dcc sm) new_blkaddr\<rparr>;
          sm = add_sum_entry type entry sm;
          sm = refresh_next_blkoff env type sm;
          old_mtime = (if from_gc then get_segment_mtime env sm old_blkaddr else 0);
          sm = (if from_gc then sm else update_segment_mtime env old_blkaddr 0 sm);
          sm = update_segment_mtime env new_blkaddr old_mtime sm;
          sm = update_sit_entry env new_blkaddr 1 sm;
          sm = update_sit_entry env old_blkaddr (- 1) sm;
          sm = (if \<not> has_curseg_space env (curseg sm type) then next_curseg gv env type old_segno sm else sm);
          sm = locate_dirty_segment env old_segno sm;
          sm = locate_dirty_segment env (GET_SEGNO (geo env) new_blkaddr) sm
      in (new_blkaddr, sm))"

definition allocate_new_segment :: "seg_env \<Rightarrow> curseg_id \<Rightarrow> bool \<Rightarrow> bool \<Rightarrow> 'g sm_info \<Rightarrow> 'g sm_info" where
  "allocate_new_segment env type new_sec force sm =
     (let c = curseg sm type
      in if inited c \<and> \<not> (force \<or> next_blkoff c \<noteq> 0 \<or> get_valid_blocks env sm (cs_segno c) new_sec \<noteq> 0) \<and>
            get_ckpt_valid_blocks env sm (cs_segno c) new_sec = 0
         then sm
         else locate_dirty_segment env (cs_segno c) (new_curseg env type True sm))"

definition f2fs_allocate_new_section :: "seg_env \<Rightarrow> curseg_id \<Rightarrow> bool \<Rightarrow> 'g sm_info \<Rightarrow> 'g sm_info" where
  "f2fs_allocate_new_section env type force = allocate_new_segment env type True force"

definition f2fs_allocate_new_segments :: "seg_env \<Rightarrow> 'g sm_info \<Rightarrow> 'g sm_info" where
  "f2fs_allocate_new_segments env =
     fold (\<lambda>t. allocate_new_segment env (C_log t) False False) [CURSEG_HOT_DATA, CURSEG_WARM_DATA, CURSEG_COLD_DATA]"

definition f2fs_allocate_segment_for_resize ::
    "'g victim_fn \<Rightarrow> seg_env \<Rightarrow> curseg_id \<Rightarrow> nat \<Rightarrow> nat \<Rightarrow> 'g sm_info \<Rightarrow> 'g sm_info" where
  "f2fs_allocate_segment_for_resize gv env type start end' sm =
     (let segno = cs_segno (curseg sm type)
      in if segno < start \<or> segno > end' then sm
         else (let (found, sm) = (if f2fs_need_SSR env sm then get_ssr_segment gv env type SSR 0 sm else (False, sm));
                   sm = (if found then change_curseg env type sm else new_curseg env type True sm)
               in locate_dirty_segment env segno sm))"

text \<open>The logs that live only in memory are put aside around a checkpoint.\<close>

definition save_inmem_curseg :: "seg_env \<Rightarrow> curseg_id \<Rightarrow> 'g sm_info \<Rightarrow> 'g sm_info" where
  "save_inmem_curseg env type sm =
     (let c = curseg sm type
      in if \<not> inited c then sm
         else if get_valid_blocks env sm (cs_segno c) False \<noteq> 0 then write_sum_page type sm
         else set_test_and_free env (cs_segno c) True sm)"

definition restore_inmem_curseg :: "seg_env \<Rightarrow> curseg_id \<Rightarrow> 'g sm_info \<Rightarrow> 'g sm_info" where
  "restore_inmem_curseg env type sm =
     (let c = curseg sm type
      in if \<not> inited c then sm
         else if get_valid_blocks env sm (cs_segno c) False \<noteq> 0 then sm
         else set_test_and_inuse env (cs_segno c) sm)"

definition f2fs_save_inmem_curseg :: "bool \<Rightarrow> seg_env \<Rightarrow> 'g sm_info \<Rightarrow> 'g sm_info" where
  "f2fs_save_inmem_curseg atgc_enabled env sm =
     (let sm = save_inmem_curseg env CURSEG_COLD_DATA_PINNED sm
      in if atgc_enabled then save_inmem_curseg env CURSEG_ALL_DATA_ATGC sm else sm)"

definition f2fs_restore_inmem_curseg :: "bool \<Rightarrow> seg_env \<Rightarrow> 'g sm_info \<Rightarrow> 'g sm_info" where
  "f2fs_restore_inmem_curseg atgc_enabled env sm =
     (let sm = restore_inmem_curseg env CURSEG_COLD_DATA_PINNED sm
      in if atgc_enabled then restore_inmem_curseg env CURSEG_ALL_DATA_ATGC sm else sm)"

definition f2fs_init_inmem_curseg :: "'g victim_fn \<Rightarrow> bool \<Rightarrow> seg_env \<Rightarrow> 'g sm_info \<Rightarrow> 'g sm_info" where
  "f2fs_init_inmem_curseg gv atgc_enabled env sm =
     (if \<not> atgc_enabled then sm else get_atssr_segment gv env CURSEG_ALL_DATA_ATGC CURSEG_COLD_DATA SSR 0 sm)"

end
