(* ===== verification/Segment_Inv.thy ===== *)
theory Segment_Inv
  imports Segment
begin

text \<open>
  The invariant of the segment manager: counters equal the numbers of bits, free segments
  hold no live block, every log writes into a segment of its own and its next block is not
  live, and prefree segments are empty. A block is live when it is valid now or valid in the
  last checkpoint.
\<close>

section \<open>Geometry\<close>

definition seg_geom :: "seg_env \<Rightarrow> bool" where
  "seg_geom env \<longleftrightarrow>
     geom_ok (geo env) \<and> \<not> blkzoned env \<and> 0 < segs_per_sec (geo env) \<and>
     main_segments (geo env) = total_sections env * segs_per_sec (geo env) \<and> 0 < secs_per_zone env \<and>
     blocks_per_seg (geo env) \<le> 512 \<and> main_segments (geo env) < NULL_SEGNO"

abbreviation nblk :: "seg_env \<Rightarrow> nat" where "nblk env \<equiv> blocks_per_seg (geo env)"
abbreviation nseg :: "seg_env \<Rightarrow> nat" where "nseg env \<equiv> main_segments (geo env)"
abbreviation sps :: "seg_env \<Rightarrow> nat" where "sps env \<equiv> segs_per_sec (geo env)"

definition blk_of :: "seg_env \<Rightarrow> nat \<Rightarrow> nat \<Rightarrow> nat" where
  "blk_of env s o' = main_start (geo env) + s * nblk env + o'"

lemma nblk_pos: "seg_geom env \<Longrightarrow> 0 < nblk env"
  by (simp add: seg_geom_def geom_ok_def)

lemma blk_main:
  assumes g: "seg_geom env" and s: "s < nseg env" "o' < nblk env"
  shows "main_start (geo env) \<le> blk_of env s o'" "blk_of env s o' < main_end (geo env)" "blk_of env s o' < 2 ^ 32"
proof -
  have b: "nblk env = 2 ^ log_blocks_per_seg (geo env)" and m: "main_end (geo env) < 2 ^ 32"
    using g by (simp_all add: seg_geom_def geom_ok_def)
  have "s * nblk env + o' < s * nblk env + nblk env" using s by simp
  also have "\<dots> = Suc s * nblk env" by simp
  also have "\<dots> \<le> nseg env * nblk env" using s by (intro mult_le_mono1) simp
  finally show "main_start (geo env) \<le> blk_of env s o'" "blk_of env s o' < main_end (geo env)"
    by (simp_all add: blk_of_def main_end_def b)
  then show "blk_of env s o' < 2 ^ 32" using m by simp
qed

lemma blk_segno:
  assumes g: "seg_geom env" and s: "s < nseg env" "o' < nblk env"
  shows "GET_SEGNO (geo env) (blk_of env s o') = s"
proof -
  have "GET_SEGNO (geo env) (blk_of env s o') = (blk_of env s o' - main_start (geo env)) div nblk env"
    using g blk_main[OF g s] by (intro GET_SEGNO_main) (simp_all add: seg_geom_def)
  then show ?thesis using s by (simp add: blk_of_def)
qed

lemma blk_off:
  assumes g: "seg_geom env" and s: "s < nseg env" "o' < nblk env"
  shows "GET_BLKOFF_FROM_SEG0 (geo env) (blk_of env s o') = o'"
proof -
  have b: "nblk env = 2 ^ log_blocks_per_seg (geo env)" using g by (simp add: seg_geom_def geom_ok_def)
  have "sub32 (blk_of env s o') (seg0_blkaddr (geo env)) = (start_segno (geo env) + s) * nblk env + o'"
    by (simp add: blk_of_def main_start_def sub32_le b algebra_simps)
  then show ?thesis using s by (simp add: GET_BLKOFF_FROM_SEG0_def GET_SEGOFF_FROM_SEG0_def)
qed

lemma start_block:
  assumes "seg_geom env" "s \<le> nseg env"
  shows "START_BLOCK (geo env) s = blk_of env s 0"
  using assms START_BLOCK_eq[of "geo env" s] by (simp add: seg_geom_def blk_of_def)

lemma next_free_blk:
  assumes g: "seg_geom env" and s: "cs_segno c < nseg env" "next_blkoff c < nblk env"
  shows "NEXT_FREE_BLKADDR env c = blk_of env (cs_segno c) (next_blkoff c)"
  using start_block[OF g, of "cs_segno c"] s blk_main(3)[OF g s] by (simp add: NEXT_FREE_BLKADDR_def blk_of_def u32_id)

lemma blk_of_inj:
  assumes "o1 < nblk env" "o2 < nblk env" "blk_of env s1 o1 = blk_of env s2 o2"
  shows "s1 = s2" "o1 = o2"
proof -
  have e: "s1 * nblk env + o1 = s2 * nblk env + o2" using assms(3) by (simp add: blk_of_def)
  have "s1 = (s1 * nblk env + o1) div nblk env" using assms by simp
  also have "\<dots> = s2" unfolding e using assms by simp
  finally show "s1 = s2" .
  with e show "o1 = o2" by simp
qed

lemma usable [simp]: "seg_geom env \<Longrightarrow> f2fs_usable_blks_in_seg env s = nblk env" "seg_geom env \<Longrightarrow> f2fs_usable_segs_in_sec env s = sps env"
  by (simp_all add: seg_geom_def f2fs_usable_blks_in_seg_def f2fs_usable_segs_in_sec_def)

lemma seg_not_null: "seg_geom env \<Longrightarrow> s < nseg env \<Longrightarrow> s \<noteq> NULL_SEGNO"
  by (auto simp: seg_geom_def)

lemma sec_of: "seg_geom env \<Longrightarrow> s < nseg env \<Longrightarrow> GET_SEC_FROM_SEG env s = s div sps env"
  by (simp add: GET_SEC_FROM_SEG_def seg_not_null)

lemma sec_less: "seg_geom env \<Longrightarrow> s < nseg env \<Longrightarrow> s div sps env < total_sections env"
  by (simp add: seg_geom_def less_mult_imp_div_less)

lemma seg_of_sec:
  assumes g: "seg_geom env" and k: "k \<le> total_sections env"
  shows "GET_SEG_FROM_SEC env k = k * sps env"
proof -
  have "k * sps env \<le> nseg env" using g k by (simp add: seg_geom_def)
  also have "\<dots> < 2 ^ 32" using g by (simp add: seg_geom_def NULL_SEGNO_def UINT_MAX_def)
  finally show ?thesis by (simp add: GET_SEG_FROM_SEC_def u32_id)
qed

section \<open>The invariant\<close>

definition seg :: "'g sm_info \<Rightarrow> nat \<Rightarrow> sit_entry" where
  "seg sm s = sm_sentries (sit sm) s"

definition live :: "'g sm_info \<Rightarrow> nat \<Rightarrow> nat \<Rightarrow> bool" where
  "live sm s o' \<longleftrightarrow> cur_valid_map (seg sm s) o' \<or> ckpt_valid_map (seg sm s) o'"

definition entry_ok :: "nat \<Rightarrow> sit_entry \<Rightarrow> bool" where
  "entry_ok n se \<longleftrightarrow>
     valid_blocks se = bits (cur_valid_map se) n \<and>
     ckpt_valid_blocks se = bits (\<lambda>i. cur_valid_map se i \<or> ckpt_valid_map se i) n"

definition sit_ok :: "seg_env \<Rightarrow> 'g sm_info \<Rightarrow> bool" where
  "sit_ok env sm \<longleftrightarrow>
     (\<forall>s < nseg env. entry_ok (nblk env) (seg sm s)) \<and>
     written_valid_blocks (sit sm) = (\<Sum>s < nseg env. valid_blocks (seg sm s)) \<and>
     (is_large_section env \<longrightarrow>
        (\<forall>k < total_sections env. sec_valid (sit sm) k = (\<Sum>j < sps env. valid_blocks (seg sm (k * sps env + j))))) \<and>
     dirty_sentries (sit sm) = bits (dirty_sentries_bitmap (sit sm)) (nseg env) \<and>
     (\<forall>s < nseg env. \<not> dirty_sentries_bitmap (sit sm) s \<longrightarrow> (\<forall>i < nblk env. ckpt_valid_map (seg sm s) i = cur_valid_map (seg sm s) i))"

definition free_ok :: "seg_env \<Rightarrow> free_segmap_info \<Rightarrow> bool" where
  "free_ok env fi \<longleftrightarrow>
     free_segments fi = bits (\<lambda>s. \<not> free_segmap fi s) (nseg env) \<and>
     free_sections fi = bits (\<lambda>k. \<not> free_secmap fi k) (total_sections env) \<and>
     (\<forall>s < nseg env. free_segmap fi s \<longrightarrow> free_secmap fi (s div sps env))"

definition dirty_ok :: "seg_env \<Rightarrow> 'g sm_info \<Rightarrow> bool" where
  "dirty_ok env sm \<longleftrightarrow>
     (\<forall>t. nr_dirty (dsl sm) t = int (bits (dirty_segmap (dsl sm) t) (nseg env))) \<and>
     (\<forall>t s. dirty_segmap (dsl sm) t s \<longrightarrow> s < nseg env \<and> free_segmap (fsm sm) s \<and> \<not> IS_CURSEG sm s) \<and>
     (\<forall>t s. dirty_segmap (dsl sm) (Dirty_log t) s \<longrightarrow> dirty_segmap (dsl sm) DIRTY s \<and> se_type (seg sm s) = t) \<and>
     (\<forall>s. dirty_segmap (dsl sm) PRE s \<longrightarrow> valid_blocks (seg sm s) = 0)"

text \<open>
  A log writes into a segment in use; the blocks it will write are not live: from \<open>next_blkoff\<close>
  on in \<open>LFS\<close> mode, the next one in \<open>SSR\<close> mode. The logs in \<open>X\<close> may be at the end of their segment
  or, before their first use, have any type.
\<close>

definition log_ok :: "seg_env \<Rightarrow> 'g sm_info \<Rightarrow> curseg_info \<Rightarrow> bool" where
  "log_ok env sm c \<longleftrightarrow>
     cs_segno c < nseg env \<and> free_segmap (fsm sm) (cs_segno c) \<and>
     (\<forall>i < nblk env. (if alloc_type c = SSR then i = next_blkoff c else next_blkoff c \<le> i) \<longrightarrow> \<not> live sm (cs_segno c) i)"

definition logs_in :: "seg_env \<Rightarrow> curseg_id set \<Rightarrow> 'g sm_info \<Rightarrow> bool" where
  "logs_in env X sm \<longleftrightarrow>
     (\<forall>c. inited (curseg sm c) \<longrightarrow> log_ok env sm (curseg sm c) \<and> (c \<in> X \<or> next_blkoff (curseg sm c) < nblk env)) \<and>
     (\<forall>c. \<not> inited (curseg sm c) \<longrightarrow> cs_segno (curseg sm c) = NULL_SEGNO \<and> (c \<in> X \<or> cs_seg_type (curseg sm c) = CURSEG_COLD_DATA)) \<and>
     (\<forall>t. inited (curseg sm (C_log t))) \<and>
     (\<forall>c d. c \<noteq> d \<longrightarrow> inited (curseg sm c) \<longrightarrow> cs_segno (curseg sm c) \<noteq> cs_segno (curseg sm d))"

definition free_clean :: "seg_env \<Rightarrow> 'g sm_info \<Rightarrow> bool" where
  "free_clean env sm \<longleftrightarrow> (\<forall>s < nseg env. \<not> free_segmap (fsm sm) s \<longrightarrow> (\<forall>i < nblk env. \<not> live sm s i))"

definition sm_in :: "seg_env \<Rightarrow> curseg_id set \<Rightarrow> 'g sm_info \<Rightarrow> bool" where
  "sm_in env X sm \<longleftrightarrow> sit_ok env sm \<and> free_ok env (fsm sm) \<and> dirty_ok env sm \<and> logs_in env X sm \<and> free_clean env sm"

abbreviation sm_ok :: "seg_env \<Rightarrow> 'g sm_info \<Rightarrow> bool" where
  "sm_ok env \<equiv> sm_in env {}"

lemma get_seg [simp]: "get_seg_entry sm s = seg sm s"
  by (simp add: get_seg_entry_def seg_def)

lemma put_seg [simp]:
  "seg (put_seg_entry s se sm) = (seg sm)(s := se)" "fsm (put_seg_entry s se sm) = fsm sm" "dsl (put_seg_entry s se sm) = dsl sm"
  "curseg (put_seg_entry s se sm) = curseg sm" "sm_bug (put_seg_entry s se sm) = sm_bug sm" "sm_dcc (put_seg_entry s se sm) = sm_dcc sm"
  "dirty_sentries_bitmap (sit (put_seg_entry s se sm)) = dirty_sentries_bitmap (sit sm)"
  "dirty_sentries (sit (put_seg_entry s se sm)) = dirty_sentries (sit sm)"
  "written_valid_blocks (sit (put_seg_entry s se sm)) = written_valid_blocks (sit sm)"
  "sec_valid (sit (put_seg_entry s se sm)) = sec_valid (sit sm)"
  "entry_list (put_seg_entry s se sm) = entry_list sm" "gc_state (put_seg_entry s se sm) = gc_state sm"
  by (simp_all add: put_seg_entry_def seg_def fun_eq_iff)

lemma all_cursegs [simp]: "set all_cursegs = UNIV"
proof -
  have "c \<in> set all_cursegs" for c
  proof (cases c)
    case (C_log t)
    then show ?thesis by (cases t) (simp_all add: all_cursegs_def)
  qed (simp_all add: all_cursegs_def)
  then show ?thesis by blast
qed

lemma is_curseg: "IS_CURSEG sm s \<longleftrightarrow> (\<exists>c. cs_segno (curseg sm c) = s)"
  by (simp add: IS_CURSEG_def list_ex_iff)

section \<open>Changing the validity of a block\<close>

definition sm_frame :: "'g sm_info \<Rightarrow> _" where
  "sm_frame sm = (fsm sm, dsl sm, curseg sm, ssa sm, sm_dcc sm, entry_list sm, nr_discards sm, gc_state sm)"

lemma bug_on_simps [simp]:
  "sit (bug_on c sm) = sit sm" "fsm (bug_on c sm) = fsm sm" "dsl (bug_on c sm) = dsl sm" "curseg (bug_on c sm) = curseg sm"
  "sm_bug (bug_on c sm) = (c \<or> sm_bug sm)" "seg (bug_on c sm) = seg sm" "sm_frame (bug_on c sm) = sm_frame sm"
  "discard_blks (bug_on c sm) = discard_blks sm" "unusable_block_count (bug_on c sm) = unusable_block_count sm"
  "bug_on False sm = sm" "sm_dcc (bug_on c sm) = sm_dcc sm" "entry_list (bug_on c sm) = entry_list sm"
  by (simp_all add: bug_on_def seg_def sm_frame_def fun_eq_iff)

lemma seg_sit_upd [simp]:
  "seg (sm\<lparr>sit := x\<rparr>) = sm_sentries x" "seg (sm\<lparr>discard_blks := a\<rparr>) = seg sm" "seg (sm\<lparr>unusable_block_count := b\<rparr>) = seg sm"
  "seg (sm\<lparr>dsl := d\<rparr>) = seg sm" "seg (sm\<lparr>fsm := e\<rparr>) = seg sm" "seg (sm\<lparr>sm_dcc := f\<rparr>) = seg sm" "seg (sm\<lparr>curseg := g\<rparr>) = seg sm"
  "seg (sm\<lparr>ssa := h\<rparr>) = seg sm" "seg (sm\<lparr>entry_list := i\<rparr>) = seg sm" "seg (sm\<lparr>nr_discards := j\<rparr>) = seg sm"
  by (simp_all add: seg_def fun_eq_iff)

lemma mark_dirty:
  "seg (snd (mark_sit_entry_dirty s sm)) = seg sm"
  "dirty_sentries_bitmap (sit (snd (mark_sit_entry_dirty s sm))) = (dirty_sentries_bitmap (sit sm))(s := True)"
  "s < n \<Longrightarrow> dirty_sentries (sit sm) = bits (dirty_sentries_bitmap (sit sm)) n \<Longrightarrow>
   dirty_sentries (sit (snd (mark_sit_entry_dirty s sm))) = bits ((dirty_sentries_bitmap (sit sm))(s := True)) n"
  "written_valid_blocks (sit (snd (mark_sit_entry_dirty s sm))) = written_valid_blocks (sit sm)"
  "sec_valid (sit (snd (mark_sit_entry_dirty s sm))) = sec_valid (sit sm)"
  "sm_frame (snd (mark_sit_entry_dirty s sm)) = sm_frame sm" "sm_bug (snd (mark_sit_entry_dirty s sm)) = sm_bug sm"
  by (auto simp: mark_sit_entry_dirty_def seg_def sm_frame_def fun_eq_iff bits_set fun_upd_idem)

text \<open>The entry after a block became valid or invalid.\<close>

definition entry_set :: "bool \<Rightarrow> nat \<Rightarrow> sit_entry \<Rightarrow> sit_entry \<Rightarrow> bool" where
  "entry_set cpd i se se' \<longleftrightarrow>
     cur_valid_map se' = (cur_valid_map se)(i := True) \<and>
     ckpt_valid_map se' = (if cpd then ckpt_valid_map se else (ckpt_valid_map se)(i := True)) \<and>
     valid_blocks se' = valid_blocks se + 1 \<and>
     ckpt_valid_blocks se' = ckpt_valid_blocks se + of_bool (\<not> ckpt_valid_map se i) \<and> se_type se' = se_type se"

definition entry_clear :: "nat \<Rightarrow> sit_entry \<Rightarrow> sit_entry \<Rightarrow> bool" where
  "entry_clear i se se' \<longleftrightarrow>
     cur_valid_map se' = (cur_valid_map se)(i := False) \<and> ckpt_valid_map se' = ckpt_valid_map se \<and>
     valid_blocks se' + 1 = valid_blocks se \<and>
     ckpt_valid_blocks se' + of_bool (\<not> ckpt_valid_map se i) = ckpt_valid_blocks se \<and> se_type se' = se_type se"

definition sit_moved :: "seg_env \<Rightarrow> nat \<Rightarrow> int \<Rightarrow> 'g sm_info \<Rightarrow> 'g sm_info \<Rightarrow> bool" where
  "sit_moved env s d sm sm' \<longleftrightarrow>
     dirty_sentries_bitmap (sit sm') = (dirty_sentries_bitmap (sit sm))(s := True) \<and>
     dirty_sentries (sit sm') = dirty_sentries (sit (snd (mark_sit_entry_dirty s sm))) \<and>
     written_valid_blocks (sit sm') = addu 32 (written_valid_blocks (sit sm)) d \<and>
     sec_valid (sit sm') = (if is_large_section env then (sec_valid (sit sm))(GET_SEC_FROM_SEG env s := addu 32 (sec_valid (sit sm) (GET_SEC_FROM_SEG env s)) d)
                            else sec_valid (sit sm)) \<and>
     sm_frame sm' = sm_frame sm"

lemma entry_bounds:
  assumes "seg_geom env" "entry_ok (nblk env) se"
  shows "valid_blocks se \<le> nblk env" "valid_blocks se \<le> 512" "ckpt_valid_blocks se \<le> 512"
proof -
  have "bits m (nblk env) \<le> nblk env" for m by (rule count_idx_le)
  moreover have "nblk env \<le> 512" using assms(1) by (simp add: seg_geom_def)
  ultimately show "valid_blocks se \<le> nblk env" "valid_blocks se \<le> 512" "ckpt_valid_blocks se \<le> 512"
    using assms(2) by (auto simp: entry_ok_def intro: order_trans)
qed

lemma entry_room:
  assumes "seg_geom env" "entry_ok (nblk env) se" "i < nblk env" "\<not> cur_valid_map se i"
  shows "valid_blocks se < nblk env"
proof (rule ccontr)
  assume "\<not> valid_blocks se < nblk env"
  then have "bits (cur_valid_map se) (nblk env) = nblk env"
    using entry_bounds(1)[OF assms(1,2)] assms(2) by (simp add: entry_ok_def)
  moreover have "bits ((cur_valid_map se)(i := True)) (nblk env) = bits (cur_valid_map se) (nblk env) + 1"
    using assms(3,4) by (rule bits_set)
  moreover have "bits ((cur_valid_map se)(i := True)) (nblk env) \<le> nblk env" by (rule count_idx_le)
  ultimately show False by simp
qed

lemma finish_moved:
  fixes sm :: "'g sm_info" and env :: seg_env and s i :: nat
  assumes "u = (se, d, dd, du, False)"
  defines "sm' \<equiv> finish_sit_entry env s i u sm"
  shows "seg sm' = (seg sm)(s := if ckpt_valid_map se i then se else se\<lparr>ckpt_valid_blocks := addu 10 (ckpt_valid_blocks se) d\<rparr>)"
    "sit_moved env s d sm sm'" "sm_bug sm' = sm_bug sm"
proof -
  define se3 where "se3 = (if ckpt_valid_map se i then se else se\<lparr>ckpt_valid_blocks := addu 10 (ckpt_valid_blocks se) d\<rparr>)"
  define sm1 where "sm1 = (put_seg_entry s se3 sm)\<lparr>discard_blks := addu 32 (discard_blks sm) dd, unusable_block_count := addu 32 (unusable_block_count sm) du\<rparr>"
  define sm2 where "sm2 = snd (mark_sit_entry_dirty s sm1)"
  have e': "sm' = (let sm = sm2\<lparr>sit := (sit sm2)\<lparr>written_valid_blocks := addu 32 (written_valid_blocks (sit sm2)) d\<rparr>\<rparr>
      in if is_large_section env
         then sm\<lparr>sit := (sit sm)\<lparr>sec_valid := (sec_valid (sit sm))(GET_SEC_FROM_SEG env s := addu 32 (sec_valid (sit sm) (GET_SEC_FROM_SEG env s)) d)\<rparr>\<rparr>
         else sm)"
    using assms(1) by (simp add: sm'_def finish_sit_entry_def Let_def se3_def[symmetric] sm1_def sm2_def put_seg_entry_def)
  have m: "seg sm2 = (seg sm)(s := se3)" "sm_frame sm2 = sm_frame sm" "sm_bug sm2 = sm_bug sm"
    "dirty_sentries_bitmap (sit sm2) = (dirty_sentries_bitmap (sit sm))(s := True)"
    "written_valid_blocks (sit sm2) = written_valid_blocks (sit sm)" "sec_valid (sit sm2) = sec_valid (sit sm)"
    "dirty_sentries (sit sm2) = dirty_sentries (sit (snd (mark_sit_entry_dirty s sm)))"
    by (auto simp: sm2_def mark_dirty sm1_def sm_frame_def put_seg_entry_def mark_sit_entry_dirty_def seg_def fun_eq_iff)
  show "seg sm' = (seg sm)(s := if ckpt_valid_map se i then se else se\<lparr>ckpt_valid_blocks := addu 10 (ckpt_valid_blocks se) d\<rparr>)"
    using m(1) by (simp add: e' Let_def seg_def fun_eq_iff se3_def)
  show "sit_moved env s d sm sm'" "sm_bug sm' = sm_bug sm" using m by (simp_all add: e' Let_def sit_moved_def sm_frame_def)
qed

lemma update_set:
  assumes g: "seg_geom env" and s: "s < nseg env" "i < nblk env" and e: "entry_ok (nblk env) (seg sm s)"
    and n: "\<not> cur_valid_map (seg sm s) i"
  defines "sm' \<equiv> update_sit_entry env (blk_of env s i) 1 sm"
  shows "\<exists>se'. seg sm' = (seg sm)(s := se') \<and> entry_set (cp_disabled env) i (seg sm s) se'" "sit_moved env s 1 sm sm'"
    "sm_bug sm' = sm_bug sm"
proof -
  let ?se = "seg sm s"
  have vb: "valid_blocks ?se < nblk env" by (rule entry_room[OF g e s(2) n])
  have b: "valid_blocks ?se + 1 < 2 ^ 10" "ckpt_valid_blocks ?se + 1 < 2 ^ 10" using entry_bounds[OF g e] by simp_all
  let ?se1 = "?se\<lparr>valid_blocks := valid_blocks ?se + 1\<rparr>"
  obtain se2 dd where u: "update_entry_set env i ?se1 = (se2, 1, dd, 0, False)" using n by (simp add: update_entry_set_def Let_def)
  have s2: "cur_valid_map se2 = (cur_valid_map ?se)(i := True)"
    "ckpt_valid_map se2 = (if cp_disabled env then ckpt_valid_map ?se else (ckpt_valid_map ?se)(i := True))"
    "valid_blocks se2 = valid_blocks ?se + 1" "se_type se2 = se_type ?se"
    "ckpt_valid_blocks se2 = (if cp_disabled env \<or> ckpt_valid_map ?se i then ckpt_valid_blocks ?se else ckpt_valid_blocks ?se + 1)"
    using u n b(2) by (auto simp: update_entry_set_def Let_def split: if_splits)
  have segno: "GET_SEGNO (geo env) (blk_of env s i) = s" "GET_BLKOFF_FROM_SEG0 (geo env) (blk_of env s i) = i" "s \<noteq> NULL_SEGNO"
    using blk_segno[OF g s] blk_off[OF g s] seg_not_null[OF g s(1)] by simp_all
  have nb: "\<not> (int (valid_blocks ?se) + 1 < 0 \<or> int (valid_blocks ?se) + 1 > int (f2fs_usable_blks_in_seg env s))" using g vb by simp
  have "addu 10 (valid_blocks ?se) 1 = valid_blocks ?se + 1" using b(1) by (rule addu_up)
  then have e': "sm' = finish_sit_entry env s i (se2, 1, dd, 0, False) sm"
    using nb u by (simp add: sm'_def update_sit_entry_def segno Let_def del: usable)
  note f = finish_moved[OF refl, where env = env and s = s and i = i and se = se2 and d = 1 and dd = dd and du = 0 and sm = sm, folded e']
  have "entry_set (cp_disabled env) i ?se (if ckpt_valid_map se2 i then se2 else se2\<lparr>ckpt_valid_blocks := addu 10 (ckpt_valid_blocks se2) 1\<rparr>)"
    using s2 b(2) by (auto simp: entry_set_def)
  with f show "\<exists>se'. seg sm' = (seg sm)(s := se') \<and> entry_set (cp_disabled env) i (seg sm s) se'" "sit_moved env s 1 sm sm'"
    "sm_bug sm' = sm_bug sm" by auto
qed

lemma update_clear:
  assumes g: "seg_geom env" and s: "s < nseg env" "i < nblk env" and e: "entry_ok (nblk env) (seg sm s)"
    and n: "cur_valid_map (seg sm s) i"
  defines "sm' \<equiv> update_sit_entry env (blk_of env s i) (- 1) sm"
  shows "\<exists>se'. seg sm' = (seg sm)(s := se') \<and> entry_clear i (seg sm s) se'" "sit_moved env s (- 1) sm sm'"
    "sm_bug sm' = sm_bug sm"
proof -
  let ?se = "seg sm s"
  have vb: "0 < valid_blocks ?se" "0 < ckpt_valid_blocks ?se"
    using e bits_pos[OF s(2), of "cur_valid_map ?se"] bits_pos[OF s(2), of "\<lambda>i. cur_valid_map ?se i \<or> ckpt_valid_map ?se i"] n
    by (simp_all add: entry_ok_def)
  have b: "valid_blocks ?se < 2 ^ 10" "ckpt_valid_blocks ?se < 2 ^ 10" using entry_bounds[OF g e] by simp_all
  let ?se1 = "?se\<lparr>valid_blocks := valid_blocks ?se - 1\<rparr>"
  obtain se2 dd du where u: "update_entry_clear env i ?se1 = (se2, - 1, dd, du, False)" using n by (simp add: update_entry_clear_def Let_def)
  have s2: "cur_valid_map se2 = (cur_valid_map ?se)(i := False)" "ckpt_valid_map se2 = ckpt_valid_map ?se"
    "valid_blocks se2 = valid_blocks ?se - 1" "se_type se2 = se_type ?se" "ckpt_valid_blocks se2 = ckpt_valid_blocks ?se"
    using u n by (auto simp: update_entry_clear_def Let_def split: if_splits)
  have segno: "GET_SEGNO (geo env) (blk_of env s i) = s" "GET_BLKOFF_FROM_SEG0 (geo env) (blk_of env s i) = i" "s \<noteq> NULL_SEGNO"
    using blk_segno[OF g s] blk_off[OF g s] seg_not_null[OF g s(1)] by simp_all
  have nb: "\<not> (int (valid_blocks ?se) + - 1 < 0 \<or> int (valid_blocks ?se) + - 1 > int (f2fs_usable_blks_in_seg env s))"
    using g vb entry_bounds(1)[OF g e] by simp
  have "addu 10 (valid_blocks ?se) (- 1) = valid_blocks ?se - 1" using vb(1) b(1) by (rule addu_down)
  then have e': "sm' = finish_sit_entry env s i (se2, - 1, dd, du, False) sm"
    using nb u by (simp add: sm'_def update_sit_entry_def segno Let_def del: usable)
  note f = finish_moved[OF refl, where env = env and s = s and i = i and se = se2 and d = "- 1" and dd = dd and du = du and sm = sm, folded e']
  have "entry_clear i ?se (if ckpt_valid_map se2 i then se2 else se2\<lparr>ckpt_valid_blocks := addu 10 (ckpt_valid_blocks se2) (- 1)\<rparr>)"
    using s2 b(2) vb by (auto simp: entry_clear_def)
  with f show "\<exists>se'. seg sm' = (seg sm)(s := se') \<and> entry_clear i (seg sm s) se'" "sit_moved env s (- 1) sm sm'"
    "sm_bug sm' = sm_bug sm" by auto
qed

section \<open>Counters\<close>

lemma sum_upd:
  fixes f :: "'a \<Rightarrow> nat" and m :: "nat \<Rightarrow> 'a" and n :: nat
  shows "j < n \<Longrightarrow> (\<Sum>i < n. f ((m(j := x)) i)) + f (m j) = (\<Sum>i < n. f (m i)) + f x"
proof (induction n)
  case (Suc n)
  show ?case
  proof (cases "j = n")
    case True
    have "(\<Sum>i < n. f ((m(j := x)) i)) = (\<Sum>i < n. f (m i))" using True by (intro sum.cong) auto
    then show ?thesis using True by simp
  qed (use Suc in simp)
qed simp

lemma sum_upd_sec:
  fixes f :: "'a \<Rightarrow> nat" and m :: "nat \<Rightarrow> 'a"
  assumes "0 < w" "s div w = k"
  shows "(\<Sum>j < w. f ((m(s := x)) (k * w + j))) + f (m s) = (\<Sum>j < w. f (m (k * w + j))) + f x"
proof -
  have s: "s = k * w + s mod w" using assms(2) by (metis div_mult_mod_eq)
  have "(\<lambda>j. (m(s := x)) (k * w + j)) = (\<lambda>j. m (k * w + j))(s mod w := x)"
    by (rule ext) (use s in auto)
  then show ?thesis using sum_upd[of "s mod w" w f "\<lambda>j. m (k * w + j)" x] assms(1) s by (metis mod_less_divisor)
qed

lemma sum_upd_other:
  fixes f :: "'a \<Rightarrow> nat" and m :: "nat \<Rightarrow> 'a"
  assumes "s div w \<noteq> k"
  shows "(\<Sum>j < w. f ((m(s := x)) (k * w + j))) = (\<Sum>j < w. f (m (k * w + j)))"
proof (rule sum.cong)
  fix j assume "j \<in> {..<w}"
  then have "(k * w + j) div w = k" by simp
  then show "f ((m(s := x)) (k * w + j)) = f (m (k * w + j))" using assms by auto
qed simp

lemma entry_set_ok:
  assumes e: "entry_ok n se" and i: "i < n" "\<not> cur_valid_map se i" and m: "entry_set cpd i se se'"
  shows "entry_ok n se'"
proof -
  let ?u = "\<lambda>j. cur_valid_map se j \<or> ckpt_valid_map se j"
  have "(\<lambda>j. cur_valid_map se' j \<or> ckpt_valid_map se' j) = ?u(i := True)"
    using m by (auto simp: entry_set_def fun_eq_iff)
  moreover have "bits (?u(i := True)) n = bits ?u n + of_bool (\<not> ckpt_valid_map se i)"
    using i bits_set[OF i(1), of ?u] by (cases "ckpt_valid_map se i") (auto simp: fun_upd_idem)
  ultimately show ?thesis using e m bits_set[of i n "cur_valid_map se"] i by (simp add: entry_ok_def entry_set_def)
qed

lemma entry_clear_ok:
  assumes e: "entry_ok n se" and i: "i < n" "cur_valid_map se i" and m: "entry_clear i se se'"
  shows "entry_ok n se'"
proof -
  let ?u = "\<lambda>j. cur_valid_map se j \<or> ckpt_valid_map se j"
  have "(\<lambda>j. cur_valid_map se' j \<or> ckpt_valid_map se' j) = ?u(i := ckpt_valid_map se i)"
    using m by (auto simp: entry_clear_def fun_eq_iff)
  moreover have "bits (?u(i := ckpt_valid_map se i)) n + of_bool (\<not> ckpt_valid_map se i) = bits ?u n"
    using i bits_clear[OF i(1), of ?u] bits_pos[OF i(1), of ?u] by (cases "ckpt_valid_map se i") (auto simp: fun_upd_idem)
  moreover have "bits ((cur_valid_map se)(i := False)) n + 1 = bits (cur_valid_map se) n"
    using bits_clear[of i n "cur_valid_map se"] bits_pos[of i n "cur_valid_map se"] i by simp
  ultimately show ?thesis using e m by (simp add: entry_ok_def entry_clear_def)
qed

lemma valid_sum_bound:
  assumes g: "seg_geom env" and e: "\<forall>s < nseg env. entry_ok (nblk env) (f s)"
  shows "(\<Sum>s < nseg env. valid_blocks (f s)) < 2 ^ 32"
    "k < total_sections env \<Longrightarrow> (\<Sum>j < sps env. valid_blocks (f (k * sps env + j))) < 2 ^ 32"
proof -
  have v: "valid_blocks (f s) \<le> nblk env" if "s < nseg env" for s using entry_bounds(1)[OF g] e that by blast
  have m: "nseg env * nblk env < 2 ^ 32"
    using g by (auto simp: seg_geom_def geom_ok_def main_end_def)
  have "(\<Sum>s < nseg env. valid_blocks (f s)) \<le> (\<Sum>s < nseg env. nblk env)" using v by (intro sum_mono) simp
  also have "\<dots> = nseg env * nblk env" by simp
  finally show "(\<Sum>s < nseg env. valid_blocks (f s)) < 2 ^ 32" using m by simp
  assume k: "k < total_sections env"
  have i: "k * sps env + j < nseg env" if "j < sps env" for j
  proof -
    have "k * sps env + j < Suc k * sps env" using that by simp
    also have "\<dots> \<le> nseg env" using k g by (simp add: seg_geom_def del: mult_Suc)
    finally show ?thesis .
  qed
  have "(\<Sum>j < sps env. valid_blocks (f (k * sps env + j))) \<le> (\<Sum>j < sps env. nblk env)" using v i by (intro sum_mono) simp
  also have "\<dots> = sps env * nblk env" by simp
  also have "\<dots> \<le> nseg env * nblk env" using g k by (simp add: seg_geom_def)
  finally show "(\<Sum>j < sps env. valid_blocks (f (k * sps env + j))) < 2 ^ 32" using m by simp
qed

lemma addu_step:
  assumes "b < 2 ^ w" "b + v = a + v'" "int v' = int v + d"
  shows "addu w a d = b"
proof -
  have "int a + d = int b" using assms(2,3) by linarith
  moreover have "int b < 2 ^ w" by (rule int_less_pow[THEN iffD1, OF assms(1)])
  ultimately show ?thesis using addu_eq[of a d w] by simp
qed

lemma sit_ok_moved:
  assumes g: "seg_geom env" and ok: "sit_ok env sm" and s: "s < nseg env"
    and se: "seg sm' = (seg sm)(s := se')" "entry_ok (nblk env) se'" "int (valid_blocks se') = int (valid_blocks (seg sm s)) + d"
    and mv: "sit_moved env s d sm sm'"
  shows "sit_ok env sm'"
proof -
  let ?k = "s div sps env"
  have e: "\<forall>s < nseg env. entry_ok (nblk env) (seg sm s)" using ok by (simp add: sit_ok_def)
  have e': "\<forall>s < nseg env. entry_ok (nblk env) (seg sm' s)" using e se(1,2) by simp
  have sp: "0 < sps env" using g by (simp add: seg_geom_def)
  have w: "addu 32 (\<Sum>s < nseg env. valid_blocks (seg sm s)) d = (\<Sum>s < nseg env. valid_blocks (seg sm' s))"
    using sum_upd[OF s, of valid_blocks "seg sm" se'] unfolding se(1)[symmetric]
    by (rule addu_step[OF valid_sum_bound(1)[OF g e'] _ se(3)])
  have kk: "?k < total_sections env" by (rule sec_less[OF g s])
  have c: "addu 32 (\<Sum>j < sps env. valid_blocks (seg sm (?k * sps env + j))) d = (\<Sum>j < sps env. valid_blocks (seg sm' (?k * sps env + j)))"
    using sum_upd_sec[OF sp refl, of valid_blocks "seg sm" s se'] unfolding se(1)[symmetric]
    by (rule addu_step[OF valid_sum_bound(2)[OF g e' kk] _ se(3)])
  have sec: "sec_valid (sit sm') k = (\<Sum>j < sps env. valid_blocks (seg sm' (k * sps env + j)))"
    if "is_large_section env" "k < total_sections env" for k
  proof (cases "k = ?k")
    case True
    then show ?thesis using mv ok that c sec_of[OF g s] by (simp add: sit_moved_def sit_ok_def)
  next
    case False
    then show ?thesis using mv ok that sum_upd_other[of s "sps env" k valid_blocks "seg sm" se'] se(1) sec_of[OF g s]
      by (simp add: sit_moved_def sit_ok_def)
  qed
  have "dirty_sentries (sit sm') = bits (dirty_sentries_bitmap (sit sm')) (nseg env)"
    using mv ok mark_dirty(3)[OF s, of sm] by (simp add: sit_moved_def sit_ok_def)
  then show ?thesis using ok mv e' w sec se(1) unfolding sit_ok_def sit_moved_def by simp
qed

section \<open>Blocks become valid or invalid\<close>

lemma frameE:
  assumes "sm_frame sm' = sm_frame sm"
  shows "fsm sm' = fsm sm" "dsl sm' = dsl sm" "curseg sm' = curseg sm" "ssa sm' = ssa sm" "sm_dcc sm' = sm_dcc sm"
    "entry_list sm' = entry_list sm" "nr_discards sm' = nr_discards sm" "gc_state sm' = gc_state sm"
  using assms by (simp_all add: sm_frame_def)

lemma is_curseg_cong: "curseg sm' = curseg sm \<Longrightarrow> IS_CURSEG sm' = IS_CURSEG sm"
  by (simp add: IS_CURSEG_def fun_eq_iff)

text \<open>When fewer blocks are live and the rest is unchanged, the invariant of the logs and lists is kept.\<close>

lemma sm_in_shrink:
  assumes ok: "sm_in env X sm" and st: "sit_ok env sm'" and fr: "fsm sm' = fsm sm" "dsl sm' = dsl sm" "curseg sm' = curseg sm"
    and l: "\<And>s i. live sm' s i \<Longrightarrow> live sm s i" and t: "\<And>s. se_type (seg sm' s) = se_type (seg sm s)"
    and v: "\<And>s. s < nseg env \<Longrightarrow> valid_blocks (seg sm s) = 0 \<Longrightarrow> valid_blocks (seg sm' s) = 0"
  shows "sm_in env X sm'"
proof -
  have "dirty_ok env sm'"
  proof -
    have d: "dirty_ok env sm" using ok by (simp add: sm_in_def)
    have "valid_blocks (seg sm' s) = 0" if "dirty_segmap (dsl sm) PRE s" for s
      using d v[of s] that by (auto simp: dirty_ok_def)
    then show ?thesis using d fr t is_curseg_cong[OF fr(3)] unfolding dirty_ok_def by metis
  qed
  moreover have "logs_in env X sm'"
    using ok l fr by (fastforce simp: sm_in_def logs_in_def log_ok_def)
  moreover have "free_clean env sm'" using ok l fr by (auto simp: sm_in_def free_clean_def)
  ultimately show ?thesis using ok st fr by (simp add: sm_in_def)
qed

lemma clear_sm_in:
  assumes g: "seg_geom env" and ok: "sm_in env X sm" and s: "s < nseg env" "i < nblk env" and n: "cur_valid_map (seg sm s) i"
  defines "sm' \<equiv> update_sit_entry env (blk_of env s i) (- 1) sm"
  shows "sm_in env X sm'" "sm_frame sm' = sm_frame sm" "sm_bug sm' = sm_bug sm" "\<And>t j. live sm' t j \<Longrightarrow> live sm t j"
    "\<And>t j. ckpt_valid_map (seg sm' t) j = ckpt_valid_map (seg sm t) j"
    "\<And>t j. cur_valid_map (seg sm' t) j = (cur_valid_map (seg sm t) j \<and> (t, j) \<noteq> (s, i))"
proof -
  have e: "entry_ok (nblk env) (seg sm s)" using ok s by (simp add: sm_in_def sit_ok_def)
  note u = update_clear[OF g s e n, folded sm'_def]
  obtain se' where se: "seg sm' = (seg sm)(s := se')" "entry_clear i (seg sm s) se'" using u(1) by blast
  have eo: "entry_ok (nblk env) se'" by (rule entry_clear_ok[OF e s(2) n se(2)])
  have st: "sit_ok env sm'"
    using sit_ok_moved[OF g _ s(1) se(1) eo _ u(2)] ok se(2) by (simp add: sm_in_def entry_clear_def)
  show fr: "sm_frame sm' = sm_frame sm" using u(2) by (simp add: sit_moved_def)
  show l: "live sm' t j \<Longrightarrow> live sm t j" for t j
    using se by (auto simp: live_def entry_clear_def split: if_splits)
  have "valid_blocks (seg sm' t) = 0" if "valid_blocks (seg sm t) = 0" for t
    using se that by (auto simp: entry_clear_def)
  then show "sm_in env X sm'" using sm_in_shrink[OF ok st frameE(1-3)[OF fr] l] se by (auto simp: entry_clear_def)
  show "sm_bug sm' = sm_bug sm" by (rule u(3))
  show "ckpt_valid_map (seg sm' t) j = ckpt_valid_map (seg sm t) j"
    "cur_valid_map (seg sm' t) j = (cur_valid_map (seg sm t) j \<and> (t, j) \<noteq> (s, i))" for t j
    using se by (auto simp: entry_clear_def)
qed

text \<open>A block becomes valid in the segment of a log, before the position of the log.\<close>

lemma set_sm_in:
  assumes g: "seg_geom env" and ok: "sm_in env X sm" and s: "s < nseg env" "i < nblk env"
    and n: "\<not> cur_valid_map (seg sm s) i" and c: "inited (curseg sm c)" "cs_segno (curseg sm c) = s" "i < next_blkoff (curseg sm c)"
  defines "sm' \<equiv> update_sit_entry env (blk_of env s i) 1 sm"
  shows "sm_in env X sm'" "sm_frame sm' = sm_frame sm" "sm_bug sm' = sm_bug sm"
    "\<And>t j. live sm' t j = (live sm t j \<or> (t, j) = (s, i))"
    "\<And>t j. cur_valid_map (seg sm' t) j = (cur_valid_map (seg sm t) j \<or> (t, j) = (s, i))"
    "\<And>t j. ckpt_valid_map (seg sm' t) j = (ckpt_valid_map (seg sm t) j \<or> \<not> cp_disabled env \<and> (t, j) = (s, i))"
proof -
  have e: "entry_ok (nblk env) (seg sm s)" using ok s by (simp add: sm_in_def sit_ok_def)
  note u = update_set[OF g s e n, folded sm'_def]
  obtain se' where se: "seg sm' = (seg sm)(s := se')" "entry_set (cp_disabled env) i (seg sm s) se'" using u(1) by blast
  have eo: "entry_ok (nblk env) se'" by (rule entry_set_ok[OF e s(2) n se(2)])
  have st: "sit_ok env sm'"
    using sit_ok_moved[OF g _ s(1) se(1) eo _ u(2)] ok se(2) by (simp add: sm_in_def entry_set_def)
  show fr: "sm_frame sm' = sm_frame sm" using u(2) by (simp add: sit_moved_def)
  note f = frameE(1-3)[OF fr]
  show l: "live sm' t j = (live sm t j \<or> (t, j) = (s, i))" for t j
    using se by (auto simp: live_def entry_set_def)
  show "cur_valid_map (seg sm' t) j = (cur_valid_map (seg sm t) j \<or> (t, j) = (s, i))"
    "ckpt_valid_map (seg sm' t) j = (ckpt_valid_map (seg sm t) j \<or> \<not> cp_disabled env \<and> (t, j) = (s, i))" for t j
    using se by (auto simp: entry_set_def)
  have lg: "logs_in env X sm" using ok by (simp add: sm_in_def)
  have "log_ok env sm' (curseg sm d)" if "inited (curseg sm d)" for d
  proof (cases "d = c")
    case True
    then show ?thesis using lg that l f c by (fastforce simp: logs_in_def log_ok_def)
  next
    case False
    then have "cs_segno (curseg sm d) \<noteq> s" using lg that c by (metis logs_in_def)
    then show ?thesis using lg that l f by (simp add: logs_in_def log_ok_def)
  qed
  then have "logs_in env X sm'" using lg f unfolding logs_in_def by metis
  moreover have "dirty_ok env sm'"
  proof -
    have d: "dirty_ok env sm" using ok by (simp add: sm_in_def)
    have "\<not> dirty_segmap (dsl sm) t s" for t using d c by (auto simp: dirty_ok_def is_curseg)
    then have "valid_blocks (seg sm' r) = 0" if "dirty_segmap (dsl sm) PRE r" for r using d that se(1) by (auto simp: dirty_ok_def)
    moreover have "se_type (seg sm' r) = se_type (seg sm r)" for r using se by (simp add: entry_set_def)
    ultimately show ?thesis using d f is_curseg_cong[OF f(3)] unfolding dirty_ok_def by metis
  qed
  moreover have "free_clean env sm'" using ok l f c by (auto simp: sm_in_def free_clean_def logs_in_def log_ok_def)
  ultimately show "sm_in env X sm'" using ok st f by (simp add: sm_in_def)
  show "sm_bug sm' = sm_bug sm" by (rule u(3))
qed

end
