(* ===== verification/Segment_Ops.thy ===== *)
theory Segment_Ops
  imports Segment_Inv
begin

text \<open>
  The operations on dirty lists, the free map and the current segments keep the invariant of
  the segment manager.
\<close>

section \<open>Changes that do not matter\<close>

text \<open>The part of an entry that the invariant speaks about.\<close>

definition entry_core :: "sit_entry \<Rightarrow> _" where
  "entry_core se = (cur_valid_map se, ckpt_valid_map se, valid_blocks se, ckpt_valid_blocks se, se_type se)"

definition same_core :: "'g sm_info \<Rightarrow> 'g sm_info \<Rightarrow> bool" where
  "same_core sm sm' \<longleftrightarrow>
     (\<forall>s. entry_core (seg sm' s) = entry_core (seg sm s)) \<and>
     dirty_sentries_bitmap (sit sm') = dirty_sentries_bitmap (sit sm) \<and> dirty_sentries (sit sm') = dirty_sentries (sit sm) \<and>
     written_valid_blocks (sit sm') = written_valid_blocks (sit sm) \<and> sec_valid (sit sm') = sec_valid (sit sm) \<and>
     fsm sm' = fsm sm \<and> dsl sm' = dsl sm \<and> sm_bug sm' = sm_bug sm \<and>
     (\<forall>c. (cs_segno (curseg sm' c), next_blkoff (curseg sm' c), alloc_type (curseg sm' c), inited (curseg sm' c), cs_seg_type (curseg sm' c)) =
          (cs_segno (curseg sm c), next_blkoff (curseg sm c), alloc_type (curseg sm c), inited (curseg sm c), cs_seg_type (curseg sm c)))"

lemma same_core_refl [simp]: "same_core sm sm"
  by (simp add: same_core_def)

lemma same_core_trans: "same_core a b \<Longrightarrow> same_core b c \<Longrightarrow> same_core a c"
  by (simp add: same_core_def)

lemma same_coreD:
  assumes "same_core sm sm'"
  shows "cur_valid_map (seg sm' s) = cur_valid_map (seg sm s)" "ckpt_valid_map (seg sm' s) = ckpt_valid_map (seg sm s)"
    "valid_blocks (seg sm' s) = valid_blocks (seg sm s)" "ckpt_valid_blocks (seg sm' s) = ckpt_valid_blocks (seg sm s)"
    "se_type (seg sm' s) = se_type (seg sm s)" "live sm' s i = live sm s i" "IS_CURSEG sm' s = IS_CURSEG sm s"
    "fsm sm' = fsm sm" "dsl sm' = dsl sm" "sm_bug sm' = sm_bug sm"
  using assms by (simp_all add: same_core_def entry_core_def live_def is_curseg)

lemma same_core_sm_in:
  assumes c: "same_core sm sm'"
  shows "sm_in env X sm' = sm_in env X sm"
proof -
  note d = same_coreD[OF c]
  have "sit_ok env sm' = sit_ok env sm" using c by (simp add: sit_ok_def entry_ok_def d) (simp add: same_core_def)
  moreover have "dirty_ok env sm' = dirty_ok env sm" by (simp add: dirty_ok_def d)
  moreover have "log_ok env sm' (curseg sm' k) = log_ok env sm (curseg sm k)" for k
    using c by (simp add: log_ok_def d) (simp add: same_core_def)
  then have "logs_in env X sm' = logs_in env X sm" using c by (simp add: logs_in_def) (simp add: same_core_def)
  moreover have "free_clean env sm' = free_clean env sm" by (simp add: free_clean_def d)
  ultimately show ?thesis by (simp add: sm_in_def d)
qed

lemma put_mtime_core: "same_core sm (put_seg_entry s ((seg sm s)\<lparr>se_mtime := x\<rparr>) sm)"
  by (simp add: same_core_def entry_core_def)

lemma max_mtime_core: "same_core sm (sm\<lparr>sit := (sit sm)\<lparr>max_mtime := y\<rparr>\<rparr>)"
  by (simp add: same_core_def seg_def)

lemma put_frame [simp]: "sm_frame (put_seg_entry s se sm) = sm_frame sm" "sm_frame (sm\<lparr>sit := x\<rparr>) = sm_frame sm"
  by (simp_all add: put_seg_entry_def sm_frame_def)

lemma mtime_core: "same_core sm (update_segment_mtime env b m sm)"
  unfolding update_segment_mtime_def Let_def
  by (simp add: put_mtime_core same_core_trans[OF put_mtime_core max_mtime_core])

lemma mtime_frame [simp]: "sm_frame (update_segment_mtime env b m sm) = sm_frame sm"
  by (simp add: update_segment_mtime_def Let_def)

lemma sum_core: "same_core sm (add_sum_entry c e sm)" "same_core sm (write_sum_page c sm)" "same_core sm (sm\<lparr>sm_dcc := d\<rparr>)"
  "same_core sm (sm\<lparr>gc_state := g\<rparr>)"
  by (simp_all add: add_sum_entry_def write_sum_page_def upd_curseg_def Let_def same_core_def seg_def)

section \<open>Dirty lists\<close>

lemma set_dirty_simps:
  "dirty_segmap (set_dirty t s d) = (dirty_segmap d)(t := (dirty_segmap d t)(s := True))"
  "s < n \<Longrightarrow> \<forall>t. nr_dirty d t = int (bits (dirty_segmap d t) n) \<Longrightarrow> \<forall>u. nr_dirty (set_dirty t s d) u = int (bits (dirty_segmap (set_dirty t s d) u) n)"
  by (auto simp: set_dirty_def bits_set fun_upd_idem fun_eq_iff)

lemma clear_dirty_simps:
  "dirty_segmap (clear_dirty t s d) = (dirty_segmap d)(t := (dirty_segmap d t)(s := False))"
  "s < n \<Longrightarrow> \<forall>t. nr_dirty d t = int (bits (dirty_segmap d t) n) \<Longrightarrow> \<forall>u. nr_dirty (clear_dirty t s d) u = int (bits (dirty_segmap (clear_dirty t s d) u) n)"
  using bits_pos[of s n "dirty_segmap d t"]
  by (auto simp: clear_dirty_def bits_clear fun_upd_idem fun_eq_iff of_nat_diff Suc_leI)

text \<open>A change of the lists only.\<close>

definition only_dsl :: "'g sm_info \<Rightarrow> 'g sm_info \<Rightarrow> bool" where
  "only_dsl sm sm' \<longleftrightarrow> (\<exists>d b. sm' = sm\<lparr>dsl := d, sm_bug := b\<rparr>)"

lemma only_dsl_upd [simp]: "only_dsl sm (sm\<lparr>dsl := d\<rparr>)" "only_dsl sm sm" "only_dsl sm (sm\<lparr>dsl := d, sm_bug := b\<rparr>)" "only_dsl sm (bug_on c sm)"
  unfolding only_dsl_def bug_on_def by (rule exI[of _ d] exI[of _ "dsl sm"], rule exI[of _ b] exI[of _ "c \<or> sm_bug sm"] exI[of _ "sm_bug sm"], simp)+

lemma only_dsl_trans: "only_dsl a b \<Longrightarrow> only_dsl b c \<Longrightarrow> only_dsl a c"
  unfolding only_dsl_def by (elim exE, simp, blast)

lemma only_dslD:
  assumes "only_dsl sm sm'"
  shows "sit sm' = sit sm" "fsm sm' = fsm sm" "curseg sm' = curseg sm" "seg sm' = seg sm" "live sm' = live sm" "IS_CURSEG sm' = IS_CURSEG sm"
    "ssa sm' = ssa sm" "sm_dcc sm' = sm_dcc sm" "entry_list sm' = entry_list sm" "nr_discards sm' = nr_discards sm" "gc_state sm' = gc_state sm"
  using assms by (auto simp: only_dsl_def live_def seg_def fun_eq_iff is_curseg)

text \<open>What is asked of the lists by themselves.\<close>

definition lists_ok :: "seg_env \<Rightarrow> 'g sm_info \<Rightarrow> dirty_seglist_info \<Rightarrow> bool" where
  "lists_ok env sm d \<longleftrightarrow>
     (\<forall>t. nr_dirty d t = int (bits (dirty_segmap d t) (nseg env))) \<and>
     (\<forall>t s. dirty_segmap d t s \<longrightarrow> s < nseg env \<and> free_segmap (fsm sm) s \<and> \<not> IS_CURSEG sm s) \<and>
     (\<forall>t s. dirty_segmap d (Dirty_log t) s \<longrightarrow> dirty_segmap d DIRTY s \<and> se_type (seg sm s) = t) \<and>
     (\<forall>s. dirty_segmap d PRE s \<longrightarrow> valid_blocks (seg sm s) = 0)"

lemma lists_ok_iff: "dirty_ok env sm = lists_ok env sm (dsl sm)"
  by (simp add: dirty_ok_def lists_ok_def)

lemma lists_ok_cong:
  "dirty_segmap d' = dirty_segmap d \<Longrightarrow> nr_dirty d' = nr_dirty d \<Longrightarrow> lists_ok env sm d' = lists_ok env sm d"
  by (simp add: lists_ok_def)

lemma only_dsl_sm_in:
  assumes o: "only_dsl sm sm'" and ok: "sm_in env X sm" and d: "lists_ok env sm (dsl sm')"
  shows "sm_in env X sm'"
proof -
  note f = only_dslD[OF o]
  have "lists_ok env sm' (dsl sm')" using d f by (simp add: lists_ok_def)
  then show ?thesis using ok f
    by (simp add: sm_in_def lists_ok_iff sit_ok_def logs_in_def log_ok_def free_clean_def)
qed

lemma set_lists_ok:
  assumes l: "lists_ok env sm d" and s: "s < nseg env" "free_segmap (fsm sm) s" "\<not> IS_CURSEG sm s"
  shows "valid_blocks (seg sm s) = 0 \<Longrightarrow> lists_ok env sm (set_dirty PRE s d)"
    "lists_ok env sm (set_dirty (Dirty_log (se_type (seg sm s))) s (set_dirty DIRTY s d))"
proof -
  have n: "\<forall>t. nr_dirty d t = int (bits (dirty_segmap d t) (nseg env))" using l by (simp add: lists_ok_def)
  note n1 = set_dirty_simps(2)[OF s(1) n]
  note n2 = set_dirty_simps(2)[OF s(1) n1[of DIRTY], of "Dirty_log (se_type (seg sm s))"]
  note l' = l[unfolded lists_ok_def, THEN conjunct2]
  show "valid_blocks (seg sm s) = 0 \<Longrightarrow> lists_ok env sm (set_dirty PRE s d)"
    unfolding lists_ok_def by (rule conjI, rule n1, insert l' s) (simp add: set_dirty_simps(1))
  show "lists_ok env sm (set_dirty (Dirty_log (se_type (seg sm s))) s (set_dirty DIRTY s d))"
    unfolding lists_ok_def by (rule conjI, rule n2, insert l' s) (simp add: set_dirty_simps(1))
qed

lemma clear_lists_ok:
  assumes l: "lists_ok env sm d" and s: "s < nseg env"
  shows "lists_ok env sm (clear_dirty PRE s d)"
    "lists_ok env sm (clear_dirty (Dirty_log (se_type (seg sm s))) s (clear_dirty DIRTY s d))"
proof -
  have n: "\<forall>t. nr_dirty d t = int (bits (dirty_segmap d t) (nseg env))" using l by (simp add: lists_ok_def)
  note n1 = clear_dirty_simps(2)[OF s n]
  note n2 = clear_dirty_simps(2)[OF s n1[of DIRTY], of "Dirty_log (se_type (seg sm s))"]
  note l' = l[unfolded lists_ok_def, THEN conjunct2]
  show "lists_ok env sm (clear_dirty PRE s d)"
    unfolding lists_ok_def by (rule conjI, rule n1, insert l') (simp add: clear_dirty_simps(1))
  show "lists_ok env sm (clear_dirty (Dirty_log (se_type (seg sm s))) s (clear_dirty DIRTY s d))"
    unfolding lists_ok_def by (rule conjI, rule n2, insert l') (auto simp: clear_dirty_simps(1))
qed

lemma remove_dirty_dsl:
  "dirty_segmap (dsl (remove_dirty env s PRE sm)) = dirty_segmap (clear_dirty PRE s (dsl sm))"
  "nr_dirty (dsl (remove_dirty env s PRE sm)) = nr_dirty (clear_dirty PRE s (dsl sm))"
  "dirty_segmap (dsl (remove_dirty env s DIRTY sm)) = dirty_segmap (clear_dirty (Dirty_log (se_type (seg sm s))) s (clear_dirty DIRTY s (dsl sm)))"
  "nr_dirty (dsl (remove_dirty env s DIRTY sm)) = nr_dirty (clear_dirty (Dirty_log (se_type (seg sm s))) s (clear_dirty DIRTY s (dsl sm)))"
  by (simp_all add: remove_dirty_def Let_def)

lemma remove_dirty_only: "only_dsl sm (remove_dirty env s t sm)" "sm_bug (remove_dirty env s t sm) = sm_bug sm"
  by (simp_all add: remove_dirty_def Let_def)

lemma remove_dirty_ok:
  assumes ok: "sm_in env X sm" and s: "s < nseg env" and t: "t = PRE \<or> t = DIRTY"
  shows "sm_in env X (remove_dirty env s t sm)"
proof (rule only_dsl_sm_in[OF remove_dirty_only(1) ok])
  have "lists_ok env sm (dsl sm)" using ok by (simp add: sm_in_def lists_ok_iff)
  note c = clear_lists_ok[OF this s]
  show "lists_ok env sm (dsl (remove_dirty env s t sm))"
    using c t lists_ok_cong[OF remove_dirty_dsl(1,2), of env sm env s sm] lists_ok_cong[OF remove_dirty_dsl(3,4), of env sm env s sm] by blast
qed

lemma locate_dirty_dsl:
  assumes "\<not> IS_CURSEG sm s"
  shows "dirty_segmap (dsl (locate_dirty env s PRE sm)) = dirty_segmap (set_dirty PRE s (dsl sm))"
    "nr_dirty (dsl (locate_dirty env s PRE sm)) = nr_dirty (set_dirty PRE s (dsl sm))"
    "dirty_segmap (dsl (locate_dirty env s DIRTY sm)) = dirty_segmap (set_dirty (Dirty_log (se_type (seg sm s))) s (set_dirty DIRTY s (dsl sm)))"
    "nr_dirty (dsl (locate_dirty env s DIRTY sm)) = nr_dirty (set_dirty (Dirty_log (se_type (seg sm s))) s (set_dirty DIRTY s (dsl sm)))"
  using assms by (simp_all add: locate_dirty_def Let_def)

lemma locate_dirty_only: "only_dsl sm (locate_dirty env s t sm)"
proof -
  have b: "only_dsl sm (bug_on c (sm\<lparr>dsl := d\<rparr>))" for c d
    by (rule only_dsl_trans[of _ "sm\<lparr>dsl := d\<rparr>"]) simp_all
  moreover have "only_dsl sm ((bug_on c (sm\<lparr>dsl := d\<rparr>))\<lparr>dsl := e\<rparr>)" for c d e
    by (rule only_dsl_trans[OF b[of c d]]) simp
  ultimately show ?thesis by (simp add: locate_dirty_def Let_def)
qed

lemma locate_dirty_ok:
  assumes ok: "sm_in env X sm" and s: "s < nseg env" "free_segmap (fsm sm) s"
    and t: "t = PRE \<and> valid_blocks (seg sm s) = 0 \<or> t = DIRTY"
  shows "sm_in env X (locate_dirty env s t sm)"
proof (cases "IS_CURSEG sm s")
  case True
  then show ?thesis using ok by (simp add: locate_dirty_def)
next
  case False
  show ?thesis
  proof (rule only_dsl_sm_in[OF locate_dirty_only ok])
    have "lists_ok env sm (dsl sm)" using ok by (simp add: sm_in_def lists_ok_iff)
    note c = set_lists_ok[OF this s False]
    show "lists_ok env sm (dsl (locate_dirty env s t sm))"
      using c t lists_ok_cong[OF locate_dirty_dsl(1,2)[OF False], of env sm env] lists_ok_cong[OF locate_dirty_dsl(3,4)[OF False], of env sm env]
      by (elim disjE conjE) simp_all
  qed
qed

text \<open>In a large section the section is neither empty nor full when one of its segments is neither.\<close>

lemma sec_part:
  assumes g: "seg_geom env" and st: "sit_ok env sm" and s: "s < nseg env" and l: "is_large_section env"
  shows "valid_blocks (seg sm s) \<le> sec_valid (sit sm) (s div sps env)"
    "valid_blocks (seg sm s) < nblk env \<Longrightarrow> sec_valid (sit sm) (s div sps env) < BLKS_PER_SEC env"
proof -
  let ?k = "s div sps env" and ?v = "\<lambda>j. valid_blocks (seg sm (s div sps env * sps env + j))"
  have k: "?k < total_sections env" by (rule sec_less[OF g s])
  have e: "sec_valid (sit sm) ?k = (\<Sum>j < sps env. ?v j)" using st l k by (simp add: sit_ok_def)
  have j: "s mod sps env < sps env" "?v (s mod sps env) = valid_blocks (seg sm s)" using g by (simp_all add: seg_geom_def)
  show "valid_blocks (seg sm s) \<le> sec_valid (sit sm) ?k"
    unfolding e j(2)[symmetric] using j(1) by (intro member_le_sum) simp_all
  have v: "?v j \<le> nblk env" if "j < sps env" for j
  proof -
    have "?k * sps env + j < Suc ?k * sps env" using that by simp
    also have "\<dots> \<le> nseg env" using k g by (simp add: seg_geom_def del: mult_Suc)
    finally show ?thesis using st entry_bounds(1)[OF g] by (simp add: sit_ok_def)
  qed
  assume "valid_blocks (seg sm s) < nblk env"
  then have "(\<Sum>j < sps env. ?v j) < (\<Sum>j < sps env. nblk env)"
    using v j by (intro sum_strict_mono_ex1) (auto intro!: bexI[of _ "s mod sps env"])
  then show "sec_valid (sit sm) ?k < BLKS_PER_SEC env" unfolding e by (simp add: BLKS_PER_SEC_def)
qed

lemma locate_dirty_bug:
  assumes g: "seg_geom env" and ok: "sm_in env X sm" and s: "s < nseg env"
    and v: "t = DIRTY \<and> is_large_section env \<longrightarrow> 0 < valid_blocks (seg sm s) \<and> valid_blocks (seg sm s) < nblk env"
  shows "sm_bug (locate_dirty env s t sm) = sm_bug sm"
proof -
  have "sec_valid (sit sm) (s div sps env) \<noteq> 0" "sec_valid (sit sm) (s div sps env) \<noteq> BLKS_PER_SEC env"
    if "t = DIRTY" "is_large_section env"
    using sec_part[OF g _ s that(2), of sm] ok v that by (auto simp: sm_in_def)
  then show ?thesis using sec_of[OF g s] by (cases "t = DIRTY \<and> is_large_section env") (auto simp: locate_dirty_def get_valid_blocks_def Let_def)
qed

lemma locate_dirty_segment_ok:
  assumes g: "seg_geom env" and ok: "sm_in env X sm" and s: "s < nseg env \<and> free_segmap (fsm sm) s \<or> s = NULL_SEGNO"
  defines "sm' \<equiv> locate_dirty_segment env s sm"
  shows "sm_in env X sm'" "only_dsl sm sm'" "\<not> (cp_disabled env \<and> is_large_section env) \<Longrightarrow> sm_bug sm' = sm_bug sm"
proof -
  have "sm_in env X sm' \<and> only_dsl sm sm' \<and> (\<not> (cp_disabled env \<and> is_large_section env) \<longrightarrow> sm_bug sm' = sm_bug sm)"
  proof (cases "s = NULL_SEGNO \<or> IS_CURSEG sm s")
    case True
    then show ?thesis using ok by (auto simp: sm'_def locate_dirty_segment_def)
  next
    case False
    with s have s: "s < nseg env" "free_segmap (fsm sm) s" by blast+
    let ?pre = "locate_dirty env s PRE sm"
    let ?v = "valid_blocks (seg sm s)"
    have e: "sm' = (if ?v = 0 \<and> (\<not> cp_disabled env \<or> ckpt_valid_blocks (seg sm s) = nblk env) then remove_dirty env s DIRTY ?pre
        else if ?v < nblk env then locate_dirty env s DIRTY sm else remove_dirty env s DIRTY sm)"
      using False g by (simp add: sm'_def locate_dirty_segment_def get_valid_blocks_def get_ckpt_valid_blocks_def Let_def)
    consider (pre) "?v = 0" "sm' = remove_dirty env s DIRTY ?pre"
      | (dirty) "?v < nblk env" "?v = 0 \<longrightarrow> cp_disabled env" "sm' = locate_dirty env s DIRTY sm"
      | (full) "sm' = remove_dirty env s DIRTY sm"
      using e by (auto split: if_splits)
    then show ?thesis
    proof cases
      case pre
      have p: "sm_in env X ?pre" using locate_dirty_ok[OF ok s] pre(1) by blast
      have "only_dsl sm sm'" unfolding pre(2) by (rule only_dsl_trans[OF locate_dirty_only remove_dirty_only(1)])
      moreover have "sm_in env X sm'" using remove_dirty_ok[OF p s(1)] pre(2) by blast
      moreover have "sm_bug sm' = sm_bug sm" using locate_dirty_bug[OF g ok s(1), of PRE] by (simp add: pre(2) remove_dirty_only)
      ultimately show ?thesis by blast
    next
      case dirty
      have "sm_in env X sm'" using locate_dirty_ok[OF ok s] dirty(3) by blast
      moreover have "only_dsl sm sm'" unfolding dirty(3) by (rule locate_dirty_only)
      moreover have "sm_bug sm' = sm_bug sm" if "\<not> (cp_disabled env \<and> is_large_section env)"
        unfolding dirty(3) by (rule locate_dirty_bug[OF g ok s(1)]) (use dirty that in blast)
      ultimately show ?thesis by blast
    next
      case full
      show ?thesis using remove_dirty_ok[OF ok s(1)] by (simp add: full remove_dirty_only)
    qed
  qed
  then show "sm_in env X sm'" "only_dsl sm sm'" "\<not> (cp_disabled env \<and> is_large_section env) \<Longrightarrow> sm_bug sm' = sm_bug sm" by blast+
qed

section \<open>Prefree and dirty\<close>

text \<open>No segment is prefree and dirty at once.\<close>

definition pre_only :: "dirty_seglist_info \<Rightarrow> bool" where
  "pre_only d \<longleftrightarrow> (\<forall>s. dirty_segmap d PRE s \<longrightarrow> \<not> dirty_segmap d DIRTY s)"

text \<open>Dirty segments, those in \<open>A\<close> apart, have a valid block.\<close>

definition dirty_pos :: "nat set \<Rightarrow> 'g sm_info \<Rightarrow> bool" where
  "dirty_pos A sm \<longleftrightarrow> (\<forall>s. s \<notin> A \<longrightarrow> dirty_segmap (dsl sm) DIRTY s \<longrightarrow> 0 < valid_blocks (seg sm s))"

lemma pre_only_shrink: "pre_only d \<Longrightarrow> (\<And>t s. dirty_segmap d' t s \<Longrightarrow> dirty_segmap d t s) \<Longrightarrow> pre_only d'"
  by (auto simp: pre_only_def)

lemma locate_lists:
  fixes s :: nat
  assumes g: "seg_geom env" and ok: "sm_in env X sm"
  defines "sm' \<equiv> locate_dirty_segment env s sm"
  shows "pre_only (dsl sm) \<Longrightarrow> \<not> dirty_segmap (dsl sm) PRE s \<Longrightarrow> pre_only (dsl sm')"
    "\<not> cp_disabled env \<Longrightarrow> dirty_pos (insert s A) sm \<Longrightarrow> dirty_pos A sm'"
proof -
  have d: "\<not> dirty_segmap (dsl sm) t s" if "s = NULL_SEGNO \<or> IS_CURSEG sm s" for t
    using ok that seg_not_null[OF g, of s] by (auto simp: sm_in_def dirty_ok_def)
  show "pre_only (dsl sm')" if po: "pre_only (dsl sm)" "\<not> dirty_segmap (dsl sm) PRE s"
  proof (cases "s = NULL_SEGNO \<or> IS_CURSEG sm s")
    case True
    then show ?thesis using po by (simp add: sm'_def locate_dirty_segment_def)
  next
    case False
    then show ?thesis using po
      by (simp add: sm'_def locate_dirty_segment_def Let_def pre_only_def remove_dirty_dsl locate_dirty_dsl set_dirty_simps clear_dirty_simps)
  qed
  assume c: "\<not> cp_disabled env" and p: "dirty_pos (insert s A) sm"
  show "dirty_pos A sm'"
  proof (cases "s = NULL_SEGNO \<or> IS_CURSEG sm s")
    case True
    have "dirty_pos A sm" using p d[OF True, of DIRTY] by (auto simp: dirty_pos_def)
    then show ?thesis using True by (simp add: sm'_def locate_dirty_segment_def)
  next
    case False
    have se: "seg (remove_dirty env s t q) = seg q" "seg (locate_dirty env s t q) = seg q" for t and q :: "'a sm_info"
      using only_dslD(4)[OF remove_dirty_only(1)] only_dslD(4)[OF locate_dirty_only] by blast+
    show ?thesis using p False c
      by (auto simp: sm'_def locate_dirty_segment_def Let_def dirty_pos_def remove_dirty_dsl locate_dirty_dsl set_dirty_simps clear_dirty_simps se
          get_valid_blocks_def)
  qed
qed

end
