(* ===== verification/Segment_Free.thy ===== *)
theory Segment_Free
  imports Segment_Ops
begin

text \<open>
  Taking free segments: the counters of the free map stay exact, the search of
  \<open>get_new_segment\<close> finds a free segment whenever a section is free, and a log can be moved to it.
\<close>

section \<open>The free map\<close>

lemma free_bound: "seg_geom env \<Longrightarrow> bits m (nseg env) < 2 ^ 32" "seg_geom env \<Longrightarrow> bits m (total_sections env) < 2 ^ 32"
proof -
  assume g: "seg_geom env"
  have n: "nseg env < 2 ^ 32" using g by (simp add: seg_geom_def NULL_SEGNO_def UINT_MAX_def)
  have t: "total_sections env \<le> nseg env" using g by (simp add: seg_geom_def)
  have le: "bits m k \<le> k" for k by (rule count_idx_le)
  show "bits m (nseg env) < 2 ^ 32" using le[of "nseg env"] n by (rule le_less_trans)
  show "bits m (total_sections env) < 2 ^ 32" using le[of "total_sections env"] n t by linarith
qed

lemma bits_neg_set:
  assumes "j < n" "\<not> m j"
  shows "bits (\<lambda>i. \<not> (m(j := True)) i) n = bits (\<lambda>i. \<not> m i) n - 1" "0 < bits (\<lambda>i. \<not> m i) n"
proof -
  have "(\<lambda>i. \<not> (m(j := True)) i) = (\<lambda>i. \<not> m i)(j := False)" by auto
  then show "bits (\<lambda>i. \<not> (m(j := True)) i) n = bits (\<lambda>i. \<not> m i) n - 1" using bits_clear[of j n "\<lambda>i. \<not> m i"] assms by simp
  show "0 < bits (\<lambda>i. \<not> m i) n" using bits_pos[of j n "\<lambda>i. \<not> m i"] assms by simp
qed

lemma bits_neg_clear:
  assumes "j < n" "m j"
  shows "bits (\<lambda>i. \<not> (m(j := False)) i) n = bits (\<lambda>i. \<not> m i) n + 1"
proof -
  have "(\<lambda>i. \<not> (m(j := False)) i) = (\<lambda>i. \<not> m i)(j := True)" by auto
  then show ?thesis using bits_set[of j n "\<lambda>i. \<not> m i"] assms by simp
qed

lemma set_inuse_ok:
  assumes g: "seg_geom env" and f: "free_ok env fi" and s: "s < nseg env" "\<not> free_segmap fi s"
  shows "free_ok env (set_inuse env s fi)" "free_segmap (set_inuse env s fi) = (free_segmap fi)(s := True)"
proof -
  let ?k = "s div sps env" and ?fi = "set_inuse env s fi"
  have k: "?k < total_sections env" by (rule sec_less[OF g s(1)])
  note b = bits_neg_set[where m = "free_segmap fi", OF s] and c = bits_neg_set[where m = "free_secmap fi", OF k]
  have sm: "free_segmap ?fi = (free_segmap fi)(s := True)" "free_secmap ?fi = (free_secmap fi)(?k := True)"
    by (auto simp: set_inuse_def Let_def sec_of[OF g s(1)] fun_upd_idem)
  have "free_segments ?fi = addu 32 (free_segments fi) (- 1)" by (simp add: set_inuse_def Let_def)
  also have "\<dots> = bits (\<lambda>i. \<not> free_segmap ?fi i) (nseg env)"
    unfolding sm(1) b(1) using f b(2) free_bound(1)[OF g] by (simp add: free_ok_def)
  finally have n: "free_segments ?fi = bits (\<lambda>i. \<not> free_segmap ?fi i) (nseg env)" .
  have "free_sections ?fi = (if free_secmap fi ?k then free_sections fi else addu 32 (free_sections fi) (- 1))"
    by (simp add: set_inuse_def Let_def sec_of[OF g s(1)])
  also have "\<dots> = bits (\<lambda>i. \<not> free_secmap ?fi i) (total_sections env)"
  proof (cases "free_secmap fi ?k")
    case True
    then have "(free_secmap fi)(?k := True) = free_secmap fi" by (simp add: fun_upd_idem)
    then show ?thesis unfolding sm(2) using f True by (simp add: free_ok_def)
  next
    case False
    then show ?thesis unfolding sm(2) c(1)[OF False] using f c(2) free_bound(2)[OF g] by (simp add: free_ok_def)
  qed
  finally have m: "free_sections ?fi = bits (\<lambda>i. \<not> free_secmap ?fi i) (total_sections env)" .
  show "free_segmap ?fi = (free_segmap fi)(s := True)" by (rule sm(1))
  show "free_ok env ?fi" unfolding free_ok_def using n m f sm by (auto simp: free_ok_def)
qed

section \<open>Finding a free section\<close>

lemma left_scan_free:
  assumes "k < n" "j < n" "\<not> m j"
  shows "left_scan m n k < n \<and> \<not> m (left_scan m n k)"
  using assms
proof (induction k)
  case 0
  have "find_next_zero_bit m n 0 < n" using zero_bit_exists[of 0 j n m] 0 by simp
  then show ?case using 0 zero_bit_less(1)[of m n 0] by simp
qed simp

definition sec_free :: "seg_env \<Rightarrow> free_segmap_info \<Rightarrow> nat \<Rightarrow> bool" where
  "sec_free env fi k \<longleftrightarrow> k < total_sections env \<and> \<not> free_secmap fi k"

text \<open>
  A pass finds a free section when there is one, provided that a walk to the left starts inside
  the map.
\<close>

lemma find_section_free:
  assumes j: "sec_free env fi j" and r: "find_section env fi to_right hint l go = (secno, l', go', bug)"
    and h: "to_right \<or> hint \<le> total_sections env \<and> hint < 2 ^ 32" and lg: "go \<longrightarrow> \<not> to_right \<and> l < total_sections env"
  shows "sec_free env fi secno \<and> \<not> bug \<and> (go' \<longrightarrow> \<not> to_right \<and> l' < total_sections env) \<and> (\<not> go' \<longrightarrow> l' = l)"
proof -
  let ?n = "total_sections env" and ?m = "free_secmap fi"
  let ?s = "find_next_zero_bit ?m ?n hint"
  have j: "j < ?n" "\<not> ?m j" using j by (simp_all add: sec_free_def)
  have z: "find_next_zero_bit ?m ?n 0 < ?n" using zero_bit_exists[of 0 j ?n ?m] j by simp
  have fs: "\<not> ?m ?s" if "?s < ?n" using zero_bit_less(1)[OF that] .
  have fz: "\<not> ?m (find_next_zero_bit ?m ?n 0)" using zero_bit_less(1)[OF z] .
  have hp: "0 < hint" if "?s \<ge> ?n" using that j zero_bit_exists[of hint j ?n ?m] by (cases "hint = 0") auto
  have sl: "sub32 hint 1 < ?n" if "?s \<ge> ?n" "\<not> to_right" using hp[OF that(1)] h that by (auto simp: sub32_le)
  note ls = left_scan_free[where m = ?m and n = ?n, OF _ j]
  show ?thesis
  proof (cases "?s \<ge> ?n")
    case True
    show ?thesis
    proof (cases to_right)
      case t: True
      then show ?thesis using r True z fz lg by (auto simp: find_section_def Let_def sec_free_def)
    next
      case False
      then show ?thesis using r True ls[OF sl[OF True False]] by (auto simp: find_section_def Let_def sec_free_def)
    qed
  next
    case False
    then show ?thesis using r fs ls[of l] lg by (auto simp: find_section_def Let_def sec_free_def split: if_splits)
  qed
qed

lemma total_sections_bound:
  assumes g: "seg_geom env"
  shows "total_sections env < NULL_SEGNO" "total_sections env < 2 ^ 32"
proof -
  have "total_sections env \<le> nseg env" using g by (simp add: seg_geom_def)
  also have "\<dots> < NULL_SEGNO" using g by (simp add: seg_geom_def)
  finally show "total_sections env < NULL_SEGNO" .
  then show "total_sections env < 2 ^ 32" by (simp add: NULL_SEGNO_def UINT_MAX_def)
qed

lemma other_zone_hint_ok:
  assumes g: "seg_geom env" and s: "secno < total_sections env" and z: "zoneno = secno div secs_per_zone env" and gl: "go \<longrightarrow> zoneno \<noteq> 0"
  shows "other_zone_hint env zoneno go \<le> total_sections env"
proof (cases go)
  case True
  have "0 < zoneno * secs_per_zone env" using gl True g by (simp add: seg_geom_def)
  moreover have "zoneno * secs_per_zone env \<le> secno" by (simp add: z)
  ultimately show ?thesis using s True by (simp add: other_zone_hint_def Let_def sub32_le)
next
  case False
  have "(zoneno + 1) * secs_per_zone env \<le> total_sections env" if "zoneno + 1 < total_sections env div secs_per_zone env"
  proof -
    have "(zoneno + 1) * secs_per_zone env \<le> total_sections env div secs_per_zone env * secs_per_zone env" using that by (intro mult_le_mono1) simp
    also have "\<dots> \<le> total_sections env" by simp
    finally show ?thesis .
  qed
  then show ?thesis using False by (simp add: other_zone_hint_def Let_def)
qed

lemma sec_free_seg:
  assumes g: "seg_geom env" and f: "free_ok env fi" and k: "sec_free env fi k"
  shows "GET_SEG_FROM_SEC env k < nseg env" "\<not> free_segmap fi (GET_SEG_FROM_SEC env k)"
proof -
  have k': "k < total_sections env" "\<not> free_secmap fi k" using k by (simp_all add: sec_free_def)
  have e: "GET_SEG_FROM_SEC env k = k * sps env" using seg_of_sec[OF g] k'(1) by simp
  show l: "GET_SEG_FROM_SEC env k < nseg env" using e k'(1) g by (simp add: seg_geom_def)
  show "\<not> free_segmap fi (GET_SEG_FROM_SEC env k)"
  proof -
    have "k * sps env div sps env = k" using g by (simp add: seg_geom_def)
    then show ?thesis using f k'(2) l unfolding free_ok_def e by metis
  qed
qed

lemma pick_segment_free:
  assumes g: "seg_geom env" and f: "free_ok env (fsm sm)" and j: "0 < free_sections (fsm sm)"
    and n: "newseg < nseg env \<or> newseg = NULL_SEGNO \<and> to_right"
  obtains s where "pick_segment env sm newseg new_sec to_right = (s, False)" "s < nseg env" "\<not> free_segmap (fsm sm) s"
proof -
  let ?fi = "fsm sm" and ?hint = "GET_SEC_FROM_SEG env newseg"
  let ?lim = "GET_SEG_FROM_SEC env (?hint + 1)"
  let ?s = "find_next_zero_bit (free_segmap ?fi) ?lim (newseg + 1)"
  obtain k where k: "sec_free env ?fi k"
    using f j bits_eq_0[of "\<lambda>k. \<not> free_secmap ?fi k" "total_sections env"] by (auto simp: free_ok_def sec_free_def)
  have h: "to_right \<or> ?hint \<le> total_sections env \<and> ?hint < 2 ^ 32"
    using n sec_of[OF g, of newseg] sec_less[OF g, of newseg] total_sections_bound(2)[OF g] by auto
  show thesis
  proof (cases "\<not> new_sec \<and> u32 (newseg + 1) mod sps env \<noteq> 0 \<and> ?s < ?lim")
    case True
    have "newseg \<noteq> NULL_SEGNO" using True by (auto simp: NULL_SEGNO_def UINT_MAX_def u32_def)
    then have ns: "newseg < nseg env" using n by blast
    have "?lim = (?hint + 1) * sps env" using seg_of_sec[OF g, of "?hint + 1"] sec_of[OF g ns] sec_less[OF g ns] by simp
    also have "\<dots> \<le> nseg env" using sec_of[OF g ns] sec_less[OF g ns] g by (simp add: seg_geom_def del: mult_Suc add_mult_distrib)
    finally have "?s < nseg env" using True by linarith
    moreover have "\<not> free_segmap ?fi ?s" using zero_bit_less(1)[of "free_segmap ?fi" ?lim "newseg + 1"] True by blast
    ultimately show thesis using that True by (simp add: pick_segment_def Let_def)
  next
    case False
    obtain secno l' go' bug where r: "find_section env ?fi to_right ?hint ?hint False = (secno, l', go', bug)" by (metis prod_cases4)
    note p = find_section_free[OF k r h, simplified]
    let ?z = "GET_ZONE_FROM_SEC env secno"
    show thesis
    proof (cases "zone_ok env sm to_right (GET_ZONE_FROM_SEG env newseg) ?z go'")
      case True
      have "pick_segment env sm newseg new_sec to_right = (GET_SEG_FROM_SEC env secno, False)"
        unfolding pick_segment_def Let_def if_not_P[OF False] using True r p by simp
      then show thesis using that sec_free_seg[OF g f, of secno] p by blast
    next
      case z: False
      have s: "secno < total_sections env" using p by (simp add: sec_free_def)
      then have "secno \<noteq> NULL_SEGNO" using total_sections_bound(1)[OF g] by auto
      then have ze: "?z = secno div secs_per_zone env" by (simp add: GET_ZONE_FROM_SEC_def)
      have "go' \<longrightarrow> ?z \<noteq> 0" using z p by (auto simp: zone_ok_def Let_def)
      note oh = other_zone_hint_ok[OF g s ze this]
      obtain secno2 l2 go2 bug2 where r2: "find_section env ?fi to_right (other_zone_hint env ?z go') l' go' = (secno2, l2, go2, bug2)"
        by (metis prod_cases4)
      have "to_right \<or> other_zone_hint env ?z go' \<le> total_sections env \<and> other_zone_hint env ?z go' < 2 ^ 32"
        using oh total_sections_bound(2)[OF g] by linarith
      note p2 = find_section_free[OF k r2 this]
      have "pick_segment env sm newseg new_sec to_right = (GET_SEG_FROM_SEC env secno2, False)"
        unfolding pick_segment_def Let_def if_not_P[OF False] using z r r2 p p2 by simp
      then show thesis using that sec_free_seg[OF g f, of secno2] p p2 by blast
    qed
  qed
qed

end
