(* ===== verification/Segment_Logs.thy ===== *)
theory Segment_Logs
  imports Segment_Free
begin

text \<open>Moving the logs: a log that is at the end of its segment gets a free segment or a dirty one.\<close>

section \<open>A log moves to another segment\<close>

lemma set_type_facts:
  fixes sm :: "'g sm_info" and s :: nat and t :: seg_type
  defines "sm' \<equiv> set_sit_entry_type t s True sm"
  shows "cur_valid_map (seg sm' r) = cur_valid_map (seg sm r)" "ckpt_valid_map (seg sm' r) = ckpt_valid_map (seg sm r)"
    "valid_blocks (seg sm' r) = valid_blocks (seg sm r)" "ckpt_valid_blocks (seg sm' r) = ckpt_valid_blocks (seg sm r)"
    "se_type (seg sm' r) = (if r = s then t else se_type (seg sm r))"
    "sm_frame sm' = sm_frame sm" "sm_bug sm' = sm_bug sm"
  by (simp_all add: sm'_def set_sit_entry_type_def mark_dirty)

lemma set_type_sit_ok:
  assumes s: "s < nseg env" and ok: "sit_ok env sm"
  shows "sit_ok env (set_sit_entry_type t s True sm)"
proof -
  let ?p = "put_seg_entry s ((seg sm s)\<lparr>se_type := t\<rparr>) sm"
  let ?sm' = "set_sit_entry_type t s True sm"
  have m: "?sm' = snd (mark_sit_entry_dirty s ?p)" by (simp add: set_sit_entry_type_def)
  have d: "dirty_sentries_bitmap (sit ?sm') = (dirty_sentries_bitmap (sit sm))(s := True)" by (simp add: m mark_dirty)
  have "dirty_sentries (sit ?sm') = bits (dirty_sentries_bitmap (sit ?sm')) (nseg env)"
    unfolding d using mark_dirty(3)[OF s, of ?p] ok by (simp add: m sit_ok_def)
  then show ?thesis using ok set_type_facts(1-4)[of t s sm] d
    by (simp add: sit_ok_def entry_ok_def) (simp add: m mark_dirty)
qed

lemma move_log:
  assumes ok: "sm_in env X sm" and s: "s < nseg env" "free_segmap (fsm sm) s" "\<And>t. \<not> dirty_segmap (dsl sm) t s" "\<not> IS_CURSEG sm s"
    and k: "inited k" "cs_segno k = s" "next_blkoff k < nblk env" "log_ok env sm k"
    and c: "curseg sm' = (curseg sm)(type := k)" and fr: "fsm sm' = fsm sm" "dsl sm' = dsl sm"
    and st: "sit_ok env sm'" and l: "live sm' = live sm" and v: "\<And>r. valid_blocks (seg sm' r) = valid_blocks (seg sm r)"
    and t: "\<And>r. r \<noteq> s \<Longrightarrow> se_type (seg sm' r) = se_type (seg sm r)"
  shows "sm_in env (X - {type}) sm'"
proof -
  have lg: "logs_in env X sm" and d: "dirty_ok env sm" using ok by (simp_all add: sm_in_def)
  have lo: "log_ok env sm' = log_ok env sm" by (simp add: log_ok_def fun_eq_iff fr l)
  have nc: "\<forall>d. cs_segno (curseg sm d) \<noteq> s \<and> s \<noteq> cs_segno (curseg sm d)" using s(4) by (auto simp: is_curseg)
  have "logs_in env (X - {type}) sm'"
    using lg k nc unfolding logs_in_def lo c by (auto simp: fun_upd_apply)
  moreover have cs: "IS_CURSEG sm' r \<Longrightarrow> IS_CURSEG sm r \<or> r = s" for r
    using k(2) by (auto simp: is_curseg c split: if_splits)
  have "dirty_ok env sm'"
  proof -
    have "\<not> IS_CURSEG sm' r" "r \<noteq> s" if "dirty_segmap (dsl sm) u r" for u r
      using d s(3) that cs[of r] by (auto simp: dirty_ok_def)
    then show ?thesis using d unfolding dirty_ok_def fr v by (metis t)
  qed
  moreover have "free_clean env sm'" using ok by (simp add: sm_in_def free_clean_def fr l)
  ultimately show ?thesis using ok st by (simp add: sm_in_def fr)
qed

section \<open>A new segment\<close>

lemma get_next_segno_ok:
  assumes g: "seg_geom env" and ok: "sm_in env X sm" and j: "0 < free_sections (fsm sm)" and a: "alloc_next env < nseg env"
    and i: "inited (curseg sm type) \<or> cs_seg_type (curseg sm type) = CURSEG_COLD_DATA"
  shows "get_next_segno env sm type < nseg env \<or> get_next_segno env sm type = NULL_SEGNO \<and> cs_seg_type (curseg sm type) = CURSEG_COLD_DATA"
proof -
  have l: "inited (curseg sm type) \<Longrightarrow> cs_segno (curseg sm type) < nseg env"
    "\<not> inited (curseg sm type) \<Longrightarrow> cs_segno (curseg sm type) = NULL_SEGNO \<and> cs_seg_type (curseg sm type) = CURSEG_COLD_DATA"
    using ok i unfolding sm_in_def logs_in_def log_ok_def by blast+
  have "0 < nseg env" using a by simp
  then show ?thesis using l a by (auto simp: get_next_segno_def Let_def)
qed

lemma inuse_sm_in:
  assumes g: "seg_geom env" and ok: "sm_in env X sm" and s: "s < nseg env" "\<not> free_segmap (fsm sm) s"
  defines "sm' \<equiv> sm\<lparr>fsm := set_inuse env s (fsm sm)\<rparr>"
  shows "sm_in env X sm'" "free_segmap (fsm sm') = (free_segmap (fsm sm))(s := True)"
proof -
  have f: "free_ok env (fsm sm)" using ok by (simp add: sm_in_def)
  note i = set_inuse_ok[OF g f s]
  show m: "free_segmap (fsm sm') = (free_segmap (fsm sm))(s := True)" by (simp add: sm'_def i(2))
  have e: "seg sm' = seg sm" "curseg sm' = curseg sm" "dsl sm' = dsl sm" "sit sm' = sit sm" by (simp_all add: sm'_def)
  have l: "live sm' = live sm" "IS_CURSEG sm' = IS_CURSEG sm" by (simp_all add: live_def e fun_eq_iff is_curseg)
  have "dirty_ok env sm'" using ok m unfolding sm_in_def dirty_ok_def e l by auto
  moreover have "logs_in env X sm'" using ok m unfolding sm_in_def logs_in_def log_ok_def e l by auto
  moreover have "free_clean env sm'" using ok m unfolding sm_in_def free_clean_def l by auto
  ultimately show "sm_in env X sm'" using ok i(1) by (simp add: sm_in_def sit_ok_def e) (simp add: sm'_def)
qed

lemma write_sum_simps [simp]:
  "fsm (write_sum_page c sm) = fsm sm" "dsl (write_sum_page c sm) = dsl sm" "curseg (write_sum_page c sm) = curseg sm"
  "seg (write_sum_page c sm) = seg sm" "sm_bug (write_sum_page c sm) = sm_bug sm" "sm_dcc (write_sum_page c sm) = sm_dcc sm"
  "live (write_sum_page c sm) = live sm" "entry_list (write_sum_page c sm) = entry_list sm" "sit (write_sum_page c sm) = sit sm"
  "gc_state (write_sum_page c sm) = gc_state sm" "nr_discards (write_sum_page c sm) = nr_discards sm"
  by (simp_all add: write_sum_page_def Let_def live_def fun_eq_iff)

lemma upd_curseg_simps [simp]:
  "fsm (upd_curseg c f sm) = fsm sm" "dsl (upd_curseg c f sm) = dsl sm" "curseg (upd_curseg c f sm) = (curseg sm)(c := f (curseg sm c))"
  "seg (upd_curseg c f sm) = seg sm" "sm_bug (upd_curseg c f sm) = sm_bug sm" "sm_dcc (upd_curseg c f sm) = sm_dcc sm"
  "live (upd_curseg c f sm) = live sm" "entry_list (upd_curseg c f sm) = entry_list sm" "sit (upd_curseg c f sm) = sit sm"
  "gc_state (upd_curseg c f sm) = gc_state sm" "nr_discards (upd_curseg c f sm) = nr_discards sm" "ssa (upd_curseg c f sm) = ssa sm"
  by (simp_all add: upd_curseg_def live_def seg_def fun_eq_iff)

text \<open>What a move of a log leaves alone.\<close>

definition log_moved :: "seg_env \<Rightarrow> curseg_id \<Rightarrow> nat \<Rightarrow> 'g sm_info \<Rightarrow> 'g sm_info \<Rightarrow> bool" where
  "log_moved env c s sm sm' \<longleftrightarrow>
     live sm' = live sm \<and> (\<forall>r. cur_valid_map (seg sm' r) = cur_valid_map (seg sm r)) \<and> (\<forall>r. valid_blocks (seg sm' r) = valid_blocks (seg sm r)) \<and>
     (\<forall>r. ckpt_valid_map (seg sm' r) = ckpt_valid_map (seg sm r)) \<and>
     free_segmap (fsm sm') = (free_segmap (fsm sm))(s := True) \<and> cs_segno (curseg sm' c) = s \<and> inited (curseg sm' c) \<and>
     (\<forall>d. d \<noteq> c \<longrightarrow> curseg sm' d = curseg sm d) \<and>
     (\<forall>t r. dirty_segmap (dsl sm') t r \<longrightarrow> dirty_segmap (dsl sm) t r) \<and>
     sm_dcc sm' = sm_dcc sm \<and> entry_list sm' = entry_list sm \<and> nr_discards sm' = nr_discards sm"

lemma reset_curseg_eq:
  "reset_curseg env c True sm =
     set_sit_entry_type (cs_seg_type (curseg sm c)) (next_segno (curseg sm c)) True
       (upd_curseg c (\<lambda>k. k\<lparr>inited := True, cs_segno := next_segno k, cs_zone := GET_ZONE_FROM_SEG env (next_segno k),
                       next_blkoff := 0, next_segno := NULL_SEGNO, sum_type_node := IS_NODESEG (cs_seg_type k)\<rparr>) sm)"
  by (simp add: reset_curseg_def Let_def upd_curseg_def)

lemma new_curseg_ok:
  fixes c :: curseg_id and ns :: bool
  assumes g: "seg_geom env" and ok: "sm_in env X sm" and j: "0 < free_sections (fsm sm)" and a: "alloc_next env < nseg env"
    and ct: "inited (curseg sm c) \<or> cs_seg_type (curseg sm c) = CURSEG_COLD_DATA"
  defines "sm' \<equiv> new_curseg env c ns sm"
  shows "sm_in env (X - {c}) sm'" "sm_bug sm' = sm_bug sm" "gc_state sm' = gc_state sm"
    "\<exists>s < nseg env. \<not> free_segmap (fsm sm) s \<and> log_moved env c s sm sm' \<and> next_blkoff (curseg sm' c) = 0"
proof -
  let ?w = "write_sum_page c sm"
  let ?n = "get_next_segno env ?w c"
  let ?r = "cs_seg_type (curseg sm c) \<in> {CURSEG_WARM_DATA, CURSEG_COLD_DATA} \<or> opt_noheap env"
  have w: "sm_in env X ?w" using ok same_core_sm_in[OF sum_core(2)] by blast
  have f: "free_ok env (fsm ?w)" using w by (simp add: sm_in_def)
  have n: "?n < nseg env \<or> ?n = NULL_SEGNO \<and> ?r" using get_next_segno_ok[OF g w _ a, of c] j ct by auto
  obtain s where s: "pick_segment env ?w ?n ns ?r = (s, False)" "s < nseg env" "\<not> free_segmap (fsm ?w) s"
    by (rule pick_segment_free[OF g f _ n, of ns]) (use j in auto)
  define u where "u = ?w\<lparr>fsm := set_inuse env s (fsm ?w)\<rparr>"
  note i = inuse_sm_in[OF g w s(2,3), folded u_def]
  let ?t = "cs_seg_type (curseg sm c)"
  define k where "k = (curseg sm c)\<lparr>inited := True, cs_segno := s, cs_zone := GET_ZONE_FROM_SEG env s,
                       next_blkoff := 0, next_segno := NULL_SEGNO, sum_type_node := IS_NODESEG ?t, alloc_type := LFS\<rparr>"
  define v where "v = reset_curseg env c True (upd_curseg c (\<lambda>c. c\<lparr>next_segno := s\<rparr>) u)"
  have e: "sm' = upd_curseg c (\<lambda>c. c\<lparr>alloc_type := LFS\<rparr>) v"
    unfolding sm'_def new_curseg_def get_new_segment_def Let_def using s by (simp add: u_def v_def)
  define y where "y = upd_curseg c (\<lambda>k. k\<lparr>inited := True, cs_segno := next_segno k, cs_zone := GET_ZONE_FROM_SEG env (next_segno k),
      next_blkoff := 0, next_segno := NULL_SEGNO, sum_type_node := IS_NODESEG (cs_seg_type k)\<rparr>) (upd_curseg c (\<lambda>c. c\<lparr>next_segno := s\<rparr>) u)"
  have v: "v = set_sit_entry_type ?t s True y"
    by (simp add: v_def reset_curseg_eq y_def u_def)
  note tf = set_type_facts[of ?t s y, folded v]
  note fr = frameE[OF tf(6)]
  have uy: "seg y = seg sm" "fsm y = fsm u" "dsl y = dsl sm" "sit y = sit sm" "sm_bug y = sm_bug sm" "live y = live sm" "sm_dcc y = sm_dcc sm"
    "entry_list y = entry_list sm" "nr_discards y = nr_discards sm" "gc_state y = gc_state sm"
    by (simp_all add: y_def u_def live_def fun_eq_iff)
  have cy: "curseg y = (curseg sm)(c := (curseg sm c)\<lparr>inited := True, cs_segno := s, cs_zone := GET_ZONE_FROM_SEG env s,
                       next_blkoff := 0, next_segno := NULL_SEGNO, sum_type_node := IS_NODESEG ?t\<rparr>)"
    by (rule ext) (simp add: y_def u_def)
  have c: "curseg sm' = (curseg u)(c := k)"
    by (simp add: e fr cy k_def u_def)
  have uf: "seg u = seg sm" "dsl u = dsl sm" "live u = live sm" "curseg u = curseg sm"
    by (simp_all add: u_def live_def fun_eq_iff)
  have nd: "\<not> dirty_segmap (dsl u) t s" for t
    using ok s(3) by (auto simp: u_def sm_in_def dirty_ok_def)
  have nc: "\<not> IS_CURSEG u s"
  proof -
    have "cs_segno (curseg sm d) \<noteq> s" for d
      using ok s(2,3) seg_not_null[OF g s(2)] by (cases "inited (curseg sm d)") (auto simp: sm_in_def logs_in_def log_ok_def)
    then show ?thesis by (simp add: is_curseg uf)
  qed
  have nl: "\<not> live sm s i" if "i < nblk env" for i using ok s(2,3) that by (simp add: sm_in_def free_clean_def)
  have lk: "log_ok env u k" using s(2) i(2) nl by (auto simp: log_ok_def k_def uf)
  have st: "sit_ok env sm'"
  proof -
    have "sit_ok env y" using ok by (simp add: sm_in_def sit_ok_def uy)
    then have "sit_ok env v" unfolding v by (rule set_type_sit_ok[OF s(2)])
    then show ?thesis by (simp add: e sit_ok_def)
  qed
  have l: "live sm' = live u" by (simp add: e live_def fun_eq_iff tf uf uy)
  show "sm_in env (X - {c}) sm'"
    by (rule move_log[OF i(1) s(2) _ nd nc _ _ _ lk c _ _ st l])
      (simp_all add: i(2) k_def nblk_pos[OF g] e fr uy uf tf)
  show "sm_bug sm' = sm_bug sm" "gc_state sm' = gc_state sm" by (simp_all add: e tf fr uy)
  have "log_moved env c s sm sm'" using c l i(2) by (simp add: log_moved_def e tf fr uy uf k_def)
  moreover have "next_blkoff (curseg sm' c) = 0" by (simp add: c k_def)
  ultimately show "\<exists>s < nseg env. \<not> free_segmap (fsm sm) s \<and> log_moved env c s sm sm' \<and> next_blkoff (curseg sm' c) = 0"
    using s(2,3) by auto
qed

section \<open>A segment with holes\<close>

lemma next_free_blkoff_free:
  assumes "next_free_blkoff env sm s i < nblk env"
  shows "\<not> live sm s (next_free_blkoff env sm s i)" "i \<le> next_free_blkoff env sm s i"
  using zero_bit_less[of "\<lambda>i. ckpt_valid_map (seg sm s) i \<or> cur_valid_map (seg sm s) i" "nblk env" i] assms
  by (auto simp: next_free_blkoff_def Let_def live_def)

lemma next_free_blkoff_live: "next_free_blkoff env sm s i = find_next_zero_bit (live sm s) (nblk env) i"
proof -
  have "(\<lambda>i. ckpt_valid_map (seg sm s) i \<or> cur_valid_map (seg sm s) i) = live sm s" by (auto simp: live_def)
  then show ?thesis by (simp add: next_free_blkoff_def Let_def)
qed

lemma next_free_blkoff_cong:
  "live sm' = live sm \<Longrightarrow> next_free_blkoff env sm' s i = next_free_blkoff env sm s i"
  by (simp add: next_free_blkoff_live)

lemma drop_dirty:
  assumes ok: "sm_in env X sm" and s: "s < nseg env"
  defines "sm' \<equiv> remove_dirty env s DIRTY (remove_dirty env s PRE sm)"
  shows "sm_in env X sm'" "only_dsl sm sm'" "sm_bug sm' = sm_bug sm" "\<not> dirty_segmap (dsl sm') t s"
    "r \<noteq> s \<Longrightarrow> dirty_segmap (dsl sm') t r = dirty_segmap (dsl sm) t r"
proof -
  let ?p = "remove_dirty env s PRE sm"
  have p: "sm_in env X ?p" using remove_dirty_ok[OF ok s] by blast
  show ok': "sm_in env X sm'" unfolding sm'_def using remove_dirty_ok[OF p s] by blast
  show "only_dsl sm sm'" unfolding sm'_def by (rule only_dsl_trans[OF remove_dirty_only(1) remove_dirty_only(1)])
  show "sm_bug sm' = sm_bug sm" by (simp add: sm'_def remove_dirty_only)
  have "\<not> dirty_segmap (dsl sm') DIRTY s" "\<not> dirty_segmap (dsl sm') PRE s"
    by (simp_all add: sm'_def remove_dirty_dsl clear_dirty_simps(1))
  then show "\<not> dirty_segmap (dsl sm') t s" using ok' by (cases t) (auto simp: sm_in_def dirty_ok_def)
  show "r \<noteq> s \<Longrightarrow> dirty_segmap (dsl sm') t r = dirty_segmap (dsl sm) t r"
    by (simp add: sm'_def remove_dirty_dsl clear_dirty_simps(1))
qed

lemma change_curseg_ok:
  fixes c :: curseg_id
  assumes g: "seg_geom env" and ok: "sm_in env X sm" and s: "next_segno (curseg sm c) = s" "dirty_segmap (dsl sm) DIRTY s"
    and h: "f2fs_segment_has_free_slot env sm s"
  defines "sm' \<equiv> change_curseg env c sm"
  shows "sm_in env (X - {c}) sm'" "sm_bug sm' = sm_bug sm" "log_moved env c s sm sm'" "s < nseg env" "free_segmap (fsm sm) s"
    "gc_state sm' = gc_state sm"
proof -
  show sn: "s < nseg env" and iu: "free_segmap (fsm sm) s" using ok s(2) by (auto simp: sm_in_def dirty_ok_def)
  have nc: "\<not> IS_CURSEG sm s" using ok s(2) by (auto simp: sm_in_def dirty_ok_def)
  let ?w = "write_sum_page c sm" and ?t = "cs_seg_type (curseg sm c)"
  have w: "sm_in env X ?w" using ok same_core_sm_in[OF sum_core(2)] by blast
  define u where "u = remove_dirty env s DIRTY (remove_dirty env s PRE ?w)"
  note d = drop_dirty[OF w sn, folded u_def]
  note o = only_dslD[OF d(2)]
  define y where "y = upd_curseg c (\<lambda>k. k\<lparr>inited := True, cs_segno := next_segno k, cs_zone := GET_ZONE_FROM_SEG env (next_segno k),
      next_blkoff := 0, next_segno := NULL_SEGNO, sum_type_node := IS_NODESEG (cs_seg_type k)\<rparr>) u"
  define v where "v = set_sit_entry_type ?t s True y"
  define e where "e = next_free_blkoff env sm s 0"
  define q where "q = upd_curseg c (\<lambda>c. c\<lparr>alloc_type := SSR, next_blkoff := next_free_blkoff env v (cs_segno c) 0\<rparr>) v"
  have sm': "sm' = upd_curseg c (\<lambda>c. c\<lparr>sum_entries := (if sum_page_ok env s then ssa q s else (\<lambda>_. (0, 0, 0)))\<rparr>) q"
    unfolding sm'_def change_curseg_def Let_def reset_curseg_eq
    using s(1) iu by (simp add: u_def v_def y_def q_def set_test_and_inuse_def only_dslD(3)[OF remove_dirty_only(1)])
  note tf = set_type_facts[of ?t s y, folded v_def]
  note fr = frameE[OF tf(6)]
  have uy: "seg y = seg sm" "fsm y = fsm sm" "dsl y = dsl u" "sit y = sit sm" "sm_bug y = sm_bug sm" "live y = live sm" "sm_dcc y = sm_dcc sm"
    "entry_list y = entry_list sm" "nr_discards y = nr_discards sm" "gc_state y = gc_state sm"
    by (simp_all add: y_def o d(3))
  have lv: "live v = live sm" using tf(1,2) uy(1) by (simp add: live_def fun_eq_iff)
  have cy: "curseg y = (curseg sm)(c := (curseg sm c)\<lparr>inited := True, cs_segno := s, cs_zone := GET_ZONE_FROM_SEG env s,
                       next_blkoff := 0, next_segno := NULL_SEGNO, sum_type_node := IS_NODESEG ?t\<rparr>)"
    by (rule ext) (simp add: y_def o s(1))
  define k where "k = (curseg sm' c)"
  have c: "curseg sm' = (curseg u)(c := k)" by (rule ext) (simp add: k_def sm' q_def fr cy o)
  have k: "inited k" "cs_segno k = s" "next_blkoff k = e" "alloc_type k = SSR"
    by (simp_all add: k_def sm' q_def fr cy e_def next_free_blkoff_cong[OF lv])
  have el: "e < nblk env" using h by (simp add: e_def f2fs_segment_has_free_slot_def)
  have "\<not> live sm s e" unfolding e_def by (rule next_free_blkoff_free(1)) (use el e_def in simp)
  then have lk: "log_ok env u k" using sn iu k by (simp add: log_ok_def o)
  have st: "sit_ok env sm'"
  proof -
    have "sit_ok env y" using ok by (simp add: sm_in_def sit_ok_def uy)
    then have "sit_ok env v" unfolding v_def by (rule set_type_sit_ok[OF sn])
    then show ?thesis by (simp add: sm' q_def sit_ok_def)
  qed
  have l: "live sm' = live u" by (simp add: sm' q_def lv o)
  have nc': "\<not> IS_CURSEG u s" using nc by (simp add: is_curseg o)
  show "sm_in env (X - {c}) sm'"
    by (rule move_log[OF d(1) sn _ d(4) nc' k(1,2) _ lk c _ _ st l])
      (simp_all add: iu o k el sm' q_def fr uy tf)
  show "sm_bug sm' = sm_bug sm" "gc_state sm' = gc_state sm" by (simp_all add: sm' q_def tf fr uy)
  have "\<forall>t r. dirty_segmap (dsl u) t r \<longrightarrow> dirty_segmap (dsl sm) t r"
  proof (intro allI impI)
    fix t r assume "dirty_segmap (dsl u) t r"
    then show "dirty_segmap (dsl sm) t r" using d(4)[of t] d(5)[of r t] by (cases "r = s") simp_all
  qed
  then show "log_moved env c s sm sm'"
    using c l k iu by (simp add: log_moved_def o fun_upd_idem) (simp add: sm' q_def tf fr uy)
qed

end
