(* ===== verification/Segment_Alloc.thy ===== *)
theory Segment_Alloc
  imports Segment_Logs
begin

text \<open>
  Allocation of blocks. The segment manager relies on victim selection only through the
  contract \<open>victim_selection\<close>; under it the allocator hands out a block that is not live and keeps the
  invariant.
\<close>

section \<open>The position of a log\<close>

lemma logs_in_step:
  assumes l: "logs_in env X sm" and c: "curseg sm' = (curseg sm)(c := k)" and i: "inited (curseg sm c)" "inited k"
    and s: "cs_segno k = cs_segno (curseg sm c)" and k: "log_ok env sm k" and lo: "log_ok env sm' = log_ok env sm"
  shows "logs_in env (insert c X) sm'"
  using l i k unfolding logs_in_def lo c by (auto simp: s)

lemma refresh_ok:
  fixes c :: curseg_id
  assumes g: "seg_geom env" and ok: "sm_in env {} sm" and i: "inited (curseg sm c)"
  defines "sm' \<equiv> refresh_next_blkoff env c sm"
  shows "sm_in env {c} sm'" "next_blkoff (curseg sm c) < next_blkoff (curseg sm' c)" "cs_segno (curseg sm' c) = cs_segno (curseg sm c)"
    "inited (curseg sm' c)" "\<And>d. d \<noteq> c \<Longrightarrow> curseg sm' d = curseg sm d"
proof -
  let ?k = "curseg sm c" and ?k' = "curseg sm' c"
  have lo: "log_ok env sm ?k" "next_blkoff ?k < nblk env" using ok i by (auto simp: sm_in_def logs_in_def)
  have u: "u16 (next_blkoff ?k + 1) = next_blkoff ?k + 1" using lo(2) g by (simp add: u16_def seg_geom_def)
  have k: "?k' = ?k\<lparr>next_blkoff := next_blkoff ?k'\<rparr>"
    "next_blkoff ?k' = (if alloc_type ?k = SSR then next_free_blkoff env sm (cs_segno ?k) (next_blkoff ?k + 1) else next_blkoff ?k + 1)"
    by (simp_all add: sm'_def refresh_next_blkoff_def u[simplified])
  show "next_blkoff ?k < next_blkoff ?k'"
    using lo(2) next_free_blkoff_free(2)[of env sm "cs_segno ?k" "next_blkoff ?k + 1"] zero_bit_le unfolding k(2)
    by (cases "next_free_blkoff env sm (cs_segno ?k) (next_blkoff ?k + 1) < nblk env") auto
  show e: "cs_segno ?k' = cs_segno ?k" "inited ?k'" using i by (simp_all add: sm'_def refresh_next_blkoff_def)
  show o: "\<And>d. d \<noteq> c \<Longrightarrow> curseg sm' d = curseg sm d" by (simp add: sm'_def refresh_next_blkoff_def)
  have f: "fsm sm' = fsm sm" "dsl sm' = dsl sm" "seg sm' = seg sm" "sit sm' = sit sm" "live sm' = live sm"
    by (simp_all add: sm'_def refresh_next_blkoff_def)
  have "log_ok env sm' ?k'"
    using lo(1) next_free_blkoff_free(1)[of env sm "cs_segno ?k" "next_blkoff ?k + 1"]
    by (simp add: log_ok_def e f k(2)) (subst k(1), simp add: k(2))
  moreover have lo': "log_ok env sm' = log_ok env sm" by (simp add: log_ok_def fun_eq_iff f)
  ultimately have lk: "log_ok env sm ?k'" by simp
  have cu: "curseg sm' = (curseg sm)(c := ?k')" by (simp add: sm'_def refresh_next_blkoff_def)
  have "logs_in env {} sm" using ok by (simp add: sm_in_def)
  then have lg: "logs_in env {c} sm'"
    by (rule logs_in_step[OF _ cu i e(2) e(1) lk lo'])
  have "IS_CURSEG sm' = IS_CURSEG sm" using o e by (simp add: is_curseg fun_eq_iff) metis
  then have "dirty_ok env sm'" using ok by (simp add: sm_in_def dirty_ok_def f)
  then show "sm_in env {c} sm'" using ok lg by (simp add: sm_in_def sit_ok_def free_clean_def f)
qed

lemma drop_exception:
  assumes "sm_in env {c} sm" "next_blkoff (curseg sm c) < nblk env" "inited (curseg sm c)"
  shows "sm_in env {} sm"
  using assms by (simp add: sm_in_def logs_in_def) metis

lemma sm_in_mono: "sm_in env X sm \<Longrightarrow> X \<subseteq> Y \<Longrightarrow> sm_in env Y sm"
  by (auto simp: sm_in_def logs_in_def)

lemma sm_in_bug: "sm_in env X (sm\<lparr>sm_bug := b\<rparr>) = sm_in env X sm"
proof -
  have f: "sit (sm\<lparr>sm_bug := b\<rparr>) = sit sm" "seg (sm\<lparr>sm_bug := b\<rparr>) = seg sm" "live (sm\<lparr>sm_bug := b\<rparr>) = live sm" "IS_CURSEG (sm\<lparr>sm_bug := b\<rparr>) = IS_CURSEG sm"
    by (simp_all add: seg_def live_def is_curseg fun_eq_iff)
  have "log_ok env (sm\<lparr>sm_bug := b\<rparr>) = log_ok env sm" by (simp add: log_ok_def fun_eq_iff f)
  then show ?thesis by (simp add: sm_in_def sit_ok_def logs_in_def dirty_ok_def free_clean_def f)
qed

section \<open>The old block\<close>

text \<open>The block that a write replaces is valid, or there is none.\<close>

definition old_ok :: "seg_env \<Rightarrow> 'g sm_info \<Rightarrow> nat \<Rightarrow> bool" where
  "old_ok env sm b \<longleftrightarrow>
     GET_SEGNO (geo env) b = NULL_SEGNO \<or> (\<exists>s i. s < nseg env \<and> i < nblk env \<and> b = blk_of env s i \<and> cur_valid_map (seg sm s) i)"

lemma clear_old:
  assumes g: "seg_geom env" and ok: "sm_in env X sm" and o: "old_ok env sm b"
  defines "sm' \<equiv> update_sit_entry env b (- 1) sm"
  shows "sm_in env X sm'" "sm_frame sm' = sm_frame sm" "sm_bug sm' = sm_bug sm" "\<And>t j. live sm' t j \<Longrightarrow> live sm t j"
    "\<And>t j. ckpt_valid_map (seg sm' t) j = ckpt_valid_map (seg sm t) j"
    "\<And>t j. t < nseg env \<Longrightarrow> j < nblk env \<Longrightarrow> cur_valid_map (seg sm' t) j = (cur_valid_map (seg sm t) j \<and> b \<noteq> blk_of env t j)"
    "GET_SEGNO (geo env) b < nseg env \<and> free_segmap (fsm sm) (GET_SEGNO (geo env) b) \<or> GET_SEGNO (geo env) b = NULL_SEGNO"
proof -
  have "sm_in env X sm' \<and> sm_frame sm' = sm_frame sm \<and> sm_bug sm' = sm_bug sm \<and> (\<forall>t j. live sm' t j \<longrightarrow> live sm t j) \<and>
    (\<forall>t j. ckpt_valid_map (seg sm' t) j = ckpt_valid_map (seg sm t) j) \<and>
    (\<forall>t j. t < nseg env \<longrightarrow> j < nblk env \<longrightarrow> cur_valid_map (seg sm' t) j = (cur_valid_map (seg sm t) j \<and> b \<noteq> blk_of env t j)) \<and>
    (GET_SEGNO (geo env) b < nseg env \<and> free_segmap (fsm sm) (GET_SEGNO (geo env) b) \<or> GET_SEGNO (geo env) b = NULL_SEGNO)"
  proof (cases "GET_SEGNO (geo env) b = NULL_SEGNO")
    case True
    have "b \<noteq> blk_of env t j" if "t < nseg env" "j < nblk env" for t j
      using True blk_segno[OF g that] seg_not_null[OF g that(1)] by auto
    then show ?thesis using True ok by (simp add: sm'_def update_sit_entry_def)
  next
    case False
    then obtain s i where s: "s < nseg env" "i < nblk env" and b: "b = blk_of env s i" and v: "cur_valid_map (seg sm s) i"
      using o by (auto simp: old_ok_def)
    note c = clear_sm_in[OF g ok s v, folded b, folded sm'_def]
    have n: "(b \<noteq> blk_of env t j) = ((t, j) \<noteq> (s, i))" if "j < nblk env" for t j using blk_of_inj[OF s(2) that, of s t] b by auto
    have "\<forall>t j. t < nseg env \<longrightarrow> j < nblk env \<longrightarrow> cur_valid_map (seg sm' t) j = (cur_valid_map (seg sm t) j \<and> b \<noteq> blk_of env t j)"
      by (simp add: c(6) n)
    moreover have "free_segmap (fsm sm) s" using ok s v by (auto simp: sm_in_def free_clean_def live_def)
    moreover have "GET_SEGNO (geo env) b = s" using blk_segno[OF g s] b by simp
    ultimately show ?thesis using c(1-5) s(1) by simp
  qed
  then show "sm_in env X sm'" "sm_frame sm' = sm_frame sm" "sm_bug sm' = sm_bug sm" "\<And>t j. live sm' t j \<Longrightarrow> live sm t j"
    "\<And>t j. ckpt_valid_map (seg sm' t) j = ckpt_valid_map (seg sm t) j"
    "\<And>t j. t < nseg env \<Longrightarrow> j < nblk env \<Longrightarrow> cur_valid_map (seg sm' t) j = (cur_valid_map (seg sm t) j \<and> b \<noteq> blk_of env t j)"
    "GET_SEGNO (geo env) b < nseg env \<and> free_segmap (fsm sm) (GET_SEGNO (geo env) b) \<or> GET_SEGNO (geo env) b = NULL_SEGNO"
    by blast+
qed

section \<open>The contract of victim selection\<close>

definition gc_moved :: "'g sm_info \<Rightarrow> 'g sm_info \<Rightarrow> bool" where
  "gc_moved sm sm' \<longleftrightarrow> (\<exists>g m b. sm' = sm\<lparr>gc_state := g, sit := (sit sm)\<lparr>max_mtime := m\<rparr>, sm_bug := b\<rparr>)"

lemma gc_moved_refl [simp]: "gc_moved sm sm"
  unfolding gc_moved_def by (rule exI[of _ "gc_state sm"], rule exI[of _ "max_mtime (sit sm)"], rule exI[of _ "sm_bug sm"]) simp

lemma gc_moved_trans: "gc_moved a b \<Longrightarrow> gc_moved b c \<Longrightarrow> gc_moved a c"
  unfolding gc_moved_def by (elim exE, simp, blast)

lemma gc_movedD:
  assumes "gc_moved sm sm'"
  shows "fsm sm' = fsm sm" "dsl sm' = dsl sm" "curseg sm' = curseg sm" "seg sm' = seg sm" "live sm' = live sm" "ssa sm' = ssa sm"
    "sm_dcc sm' = sm_dcc sm" "entry_list sm' = entry_list sm" "nr_discards sm' = nr_discards sm" "sm_in env X sm' = sm_in env X sm"
    "f2fs_segment_has_free_slot env sm' s = f2fs_segment_has_free_slot env sm s"
proof -
  obtain g m b where e: "sm' = sm\<lparr>gc_state := g, sit := (sit sm)\<lparr>max_mtime := m\<rparr>, sm_bug := b\<rparr>" using assms by (auto simp: gc_moved_def)
  show "fsm sm' = fsm sm" "dsl sm' = dsl sm" "curseg sm' = curseg sm" "ssa sm' = ssa sm"
    "sm_dcc sm' = sm_dcc sm" "entry_list sm' = entry_list sm" "nr_discards sm' = nr_discards sm" by (simp_all add: e)
  show s: "seg sm' = seg sm" by (simp add: e seg_def fun_eq_iff)
  then show "live sm' = live sm" by (simp add: live_def fun_eq_iff)
  then show "f2fs_segment_has_free_slot env sm' s = f2fs_segment_has_free_slot env sm s"
    using next_free_blkoff_cong[of sm' sm env s 0] by (simp add: f2fs_segment_has_free_slot_def)
  let ?a = "sm\<lparr>gc_state := g, sit := (sit sm)\<lparr>max_mtime := m\<rparr>\<rparr>"
  have "sm_in env X sm' = sm_in env X ?a" unfolding e using sm_in_bug[where sm = ?a and b = b] by simp
  also have "\<dots> = sm_in env X sm" by (rule same_core_sm_in) (simp add: same_core_def seg_def)
  finally show "sm_in env X sm' = sm_in env X sm" .
qed

lemma free_segment_slot:
  assumes g: "seg_geom env" and ok: "sm_in env X sm" and n: "get_free_segment env sm \<noteq> NULL_SEGNO"
  shows "dirty_segmap (dsl sm) DIRTY (get_free_segment env sm)" "f2fs_segment_has_free_slot env sm (get_free_segment env sm)"
proof -
  let ?P = "\<lambda>s. dirty_segmap (dsl sm) DIRTY s \<and> get_valid_blocks env sm s False = 0 \<and> get_ckpt_valid_blocks env sm s False = 0"
  obtain s where s: "get_free_segment env sm = s" "find ?P [0..<nseg env] = Some s"
    using n by (auto simp: get_free_segment_def MAIN_SEGS_def split: option.splits)
  have p: "?P s" "s < nseg env" using s(2) by (auto simp: find_Some_iff)
  have "bits (\<lambda>i. cur_valid_map (seg sm s) i \<or> ckpt_valid_map (seg sm s) i) (nblk env) = 0"
    using p ok by (simp add: get_ckpt_valid_blocks_def sm_in_def sit_ok_def entry_ok_def)
  then have "\<not> live sm s 0" using nblk_pos[OF g] by (simp add: bits_eq_0 live_def)
  then show "dirty_segmap (dsl sm) DIRTY (get_free_segment env sm)" "f2fs_segment_has_free_slot env sm (get_free_segment env sm)"
    using p(1) s(1) zero_bit_exists[of 0 0 "nblk env" "live sm s"] nblk_pos[OF g]
    by (simp_all add: f2fs_segment_has_free_slot_def next_free_blkoff_live)
qed

text \<open>A change of the victim state and of the fields of a log that do not matter.\<close>

lemma upd_next_segno_core: "same_core sm (upd_curseg c (\<lambda>k. k\<lparr>next_segno := s\<rparr>) sm)"
  by (simp add: same_core_def)

lemma log_moved_after:
  assumes m: "log_moved env c s sm1 sm2" and e: "fsm sm1 = fsm sm" "dsl sm1 = dsl sm" "seg sm1 = seg sm" "live sm1 = live sm" "sm_dcc sm1 = sm_dcc sm"
    "entry_list sm1 = entry_list sm" "nr_discards sm1 = nr_discards sm" "\<And>d. d \<noteq> c \<Longrightarrow> curseg sm1 d = curseg sm d"
  shows "log_moved env c s sm sm2"
  using m e by (simp add: log_moved_def)

text \<open>Every dirty segment has a block that was valid in the last checkpoint or is valid now.\<close>

definition dirty_ck :: "'g sm_info \<Rightarrow> bool" where
  "dirty_ck sm \<longleftrightarrow> (\<forall>s. dirty_segmap (dsl sm) DIRTY s \<longrightarrow> 0 < ckpt_valid_blocks (seg sm s))"

lemma dirty_ck_cong: "dsl sm' = dsl sm \<Longrightarrow> seg sm' = seg sm \<Longrightarrow> dirty_ck sm' = dirty_ck sm"
  by (simp add: dirty_ck_def)

locale victim_selection =
  fixes gv :: "'g victim_fn" and gok :: "seg_env \<Rightarrow> 'g \<Rightarrow> bool"
  assumes victim_frame: "seg_geom env \<Longrightarrow> sm_in env X sm \<Longrightarrow> gok env (gc_state sm) \<Longrightarrow> mode \<noteq> LFS \<Longrightarrow>
      gv env t mode age sm = (r, sm') \<Longrightarrow> gc_moved sm sm' \<and> gok env (gc_state sm')"
    and victim_no_bug: "seg_geom env \<Longrightarrow> sm_in env X sm \<Longrightarrow> gok env (gc_state sm) \<Longrightarrow> mode \<noteq> LFS \<Longrightarrow>
      dirty_ck sm \<Longrightarrow> gv env t mode age sm = (r, sm') \<Longrightarrow> sm_bug sm' = sm_bug sm"
    and victim_dirty: "seg_geom env \<Longrightarrow> sm_in env X sm \<Longrightarrow> gok env (gc_state sm) \<Longrightarrow> mode \<noteq> LFS \<Longrightarrow>
      gv env t mode age sm = (Some s, sm') \<Longrightarrow> dirty_segmap (dsl sm) DIRTY s \<and> f2fs_segment_has_free_slot env sm s"
begin

lemma ssr_search_ok:
  assumes g: "seg_geom env" and m: "mode \<noteq> LFS"
  shows "sm_in env X sm \<Longrightarrow> gok env (gc_state sm) \<Longrightarrow> ssr_search gv env mode age ts sm = (r, sm') \<Longrightarrow>
     gc_moved sm sm' \<and> gok env (gc_state sm') \<and> (dirty_ck sm \<longrightarrow> sm_bug sm' = sm_bug sm) \<and>
     (\<forall>s. r = Some s \<longrightarrow> dirty_segmap (dsl sm) DIRTY s \<and> f2fs_segment_has_free_slot env sm s)"
proof (induction ts arbitrary: sm)
  case (Cons t ts)
  obtain q sm1 where q: "gv env t mode age sm = (q, sm1)" by (metis surj_pair)
  note f = victim_frame[OF g Cons.prems(1,2) m q] and b = victim_no_bug[OF g Cons.prems(1,2) m _ q]
  note d = gc_movedD[OF conjunct1[OF f]]
  show ?case
  proof (cases q)
    case None
    then have "ssr_search gv env mode age ts sm1 = (r, sm')" using Cons.prems(3) q by simp
    from Cons.IH[OF _ _ this] Cons.prems(1) f d b dirty_ck_cong[OF d(2,4)] show ?thesis using gc_moved_trans[of sm sm1 sm'] by auto
  next
    case (Some s)
    then show ?thesis using Cons.prems q f b victim_dirty[OF g Cons.prems(1,2) m, of t age s sm1] by auto
  qed
qed simp

lemma get_ssr_ok:
  fixes c :: curseg_id
  assumes g: "seg_geom env" and ok: "sm_in env X sm" and gs: "gok env (gc_state sm)" and m: "mode \<noteq> LFS"
    and r: "get_ssr_segment gv env c mode age sm = (found, sm')"
  shows "sm_in env X sm'" "gok env (gc_state sm')" "dirty_ck sm \<Longrightarrow> sm_bug sm' = sm_bug sm \<and> dirty_ck sm'"
    "found \<Longrightarrow> dirty_segmap (dsl sm') DIRTY (next_segno (curseg sm' c)) \<and> f2fs_segment_has_free_slot env sm' (next_segno (curseg sm' c))"
    "\<And>s sm2. log_moved env c s sm' sm2 \<Longrightarrow> log_moved env c s sm sm2" "fsm sm' = fsm sm" "seg sm' = seg sm"
    "inited (curseg sm' c) = inited (curseg sm c)"
proof -
  let ?t = "cs_seg_type (curseg sm c)"
  obtain q sm1 where q: "ssr_search gv env mode age (?t # filter (\<lambda>i. i \<noteq> ?t) (ssr_types ?t)) sm = (q, sm1)" by (metis surj_pair)
  note f = ssr_search_ok[OF g m ok gs q]
  note d = gc_movedD[OF conjunct1[OF f]]
  let ?u = "\<lambda>s. upd_curseg c (\<lambda>k. k\<lparr>next_segno := s\<rparr>) sm1"
  have ok1: "sm_in env X sm1" using d ok by simp
  have e: "(\<exists>s. q = Some s \<and> found \<and> sm' = ?u s) \<or>
           q = None \<and> get_free_segment env sm1 \<noteq> NULL_SEGNO \<and> found \<and> sm' = ?u (get_free_segment env sm1) \<or>
           q = None \<and> \<not> found \<and> sm' = sm1"
    using r q by (auto simp: get_ssr_segment_def Let_def split: option.splits if_splits)
  then have cu: "sm' = sm1 \<and> \<not> found \<or> found \<and> (\<exists>s. sm' = ?u s \<and> dirty_segmap (dsl sm) DIRTY s \<and> f2fs_segment_has_free_slot env sm s)"
    using f free_segment_slot[OF g ok1] d by auto
  have u: "sm_in env X (?u s) = sm_in env X sm" "live (?u s) = live sm" for s
    using same_core_sm_in[OF upd_next_segno_core[of sm1 c s]] d by simp_all
  show "sm_in env X sm'" "gok env (gc_state sm')" "fsm sm' = fsm sm" "seg sm' = seg sm"
    "inited (curseg sm' c) = inited (curseg sm c)"
    using cu u ok ok1 f d by auto
  have "dsl sm' = dsl sm" "seg sm' = seg sm" using cu d by auto
  then show "dirty_ck sm \<Longrightarrow> sm_bug sm' = sm_bug sm \<and> dirty_ck sm'" using cu f dirty_ck_cong[of sm' sm] by auto
  have "f2fs_segment_has_free_slot env (?u s) r = f2fs_segment_has_free_slot env sm r" for s r
    using next_free_blkoff_cong[of "?u s" sm env r 0] u(2) by (simp add: f2fs_segment_has_free_slot_def)
  then show "found \<Longrightarrow> dirty_segmap (dsl sm') DIRTY (next_segno (curseg sm' c)) \<and> f2fs_segment_has_free_slot env sm' (next_segno (curseg sm' c))"
    using cu d by auto
  show "log_moved env c s sm' sm2 \<Longrightarrow> log_moved env c s sm sm2" for s sm2
    by (erule log_moved_after) (use cu d u in auto)
qed

text \<open>A log gets a new segment.\<close>

definition log_renewed :: "seg_env \<Rightarrow> curseg_id set \<Rightarrow> curseg_id \<Rightarrow> 'g sm_info \<Rightarrow> 'g sm_info \<Rightarrow> bool" where
  "log_renewed env X c sm sm' \<longleftrightarrow>
     sm_in env (X - {c}) sm' \<and> gok env (gc_state sm') \<and> (dirty_ck sm \<longrightarrow> sm_bug sm' = sm_bug sm) \<and>
     (\<exists>s < nseg env. log_moved env c s sm sm')"

lemma new_curseg_renewed:
  assumes g: "seg_geom env" and ok: "sm_in env X sm" and gs: "gok env (gc_state sm)"
    and j: "0 < free_sections (fsm sm)" and a: "alloc_next env < nseg env"
    and i: "inited (curseg sm c) \<or> cs_seg_type (curseg sm c) = CURSEG_COLD_DATA"
  shows "log_renewed env X c sm (new_curseg env c ns sm)"
  using new_curseg_ok[OF g ok j a i, of ns] gs unfolding log_renewed_def by auto

lemma change_curseg_renewed:
  assumes g: "seg_geom env" and ok: "sm_in env X sm" and gs: "gok env (gc_state sm)"
    and s: "dirty_segmap (dsl sm) DIRTY (next_segno (curseg sm c)) \<and> f2fs_segment_has_free_slot env sm (next_segno (curseg sm c))"
  shows "log_renewed env X c sm (change_curseg env c sm)"
  using change_curseg_ok[OF g ok refl, of c] s gs unfolding log_renewed_def by auto

lemma renewed_after:
  assumes "log_renewed env X c sm1 sm2" "dirty_ck sm \<Longrightarrow> sm_bug sm1 = sm_bug sm \<and> dirty_ck sm1"
    "\<And>s sm2. log_moved env c s sm1 sm2 \<Longrightarrow> log_moved env c s sm sm2"
  shows "log_renewed env X c sm sm2"
  using assms by (auto simp: log_renewed_def)

lemma need_new_seg_ok:
  fixes c :: curseg_id
  assumes g: "seg_geom env" and ok: "sm_in env X sm" and gs: "gok env (gc_state sm)"
    and j: "0 < free_sections (fsm sm)" and a: "alloc_next env < nseg env"
    and i: "inited (curseg sm c)" and n: "need_new_seg gv env c sm = (new, sm1)"
  shows "log_renewed env X c sm (if new then new_curseg env c False sm1 else change_curseg env c sm1)"
proof (cases "sm1 = sm \<and> new")
  case True
  then show ?thesis using new_curseg_renewed[OF g ok gs j a] i by simp
next
  case False
  obtain found q where q: "get_ssr_segment gv env c SSR 0 sm = (found, q)" by (metis surj_pair)
  have e: "new = (\<not> found)" "sm1 = q" using n q False by (auto simp: need_new_seg_def Let_def split: if_splits)
  note f = get_ssr_ok[OF g ok gs _ q, simplified]
  show ?thesis
  proof (cases found)
    case True
    then show ?thesis using change_curseg_renewed[OF g f(1,2) f(4)] f(3,5) unfolding e by (auto intro: renewed_after)
  next
    case False
    then show ?thesis using new_curseg_renewed[OF g f(1,2) _ a, of c False] f(3,5,6,8) i j unfolding e by (auto intro: renewed_after)
  qed
qed

text \<open>Changing the type of a log matters only before it is used.\<close>

lemma set_type_sm_in:
  assumes ok: "sm_in env X sm" and c: "c \<in> X"
  shows "sm_in env X (upd_curseg c (\<lambda>k. k\<lparr>cs_seg_type := t\<rparr>) sm)"
proof -
  let ?sm = "upd_curseg c (\<lambda>k. k\<lparr>cs_seg_type := t\<rparr>) sm"
  have lo: "log_ok env sm (k\<lparr>cs_seg_type := t\<rparr>) = log_ok env sm k" "log_ok env ?sm k = log_ok env sm k" for k by (simp_all add: log_ok_def)
  have "logs_in env X sm" using ok by (simp add: sm_in_def)
  then have "logs_in env X ?sm" using c unfolding logs_in_def by (auto simp: lo)
  moreover have "IS_CURSEG ?sm = IS_CURSEG sm" by (auto simp: is_curseg fun_eq_iff)
  ultimately show ?thesis using ok by (simp add: sm_in_def sit_ok_def dirty_ok_def free_clean_def)
qed

lemma get_atssr_ok:
  fixes c :: curseg_id
  assumes g: "seg_geom env" and ok: "sm_in env X sm" and gs: "gok env (gc_state sm)" and m: "mode \<noteq> LFS"
    and j: "0 < free_sections (fsm sm)" and a: "alloc_next env < nseg env" and c: "c \<in> X"
  shows "log_renewed env X c sm (get_atssr_segment gv env c t mode age sm)"
proof -
  let ?u = "upd_curseg c (\<lambda>k. k\<lparr>cs_seg_type := t\<rparr>) sm"
  obtain found q where q: "get_ssr_segment gv env c mode age ?u = (found, q)" by (metis surj_pair)
  have "gok env (gc_state ?u)" using gs by simp
  note f = get_ssr_ok[OF g set_type_sm_in[OF ok c] this m q]
  let ?t = "if found then se_type (get_seg_entry q (next_segno (curseg q c))) else CURSEG_COLD_DATA"
  let ?q = "upd_curseg c (\<lambda>k. k\<lparr>cs_seg_type := ?t\<rparr>) q"
  have e: "get_atssr_segment gv env c t mode age sm = (if found then change_curseg env c ?q else new_curseg env c True ?q)"
    using q by (simp add: get_atssr_segment_def Let_def)
  have lm: "log_moved env c s sm sm2" if "log_moved env c s ?q sm2" for s sm2
  proof -
    have "log_moved env c s q sm2" by (rule log_moved_after[OF that]) simp_all
    then have "log_moved env c s ?u sm2" by (rule f(5))
    then show ?thesis by (rule log_moved_after) simp_all
  qed
  have q1: "sm_in env X ?q" by (rule set_type_sm_in[OF f(1) c])
  have bq: "dirty_ck sm \<Longrightarrow> sm_bug ?q = sm_bug sm \<and> dirty_ck ?q" using f(3) by (simp add: dirty_ck_def)
  show ?thesis
  proof (cases found)
    case True
    have "f2fs_segment_has_free_slot env ?q r = f2fs_segment_has_free_slot env q r" for r
      using next_free_blkoff_cong[of ?q q env r 0] by (simp add: f2fs_segment_has_free_slot_def)
    then have "log_renewed env X c ?q (change_curseg env c ?q)"
      by (intro change_curseg_renewed[OF g q1]) (use f(2,4) True in simp_all)
    then show ?thesis using True bq lm unfolding e by (auto intro: renewed_after)
  next
    case False
    have "log_renewed env X c ?q (new_curseg env c True ?q)" by (rule new_curseg_renewed[OF g q1 _ _ a]) (use f(2,6) j False in simp_all)
    then show ?thesis using False bq lm unfolding e by (auto intro: renewed_after)
  qed
qed

lemma next_curseg_ok:
  fixes c :: curseg_id
  assumes g: "seg_geom env" and ok: "sm_in env {c} sm" and gs: "gok env (gc_state sm)"
    and j: "0 < free_sections (fsm sm)" and a: "alloc_next env < nseg env" and i: "inited (curseg sm c)"
  shows "log_renewed env {c} c sm (next_curseg gv env c old sm)"
proof (cases "c = CURSEG_ALL_DATA_ATGC")
  case True
  then show ?thesis using get_atssr_ok[OF g ok gs _ j a, of AT_SSR] by (simp add: next_curseg_def Let_def)
next
  case False
  obtain new q where q: "need_new_seg gv env c sm = (new, q)" by (metis surj_pair)
  show ?thesis using need_new_seg_ok[OF g ok gs j a i q] False q by (simp add: next_curseg_def)
qed

text \<open>The part of an allocation before the log is renewed: the block of the log becomes valid, the old one invalid.\<close>

end

definition alloc_block :: "seg_env \<Rightarrow> nat \<Rightarrow> summary \<Rightarrow> curseg_id \<Rightarrow> 'g sm_info \<Rightarrow> 'g sm_info" where
  "alloc_block env old e c sm =
     (let b = NEXT_FREE_BLKADDR env (curseg sm c); gc = (c = CURSEG_ALL_DATA_ATGC);
          sm = sm\<lparr>sm_dcc := f2fs_wait_discard_bio (seg_dev env) (geo env) (sm_dcc sm) b\<rparr>;
          sm = refresh_next_blkoff env c (add_sum_entry c e sm);
          m = (if gc then get_segment_mtime env sm old else 0);
          sm = update_segment_mtime env b m (if gc then sm else update_segment_mtime env old 0 sm)
      in update_sit_entry env old (- 1) (update_sit_entry env b 1 sm))"

lemma sum_dcc_frame:
  "curseg (add_sum_entry c e sm) d = (curseg sm d)\<lparr>sum_entries := (if d = c then (sum_entries (curseg sm c))(next_blkoff (curseg sm c) := e) else sum_entries (curseg sm d))\<rparr>"
  "fsm (add_sum_entry c e sm) = fsm sm" "dsl (add_sum_entry c e sm) = dsl sm" "sm_dcc (add_sum_entry c e sm) = sm_dcc sm"
  "entry_list (add_sum_entry c e sm) = entry_list sm" "nr_discards (add_sum_entry c e sm) = nr_discards sm" "gc_state (add_sum_entry c e sm) = gc_state sm"
  "sm_bug (add_sum_entry c e sm) = sm_bug sm" "seg (add_sum_entry c e sm) = seg sm"
  by (simp_all add: add_sum_entry_def)

lemma refresh_frame:
  "fsm (refresh_next_blkoff env c sm) = fsm sm" "dsl (refresh_next_blkoff env c sm) = dsl sm" "sm_dcc (refresh_next_blkoff env c sm) = sm_dcc sm"
  "entry_list (refresh_next_blkoff env c sm) = entry_list sm" "nr_discards (refresh_next_blkoff env c sm) = nr_discards sm"
  "gc_state (refresh_next_blkoff env c sm) = gc_state sm" "sm_bug (refresh_next_blkoff env c sm) = sm_bug sm" "seg (refresh_next_blkoff env c sm) = seg sm"
  by (simp_all add: refresh_next_blkoff_def)

lemma alloc_block_ok:
  fixes c :: curseg_id and e :: summary
  assumes g: "seg_geom env" and ok: "sm_in env {} sm" and i: "inited (curseg sm c)" and o: "old_ok env sm old"
  defines "s \<equiv> cs_segno (curseg sm c)" and "k \<equiv> next_blkoff (curseg sm c)" and "sm' \<equiv> alloc_block env old e c sm"
  shows "s < nseg env" "k < nblk env" "NEXT_FREE_BLKADDR env (curseg sm c) = blk_of env s k" "\<not> live sm s k"
    "sm_in env {c} sm'" "inited (curseg sm' c)" "sm_bug sm' = sm_bug sm" "fsm sm' = fsm sm" "gc_state sm' = gc_state sm"
    "sm_dcc sm' = f2fs_wait_discard_bio (seg_dev env) (geo env) (sm_dcc sm) (blk_of env s k)"
    "entry_list sm' = entry_list sm" "nr_discards sm' = nr_discards sm"
    "\<And>t j. live sm' t j \<Longrightarrow> live sm t j \<or> (t, j) = (s, k)"
    "\<And>t j. t < nseg env \<Longrightarrow> j < nblk env \<Longrightarrow>
       cur_valid_map (seg sm' t) j = (cur_valid_map (seg sm t) j \<and> old \<noteq> blk_of env t j \<or> (t, j) = (s, k))"
    "\<And>d. d \<noteq> c \<Longrightarrow> cs_segno (curseg sm' d) = cs_segno (curseg sm d)" "dsl sm' = dsl sm"
    "\<And>t j. ckpt_valid_map (seg sm' t) j = (ckpt_valid_map (seg sm t) j \<or> \<not> cp_disabled env \<and> (t, j) = (s, k))"
proof -
  have lo: "log_ok env sm (curseg sm c)" "next_blkoff (curseg sm c) < nblk env" using ok i by (auto simp: sm_in_def logs_in_def)
  show s: "s < nseg env" and k: "k < nblk env" using lo by (auto simp: s_def k_def log_ok_def)
  show b: "NEXT_FREE_BLKADDR env (curseg sm c) = blk_of env s k" using next_free_blk[OF g] s k by (simp add: s_def k_def)
  show nl: "\<not> live sm s k" using lo by (auto simp: s_def k_def log_ok_def split: if_splits)
  define s1 where "s1 = add_sum_entry c e (sm\<lparr>sm_dcc := f2fs_wait_discard_bio (seg_dev env) (geo env) (sm_dcc sm) (blk_of env s k)\<rparr>)"
  define s2 where "s2 = refresh_next_blkoff env c s1"
  define m where "m = (if c = CURSEG_ALL_DATA_ATGC then get_segment_mtime env s2 old else 0)"
  define s3 where "s3 = update_segment_mtime env (blk_of env s k) m (if c = CURSEG_ALL_DATA_ATGC then s2 else update_segment_mtime env old 0 s2)"
  define s4 where "s4 = update_sit_entry env (blk_of env s k) 1 s3"
  have e: "sm' = update_sit_entry env old (- 1) s4"
    by (simp add: sm'_def alloc_block_def Let_def b s1_def s2_def m_def s3_def s4_def)
  have c1: "same_core sm s1" unfolding s1_def by (rule same_core_trans[OF sum_core(3) sum_core(1)])
  have i1: "inited (curseg s1 c)" "cs_segno (curseg s1 c) = s" "next_blkoff (curseg s1 c) = k"
    using c1 i by (simp_all add: same_core_def s_def k_def)
  have ok1: "sm_in env {} s1" using ok same_core_sm_in[OF c1] by simp
  note r = refresh_ok[OF g ok1 i1(1), folded s2_def]
  have c3: "same_core s2 s3" unfolding s3_def by (auto intro: mtime_core same_core_trans)
  have f3: "sm_frame s3 = sm_frame s2" by (simp add: s3_def)
  have cc: "curseg s3 = curseg s2" by (rule frameE(3)[OF f3])
  note sc = same_coreD[OF same_core_trans[OF c1, of s3]]
  have ss: "seg s1 = seg sm" "seg s2 = seg sm" by (simp_all add: s1_def s2_def sum_dcc_frame refresh_frame)
  have cv: "cur_valid_map (seg s3 t) = cur_valid_map (seg sm t)" "live s3 t j = live sm t j" for t j
    using same_coreD(1,2,6)[OF c3] ss by (auto simp: live_def)
  have ok3: "sm_in env {c} s3" using r(1) same_core_sm_in[OF c3] by simp
  have nc: "\<not> cur_valid_map (seg s3 s) k" using nl cv by (simp add: live_def)
  note u = set_sm_in[OF g ok3 s k nc, of c, folded s4_def]
  have u': "inited (curseg s3 c)" "cs_segno (curseg s3 c) = s" "k < next_blkoff (curseg s3 c)" using r(2-4) i1 by (simp_all add: cc)
  note u = u[OF u']
  have o4: "old_ok env s4 old" using o u(5) cv(1) by (auto simp: old_ok_def)
  note v = clear_old[OF g u(1) o4, folded e]
  show "sm_in env {c} sm'" by (rule v(1))
  note f5 = frameE[OF v(2)] and f4 = frameE[OF u(2)] and f3' = frameE[OF f3]
  show "inited (curseg sm' c)" by (simp add: f5 f4 u')
  show "sm_bug sm' = sm_bug sm" using v(3) u(3) same_coreD(10)[OF c3] by (simp add: s2_def s1_def sum_dcc_frame refresh_frame)
  show "ckpt_valid_map (seg sm' t) j = (ckpt_valid_map (seg sm t) j \<or> \<not> cp_disabled env \<and> (t, j) = (s, k))" for t j
    using v(5)[of t j] u(6)[of t j] same_coreD(2)[OF c3] ss by simp
  show "fsm sm' = fsm sm" "dsl sm' = dsl sm" "gc_state sm' = gc_state sm" "entry_list sm' = entry_list sm" "nr_discards sm' = nr_discards sm"
    "sm_dcc sm' = f2fs_wait_discard_bio (seg_dev env) (geo env) (sm_dcc sm) (blk_of env s k)"
    by (simp_all add: f5 f4 f3' s2_def s1_def sum_dcc_frame refresh_frame)
  show "live sm' t j \<Longrightarrow> live sm t j \<or> (t, j) = (s, k)" for t j using v(4)[of t j] u(4)[of t j] cv(2)[of t j] by blast
  have "old \<noteq> blk_of env s k"
  proof
    assume "old = blk_of env s k"
    then obtain t i where t: "i < nblk env" "blk_of env s k = blk_of env t i" "cur_valid_map (seg sm t) i"
      using o blk_segno[OF g s k] seg_not_null[OF g s] by (auto simp: old_ok_def)
    show False using nl t(3) blk_of_inj[OF k t(1,2)] by (simp add: live_def)
  qed
  then show "cur_valid_map (seg sm' t) j = (cur_valid_map (seg sm t) j \<and> old \<noteq> blk_of env t j \<or> (t, j) = (s, k))"
    if "t < nseg env" "j < nblk env" for t j
    using v(6)[OF that] u(5)[of t j] cv(1)[of t] by auto
  show "cs_segno (curseg sm' d) = cs_segno (curseg sm d)" if "d \<noteq> c" for d
    using r(5)[OF that] by (simp add: f5 f4 f3' s1_def sum_dcc_frame)
qed

text \<open>A block that garbage collection moves is a data block.\<close>

definition gc_old_ok :: "seg_env \<Rightarrow> 'g sm_info \<Rightarrow> curseg_id \<Rightarrow> nat \<Rightarrow> bool" where
  "gc_old_ok env sm c old \<longleftrightarrow>
     (c = CURSEG_ALL_DATA_ATGC \<longrightarrow> GET_SEGNO (geo env) old \<noteq> NULL_SEGNO \<and> \<not> IS_NODESEG (se_type (seg sm (GET_SEGNO (geo env) old))))"

lemma allocate_eq:
  assumes g: "seg_geom env" and ok: "sm_in env {} sm" and i: "inited (curseg sm c)" and n: "gc_old_ok env sm c old"
  shows "f2fs_allocate_data_block gv env old e c sm =
    (let b = NEXT_FREE_BLKADDR env (curseg sm c); q = alloc_block env old e c sm;
         q = (if \<not> has_curseg_space env (curseg q c) then next_curseg gv env c (GET_SEGNO (geo env) old) q else q)
     in (b, locate_dirty_segment env (GET_SEGNO (geo env) b) (locate_dirty_segment env (GET_SEGNO (geo env) old) q)))"
proof -
  have "next_blkoff (curseg sm c) < nblk env" using ok i by (auto simp: sm_in_def logs_in_def)
  then have b2: "bug_on (nblk env \<le> next_blkoff (curseg sm c)) sm = sm" by (simp add: bug_on_def)
  have "\<not> (c = CURSEG_ALL_DATA_ATGC \<and> (GET_SEGNO (geo env) old = NULL_SEGNO \<or> IS_NODESEG (se_type (get_seg_entry sm (GET_SEGNO (geo env) old)))))"
    using n by (auto simp: gc_old_ok_def)
  then have b1: "bug_on (c = CURSEG_ALL_DATA_ATGC \<and> (GET_SEGNO (geo env) old = NULL_SEGNO \<or> IS_NODESEG (se_type (get_seg_entry sm (GET_SEGNO (geo env) old))))) sm = sm"
    unfolding bug_on_def by (rule if_not_P)
  show ?thesis unfolding f2fs_allocate_data_block_def alloc_block_def Let_def b1 b2 by (rule refl)
qed

text \<open>What an allocation promises.\<close>

definition alloc_spec :: "seg_env \<Rightarrow> curseg_id \<Rightarrow> nat \<Rightarrow> 'g sm_info \<Rightarrow> nat \<Rightarrow> 'g sm_info \<Rightarrow> bool" where
  "alloc_spec env c old sm b sm' \<longleftrightarrow>
     (\<exists>s k. s < nseg env \<and> k < nblk env \<and> b = blk_of env s k \<and> \<not> live sm s k \<and>
        (\<forall>t j. live sm' t j \<longrightarrow> live sm t j \<or> (t, j) = (s, k)) \<and>
        (\<forall>t j. t < nseg env \<longrightarrow> j < nblk env \<longrightarrow>
           cur_valid_map (seg sm' t) j = (cur_valid_map (seg sm t) j \<and> old \<noteq> blk_of env t j \<or> (t, j) = (s, k)))) \<and>
     sm_dcc sm' = f2fs_wait_discard_bio (seg_dev env) (geo env) (sm_dcc sm) b \<and>
     entry_list sm' = entry_list sm \<and> nr_discards sm' = nr_discards sm"

text \<open>What holds at rest while checkpoints are enabled: valid blocks are in the checkpointed map too.\<close>

definition steady :: "seg_env \<Rightarrow> 'g sm_info \<Rightarrow> bool" where
  "steady env sm \<longleftrightarrow> dirty_pos {} sm \<and> (\<forall>s < nseg env. \<forall>i < nblk env. cur_valid_map (seg sm s) i \<longrightarrow> ckpt_valid_map (seg sm s) i)"

lemma valid_pos:
  assumes "sit_ok env sm" "s < nseg env"
  shows "0 < valid_blocks (seg sm s) \<longleftrightarrow> (\<exists>i < nblk env. cur_valid_map (seg sm s) i)"
    "0 < ckpt_valid_blocks (seg sm s) \<longleftrightarrow> (\<exists>i < nblk env. live sm s i)"
  using assms bits_eq_0[of "cur_valid_map (seg sm s)" "nblk env"] bits_eq_0[of "\<lambda>i. cur_valid_map (seg sm s) i \<or> ckpt_valid_map (seg sm s) i" "nblk env"]
  by (auto simp: sit_ok_def entry_ok_def live_def)

lemma steady_dirty_ck:
  assumes ok: "sm_in env X sm" and st: "steady env sm" and ok': "sm_in env Y q" and d: "dsl q = dsl sm"
    and c: "\<And>t j. ckpt_valid_map (seg sm t) j \<Longrightarrow> ckpt_valid_map (seg q t) j"
  shows "dirty_ck q"
  unfolding dirty_ck_def
proof (intro allI impI)
  fix s assume s: "dirty_segmap (dsl q) DIRTY s"
  have sn: "s < nseg env" using ok s d by (auto simp: sm_in_def dirty_ok_def)
  have "0 < valid_blocks (seg sm s)" using st s d by (simp add: steady_def dirty_pos_def)
  then obtain i where i: "i < nblk env" "cur_valid_map (seg sm s) i" using valid_pos(1)[of env sm s] ok sn by (auto simp: sm_in_def)
  then have "ckpt_valid_map (seg q s) i" using st sn c by (simp add: steady_def)
  then show "0 < ckpt_valid_blocks (seg q s)" using valid_pos(2)[of env q s] ok' sn i(1) by (auto simp: sm_in_def live_def)
qed

text \<open>The part of the state that the segment manager keeps for itself.\<close>

definition lists_kept :: "seg_env \<Rightarrow> 'g sm_info \<Rightarrow> 'g sm_info \<Rightarrow> bool" where
  "lists_kept env sm sm' \<longleftrightarrow>
     (pre_only (dsl sm) \<longrightarrow> pre_only (dsl sm')) \<and> (\<not> cp_disabled env \<longrightarrow> steady env sm \<longrightarrow> steady env sm' \<and> sm_bug sm' = sm_bug sm)"

context victim_selection
begin

lemma allocate_ok:
  assumes g: "seg_geom env" and ok: "sm_in env {} sm" and i: "inited (curseg sm c)" and o: "old_ok env sm old" and n: "gc_old_ok env sm c old"
    and gs: "gok env (gc_state sm)" and j: "0 < free_sections (fsm sm)" and a: "alloc_next env < nseg env"
    and r: "f2fs_allocate_data_block gv env old e c sm = (b, sm')"
  shows "sm_in env {} sm'" "gok env (gc_state sm')" "lists_kept env sm sm'" "alloc_spec env c old sm b sm'"
proof -
  let ?q = "alloc_block env old e c sm" and ?so = "GET_SEGNO (geo env) old"
  note q = alloc_block_ok(1-4)[OF g ok i o] alloc_block_ok(5-17)[OF g ok i o, where e = e]
  let ?s = "cs_segno (curseg sm c)" and ?k = "next_blkoff (curseg sm c)"
  have bn: "GET_SEGNO (geo env) (blk_of env ?s ?k) = ?s" using blk_segno[OF g q(1,2)] .
  define p where "p = (if \<not> has_curseg_space env (curseg ?q c) then next_curseg gv env c ?so ?q else ?q)"
  have gq: "gok env (gc_state ?q)" "0 < free_sections (fsm ?q)" using q(8,9) gs j by simp_all
  have p: "sm_in env {} p" "gok env (gc_state p)" "dirty_ck ?q \<Longrightarrow> sm_bug p = sm_bug ?q" "live p = live ?q"
      "cur_valid_map (seg p t) = cur_valid_map (seg ?q t)" "ckpt_valid_map (seg p t) = ckpt_valid_map (seg ?q t)"
      "free_segmap (fsm ?q) t \<Longrightarrow> free_segmap (fsm p) t" "valid_blocks (seg p t) = valid_blocks (seg ?q t)"
      "sm_dcc p = sm_dcc ?q" "entry_list p = entry_list ?q" "nr_discards p = nr_discards ?q" "dirty_segmap (dsl p) u t \<Longrightarrow> dirty_segmap (dsl sm) u t" for t u
  proof -
    have "sm_in env {} p \<and> gok env (gc_state p) \<and> (dirty_ck ?q \<longrightarrow> sm_bug p = sm_bug ?q) \<and> live p = live ?q \<and>
      (\<forall>t. cur_valid_map (seg p t) = cur_valid_map (seg ?q t)) \<and> (\<forall>t. ckpt_valid_map (seg p t) = ckpt_valid_map (seg ?q t)) \<and>
      (\<forall>t. free_segmap (fsm ?q) t \<longrightarrow> free_segmap (fsm p) t) \<and> (\<forall>t. valid_blocks (seg p t) = valid_blocks (seg ?q t)) \<and>
      sm_dcc p = sm_dcc ?q \<and> entry_list p = entry_list ?q \<and> nr_discards p = nr_discards ?q \<and>
      (\<forall>u t. dirty_segmap (dsl p) u t \<longrightarrow> dirty_segmap (dsl sm) u t)"
    proof (cases "has_curseg_space env (curseg ?q c)")
      case True
      then have "next_blkoff (curseg ?q c) < nblk env" using g by (simp add: has_curseg_space_def)
      then show ?thesis using True drop_exception[OF q(5) _ q(6)] gq q(16) by (simp add: p_def)
    next
      case False
      then show ?thesis using next_curseg_ok[OF g q(5) gq a q(6), of ?so] q(16) unfolding p_def log_renewed_def log_moved_def by auto
    qed
    then show "sm_in env {} p" "gok env (gc_state p)" "dirty_ck ?q \<Longrightarrow> sm_bug p = sm_bug ?q" "live p = live ?q"
      "cur_valid_map (seg p t) = cur_valid_map (seg ?q t)" "ckpt_valid_map (seg p t) = ckpt_valid_map (seg ?q t)"
      "free_segmap (fsm ?q) t \<Longrightarrow> free_segmap (fsm p) t" "valid_blocks (seg p t) = valid_blocks (seg ?q t)"
      "sm_dcc p = sm_dcc ?q" "entry_list p = entry_list ?q" "nr_discards p = nr_discards ?q" "dirty_segmap (dsl p) u t \<Longrightarrow> dirty_segmap (dsl sm) u t" for t u
      by blast+
  qed
  have so: "?so < nseg env \<and> free_segmap (fsm p) ?so \<or> ?so = NULL_SEGNO" using clear_old(7)[OF g ok o] p(7) q(8) by auto
  note l1 = locate_dirty_segment_ok[OF g p(1) so]
  let ?p1 = "locate_dirty_segment env ?so p"
  note d1 = only_dslD[OF l1(2)]
  have "free_segmap (fsm sm) ?s" using ok i by (auto simp: sm_in_def logs_in_def log_ok_def)
  then have sn: "?s < nseg env \<and> free_segmap (fsm ?p1) ?s \<or> ?s = NULL_SEGNO" using p(7) q(1,8) d1(2) by auto
  note l2 = locate_dirty_segment_ok[OF g l1(1) sn]
  note d2 = only_dslD[OF l2(2)]
  have e: "b = blk_of env ?s ?k" "sm' = locate_dirty_segment env ?s ?p1"
    using r by (simp_all add: allocate_eq[OF g ok i n] Let_def q(3) bn p_def)
  show ok': "sm_in env {} sm'" unfolding e by (rule l2(1))
  show "gok env (gc_state sm')" unfolding e using p(2) d1 d2 by simp
  have cur: "cur_valid_map (seg sm' t) j = (cur_valid_map (seg sm t) j \<and> old \<noteq> blk_of env t j \<or> (t, j) = (?s, ?k))"
    if "t < nseg env" "j < nblk env" for t j using p(5) d1 d2 q(14)[OF that] by (simp add: e)
  have "sm_dcc sm' = f2fs_wait_discard_bio (seg_dev env) (geo env) (sm_dcc sm) b" "entry_list sm' = entry_list sm" "nr_discards sm' = nr_discards sm"
    using p(9-11) d1 d2 q(10-12) by (simp_all add: e)
  moreover have "live sm' t j \<Longrightarrow> live sm t j \<or> (t, j) = (?s, ?k)" for t j using p(4) d1 d2 q(13)[of t j] by (simp add: e)
  ultimately show "alloc_spec env c old sm b sm'"
    unfolding alloc_spec_def using q(1,2,4) e(1) cur by blast
  have st: "sit_ok env p" "sit_ok env sm" using p(1) ok by (simp_all add: sm_in_def)
  have cp: "cur_valid_map (seg p t) j = (cur_valid_map (seg sm t) j \<and> old \<noteq> blk_of env t j \<or> (t, j) = (?s, ?k))"
    if "t < nseg env" "j < nblk env" for t j using p(5) q(14)[OF that] by simp
  have "pre_only (dsl sm')" if po: "pre_only (dsl sm)"
  proof -
    have "0 < valid_blocks (seg sm ?so)" if nn: "?so \<noteq> NULL_SEGNO"
    proof -
      obtain s i where s: "s < nseg env" "i < nblk env" "old = blk_of env s i" "cur_valid_map (seg sm s) i" using o nn by (auto simp: old_ok_def)
      then show ?thesis using valid_pos(1)[OF st(2), of s] blk_segno[OF g s(1,2)] by auto
    qed
    then have "\<not> dirty_segmap (dsl sm) PRE ?so" using ok seg_not_null[OF g, of ?so] by (auto simp: sm_in_def dirty_ok_def)
    then have n1: "\<not> dirty_segmap (dsl p) PRE ?so" using p(12) by blast
    have po1: "pre_only (dsl ?p1)" by (rule locate_lists(1)[OF g p(1) _ n1]) (rule pre_only_shrink[OF po p(12)])
    have "0 < valid_blocks (seg ?p1 ?s)" using valid_pos(1)[OF st(1) q(1)] cp[OF q(1,2)] q(2) d1 by auto
    then have "\<not> dirty_segmap (dsl ?p1) PRE ?s" using l1(1) by (auto simp: sm_in_def dirty_ok_def)
    then show ?thesis unfolding e by (rule locate_lists(1)[OF g l1(1) po1])
  qed
  moreover have "steady env sm' \<and> sm_bug sm' = sm_bug sm" if c: "\<not> cp_disabled env" and sy: "steady env sm"
  proof
    have "dirty_ck ?q" by (rule steady_dirty_ck[OF ok sy q(5,16)]) (simp add: q(17))
    then show "sm_bug sm' = sm_bug sm" unfolding e using c l1(3) l2(3) p(3) q(7) by simp
    have "dirty_pos {?s, ?so} p" unfolding dirty_pos_def
    proof (intro allI impI)
      fix t assume t: "t \<notin> {?s, ?so}" "dirty_segmap (dsl p) DIRTY t"
      then have "dirty_segmap (dsl sm) DIRTY t" using p(12) by blast
      then have tn: "t < nseg env" "0 < valid_blocks (seg sm t)" using ok sy by (auto simp: sm_in_def dirty_ok_def steady_def dirty_pos_def)
      then obtain j where "j < nblk env" "cur_valid_map (seg sm t) j" using valid_pos(1)[OF st(2), of t] by blast
      moreover have "old \<noteq> blk_of env t j" using t blk_segno[OF g tn(1) \<open>j < nblk env\<close>] by auto
      ultimately show "0 < valid_blocks (seg p t)" using valid_pos(1)[OF st(1) tn(1)] cp[OF tn(1)] by blast
    qed
    then have "dirty_pos {?s} ?p1" using locate_lists(2)[OF g p(1) c, of ?so "{?s}"] by (simp add: insert_commute)
    then have "dirty_pos {} sm'" unfolding e using locate_lists(2)[OF g l1(1) c, of ?s "{}"] by simp
    moreover have "ckpt_valid_map (seg sm' t) j" if "t < nseg env" "j < nblk env" "cur_valid_map (seg sm' t) j" for t j
      using cur[OF that(1,2)] that sy c q(17)[of t j] p(6)[of t] d1 d2 by (auto simp: e steady_def)
    ultimately show "steady env sm'" by (simp add: steady_def)
  qed
  ultimately show "lists_kept env sm sm'" by (simp add: lists_kept_def)
qed

end

section \<open>Invalidating a block\<close>

lemma invalidate_ok:
  assumes g: "seg_geom env" and ok: "sm_in env X sm" and s: "s < nseg env" "k < nblk env" and v: "cur_valid_map (seg sm s) k"
    and ad: "blk_of env s k \<notin> {NULL_ADDR (geo env), NEW_ADDR (geo env), COMPRESS_ADDR (geo env)}"
  defines "sm' \<equiv> f2fs_invalidate_blocks env (blk_of env s k) sm"
  shows "sm_in env X sm'" "\<not> (cp_disabled env \<and> is_large_section env) \<Longrightarrow> sm_bug sm' = sm_bug sm"
    "\<And>t j. live sm' t j \<Longrightarrow> live sm t j" "\<And>t j. cur_valid_map (seg sm' t) j = (cur_valid_map (seg sm t) j \<and> (t, j) \<noteq> (s, k))"
    "gc_state sm' = gc_state sm" "sm_dcc sm' = sm_dcc sm" "entry_list sm' = entry_list sm" "nr_discards sm' = nr_discards sm" "fsm sm' = fsm sm"
    "curseg sm' = curseg sm" "lists_kept env sm sm'"
proof -
  let ?m = "update_segment_mtime env (blk_of env s k) 0 sm"
  let ?u = "update_sit_entry env (blk_of env s k) (- 1) ?m"
  note c = mtime_core[of sm env "blk_of env s k" 0]
  note cd = same_coreD[OF c]
  have e: "sm' = locate_dirty_segment env s ?u"
    using ad blk_segno[OF g s] by (simp add: sm'_def f2fs_invalidate_blocks_def Let_def)
  have ok1: "sm_in env X ?m" using ok same_core_sm_in[OF c] by simp
  have v1: "cur_valid_map (seg ?m s) k" using v by (simp add: cd)
  note u = clear_sm_in[OF g ok1 s v1]
  note f = frameE[OF u(2)] and fm = frameE[OF mtime_frame[of env "blk_of env s k" 0 sm]]
  have "free_segmap (fsm sm) s" using ok s v by (auto simp: sm_in_def free_clean_def live_def)
  then have "s < nseg env \<and> free_segmap (fsm ?u) s \<or> s = NULL_SEGNO" using s f fm by simp
  note l = locate_dirty_segment_ok[OF g u(1) this, folded e]
  note d = only_dslD[OF l(2)]
  show "sm_in env X sm'" by (rule l(1))
  show "\<not> (cp_disabled env \<and> is_large_section env) \<Longrightarrow> sm_bug sm' = sm_bug sm" using l(3) u(3) cd(10) by simp
  show "live sm' t j \<Longrightarrow> live sm t j" for t j using u(4)[of t j] cd(6) by (simp add: d)
  show "cur_valid_map (seg sm' t) j = (cur_valid_map (seg sm t) j \<and> (t, j) \<noteq> (s, k))" for t j using u(6)[of t j] cd(1) by (simp add: d)
  show "gc_state sm' = gc_state sm" "sm_dcc sm' = sm_dcc sm" "entry_list sm' = entry_list sm" "nr_discards sm' = nr_discards sm" "fsm sm' = fsm sm"
    "curseg sm' = curseg sm"
    by (simp_all add: d f fm)
  have st: "sit_ok env sm" "sit_ok env ?u" using ok u(1) by (simp_all add: sm_in_def)
  have "0 < valid_blocks (seg sm s)" using valid_pos(1)[OF st(1) s(1)] s(2) v by blast
  then have "\<not> dirty_segmap (dsl sm) PRE s" using ok by (auto simp: sm_in_def dirty_ok_def)
  then have "pre_only (dsl sm) \<Longrightarrow> pre_only (dsl sm')" unfolding e using locate_lists(1)[OF g u(1), of s] f(2) fm(2) by simp
  moreover have "steady env sm' \<and> sm_bug sm' = sm_bug sm" if c: "\<not> cp_disabled env" and sy: "steady env sm"
  proof
    have "dirty_pos {s} ?u" unfolding dirty_pos_def
    proof (intro allI impI)
      fix t assume t: "t \<notin> {s}" "dirty_segmap (dsl ?u) DIRTY t"
      then have tn: "t < nseg env" "0 < valid_blocks (seg sm t)" using ok sy f fm by (auto simp: sm_in_def dirty_ok_def steady_def dirty_pos_def)
      then obtain j where "j < nblk env" "cur_valid_map (seg sm t) j" using valid_pos(1)[OF st(1), of t] by blast
      then show "0 < valid_blocks (seg ?u t)" using valid_pos(1)[OF st(2) tn(1)] u(6)[of t j] cd(1) t by auto
    qed
    then have "dirty_pos {} sm'" unfolding e by (rule locate_lists(2)[OF g u(1) c])
    moreover have "cur_valid_map (seg sm' t) j \<longrightarrow> ckpt_valid_map (seg sm' t) j" if "t < nseg env" "j < nblk env" for t j
      using u(5,6)[of t j] cd(1,2) sy that by (simp add: d steady_def)
    ultimately show "steady env sm'" by (simp add: steady_def)
    show "sm_bug sm' = sm_bug sm" using l(3) u(3) cd(10) c by simp
  qed
  ultimately show "lists_kept env sm sm'" by (simp add: lists_kept_def)
qed

section \<open>Whole new segments\<close>

text \<open>What operations that only move logs leave behind.\<close>

definition log_only :: "seg_env \<Rightarrow> 'g sm_info \<Rightarrow> 'g sm_info \<Rightarrow> bool" where
  "log_only env sm sm' \<longleftrightarrow>
     sm_in env {} sm' \<and> live sm' = live sm \<and> (\<forall>r. cur_valid_map (seg sm' r) = cur_valid_map (seg sm r)) \<and>
     sm_dcc sm' = sm_dcc sm \<and> entry_list sm' = entry_list sm \<and> nr_discards sm' = nr_discards sm \<and> lists_kept env sm sm'"

lemma log_only_refl: "sm_in env {} sm \<Longrightarrow> log_only env sm sm"
  by (simp add: log_only_def lists_kept_def)

lemma log_only_trans: "log_only env a b \<Longrightarrow> log_only env b c \<Longrightarrow> log_only env a c"
  by (auto simp: log_only_def lists_kept_def)

text \<open>The segment a log leaves is put on its list.\<close>

lemma moved_located:
  assumes g: "seg_geom env" and ok: "sm_in env {} sm" and ok1: "sm_in env {} q" and m: "log_moved env c r sm q"
    and b: "\<not> cp_disabled env \<Longrightarrow> steady env sm \<Longrightarrow> sm_bug q = sm_bug sm" and s: "s = cs_segno (curseg sm c)"
  shows "log_only env sm (locate_dirty_segment env s q)" "gc_state (locate_dirty_segment env s q) = gc_state q"
proof -
  let ?sm' = "locate_dirty_segment env s q"
  have iu: "s < nseg env \<and> free_segmap (fsm q) s \<or> s = NULL_SEGNO"
    using ok m s by (cases "inited (curseg sm c)") (auto simp: sm_in_def logs_in_def log_ok_def log_moved_def)
  note l = locate_dirty_segment_ok[OF g ok1 iu]
  note d = only_dslD[OF l(2)]
  have mo: "\<And>t r. dirty_segmap (dsl q) t r \<Longrightarrow> dirty_segmap (dsl sm) t r" "live q = live sm" "\<And>r. valid_blocks (seg q r) = valid_blocks (seg sm r)"
    "\<And>r. cur_valid_map (seg q r) = cur_valid_map (seg sm r)" "\<And>r. ckpt_valid_map (seg q r) = ckpt_valid_map (seg sm r)"
    using m by (auto simp: log_moved_def)
  have "\<not> dirty_segmap (dsl sm) PRE s" using ok s by (auto simp: sm_in_def dirty_ok_def is_curseg)
  then have np: "\<not> dirty_segmap (dsl q) PRE s" using mo(1) by blast
  have "pre_only (dsl ?sm')" if "pre_only (dsl sm)"
    by (rule locate_lists(1)[OF g ok1 pre_only_shrink[OF that mo(1)] np])
  moreover have "steady env ?sm' \<and> sm_bug ?sm' = sm_bug sm" if c: "\<not> cp_disabled env" and sy: "steady env sm"
  proof
    have "dirty_pos {s} q" using sy mo(1,3) by (auto simp: steady_def dirty_pos_def)
    then have "dirty_pos {} ?sm'" by (rule locate_lists(2)[OF g ok1 c])
    then show "steady env ?sm'" using sy mo by (simp add: steady_def d)
    show "sm_bug ?sm' = sm_bug sm" using l(3) b c sy by simp
  qed
  ultimately show "log_only env sm ?sm'" using l(1) m mo by (simp add: log_only_def lists_kept_def d log_moved_def)
  show "gc_state ?sm' = gc_state q" by (simp add: d)
qed

lemma allocate_new_segment_ok:
  assumes g: "seg_geom env" and ok: "sm_in env {} sm" and j: "0 < free_sections (fsm sm)" and a: "alloc_next env < nseg env"
  shows "log_only env sm (allocate_new_segment env c ns force sm)" "gc_state (allocate_new_segment env c ns force sm) = gc_state sm"
proof -
  have ct: "inited (curseg sm c) \<or> cs_seg_type (curseg sm c) = CURSEG_COLD_DATA" using ok by (auto simp: sm_in_def logs_in_def)
  note n = new_curseg_ok[OF g ok j a ct, of True]
  obtain r where r: "log_moved env c r sm (new_curseg env c True sm)" using n(4) by blast
  have ok1: "sm_in env {} (new_curseg env c True sm)" using n(1) by simp
  note m = moved_located[OF g ok ok1 r n(2) refl]
  show "log_only env sm (allocate_new_segment env c ns force sm)" "gc_state (allocate_new_segment env c ns force sm) = gc_state sm"
    using m n(3) log_only_refl[OF ok] by (simp_all add: allocate_new_segment_def Let_def)
qed

context victim_selection
begin

lemma init_inmem_ok:
  assumes g: "seg_geom env" and ok: "sm_in env {} sm" and gs: "gok env (gc_state sm)"
    and j: "0 < free_sections (fsm sm)" and a: "alloc_next env < nseg env" and i: "\<not> inited (curseg sm CURSEG_ALL_DATA_ATGC)"
  defines "sm' \<equiv> f2fs_init_inmem_curseg gv True env sm"
  shows "log_only env sm sm'" "gok env (gc_state sm')"
proof -
  let ?c = CURSEG_ALL_DATA_ATGC
  have ok1: "sm_in env {?c} sm" by (rule sm_in_mono[OF ok]) simp
  have r: "log_renewed env {?c} ?c sm sm'" using get_atssr_ok[OF g ok1 gs _ j a, of SSR] by (simp add: sm'_def f2fs_init_inmem_curseg_def)
  then show "gok env (gc_state sm')" by (simp add: log_renewed_def)
  have ok2: "sm_in env {} sm'" using r by (simp add: log_renewed_def)
  obtain s where m: "log_moved env ?c s sm sm'" using r by (auto simp: log_renewed_def)
  have mo: "\<And>t r. dirty_segmap (dsl sm') t r \<Longrightarrow> dirty_segmap (dsl sm) t r" "\<And>r. valid_blocks (seg sm' r) = valid_blocks (seg sm r)"
    using m by (auto simp: log_moved_def)
  have "steady env sm' \<and> sm_bug sm' = sm_bug sm" if "steady env sm"
  proof
    have "dirty_ck sm" by (rule steady_dirty_ck[OF ok that ok]) simp_all
    then show "sm_bug sm' = sm_bug sm" using r by (simp add: log_renewed_def)
    show "steady env sm'" using that mo m by (auto simp: steady_def dirty_pos_def log_moved_def)
  qed
  moreover have "pre_only (dsl sm')" if "pre_only (dsl sm)" by (rule pre_only_shrink[OF that mo(1)])
  ultimately show "log_only env sm sm'" using ok2 m by (simp add: log_only_def lists_kept_def log_moved_def)
qed

lemma allocate_for_resize_ok:
  fixes c :: curseg_id and lo hi :: nat
  assumes g: "seg_geom env" and ok: "sm_in env {} sm" and gs: "gok env (gc_state sm)"
    and j: "0 < free_sections (fsm sm)" and a: "alloc_next env < nseg env" and i: "inited (curseg sm c)"
  defines "sm' \<equiv> f2fs_allocate_segment_for_resize gv env c lo hi sm"
  shows "log_only env sm sm'" "gok env (gc_state sm')"
proof -
  let ?s = "cs_segno (curseg sm c)"
  obtain found q where q: "(if f2fs_need_SSR env sm then get_ssr_segment gv env c SSR 0 sm else (False, sm)) = (found, q)" by (metis surj_pair)
  define r where "r = (if found then change_curseg env c q else new_curseg env c True q)"
  have "log_renewed env {} c sm r"
  proof (cases "f2fs_need_SSR env sm")
    case True
    then have q: "get_ssr_segment gv env c SSR 0 sm = (found, q)" using q by simp
    note f = get_ssr_ok[OF g ok gs _ q, simplified]
    show ?thesis
    proof (cases found)
      case True
      then show ?thesis using change_curseg_renewed[OF g f(1,2) f(4)] f(3,5) by (auto simp: r_def intro: renewed_after)
    next
      case False
      then show ?thesis using new_curseg_renewed[OF g f(1,2) _ a, of c True] f(3,5,6,8) i j by (auto simp: r_def intro: renewed_after)
    qed
  next
    case False
    then show ?thesis using q new_curseg_renewed[OF g ok gs j a, of c True] i by (auto simp: r_def)
  qed
  note R = this[unfolded log_renewed_def]
  have ok1: "sm_in env {} r" using R by simp
  obtain t where t: "log_moved env c t sm r" using R by blast
  have b: "sm_bug r = sm_bug sm" if "\<not> cp_disabled env" "steady env sm"
    using R steady_dirty_ck[OF ok that(2) ok refl] by simp
  note m = moved_located[OF g ok ok1 t b refl]
  have e: "sm' = (if ?s < lo \<or> hi < ?s then sm else locate_dirty_segment env ?s r)"
    using q by (simp add: sm'_def f2fs_allocate_segment_for_resize_def Let_def r_def)
  show "log_only env sm sm'" "gok env (gc_state sm')" unfolding e using m R log_only_refl[OF ok] gs by auto
qed

end

end
