(* ===== verification/Segment_Cp.thy ===== *)
theory Segment_Cp
  imports Segment
begin

text \<open>
  What a checkpoint does in the segment manager: small discards are collected from the
  validity maps, the cached SIT entries become the checkpointed ones, prefree segments become
  free, and both kinds of discards are queued as discard commands. The writing of the
  SIT blocks and of the checkpoint pack is not part of the model; devices are not zoned.
\<close>

record cp_opts =
  hw_support_discard :: bool
  realtime_discard :: bool
  discard_unit_section :: bool
  max_discards :: nat
  target_dev :: "nat \<Rightarrow> nat"      \<comment> \<open>\<open>f2fs_target_device\<close> by block\<close>
  cp_discard :: bool               \<comment> \<open>\<open>cpc->reason & CP_DISCARD\<close>\<close>
  trim_start :: nat
  trim_end :: nat
  trim_minlen :: nat
  discard_idle :: bool
  atgc_enabled :: bool

section \<open>Small discards\<close>

definition discard_candidate :: "bool \<Rightarrow> sit_entry \<Rightarrow> bitmap" where
  "discard_candidate force se i \<longleftrightarrow>
     (if force then \<not> ckpt_valid_map se i \<and> \<not> discard_map se i
      else cur_valid_map se i \<noteq> ckpt_valid_map se i \<and> ckpt_valid_map se i)"

text \<open>The loop of \<open>add_discard_addrs\<close> from bit \<open>pos\<close> on; \<open>de\<close> is the map of the entry, if there is one.\<close>

fun add_discard_loop ::
    "nat \<Rightarrow> cp_opts \<Rightarrow> nat \<Rightarrow> bitmap \<Rightarrow> bool \<Rightarrow> nat \<Rightarrow> bitmap option \<Rightarrow> nat \<Rightarrow> (bool \<times> bitmap option \<times> nat) option" where
  "add_discard_loop 0 opt n dmap check_only pos de nr = None"
| "add_discard_loop (Suc k) opt n dmap check_only pos de nr =
     (if \<not> (cp_discard opt \<or> nr \<le> max_discards opt) then Some (False, de, nr)
      else
        (let start = find_next_bit dmap n pos; end' = find_next_zero_bit dmap n (start + 1)
         in if start \<ge> n then Some (False, de, nr)
            else if cp_discard opt \<and> start \<noteq> 0 \<and> end' \<noteq> n \<and> end' - start < trim_minlen opt
            then add_discard_loop k opt n dmap check_only (end' + 1) de nr
            else if check_only then Some (True, de, nr)
            else add_discard_loop k opt n dmap check_only (end' + 1)
                   (Some (set_bits start (end' - start) (case de of None \<Rightarrow> (\<lambda>_. False) | Some m \<Rightarrow> m)))
                   (u32 (nr + (end' - start)))))"

text \<open>\<open>add_discard_addrs\<close> for segment \<open>segno\<close> (\<open>cpc->trim_start\<close>).\<close>

definition add_discard_addrs :: "seg_env \<Rightarrow> cp_opts \<Rightarrow> nat \<Rightarrow> bool \<Rightarrow> 'g sm_info \<Rightarrow> bool \<times> 'g sm_info" where
  "add_discard_addrs env opt segno check_only sm =
     (let n = blocks_per_seg (geo env); se = get_seg_entry sm segno; force = cp_discard opt
      in if valid_blocks se = n \<or> \<not> hw_support_discard opt \<or> \<not> block_unit_discard env then (False, sm)
         else if \<not> force \<and> (\<not> realtime_discard opt \<or> valid_blocks se = 0 \<or> nr_discards sm \<ge> max_discards opt) then (False, sm)
         else case add_discard_loop (n + 1) opt n (discard_candidate force se) check_only 0 None (nr_discards sm) of
                None \<Rightarrow> (False, sm)
              | Some (found, de, nr) \<Rightarrow>
                  (found, sm\<lparr>nr_discards := nr,
                            entry_list := entry_list sm @ (case de of None \<Rightarrow> [] | Some m \<Rightarrow> [(START_BLOCK (geo env) segno, m)])\<rparr>))"

definition f2fs_exist_trim_candidates :: "seg_env \<Rightarrow> cp_opts \<Rightarrow> 'g sm_info \<Rightarrow> bool" where
  "f2fs_exist_trim_candidates env opt sm = list_ex (\<lambda>segno. fst (add_discard_addrs env opt segno True sm)) [trim_start opt..<trim_end opt + 1]"

definition f2fs_release_discard_addrs :: "'g sm_info \<Rightarrow> 'g sm_info" where
  "f2fs_release_discard_addrs sm = sm\<lparr>entry_list := []\<rparr>"

section \<open>Flushing the SIT cache\<close>

text \<open>The part of \<open>seg_info_to_raw_sit\<close> on the cache.\<close>

definition ckpt_entry :: "sit_entry \<Rightarrow> sit_entry" where
  "ckpt_entry se = se\<lparr>ckpt_valid_map := cur_valid_map se, ckpt_valid_blocks := valid_blocks se\<rparr>"

definition flush_entry :: "seg_env \<Rightarrow> cp_opts \<Rightarrow> nat \<Rightarrow> 'g sm_info \<Rightarrow> 'g sm_info" where
  "flush_entry env opt segno sm =
     (if \<not> dirty_sentries_bitmap (sit sm) segno then sm
      else
        (let sm = (if cp_discard opt then sm else snd (add_discard_addrs env opt segno False sm));
             sm = put_seg_entry segno (ckpt_entry (get_seg_entry sm segno)) sm
         in sm\<lparr>sit := (sit sm)\<lparr>dirty_sentries_bitmap := (dirty_sentries_bitmap (sit sm))(segno := False),
                               dirty_sentries := dirty_sentries (sit sm) - 1\<rparr>\<rparr>))"

text \<open>
  \<open>f2fs_flush_sit_entries\<close> on the cache: every dirty entry is flushed, and none may be left. Whether an entry
  goes to the journal or to its SIT block, the sets of entries by block, and the checks of their counts and of
  the room in the journal are not part of this model.
\<close>

definition f2fs_flush_sit_entries :: "seg_env \<Rightarrow> cp_opts \<Rightarrow> 'g sm_info \<Rightarrow> 'g sm_info" where
  "f2fs_flush_sit_entries env opt sm =
     (let sm = (if dirty_sentries (sit sm) = 0 then sm
                else (let sm = fold (flush_entry env opt) [0..<MAIN_SEGS (geo env)] sm in bug_on (dirty_sentries (sit sm) \<noteq> 0) sm));
          sm = (if cp_discard opt
                then fold (\<lambda>segno sm. snd (add_discard_addrs env opt segno False sm)) [trim_start opt..<trim_end opt + 1] sm
                else sm)
      in set_prefree_as_free_segments env sm)"

section \<open>Queueing discards\<close>

definition queue_piece :: "seg_env \<Rightarrow> nat \<Rightarrow> nat \<Rightarrow> nat \<Rightarrow> 'g sm_info \<Rightarrow> 'g sm_info" where
  "queue_piece env bd start len sm = sm\<lparr>sm_dcc := queue_discard_cmd (seg_dev env) (geo env) (sm_dcc sm) bd start len\<rparr>"

definition mark_discard :: "seg_env \<Rightarrow> nat \<Rightarrow> 'g sm_info \<Rightarrow> 'g sm_info" where
  "mark_discard env i sm =
     (let segno = GET_SEGNO (geo env) i; se = get_seg_entry sm segno; offset = GET_BLKOFF_FROM_SEG0 (geo env) i
      in if block_unit_discard env \<and> \<not> discard_map se offset
         then (put_seg_entry segno (se\<lparr>discard_map := (discard_map se)(offset := True)\<rparr>) sm)\<lparr>discard_blks := addu 32 (discard_blks sm) (- 1)\<rparr>
         else sm)"

fun issue_discard_loop :: "seg_env \<Rightarrow> cp_opts \<Rightarrow> nat list \<Rightarrow> nat \<Rightarrow> nat \<Rightarrow> nat \<Rightarrow> 'g sm_info \<Rightarrow> 'g sm_info" where
  "issue_discard_loop env opt [] bd start len sm = (if len \<noteq> 0 then queue_piece env bd start len sm else sm)"
| "issue_discard_loop env opt (i # is) bd start len sm =
     (if i \<noteq> start \<and> target_dev opt i \<noteq> bd
      then issue_discard_loop env opt is (target_dev opt i) i 1 (mark_discard env i (queue_piece env bd start len sm))
      else issue_discard_loop env opt is bd start (len + 1) (mark_discard env i sm))"

definition f2fs_issue_discard :: "seg_env \<Rightarrow> cp_opts \<Rightarrow> nat \<Rightarrow> nat \<Rightarrow> 'g sm_info \<Rightarrow> 'g sm_info" where
  "f2fs_issue_discard env opt blkstart blklen sm =
     issue_discard_loop env opt [blkstart..<blkstart + blklen] (target_dev opt blkstart) blkstart 0 sm"

section \<open>Prefree segments\<close>

text \<open>Clearing the prefree bits of \<open>[start, end')\<close>.\<close>

definition clear_prefree_range :: "nat \<Rightarrow> nat \<Rightarrow> 'g sm_info \<Rightarrow> 'g sm_info" where
  "clear_prefree_range start end' sm = sm\<lparr>dsl := fold (clear_dirty PRE) [start..<end'] (dsl sm)\<rparr>"

text \<open>The inner loop at label \<open>next\<close>: whole sections, as long as they are empty and not in use. Result: \<open>start\<close> behind the last one.\<close>

fun discard_sections :: "nat \<Rightarrow> seg_env \<Rightarrow> cp_opts \<Rightarrow> nat \<Rightarrow> nat \<Rightarrow> 'g sm_info \<Rightarrow> nat \<times> 'g sm_info" where
  "discard_sections 0 env opt start end' sm = (start, sm)"
| "discard_sections (Suc k) env opt start end' sm =
     (let sps = segs_per_sec (geo env); secno = GET_SEC_FROM_SEG env start; start_segno = GET_SEG_FROM_SEC env secno;
          sm = (if \<not> IS_CURSEC env sm secno \<and> get_valid_blocks env sm start True = 0
                then f2fs_issue_discard env opt (START_BLOCK (geo env) start_segno) (sps * 2 ^ log_blocks_per_seg (geo env)) sm
                else sm);
          start = start_segno + sps
      in if start < end' then discard_sections k env opt start end' sm else (start, sm))"

text \<open>
  One round of the first loop of \<open>f2fs_clear_prefree_segments\<close>, from segment \<open>pos\<close> on; the
  segments \<open>[start, end')\<close> are no longer prefree. Result: where the search goes on, or \<open>None\<close> at the end.
\<close>

definition discard_prefree :: "seg_env \<Rightarrow> cp_opts \<Rightarrow> nat \<Rightarrow> nat \<Rightarrow> nat \<Rightarrow> 'g sm_info \<Rightarrow> nat \<times> 'g sm_info" where
  "discard_prefree env opt nxt start end' sm =
     (if \<not> realtime_discard opt \<or> cp_discard opt \<and> start \<ge> trim_start opt \<and> end' - 1 \<le> trim_end opt then (nxt, sm)
      else if \<not> lfs_mode (geo env) \<or> \<not> is_large_section env
      then (nxt, f2fs_issue_discard env opt (START_BLOCK (geo env) start) ((end' - start) * 2 ^ log_blocks_per_seg (geo env)) sm)
      else (let (start, sm) = discard_sections (end' - start) env opt start end' sm in (start - 1, sm)))"

definition prefree_round :: "seg_env \<Rightarrow> cp_opts \<Rightarrow> bool \<Rightarrow> nat \<Rightarrow> 'g sm_info \<Rightarrow> (nat \<times> 'g sm_info) option" where
  "prefree_round env opt align pos sm =
     (let n = MAIN_SEGS (geo env); sps = segs_per_sec (geo env);
          start = find_next_bit (dirty_segmap (dsl sm) PRE) n pos
      in if start \<ge> n then None
         else
           (let end' = find_next_zero_bit (dirty_segmap (dsl sm) PRE) n (start + 1);
                start = (if align then start - start mod sps else start);
                end' = (if align then (end' + sps - 1) div sps * sps else end');
                nxt = (if align then end' else end' + 1)
            in Some (discard_prefree env opt nxt start end' (clear_prefree_range start end' sm))))"

fun prefree_loop :: "nat \<Rightarrow> seg_env \<Rightarrow> cp_opts \<Rightarrow> bool \<Rightarrow> nat \<Rightarrow> 'g sm_info \<Rightarrow> 'g sm_info option" where
  "prefree_loop 0 env opt align pos sm = None"
| "prefree_loop (Suc k) env opt align pos sm =
     (case prefree_round env opt align pos sm of
        None \<Rightarrow> Some sm
      | Some (nxt, sm) \<Rightarrow> prefree_loop k env opt align nxt sm)"

text \<open>The runs of one small discard entry.\<close>

fun small_loop :: "nat \<Rightarrow> seg_env \<Rightarrow> cp_opts \<Rightarrow> nat \<Rightarrow> bitmap \<Rightarrow> bool \<Rightarrow> nat \<Rightarrow> nat \<Rightarrow> 'g sm_info \<Rightarrow> (nat \<times> 'g sm_info) option" where
  "small_loop 0 env opt base m is_valid cur_pos total_len sm = None"
| "small_loop (Suc k) env opt base m is_valid cur_pos total_len sm =
     (let n = blocks_per_seg (geo env);
          next_pos = (if is_valid then find_next_zero_bit m n cur_pos else find_next_bit m n cur_pos);
          len = next_pos - cur_pos;
          send = (is_valid \<and> \<not> blkzoned env \<and> \<not> (cp_discard opt \<and> len < trim_minlen opt));
          sm = (if send then f2fs_issue_discard env opt (base + cur_pos) len sm else sm);
          total_len = (if send then total_len + len else total_len)
      in if next_pos < n then small_loop k env opt base m (\<not> is_valid) next_pos total_len sm else Some (total_len, sm))"

definition send_small :: "seg_env \<Rightarrow> cp_opts \<Rightarrow> (nat \<times> bitmap) \<Rightarrow> 'g sm_info \<Rightarrow> 'g sm_info" where
  "send_small env opt e sm =
     (case small_loop (blocks_per_seg (geo env) + 1) env opt (fst e) (snd e) (snd e 0) 0 0 sm of
        None \<Rightarrow> sm
      | Some (total_len, sm) \<Rightarrow> sm\<lparr>entry_list := tl (entry_list sm), nr_discards := sub32 (nr_discards sm) total_len\<rparr>)"

definition wake_up_discard_thread :: "bool \<Rightarrow> bool \<Rightarrow> discard_cmd_control \<Rightarrow> discard_cmd_control" where
  "wake_up_discard_thread force idle dcc =
     (let wakeup = list_ex (\<lambda>i. pend_list dcc i \<noteq> []) (takeWhile (\<lambda>i. \<not> i + 1 < discard_granularity dcc) (rev [0..<MAX_PLIST_NUM]))
      in if force \<or> wakeup \<and> idle then dcc\<lparr>discard_wake := True\<rparr> else dcc)"

definition f2fs_clear_prefree_segments :: "seg_env \<Rightarrow> cp_opts \<Rightarrow> 'g sm_info \<Rightarrow> 'g sm_info" where
  "f2fs_clear_prefree_segments env opt sm =
     (let align = (discard_unit_section opt \<or> lfs_mode (geo env) \<and> is_large_section env);
          sm = (case prefree_loop (MAIN_SEGS (geo env) + 1) env opt align 0 sm of Some sm \<Rightarrow> sm | None \<Rightarrow> sm);
          sm = (if block_unit_discard env then fold (send_small env opt) (entry_list sm) sm else sm)
      in sm\<lparr>sm_dcc := wake_up_discard_thread False (discard_idle opt) (sm_dcc sm)\<rparr>)"

text \<open>
  The segment manager's part of \<open>f2fs_write_checkpoint\<close>; \<open>written\<close> tells whether \<open>do_checkpoint\<close>
  succeeded.
\<close>

definition write_checkpoint :: "seg_env \<Rightarrow> cp_opts \<Rightarrow> bool \<Rightarrow> 'g sm_info \<Rightarrow> 'g sm_info" where
  "write_checkpoint env opt written sm =
     (let sm = f2fs_flush_sit_entries env opt sm;
          sm = f2fs_save_inmem_curseg (atgc_enabled opt) env sm;
          sm = (if written then f2fs_clear_prefree_segments env opt sm else f2fs_release_discard_addrs sm)
      in f2fs_restore_inmem_curseg (atgc_enabled opt) env sm)"

end
