(* ===== verification/Segment_Flush.thy ===== *)
theory Segment_Flush
  imports Segment_Alloc Segment_Cp
begin

text \<open>
  The first half of a checkpoint: flushing the SIT cache makes the checkpointed maps equal to
  the current ones, and the small discards it collects are of blocks that are dead from then on.
\<close>

section \<open>Collecting small discards\<close>

lemma add_discard_loop_sound:
  assumes "add_discard_loop k opt n dmap co pos de nr = Some (found, de', nr')" "\<forall>m i. de = Some m \<longrightarrow> m i \<longrightarrow> i < n \<and> dmap i"
  shows "\<forall>m i. de' = Some m \<longrightarrow> m i \<longrightarrow> i < n \<and> dmap i"
  using assms
proof (induction k arbitrary: pos de nr)
  case (Suc k)
  let ?s = "find_next_bit dmap n pos"
  let ?e = "find_next_zero_bit dmap n (?s + 1)"
  have e: "?e \<le> n" by (rule zero_bit_le)
  have run: "dmap i" if "?s \<le> i" "i < ?e" "?s < n" for i
    using zero_bit_skips[of "?s + 1" i dmap n] find_next_bit_less(1)[OF that(3)] that(1,2) by (cases "i = ?s") auto
  let ?m = "set_bits ?s (?e - ?s) (case de of None \<Rightarrow> (\<lambda>_. False) | Some m \<Rightarrow> m)"
  have m: "i < n \<and> dmap i" if "?m i" "?s < n" for i
    using that run[of i] e Suc.prems(2) by (auto simp: set_bits_iff split: option.splits)
  show ?case
  proof (cases "?s < n")
    case True
    have "\<forall>m i. Some ?m = Some m \<longrightarrow> m i \<longrightarrow> i < n \<and> dmap i" using m True by blast
    note IH = Suc.IH[OF _ Suc.prems(2)] Suc.IH[OF _ this]
    consider "de' = de" | "add_discard_loop k opt n dmap co (?e + 1) de nr = Some (found, de', nr')"
      | "add_discard_loop k opt n dmap co (?e + 1) (Some ?m) (u32 (nr + (?e - ?s))) = Some (found, de', nr')"
      using Suc.prems(1) unfolding add_discard_loop.simps Let_def by (simp del: add_discard_loop.simps split: if_split_asm)
    then show ?thesis
    proof cases
      case 1
      then show ?thesis using Suc.prems(2) by simp
    qed (erule IH)+
  qed (use Suc.prems in \<open>auto simp: Let_def split: if_splits\<close>)
qed simp

lemma if_not_None: "(c \<Longrightarrow> a \<noteq> None) \<Longrightarrow> (\<not> c \<Longrightarrow> b \<noteq> None) \<Longrightarrow> (if c then a else b) \<noteq> None"
  by simp

lemma add_discard_loop_total: "n + 2 \<le> pos + 2 * k \<Longrightarrow> pos \<le> n + 1 \<Longrightarrow> add_discard_loop k opt n dmap co pos de nr \<noteq> None"
proof (induction k arbitrary: pos de nr)
  case (Suc k)
  let ?s = "find_next_bit dmap n pos"
  let ?e = "find_next_zero_bit dmap n (?s + 1)"
  show ?case
  proof (cases "?s < n")
    case True
    have p: "pos \<le> ?s" using find_next_bit_less(2)[OF True] .
    have "pos < ?e"
    proof (cases "?e < n")
      case t: True
      then show ?thesis using zero_bit_less(2)[OF t] p by simp
    next
      case False
      then show ?thesis using p True by simp
    qed
    then have "n + 2 \<le> ?e + 1 + 2 * k" "?e + 1 \<le> n + 1" using Suc.prems zero_bit_le by simp_all
    then have ih: "add_discard_loop k opt n dmap co (?e + 1) de nr \<noteq> None" for de nr by (rule Suc.IH)
    show ?thesis unfolding add_discard_loop.simps Let_def by (intro if_not_None ih option.distinct(2))
  qed (simp add: Let_def del: not_None_eq)
qed simp

text \<open>The entries that were collected, relative to the state.\<close>

definition dead_entry :: "seg_env \<Rightarrow> 'g sm_info \<Rightarrow> nat \<times> bitmap \<Rightarrow> bool" where
  "dead_entry env sm e \<longleftrightarrow> (\<exists>s < nseg env. fst e = blk_of env s 0 \<and> (\<forall>i. snd e i \<longrightarrow> i < nblk env \<and> \<not> live sm s i))"

lemma add_discard_addrs_ok:
  assumes g: "seg_geom env" and s: "s < nseg env" and r: "add_discard_addrs env opt s co sm = (found, sm')"
  shows "\<exists>es nr. sm' = sm\<lparr>nr_discards := nr, entry_list := entry_list sm @ es\<rparr> \<and>
    (\<forall>e \<in> set es. fst e = blk_of env s 0 \<and> (\<forall>i. snd e i \<longrightarrow> i < nblk env \<and> discard_candidate (cp_discard opt) (seg sm s) i))"
proof -
  have st: "START_BLOCK (geo env) s = blk_of env s 0" using start_block[OF g, of s] s by simp
  have id: "sm = sm\<lparr>nr_discards := nr_discards sm, entry_list := entry_list sm @ []\<rparr>" by simp
  show ?thesis
  proof (cases "sm' = sm")
    case True
    show ?thesis by (rule exI[of _ "[]"], rule exI[of _ "nr_discards sm"]) (simp add: True)
  next
    case False
    let ?m = "discard_candidate (cp_discard opt) (seg sm s)"
    obtain f de nr where l: "add_discard_loop (nblk env + 1) opt (nblk env) ?m co 0 None (nr_discards sm) = Some (f, de, nr)"
      using add_discard_loop_total[of "nblk env" 0 "nblk env + 1" opt ?m co None "nr_discards sm"] by auto
    note b = add_discard_loop_sound[OF l, simplified]
    let ?es = "case de of None \<Rightarrow> [] | Some m \<Rightarrow> [(START_BLOCK (geo env) s, m)]"
    have "sm' = sm\<lparr>nr_discards := nr, entry_list := entry_list sm @ ?es\<rparr>"
      using r False l by (simp add: add_discard_addrs_def Let_def del: add_discard_loop.simps split: if_splits)
    then show ?thesis using b by (intro exI[of _ ?es] exI[of _ nr]) (auto simp: st split: option.splits)
  qed
qed

section \<open>Flushing\<close>

lemma entries_only_core: "same_core sm (sm\<lparr>nr_discards := nr, entry_list := es\<rparr>)"
  by (simp add: same_core_def seg_def)

lemma entries_only_sm_in: "sm_in env X (sm\<lparr>nr_discards := nr, entry_list := es\<rparr>) = sm_in env X sm"
  by (rule same_core_sm_in[OF entries_only_core])

lemma ckpt_entry_ok: "entry_ok n se \<Longrightarrow> entry_ok n (ckpt_entry se)"
  by (simp add: entry_ok_def ckpt_entry_def)

lemma flush_core:
  assumes ok: "sm_in env X sm" and s: "s < nseg env" and d: "dirty_sentries_bitmap (sit sm) s"
  defines "sm' \<equiv> (put_seg_entry s (ckpt_entry (seg sm s)) sm)\<lparr>sit :=
       (sit (put_seg_entry s (ckpt_entry (seg sm s)) sm))\<lparr>dirty_sentries_bitmap := (dirty_sentries_bitmap (sit sm))(s := False),
          dirty_sentries := dirty_sentries (sit sm) - 1\<rparr>\<rparr>"
  shows "sm_in env X sm'"
proof -
  have se: "seg sm' = (seg sm)(s := ckpt_entry (seg sm s))" by (rule ext) (simp add: sm'_def put_seg_entry_def seg_def)
  have st: "sit_ok env sm" using ok by (simp add: sm_in_def)
  have v: "valid_blocks (seg sm' r) = valid_blocks (seg sm r)" "se_type (seg sm' r) = se_type (seg sm r)" for r
    by (simp_all add: se ckpt_entry_def)
  have w: "written_valid_blocks (sit sm') = written_valid_blocks (sit sm)" "sec_valid (sit sm') = sec_valid (sit sm)"
    "dirty_sentries_bitmap (sit sm') = (dirty_sentries_bitmap (sit sm))(s := False)" "dirty_sentries (sit sm') = dirty_sentries (sit sm) - 1"
    by (simp_all add: sm'_def put_seg_entry_def)
  have "dirty_sentries (sit sm') = bits (dirty_sentries_bitmap (sit sm')) (nseg env)"
    using st bits_clear[of s "nseg env" "dirty_sentries_bitmap (sit sm)"] s d by (simp add: w sit_ok_def)
  moreover have "\<forall>r < nseg env. entry_ok (nblk env) (seg sm' r)" using st by (simp add: se sit_ok_def ckpt_entry_ok)
  moreover have "\<forall>r < nseg env. \<not> dirty_sentries_bitmap (sit sm') r \<longrightarrow> (\<forall>i < nblk env. ckpt_valid_map (seg sm' r) i = cur_valid_map (seg sm' r) i)"
    using st by (simp add: se w(3) sit_ok_def ckpt_entry_def)
  ultimately have st': "sit_ok env sm'" using st unfolding sit_ok_def v w(1,2) by blast
  show ?thesis
    by (rule sm_in_shrink[OF ok st'])
      (auto simp: sm'_def live_def se v put_seg_entry_def ckpt_entry_def seg_def split: if_splits)
qed

text \<open>What the flush of one segment keeps of the state.\<close>

definition flushing :: "seg_env \<Rightarrow> 'g sm_info \<Rightarrow> 'g sm_info \<Rightarrow> bool" where
  "flushing env sm sm' \<longleftrightarrow>
     sm_in env {} sm' \<and> fsm sm' = fsm sm \<and> dsl sm' = dsl sm \<and> curseg sm' = curseg sm \<and> gc_state sm' = gc_state sm \<and>
     sm_dcc sm' = sm_dcc sm \<and> sm_bug sm' = sm_bug sm \<and>
     (\<forall>s. cur_valid_map (seg sm' s) = cur_valid_map (seg sm s)) \<and> (\<forall>s. valid_blocks (seg sm' s) = valid_blocks (seg sm s)) \<and>
     (\<forall>s i. live sm' s i \<longrightarrow> live sm s i) \<and> (\<forall>e \<in> set (entry_list sm'). dead_entry env sm' e)"

lemma flushing_trans:
  assumes a: "flushing env sm1 sm2" and b: "flushing env sm2 sm3"
  shows "flushing env sm1 sm3"
  using a b by (auto simp: flushing_def)

lemma dead_mono: "dead_entry env sm e \<Longrightarrow> (\<And>s i. live sm' s i \<Longrightarrow> live sm s i) \<Longrightarrow> dead_entry env sm' e"
  by (auto simp: dead_entry_def)

lemma flush_entry_ok:
  fixes opt :: cp_opts
  assumes g: "seg_geom env" and ok: "sm_in env {} sm" and s: "s < nseg env" and de: "\<forall>e \<in> set (entry_list sm). dead_entry env sm e"
  defines "sm' \<equiv> flush_entry env opt s sm"
  shows "flushing env sm sm'" "\<not> dirty_sentries_bitmap (sit sm') s" "\<And>r. \<not> dirty_sentries_bitmap (sit sm) r \<Longrightarrow> \<not> dirty_sentries_bitmap (sit sm') r"
proof -
  have "flushing env sm sm' \<and> dirty_sentries_bitmap (sit sm') = (dirty_sentries_bitmap (sit sm))(s := False)"
  proof (cases "dirty_sentries_bitmap (sit sm) s")
    case False
    then show ?thesis using ok de by (simp add: sm'_def flush_entry_def flushing_def fun_upd_idem)
  next
    case True
    define a where "a = (if cp_discard opt then sm else snd (add_discard_addrs env opt s False sm))"
    obtain es nr where e: "a = sm\<lparr>nr_discards := nr, entry_list := entry_list sm @ es\<rparr>"
      and d: "\<forall>e \<in> set es. fst e = blk_of env s 0 \<and> (\<forall>i. snd e i \<longrightarrow> i < nblk env \<and> \<not> cur_valid_map (seg sm s) i)"
    proof (cases "cp_discard opt")
      case True
      show thesis by (rule that[of "[]" "nr_discards sm"]) (simp_all add: a_def True)
    next
      case False
      obtain es nr where "a = sm\<lparr>nr_discards := nr, entry_list := entry_list sm @ es\<rparr>"
        "\<forall>e \<in> set es. fst e = blk_of env s 0 \<and> (\<forall>i. snd e i \<longrightarrow> i < nblk env \<and> discard_candidate False (seg sm s) i)"
        using add_discard_addrs_ok[OF g s, of opt False sm] False by (cases "add_discard_addrs env opt s False sm") (auto simp: a_def)
      then show thesis by (intro that[of es nr]) (auto simp: discard_candidate_def)
    qed
    have oka: "sm_in env {} a" using ok by (simp add: e entries_only_sm_in)
    have sa: "seg a = seg sm" "sit a = sit sm" by (simp_all add: e seg_def fun_eq_iff)
    have e': "sm' = (put_seg_entry s (ckpt_entry (seg a s)) a)\<lparr>sit := (sit (put_seg_entry s (ckpt_entry (seg a s)) a))
       \<lparr>dirty_sentries_bitmap := (dirty_sentries_bitmap (sit a))(s := False), dirty_sentries := dirty_sentries (sit a) - 1\<rparr>\<rparr>"
      using True by (simp add: sm'_def flush_entry_def a_def Let_def put_seg_entry_def)
    have ok': "sm_in env {} sm'" unfolding e' by (rule flush_core[OF oka s]) (simp add: sa True)
    have se: "seg sm' = (seg sm)(s := ckpt_entry (seg sm s))" by (rule ext) (simp add: e' put_seg_entry_def sa, simp add: seg_def sa)
    have l: "live sm' r i \<Longrightarrow> live sm r i" for r i by (auto simp: live_def se ckpt_entry_def split: if_splits)
    have "dead_entry env sm' x" if "x \<in> set es" for x
      using d that s unfolding dead_entry_def by (auto simp: live_def se ckpt_entry_def intro!: exI[of _ s])
    moreover have "dead_entry env sm' x" if "x \<in> set (entry_list sm)" for x by (rule dead_mono[of env sm x sm']) (use de that l in auto)
    moreover have "entry_list sm' = entry_list sm @ es" by (simp add: e' e put_seg_entry_def)
    ultimately have "\<forall>x \<in> set (entry_list sm'). dead_entry env sm' x" by auto
    then have "flushing env sm sm'"
      using ok' l unfolding flushing_def by (simp add: se ckpt_entry_def) (simp add: e' e put_seg_entry_def)
    moreover have "dirty_sentries_bitmap (sit sm') = (dirty_sentries_bitmap (sit sm))(s := False)" by (simp add: e' sa)
    ultimately show ?thesis by blast
  qed
  then show "flushing env sm sm'" "\<not> dirty_sentries_bitmap (sit sm') s" "\<And>r. \<not> dirty_sentries_bitmap (sit sm) r \<Longrightarrow> \<not> dirty_sentries_bitmap (sit sm') r"
    by simp_all
qed

lemma flush_fold:
  fixes opt :: cp_opts
  assumes g: "seg_geom env" and ok: "sm_in env {} sm" and de: "\<forall>e \<in> set (entry_list sm). dead_entry env sm e" and n: "n \<le> nseg env"
  defines "sm' \<equiv> fold (flush_entry env opt) [0..<n] sm"
  shows "flushing env sm sm' \<and> (\<forall>r < n. \<not> dirty_sentries_bitmap (sit sm') r)"
  unfolding sm'_def using n
proof (induction n)
  case 0
  then show ?case using ok de by (simp add: flushing_def)
next
  case (Suc n)
  let ?q = "fold (flush_entry env opt) [0..<n] sm"
  have q: "flushing env sm ?q" "\<forall>r < n. \<not> dirty_sentries_bitmap (sit ?q) r" using Suc by simp_all
  have "sm_in env {} ?q" "n < nseg env" "\<forall>e \<in> set (entry_list ?q). dead_entry env ?q e" using q(1) Suc.prems by (simp_all add: flushing_def)
  note f = flush_entry_ok[OF g this, where opt = opt]
  show ?case using flushing_trans[OF q(1) f(1)] f(2,3) q(2) by (auto simp: less_Suc_eq)
qed

definition all_ckpt :: "seg_env \<Rightarrow> 'g sm_info \<Rightarrow> bool" where
  "all_ckpt env sm \<longleftrightarrow> (\<forall>s < nseg env. \<forall>i < nblk env. ckpt_valid_map (seg sm s) i = cur_valid_map (seg sm s) i)"

lemma trim_entry_ok:
  assumes g: "seg_geom env" and ok: "sm_in env {} sm" and s: "s < nseg env" and de: "\<forall>e \<in> set (entry_list sm). dead_entry env sm e"
    and c: "all_ckpt env sm" and cd: "cp_discard opt"
  defines "sm' \<equiv> snd (add_discard_addrs env opt s False sm)"
  shows "flushing env sm sm' \<and> all_ckpt env sm'"
proof -
  obtain es nr where e: "sm' = sm\<lparr>nr_discards := nr, entry_list := entry_list sm @ es\<rparr>"
    and d: "\<forall>e \<in> set es. fst e = blk_of env s 0 \<and> (\<forall>i. snd e i \<longrightarrow> i < nblk env \<and> \<not> ckpt_valid_map (seg sm s) i)"
    using add_discard_addrs_ok[OF g s, of opt False sm] cd
    by (cases "add_discard_addrs env opt s False sm") (auto simp: sm'_def discard_candidate_def)
  have sa: "seg sm' = seg sm" "live sm' = live sm" by (simp_all add: e seg_def live_def fun_eq_iff)
  have "dead_entry env sm x" if "x \<in> set es" for x
    using d that s c unfolding dead_entry_def by (auto simp: live_def all_ckpt_def intro!: exI[of _ s])
  then have "\<forall>x \<in> set (entry_list sm'). dead_entry env sm' x" using de by (auto simp: e dead_entry_def sa[unfolded e])
  moreover have "sm_in env {} sm'" using ok by (simp add: e entries_only_sm_in)
  ultimately show ?thesis using c by (simp add: flushing_def all_ckpt_def sa) (simp add: e)
qed

definition flushed_state :: "seg_env \<Rightarrow> cp_opts \<Rightarrow> 'g sm_info \<Rightarrow> 'g sm_info" where
  "flushed_state env opt sm =
     (let sm = (if dirty_sentries (sit sm) = 0 then sm
                else (let sm = fold (flush_entry env opt) [0..<MAIN_SEGS (geo env)] sm in bug_on (dirty_sentries (sit sm) \<noteq> 0) sm))
      in if cp_discard opt
         then fold (\<lambda>segno sm. snd (add_discard_addrs env opt segno False sm)) [trim_start opt..<trim_end opt + 1] sm
         else sm)"

lemma flush_eq: "f2fs_flush_sit_entries env opt sm = set_prefree_as_free_segments env (flushed_state env opt sm)"
  by (simp add: f2fs_flush_sit_entries_def flushed_state_def Let_def)

lemma flushed_ok:
  assumes g: "seg_geom env" and ok: "sm_in env {} sm" and el: "entry_list sm = []" and t: "cp_discard opt \<longrightarrow> trim_end opt < nseg env"
  shows "flushing env sm (flushed_state env opt sm)" "all_ckpt env (flushed_state env opt sm)"
proof -
  define q where "q = (if dirty_sentries (sit sm) = 0 then sm
    else (let sm = fold (flush_entry env opt) [0..<MAIN_SEGS (geo env)] sm in bug_on (dirty_sentries (sit sm) \<noteq> 0) sm))"
  have q: "flushing env sm q \<and> (\<forall>r < nseg env. \<not> dirty_sentries_bitmap (sit q) r)"
  proof (cases "dirty_sentries (sit sm) = 0")
    case True
    then have "\<forall>r < nseg env. \<not> dirty_sentries_bitmap (sit sm) r" using ok by (simp add: sm_in_def sit_ok_def bits_eq_0)
    then show ?thesis using True ok el by (simp add: q_def flushing_def)
  next
    case False
    let ?x = "fold (flush_entry env opt) [0..<nseg env] sm"
    have x: "flushing env sm ?x" "\<forall>r < nseg env. \<not> dirty_sentries_bitmap (sit ?x) r" using flush_fold[OF g ok, of "nseg env" opt] el by simp_all
    then have "dirty_sentries (sit ?x) = 0" by (simp add: flushing_def sm_in_def sit_ok_def bits_eq_0)
    then show ?thesis using x False by (simp add: q_def MAIN_SEGS_def Let_def bug_on_def)
  qed
  have c: "all_ckpt env q" using q by (simp add: all_ckpt_def flushing_def sm_in_def sit_ok_def)
  let ?f = "fold (\<lambda>segno sm. snd (add_discard_addrs env opt segno False sm)) [trim_start opt..<trim_end opt + 1] q"
  have "flushing env sm ?f \<and> all_ckpt env ?f" if "cp_discard opt"
  proof (rule fold_upt_invariant[where I = "\<lambda>x. flushing env sm x \<and> all_ckpt env x"])
    show "flushing env sm q \<and> all_ckpt env q" using q c by blast
    fix s x assume s: "s \<in> set [trim_start opt..<trim_end opt + 1]" and x: "flushing env sm x \<and> all_ckpt env x"
    have sn: "s < nseg env" using s t that by auto
    have okx: "sm_in env {} x" "\<forall>e \<in> set (entry_list x). dead_entry env x e" using x by (simp_all add: flushing_def)
    show "flushing env sm (snd (add_discard_addrs env opt s False x)) \<and> all_ckpt env (snd (add_discard_addrs env opt s False x))"
      using trim_entry_ok[OF g okx(1) sn okx(2) _ that] x flushing_trans by blast
  qed
  then show "flushing env sm (flushed_state env opt sm)" "all_ckpt env (flushed_state env opt sm)"
    using q c by (simp_all add: flushed_state_def Let_def q_def[symmetric])
qed

section \<open>Freeing segments\<close>

lemma test_and_free_ok:
  fixes inmem :: bool
  assumes g: "seg_geom env" and f: "free_ok env (fsm sm)" and s: "s < nseg env"
  defines "sm' \<equiv> set_test_and_free env s inmem sm"
  shows "free_ok env (fsm sm')" "free_segmap (fsm sm') = (free_segmap (fsm sm))(s := False)" "\<exists>x. sm' = sm\<lparr>fsm := x\<rparr>"
    "\<And>k. k \<noteq> s div sps env \<Longrightarrow> free_secmap (fsm sm') k = free_secmap (fsm sm) k"
proof -
  let ?fi = "fsm sm" and ?k = "s div sps env"
  have k: "?k < total_sections env" "GET_SEC_FROM_SEG env s = ?k" "GET_SEG_FROM_SEC env ?k = ?k * sps env"
    using sec_less[OF g s] sec_of[OF g s] seg_of_sec[OF g, of ?k] by simp_all
  have "free_ok env (fsm sm') \<and> free_segmap (fsm sm') = (free_segmap ?fi)(s := False) \<and> (\<exists>x. sm' = sm\<lparr>fsm := x\<rparr>) \<and>
    (\<forall>k. k \<noteq> ?k \<longrightarrow> free_secmap (fsm sm') k = free_secmap ?fi k)"
  proof (cases "free_segmap ?fi s")
    case False
    then have "sm' = sm" by (simp add: sm'_def set_test_and_free_def Let_def)
    then show ?thesis using f False by (auto simp: fun_upd_idem intro!: exI[of _ "fsm sm"])
  next
    case True
    define fi where "fi = ?fi\<lparr>free_segmap := (free_segmap ?fi)(s := False), free_segments := addu 32 (free_segments ?fi) 1\<rparr>"
    define n where "n = find_next_bit (free_segmap fi) (?k * sps env + sps env) (?k * sps env)"
    define all_free where "all_free \<longleftrightarrow> (inmem \<or> \<not> IS_CURSEC env sm ?k) \<and> n \<ge> ?k * sps env + sps env \<and> free_secmap fi ?k"
    have e: "sm' = sm\<lparr>fsm := (if all_free then fi\<lparr>free_secmap := (free_secmap fi)(?k := False), free_sections := addu 32 (free_sections fi) 1\<rparr> else fi)\<rparr>"
      using True g by (auto simp: sm'_def set_test_and_free_def Let_def k fi_def n_def all_free_def)
    have b: "bits (\<lambda>i. \<not> ((free_segmap ?fi)(s := False)) i) (nseg env) = bits (\<lambda>i. \<not> free_segmap ?fi i) (nseg env) + 1"
      by (rule bits_neg_clear[where m = "free_segmap ?fi"]) (simp_all add: s True)
    have c: "free_segments fi = bits (\<lambda>i. \<not> free_segmap fi i) (nseg env)"
      using f b free_bound(1)[OF g, of "\<lambda>i. \<not> ((free_segmap ?fi)(s := False)) i"] by (simp add: fi_def free_ok_def)
    have us: "\<forall>r < nseg env. free_segmap fi r \<longrightarrow> free_secmap fi (r div sps env)" using f by (auto simp: fi_def free_ok_def)
    have fs: "free_ok env fi" using f c us by (simp add: free_ok_def fi_def)
    show ?thesis
    proof (cases all_free)
      case False
      then show ?thesis using fs by (auto simp: e fi_def)
    next
      case t: True
      then have n: "\<forall>r. ?k * sps env \<le> r \<and> r < ?k * sps env + sps env \<longrightarrow> \<not> free_segmap fi r" and sk: "free_secmap fi ?k"
        using find_next_bit_ge[of "?k * sps env + sps env" "free_segmap fi" "?k * sps env"] by (auto simp: all_free_def n_def)
      have b2: "bits (\<lambda>i. \<not> ((free_secmap fi)(?k := False)) i) (total_sections env) = bits (\<lambda>i. \<not> free_secmap fi i) (total_sections env) + 1"
        by (rule bits_neg_clear[where m = "free_secmap fi"]) (simp_all add: k sk)
      let ?g = "fi\<lparr>free_secmap := (free_secmap fi)(?k := False), free_sections := addu 32 (free_sections fi) 1\<rparr>"
      have sc: "free_sections ?g = bits (\<lambda>i. \<not> free_secmap ?g i) (total_sections env)"
        using fs b2 free_bound(2)[OF g, of "\<lambda>i. \<not> ((free_secmap fi)(?k := False)) i"] by (simp add: free_ok_def)
      have sg: "free_secmap ?g (r div sps env)" if "r < nseg env" "free_segmap ?g r" for r
      proof -
        have "r div sps env \<noteq> ?k" using n that(2) g div_eq_range_iff[of "sps env" r ?k] by (auto simp: seg_geom_def)
        then show ?thesis using us that by simp
      qed
      have "free_segments ?g = bits (\<lambda>i. \<not> free_segmap ?g i) (nseg env)" using fs by (simp add: free_ok_def)
      with sc sg have "free_ok env ?g" unfolding free_ok_def by blast
      then show ?thesis using t by (auto simp: e fi_def)
    qed
  qed
  then show "free_ok env (fsm sm')" "free_segmap (fsm sm') = (free_segmap ?fi)(s := False)" "\<exists>x. sm' = sm\<lparr>fsm := x\<rparr>"
    "\<And>k. k \<noteq> ?k \<Longrightarrow> free_secmap (fsm sm') k = free_secmap ?fi k" by blast+
qed

lemma prefree_fold:
  assumes g: "seg_geom env" and f: "free_ok env (fsm sm)" and n: "n \<le> nseg env"
  defines "sm' \<equiv> fold (\<lambda>s sm. if dirty_segmap (dsl sm) PRE s then set_test_and_free env s False sm else sm) [0..<n] sm"
  shows "(\<exists>x. sm' = sm\<lparr>fsm := x\<rparr>) \<and> free_ok env (fsm sm') \<and>
    (\<forall>s. free_segmap (fsm sm') s = (free_segmap (fsm sm) s \<and> \<not> (s < n \<and> dirty_segmap (dsl sm) PRE s)))"
  unfolding sm'_def using n
proof (induction n)
  case 0
  show ?case using f by (auto intro!: exI[of _ "fsm sm"])
next
  case (Suc n)
  let ?q = "fold (\<lambda>s sm. if dirty_segmap (dsl sm) PRE s then set_test_and_free env s False sm else sm) [0..<n] sm"
  obtain x where x: "?q = sm\<lparr>fsm := x\<rparr>" and fq: "free_ok env (fsm ?q)"
    and m: "\<forall>s. free_segmap (fsm ?q) s = (free_segmap (fsm sm) s \<and> \<not> (s < n \<and> dirty_segmap (dsl sm) PRE s))"
    using Suc by auto
  have nn: "n < nseg env" using Suc.prems by simp
  note t = test_and_free_ok[OF g fq nn, where inmem = False]
  have d: "dsl ?q = dsl sm" by (simp add: x)
  have e: "fold (\<lambda>s sm. if dirty_segmap (dsl sm) PRE s then set_test_and_free env s False sm else sm) [0..<Suc n] sm =
     (if dirty_segmap (dsl sm) PRE n then set_test_and_free env n False ?q else ?q)" by (simp add: d)
  show ?case
  proof (cases "dirty_segmap (dsl sm) PRE n")
    case True
    obtain y where y: "set_test_and_free env n False ?q = ?q\<lparr>fsm := y\<rparr>" using t(3) by blast
    have "set_test_and_free env n False ?q = sm\<lparr>fsm := y\<rparr>" unfolding y by (simp add: x)
    then show ?thesis unfolding e using True t(1,2) m by (auto simp: less_Suc_eq)
  next
    case False
    then show ?thesis unfolding e using x fq m by (auto simp: less_Suc_eq)
  qed
qed

lemma set_prefree_ok:
  assumes g: "seg_geom env" and f: "free_ok env (fsm sm)"
  defines "sm' \<equiv> set_prefree_as_free_segments env sm"
  shows "\<exists>x. sm' = sm\<lparr>fsm := x\<rparr>" "free_ok env (fsm sm')"
    "\<And>s. s < nseg env \<Longrightarrow> free_segmap (fsm sm') s = (free_segmap (fsm sm) s \<and> \<not> dirty_segmap (dsl sm) PRE s)"
  using prefree_fold[OF g f order_refl] by (simp_all add: sm'_def set_prefree_as_free_segments_def MAIN_SEGS_def)

end
