(* ===== verification/Segment_Prefree.thy ===== *)
theory Segment_Prefree
  imports Segment_Flush Discard_Machine
begin

text \<open>
  The second half of a checkpoint: the discards of prefree segments and the small discards are
  queued. Only dead blocks are queued, and no prefree segment is left.
\<close>

section \<open>Queueing a range\<close>

definition queued :: "nat set \<Rightarrow> 'g sm_info \<Rightarrow> 'g sm_info \<Rightarrow> bool" where
  "queued D sm sm' \<longleftrightarrow>
     same_core sm sm' \<and> curseg sm' = curseg sm \<and> gc_state sm' = gc_state sm \<and> entry_list sm' = entry_list sm \<and>
     (dcc_ok (sm_dcc sm) \<longrightarrow> dcc_ok (sm_dcc sm') \<and> blocks (root (sm_dcc sm')) \<subseteq> blocks (root (sm_dcc sm)) \<union> D)"

lemma queued_refl [simp]: "queued D sm sm"
  by (simp add: queued_def)

lemma queued_trans: "queued D a b \<Longrightarrow> queued E b c \<Longrightarrow> queued (D \<union> E) a c"
  by (auto simp: queued_def intro: same_core_trans)

lemma queued_mono: "queued D a b \<Longrightarrow> D \<subseteq> E \<Longrightarrow> queued E a b"
  by (auto simp: queued_def)

lemma queue_piece_ok:
  assumes "start + len < 2 ^ 32"
  shows "queued {start..<start + len} sm (queue_piece env bd start len sm)"
proof -
  let ?d = "sm_dcc sm"
  let ?d' = "queue_discard_cmd (seg_dev env) (geo env) ?d bd start len"
  have "blocks (root ?d') \<subseteq> blocks (root ?d) \<union> {start..<start + len}" if "dcc_ok ?d"
    using update_discard_tree_range_ok[of ?d start len "seg_dev env" "geo env" bd] that assms
    by (auto simp: queue_discard_cmd_def dcc_ok_def added_def)
  moreover have "dcc_ok ?d'" if "dcc_ok ?d" using queue_dcc_ok[OF that assms] .
  ultimately show ?thesis by (simp add: queued_def queue_piece_def sum_core)
qed

lemma mark_discard_ok: "queued {} sm (mark_discard env i sm)"
  by (simp add: queued_def mark_discard_def Let_def same_core_def entry_core_def)

lemma issue_loop_ok:
  "start + len = i \<Longrightarrow> i \<le> e \<Longrightarrow> e < 2 ^ 32 \<Longrightarrow> queued {start..<e} sm (issue_discard_loop env opt [i..<e] bd start len sm)"
proof (induction "e - i" arbitrary: i start len bd sm)
  case 0
  then have "i = e" by simp
  then show ?case using queue_piece_ok[of start len sm env bd] 0 by simp
next
  case (Suc n)
  have u: "[i..<e] = i # [i + 1..<e]" using Suc by (simp add: upt_rec)
  have n: "n = e - (i + 1)" "i + 1 \<le> e" using Suc by simp_all
  show ?case
  proof (cases "i \<noteq> start \<and> target_dev opt i \<noteq> bd")
    case True
    let ?q = "mark_discard env i (queue_piece env bd start len sm)"
    have "queued {start..<i} sm (queue_piece env bd start len sm)" using queue_piece_ok[of start len sm env bd] Suc.prems Suc.hyps by simp
    from queued_trans[OF this mark_discard_ok] have q: "queued {start..<i} sm ?q" by simp
    have "queued {i..<e} ?q (issue_discard_loop env opt [i + 1..<e] (target_dev opt i) i 1 ?q)"
      by (rule Suc.hyps(1)[OF n(1)]) (use n Suc.prems in simp_all)
    from queued_trans[OF q this] show ?thesis unfolding u using True Suc.prems by (auto elim: queued_mono)
  next
    case False
    let ?q = "mark_discard env i sm"
    have "queued {start..<e} ?q (issue_discard_loop env opt [i + 1..<e] bd start (len + 1) ?q)"
      by (rule Suc.hyps(1)[OF n(1)]) (use n Suc.prems in simp_all)
    from queued_trans[OF mark_discard_ok this] show ?thesis unfolding u using False by auto
  qed
qed

lemma issue_discard_ok:
  "b + n < 2 ^ 32 \<Longrightarrow> queued {b..<b + n} sm (f2fs_issue_discard env opt b n sm)"
  using issue_loop_ok[of b 0 b "b + n"] by (simp add: f2fs_issue_discard_def)

section \<open>Dead ranges\<close>

text \<open>The addresses of dead blocks.\<close>

definition dead_blk :: "seg_env \<Rightarrow> 'g sm_info \<Rightarrow> nat \<Rightarrow> bool" where
  "dead_blk env sm b \<longleftrightarrow> (\<exists>s < nseg env. \<exists>i < nblk env. b = blk_of env s i \<and> \<not> live sm s i)"

definition dead_set :: "seg_env \<Rightarrow> 'g sm_info \<Rightarrow> nat set" where
  "dead_set env sm = {b. dead_blk env sm b}"

lemma seg_range_dead:
  assumes "e \<le> nseg env" "0 < nblk env" and d: "\<And>s i. a \<le> s \<Longrightarrow> s < e \<Longrightarrow> i < nblk env \<Longrightarrow> \<not> live sm s i"
  shows "{blk_of env a 0..<blk_of env a 0 + (e - a) * nblk env} \<subseteq> dead_set env sm"
proof
  fix b assume b: "b \<in> {blk_of env a 0..<blk_of env a 0 + (e - a) * nblk env}"
  define k where "k = b - blk_of env a 0"
  have k: "k < (e - a) * nblk env" "b = blk_of env a 0 + k" using b by (auto simp: k_def)
  let ?s = "a + k div nblk env" and ?i = "k mod nblk env"
  have s: "k div nblk env < e - a" using k(1) assms(2) by (simp add: less_mult_imp_div_less)
  have "b = blk_of env ?s ?i" by (simp add: k(2) blk_of_def add_mult_distrib)
  moreover have "?s < e" "a \<le> ?s" "?i < nblk env" using s assms(2) by simp_all
  ultimately show "b \<in> dead_set env sm" using d[of ?s ?i] assms(1) unfolding dead_set_def dead_blk_def
    by (intro CollectI exI[of _ ?s] conjI exI[of _ ?i]) simp_all
qed

lemma seg_range_end:
  assumes g: "seg_geom env" and e: "e \<le> nseg env" "a \<le> e"
  shows "blk_of env a 0 + (e - a) * nblk env < 2 ^ 32"
proof -
  have "blk_of env a 0 + (e - a) * nblk env = main_start (geo env) + e * nblk env"
    using e(2) by (simp add: blk_of_def diff_mult_distrib)
  also have "\<dots> \<le> main_end (geo env)" using e g by (simp add: main_end_def seg_geom_def geom_ok_def)
  also have "\<dots> < 2 ^ 32" using g by (simp add: seg_geom_def geom_ok_def)
  finally show ?thesis .
qed

section \<open>Draining the prefree list\<close>

text \<open>How far the loop over the prefree segments has come from \<open>sm0\<close>.\<close>

definition drained :: "seg_env \<Rightarrow> 'g sm_info \<Rightarrow> 'g sm_info \<Rightarrow> bool" where
  "drained env sm0 sm \<longleftrightarrow>
     same_core (sm0\<lparr>dsl := dsl sm\<rparr>) sm \<and> curseg sm = curseg sm0 \<and> gc_state sm = gc_state sm0 \<and> entry_list sm = entry_list sm0 \<and>
     (\<forall>t. t \<noteq> PRE \<longrightarrow> dirty_segmap (dsl sm) t = dirty_segmap (dsl sm0) t) \<and>
     (\<forall>s. dirty_segmap (dsl sm) PRE s \<longrightarrow> dirty_segmap (dsl sm0) PRE s) \<and>
     (\<forall>t. nr_dirty (dsl sm) t = int (bits (dirty_segmap (dsl sm) t) (nseg env))) \<and>
     dcc_ok (sm_dcc sm) \<and> blocks (root (sm_dcc sm)) \<subseteq> blocks (root (sm_dcc sm0)) \<union> dead_set env sm0"

lemma drained_core:
  assumes "drained env sm0 sm"
  shows "fsm sm = fsm sm0" "live sm = live sm0" "cur_valid_map (seg sm s) = cur_valid_map (seg sm0 s)"
    "ckpt_valid_map (seg sm s) = ckpt_valid_map (seg sm0 s)" "sec_valid (sit sm) = sec_valid (sit sm0)"
    "valid_blocks (seg sm s) = valid_blocks (seg sm0 s)" "sm_bug sm = sm_bug sm0"
proof -
  have c: "same_core (sm0\<lparr>dsl := dsl sm\<rparr>) sm" using assms by (simp add: drained_def)
  note d = same_coreD[OF c]
  show "fsm sm = fsm sm0" "cur_valid_map (seg sm s) = cur_valid_map (seg sm0 s)" "ckpt_valid_map (seg sm s) = ckpt_valid_map (seg sm0 s)"
    "valid_blocks (seg sm s) = valid_blocks (seg sm0 s)" "sm_bug sm = sm_bug sm0"
    by (simp_all add: d(1,2,3,8,10))
  show "sec_valid (sit sm) = sec_valid (sit sm0)" using c by (simp add: same_core_def)
  have "live (sm0\<lparr>dsl := dsl sm\<rparr>) = live sm0" by (simp add: live_def fun_eq_iff)
  moreover have "live sm s i = live (sm0\<lparr>dsl := dsl sm\<rparr>) s i" for s i by (rule d(6))
  ultimately show "live sm = live sm0" by (intro ext) simp
qed

lemma queued_drained:
  assumes a: "drained env sm0 a" and q: "queued D a b" and D: "D \<subseteq> dead_set env sm0"
  shows "drained env sm0 b" "dsl b = dsl a"
proof -
  show d: "dsl b = dsl a" using q by (simp add: queued_def same_core_def)
  have "same_core (sm0\<lparr>dsl := dsl a\<rparr>) a" "same_core a b" using a q by (simp_all add: drained_def queued_def)
  then have "same_core (sm0\<lparr>dsl := dsl b\<rparr>) b" unfolding d by (rule same_core_trans)
  then show "drained env sm0 b" using a q D by (auto simp: drained_def queued_def d)
qed

lemma clear_fold:
  fixes a :: nat
  assumes "\<forall>t. nr_dirty d t = int (bits (dirty_segmap d t) n)" "e \<le> n"
  defines "d' \<equiv> fold (clear_dirty PRE) [a..<e] d"
  shows "(\<forall>t. nr_dirty d' t = int (bits (dirty_segmap d' t) n)) \<and> (\<forall>t. t \<noteq> PRE \<longrightarrow> dirty_segmap d' t = dirty_segmap d t) \<and>
    (\<forall>s. dirty_segmap d' PRE s = (dirty_segmap d PRE s \<and> \<not> (a \<le> s \<and> s < e)))"
  unfolding d'_def using assms(2)
proof (induction e)
  case 0
  then show ?case using assms(1) by simp
next
  case (Suc e)
  let ?q = "fold (clear_dirty PRE) [a..<e] d"
  have q: "\<forall>t. nr_dirty ?q t = int (bits (dirty_segmap ?q t) n)" "\<forall>t. t \<noteq> PRE \<longrightarrow> dirty_segmap ?q t = dirty_segmap d t"
    "\<forall>s. dirty_segmap ?q PRE s = (dirty_segmap d PRE s \<and> \<not> (a \<le> s \<and> s < e))" using Suc by simp_all
  show ?case
  proof (cases "a \<le> e")
    case True
    have "e < n" using Suc.prems by simp
    note c = clear_dirty_simps(2)[OF this q(1), of PRE]
    have f: "fold (clear_dirty PRE) [a..<Suc e] d = clear_dirty PRE e ?q" using True by simp
    show ?thesis unfolding f by (rule conjI, rule c) (use q(2,3) True in \<open>auto simp: clear_dirty_simps(1)\<close>)
  next
    case False
    then show ?thesis using assms(1) by auto
  qed
qed

lemma clear_range_drained:
  assumes a: "drained env sm0 sm" and e: "e \<le> nseg env"
  shows "drained env sm0 (clear_prefree_range s e sm)"
    "dirty_segmap (dsl (clear_prefree_range s e sm)) PRE r = (dirty_segmap (dsl sm) PRE r \<and> \<not> (s \<le> r \<and> r < e))"
proof -
  let ?d = "fold (clear_dirty PRE) [s..<e] (dsl sm)"
  have c: "clear_prefree_range s e sm = sm\<lparr>dsl := ?d\<rparr>" by (simp add: clear_prefree_range_def)
  have n: "\<forall>t. nr_dirty (dsl sm) t = int (bits (dirty_segmap (dsl sm) t) (nseg env))" using a by (simp add: drained_def)
  note f = clear_fold[OF n e, where a = s]
  show "dirty_segmap (dsl (clear_prefree_range s e sm)) PRE r = (dirty_segmap (dsl sm) PRE r \<and> \<not> (s \<le> r \<and> r < e))"
    unfolding c using f by simp
  have "same_core (sm0\<lparr>dsl := ?d\<rparr>) (sm\<lparr>dsl := ?d\<rparr>)" using a by (simp add: drained_def same_core_def)
  then show "drained env sm0 (clear_prefree_range s e sm)" unfolding c using f a by (simp add: drained_def)
qed

text \<open>What holds when the loop starts.\<close>

definition prefree_start :: "seg_env \<Rightarrow> cp_opts \<Rightarrow> 'g sm_info \<Rightarrow> bool" where
  "prefree_start env opt sm \<longleftrightarrow>
     sit_ok env sm \<and> all_ckpt env sm \<and>
     (\<forall>s. dirty_segmap (dsl sm) PRE s \<longrightarrow> s < nseg env \<and> valid_blocks (seg sm s) = 0) \<and>
     (discard_unit_section opt \<and> is_large_section env \<longrightarrow> lfs_mode (geo env))"

lemma empty_dead:
  assumes "sit_ok env sm" "all_ckpt env sm" "s < nseg env" "valid_blocks (seg sm s) = 0" "i < nblk env"
  shows "\<not> live sm s i"
proof -
  have "bits (cur_valid_map (seg sm s)) (nblk env) = 0" using assms(1,3,4) by (auto simp: sit_ok_def entry_ok_def)
  then show ?thesis using assms(2,3,5) by (auto simp: bits_eq_0 live_def all_ckpt_def)
qed

lemma sec_dead:
  assumes g: "seg_geom env" and st: "sit_ok env sm" and c: "all_ckpt env sm" and l: "is_large_section env"
    and k: "k < total_sections env" and z: "sec_valid (sit sm) k = 0" and s: "k * sps env \<le> s" "s < k * sps env + sps env" and i: "i < nblk env"
  shows "\<not> live sm s i"
proof -
  have "Suc k * sps env \<le> nseg env" using k g by (simp add: seg_geom_def del: mult_Suc)
  then have sn: "s < nseg env" using s by simp
  have "(\<Sum>j < sps env. valid_blocks (seg sm (k * sps env + j))) = 0" using st l k z by (simp add: sit_ok_def)
  then have "\<forall>j < sps env. valid_blocks (seg sm (k * sps env + j)) = 0" by simp
  moreover have "s - k * sps env < sps env" using s by simp
  ultimately have "valid_blocks (seg sm (k * sps env + (s - k * sps env))) = 0" by blast
  then show ?thesis using empty_dead[OF st c sn _ i] s by simp
qed

lemma discard_sections_ok:
  assumes g: "seg_geom env" and p: "prefree_start env opt sm0" and l: "is_large_section env"
  shows "drained env sm0 sm \<Longrightarrow> a < b \<Longrightarrow> b \<le> total_sections env \<Longrightarrow> b - a \<le> k \<Longrightarrow>
    \<exists>sm'. discard_sections k env opt (a * sps env) (b * sps env) sm = (b * sps env, sm') \<and> drained env sm0 sm' \<and> dsl sm' = dsl sm"
proof (induction k arbitrary: a sm)
  case (Suc k)
  have sp: "0 < sps env" using g by (simp add: seg_geom_def)
  have a: "a < total_sections env" using Suc.prems by simp
  have an: "a * sps env < nseg env" using a g by (simp add: seg_geom_def)
  have sec: "GET_SEC_FROM_SEG env (a * sps env) = a" using sec_of[OF g an] sp by simp
  have sg: "GET_SEG_FROM_SEC env a = a * sps env" using seg_of_sec[OF g] a by simp
  have st: "START_BLOCK (geo env) (a * sps env) = blk_of env (a * sps env) 0" using start_block[OF g] an by simp
  have lg: "2 ^ log_blocks_per_seg (geo env) = nblk env" using g by (simp add: seg_geom_def geom_ok_def)
  define c where "c \<longleftrightarrow> \<not> IS_CURSEC env sm a \<and> sec_valid (sit sm) a = 0"
  define q where "q = (if c then f2fs_issue_discard env opt (blk_of env (a * sps env) 0) (sps env * nblk env) sm else sm)"
  have q: "drained env sm0 q \<and> dsl q = dsl sm"
  proof (cases c)
    case True
    have z: "sec_valid (sit sm0) a = 0" using True drained_core(5)[OF Suc.prems(1)] by (simp add: c_def)
    have e: "a * sps env + sps env \<le> nseg env" using Suc.prems g by (metis add.commute mult_Suc mult_le_mono1 Suc_leI a seg_geom_def)
    have "{blk_of env (a * sps env) 0..<blk_of env (a * sps env) 0 + (a * sps env + sps env - a * sps env) * nblk env} \<subseteq> dead_set env sm0"
      by (rule seg_range_dead[OF e nblk_pos[OF g]]) (use p sec_dead[OF g _ _ l a z] in \<open>simp add: prefree_start_def\<close>)
    moreover have "blk_of env (a * sps env) 0 + (a * sps env + sps env - a * sps env) * nblk env < 2 ^ 32"
      by (rule seg_range_end[OF g e]) simp
    ultimately show ?thesis using queued_drained[OF Suc.prems(1) issue_discard_ok] True by (simp add: q_def)
  qed (simp add: q_def Suc.prems)
  have e: "discard_sections (Suc k) env opt (a * sps env) (b * sps env) sm =
     (if (a + 1) * sps env < b * sps env then discard_sections k env opt ((a + 1) * sps env) (b * sps env) q else ((a + 1) * sps env, q))"
    using l by (simp add: sec sg st lg get_valid_blocks_def q_def c_def Let_def add.commute del: add_mult_distrib)
  show ?case
  proof (cases "a + 1 < b")
    case True
    have "\<exists>sm'. discard_sections k env opt ((a + 1) * sps env) (b * sps env) q = (b * sps env, sm') \<and> drained env sm0 sm' \<and> dsl sm' = dsl q"
      by (rule Suc.IH) (use True Suc.prems q in simp_all)
    moreover have "(a + 1) * sps env < b * sps env" using True sp mult_less_mono1 by blast
    ultimately show ?thesis unfolding e using q by simp
  next
    case False
    then have "b = a + 1" using Suc.prems by simp
    then show ?thesis unfolding e using q by simp
  qed
qed simp

text \<open>The range of a round: a run of prefree segments, rounded to sections.\<close>

lemma prefree_run:
  assumes st: "start = find_next_bit m n pos" "start < n" and e: "e = find_next_zero_bit m n (start + 1)"
  shows "start < e" "e \<le> n" "\<And>s. start \<le> s \<Longrightarrow> s < e \<Longrightarrow> m s" "\<And>s. pos \<le> s \<Longrightarrow> s < start \<Longrightarrow> \<not> m s" "pos \<le> start" "e < n \<Longrightarrow> \<not> m e"
proof -
  have m: "m start" "pos \<le> start" using find_next_bit_less[of m n pos] st by simp_all
  show "e \<le> n" unfolding e by (rule zero_bit_le)
  show "start < e" using zero_bit_less(2)[of m n "start + 1"] st(2) e by (cases "e < n") auto
  show "m s" if "start \<le> s" "s < e" for s using zero_bit_skips[of "start + 1" s m n] that m(1) unfolding e by (cases "s = start") auto
  show "\<not> m s" if "pos \<le> s" "s < start" for s using find_next_bit_skips[of pos s m n] that unfolding st(1) by simp
  show "pos \<le> start" by (rule m(2))
  show "e < n \<Longrightarrow> \<not> m e" unfolding e by (rule zero_bit_less(1))
qed

lemma round_bounds:
  fixes w :: nat
  assumes "0 < w" "s < e" "e \<le> k * w"
  shows "s - s mod w = s div w * w" "s div w * w \<le> s" "e \<le> (e + w - 1) div w * w" "(e + w - 1) div w \<le> k" "s div w < (e + w - 1) div w"
proof -
  show "s - s mod w = s div w * w" by (simp add: minus_mod_eq_div_mult)
  show "s div w * w \<le> s" by simp
  show up: "e \<le> (e + w - 1) div w * w"
  proof -
    have "e + w - 1 < (e + w - 1) div w * w + w" using dividend_less_div_times[OF assms(1), of "e + w - 1"] by simp
    then show ?thesis using assms by linarith
  qed
  have "e + w - 1 < (k + 1) * w" using assms by (simp add: algebra_simps)
  then have "(e + w - 1) div w < k + 1" by (rule less_mult_imp_div_less)
  then show "(e + w - 1) div w \<le> k" by simp
  have "s div w * w < (e + w - 1) div w * w" using up assms(2) \<open>s div w * w \<le> s\<close> by linarith
  then show "s div w < (e + w - 1) div w" by simp
qed

definition pre_count :: "seg_env \<Rightarrow> 'g sm_info \<Rightarrow> nat" where
  "pre_count env sm = bits (dirty_segmap (dsl sm) PRE) (nseg env)"

lemma bits_less:
  assumes "\<And>i. m' i \<Longrightarrow> m i" "j < n" "m j" "\<not> m' j"
  shows "bits m' n < bits m n"
proof -
  have "filter m' [0..<n] = filter (\<lambda>x. m x \<and> m' x) [0..<n]" by (rule filter_cong) (use assms(1) in auto)
  then have "filter m' [0..<n] = filter m' (filter m [0..<n])" by (simp only: filter_filter)
  moreover have "length (filter m' (filter m [0..<n])) < length (filter m [0..<n])"
    by (rule length_filter_less[of j]) (use assms in auto)
  ultimately show ?thesis by (simp add: count_idx_def)
qed

lemma prefree_round_ok:
  assumes g: "seg_geom env" and p: "prefree_start env opt sm0" and d: "drained env sm0 sm"
    and al: "align = (discard_unit_section opt \<or> lfs_mode (geo env) \<and> is_large_section env)"
    and lo: "\<And>s. s < pos \<Longrightarrow> \<not> dirty_segmap (dsl sm) PRE s"
    and r: "prefree_round env opt align pos sm = Some (nxt, sm')"
  shows "drained env sm0 sm'" "\<And>s. s < nxt \<Longrightarrow> \<not> dirty_segmap (dsl sm') PRE s" "pre_count env sm' < pre_count env sm"
proof -
  let ?m = "dirty_segmap (dsl sm) PRE" and ?w = "sps env"
  define start where "start = find_next_bit ?m (nseg env) pos"
  define e where "e = find_next_zero_bit ?m (nseg env) (start + 1)"
  define a where "a = (if align then start - start mod ?w else start)"
  define b where "b = (if align then (e + ?w - 1) div ?w * ?w else e)"
  define q where "q = clear_prefree_range a b sm"
  have sn: "start < nseg env" and pr: "(nxt, sm') = discard_prefree env opt (if align then b else b + 1) a b q"
    using r by (auto simp: prefree_round_def Let_def MAIN_SEGS_def start_def e_def a_def b_def q_def split: if_splits)
  note run = prefree_run[OF start_def sn e_def]
  have w: "0 < ?w" "nseg env = total_sections env * ?w" using g by (simp_all add: seg_geom_def)
  note rb = round_bounds[OF w(1) run(1), of "total_sections env"]
  have ab: "a \<le> start" "e \<le> b" "b \<le> nseg env" "a < b"
    using rb run w by (auto simp: a_def b_def)
  note c = clear_range_drained[OF d ab(3), of a, folded q_def]
  have pre: "\<not> dirty_segmap (dsl q) PRE s" if "s < b" for s
    using that lo[of s] run(4)[of s] ab(1) by (auto simp: c(2)) (meson le_less_linear order.trans)
  have pn: "\<not> dirty_segmap (dsl q) PRE s" if "s < (if align then b else b + 1)" for s
  proof (cases "s < b")
    case False
    then have "s = e" "\<not> align" using that by (auto simp: b_def split: if_splits)
    moreover have "?m s \<Longrightarrow> s < nseg env" using d p by (auto simp: drained_def prefree_start_def)
    ultimately show ?thesis using run(6) by (auto simp: c(2))
  qed (rule pre)
  have pc: "pre_count env q < pre_count env sm"
    unfolding pre_count_def by (rule bits_less[of _ _ start]) (use c(2) run(1,3) sn ab in auto)
  have lg: "2 ^ log_blocks_per_seg (geo env) = nblk env" using g by (simp add: seg_geom_def geom_ok_def)
  have "drained env sm0 sm' \<and> dsl sm' = dsl q \<and> nxt \<le> (if align then b else b + 1)"
  proof (cases "\<not> realtime_discard opt \<or> cp_discard opt \<and> a \<ge> trim_start opt \<and> b - 1 \<le> trim_end opt")
    case True
    then have "nxt = (if align then b else b + 1) \<and> sm' = q" using pr unfolding discard_prefree_def by (simp split: if_splits)
    then show ?thesis using c(1) by simp
  next
    case act: False
    show ?thesis
    proof (cases "\<not> lfs_mode (geo env) \<or> \<not> is_large_section env")
      case True
      have e': "nxt = (if align then b else b + 1)" "sm' = f2fs_issue_discard env opt (blk_of env a 0) ((b - a) * nblk env) q"
        using pr act True start_block[OF g, of a] ab lg unfolding discard_prefree_def by (auto split: if_splits)
      have eq: "a = start" "b = e"
      proof -
        have "align \<longrightarrow> ?w = 1" using al p True w(1) by (auto simp: prefree_start_def is_large_section_def)
        then show "a = start" "b = e" by (auto simp: a_def b_def)
      qed
      have dead: "\<not> live sm0 s i" if "a \<le> s" "s < b" "i < nblk env" for s i
      proof -
        have "dirty_segmap (dsl sm0) PRE s" using run(3)[of s] that eq d by (auto simp: drained_def)
        then show ?thesis using p empty_dead[of env sm0 s i] that(3) by (auto simp: prefree_start_def)
      qed
      note D = seg_range_dead[OF ab(3) nblk_pos[OF g] dead]
      have "blk_of env a 0 + (b - a) * nblk env < 2 ^ 32" using seg_range_end[OF g ab(3)] ab(4) by simp
      from queued_drained[OF c(1) issue_discard_ok[OF this] D] show ?thesis using e' by simp
    next
      case False
      then have al': "align" using al by blast
      have ad: "a = start div ?w * ?w" "b = (e + ?w - 1) div ?w * ?w" using al' rb(1) run w by (simp_all add: a_def b_def)
      have bd: "start div ?w < (e + ?w - 1) div ?w" "(e + ?w - 1) div ?w \<le> total_sections env" using rb(4,5) run w by simp_all
      have fu: "(e + ?w - 1) div ?w - start div ?w \<le> b - a"
      proof -
        have "((e + ?w - 1) div ?w - start div ?w) * 1 \<le> ((e + ?w - 1) div ?w - start div ?w) * ?w" using w(1) by (intro mult_le_mono2) simp
        then show ?thesis by (simp add: ad diff_mult_distrib)
      qed
      obtain x where x: "discard_sections (b - a) env opt a b q = (b, x)" "drained env sm0 x" "dsl x = dsl q"
        using discard_sections_ok[OF g p _ c(1) bd fu] False unfolding ad[symmetric] by blast
      then have "nxt = b - 1" "sm' = x" using pr act False unfolding discard_prefree_def by (auto split: if_splits)
      then show ?thesis using x al' by simp
    qed
  qed
  then show "drained env sm0 sm'" "\<And>s. s < nxt \<Longrightarrow> \<not> dirty_segmap (dsl sm') PRE s" "pre_count env sm' < pre_count env sm"
    using pn pc by (auto simp: pre_count_def)
qed

lemma prefree_loop_ok:
  assumes g: "seg_geom env" and p: "prefree_start env opt sm0"
    and al: "align = (discard_unit_section opt \<or> lfs_mode (geo env) \<and> is_large_section env)"
  shows "drained env sm0 sm \<Longrightarrow> (\<And>s. s < pos \<Longrightarrow> \<not> dirty_segmap (dsl sm) PRE s) \<Longrightarrow> pre_count env sm < k \<Longrightarrow>
    \<exists>sm'. prefree_loop k env opt align pos sm = Some sm' \<and> drained env sm0 sm' \<and> (\<forall>s. \<not> dirty_segmap (dsl sm') PRE s)"
proof (induction k arbitrary: pos sm)
  case (Suc k)
  show ?case
  proof (cases "prefree_round env opt align pos sm")
    case None
    then have "nseg env \<le> find_next_bit (dirty_segmap (dsl sm) PRE) (nseg env) pos"
      by (auto simp: prefree_round_def Let_def MAIN_SEGS_def split: if_splits)
    then have "\<not> dirty_segmap (dsl sm) PRE s" if "pos \<le> s" "s < nseg env" for s using that by (simp add: find_next_bit_ge)
    moreover have "dirty_segmap (dsl sm) PRE s \<Longrightarrow> s < nseg env" for s using Suc.prems(1) p by (auto simp: drained_def prefree_start_def)
    ultimately have "\<not> dirty_segmap (dsl sm) PRE s" for s using Suc.prems(2)[of s] by (meson le_less_linear)
    then show ?thesis using None Suc.prems(1) by simp
  next
    case (Some x)
    obtain nxt sm1 where x: "x = (nxt, sm1)" by (metis surj_pair)
    note r = prefree_round_ok[OF g p Suc.prems(1) al Suc.prems(2) Some[unfolded x]]
    show ?thesis using Suc.IH[OF r(1,2)] r(3) Suc.prems(3) Some x by simp
  qed
qed simp

section \<open>Sending the small discards\<close>

lemma small_loop_ok:
  assumes n: "n = nblk env" and b: "base + n < 2 ^ 32"
  shows "c < n \<Longrightarrow> v = m c \<Longrightarrow> n < c + k \<Longrightarrow>
    \<exists>t sm'. small_loop k env opt base m v c tot sm = Some (t, sm') \<and> queued {base + i | i. i < n \<and> m i} sm sm'"
proof (induction k arbitrary: c v tot sm)
  case (Suc k)
  let ?D = "{base + i | i. i < n \<and> m i}"
  define nx where "nx = (if v then find_next_zero_bit m n c else find_next_bit m n c)"
  define send where "send \<longleftrightarrow> v \<and> \<not> blkzoned env \<and> \<not> (cp_discard opt \<and> nx - c < trim_minlen opt)"
  define q where "q = (if send then f2fs_issue_discard env opt (base + c) (nx - c) sm else sm)"
  have nx: "nx \<le> n" "c < nx"
  proof -
    show le: "nx \<le> n" using find_next_bit_le[of m n c] zero_bit_le[of m n c] by (simp add: nx_def)
    have z: "find_next_zero_bit m n c < n \<Longrightarrow> \<not> m (find_next_zero_bit m n c)" "find_next_zero_bit m n c < n \<Longrightarrow> c \<le> find_next_zero_bit m n c"
      by (fact zero_bit_less)+
    have o: "find_next_bit m n c < n \<Longrightarrow> m (find_next_bit m n c)" "find_next_bit m n c < n \<Longrightarrow> c \<le> find_next_bit m n c"
      by (fact find_next_bit_less)+
    show "c < nx"
    proof (cases "nx < n")
      case True
      then have "c \<le> nx" "m nx = (\<not> v)" using z o by (auto simp: nx_def split: if_splits)
      then show ?thesis using Suc.prems(2) by (cases "c = nx") auto
    qed (use Suc.prems(1) in simp)
  qed
  have run: "m i" if "v" "c \<le> i" "i < nx" for i using zero_bit_skips[of c i m n] that by (auto simp: nx_def)
  have q: "queued ?D sm q"
  proof (cases send)
    case True
    have "base + c + (nx - c) < 2 ^ 32" using nx b by linarith
    from issue_discard_ok[OF this] have "queued {base + c..<base + c + (nx - c)} sm q" using True by (simp add: q_def)
    moreover have "{base + c..<base + c + (nx - c)} \<subseteq> ?D"
    proof
      fix x assume x: "x \<in> {base + c..<base + c + (nx - c)}"
      then have "x = base + (x - base)" "c \<le> x - base" "x - base < nx" using nx by auto
      then show "x \<in> ?D" using run[of "x - base"] True nx(1) by (auto simp: send_def intro!: exI[of _ "x - base"])
    qed
    ultimately show ?thesis by (rule queued_mono)
  qed (simp add: q_def)
  have e: "small_loop (Suc k) env opt base m v c tot sm =
     (if nx < n then small_loop k env opt base m (\<not> v) nx (if send then tot + (nx - c) else tot) q
      else Some (if send then tot + (nx - c) else tot, q))"
    unfolding small_loop.simps n[symmetric] Let_def nx_def[symmetric] send_def[symmetric] q_def[symmetric] by (rule refl)
  show ?case
  proof (cases "nx < n")
    case True
    have hv: "(\<not> v) = m nx" using True find_next_bit_less(1)[of m n c] zero_bit_less(1)[of m n c] by (auto simp: nx_def)
    have hn: "n < nx + k" using nx(2) Suc.prems(3) by simp
    obtain t sm' where "small_loop k env opt base m (\<not> v) nx (if send then tot + (nx - c) else tot) q = Some (t, sm')" "queued ?D q sm'"
      using Suc.IH[OF True hv hn, of "if send then tot + (nx - c) else tot" q] by (elim exE conjE) (rule that)
    then show ?thesis unfolding e if_P[OF True] using queued_trans[OF q, of ?D sm'] by (intro exI[of _ t] exI[of _ sm']) simp
  qed (use q in \<open>auto simp: e simp del: small_loop.simps\<close>)
qed simp

lemma dead_entry_set:
  assumes "dead_entry env sm (base, m)"
  shows "{base + i | i. i < nblk env \<and> m i} \<subseteq> dead_set env sm"
proof
  fix x assume "x \<in> {base + i | i. i < nblk env \<and> m i}"
  then obtain i where i: "x = base + i" "i < nblk env" "m i" by blast
  obtain s where s: "s < nseg env" "base = blk_of env s 0" "\<not> live sm s i" using assms i by (auto simp: dead_entry_def)
  have "x = blk_of env s i" using i s by (simp add: blk_of_def)
  then show "x \<in> dead_set env sm" using i s by (auto simp: dead_set_def dead_blk_def)
qed

lemma entries_only_drained:
  assumes "drained env sm0 sm"
  shows "drained env (sm0\<lparr>entry_list := es\<rparr>) (sm\<lparr>entry_list := es, nr_discards := k\<rparr>)"
proof -
  have "live (sm0\<lparr>entry_list := es\<rparr>) = live sm0" by (simp add: live_def fun_eq_iff)
  then have "dead_set env (sm0\<lparr>entry_list := es\<rparr>) = dead_set env sm0" by (simp add: dead_set_def dead_blk_def)
  then show ?thesis using assms by (simp add: drained_def same_core_def)
qed

lemma send_small_ok:
  assumes g: "seg_geom env" and d: "drained env sm0 sm" and e: "dead_entry env sm0 e"
  shows "drained env (sm0\<lparr>entry_list := tl (entry_list sm)\<rparr>) (send_small env opt e sm)" "dsl (send_small env opt e sm) = dsl sm"
proof -
  obtain base m where em: "e = (base, m)" by (metis surj_pair)
  obtain s where s: "s < nseg env" "base = blk_of env s 0" using e by (auto simp: dead_entry_def em)
  have "blk_of env s 0 + (s + 1 - s) * nblk env < 2 ^ 32" by (rule seg_range_end[OF g]) (use s in simp_all)
  then have b: "base + nblk env < 2 ^ 32" using s by simp
  obtain t sm' where l: "small_loop (nblk env + 1) env opt base m (m 0) 0 0 sm = Some (t, sm')" "queued {base + i | i. i < nblk env \<and> m i} sm sm'"
    using small_loop_ok[OF refl b, of 0 "m 0" m "nblk env + 1" opt 0 sm] nblk_pos[OF g] by auto
  note q = queued_drained[OF d l(2) dead_entry_set[OF e[unfolded em]]]
  have es: "entry_list sm' = entry_list sm" using l(2) by (simp add: queued_def)
  have r: "send_small env opt e sm = sm'\<lparr>entry_list := tl (entry_list sm), nr_discards := sub32 (nr_discards sm') t\<rparr>"
    using l(1) es by (simp add: send_small_def em del: small_loop.simps)
  show "drained env (sm0\<lparr>entry_list := tl (entry_list sm)\<rparr>) (send_small env opt e sm)"
    unfolding r by (rule entries_only_drained[OF q(1)])
  show "dsl (send_small env opt e sm) = dsl sm" by (simp add: r q(2))
qed

lemma send_all_ok:
  assumes g: "seg_geom env"
  shows "drained env sm0 sm \<Longrightarrow> entry_list sm = es \<Longrightarrow> (\<forall>e \<in> set es. dead_entry env sm0 e) \<Longrightarrow>
     drained env (sm0\<lparr>entry_list := []\<rparr>) (fold (send_small env opt) es sm) \<and> dsl (fold (send_small env opt) es sm) = dsl sm"
proof (induction es arbitrary: sm0 sm)
  case Nil
  have "sm0\<lparr>entry_list := []\<rparr> = sm0" using Nil by (simp add: drained_def)
  then show ?case using Nil by simp
next
  case (Cons e es)
  note s = send_small_ok[OF g Cons.prems(1), of e opt]
  have "entry_list (send_small env opt e sm) = es" using s(1) Cons.prems by (simp add: drained_def)
  moreover have "\<forall>x \<in> set es. dead_entry env (sm0\<lparr>entry_list := es\<rparr>) x"
    using Cons.prems(3) by (auto simp: dead_entry_def live_def)
  ultimately show ?case
    using Cons.IH[of "sm0\<lparr>entry_list := es\<rparr>" "send_small env opt e sm"] s Cons.prems by simp
qed

lemma clear_prefree_ok:
  assumes g: "seg_geom env" and p: "prefree_start env opt sm0" and n: "\<forall>t. nr_dirty (dsl sm0) t = int (bits (dirty_segmap (dsl sm0) t) (nseg env))"
    and dc: "dcc_ok (sm_dcc sm0)" and de: "\<forall>e \<in> set (entry_list sm0). dead_entry env sm0 e" and bu: "block_unit_discard env \<or> entry_list sm0 = []"
  defines "sm' \<equiv> f2fs_clear_prefree_segments env opt sm0"
  shows "drained env (sm0\<lparr>entry_list := []\<rparr>) sm'" "\<not> dirty_segmap (dsl sm') PRE s"
proof -
  define align where "align = (discard_unit_section opt \<or> lfs_mode (geo env) \<and> is_large_section env)"
  have d0: "drained env sm0 sm0" using n dc by (simp add: drained_def)
  have pc: "pre_count env sm0 < nseg env + 1" using count_idx_le[of "\<lambda>b. b" "dirty_segmap (dsl sm0) PRE" "nseg env"] by (simp add: pre_count_def)
  obtain q where q: "prefree_loop (nseg env + 1) env opt align 0 sm0 = Some q" "drained env sm0 q" "\<forall>s. \<not> dirty_segmap (dsl q) PRE s"
    using prefree_loop_ok[OF g p align_def d0 _ pc] by auto
  define r where "r = (if block_unit_discard env then fold (send_small env opt) (entry_list q) q else q)"
  have el: "entry_list q = entry_list sm0" using q(2) by (simp add: drained_def)
  have r: "drained env (sm0\<lparr>entry_list := []\<rparr>) r \<and> dsl r = dsl q"
  proof (cases "block_unit_discard env")
    case True
    then show ?thesis using send_all_ok[OF g q(2) refl] de el by (simp add: r_def)
  next
    case False
    then have "sm0\<lparr>entry_list := []\<rparr> = sm0" using bu by simp
    then show ?thesis using q(2) False by (simp add: r_def)
  qed
  define d' where "d' = wake_up_discard_thread False (discard_idle opt) (sm_dcc r)"
  have e: "sm' = r\<lparr>sm_dcc := d'\<rparr>"
    using q(1) by (simp add: sm'_def f2fs_clear_prefree_segments_def Let_def align_def MAIN_SEGS_def r_def d'_def del: prefree_loop.simps)
  have d': "root d' = root (sm_dcc r)" "dcc_ok d' = dcc_ok (sm_dcc r)"
    by (simp_all add: d'_def wake_up_discard_thread_def Let_def dcc_ok_def acct_def pend_ok_def wait_ok_def)
  show "drained env (sm0\<lparr>entry_list := []\<rparr>) sm'" using conjunct1[OF r] by (simp add: e drained_def same_core_def d')
  show "\<not> dirty_segmap (dsl sm') PRE s" using r q(3) by (simp add: e)
qed

end
