(* ===== verification/Segment_Checkpoint.thy ===== *)
theory Segment_Checkpoint
  imports Segment_Prefree
begin

text \<open>
  A whole checkpoint of the segment manager: afterwards the invariant holds again, the prefree
  segments are free, the checkpointed maps are the current ones, and only dead blocks were queued
  for discard.
\<close>

section \<open>Logs that live in memory\<close>

definition only_fsm :: "'g sm_info \<Rightarrow> 'g sm_info \<Rightarrow> bool" where
  "only_fsm sm sm' \<longleftrightarrow> (\<exists>x y. sm' = sm\<lparr>fsm := x, ssa := y\<rparr>)"

lemma only_fsmI: "only_fsm sm (sm\<lparr>fsm := x\<rparr>)" "only_fsm sm sm" "only_fsm sm (sm\<lparr>ssa := y\<rparr>)"
  unfolding only_fsm_def
    apply (rule exI[of _ x], rule exI[of _ "ssa sm"], simp)
   apply (rule exI[of _ "fsm sm"], rule exI[of _ "ssa sm"], simp)
  apply (rule exI[of _ "fsm sm"], rule exI[of _ y], simp)
  done

lemma only_fsm_trans: "only_fsm a b \<Longrightarrow> only_fsm b c \<Longrightarrow> only_fsm a c"
  unfolding only_fsm_def by (elim exE, simp, blast)

lemma only_fsmD:
  assumes "only_fsm sm sm'"
  shows "sit sm' = sit sm" "dsl sm' = dsl sm" "curseg sm' = curseg sm" "seg sm' = seg sm" "live sm' = live sm" "sm_dcc sm' = sm_dcc sm"
    "entry_list sm' = entry_list sm" "gc_state sm' = gc_state sm" "sm_bug sm' = sm_bug sm" "nr_discards sm' = nr_discards sm"
  using assms by (auto simp: only_fsm_def seg_def live_def fun_eq_iff)

text \<open>A log whose segment is given back for the duration of a checkpoint.\<close>

definition put_aside :: "'g sm_info \<Rightarrow> curseg_id \<Rightarrow> nat \<Rightarrow> bool" where
  "put_aside sm c s \<longleftrightarrow> inited (curseg sm c) \<and> valid_blocks (seg sm s) = 0 \<and> s = cs_segno (curseg sm c)"

definition logs_inside :: "seg_env \<Rightarrow> 'g sm_info \<Rightarrow> bool" where
  "logs_inside env sm \<longleftrightarrow> (\<forall>c. inited (curseg sm c) \<longrightarrow> cs_segno (curseg sm c) < nseg env)"

lemma save_one:
  assumes g: "seg_geom env" and f: "free_ok env (fsm sm)" and l: "logs_inside env sm"
  shows "only_fsm sm (save_inmem_curseg env c sm)" "free_ok env (fsm (save_inmem_curseg env c sm))"
    "free_segmap (fsm (save_inmem_curseg env c sm)) r = (free_segmap (fsm sm) r \<and> \<not> put_aside sm c r)"
proof -
  let ?s = "cs_segno (curseg sm c)"
  have "only_fsm sm (save_inmem_curseg env c sm) \<and> free_ok env (fsm (save_inmem_curseg env c sm)) \<and>
    (free_segmap (fsm (save_inmem_curseg env c sm)) r = (free_segmap (fsm sm) r \<and> \<not> put_aside sm c r))"
  proof (cases "inited (curseg sm c) \<and> valid_blocks (seg sm ?s) = 0")
    case True
    have "?s < nseg env" using l True by (simp add: logs_inside_def)
    note t = test_and_free_ok[OF g f this, where inmem = True]
    have e: "save_inmem_curseg env c sm = set_test_and_free env ?s True sm"
      using True by (simp add: save_inmem_curseg_def Let_def get_valid_blocks_def)
    obtain x where x: "set_test_and_free env ?s True sm = sm\<lparr>fsm := x\<rparr>" using t(3) by blast
    have "only_fsm sm (set_test_and_free env ?s True sm)" unfolding x by (rule only_fsmI)
    then show ?thesis unfolding e using t(1,2) True by (auto simp: put_aside_def)
  next
    case False
    then have e: "save_inmem_curseg env c sm = sm \<or> save_inmem_curseg env c sm = write_sum_page c sm"
      by (auto simp: save_inmem_curseg_def Let_def get_valid_blocks_def)
    have "only_fsm sm (write_sum_page c sm)" by (simp add: write_sum_page_def Let_def only_fsmI)
    then show ?thesis using e f False only_fsmI(2)[of sm] by (auto simp: put_aside_def)
  qed
  then show "only_fsm sm (save_inmem_curseg env c sm)" "free_ok env (fsm (save_inmem_curseg env c sm))"
    "free_segmap (fsm (save_inmem_curseg env c sm)) r = (free_segmap (fsm sm) r \<and> \<not> put_aside sm c r)" by blast+
qed

lemma restore_one:
  assumes g: "seg_geom env" and f: "free_ok env (fsm sm)" and l: "logs_inside env sm"
  shows "only_fsm sm (restore_inmem_curseg env c sm)" "free_ok env (fsm (restore_inmem_curseg env c sm))"
    "free_segmap (fsm (restore_inmem_curseg env c sm)) r = (free_segmap (fsm sm) r \<or> put_aside sm c r)"
proof -
  let ?s = "cs_segno (curseg sm c)"
  have "only_fsm sm (restore_inmem_curseg env c sm) \<and> free_ok env (fsm (restore_inmem_curseg env c sm)) \<and>
    (free_segmap (fsm (restore_inmem_curseg env c sm)) r = (free_segmap (fsm sm) r \<or> put_aside sm c r))"
  proof (cases "inited (curseg sm c) \<and> valid_blocks (seg sm ?s) = 0 \<and> \<not> free_segmap (fsm sm) ?s")
    case True
    have "?s < nseg env" using l True by (simp add: logs_inside_def)
    note t = set_inuse_ok[OF g f this]
    have "restore_inmem_curseg env c sm = sm\<lparr>fsm := set_inuse env ?s (fsm sm)\<rparr>"
      using True by (simp add: restore_inmem_curseg_def Let_def get_valid_blocks_def set_test_and_inuse_def)
    then show ?thesis using t True by (auto simp: put_aside_def only_fsmI)
  next
    case False
    then have "restore_inmem_curseg env c sm = sm"
      by (auto simp: restore_inmem_curseg_def Let_def get_valid_blocks_def set_test_and_inuse_def)
    then show ?thesis using f False by (auto simp: put_aside_def only_fsmI)
  qed
  then show "only_fsm sm (restore_inmem_curseg env c sm)" "free_ok env (fsm (restore_inmem_curseg env c sm))"
    "free_segmap (fsm (restore_inmem_curseg env c sm)) r = (free_segmap (fsm sm) r \<or> put_aside sm c r)" by blast+
qed

lemma put_aside_cong: "curseg sm' = curseg sm \<Longrightarrow> (\<And>s. valid_blocks (seg sm' s) = valid_blocks (seg sm s)) \<Longrightarrow> put_aside sm' c s = put_aside sm c s"
  by (simp add: put_aside_def)

definition aside :: "bool \<Rightarrow> 'g sm_info \<Rightarrow> nat \<Rightarrow> bool" where
  "aside atgc sm s \<longleftrightarrow> put_aside sm CURSEG_COLD_DATA_PINNED s \<or> atgc \<and> put_aside sm CURSEG_ALL_DATA_ATGC s"

lemma aside_cong: "curseg sm' = curseg sm \<Longrightarrow> (\<And>s. valid_blocks (seg sm' s) = valid_blocks (seg sm s)) \<Longrightarrow> aside atgc sm' s = aside atgc sm s"
  by (simp add: aside_def put_aside_def)

lemma save_both:
  fixes atgc :: bool
  assumes g: "seg_geom env" and f: "free_ok env (fsm sm)" and l: "logs_inside env sm"
  defines "sm' \<equiv> f2fs_save_inmem_curseg atgc env sm"
  shows "only_fsm sm sm'" "free_ok env (fsm sm')" "free_segmap (fsm sm') r = (free_segmap (fsm sm) r \<and> \<not> aside atgc sm r)"
proof -
  define q where "q = save_inmem_curseg env CURSEG_COLD_DATA_PINNED sm"
  note a = save_one[OF g f l, of CURSEG_COLD_DATA_PINNED, folded q_def]
  note d = only_fsmD[OF a(1)]
  have l1: "logs_inside env q" using l by (simp add: logs_inside_def d)
  note b = save_one[OF g a(2) l1, of CURSEG_ALL_DATA_ATGC]
  have e: "sm' = (if atgc then save_inmem_curseg env CURSEG_ALL_DATA_ATGC q else q)" by (simp add: sm'_def f2fs_save_inmem_curseg_def q_def)
  have p: "put_aside q c s = put_aside sm c s" for c s by (rule put_aside_cong) (simp_all add: d)
  show "only_fsm sm sm'" unfolding e using a(1) b(1) only_fsm_trans by auto
  show "free_ok env (fsm sm')" unfolding e using a(2) b(2) by auto
  show "free_segmap (fsm sm') r = (free_segmap (fsm sm) r \<and> \<not> aside atgc sm r)" unfolding e using a(3)[of r] b(3)[of r] p by (auto simp: aside_def)
qed

lemma restore_both:
  fixes atgc :: bool
  assumes g: "seg_geom env" and f: "free_ok env (fsm sm)" and l: "logs_inside env sm"
  defines "sm' \<equiv> f2fs_restore_inmem_curseg atgc env sm"
  shows "only_fsm sm sm'" "free_ok env (fsm sm')" "free_segmap (fsm sm') r = (free_segmap (fsm sm) r \<or> aside atgc sm r)"
proof -
  define q where "q = restore_inmem_curseg env CURSEG_COLD_DATA_PINNED sm"
  note a = restore_one[OF g f l, of CURSEG_COLD_DATA_PINNED, folded q_def]
  note d = only_fsmD[OF a(1)]
  have l1: "logs_inside env q" using l by (simp add: logs_inside_def d)
  note b = restore_one[OF g a(2) l1, of CURSEG_ALL_DATA_ATGC]
  have e: "sm' = (if atgc then restore_inmem_curseg env CURSEG_ALL_DATA_ATGC q else q)" by (simp add: sm'_def f2fs_restore_inmem_curseg_def q_def)
  have p: "put_aside q c s = put_aside sm c s" for c s by (rule put_aside_cong) (simp_all add: d)
  show "only_fsm sm sm'" unfolding e using a(1) b(1) only_fsm_trans by auto
  show "free_ok env (fsm sm')" unfolding e using a(2) b(2) by auto
  show "free_segmap (fsm sm') r = (free_segmap (fsm sm) r \<or> aside atgc sm r)" unfolding e using a(3)[of r] b(3)[of r] p by (auto simp: aside_def)
qed

section \<open>The checkpoint\<close>

lemma freed_sm_in:
  assumes ok: "sm_in env {} f" and ck: "all_ckpt env f" and po: "pre_only (dsl f)"
    and c: "same_core (f\<lparr>fsm := fsm w, dsl := dsl w\<rparr>) w" and fo: "free_ok env (fsm w)"
    and fm: "\<And>s. s < nseg env \<Longrightarrow> free_segmap (fsm w) s = (free_segmap (fsm f) s \<and> \<not> dirty_segmap (dsl f) PRE s)"
    and d: "\<And>t. t \<noteq> PRE \<Longrightarrow> dirty_segmap (dsl w) t = dirty_segmap (dsl f) t" "\<And>s. \<not> dirty_segmap (dsl w) PRE s"
    and n: "\<forall>t. nr_dirty (dsl w) t = int (bits (dirty_segmap (dsl w) t) (nseg env))"
  shows "sm_in env {} w"
proof -
  let ?f = "f\<lparr>fsm := fsm w, dsl := dsl w\<rparr>"
  have st: "sit_ok env f" and do: "dirty_ok env f" and lg: "logs_in env {} f" and fc: "free_clean env f" using ok by (simp_all add: sm_in_def)
  have e: "seg ?f = seg f" "live ?f = live f" "IS_CURSEG ?f = IS_CURSEG f" by (simp_all add: live_def is_curseg fun_eq_iff)
  have "sit_ok env ?f" using st by (simp add: sit_ok_def e)
  moreover have "dirty_ok env ?f"
  proof -
    have "s < nseg env \<and> free_segmap (fsm w) s \<and> \<not> IS_CURSEG f s" if "dirty_segmap (dsl w) t s" for t s
    proof -
      have t1: "t \<noteq> PRE" using that d(2)[of s] by metis
      then have t: "t \<noteq> PRE" "dirty_segmap (dsl f) t s" using that d(1)[OF t1] by simp_all
      have "dirty_segmap (dsl f) DIRTY s" using t do by (cases t) (auto simp: dirty_ok_def)
      then have "\<not> dirty_segmap (dsl f) PRE s" using po by (auto simp: pre_only_def)
      then show ?thesis using t(2) do fm[of s] by (auto simp: dirty_ok_def)
    qed
    then show ?thesis using do n d unfolding dirty_ok_def by (simp add: e)
  qed
  moreover have "logs_in env {} ?f"
  proof -
    have "log_ok env ?f (curseg f k)" if "inited (curseg f k)" for k
    proof -
      have l: "log_ok env f (curseg f k)" using lg that by (auto simp: logs_in_def)
      have "\<not> dirty_segmap (dsl f) PRE (cs_segno (curseg f k))" using do by (auto simp: dirty_ok_def is_curseg)
      then show ?thesis using l fm by (simp add: log_ok_def e)
    qed
    then show ?thesis using lg by (simp add: logs_in_def)
  qed
  moreover have "free_clean env ?f"
  proof -
    have "\<not> live f s i" if "s < nseg env" "\<not> free_segmap (fsm w) s" "i < nblk env" for s i
    proof (cases "dirty_segmap (dsl f) PRE s")
      case True
      then have "valid_blocks (seg f s) = 0" using do by (simp add: dirty_ok_def)
      then show ?thesis by (rule empty_dead[OF st ck that(1) _ that(3)])
    next
      case False
      then show ?thesis using fc fm[OF that(1)] that by (simp add: free_clean_def)
    qed
    then show ?thesis by (simp add: free_clean_def e)
  qed
  ultimately have "sm_in env {} ?f" using fo by (simp add: sm_in_def)
  then show ?thesis using same_core_sm_in[OF c] by simp
qed

lemma no_small_entries:
  fixes sm :: "'g sm_info"
  assumes "\<not> block_unit_discard env"
  shows "entry_list (flushed_state env opt sm) = entry_list sm"
proof -
  have a: "add_discard_addrs env opt s co q = (False, q)" for s co and q :: "'g sm_info" using assms by (simp add: add_discard_addrs_def Let_def)
  have b: "entry_list (flush_entry env opt s q) = entry_list q" for s and q :: "'g sm_info"
    by (simp add: flush_entry_def Let_def a put_seg_entry_def)
  have "entry_list (fold (flush_entry env opt) xs q) = entry_list q" for xs and q :: "'g sm_info" by (induction xs arbitrary: q) (simp_all add: b)
  moreover have "fold (\<lambda>s q. snd (add_discard_addrs env opt s False q)) xs q = q" for xs and q :: "'g sm_info" by (induction xs arbitrary: q) (simp_all add: a)
  ultimately show ?thesis by (simp add: flushed_state_def Let_def)
qed

text \<open>The options of a checkpoint that do not discard beyond the prefree segments.\<close>

definition cp_ok :: "seg_env \<Rightarrow> cp_opts \<Rightarrow> bool" where
  "cp_ok env opt \<longleftrightarrow>
     (cp_discard opt \<longrightarrow> trim_end opt < nseg env) \<and> (discard_unit_section opt \<and> is_large_section env \<longrightarrow> lfs_mode (geo env))"

lemma write_checkpoint_ok:
  fixes opt :: cp_opts
  assumes g: "seg_geom env" and ok: "sm_in env {} sm" and el: "entry_list sm = []" and dc: "dcc_ok (sm_dcc sm)" and po: "pre_only (dsl sm)"
    and op: "cp_ok env opt"
  defines "w \<equiv> write_checkpoint env opt True sm"
  shows "sm_in env {} w" "pre_only (dsl w)" "entry_list w = []" "dcc_ok (sm_dcc w)"
    "blocks (root (sm_dcc w)) \<subseteq> blocks (root (sm_dcc sm)) \<union> dead_set env w" "\<And>s i. live w s i \<Longrightarrow> live sm s i"
    "\<And>s. cur_valid_map (seg w s) = cur_valid_map (seg sm s)" "all_ckpt env w" "gc_state w = gc_state sm" "sm_bug w = sm_bug sm"
    "\<And>s. s < nseg env \<Longrightarrow> free_segmap (fsm w) s = (free_segmap (fsm sm) s \<and> \<not> dirty_segmap (dsl sm) PRE s)" "\<And>s. \<not> dirty_segmap (dsl w) PRE s"
    "\<And>t. t \<noteq> PRE \<Longrightarrow> dirty_segmap (dsl w) t = dirty_segmap (dsl sm) t" "\<And>s. valid_blocks (seg w s) = valid_blocks (seg sm s)"
proof -
  define f where "f = flushed_state env opt sm"
  define p where "p = set_prefree_as_free_segments env f"
  define v where "v = f2fs_save_inmem_curseg (atgc_enabled opt) env p"
  define c where "c = f2fs_clear_prefree_segments env opt v"
  have w: "w = f2fs_restore_inmem_curseg (atgc_enabled opt) env c"
    by (simp add: w_def write_checkpoint_def flush_eq f_def p_def v_def c_def Let_def)
  have fl: "flushing env sm f" and ck: "all_ckpt env f" using flushed_ok[OF g ok el, of opt] op by (simp_all add: f_def cp_ok_def)
  note F = fl[unfolded flushing_def]
  have okf: "sm_in env {} f" using F by blast
  then have bf: "free_ok env (fsm f)" by (simp add: sm_in_def)
  obtain x where px: "p = f\<lparr>fsm := x\<rparr>" using set_prefree_ok(1)[OF g bf] by (auto simp: p_def)
  have fp: "only_fsm f p" unfolding px by (rule only_fsmI)
  note P = set_prefree_ok(2,3)[OF g bf, folded p_def]
  have li: "logs_inside env f" using okf by (auto simp: logs_inside_def sm_in_def logs_in_def log_ok_def)
  then have lp: "logs_inside env p" by (simp add: logs_inside_def only_fsmD[OF fp])
  note V = save_both[OF g P(1) lp, of "atgc_enabled opt", folded v_def]
  have fv: "only_fsm f v" by (rule only_fsm_trans[OF fp V(1)])
  note ev = only_fsmD[OF fv]
  have sf: "sit_ok env f" and df: "dirty_ok env f" using okf by (simp_all add: sm_in_def)
  have ps: "prefree_start env opt v"
    using sf ck df op by (auto simp: prefree_start_def sit_ok_def all_ckpt_def ev dirty_ok_def cp_ok_def)
  have nv: "\<forall>t. nr_dirty (dsl v) t = int (bits (dirty_segmap (dsl v) t) (nseg env))" using df by (simp add: ev dirty_ok_def)
  have dv: "dcc_ok (sm_dcc v)" using dc F by (simp add: ev)
  have de: "\<forall>e \<in> set (entry_list v). dead_entry env v e" using F by (simp add: ev dead_entry_def)
  have bu: "block_unit_discard env \<or> entry_list v = []" using no_small_entries[of env opt sm] el by (auto simp: ev f_def)
  note C = clear_prefree_ok[OF g ps nv dv de bu, folded c_def]
  note D = C(1)[unfolded drained_def]
  have sc: "same_core (v\<lparr>entry_list := [], dsl := dsl c\<rparr>) c" using D by simp
  have cs: "fsm c = fsm v" "curseg c = curseg f" "gc_state c = gc_state f" "entry_list c = []" "sm_bug c = sm_bug f"
    using D same_coreD(8,10)[OF sc] by (simp_all add: ev)
  have ec: "entry_core (seg c s) = entry_core (seg f s)" for s using sc by (simp add: same_core_def ev)
  have cv: "valid_blocks (seg c s) = valid_blocks (seg f s)" "cur_valid_map (seg c s) = cur_valid_map (seg f s)" "ckpt_valid_map (seg c s) = ckpt_valid_map (seg f s)" for s
    using ec[of s] by (simp_all add: entry_core_def)
  have fc: "free_ok env (fsm c)" "logs_inside env c" using V(2) li by (simp_all add: cs logs_inside_def)
  note R = restore_both[OF g fc, of "atgc_enabled opt", folded w]
  note ew = only_fsmD[OF R(1)]
  have as: "aside (atgc_enabled opt) c s = aside (atgc_enabled opt) p s" for s
    by (rule aside_cong) (simp_all add: cs cv only_fsmD[OF fp])
  have au: "aside (atgc_enabled opt) p s \<Longrightarrow> s < nseg env \<Longrightarrow> free_segmap (fsm p) s" for s
  proof -
    assume a: "aside (atgc_enabled opt) p s" and s: "s < nseg env"
    then obtain k where k: "inited (curseg f k)" "s = cs_segno (curseg f k)" by (auto simp: aside_def put_aside_def only_fsmD[OF fp])
    have "free_segmap (fsm f) s" using okf k by (auto simp: sm_in_def logs_in_def log_ok_def)
    moreover have "\<not> dirty_segmap (dsl f) PRE s" using df k by (auto simp: dirty_ok_def is_curseg)
    ultimately show ?thesis using P(2)[OF s] by simp
  qed
  have fm: "free_segmap (fsm w) s = (free_segmap (fsm f) s \<and> \<not> dirty_segmap (dsl f) PRE s)" if "s < nseg env" for s
    using R(3)[of s] V(3)[of s] P(2)[OF that] as[of s] au[of s] that by (auto simp: cs)
  have wd: "dsl w = dsl c" by (rule ew)
  have wc: "same_core (f\<lparr>fsm := fsm w, dsl := dsl w\<rparr>) w"
    using sc ec by (simp add: same_core_def ew ev cs)
  show okw: "sm_in env {} w"
  proof (rule freed_sm_in[OF okf ck _ wc R(2) fm])
    show "pre_only (dsl f)" using po F by simp
    show "dirty_segmap (dsl w) t = dirty_segmap (dsl f) t" if "t \<noteq> PRE" for t using D that by (simp add: wd ev)
    show "\<not> dirty_segmap (dsl w) PRE s" for s using C(2) by (simp add: wd)
    show "\<forall>t. nr_dirty (dsl w) t = int (bits (dirty_segmap (dsl w) t) (nseg env))" using D by (simp add: wd)
  qed
  show "\<not> dirty_segmap (dsl w) PRE s" for s using C(2) by (simp add: wd)
  then show "pre_only (dsl w)" by (simp add: pre_only_def)
  show "entry_list w = []" "gc_state w = gc_state sm" "sm_bug w = sm_bug sm" using F by (simp_all add: ew cs)
  show "dcc_ok (sm_dcc w)" using D by (simp add: ew)
  have lw: "live w = live f" by (simp add: live_def fun_eq_iff ew cv)
  have "live (v\<lparr>entry_list := []\<rparr>) = live f" using ev(4) by (simp add: live_def fun_eq_iff)
  then have "dead_set env (v\<lparr>entry_list := []\<rparr>) = dead_set env w" by (simp add: dead_set_def dead_blk_def lw)
  then show "blocks (root (sm_dcc w)) \<subseteq> blocks (root (sm_dcc sm)) \<union> dead_set env w" using D F by (simp add: ew ev)
  show "live w s i \<Longrightarrow> live sm s i" for s i using F lw by simp
  show "cur_valid_map (seg w s) = cur_valid_map (seg sm s)" for s using F by (simp add: ew cv)
  show "all_ckpt env w" using ck by (simp add: all_ckpt_def ew cv)
  show "free_segmap (fsm w) s = (free_segmap (fsm sm) s \<and> \<not> dirty_segmap (dsl sm) PRE s)" if "s < nseg env" for s using fm[OF that] F by simp
  show "dirty_segmap (dsl w) t = dirty_segmap (dsl sm) t" if "t \<noteq> PRE" for t using D F that by (simp add: wd ev)
  show "valid_blocks (seg w s) = valid_blocks (seg sm s)" for s using F by (simp add: ew cv)
qed

end
