(* ===== verification/Gc_Victim.thy ===== *)
theory Gc_Victim
  imports Segment Swod_Api "HOL-Library.Signed_Division"
begin

text \<open>
  Victim selection of \<open>gc.c\<close>: the policy, the costs, the search over the dirty bitmap with its
  bookkeeping of the last victim, the age-based selection with its tree of candidates, and the
  preference for the windows of SWOD. \<open>CONFIG_F2FS_CHECK_FS\<close> is off.
\<close>

section \<open>State\<close>

datatype gc_policy = GC_CB | GC_GREEDY | GC_AT

datatype gc_type = BG_GC | FG_GC

text \<open>
  What victim selection keeps: the fields of \<open>struct sit_info\<close> and \<open>struct f2fs_sb_info\<close> that only it
  uses, and \<open>struct atgc_management\<close>. \<open>victims\<close> is the in-order sequence of \<open>am->root\<close> (mtime,
  segment); \<open>am_lean\<close> tells, for a key between two entries, whether the empty place of the key in
  the tree of \<open>lib/rbtree.c\<close> hangs below the smaller one.
\<close>

record gc_info =
  last_victim :: "gc_policy \<Rightarrow> nat"
  next_victim_seg :: "gc_type \<Rightarrow> nat"
  cur_victim_sec :: nat
  max_victim_search :: nat
  min_mtime :: nat
  dirty_min_mtime :: nat
  dirty_max_mtime :: nat
  am_atgc_enabled :: bool
  victims :: "(nat \<times> nat) list"
  am_lean :: "(nat \<times> nat) list \<Rightarrow> nat \<Rightarrow> bool"
  candidate_ratio :: nat
  max_candidate_count :: nat
  age_weight :: nat
  age_threshold :: nat

record victim_sel_policy =
  p_alloc_mode :: alloc_mode
  p_gc_mode :: gc_policy
  p_dirty_bitmap :: bitmap
  p_max_search :: nat
  p_offset :: nat
  p_ofs_unit :: nat
  p_min_cost :: nat
  p_oldest_age :: nat
  p_min_segno :: nat
  p_age :: nat
  p_age_threshold :: nat

abbreviation upd_gc :: "(gc_info \<Rightarrow> gc_info) \<Rightarrow> gc_info sm_info \<Rightarrow> gc_info sm_info" where
  "upd_gc f sm \<equiv> sm\<lparr>gc_state := f (gc_state sm)\<rparr>"

definition ULLONG_MAX :: nat where
  "ULLONG_MAX = 2 ^ 64 - 1"

definition u64i :: "int \<Rightarrow> nat" where
  "u64i x = nat (x mod 2 ^ 64)"

definition u32i :: "int \<Rightarrow> nat" where
  "u32i x = nat (x mod 2 ^ 32)"

definition s64i :: "int \<Rightarrow> int" where
  "s64i x = (x + 2 ^ 63) mod 2 ^ 64 - 2 ^ 63"

section \<open>Policy\<close>

definition select_gc_type :: "seg_env \<Rightarrow> gc_info \<Rightarrow> gc_type \<Rightarrow> gc_policy" where
  "select_gc_type env g gc_type =
     (let gc_mode = (case gc_type of BG_GC \<Rightarrow> if am_atgc_enabled g then GC_AT else GC_CB | FG_GC \<Rightarrow> GC_GREEDY)
      in case sb_gc_mode (geo env) of
           GC_IDLE_CB \<Rightarrow> GC_CB
         | GC_IDLE_GREEDY \<Rightarrow> GC_GREEDY
         | GC_URGENT_HIGH \<Rightarrow> GC_GREEDY
         | GC_IDLE_AT \<Rightarrow> GC_AT
         | _ \<Rightarrow> gc_mode)"

definition count_bits :: "bitmap \<Rightarrow> nat \<Rightarrow> nat \<Rightarrow> nat" where
  "count_bits m offset len = length (filter m [offset..<offset + len])"

text \<open>\<open>select_policy\<close>; the type is that of a log, or \<open>None\<close> for \<open>NO_CHECK_TYPE\<close>.\<close>

definition policy_of_mode :: "seg_env \<Rightarrow> gc_type \<Rightarrow> seg_type option \<Rightarrow> gc_info sm_info \<Rightarrow> victim_sel_policy \<Rightarrow> victim_sel_policy" where
  "policy_of_mode env gc_type type sm p =
     (let d = dsl sm
      in if p_alloc_mode p \<noteq> LFS
         then (let t = (case type of Some t \<Rightarrow> Dirty_log t | None \<Rightarrow> DIRTY)
               in p\<lparr>p_gc_mode := GC_GREEDY, p_dirty_bitmap := dirty_segmap d t, p_max_search := u32i (nr_dirty d t), p_ofs_unit := 1\<rparr>)
         else (let p = p\<lparr>p_gc_mode := select_gc_type env (gc_state sm) gc_type, p_ofs_unit := segs_per_sec (geo env)\<rparr>
               in if is_large_section env
                  then p\<lparr>p_dirty_bitmap := dirty_secmap d, p_max_search := count_bits (dirty_secmap d) 0 (total_sections env)\<rparr>
                  else p\<lparr>p_dirty_bitmap := dirty_segmap d DIRTY, p_max_search := u32i (nr_dirty d DIRTY)\<rparr>))"

definition select_policy :: "seg_env \<Rightarrow> gc_type \<Rightarrow> seg_type option \<Rightarrow> gc_info sm_info \<Rightarrow> victim_sel_policy \<Rightarrow> victim_sel_policy" where
  "select_policy env gc_type type sm p =
     (let p = policy_of_mode env gc_type type sm p; g = gc_state sm;
          p = (if gc_type \<noteq> FG_GC \<and> sb_gc_mode (geo env) \<noteq> GC_URGENT_HIGH \<and> (p_gc_mode p \<noteq> GC_AT \<and> p_alloc_mode p \<noteq> AT_SSR) \<and>
                  p_max_search p > max_victim_search g
               then p\<lparr>p_max_search := max_victim_search g\<rparr> else p)
      in if opt_noheap env \<and> (case type of Some t \<Rightarrow> t = CURSEG_HOT_DATA \<or> IS_NODESEG t | None \<Rightarrow> False)
         then p\<lparr>p_offset := 0\<rparr>
         else p\<lparr>p_offset := last_victim g (p_gc_mode p)\<rparr>)"

definition get_max_cost :: "seg_env \<Rightarrow> victim_sel_policy \<Rightarrow> nat" where
  "get_max_cost env p =
     (case p_alloc_mode p of
        SSR \<Rightarrow> blocks_per_seg (geo env)
      | AT_SSR \<Rightarrow> UINT_MAX
      | LFS \<Rightarrow> (case p_gc_mode p of GC_GREEDY \<Rightarrow> u32 (2 * blocks_per_seg (geo env) * p_ofs_unit p) | _ \<Rightarrow> UINT_MAX))"

section \<open>Costs\<close>

definition sec_usage_check :: "seg_env \<Rightarrow> gc_info sm_info \<Rightarrow> nat \<Rightarrow> bool" where
  "sec_usage_check env sm secno \<longleftrightarrow> IS_CURSEC env sm secno \<or> cur_victim_sec (gc_state sm) = secno"

definition check_bg_victims :: "seg_env \<Rightarrow> gc_info sm_info \<Rightarrow> nat \<times> gc_info sm_info" where
  "check_bg_victims env sm =
     (case find (\<lambda>secno. victim_secmap (dsl sm) secno \<and> \<not> sec_usage_check env sm secno) [0..<total_sections env] of
        Some secno \<Rightarrow> (GET_SEG_FROM_SEC env secno, sm\<lparr>dsl := (dsl sm)\<lparr>victim_secmap := (victim_secmap (dsl sm))(secno := False)\<rparr>\<rparr>)
      | None \<Rightarrow> (NULL_SEGNO, sm))"

definition sum_mtime :: "gc_info sm_info \<Rightarrow> nat \<Rightarrow> nat \<Rightarrow> nat" where
  "sum_mtime sm start n = fold (\<lambda>i m. (m + se_mtime (get_seg_entry sm (start + i))) mod 2 ^ 64) [0..<n] 0"

text \<open>Stretching \<open>[min_mtime, max_mtime]\<close> over a new value.\<close>

definition stretch_mtime :: "nat \<Rightarrow> gc_info sm_info \<Rightarrow> gc_info sm_info" where
  "stretch_mtime mtime sm =
     (let sm = (if mtime < min_mtime (gc_state sm) then upd_gc (\<lambda>g. g\<lparr>min_mtime := mtime\<rparr>) sm else sm)
      in if mtime > max_mtime (sit sm) then sm\<lparr>sit := (sit sm)\<lparr>max_mtime := mtime\<rparr>\<rparr> else sm)"

definition get_cb_cost :: "seg_env \<Rightarrow> nat \<Rightarrow> gc_info sm_info \<Rightarrow> nat \<times> gc_info sm_info" where
  "get_cb_cost env segno sm =
     (let start = GET_SEG_FROM_SEC env (GET_SEC_FROM_SEG env segno);
          n = f2fs_usable_segs_in_sec env segno;
          mtime = sum_mtime sm start n div n;
          vblocks = get_valid_blocks env sm segno True div n;
          u = u32 (vblocks * 100) div 2 ^ log_blocks_per_seg (geo env) mod 256;
          sm = stretch_mtime mtime sm;
          lo = min_mtime (gc_state sm); hi = max_mtime (sit sm);
          age = (if hi \<noteq> lo then u64i (100 - int (u64i (100 * (int mtime - int lo)) div u64i (int hi - int lo))) mod 256 else 0)
      in (u32i (int UINT_MAX - (100 * (100 - int u) * int age) sdiv (100 + int u)), sm))"

text \<open>The cost of a segment: its valid blocks in the last checkpoint, now, or the cost-benefit value.\<close>

definition get_gc_cost :: "seg_env \<Rightarrow> nat \<Rightarrow> victim_sel_policy \<Rightarrow> gc_info sm_info \<Rightarrow> nat \<times> gc_info sm_info" where
  "get_gc_cost env segno p sm =
     (if p_alloc_mode p = SSR then (ckpt_valid_blocks (get_seg_entry sm segno), sm)
      else case p_gc_mode p of
             GC_GREEDY \<Rightarrow> (get_valid_blocks env sm segno True, sm)
           | GC_CB \<Rightarrow> get_cb_cost env segno sm
           | GC_AT \<Rightarrow> (0, bug_on True sm))"

section \<open>Windows of SWOD\<close>

definition swod_wce_enabled :: "discard_cmd_control \<Rightarrow> gc_type \<Rightarrow> bool" where
  "swod_wce_enabled dcc gc_type =
     (if swod dcc = None then False
      else if swod_enable (tun dcc) = 0 \<or> swod_completion_enable (tun dcc) = 0 then False
      else case gc_type of BG_GC \<Rightarrow> swod_gc_bg_enable (tun dcc) \<noteq> 0 | FG_GC \<Rightarrow> swod_gc_fg_enable (tun dcc) \<noteq> 0)"

definition swod_wce_match :: "discard_cmd_control \<Rightarrow> nat \<Rightarrow> nat \<Rightarrow> bool" where
  "swod_wce_match dcc segno nr_segs =
     (if \<not> f2fs_swod_range_wce_target dcc segno nr_segs then False else f2fs_swod_seg_wce_eligible dcc segno)"

definition upd_swod_stats :: "(swod_stats \<Rightarrow> swod_stats) \<Rightarrow> 'g sm_info \<Rightarrow> 'g sm_info" where
  "upd_swod_stats f sm =
     (case swod (sm_dcc sm) of
        None \<Rightarrow> sm
      | Some sw \<Rightarrow> sm\<lparr>sm_dcc := (sm_dcc sm)\<lparr>swod := Some (sw\<lparr>stats := f (stats sw)\<rparr>)\<rparr>\<rparr>)"

definition swod_wce_account_pick :: "gc_type \<Rightarrow> 'g sm_info \<Rightarrow> 'g sm_info" where
  "swod_wce_account_pick gc_type =
     upd_swod_stats (\<lambda>st. case gc_type of BG_GC \<Rightarrow> st\<lparr>gc_pick_bg_cnt := gc_pick_bg_cnt st + 1\<rparr> | FG_GC \<Rightarrow> st\<lparr>gc_pick_fg_cnt := gc_pick_fg_cnt st + 1\<rparr>)"

section \<open>Selection by age\<close>

text \<open>\<open>f2fs_lookup_rb_tree_ext\<close> and the insertion behind it put a new entry after those with the same key.\<close>

definition insert_victim_entry :: "nat \<Rightarrow> nat \<Rightarrow> gc_info sm_info \<Rightarrow> gc_info sm_info" where
  "insert_victim_entry mtime segno sm =
     upd_gc (\<lambda>g. g\<lparr>victims := takeWhile (\<lambda>e. fst e \<le> mtime) (victims g) @ (mtime, segno) # dropWhile (\<lambda>e. fst e \<le> mtime) (victims g)\<rparr>) sm"

definition stretch_dirty_mtime :: "nat \<Rightarrow> gc_info sm_info \<Rightarrow> gc_info sm_info" where
  "stretch_dirty_mtime mtime sm =
     (let sm = (if mtime < dirty_min_mtime (gc_state sm) then upd_gc (\<lambda>g. g\<lparr>dirty_min_mtime := mtime\<rparr>) sm else sm)
      in if mtime > dirty_max_mtime (gc_state sm) then upd_gc (\<lambda>g. g\<lparr>dirty_max_mtime := mtime\<rparr>) sm else sm)"

definition add_victim_entry :: "seg_env \<Rightarrow> victim_sel_policy \<Rightarrow> nat \<Rightarrow> gc_info sm_info \<Rightarrow> gc_info sm_info" where
  "add_victim_entry env p segno sm =
     (if cp_disabled env \<and> p_gc_mode p = GC_AT \<and> get_valid_blocks env sm segno True = 0 then sm
      else
        (let start = GET_SEG_FROM_SEC env (GET_SEC_FROM_SEG env segno);
             mtime = sum_mtime sm start (segs_per_sec (geo env)) div segs_per_sec (geo env);
             sm = stretch_dirty_mtime mtime (stretch_mtime mtime sm)
         in if dirty_max_mtime (gc_state sm) - mtime < p_age_threshold p then sm
            else insert_victim_entry mtime segno sm))"

definition dirty_threshold :: "gc_info \<Rightarrow> nat" where
  "dirty_threshold g = max (max_candidate_count g) (u32 (candidate_ratio g * length (victims g)) div 100)"

definition better :: "nat \<Rightarrow> nat \<Rightarrow> nat \<Rightarrow> victim_sel_policy \<Rightarrow> victim_sel_policy" where
  "better cost age segno p =
     (if cost < p_min_cost p \<or> cost = p_min_cost p \<and> age > p_oldest_age p
      then p\<lparr>p_min_cost := cost, p_oldest_age := age, p_min_segno := segno\<rparr> else p)"

text \<open>The loop of \<open>atgc_lookup_victim\<close> over the nodes from the first on; the last component tells whether a check failed.\<close>

fun atgc_scan ::
    "seg_env \<Rightarrow> gc_info sm_info \<Rightarrow> nat \<Rightarrow> nat \<Rightarrow> nat \<Rightarrow> nat \<Rightarrow> (nat \<times> nat) list \<Rightarrow> victim_sel_policy \<Rightarrow> victim_sel_policy \<times> bool" where
  "atgc_scan env sm accu hi lo iter [] p = (p, False)"
| "atgc_scan env sm accu hi lo iter ((mtime, segno) # ns) p =
     (let w = age_weight (gc_state sm); sec_blocks = BLKS_PER_SEC env; out = (mtime \<ge> hi \<or> mtime < lo);
          age = accu * (hi - mtime) div (hi - lo) * w;
          vblocks = get_valid_blocks env sm segno True;
          u = accu * u32i (int sec_blocks - int vblocks) div sec_blocks * u32i (100 - int w);
          bug = (\<not> out \<and> (vblocks = 0 \<or> vblocks = sec_blocks \<or> age + u \<ge> UINT_MAX));
          p = (if out then p else better (u32i (int UINT_MAX - int (age + u))) age segno p);
          iter = (if out then iter else iter + 1);
          (p', bug') = (if iter < dirty_threshold (gc_state sm) then atgc_scan env sm accu hi lo iter ns p else (p, False))
      in (p', bug \<or> bug'))"

definition DEFAULT_ACCURACY_CLASS :: nat where
  "DEFAULT_ACCURACY_CLASS = 10000"

definition atgc_lookup_victim :: "seg_env \<Rightarrow> gc_info sm_info \<Rightarrow> victim_sel_policy \<Rightarrow> victim_sel_policy \<times> bool" where
  "atgc_lookup_victim env sm p =
     (let hi = dirty_max_mtime (gc_state sm); lo = dirty_min_mtime (gc_state sm)
      in if hi < lo then (p, False)
         else (let accu = min (ULLONG_MAX div (hi + 1 - lo) div 100) DEFAULT_ACCURACY_CLASS
               in atgc_scan env sm accu (hi + 1) lo 0 (victims (gc_state sm)) p))"

text \<open>\<open>lookup_central_victim\<close>: the last node on the path to the key, as a position in the sequence.\<close>

definition central_victim :: "gc_info \<Rightarrow> nat \<Rightarrow> nat option" where
  "central_victim g age =
     (let xs = victims g; k = length (takeWhile (\<lambda>e. fst e \<le> age) xs)
      in if xs = [] then None
         else if k = 0 then Some 0
         else if k = length xs \<or> am_lean g xs age then Some (k - 1)
         else Some k)"

text \<open>One stage of \<open>atssr_lookup_victim\<close> along the nodes it visits.\<close>

fun atssr_scan :: "seg_env \<Rightarrow> gc_info sm_info \<Rightarrow> nat \<Rightarrow> nat \<Rightarrow> nat \<Rightarrow> (nat \<times> nat) list \<Rightarrow> victim_sel_policy \<Rightarrow> victim_sel_policy \<times> bool" where
  "atssr_scan env sm hi lo iter [] p = (p, False)"
| "atssr_scan env sm hi lo iter ((mtime, segno) # ns) p =
     (let out = (mtime \<ge> hi \<or> mtime < lo);
          vblocks = ckpt_valid_blocks (get_seg_entry sm segno);
          bug = (\<not> out \<and> vblocks = 0);
          skip = (out \<or> vblocks = blocks_per_seg (geo env));
          age = u64i (int hi - abs (s64i (int (p_age p) - int (hi - mtime))));
          p = (if skip then p else better (UINT_MAX - vblocks) age segno p);
          iter = (if skip then iter else iter + 1);
          (p', bug') = (if iter < dirty_threshold (gc_state sm) then atssr_scan env sm hi lo iter ns p else (p, False))
      in (p', bug \<or> bug'))"

definition atssr_lookup_victim :: "seg_env \<Rightarrow> gc_info sm_info \<Rightarrow> victim_sel_policy \<Rightarrow> victim_sel_policy \<times> bool" where
  "atssr_lookup_victim env sm p =
     (let g = gc_state sm; hi = dirty_max_mtime g; lo = dirty_min_mtime g
      in if hi < lo then (p, False)
         else case central_victim g (p_age p) of
                None \<Rightarrow> (p, False)
              | Some k \<Rightarrow>
                  (let (p, bug) = atssr_scan env sm (hi + 1) lo 0 (rev (take (k + 1) (victims g))) p;
                       (p, bug') = atssr_scan env sm (hi + 1) lo 0 (drop k (victims g)) p
                   in (p, bug \<or> bug')))"

definition release_victim_entry :: "gc_info sm_info \<Rightarrow> gc_info sm_info" where
  "release_victim_entry sm = upd_gc (\<lambda>g. g\<lparr>victims := []\<rparr>) sm"

definition lookup_victim_by_age :: "seg_env \<Rightarrow> victim_sel_policy \<Rightarrow> gc_info sm_info \<Rightarrow> victim_sel_policy \<times> gc_info sm_info" where
  "lookup_victim_by_age env p sm =
     (let (p, bug) = (if p_gc_mode p = GC_AT then atgc_lookup_victim env sm p
                      else if p_alloc_mode p = AT_SSR then atssr_lookup_victim env sm p
                      else (p, True))
      in (p, bug_on bug sm))"

section \<open>The search\<close>

text \<open>
  The body of the search loop for the dirty unit at \<open>segno\<close>, up to label \<open>next\<close>. \<open>target\<close> is
  \<open>swod_target_pass\<close>. Result: the policy, the number of candidates searched and the state.
\<close>

definition skip_victim :: "seg_env \<Rightarrow> gc_type \<Rightarrow> victim_sel_policy \<Rightarrow> nat \<Rightarrow> gc_info sm_info \<Rightarrow> bool" where
  "skip_victim env gc_type p segno sm \<longleftrightarrow>
     (let secno = GET_SEC_FROM_SEG env segno
      in sec_usage_check env sm secno \<or>
         cp_disabled env \<and> (if p_alloc_mode p = LFS then get_ckpt_valid_blocks env sm segno True \<noteq> 0 else \<not> f2fs_segment_has_free_slot env sm segno) \<or>
         gc_type = BG_GC \<and> victim_secmap (dsl sm) secno)"

definition try_victim :: "seg_env \<Rightarrow> bool \<Rightarrow> victim_sel_policy \<Rightarrow> nat \<Rightarrow> gc_info sm_info \<Rightarrow> victim_sel_policy \<times> gc_info sm_info" where
  "try_victim env is_atgc p segno sm =
     (if is_atgc then (p, add_victim_entry env p segno sm)
      else (let (cost, sm) = get_gc_cost env segno p sm
            in (if p_min_cost p > cost then p\<lparr>p_min_segno := segno, p_min_cost := cost\<rparr> else p, sm)))"

definition consider_victim ::
    "seg_env \<Rightarrow> gc_type \<Rightarrow> bool \<Rightarrow> bool \<Rightarrow> nat \<Rightarrow> victim_sel_policy \<Rightarrow> nat \<Rightarrow> gc_info sm_info \<Rightarrow> victim_sel_policy \<times> nat \<times> gc_info sm_info" where
  "consider_victim env gc_type target is_atgc segno p nsearched sm =
     (if skip_victim env gc_type p segno sm then (p, nsearched, sm)
      else if target \<and> \<not> swod_wce_match (sm_dcc sm) segno (p_ofs_unit p) then (p, nsearched, sm)
      else (let (p, sm) = try_victim env is_atgc p segno sm in (p, if target then nsearched + 1 else nsearched, sm)))"

text \<open>The end of a search that has used up its budget: where the next one starts.\<close>

definition note_last_victim :: "seg_env \<Rightarrow> victim_sel_policy \<Rightarrow> nat \<Rightarrow> nat \<Rightarrow> gc_info sm_info \<Rightarrow> gc_info sm_info" where
  "note_last_victim env p prev segno sm =
     (let m = p_gc_mode p; lv = last_victim (gc_state sm);
          v = (if lv m = 0 \<and> segno \<le> prev then prev + p_ofs_unit p else segno + p_ofs_unit p)
      in upd_gc (\<lambda>g. g\<lparr>last_victim := lv(m := v mod (total_sections env * segs_per_sec (geo env)))\<rparr>) sm)"

text \<open>
  The \<open>while (1)\<close> loop: \<open>prev\<close> is the local \<open>last_victim\<close>, \<open>last_segment\<close> where the search ends. \<open>None\<close>: out of fuel.
\<close>

fun victim_loop ::
    "nat \<Rightarrow> seg_env \<Rightarrow> gc_type \<Rightarrow> bool \<Rightarrow> bool \<Rightarrow> nat \<Rightarrow> nat \<Rightarrow> victim_sel_policy \<Rightarrow> nat \<Rightarrow> gc_info sm_info \<Rightarrow>
     (nat \<times> victim_sel_policy \<times> gc_info sm_info) option" where
  "victim_loop 0 env gc_type target is_atgc prev last_segment p nsearched sm = None"
| "victim_loop (Suc k) env gc_type target is_atgc prev last_segment p nsearched sm =
     (let unit_no = find_next_bit (p_dirty_bitmap p) (last_segment div p_ofs_unit p) (p_offset p div p_ofs_unit p);
          segno = unit_no * p_ofs_unit p;
          lv = last_victim (gc_state sm)
      in if segno \<ge> last_segment
         then (if lv (p_gc_mode p) \<noteq> 0
               then victim_loop k env gc_type target is_atgc prev (lv (p_gc_mode p)) (p\<lparr>p_offset := 0\<rparr>) nsearched
                      (upd_gc (\<lambda>g. g\<lparr>last_victim := lv(p_gc_mode p := 0)\<rparr>) sm)
               else Some (last_segment, p, sm))
         else
           (let (p, nsearched, sm) = consider_victim env gc_type target is_atgc segno (p\<lparr>p_offset := segno + p_ofs_unit p\<rparr>)
                  (if target then nsearched else nsearched + 1) sm
            in if nsearched \<ge> p_max_search p then Some (last_segment, p, note_last_victim env p prev segno sm)
               else victim_loop k env gc_type target is_atgc prev last_segment p nsearched sm))"

datatype victim_ret = V_0 | ENODATA | EBUSY

datatype victim_exit = V_out victim_ret | V_got_result | V_got_it | V_scanned

text \<open>
  The shortcuts before the search: a segment the caller names, an empty list, the next victims
  that were set by hand, and the sections chosen by background GC before.
\<close>

definition take_next_victim :: "gc_type \<Rightarrow> bool \<Rightarrow> victim_sel_policy \<Rightarrow> gc_type \<Rightarrow> gc_info sm_info \<Rightarrow> (victim_sel_policy \<times> gc_info sm_info) option" where
  "take_next_victim gc_type target p which sm =
     (let v = next_victim_seg (gc_state sm) which
      in if (which = FG_GC \<longrightarrow> gc_type = FG_GC) \<and> v \<noteq> NULL_SEGNO \<and> (\<not> target \<or> swod_wce_match (sm_dcc sm) v (p_ofs_unit p))
         then Some (p\<lparr>p_min_segno := v\<rparr>, upd_gc (\<lambda>g. g\<lparr>next_victim_seg := (next_victim_seg g)(which := NULL_SEGNO)\<rparr>) sm)
         else None)"

definition next_victims :: "seg_env \<Rightarrow> gc_type \<Rightarrow> bool \<Rightarrow> victim_sel_policy \<Rightarrow> gc_info sm_info \<Rightarrow> (victim_sel_policy \<times> gc_info sm_info) option" where
  "next_victims env gc_type target p sm =
     (if is_large_section env \<and> p_alloc_mode p = LFS
      then (case take_next_victim gc_type target p BG_GC sm of
              Some r \<Rightarrow> Some r
            | None \<Rightarrow> take_next_victim gc_type target p FG_GC sm)
      else None)"

definition bg_victims :: "seg_env \<Rightarrow> gc_type \<Rightarrow> bool \<Rightarrow> victim_sel_policy \<Rightarrow> gc_info sm_info \<Rightarrow> bool \<times> victim_sel_policy \<times> gc_info sm_info" where
  "bg_victims env gc_type target p sm =
     (if p_alloc_mode p = LFS \<and> gc_type = FG_GC
      then (let (v, sm) = check_bg_victims env sm
            in if v \<noteq> NULL_SEGNO \<and> (\<not> target \<or> swod_wce_match (sm_dcc sm) v (p_ofs_unit p)) then (True, p\<lparr>p_min_segno := v\<rparr>, sm)
               else (False, p\<lparr>p_min_segno := NULL_SEGNO\<rparr>, sm))
      else (False, p, sm))"

text \<open>One pass from label \<open>retry\<close> to the lookup by age.\<close>

definition scan_pass ::
    "nat \<Rightarrow> seg_env \<Rightarrow> gc_type \<Rightarrow> bool \<Rightarrow> bool \<Rightarrow> nat \<Rightarrow> victim_sel_policy \<Rightarrow> gc_info sm_info \<Rightarrow>
     (victim_exit \<times> nat \<times> victim_sel_policy \<times> gc_info sm_info) option" where
  "scan_pass fuel env gc_type target is_atgc last_segment p sm =
     (let prev = last_victim (gc_state sm) (p_gc_mode p); (got, p, sm) = bg_victims env gc_type target p sm
      in if got then Some (V_got_it, last_segment, p, sm)
         else case victim_loop fuel env gc_type target is_atgc prev last_segment p 0 sm of
                None \<Rightarrow> None
              | Some (last_segment, p, sm) \<Rightarrow>
                  (let (p, sm) = (if is_atgc then (let (p, sm) = lookup_victim_by_age env p sm in (p, release_victim_entry sm)) else (p, sm))
                   in Some (V_scanned, last_segment, p, sm)))"

definition victim_pass ::
    "nat \<Rightarrow> seg_env \<Rightarrow> gc_type \<Rightarrow> seg_type option \<Rightarrow> nat \<Rightarrow> bool \<Rightarrow> nat \<Rightarrow> victim_sel_policy \<Rightarrow> gc_info sm_info \<Rightarrow>
     (victim_exit \<times> nat \<times> victim_sel_policy \<times> gc_info sm_info) option" where
  "victim_pass fuel env gc_type type result target last_segment p sm =
     (let p = select_policy env gc_type type sm p;
          p = p\<lparr>p_min_segno := NULL_SEGNO, p_oldest_age := 0\<rparr>;
          p = p\<lparr>p_min_cost := get_max_cost env p\<rparr>;
          is_atgc = (p_gc_mode p = GC_AT \<or> p_alloc_mode p = AT_SSR);
          sm = (if is_atgc then upd_gc (\<lambda>g. g\<lparr>dirty_min_mtime := ULLONG_MAX\<rparr>) sm else sm)
      in if result \<noteq> NULL_SEGNO
         then (if get_valid_blocks env sm result False = 0 then Some (V_out ENODATA, last_segment, p, sm)
               else if sec_usage_check env sm (GET_SEC_FROM_SEG env result) then Some (V_out EBUSY, last_segment, p, sm)
               else Some (V_out V_0, last_segment, p\<lparr>p_min_segno := result\<rparr>, sm))
         else if p_max_search p = 0 then Some (V_out ENODATA, last_segment, p, sm)
         else case next_victims env gc_type target p sm of
                Some (p, sm) \<Rightarrow> Some (V_got_result, last_segment, p, sm)
              | None \<Rightarrow> scan_pass fuel env gc_type target is_atgc last_segment p sm)"

text \<open>The end at labels \<open>got_it\<close> and \<open>got_result\<close>.\<close>

definition got_victim :: "seg_env \<Rightarrow> gc_type \<Rightarrow> bool \<Rightarrow> victim_sel_policy \<Rightarrow> gc_info sm_info \<Rightarrow> gc_info sm_info" where
  "got_victim env gc_type target p sm =
     (let sm = (if target then swod_wce_account_pick gc_type sm else sm); secno = GET_SEC_FROM_SEG env (p_min_segno p)
      in if p_alloc_mode p = LFS
         then (case gc_type of
                 FG_GC \<Rightarrow> upd_gc (\<lambda>g. g\<lparr>cur_victim_sec := secno\<rparr>) sm
               | BG_GC \<Rightarrow> sm\<lparr>dsl := (dsl sm)\<lparr>victim_secmap := (victim_secmap (dsl sm))(secno := True)\<rparr>\<rparr>)
         else sm)"

text \<open>The passes: at most one more without the age threshold, and at most one more without SWOD.\<close>

fun victim_passes ::
    "nat \<Rightarrow> nat \<Rightarrow> seg_env \<Rightarrow> gc_type \<Rightarrow> seg_type option \<Rightarrow> nat \<Rightarrow> bool \<Rightarrow> nat \<Rightarrow> victim_sel_policy \<Rightarrow> gc_info sm_info \<Rightarrow>
     (victim_ret \<times> nat \<times> gc_info sm_info) option" where
  "victim_passes 0 fuel env gc_type type result target last_segment p sm = None"
| "victim_passes (Suc n) fuel env gc_type type result target last_segment p sm =
     (case victim_pass fuel env gc_type type result target last_segment p sm of
        None \<Rightarrow> None
      | Some (V_out r, _, p, sm) \<Rightarrow> Some (r, result, sm)
      | Some (V_got_result, _, p, sm) \<Rightarrow> Some (V_0, p_min_segno p, got_victim env gc_type target p sm)
      | Some (V_got_it, _, p, sm) \<Rightarrow> Some (V_0, p_min_segno p div p_ofs_unit p * p_ofs_unit p, got_victim env gc_type target p sm)
      | Some (V_scanned, last_segment, p, sm) \<Rightarrow>
          (if (p_gc_mode p = GC_AT \<or> p_alloc_mode p = AT_SSR) \<and> p_min_segno p = NULL_SEGNO \<and> elapsed_time (sit sm) < p_age_threshold p
           then victim_passes n fuel env gc_type type result target last_segment (p\<lparr>p_age_threshold := 0\<rparr>) sm
           else if p_min_segno p = NULL_SEGNO \<and> target
           then victim_passes n fuel env gc_type type result False last_segment p
                  (upd_swod_stats (\<lambda>st. st\<lparr>gc_fallback_cnt := gc_fallback_cnt st + 1\<rparr>) sm)
           else if p_min_segno p \<noteq> NULL_SEGNO
           then Some (V_0, p_min_segno p div p_ofs_unit p * p_ofs_unit p, got_victim env gc_type target p sm)
           else Some (ENODATA, result, sm)))"

definition get_victim_by_default ::
    "nat \<Rightarrow> seg_env \<Rightarrow> nat \<Rightarrow> gc_type \<Rightarrow> seg_type option \<Rightarrow> alloc_mode \<Rightarrow> nat \<Rightarrow> gc_info sm_info \<Rightarrow> (victim_ret \<times> nat \<times> gc_info sm_info) option" where
  "get_victim_by_default fuel env result gc_type type mode age sm =
     victim_passes 3 fuel env gc_type type result
       (mode = LFS \<and> swod_wce_enabled (sm_dcc sm) gc_type \<and> f2fs_swod_has_wce_target (sm_dcc sm))
       (total_sections env * segs_per_sec (geo env))
       \<lparr>p_alloc_mode = mode, p_gc_mode = GC_GREEDY, p_dirty_bitmap = (\<lambda>_. False), p_max_search = 0, p_offset = 0, p_ofs_unit = 1,
        p_min_cost = 0, p_oldest_age = 0, p_min_segno = NULL_SEGNO, p_age = age, p_age_threshold = age_threshold (gc_state sm)\<rparr> sm"

text \<open>
  The call of \<open>get_ssr_segment\<close>. Every unit of the bitmap is visited at most once before and once
  after the search wraps around, so that twice the number of segments is enough fuel.
\<close>

definition ssr_victim :: "gc_info victim_fn" where
  "ssr_victim env t mode age sm =
     (case get_victim_by_default (2 * MAIN_SEGS (geo env) + 3) env NULL_SEGNO BG_GC (Some t) mode age sm of
        Some (V_0, segno, sm) \<Rightarrow> (Some segno, sm)
      | Some (_, _, sm) \<Rightarrow> (None, sm)
      | None \<Rightarrow> (None, sm))"

end
