(* ===== verification/Gc_Ssr.thy ===== *)
theory Gc_Ssr
  imports Gc_Victim Segment_Alloc
begin

text \<open>
  Victim selection for the allocator: called for \<open>SSR\<close> or \<open>AT_SSR\<close> it always ends, changes only
  its own state, and what it returns is a dirty segment of the log with a free slot. This is the
  contract the allocator relies on.
\<close>

definition gc_ok :: "seg_env \<Rightarrow> gc_info \<Rightarrow> bool" where
  "gc_ok env g \<longleftrightarrow> victims g = []"

section \<open>Steps of the search\<close>

text \<open>A policy for the dirty segments of a log.\<close>

definition ssr_policy :: "seg_env \<Rightarrow> bitmap \<Rightarrow> nat \<Rightarrow> alloc_mode \<Rightarrow> victim_sel_policy \<Rightarrow> bool" where
  "ssr_policy env m th mode p \<longleftrightarrow>
     p_alloc_mode p = mode \<and> p_gc_mode p = GC_GREEDY \<and> p_dirty_bitmap p = m \<and> p_ofs_unit p = 1 \<and> p_age_threshold p = th \<and> (mode = SSR \<longrightarrow> p_min_cost p \<le> nblk env)"

definition good_victim :: "seg_env \<Rightarrow> gc_info sm_info \<Rightarrow> bitmap \<Rightarrow> nat \<Rightarrow> bool" where
  "good_victim env sm m s \<longleftrightarrow> m s \<and> ckpt_valid_blocks (seg sm s) \<noteq> nblk env"

definition searching :: "seg_env \<Rightarrow> gc_info sm_info \<Rightarrow> bitmap \<Rightarrow> nat \<Rightarrow> alloc_mode \<Rightarrow> victim_sel_policy \<Rightarrow> gc_info sm_info \<Rightarrow> bool" where
  "searching env sm0 m th mode p sm \<longleftrightarrow>
     gc_moved sm0 sm \<and> ((\<forall>s. m s \<longrightarrow> 0 < ckpt_valid_blocks (seg sm0 s)) \<longrightarrow> sm_bug sm = sm_bug sm0) \<and> (\<forall>e \<in> set (victims (gc_state sm)). m (snd e)) \<and> (mode \<noteq> AT_SSR \<longrightarrow> victims (gc_state sm) = []) \<and> ssr_policy env m th mode p \<and>
     (p_min_segno p = NULL_SEGNO \<or> good_victim env sm0 m (p_min_segno p))"

lemma gc_only_moved: "gc_moved sm (upd_gc f sm)" "gc_moved sm (sm\<lparr>sit := (sit sm)\<lparr>max_mtime := y\<rparr>\<rparr>)"
  unfolding gc_moved_def
   apply (rule exI[of _ "f (gc_state sm)"], rule exI[of _ "max_mtime (sit sm)"], rule exI[of _ "sm_bug sm"], simp)
  apply (rule exI[of _ "gc_state sm"], rule exI[of _ y], rule exI[of _ "sm_bug sm"], simp)
  done

lemma stretch_facts:
  "gc_moved sm (stretch_mtime x sm)" "sm_bug (stretch_mtime x sm) = sm_bug sm"
  "victims (gc_state (stretch_mtime x sm)) = victims (gc_state sm)" "last_victim (gc_state (stretch_mtime x sm)) = last_victim (gc_state sm)"
  "gc_moved sm (stretch_dirty_mtime x sm)" "sm_bug (stretch_dirty_mtime x sm) = sm_bug sm"
  "victims (gc_state (stretch_dirty_mtime x sm)) = victims (gc_state sm)" "last_victim (gc_state (stretch_dirty_mtime x sm)) = last_victim (gc_state sm)"
proof -
  have g: "gc_moved a (if b then upd_gc f a else a)" "gc_moved a (if b then a\<lparr>sit := (sit a)\<lparr>max_mtime := x\<rparr>\<rparr> else a)" for a b f
    using gc_only_moved by simp_all
  show "gc_moved sm (stretch_mtime x sm)" unfolding stretch_mtime_def Let_def by (rule gc_moved_trans[OF g(1) g(2)])
  show "gc_moved sm (stretch_dirty_mtime x sm)" unfolding stretch_dirty_mtime_def Let_def by (rule gc_moved_trans[OF g(1) g(1)])
qed (simp_all add: stretch_mtime_def stretch_dirty_mtime_def Let_def)

lemma add_victim_facts:
  fixes sm :: "gc_info sm_info"
  shows "gc_moved sm (add_victim_entry env p s sm)" "sm_bug (add_victim_entry env p s sm) = sm_bug sm"
    "last_victim (gc_state (add_victim_entry env p s sm)) = last_victim (gc_state sm)"
    "set (victims (gc_state (add_victim_entry env p s sm))) \<subseteq> set (victims (gc_state sm)) \<union> UNIV \<times> {s}"
proof -
  define x where "x = sum_mtime sm (GET_SEG_FROM_SEC env (GET_SEC_FROM_SEG env s)) (segs_per_sec (geo env)) div segs_per_sec (geo env)"
  define q where "q = stretch_dirty_mtime x (stretch_mtime x sm)"
  have q: "gc_moved sm q" "sm_bug q = sm_bug sm" "victims (gc_state q) = victims (gc_state sm)" "last_victim (gc_state q) = last_victim (gc_state sm)"
    unfolding q_def using gc_moved_trans[OF stretch_facts(1) stretch_facts(5)] by (simp_all add: stretch_facts)
  have "add_victim_entry env p s sm = sm \<or> add_victim_entry env p s sm = q \<or> add_victim_entry env p s sm = insert_victim_entry x s q"
    by (simp add: add_victim_entry_def Let_def x_def[symmetric] q_def[symmetric])
  moreover have "gc_moved sm (insert_victim_entry x s q)" unfolding insert_victim_entry_def by (rule gc_moved_trans[OF q(1) gc_only_moved(1)])
  moreover have "set (victims (gc_state (insert_victim_entry x s q))) \<subseteq> set (victims (gc_state sm)) \<union> UNIV \<times> {s}"
    using set_takeWhileD set_dropWhileD by (fastforce simp: insert_victim_entry_def q(3))
  moreover have "sm_bug (insert_victim_entry x s q) = sm_bug sm" "last_victim (gc_state (insert_victim_entry x s q)) = last_victim (gc_state sm)"
    by (simp_all add: insert_victim_entry_def q)
  ultimately show "gc_moved sm (add_victim_entry env p s sm)" "sm_bug (add_victim_entry env p s sm) = sm_bug sm"
    "last_victim (gc_state (add_victim_entry env p s sm)) = last_victim (gc_state sm)"
    "set (victims (gc_state (add_victim_entry env p s sm))) \<subseteq> set (victims (gc_state sm)) \<union> UNIV \<times> {s}"
    using q by (metis gc_moved_refl sup_ge1)+
qed

lemma consider_ok:
  assumes g: "seg_geom env" and q: "searching env sm0 m th mode p sm" and md: "mode \<noteq> LFS" and s: "m s"
    and r: "consider_victim env BG_GC False (mode = AT_SSR) s p ns sm = (p', ns', sm')"
  shows "searching env sm0 m th mode p' sm'" "last_victim (gc_state sm') = last_victim (gc_state sm)" "p_offset p' = p_offset p" "ns' = ns"
    "p_max_search p' = p_max_search p"
proof -
  have mv: "gc_moved sm0 sm" and pol: "ssr_policy env m th mode p" using q by (simp_all add: searching_def)
  consider (skip) "p' = p" "sm' = sm" "ns' = ns" | (cand) "try_victim env (mode = AT_SSR) p s sm = (p', sm')" "ns' = ns"
    using r by (auto simp: consider_victim_def split: if_splits prod.splits)
  then have "searching env sm0 m th mode p' sm' \<and> last_victim (gc_state sm') = last_victim (gc_state sm) \<and> p_offset p' = p_offset p \<and> ns' = ns \<and> p_max_search p' = p_max_search p"
  proof cases
    case skip
    then show ?thesis using q by simp
  next
    case cand
    show ?thesis
    proof (cases "mode = AT_SSR")
      case True
      then have e: "p' = p" "sm' = add_victim_entry env p s sm" using cand by (auto simp: try_victim_def)
      note f = add_victim_facts[where env = env and p = p and s = s and sm = sm, folded e(2)]
      have "m (snd x)" if x: "x \<in> set (victims (gc_state sm'))" for x
      proof (cases "x \<in> set (victims (gc_state sm))")
        case True
        then show ?thesis using q by (simp add: searching_def)
      next
        case False
        then have "snd x = s" using f(4) x by auto
        then show ?thesis using s by simp
      qed
      then have "searching env sm0 m th mode p' sm'" using q f(2) gc_moved_trans[OF mv f(1)] e(1) True by (simp add: searching_def)
      then show ?thesis using cand(2) f(3) e(1) by simp
    next
      case False
      then have ssr: "mode = SSR" using md by (cases mode) auto
      have cost: "get_gc_cost env s p sm = (ckpt_valid_blocks (seg sm0 s), sm)"
        using pol ssr gc_movedD(4)[OF mv] by (simp add: get_gc_cost_def ssr_policy_def)
      have e: "sm' = sm" "p' = (if p_min_cost p > ckpt_valid_blocks (seg sm0 s) then p\<lparr>p_min_segno := s, p_min_cost := ckpt_valid_blocks (seg sm0 s)\<rparr> else p)"
        using cand(1) False cost by (auto simp: try_victim_def)
      have "p_min_cost p \<le> nblk env" using pol ssr by (simp add: ssr_policy_def)
      then show ?thesis using q s cand(2) ssr unfolding e by (auto simp: searching_def ssr_policy_def good_victim_def)
    qed
  qed
  then show "searching env sm0 m th mode p' sm'" "last_victim (gc_state sm') = last_victim (gc_state sm)" "p_offset p' = p_offset p" "ns' = ns"
    "p_max_search p' = p_max_search p" by blast+
qed

lemma searching_gc:
  assumes "searching env sm0 m th mode p sm" "victims (f (gc_state sm)) = victims (gc_state sm)"
  shows "searching env sm0 m th mode p (upd_gc f sm)"
  using assms gc_moved_trans[of sm0 sm "upd_gc f sm"] gc_only_moved(1)[of sm f] by (simp add: searching_def)

lemma victim_loop_ok:
  assumes g: "seg_geom env" and md: "mode \<noteq> LFS" and bd: "\<And>s. m s \<Longrightarrow> s < nseg env"
  shows "searching env sm0 m th mode p sm \<Longrightarrow>
    (nseg env - p_offset p) + (if last_victim (gc_state sm) GC_GREEDY \<noteq> 0 then nseg env + 1 else 0) < k \<Longrightarrow>
    \<exists>ls' p' sm'. victim_loop k env BG_GC False (mode = AT_SSR) prev ls p ns sm = Some (ls', p', sm') \<and> searching env sm0 m th mode p' sm'"
proof (induction k arbitrary: ls p ns sm)
  case (Suc k)
  have pol: "p_gc_mode p = GC_GREEDY" "p_dirty_bitmap p = m" "p_ofs_unit p = 1" using Suc.prems(1) by (simp_all add: searching_def ssr_policy_def)
  let ?lv = "last_victim (gc_state sm)"
  define s where "s = find_next_bit m ls (p_offset p)"
  show ?case
  proof (cases "s \<ge> ls")
    case True
    show ?thesis
    proof (cases "?lv GC_GREEDY \<noteq> 0")
      case t: True
      let ?q = "upd_gc (\<lambda>g. g\<lparr>last_victim := ?lv(GC_GREEDY := 0)\<rparr>) sm"
      have "searching env sm0 m th mode (p\<lparr>p_offset := 0\<rparr>) ?q" using searching_gc[OF Suc.prems(1)] by (simp add: searching_def ssr_policy_def)
      moreover have "(nseg env - p_offset (p\<lparr>p_offset := 0\<rparr>)) + (if last_victim (gc_state ?q) GC_GREEDY \<noteq> 0 then nseg env + 1 else 0) < k"
        using Suc.prems(2) t by simp
      ultimately show ?thesis using Suc.IH[of "p\<lparr>p_offset := 0\<rparr>" ?q "?lv GC_GREEDY" ns] True t pol by (simp add: s_def[symmetric] Let_def)
    next
      case False
      then show ?thesis using True pol Suc.prems(1) by (simp add: s_def[symmetric])
    qed
  next
    case False
    have ms: "m s" "p_offset p \<le> s" using find_next_bit_less[of m ls "p_offset p"] False by (simp_all add: s_def)
    have "searching env sm0 m th mode (p\<lparr>p_offset := s + 1\<rparr>) sm" using Suc.prems(1) by (simp add: searching_def ssr_policy_def)
    note c = consider_ok[OF g this md ms(1)]
    obtain p' ns' sm' where r: "consider_victim env BG_GC False (mode = AT_SSR) s (p\<lparr>p_offset := s + 1\<rparr>) (ns + 1) sm = (p', ns', sm')" by (metis prod_cases3)
    note c = c[OF r]
    have e: "victim_loop (Suc k) env BG_GC False (mode = AT_SSR) prev ls p ns sm =
       (if ns' \<ge> p_max_search p' then Some (ls, p', note_last_victim env p' prev s sm') else victim_loop k env BG_GC False (mode = AT_SSR) prev ls p' ns' sm')"
      using False r pol by (simp add: s_def[symmetric] del: One_nat_def)
    show ?thesis
    proof (cases "ns' \<ge> p_max_search p'")
      case True
      have "searching env sm0 m th mode p' (note_last_victim env p' prev s sm')"
        unfolding note_last_victim_def Let_def by (rule searching_gc[OF c(1)]) simp
      then show ?thesis unfolding e using True by simp
    next
      case f: False
      have "(nseg env - p_offset p') + (if last_victim (gc_state sm') GC_GREEDY \<noteq> 0 then nseg env + 1 else 0) < k"
        using Suc.prems(2) c(2,3) ms bd[OF ms(1)] by (auto split: if_splits)
      from Suc.IH[OF c(1) this] show ?thesis unfolding e using f by simp
    qed
  qed
qed simp

section \<open>Selection by age\<close>

lemma atssr_scan_ok:
  assumes "atssr_scan env sm hi lo iter es p = (p', bug)"
  shows "(p_alloc_mode p', p_gc_mode p', p_ofs_unit p', p_age_threshold p', p_dirty_bitmap p') =
         (p_alloc_mode p, p_gc_mode p, p_ofs_unit p, p_age_threshold p, p_dirty_bitmap p) \<and>
    (p_min_segno p' = p_min_segno p \<or> (\<exists>e \<in> set es. p_min_segno p' = snd e \<and> ckpt_valid_blocks (seg sm (snd e)) \<noteq> nblk env)) \<and>
    (bug \<longrightarrow> (\<exists>e \<in> set es. ckpt_valid_blocks (seg sm (snd e)) = 0))"
  using assms
proof (induction es arbitrary: iter p p' bug)
  case (Cons e es)
  obtain mt s where e: "e = (mt, s)" by (metis surj_pair)
  define out where "out \<longleftrightarrow> mt \<ge> hi \<or> mt < lo"
  define vb where "vb = ckpt_valid_blocks (seg sm s)"
  define skip where "skip \<longleftrightarrow> out \<or> vb = nblk env"
  define q where "q = (if skip then p else better (UINT_MAX - vb) (u64i (int hi - abs (s64i (int (p_age p) - int (hi - mt))))) s p)"
  define it where "it = (if skip then iter else iter + 1)"
  define rr where "rr = (if it < dirty_threshold (gc_state sm) then atssr_scan env sm hi lo it es q else (q, False))"
  have r: "p' = fst rr" "bug \<longleftrightarrow> \<not> out \<and> vb = 0 \<or> snd rr"
    using Cons.prems unfolding e atssr_scan.simps Let_def get_seg out_def[symmetric] vb_def[symmetric] skip_def[symmetric] q_def[symmetric] it_def[symmetric] rr_def[symmetric]
    by (simp_all add: case_prod_unfold)
  have q: "(p_alloc_mode q, p_gc_mode q, p_ofs_unit q, p_age_threshold q, p_dirty_bitmap q) =
      (p_alloc_mode p, p_gc_mode p, p_ofs_unit p, p_age_threshold p, p_dirty_bitmap p)"
    "p_min_segno q = p_min_segno p \<or> p_min_segno q = s \<and> vb \<noteq> nblk env"
    by (auto simp: q_def better_def skip_def)
  show ?case
  proof (cases "it < dirty_threshold (gc_state sm)")
    case True
    then have "atssr_scan env sm hi lo it es q = (p', snd rr)" using r(1) by (simp add: rr_def)
    note IH = Cons.IH[OF this]
    show ?thesis using IH q r(2) by (auto simp: e vb_def)
  next
    case False
    then have "p' = q" "\<not> snd rr" using r(1) by (simp_all add: rr_def)
    then show ?thesis using q r(2) by (auto simp: e vb_def)
  qed
qed simp

lemma lookup_by_age_ok:
  assumes q: "searching env sm0 m th AT_SSR p sm" and r: "lookup_victim_by_age env p sm = (p', sm')"
  shows "gc_moved sm0 sm'" "ssr_policy env m th AT_SSR p'" "p_min_segno p' = NULL_SEGNO \<or> good_victim env sm0 m (p_min_segno p')"
    "(\<And>s. m s \<Longrightarrow> 0 < ckpt_valid_blocks (seg sm0 s)) \<Longrightarrow> sm_bug sm' = sm_bug sm0"
proof -
  have mv: "gc_moved sm0 sm" and pol: "ssr_policy env m th AT_SSR p" and vs: "\<And>e. e \<in> set (victims (gc_state sm)) \<Longrightarrow> m (snd e)"
    and mp: "p_min_segno p = NULL_SEGNO \<or> good_victim env sm0 m (p_min_segno p)" and bs: "(\<And>s. m s \<Longrightarrow> 0 < ckpt_valid_blocks (seg sm0 s)) \<Longrightarrow> sm_bug sm = sm_bug sm0"
    using q by (simp_all add: searching_def)
  note sg = gc_movedD(4)[OF mv]
  obtain bug where a: "atssr_lookup_victim env sm p = (p', bug)" "sm' = bug_on bug sm"
    using r pol by (auto simp: lookup_victim_by_age_def ssr_policy_def split: prod.splits)
  have scan: "(p_alloc_mode b, p_gc_mode b, p_ofs_unit b, p_age_threshold b, p_dirty_bitmap b) =
         (p_alloc_mode a, p_gc_mode a, p_ofs_unit a, p_age_threshold a, p_dirty_bitmap a) \<and>
       (p_min_segno b = p_min_segno a \<or> good_victim env sm0 m (p_min_segno b)) \<and> (x \<longrightarrow> (\<exists>s. m s \<and> ckpt_valid_blocks (seg sm0 s) = 0))"
    if "atssr_scan env sm hi lo i es a = (b, x)" "set es \<subseteq> set (victims (gc_state sm))" for hi lo i es a b x
  proof -
    have "m (snd e)" if "e \<in> set es" for e using vs[of e] that \<open>set es \<subseteq> _\<close> by blast
    then show ?thesis using atssr_scan_ok[OF that(1)] unfolding good_victim_def sg by (metis (no_types, lifting))
  qed
  have "(p_alloc_mode p', p_gc_mode p', p_ofs_unit p', p_age_threshold p', p_dirty_bitmap p') =
         (p_alloc_mode p, p_gc_mode p, p_ofs_unit p, p_age_threshold p, p_dirty_bitmap p) \<and>
       (p_min_segno p' = p_min_segno p \<or> good_victim env sm0 m (p_min_segno p')) \<and> (bug \<longrightarrow> (\<exists>s. m s \<and> ckpt_valid_blocks (seg sm0 s) = 0))"
  proof (cases "dirty_max_mtime (gc_state sm) < dirty_min_mtime (gc_state sm) \<or> central_victim (gc_state sm) (p_age p) = None")
    case True
    then have "p' = p" "\<not> bug" using a(1) by (auto simp: atssr_lookup_victim_def Let_def simp del: Pair_inject split: if_splits option.splits)
    then show ?thesis by simp
  next
    case False
    then obtain k where k: "central_victim (gc_state sm) (p_age p) = Some k" by auto
    let ?hi = "dirty_max_mtime (gc_state sm) + 1" and ?lo = "dirty_min_mtime (gc_state sm)"
    obtain p1 b1 where s1: "atssr_scan env sm ?hi ?lo 0 (rev (take (k + 1) (victims (gc_state sm)))) p = (p1, b1)" by (metis surj_pair)
    obtain b2 where s2: "atssr_scan env sm ?hi ?lo 0 (drop k (victims (gc_state sm))) p1 = (p', b2)" "bug = (b1 \<or> b2)"
      using a(1) False k s1 by (auto simp: atssr_lookup_victim_def Let_def split: prod.splits)
    have sub: "set (rev (take (k + 1) (victims (gc_state sm)))) \<subseteq> set (victims (gc_state sm))" "set (drop k (victims (gc_state sm))) \<subseteq> set (victims (gc_state sm))"
      by (simp_all add: set_take_subset set_drop_subset)
    show ?thesis using scan[OF s1 sub(1)] scan[OF s2(1) sub(2)] s2(2) by auto
  qed
  note R = this
  show "ssr_policy env m th AT_SSR p'" using R pol by (simp_all add: ssr_policy_def)
  show "p_min_segno p' = NULL_SEGNO \<or> good_victim env sm0 m (p_min_segno p')" using R mp by auto
  show "sm_bug sm' = sm_bug sm0" if "\<And>s. m s \<Longrightarrow> 0 < ckpt_valid_blocks (seg sm0 s)"
  proof -
    have "\<not> bug" using R that by (metis less_irrefl)
    then show ?thesis using a(2) bs that by simp
  qed
  have "gc_moved sm (bug_on bug sm)" unfolding gc_moved_def bug_on_def
    by (rule exI[of _ "gc_state sm"], rule exI[of _ "max_mtime (sit sm)"], rule exI[of _ "bug \<or> sm_bug sm"]) simp
  then show "gc_moved sm0 sm'" using gc_moved_trans[OF mv] a(2) by simp
qed

section \<open>Passes\<close>

text \<open>What a pass leaves: the state of the search, no candidates, and a segment that can be used if any.\<close>

definition passed :: "seg_env \<Rightarrow> gc_info sm_info \<Rightarrow> bitmap \<Rightarrow> nat \<Rightarrow> alloc_mode \<Rightarrow> victim_sel_policy \<Rightarrow> gc_info sm_info \<Rightarrow> bool" where
  "passed env sm0 m th mode p sm \<longleftrightarrow>
     gc_moved sm0 sm \<and> gc_ok env (gc_state sm) \<and> ssr_policy env m th mode p \<and>
     (p_min_segno p = NULL_SEGNO \<or> good_victim env sm0 m (p_min_segno p)) \<and>
     ((\<forall>s. m s \<longrightarrow> 0 < ckpt_valid_blocks (seg sm0 s)) \<longrightarrow> sm_bug sm = sm_bug sm0)"

lemma scan_pass_ok:
  assumes g: "seg_geom env" and md: "mode \<noteq> LFS" and bd: "\<And>s. m s \<Longrightarrow> s < nseg env"
    and q: "searching env sm0 m th mode p sm"
  obtains ls' p' sm' where "scan_pass (2 * nseg env + 3) env BG_GC False (mode = AT_SSR) ls p sm = Some (V_scanned, ls', p', sm')" "passed env sm0 m th mode p' sm'"
proof -
  have pol: "p_alloc_mode p \<noteq> LFS" using q md by (simp add: searching_def ssr_policy_def)
  define prev where "prev = last_victim (gc_state sm) (p_gc_mode p)"
  have "(nseg env - p_offset p) + (if last_victim (gc_state sm) GC_GREEDY \<noteq> 0 then nseg env + 1 else 0) < 2 * nseg env + 3" by (simp split: if_splits) arith
  from victim_loop_ok[OF g md bd q this] obtain ls' p1 sm1
    where l: "victim_loop (2 * nseg env + 3) env BG_GC False (mode = AT_SSR) prev ls p 0 sm = Some (ls', p1, sm1)" "searching env sm0 m th mode p1 sm1" by blast
  have e: "scan_pass (2 * nseg env + 3) env BG_GC False (mode = AT_SSR) ls p sm =
     (let (p, sm) = (if mode = AT_SSR then (let (p, sm) = lookup_victim_by_age env p1 sm1 in (p, release_victim_entry sm)) else (p1, sm1)) in Some (V_scanned, ls', p, sm))"
    using pol l(1) by (simp add: scan_pass_def bg_victims_def prev_def[symmetric] Let_def)
  show thesis
  proof (cases "mode = AT_SSR")
    case True
    obtain p2 sm2 where a: "lookup_victim_by_age env p1 sm1 = (p2, sm2)" by (metis surj_pair)
    note L = lookup_by_age_ok[OF l(2)[unfolded True] a]
    have "passed env sm0 m th mode p2 (release_victim_entry sm2)"
      using L gc_moved_trans[OF L(1) gc_only_moved(1)[of sm2 "\<lambda>g. g\<lparr>victims := []\<rparr>"]] by (simp add: passed_def release_victim_entry_def gc_ok_def True)
    then show thesis using that e a True by simp
  next
    case False
    then have "passed env sm0 m th mode p1 sm1" using l(2) by (simp add: passed_def searching_def gc_ok_def)
    then show thesis using that e False by simp
  qed
qed

lemma victim_pass_ok:
  fixes t :: seg_type
  assumes g: "seg_geom env" and md: "mode \<noteq> LFS" and ok: "sm_in env X sm0" and mv: "gc_moved sm0 sm" "gc_ok env (gc_state sm)"
    and bug: "(\<forall>s. dirty_segmap (dsl sm0) (Dirty_log t) s \<longrightarrow> 0 < ckpt_valid_blocks (seg sm0 s)) \<longrightarrow> sm_bug sm = sm_bug sm0"
    and p: "p_alloc_mode p = mode" "p_age_threshold p = th"
  defines "m \<equiv> dirty_segmap (dsl sm0) (Dirty_log t)"
  obtains e ls' p' sm' where "victim_pass (2 * nseg env + 3) env BG_GC (Some t) NULL_SEGNO False ls p sm = Some (e, ls', p', sm')"
    "e = V_out ENODATA \<or> e = V_scanned" "passed env sm0 m th mode p' sm'"
proof -
  define p1 where "p1 = select_policy env BG_GC (Some t) sm p"
  define p2 where "p2 = p1\<lparr>p_min_segno := NULL_SEGNO, p_oldest_age := 0\<rparr>"
  define p3 where "p3 = p2\<lparr>p_min_cost := get_max_cost env p2\<rparr>"
  define sm1 where "sm1 = (if mode = AT_SSR then upd_gc (\<lambda>g. g\<lparr>dirty_min_mtime := ULLONG_MAX\<rparr>) sm else sm)"
  have 1: "p_alloc_mode p1 = mode" "p_gc_mode p1 = GC_GREEDY" "p_dirty_bitmap p1 = m" "p_ofs_unit p1 = 1" "p_age_threshold p1 = th"
    using md p gc_movedD(2)[OF mv(1)] by (simp_all add: p1_def select_policy_def policy_of_mode_def Let_def m_def)
  have pol: "ssr_policy env m th mode p3" "p_min_segno p3 = NULL_SEGNO" using 1 by (simp_all add: ssr_policy_def p3_def p2_def get_max_cost_def)
  have s1: "gc_moved sm0 sm1" "victims (gc_state sm1) = []" "(\<forall>s. m s \<longrightarrow> 0 < ckpt_valid_blocks (seg sm0 s)) \<longrightarrow> sm_bug sm1 = sm_bug sm0"
    using gc_moved_trans[OF mv(1) gc_only_moved(1)] mv bug by (simp_all add: sm1_def gc_ok_def m_def)
  have se: "searching env sm0 m th mode p3 sm1" using pol s1 by (simp add: searching_def)
  have bd: "s < nseg env" if "m s" for s using that ok by (auto simp: m_def sm_in_def dirty_ok_def)
  have nx: "next_victims env BG_GC False p3 sm1 = None" using pol md by (simp add: next_victims_def ssr_policy_def)
  have at: "(p_gc_mode p3 = GC_AT \<or> p_alloc_mode p3 = AT_SSR) = (mode = AT_SSR)" using pol by (simp add: ssr_policy_def)
  have e: "victim_pass (2 * nseg env + 3) env BG_GC (Some t) NULL_SEGNO False ls p sm =
      (if p_max_search p3 = 0 then Some (V_out ENODATA, ls, p3, sm1) else scan_pass (2 * nseg env + 3) env BG_GC False (mode = AT_SSR) ls p3 sm1)"
    unfolding victim_pass_def Let_def p1_def[symmetric] p2_def[symmetric] p3_def[symmetric] at sm1_def[symmetric] nx by simp
  show thesis
  proof (cases "p_max_search p3 = 0")
    case True
    have "passed env sm0 m th mode p3 sm1" using pol s1 by (simp add: passed_def gc_ok_def)
    then show thesis using that e True by simp
  next
    case False
    obtain ls' p' sm'
      where "scan_pass (2 * nseg env + 3) env BG_GC False (mode = AT_SSR) ls p3 sm1 = Some (V_scanned, ls', p', sm')" "passed env sm0 m th mode p' sm'"
      by (rule scan_pass_ok[OF g md bd se])
    then show thesis using that e False by simp
  qed
qed

text \<open>
  What the search returns in the end. A second pass runs without the age threshold, so that there is no third one.
\<close>

definition ssr_found :: "seg_env \<Rightarrow> gc_info sm_info \<Rightarrow> bitmap \<Rightarrow> victim_ret \<Rightarrow> nat \<Rightarrow> gc_info sm_info \<Rightarrow> bool" where
  "ssr_found env sm0 m r s sm' \<longleftrightarrow>
     gc_moved sm0 sm' \<and> gc_ok env (gc_state sm') \<and> (r = V_0 \<and> good_victim env sm0 m s \<or> r = ENODATA) \<and>
     ((\<forall>s. m s \<longrightarrow> 0 < ckpt_valid_blocks (seg sm0 s)) \<longrightarrow> sm_bug sm' = sm_bug sm0)"

lemma victim_passes_step:
  fixes t :: seg_type
  assumes g: "seg_geom env" and md: "mode \<noteq> LFS" and ok: "sm_in env X sm0" and mv: "gc_moved sm0 sm" "gc_ok env (gc_state sm)"
    and bug: "(\<forall>s. dirty_segmap (dsl sm0) (Dirty_log t) s \<longrightarrow> 0 < ckpt_valid_blocks (seg sm0 s)) \<longrightarrow> sm_bug sm = sm_bug sm0"
    and p: "p_alloc_mode p = mode" "p_age_threshold p = th"
    and next_pass: "\<And>ls' p' sm'. th \<noteq> 0 \<Longrightarrow> passed env sm0 (dirty_segmap (dsl sm0) (Dirty_log t)) th mode p' sm' \<Longrightarrow>
      \<exists>r s sm''. victim_passes n (2 * nseg env + 3) env BG_GC (Some t) NULL_SEGNO False ls' (p'\<lparr>p_age_threshold := 0\<rparr>) sm' = Some (r, s, sm'') \<and>
         ssr_found env sm0 (dirty_segmap (dsl sm0) (Dirty_log t)) r s sm''"
  shows "\<exists>r s sm'. victim_passes (Suc n) (2 * nseg env + 3) env BG_GC (Some t) NULL_SEGNO False ls p sm = Some (r, s, sm') \<and>
         ssr_found env sm0 (dirty_segmap (dsl sm0) (Dirty_log t)) r s sm'"
proof -
  let ?m = "dirty_segmap (dsl sm0) (Dirty_log t)"
  obtain e ls' p' sm' where v: "victim_pass (2 * nseg env + 3) env BG_GC (Some t) NULL_SEGNO False ls p sm = Some (e, ls', p', sm')"
    and e: "e = V_out ENODATA \<or> e = V_scanned" and pd: "passed env sm0 ?m th mode p' sm'" by (rule victim_pass_ok[OF g md ok mv bug p])
  have F: "p_ofs_unit p' = 1" "p_alloc_mode p' = mode" "p_gc_mode p' = GC_GREEDY" "p_age_threshold p' = th"
    "p_min_segno p' = NULL_SEGNO \<or> good_victim env sm0 ?m (p_min_segno p')"
    using pd by (simp_all add: passed_def ssr_policy_def)
  show ?thesis
  proof (cases "e = V_scanned \<and> mode = AT_SSR \<and> p_min_segno p' = NULL_SEGNO \<and> elapsed_time (sit sm') < th")
    case True
    then have "th \<noteq> 0" by simp
    from next_pass[OF this pd, of ls'] show ?thesis using v True F by simp
  next
    case False
    have gv: "got_victim env BG_GC False p' sm' = sm'" using F md by (simp add: got_victim_def)
    have "ssr_found env sm0 ?m (if e = V_scanned \<and> p_min_segno p' \<noteq> NULL_SEGNO then V_0 else ENODATA)
        (if e = V_scanned \<and> p_min_segno p' \<noteq> NULL_SEGNO then p_min_segno p' else NULL_SEGNO) sm'"
      using pd F(5) by (auto simp: ssr_found_def passed_def)
    moreover have "victim_passes (Suc n) (2 * nseg env + 3) env BG_GC (Some t) NULL_SEGNO False ls p sm =
        Some (if e = V_scanned \<and> p_min_segno p' \<noteq> NULL_SEGNO then V_0 else ENODATA,
          if e = V_scanned \<and> p_min_segno p' \<noteq> NULL_SEGNO then p_min_segno p' else NULL_SEGNO, sm')"
      using v e False F gv by auto
    ultimately show ?thesis by blast
  qed
qed

lemma ssr_victim_found:
  fixes t :: seg_type
  assumes g: "seg_geom env" and md: "mode \<noteq> LFS" and ok: "sm_in env X sm" and gc: "gc_ok env (gc_state sm)"
  shows "\<exists>r s sm'. get_victim_by_default (2 * nseg env + 3) env NULL_SEGNO BG_GC (Some t) mode age sm = Some (r, s, sm') \<and>
     ssr_found env sm (dirty_segmap (dsl sm) (Dirty_log t)) r s sm'"
proof -
  have "\<exists>r s sm''. victim_passes (Suc (Suc 0)) (2 * nseg env + 3) env BG_GC (Some t) NULL_SEGNO False ls' (p'\<lparr>p_age_threshold := 0\<rparr>) sm' = Some (r, s, sm'') \<and>
         ssr_found env sm (dirty_segmap (dsl sm) (Dirty_log t)) r s sm''"
    if pd: "passed env sm (dirty_segmap (dsl sm) (Dirty_log t)) th mode p' sm'" for ls' p' sm' th
    by (rule victim_passes_step[OF g md ok, where th = 0]) (use pd in \<open>simp_all add: passed_def ssr_policy_def\<close>)
  note second = this
  define p where "p = \<lparr>p_alloc_mode = mode, p_gc_mode = GC_GREEDY, p_dirty_bitmap = (\<lambda>_. False), p_max_search = 0, p_offset = 0, p_ofs_unit = 1,
        p_min_cost = 0, p_oldest_age = 0, p_min_segno = NULL_SEGNO, p_age = age, p_age_threshold = age_threshold (gc_state sm)\<rparr>"
  have n: "3 = Suc (Suc (Suc 0))" by simp
  have e: "get_victim_by_default (2 * nseg env + 3) env NULL_SEGNO BG_GC (Some t) mode age sm =
      victim_passes (Suc (Suc (Suc 0))) (2 * nseg env + 3) env BG_GC (Some t) NULL_SEGNO False (total_sections env * sps env) p sm"
    unfolding get_victim_by_default_def p_def[symmetric] n[symmetric] using md by simp
  show ?thesis unfolding e
    by (rule victim_passes_step[OF g md ok, where th = "age_threshold (gc_state sm)"]) (use gc second in \<open>simp_all add: p_def\<close>)
qed

lemma ssr_victim_ok:
  fixes t :: seg_type
  assumes g: "seg_geom env" and ok: "sm_in env X sm" and gc: "gc_ok env (gc_state sm)" and md: "mode \<noteq> LFS"
    and r: "ssr_victim env t mode age sm = (r, sm')"
  shows "gc_moved sm sm'" "gc_ok env (gc_state sm')" "dirty_ck sm \<Longrightarrow> sm_bug sm' = sm_bug sm"
    "r = Some s \<Longrightarrow> good_victim env sm (dirty_segmap (dsl sm) (Dirty_log t)) s"
proof -
  obtain v s' sm'' where v: "get_victim_by_default (2 * nseg env + 3) env NULL_SEGNO BG_GC (Some t) mode age sm = Some (v, s', sm'')"
    and f: "ssr_found env sm (dirty_segmap (dsl sm) (Dirty_log t)) v s' sm''" using ssr_victim_found[OF g md ok gc] by blast
  have e: "sm' = sm''" "r = (if v = V_0 then Some s' else None)" using r v by (auto simp: ssr_victim_def MAIN_SEGS_def split: victim_ret.splits)
  have d: "dirty_segmap (dsl sm) (Dirty_log t) x \<Longrightarrow> dirty_segmap (dsl sm) DIRTY x" for x using ok by (auto simp: sm_in_def dirty_ok_def)
  show "gc_moved sm sm'" "gc_ok env (gc_state sm')" "r = Some s \<Longrightarrow> good_victim env sm (dirty_segmap (dsl sm) (Dirty_log t)) s"
    using f e by (auto simp: ssr_found_def split: if_splits)
  show "dirty_ck sm \<Longrightarrow> sm_bug sm' = sm_bug sm" using f e(1) d by (auto simp: ssr_found_def dirty_ck_def)
qed

lemma good_victim_slot:
  assumes g: "seg_geom env" and ok: "sm_in env X sm" and v: "good_victim env sm (dirty_segmap (dsl sm) (Dirty_log t)) s"
  shows "dirty_segmap (dsl sm) DIRTY s" "f2fs_segment_has_free_slot env sm s"
proof -
  show d: "dirty_segmap (dsl sm) DIRTY s" using v ok by (auto simp: good_victim_def sm_in_def dirty_ok_def)
  then have s: "s < nseg env" using ok by (auto simp: sm_in_def dirty_ok_def)
  then have "ckpt_valid_blocks (seg sm s) = bits (live sm s) (nblk env)" using ok by (auto simp: sm_in_def sit_ok_def entry_ok_def live_def cong: bits_cong)
  then have "bits (live sm s) (nblk env) \<noteq> nblk env" using v by (simp add: good_victim_def)
  then have "bits (live sm s) (nblk env) < nblk env" using count_idx_le[of "\<lambda>b. b" "live sm s" "nblk env"] by simp
  then obtain i where "i < nblk env" "\<not> live sm s i" using bits_full by blast
  then show "f2fs_segment_has_free_slot env sm s"
    unfolding f2fs_segment_has_free_slot_def next_free_blkoff_live by (intro zero_bit_exists[of 0 i]) simp_all
qed

interpretation ssrv: victim_selection ssr_victim gc_ok
proof (unfold_locales, goal_cases)
  case (1 env X sm mode t age r sm')
  then show ?case using ssr_victim_ok(1,2)[of env X sm mode t age r sm'] by blast
next
  case (2 env X sm mode t age r sm')
  then show ?case using ssr_victim_ok(3)[of env X sm mode t age r sm'] by blast
next
  case (3 env X sm mode t age s sm')
  then show ?case using ssr_victim_ok(4)[of env X sm mode t age "Some s" sm' s] good_victim_slot[of env X sm t s] by blast
qed

end
