(* ===== verification/Segment_Machine.thy ===== *)
theory Segment_Machine
  imports Segment_Checkpoint Gc_Ssr
begin

text \<open>
  The segment manager, victim selection for the allocator and the discard commands as one state
  machine: blocks are allocated and invalidated, logs move to other segments, checkpoints are
  written, and the discard thread works on what checkpoints queued. Along every run the counters
  are exact, no consistency check fails and no block that is in use is queued for discard.
\<close>

section \<open>Events\<close>

datatype sm_event =
    Sm_alloc seg_env nat summary curseg_id
  | Sm_invalidate seg_env nat
  | Sm_new_segment seg_env curseg_id bool bool
  | Sm_resize seg_env curseg_id nat nat
  | Sm_init_atgc seg_env
  | Sm_checkpoint seg_env cp_opts
  | Sm_discard discard_event

fun sm_step :: "sm_event \<Rightarrow> gc_info sm_info \<Rightarrow> gc_info sm_info" where
  "sm_step (Sm_alloc env old e c) sm = snd (f2fs_allocate_data_block ssr_victim env old e c sm)"
| "sm_step (Sm_invalidate env b) sm = f2fs_invalidate_blocks env b sm"
| "sm_step (Sm_new_segment env c new_sec force) sm = allocate_new_segment env c new_sec force sm"
| "sm_step (Sm_resize env c lo hi) sm = f2fs_allocate_segment_for_resize ssr_victim env c lo hi sm"
| "sm_step (Sm_init_atgc env) sm = f2fs_init_inmem_curseg ssr_victim True env sm"
| "sm_step (Sm_checkpoint env opt) sm = write_checkpoint env opt True sm"
| "sm_step (Sm_discard e) sm = sm\<lparr>sm_dcc := discard_step e (sm_dcc sm)\<rparr>"

text \<open>
  An event runs against the super block as it is then: the layout is that of the volume, the
  clocks, limits and free counters may differ.
\<close>

definition same_layout :: "seg_env \<Rightarrow> seg_env \<Rightarrow> bool" where
  "same_layout env env' \<longleftrightarrow>
     seg_geom env' \<and> nblk env' = nblk env \<and> nseg env' = nseg env \<and> sps env' = sps env \<and> total_sections env' = total_sections env \<and>
     main_start (geo env') = main_start (geo env) \<and> (cp_disabled env' \<longrightarrow> cp_disabled env)"

definition valid_at :: "seg_env \<Rightarrow> gc_info sm_info \<Rightarrow> nat \<Rightarrow> bool" where
  "valid_at env sm b \<longleftrightarrow> (\<exists>s < nseg env. \<exists>i < nblk env. b = blk_of env s i \<and> cur_valid_map (seg sm s) i)"

definition room :: "seg_env \<Rightarrow> gc_info sm_info \<Rightarrow> bool" where
  "room env sm \<longleftrightarrow> 0 < free_sections (fsm sm) \<and> alloc_next env < nseg env"

text \<open>
  What callers ensure: there is a free section (\<open>f2fs_balance_fs\<close>), the old block of a write is the
  valid one or none, a block is invalidated only while it is valid, and ranges are queued for
  discard by checkpoints only.
\<close>

fun sm_enabled :: "seg_env \<Rightarrow> sm_event \<Rightarrow> gc_info sm_info \<Rightarrow> bool" where
  "sm_enabled L (Sm_alloc env old e c) sm \<longleftrightarrow>
     same_layout L env \<and> inited (curseg sm c) \<and> room env sm \<and>
     (GET_SEGNO (geo env) old = NULL_SEGNO \<or> valid_at env sm old) \<and> gc_old_ok env sm c old"
| "sm_enabled L (Sm_invalidate env b) sm \<longleftrightarrow>
     same_layout L env \<and> valid_at env sm b \<and> b \<notin> {NULL_ADDR (geo env), NEW_ADDR (geo env), COMPRESS_ADDR (geo env)}"
| "sm_enabled L (Sm_new_segment env c new_sec force) sm \<longleftrightarrow> same_layout L env \<and> room env sm"
| "sm_enabled L (Sm_resize env c lo hi) sm \<longleftrightarrow> same_layout L env \<and> room env sm \<and> inited (curseg sm c)"
| "sm_enabled L (Sm_init_atgc env) sm \<longleftrightarrow> same_layout L env \<and> room env sm \<and> \<not> inited (curseg sm CURSEG_ALL_DATA_ATGC)"
| "sm_enabled L (Sm_checkpoint env opt) sm \<longleftrightarrow> same_layout L env \<and> cp_ok env opt"
| "sm_enabled L (Sm_discard e) sm \<longleftrightarrow> discard_enabled e (sm_dcc sm) \<and> (case e of Dc_queue _ _ _ _ _ \<Rightarrow> False | _ \<Rightarrow> True)"

section \<open>The invariant\<close>

definition live_blks :: "seg_env \<Rightarrow> 'g sm_info \<Rightarrow> nat set" where
  "live_blks env sm = {b. \<exists>s < nseg env. \<exists>i < nblk env. b = blk_of env s i \<and> live sm s i}"

definition sm_inv :: "seg_env \<Rightarrow> gc_info sm_info \<Rightarrow> bool" where
  "sm_inv env sm \<longleftrightarrow>
     sm_ok env sm \<and> entry_list sm = [] \<and> dcc_ok (sm_dcc sm) \<and> pre_only (dsl sm) \<and> gc_ok env (gc_state sm) \<and>
     blocks (root (sm_dcc sm)) \<inter> live_blks env sm = {} \<and>
     (cp_disabled env \<or> steady env sm \<and> \<not> sm_bug sm)"

lemma layout_is_large: "same_layout L env \<Longrightarrow> is_large_section env = is_large_section L"
  by (simp add: same_layout_def is_large_section_def)

lemma layout_eqs:
  assumes l: "same_layout L env"
  shows "sm_in env X sm = sm_in L X sm" "live_blks env sm = live_blks L sm" "steady env sm = steady L sm" "gc_ok env g = gc_ok L g"
    "dead_set env sm = dead_set L sm" "blk_of env = blk_of L"
proof -
  have e: "nblk env = nblk L" "nseg env = nseg L" "sps env = sps L" "total_sections env = total_sections L" "main_start (geo env) = main_start (geo L)"
    using l by (simp_all add: same_layout_def)
  show b: "blk_of env = blk_of L" by (simp add: blk_of_def fun_eq_iff e)
  show "sm_in env X sm = sm_in L X sm"
    by (simp add: sm_in_def sit_ok_def free_ok_def dirty_ok_def logs_in_def log_ok_def free_clean_def e layout_is_large[OF l])
  show "live_blks env sm = live_blks L sm" "steady env sm = steady L sm" "gc_ok env g = gc_ok L g" "dead_set env sm = dead_set L sm"
    by (simp_all add: live_blks_def steady_def gc_ok_def dead_set_def dead_blk_def e b)
qed

lemma layout_inv:
  assumes l: "same_layout L env" and i: "sm_inv L sm"
  shows "seg_geom env" "sm_in env {} sm" "entry_list sm = []" "dcc_ok (sm_dcc sm)" "pre_only (dsl sm)" "gc_ok env (gc_state sm)"
  using i l by (simp_all add: layout_eqs[OF l] sm_inv_def) (simp add: same_layout_def)

text \<open>A step that keeps the lists and queues nothing that is in use.\<close>

lemma sm_invI:
  fixes sm' :: "gc_info sm_info"
  assumes l: "same_layout L env" and i: "sm_inv L sm"
    and n: "sm_in env {} sm'" "entry_list sm' = []" "dcc_ok (sm_dcc sm')" "gc_ok env (gc_state sm')" "lists_kept env sm sm'"
    and b: "blocks (root (sm_dcc sm')) \<inter> live_blks env sm' = {}"
  shows "sm_inv L sm'"
proof -
  note e = layout_eqs[OF l]
  have "\<not> cp_disabled L \<Longrightarrow> \<not> cp_disabled env" using l by (auto simp: same_layout_def)
  then have "cp_disabled L \<or> steady L sm' \<and> \<not> sm_bug sm'" using i n(5) by (auto simp: sm_inv_def lists_kept_def e)
  then show ?thesis using n b i by (simp add: sm_inv_def e lists_kept_def)
qed

lemma no_new_live:
  assumes "sm_inv L sm" "same_layout L env" "blocks (root (sm_dcc sm')) \<subseteq> blocks (root (sm_dcc sm))" "\<And>s k. live sm' s k \<Longrightarrow> live sm s k"
  shows "blocks (root (sm_dcc sm')) \<inter> live_blks env sm' = {}"
proof -
  have "live_blks env sm' \<subseteq> live_blks L sm" using assms(4) layout_eqs(2)[OF assms(2), of sm'] by (auto simp: live_blks_def)
  then show ?thesis using assms(1,3) by (auto simp: sm_inv_def)
qed

section \<open>Every event keeps it\<close>

lemma alloc_inv:
  assumes i: "sm_inv L sm" and en: "sm_enabled L (Sm_alloc env old e c) sm"
    and r: "f2fs_allocate_data_block ssr_victim env old e c sm = (b, sm')"
  shows "alloc_spec env c old sm b sm'" "sm_inv L sm'"
proof -
  have l: "same_layout L env" using en by simp
  note I = layout_inv[OF l i]
  have o: "old_ok env sm old" using en by (auto simp: old_ok_def valid_at_def)
  have w: "inited (curseg sm c)" "gc_old_ok env sm c old" "0 < free_sections (fsm sm)" "alloc_next env < nseg env" using en by (simp_all add: room_def)
  note A = ssrv.allocate_ok[OF I(1,2) w(1) o w(2) I(6) w(3,4) r]
  show sp: "alloc_spec env c old sm b sm'" by (rule A(4))
  then obtain s k where sk: "s < nseg env" "k < nblk env" "b = blk_of env s k" and lv: "\<And>t j. live sm' t j \<Longrightarrow> live sm t j \<or> (t, j) = (s, k)"
    by (auto simp: alloc_spec_def)
  have dc: "sm_dcc sm' = f2fs_wait_discard_bio (seg_dev env) (geo env) (sm_dcc sm) b" and el: "entry_list sm' = []"
    using sp I(3) by (simp_all add: alloc_spec_def)
  note W = wait_discard_bio_ok[OF I(4), where env = "seg_dev env" and sbi = "geo env" and blk = b, folded dc]
  have "live_blks env sm' \<subseteq> insert b (live_blks env sm)" using lv sk by (fastforce simp: live_blks_def)
  then have "blocks (root (sm_dcc sm')) \<inter> live_blks env sm' = {}" using W(2,3) i layout_eqs(2)[OF l, of sm] by (auto simp: sm_inv_def)
  then show "sm_inv L sm'" using sm_invI[OF l i A(1) el W(1) A(2,3)] by simp
qed

lemma log_only_inv:
  assumes l: "same_layout L env" and i: "sm_inv L sm" and m: "log_only env sm sm'" "gc_ok env (gc_state sm')"
  shows "sm_inv L sm'"
proof (rule sm_invI[OF l i])
  have d: "sm_dcc sm' = sm_dcc sm" "entry_list sm' = entry_list sm" "live sm' = live sm" using m(1) by (simp_all add: log_only_def)
  show "blocks (root (sm_dcc sm')) \<inter> live_blks env sm' = {}" by (rule no_new_live[OF i l]) (simp_all add: d)
  show "entry_list sm' = []" "dcc_ok (sm_dcc sm')" using layout_inv[OF l i] d by simp_all
qed (use m in \<open>simp_all add: log_only_def\<close>)

lemma invalidate_inv:
  assumes i: "sm_inv L sm" and en: "sm_enabled L (Sm_invalidate env b) sm"
  shows "sm_inv L (f2fs_invalidate_blocks env b sm)"
proof -
  have l: "same_layout L env" using en by simp
  note I = layout_inv[OF l i]
  obtain s k where s: "s < nseg env" "k < nblk env" "cur_valid_map (seg sm s) k" and b: "b = blk_of env s k" using en by (auto simp: valid_at_def)
  have a: "blk_of env s k \<notin> {NULL_ADDR (geo env), NEW_ADDR (geo env), COMPRESS_ADDR (geo env)}" using en b by simp
  note V = invalidate_ok[OF I(1,2) s a, folded b]
  show ?thesis
  proof (rule sm_invI[OF l i V(1)])
    show "blocks (root (sm_dcc (f2fs_invalidate_blocks env b sm))) \<inter> live_blks env (f2fs_invalidate_blocks env b sm) = {}"
      by (rule no_new_live[OF i l]) (use V(3,6) in simp_all)
  qed (use V I in simp_all)
qed

lemma checkpoint_inv:
  assumes i: "sm_inv L sm" and en: "sm_enabled L (Sm_checkpoint env opt) sm"
  shows "sm_inv L (write_checkpoint env opt True sm)"
proof -
  let ?w = "write_checkpoint env opt True sm"
  have l: "same_layout L env" and op: "cp_ok env opt" using en by simp_all
  note I = layout_inv[OF l i]
  note W = write_checkpoint_ok[OF I(1-5) op]
  have "dirty_pos {} sm \<Longrightarrow> dirty_pos {} ?w" by (simp add: dirty_pos_def W(13,14))
  then have st: "steady env sm \<Longrightarrow> steady env ?w" using W(8) by (auto simp: steady_def all_ckpt_def)
  show ?thesis
  proof (rule sm_invI[OF l i W(1,3,4)])
    show "gc_ok env (gc_state ?w)" using I(6) W(9) by simp
    show "lists_kept env sm ?w" using W(2,10) st by (simp add: lists_kept_def)
    have "live_blks env ?w \<subseteq> live_blks env sm" using W(6) by (auto simp: live_blks_def)
    moreover have "dead_set env ?w \<inter> live_blks env ?w = {}"
      by (auto simp: dead_set_def dead_blk_def live_blks_def dest: blk_of_inj)
    moreover have "blocks (root (sm_dcc sm)) \<inter> live_blks env sm = {}" using i by (simp add: sm_inv_def layout_eqs(2)[OF l])
    ultimately show "blocks (root (sm_dcc ?w)) \<inter> live_blks env ?w = {}" using W(5) by blast
  qed
qed

lemma sm_dcc_frame:
  "sm_in env X (sm\<lparr>sm_dcc := d\<rparr>) = sm_in env X sm" "live_blks env (sm\<lparr>sm_dcc := d\<rparr>) = live_blks env sm" "steady env (sm\<lparr>sm_dcc := d\<rparr>) = steady env sm"
  by (simp_all add: sm_in_def sit_ok_def dirty_ok_def logs_in_def log_ok_def free_clean_def live_def seg_def is_curseg live_blks_def steady_def dirty_pos_def)

lemma discard_inv:
  assumes i: "sm_inv L sm" and en: "sm_enabled L (Sm_discard e) sm"
  shows "sm_inv L (sm_step (Sm_discard e) sm)"
proof -
  have "fewer (sm_dcc sm) (discard_step e (sm_dcc sm))"
    by (rule discard_step_fewer) (use i en in \<open>auto simp: sm_inv_def simp del: discard_enabled.simps\<close>)
  then have f: "dcc_ok (discard_step e (sm_dcc sm))" "blocks (root (discard_step e (sm_dcc sm))) \<subseteq> blocks (root (sm_dcc sm))" by (simp_all add: fewer_def)
  then show ?thesis using i by (auto simp: sm_inv_def sm_dcc_frame)
qed

lemma sm_step_inv:
  assumes i: "sm_inv L sm" and en: "sm_enabled L e sm"
  shows "sm_inv L (sm_step e sm)"
proof (cases e)
  case (Sm_alloc env old x c)
  then show ?thesis using alloc_inv(2)[OF i en[unfolded Sm_alloc]] by (metis sm_step.simps(1) snd_conv surj_pair)
next
  case (Sm_invalidate env b)
  then show ?thesis using invalidate_inv[OF i] en by simp
next
  case (Sm_new_segment env c ns f)
  then have l: "same_layout L env" "0 < free_sections (fsm sm)" "alloc_next env < nseg env" using en by (simp_all add: room_def)
  note I = layout_inv[OF l(1) i]
  show ?thesis using log_only_inv[OF l(1) i] allocate_new_segment_ok[OF I(1,2) l(2,3)] I(6) Sm_new_segment by simp
next
  case (Sm_resize env c lo hi)
  then have l: "same_layout L env" "0 < free_sections (fsm sm)" "alloc_next env < nseg env" "inited (curseg sm c)" using en by (simp_all add: room_def)
  note I = layout_inv[OF l(1) i]
  show ?thesis using log_only_inv[OF l(1) i] ssrv.allocate_for_resize_ok[OF I(1,2,6) l(2-4)] Sm_resize by simp
next
  case (Sm_init_atgc env)
  then have l: "same_layout L env" "0 < free_sections (fsm sm)" "alloc_next env < nseg env" "\<not> inited (curseg sm CURSEG_ALL_DATA_ATGC)"
    using en by (simp_all add: room_def)
  note I = layout_inv[OF l(1) i]
  show ?thesis using log_only_inv[OF l(1) i] ssrv.init_inmem_ok[OF I(1,2,6) l(2-4)] Sm_init_atgc by simp
next
  case (Sm_checkpoint env opt)
  then show ?thesis using checkpoint_inv[OF i] en by simp
next
  case (Sm_discard x)
  then show ?thesis using discard_inv[OF i] en by simp
qed

interpretation smm: guarded_machine sm_step "sm_enabled L" "sm_inv L"
  by unfold_locales (rule sm_step_inv)

end
