(* ===== verification/Segment_Example.thy ===== *)
theory Segment_Example
  imports Segment_Machine Discard_Props
begin

text \<open>
  A small volume for the properties of the segment manager: twelve segments of two blocks, the
  logs at the first six, and a run that fills a segment, invalidates its blocks and writes
  a checkpoint.
\<close>

definition sx_sbi :: f2fs_sb_info where
  "sx_sbi = ex_sbi\<lparr>log_blocks_per_seg := 1, blocks_per_seg := 2, main_segments := 12, lfs_mode := False\<rparr>"

definition sx_env :: seg_env where
  "sx_env = \<lparr>geo = sx_sbi, secs_per_zone = 1, total_sections = 12, blkzoned = False, unusable_blocks_per_sec = 0, SIT_ENTRY_PER_BLOCK = 55,
     cp_disabled = False, block_unit_discard = True, opt_noheap = False, alloc_mode_reuse = False, crc_recovery = False, alloc_next = 0,
     boottime = 100, sum_page_ok = (\<lambda>_. True), dirty_node_secs = 0, dirty_dent_secs = 0, dirty_imeta_secs = 0,
     min_ssr_sections = 2, reserved_sections = 2, seg_dev = dx_env\<rparr>"

definition sx_seg :: sit_entry where
  "sx_seg = \<lparr>se_type = CURSEG_HOT_DATA, valid_blocks = 0, ckpt_valid_blocks = 0, cur_valid_map = (\<lambda>_. False), ckpt_valid_map = (\<lambda>_. False),
     discard_map = (\<lambda>_. True), se_mtime = 0\<rparr>"

fun sx_log :: "curseg_id \<Rightarrow> nat" where
  "sx_log (C_log CURSEG_HOT_DATA) = 0"
| "sx_log (C_log CURSEG_WARM_DATA) = 1"
| "sx_log (C_log CURSEG_COLD_DATA) = 2"
| "sx_log (C_log CURSEG_HOT_NODE) = 3"
| "sx_log (C_log CURSEG_WARM_NODE) = 4"
| "sx_log (C_log CURSEG_COLD_NODE) = 5"
| "sx_log _ = NULL_SEGNO"

definition sx_curseg :: "curseg_id \<Rightarrow> curseg_info" where
  "sx_curseg c = \<lparr>sum_entries = (\<lambda>_. (0, 0, 0)), sum_type_node = False, alloc_type = LFS,
     cs_seg_type = (case c of C_log t \<Rightarrow> t | _ \<Rightarrow> CURSEG_COLD_DATA), cs_segno = sx_log c, next_blkoff = 0, cs_zone = sx_log c,
     next_segno = NULL_SEGNO, inited = (sx_log c \<noteq> NULL_SEGNO)\<rparr>"

definition sx_gc :: gc_info where
  "sx_gc = \<lparr>last_victim = (\<lambda>_. 0), next_victim_seg = (\<lambda>_. NULL_SEGNO), cur_victim_sec = NULL_SEGNO, max_victim_search = 4096,
     min_mtime = 0, dirty_min_mtime = 0, dirty_max_mtime = 0, am_atgc_enabled = False, victims = [], am_lean = (\<lambda>_ _. True),
     candidate_ratio = 20, max_candidate_count = 10, age_weight = 60, age_threshold = 604800\<rparr>"

definition sx_init :: "gc_info sm_info" where
  "sx_init = \<lparr>sit = \<lparr>sm_sentries = (\<lambda>s. sx_seg), sec_valid = (\<lambda>_. 0), dirty_sentries_bitmap = (\<lambda>_. False), dirty_sentries = 0,
       written_valid_blocks = 0, elapsed_time = 0, mounted_time = 100, max_mtime = 0\<rparr>,
     fsm = \<lparr>free_segments = 6, free_sections = 6, free_segmap = (\<lambda>s. s < 6), free_secmap = (\<lambda>s. s < 6)\<rparr>,
     dsl = \<lparr>dirty_segmap = (\<lambda>_ _. False), nr_dirty = (\<lambda>_. 0), dirty_secmap = (\<lambda>_. False), victim_secmap = (\<lambda>_. False)\<rparr>,
     curseg = sx_curseg, ssa = (\<lambda>_ _. (0, 0, 0)), discard_blks = 24, unusable_block_count = 0, entry_list = [], nr_discards = 0,
     sm_dcc = dx_new, gc_state = sx_gc, sm_bug = False\<rparr>"

lemma sx_geom: "seg_geom sx_env"
  by (simp add: seg_geom_def geom_ok_def sx_env_def sx_sbi_def ex_sbi_def main_start_def main_end_def NULL_SEGNO_def UINT_MAX_def)

lemma sx_env_simps [simp]: "nblk sx_env = 2" "nseg sx_env = 12" "sps sx_env = 1" "total_sections sx_env = 12" "\<not> is_large_section sx_env" "\<not> cp_disabled sx_env"
  by (simp_all add: sx_env_def sx_sbi_def ex_sbi_def is_large_section_def)

lemma sx_init_simps [simp]:
  "seg sx_init s = sx_seg" "live sx_init s i = False" "fsm sx_init = \<lparr>free_segments = 6, free_sections = 6, free_segmap = (\<lambda>s. s < 6), free_secmap = (\<lambda>s. s < 6)\<rparr>"
  "dsl sx_init = \<lparr>dirty_segmap = (\<lambda>_ _. False), nr_dirty = (\<lambda>_. 0), dirty_secmap = (\<lambda>_. False), victim_secmap = (\<lambda>_. False)\<rparr>"
  "curseg sx_init = sx_curseg"
  by (simp_all add: sx_init_def seg_def live_def sx_seg_def)

lemma sx_log_cases:
  "cs_segno (sx_curseg c) = sx_log c" "inited (sx_curseg c) = (sx_log c \<noteq> NULL_SEGNO)" "next_blkoff (sx_curseg c) = 0"
  "sx_log c = NULL_SEGNO \<longleftrightarrow> (\<forall>t. c \<noteq> C_log t)" "sx_log (C_log t) < 6" "inj (\<lambda>t. sx_log (C_log t))"
proof -
  have lt: "sx_log (C_log t) < 6" for t by (cases t) simp_all
  then show "sx_log (C_log t) < 6" .
  have "sx_log (C_log t) \<noteq> NULL_SEGNO" for t using lt[of t] by (simp add: NULL_SEGNO_def UINT_MAX_def)
  then show "sx_log c = NULL_SEGNO \<longleftrightarrow> (\<forall>t. c \<noteq> C_log t)" by (cases c) simp_all
  show "inj (\<lambda>t. sx_log (C_log t))"
  proof (rule injI)
    fix x y assume "sx_log (C_log x) = sx_log (C_log y)"
    then show "x = y" by (cases x; cases y) simp_all
  qed
qed (simp_all add: sx_curseg_def)

lemma sx_logs: "logs_in sx_env {} sx_init"
proof -
  have "sx_log c \<noteq> sx_log d" if ne: "c \<noteq> d" and nn: "sx_log c \<noteq> NULL_SEGNO" for c d
  proof (cases "\<exists>t. d = C_log t")
    case True
    then obtain t where t: "d = C_log t" by blast
    obtain u where u: "c = C_log u" using nn sx_log_cases(4)[of c] by blast
    show ?thesis using sx_log_cases(6) ne t u by (auto dest: injD)
  next
    case False
    then have "sx_log d = NULL_SEGNO" using sx_log_cases(4)[of d] by blast
    then show ?thesis using nn by simp
  qed
  moreover have "log_ok sx_env sx_init (sx_curseg c)" if nn: "sx_log c \<noteq> NULL_SEGNO" for c
  proof -
    obtain t where t: "c = C_log t" using nn sx_log_cases(4)[of c] by blast
    show ?thesis using sx_log_cases(5)[of t] by (simp add: log_ok_def sx_log_cases(1) t)
  qed
  moreover have "sx_log (C_log t) \<noteq> NULL_SEGNO" for t using sx_log_cases(4)[of "C_log t"] by blast
  moreover have "cs_seg_type (sx_curseg c) = CURSEG_COLD_DATA" if "sx_log c = NULL_SEGNO" for c
    using that sx_log_cases(4)[of c] by (simp add: sx_curseg_def split: curseg_id.split)
  ultimately show ?thesis unfolding logs_in_def sx_log_cases(1-3) sx_init_simps(5) by simp
qed

lemma sx_init_inv: "sm_inv sx_env sx_init"
proof -
  have b: "bits (\<lambda>_. False) n = 0" for n by (simp add: bits_eq_0)
  have "sit_ok sx_env sx_init" by (simp add: sit_ok_def entry_ok_def sx_seg_def b) (simp add: sx_init_def b)
  moreover have "free_ok sx_env (fsm sx_init)" by (simp add: free_ok_def) code_simp
  moreover have "dirty_ok sx_env sx_init" by (simp add: dirty_ok_def b)
  moreover have "free_clean sx_env sx_init" by (simp add: free_clean_def)
  moreover have "dcc_ok (sm_dcc sx_init)" using dx_new_ok by (simp add: sx_init_def)
  moreover have "root (sm_dcc sx_init) = []" by (simp add: sx_init_def dx_new_def)
  moreover have "steady sx_env sx_init" by (simp add: steady_def dirty_pos_def sx_seg_def)
  ultimately show ?thesis using sx_logs by (simp add: sm_inv_def sm_in_def pre_only_def gc_ok_def) (simp add: sx_init_def sx_gc_def)
qed

definition sx_opt :: cp_opts where
  "sx_opt = \<lparr>hw_support_discard = True, realtime_discard = True, discard_unit_section = False, max_discards = 1000, target_dev = (\<lambda>_. 0),
     cp_discard = False, trim_start = 0, trim_end = 0, trim_minlen = 0, discard_idle = False, atgc_enabled = False\<rparr>"

definition sx_alloc :: sm_event where
  "sx_alloc = Sm_alloc sx_env 0 (1, 0, 0) (C_log CURSEG_WARM_DATA)"

definition sx_one :: "gc_info sm_info" where
  "sx_one = sm_step sx_alloc sx_init"

lemma sx_enabled: "sm_enabled sx_env sx_alloc sx_init" "sm_enabled sx_env sx_alloc sx_one"
  unfolding sx_one_def sx_alloc_def sm_enabled.simps sm_step.simps by code_simp+

lemma sx_reach: "reach sm_step (sm_enabled sx_env) sx_init sx_one"
  unfolding sx_one_def by (intro reach_step reach_start sx_enabled)

lemma sx_one_values:
  "cur_valid_map (seg sx_one 1) 0" "next_blkoff (curseg sx_one (C_log CURSEG_WARM_DATA)) = 1" "written_valid_blocks (sit sx_one) = 1"
  "NEXT_FREE_BLKADDR sx_env (curseg sx_one (C_log CURSEG_WARM_DATA)) = 523"
  unfolding sx_one_def sx_alloc_def sm_step.simps seg_def by code_simp+

text \<open>A state with a prefree segment: segment 6 was emptied since the last checkpoint.\<close>

definition sx_pre :: "gc_info sm_info" where
  "sx_pre = sx_init\<lparr>sit := (sit sx_init)\<lparr>sm_sentries := (\<lambda>_. sx_seg)(6 := sx_seg\<lparr>ckpt_valid_blocks := 1, ckpt_valid_map := (\<lambda>i. i = 0)\<rparr>),
       dirty_sentries_bitmap := (\<lambda>s. s = 6), dirty_sentries := 1\<rparr>,
     fsm := \<lparr>free_segments = 5, free_sections = 5, free_segmap = (\<lambda>s. s < 7), free_secmap = (\<lambda>s. s < 7)\<rparr>,
     dsl := \<lparr>dirty_segmap = (\<lambda>t s. t = PRE \<and> s = 6), nr_dirty = (\<lambda>t. if t = PRE then 1 else 0), dirty_secmap = (\<lambda>_. False), victim_secmap = (\<lambda>_. False)\<rparr>\<rparr>"

lemma sx_bits: "bits (\<lambda>s. s = 6) 12 = 1" "bits (\<lambda>i. i = 0) 2 = 1" "bits (\<lambda>s. \<not> s < 7) 12 = 5" "bits (\<lambda>_. False) n = 0"
proof -
  show "bits (\<lambda>_. False) n = 0" by (simp add: bits_eq_0)
qed code_simp+

lemma sx_pre_inv: "sm_inv sx_env sx_pre"
proof -
  have s: "seg sx_pre s = (if s = 6 then sx_seg\<lparr>ckpt_valid_blocks := 1, ckpt_valid_map := (\<lambda>i. i = 0)\<rparr> else sx_seg)" for s
    by (simp add: sx_pre_def seg_def)
  have l: "live sx_pre s i = (s = 6 \<and> i = 0)" for s i by (simp add: live_def s sx_seg_def)
  have c: "curseg sx_pre = sx_curseg" "sm_dcc sx_pre = dx_new" "entry_list sx_pre = []" "gc_state sx_pre = sx_gc" "\<not> sm_bug sx_pre"
    by (simp_all add: sx_pre_def sx_init_def)
  have d: "dirty_segmap (dsl sx_pre) t r = (t = PRE \<and> r = 6)" "nr_dirty (dsl sx_pre) t = (if t = PRE then 1 else 0)" for t r by (simp_all add: sx_pre_def)
  have f: "fsm sx_pre = \<lparr>free_segments = 5, free_sections = 5, free_segmap = (\<lambda>s. s < 7), free_secmap = (\<lambda>s. s < 7)\<rparr>" by (simp add: sx_pre_def)
  have nc: "\<not> IS_CURSEG sx_pre 6"
  proof -
    have "sx_log c \<noteq> 6" for c
      using sx_log_cases(5) sx_log_cases(4)[of c] by (cases c) (auto simp: NULL_SEGNO_def UINT_MAX_def less_irrefl dest: less_imp_neq)
    then show ?thesis by (simp add: is_curseg c sx_log_cases)
  qed
  have "sit_ok sx_env sx_pre"
    by (auto simp: sit_ok_def entry_ok_def s sx_seg_def sx_bits) (simp_all add: sx_pre_def sx_init_def sx_seg_def sx_bits)
  moreover have "free_ok sx_env (fsm sx_pre)" by (simp add: free_ok_def f sx_bits)
  moreover have "dirty_ok sx_env sx_pre"
  proof -
    have "bits (dirty_segmap (dsl sx_pre) t) 12 = (if t = PRE then 1 else 0)" for t
      using bits_cong[of 12 "dirty_segmap (dsl sx_pre) t" "\<lambda>s. t = PRE \<and> s = 6"] sx_bits by (cases "t = PRE") (simp_all add: d)
    then show ?thesis by (auto simp: dirty_ok_def d f nc s sx_seg_def)
  qed
  moreover have "free_clean sx_env sx_pre" by (simp add: free_clean_def l f)
  moreover have "logs_in sx_env {} sx_pre"
    using sx_logs by (simp add: logs_in_def log_ok_def c f l) (use less_trans in force)
  moreover have "steady sx_env sx_pre" by (simp add: steady_def dirty_pos_def d s sx_seg_def)
  ultimately show ?thesis using dx_new_ok by (simp add: sm_inv_def sm_in_def pre_only_def gc_ok_def c d) (simp add: sx_gc_def dx_new_def)
qed

text \<open>A state with a pending discard of the two blocks of segment 7.\<close>

definition sx_queued :: "gc_info sm_info" where
  "sx_queued = sx_init\<lparr>sm_dcc := queue_discard_cmd dx_env ex_sbi dx_new 0 534 2\<rparr>"

lemma sx_queued_root: "map (\<lambda>c. (ofs c, elen c)) (root (sm_dcc sx_queued)) = [(534, 2)]"
proof -
  have "map (\<lambda>c. (ofs c, elen c)) (root (queue_discard_cmd dx_env ex_sbi dx_new 0 534 2)) = [(534, 2)]" by code_simp
  then show ?thesis by (simp add: sx_queued_def)
qed

lemma sx_queued_inv: "sm_inv sx_env sx_queued"
proof -
  have s: "seg sx_queued = seg sx_init" "live sx_queued = live sx_init" "live_blks sx_env sx_queued = {}"
    by (simp_all add: sx_queued_def seg_def live_def fun_eq_iff live_blks_def sx_init_def sx_seg_def)
  have "sm_in sx_env {} (sx_init\<lparr>sm_dcc := d\<rparr>) = sm_in sx_env {} sx_init" "steady sx_env (sx_init\<lparr>sm_dcc := d\<rparr>) = steady sx_env sx_init" for d
    by (simp_all add: sm_dcc_frame)
  moreover have "dcc_ok (queue_discard_cmd dx_env ex_sbi dx_new 0 534 2)" by (rule queue_dcc_ok[OF dx_new_ok]) simp
  ultimately show ?thesis using sx_init_inv s(3) by (simp add: sm_inv_def sx_queued_def)
qed

end
