(* ===== verification/Segment_Props.thy ===== *)
theory Segment_Props
  imports Segment_Example
begin

text \<open>
  The properties of the segment manager, most of them along every run of the machine of
  \<open>Segment_Machine\<close> from a state that satisfies its invariant. In a run the callers ensure what \<open>sm_enabled\<close> says:
  a free section and a log in use for an allocation, an old block that is valid or none, invalidation of valid blocks only;
  discard passes go to devices that accept every request; the volume is not zoned.
\<close>

lemma sm_reach_inv: "reach sm_step (sm_enabled L) sm0 sm \<Longrightarrow> sm_inv L sm0 \<Longrightarrow> sm_inv L sm"
  by (rule smm.reach_inv)

section \<open>Allocation\<close>

text \<open>
  C1. Along every run, \<open>f2fs_allocate_data_block\<close> refines the abstract allocator: the block it
  hands out lies in the main area and is neither valid nor part of the last checkpoint; afterwards
  exactly this block has become valid and the old one invalid, whatever log, allocation mode,
  victim search and segment change were involved; and no discard command covers the new block.
\<close>

theorem allocation_refines_spec:
  assumes "sm_inv L sm0" "reach sm_step (sm_enabled L) sm0 sm" "sm_enabled L (Sm_alloc env old e c) sm"
    and "f2fs_allocate_data_block ssr_victim env old e c sm = (b, sm')"
  shows "alloc_spec env c old sm b sm' \<and> b \<notin> live_blks env sm \<and> b \<notin> blocks (root (sm_dcc sm'))"
proof -
  note i = sm_reach_inv[OF assms(2,1)]
  note A = alloc_inv[OF i assms(3,4)]
  have l: "same_layout L env" using assms(3) by simp
  obtain s k where s: "s < nseg env" "k < nblk env" "b = blk_of env s k" "\<not> live sm s k" using A(1) by (auto simp: alloc_spec_def)
  have "b \<notin> live_blks env sm" using s by (auto simp: live_blks_def dest: blk_of_inj)
  moreover have "b \<notin> blocks (root (sm_dcc sm'))"
    using A(1) wait_discard_bio_ok(2)[OF layout_inv(4)[OF l i]] by (simp add: alloc_spec_def)
  ultimately show ?thesis using A(1) by blast
qed

theorem allocation_refines_spec_witness:
  "\<exists>b sm'. f2fs_allocate_data_block ssr_victim sx_env 0 (1, 0, 0) (C_log CURSEG_WARM_DATA) sx_one = (b, sm') \<and>
     alloc_spec sx_env (C_log CURSEG_WARM_DATA) 0 sx_one b sm' \<and> b \<notin> live_blks sx_env sx_one"
proof -
  obtain b sm' where r: "f2fs_allocate_data_block ssr_victim sx_env 0 (1, 0, 0) (C_log CURSEG_WARM_DATA) sx_one = (b, sm')" by (metis surj_pair)
  show ?thesis using allocation_refines_spec[OF sx_init_inv sx_reach sx_enabled(2)[unfolded sx_alloc_def] r] r by blast
qed

section \<open>The invariant along runs\<close>

text \<open>
  C6. Along every run (under the conditions on callers, devices and checkpoint options of \<open>sm_enabled\<close>) the counters of the segment manager are exact: \<open>valid_blocks\<close> and
  \<open>ckpt_valid_blocks\<close> of every segment, \<open>written_valid_blocks\<close>, the valid blocks of the sections,
  the free segments and sections and the dirty segments of every list are the numbers of the
  corresponding bits. While checkpoints are enabled no \<open>f2fs_bug_on\<close> of the modelled functions is hit:
  those of the allocation and invalidation of blocks, of the lists of dirty segments, of the logs and the victim
  selection, and, at a checkpoint, the one that no dirty SIT entry is left. The checks of the sets of SIT entries
  and of the SIT journal at a checkpoint are not modelled and not covered.
\<close>

theorem segment_counters_exact:
  assumes "sm_inv L sm0" "reach sm_step (sm_enabled L) sm0 sm"
  shows "(\<forall>s < nseg L. valid_blocks (seg sm s) = bits (cur_valid_map (seg sm s)) (nblk L) \<and> ckpt_valid_blocks (seg sm s) = bits (live sm s) (nblk L)) \<and>
    written_valid_blocks (sit sm) = (\<Sum>s < nseg L. valid_blocks (seg sm s)) \<and>
    (is_large_section L \<longrightarrow> (\<forall>k < total_sections L. sec_valid (sit sm) k = (\<Sum>j < sps L. valid_blocks (seg sm (k * sps L + j))))) \<and>
    free_segments (fsm sm) = bits (\<lambda>s. \<not> free_segmap (fsm sm) s) (nseg L) \<and>
    free_sections (fsm sm) = bits (\<lambda>k. \<not> free_secmap (fsm sm) k) (total_sections L) \<and>
    (\<forall>t. nr_dirty (dsl sm) t = int (bits (dirty_segmap (dsl sm) t) (nseg L))) \<and>
    (cp_disabled L \<or> \<not> sm_bug sm)"
proof -
  have i: "sm_inv L sm" by (rule sm_reach_inv[OF assms(2,1)])
  have "live sm s = (\<lambda>i. cur_valid_map (seg sm s) i \<or> ckpt_valid_map (seg sm s) i)" for s by (simp add: live_def fun_eq_iff)
  moreover have "cp_disabled L \<or> \<not> sm_bug sm" using i by (auto simp: sm_inv_def)
  ultimately show ?thesis using i unfolding sm_inv_def sm_in_def sit_ok_def entry_ok_def free_ok_def dirty_ok_def by simp
qed

theorem segment_counters_exact_witness:
  "reach sm_step (sm_enabled sx_env) sx_init sx_one \<and> written_valid_blocks (sit sx_one) = 1 \<and> (\<Sum>s < 12. valid_blocks (seg sx_one s)) = 1 \<and> \<not> sm_bug sx_one"
  using segment_counters_exact[OF sx_init_inv sx_reach] sx_reach sx_one_values by simp

text \<open>
  C3. Along every run (under the conditions on callers and devices of \<open>sm_enabled\<close>), no discard command covers a block that is valid or belongs to the last
  checkpoint: what checkpoints queue are dead blocks, a block that is handed out again is taken
  out of the commands first, and the discard thread adds nothing. The checkpoints of the run have a
  FITRIM range inside the main area and do not use \<open>discard_unit=section\<close> with several segments per section outside
  LFS mode (\<open>cp_ok\<close>), where the code does discard blocks that are in use.
\<close>

theorem discards_never_cover_live_blocks:
  assumes "sm_inv L sm0" "reach sm_step (sm_enabled L) sm0 sm"
    and "c \<in> set (root (sm_dcc sm))" "ofs c \<le> b" "b < eend c"
  shows "\<not> (\<exists>s < nseg L. \<exists>i < nblk L. b = blk_of L s i \<and> (cur_valid_map (seg sm s) i \<or> ckpt_valid_map (seg sm s) i))"
proof -
  have "b \<in> blocks (root (sm_dcc sm))" using assms(3-5) by (auto simp: blocks_def covers_def)
  then have "b \<notin> live_blks L sm" using sm_reach_inv[OF assms(2,1)] by (auto simp: sm_inv_def)
  then show ?thesis by (auto simp: live_blks_def live_def)
qed

theorem discards_never_cover_live_blocks_witness:
  "map (\<lambda>c. (ofs c, elen c)) (root (sm_dcc sx_queued)) = [(534, 2)] \<and>
   \<not> (\<exists>s < 12. \<exists>i < 2. 535 = blk_of sx_env s i \<and> (cur_valid_map (seg sx_queued s) i \<or> ckpt_valid_map (seg sx_queued s) i))"
proof -
  obtain c where c: "c \<in> set (root (sm_dcc sx_queued))" "ofs c = 534" "elen c = 2" using sx_queued_root by auto
  show ?thesis
    using discards_never_cover_live_blocks[OF sx_queued_inv reach_start c(1), of 535] c sx_queued_root by (simp add: eend_def)
qed

section \<open>Checkpoints\<close>

lemma bits_disjoint:
  assumes "\<And>i. i < n \<Longrightarrow> \<not> (a i \<and> b i)"
  shows "bits (\<lambda>i. a i \<or> b i) n = bits a n + bits b n"
  using assms by (induction n) (auto simp: count_idx_def)

text \<open>
  C5. A checkpoint that is written completely makes the current validity of every block the
  checkpointed one and keeps it, gives back exactly the prefree segments, so that the number of free
  segments grows by their number and none is left prefree, and every block it adds to the discard
  commands is dead afterwards. This is for a FITRIM range inside the main area, and not for
  \<open>discard_unit=section\<close> with several segments per section outside LFS mode (\<open>cp_ok\<close>): there whole sections are
  discarded.
\<close>

theorem checkpoint_commits:
  assumes "sm_inv L sm0" "reach sm_step (sm_enabled L) sm0 sm" "sm_enabled L (Sm_checkpoint env opt) sm"
  defines "w \<equiv> write_checkpoint env opt True sm"
  shows "(\<forall>s < nseg L. \<forall>i < nblk L. ckpt_valid_map (seg w s) i = cur_valid_map (seg sm s) i \<and> cur_valid_map (seg w s) i = cur_valid_map (seg sm s) i) \<and>
    (\<forall>s < nseg L. free_segmap (fsm w) s = (free_segmap (fsm sm) s \<and> \<not> dirty_segmap (dsl sm) PRE s)) \<and>
    int (free_segments (fsm w)) = int (free_segments (fsm sm)) + nr_dirty (dsl sm) PRE \<and> nr_dirty (dsl w) PRE = 0 \<and>
    blocks (root (sm_dcc w)) \<subseteq> blocks (root (sm_dcc sm)) \<union> dead_set L w"
proof -
  have i: "sm_inv L sm" by (rule sm_reach_inv[OF assms(2,1)])
  have l: "same_layout L env" and op: "cp_ok env opt" using assms(3) by simp_all
  note I = layout_inv[OF l i]
  note W = write_checkpoint_ok[OF I(1-5) op, folded w_def]
  have n: "nseg env = nseg L" "nblk env = nblk L" using l by (simp_all add: same_layout_def)
  have w: "sm_in L {} w" and sm: "sm_in L {} sm" using W(1) I(2) by (simp_all add: layout_eqs[OF l])
  have fr: "free_segments (fsm q) = bits (\<lambda>s. \<not> free_segmap (fsm q) s) (nseg L)" "nr_dirty (dsl q) t = int (bits (dirty_segmap (dsl q) t) (nseg L))"
    if "sm_in L {} q" for q :: "gc_info sm_info" and t
    using that by (simp_all add: sm_in_def free_ok_def dirty_ok_def)
  have pre: "free_segmap (fsm sm) s" if "dirty_segmap (dsl sm) PRE s" for s using sm that by (auto simp: sm_in_def dirty_ok_def)
  have "bits (\<lambda>s. \<not> free_segmap (fsm w) s) (nseg L) = bits (\<lambda>s. \<not> free_segmap (fsm sm) s \<or> dirty_segmap (dsl sm) PRE s) (nseg L)"
    by (rule bits_cong) (use W(11) in \<open>auto simp: n\<close>)
  also have "\<dots> = bits (\<lambda>s. \<not> free_segmap (fsm sm) s) (nseg L) + bits (dirty_segmap (dsl sm) PRE) (nseg L)"
    by (rule bits_disjoint) (use pre in auto)
  finally have "int (free_segments (fsm w)) = int (free_segments (fsm sm)) + nr_dirty (dsl sm) PRE" using fr[OF w] fr[OF sm] by simp
  moreover have "nr_dirty (dsl w) PRE = 0" using fr(2)[OF w, of PRE] W(12) by (simp add: bits_eq_0)
  moreover have "blocks (root (sm_dcc w)) \<subseteq> blocks (root (sm_dcc sm)) \<union> dead_set L w" using W(5) by (simp add: layout_eqs[OF l])
  ultimately show ?thesis using W(7,8,11) by (simp add: n all_ckpt_def)
qed

lemma sx_cp_enabled: "sm_enabled sx_env (Sm_checkpoint sx_env sx_opt) sx_pre"
  using sx_geom by (simp add: same_layout_def cp_ok_def sx_opt_def)

theorem checkpoint_commits_witness:
  "ckpt_valid_map (seg sx_pre 6) 0 \<and> \<not> ckpt_valid_map (seg (write_checkpoint sx_env sx_opt True sx_pre) 6) 0 \<and>
   free_segments (fsm sx_pre) = 5 \<and> free_segments (fsm (write_checkpoint sx_env sx_opt True sx_pre)) = 6"
proof -
  note c = checkpoint_commits[OF sx_pre_inv reach_start sx_cp_enabled]
  have v: "ckpt_valid_map (seg sx_pre 6) 0" "\<not> cur_valid_map (seg sx_pre 6) 0" "free_segments (fsm sx_pre) = 5" "nr_dirty (dsl sx_pre) PRE = 1"
    by (simp_all add: sx_pre_def seg_def sx_seg_def)
  have "\<not> ckpt_valid_map (seg (write_checkpoint sx_env sx_opt True sx_pre) 6) 0" using c v(2) by simp
  moreover have "free_segments (fsm (write_checkpoint sx_env sx_opt True sx_pre)) = 6" using c v(3,4) by simp
  ultimately show ?thesis using v by blast
qed

end
