(* ===== verification/Segment_Section.thy ===== *)
theory Segment_Section
  imports Segment_Prefree Segment_Example
begin

text \<open>
  Discards by whole sections (\<open>discard_unit=section\<close>) on a volume with several segments per section
  that is not in LFS mode: \<open>f2fs_clear_prefree_segments\<close> rounds a range of prefree segments to sections and
  queues all of it without looking at the valid blocks of the other segments.
\<close>

section \<open>Queueing adds the whole range\<close>

definition covered :: "nat set \<Rightarrow> 'g sm_info \<Rightarrow> 'g sm_info \<Rightarrow> bool" where
  "covered D sm sm' \<longleftrightarrow> dsl sm' = dsl sm \<and> (dcc_ok (sm_dcc sm) \<longrightarrow> dcc_ok (sm_dcc sm') \<and> blocks (root (sm_dcc sm)) \<union> D \<subseteq> blocks (root (sm_dcc sm')))"

lemma covered_trans: "covered D a b \<Longrightarrow> covered E b c \<Longrightarrow> covered (D \<union> E) a c"
  by (auto simp: covered_def)

lemma covered_piece:
  assumes "\<forall>bd. support_discard (seg_dev env) bd" "start + len < 2 ^ 32"
  shows "covered {start..<start + len} sm (queue_piece env bd start len sm)"
proof -
  let ?d = "sm_dcc sm"
  have "blocks (root (queue_discard_cmd (seg_dev env) (geo env) ?d bd start len)) = blocks (root ?d) \<union> {start..<start + len}" if "dcc_ok ?d"
    using update_discard_tree_range_ok[of ?d start len "seg_dev env" "geo env" bd] that assms
    by (auto simp: queue_discard_cmd_def dcc_ok_def added_def)
  then show ?thesis using queue_dcc_ok[OF _ assms(2), of ?d] by (auto simp: covered_def queue_piece_def)
qed

lemma covered_mark: "covered {} sm (mark_discard env i sm)"
  by (simp add: covered_def mark_discard_def put_seg_entry_def Let_def)

lemma covered_loop:
  assumes sup: "\<forall>bd. support_discard (seg_dev env) bd"
  shows "start + len = i \<Longrightarrow> i \<le> e \<Longrightarrow> e < 2 ^ 32 \<Longrightarrow> covered {start..<e} sm (issue_discard_loop env opt [i..<e] bd start len sm)"
proof (induction "e - i" arbitrary: i start len bd sm)
  case 0
  then have "i = e" by simp
  then show ?case using covered_piece[OF sup, of start len sm bd] 0 by (simp add: covered_def)
next
  case (Suc n)
  have u: "[i..<e] = i # [i + 1..<e]" using Suc by (simp add: upt_rec)
  have n: "n = e - (i + 1)" "i + 1 \<le> e" using Suc by simp_all
  show ?case
  proof (cases "i \<noteq> start \<and> target_dev opt i \<noteq> bd")
    case True
    let ?q = "mark_discard env i (queue_piece env bd start len sm)"
    have "covered {start..<i} sm ?q" using covered_trans[OF covered_piece[OF sup, of start len sm bd] covered_mark, of env i] Suc.prems by simp
    moreover have "covered {i..<e} ?q (issue_discard_loop env opt [i + 1..<e] (target_dev opt i) i 1 ?q)"
      by (rule Suc.hyps(1)[OF n(1)]) (use n Suc.prems in simp_all)
    ultimately have "covered ({start..<i} \<union> {i..<e}) sm (issue_discard_loop env opt [i + 1..<e] (target_dev opt i) i 1 ?q)" by (rule covered_trans)
    moreover have "{start..<i} \<union> {i..<e} = {start..<e}" using Suc.prems by auto
    ultimately show ?thesis unfolding u using True by simp
  next
    case False
    let ?q = "mark_discard env i sm"
    have "covered {start..<e} ?q (issue_discard_loop env opt [i + 1..<e] bd start (len + 1) ?q)"
      by (rule Suc.hyps(1)[OF n(1)]) (use n Suc.prems in simp_all)
    from covered_trans[OF covered_mark this] show ?thesis unfolding u using False by auto
  qed
qed

lemma covered_issue:
  "\<forall>bd. support_discard (seg_dev env) bd \<Longrightarrow> b + n < 2 ^ 32 \<Longrightarrow> covered {b..<b + n} sm (f2fs_issue_discard env opt b n sm)"
  using covered_loop[of env b 0 b "b + n"] by (simp add: f2fs_issue_discard_def)

section \<open>Rounds\<close>

lemma clear_prefree_bit:
  "dirty_segmap (dsl (clear_prefree_range a b sm)) PRE s = (dirty_segmap (dsl sm) PRE s \<and> \<not> (a \<le> s \<and> s < b))"
proof -
  have "dirty_segmap (fold (clear_dirty PRE) xs d) PRE s = (dirty_segmap d PRE s \<and> s \<notin> set xs)" for xs d
    by (induction xs arbitrary: d) (auto simp: clear_dirty_def)
  then show ?thesis by (simp add: clear_prefree_range_def)
qed

text \<open>The options of such a checkpoint, which is no FITRIM, on devices that support discard.\<close>

definition by_sections :: "seg_env \<Rightarrow> cp_opts \<Rightarrow> bool" where
  "by_sections env opt \<longleftrightarrow> discard_unit_section opt \<and> \<not> block_unit_discard env \<and> \<not> lfs_mode (geo env) \<and> realtime_discard opt \<and> \<not> cp_discard opt \<and>
     (\<forall>bd. support_discard (seg_dev env) bd)"

lemma section_round:
  assumes g: "seg_geom env" and o: "by_sections env opt" and d: "dcc_ok (sm_dcc sm)" and s: "dirty_segmap (dsl sm) PRE s" "s < nseg env" "pos \<le> s"
  shows "\<exists>nxt sm'. prefree_round env opt True pos sm = Some (nxt, sm') \<and> dcc_ok (sm_dcc sm') \<and> blocks (root (sm_dcc sm)) \<subseteq> blocks (root (sm_dcc sm')) \<and>
    pre_count env sm' < pre_count env sm \<and>
    (\<forall>s. pos \<le> s \<and> s < nseg env \<and> dirty_segmap (dsl sm) PRE s \<longrightarrow>
       (nxt \<le> s \<and> dirty_segmap (dsl sm') PRE s) \<or> (\<forall>t i. t div sps env = s div sps env \<and> i < nblk env \<longrightarrow> blk_of env t i \<in> blocks (root (sm_dcc sm'))))"
proof -
  let ?m = "dirty_segmap (dsl sm) PRE" and ?w = "sps env"
  define start where "start = find_next_bit ?m (nseg env) pos"
  define e where "e = find_next_zero_bit ?m (nseg env) (start + 1)"
  define a where "a = start - start mod ?w"
  define b where "b = (e + ?w - 1) div ?w * ?w"
  define q where "q = clear_prefree_range a b sm"
  define sm' where "sm' = f2fs_issue_discard env opt (blk_of env a 0) ((b - a) * nblk env) q"
  have sn: "start < nseg env" using find_next_bit_skips[of pos s ?m "nseg env"] s by (fastforce simp: start_def)
  note run = prefree_run[OF start_def sn e_def]
  have w: "0 < ?w" "nseg env = total_sections env * ?w" using g by (simp_all add: seg_geom_def)
  note rb = round_bounds[OF w(1) run(1), of "total_sections env"]
  have ab: "a \<le> start" "e \<le> b" "b \<le> nseg env" "a < b" "a = start div ?w * ?w" using rb run w by (auto simp: a_def b_def)
  have lg: "2 ^ log_blocks_per_seg (geo env) = nblk env" using g by (simp add: seg_geom_def geom_ok_def)
  have "prefree_round env opt True pos sm = Some (discard_prefree env opt b a b q)"
    using sn unfolding prefree_round_def Let_def MAIN_SEGS_def start_def[symmetric] by (simp add: e_def a_def b_def q_def)
  then have r: "prefree_round env opt True pos sm = Some (b, sm')"
    using o start_block[OF g, of a] ab lg unfolding discard_prefree_def by_sections_def sm'_def by simp
  have sup: "\<forall>bd. support_discard (seg_dev env) bd" using o by (simp add: by_sections_def)
  have "blk_of env a 0 + (b - a) * nblk env < 2 ^ 32" using seg_range_end[OF g ab(3)] ab(4) by simp
  note C = covered_issue[OF sup this, of q opt, folded sm'_def, unfolded covered_def]
  have qd: "sm_dcc q = sm_dcc sm" by (simp add: q_def clear_prefree_range_def)
  have bits: "dirty_segmap (dsl sm') PRE t = (?m t \<and> \<not> (a \<le> t \<and> t < b))" for t using C clear_prefree_bit[of a b sm t] by (simp add: q_def)
  have pc: "pre_count env sm' < pre_count env sm"
    unfolding pre_count_def by (rule bits_less[of _ _ start]) (use bits run(1,3) sn ab in auto)
  have all: "blk_of env t i \<in> blocks (root (sm_dcc sm'))" if "t div ?w = u div ?w" "pos \<le> u" "?m u" "u < b" "i < nblk env" for t u i
  proof -
    have "start \<le> u" using run(4)[of u] that by (meson not_le_imp_less)
    then have "start div ?w \<le> t div ?w" using that(1) by (simp add: div_le_mono)
    then have at: "a \<le> t" using ab(5) by (metis div_times_less_eq_dividend mult_le_mono1 order.trans)
    have "t div ?w < (e + ?w - 1) div ?w" using that(1,4) by (simp add: b_def less_mult_imp_div_less)
    then have tb: "t < b" unfolding b_def using w(1) by (metis div_less_iff_less_mult)
    obtain k where "t = a + k" using at le_Suc_ex by blast
    then have "blk_of env t i = blk_of env a 0 + ((t - a) * nblk env + i)" by (simp add: blk_of_def algebra_simps)
    moreover have "(t - a) * nblk env + i < (b - a) * nblk env"
    proof -
      have "(t - a) * nblk env + i < Suc (t - a) * nblk env" using that(5) by simp
      also have "\<dots> \<le> (b - a) * nblk env" using tb at by (intro mult_le_mono1) simp
      finally show ?thesis .
    qed
    ultimately show ?thesis using C d qd by auto
  qed
  have "(b \<le> u \<and> dirty_segmap (dsl sm') PRE u) \<or> (\<forall>t i. t div ?w = u div ?w \<and> i < nblk env \<longrightarrow> blk_of env t i \<in> blocks (root (sm_dcc sm')))"
    if "pos \<le> u \<and> u < nseg env \<and> ?m u" for u
    using all[of _ u] bits[of u] that by (cases "u < b") auto
  then show ?thesis using r C d qd pc by auto
qed

lemma section_loop:
  assumes g: "seg_geom env" and o: "by_sections env opt" and w: "t div sps env = s div sps env" "i < nblk env"
  shows "dcc_ok (sm_dcc sm) \<Longrightarrow> pre_count env sm < k \<Longrightarrow> s < nseg env \<Longrightarrow>
    (pos \<le> s \<and> dirty_segmap (dsl sm) PRE s) \<or> blk_of env t i \<in> blocks (root (sm_dcc sm)) \<Longrightarrow>
    \<exists>sm'. prefree_loop k env opt True pos sm = Some sm' \<and> blk_of env t i \<in> blocks (root (sm_dcc sm'))"
proof (induction k arbitrary: pos sm)
  case (Suc k)
  show ?case
  proof (cases "\<exists>u. dirty_segmap (dsl sm) PRE u \<and> u < nseg env \<and> pos \<le> u")
    case False
    then have "find_next_bit (dirty_segmap (dsl sm) PRE) (nseg env) pos \<ge> nseg env" using find_next_bit_less[of "dirty_segmap (dsl sm) PRE" "nseg env" pos] by (meson not_le_imp_less)
    then have "prefree_round env opt True pos sm = None" by (simp add: prefree_round_def MAIN_SEGS_def)
    then show ?thesis using Suc.prems(3,4) False by auto
  next
    case True
    then obtain u where u: "dirty_segmap (dsl sm) PRE u" "u < nseg env" "pos \<le> u" by blast
    obtain nxt sm1 where r: "prefree_round env opt True pos sm = Some (nxt, sm1)" "dcc_ok (sm_dcc sm1)" "blocks (root (sm_dcc sm)) \<subseteq> blocks (root (sm_dcc sm1))"
      "pre_count env sm1 < pre_count env sm"
      "\<forall>s. pos \<le> s \<and> s < nseg env \<and> dirty_segmap (dsl sm) PRE s \<longrightarrow> (nxt \<le> s \<and> dirty_segmap (dsl sm1) PRE s) \<or>
         (\<forall>t i. t div sps env = s div sps env \<and> i < nblk env \<longrightarrow> blk_of env t i \<in> blocks (root (sm_dcc sm1)))"
      using section_round[OF g o Suc.prems(1) u] by blast
    have "(nxt \<le> s \<and> dirty_segmap (dsl sm1) PRE s) \<or> blk_of env t i \<in> blocks (root (sm_dcc sm1))"
      using r(3,5) Suc.prems(3,4) w by blast
    then show ?thesis using Suc.IH[OF r(2)] r(1,4) Suc.prems(2,3) by simp
  qed
qed simp

section \<open>Live blocks are queued\<close>

text \<open>
  C40. Discarding by sections reaches blocks that are in use. With \<open>discard_unit=section\<close>, several
  segments per section and a mode other than LFS, \<open>f2fs_clear_prefree_segments\<close> queues a discard for every block
  of the section of a prefree segment, whatever the other segments of the section hold: nothing tests their valid
  blocks. The checkpoint is no FITRIM, online discard is on, and the devices support it.
\<close>

theorem section_discard_takes_whole_section:
  assumes "seg_geom env" "by_sections env opt" "dcc_ok (sm_dcc sm)" "dirty_segmap (dsl sm) PRE s" "s < nseg env"
    and "t div sps env = s div sps env" "i < nblk env"
  shows "blk_of env t i \<in> blocks (root (sm_dcc (f2fs_clear_prefree_segments env opt sm)))"
proof -
  have pc: "pre_count env sm < nseg env + 1" using count_idx_le[of "\<lambda>b. b" "dirty_segmap (dsl sm) PRE" "nseg env"] by (simp add: pre_count_def)
  obtain q where q: "prefree_loop (nseg env + 1) env opt True 0 sm = Some q" "blk_of env t i \<in> blocks (root (sm_dcc q))"
    using section_loop[OF assms(1,2,6,7,3) pc assms(5), of 0] assms(4) by auto
  have o: "discard_unit_section opt" "\<not> block_unit_discard env" using assms(2) by (simp_all add: by_sections_def)
  have "root (wake_up_discard_thread False b d) = root d" for b d by (simp add: wake_up_discard_thread_def Let_def)
  then show ?thesis using q o by (simp add: f2fs_clear_prefree_segments_def Let_def MAIN_SEGS_def del: prefree_loop.simps)
qed

text \<open>Six sections of two segments; segment 6 is prefree, and segment 7 beside it has a block in use.\<close>

definition sy_env :: seg_env where
  "sy_env = sx_env\<lparr>geo := sx_sbi\<lparr>segs_per_sec := 2\<rparr>, total_sections := 6, block_unit_discard := False\<rparr>"

definition sy_opt :: cp_opts where
  "sy_opt = \<lparr>hw_support_discard = True, realtime_discard = True, discard_unit_section = True, max_discards = 16, target_dev = (\<lambda>_. 0), cp_discard = False,
     trim_start = 0, trim_end = 0, trim_minlen = 1, discard_idle = True, atgc_enabled = False\<rparr>"

definition sy_init :: "gc_info sm_info" where
  "sy_init = sx_init\<lparr>dsl := (dsl sx_init)\<lparr>dirty_segmap := (\<lambda>t s. t = PRE \<and> s = 6), nr_dirty := (\<lambda>t. if t = PRE then 1 else 0)\<rparr>,
     sit := (sit sx_init)\<lparr>sm_sentries := (\<lambda>s. if s = 7 then sx_seg\<lparr>valid_blocks := 1, cur_valid_map := (\<lambda>i. i = 1), ckpt_valid_map := (\<lambda>i. i = 1)\<rparr> else sx_seg)\<rparr>\<rparr>"

theorem section_discard_takes_whole_section_witness:
  "live sy_init 7 1 \<and> blk_of sy_env 7 1 \<in> blocks (root (sm_dcc (f2fs_clear_prefree_segments sy_env sy_opt sy_init)))"
proof
  show "live sy_init 7 1" by (simp add: live_def seg_def sy_init_def)
  have g: "seg_geom sy_env"
    by (simp add: seg_geom_def geom_ok_def sy_env_def sx_env_def sx_sbi_def ex_sbi_def main_start_def main_end_def NULL_SEGNO_def UINT_MAX_def)
  have e: "sps sy_env = 2" "nblk sy_env = 2" "nseg sy_env = 12" by (simp_all add: sy_env_def sx_sbi_def ex_sbi_def)
  have "by_sections sy_env sy_opt" by (simp add: by_sections_def sy_env_def sy_opt_def sx_env_def sx_sbi_def dx_env_def)
  moreover have "dcc_ok (sm_dcc sy_init)" "dirty_segmap (dsl sy_init) PRE 6" using dx_new_ok by (simp_all add: sy_init_def sx_init_def)
  ultimately show "blk_of sy_env 7 1 \<in> blocks (root (sm_dcc (f2fs_clear_prefree_segments sy_env sy_opt sy_init)))"
    using section_discard_takes_whole_section[OF g, of sy_opt sy_init 6 7 1] by (simp add: e)
qed

end
