(* ===== verification/Gc_Best.thy ===== *)
theory Gc_Best
  imports Gc_Ssr
begin

text \<open>
  What victim selection finds for SSR: when its budget covers the dirty segments of the log, the
  search visits each of them once, and it returns one with the fewest blocks valid in the last
  checkpoint, whenever there is one it may use.
\<close>

section \<open>Candidates\<close>

definition ssr_cand :: "seg_env \<Rightarrow> gc_info sm_info \<Rightarrow> nat \<Rightarrow> bool" where
  "ssr_cand env sm s \<longleftrightarrow>
     \<not> sec_usage_check env sm (GET_SEC_FROM_SEG env s) \<and> \<not> victim_secmap (dsl sm) (GET_SEC_FROM_SEG env s) \<and>
     (cp_disabled env \<longrightarrow> f2fs_segment_has_free_slot env sm s)"

text \<open>The best of the candidates seen so far.\<close>

definition best :: "seg_env \<Rightarrow> gc_info sm_info \<Rightarrow> nat set \<Rightarrow> victim_sel_policy \<Rightarrow> bool" where
  "best env sm V p \<longleftrightarrow>
     (\<forall>s \<in> V. ssr_cand env sm s \<longrightarrow> p_min_cost p \<le> ckpt_valid_blocks (seg sm s)) \<and>
     (p_min_segno p = NULL_SEGNO \<and> p_min_cost p = nblk env \<or>
      p_min_segno p \<in> V \<and> ssr_cand env sm (p_min_segno p) \<and> p_min_cost p = ckpt_valid_blocks (seg sm (p_min_segno p)) \<and> p_min_cost p < nblk env)"

text \<open>During the search only \<open>last_victim\<close> changes.\<close>

definition same_but_last :: "gc_info sm_info \<Rightarrow> gc_info sm_info \<Rightarrow> bool" where
  "same_but_last sm0 sm \<longleftrightarrow> (\<exists>v. sm = upd_gc (\<lambda>g. g\<lparr>last_victim := v\<rparr>) sm0)"

lemma same_but_lastD:
  assumes "same_but_last sm0 sm"
  shows "seg sm = seg sm0" "ssr_cand env sm s = ssr_cand env sm0 s" "same_but_last sm0 (upd_gc (\<lambda>g. g\<lparr>last_victim := v\<rparr>) sm)"
  using assms
  by (auto simp: same_but_last_def ssr_cand_def sec_usage_check_def IS_CURSEC_def IS_CURSEG_def f2fs_segment_has_free_slot_def
      next_free_blkoff_def seg_def get_seg_entry_def fun_eq_iff)

lemma consider_ssr:
  assumes "p_alloc_mode p = SSR"
  shows "consider_victim env BG_GC False False s p ns sm =
    (if ssr_cand env sm s \<and> ckpt_valid_blocks (seg sm s) < p_min_cost p
     then p\<lparr>p_min_segno := s, p_min_cost := ckpt_valid_blocks (seg sm s)\<rparr> else p, ns, sm)"
  using assms by (auto simp: consider_victim_def skip_victim_def ssr_cand_def try_victim_def get_gc_cost_def Let_def)

lemma best_insert:
  assumes "best env sm V p"
  shows "best env sm (insert s V) (if ssr_cand env sm s \<and> ckpt_valid_blocks (seg sm s) < p_min_cost p
     then p\<lparr>p_min_segno := s, p_min_cost := ckpt_valid_blocks (seg sm s)\<rparr> else p)"
  using assms by (auto simp: best_def)

section \<open>The search visits every segment\<close>

text \<open>
  What is left to visit: segments from the offset on, or, before the search wraps around, those
  below the last victim.
\<close>

definition left_over :: "nat set \<Rightarrow> nat set \<Rightarrow> nat \<Rightarrow> nat \<Rightarrow> nat \<Rightarrow> bool" where
  "left_over M V off ls lv \<longleftrightarrow>
     V \<subseteq> M \<and> V \<inter> {off..<ls} = {} \<and>
     (M - V \<subseteq> {off..<ls} \<or> lv \<noteq> 0 \<and> lv \<le> off \<and> V \<inter> {..<lv} = {} \<and> M - V \<subseteq> {off..<ls} \<union> {..<lv})"

lemma left_over_wrap:
  assumes "left_over M V off ls lv" "V \<noteq> M" "\<And>s. s \<in> M \<Longrightarrow> \<not> (off \<le> s \<and> s < ls)"
  shows "lv \<noteq> 0" "left_over M V 0 lv 0"
proof -
  have n: "(M - V) \<inter> {off..<ls} = {}" using assms(3) by auto
  have ne: "M - V \<noteq> {}" using assms(1,2) by (auto simp: left_over_def)
  then have "\<not> M - V \<subseteq> {off..<ls}" using n by blast
  then have a: "lv \<noteq> 0" "V \<inter> {..<lv} = {}" "M - V \<subseteq> {off..<ls} \<union> {..<lv}" using assms(1) by (auto simp: left_over_def)
  then have "M - V \<subseteq> {..<lv}" using n by blast
  then show "lv \<noteq> 0" "left_over M V 0 lv 0" using a assms(1) by (simp_all add: left_over_def lessThan_atLeast0)
qed

lemma left_over_visit:
  assumes "left_over M V off ls lv" "s \<in> M" "off \<le> s" "s < ls" "\<And>r. off \<le> r \<Longrightarrow> r < s \<Longrightarrow> r \<notin> M"
  shows "s \<notin> V" "left_over M (insert s V) (s + 1) ls lv"
proof -
  show "s \<notin> V" using assms by (auto simp: left_over_def)
  have "M - insert s V \<subseteq> {s + 1..<ls}" if "M - V \<subseteq> {off..<ls}"
  proof
    fix r assume r: "r \<in> M - insert s V"
    then have "r \<in> {off..<ls}" using that by blast
    then show "r \<in> {s + 1..<ls}" using assms(5)[of r] r by (cases "r < s") auto
  qed
  moreover have "M - insert s V \<subseteq> {s + 1..<ls} \<union> {..<lv}" if "M - V \<subseteq> {off..<ls} \<union> {..<lv}"
  proof
    fix r assume r: "r \<in> M - insert s V"
    then have "r \<in> {off..<ls} \<union> {..<lv}" using that by blast
    then show "r \<in> {s + 1..<ls} \<union> {..<lv}" using assms(5)[of r] r by (cases "r < s") auto
  qed
  ultimately show "left_over M (insert s V) (s + 1) ls lv" using assms(1-4) unfolding left_over_def by auto
qed

lemma victim_loop_best:
  assumes fin: "finite M" and m: "M = {s. m s}"
  shows "victim_loop k env BG_GC False False prev ls p ns sm = Some (ls', p', sm') \<Longrightarrow> same_but_last sm0 sm \<Longrightarrow>
    p_alloc_mode p = SSR \<Longrightarrow> p_gc_mode p = GC_GREEDY \<Longrightarrow> p_dirty_bitmap p = m \<Longrightarrow> p_ofs_unit p = 1 \<Longrightarrow> p_max_search p = card M \<Longrightarrow>
    best env sm0 V p \<Longrightarrow> left_over M V (p_offset p) ls (last_victim (gc_state sm) GC_GREEDY) \<Longrightarrow> ns = card V \<Longrightarrow> V \<noteq> M \<Longrightarrow>
    best env sm0 M p'"
proof (induction k arbitrary: ls p ns sm V)
  case (Suc k)
  let ?lv = "last_victim (gc_state sm)"
  define s where "s = find_next_bit m ls (p_offset p)"
  note P = Suc.prems(3-7)
  show ?case
  proof (cases "s \<ge> ls")
    case True
    then have "\<And>r. r \<in> M \<Longrightarrow> \<not> (p_offset p \<le> r \<and> r < ls)" using find_next_bit_ge[of ls m "p_offset p"] m by (auto simp: s_def)
    note w = left_over_wrap[OF Suc.prems(9,11) this]
    have "victim_loop k env BG_GC False False prev (?lv GC_GREEDY) (p\<lparr>p_offset := 0\<rparr>) ns (upd_gc (\<lambda>g. g\<lparr>last_victim := ?lv(GC_GREEDY := 0)\<rparr>) sm) = Some (ls', p', sm')"
      using Suc.prems(1) True w(1) P by (simp add: s_def[symmetric] Let_def)
    from Suc.IH[OF this, of V] show ?thesis
      using Suc.prems P w(2) same_but_lastD(3)[OF Suc.prems(2)] by (simp add: best_def)
  next
    case False
    have s: "m s" "p_offset p \<le> s" "s < ls" using find_next_bit_less[of m ls "p_offset p"] False by (simp_all add: s_def)
    have bf: "\<And>r. p_offset p \<le> r \<Longrightarrow> r < s \<Longrightarrow> r \<notin> M" using find_next_bit_skips[of "p_offset p" _ m ls] m by (auto simp: s_def)
    have "s \<in> M" using s m by simp
    note v = left_over_visit[OF Suc.prems(9) this s(2,3) bf]
    let ?q = "p\<lparr>p_offset := s + 1\<rparr>"
    define p1 where "p1 = (if ssr_cand env sm s \<and> ckpt_valid_blocks (seg sm s) < p_min_cost ?q then ?q\<lparr>p_min_segno := s, p_min_cost := ckpt_valid_blocks (seg sm s)\<rparr> else ?q)"
    have c: "consider_victim env BG_GC False False s ?q (ns + 1) sm = (p1, ns + 1, sm)" using consider_ssr[of ?q] P(1) by (simp add: p1_def)
    have b1: "best env sm0 (insert s V) p1"
    proof -
      have "best env sm0 V ?q" using Suc.prems(8) by (simp add: best_def)
      from best_insert[OF this, of s] show ?thesis unfolding p1_def same_but_lastD[OF Suc.prems(2)] .
    qed
    have f: "p_alloc_mode p1 = SSR" "p_gc_mode p1 = GC_GREEDY" "p_dirty_bitmap p1 = m" "p_ofs_unit p1 = 1" "p_max_search p1 = card M" "p_offset p1 = s + 1"
      using P by (simp_all add: p1_def)
    have card: "card (insert s V) = ns + 1" using v(1) Suc.prems(9,10) fin by (auto simp: left_over_def finite_subset)
    have e: "(if ns + 1 \<ge> card M then Some (ls, p1, note_last_victim env p1 prev s sm) else victim_loop k env BG_GC False False prev ls p1 (ns + 1) sm) = Some (ls', p', sm')"
      using Suc.prems(1) False P c f(5) by (simp add: s_def[symmetric] Let_def del: One_nat_def)
    show ?thesis
    proof (cases "ns + 1 \<ge> card M")
      case True
      have "insert s V \<subseteq> M" using v(2) by (simp add: left_over_def)
      then have "insert s V = M" using True card fin by (metis card_seteq)
      then show ?thesis using e True b1 by simp
    next
      case nb: False
      have "insert s V \<noteq> M" using nb card by auto
      with Suc.IH[of ls p1 "ns + 1" sm "insert s V"] e nb Suc.prems(2) f b1 v(2) card show ?thesis by simp
    qed
  qed
qed simp

section \<open>The result\<close>

definition usable_victim :: "seg_env \<Rightarrow> gc_info sm_info \<Rightarrow> seg_type \<Rightarrow> nat \<Rightarrow> bool" where
  "usable_victim env sm t s \<longleftrightarrow> dirty_segmap (dsl sm) (Dirty_log t) s \<and> ssr_cand env sm s \<and> ckpt_valid_blocks (seg sm s) < nblk env"

text \<open>The budget of the search covers all dirty segments of the log.\<close>

definition full_search :: "seg_env \<Rightarrow> gc_info sm_info \<Rightarrow> seg_type \<Rightarrow> bool" where
  "full_search env sm t \<longleftrightarrow> sb_gc_mode (geo env) = GC_URGENT_HIGH \<or> bits (dirty_segmap (dsl sm) (Dirty_log t)) (nseg env) \<le> max_victim_search (gc_state sm)"

lemma bits_card:
  assumes "\<And>s. m s \<Longrightarrow> s < n"
  shows "bits m n = card {s. m s}" "finite {s. m s}"
proof -
  have "{s. m s} = set (filter m [0..<n])" using assms by auto
  then show "bits m n = card {s. m s}" "finite {s. m s}" by (simp_all add: count_idx_def distinct_card[symmetric])
qed

text \<open>The policy with which the search starts.\<close>

definition ssr_start :: "seg_env \<Rightarrow> seg_type \<Rightarrow> nat \<Rightarrow> gc_info sm_info \<Rightarrow> victim_sel_policy" where
  "ssr_start env t age sm =
     (let p = select_policy env BG_GC (Some t) sm
            \<lparr>p_alloc_mode = SSR, p_gc_mode = GC_GREEDY, p_dirty_bitmap = (\<lambda>_. False), p_max_search = 0, p_offset = 0, p_ofs_unit = 1,
             p_min_cost = 0, p_oldest_age = 0, p_min_segno = NULL_SEGNO, p_age = age, p_age_threshold = age_threshold (gc_state sm)\<rparr>;
          p = p\<lparr>p_min_segno := NULL_SEGNO, p_oldest_age := 0\<rparr>
      in p\<lparr>p_min_cost := get_max_cost env p\<rparr>)"

lemma ssr_start_facts:
  "p_alloc_mode (ssr_start env t age sm) = SSR" "p_gc_mode (ssr_start env t age sm) = GC_GREEDY"
  "p_dirty_bitmap (ssr_start env t age sm) = dirty_segmap (dsl sm) (Dirty_log t)" "p_ofs_unit (ssr_start env t age sm) = 1"
  "p_min_segno (ssr_start env t age sm) = NULL_SEGNO" "p_min_cost (ssr_start env t age sm) = nblk env"
  "p_offset (ssr_start env t age sm) = 0 \<or> p_offset (ssr_start env t age sm) = last_victim (gc_state sm) GC_GREEDY"
  "full_search env sm t \<Longrightarrow> nr_dirty (dsl sm) (Dirty_log t) = int (bits (dirty_segmap (dsl sm) (Dirty_log t)) (nseg env)) \<Longrightarrow> seg_geom env \<Longrightarrow>
     p_max_search (ssr_start env t age sm) = bits (dirty_segmap (dsl sm) (Dirty_log t)) (nseg env)"
proof -
  let ?n = "bits (dirty_segmap (dsl sm) (Dirty_log t)) (nseg env)"
  show "p_max_search (ssr_start env t age sm) = ?n" if "full_search env sm t" "nr_dirty (dsl sm) (Dirty_log t) = int ?n" "seg_geom env"
  proof -
    have "?n < 2 ^ 32"
      using count_idx_le[of "\<lambda>b. b" "dirty_segmap (dsl sm) (Dirty_log t)" "nseg env"] that(3) by (simp add: seg_geom_def NULL_SEGNO_def UINT_MAX_def)
    then have u: "u32i (int ?n) = ?n" by (simp add: u32i_def nat_mod_distrib)
    show ?thesis using that(1,2) u by (auto simp: ssr_start_def select_policy_def policy_of_mode_def Let_def full_search_def)
  qed
qed (simp_all add: ssr_start_def select_policy_def policy_of_mode_def get_max_cost_def Let_def)

lemma ssr_pass_eq:
  fixes t :: seg_type
  defines "p0 \<equiv> \<lambda>age (sm :: gc_info sm_info). \<lparr>p_alloc_mode = SSR, p_gc_mode = GC_GREEDY, p_dirty_bitmap = (\<lambda>_. False), p_max_search = 0, p_offset = 0, p_ofs_unit = 1,
             p_min_cost = 0, p_oldest_age = 0, p_min_segno = NULL_SEGNO, p_age = age, p_age_threshold = age_threshold (gc_state sm)\<rparr>"
  shows "victim_pass n env BG_GC (Some t) NULL_SEGNO False ls (p0 age sm) sm =
     (let p = ssr_start env t age sm
      in if p_max_search p = 0 then Some (V_out ENODATA, ls, p, sm)
         else case victim_loop n env BG_GC False False (last_victim (gc_state sm) GC_GREEDY) ls p 0 sm of
                None \<Rightarrow> None
              | Some (ls, p, sm) \<Rightarrow> Some (V_scanned, ls, p, sm))"
proof -
  define p where "p = ssr_start env t age sm"
  note F = ssr_start_facts(1-6)[of env t age sm, folded p_def]
  have at: "(p_gc_mode p = GC_AT \<or> p_alloc_mode p = AT_SSR) = False" and nx: "next_victims env BG_GC False p sm = None" and bg: "bg_victims env BG_GC False p sm = (False, p, sm)"
    using F by (simp_all add: next_victims_def bg_victims_def)
  have S: "scan_pass n env BG_GC False False ls p sm =
      (case victim_loop n env BG_GC False False (last_victim (gc_state sm) GC_GREEDY) ls p 0 sm of None \<Rightarrow> None | Some (ls, p, sm) \<Rightarrow> Some (V_scanned, ls, p, sm))"
    unfolding scan_pass_def Let_def bg F(2) by (simp split: option.split)
  have e: "(select_policy env BG_GC (Some t) sm (p0 age sm))\<lparr>p_min_segno := NULL_SEGNO, p_oldest_age := 0\<rparr>
      \<lparr>p_min_cost := get_max_cost env ((select_policy env BG_GC (Some t) sm (p0 age sm))\<lparr>p_min_segno := NULL_SEGNO, p_oldest_age := 0\<rparr>)\<rparr> = p"
    by (simp add: p_def ssr_start_def p0_def Let_def)
  show ?thesis unfolding victim_pass_def Let_def e at p_def[symmetric] by (simp add: S nx)
qed

lemma ssr_victim_best:
  fixes t :: seg_type
  assumes g: "seg_geom env" and ok: "sm_in env X sm" and gc: "gc_ok env (gc_state sm)" and b: "full_search env sm t"
    and r: "ssr_victim env t SSR age sm = (r, sm')"
  shows "r = None \<longleftrightarrow> \<not> (\<exists>s. usable_victim env sm t s)"
    "r = Some s \<Longrightarrow> usable_victim env sm t s \<and> (\<forall>s'. usable_victim env sm t s' \<longrightarrow> ckpt_valid_blocks (seg sm s) \<le> ckpt_valid_blocks (seg sm s'))"
proof -
  let ?m = "dirty_segmap (dsl sm) (Dirty_log t)" and ?n = "2 * nseg env + 3" and ?lv = "last_victim (gc_state sm) GC_GREEDY"
  define M where "M = {s. ?m s}"
  define p where "p = ssr_start env t age sm"
  have lt: "?m s \<Longrightarrow> s < nseg env" and nr: "nr_dirty (dsl sm) (Dirty_log t) = int (bits ?m (nseg env))" for s using ok by (auto simp: sm_in_def dirty_ok_def)
  note bc = bits_card[of ?m "nseg env", OF lt, folded M_def]
  note F = ssr_start_facts(1-7)[of env t age sm, folded p_def]
  have mx: "p_max_search p = card M" using ssr_start_facts(8)[OF b nr g, of age] bc(1) by (simp add: p_def)
  have ls: "total_sections env * sps env = nseg env" using g by (simp add: seg_geom_def)
  note V = ssr_pass_eq[of ?n env t "nseg env" age sm, folded p_def, unfolded Let_def]
  have start: "searching env sm ?m (p_age_threshold p) SSR p sm" using F gc by (simp add: searching_def ssr_policy_def gc_ok_def)
  have "(nseg env - p_offset p) + (if ?lv \<noteq> 0 then nseg env + 1 else 0) < ?n" by (simp split: if_splits) arith
  from victim_loop_ok[OF g _ lt start this, of ?lv "nseg env" 0] obtain ls' q sm1
    where L: "victim_loop ?n env BG_GC False False ?lv (nseg env) p 0 sm = Some (ls', q, sm1)" and sq: "searching env sm ?m (p_age_threshold p) SSR q sm1" by auto
  have Q: "p_alloc_mode q = SSR" "p_gc_mode q = GC_GREEDY" "p_ofs_unit q = 1" using sq by (simp_all add: searching_def ssr_policy_def)
  have r': "r = (if M = {} \<or> p_min_segno q = NULL_SEGNO then None else Some (p_min_segno q))"
  proof -
    have e: "r = (case victim_passes 3 ?n env BG_GC (Some t) NULL_SEGNO False (nseg env)
        \<lparr>p_alloc_mode = SSR, p_gc_mode = GC_GREEDY, p_dirty_bitmap = (\<lambda>_. False), p_max_search = 0, p_offset = 0, p_ofs_unit = 1,
             p_min_cost = 0, p_oldest_age = 0, p_min_segno = NULL_SEGNO, p_age = age, p_age_threshold = age_threshold (gc_state sm)\<rparr> sm of
        Some (V_0, segno, sm) \<Rightarrow> Some segno | _ \<Rightarrow> None)"
      using r by (auto simp: ssr_victim_def get_victim_by_default_def ls MAIN_SEGS_def split: option.splits prod.splits victim_ret.splits)
    have "p_max_search p = 0 \<longleftrightarrow> M = {}" using mx bc(2) by simp
    then show ?thesis unfolding e using V L Q by (simp add: numeral_3_eq_3 del: victim_loop.simps)
  qed
  have B: "best env sm M q" if ne: "M \<noteq> {}"
  proof (rule victim_loop_best[OF bc(2) M_def L])
    show "same_but_last sm sm" unfolding same_but_last_def by (rule exI[of _ "last_victim (gc_state sm)"]) simp
    show "best env sm {} p" using F by (simp add: best_def)
    have "M \<subseteq> {..<nseg env}" using lt by (auto simp: M_def)
    then show "left_over M {} (p_offset p) (nseg env) ?lv" using F(7) by (auto simp: left_over_def)
    show "{} \<noteq> M" using ne by simp
  qed (use F mx in simp_all)
  have us: "usable_victim env sm t x \<longleftrightarrow> x \<in> M \<and> ssr_cand env sm x \<and> ckpt_valid_blocks (seg sm x) < nblk env" for x by (simp add: usable_victim_def M_def)
  have N: "x \<noteq> NULL_SEGNO" if "x \<in> M" for x using lt that seg_not_null[OF g] by (simp add: M_def)
  show "r = None \<longleftrightarrow> \<not> (\<exists>s. usable_victim env sm t s)"
  proof
    assume n: "r = None"
    show "\<not> (\<exists>s. usable_victim env sm t s)"
    proof
      assume "\<exists>s. usable_victim env sm t s"
      then obtain x where x: "x \<in> M" "ssr_cand env sm x" "ckpt_valid_blocks (seg sm x) < nblk env" using us by blast
      then have "M \<noteq> {}" by auto
      then have b: "best env sm M q" "p_min_segno q = NULL_SEGNO" using B n r' by (auto split: if_splits)
      then show False using x N[of "p_min_segno q"] by (auto simp: best_def)
    qed
  next
    assume n: "\<not> (\<exists>s. usable_victim env sm t s)"
    have "p_min_segno q = NULL_SEGNO" if "M \<noteq> {}"
      using B[OF that] n us[of "p_min_segno q"] by (auto simp: best_def)
    then show "r = None" using r' by auto
  qed
  show "usable_victim env sm t s \<and> (\<forall>s'. usable_victim env sm t s' \<longrightarrow> ckpt_valid_blocks (seg sm s) \<le> ckpt_valid_blocks (seg sm s'))" if "r = Some s"
  proof -
    have "M \<noteq> {}" "p_min_segno q = s" "s \<noteq> NULL_SEGNO" using that r' by (auto split: if_splits)
    then show ?thesis using B by (auto simp: best_def us)
  qed
qed

end
