(* ===== verification/Gc_Props.thy ===== *)
theory Gc_Props
  imports Gc_Best Segment_Example
begin

text \<open>What the allocator can expect from victim selection in SSR mode.\<close>

section \<open>An example\<close>

text \<open>Segment 6 of the log for hot data has one valid block.\<close>

definition sx_dirty :: "gc_info sm_info" where
  "sx_dirty = sx_init\<lparr>sit := (sit sx_init)\<lparr>sm_sentries := (\<lambda>_. sx_seg)(6 := sx_seg\<lparr>valid_blocks := 1, ckpt_valid_blocks := 1, cur_valid_map := (\<lambda>i. i = 0), ckpt_valid_map := (\<lambda>i. i = 0)\<rparr>),
       written_valid_blocks := 1\<rparr>,
     fsm := \<lparr>free_segments = 5, free_sections = 5, free_segmap = (\<lambda>s. s < 7), free_secmap = (\<lambda>s. s < 7)\<rparr>,
     dsl := \<lparr>dirty_segmap = (\<lambda>t s. t \<in> {DIRTY, Dirty_log CURSEG_HOT_DATA} \<and> s = 6), nr_dirty = (\<lambda>t. if t \<in> {DIRTY, Dirty_log CURSEG_HOT_DATA} then 1 else 0),
       dirty_secmap = (\<lambda>_. False), victim_secmap = (\<lambda>_. False)\<rparr>\<rparr>"

lemma sx_not_log6: "curseg sm = sx_curseg \<Longrightarrow> \<not> IS_CURSEG sm 6"
proof -
  assume "curseg sm = sx_curseg"
  moreover have "sx_log c \<noteq> 6" for c
    using sx_log_cases(5) sx_log_cases(4)[of c] by (cases c) (auto simp: NULL_SEGNO_def UINT_MAX_def less_irrefl dest: less_imp_neq)
  ultimately show ?thesis by (simp add: is_curseg sx_log_cases)
qed

lemma sx_dirty_ok: "sm_in sx_env {} sx_dirty"
proof -
  have s: "seg sx_dirty s = (if s = 6 then sx_seg\<lparr>valid_blocks := 1, ckpt_valid_blocks := 1, cur_valid_map := (\<lambda>i. i = 0), ckpt_valid_map := (\<lambda>i. i = 0)\<rparr> else sx_seg)" for s
    by (simp add: sx_dirty_def seg_def)
  have l: "live sx_dirty s i = (s = 6 \<and> i = 0)" for s i by (simp add: live_def s sx_seg_def)
  have c: "curseg sx_dirty = sx_curseg" by (simp add: sx_dirty_def)
  have d: "dirty_segmap (dsl sx_dirty) t = (\<lambda>s. t \<in> {DIRTY, Dirty_log CURSEG_HOT_DATA} \<and> s = 6)"
    "nr_dirty (dsl sx_dirty) t = (if t \<in> {DIRTY, Dirty_log CURSEG_HOT_DATA} then 1 else 0)" for t by (simp_all add: sx_dirty_def)
  have f: "fsm sx_dirty = \<lparr>free_segments = 5, free_sections = 5, free_segmap = (\<lambda>s. s < 7), free_secmap = (\<lambda>s. s < 7)\<rparr>" by (simp add: sx_dirty_def)
  have "(\<Sum>s < 12. valid_blocks (seg sx_dirty s)) = 1" by (simp add: s sx_seg_def eval_nat_numeral)
  then have "sit_ok sx_env sx_dirty"
    by (auto simp: sit_ok_def entry_ok_def s sx_seg_def sx_bits) (simp_all add: sx_dirty_def sx_init_def sx_seg_def sx_bits)
  moreover have "free_ok sx_env (fsm sx_dirty)" by (simp add: free_ok_def f sx_bits)
  moreover have "dirty_ok sx_env sx_dirty"
  proof -
    have "bits (dirty_segmap (dsl sx_dirty) t) 12 = (if t \<in> {DIRTY, Dirty_log CURSEG_HOT_DATA} then 1 else 0)" for t
      using sx_bits by (cases "t \<in> {DIRTY, Dirty_log CURSEG_HOT_DATA}") (simp_all add: d)
    then show ?thesis by (auto simp: dirty_ok_def d f sx_not_log6[OF c] s sx_seg_def)
  qed
  moreover have "free_clean sx_env sx_dirty" by (simp add: free_clean_def l f)
  moreover have "logs_in sx_env {} sx_dirty" using sx_logs by (simp add: logs_in_def log_ok_def c f l) (use less_trans in force)
  ultimately show ?thesis by (simp add: sm_in_def)
qed

section \<open>The search\<close>

text \<open>
  C19. In every consistent state the search for an SSR segment ends, within twice the number of main segments
  and three more rounds, whatever its budget is. When the budget covers the dirty segments of the
  log (\<open>full_search\<close>: \<open>max_victim_search\<close> is at least their number, or GC is urgent), it finds one whenever there is one
  that can be used (not in a section that is in
  use or chosen by GC, and not full in the last checkpoint), and the one it returns has the fewest
  blocks valid in the last checkpoint of all that can be used, wherever the search started.
\<close>

theorem ssr_finds_best_segment:
  fixes t :: seg_type
  assumes "seg_geom env" "sm_in env X sm" "gc_ok env (gc_state sm)"
  shows "\<exists>r s sm'. get_victim_by_default (2 * nseg env + 3) env NULL_SEGNO BG_GC (Some t) SSR age sm = Some (r, s, sm') \<and>
    (full_search env sm t \<longrightarrow>
      (r = V_0 \<longleftrightarrow> (\<exists>x. usable_victim env sm t x)) \<and>
      (r = V_0 \<longrightarrow> usable_victim env sm t s \<and> (\<forall>x. usable_victim env sm t x \<longrightarrow> ckpt_valid_blocks (seg sm s) \<le> ckpt_valid_blocks (seg sm x))))"
proof -
  obtain r s sm' where v: "get_victim_by_default (2 * nseg env + 3) env NULL_SEGNO BG_GC (Some t) SSR age sm = Some (r, s, sm')"
    using ssr_victim_found[OF assms(1) _ assms(2,3), of SSR t age] by auto
  have e: "ssr_victim env t SSR age sm = (if r = V_0 then Some s else None, sm')"
    using v by (auto simp: ssr_victim_def MAIN_SEGS_def split: victim_ret.splits)
  have "(r = V_0 \<longleftrightarrow> (\<exists>x. usable_victim env sm t x)) \<and>
      (r = V_0 \<longrightarrow> usable_victim env sm t s \<and> (\<forall>x. usable_victim env sm t x \<longrightarrow> ckpt_valid_blocks (seg sm s) \<le> ckpt_valid_blocks (seg sm x)))"
    if "full_search env sm t" using ssr_victim_best[OF assms that e] by (auto split: if_splits)
  then show ?thesis using v by blast
qed

theorem ssr_finds_best_segment_witness:
  "\<exists>sm'. get_victim_by_default 27 sx_env NULL_SEGNO BG_GC (Some CURSEG_HOT_DATA) SSR 0 sx_dirty = Some (V_0, 6, sm')"
proof -
  have g: "gc_ok sx_env (gc_state sx_dirty)" "max_victim_search (gc_state sx_dirty) = 4096" by (simp_all add: gc_ok_def sx_dirty_def sx_init_def sx_gc_def)
  have d: "dirty_segmap (dsl sx_dirty) (Dirty_log CURSEG_HOT_DATA) = (\<lambda>s. s = 6)" by (simp add: sx_dirty_def)
  have "full_search sx_env sx_dirty CURSEG_HOT_DATA" by (simp add: full_search_def d sx_bits g)
  then have T: "\<exists>r s sm'. get_victim_by_default (2 * nseg sx_env + 3) sx_env NULL_SEGNO BG_GC (Some CURSEG_HOT_DATA) SSR 0 sx_dirty = Some (r, s, sm') \<and>
      (r = V_0 \<longleftrightarrow> (\<exists>x. usable_victim sx_env sx_dirty CURSEG_HOT_DATA x)) \<and> (r = V_0 \<longrightarrow> usable_victim sx_env sx_dirty CURSEG_HOT_DATA s)"
    using ssr_finds_best_segment[OF sx_geom sx_dirty_ok g(1), of CURSEG_HOT_DATA 0] by blast
  have us: "usable_victim sx_env sx_dirty CURSEG_HOT_DATA s \<Longrightarrow> s = 6" for s by (simp add: usable_victim_def d)
  have "ssr_cand sx_env sx_dirty 6"
  proof -
    have "\<not> IS_CURSEC sx_env sx_dirty 6"
    proof -
      have "curseg sx_dirty = sx_curseg" by (simp add: sx_dirty_def)
      then show ?thesis using sx_not_log6[of sx_dirty] by (simp add: IS_CURSEC_def list_ex_iff is_curseg)
    qed
    moreover have e: "GET_SEC_FROM_SEG sx_env 6 = 6" using sec_of[OF sx_geom, of 6] by simp
    moreover have c: "cur_victim_sec (gc_state sx_dirty) = NULL_SEGNO" "\<not> victim_secmap (dsl sx_dirty) 6" by (simp_all add: sx_dirty_def sx_init_def sx_gc_def)
    moreover have "NULL_SEGNO \<noteq> 6" by (simp add: NULL_SEGNO_def UINT_MAX_def)
    ultimately show ?thesis unfolding ssr_cand_def sec_usage_check_def e c(1) using sx_env_simps(6) by blast
  qed
  then have u6: "usable_victim sx_env sx_dirty CURSEG_HOT_DATA 6" by (simp add: usable_victim_def d) (simp add: sx_dirty_def seg_def)
  have n: "2 * nseg sx_env + 3 = 27" by simp
  obtain r s sm' where v: "get_victim_by_default 27 sx_env NULL_SEGNO BG_GC (Some CURSEG_HOT_DATA) SSR 0 sx_dirty = Some (r, s, sm')"
    and r: "r = V_0 \<longleftrightarrow> (\<exists>x. usable_victim sx_env sx_dirty CURSEG_HOT_DATA x)" "r = V_0 \<longrightarrow> usable_victim sx_env sx_dirty CURSEG_HOT_DATA s"
    using T unfolding n by blast
  have "r = V_0" using r(1) u6 by blast
  moreover have "s = 6" using r(2) calculation us by blast
  ultimately show ?thesis using v by blast
qed

end
