(* ===== verification/Gc_Findings.thy ===== *)
theory Gc_Findings
  imports Gc_Best Segment_Example
begin

text \<open>
  What the preference for SWOD windows does to foreground GC when no section matches: on volumes with
  several segments per section the search may never end, and when it ends the second pass
  does not look at the sections behind the last victim.
\<close>

section \<open>A search in which nothing matches\<close>

text \<open>The states of a search for whole sections by the greedy policy, with SWOD windows preferred and none of them in reach.\<close>

definition fruitless :: "seg_env \<Rightarrow> gc_info sm_info \<Rightarrow> victim_sel_policy \<Rightarrow> gc_info sm_info \<Rightarrow> bool" where
  "fruitless env sm0 p sm \<longleftrightarrow>
     p_alloc_mode p = LFS \<and> p_gc_mode p = GC_GREEDY \<and> p_ofs_unit p = sps env \<and> p_dirty_bitmap p = dirty_secmap (dsl sm0) \<and> 0 < p_max_search p \<and>
     p_min_segno p = NULL_SEGNO \<and> same_but_last sm0 sm"

lemma fruitless_consider:
  assumes "fruitless env sm0 p sm" and no: "\<not> swod_wce_match (sm_dcc sm0) (k * sps env) (sps env)"
  shows "consider_victim env FG_GC True False (k * sps env) p ns sm = (p, ns, sm)"
proof -
  have "sm_dcc sm = sm_dcc sm0" "p_ofs_unit p = sps env" using assms(1) by (auto simp: fruitless_def same_but_last_def)
  then show ?thesis using no by (simp add: consider_victim_def)
qed

lemma fruitless_upd:
  assumes "fruitless env sm0 p sm"
  shows "fruitless env sm0 (p\<lparr>p_offset := x\<rparr>) sm" "fruitless env sm0 (p\<lparr>p_offset := x\<rparr>) (upd_gc (\<lambda>g. g\<lparr>last_victim := v\<rparr>) sm)"
  using assms same_but_lastD(3) by (auto simp: fruitless_def)

lemma fruitless_step:
  fixes ls :: nat
  assumes f: "fruitless env sm0 p sm"
  defines "u \<equiv> find_next_bit (dirty_secmap (dsl sm0)) (ls div sps env) (p_offset p div sps env)" and "lv \<equiv> last_victim (gc_state sm)"
  assumes no: "u * sps env < ls \<longrightarrow> \<not> swod_wce_match (sm_dcc sm0) (u * sps env) (sps env)"
  shows "victim_loop (Suc k) env FG_GC True False prev ls p 0 sm =
    (if u * sps env \<ge> ls
     then if lv GC_GREEDY \<noteq> 0 then victim_loop k env FG_GC True False prev (lv GC_GREEDY) (p\<lparr>p_offset := 0\<rparr>) 0 (upd_gc (\<lambda>g. g\<lparr>last_victim := lv(GC_GREEDY := 0)\<rparr>) sm)
          else Some (ls, p, sm)
     else victim_loop k env FG_GC True False prev ls (p\<lparr>p_offset := u * sps env + sps env\<rparr>) 0 sm)"
proof -
  have p: "p_gc_mode p = GC_GREEDY" "p_ofs_unit p = sps env" "p_dirty_bitmap p = dirty_secmap (dsl sm0)" "0 < p_max_search p" using f by (simp_all add: fruitless_def)
  show ?thesis
  proof (cases "u * sps env \<ge> ls")
    case True
    then show ?thesis by (simp add: p(1-3) u_def[symmetric] lv_def[symmetric] Let_def)
  next
    case False
    then have "u * sps env < ls" by simp
    note c = fruitless_consider[OF fruitless_upd(1)[OF f] no[rule_format, OF this], of _ 0]
    show ?thesis using p(4) False by (simp add: p(1-3) u_def[symmetric] lv_def[symmetric] Let_def c)
  qed
qed

text \<open>No section that the search meets is in a window.\<close>

definition out_of_windows :: "seg_env \<Rightarrow> gc_info sm_info \<Rightarrow> nat \<Rightarrow> bool" where
  "out_of_windows env sm v \<longleftrightarrow> (\<forall>k \<le> total_sections env. dirty_secmap (dsl sm) k \<or> k = v div sps env \<longrightarrow> \<not> swod_wce_match (sm_dcc sm) (k * sps env) (sps env))"

lemma out_of_windows_next:
  fixes o' :: nat
  assumes o: "out_of_windows env sm v" and sp: "0 < sps env" and ls: "ls = v \<and> v \<le> total_sections env * sps env \<or> ls = total_sections env * sps env"
  defines "u \<equiv> find_next_bit (dirty_secmap (dsl sm)) (ls div sps env) o'"
  assumes lt: "u * sps env < ls"
  shows "\<not> swod_wce_match (sm_dcc sm) (u * sps env) (sps env)"
proof -
  have "ls \<le> total_sections env * sps env" using ls by auto
  then have "ls div sps env \<le> total_sections env" using div_le_mono[of ls "total_sections env * sps env" "sps env"] sp by simp
  then have le: "u \<le> total_sections env" using find_next_bit_le[of "dirty_secmap (dsl sm)" "ls div sps env" o'] by (simp add: u_def)
  have "dirty_secmap (dsl sm) u \<or> u = v div sps env"
  proof (cases "u < ls div sps env")
    case True
    then show ?thesis using find_next_bit_less(1)[of "dirty_secmap (dsl sm)" "ls div sps env" o'] by (simp add: u_def)
  next
    case False
    then have "u = ls div sps env" using find_next_bit_le[of "dirty_secmap (dsl sm)" "ls div sps env" o'] by (simp add: u_def)
    then show ?thesis using ls lt sp by auto
  qed
  then show ?thesis using o le unfolding out_of_windows_def by blast
qed

text \<open>Once the search ends inside a section, it meets this section again and again.\<close>

lemma fruitless_hangs:
  assumes no: "out_of_windows env sm0 v" and sp: "0 < sps env" and v: "v mod sps env \<noteq> 0" "v \<le> total_sections env * sps env"
  shows "fruitless env sm0 p sm \<Longrightarrow> ls = v \<or> ls = total_sections env * sps env \<and> last_victim (gc_state sm) GC_GREEDY = v \<Longrightarrow>
    victim_loop k env FG_GC True False prev ls p 0 sm = None"
proof (induction k arbitrary: ls p sm)
  case (Suc k)
  define u where "u = find_next_bit (dirty_secmap (dsl sm0)) (ls div sps env) (p_offset p div sps env)"
  have "u * sps env < ls \<longrightarrow> \<not> swod_wce_match (sm_dcc sm0) (u * sps env) (sps env)"
    using out_of_windows_next[OF no sp, of ls "p_offset p div sps env"] Suc.prems(2) v(2) by (auto simp: u_def)
  note e = fruitless_step[OF Suc.prems(1), where ls = ls and k = k and prev = prev, folded u_def, OF this]
  have "\<not> v \<le> u * sps env" if "ls = v"
  proof -
    have "u * sps env \<le> v div sps env * sps env" using find_next_bit_le[of "dirty_secmap (dsl sm0)" "ls div sps env"] that by (simp add: u_def)
    also have "\<dots> < v" using v(1) by (metis div_mult_mod_eq less_add_same_cancel1 neq0_conv)
    finally show ?thesis by simp
  qed
  moreover have "v \<noteq> 0" using v(1) by (metis mod_0)
  ultimately show ?case unfolding e using Suc.prems Suc.IH fruitless_upd[OF Suc.prems(1)] by auto
qed simp

text \<open>When the last victim starts a section, the search ends there, with the last victim forgotten.\<close>

lemma fruitless_last:
  assumes f: "fruitless env sm0 p sm" and sp: "0 < sps env"
    and v: "v mod sps env = 0" "\<And>k. dirty_secmap (dsl sm0) k \<Longrightarrow> v \<le> k * sps env" and lv: "last_victim (gc_state sm) GC_GREEDY = 0"
  shows "victim_loop (Suc k) env FG_GC True False prev v p 0 sm = Some (v, p, sm)"
proof -
  have "v div sps env \<le> find_next_bit (dirty_secmap (dsl sm0)) (v div sps env) (p_offset p div sps env)"
    unfolding find_next_bit_ge using v sp by (metis less_mult_imp_div_less linorder_not_less div_le_mono nonzero_mult_div_cancel_right neq0_conv)
  then have "v \<le> find_next_bit (dirty_secmap (dsl sm0)) (v div sps env) (p_offset p div sps env) * sps env"
    using v(1) by (metis add_0_right div_mult_mod_eq mult_le_mono1)
  then show ?thesis using fruitless_step[OF f, of v k prev] lv by simp
qed

lemma fruitless_ends:
  assumes no: "out_of_windows env sm0 v" and n: "n = total_sections env" and sp: "0 < sps env"
    and v: "v mod sps env = 0" "v \<noteq> 0" "\<And>k. dirty_secmap (dsl sm0) k \<Longrightarrow> v \<le> k * sps env"
  shows "fruitless env sm0 p sm \<Longrightarrow> last_victim (gc_state sm) GC_GREEDY = v \<Longrightarrow> n + 2 \<le> k + p_offset p div sps env \<Longrightarrow> 2 \<le> k \<Longrightarrow>
    \<exists>p' sm'. victim_loop k env FG_GC True False prev (n * sps env) p 0 sm = Some (v, p', sm') \<and> fruitless env sm0 p' sm' \<and> last_victim (gc_state sm') GC_GREEDY = 0"
proof (induction k arbitrary: p sm)
  case (Suc k)
  define u where "u = find_next_bit (dirty_secmap (dsl sm0)) n (p_offset p div sps env)"
  have ne: "n * sps env div sps env = n" using sp by simp
  have "u * sps env < n * sps env \<longrightarrow> \<not> swod_wce_match (sm_dcc sm0) (u * sps env) (sps env)"
    using out_of_windows_next[OF no sp, of "n * sps env" "p_offset p div sps env"] ne by (simp add: u_def n)
  note e = fruitless_step[OF Suc.prems(1), where ls = "n * sps env" and k = k and prev = prev, unfolded ne, folded u_def, OF this]
  show ?case
  proof (cases "u \<ge> n")
    case True
    obtain j where j: "k = Suc j" using Suc.prems(4) by (cases k) auto
    let ?q = "upd_gc (\<lambda>g. g\<lparr>last_victim := (last_victim (gc_state sm))(GC_GREEDY := 0)\<rparr>) sm"
    have f: "fruitless env sm0 (p\<lparr>p_offset := 0\<rparr>) ?q" by (rule fruitless_upd(2)[OF Suc.prems(1)])
    have "victim_loop k env FG_GC True False prev v (p\<lparr>p_offset := 0\<rparr>) 0 ?q = Some (v, p\<lparr>p_offset := 0\<rparr>, ?q)"
      unfolding j by (rule fruitless_last[OF f sp v(1,3)]) simp_all
    then show ?thesis unfolding e using True v(2) Suc.prems(2) f sp by simp
  next
    case False
    then have "p_offset p div sps env \<le> u" using find_next_bit_less(2) by (simp add: u_def)
    moreover have o: "(u * sps env + sps env) div sps env = u + 1" using sp by simp
    moreover have "\<not> n * sps env \<le> u * sps env" using False sp by simp
    ultimately show ?thesis unfolding e
      using Suc.IH[OF fruitless_upd(1)[OF Suc.prems(1), of "u * sps env + sps env"] Suc.prems(2)] Suc.prems(3) False by (simp only: if_False) auto
  qed
qed simp

section \<open>Foreground GC\<close>

text \<open>
  Foreground GC with the greedy policy on a volume with large sections, while SWOD has windows and no dirty
  section is in one; no victim was set by hand or left by background GC, and some section can be cleaned.
\<close>

definition fg_greedy :: "seg_env \<Rightarrow> gc_info sm_info \<Rightarrow> bool" where
  "fg_greedy env sm \<longleftrightarrow>
     seg_geom env \<and> is_large_section env \<and> sb_gc_mode (geo env) = GC_NORMAL \<and>
     next_victim_seg (gc_state sm) BG_GC = NULL_SEGNO \<and> next_victim_seg (gc_state sm) FG_GC = NULL_SEGNO \<and>
     (\<forall>k < total_sections env. \<not> victim_secmap (dsl sm) k) \<and>
     (\<exists>k < total_sections env. dirty_secmap (dsl sm) k \<and> \<not> sec_usage_check env sm k)"

definition windows_elsewhere :: "seg_env \<Rightarrow> gc_info sm_info \<Rightarrow> bool" where
  "windows_elsewhere env sm \<longleftrightarrow>
     fg_greedy env sm \<and> swod_wce_enabled (sm_dcc sm) FG_GC \<and> f2fs_swod_has_wce_target (sm_dcc sm) \<and>
     out_of_windows env sm (last_victim (gc_state sm) GC_GREEDY) \<and> last_victim (gc_state sm) GC_GREEDY \<le> nseg env"

text \<open>The policy of a pass.\<close>

definition fg_policy :: "seg_env \<Rightarrow> victim_sel_policy \<Rightarrow> gc_info sm_info \<Rightarrow> victim_sel_policy" where
  "fg_policy env p sm = p\<lparr>p_gc_mode := GC_GREEDY, p_ofs_unit := sps env, p_dirty_bitmap := dirty_secmap (dsl sm),
     p_max_search := count_bits (dirty_secmap (dsl sm)) 0 (total_sections env), p_offset := last_victim (gc_state sm) GC_GREEDY,
     p_min_segno := NULL_SEGNO, p_oldest_age := 0, p_min_cost := u32 (2 * nblk env * sps env)\<rparr>"

lemma fg_pass:
  assumes h: "fg_greedy env sm" and p: "p_alloc_mode p = LFS"
  shows "victim_pass k env FG_GC None NULL_SEGNO target ls p sm =
    (case victim_loop k env FG_GC target False (last_victim (gc_state sm) GC_GREEDY) ls (fg_policy env p sm) 0 sm of
       None \<Rightarrow> None | Some (ls, p, sm) \<Rightarrow> Some (V_scanned, ls, p, sm))"
    "fruitless env sm (fg_policy env p sm) sm"
proof -
  let ?p = "fg_policy env p sm"
  have H: "is_large_section env" "sb_gc_mode (geo env) = GC_NORMAL" "next_victim_seg (gc_state sm) BG_GC = NULL_SEGNO" "next_victim_seg (gc_state sm) FG_GC = NULL_SEGNO"
    "\<forall>k < total_sections env. \<not> victim_secmap (dsl sm) k" using h by (simp_all add: fg_greedy_def)
  obtain d where d: "d < total_sections env" "dirty_secmap (dsl sm) d" using h by (auto simp: fg_greedy_def)
  have mx: "0 < count_bits (dirty_secmap (dsl sm)) 0 (total_sections env)" using d by (force simp: count_bits_def filter_empty_conv)
  have q: "(select_policy env FG_GC None sm p)\<lparr>p_min_segno := NULL_SEGNO, p_oldest_age := 0\<rparr>
      \<lparr>p_min_cost := get_max_cost env ((select_policy env FG_GC None sm p)\<lparr>p_min_segno := NULL_SEGNO, p_oldest_age := 0\<rparr>)\<rparr> = ?p"
    using H(1,2) p by (simp add: select_policy_def policy_of_mode_def select_gc_type_def Let_def fg_policy_def get_max_cost_def)
  have at: "(p_gc_mode ?p = GC_AT \<or> p_alloc_mode ?p = AT_SSR) = False" using p by (simp add: fg_policy_def)
  have nx: "next_victims env FG_GC target ?p sm = None" using H by (simp add: next_victims_def take_next_victim_def)
  have "find (\<lambda>secno. victim_secmap (dsl sm) secno \<and> \<not> sec_usage_check env sm secno) [0..<total_sections env] = None"
    using H(5) by (auto simp: find_None_iff)
  then have bg: "bg_victims env FG_GC target ?p sm = (False, ?p, sm)"
    using p by (simp add: bg_victims_def check_bg_victims_def fg_policy_def)
  have S: "scan_pass k env FG_GC target False ls ?p sm =
    (case victim_loop k env FG_GC target False (last_victim (gc_state sm) GC_GREEDY) ls ?p 0 sm of None \<Rightarrow> None | Some (ls, p, sm) \<Rightarrow> Some (V_scanned, ls, p, sm))"
    unfolding scan_pass_def Let_def bg by (simp add: fg_policy_def split: option.split)
  have m: "p_max_search ?p \<noteq> 0" using mx by (simp add: fg_policy_def)
  show "victim_pass k env FG_GC None NULL_SEGNO target ls p sm =
    (case victim_loop k env FG_GC target False (last_victim (gc_state sm) GC_GREEDY) ls ?p 0 sm of None \<Rightarrow> None | Some (ls, p, sm) \<Rightarrow> Some (V_scanned, ls, p, sm))"
    unfolding victim_pass_def Let_def q at using m by (simp add: S nx)
  have "same_but_last sm sm" unfolding same_but_last_def by (rule exI[of _ "last_victim (gc_state sm)"]) simp
  then show "fruitless env sm ?p sm" using mx p by (simp add: fruitless_def fg_policy_def)
qed

lemma fg_greedy_again:
  assumes h: "fg_greedy env sm" and l: "same_but_last sm sm'"
  shows "fg_greedy env (upd_swod_stats f sm')" "gc_state (upd_swod_stats f sm') = gc_state sm'" "dsl (upd_swod_stats f sm') = dsl sm"
proof -
  have e: "dsl sm' = dsl sm" "curseg sm' = curseg sm" "next_victim_seg (gc_state sm') = next_victim_seg (gc_state sm)"
    "cur_victim_sec (gc_state sm') = cur_victim_sec (gc_state sm)" using l by (auto simp: same_but_last_def)
  show g: "gc_state (upd_swod_stats f sm') = gc_state sm'" "dsl (upd_swod_stats f sm') = dsl sm" by (simp_all add: upd_swod_stats_def e split: option.split)
  have "sec_usage_check env (upd_swod_stats f sm') k = sec_usage_check env sm k" for k
    by (simp add: sec_usage_check_def IS_CURSEC_def g e) (simp add: upd_swod_stats_def e split: option.split)
  then show "fg_greedy env (upd_swod_stats f sm')" using h unfolding fg_greedy_def g by (simp add: e)
qed

lemma get_victim_fg:
  assumes "windows_elsewhere env sm"
  obtains p where "p_alloc_mode p = LFS"
    "get_victim_by_default k env NULL_SEGNO FG_GC None LFS age sm = victim_passes 3 k env FG_GC None NULL_SEGNO True (nseg env) p sm"
proof -
  have e: "swod_wce_enabled (sm_dcc sm) FG_GC" "total_sections env * sps env = nseg env" using assms by (simp_all add: windows_elsewhere_def fg_greedy_def seg_geom_def)
  define p where "p = \<lparr>p_alloc_mode = LFS, p_gc_mode = GC_GREEDY, p_dirty_bitmap = (\<lambda>_. False), p_max_search = 0, p_offset = 0, p_ofs_unit = 1,
        p_min_cost = 0, p_oldest_age = 0, p_min_segno = NULL_SEGNO, p_age = age, p_age_threshold = age_threshold (gc_state sm)\<rparr>"
  show thesis
  proof (rule that[of p])
    show "p_alloc_mode p = LFS" by (simp add: p_def)
    show "get_victim_by_default k env NULL_SEGNO FG_GC None LFS age sm = victim_passes 3 k env FG_GC None NULL_SEGNO True (nseg env) p sm"
      unfolding get_victim_by_default_def p_def[symmetric] e(2) using e(1) assms by (simp add: windows_elsewhere_def)
  qed
qed

section \<open>An example\<close>

text \<open>Two segments per section, windows held as in \<open>Swod_Example\<close>, section 4 dirty.\<close>

definition hx_env :: seg_env where
  "hx_env = sx_env\<lparr>geo := sx_sbi\<lparr>segs_per_sec := 2\<rparr>, total_sections := 6\<rparr>"

definition hx_dcc :: discard_cmd_control where
  "hx_dcc = ex_held\<lparr>tun := (tun ex_held)\<lparr>swod_completion_enable := 1\<rparr>\<rparr>"

definition hx :: "nat \<Rightarrow> gc_info sm_info" where
  "hx v = sx_init\<lparr>sm_dcc := hx_dcc, dsl := (dsl sx_init)\<lparr>dirty_secmap := (\<lambda>k. k = 4)\<rparr>, gc_state := sx_gc\<lparr>last_victim := (\<lambda>_. v)\<rparr>\<rparr>"

lemma hx_values: "sps hx_env = 2" "nseg hx_env = 12" "total_sections hx_env = 6" "last_victim (gc_state (hx v)) GC_GREEDY = v" "dirty_secmap (dsl (hx v)) k = (k = 4)"
  by (simp_all add: hx_env_def sx_sbi_def ex_sbi_def hx_def)

lemma hx_held:
  assumes v: "4 \<le> v" "v \<le> 12"
  shows "windows_elsewhere hx_env (hx v)"
proof -
  have g: "seg_geom hx_env" "is_large_section hx_env" "sb_gc_mode (geo hx_env) = GC_NORMAL"
    by (simp_all add: seg_geom_def geom_ok_def is_large_section_def hx_env_def sx_env_def sx_sbi_def ex_sbi_def main_start_def main_end_def NULL_SEGNO_def UINT_MAX_def)
  have "swod_enable (tun ex_held) \<noteq> 0 \<and> swod_gc_fg_enable (tun ex_held) \<noteq> 0" by code_simp
  then have t: "swod_enable (tun ex_held) \<noteq> 0" "swod_gc_fg_enable (tun ex_held) \<noteq> 0" by simp_all
  have "\<not> sec_usage_check hx_env (hx v) 4" 
  proof -
    have "cs_segno (curseg (hx v) c) = sx_log c" for c by (simp add: hx_def sx_log_cases(1))
    then have "\<not> IS_CURSEC hx_env (hx v) 4"
      by (simp add: IS_CURSEC_def all_cursegs_def GET_SEC_FROM_SEG_def hx_env_def sx_sbi_def NULL_SEGNO_def UINT_MAX_def)
    then show ?thesis by (simp add: sec_usage_check_def hx_def sx_gc_def NULL_SEGNO_def UINT_MAX_def)
  qed
  then have "\<exists>k < total_sections hx_env. dirty_secmap (dsl (hx v)) k \<and> \<not> sec_usage_check hx_env (hx v) k" by (intro exI[of _ 4]) (simp add: hx_env_def hx_def)
  moreover have "swod_wce_enabled (sm_dcc (hx v)) FG_GC" using t ex_sw_some by (simp add: swod_wce_enabled_def hx_def hx_dcc_def)
  moreover have "swod (sm_dcc (hx v)) = Some ex_sw" using ex_sw_some by (simp add: hx_def hx_dcc_def)
  moreover have "next_victim_seg (gc_state (hx v)) w = NULL_SEGNO" "\<not> victim_secmap (dsl (hx v)) k" for w k by (simp_all add: hx_def sx_gc_def)
  moreover have "out_of_windows hx_env (hx v) v"
  proof -
    have "\<not> swod_wce_match (sm_dcc (hx v)) (k * 2) 2" if "2 \<le> k" for k
      using that ex_sw_dims(2) ex_sw_some by (simp add: swod_wce_match_def f2fs_swod_seg_wce_eligible_def on_swod_def hx_def hx_dcc_def)
    moreover have "2 \<le> v div 2" using v(1) by simp
    ultimately show ?thesis using \<open>\<And>k. 2 \<le> k \<Longrightarrow> _\<close>[of 4] by (auto simp: out_of_windows_def hx_values)
  qed
  moreover have "swod_enable (tun (sm_dcc (hx v))) \<noteq> 0" using t by (simp add: hx_def hx_dcc_def)
  ultimately show ?thesis using g v ex_sw_held(1)
    by (simp add: windows_elsewhere_def fg_greedy_def f2fs_swod_has_wce_target_def on_swod_def hx_values)
qed

section \<open>Consequences\<close>

text \<open>
  C38. Foreground GC on a volume with several segments per section, while SWOD has windows and no
  dirty section lies in one: when the last victim of the greedy policy, which an SSR search may have
  left in the middle of a section, is not the start of a section, the search of
  \<open>get_victim_by_default\<close> never ends. It comes to the section of the last victim, which is no
  candidate, does not count it as searched, and finds it again. (GC runs in its normal mode, there is a dirty section that could be cleaned, none is chosen by background GC, and no
  victim was set from outside; see \<open>windows_elsewhere\<close>.)
\<close>

theorem gc_search_never_ends:
  assumes "windows_elsewhere env sm" "last_victim (gc_state sm) GC_GREEDY mod sps env \<noteq> 0"
  shows "get_victim_by_default fuel env NULL_SEGNO FG_GC None LFS age sm = None"
proof -
  obtain p where p: "p_alloc_mode p = LFS"
    "get_victim_by_default fuel env NULL_SEGNO FG_GC None LFS age sm = victim_passes 3 fuel env FG_GC None NULL_SEGNO True (nseg env) p sm"
    by (rule get_victim_fg[OF assms(1)])
  have hg: "fg_greedy env sm" using assms(1) by (simp add: windows_elsewhere_def)
  note P = fg_pass[OF hg p(1)]
  have sp: "0 < sps env" and n: "nseg env = total_sections env * sps env" and o: "out_of_windows env sm (last_victim (gc_state sm) GC_GREEDY)"
    and le: "last_victim (gc_state sm) GC_GREEDY \<le> total_sections env * sps env"
    using assms(1) by (simp_all add: windows_elsewhere_def fg_greedy_def seg_geom_def)
  have "victim_loop fuel env FG_GC True False (last_victim (gc_state sm) GC_GREEDY) (nseg env) (fg_policy env p sm) 0 sm = None"
    by (rule fruitless_hangs[OF o sp assms(2) le P(2)]) (simp add: n)
  then show ?thesis using p(2) P(1) by (simp add: numeral_3_eq_3)
qed

theorem gc_search_never_ends_witness:
  "windows_elsewhere hx_env (hx 5) \<and> get_victim_by_default 1000 hx_env NULL_SEGNO FG_GC None LFS 0 (hx 5) = None"
  using gc_search_never_ends[OF hx_held, of 5 1000 0] hx_held[of 5] by (simp add: hx_values)

text \<open>
  C39. In the same situation with the last victim at the start of a section, the search ends, but its
  second pass, which no longer prefers SWOD windows, only looks at the sections below the last
  victim, since the end of the search is not set back: with all dirty sections behind it, foreground
  GC reports that there is no victim.
\<close>

theorem gc_fallback_misses_sections:
  assumes h: "windows_elsewhere env sm" and v: "v = last_victim (gc_state sm) GC_GREEDY" "v mod sps env = 0" "v \<noteq> 0"
    and d: "\<And>k. dirty_secmap (dsl sm) k \<Longrightarrow> v \<le> k * sps env" and k: "total_sections env + 2 \<le> fuel"
  shows "\<exists>sm'. get_victim_by_default fuel env NULL_SEGNO FG_GC None LFS age sm = Some (ENODATA, NULL_SEGNO, sm')"
proof -
  obtain p where p: "p_alloc_mode p = LFS"
    "get_victim_by_default fuel env NULL_SEGNO FG_GC None LFS age sm = victim_passes 3 fuel env FG_GC None NULL_SEGNO True (nseg env) p sm"
    by (rule get_victim_fg[OF h])
  have hg: "fg_greedy env sm" using h by (simp add: windows_elsewhere_def)
  note P = fg_pass[OF hg p(1)]
  have no: "out_of_windows env sm v" using h v(1) by (simp add: windows_elsewhere_def)
  have sp: "0 < sps env" and n: "nseg env = total_sections env * sps env" using h by (simp_all add: windows_elsewhere_def fg_greedy_def seg_geom_def)
  obtain p1 sm1 where L: "victim_loop fuel env FG_GC True False v (nseg env) (fg_policy env p sm) 0 sm = Some (v, p1, sm1)"
    and f1: "fruitless env sm p1 sm1" and l1: "last_victim (gc_state sm1) GC_GREEDY = 0"
    using fruitless_ends[OF no refl sp v(2,3) d P(2) v(1)[symmetric], of fuel v] k n by auto
  define q where "q = upd_swod_stats (\<lambda>st. st\<lparr>gc_fallback_cnt := gc_fallback_cnt st + 1\<rparr>) sm1"
  have F1: "p_alloc_mode p1 = LFS" "p_gc_mode p1 = GC_GREEDY" "p_min_segno p1 = NULL_SEGNO" "same_but_last sm sm1" using f1 by (simp_all add: fruitless_def)
  note Q = fg_greedy_again[OF hg F1(4), of "\<lambda>st. st\<lparr>gc_fallback_cnt := gc_fallback_cnt st + 1\<rparr>", folded q_def]
  note P2 = fg_pass[OF Q(1) F1(1)]
  obtain j where j: "fuel = Suc j" using k by (cases fuel) auto
  have "v div sps env \<le> find_next_bit (dirty_secmap (dsl sm)) (v div sps env) 0"
    unfolding find_next_bit_ge using d sp by (metis div_le_mono linorder_not_less nonzero_mult_div_cancel_right neq0_conv)
  then have "v \<le> find_next_bit (dirty_secmap (dsl sm)) (v div sps env) 0 * sps env"
    using v(2) by (metis add_0_right div_mult_mod_eq mult_le_mono1)
  then have L2: "victim_loop fuel env FG_GC False False 0 v (fg_policy env p1 q) 0 q = Some (v, fg_policy env p1 q, q)"
    unfolding j by (simp add: fg_policy_def Q l1 Let_def)
  have "victim_pass fuel env FG_GC None NULL_SEGNO False v p1 q = Some (V_scanned, v, fg_policy env p1 q, q)"
    using P2(1)[of fuel False v] L2 by (simp add: Q l1)
  moreover have "victim_pass fuel env FG_GC None NULL_SEGNO True (nseg env) p sm = Some (V_scanned, v, p1, sm1)" using P(1)[of fuel True "nseg env"] L v(1) by simp
  ultimately show ?thesis unfolding p(2) numeral_3_eq_3 using F1 by (simp add: fg_policy_def q_def)
qed

theorem gc_fallback_misses_sections_witness:
  "dirty_secmap (dsl (hx 6)) 4 \<and> (\<exists>sm'. get_victim_by_default 100 hx_env NULL_SEGNO FG_GC None LFS 0 (hx 6) = Some (ENODATA, NULL_SEGNO, sm'))"
  using gc_fallback_misses_sections[OF hx_held, of 6 6 100 0] by (simp add: hx_values)

end
