(* ===== verification/Rev_Bits.thy ===== *)
theory Rev_Bits
  imports Kernel_Bits "HOL-Library.Word"
begin

unbundle bit_operations_syntax

text \<open>
  The bitmaps of segments as they lie in memory: in every byte the most significant bit comes
  first. The accessors of \<open>f2fs.h\<close> and the word-wise searches of \<open>segment.c\<close> (64 bits per word), and what they
  compute on the bitmap as a map from positions to bits.
\<close>

section \<open>Accessors\<close>

type_synonym bytes = "nat \<Rightarrow> 8 word"

definition rev_mask :: "nat \<Rightarrow> 8 word" where
  "rev_mask nr = push_bit (7 - nr mod 8) 1"

definition f2fs_test_bit :: "nat \<Rightarrow> bytes \<Rightarrow> bool" where
  "f2fs_test_bit nr addr \<longleftrightarrow> rev_mask nr AND addr (nr div 8) \<noteq> 0"

definition f2fs_set_bit :: "nat \<Rightarrow> bytes \<Rightarrow> bytes" where
  "f2fs_set_bit nr addr = addr(nr div 8 := addr (nr div 8) OR rev_mask nr)"

definition f2fs_clear_bit :: "nat \<Rightarrow> bytes \<Rightarrow> bytes" where
  "f2fs_clear_bit nr addr = addr(nr div 8 := addr (nr div 8) AND NOT (rev_mask nr))"

definition f2fs_test_and_set_bit :: "nat \<Rightarrow> bytes \<Rightarrow> bool \<times> bytes" where
  "f2fs_test_and_set_bit nr addr = (rev_mask nr AND addr (nr div 8) \<noteq> 0, addr(nr div 8 := addr (nr div 8) OR rev_mask nr))"

definition f2fs_test_and_clear_bit :: "nat \<Rightarrow> bytes \<Rightarrow> bool \<times> bytes" where
  "f2fs_test_and_clear_bit nr addr = (rev_mask nr AND addr (nr div 8) \<noteq> 0, addr(nr div 8 := addr (nr div 8) AND NOT (rev_mask nr)))"

definition f2fs_change_bit :: "nat \<Rightarrow> bytes \<Rightarrow> bytes" where
  "f2fs_change_bit nr addr = addr(nr div 8 := addr (nr div 8) XOR rev_mask nr)"

section \<open>Searches\<close>

text \<open>The word at index \<open>p\<close>, as a little endian machine reads it, and with its bytes reversed.\<close>

definition ulong_at :: "bytes \<Rightarrow> nat \<Rightarrow> 64 word" where
  "ulong_at mem p = fold (\<lambda>j t. t OR push_bit (8 * j) (ucast (mem (8 * p + j)))) [0..<8] 0"

definition reverse_ulong :: "bytes \<Rightarrow> nat \<Rightarrow> 64 word" where
  "reverse_ulong mem p = fold (\<lambda>j t. t OR push_bit (56 - 8 * j) (ucast (mem (8 * p + j)))) [0..<8] 0"

definition reverse_ffs :: "64 word \<Rightarrow> nat" where
  "reverse_ffs word =
     (let (word, num) = (if word AND 0xffffffff00000000 = 0 then (word, 32) else (drop_bit 32 word, 0));
          (word, num) = (if word AND 0xffff0000 = 0 then (word, num + 16) else (drop_bit 16 word, num));
          (word, num) = (if word AND 0xff00 = 0 then (word, num + 8) else (drop_bit 8 word, num));
          (word, num) = (if word AND 0xf0 = 0 then (word, num + 4) else (drop_bit 4 word, num));
          (word, num) = (if word AND 0xc = 0 then (word, num + 2) else (drop_bit 2 word, num))
      in if word AND 0x2 = 0 then num + 1 else num)"

definition reverse_ffz :: "64 word \<Rightarrow> nat" where
  "reverse_ffz word = reverse_ffs (NOT word)"

function rev_next_loop :: "bytes \<Rightarrow> nat \<Rightarrow> nat \<Rightarrow> nat \<Rightarrow> nat \<Rightarrow> nat" where
  "rev_next_loop mem p result size' offset =
     (let tmp = reverse_ulong mem p AND drop_bit offset (- 1);
          tmp = (if size' < 64 then tmp AND push_bit (64 - size') (- 1) else tmp)
      in if ulong_at mem p \<noteq> 0 \<and> tmp \<noteq> 0 then result - size' + reverse_ffs tmp
         else if size' \<le> 64 then result
         else rev_next_loop mem (p + 1) result (size' - 64) 0)"
  by pat_completeness auto
termination by (relation "measure (\<lambda>(_, _, _, n, _). n)") auto

definition find_rev_next_bit :: "bytes \<Rightarrow> nat \<Rightarrow> nat \<Rightarrow> nat" where
  "find_rev_next_bit addr size' offset =
     (if offset \<ge> size' then size'
      else rev_next_loop addr (offset div 64) size' (size' - offset div 64 * 64) (offset mod 64))"

function rev_next_zero_loop :: "bytes \<Rightarrow> nat \<Rightarrow> nat \<Rightarrow> nat \<Rightarrow> nat \<Rightarrow> nat" where
  "rev_next_zero_loop mem p result size' offset =
     (let tmp = reverse_ulong mem p;
          tmp = (if offset \<noteq> 0 then tmp OR push_bit (64 - offset) (- 1) else tmp);
          tmp = (if size' < 64 then tmp OR drop_bit size' (- 1) else tmp)
      in if ulong_at mem p \<noteq> - 1 \<and> tmp \<noteq> - 1 then result - size' + reverse_ffz tmp
         else if size' \<le> 64 then result
         else rev_next_zero_loop mem (p + 1) result (size' - 64) 0)"
  by pat_completeness auto
termination by (relation "measure (\<lambda>(_, _, _, n, _). n)") auto

definition find_rev_next_zero_bit :: "bytes \<Rightarrow> nat \<Rightarrow> nat \<Rightarrow> nat" where
  "find_rev_next_zero_bit addr size' offset =
     (if offset \<ge> size' then size'
      else rev_next_zero_loop addr (offset div 64) size' (size' - offset div 64 * 64) (offset mod 64))"

declare rev_next_loop.simps [simp del] rev_next_zero_loop.simps [simp del]

section \<open>Bits in memory\<close>

lemma word_nz: "w \<noteq> 0 \<longleftrightarrow> (\<exists>n. bit w n)" for w :: "'a::len word"
proof -
  have "w = 0" if "\<forall>n. \<not> bit w n" using that by (intro bit_word_eqI) simp
  then show ?thesis by auto
qed

lemma bit_rev_mask: "bit (rev_mask nr) n \<longleftrightarrow> n = 7 - nr mod 8"
  by (auto simp: rev_mask_def bit_simps)

lemma test_bit_iff: "f2fs_test_bit nr addr = bit (addr (nr div 8)) (7 - nr mod 8)"
  unfolding f2fs_test_bit_def word_nz by (metis bit_and_iff bit_rev_mask)

lemma same_place: "i div 8 = nr div 8 \<Longrightarrow> 7 - i mod 8 = 7 - nr mod 8 \<Longrightarrow> i = (nr :: nat)"
proof -
  assume a: "i div 8 = nr div 8" "7 - i mod 8 = 7 - nr mod 8"
  have "i mod 8 < 8" "nr mod 8 < 8" by simp_all
  with a(2) have "i mod 8 = nr mod 8" by linarith
  then show "i = nr" using a(1) by (metis div_mult_mod_eq)
qed

lemma bit_or_fold:
  fixes f :: "nat \<Rightarrow> 64 word"
  shows "bit (fold (\<lambda>j t. t OR f j) xs t0) n \<longleftrightarrow> bit t0 n \<or> (\<exists>j \<in> set xs. bit (f j) n)"
  by (induction xs arbitrary: t0) (auto simp: bit_or_iff)

lemma bit_byte_less: "bit (b :: 8 word) n \<Longrightarrow> n < 8"
  using bit_imp_le_length[of b n] by simp

lemma place: "(64 * p + k) div 8 = 8 * p + k div 8" "(64 * p + k) mod 8 = k mod (8 :: nat)"
proof -
  have "64 * p + k = k + 8 * p * 8" by simp
  then show "(64 * p + k) div 8 = 8 * p + k div 8" "(64 * p + k) mod 8 = k mod 8" by (simp_all only: div_mult_self1 mod_mult_self1)
qed

lemma bit_ulong_at: "bit (ulong_at mem p) n \<longleftrightarrow> (\<exists>j < 8. 8 * j \<le> n \<and> bit (mem (8 * p + j)) (n - 8 * j))"
proof -
  have "bit (push_bit (8 * j) (ucast (mem (8 * p + j))) :: 64 word) n \<longleftrightarrow> 8 * j \<le> n \<and> bit (mem (8 * p + j)) (n - 8 * j)" if "j < 8" for j
    using that bit_byte_less[of "mem (8 * p + j)" "n - 8 * j"] by (auto simp: bit_simps)
  then show ?thesis unfolding ulong_at_def bit_or_fold by auto
qed

lemma bit_reverse_ulong:
  assumes "k < 64"
  shows "bit (reverse_ulong mem p) (63 - k) = f2fs_test_bit (64 * p + k) mem"
proof -
  obtain a r where ar: "k = 8 * a + r" "r < 8" "a < 8" "k div 8 = a" "k mod 8 = r"
  proof (rule that)
    show "k = 8 * (k div 8) + k mod 8" "k mod 8 < 8" "k div 8 < 8" using assms by simp_all
  qed (rule refl)+
  have b: "bit (push_bit (56 - 8 * j) (ucast (mem (8 * p + j))) :: 64 word) (63 - k) \<longleftrightarrow> j = k div 8 \<and> bit (mem (8 * p + j)) (7 - k mod 8)" if "j < 8" for j
  proof -
    have "bit (push_bit (56 - 8 * j) (ucast (mem (8 * p + j))) :: 64 word) (63 - k) \<longleftrightarrow> 56 - 8 * j \<le> 63 - k \<and> bit (mem (8 * p + j)) (63 - k - (56 - 8 * j))"
      using assms bit_byte_less[of "mem (8 * p + j)" "63 - k - (56 - 8 * j)"] by (auto simp: bit_simps)
    moreover have "56 - 8 * j \<le> 63 - k \<and> 63 - k - (56 - 8 * j) < 8 \<longleftrightarrow> j = k div 8" using that ar by (auto simp: ar(1))
    moreover have "63 - k - (56 - 8 * (k div 8)) = 7 - k mod 8" using ar by simp
    ultimately show ?thesis using bit_byte_less[of "mem (8 * p + j)" "63 - k - (56 - 8 * j)"] by auto
  qed
  have "k div 8 < 8" using assms by simp
  then have "bit (reverse_ulong mem p) (63 - k) \<longleftrightarrow> bit (mem (8 * p + k div 8)) (7 - k mod 8)"
    unfolding reverse_ulong_def bit_or_fold using b by auto
  also have "\<dots> = f2fs_test_bit (64 * p + k) mem" by (simp add: test_bit_iff place)
  finally show ?thesis .
qed

section \<open>The first bit of a word\<close>

lemma low_bits:
  fixes w :: "64 word"
  shows "unat w < 2 ^ n \<longleftrightarrow> (\<forall>i. n \<le> i \<longrightarrow> \<not> bit w i)"
proof
  assume "unat w < 2 ^ n"
  then have "take_bit n (unat w) = unat w" by (rule take_bit_nat_eq_self)
  moreover have "bit w i = bit (unat w) i" for i by (simp add: bit_unsigned_iff)
  ultimately show "\<forall>i. n \<le> i \<longrightarrow> \<not> bit w i" using bit_take_bit_iff[of n "unat w"] by (metis linorder_not_less)
next
  assume "\<forall>i. n \<le> i \<longrightarrow> \<not> bit w i"
  then have "take_bit n w = w" by (intro bit_word_eqI) (simp add: bit_take_bit_iff, metis linorder_not_less)
  then have "unat w = take_bit n (unat w)" by (metis unsigned_take_bit_eq)
  then show "unat w < 2 ^ n" by (metis take_bit_nat_less_exp)
qed

lemma high_half:
  fixes w :: "64 word"
  assumes "unat w < 2 ^ (2 * n)" "2 * n \<le> 64"
  shows "w AND push_bit n (mask n) = 0 \<longleftrightarrow> unat w < 2 ^ n"
proof -
  have "bit (w AND push_bit n (mask n)) i \<longleftrightarrow> bit w i \<and> n \<le> i \<and> i < 2 * n" for i
    using assms(2) bit_imp_le_length[of w i] by (auto simp: bit_simps)
  moreover have "bit w i \<Longrightarrow> i < 2 * n" for i using assms(1) low_bits[of w "2 * n"] by (metis linorder_not_less)
  ultimately show ?thesis unfolding low_bits by (metis word_nz)
qed

text \<open>
  A stage of the search: the rest of the word has \<open>b\<close> bits, \<open>num\<close> is the number of positions passed.
\<close>

definition ffs_inv :: "64 word \<Rightarrow> nat \<Rightarrow> 64 word \<Rightarrow> nat \<Rightarrow> bool" where
  "ffs_inv w b x num \<longleftrightarrow> num + b \<le> 64 \<and> x \<noteq> 0 \<and> unat x < 2 ^ b \<and> unat x = unat w div 2 ^ (64 - num - b)"

lemma ffs_stage:
  assumes i: "ffs_inv w (2 * n) x num" and c: "c = push_bit n (mask n)" and r: "(x', num') = (if x AND c = 0 then (x, num + n) else (drop_bit n x, num))"
  shows "ffs_inv w n x' num'"
proof -
  have b: "num + 2 * n \<le> 64" "unat x < 2 ^ (2 * n)" "x \<noteq> 0" "unat x = unat w div 2 ^ (64 - num - 2 * n)" using i by (simp_all add: ffs_inv_def)
  have h: "x AND c = 0 \<longleftrightarrow> unat x < 2 ^ n" unfolding c using high_half[OF b(2)] b(1) by simp
  show ?thesis
  proof (cases "x AND c = 0")
    case True
    have "64 - (num + n) - n = 64 - num - 2 * n" by simp
    then show ?thesis using True r b h by (simp add: ffs_inv_def)
  next
    case False
    have d: "unat (drop_bit n x) = unat x div 2 ^ n" using unat_drop_bit_eq[of n x] drop_bit_eq_div[of n "unat x"] by (rule trans)
    have "2 ^ n \<le> unat x" using False h by simp
    then have "0 < unat x div 2 ^ n" by (simp add: div_greater_zero_iff)
    then have "drop_bit n x \<noteq> 0" using d by (metis less_irrefl unsigned_0)
    moreover have "unat x div 2 ^ n < 2 ^ n" using b(2) by (simp add: less_mult_imp_div_less power_mult_distrib mult_2 power_add)
    moreover have "unat x div 2 ^ n = unat w div 2 ^ (64 - num - n)"
    proof -
      have "64 - num - n = (64 - num - 2 * n) + n" using b(1) by simp
      then show ?thesis using b(4) by (simp add: div_mult2_eq power_add)
    qed
    ultimately show ?thesis using r False b(1) d by (simp add: ffs_inv_def)
  qed
qed

lemma reverse_ffs_bounds:
  assumes "w \<noteq> 0"
  shows "reverse_ffs w < 64 \<and> 2 ^ (63 - reverse_ffs w) \<le> unat w \<and> unat w < 2 ^ (64 - reverse_ffs w)"
proof -
  obtain x1 n1 where s1: "(x1, n1) = (if w AND 0xffffffff00000000 = 0 then (w, 32) else (drop_bit 32 w, 0 :: nat))" by (metis surj_pair)
  obtain x2 n2 where s2: "(x2, n2) = (if x1 AND 0xffff0000 = 0 then (x1, n1 + 16) else (drop_bit 16 x1, n1))" by (metis surj_pair)
  obtain x3 n3 where s3: "(x3, n3) = (if x2 AND 0xff00 = 0 then (x2, n2 + 8) else (drop_bit 8 x2, n2))" by (metis surj_pair)
  obtain x4 n4 where s4: "(x4, n4) = (if x3 AND 0xf0 = 0 then (x3, n3 + 4) else (drop_bit 4 x3, n3))" by (metis surj_pair)
  obtain x5 n5 where s5: "(x5, n5) = (if x4 AND 0xc = 0 then (x4, n4 + 2) else (drop_bit 2 x4, n4))" by (metis surj_pair)
  obtain x6 n6 where s6: "(x6, n6) = (if x5 AND 0x2 = 0 then (x5, n5 + 1) else (drop_bit 1 x5, n5))" by (metis surj_pair)
  have r: "reverse_ffs w = n6"
  proof -
    have "reverse_ffs w = (if x5 AND 0x2 = 0 then n5 + 1 else n5)"
      unfolding reverse_ffs_def Let_def s1[symmetric] prod.case s2[symmetric] s3[symmetric] s4[symmetric] s5[symmetric] ..
    then show ?thesis using s6 by (simp split: if_splits)
  qed
  have "ffs_inv w 64 w 0" using assms unsigned_less[of w] by (simp add: ffs_inv_def)
  then have "ffs_inv w (2 * 32) w 0" by simp
  from ffs_stage[OF this, of "0xffffffff00000000" x1 n1] s1 have "ffs_inv w (2 * 16) x1 n1" by (simp add: mask_eq_exp_minus_1 push_bit_eq_mult)
  from ffs_stage[OF this _ s2] have "ffs_inv w (2 * 8) x2 n2" by (simp add: mask_eq_exp_minus_1 push_bit_eq_mult)
  from ffs_stage[OF this _ s3] have "ffs_inv w (2 * 4) x3 n3" by (simp add: mask_eq_exp_minus_1 push_bit_eq_mult)
  from ffs_stage[OF this _ s4] have "ffs_inv w (2 * 2) x4 n4" by (simp add: mask_eq_exp_minus_1 push_bit_eq_mult)
  from ffs_stage[OF this _ s5] have "ffs_inv w (2 * 1) x5 n5" by (simp add: mask_eq_exp_minus_1 push_bit_eq_mult)
  from ffs_stage[OF this _ s6] have "ffs_inv w 1 x6 n6" by (simp add: mask_eq_exp_minus_1 push_bit_eq_mult)
  then have n: "n6 < 64" "x6 \<noteq> 0" "unat x6 < 2" "unat x6 = unat w div 2 ^ (63 - n6)" by (simp_all add: ffs_inv_def)
  have "unat x6 \<noteq> 0" using n(2) by (simp add: unat_eq_zero)
  then have d: "unat w div 2 ^ (63 - n6) = 1" using n(3,4) by simp
  have "2 ^ (63 - n6) \<le> unat w" using d div_greater_zero_iff[of "unat w" "2 ^ (63 - n6)"] by simp
  moreover have "unat w < 2 ^ (63 - n6) * 2" using d dividend_less_div_times[of "2 ^ (63 - n6)" "unat w"] by simp
  moreover have "(2 :: nat) ^ (63 - n6) * 2 = 2 ^ (64 - n6)"
  proof -
    have "64 - n6 = Suc (63 - n6)" using n(1) by simp
    then show ?thesis by simp
  qed
  ultimately show ?thesis using n(1) r by simp
qed

lemma reverse_ffs_spec:
  assumes "w \<noteq> 0"
  shows "reverse_ffs w < 64" "bit w (63 - reverse_ffs w)" "k < reverse_ffs w \<Longrightarrow> \<not> bit w (63 - k)"
proof -
  let ?r = "reverse_ffs w"
  note b = reverse_ffs_bounds[OF assms]
  show r: "?r < 64" using b by blast
  have e: "Suc (63 - ?r) = 64 - ?r" using r by simp
  have top: "\<forall>i. 64 - ?r \<le> i \<longrightarrow> \<not> bit w i" using b low_bits[of w "64 - ?r"] by blast
  have "\<not> (\<forall>i. 63 - ?r \<le> i \<longrightarrow> \<not> bit w i)" using b low_bits[of w "63 - ?r"] by (metis linorder_not_less)
  then obtain i where i: "63 - ?r \<le> i" "bit w i" by blast
  then have "\<not> 64 - ?r \<le> i" using top by blast
  then have "i = 63 - ?r" using i(1) e by simp
  then show "bit w (63 - ?r)" using i(2) by simp
  show "\<not> bit w (63 - k)" if "k < ?r"
  proof -
    have "64 - ?r \<le> 63 - k" using that r by simp
    then show ?thesis using top by blast
  qed
qed

section \<open>The searches\<close>

lemma ulong_bit:
  assumes "k < 64"
  shows "bit (ulong_at mem p) (8 * (k div 8) + (7 - k mod 8)) = f2fs_test_bit (64 * p + k) mem"
proof -
  define a r where "a = k div 8" and "r = 7 - k mod 8"
  have ar: "a < 8" "r < 8" using assms by (simp_all add: a_def r_def)
  have t: "f2fs_test_bit (64 * p + k) mem = bit (mem (8 * p + a)) r" by (simp add: test_bit_iff place a_def r_def)
  have "(\<exists>j < 8. 8 * j \<le> 8 * a + r \<and> bit (mem (8 * p + j)) (8 * a + r - 8 * j)) \<longleftrightarrow> bit (mem (8 * p + a)) r"
  proof
    assume "\<exists>j < 8. 8 * j \<le> 8 * a + r \<and> bit (mem (8 * p + j)) (8 * a + r - 8 * j)"
    then obtain j where j: "8 * j \<le> 8 * a + r" "bit (mem (8 * p + j)) (8 * a + r - 8 * j)" by blast
    have "j = a" using j(1) bit_byte_less[OF j(2)] ar by linarith
    then show "bit (mem (8 * p + a)) r" using j(2) by simp
  next
    assume "bit (mem (8 * p + a)) r"
    then show "\<exists>j < 8. 8 * j \<le> 8 * a + r \<and> bit (mem (8 * p + j)) (8 * a + r - 8 * j)" using ar by (intro exI[of _ a]) simp
  qed
  then show ?thesis unfolding t bit_ulong_at a_def[symmetric] r_def[symmetric] .
qed

lemma ulong_zero: "ulong_at mem p = 0 \<Longrightarrow> k < 64 \<Longrightarrow> \<not> f2fs_test_bit (64 * p + k) mem"
  using ulong_bit[of k mem p] by simp

lemma ulong_full:
  assumes "ulong_at mem p = - 1" "k < 64"
  shows "f2fs_test_bit (64 * p + k) mem"
proof -
  have "k div 8 \<le> 7" "7 - k mod 8 < 8" using assms(2) by simp_all
  then have "8 * (k div 8) + (7 - k mod 8) < 64" by linarith
  then show ?thesis using ulong_bit[OF assms(2), of mem p] assms(1) by simp
qed

text \<open>The bits of a word that the search looks at.\<close>

lemma window_bits:
  fixes w :: "64 word"
  assumes "k < 64"
  shows "bit (w AND drop_bit off (- 1)) (63 - k) \<longleftrightarrow> bit w (63 - k) \<and> off \<le> k"
    "0 < n \<Longrightarrow> n < 64 \<Longrightarrow> bit (w AND push_bit (64 - n) (- 1)) (63 - k) \<longleftrightarrow> bit w (63 - k) \<and> k < n"
    "0 < off \<Longrightarrow> off < 64 \<Longrightarrow> bit (w OR push_bit (64 - off) (- 1)) (63 - k) \<longleftrightarrow> bit w (63 - k) \<or> k < off"
    "bit (w OR drop_bit n (- 1)) (63 - k) \<longleftrightarrow> bit w (63 - k) \<or> n \<le> k"
  using assms by (auto simp: bit_simps)

lemma find_next_bit_eqI:
  assumes "s \<le> i" "i < n" "m i" "\<And>j. s \<le> j \<Longrightarrow> j < i \<Longrightarrow> \<not> m j"
  shows "find_next_bit m n s = i"
proof -
  have lt: "find_next_bit m n s < n" using find_next_bit_exists[of s i n m] assms(1-3) by simp
  have f: "m (find_next_bit m n s)" "s \<le> find_next_bit m n s" using find_next_bit_less[of m n s] lt by blast+
  show ?thesis
  proof (rule linorder_cases[of "find_next_bit m n s" i])
    assume "find_next_bit m n s < i"
    then show ?thesis using f assms(4) by blast
  next
    assume "i < find_next_bit m n s"
    then show ?thesis using find_next_bit_skips[of s i m n] assms(1,3) by blast
  qed
qed

lemma find_next_bit_from:
  assumes "s \<le> s'" "s' \<le> n" "\<And>j. s \<le> j \<Longrightarrow> j < s' \<Longrightarrow> \<not> m j"
  shows "find_next_bit m n s = find_next_bit m n s'"
proof (cases "find_next_bit m n s' < n")
  case True
  have f: "m (find_next_bit m n s')" "s' \<le> find_next_bit m n s'" using find_next_bit_less[of m n s'] True by blast+
  show ?thesis
  proof (rule find_next_bit_eqI)
    show "find_next_bit m n s' < n" "m (find_next_bit m n s')" using True f(1) by blast+
    show "s \<le> find_next_bit m n s'" using assms(1) f(2) by simp
    show "\<not> m j" if "s \<le> j" "j < find_next_bit m n s'" for j
      using assms(3)[OF that(1)] find_next_bit_skips[of s' j m n] that(2) by (cases "j < s'") simp_all
  qed
next
  case False
  then have e: "find_next_bit m n s' = n" using find_next_bit_le[of m n s'] by simp
  then have "\<not> m j" if "s \<le> j" "j < n" for j using assms(3)[OF that(1)] find_next_bit_skips[of s' j m n] that(2) by (cases "j < s'") simp_all
  then have "\<not> find_next_bit m n s < n" using find_next_bit_less[of m n s] by blast
  then show ?thesis using find_next_bit_le[of m n s] e by simp
qed

text \<open>One word of the search.\<close>

lemma word_step:
  fixes w :: "64 word"
  assumes w': "\<forall>k. k < 64 \<longrightarrow> bit w (63 - k) = (m (64 * p + k) \<and> off \<le> k \<and> k < n)"
  shows "w \<noteq> 0 \<Longrightarrow> find_next_bit m (64 * p + n) (64 * p + off) = 64 * p + reverse_ffs w"
    "w = 0 \<Longrightarrow> 64 * p + off \<le> j \<Longrightarrow> j < 64 * p + n \<Longrightarrow> j < 64 * (p + 1) \<Longrightarrow> \<not> m j"
proof -
  note w = w'[rule_format]
  show "find_next_bit m (64 * p + n) (64 * p + off) = 64 * p + reverse_ffs w" if nz: "w \<noteq> 0"
  proof -
    note r = reverse_ffs_spec[OF nz]
    have i: "m (64 * p + reverse_ffs w)" "off \<le> reverse_ffs w" "reverse_ffs w < n" using w[OF r(1)] r(2) by simp_all
    show ?thesis
    proof (rule find_next_bit_eqI)
      show "\<not> m j" if "64 * p + off \<le> j" "j < 64 * p + reverse_ffs w" for j
      proof -
        define k where "k = j - 64 * p"
        have j: "j = 64 * p + k" "off \<le> k" "k < reverse_ffs w" using that by (simp_all add: k_def)
        then show ?thesis using w[of k] r(1) r(3)[of k] i(3) by simp
      qed
    qed (use i in simp_all)
  qed
  show "\<not> m j" if "w = 0" "64 * p + off \<le> j" "j < 64 * p + n" "j < 64 * (p + 1)"
  proof -
    define k where "k = j - 64 * p"
    have "j = 64 * p + k" "off \<le> k" "k < n" "k < 64" using that by (simp_all add: k_def)
    then show ?thesis using w[of k] that(1) by simp
  qed
qed

lemma next_word:
  assumes "off \<le> 64" "64 < n" "\<And>j. 64 * p + off \<le> j \<Longrightarrow> j < 64 * p + n \<Longrightarrow> j < 64 * (p + 1) \<Longrightarrow> \<not> m j"
  shows "find_next_bit m (64 * p + n) (64 * p + off) = find_next_bit m (64 * p + n) (64 * (p + 1))"
  by (rule find_next_bit_from) (use assms in simp_all)

lemma last_word:
  assumes "n \<le> 64" "\<And>j. 64 * p + off \<le> j \<Longrightarrow> j < 64 * p + n \<Longrightarrow> j < 64 * (p + 1) \<Longrightarrow> \<not> m j"
  shows "find_next_bit m (64 * p + n) (64 * p + off) = 64 * p + n"
proof -
  have "\<not> find_next_bit m (64 * p + n) (64 * p + off) < 64 * p + n"
    using find_next_bit_less[of m "64 * p + n" "64 * p + off"] assms by fastforce
  then show ?thesis using find_next_bit_le[of m "64 * p + n" "64 * p + off"] by simp
qed

lemma next_window:
  fixes off n :: nat and v :: "64 word"
  defines "w \<equiv> (if n < 64 then v AND drop_bit off (- 1) AND push_bit (64 - n) (- 1) else v AND drop_bit off (- 1))"
  assumes "k < 64" "0 < n"
  shows "bit w (63 - k) \<longleftrightarrow> bit v (63 - k) \<and> off \<le> k \<and> k < n"
proof (cases "n < 64")
  case True
  then show ?thesis unfolding w_def using window_bits(1)[OF assms(2), of v off]
      window_bits(2)[OF assms(2,3), of "v AND drop_bit off (- 1)"] by (simp only: and.assoc if_True simp_thms) blast
next
  case False
  then show ?thesis unfolding w_def using window_bits(1)[OF assms(2), of v off] assms(2) by (simp only: if_False) auto
qed

lemma rev_next_loop_eq:
  "off < 64 \<Longrightarrow> 0 < n \<Longrightarrow> result = 64 * p + n \<Longrightarrow>
   rev_next_loop mem p result n off = find_next_bit (\<lambda>i. f2fs_test_bit i mem) result (64 * p + off)"
proof (induction n arbitrary: p off rule: less_induct)
  case (less n)
  define w where "w = (if n < 64 then reverse_ulong mem p AND drop_bit off (- 1) AND push_bit (64 - n) (- 1) else reverse_ulong mem p AND drop_bit off (- 1))"
  have w: "bit w (63 - k) \<longleftrightarrow> f2fs_test_bit (64 * p + k) mem \<and> off \<le> k \<and> k < n" if "k < 64" for k
    unfolding w_def next_window[OF that less.prems(2)] bit_reverse_ulong[OF that] ..
  have z: "w = 0" if "ulong_at mem p = 0"
  proof (rule ccontr)
    assume "w \<noteq> 0"
    then show False using reverse_ffs_spec[of w] w ulong_zero[OF that] by blast
  qed
  have e: "rev_next_loop mem p result n off = (if w \<noteq> 0 then result - n + reverse_ffs w else if n \<le> 64 then result else rev_next_loop mem (p + 1) result (n - 64) 0)"
  proof -
    have "rev_next_loop mem p result n off = (if ulong_at mem p \<noteq> 0 \<and> w \<noteq> 0 then result - n + reverse_ffs w else if n \<le> 64 then result else rev_next_loop mem (p + 1) result (n - 64) 0)"
      unfolding rev_next_loop.simps[of mem p result n off] Let_def w_def and.assoc ..
    then show ?thesis using z by auto
  qed
  have w': "\<forall>k. k < 64 \<longrightarrow> bit w (63 - k) = (f2fs_test_bit (64 * p + k) mem \<and> off \<le> k \<and> k < n)" using w by blast
  note S = word_step[of w "\<lambda>i. f2fs_test_bit i mem" p off n, OF w']
  show ?case
  proof (cases "w = 0")
    case False
    then show ?thesis using e S(1) less.prems(3) by simp
  next
    case True
    show ?thesis
    proof (cases "n \<le> 64")
      case n: True
      have "rev_next_loop mem p result n off = result" using e True n by simp
      then show ?thesis using last_word[of n p off "\<lambda>i. f2fs_test_bit i mem", OF n S(2)[OF True]] less.prems(3) by simp
    next
      case n: False
      have "rev_next_loop mem (p + 1) result (n - 64) 0 = find_next_bit (\<lambda>i. f2fs_test_bit i mem) result (64 * (p + 1) + 0)"
        by (rule less.IH) (use n less.prems(3) in simp_all)
      moreover have "rev_next_loop mem p result n off = rev_next_loop mem (p + 1) result (n - 64) 0" using e True n by simp
      ultimately show ?thesis
        using n next_word[of off n p "\<lambda>i. f2fs_test_bit i mem", OF _ _ S(2)[OF True]] less.prems(1,3) by simp
    qed
  qed
qed

lemma find_rev_next_bit_eq: "find_rev_next_bit mem n off = (if off \<ge> n then n else find_next_bit (\<lambda>i. f2fs_test_bit i mem) n off)"
proof (cases "off \<ge> n")
  case False
  define p r where "p = off div 64" and "r = off mod 64"
  have o: "off = 64 * p + r" "r < 64" by (simp_all add: p_def r_def)
  have "find_rev_next_bit mem n off = rev_next_loop mem p n (n - p * 64) r" using False by (simp add: find_rev_next_bit_def p_def r_def)
  also have "\<dots> = find_next_bit (\<lambda>i. f2fs_test_bit i mem) n (64 * p + r)" by (rule rev_next_loop_eq) (use o False in simp_all)
  finally show ?thesis using False o(1) by simp
qed (simp add: find_rev_next_bit_def)

section \<open>The search for a clear bit\<close>

lemma bit_not_word: "k < 64 \<Longrightarrow> bit (NOT v) (63 - k) \<longleftrightarrow> \<not> bit v (63 - k)" for v :: "64 word"
  by (subgoal_tac "63 - k < 64") (simp_all add: bit_not_iff)

lemma not_zero_iff: "NOT v = 0 \<longleftrightarrow> v = - 1" for v :: "'a::len word"
  by (metis bit.compl_one bit.compl_zero bit.double_compl)

lemma zero_window:
  fixes off n :: nat and v :: "64 word"
  defines "u \<equiv> (if off \<noteq> 0 then v OR push_bit (64 - off) (- 1) else v)"
  defines "w \<equiv> (if n < 64 then u OR drop_bit n (- 1) else u)"
  assumes "k < 64" "0 < n" "off < 64"
  shows "bit (NOT w) (63 - k) \<longleftrightarrow> \<not> bit v (63 - k) \<and> off \<le> k \<and> k < n"
proof -
  have u: "bit u (63 - k) \<longleftrightarrow> bit v (63 - k) \<or> k < off"
  proof (cases "off = 0")
    case False
    then show ?thesis unfolding u_def using window_bits(3)[OF assms(3), of off v] assms(5) by (simp only: if_True simp_thms)
  qed (simp add: u_def)
  have "bit w (63 - k) \<longleftrightarrow> bit v (63 - k) \<or> k < off \<or> n \<le> k"
  proof (cases "n < 64")
    case True
    then show ?thesis unfolding w_def using window_bits(4)[OF assms(3), of u n] u by (simp only: if_True simp_thms) blast
  next
    case False
    then show ?thesis using u assms(3) by (simp add: w_def)
  qed
  then show ?thesis unfolding bit_not_word[OF assms(3)] by auto
qed

lemma rev_next_zero_loop_eq:
  "off < 64 \<Longrightarrow> 0 < n \<Longrightarrow> result = 64 * p + n \<Longrightarrow>
   rev_next_zero_loop mem p result n off = find_next_bit (\<lambda>i. \<not> f2fs_test_bit i mem) result (64 * p + off)"
proof (induction n arbitrary: p off rule: less_induct)
  case (less n)
  define u where "u = (if off \<noteq> 0 then reverse_ulong mem p OR push_bit (64 - off) (- 1) else reverse_ulong mem p)"
  define w where "w = (if n < 64 then u OR drop_bit n (- 1) else u)"
  have w: "bit (NOT w) (63 - k) \<longleftrightarrow> \<not> f2fs_test_bit (64 * p + k) mem \<and> off \<le> k \<and> k < n" if "k < 64" for k
    unfolding w_def u_def zero_window[OF that less.prems(2,1)] bit_reverse_ulong[OF that] ..
  have z: "w = - 1" if "ulong_at mem p = - 1"
  proof (rule ccontr)
    assume "w \<noteq> - 1"
    then have "NOT w \<noteq> 0" by (simp add: not_zero_iff)
    then show False using reverse_ffs_spec[of "NOT w"] w ulong_full[OF that] by blast
  qed
  have e: "rev_next_zero_loop mem p result n off = (if NOT w \<noteq> 0 then result - n + reverse_ffs (NOT w) else if n \<le> 64 then result else rev_next_zero_loop mem (p + 1) result (n - 64) 0)"
  proof -
    have "rev_next_zero_loop mem p result n off = (if ulong_at mem p \<noteq> - 1 \<and> w \<noteq> - 1 then result - n + reverse_ffz w else if n \<le> 64 then result else rev_next_zero_loop mem (p + 1) result (n - 64) 0)"
      unfolding rev_next_zero_loop.simps[of mem p result n off] Let_def w_def u_def ..
    then show ?thesis using z by (auto simp: not_zero_iff reverse_ffz_def)
  qed
  have w': "\<forall>k. k < 64 \<longrightarrow> bit (NOT w) (63 - k) = (\<not> f2fs_test_bit (64 * p + k) mem \<and> off \<le> k \<and> k < n)" using w by blast
  note S = word_step[of "NOT w" "\<lambda>i. \<not> f2fs_test_bit i mem" p off n, OF w']
  show ?case
  proof (cases "NOT w = 0")
    case False
    then show ?thesis using e S(1) less.prems(3) by simp
  next
    case True
    show ?thesis
    proof (cases "n \<le> 64")
      case n: True
      have "rev_next_zero_loop mem p result n off = result" using e True n by simp
      then show ?thesis using last_word[of n p off "\<lambda>i. \<not> f2fs_test_bit i mem", OF n S(2)[OF True]] less.prems(3) by simp
    next
      case n: False
      have "rev_next_zero_loop mem (p + 1) result (n - 64) 0 = find_next_bit (\<lambda>i. \<not> f2fs_test_bit i mem) result (64 * (p + 1) + 0)"
        by (rule less.IH) (use n less.prems(3) in simp_all)
      moreover have "rev_next_zero_loop mem p result n off = rev_next_zero_loop mem (p + 1) result (n - 64) 0" using e True n by simp
      ultimately show ?thesis
        using n next_word[of off n p "\<lambda>i. \<not> f2fs_test_bit i mem", OF _ _ S(2)[OF True]] less.prems(1,3) by simp
    qed
  qed
qed

lemma find_rev_next_zero_bit_eq: "find_rev_next_zero_bit mem n off = (if off \<ge> n then n else find_next_zero_bit (\<lambda>i. f2fs_test_bit i mem) n off)"
proof (cases "off \<ge> n")
  case False
  define p r where "p = off div 64" and "r = off mod 64"
  have o: "off = 64 * p + r" "r < 64" by (simp_all add: p_def r_def)
  have "find_rev_next_zero_bit mem n off = rev_next_zero_loop mem p n (n - p * 64) r" using False by (simp add: find_rev_next_zero_bit_def p_def r_def)
  also have "\<dots> = find_next_bit (\<lambda>i. \<not> f2fs_test_bit i mem) n (64 * p + r)" by (rule rev_next_zero_loop_eq) (use o False in simp_all)
  finally show ?thesis using False o(1) by (simp add: find_next_zero_bit_def)
qed (simp add: find_rev_next_zero_bit_def)

section \<open>The accessors on the bitmap\<close>

definition bitmap_of :: "bytes \<Rightarrow> bitmap" where
  "bitmap_of mem = (\<lambda>i. f2fs_test_bit i mem)"

lemma bit_at: "f2fs_test_bit i (addr(nr div 8 := b)) = (if i div 8 = nr div 8 then bit b (7 - i mod 8) else f2fs_test_bit i addr)"
  by (simp add: test_bit_iff)

lemma byte_update:
  assumes "\<And>n. n < 8 \<Longrightarrow> bit b n = (if n = 7 - nr mod 8 then v else bit (addr (nr div 8)) n)"
  shows "bitmap_of (addr(nr div 8 := b)) = (bitmap_of addr)(nr := v)"
proof
  fix i :: nat
  have "7 - i mod 8 < 8" by simp
  then show "bitmap_of (addr(nr div 8 := b)) i = ((bitmap_of addr)(nr := v)) i"
    using assms[of "7 - i mod 8"] same_place[of i nr] by (auto simp: bitmap_of_def test_bit_iff)
qed

lemma set_bit_bitmap: "bitmap_of (f2fs_set_bit nr addr) = (bitmap_of addr)(nr := True)"
  unfolding f2fs_set_bit_def by (rule byte_update) (simp add: bit_or_iff bit_rev_mask)

lemma clear_bit_bitmap: "bitmap_of (f2fs_clear_bit nr addr) = (bitmap_of addr)(nr := False)"
  unfolding f2fs_clear_bit_def by (rule byte_update) (simp add: bit_and_iff bit_not_iff bit_rev_mask)

lemma change_bit_bitmap: "bitmap_of (f2fs_change_bit nr addr) = (bitmap_of addr)(nr := \<not> bitmap_of addr nr)"
  unfolding f2fs_change_bit_def by (rule byte_update) (simp add: bit_xor_iff bit_rev_mask bitmap_of_def test_bit_iff)

lemma test_and_set: "f2fs_test_and_set_bit nr addr = (bitmap_of addr nr, f2fs_set_bit nr addr)"
  by (simp add: f2fs_test_and_set_bit_def f2fs_set_bit_def bitmap_of_def f2fs_test_bit_def)

lemma test_and_clear: "f2fs_test_and_clear_bit nr addr = (bitmap_of addr nr, f2fs_clear_bit nr addr)"
  by (simp add: f2fs_test_and_clear_bit_def f2fs_clear_bit_def bitmap_of_def f2fs_test_bit_def)

section \<open>Equivalence of the searches\<close>

lemma find_next_bit_beyond: "n \<le> off \<Longrightarrow> find_next_bit m n off = n"
  by (simp add: find_next_bit_def)

text \<open>
  C20. The word-wise searches \<open>__find_rev_next_bit\<close> and \<open>__find_rev_next_zero_bit\<close>, with their
  byte reversal, edge masks and binary search for the first bit of a word, compute on every memory,
  size and start the same position as the bit-by-bit search on the bitmap that \<open>f2fs_test_bit\<close>
  reads: the first set (clear) bit from the start on, or the size when there is none.
\<close>

theorem rev_search_equivalent:
  "find_rev_next_bit mem n off = find_next_bit (bitmap_of mem) n off \<and>
   find_rev_next_zero_bit mem n off = find_next_zero_bit (bitmap_of mem) n off"
  by (simp add: find_rev_next_bit_eq find_rev_next_zero_bit_eq bitmap_of_def find_next_zero_bit_def find_next_bit_beyond)

end
