(* ===== verification/Sit_Raw.thy ===== *)
theory Sit_Raw
  imports Rev_Bits Segment_Cp
begin

unbundle bit_operations_syntax

text \<open>
  SIT entries as they are stored (\<open>segment.h\<close>): packing and unpacking, and the check of a stored
  entry against its validity map. \<open>GET_SIT_VBLOCKS\<close>, \<open>GET_SIT_TYPE\<close> and the shift are macros of
  \<open>linux/f2fs_fs.h\<close>, which is not part of the repository: they are arguments.
\<close>

section \<open>Packing\<close>

record sit_macros =
  SIT_VBLOCKS_SHIFT :: nat
  GET_SIT_VBLOCKS :: "nat \<Rightarrow> nat"
  GET_SIT_TYPE :: "nat \<Rightarrow> nat"

text \<open>\<open>struct f2fs_sit_entry\<close>; the map is given by the positions that \<open>f2fs_test_bit\<close> reads.\<close>

record raw_sit =
  rs_vblocks :: nat
  rs_map :: bitmap
  rs_mtime :: nat

fun type_nr :: "seg_type \<Rightarrow> nat" where
  "type_nr CURSEG_HOT_DATA = 0"
| "type_nr CURSEG_WARM_DATA = 1"
| "type_nr CURSEG_COLD_DATA = 2"
| "type_nr CURSEG_HOT_NODE = 3"
| "type_nr CURSEG_WARM_NODE = 4"
| "type_nr CURSEG_COLD_NODE = 5"

definition persistent_logs :: "seg_type list" where
  "persistent_logs = [CURSEG_HOT_DATA, CURSEG_WARM_DATA, CURSEG_COLD_DATA, CURSEG_HOT_NODE, CURSEG_WARM_NODE, CURSEG_COLD_NODE]"

text \<open>The type with a number; none from \<open>NR_PERSISTENT_LOG\<close> on.\<close>

definition type_of_nr :: "nat \<Rightarrow> seg_type option" where
  "type_of_nr n = (if n < length persistent_logs then Some (persistent_logs ! n) else None)"

definition to_raw_sit :: "sit_macros \<Rightarrow> sit_entry \<Rightarrow> raw_sit" where
  "to_raw_sit mac se =
     \<lparr>rs_vblocks = take_bit 16 (push_bit (SIT_VBLOCKS_SHIFT mac) (type_nr (se_type se)) OR valid_blocks se),
      rs_map = cur_valid_map se, rs_mtime = se_mtime se\<rparr>"

definition seg_info_to_raw_sit :: "sit_macros \<Rightarrow> sit_entry \<Rightarrow> sit_entry \<times> raw_sit" where
  "seg_info_to_raw_sit mac se = (ckpt_entry se, to_raw_sit mac se)"

definition seg_info_to_sit_page :: "seg_env \<Rightarrow> sit_macros \<Rightarrow> 'g sm_info \<Rightarrow> nat \<Rightarrow> raw_sit list" where
  "seg_info_to_sit_page env mac sm start =
     (let end' = min (start + SIT_ENTRY_PER_BLOCK env) (MAIN_SEGS (geo env))
      in map (\<lambda>i. to_raw_sit mac (get_seg_entry sm (start + i))) [0..<end' - start])"

text \<open>
  Unpacking into the fields of 6 and 10 bits; \<open>None\<close> when the number is no type of a log, which the
  callers test first thing.
\<close>

definition seg_info_from_raw_sit :: "sit_macros \<Rightarrow> raw_sit \<Rightarrow> sit_entry \<Rightarrow> sit_entry option" where
  "seg_info_from_raw_sit mac rs se =
     map_option (\<lambda>t. se\<lparr>valid_blocks := GET_SIT_VBLOCKS mac (rs_vblocks rs) mod 2 ^ 10,
          ckpt_valid_blocks := GET_SIT_VBLOCKS mac (rs_vblocks rs) mod 2 ^ 10,
          cur_valid_map := rs_map rs, ckpt_valid_map := rs_map rs, se_type := t, se_mtime := rs_mtime rs\<rparr>)
       (type_of_nr (GET_SIT_TYPE mac (rs_vblocks rs) mod 2 ^ 6))"

section \<open>Checking\<close>

text \<open>
  The searches of \<open>check_block_count\<close> are those of the kernel for little endian maps, where a byte
  starts with its least significant bit: they read the bits of every byte backwards.
\<close>

definition le_view :: "bitmap \<Rightarrow> bitmap" where
  "le_view m i = m (8 * (i div 8) + (7 - i mod 8))"

lemma next_pos_ge:
  "cur \<le> find_next_bit m n cur \<or> \<not> find_next_bit m n cur < n" "cur \<le> find_next_zero_bit m n cur \<or> \<not> find_next_zero_bit m n cur < n"
  using find_next_bit_less(2)[of m n cur] zero_bit_less(2)[of m n cur] by blast+

lemma run_measure:
  assumes "nx = (if v then find_next_zero_bit m n cur else find_next_bit m n cur)" "nx < n"
  shows "2 * (n - nx) + of_bool ((\<not> v) \<noteq> m nx) < 2 * (n - cur) + of_bool (v \<noteq> m cur)"
proof -
  have b: "m nx = (\<not> v)" "cur \<le> nx"
    using assms find_next_bit_less[of m n cur] zero_bit_less[of m n cur] by (cases v; simp)+
  show ?thesis
  proof (cases "nx = cur")
    case True
    then show ?thesis using b by simp
  next
    case False
    then have "n - nx < n - cur" using b(2) assms(2) by simp
    then show ?thesis using b(1) by simp
  qed
qed

text \<open>The \<open>do\<close> loop that adds up the runs of set bits below \<open>n\<close>.\<close>

function count_runs :: "bitmap \<Rightarrow> nat \<Rightarrow> bool \<Rightarrow> nat \<Rightarrow> nat \<Rightarrow> nat" where
  "count_runs m n is_valid cur_pos acc =
     (let next_pos = (if is_valid then find_next_zero_bit m n cur_pos else find_next_bit m n cur_pos);
          acc = (if is_valid then acc + (next_pos - cur_pos) else acc)
      in if next_pos < n then count_runs m n (\<not> is_valid) next_pos acc else acc)"
  by pat_completeness auto
termination
  by (relation "measure (\<lambda>(m, n, v, cur, _). 2 * (n - cur) + of_bool (v \<noteq> m cur))") (auto dest: run_measure[OF refl, rotated] simp del: of_bool_eq_iff)

declare count_runs.simps [simp del]

text \<open>\<open>check_block_count\<close>: whether the entry is accepted, and whether a check failed.\<close>

definition check_block_count :: "seg_env \<Rightarrow> sit_macros \<Rightarrow> nat \<Rightarrow> nat \<Rightarrow> raw_sit \<Rightarrow> bool \<times> bool" where
  "check_block_count env mac total_segs segno rs =
     (let m = le_view (rs_map rs); usable = f2fs_usable_blks_in_seg env segno; n = blocks_per_seg (geo env);
          vb = GET_SIT_VBLOCKS mac (rs_vblocks rs)
      in if vb \<noteq> count_runs m usable (m 0) 0 0 then (False, False)
         else (\<not> (vb > usable \<or> segno > sub32 total_segs 1), usable < n \<and> find_next_bit m n usable \<noteq> n))"

section \<open>What they do\<close>

lemma bits_split: "pos \<le> n \<Longrightarrow> bits m n = bits m pos + length (filter m [pos..<n])"
proof -
  assume "pos \<le> n"
  then have "[0..<n] = [0..<pos] @ [pos..<n]" using upt_add_eq_append[of 0 pos "n - pos"] by simp
  then show ?thesis by (simp add: count_idx_def)
qed

lemma bits_run:
  assumes "pos \<le> nx" "\<And>i. pos \<le> i \<Longrightarrow> i < nx \<Longrightarrow> m i = v"
  shows "bits m nx = bits m pos + (if v then nx - pos else 0)"
proof -
  have "filter m [pos..<nx] = (if v then [pos..<nx] else [])" using assms(2) by (auto simp: filter_id_conv filter_empty_conv)
  then show ?thesis using bits_split[OF assms(1), of m] by simp
qed

lemma next_pos_run:
  fixes v :: bool
  assumes "cur \<le> n" and nx: "nx = (if v then find_next_zero_bit m n cur else find_next_bit m n cur)"
  shows "cur \<le> nx" "nx \<le> n" "bits m nx = bits m cur + (if v then nx - cur else 0)"
proof -
  show le: "nx \<le> n" unfolding nx using find_next_bit_le[of m n cur] zero_bit_le[of m n cur] by simp
  show ge: "cur \<le> nx" unfolding nx using next_pos_ge[of cur m n] assms(1) by (auto simp: not_less intro: order_trans)
  have "m i = v" if "cur \<le> i" "i < nx" for i
    using that find_next_bit_skips[of cur i m n] zero_bit_skips[of cur i m n] by (cases v) (simp_all add: nx)
  then show "bits m nx = bits m cur + (if v then nx - cur else 0)" by (rule bits_run[OF ge])
qed

lemma count_runs_counts: "cur \<le> n \<Longrightarrow> count_runs m n v cur acc + bits m cur = acc + bits m n"
proof (induction m n v cur acc rule: count_runs.induct)
  case (1 m n v cur acc)
  define nx where "nx = (if v then find_next_zero_bit m n cur else find_next_bit m n cur)"
  define a where "a = (if v then acc + (nx - cur) else acc)"
  note P = next_pos_run[OF 1(2) nx_def]
  have e: "count_runs m n v cur acc = (if nx < n then count_runs m n (\<not> v) nx a else a)"
    by (subst count_runs.simps) (simp only: Let_def nx_def[symmetric] a_def[symmetric])
  show ?case
  proof (cases "nx < n")
    case True
    have "count_runs m n (\<not> v) nx a + bits m nx = a + bits m n" by (rule 1(1)[OF nx_def a_def True P(2)])
    then show ?thesis using e True P(3) by (simp add: a_def split: if_splits)
  next
    case False
    then have "nx = n" using P(2) by simp
    then show ?thesis using e False P(3) by (simp add: a_def)
  qed
qed

lemma count_runs_bits: "count_runs m n v 0 0 = bits m n"
  using count_runs_counts[of 0 n m v 0] by simp

text \<open>Reading whole bytes backwards does not change the number of bits.\<close>

lemma le_view_bytes: "le_view (bitmap_of mem) i = bit (mem (i div 8)) (i mod 8)"
proof -
  define a r where "a = i div 8" and "r = 7 - i mod 8"
  have "r < 8" "7 - r = i mod 8" by (simp_all add: r_def)
  then have "(8 * a + r) div 8 = a" "7 - (8 * a + r) mod 8 = i mod 8" by simp_all
  then have "(8 * (i div 8) + (7 - i mod 8)) div 8 = i div 8" "7 - (8 * (i div 8) + (7 - i mod 8)) mod 8 = i mod 8" by (simp_all only: a_def r_def)
  then show ?thesis by (simp only: le_view_def bitmap_of_def test_bit_iff)
qed

lemma le_view_bits:
  assumes "8 dvd n"
  shows "bits (le_view m) n = bits m n"
proof -
  obtain k where n: "n = 8 * k" using assms by blast
  have "bits (le_view m) (8 * k) = bits m (8 * k)"
  proof (induction k)
    case (Suc k)
    have b: "bits f (8 * Suc k) = bits f (8 * k) + (of_bool (f (8 * k)) + of_bool (f (8 * k + 1)) + of_bool (f (8 * k + 2)) + of_bool (f (8 * k + 3)) +
        of_bool (f (8 * k + 4)) + of_bool (f (8 * k + 5)) + of_bool (f (8 * k + 6)) + of_bool (f (8 * k + 7)))" for f :: bitmap
      using count_idx_Suc[of "\<lambda>b. b" f] by (simp add: eval_nat_numeral)
    have v: "le_view m (8 * k + j) = m (8 * k + (7 - j))" if "j < 8" for j using that by (simp add: le_view_def)
    show ?case unfolding b using Suc v[of 0] v[of 1] v[of 2] v[of 3] v[of 4] v[of 5] v[of 6] v[of 7] by simp
  qed simp
  then show ?thesis using n by simp
qed

text \<open>An entry is accepted exactly when its count is the number of bits of its map and its segment exists.\<close>

lemma check_block_count_iff:
  assumes "f2fs_usable_blks_in_seg env segno = blocks_per_seg (geo env)" "8 dvd blocks_per_seg (geo env)" "0 < tot" "tot < 2 ^ 32"
  shows "check_block_count env mac tot segno rs = (r, b) \<longleftrightarrow>
    \<not> b \<and> r = (GET_SIT_VBLOCKS mac (rs_vblocks rs) = bits (rs_map rs) (blocks_per_seg (geo env)) \<and> segno < tot)"
proof -
  have "sub32 tot 1 = tot - 1" using assms(3,4) by (simp add: sub32_le)
  moreover have "bits (rs_map rs) (blocks_per_seg (geo env)) \<le> blocks_per_seg (geo env)" by (rule count_idx_le)
  ultimately show ?thesis using assms(1,3) by (auto simp: check_block_count_def Let_def count_runs_bits le_view_bits[OF assms(2)])
qed

section \<open>Packing and unpacking\<close>

text \<open>The macros as \<open>linux/f2fs_fs.h\<close> documents them: 10 bits for the count, the type above.\<close>

definition sit_macros_ok :: "sit_macros \<Rightarrow> bool" where
  "sit_macros_ok mac \<longleftrightarrow> SIT_VBLOCKS_SHIFT mac = 10 \<and> (\<forall>x < 2 ^ 16. GET_SIT_VBLOCKS mac x = x mod 2 ^ 10 \<and> GET_SIT_TYPE mac x = x div 2 ^ 10)"

lemma type_of_nr [simp]: "type_of_nr (type_nr t) = Some t"
  by (cases t) (simp_all add: type_of_nr_def persistent_logs_def)

lemma type_nr_less: "type_nr t < 6"
  by (cases t) simp_all

lemma packed:
  assumes "v < 2 ^ 10" "t < 2 ^ 6"
  shows "take_bit 16 (push_bit 10 t OR v) = t * 2 ^ 10 + (v :: nat)"
proof -
  have "take_bit 10 v = v" using assms(1) by (rule take_bit_nat_eq_self)
  then have "push_bit 10 t AND v = 0" by (metis bit_eqI bit_and_iff bit_push_bit_iff bit_take_bit_iff bit_0_eq bot_fun_def linorder_not_less bot_bool_def)
  then have "push_bit 10 t OR v = push_bit 10 t + v" by (rule disjunctive_add_eq_or[symmetric])
  moreover have "push_bit 10 t + v < 2 ^ 16" using assms by (simp add: push_bit_eq_mult)
  ultimately show ?thesis by (simp add: take_bit_nat_eq_self push_bit_eq_mult)
qed

lemma from_to_raw:
  assumes "sit_macros_ok mac" "valid_blocks se < 2 ^ 10"
  shows "seg_info_from_raw_sit mac (to_raw_sit mac se) se' =
      Some (se'\<lparr>valid_blocks := valid_blocks se, ckpt_valid_blocks := valid_blocks se, cur_valid_map := cur_valid_map se,
        ckpt_valid_map := cur_valid_map se, se_type := se_type se, se_mtime := se_mtime se\<rparr>)"
    "GET_SIT_VBLOCKS mac (rs_vblocks (to_raw_sit mac se)) = valid_blocks se"
proof -
  define x where "x = type_nr (se_type se) * 2 ^ 10 + valid_blocks se"
  note t = type_nr_less[of "se_type se"]
  have v: "rs_vblocks (to_raw_sit mac se) = x"
    using packed[OF assms(2), of "type_nr (se_type se)"] t assms(1) by (simp add: to_raw_sit_def sit_macros_ok_def x_def)
  have x: "x < 2 ^ 16" "x mod 2 ^ 10 = valid_blocks se" "x div 2 ^ 10 = type_nr (se_type se)" using t assms(2) by (simp_all add: x_def)
  then have g: "GET_SIT_VBLOCKS mac x = valid_blocks se" "GET_SIT_TYPE mac x = type_nr (se_type se)" using assms(1) by (simp_all add: sit_macros_ok_def)
  show "GET_SIT_VBLOCKS mac (rs_vblocks (to_raw_sit mac se)) = valid_blocks se" by (simp add: v g)
  have "type_nr (se_type se) mod 2 ^ 6 = type_nr (se_type se)" using t by simp
  then show "seg_info_from_raw_sit mac (to_raw_sit mac se) se' =
      Some (se'\<lparr>valid_blocks := valid_blocks se, ckpt_valid_blocks := valid_blocks se, cur_valid_map := cur_valid_map se,
        ckpt_valid_map := cur_valid_map se, se_type := se_type se, se_mtime := se_mtime se\<rparr>)"
    using assms(2) unfolding seg_info_from_raw_sit_def v g by (simp add: to_raw_sit_def)
qed

end
