(* ===== verification/Segment_Mount.thy ===== *)
theory Segment_Mount
  imports Sit_Raw Gc_Victim
begin

text \<open>
  Building the segment manager when a volume is mounted: the check of the checkpoint
  (\<open>f2fs_sanity_check_ckpt\<close> of \<open>super.c\<close>), the construction of the discard control, and
  \<open>f2fs_build_segment_manager\<close> of \<open>segment.c\<close>, which reads the SIT blocks and the SIT journal,
  restores the logs and builds the free and dirty segment maps. What is read from the
  device is an argument; an error leaves the mount with an error code.
\<close>

section \<open>What is read\<close>

datatype mount_err = EFSCORRUPTED | Mount_err errno

datatype discard_unit = DISCARD_UNIT_BLOCK | DISCARD_UNIT_SEGMENT | DISCARD_UNIT_SECTION

text \<open>
  The super block, the checkpoint and the blocks they lead to. \<open>sit_page\<close> is the entry of a
  segment in its current SIT block or the error of \<open>get_current_sit_page\<close>; \<open>sum_page\<close> the
  summaries of a log, \<open>node_sum\<close> those that \<open>f2fs_restore_node_summary\<close> collects, \<open>compact_sum\<close>
  the sequence of entries of the compacted summary blocks, \<open>disk_ssa\<close> the summary area. \<open>nomem\<close> tells which stage runs out of
  memory. The block counts of the checkpoint have 64 bits on disk and are the 32-bit values that
  the code keeps of them. The last fields are constants of \<open>linux/f2fs_fs.h\<close>.
\<close>

record mount_img =
  segment_count :: nat
  segment_count_ckpt :: nat
  segment_count_sit :: nat
  segment_count_nat :: nat
  segment_count_ssa :: nat
  rsvd_segment_count :: nat
  overprov_segment_count :: nat
  sb_readonly :: bool       \<comment> \<open>the feature of the volume, \<open>f2fs_sb_has_readonly\<close>\<close>
  mnt_readonly :: bool      \<comment> \<open>the flag of the mount, \<open>f2fs_readonly\<close>\<close>
  ck_user_block_count :: nat
  ck_valid_block_count :: nat
  ck_valid_node_count :: nat
  total_node_count :: nat
  cur_segno :: "seg_type \<Rightarrow> nat"
  cur_blkoff :: "seg_type \<Rightarrow> nat"
  ck_alloc_type :: "seg_type \<Rightarrow> nat"
  sit_ver_bitmap_bytesize :: nat
  nat_ver_bitmap_bytesize :: nat
  cp_pack_start_sum :: nat
  cp_payload :: nat
  checksum_offset :: nat
  cp_large_nat_bitmap :: bool
  cp_nat_bits :: bool
  cp_error :: bool
  cp_trimmed :: bool
  cp_compact_sum :: bool
  cp_node_sums :: bool
  ck_elapsed_time :: nat
  sit_page :: "nat \<Rightarrow> errno + raw_sit"
  sit_journal :: "(nat \<times> raw_sit) list"
  nats_in_journal :: nat
  sum_page :: "seg_type \<Rightarrow> errno + (nat \<Rightarrow> summary)"
  node_sum :: "nat \<Rightarrow> errno + (nat \<Rightarrow> summary)"
  compact_sum :: "errno + (nat \<Rightarrow> summary)"
  disk_ssa :: "nat \<Rightarrow> nat \<Rightarrow> summary"
  unit_opt :: discard_unit
  flush_err :: "errno option"
  thread_err :: "errno option"
  nomem :: "nat \<Rightarrow> bool"
  F2FS_RESERVED_NODE_NUM :: nat
  CP_MIN_CHKSUM_OFFSET :: nat
  F2FS_CP_PACKS :: nat
  F2FS_BLK_ALIGN :: "nat \<Rightarrow> nat"
  NAT_JOURNAL_ENTRIES :: nat
  SIT_JOURNAL_ENTRIES :: nat

fun fold_err :: "('a \<Rightarrow> 's \<Rightarrow> 'e + 's) \<Rightarrow> 'a list \<Rightarrow> 's \<Rightarrow> 'e + 's" where
  "fold_err f [] s = Inr s"
| "fold_err f (x # xs) s = (case f x s of Inl e \<Rightarrow> Inl e | Inr s \<Rightarrow> fold_err f xs s)"

definition data_logs :: "seg_type list" where
  "data_logs = [CURSEG_HOT_DATA, CURSEG_WARM_DATA, CURSEG_COLD_DATA]"

definition node_logs :: "seg_type list" where
  "node_logs = [CURSEG_HOT_NODE, CURSEG_WARM_NODE, CURSEG_COLD_NODE]"

section \<open>Checking the checkpoint\<close>

definition F2FS_MIN_META_SEGMENTS :: nat where "F2FS_MIN_META_SEGMENTS = 8"

text \<open>A position of a log outside of the main area; two logs in one segment.\<close>

definition log_outside :: "seg_env \<Rightarrow> mount_img \<Rightarrow> seg_type \<Rightarrow> bool" where
  "log_outside env img t \<longleftrightarrow> cur_segno img t \<ge> MAIN_SEGS (geo env) \<or> cur_blkoff img t \<ge> blocks_per_seg (geo env)"

fun same_segno :: "mount_img \<Rightarrow> seg_type list \<Rightarrow> bool" where
  "same_segno img [] = False"
| "same_segno img (t # ts) = (list_ex (\<lambda>u. cur_segno img t = cur_segno img u) ts \<or> same_segno img ts)"

text \<open>
  The loops over the logs. On a read-only volume each loop leaves after its first log and the
  comparisons are skipped.
\<close>

definition bad_logs :: "seg_env \<Rightarrow> mount_img \<Rightarrow> bool" where
  "bad_logs env img =
     (if sb_readonly img then log_outside env img CURSEG_HOT_NODE \<or> log_outside env img CURSEG_HOT_DATA
      else list_ex (log_outside env img) node_logs \<or> same_segno img node_logs \<or>
           list_ex (log_outside env img) data_logs \<or> same_segno img data_logs \<or>
           list_ex (\<lambda>t. list_ex (\<lambda>u. cur_segno img t = cur_segno img u) data_logs) node_logs)"

text \<open>\<open>f2fs_sanity_check_ckpt\<close>: true for the result 1.\<close>

definition f2fs_sanity_check_ckpt :: "seg_env \<Rightarrow> mount_img \<Rightarrow> bool" where
  "f2fs_sanity_check_ckpt env img =
     (let fsmeta = u32 (segment_count_ckpt img + segment_count_sit img + segment_count_nat img + rsvd_segment_count img + segment_count_ssa img);
          lb = log_blocks_per_seg (geo env); n = blocks_per_seg (geo env); main_segs = MAIN_SEGS (geo env);
          segment_count_main = u32 (main_segs + (if sb_readonly img then 1 else 0));
          avail_node_count = sub32 (total_node_count img) (F2FS_RESERVED_NODE_NUM img);
          sit_blk_cnt = u32 (main_segs + SIT_ENTRY_PER_BLOCK env - 1) div SIT_ENTRY_PER_BLOCK env;
          nat_bits_bytes = u32 (segment_count_nat img * 2 ^ lb) div 8;
          nat_bits_blocks = F2FS_BLK_ALIGN img (u32 (nat_bits_bytes * 2 + 8))
      in fsmeta \<ge> segment_count img \<or>
         \<not> sb_readonly img \<and> (fsmeta < F2FS_MIN_META_SEGMENTS \<or> overprov_segment_count img = 0 \<or> rsvd_segment_count img = 0) \<or>
         ck_user_block_count img = 0 \<or> ck_user_block_count img \<ge> u32 (segment_count_main * 2 ^ lb) \<or>
         ck_valid_block_count img > ck_user_block_count img \<or>
         ck_valid_node_count img > avail_node_count \<or>
         bad_logs env img \<or>
         sit_ver_bitmap_bytesize img \<noteq> u32 (segment_count_sit img div 2 * 2 ^ lb) div 8 \<or>
         nat_ver_bitmap_bytesize img \<noteq> u32 (segment_count_nat img div 2 * 2 ^ lb) div 8 \<or>
         u32 (sit_ver_bitmap_bytesize img * 8) < sit_blk_cnt \<or>
         cp_pack_start_sum img < u32 (cp_payload img + 1) \<or> cp_pack_start_sum img > sub32 (sub32 n 1) 6 \<or>
         cp_large_nat_bitmap img \<and> checksum_offset img \<noteq> CP_MIN_CHKSUM_OFFSET img \<or>
         cp_nat_bits img \<and> u32 (cp_payload img + F2FS_CP_PACKS img + 6 + nat_bits_blocks) \<ge> n \<or>
         cp_error img)"

section \<open>The discard control\<close>

definition new_tunables :: swod_tunables where
  "new_tunables = \<lparr>swod_enable = 0, swod_win_segs = 0, swod_qcov_thr_bp = 8500, swod_lres_thr_bp = 1000, swod_hold_min_ms = 50,
     swod_hold_max_ms = 300, swod_hold_scale_bp = 10000, swod_cmd_pressure = 4096, swod_blk_pressure = 2 ^ 20, swod_max_held_groups = 64,
     swod_formation_enable = 0, swod_short_hold_min_ms = 50, swod_short_hold_max_ms = 300, swod_frag_min_cmds = 8,
     swod_frag_max_avg_piece_blks = 16, swod_frag_min_pend_blks = 24, swod_growth_min_bp = 500, swod_wce_qcov_thr_bp = 8000,
     swod_wce_lres_thr_bp = 2000, swod_overlap_skip_ratio_bp = 6000, swod_completion_enable = 0, swod_gc_bg_enable = 1, swod_gc_fg_enable = 1,
     swod_frag_ipu_enable = 0, swod_frag_ipu_max_pend_blks = 32, swod_frag_ipu_min_cmds = 12, swod_frag_ipu_age_ms = 15000,
     swod_frag_ipu_skip_hot = 1\<rparr>"

definition new_dcc :: "seg_env \<Rightarrow> discard_unit \<Rightarrow> discard_cmd_control" where
  "new_dcc env unit =
     \<lparr>root = [], pend_list = (\<lambda>_. []), wait_list = [], fstrim_list = [], next_id = 0, discard_wake = False,
      discard_granularity = (case unit of DISCARD_UNIT_BLOCK \<Rightarrow> DEFAULT_DISCARD_GRANULARITY
        | DISCARD_UNIT_SEGMENT \<Rightarrow> blocks_per_seg (geo env) | DISCARD_UNIT_SECTION \<Rightarrow> BLKS_PER_SEC env),
      undiscard_blks = 0, next_pos = 0, issued_discard = 0, queued_discard = 0, discard_cmd_cnt = 0, discard_back_only_merge_cnt = 0,
      discard_front_only_merge_cnt = 0, discard_both_merge_cnt = 0, tun = new_tunables, swod = None\<rparr>"

text \<open>\<open>old\<close> is the control of an earlier mount of the same super block, if it is still there.\<close>

definition create_discard_cmd_control :: "seg_env \<Rightarrow> mount_img \<Rightarrow> swod_allocs \<Rightarrow> discard_cmd_control option \<Rightarrow> mount_err + discard_cmd_control" where
  "create_discard_cmd_control env img al old =
     (let start_thread = (\<lambda>d. case thread_err img of None \<Rightarrow> Inr d | Some e \<Rightarrow> Inl (Mount_err e))
      in case old of
           Some d \<Rightarrow> start_thread d
         | None \<Rightarrow>
             (if nomem img 0 then Inl (Mount_err ENOMEM)
              else case f2fs_swod_init (geo env) al (Some (new_dcc env (unit_opt img))) of
                     (_, Some e) \<Rightarrow> Inl (Mount_err e)
                   | (None, None) \<Rightarrow> Inl (Mount_err EINVAL)
                   | (Some d, None) \<Rightarrow> start_thread d))"

section \<open>Empty tables\<close>

definition build_sit_info :: "seg_env \<Rightarrow> mount_img \<Rightarrow> sit_info" where
  "build_sit_info env img =
     \<lparr>sm_sentries = (\<lambda>_. \<lparr>se_type = CURSEG_HOT_DATA, valid_blocks = 0, ckpt_valid_blocks = 0, cur_valid_map = (\<lambda>_. False),
        ckpt_valid_map = (\<lambda>_. False), discard_map = (\<lambda>_. False), se_mtime = 0\<rparr>),
      sec_valid = (\<lambda>_. 0), dirty_sentries_bitmap = (\<lambda>_. False), dirty_sentries = 0, written_valid_blocks = 0,
      elapsed_time = ck_elapsed_time img, mounted_time = boottime env, max_mtime = 0\<rparr>"

definition build_free_segmap :: free_segmap_info where
  "build_free_segmap = \<lparr>free_segments = 0, free_sections = 0, free_segmap = (\<lambda>_. True), free_secmap = (\<lambda>_. True)\<rparr>"

definition build_dirty_segmap :: dirty_seglist_info where
  "build_dirty_segmap = \<lparr>dirty_segmap = (\<lambda>_ _. False), nr_dirty = (\<lambda>_. 0), dirty_secmap = (\<lambda>_. False), victim_secmap = (\<lambda>_. False)\<rparr>"

section \<open>The logs\<close>

definition build_curseg :: "curseg_id \<Rightarrow> curseg_info" where
  "build_curseg c =
     \<lparr>sum_entries = (\<lambda>_. (0, 0, 0)), sum_type_node = False, alloc_type = LFS,
      cs_seg_type = (case c of C_log t \<Rightarrow> t | CURSEG_COLD_DATA_PINNED \<Rightarrow> CURSEG_COLD_DATA | CURSEG_ALL_DATA_ATGC \<Rightarrow> CURSEG_COLD_DATA),
      cs_segno = NULL_SEGNO, next_blkoff = 0, cs_zone = 0, next_segno = 0, inited = False\<rparr>"

text \<open>\<open>LFS\<close> and \<open>SSR\<close> are 0 and 1; for every other number \<open>sanity_check_curseg\<close> gives up.\<close>

definition alloc_of_nr :: "nat \<Rightarrow> alloc_mode" where
  "alloc_of_nr n = (if n = 0 then LFS else if n = 1 then SSR else AT_SSR)"

definition restore_log :: "seg_env \<Rightarrow> mount_img \<Rightarrow> seg_type \<Rightarrow> (nat \<Rightarrow> summary) \<Rightarrow> 'g sm_info \<Rightarrow> 'g sm_info" where
  "restore_log env img t sums sm =
     (let c = C_log t;
          sm = upd_curseg c (\<lambda>c. c\<lparr>sum_entries := sums, next_segno := cur_segno img t\<rparr>) sm;
          sm = reset_curseg env c False sm
      in upd_curseg c (\<lambda>c. c\<lparr>alloc_type := alloc_of_nr (ck_alloc_type img t), next_blkoff := cur_blkoff img t\<rparr>) sm)"

text \<open>The data logs from the compacted blocks; \<open>ofs\<close> entries were used before this log.\<close>

fun read_compacted :: "seg_env \<Rightarrow> mount_img \<Rightarrow> (nat \<Rightarrow> summary) \<Rightarrow> nat \<Rightarrow> seg_type list \<Rightarrow> 'g sm_info \<Rightarrow> 'g sm_info" where
  "read_compacted env img cs pos [] sm = sm"
| "read_compacted env img cs pos (t # ts) sm =
     (let blk_off = (if alloc_of_nr (ck_alloc_type img t) = SSR then blocks_per_seg (geo env) else cur_blkoff img t)
      in read_compacted env img cs (pos + blk_off) ts
           (restore_log env img t (\<lambda>j. if j < blk_off then cs (pos + j) else (0, 0, 0)) sm))"

definition read_compacted_summaries :: "seg_env \<Rightarrow> mount_img \<Rightarrow> 'g sm_info \<Rightarrow> mount_err + 'g sm_info" where
  "read_compacted_summaries env img sm =
     (case compact_sum img of Inl e \<Rightarrow> Inl (Mount_err e) | Inr cs \<Rightarrow> Inr (read_compacted env img cs 0 data_logs sm))"

definition read_normal_summaries :: "seg_env \<Rightarrow> mount_img \<Rightarrow> seg_type \<Rightarrow> 'g sm_info \<Rightarrow> mount_err + 'g sm_info" where
  "read_normal_summaries env img t sm =
     (case sum_page img t of
        Inl e \<Rightarrow> Inl (Mount_err e)
      | Inr sums \<Rightarrow>
          (if IS_NODESEG t \<and> cp_node_sums img
           then Inr (restore_log env img t (\<lambda>j. if j < blocks_per_seg (geo env) then (fst (sums j), 0, 0) else sums j) sm)
           else if IS_NODESEG t
           then (case node_sum img (cur_segno img t) of Inl e \<Rightarrow> Inl (Mount_err e) | Inr ns \<Rightarrow> Inr (restore_log env img t ns sm))
           else Inr (restore_log env img t sums sm)))"

definition restore_curseg_summaries :: "seg_env \<Rightarrow> mount_img \<Rightarrow> 'g sm_info \<Rightarrow> mount_err + 'g sm_info" where
  "restore_curseg_summaries env img sm =
     (case (if cp_compact_sum img then read_compacted_summaries env img sm else Inr sm) of
        Inl e \<Rightarrow> Inl e
      | Inr sm \<Rightarrow>
          (case fold_err (read_normal_summaries env img) (if cp_compact_sum img then node_logs else persistent_logs) sm of
             Inl e \<Rightarrow> Inl e
           | Inr sm \<Rightarrow>
               (if nats_in_journal img > NAT_JOURNAL_ENTRIES img \<or> length (sit_journal img) > SIT_JOURNAL_ENTRIES img
                then Inl (Mount_err EINVAL) else Inr sm)))"

section \<open>The SIT cache\<close>

text \<open>
  The sums \<open>sit_valid_blocks\<close> are kept by whether they count nodes. One segment of the first loop:
  the loop reads blocks ahead in batches and goes through all segments in their order.
\<close>

definition load_sit_entry :: "seg_env \<Rightarrow> mount_img \<Rightarrow> sit_macros \<Rightarrow> nat \<Rightarrow> 'g sm_info \<times> (bool \<Rightarrow> nat) \<Rightarrow> mount_err + 'g sm_info \<times> (bool \<Rightarrow> nat)" where
  "load_sit_entry env img mac start st =
     (let (sm, svb) = st
      in case sit_page img start of
           Inl e \<Rightarrow> Inl (Mount_err e)
         | Inr rs \<Rightarrow>
             (let (ok, bug) = check_block_count env mac (segment_count img) start rs; sm = bug_on bug sm
              in if \<not> ok then Inl EFSCORRUPTED
                 else
                   (case seg_info_from_raw_sit mac rs (get_seg_entry sm start) of
                      None \<Rightarrow> Inl EFSCORRUPTED
                    | Some se \<Rightarrow>
                        (let v = valid_blocks se; node = IS_NODESEG (se_type se);
                             svb = svb(node := u32 (svb node + v));
                             se = (if block_unit_discard env then se\<lparr>discard_map := (if cp_trimmed img then (\<lambda>_. True) else cur_valid_map se)\<rparr> else se);
                             sm = put_seg_entry start se sm;
                             sm = (if block_unit_discard env \<and> \<not> cp_trimmed img
                                   then sm\<lparr>discard_blks := addu 32 (discard_blks sm) (int (blocks_per_seg (geo env)) - int v)\<rparr> else sm);
                             sec = GET_SEC_FROM_SEG env start
                         in Inr (if is_large_section env then sm\<lparr>sit := (sit sm)\<lparr>sec_valid := (sec_valid (sit sm))(sec := addu 32 (sec_valid (sit sm) sec) (int v))\<rparr>\<rparr>
                                 else sm, svb)))))"

text \<open>One entry of the journal.\<close>

definition load_journal_entry :: "seg_env \<Rightarrow> mount_img \<Rightarrow> sit_macros \<Rightarrow> nat \<times> raw_sit \<Rightarrow> 'g sm_info \<times> (bool \<Rightarrow> nat) \<Rightarrow> mount_err + 'g sm_info \<times> (bool \<Rightarrow> nat)" where
  "load_journal_entry env img mac e st =
     (let (start, rs) = e; (sm, svb) = st
      in if start \<ge> MAIN_SEGS (geo env) then Inl EFSCORRUPTED
         else
           (let se0 = get_seg_entry sm start; old = valid_blocks se0; node0 = IS_NODESEG (se_type se0);
                svb = svb(node0 := sub32 (svb node0) old);
                (ok, bug) = check_block_count env mac (segment_count img) start rs; sm = bug_on bug sm
            in if \<not> ok then Inl EFSCORRUPTED
               else
                 (case seg_info_from_raw_sit mac rs se0 of
                    None \<Rightarrow> Inl EFSCORRUPTED
                  | Some se \<Rightarrow>
                      (let v = valid_blocks se; node = IS_NODESEG (se_type se);
                           svb = svb(node := u32 (svb node + v));
                           se = (if block_unit_discard env then se\<lparr>discard_map := (if cp_trimmed img then (\<lambda>_. True) else cur_valid_map se)\<rparr> else se);
                           sm = put_seg_entry start se sm;
                           sm = (if block_unit_discard env \<and> \<not> cp_trimmed img
                                 then sm\<lparr>discard_blks := addu 32 (addu 32 (discard_blks sm) (int old)) (- int v)\<rparr> else sm);
                           sec = GET_SEC_FROM_SEG env start
                       in Inr (if is_large_section env
                               then sm\<lparr>sit := (sit sm)\<lparr>sec_valid := (sec_valid (sit sm))(sec := addu 32 (addu 32 (sec_valid (sit sm) sec) (int v)) (- int old))\<rparr>\<rparr>
                               else sm, svb)))))"

definition build_sit_entries :: "seg_env \<Rightarrow> mount_img \<Rightarrow> sit_macros \<Rightarrow> 'g sm_info \<Rightarrow> mount_err + 'g sm_info" where
  "build_sit_entries env img mac sm =
     (case fold_err (load_sit_entry env img mac) [0..<MAIN_SEGS (geo env)] (sm, \<lambda>_. 0) of
        Inl e \<Rightarrow> Inl e
      | Inr st \<Rightarrow>
          (case fold_err (load_journal_entry env img mac) (sit_journal img) st of
             Inl e \<Rightarrow> Inl e
           | Inr (sm, svb) \<Rightarrow>
               (if svb True \<noteq> ck_valid_node_count img then Inl EFSCORRUPTED
                else if u32 (svb False + svb True) > ck_valid_block_count img then Inl EFSCORRUPTED
                else Inr sm)))"

section \<open>The maps\<close>

definition init_free_segmap :: "seg_env \<Rightarrow> 'g sm_info \<Rightarrow> 'g sm_info" where
  "init_free_segmap env sm =
     (let sm = fold (\<lambda>start sm.
            if f2fs_usable_blks_in_seg env start = 0 then sm
            else (let v = valid_blocks (get_seg_entry sm start)
                  in if v = 0 then sm\<lparr>fsm := set_free env start (fsm sm)\<rparr>
                     else sm\<lparr>sit := (sit sm)\<lparr>written_valid_blocks := addu 32 (written_valid_blocks (sit sm)) (int v)\<rparr>\<rparr>))
          [0..<MAIN_SEGS (geo env)] sm
      in fold (\<lambda>t sm. set_test_and_inuse env (cs_segno (curseg sm (C_log t))) sm) persistent_logs sm)"

definition find_next_inuse :: "free_segmap_info \<Rightarrow> nat \<Rightarrow> nat \<Rightarrow> nat" where
  "find_next_inuse fi max' segno = find_next_bit (free_segmap fi) max' segno"

function init_dirty_loop :: "seg_env \<Rightarrow> nat \<Rightarrow> 'g sm_info \<Rightarrow> 'g sm_info" where
  "init_dirty_loop env offset sm =
     (let segno = find_next_inuse (fsm sm) (MAIN_SEGS (geo env)) offset
      in if segno \<ge> MAIN_SEGS (geo env) then sm
         else
           (let v = get_valid_blocks env sm segno False; usable = f2fs_usable_blks_in_seg env segno
            in init_dirty_loop env (segno + 1)
                 (if v = usable \<or> v = 0 then sm else if v > usable then bug_on True sm else locate_dirty env segno DIRTY sm)))"
  by pat_completeness auto
termination
proof (relation "measure (\<lambda>(env, offset, _). MAIN_SEGS (geo env) - offset)", simp)
  fix env :: seg_env and offset :: nat and sm :: "'g sm_info" and x xa xb
  assume a: "x = find_next_inuse (fsm sm) (MAIN_SEGS (geo env)) offset" "\<not> MAIN_SEGS (geo env) \<le> x"
  have "x < MAIN_SEGS (geo env)" "offset \<le> x"
    using a find_next_bit_less(2)[of "free_segmap (fsm sm)" "MAIN_SEGS (geo env)" offset] by (simp_all add: find_next_inuse_def)
  then show "((env, x + 1, if xa = xb \<or> xa = 0 then sm else if xb < xa then bug_on True sm else locate_dirty env x DIRTY sm), env, offset, sm)
        \<in> measure (\<lambda>(env, offset, _). MAIN_SEGS (geo env) - offset)" by simp
qed

declare init_dirty_loop.simps [simp del]

definition init_dirty_segmap :: "seg_env \<Rightarrow> 'g sm_info \<Rightarrow> 'g sm_info" where
  "init_dirty_segmap env sm =
     (let sm = init_dirty_loop env 0 sm; sps = segs_per_sec (geo env)
      in if \<not> is_large_section env then sm
         else fold (\<lambda>segno sm.
                let v = get_valid_blocks env sm segno True; secno = GET_SEC_FROM_SEG env segno
                in if v = 0 \<or> v = BLKS_PER_SEC env then sm
                   else if IS_CURSEC env sm secno then sm
                   else sm\<lparr>dsl := (dsl sm)\<lparr>dirty_secmap := (dirty_secmap (dsl sm))(secno := True)\<rparr>\<rparr>)
           (map (\<lambda>k. k * sps) [0..<(MAIN_SEGS (geo env) + sps - 1) div sps]) sm)"

section \<open>The last checks\<close>

definition curseg_consistent :: "seg_env \<Rightarrow> 'g sm_info \<Rightarrow> seg_type \<Rightarrow> bool" where
  "curseg_consistent env sm t =
     (let c = curseg sm (C_log t); m = cur_valid_map (get_seg_entry sm (cs_segno c))
      in (alloc_type c = LFS \<or> alloc_type c = SSR) \<and> \<not> m (next_blkoff c) \<and>
         (alloc_type c = SSR \<or> \<not> list_ex m [next_blkoff c + 1..<blocks_per_seg (geo env)]))"

definition sanity_check_curseg :: "seg_env \<Rightarrow> mount_img \<Rightarrow> 'g sm_info \<Rightarrow> mount_err option" where
  "sanity_check_curseg env img sm =
     (if list_all (\<lambda>t. sb_readonly img \<and> t \<noteq> CURSEG_HOT_DATA \<and> t \<noteq> CURSEG_HOT_NODE \<or> curseg_consistent env sm t) persistent_logs
      then None else Some EFSCORRUPTED)"

definition init_min_max_mtime :: "seg_env \<Rightarrow> gc_info sm_info \<Rightarrow> gc_info sm_info" where
  "init_min_max_mtime env sm =
     (let sps = segs_per_sec (geo env);
          mt = fold (\<lambda>segno mt.
                 let mtime = fold (\<lambda>i x. (x + se_mtime (get_seg_entry sm (segno + i))) mod 2 ^ 64) [0..<sps] 0 div sps
                 in if mt > mtime then mtime else mt)
               (map (\<lambda>k. k * sps) [0..<(MAIN_SEGS (geo env) + sps - 1) div sps]) ULLONG_MAX
      in sm\<lparr>sit := (sit sm)\<lparr>max_mtime := get_mtime env sm False\<rparr>,
            gc_state := (gc_state sm)\<lparr>min_mtime := mt, dirty_max_mtime := 0\<rparr>\<rparr>)"

section \<open>Building the manager\<close>

text \<open>\<open>gc\<close> is the state of victim selection in the super block.\<close>

definition f2fs_build_segment_manager ::
    "seg_env \<Rightarrow> mount_img \<Rightarrow> sit_macros \<Rightarrow> swod_allocs \<Rightarrow> gc_info \<Rightarrow> mount_err + gc_info sm_info" where
  "f2fs_build_segment_manager env img mac al gc =
     (case (if mnt_readonly img then None else flush_err img) of
        Some e \<Rightarrow> Inl (Mount_err e)
      | None \<Rightarrow>
          (case create_discard_cmd_control env img al None of
             Inl e \<Rightarrow> Inl e
           | Inr dcc \<Rightarrow>
               (if nomem img 1 \<or> nomem img 2 \<or> nomem img 3 then Inl (Mount_err ENOMEM)
                else
                  (case restore_curseg_summaries env img
                      \<lparr>sit = build_sit_info env img, fsm = build_free_segmap, dsl = build_dirty_segmap, curseg = build_curseg, ssa = disk_ssa img,
                       discard_blks = 0, unusable_block_count = 0, entry_list = [], nr_discards = 0, sm_dcc = dcc, gc_state = gc, sm_bug = False\<rparr> of
                     Inl e \<Rightarrow> Inl e
                   | Inr sm \<Rightarrow>
                       (case build_sit_entries env img mac sm of
                          Inl e \<Rightarrow> Inl e
                        | Inr sm \<Rightarrow>
                            (let sm = init_free_segmap env sm
                             in if nomem img 4 then Inl (Mount_err ENOMEM)
                                else
                                  (let sm = init_dirty_segmap env sm
                                   in if nomem img 5 then Inl (Mount_err ENOMEM)
                                      else case sanity_check_curseg env img sm of
                                             Some e \<Rightarrow> Inl e
                                           | None \<Rightarrow> Inr (init_min_max_mtime env sm))))))))"

definition init_atgc_management :: "bool \<Rightarrow> 'g sm_info \<Rightarrow> gc_info \<Rightarrow> gc_info" where
  "init_atgc_management atgc sm g =
     g\<lparr>am_atgc_enabled := (if atgc \<and> elapsed_time (sit sm) \<ge> 60 * 60 * 24 * 7 then True else am_atgc_enabled g), victims := [],
       candidate_ratio := 20, max_candidate_count := 10, age_weight := 60, age_threshold := 60 * 60 * 24 * 7\<rparr>"

end
