(* ===== verification/Mount_Inv.thy ===== *)
theory Mount_Inv
  imports Segment_Mount Segment_Machine
begin

text \<open>
  A mount that succeeds builds a state that satisfies the invariant of the segment manager: the
  loops of \<open>f2fs_build_segment_manager\<close> one after the other.
\<close>

section \<open>Loops that may fail\<close>

lemma fold_err_append: "fold_err f (xs @ ys) s = (case fold_err f xs s of Inl e \<Rightarrow> Inl e | Inr s \<Rightarrow> fold_err f ys s)"
  by (induction xs arbitrary: s) (simp_all split: sum.split)

lemma fold_err_upt:
  assumes "fold_err f [0..<n] s = Inr s'" "P 0 s" "\<And>k s s'. k < n \<Longrightarrow> P k s \<Longrightarrow> f k s = Inr s' \<Longrightarrow> P (Suc k) s'"
  shows "P n s'"
  using assms
proof (induction n arbitrary: s')
  case (Suc n)
  obtain t where t: "fold_err f [0..<n] s = Inr t" "f n t = Inr s'"
    using Suc.prems(1) by (auto simp: fold_err_append split: sum.splits)
  have "P n t" by (rule Suc.IH[OF t(1) Suc.prems(2)]) (use Suc.prems(3) in simp)
  then show ?case using Suc.prems(3)[OF _ _ t(2)] by simp
qed simp

lemma fold_err_total:
  "(\<And>x s. x \<in> set xs \<Longrightarrow> \<exists>s'. f x s = Inr s') \<Longrightarrow> \<exists>s'. fold_err f xs s = Inr s'"
proof (induction xs arbitrary: s)
  case (Cons x xs)
  obtain t where t: "f x s = Inr t" using Cons.prems by (meson list.set_intros(1))
  have "\<exists>s'. fold_err f xs t = Inr s'" by (rule Cons.IH) (use Cons.prems in simp)
  then show ?case using t by simp
qed simp

section \<open>The logs\<close>

definition log_at :: "mount_img \<Rightarrow> seg_type \<Rightarrow> curseg_info \<Rightarrow> bool" where
  "log_at img t c \<longleftrightarrow>
     inited c \<and> cs_segno c = cur_segno img t \<and> next_blkoff c = cur_blkoff img t \<and> alloc_type c = alloc_of_nr (ck_alloc_type img t)"

text \<open>What restoring a log leaves alone; it sets types in the SIT cache, which are read again later.\<close>

definition mount_frame :: "'g sm_info \<Rightarrow> _" where
  "mount_frame sm = (fsm sm, dsl sm, sm_dcc sm, entry_list sm, gc_state sm, sm_bug sm, sec_valid (sit sm), dirty_sentries_bitmap (sit sm),
     dirty_sentries (sit sm), written_valid_blocks (sit sm), (\<lambda>s. valid_blocks (seg sm s)), (\<lambda>s. ckpt_valid_blocks (seg sm s)),
     (\<lambda>s. cur_valid_map (seg sm s)), (\<lambda>s. ckpt_valid_map (seg sm s)))"

lemma restore_log_facts:
  "mount_frame (restore_log env img t sums sm) = mount_frame sm"
  "c \<noteq> C_log t \<Longrightarrow> curseg (restore_log env img t sums sm) c = curseg sm c"
  "log_at img t (curseg (restore_log env img t sums sm) (C_log t))"
  by (auto simp: restore_log_def Let_def mount_frame_def reset_curseg_def upd_curseg_def set_sit_entry_type_def put_seg_entry_def get_seg_entry_def seg_def log_at_def)

definition logs_read :: "mount_img \<Rightarrow> 'g sm_info \<Rightarrow> seg_type set \<Rightarrow> 'g sm_info \<Rightarrow> bool" where
  "logs_read img sm0 T sm \<longleftrightarrow>
     mount_frame sm = mount_frame sm0 \<and> (\<forall>t \<in> T. log_at img t (curseg sm (C_log t))) \<and> (\<forall>c. c \<notin> C_log ` UNIV \<longrightarrow> curseg sm c = curseg sm0 c)"

lemma logs_read_step: "logs_read img sm0 T sm \<Longrightarrow> logs_read img sm0 (insert t T) (restore_log env img t sums sm)"
proof -
  assume l: "logs_read img sm0 T sm"
  have "log_at img u (curseg (restore_log env img t sums sm) (C_log u))" if "u \<in> insert t T" for u
    using that l restore_log_facts(2)[of "C_log u" t env img sums sm] restore_log_facts(3)[of img t env sums sm] by (cases "u = t") (auto simp: logs_read_def)
  moreover have "curseg (restore_log env img t sums sm) c = curseg sm0 c" if "c \<notin> range C_log" for c
    using that l restore_log_facts(2)[of c t env img sums sm] by (auto simp: logs_read_def)
  ultimately show ?thesis using l by (simp add: logs_read_def restore_log_facts(1))
qed

lemma read_compacted_logs: "logs_read img sm0 T sm \<Longrightarrow> logs_read img sm0 (T \<union> set ts) (read_compacted env img cs pos ts sm)"
proof (induction ts arbitrary: T pos sm)
  case (Cons t ts)
  show ?case using Cons.IH[OF logs_read_step[OF Cons.prems]] by (simp add: Let_def)
qed simp

lemma read_normal_logs:
  assumes "fold_err (read_normal_summaries env img) ts sm = Inr sm'" "logs_read img sm0 T sm"
  shows "logs_read img sm0 (T \<union> set ts) sm'"
  using assms
proof (induction ts arbitrary: T sm)
  case (Cons t ts)
  obtain q where q: "read_normal_summaries env img t sm = Inr q" "fold_err (read_normal_summaries env img) ts q = Inr sm'"
    using Cons.prems(1) by (auto split: sum.splits)
  have "\<exists>sums. q = restore_log env img t sums sm"
    using q(1) by (auto simp: read_normal_summaries_def split: sum.splits if_splits)
  then have "logs_read img sm0 (insert t T) q" using logs_read_step[OF Cons.prems(2)] by blast
  from Cons.IH[OF q(2) this] show ?case by simp
qed simp

lemma restore_logs:
  assumes "restore_curseg_summaries env img sm = Inr sm'"
  shows "logs_read img sm UNIV sm'"
proof -
  have l0: "logs_read img sm {} sm" by (simp add: logs_read_def)
  have u: "set data_logs \<union> set node_logs = UNIV" "set persistent_logs = UNIV"
    by (auto simp: data_logs_def node_logs_def persistent_logs_def intro: seg_type.exhaust)
  obtain q where q: "(if cp_compact_sum img then read_compacted_summaries env img sm else Inr sm) = Inr q"
    "fold_err (read_normal_summaries env img) (if cp_compact_sum img then node_logs else persistent_logs) q = Inr sm'"
    using assms by (auto simp: restore_curseg_summaries_def split: sum.splits if_splits)
  show ?thesis
  proof (cases "cp_compact_sum img")
    case True
    have "logs_read img sm (set data_logs) q"
      using q(1) True read_compacted_logs[OF l0, of data_logs] by (auto simp: read_compacted_summaries_def split: sum.splits)
    from read_normal_logs[OF q(2) this] show ?thesis using True u(1) by simp
  next
    case False
    then show ?thesis using read_normal_logs[OF q(2)] l0 q(1) u(2) by simp
  qed
qed

section \<open>The SIT cache\<close>

definition cache_ok :: "seg_env \<Rightarrow> 'g sm_info \<Rightarrow> bool" where
  "cache_ok env sm \<longleftrightarrow>
     (\<forall>s < nseg env. entry_ok (nblk env) (seg sm s) \<and> ckpt_valid_map (seg sm s) = cur_valid_map (seg sm s)) \<and>
     (is_large_section env \<longrightarrow> (\<forall>k < total_sections env. sec_valid (sit sm) k = (\<Sum>j < sps env. valid_blocks (seg sm (k * sps env + j))))) \<and>
     dirty_sentries_bitmap (sit sm) = (\<lambda>_. False) \<and> dirty_sentries (sit sm) = 0 \<and> written_valid_blocks (sit sm) = 0"

lemma addu_addu: "addu w (addu w x a) b = addu w x (a + b)"
  by (simp add: addu_def mod_add_left_eq add.assoc)

text \<open>The other fields of the manager, which loading leaves as they are.\<close>

definition load_frame :: "'g sm_info \<Rightarrow> _" where
  "load_frame sm = (sm_frame sm, sm_bug sm)"

lemma cache_put:
  assumes g: "seg_geom env" and c: "cache_ok env sm" and s: "s < nseg env"
    and se: "seg sm' = (seg sm)(s := se')" "entry_ok (nblk env) se'" "ckpt_valid_map se' = cur_valid_map se'"
    and sec: "is_large_section env \<longrightarrow> sec_valid (sit sm') = (sec_valid (sit sm))(s div sps env := addu 32 (sec_valid (sit sm) (s div sps env)) (int (valid_blocks se') - int (valid_blocks (seg sm s))))"
    and d: "dirty_sentries_bitmap (sit sm') = dirty_sentries_bitmap (sit sm)" "dirty_sentries (sit sm') = dirty_sentries (sit sm)"
      "written_valid_blocks (sit sm') = written_valid_blocks (sit sm)"
  shows "cache_ok env sm'"
proof -
  let ?k = "s div sps env" and ?d = "int (valid_blocks se') - int (valid_blocks (seg sm s))"
  have e': "\<forall>s < nseg env. entry_ok (nblk env) (seg sm' s)" using c se(1,2) by (simp add: cache_ok_def)
  have sp: "0 < sps env" using g by (simp add: seg_geom_def)
  have kk: "?k < total_sections env" by (rule sec_less[OF g s])
  have "int (valid_blocks se') = int (valid_blocks (seg sm s)) + ?d" by simp
  with sum_upd_sec[OF sp refl, of valid_blocks "seg sm" s se']
  have k: "addu 32 (\<Sum>j < sps env. valid_blocks (seg sm (?k * sps env + j))) ?d = (\<Sum>j < sps env. valid_blocks (seg sm' (?k * sps env + j)))"
    unfolding se(1)[symmetric] by (rule addu_step[OF valid_sum_bound(2)[OF g e' kk]])
  have "sec_valid (sit sm') j = (\<Sum>i < sps env. valid_blocks (seg sm' (j * sps env + i)))" if l: "is_large_section env" and j: "j < total_sections env" for j
  proof (cases "j = ?k")
    case True
    then show ?thesis using sec l c k kk by (simp add: cache_ok_def)
  next
    case False
    then show ?thesis using sec l j c sum_upd_other[of s "sps env" j valid_blocks "seg sm" se'] se(1) by (simp add: cache_ok_def)
  qed
  then show ?thesis using c se d e' by (simp add: cache_ok_def)
qed

text \<open>The sums of valid data and node blocks.\<close>

definition part :: "bool \<Rightarrow> sit_entry \<Rightarrow> nat" where
  "part node se = (if IS_NODESEG (se_type se) = node then valid_blocks se else 0)"

definition counted :: "seg_env \<Rightarrow> 'g sm_info \<Rightarrow> (bool \<Rightarrow> nat) \<Rightarrow> bool" where
  "counted env sm svb \<longleftrightarrow> (\<forall>b. svb b = (\<Sum>s < nseg env. part b (seg sm s)))"

lemma part_sum: "(\<Sum>s < n. part b (f s)) \<le> (\<Sum>s < n. valid_blocks (f s))"
  by (rule sum_mono) (simp add: part_def)

lemma parts_sum: "(\<Sum>s < n. part False (f s)) + (\<Sum>s < n. part True (f s)) = (\<Sum>s < n. valid_blocks (f s))"
  by (simp add: part_def flip: sum.distrib) (rule sum.cong, auto)

lemma counted_bound:
  assumes g: "seg_geom env" and c: "cache_ok env sm"
  shows "(\<Sum>s < nseg env. part b (seg sm s)) < 2 ^ 32" "(\<Sum>s < nseg env. valid_blocks (seg sm s)) < 2 ^ 32"
proof -
  have "\<forall>s < nseg env. entry_ok (nblk env) (seg sm s)" using c by (simp add: cache_ok_def)
  from valid_sum_bound(1)[OF g this] show "(\<Sum>s < nseg env. valid_blocks (seg sm s)) < 2 ^ 32" .
  with part_sum show "(\<Sum>s < nseg env. part b (seg sm s)) < 2 ^ 32" by (rule le_less_trans)
qed

lemma counted_put:
  assumes g: "seg_geom env" and c: "cache_ok env sm" and s: "s < nseg env" and ct: "counted env sm svb"
    and se: "seg sm' = (seg sm)(s := se')" "entry_ok (nblk env) se'"
  defines "n \<equiv> IS_NODESEG (se_type (seg sm s))" and "m \<equiv> IS_NODESEG (se_type se')"
  defines "x \<equiv> svb(n := sub32 (svb n) (valid_blocks (seg sm s)))"
  shows "counted env sm' (x(m := u32 (x m + valid_blocks se')))"
proof -
  have up: "(\<Sum>i < nseg env. part b (seg sm' i)) + part b (seg sm s) = (\<Sum>i < nseg env. part b (seg sm i)) + part b se'" for b
    unfolding se(1) by (rule sum_upd[OF s])
  have e': "\<forall>s < nseg env. entry_ok (nblk env) (seg sm' s)" using c se by (simp add: cache_ok_def)
  have lt: "(\<Sum>i < nseg env. part b (seg sm' i)) < 2 ^ 32" for b using part_sum valid_sum_bound(1)[OF g e'] by (rule le_less_trans)
  have pl: "part b (seg sm s) \<le> (\<Sum>i < nseg env. part b (seg sm i))" for b using s by (intro member_le_sum) auto
  have x: "x b = (\<Sum>i < nseg env. part b (seg sm i)) - part b (seg sm s)" for b
    using ct pl[of n] counted_bound(1)[OF g c, of n] by (auto simp: x_def counted_def part_def n_def sub32_le)
  have "(x(m := u32 (x m + valid_blocks se'))) b = (\<Sum>i < nseg env. part b (seg sm' i))" for b
  proof (cases "b = m")
    case True
    then have "x m + valid_blocks se' = (\<Sum>i < nseg env. part b (seg sm' i))" using up[of m] pl[of m] x[of m] by (simp add: part_def m_def)
    then show ?thesis using True lt[of b] by (simp add: u32_id)
  next
    case False
    then show ?thesis using up[of b] x[of b] pl[of b] by (simp add: part_def m_def)
  qed
  then show ?thesis by (simp add: counted_def)
qed

text \<open>An entry of the cache that was read from a stored one.\<close>

definition entry_of :: "sit_macros \<Rightarrow> raw_sit \<Rightarrow> sit_entry \<Rightarrow> bool" where
  "entry_of mac rs se \<longleftrightarrow> cur_valid_map se = rs_map rs \<and> type_of_nr (GET_SIT_TYPE mac (rs_vblocks rs) mod 2 ^ 6) = Some (se_type se)"

text \<open>An entry that passed the check.\<close>

lemma loaded_entry:
  assumes g: "seg_geom env" and b: "8 dvd nblk env" and n: "0 < segment_count img" "segment_count img < 2 ^ 32"
    and ck: "check_block_count env mac (segment_count img) s rs = (True, bug)" and f: "seg_info_from_raw_sit mac rs se0 = Some se"
  shows "entry_ok (nblk env) se" "ckpt_valid_map se = cur_valid_map se" "\<not> bug"
proof -
  have u: "f2fs_usable_blks_in_seg env s = blocks_per_seg (geo env)" by (rule usable(1)[OF g])
  note c = check_block_count_iff[OF u b n, THEN iffD1, OF ck]
  then show "\<not> bug" by simp
  have v: "GET_SIT_VBLOCKS mac (rs_vblocks rs) = bits (rs_map rs) (nblk env)" using c by simp
  have "bits (rs_map rs) (nblk env) \<le> 512" using count_idx_le[of "\<lambda>b. b" "rs_map rs" "nblk env"] g by (simp add: seg_geom_def)
  then have "GET_SIT_VBLOCKS mac (rs_vblocks rs) mod 2 ^ 10 = bits (rs_map rs) (nblk env)" using v by simp
  then show "entry_ok (nblk env) se" "ckpt_valid_map se = cur_valid_map se"
    using f by (auto simp: seg_info_from_raw_sit_def entry_ok_def)
qed

lemma load_sit_entry_ok:
  assumes g: "seg_geom env" and b: "8 dvd nblk env" and n: "0 < segment_count img" "segment_count img < 2 ^ 32"
    and c: "cache_ok env sm" and s: "s < nseg env" "valid_blocks (seg sm s) = 0"
    and r: "load_sit_entry env img mac s (sm, svb) = Inr (sm', svb')"
  shows "cache_ok env sm'" "load_frame sm' = load_frame sm" "\<And>t. t \<noteq> s \<Longrightarrow> seg sm' t = seg sm t"
    "entry_of mac (projr (sit_page img s)) (seg sm' s)" "counted env sm svb \<Longrightarrow> counted env sm' svb'"
proof -
  obtain rs ok bug where q: "sit_page img s = Inr rs" "check_block_count env mac (segment_count img) s rs = (ok, bug)"
    using r by (cases "sit_page img s"; cases "check_block_count env mac (segment_count img) s (projr (sit_page img s))") (auto simp: load_sit_entry_def)
  have ok: ok using r q by (simp add: load_sit_entry_def Let_def split: if_splits)
  obtain se where se: "seg_info_from_raw_sit mac rs (seg sm s) = Some se"
    using r q ok by (cases "seg_info_from_raw_sit mac rs (seg sm s)") (simp_all add: load_sit_entry_def Let_def)
  note L = loaded_entry[OF g b n q(2)[unfolded eqTrueI[OF ok]] se]
  define se' where "se' = (if block_unit_discard env then se\<lparr>discard_map := (if cp_trimmed img then (\<lambda>_. True) else cur_valid_map se)\<rparr> else se)"
  have e': "entry_ok (nblk env) se'" "ckpt_valid_map se' = cur_valid_map se'" "valid_blocks se' = valid_blocks se" using L by (simp_all add: se'_def entry_ok_def)
  have sm': "seg sm' = (seg sm)(s := se')" "load_frame sm' = load_frame sm" "dirty_sentries_bitmap (sit sm') = dirty_sentries_bitmap (sit sm)"
    "dirty_sentries (sit sm') = dirty_sentries (sit sm)" "written_valid_blocks (sit sm') = written_valid_blocks (sit sm)"
    "is_large_section env \<longrightarrow> sec_valid (sit sm') = (sec_valid (sit sm))(s div sps env := addu 32 (sec_valid (sit sm) (s div sps env)) (int (valid_blocks se)))"
    using r q ok se L(3) by (auto simp: load_sit_entry_def se'_def Let_def load_frame_def sm_frame_def put_seg_entry_def seg_def sec_of[OF g s(1)] split: if_splits)
  show "cache_ok env sm'" by (rule cache_put[OF g c s(1) sm'(1) e'(1,2)]) (use sm' e'(3) s(2) in simp_all)
  show "load_frame sm' = load_frame sm" by (rule sm'(2))
  show "seg sm' t = seg sm t" if "t \<noteq> s" for t using that sm'(1) by simp
  show "entry_of mac (projr (sit_page img s)) (seg sm' s)" using se q(1) by (auto simp: sm'(1) se'_def seg_info_from_raw_sit_def entry_of_def)
  have sv: "svb' = svb(IS_NODESEG (se_type se') := u32 (svb (IS_NODESEG (se_type se')) + valid_blocks se'))"
    using r q ok se by (auto simp: load_sit_entry_def se'_def Let_def split: if_splits)
  have u: "svb = svb(IS_NODESEG (se_type (seg sm s)) := sub32 (svb (IS_NODESEG (se_type (seg sm s)))) 0)" if "counted env sm svb"
    using that counted_bound[OF g c] by (auto simp: counted_def sub32_le fun_eq_iff)
  show "counted env sm' svb'" if ct: "counted env sm svb"
    using counted_put[OF g c s(1) ct sm'(1) e'(1)] u[OF ct] s(2) by (simp add: sv)
qed

lemma load_journal_entry_ok:
  assumes g: "seg_geom env" and b: "8 dvd nblk env" and n: "0 < segment_count img" "segment_count img < 2 ^ 32"
    and c: "cache_ok env sm" and r: "load_journal_entry env img mac (s, rs) (sm, svb) = Inr (sm', svb')"
  shows "cache_ok env sm'" "load_frame sm' = load_frame sm" "\<And>t. t \<noteq> s \<Longrightarrow> seg sm' t = seg sm t" "entry_of mac rs (seg sm' s)"
    "counted env sm svb \<Longrightarrow> counted env sm' svb'"
proof -
  have s: "s < nseg env" using r by (simp add: load_journal_entry_def MAIN_SEGS_def split: if_splits)
  obtain ok bug where q: "check_block_count env mac (segment_count img) s rs = (ok, bug)" by (metis surj_pair)
  have ok: ok using r q by (simp add: load_journal_entry_def Let_def split: if_splits)
  obtain se where se: "seg_info_from_raw_sit mac rs (seg sm s) = Some se"
    using r q ok by (cases "seg_info_from_raw_sit mac rs (seg sm s)") (simp_all add: load_journal_entry_def Let_def split: if_splits)
  note L = loaded_entry[OF g b n q[unfolded eqTrueI[OF ok]] se]
  define se' where "se' = (if block_unit_discard env then se\<lparr>discard_map := (if cp_trimmed img then (\<lambda>_. True) else cur_valid_map se)\<rparr> else se)"
  have e': "entry_ok (nblk env) se'" "ckpt_valid_map se' = cur_valid_map se'" "valid_blocks se' = valid_blocks se" using L by (simp_all add: se'_def entry_ok_def)
  have sm': "seg sm' = (seg sm)(s := se')" "load_frame sm' = load_frame sm" "dirty_sentries_bitmap (sit sm') = dirty_sentries_bitmap (sit sm)"
    "dirty_sentries (sit sm') = dirty_sentries (sit sm)" "written_valid_blocks (sit sm') = written_valid_blocks (sit sm)"
    "is_large_section env \<longrightarrow> sec_valid (sit sm') = (sec_valid (sit sm))(s div sps env := addu 32 (sec_valid (sit sm) (s div sps env)) (int (valid_blocks se) - int (valid_blocks (seg sm s))))"
    using r q ok se L(3) by (auto simp: load_journal_entry_def se'_def Let_def load_frame_def sm_frame_def put_seg_entry_def seg_def sec_of[OF g s] addu_addu split: if_splits)
  show "cache_ok env sm'" by (rule cache_put[OF g c s sm'(1) e'(1,2)]) (use sm' e'(3) in simp_all)
  show "load_frame sm' = load_frame sm" by (rule sm'(2))
  show "seg sm' t = seg sm t" if "t \<noteq> s" for t using that sm'(1) by simp
  show "entry_of mac rs (seg sm' s)" using se by (auto simp: sm'(1) se'_def seg_info_from_raw_sit_def entry_of_def)
  let ?n = "IS_NODESEG (se_type (seg sm s))" and ?m = "IS_NODESEG (se_type se')"
  have sv: "svb' = (svb(?n := sub32 (svb ?n) (valid_blocks (seg sm s))))(?m := u32 ((svb(?n := sub32 (svb ?n) (valid_blocks (seg sm s)))) ?m + valid_blocks se'))"
    using r q ok se by (auto simp: load_journal_entry_def se'_def Let_def split: if_splits)
  show "counted env sm' svb'" if "counted env sm svb" unfolding sv by (rule counted_put[OF g c s that sm'(1) e'(1)])
qed

text \<open>The stored entry that counts for every segment: the last one in the journal or else the one in the SIT block.\<close>

definition latest_sit :: "mount_img \<Rightarrow> nat \<Rightarrow> raw_sit" where
  "latest_sit img = fold (\<lambda>(k, rs) f. f(k := rs)) (sit_journal img) (\<lambda>s. projr (sit_page img s))"

definition loaded :: "seg_env \<Rightarrow> sit_macros \<Rightarrow> 'g sm_info \<Rightarrow> (nat \<Rightarrow> raw_sit) \<Rightarrow> 'g sm_info \<times> (bool \<Rightarrow> nat) \<Rightarrow> bool" where
  "loaded env mac sm0 f st \<longleftrightarrow>
     cache_ok env (fst st) \<and> load_frame (fst st) = load_frame sm0 \<and> (\<forall>s < nseg env. entry_of mac (f s) (seg (fst st) s)) \<and> counted env (fst st) (snd st)"

lemma journal_loaded:
  fixes sm0 :: "'g sm_info"
  assumes g: "seg_geom env" and b: "8 dvd nblk env" and n: "0 < segment_count img" "segment_count img < 2 ^ 32"
  shows "loaded env mac sm0 f st \<Longrightarrow> fold_err (load_journal_entry env img mac) js st = Inr st' \<Longrightarrow>
    loaded env mac sm0 (fold (\<lambda>(k, rs) f. f(k := rs)) js f) st'"
proof (induction js arbitrary: f st)
  case (Cons j js)
  obtain k rs sm svb where e: "j = (k, rs)" "st = (sm, svb)" by (metis surj_pair)
  obtain sm1 svb1 where l: "load_journal_entry env img mac (k, rs) (sm, svb) = Inr (sm1, svb1)"
    and r: "fold_err (load_journal_entry env img mac) js (sm1, svb1) = Inr st'" using Cons.prems(2) by (auto simp: e split: sum.splits)
  have c: "cache_ok env sm" using Cons.prems(1) by (simp add: loaded_def e)
  note J = load_journal_entry_ok[OF g b n c l]
  have "loaded env mac sm0 (f(k := rs)) (sm1, svb1)" using Cons.prems(1) J(1,2,4,5) J(3) by (auto simp: loaded_def e)
  from Cons.IH[OF this r] show ?case by (simp add: e)
qed simp

lemma sit_folds_loaded:
  fixes sm :: "'g sm_info"
  assumes g: "seg_geom env" and b: "8 dvd nblk env" and n: "0 < segment_count img" "segment_count img < 2 ^ 32"
    and c: "cache_ok env sm" and z: "\<And>s. valid_blocks (seg sm s) = 0"
    and q: "fold_err (load_sit_entry env img mac) [0..<nseg env] (sm, \<lambda>_. 0) = Inr st"
      "fold_err (load_journal_entry env img mac) (sit_journal img) st = Inr (sm', svb)"
  shows "loaded env mac sm (latest_sit img) (sm', svb)" "u32 (svb False + svb True) = svb False + svb True"
proof -
  define P where "P k st \<longleftrightarrow> cache_ok env (fst st) \<and> load_frame (fst st) = load_frame sm \<and> (\<forall>s. k \<le> s \<longrightarrow> valid_blocks (seg (fst st) s) = 0) \<and>
      (\<forall>s < k. entry_of mac (projr (sit_page img s)) (seg (fst st) s)) \<and> counted env (fst st) (snd st)"
    for k and st :: "'g sm_info \<times> (bool \<Rightarrow> nat)"
  have "P (nseg env) st"
  proof (rule fold_err_upt[where P = P, OF q(1)])
    show "P 0 (sm, \<lambda>_. 0)" using c z by (simp add: P_def counted_def part_def)
    fix k and s s' :: "'g sm_info \<times> (bool \<Rightarrow> nat)"
    assume k: "k < nseg env" and pk: "P k s" and l: "load_sit_entry env img mac k s = Inr s'"
    obtain a x a' x' where e: "s = (a, x)" "s' = (a', x')" by (metis surj_pair)
    have v: "valid_blocks (seg a k) = 0" and ca: "cache_ok env a" using pk by (simp_all add: P_def e)
    note L = load_sit_entry_ok[OF g b n ca k v l[unfolded e]]
    show "P (Suc k) s'" using L pk by (auto simp: P_def e less_Suc_eq)
  qed
  then have "loaded env mac sm (\<lambda>s. projr (sit_page img s)) st" by (simp add: P_def loaded_def)
  from journal_loaded[OF g b n this q(2)] show l: "loaded env mac sm (latest_sit img) (sm', svb)" by (simp add: latest_sit_def)
  then have "svb False + svb True = (\<Sum>s < nseg env. valid_blocks (seg sm' s))" using parts_sum[of "seg sm'" "nseg env"] by (simp add: loaded_def counted_def)
  then show "u32 (svb False + svb True) = svb False + svb True" using l counted_bound(2)[OF g, of sm'] by (simp add: loaded_def u32_id)
qed

lemma build_sit_entries_ok:
  assumes g: "seg_geom env" and b: "8 dvd nblk env" and n: "0 < segment_count img" "segment_count img < 2 ^ 32"
    and c: "cache_ok env sm" and z: "\<And>s. valid_blocks (seg sm s) = 0" and r: "build_sit_entries env img mac sm = Inr sm'"
  shows "\<exists>svb. loaded env mac sm (latest_sit img) (sm', svb)"
proof -
  obtain st svb where q: "fold_err (load_sit_entry env img mac) [0..<nseg env] (sm, \<lambda>_. 0) = Inr st"
    "fold_err (load_journal_entry env img mac) (sit_journal img) st = Inr (sm', svb)"
    using r by (auto simp: build_sit_entries_def MAIN_SEGS_def split: sum.splits prod.splits if_splits)
  from sit_folds_loaded(1)[OF g b n c z q] show ?thesis by blast
qed

section \<open>The free map\<close>

lemma set_free_ok:
  assumes g: "seg_geom env" and f: "free_ok env fi" and s: "s < nseg env" "free_segmap fi s"
  shows "free_ok env (set_free env s fi)" "free_segmap (set_free env s fi) = (free_segmap fi)(s := False)"
proof -
  define sm :: "unit sm_info" where "sm = undefined\<lparr>fsm := fi\<rparr>"
  have fi: "fsm sm = fi" by (simp add: sm_def)
  have "free_secmap fi (s div sps env)" using f s by (simp add: free_ok_def)
  then have "set_free env s fi = fsm (set_test_and_free env s True sm)"
    using s by (simp add: set_free_def set_test_and_free_def Let_def fi sec_of[OF g s(1)])
  then show "free_ok env (set_free env s fi)" "free_segmap (set_free env s fi) = (free_segmap fi)(s := False)"
    using test_and_free_ok(1,2)[OF g, of sm s True] f s(1) fi by simp_all
qed

definition freed_upto :: "seg_env \<Rightarrow> nat \<Rightarrow> 'g sm_info \<Rightarrow> 'g sm_info \<Rightarrow> bool" where
  "freed_upto env k sm0 sm \<longleftrightarrow>
     (\<exists>x. sm = sm0\<lparr>fsm := x, sit := (sit sm0)\<lparr>written_valid_blocks := (\<Sum>s < k. valid_blocks (seg sm0 s))\<rparr>\<rparr> \<and> free_ok env x \<and>
          (\<forall>s. free_segmap x s \<longleftrightarrow> \<not> (s < k \<and> valid_blocks (seg sm0 s) = 0)))"

lemma freed_step:
  assumes g: "seg_geom env" and e: "\<forall>s < nseg env. entry_ok (nblk env) (seg sm0 s)" and k: "k < nseg env" and f: "freed_upto env k sm0 sm"
  shows "freed_upto env (Suc k) sm0
    (let v = valid_blocks (seg sm k) in if v = 0 then sm\<lparr>fsm := set_free env k (fsm sm)\<rparr>
      else sm\<lparr>sit := (sit sm)\<lparr>written_valid_blocks := addu 32 (written_valid_blocks (sit sm)) (int v)\<rparr>\<rparr>)"
proof -
  obtain x where x: "sm = sm0\<lparr>fsm := x, sit := (sit sm0)\<lparr>written_valid_blocks := (\<Sum>s < k. valid_blocks (seg sm0 s))\<rparr>\<rparr>" "free_ok env x"
    "\<forall>s. free_segmap x s \<longleftrightarrow> \<not> (s < k \<and> valid_blocks (seg sm0 s) = 0)" using f by (auto simp: freed_upto_def)
  have sg: "seg sm = seg sm0" by (simp add: x(1) seg_def fun_eq_iff)
  show ?thesis
  proof (cases "valid_blocks (seg sm0 k) = 0")
    case True
    have k': "free_segmap x k" using x(3) by simp
    note S = set_free_ok[OF g x(2) k k']
    have a: "sm\<lparr>fsm := set_free env k (fsm sm)\<rparr> = sm0\<lparr>fsm := set_free env k x, sit := (sit sm0)\<lparr>written_valid_blocks := (\<Sum>s < Suc k. valid_blocks (seg sm0 s))\<rparr>\<rparr>"
      using True by (simp add: x(1))
    have b: "\<forall>s. free_segmap (set_free env k x) s \<longleftrightarrow> \<not> (s < Suc k \<and> valid_blocks (seg sm0 s) = 0)" using True x(3) by (auto simp: S(2) less_Suc_eq)
    show ?thesis unfolding freed_upto_def sg Let_def if_P[OF True] by (intro exI[of _ "set_free env k x"] conjI a S(1) b)
  next
    case False
    have "(\<Sum>s < Suc k. valid_blocks (seg sm0 s)) \<le> (\<Sum>s < nseg env. valid_blocks (seg sm0 s))" using k by (intro sum_mono2) auto
    also have "\<dots> < 2 ^ 32" by (rule valid_sum_bound(1)[OF g e])
    finally have "addu 32 (\<Sum>s < k. valid_blocks (seg sm0 s)) (int (valid_blocks (seg sm0 k))) = (\<Sum>s < Suc k. valid_blocks (seg sm0 s))"
      by (rule addu_step[where v = 0 and v' = "valid_blocks (seg sm0 k)"]) simp_all
    then have a: "sm\<lparr>sit := (sit sm)\<lparr>written_valid_blocks := addu 32 (written_valid_blocks (sit sm)) (int (valid_blocks (seg sm0 k)))\<rparr>\<rparr> =
        sm0\<lparr>fsm := x, sit := (sit sm0)\<lparr>written_valid_blocks := (\<Sum>s < Suc k. valid_blocks (seg sm0 s))\<rparr>\<rparr>" by (simp add: x(1))
    have b: "\<forall>s. free_segmap x s \<longleftrightarrow> \<not> (s < Suc k \<and> valid_blocks (seg sm0 s) = 0)" using False x(3) by (auto simp: less_Suc_eq)
    show ?thesis unfolding freed_upto_def sg Let_def if_not_P[OF False] by (intro exI[of _ x] conjI a x(2) b)
  qed
qed

lemma inuse_step:
  assumes g: "seg_geom env" and f: "free_ok env (fsm sm)" and s: "s < nseg env"
  shows "\<exists>x. set_test_and_inuse env s sm = sm\<lparr>fsm := x\<rparr> \<and> free_ok env x \<and> free_segmap x = (free_segmap (fsm sm))(s := True)"
proof (cases "free_segmap (fsm sm) s")
  case True
  then show ?thesis using f by (intro exI[of _ "fsm sm"]) (simp add: set_test_and_inuse_def fun_upd_idem)
next
  case False
  then show ?thesis using set_inuse_ok[OF g f s False] by (auto simp: set_test_and_inuse_def)
qed

lemma inuse_fold:
  fixes sm :: "'g sm_info"
  assumes g: "seg_geom env" and "free_ok env (fsm sm)" "\<forall>t \<in> set ts. cs_segno (curseg sm (C_log t)) < nseg env"
  shows "\<exists>x. fold (\<lambda>t sm. set_test_and_inuse env (cs_segno (curseg sm (C_log t))) sm) ts sm = sm\<lparr>fsm := x\<rparr> \<and> free_ok env x \<and>
    (\<forall>s. free_segmap x s \<longleftrightarrow> free_segmap (fsm sm) s \<or> (\<exists>t \<in> set ts. s = cs_segno (curseg sm (C_log t))))"
  using assms(2,3)
proof (induction ts arbitrary: sm)
  case Nil
  then show ?case by (auto intro!: exI[of _ "fsm sm"])
next
  case (Cons t ts)
  obtain x where x: "set_test_and_inuse env (cs_segno (curseg sm (C_log t))) sm = sm\<lparr>fsm := x\<rparr>" "free_ok env x"
    "free_segmap x = (free_segmap (fsm sm))(cs_segno (curseg sm (C_log t)) := True)" using inuse_step[OF g Cons.prems(1)] Cons.prems(2) by auto
  obtain y where y: "fold (\<lambda>t sm. set_test_and_inuse env (cs_segno (curseg sm (C_log t))) sm) ts (sm\<lparr>fsm := x\<rparr>) = sm\<lparr>fsm := x\<rparr>\<lparr>fsm := y\<rparr>" "free_ok env y"
    "\<forall>s. free_segmap y s \<longleftrightarrow> free_segmap x s \<or> (\<exists>t \<in> set ts. s = cs_segno (curseg sm (C_log t)))"
    using Cons.IH[of "sm\<lparr>fsm := x\<rparr>"] Cons.prems(2) x(2) by auto
  show ?case using x y by (intro exI[of _ y]) auto
qed

lemma init_free_segmap_ok:
  fixes sm :: "'g sm_info"
  assumes g: "seg_geom env" and c: "cache_ok env sm" and f: "fsm sm = build_free_segmap" and l: "\<forall>t. cs_segno (curseg sm (C_log t)) < nseg env"
  obtains x where "init_free_segmap env sm = sm\<lparr>fsm := x, sit := (sit sm)\<lparr>written_valid_blocks := (\<Sum>s < nseg env. valid_blocks (seg sm s))\<rparr>\<rparr>"
    "free_ok env x" "\<And>s. free_segmap x s \<longleftrightarrow> \<not> (s < nseg env \<and> valid_blocks (seg sm s) = 0) \<or> (\<exists>t. s = cs_segno (curseg sm (C_log t)))"
proof -
  define F where "F = (\<lambda>start sm. if f2fs_usable_blks_in_seg env start = 0 then sm
            else (let v = valid_blocks (get_seg_entry sm start)
                  in if v = 0 then sm\<lparr>fsm := set_free env start (fsm sm)\<rparr>
                     else sm\<lparr>sit := (sit sm)\<lparr>written_valid_blocks := addu 32 (written_valid_blocks (sit sm)) (int v)\<rparr>\<rparr>) :: 'g sm_info)"
  have e: "\<forall>s < nseg env. entry_ok (nblk env) (seg sm s)" and w: "written_valid_blocks (sit sm) = 0" using c by (simp_all add: cache_ok_def)
  have u: "f2fs_usable_blks_in_seg env s \<noteq> 0" for s using usable(1)[OF g] nblk_pos[OF g] by simp
  have "freed_upto env n sm (fold F [0..<n] sm)" if "n \<le> nseg env" for n
    using that
  proof (induction n)
    case 0
    have "bits (\<lambda>_. False) k = 0" for k by (simp add: bits_eq_0)
    then have "free_ok env build_free_segmap" by (simp add: free_ok_def build_free_segmap_def)
    moreover have "sm = sm\<lparr>fsm := build_free_segmap, sit := (sit sm)\<lparr>written_valid_blocks := 0\<rparr>\<rparr>" using f w by simp
    ultimately show ?case unfolding freed_upto_def by (intro exI[of _ build_free_segmap]) (simp add: build_free_segmap_def)
  next
    case (Suc n)
    have n: "n < nseg env" "n \<le> nseg env" using Suc.prems by simp_all
    have "fold F [0..<Suc n] sm = F n (fold F [0..<n] sm)" by simp
    also have "F n q = (let v = valid_blocks (seg q n) in if v = 0 then q\<lparr>fsm := set_free env n (fsm q)\<rparr>
      else q\<lparr>sit := (sit q)\<lparr>written_valid_blocks := addu 32 (written_valid_blocks (sit q)) (int v)\<rparr>\<rparr>)" for q using u[of n] by (simp add: F_def)
    finally show ?case using freed_step[OF g e n(1) Suc.IH[OF n(2)]] by (simp only:)
  qed
  then obtain x where x: "fold F [0..<nseg env] sm = sm\<lparr>fsm := x, sit := (sit sm)\<lparr>written_valid_blocks := (\<Sum>s < nseg env. valid_blocks (seg sm s))\<rparr>\<rparr>"
    "free_ok env x" "\<forall>s. free_segmap x s \<longleftrightarrow> \<not> (s < nseg env \<and> valid_blocks (seg sm s) = 0)" unfolding freed_upto_def by blast
  let ?q = "sm\<lparr>fsm := x, sit := (sit sm)\<lparr>written_valid_blocks := (\<Sum>s < nseg env. valid_blocks (seg sm s))\<rparr>\<rparr>"
  obtain y where y: "fold (\<lambda>t sm. set_test_and_inuse env (cs_segno (curseg sm (C_log t))) sm) persistent_logs ?q = ?q\<lparr>fsm := y\<rparr>" "free_ok env y"
    "\<forall>s. free_segmap y s \<longleftrightarrow> free_segmap x s \<or> (\<exists>t \<in> set persistent_logs. s = cs_segno (curseg sm (C_log t)))"
    using inuse_fold[OF g, of ?q persistent_logs] x(2) l by auto
  have p: "set persistent_logs = UNIV" by (auto simp: persistent_logs_def intro: seg_type.exhaust)
  show ?thesis
  proof (rule that)
    show "init_free_segmap env sm = sm\<lparr>fsm := y, sit := (sit sm)\<lparr>written_valid_blocks := (\<Sum>s < nseg env. valid_blocks (seg sm s))\<rparr>\<rparr>"
      using y(1) unfolding init_free_segmap_def Let_def[of "fold _ _ _"] F_def[symmetric] MAIN_SEGS_def x(1) by simp
  qed (use y x(3) p in auto)
qed

section \<open>The dirty lists\<close>

text \<open>What holds while \<open>init_dirty_segmap\<close> runs from \<open>sm0\<close>.\<close>

definition marking :: "seg_env \<Rightarrow> 'g sm_info \<Rightarrow> 'g sm_info \<Rightarrow> bool" where
  "marking env sm0 sm \<longleftrightarrow>
     sm_in env {} sm \<and> only_dsl sm0 sm \<and> sm_bug sm = sm_bug sm0 \<and> (\<forall>s. \<not> dirty_segmap (dsl sm) PRE s) \<and> dirty_pos {} sm"

lemma mark_step:
  assumes g: "seg_geom env" and m: "marking env sm0 sm" and s: "s < nseg env" "free_segmap (fsm sm) s"
    and v: "0 < valid_blocks (seg sm s)" "valid_blocks (seg sm s) < nblk env"
  shows "marking env sm0 (locate_dirty env s DIRTY sm)"
proof -
  have ok: "sm_in env {} sm" using m by (simp add: marking_def)
  have 1: "sm_in env {} (locate_dirty env s DIRTY sm)" by (rule locate_dirty_ok[OF ok s]) simp
  have 2: "sm_bug (locate_dirty env s DIRTY sm) = sm_bug sm" by (rule locate_dirty_bug[OF g ok s(1)]) (use v in simp)
  have o: "only_dsl sm (locate_dirty env s DIRTY sm)" by (rule locate_dirty_only)
  have 3: "dirty_segmap (dsl (locate_dirty env s DIRTY sm)) t r \<Longrightarrow> dirty_segmap (dsl sm) t r \<or> t \<noteq> PRE \<and> r = s" for t r
    using locate_dirty_dsl(3)[of sm s env] by (cases "IS_CURSEG sm s") (auto simp: locate_dirty_def set_dirty_simps split: if_splits)
  have "dirty_pos {} (locate_dirty env s DIRTY sm)"
    using m v(1) 3 only_dslD(4)[OF o] unfolding marking_def dirty_pos_def by fastforce
  then show ?thesis using m 1 2 3 only_dsl_trans[OF _ o, of sm0] unfolding marking_def by fastforce
qed

lemma init_dirty_loop_marks:
  "seg_geom env \<Longrightarrow> marking env sm0 sm \<Longrightarrow> marking env sm0 (init_dirty_loop env off sm)"
proof (induction env off sm rule: init_dirty_loop.induct)
  case (1 env off sm)
  define s where "s = find_next_inuse (fsm sm) (MAIN_SEGS (geo env)) off"
  show ?case
  proof (cases "s \<ge> MAIN_SEGS (geo env)")
    case True
    then show ?thesis using 1(3) by (simp add: init_dirty_loop.simps[of env off sm] s_def[symmetric] Let_def)
  next
    case False
    define v where "v = get_valid_blocks env sm s False"
    define u where "u = f2fs_usable_blks_in_seg env s"
    define q where "q = (if v = u \<or> v = 0 then sm else if v > u then bug_on True sm else locate_dirty env s DIRTY sm)"
    have e: "init_dirty_loop env off sm = init_dirty_loop env (s + 1) q"
      using False by (simp add: init_dirty_loop.simps[of env off sm] Let_def flip: s_def v_def u_def q_def)
    have sn: "s < nseg env" "free_segmap (fsm sm) s"
      using False find_next_bit_less(1)[of "free_segmap (fsm sm)" "MAIN_SEGS (geo env)" off] by (simp_all add: s_def find_next_inuse_def MAIN_SEGS_def)
    have "marking env sm0 q"
    proof (cases "v = u \<or> v = 0")
      case True
      then show ?thesis using 1(3) by (simp add: q_def)
    next
      case nz: False
      have u: "u = nblk env" by (simp add: u_def 1(2))
      have v: "v = valid_blocks (seg sm s)" by (simp add: v_def get_valid_blocks_def)
      have "entry_ok (nblk env) (seg sm s)" using 1(3) sn(1) by (simp add: marking_def sm_in_def sit_ok_def)
      then have "v \<le> nblk env" using entry_bounds(1)[OF 1(2)] v by simp
      then have lt: "v < nblk env" "\<not> v > u" using nz u by simp_all
      then show ?thesis using mark_step[OF 1(2,3) sn] nz v u by (simp add: q_def)
    qed
    then show ?thesis using 1(1)[OF s_def False v_def u_def 1(2)] e by (simp add: q_def)
  qed
qed

text \<open>Whatever the state, only the lists change.\<close>

lemma init_dirty_loop_only: "only_dsl sm0 sm \<Longrightarrow> only_dsl sm0 (init_dirty_loop env off sm)"
proof (induction env off sm rule: init_dirty_loop.induct)
  case (1 env off sm)
  define s where "s = find_next_inuse (fsm sm) (MAIN_SEGS (geo env)) off"
  show ?case
  proof (cases "s \<ge> MAIN_SEGS (geo env)")
    case True
    then show ?thesis using 1(2) by (simp add: init_dirty_loop.simps[of env off sm] s_def[symmetric] Let_def)
  next
    case False
    define v where "v = get_valid_blocks env sm s False"
    define u where "u = f2fs_usable_blks_in_seg env s"
    define q where "q = (if v = u \<or> v = 0 then sm else if v > u then bug_on True sm else locate_dirty env s DIRTY sm)"
    have e: "init_dirty_loop env off sm = init_dirty_loop env (s + 1) q"
      using False by (simp add: init_dirty_loop.simps[of env off sm] Let_def flip: s_def v_def u_def q_def)
    have "only_dsl sm q" by (simp add: q_def locate_dirty_only)
    then have "only_dsl sm0 q" by (rule only_dsl_trans[OF 1(2)])
    then show ?thesis using 1(1)[OF s_def False v_def u_def] e by (simp add: q_def)
  qed
qed

lemma init_dirty_only: "only_dsl sm (init_dirty_segmap env sm)"
proof (cases "is_large_section env")
  case False
  then show ?thesis using init_dirty_loop_only[of sm sm] by (simp add: init_dirty_segmap_def Let_def)
next
  case True
  have u: "only_dsl sm x \<Longrightarrow> only_dsl sm (x\<lparr>dsl := d\<rparr>)" for x d by (rule only_dsl_trans[OF _ only_dsl_upd(1)])
  show ?thesis using True unfolding init_dirty_segmap_def Let_def
    by (simp only: if_False simp_thms)
      (rule fold_upt_invariant[where I = "only_dsl sm"], rule init_dirty_loop_only, simp, simp add: u)
qed

lemma secmap_marks: "marking env sm0 sm \<Longrightarrow> marking env sm0 (sm\<lparr>dsl := (dsl sm)\<lparr>dirty_secmap := m\<rparr>\<rparr>)"
proof -
  assume m: "marking env sm0 sm"
  let ?q = "sm\<lparr>dsl := (dsl sm)\<lparr>dirty_secmap := m\<rparr>\<rparr>"
  have o: "only_dsl sm ?q" by simp
  have "lists_ok env sm (dsl ?q)" using m lists_ok_cong[of "dsl ?q" "dsl sm" env sm] by (simp add: marking_def sm_in_def lists_ok_iff)
  then have "sm_in env {} ?q" using m by (intro only_dsl_sm_in[OF o]) (simp_all add: marking_def)
  then show ?thesis using m only_dsl_trans[OF _ o, of sm0] by (simp add: marking_def dirty_pos_def)
qed

lemma init_dirty_marks:
  assumes g: "seg_geom env" and m: "marking env sm0 sm"
  shows "marking env sm0 (init_dirty_segmap env sm)"
proof (cases "is_large_section env")
  case False
  then show ?thesis using init_dirty_loop_marks[OF g m] by (simp add: init_dirty_segmap_def Let_def)
next
  case True
  then show ?thesis unfolding init_dirty_segmap_def Let_def
    by (simp only: if_False simp_thms)
      (rule fold_upt_invariant[where I = "marking env sm0"], rule init_dirty_loop_marks[OF g m], simp add: secmap_marks)
qed

section \<open>The checks\<close>

lemma checkpoint_logs:
  assumes "\<not> bad_logs env img" "\<not> sb_readonly img"
  shows "cur_segno img t < nseg env" "cur_blkoff img t < nblk env" "t \<noteq> u \<Longrightarrow> cur_segno img t \<noteq> cur_segno img u"
proof -
  have b: "\<forall>t \<in> set node_logs \<union> set data_logs. \<not> log_outside env img t" "\<not> same_segno img node_logs" "\<not> same_segno img data_logs"
    "\<forall>t \<in> set node_logs. \<forall>u \<in> set data_logs. cur_segno img t \<noteq> cur_segno img u"
    using assms by (auto simp: bad_logs_def list_ex_iff)
  have "\<not> log_outside env img t" using b(1) by (cases t) (simp_all add: node_logs_def data_logs_def)
  then show "cur_segno img t < nseg env" "cur_blkoff img t < nblk env" by (simp_all add: log_outside_def MAIN_SEGS_def)
  show "cur_segno img t \<noteq> cur_segno img u" if "t \<noteq> u"
    using that b(2-4) by (cases t; cases u) (simp_all add: node_logs_def data_logs_def, metis+)
qed

lemma curseg_free:
  assumes "curseg_consistent env sm t" "ckpt_valid_map (seg sm (cs_segno (curseg sm (C_log t)))) = cur_valid_map (seg sm (cs_segno (curseg sm (C_log t))))"
    and i: "i < nblk env" "if alloc_type (curseg sm (C_log t)) = SSR then i = next_blkoff (curseg sm (C_log t)) else next_blkoff (curseg sm (C_log t)) \<le> i"
  shows "\<not> live sm (cs_segno (curseg sm (C_log t))) i"
proof (cases "i = next_blkoff (curseg sm (C_log t))")
  case True
  then show ?thesis using assms(1,2) by (simp add: curseg_consistent_def Let_def live_def)
next
  case False
  then have "alloc_type (curseg sm (C_log t)) \<noteq> SSR" "next_blkoff (curseg sm (C_log t)) + 1 \<le> i" using i(2) by (auto split: if_splits)
  then show ?thesis using assms(1,2) i(1) by (auto simp: curseg_consistent_def Let_def live_def list_ex_iff)
qed

section \<open>The discard control\<close>

lemma new_dcc_ok:
  assumes "create_discard_cmd_control env img al None = Inr d"
  shows "dcc_ok d" "root d = []"
proof -
  obtain t w where d: "d = (new_dcc env (unit_opt img))\<lparr>tun := t, swod := w\<rparr>"
    using assms by (auto simp: create_discard_cmd_control_def f2fs_swod_init_def Let_def new_dcc_def split: if_splits option.splits)
  show "root d = []" by (simp add: d new_dcc_def)
  show "dcc_ok d" by (simp add: d new_dcc_def dcc_ok_def acct_def pend_ok_def wait_ok_def u32_def)
qed

section \<open>Building the manager\<close>

lemma mount_stages:
  assumes "f2fs_build_segment_manager env img mac al gc = Inr sm"
  obtains dcc s1 s2 where "create_discard_cmd_control env img al None = Inr dcc"
    "restore_curseg_summaries env img \<lparr>sit = build_sit_info env img, fsm = build_free_segmap, dsl = build_dirty_segmap, curseg = build_curseg,
       ssa = disk_ssa img, discard_blks = 0, unusable_block_count = 0, entry_list = [], nr_discards = 0, sm_dcc = dcc, gc_state = gc, sm_bug = False\<rparr> = Inr s1"
    "build_sit_entries env img mac s1 = Inr s2"
    "sanity_check_curseg env img (init_dirty_segmap env (init_free_segmap env s2)) = None"
    "sm = init_min_max_mtime env (init_dirty_segmap env (init_free_segmap env s2))"
  using assms unfolding f2fs_build_segment_manager_def Let_def by (auto split: if_splits option.splits sum.splits)

lemma restored_empty:
  assumes "restore_curseg_summaries env img \<lparr>sit = build_sit_info env img, fsm = build_free_segmap, dsl = build_dirty_segmap, curseg = build_curseg,
       ssa = disk_ssa img, discard_blks = 0, unusable_block_count = 0, entry_list = [], nr_discards = 0, sm_dcc = dcc, gc_state = gc, sm_bug = False\<rparr> = Inr s1"
  shows "valid_blocks (seg s1 s) = 0" "cache_ok env s1"
proof -
  note L = restore_logs[OF assms, unfolded logs_read_def mount_frame_def]
  have z: "valid_blocks (seg s1 s) = 0" for s using L by (simp add: build_sit_info_def seg_def fun_eq_iff)
  then show "valid_blocks (seg s1 s) = 0" .
  have "entry_ok (nblk env) (seg s1 s) \<and> ckpt_valid_map (seg s1 s) = cur_valid_map (seg s1 s)" for s
    using L by (simp add: build_sit_info_def seg_def fun_eq_iff entry_ok_def bits_eq_0)
  then show "cache_ok env s1" using L z by (simp add: cache_ok_def build_sit_info_def)
qed

text \<open>With the maps built and the logs checked, the state before the dirty lists satisfies the invariant.\<close>

lemma built_sm_in:
  fixes s2 :: "'g sm_info"
  assumes g: "seg_geom env" and c: "cache_ok env s2" and d: "dsl s2 = build_dirty_segmap"
    and lg: "\<And>t. log_at img t (curseg s2 (C_log t))" and inm: "\<And>c. c \<notin> range C_log \<Longrightarrow> curseg s2 c = build_curseg c"
    and nb: "\<not> bad_logs env img" "\<not> sb_readonly img" and cc: "\<And>t. curseg_consistent env s2 t"
    and q: "q = s2\<lparr>fsm := x, sit := (sit s2)\<lparr>written_valid_blocks := (\<Sum>s < nseg env. valid_blocks (seg s2 s))\<rparr>\<rparr>" "free_ok env x"
      "\<And>s. free_segmap x s \<longleftrightarrow> \<not> (s < nseg env \<and> valid_blocks (seg s2 s) = 0) \<or> (\<exists>t. s = cs_segno (curseg s2 (C_log t)))"
  shows "sm_in env {} q" "steady env q"
proof -
  have e: "seg q = seg s2" "live q = live s2" "curseg q = curseg s2" "fsm q = x" "dsl q = build_dirty_segmap" by (simp_all add: q(1) seg_def live_def fun_eq_iff d)
  have ck: "ckpt_valid_map (seg s2 s) = cur_valid_map (seg s2 s)" if "s < nseg env" for s using c that by (simp add: cache_ok_def)
  have z: "bits (\<lambda>_. False) n = 0" for n by (simp add: bits_eq_0)
  have "sit_ok env q" unfolding sit_ok_def e using c ck by (simp add: q(1) cache_ok_def z)
  moreover have "dirty_ok env q" by (simp add: dirty_ok_def e build_dirty_segmap_def z)
  moreover have "free_clean env q"
  proof -
    have "\<not> live s2 s i" if "s < nseg env" "\<not> free_segmap x s" "i < nblk env" for s i
    proof -
      have "valid_blocks (seg s2 s) = 0" using q(3)[of s] that(1,2) by blast
      moreover have "entry_ok (nblk env) (seg s2 s)" using c that(1) by (simp add: cache_ok_def)
      ultimately show ?thesis using ck[OF that(1)] that(3) by (simp add: entry_ok_def bits_eq_0 live_def)
    qed
    then show ?thesis by (simp add: free_clean_def e)
  qed
  moreover have "logs_in env {} q"
  proof -
    have in1: "cs_segno (curseg s2 (C_log t)) < nseg env" "next_blkoff (curseg s2 (C_log t)) < nblk env" "inited (curseg s2 (C_log t))" for t
      using lg[of t] checkpoint_logs(1,2)[OF nb, of t] by (simp_all add: log_at_def)
    have lo: "log_ok env q (curseg s2 (C_log t))" for t
      using in1(1)[of t] q(3) curseg_free[OF cc[of t] ck[OF in1(1)[of t]]] by (auto simp: log_ok_def e)
    have ni: "\<not> inited (curseg s2 c)" "cs_segno (curseg s2 c) = NULL_SEGNO" "cs_seg_type (curseg s2 c) = CURSEG_COLD_DATA" if "c \<notin> range C_log" for c
      using inm[OF that] that by (cases c; simp add: build_curseg_def)+
    have ne: "cs_segno (curseg s2 a) \<noteq> cs_segno (curseg s2 b)" if ab: "a \<noteq> b" and ia: "inited (curseg s2 a)" for a b
    proof -
      obtain t where t: "a = C_log t" using ia ni(1)[of a] by blast
      show ?thesis
      proof (cases "b \<in> range C_log")
        case True
        then obtain u where "b = C_log u" by blast
        then show ?thesis using checkpoint_logs(3)[OF nb, of t u] lg[of t] lg[of u] ab t by (simp add: log_at_def)
      next
        case False
        then show ?thesis using ni(2) t in1(1)[of t] seg_not_null[OF g] by metis
      qed
    qed
    have "log_ok env q (curseg s2 c) \<and> next_blkoff (curseg s2 c) < nblk env" if ic: "inited (curseg s2 c)" for c
    proof -
      obtain t where "c = C_log t" using ni(1)[of c] ic by blast
      then show ?thesis using lo in1(2) by simp
    qed
    moreover have "cs_segno (curseg s2 c) = NULL_SEGNO \<and> cs_seg_type (curseg s2 c) = CURSEG_COLD_DATA" if nc: "\<not> inited (curseg s2 c)" for c
    proof -
      have "c \<notin> range C_log" using in1(3) nc by auto
      then show ?thesis using ni(2,3) by simp
    qed
    ultimately show ?thesis unfolding logs_in_def e using ne in1(3) by simp
  qed
  ultimately show "sm_in env {} q" using q(2) by (simp add: sm_in_def e)
  show "steady env q" using ck by (simp add: steady_def dirty_pos_def e build_dirty_segmap_def)
qed

lemma consistent_cong:
  assumes "seg b = seg a" "curseg b = curseg a"
  shows "curseg_consistent env b t = curseg_consistent env a t"
  using assms by (simp add: curseg_consistent_def Let_def)

lemma mtime_frame_inv:
  fixes sm :: "gc_info sm_info" and env :: seg_env
  defines "sm' \<equiv> init_min_max_mtime env sm"
  shows "sm_in env X sm' = sm_in env X sm" "steady env sm' = steady env sm" "victims (gc_state sm') = victims (gc_state sm)"
    "entry_list sm' = entry_list sm" "sm_dcc sm' = sm_dcc sm" "dsl sm' = dsl sm" "sm_bug sm' = sm_bug sm"
proof -
  have c: "same_core sm sm'" by (simp add: sm'_def init_min_max_mtime_def Let_def same_core_def seg_def)
  show "sm_in env X sm' = sm_in env X sm" by (rule same_core_sm_in[OF c])
  show "steady env sm' = steady env sm" using same_coreD[OF c] by (simp add: steady_def dirty_pos_def)
qed (simp_all add: sm'_def init_min_max_mtime_def Let_def)

lemma built_manager_inv:
  assumes g: "seg_geom env" and b: "8 dvd nblk env" and n: "segment_count img < 2 ^ 32" and ro: "\<not> sb_readonly img"
    and ck: "\<not> f2fs_sanity_check_ckpt env img" and gv: "victims gc = []"
    and r: "f2fs_build_segment_manager env img mac al gc = Inr sm"
  shows "sm_inv env sm" "log_at img t (curseg sm (C_log t))" "s < nseg env \<Longrightarrow> entry_of mac (latest_sit img s) (seg sm s)"
proof -
  have n0: "0 < segment_count img" and nb: "\<not> bad_logs env img" using ck by (auto simp: f2fs_sanity_check_ckpt_def Let_def)
  obtain dcc s1 s2 where S: "create_discard_cmd_control env img al None = Inr dcc"
    "restore_curseg_summaries env img \<lparr>sit = build_sit_info env img, fsm = build_free_segmap, dsl = build_dirty_segmap, curseg = build_curseg,
       ssa = disk_ssa img, discard_blks = 0, unusable_block_count = 0, entry_list = [], nr_discards = 0, sm_dcc = dcc, gc_state = gc, sm_bug = False\<rparr> = Inr s1"
    "build_sit_entries env img mac s1 = Inr s2"
    "sanity_check_curseg env img (init_dirty_segmap env (init_free_segmap env s2)) = None"
    "sm = init_min_max_mtime env (init_dirty_segmap env (init_free_segmap env s2))" by (rule mount_stages[OF r])
  note L = restore_logs[OF S(2), unfolded logs_read_def mount_frame_def]
  note z = restored_empty[OF S(2)]
  from build_sit_entries_ok[OF g b n0 n z(2,1) S(3)]
  have B: "cache_ok env s2" "load_frame s2 = load_frame s1" "\<forall>s < nseg env. entry_of mac (latest_sit img s) (seg s2 s)" by (auto simp: loaded_def)
  have f2: "fsm s2 = build_free_segmap" "dsl s2 = build_dirty_segmap" "curseg s2 = curseg s1" "sm_dcc s2 = dcc" "entry_list s2 = []" "gc_state s2 = gc" "\<not> sm_bug s2"
    using B(2) L by (simp_all add: load_frame_def sm_frame_def)
  have lg: "log_at img t (curseg s2 (C_log t))" for t using L by (simp add: f2)
  have inm: "curseg s2 c = build_curseg c" if "c \<notin> range C_log" for c using L that by (simp add: f2)
  have cs: "\<forall>t. cs_segno (curseg s2 (C_log t)) < nseg env" using lg checkpoint_logs(1)[OF nb ro] by (simp add: log_at_def)
  define q where "q = init_free_segmap env s2"
  obtain x where q: "q = s2\<lparr>fsm := x, sit := (sit s2)\<lparr>written_valid_blocks := (\<Sum>s < nseg env. valid_blocks (seg s2 s))\<rparr>\<rparr>" "free_ok env x"
    "\<And>s. free_segmap x s \<longleftrightarrow> \<not> (s < nseg env \<and> valid_blocks (seg s2 s) = 0) \<or> (\<exists>t. s = cs_segno (curseg s2 (C_log t)))"
    unfolding q_def by (rule init_free_segmap_ok[OF g B(1) f2(1) cs]) blast
  define w where "w = init_dirty_segmap env q"
  note wd = only_dslD[OF init_dirty_only[of q env], folded w_def]
  have sq: "seg q = seg s2" "curseg q = curseg s2" "live q = live s2" by (simp_all add: q(1) seg_def live_def fun_eq_iff)
  have p: "set persistent_logs = UNIV" by (auto simp: persistent_logs_def intro: seg_type.exhaust)
  have cc: "curseg_consistent env s2 t" for t
    using S(4) consistent_cong[of w s2 env t] wd ro p by (auto simp: sanity_check_curseg_def list_all_iff sq simp flip: q_def w_def split: if_splits)
  note I = built_sm_in[OF g B(1) f2(2) lg inm nb ro cc q]
  have "marking env q q" using I by (simp add: marking_def steady_def q(1) f2(2) build_dirty_segmap_def)
  then have m: "marking env q w" unfolding w_def by (rule init_dirty_marks[OF g])
  have sw: "sm_in env {} w" "\<not> sm_bug w" "pre_only (dsl w)" using m f2(7) by (simp_all add: marking_def q(1) pre_only_def)
  have st: "steady env w" using m I(2) wd(4) by (simp add: marking_def steady_def)
  have sm: "sm = init_min_max_mtime env w" using S(5) by (simp add: w_def q_def)
  have "seg sm = seg s2" "curseg sm = curseg s2" using wd sq by (simp_all add: sm init_min_max_mtime_def Let_def seg_def fun_eq_iff)
  then show "log_at img t (curseg sm (C_log t))" "s < nseg env \<Longrightarrow> entry_of mac (latest_sit img s) (seg sm s)" using lg B(3) by simp_all
  have "entry_list w = []" "sm_dcc w = dcc" "gc_state w = gc" using wd f2 by (simp_all add: q(1))
  then show "sm_inv env sm"
    using sw st new_dcc_ok[OF S(1)] gv by (simp add: sm sm_inv_def mtime_frame_inv gc_ok_def)
qed

end
