(* ===== verification/Mount_Total.thy ===== *)
theory Mount_Total
  imports Mount_Inv
begin

text \<open>
  Which volumes can be mounted: when memory and threads are there and the blocks can be read, the
  segment manager is built if the stored SIT entries are acceptable, their sums agree with the
  checkpoint and the logs stand at unused blocks.
\<close>

section \<open>Conditions\<close>

definition raw_ok :: "seg_env \<Rightarrow> mount_img \<Rightarrow> sit_macros \<Rightarrow> nat \<Rightarrow> raw_sit \<Rightarrow> bool" where
  "raw_ok env img mac s rs \<longleftrightarrow>
     fst (check_block_count env mac (segment_count img) s rs) \<and> type_of_nr (GET_SIT_TYPE mac (rs_vblocks rs) mod 2 ^ 6) \<noteq> None"

definition sits_ok :: "seg_env \<Rightarrow> mount_img \<Rightarrow> sit_macros \<Rightarrow> bool" where
  "sits_ok env img mac \<longleftrightarrow>
     list_all (\<lambda>s. \<not> isl (sit_page img s) \<and> raw_ok env img mac s (projr (sit_page img s))) [0..<nseg env] \<and>
     list_all (\<lambda>(s, rs). s < nseg env \<and> raw_ok env img mac s rs) (sit_journal img)"

text \<open>The valid node or data blocks by the stored entries.\<close>

definition raw_part :: "seg_env \<Rightarrow> mount_img \<Rightarrow> sit_macros \<Rightarrow> bool \<Rightarrow> nat" where
  "raw_part env img mac node =
     (\<Sum>s \<leftarrow> [0..<nseg env]. case type_of_nr (GET_SIT_TYPE mac (rs_vblocks (latest_sit img s)) mod 2 ^ 6) of
        None \<Rightarrow> 0 | Some t \<Rightarrow> if IS_NODESEG t = node then bits (rs_map (latest_sit img s)) (nblk env) else 0)"

definition log_fits :: "seg_env \<Rightarrow> mount_img \<Rightarrow> seg_type \<Rightarrow> bool" where
  "log_fits env img t \<longleftrightarrow>
     (let m = rs_map (latest_sit img (cur_segno img t)); a = ck_alloc_type img t
      in a \<le> 1 \<and> \<not> m (cur_blkoff img t) \<and> (a = 1 \<or> \<not> list_ex m [cur_blkoff img t + 1..<nblk env]))"

definition sums_readable :: "mount_img \<Rightarrow> bool" where
  "sums_readable img \<longleftrightarrow>
     \<not> isl (compact_sum img) \<and> list_all (\<lambda>t. \<not> isl (sum_page img t) \<and> \<not> isl (node_sum img (cur_segno img t))) persistent_logs \<and>
     nats_in_journal img \<le> NAT_JOURNAL_ENTRIES img \<and> length (sit_journal img) \<le> SIT_JOURNAL_ENTRIES img"

definition resources :: "mount_img \<Rightarrow> swod_allocs \<Rightarrow> bool" where
  "resources img al \<longleftrightarrow>
     flush_err img = None \<and> thread_err img = None \<and> (\<forall>k < 6. \<not> nomem img k) \<and> a_ctrl al \<and> \<not> alloc_failed (a_seg_hint al) \<and>
     \<not> alloc_failed (a_grp_hint al) \<and> \<not> alloc_failed (a_hold al) \<and> \<not> alloc_failed (a_park al) \<and> \<not> alloc_failed (a_wce al)"

section \<open>Every stage succeeds\<close>

lemma not_isl: "\<not> isl x \<longleftrightarrow> (\<exists>y. x = Inr y)"
  by (cases x) simp_all

lemma restore_total:
  assumes "sums_readable img"
  shows "\<exists>sm'. restore_curseg_summaries env img sm = Inr sm'"
proof -
  have p: "set persistent_logs = UNIV" "set node_logs \<subseteq> UNIV" by (auto simp: persistent_logs_def intro: seg_type.exhaust)
  have n: "\<exists>s'. read_normal_summaries env img t q = Inr s'" for t q
    using assms p(1) by (auto simp: sums_readable_def list_all_iff not_isl read_normal_summaries_def split: sum.splits)
      (metis sum.simps(4) Inl_Inr_False UNIV_I)+
  obtain q where q: "(if cp_compact_sum img then read_compacted_summaries env img sm else Inr sm) = Inr q"
    using assms by (cases "cp_compact_sum img") (auto simp: sums_readable_def not_isl read_compacted_summaries_def)
  obtain q' where "fold_err (read_normal_summaries env img) (if cp_compact_sum img then node_logs else persistent_logs) q = Inr q'"
    using fold_err_total[of _ "read_normal_summaries env img"] n by blast
  then show ?thesis using q assms by (auto simp: restore_curseg_summaries_def sums_readable_def)
qed

lemma create_total: "resources img al \<Longrightarrow> \<exists>d. create_discard_cmd_control env img al None = Inr d"
  by (simp add: resources_def create_discard_cmd_control_def f2fs_swod_init_def new_dcc_def Let_def)

lemma load_sit_total:
  assumes "sits_ok env img mac" "s < nseg env"
  shows "\<exists>st'. load_sit_entry env img mac s st = Inr st'"
proof -
  have "\<not> isl (sit_page img s)" "raw_ok env img mac s (projr (sit_page img s))" using assms by (auto simp: sits_ok_def list_all_iff)
  then obtain rs where "sit_page img s = Inr rs" "raw_ok env img mac s rs" by (auto simp: not_isl)
  then show ?thesis by (auto simp: load_sit_entry_def Let_def raw_ok_def seg_info_from_raw_sit_def split: prod.splits)
qed

lemma load_journal_total:
  assumes "sits_ok env img mac" "e \<in> set (sit_journal img)"
  shows "\<exists>st'. load_journal_entry env img mac e st = Inr st'"
proof -
  obtain s rs where "e = (s, rs)" "s < nseg env" "raw_ok env img mac s rs" using assms by (auto simp: sits_ok_def list_all_iff)
  then show ?thesis by (auto simp: load_journal_entry_def Let_def raw_ok_def seg_info_from_raw_sit_def MAIN_SEGS_def split: prod.splits)
qed

lemma entries_part:
  assumes "\<And>s. s < nseg env \<Longrightarrow> entry_of mac (latest_sit img s) (seg sm s) \<and> entry_ok (nblk env) (seg sm s)"
  shows "(\<Sum>s < nseg env. part b (seg sm s)) = raw_part env img mac b"
proof -
  have "part b (seg sm s) = (case type_of_nr (GET_SIT_TYPE mac (rs_vblocks (latest_sit img s)) mod 2 ^ 6) of
        None \<Rightarrow> 0 | Some t \<Rightarrow> if IS_NODESEG t = b then bits (rs_map (latest_sit img s)) (nblk env) else 0)" if "s < nseg env" for s
    using assms[OF that] by (simp add: entry_of_def part_def entry_ok_def)
  then show ?thesis unfolding raw_part_def by (simp add: interv_sum_list_conv_sum_set_nat atLeast0LessThan)
qed

lemma loaded_part:
  assumes l: "loaded env mac sm0 (latest_sit img) (sm, svb)"
  shows "svb b = raw_part env img mac b"
proof -
  have "(\<Sum>s < nseg env. part b (seg sm s)) = raw_part env img mac b" by (rule entries_part) (use l in \<open>simp add: loaded_def cache_ok_def\<close>)
  then show ?thesis using l by (simp add: loaded_def counted_def)
qed

lemma build_sit_total:
  assumes g: "seg_geom env" and b: "8 dvd nblk env" and n: "0 < segment_count img" "segment_count img < 2 ^ 32"
    and c: "cache_ok env sm" and z: "\<And>s. valid_blocks (seg sm s) = 0" and v: "sits_ok env img mac"
    and ct: "raw_part env img mac True = ck_valid_node_count img" "raw_part env img mac False + raw_part env img mac True \<le> ck_valid_block_count img"
  shows "\<exists>sm'. build_sit_entries env img mac sm = Inr sm'"
proof -
  obtain st where st: "fold_err (load_sit_entry env img mac) [0..<nseg env] (sm, \<lambda>_. 0) = Inr st"
    using fold_err_total[of "[0..<nseg env]" "load_sit_entry env img mac" "(sm, \<lambda>_. 0)"] load_sit_total[OF v] by auto
  obtain sm' svb where f: "fold_err (load_journal_entry env img mac) (sit_journal img) st = Inr (sm', svb)"
    using fold_err_total[of "sit_journal img" "load_journal_entry env img mac" st] load_journal_total[OF v] by (metis surj_pair)
  note L = sit_folds_loaded[OF g b n c z st f]
  have "svb True = ck_valid_node_count img" "\<not> u32 (svb False + svb True) > ck_valid_block_count img"
    using ct L(2) by (simp_all add: loaded_part[OF L(1)])
  then show ?thesis using st f by (simp add: build_sit_entries_def MAIN_SEGS_def)
qed

lemma mount_total:
  assumes g: "seg_geom env" and b: "8 dvd nblk env" and n: "segment_count img < 2 ^ 32" and ro: "\<not> sb_readonly img"
    and ck: "\<not> f2fs_sanity_check_ckpt env img" and rs: "resources img al" "sums_readable img"
    and v: "sits_ok env img mac" "raw_part env img mac True = ck_valid_node_count img"
      "raw_part env img mac False + raw_part env img mac True \<le> ck_valid_block_count img" and lf: "\<And>t. log_fits env img t"
  shows "\<exists>sm. f2fs_build_segment_manager env img mac al gc = Inr sm"
proof -
  have n0: "0 < segment_count img" and nb: "\<not> bad_logs env img" using ck by (auto simp: f2fs_sanity_check_ckpt_def Let_def)
  obtain d where d: "create_discard_cmd_control env img al None = Inr d" using create_total[OF rs(1)] by blast
  obtain s1 where s1: "restore_curseg_summaries env img \<lparr>sit = build_sit_info env img, fsm = build_free_segmap, dsl = build_dirty_segmap, curseg = build_curseg,
       ssa = disk_ssa img, discard_blks = 0, unusable_block_count = 0, entry_list = [], nr_discards = 0, sm_dcc = d, gc_state = gc, sm_bug = False\<rparr> = Inr s1"
    using restore_total[OF rs(2)] by blast
  note z = restored_empty[OF s1]
  obtain s2 where s2: "build_sit_entries env img mac s1 = Inr s2" using build_sit_total[OF g b n0 n z(2,1) v] by blast
  obtain svb where l: "loaded env mac s1 (latest_sit img) (s2, svb)" using build_sit_entries_ok[OF g b n0 n z(2,1) s2] by blast
  have cs: "curseg s2 = curseg s1" using l by (simp add: loaded_def load_frame_def sm_frame_def)
  have lg: "log_at img t (curseg s2 (C_log t))" for t using restore_logs[OF s1] by (simp add: logs_read_def cs)
  have cc: "curseg_consistent env s2 t" for t
  proof -
    have "cur_valid_map (seg s2 (cur_segno img t)) = rs_map (latest_sit img (cur_segno img t))"
      using l checkpoint_logs(1)[OF nb ro, of t] by (simp add: loaded_def entry_of_def)
    then show ?thesis using lf[of t] lg[of t] by (auto simp: curseg_consistent_def log_fits_def Let_def log_at_def alloc_of_nr_def split: if_splits)
  qed
  define w where "w = init_dirty_segmap env (init_free_segmap env s2)"
  have "cache_ok env s2" "fsm s2 = build_free_segmap" "\<forall>t. cs_segno (curseg s2 (C_log t)) < nseg env"
    using l restore_logs[OF s1] lg checkpoint_logs(1)[OF nb ro] by (simp_all add: loaded_def load_frame_def sm_frame_def logs_read_def mount_frame_def log_at_def)
  then obtain x where x: "init_free_segmap env s2 = s2\<lparr>fsm := x, sit := (sit s2)\<lparr>written_valid_blocks := (\<Sum>s < nseg env. valid_blocks (seg s2 s))\<rparr>\<rparr>"
    using init_free_segmap_ok[OF g] by metis
  have "seg w = seg s2" "curseg w = curseg s2"
    using only_dslD[OF init_dirty_only[of "init_free_segmap env s2" env]] by (simp_all add: w_def x seg_def fun_eq_iff)
  then have "sanity_check_curseg env img w = None" using cc consistent_cong[of w s2] by (simp add: sanity_check_curseg_def list_all_iff)
  then show ?thesis using rs(1) ro d s1 s2 by (simp add: f2fs_build_segment_manager_def resources_def Let_def w_def)
qed

end
