(* ===== verification/Mount_Props.thy ===== *)
theory Mount_Props
  imports Mount_Total Segment_Example
begin

text \<open>
  The properties of the stored SIT entries and of mounting, and a small volume on which their
  hypotheses hold: eight segments of eight blocks, one valid block in each of the logs for hot data
  and hot nodes, and an entry for segment 6 in the journal.
\<close>

section \<open>A small volume\<close>

definition mx_sbi :: f2fs_sb_info where
  "mx_sbi = ex_sbi\<lparr>log_blocks_per_seg := 3, blocks_per_seg := 8, main_segments := 8, lfs_mode := False\<rparr>"

definition mx_env :: seg_env where
  "mx_env = sx_env\<lparr>geo := mx_sbi, total_sections := 8\<rparr>"

definition mx_mac :: sit_macros where
  "mx_mac = \<lparr>SIT_VBLOCKS_SHIFT = 10, GET_SIT_VBLOCKS = (\<lambda>x. x mod 1024), GET_SIT_TYPE = (\<lambda>x. x div 1024)\<rparr>"

definition mx_raw :: "nat \<Rightarrow> nat \<Rightarrow> nat list \<Rightarrow> raw_sit" where
  "mx_raw t v bs = \<lparr>rs_vblocks = t * 1024 + v, rs_map = (\<lambda>i. i \<in> set bs), rs_mtime = 0\<rparr>"

definition mx_img :: mount_img where
  "mx_img = \<lparr>segment_count = 100, segment_count_ckpt = 2, segment_count_sit = 2, segment_count_nat = 2, segment_count_ssa = 1,
     rsvd_segment_count = 2, overprov_segment_count = 2, sb_readonly = False, mnt_readonly = False, ck_user_block_count = 32, ck_valid_block_count = 3,
     ck_valid_node_count = 1, total_node_count = 100, cur_segno = type_nr, cur_blkoff = (\<lambda>t. if t = CURSEG_HOT_DATA \<or> t = CURSEG_HOT_NODE then 1 else 0),
     ck_alloc_type = (\<lambda>_. 0), sit_ver_bitmap_bytesize = 1, nat_ver_bitmap_bytesize = 1, cp_pack_start_sum = 1, cp_payload = 0, checksum_offset = 0,
     cp_large_nat_bitmap = False, cp_nat_bits = False, cp_error = False, cp_trimmed = False, cp_compact_sum = True, cp_node_sums = True,
     ck_elapsed_time = 0, sit_page = (\<lambda>s. Inr (if s = 0 then mx_raw 0 1 [0] else if s = 3 then mx_raw 3 1 [0] else mx_raw 0 0 [])),
     sit_journal = [(6, mx_raw 1 1 [2])], nats_in_journal = 0, sum_page = (\<lambda>_. Inr (\<lambda>_. (0, 0, 0))), node_sum = (\<lambda>_. Inr (\<lambda>_. (0, 0, 0))),
     compact_sum = Inr (\<lambda>_. (0, 0, 0)), disk_ssa = (\<lambda>_ _. (0, 0, 0)), unit_opt = DISCARD_UNIT_BLOCK, flush_err = None, thread_err = None,
     nomem = (\<lambda>_. False), F2FS_RESERVED_NODE_NUM = 3, CP_MIN_CHKSUM_OFFSET = 0, F2FS_CP_PACKS = 2, F2FS_BLK_ALIGN = (\<lambda>x. (x + 4095) div 4096),
     NAT_JOURNAL_ENTRIES = 38, SIT_JOURNAL_ENTRIES = 6\<rparr>"

lemma mx_geom: "seg_geom mx_env"
  by (simp add: seg_geom_def geom_ok_def mx_env_def sx_env_def mx_sbi_def ex_sbi_def main_start_def main_end_def NULL_SEGNO_def UINT_MAX_def)

lemma mx_simps [simp]: "nblk mx_env = 8" "nseg mx_env = 8"
  by (simp_all add: mx_env_def sx_env_def mx_sbi_def ex_sbi_def)

lemma mx_ckpt: "\<not> f2fs_sanity_check_ckpt mx_env mx_img"
  by code_simp

lemma mx_conditions:
  "resources mx_img ex_al" "sums_readable mx_img" "sits_ok mx_env mx_img mx_mac" "raw_part mx_env mx_img mx_mac True = 1" "raw_part mx_env mx_img mx_mac False = 2"
  "log_fits mx_env mx_img t" "\<not> sb_readonly mx_img" "segment_count mx_img = 100" "ck_valid_node_count mx_img = 1" "ck_valid_block_count mx_img = 3"
proof -
  show "resources mx_img ex_al" by (simp add: resources_def mx_img_def ex_al_def)
  show "log_fits mx_env mx_img t" by (cases t; hypsubst) code_simp+
  show "sums_readable mx_img" "sits_ok mx_env mx_img mx_mac" "raw_part mx_env mx_img mx_mac True = 1" "raw_part mx_env mx_img mx_mac False = 2" by code_simp+
qed (simp_all add: mx_img_def)

section \<open>Mounting\<close>

text \<open>
  C9. A mount that succeeds establishes the invariant of the segment manager, with which every run
  of the machine starts: when the volume does not have the read-only feature, \<open>f2fs_sanity_check_ckpt\<close> accepts the
  checkpoint, no victims are cached yet and \<open>f2fs_build_segment_manager\<close> returns no error, all counters, maps, lists and logs are
  consistent, no check failed, the logs stand where the checkpoint says, and the cached entry of every segment
  is the last one stored for it, in the journal or else in the SIT block. Volumes with the read-only feature,
  where most checks of the logs are skipped, are not covered.
\<close>

theorem mount_establishes_invariant:
  assumes "seg_geom env" "8 dvd nblk env" "segment_count img < 2 ^ 32" "\<not> sb_readonly img" "\<not> f2fs_sanity_check_ckpt env img" "victims gc = []"
    and "f2fs_build_segment_manager env img mac al gc = Inr sm"
  shows "sm_inv env sm \<and> (\<forall>t. log_at img t (curseg sm (C_log t))) \<and> (\<forall>s < nseg env. entry_of mac (latest_sit img s) (seg sm s))"
  using built_manager_inv[OF assms] by blast

text \<open>
  C23. Mounting is complete: when the volume does not have the read-only feature, \<open>f2fs_sanity_check_ckpt\<close> accepts the
  checkpoint (which places the logs in the main area), memory and threads are available, the summaries can be read, every
  stored SIT entry counts the bits of its map and names a type, the sums of valid node and data
  blocks agree with the checkpoint and the logs stand at unused blocks, then the segment manager
  is built.
\<close>

theorem mount_succeeds:
  assumes "seg_geom env" "8 dvd nblk env" "segment_count img < 2 ^ 32" "\<not> sb_readonly img" "\<not> f2fs_sanity_check_ckpt env img"
    and "resources img al" "sums_readable img" "sits_ok env img mac" "raw_part env img mac True = ck_valid_node_count img"
      "raw_part env img mac False + raw_part env img mac True \<le> ck_valid_block_count img" "\<forall>t. log_fits env img t"
  shows "\<exists>sm. f2fs_build_segment_manager env img mac al gc = Inr sm"
  using assms by (intro mount_total) simp_all

theorem mount_succeeds_witness: "\<exists>sm. f2fs_build_segment_manager mx_env mx_img mx_mac ex_al sx_gc = Inr sm"
  by (rule mount_succeeds[OF mx_geom]) (simp_all add: mx_conditions mx_ckpt)

lemma mx_mounts: "\<exists>sm. f2fs_build_segment_manager mx_env mx_img mx_mac ex_al sx_gc = Inr sm"
  by (rule mount_total[OF mx_geom]) (simp_all add: mx_conditions mx_ckpt)

theorem mount_establishes_invariant_witness:
  "\<exists>sm. f2fs_build_segment_manager mx_env mx_img mx_mac ex_al sx_gc = Inr sm \<and> sm_inv mx_env sm \<and> cur_valid_map (seg sm 6) 2 \<and>
    next_blkoff (curseg sm (C_log CURSEG_HOT_DATA)) = 1"
proof -
  obtain sm where sm: "f2fs_build_segment_manager mx_env mx_img mx_mac ex_al sx_gc = Inr sm" using mx_mounts by blast
  have c: "8 dvd nblk mx_env" "segment_count mx_img < 2 ^ 32" "victims sx_gc = []" by (simp_all add: mx_conditions sx_gc_def)
  note m = mount_establishes_invariant[OF mx_geom c(1,2) mx_conditions(7) mx_ckpt c(3) sm]
  have "rs_map (latest_sit mx_img 6) 2" "cur_blkoff mx_img CURSEG_HOT_DATA = 1" by (simp_all add: latest_sit_def mx_img_def mx_raw_def)
  moreover have "entry_of mx_mac (latest_sit mx_img 6) (seg sm 6)" "log_at mx_img CURSEG_HOT_DATA (curseg sm (C_log CURSEG_HOT_DATA))" using m by simp_all
  ultimately show ?thesis using sm m by (auto simp: entry_of_def log_at_def)
qed

section \<open>Stored entries\<close>

lemma stored_entry:
  assumes g: "seg_geom env" and b: "8 dvd nblk env" and m: "sit_macros_ok mac" and t: "0 < tot" "tot < 2 ^ 32" "s < tot" and e: "entry_ok (nblk env) se"
  shows "valid_blocks se < 2 ^ 10" "ckpt_valid_blocks se < 2 ^ 10" "check_block_count env mac tot s (to_raw_sit mac se) = (True, False)"
    "seg_info_from_raw_sit mac (to_raw_sit mac se) se' = Some (se'\<lparr>valid_blocks := valid_blocks se, ckpt_valid_blocks := valid_blocks se,
       cur_valid_map := cur_valid_map se, ckpt_valid_map := cur_valid_map se, se_type := se_type se, se_mtime := se_mtime se\<rparr>)"
proof -
  show v: "valid_blocks se < 2 ^ 10" "ckpt_valid_blocks se < 2 ^ 10" using entry_bounds(2,3)[OF g e] by simp_all
  note f = from_to_raw[OF m v(1)]
  show "check_block_count env mac tot s (to_raw_sit mac se) = (True, False)"
    using check_block_count_iff[OF usable(1)[OF g] b t(1,2)] f(2) t(3) e by (simp add: entry_ok_def to_raw_sit_def)
  show "seg_info_from_raw_sit mac (to_raw_sit mac se) se' = Some (se'\<lparr>valid_blocks := valid_blocks se, ckpt_valid_blocks := valid_blocks se,
       cur_valid_map := cur_valid_map se, ckpt_valid_map := cur_valid_map se, se_type := se_type se, se_mtime := se_mtime se\<rparr>)" by (rule f(1))
qed

text \<open>
  C22. Along every run the state keeps its types: the counts of every SIT entry fit their bit-fields,
  the entry as it is packed for the disk passes \<open>check_block_count\<close> and unpacks to the
  checkpointed entry, and every log in use stands at a block of a main segment while the others have
  no segment.
\<close>

theorem sit_entries_well_formed:
  assumes "seg_geom L" "8 dvd nblk L" "sm_inv L sm0" "reach sm_step (sm_enabled L) sm0 sm" "sit_macros_ok mac" "nseg L \<le> tot" "tot < 2 ^ 32"
  shows "(\<forall>s < nseg L. valid_blocks (seg sm s) < 2 ^ 10 \<and> ckpt_valid_blocks (seg sm s) < 2 ^ 10 \<and>
      check_block_count L mac tot s (to_raw_sit mac (seg sm s)) = (True, False) \<and>
      seg_info_from_raw_sit mac (to_raw_sit mac (seg sm s)) (seg sm s) = Some (fst (seg_info_to_raw_sit mac (seg sm s)))) \<and>
    (\<forall>c. if inited (curseg sm c) then cs_segno (curseg sm c) < nseg L \<and> next_blkoff (curseg sm c) < nblk L else cs_segno (curseg sm c) = NULL_SEGNO)"
proof -
  have i: "sm_inv L sm" by (rule smm.reach_inv[OF assms(4,3)])
  have "valid_blocks (seg sm s) < 2 ^ 10 \<and> ckpt_valid_blocks (seg sm s) < 2 ^ 10 \<and>
      check_block_count L mac tot s (to_raw_sit mac (seg sm s)) = (True, False) \<and>
      seg_info_from_raw_sit mac (to_raw_sit mac (seg sm s)) (seg sm s) = Some (fst (seg_info_to_raw_sit mac (seg sm s)))" if s: "s < nseg L" for s
  proof -
    have t: "0 < tot" "s < tot" using s assms(6) by simp_all
    have e: "entry_ok (nblk L) (seg sm s)" using i s by (simp add: sm_inv_def sm_in_def sit_ok_def)
    show ?thesis using stored_entry[OF assms(1,2,5) t(1) assms(7) t(2) e] by (simp add: seg_info_to_raw_sit_def ckpt_entry_def)
  qed
  moreover have "if inited (curseg sm c) then cs_segno (curseg sm c) < nseg L \<and> next_blkoff (curseg sm c) < nblk L else cs_segno (curseg sm c) = NULL_SEGNO" for c
    using i by (auto simp: sm_inv_def sm_in_def logs_in_def log_ok_def)
  ultimately show ?thesis by blast
qed

lemma mx_mac_ok: "sit_macros_ok mx_mac"
  by (simp add: sit_macros_ok_def mx_mac_def)

theorem sit_entries_well_formed_witness:
  "\<exists>sm. f2fs_build_segment_manager mx_env mx_img mx_mac ex_al sx_gc = Inr sm \<and>
    seg_info_from_raw_sit mx_mac (to_raw_sit mx_mac (seg sm 6)) (seg sm 6) = Some (fst (seg_info_to_raw_sit mx_mac (seg sm 6)))"
proof -
  obtain sm where sm: "f2fs_build_segment_manager mx_env mx_img mx_mac ex_al sx_gc = Inr sm" using mx_mounts by blast
  have c: "8 dvd nblk mx_env" "segment_count mx_img < 2 ^ 32" "victims sx_gc = []" by (simp_all add: mx_conditions sx_gc_def)
  have i: "sm_inv mx_env sm" by (rule built_manager_inv(1)[OF mx_geom c(1,2) mx_conditions(7) mx_ckpt c(3) sm])
  show ?thesis using sm sit_entries_well_formed[OF mx_geom c(1) i reach_start mx_mac_ok, of 100] by simp
qed

section \<open>Mounting what was written\<close>

text \<open>
  A volume that holds the state \<open>sm\<close>: all stored SIT entries were packed from consistent entries,
  the last ones from those of \<open>sm\<close>, and the checkpoint has its sums and its logs.
\<close>

definition stores :: "seg_env \<Rightarrow> sit_macros \<Rightarrow> gc_info sm_info \<Rightarrow> mount_img \<Rightarrow> bool" where
  "stores env mac sm img \<longleftrightarrow>
     (\<forall>s < nseg env. \<exists>se. entry_ok (nblk env) se \<and> sit_page img s = Inr (to_raw_sit mac se)) \<and>
     (\<forall>e \<in> set (sit_journal img). fst e < nseg env \<and> (\<exists>se. entry_ok (nblk env) se \<and> snd e = to_raw_sit mac se)) \<and>
     (\<forall>s < nseg env. latest_sit img s = to_raw_sit mac (seg sm s)) \<and>
     ck_valid_node_count img = (\<Sum>s < nseg env. part True (seg sm s)) \<and> (\<Sum>s < nseg env. valid_blocks (seg sm s)) \<le> ck_valid_block_count img \<and>
     (\<forall>t. cur_segno img t = cs_segno (curseg sm (C_log t)) \<and> cur_blkoff img t = next_blkoff (curseg sm (C_log t)) \<and>
          ck_alloc_type img t = (if alloc_type (curseg sm (C_log t)) = SSR then 1 else 0))"

lemma stored_type:
  assumes m: "sit_macros_ok mac" and v: "valid_blocks se < 2 ^ 10"
  shows "type_of_nr (GET_SIT_TYPE mac (rs_vblocks (to_raw_sit mac se)) mod 2 ^ 6) = Some (se_type se)" "rs_map (to_raw_sit mac se) = cur_valid_map se"
proof -
  have "se_type (the (seg_info_from_raw_sit mac (to_raw_sit mac se) se)) = se_type se" "seg_info_from_raw_sit mac (to_raw_sit mac se) se \<noteq> None"
    using from_to_raw(1)[OF m v, of se] by simp_all
  then show "type_of_nr (GET_SIT_TYPE mac (rs_vblocks (to_raw_sit mac se)) mod 2 ^ 6) = Some (se_type se)" by (auto simp: seg_info_from_raw_sit_def)
qed (simp add: to_raw_sit_def)

lemma stored_raw_ok:
  assumes g: "seg_geom env" and b: "8 dvd nblk env" and m: "sit_macros_ok mac" and t: "nseg env \<le> segment_count img" "segment_count img < 2 ^ 32"
    and s: "s < nseg env" and e: "entry_ok (nblk env) se"
  shows "raw_ok env img mac s (to_raw_sit mac se)"
proof -
  have n: "0 < segment_count img" "s < segment_count img" using s t(1) by simp_all
  note S = stored_entry[OF g b m n(1) t(2) n(2) e]
  show ?thesis using S(3) stored_type(1)[OF m S(1)] by (simp add: raw_ok_def)
qed

lemma stores_conditions:
  assumes g: "seg_geom env" and b: "8 dvd nblk env" and m: "sit_macros_ok mac" and t: "nseg env \<le> segment_count img" "segment_count img < 2 ^ 32"
    and i: "sm_inv env sm" and st: "stores env mac sm img"
  shows "sits_ok env img mac" "raw_part env img mac p = (\<Sum>s < nseg env. part p (seg sm s))" "log_fits env img l"
proof -
  note R = stored_raw_ok[OF g b m t]
  have en: "entry_ok (nblk env) (seg sm s)" "valid_blocks (seg sm s) < 2 ^ 10" if "s < nseg env" for s
    using i that entry_bounds(2)[OF g, of "seg sm s"] by (auto simp: sm_inv_def sm_in_def sit_ok_def)
  have lt: "latest_sit img s = to_raw_sit mac (seg sm s)" if "s < nseg env" for s using st that by (simp add: stores_def)
  show "sits_ok env img mac"
  proof -
    have "\<not> isl (sit_page img s) \<and> raw_ok env img mac s (projr (sit_page img s))" if sn: "s < nseg env" for s
    proof -
      obtain se where "entry_ok (nblk env) se" "sit_page img s = Inr (to_raw_sit mac se)" using st sn unfolding stores_def by blast
      then show ?thesis using R[OF sn] by simp
    qed
    moreover have "fst e < nseg env \<and> raw_ok env img mac (fst e) (snd e)" if en: "e \<in> set (sit_journal img)" for e
    proof -
      obtain se where "fst e < nseg env" "entry_ok (nblk env) se" "snd e = to_raw_sit mac se" using st en unfolding stores_def by blast
      then show ?thesis using R by simp
    qed
    ultimately show ?thesis by (auto simp: sits_ok_def list_all_iff)
  qed
  have "(case type_of_nr (GET_SIT_TYPE mac (rs_vblocks (latest_sit img s)) mod 2 ^ 6) of
        None \<Rightarrow> 0 | Some t \<Rightarrow> if IS_NODESEG t = p then bits (rs_map (latest_sit img s)) (nblk env) else 0) = part p (seg sm s)" if "s < nseg env" for s
    using en[OF that] stored_type[OF m en(2)[OF that]] by (simp add: lt[OF that] part_def entry_ok_def)
  then show "raw_part env img mac p = (\<Sum>s < nseg env. part p (seg sm s))"
    unfolding raw_part_def by (simp add: interv_sum_list_conv_sum_set_nat atLeast0LessThan)
  show "log_fits env img l"
  proof -
    let ?c = "curseg sm (C_log l)"
    have lo: "log_ok env sm ?c" "next_blkoff ?c < nblk env" using i by (auto simp: sm_inv_def sm_in_def logs_in_def)
    have c: "cur_segno img l = cs_segno ?c" "cur_blkoff img l = next_blkoff ?c" "ck_alloc_type img l = (if alloc_type ?c = SSR then 1 else 0)"
      using st by (simp_all add: stores_def)
    have s: "cs_segno ?c < nseg env" using lo(1) by (simp add: log_ok_def)
    then show ?thesis using lo stored_type(2)[OF m en(2)[OF s]] by (auto simp: log_fits_def Let_def c lt[OF s] log_ok_def live_def list_ex_iff)
  qed
qed

text \<open>
  C8. A volume that stores a state of a run is mounted back to that state. Let the stored SIT entries, in SIT
  blocks or in the journal, all be packed from consistent entries, the last one of each segment from the entry of the
  state, and let the checkpoint have its sums of valid blocks and the positions of its logs (\<open>stores\<close>; that the
  checkpoint code writes such a volume is not modelled beyond the packing of the entries). When, besides, the volume does
  not have the read-only feature, the checkpoint passes its sanity check, the summaries can be read, and memory and threads are
  available, then the segment manager is built, satisfies the invariant, and has exactly the valid blocks and segment types
  of the state, the same sum of valid blocks, and the logs at their positions.
\<close>

theorem remount_restores_state:
  assumes "seg_geom env" "8 dvd nblk env" "sit_macros_ok mac" "nseg env \<le> segment_count img" "segment_count img < 2 ^ 32" "\<not> sb_readonly img"
    and "\<not> f2fs_sanity_check_ckpt env img" "resources img al" "sums_readable img" "victims gc = []"
    and "sm_inv env sm0" "reach sm_step (sm_enabled env) sm0 sm" "stores env mac sm img"
  shows "\<exists>sm'. f2fs_build_segment_manager env img mac al gc = Inr sm' \<and> sm_inv env sm' \<and>
    (\<forall>s < nseg env. cur_valid_map (seg sm' s) = cur_valid_map (seg sm s) \<and> se_type (seg sm' s) = se_type (seg sm s)) \<and>
    written_valid_blocks (sit sm') = written_valid_blocks (sit sm) \<and>
    (\<forall>t. cs_segno (curseg sm' (C_log t)) = cs_segno (curseg sm (C_log t)) \<and> next_blkoff (curseg sm' (C_log t)) = next_blkoff (curseg sm (C_log t)))"
proof -
  have i: "sm_inv env sm" by (rule smm.reach_inv[OF assms(12,11)])
  note C = stores_conditions[OF assms(1-5) i assms(13)]
  have ct: "raw_part env img mac True = ck_valid_node_count img" "raw_part env img mac False + raw_part env img mac True \<le> ck_valid_block_count img"
    using assms(13) parts_sum[of "seg sm" "nseg env"] by (simp_all add: C(2) stores_def)
  obtain sm' where b: "f2fs_build_segment_manager env img mac al gc = Inr sm'"
    using mount_total[OF assms(1,2,5-9) C(1) ct C(3)] by blast
  note B = built_manager_inv[OF assms(1,2,5,6,7,10) b]
  have e: "entry_ok (nblk env) (seg q s)" if "sm_inv env q" "s < nseg env" for q and s using that by (simp add: sm_inv_def sm_in_def sit_ok_def)
  have w: "written_valid_blocks (sit q) = (\<Sum>s < nseg env. valid_blocks (seg q s))" if "sm_inv env q" for q using that by (simp add: sm_inv_def sm_in_def sit_ok_def)
  have m: "cur_valid_map (seg sm' s) = cur_valid_map (seg sm s)" "se_type (seg sm' s) = se_type (seg sm s)" if s: "s < nseg env" for s
  proof -
    have "valid_blocks (seg sm s) < 2 ^ 10" using entry_bounds(2)[OF assms(1) e[OF i s]] by simp
    then show "cur_valid_map (seg sm' s) = cur_valid_map (seg sm s)" "se_type (seg sm' s) = se_type (seg sm s)"
      using B(3)[OF s] assms(13) s stored_type[OF assms(3)] by (auto simp: entry_of_def stores_def)
  qed
  have "written_valid_blocks (sit sm') = written_valid_blocks (sit sm)"
    unfolding w[OF B(1)] w[OF i] by (rule sum.cong) (use e[OF B(1)] e[OF i] m(1) in \<open>auto simp: entry_ok_def\<close>)
  then show ?thesis using b B(1,2) m assms(13) by (auto simp: log_at_def stores_def)
qed

lemma sits_frame:
  "f2fs_sanity_check_ckpt env (img\<lparr>sit_page := x, sit_journal := j\<rparr>) = f2fs_sanity_check_ckpt env img"
  "resources (img\<lparr>sit_page := x, sit_journal := j\<rparr>) al = resources img al"
proof -
  have "same_segno (img\<lparr>sit_page := x, sit_journal := j\<rparr>) ts = same_segno img ts" for ts by (induction ts) simp_all
  then show "f2fs_sanity_check_ckpt env (img\<lparr>sit_page := x, sit_journal := j\<rparr>) = f2fs_sanity_check_ckpt env img"
    by (simp add: f2fs_sanity_check_ckpt_def bad_logs_def log_outside_def[abs_def] Let_def)
qed (simp add: resources_def)

theorem remount_restores_state_witness:
  "\<exists>sm img sm'. cur_valid_map (seg sm 6) 2 \<and> stores mx_env mx_mac sm img \<and> f2fs_build_segment_manager mx_env img mx_mac ex_al sx_gc = Inr sm' \<and>
    cur_valid_map (seg sm' 6) 2 \<and> written_valid_blocks (sit sm') = written_valid_blocks (sit sm)"
proof -
  obtain sm where sm: "f2fs_build_segment_manager mx_env mx_img mx_mac ex_al sx_gc = Inr sm" using mx_mounts by blast
  have c: "8 dvd nblk mx_env" "segment_count mx_img < 2 ^ 32" "victims sx_gc = []" by (simp_all add: mx_conditions sx_gc_def)
  note B = built_manager_inv[OF mx_geom c(1,2) mx_conditions(7) mx_ckpt c(3) sm]
  define img where "img = mx_img\<lparr>sit_page := (\<lambda>s. Inr (to_raw_sit mx_mac (seg sm s))), sit_journal := []\<rparr>"
  have e: "entry_ok (nblk mx_env) (seg sm s)" if "s < nseg mx_env" for s using B(1) that by (simp add: sm_inv_def sm_in_def sit_ok_def)
  have p: "(\<Sum>s < nseg mx_env. part b (seg sm s)) = raw_part mx_env mx_img mx_mac b" for b by (rule entries_part) (use B(3) e in simp)
  have v: "(\<Sum>s < nseg mx_env. valid_blocks (seg sm s)) = 3" using parts_sum[of "seg sm" "nseg mx_env"] by (simp only: p mx_conditions)
  have a: "alloc_type (curseg sm (C_log t)) = LFS" for t using B(2)[of t] by (simp add: log_at_def mx_img_def alloc_of_nr_def)
  have st: "stores mx_env mx_mac sm img"
    unfolding stores_def
  proof (intro conjI allI impI ballI)
    show "\<exists>se. entry_ok (nblk mx_env) se \<and> sit_page img s = Inr (to_raw_sit mx_mac se)" if "s < nseg mx_env" for s using e[OF that] by (auto simp: img_def)
    show "ck_valid_node_count img = (\<Sum>s < nseg mx_env. part True (seg sm s))" by (simp only: p mx_conditions) (simp add: img_def mx_conditions)
    show "(\<Sum>s < nseg mx_env. valid_blocks (seg sm s)) \<le> ck_valid_block_count img" by (simp only: v) (simp add: img_def mx_conditions)
    show "cur_segno img t = cs_segno (curseg sm (C_log t))" "cur_blkoff img t = next_blkoff (curseg sm (C_log t))"
      "ck_alloc_type img t = (if alloc_type (curseg sm (C_log t)) = SSR then 1 else 0)" for t
      using B(2)[of t] a[of t] by (simp_all add: img_def log_at_def mx_img_def)
  qed (simp_all add: img_def latest_sit_def)
  have i: "nseg mx_env \<le> segment_count img" "segment_count img < 2 ^ 32" "\<not> sb_readonly img" "\<not> f2fs_sanity_check_ckpt mx_env img" "resources img ex_al"
    using mx_ckpt by (simp_all add: img_def sits_frame(1,2) mx_conditions)
  have sr: "sums_readable img" using mx_conditions(2) unfolding sums_readable_def img_def by simp
  have m: "rs_map (latest_sit mx_img 6) 2" by (simp add: latest_sit_def mx_img_def mx_raw_def)
  have v6: "cur_valid_map (seg sm 6) 2" using B(3)[of 6] m by (simp add: entry_of_def)
  obtain sm' where r: "f2fs_build_segment_manager mx_env img mx_mac ex_al sx_gc = Inr sm'" "\<forall>s < nseg mx_env. cur_valid_map (seg sm' s) = cur_valid_map (seg sm s)"
    "written_valid_blocks (sit sm') = written_valid_blocks (sit sm)"
    using remount_restores_state[OF mx_geom c(1) mx_mac_ok i sr c(3) B(1) reach_start st] by blast
  have "cur_valid_map (seg sm' 6) 2" using r(2) v6 by simp
  then show ?thesis using v6 st r(1,3) by blast
qed

end
