(* ===== verification/Nat_Cache.thy ===== *)
theory Nat_Cache
  imports Kernel_Bits F2fs_Sb
begin

unbundle bit_operations_syntax

text \<open>
  The node address table (\<open>node.c\<close>, \<open>node.h\<close>): for every node id the block that holds the node.
  An entry is looked up in the cache, then in the journal of the summary block, then in the
  NAT block on disk, of which there are two copies. The radix trees are maps and the lists hold
  node ids: an entry is on the list of clean entries, on the list of the set of its NAT block,
  or, while its address is \<open>NEW_ADDR\<close>, on none.
\<close>

section \<open>Data\<close>

datatype nat_flag = IS_CHECKPOINTED | HAS_FSYNCED_INODE | HAS_LAST_FSYNC | IS_DIRTY | IS_PREALLOC
datatype nat_state = TOTAL_NAT | DIRTY_NAT | RECLAIMABLE_NAT
datatype nid_state = FREE_NID | PREALLOC_NID
datatype nm_err = EFAULT | EINVAL | ENOMEM | Page_err nat

record node_info =
  ni_nid :: nat
  ni_ino :: nat
  blk_addr :: nat
  version :: nat

text \<open>\<open>struct f2fs_nat_entry\<close>: an entry on disk or in the journal.\<close>

record raw_nat =
  raw_version :: nat
  raw_ino :: nat
  block_addr :: nat

record nat_entry =
  ni :: node_info
  nat_flags :: "nat_flag \<Rightarrow> bool"

record nat_entry_set =
  nes_entry_list :: "nat list"
  entry_cnt :: nat

text \<open>
  \<open>nat_meta\<close> holds the NAT blocks by their address, \<open>nat_journal\<close> the node ids and entries of the
  journal, \<open>nm_bug\<close> whether an \<open>f2fs_bug_on\<close> was hit, \<open>nm_cp_error\<close> whether the checkpoint has
  \<open>CP_ERROR_FLAG\<close>.
\<close>

record f2fs_nm_info =
  nat_blkaddr :: nat
  max_nid :: nat
  available_nids :: nat
  next_scan_nid :: nat
  ram_thresh :: nat
  nat_root :: "nat \<Rightarrow> nat_entry option"
  nat_set_root :: "nat \<Rightarrow> nat_entry_set option"
  nat_entries :: "nat list"
  nat_cnt :: "nat_state \<Rightarrow> nat"
  nat_blocks :: nat
  free_nid_root :: "nat \<Rightarrow> nid_state option"
  free_nid_list :: "nat list"
  nid_cnt :: "nid_state \<Rightarrow> nat"
  free_nid_bitmap :: "nat \<Rightarrow> bitmap"
  nat_block_bitmap :: bitmap
  free_nid_count :: "nat \<Rightarrow> nat"
  nat_bitmap :: bitmap
  full_nat_bits :: bitmap
  empty_nat_bits :: bitmap
  nat_meta :: "nat \<Rightarrow> nat \<Rightarrow> raw_nat"
  nat_journal :: "(nat \<times> raw_nat) list"
  nm_bug :: bool
  nm_cp_error :: bool

text \<open>
  What does not change while the volume is mounted, and what a call finds. \<open>page_err\<close> is the error of
  reading a block, \<open>blkaddr_ok\<close> the answer of \<open>f2fs_is_valid_blkaddr\<close>; constants of
  \<open>linux/f2fs_fs.h\<close> and sizes of structures are fields.
\<close>

record node_lay =
  nm_sbi :: f2fs_sb_info
  NAT_ENTRY_PER_BLOCK :: nat
  NAT_JOURNAL_ENTRIES :: nat
  F2FS_ROOT_INO :: nat
  sizeof_free_nid :: nat

record node_cond =
  page_err :: "nat \<Rightarrow> nm_err option"
  blkaddr_ok :: "nat \<Rightarrow> bool"
  cp_global_locked :: bool
  nat_no_memory :: bool
  avail_ram :: nat
  on_f2fs_build_free_nids :: bool
  inject_alloc_nid :: bool
  cp_nat_bits_flag :: bool

definition nm_bug_on :: "bool \<Rightarrow> f2fs_nm_info \<Rightarrow> f2fs_nm_info" where
  "nm_bug_on b nm = nm\<lparr>nm_bug := nm_bug nm \<or> b\<rparr>"

section \<open>Addresses\<close>

definition NAT_BLOCK_OFFSET :: "node_lay \<Rightarrow> nat \<Rightarrow> nat" where
  "NAT_BLOCK_OFFSET L nid = nid div NAT_ENTRY_PER_BLOCK L"

definition START_NID :: "node_lay \<Rightarrow> nat \<Rightarrow> nat" where
  "START_NID L nid = nid div NAT_ENTRY_PER_BLOCK L * NAT_ENTRY_PER_BLOCK L"

definition current_nat_addr :: "node_lay \<Rightarrow> f2fs_nm_info \<Rightarrow> nat \<Rightarrow> nat" where
  "current_nat_addr L nm start =
     (let block_off = NAT_BLOCK_OFFSET L start; bps = blocks_per_seg (nm_sbi L);
          addr = nat_blkaddr nm + 2 * block_off - (block_off AND (bps - 1))
      in if nat_bitmap nm block_off then addr + bps else addr)"

definition next_nat_addr :: "node_lay \<Rightarrow> f2fs_nm_info \<Rightarrow> nat \<Rightarrow> nat" where
  "next_nat_addr L nm addr = ((addr - nat_blkaddr nm) XOR (2 ^ log_blocks_per_seg (nm_sbi L))) + nat_blkaddr nm"

definition set_to_next_nat :: "node_lay \<Rightarrow> nat \<Rightarrow> f2fs_nm_info \<Rightarrow> f2fs_nm_info" where
  "set_to_next_nat L start_nid nm =
     (let block_off = NAT_BLOCK_OFFSET L start_nid
      in nm\<lparr>nat_bitmap := (nat_bitmap nm)(block_off := \<not> nat_bitmap nm block_off)\<rparr>)"

text \<open>
  Reading a block: \<open>page_err\<close> is the error that is left after the retries, if there is one. When
  \<open>f2fs_get_meta_page_retry\<close> fails, checkpointing is stopped; a lookup of a single node uses
  \<open>f2fs_get_meta_page\<close>, which only returns the error.
\<close>

definition f2fs_stop_checkpoint :: "f2fs_nm_info \<Rightarrow> f2fs_nm_info" where
  "f2fs_stop_checkpoint nm = nm\<lparr>nm_cp_error := True\<rparr>"

definition f2fs_get_meta_page :: "node_cond \<Rightarrow> nat \<Rightarrow> f2fs_nm_info \<Rightarrow> nm_err + (nat \<Rightarrow> raw_nat)" where
  "f2fs_get_meta_page c a nm = (case page_err c a of Some e \<Rightarrow> Inl e | None \<Rightarrow> Inr (nat_meta nm a))"

definition f2fs_get_meta_page_retry :: "node_cond \<Rightarrow> nat \<Rightarrow> f2fs_nm_info \<Rightarrow> (nm_err + (nat \<Rightarrow> raw_nat)) \<times> f2fs_nm_info" where
  "f2fs_get_meta_page_retry c a nm =
     (case f2fs_get_meta_page c a nm of Inl e \<Rightarrow> (Inl e, f2fs_stop_checkpoint nm) | Inr page \<Rightarrow> (Inr page, nm))"

definition get_current_nat_page :: "node_lay \<Rightarrow> node_cond \<Rightarrow> nat \<Rightarrow> f2fs_nm_info \<Rightarrow> (nm_err + (nat \<Rightarrow> raw_nat)) \<times> f2fs_nm_info" where
  "get_current_nat_page L c nid nm = f2fs_get_meta_page_retry c (current_nat_addr L nm nid) nm"

text \<open>The address of the other copy, with the current contents copied there.\<close>

definition get_next_nat_page :: "node_lay \<Rightarrow> node_cond \<Rightarrow> nat \<Rightarrow> f2fs_nm_info \<Rightarrow> (nm_err + nat) \<times> f2fs_nm_info" where
  "get_next_nat_page L c nid nm =
     (let dst_off = next_nat_addr L nm (current_nat_addr L nm nid)
      in case get_current_nat_page L c nid nm of
           (Inl e, nm) \<Rightarrow> (Inl e, nm)
         | (Inr src, nm) \<Rightarrow> (Inr dst_off, set_to_next_nat L nid (nm\<lparr>nat_meta := (nat_meta nm)(dst_off := src)\<rparr>)))"

definition f2fs_check_nid_range :: "node_lay \<Rightarrow> f2fs_nm_info \<Rightarrow> nat \<Rightarrow> bool" where
  "f2fs_check_nid_range L nm nid \<longleftrightarrow> nid < F2FS_ROOT_INO L \<or> nid \<ge> max_nid nm"

section \<open>Entries\<close>

definition get_nat_flag :: "nat_entry \<Rightarrow> nat_flag \<Rightarrow> bool" where
  "get_nat_flag e t = nat_flags e t"

definition set_nat_flag :: "nat_flag \<Rightarrow> bool \<Rightarrow> nat_entry \<Rightarrow> nat_entry" where
  "set_nat_flag t b e = e\<lparr>nat_flags := (nat_flags e)(t := b)\<rparr>"

definition nat_reset_flag :: "nat_entry \<Rightarrow> nat_entry" where
  "nat_reset_flag e = set_nat_flag HAS_LAST_FSYNC True (set_nat_flag HAS_FSYNCED_INODE False (set_nat_flag IS_CHECKPOINTED True e))"

definition copy_node_info :: "node_info \<Rightarrow> nat_entry \<Rightarrow> nat_entry" where
  "copy_node_info src e = e\<lparr>ni := src\<rparr>"

definition node_info_from_raw_nat :: "raw_nat \<Rightarrow> node_info \<Rightarrow> node_info" where
  "node_info_from_raw_nat r i = i\<lparr>ni_ino := raw_ino r, blk_addr := block_addr r, version := raw_version r\<rparr>"

definition raw_nat_from_node_info :: "node_info \<Rightarrow> raw_nat" where
  "raw_nat_from_node_info i = \<lparr>raw_version = version i, raw_ino = ni_ino i, block_addr = blk_addr i\<rparr>"

text \<open>The allocation clears the entry.\<close>

definition alloc_nat_entry :: "nat \<Rightarrow> nat_entry" where
  "alloc_nat_entry nid = nat_reset_flag \<lparr>ni = \<lparr>ni_nid = nid, ni_ino = 0, blk_addr = 0, version = 0\<rparr>, nat_flags = (\<lambda>_. False)\<rparr>"

definition put_nat :: "nat_entry \<Rightarrow> f2fs_nm_info \<Rightarrow> f2fs_nm_info" where
  "put_nat e nm = nm\<lparr>nat_root := (nat_root nm)(ni_nid (ni e) := Some e)\<rparr>"

definition nat_cnt_add :: "nat_state \<Rightarrow> int \<Rightarrow> f2fs_nm_info \<Rightarrow> f2fs_nm_info" where
  "nat_cnt_add s d nm = nm\<lparr>nat_cnt := (nat_cnt nm)(s := addu 32 (nat_cnt nm s) d)\<rparr>"

text \<open>The insertion into the tree succeeds: the callers have looked the entry up.\<close>

definition init_nat_entry :: "nat_entry \<Rightarrow> raw_nat option \<Rightarrow> f2fs_nm_info \<Rightarrow> nat_entry \<times> f2fs_nm_info" where
  "init_nat_entry ne raw nm =
     (let ne = (case raw of None \<Rightarrow> ne | Some r \<Rightarrow> ne\<lparr>ni := node_info_from_raw_nat r (ni ne)\<rparr>);
          nm = put_nat ne nm;
          nm = nm\<lparr>nat_entries := nat_entries nm @ [ni_nid (ni ne)]\<rparr>
      in (ne, nat_cnt_add RECLAIMABLE_NAT 1 (nat_cnt_add TOTAL_NAT 1 nm)))"

definition lookup_nat_cache :: "nat \<Rightarrow> f2fs_nm_info \<Rightarrow> nat_entry option \<times> f2fs_nm_info" where
  "lookup_nat_cache n nm =
     (case nat_root nm n of
        None \<Rightarrow> (None, nm)
      | Some e \<Rightarrow> (Some e, if \<not> get_nat_flag e IS_DIRTY \<and> n \<in> set (nat_entries nm)
                          then nm\<lparr>nat_entries := remove1 n (nat_entries nm) @ [n]\<rparr> else nm))"

definition del_from_nat_cache :: "nat \<Rightarrow> f2fs_nm_info \<Rightarrow> f2fs_nm_info" where
  "del_from_nat_cache nid nm = nat_cnt_add RECLAIMABLE_NAT (- 1) (nat_cnt_add TOTAL_NAT (- 1) (nm\<lparr>nat_root := (nat_root nm)(nid := None)\<rparr>))"

section \<open>Dirty entries\<close>

definition grab_nat_entry_set :: "nat \<Rightarrow> f2fs_nm_info \<Rightarrow> f2fs_nm_info" where
  "grab_nat_entry_set s nm =
     (case nat_set_root nm s of
        None \<Rightarrow> nm\<lparr>nat_set_root := (nat_set_root nm)(s := Some \<lparr>nes_entry_list = [], entry_cnt = 0\<rparr>)\<rparr>
      | Some _ \<Rightarrow> nm)"

definition upd_nat_set :: "nat \<Rightarrow> (nat_entry_set \<Rightarrow> nat_entry_set) \<Rightarrow> f2fs_nm_info \<Rightarrow> f2fs_nm_info" where
  "upd_nat_set s f nm = nm\<lparr>nat_set_root := (nat_set_root nm)(s := map_option f (nat_set_root nm s))\<rparr>"

text \<open>Taking an entry off the list it is on.\<close>

definition unlink_nat :: "node_lay \<Rightarrow> nat \<Rightarrow> f2fs_nm_info \<Rightarrow> f2fs_nm_info" where
  "unlink_nat L nid nm =
     upd_nat_set (NAT_BLOCK_OFFSET L nid) (\<lambda>s. s\<lparr>nes_entry_list := remove1 nid (nes_entry_list s)\<rparr>)
       (nm\<lparr>nat_entries := remove1 nid (nat_entries nm)\<rparr>)"

definition set_nat_cache_dirty :: "node_lay \<Rightarrow> nat_entry \<Rightarrow> f2fs_nm_info \<Rightarrow> f2fs_nm_info" where
  "set_nat_cache_dirty L e nm =
     (let nid = ni_nid (ni e); s = NAT_BLOCK_OFFSET L nid; new_ne = (blk_addr (ni e) = NEW_ADDR (nm_sbi L));
          nm = (if new_ne then nm else grab_nat_entry_set s nm);
          nm = (if \<not> new_ne \<and> (get_nat_flag e IS_PREALLOC \<or> \<not> get_nat_flag e IS_DIRTY)
                then upd_nat_set s (\<lambda>h. h\<lparr>entry_cnt := u32 (entry_cnt h + 1)\<rparr>) nm else nm);
          e = set_nat_flag IS_PREALLOC new_ne e;
          nm = (if get_nat_flag e IS_DIRTY then put_nat e nm
                else put_nat (set_nat_flag IS_DIRTY True e) (nat_cnt_add RECLAIMABLE_NAT (- 1) (nat_cnt_add DIRTY_NAT 1 nm)));
          nm = unlink_nat L nid nm
      in if new_ne then nm else upd_nat_set s (\<lambda>h. h\<lparr>nes_entry_list := nes_entry_list h @ [nid]\<rparr>) nm)"

definition clear_nat_cache_dirty :: "node_lay \<Rightarrow> nat \<Rightarrow> nat_entry \<Rightarrow> f2fs_nm_info \<Rightarrow> f2fs_nm_info" where
  "clear_nat_cache_dirty L s e nm =
     (let nid = ni_nid (ni e); nm = unlink_nat L nid nm; nm = nm\<lparr>nat_entries := nat_entries nm @ [nid]\<rparr>;
          nm = put_nat (set_nat_flag IS_DIRTY False e) nm;
          nm = upd_nat_set s (\<lambda>h. h\<lparr>entry_cnt := sub32 (entry_cnt h) 1\<rparr>) nm
      in nat_cnt_add RECLAIMABLE_NAT 1 (nat_cnt_add DIRTY_NAT (- 1) nm))"

section \<open>Looking up and changing addresses\<close>

definition f2fs_need_dentry_mark :: "nat \<Rightarrow> f2fs_nm_info \<Rightarrow> bool \<times> f2fs_nm_info" where
  "f2fs_need_dentry_mark nid nm =
     (let (e, nm) = lookup_nat_cache nid nm
      in (case e of None \<Rightarrow> False | Some e \<Rightarrow> \<not> get_nat_flag e IS_CHECKPOINTED \<and> \<not> get_nat_flag e HAS_FSYNCED_INODE, nm))"

definition f2fs_is_checkpointed_node :: "nat \<Rightarrow> f2fs_nm_info \<Rightarrow> bool \<times> f2fs_nm_info" where
  "f2fs_is_checkpointed_node nid nm =
     (let (e, nm) = lookup_nat_cache nid nm in (case e of None \<Rightarrow> True | Some e \<Rightarrow> get_nat_flag e IS_CHECKPOINTED, nm))"

definition f2fs_need_inode_block_update :: "nat \<Rightarrow> f2fs_nm_info \<Rightarrow> bool \<times> f2fs_nm_info" where
  "f2fs_need_inode_block_update ino nm =
     (let (e, nm) = lookup_nat_cache ino nm
      in (case e of None \<Rightarrow> True
          | Some e \<Rightarrow> \<not> (get_nat_flag e HAS_LAST_FSYNC \<and> (get_nat_flag e IS_CHECKPOINTED \<or> get_nat_flag e HAS_FSYNCED_INODE)), nm))"

definition cache_nat_entry :: "node_lay \<Rightarrow> node_cond \<Rightarrow> nat \<Rightarrow> raw_nat \<Rightarrow> f2fs_nm_info \<Rightarrow> f2fs_nm_info" where
  "cache_nat_entry L c nid ne nm =
     (if cp_global_locked c \<or> nat_no_memory c then nm
      else
        (let (e, nm) = lookup_nat_cache nid nm
         in case e of
              None \<Rightarrow> snd (init_nat_entry (alloc_nat_entry nid) (Some ne) nm)
            | Some e \<Rightarrow> nm_bug_on (ni_ino (ni e) \<noteq> raw_ino ne \<or> blk_addr (ni e) \<noteq> block_addr ne \<or> version (ni e) \<noteq> raw_version ne) nm))"

text \<open>
  \<open>set_node_addr\<close> in three steps: finding or creating the entry, the change, and the marks of the
  inode's entry.
\<close>

definition grab_entry :: "node_lay \<Rightarrow> node_info \<Rightarrow> nat \<Rightarrow> f2fs_nm_info \<Rightarrow> nat_entry \<times> f2fs_nm_info" where
  "grab_entry L i new_blkaddr nm =
     (let (found, nm) = lookup_nat_cache (ni_nid i) nm
      in case found of
           None \<Rightarrow>
             (let (e, nm) = init_nat_entry (alloc_nat_entry (ni_nid i)) None nm
              in (copy_node_info i e, nm_bug_on (blk_addr i = NEW_ADDR (nm_sbi L)) nm))
         | Some e \<Rightarrow>
             (if new_blkaddr = NEW_ADDR (nm_sbi L)
              then (copy_node_info i e, nm_bug_on (blk_addr i \<noteq> NULL_ADDR (nm_sbi L)) nm)
              else (e, nm)))"

definition changed_entry :: "node_lay \<Rightarrow> nat \<Rightarrow> nat_entry \<Rightarrow> nat_entry" where
  "changed_entry L new_blkaddr e =
     (let e = (if blk_addr (ni e) \<noteq> NEW_ADDR (nm_sbi L) \<and> new_blkaddr = NULL_ADDR (nm_sbi L)
               then e\<lparr>ni := (ni e)\<lparr>version := (version (ni e) + 1) mod 256\<rparr>\<rparr> else e);
          e = e\<lparr>ni := (ni e)\<lparr>blk_addr := new_blkaddr\<rparr>\<rparr>
      in if \<not> is_valid_data_blkaddr (nm_sbi L) new_blkaddr then set_nat_flag IS_CHECKPOINTED False e else e)"

definition mark_inode :: "node_info \<Rightarrow> bool \<Rightarrow> f2fs_nm_info \<Rightarrow> f2fs_nm_info" where
  "mark_inode i fsync_done nm =
     (let (found, nm) = (if ni_nid i \<noteq> ni_ino i then lookup_nat_cache (ni_ino i) nm else (nat_root nm (ni_nid i), nm))
      in case found of
           None \<Rightarrow> nm
         | Some e \<Rightarrow>
             (let e = (if fsync_done \<and> ni_nid i = ni_ino i then set_nat_flag HAS_FSYNCED_INODE True e else e)
              in put_nat (set_nat_flag HAS_LAST_FSYNC fsync_done e) nm))"

definition set_node_addr :: "node_lay \<Rightarrow> node_info \<Rightarrow> nat \<Rightarrow> bool \<Rightarrow> f2fs_nm_info \<Rightarrow> f2fs_nm_info" where
  "set_node_addr L i new_blkaddr fsync_done nm =
     (let NULL = NULL_ADDR (nm_sbi L); NEW = NEW_ADDR (nm_sbi L); (e, nm) = grab_entry L i new_blkaddr nm; old = blk_addr (ni e);
          nm = nm_bug_on (old \<noteq> blk_addr i) nm;
          nm = nm_bug_on (old = NULL \<and> new_blkaddr = NULL) nm;
          nm = nm_bug_on (old = NEW \<and> new_blkaddr = NEW) nm;
          nm = nm_bug_on (is_valid_data_blkaddr (nm_sbi L) old \<and> new_blkaddr = NEW) nm;
          nm = set_nat_cache_dirty L (changed_entry L new_blkaddr e) nm
      in mark_inode i fsync_done nm)"

text \<open>Dropping clean entries, oldest first; the lock may be taken.\<close>

fun free_nats :: "nat \<Rightarrow> f2fs_nm_info \<Rightarrow> nat \<times> f2fs_nm_info" where
  "free_nats 0 nm = (0, nm)"
| "free_nats (Suc n) nm =
     (case nat_entries nm of
        [] \<Rightarrow> (Suc n, nm)
      | nid # rest \<Rightarrow> free_nats n (del_from_nat_cache nid (nm\<lparr>nat_entries := rest\<rparr>)))"

definition f2fs_try_to_free_nats :: "bool \<Rightarrow> nat \<Rightarrow> f2fs_nm_info \<Rightarrow> nat \<times> f2fs_nm_info" where
  "f2fs_try_to_free_nats locked nr_shrink nm =
     (if locked then (0, nm) else let (left_over, nm) = free_nats nr_shrink nm in (nr_shrink - left_over, nm))"

text \<open>The journal.\<close>

definition has_cursum_space :: "node_lay \<Rightarrow> f2fs_nm_info \<Rightarrow> nat \<Rightarrow> bool" where
  "has_cursum_space L nm n \<longleftrightarrow> n + length (nat_journal nm) \<le> NAT_JOURNAL_ENTRIES L"

fun journal_index :: "nat \<Rightarrow> (nat \<times> raw_nat) list \<Rightarrow> nat option" where
  "journal_index nid [] = None"
| "journal_index nid (x # xs) = (if fst x = nid then Some 0 else map_option Suc (journal_index nid xs))"

text \<open>The position of an entry; with \<open>alloc\<close> a new one is taken, whose contents the caller writes.\<close>

definition f2fs_lookup_journal_in_cursum :: "node_lay \<Rightarrow> nat \<Rightarrow> bool \<Rightarrow> f2fs_nm_info \<Rightarrow> nat option \<times> f2fs_nm_info" where
  "f2fs_lookup_journal_in_cursum L val alloc nm =
     (case journal_index val (nat_journal nm) of
        Some i \<Rightarrow> (Some i, nm)
      | None \<Rightarrow>
          (if alloc \<and> has_cursum_space L nm 1
           then (Some (length (nat_journal nm)), nm\<lparr>nat_journal := nat_journal nm @ [(0, \<lparr>raw_version = 0, raw_ino = 0, block_addr = 0\<rparr>)]\<rparr>)
           else (None, nm)))"

definition f2fs_get_node_info :: "node_lay \<Rightarrow> node_cond \<Rightarrow> nat \<Rightarrow> f2fs_nm_info \<Rightarrow> (nm_err + node_info) \<times> f2fs_nm_info" where
  "f2fs_get_node_info L c nid nm =
     (let (e, nm) = lookup_nat_cache nid nm
      in case e of
           Some e \<Rightarrow> (Inr \<lparr>ni_nid = nid, ni_ino = ni_ino (ni e), blk_addr = blk_addr (ni e), version = version (ni e)\<rparr>, nm)
         | None \<Rightarrow>
             (case (case fst (f2fs_lookup_journal_in_cursum L nid False nm) of
                      Some i \<Rightarrow> Inr (snd (nat_journal nm ! i))
                    | None \<Rightarrow> (case f2fs_get_meta_page c (current_nat_addr L nm nid) nm of
                                 Inl e \<Rightarrow> Inl e
                               | Inr page \<Rightarrow> Inr (page (nid - START_NID L nid)))) of
                Inl e \<Rightarrow> (Inl e, nm)
              | Inr ne \<Rightarrow>
                  (if is_valid_data_blkaddr (nm_sbi L) (block_addr ne) \<and> \<not> blkaddr_ok c (block_addr ne) then (Inl EFAULT, nm)
                   else (Inr (node_info_from_raw_nat ne \<lparr>ni_nid = nid, ni_ino = 0, blk_addr = 0, version = 0\<rparr>), cache_nat_entry L c nid ne nm))))"

end
