(* ===== verification/Free_Nids.thy ===== *)
theory Free_Nids
  imports Nat_Cache
begin

text \<open>
  Free node ids (\<open>node.c\<close>): the tree and the list of ids that can be handed out, the bitmaps that
  remember which ids of a scanned NAT block are free, allocation, and writing the dirty entries
  of the table at a checkpoint, which frees the ids of removed nodes.
\<close>

definition FREE_NID_PAGES :: nat where "FREE_NID_PAGES = 8"

definition MAX_FREE_NIDS :: "node_lay \<Rightarrow> nat" where
  "MAX_FREE_NIDS L = NAT_ENTRY_PER_BLOCK L * FREE_NID_PAGES"

section \<open>The tree and the list\<close>

definition nid_cnt_add :: "nid_state \<Rightarrow> int \<Rightarrow> f2fs_nm_info \<Rightarrow> f2fs_nm_info" where
  "nid_cnt_add s d nm = nm\<lparr>nid_cnt := (nid_cnt nm)(s := addu 32 (nid_cnt nm s) d)\<rparr>"

definition lookup_free_nid_list :: "f2fs_nm_info \<Rightarrow> nat \<Rightarrow> nid_state option" where
  "lookup_free_nid_list nm n = free_nid_root nm n"

text \<open>Whether the id was inserted; the tree refuses an id that it holds.\<close>

definition insert_free_nid :: "nat \<Rightarrow> f2fs_nm_info \<Rightarrow> bool \<times> f2fs_nm_info" where
  "insert_free_nid nid nm =
     (case free_nid_root nm nid of
        Some _ \<Rightarrow> (False, nm)
      | None \<Rightarrow>
          (let nm = nm\<lparr>free_nid_root := (free_nid_root nm)(nid := Some FREE_NID)\<rparr>; nm = nid_cnt_add FREE_NID 1 nm
           in (True, nm\<lparr>free_nid_list := free_nid_list nm @ [nid]\<rparr>)))"

text \<open>\<open>__remove_free_nid\<close> and \<open>__move_free_nid\<close>, for an id that the tree holds.\<close>

definition drop_free_nid :: "nat \<Rightarrow> nid_state \<Rightarrow> f2fs_nm_info \<Rightarrow> f2fs_nm_info" where
  "drop_free_nid nid st nm =
     (let nm = nm_bug_on (free_nid_root nm nid \<noteq> Some st) nm; nm = nid_cnt_add st (- 1) nm;
          nm = (if st = FREE_NID then nm\<lparr>free_nid_list := remove1 nid (free_nid_list nm)\<rparr> else nm)
      in nm\<lparr>free_nid_root := (free_nid_root nm)(nid := None)\<rparr>)"

definition move_free_nid :: "nat \<Rightarrow> nid_state \<Rightarrow> nid_state \<Rightarrow> f2fs_nm_info \<Rightarrow> f2fs_nm_info" where
  "move_free_nid nid org_state dst_state nm =
     (let nm = nm_bug_on (free_nid_root nm nid \<noteq> Some org_state) nm;
          nm = nm\<lparr>free_nid_root := (free_nid_root nm)(nid := Some dst_state)\<rparr>;
          nm = nid_cnt_add dst_state 1 (nid_cnt_add org_state (- 1) nm)
      in case dst_state of
           PREALLOC_NID \<Rightarrow> nm\<lparr>free_nid_list := remove1 nid (free_nid_list nm)\<rparr>
         | FREE_NID \<Rightarrow> nm\<lparr>free_nid_list := free_nid_list nm @ [nid]\<rparr>)"

definition update_free_nid_bitmap :: "node_lay \<Rightarrow> nat \<Rightarrow> bool \<Rightarrow> bool \<Rightarrow> f2fs_nm_info \<Rightarrow> f2fs_nm_info" where
  "update_free_nid_bitmap L nid set_it build nm =
     (let nat_ofs = NAT_BLOCK_OFFSET L nid; nid_ofs = nid - START_NID L nid
      in if \<not> nat_block_bitmap nm nat_ofs then nm
         else if free_nid_bitmap nm nat_ofs nid_ofs = set_it then nm
         else
           (let nm = nm\<lparr>free_nid_bitmap := (free_nid_bitmap nm)(nat_ofs := (free_nid_bitmap nm nat_ofs)(nid_ofs := set_it))\<rparr>
            in if set_it then nm\<lparr>free_nid_count := (free_nid_count nm)(nat_ofs := addu 16 (free_nid_count nm nat_ofs) 1)\<rparr>
               else if \<not> build then nm\<lparr>free_nid_count := (free_nid_count nm)(nat_ofs := addu 16 (free_nid_count nm nat_ofs) (- 1))\<rparr>
               else nm))"

text \<open>\<open>add_free_nid\<close>: whether the id is free.\<close>

definition add_free_nid :: "node_lay \<Rightarrow> nat \<Rightarrow> bool \<Rightarrow> bool \<Rightarrow> f2fs_nm_info \<Rightarrow> bool \<times> f2fs_nm_info" where
  "add_free_nid L nid build update nm =
     (if nid = 0 \<or> f2fs_check_nid_range L nm nid then (False, nm)
      else
        (let (ret, nm) =
           (if build then
              (let (ne, nm) = lookup_nat_cache nid nm
               in case ne of
                    Some e \<Rightarrow>
                      (if \<not> get_nat_flag e IS_CHECKPOINTED \<or> blk_addr (ni e) \<noteq> NULL_ADDR (nm_sbi L) then (False, nm)
                       else case lookup_free_nid_list nm nid of
                              Some st \<Rightarrow> (st = FREE_NID, nm)
                            | None \<Rightarrow> (True, snd (insert_free_nid nid nm)))
                  | None \<Rightarrow>
                      (case lookup_free_nid_list nm nid of
                         Some st \<Rightarrow> (st = FREE_NID, nm)
                       | None \<Rightarrow> (True, snd (insert_free_nid nid nm))))
            else (True, snd (insert_free_nid nid nm)))
         in (ret, if update
                  then (let nm = update_free_nid_bitmap L nid ret build nm
                        in if \<not> build then nm\<lparr>available_nids := addu 32 (available_nids nm) 1\<rparr> else nm)
                  else nm)))"

definition remove_free_nid :: "nat \<Rightarrow> f2fs_nm_info \<Rightarrow> f2fs_nm_info" where
  "remove_free_nid nid nm = (if lookup_free_nid_list nm nid = Some FREE_NID then drop_free_nid nid FREE_NID nm else nm)"

section \<open>Collecting free ids\<close>

text \<open>One entry of a NAT block, and the block from \<open>start_nid\<close> on.\<close>

fun scan_nat_entries :: "node_lay \<Rightarrow> (nat \<Rightarrow> raw_nat) \<Rightarrow> nat list \<Rightarrow> nat \<Rightarrow> f2fs_nm_info \<Rightarrow> nm_err option \<times> f2fs_nm_info" where
  "scan_nat_entries L blk [] start_nid nm = (None, nm)"
| "scan_nat_entries L blk (i # js) start_nid nm =
     (if start_nid \<ge> max_nid nm then (None, nm)
      else if block_addr (blk i) = NEW_ADDR (nm_sbi L) then (Some EINVAL, nm)
      else scan_nat_entries L blk js (start_nid + 1)
             (if block_addr (blk i) = NULL_ADDR (nm_sbi L) then snd (add_free_nid L start_nid True True nm)
              else update_free_nid_bitmap L start_nid False True nm))"

definition scan_nat_page :: "node_lay \<Rightarrow> (nat \<Rightarrow> raw_nat) \<Rightarrow> nat \<Rightarrow> f2fs_nm_info \<Rightarrow> nm_err option \<times> f2fs_nm_info" where
  "scan_nat_page L blk start_nid nm =
     scan_nat_entries L blk [start_nid mod NAT_ENTRY_PER_BLOCK L..<NAT_ENTRY_PER_BLOCK L] start_nid
       (nm\<lparr>nat_block_bitmap := (nat_block_bitmap nm)(NAT_BLOCK_OFFSET L start_nid := True)\<rparr>)"

definition scan_curseg_cache :: "node_lay \<Rightarrow> f2fs_nm_info \<Rightarrow> f2fs_nm_info" where
  "scan_curseg_cache L nm =
     fold (\<lambda>(nid, r) nm. if block_addr r = NULL_ADDR (nm_sbi L) then snd (add_free_nid L nid True False nm) else remove_free_nid nid nm)
       (nat_journal nm) nm"

text \<open>The free ids of one block by its bitmap; true when there are enough of them.\<close>

fun scan_block_bits :: "node_lay \<Rightarrow> nat \<Rightarrow> nat list \<Rightarrow> f2fs_nm_info \<Rightarrow> bool \<times> f2fs_nm_info" where
  "scan_block_bits L i [] nm = (False, nm)"
| "scan_block_bits L i (idx # js) nm =
     (if \<not> free_nid_bitmap nm i idx then scan_block_bits L i js nm
      else
        (let nm = snd (add_free_nid L (i * NAT_ENTRY_PER_BLOCK L + idx) True False nm)
         in if nid_cnt nm FREE_NID \<ge> MAX_FREE_NIDS L then (True, nm) else scan_block_bits L i js nm))"

fun scan_blocks :: "node_lay \<Rightarrow> nat list \<Rightarrow> f2fs_nm_info \<Rightarrow> f2fs_nm_info" where
  "scan_blocks L [] nm = nm"
| "scan_blocks L (i # js) nm =
     (if \<not> nat_block_bitmap nm i \<or> free_nid_count nm i = 0 then scan_blocks L js nm
      else let (enough, nm) = scan_block_bits L i [0..<NAT_ENTRY_PER_BLOCK L] nm in if enough then nm else scan_blocks L js nm)"

definition scan_free_nid_bits :: "node_lay \<Rightarrow> f2fs_nm_info \<Rightarrow> f2fs_nm_info" where
  "scan_free_nid_bits L nm = scan_curseg_cache L (scan_blocks L [0..<nat_blocks nm] nm)"

text \<open>Up to \<open>n\<close> NAT blocks from the one of \<open>nid\<close> on; the id to go on with, or the error.\<close>

fun scan_nat_pages :: "node_lay \<Rightarrow> node_cond \<Rightarrow> nat \<Rightarrow> nat \<Rightarrow> f2fs_nm_info \<Rightarrow> (nm_err + nat) \<times> f2fs_nm_info" where
  "scan_nat_pages L c 0 nid nm = (Inr nid, nm)"
| "scan_nat_pages L c (Suc n) nid nm =
     (let (err, nm) =
        (if nat_block_bitmap nm (NAT_BLOCK_OFFSET L nid) then (None, nm)
         else case get_current_nat_page L c nid nm of (Inl e, nm) \<Rightarrow> (Some e, nm) | (Inr page, nm) \<Rightarrow> scan_nat_page L page nid nm)
      in case err of
           Some e \<Rightarrow> (Inl e, nm)
         | None \<Rightarrow>
             (let nid' = u32 (nid + (NAT_ENTRY_PER_BLOCK L - nid mod NAT_ENTRY_PER_BLOCK L))
              in scan_nat_pages L c n (if nid' \<ge> max_nid nm then 0 else nid') nm))"

text \<open>\<open>f2fs_available_free_memory\<close> for \<open>FREE_NIDS\<close>.\<close>

definition free_nids_memory :: "node_lay \<Rightarrow> node_cond \<Rightarrow> f2fs_nm_info \<Rightarrow> bool" where
  "free_nids_memory L c nm \<longleftrightarrow>
     nid_cnt nm FREE_NID * sizeof_free_nid L div 2 ^ page_shift (nm_sbi L) < avail_ram c * ram_thresh nm div 100 div 4"

definition f2fs_build_free_nids :: "node_lay \<Rightarrow> node_cond \<Rightarrow> bool \<Rightarrow> bool \<Rightarrow> f2fs_nm_info \<Rightarrow> nm_err option \<times> f2fs_nm_info" where
  "f2fs_build_free_nids L c sync mount nm =
     (let nid = next_scan_nid nm; nid = (if nid \<ge> max_nid nm then 0 else nid);
          nid = (if nid mod NAT_ENTRY_PER_BLOCK L \<noteq> 0 then NAT_BLOCK_OFFSET L nid * NAT_ENTRY_PER_BLOCK L else nid)
      in if nid_cnt nm FREE_NID \<ge> NAT_ENTRY_PER_BLOCK L then (None, nm)
         else if \<not> sync \<and> \<not> free_nids_memory L c nm then (None, nm)
         else
           (let nm = (if mount then nm else scan_free_nid_bits L nm)
            in if \<not> mount \<and> nid_cnt nm FREE_NID \<ge> NAT_ENTRY_PER_BLOCK L then (None, nm)
               else
                 (case scan_nat_pages L c FREE_NID_PAGES nid nm of
                    (Inl e, nm) \<Rightarrow> (Some e, nm)
                  | (Inr nid, nm) \<Rightarrow> (None, scan_curseg_cache L (nm\<lparr>next_scan_nid := nid\<rparr>)))))"

section \<open>Handing out ids\<close>

text \<open>
  \<open>f2fs_alloc_nid\<close>; the list is not used while ids are being collected. The retry loop takes fuel:
  no result when it runs out, else the id or failure. Each round finds its own conditions.
\<close>

fun f2fs_alloc_nid :: "node_lay \<Rightarrow> node_cond list \<Rightarrow> f2fs_nm_info \<Rightarrow> nat option option \<times> f2fs_nm_info" where
  "f2fs_alloc_nid L [] nm = (None, nm)"
| "f2fs_alloc_nid L (c # cs) nm =
     (if inject_alloc_nid c \<or> available_nids nm = 0 then (Some None, nm)
      else if nid_cnt nm FREE_NID \<noteq> 0 \<and> \<not> on_f2fs_build_free_nids c then
        (case free_nid_list nm of
           [] \<Rightarrow> (Some None, nm_bug_on True nm)
         | nid # _ \<Rightarrow>
             (let nm = move_free_nid nid FREE_NID PREALLOC_NID nm; nm = nm\<lparr>available_nids := addu 32 (available_nids nm) (- 1)\<rparr>
              in (Some (Some nid), update_free_nid_bitmap L nid False False nm)))
      else
        (case f2fs_build_free_nids L c True False nm of
           (Some _, nm) \<Rightarrow> (Some None, nm)
         | (None, nm) \<Rightarrow> f2fs_alloc_nid L cs nm))"

definition f2fs_alloc_nid_done :: "nat \<Rightarrow> f2fs_nm_info \<Rightarrow> f2fs_nm_info" where
  "f2fs_alloc_nid_done nid nm = drop_free_nid nid PREALLOC_NID (nm_bug_on (lookup_free_nid_list nm nid = None) nm)"

definition f2fs_alloc_nid_failed :: "node_lay \<Rightarrow> node_cond \<Rightarrow> nat \<Rightarrow> f2fs_nm_info \<Rightarrow> f2fs_nm_info" where
  "f2fs_alloc_nid_failed L c nid nm =
     (if nid = 0 then nm
      else
        (let nm = nm_bug_on (lookup_free_nid_list nm nid = None) nm;
             nm = (if \<not> free_nids_memory L c nm then drop_free_nid nid PREALLOC_NID nm else move_free_nid nid PREALLOC_NID FREE_NID nm);
             nm = nm\<lparr>available_nids := addu 32 (available_nids nm) 1\<rparr>
         in update_free_nid_bitmap L nid True False nm))"

text \<open>
  Shrinking the list from its head. The batches of 8 between which the lock is dropped make no
  difference to one caller.
\<close>

fun free_nids_loop :: "node_lay \<Rightarrow> nat \<Rightarrow> f2fs_nm_info \<Rightarrow> nat \<times> f2fs_nm_info" where
  "free_nids_loop L 0 nm = (0, nm)"
| "free_nids_loop L (Suc n) nm =
     (if nid_cnt nm FREE_NID \<le> MAX_FREE_NIDS L then (Suc n, nm)
      else case free_nid_list nm of
             [] \<Rightarrow> (Suc n, nm)
           | nid # _ \<Rightarrow> free_nids_loop L n (drop_free_nid nid FREE_NID nm))"

definition f2fs_try_to_free_nids :: "node_lay \<Rightarrow> node_cond \<Rightarrow> nat \<Rightarrow> f2fs_nm_info \<Rightarrow> nat \<times> f2fs_nm_info" where
  "f2fs_try_to_free_nids L c nr_shrink nm =
     (if nid_cnt nm FREE_NID \<le> MAX_FREE_NIDS L \<or> on_f2fs_build_free_nids c then (0, nm)
      else let (left_over, nm) = free_nids_loop L nr_shrink nm in (nr_shrink - left_over, nm))"

section \<open>Writing the table\<close>

definition remove_nat_in_journal :: "node_lay \<Rightarrow> nat \<times> raw_nat \<Rightarrow> f2fs_nm_info \<Rightarrow> f2fs_nm_info" where
  "remove_nat_in_journal L x nm =
     (let (nid, raw_ne) = x
      in if f2fs_check_nid_range L nm nid then nm
         else
           (let (found, nm) = lookup_nat_cache nid nm;
                (ne, nm) = (case found of None \<Rightarrow> init_nat_entry (alloc_nat_entry nid) (Some raw_ne) nm | Some e \<Rightarrow> (e, nm));
                nm = (if \<not> get_nat_flag ne IS_DIRTY \<and> block_addr raw_ne = NULL_ADDR (nm_sbi L)
                      then nm\<lparr>available_nids := addu 32 (available_nids nm) (- 1)\<rparr> else nm)
            in set_nat_cache_dirty L ne nm))"

definition remove_nats_in_journal :: "node_lay \<Rightarrow> f2fs_nm_info \<Rightarrow> f2fs_nm_info" where
  "remove_nats_in_journal L nm = (fold (remove_nat_in_journal L) (nat_journal nm) nm)\<lparr>nat_journal := []\<rparr>"

text \<open>The list of sets: behind all others when the entries do not fit into the journal, else by size.\<close>

fun insert_nat_set :: "f2fs_nm_info \<Rightarrow> nat \<Rightarrow> nat list \<Rightarrow> nat list" where
  "insert_nat_set nm s [] = [s]"
| "insert_nat_set nm s (x # xs) =
     (if (case nat_set_root nm x of Some h \<Rightarrow> entry_cnt h | None \<Rightarrow> 0) \<ge> (case nat_set_root nm s of Some h \<Rightarrow> entry_cnt h | None \<Rightarrow> 0)
      then s # x # xs else x # insert_nat_set nm s xs)"

definition adjust_nat_entry_set :: "node_lay \<Rightarrow> f2fs_nm_info \<Rightarrow> nat \<Rightarrow> nat list \<Rightarrow> nat list" where
  "adjust_nat_entry_set L nm s sets =
     (if (case nat_set_root nm s of Some h \<Rightarrow> entry_cnt h | None \<Rightarrow> 0) \<ge> NAT_JOURNAL_ENTRIES L - length (nat_journal nm)
      then sets @ [s] else insert_nat_set nm s sets)"

definition update_nat_bit :: "node_lay \<Rightarrow> nat \<Rightarrow> nat \<Rightarrow> f2fs_nm_info \<Rightarrow> f2fs_nm_info" where
  "update_nat_bit L nat_ofs valid nm =
     nm\<lparr>empty_nat_bits := (empty_nat_bits nm)(nat_ofs := (valid = 0)),
        full_nat_bits := (full_nat_bits nm)(nat_ofs := (valid \<noteq> 0 \<and> valid = NAT_ENTRY_PER_BLOCK L))\<rparr>"

definition update_nat_bits :: "node_lay \<Rightarrow> node_cond \<Rightarrow> nat \<Rightarrow> (nat \<Rightarrow> raw_nat) \<Rightarrow> f2fs_nm_info \<Rightarrow> f2fs_nm_info" where
  "update_nat_bits L c start_nid blk nm =
     (let nat_index = start_nid div NAT_ENTRY_PER_BLOCK L; i = (if nat_index = 0 then 1 else 0);
          valid = i + length (filter (\<lambda>i. block_addr (blk i) \<noteq> NULL_ADDR (nm_sbi L)) [i..<NAT_ENTRY_PER_BLOCK L])
      in if \<not> cp_nat_bits_flag c then nm else update_nat_bit L nat_index valid nm)"

text \<open>One entry of a set: into the journal, or into the NAT block at \<open>page\<close>.\<close>

definition write_nat :: "node_lay \<Rightarrow> nat option \<Rightarrow> nat \<Rightarrow> nat_entry \<Rightarrow> f2fs_nm_info \<Rightarrow> f2fs_nm_info" where
  "write_nat L page start_nid ne nm =
     (let nid = ni_nid (ni ne); raw = raw_nat_from_node_info (ni ne)
      in case page of
           None \<Rightarrow>
             (case f2fs_lookup_journal_in_cursum L nid True nm of
                (None, nm) \<Rightarrow> nm_bug_on True nm
              | (Some offset, nm) \<Rightarrow> nm\<lparr>nat_journal := (nat_journal nm)[offset := (nid, raw)]\<rparr>)
         | Some a \<Rightarrow> nm\<lparr>nat_meta := (nat_meta nm)(a := (nat_meta nm a)(nid - start_nid := raw))\<rparr>)"

definition flush_nat_entry :: "node_lay \<Rightarrow> nat option \<Rightarrow> nat \<Rightarrow> nat \<Rightarrow> f2fs_nm_info \<Rightarrow> f2fs_nm_info" where
  "flush_nat_entry L page s nid nm =
     (case nat_root nm nid of
        None \<Rightarrow> nm
      | Some ne \<Rightarrow>
          (let nm = nm_bug_on (blk_addr (ni ne) = NEW_ADDR (nm_sbi L)) nm;
               nm = write_nat L page (s * NAT_ENTRY_PER_BLOCK L) ne nm;
               nm = clear_nat_cache_dirty L s (nat_reset_flag ne) nm
           in if blk_addr (ni ne) = NULL_ADDR (nm_sbi L) then snd (add_free_nid L nid False True nm)
              else update_free_nid_bitmap L nid False False nm))"

text \<open>\<open>umount\<close> is \<open>CP_UMOUNT\<close>.\<close>

definition flush_nat_entry_set :: "node_lay \<Rightarrow> node_cond \<Rightarrow> bool \<Rightarrow> nat \<Rightarrow> f2fs_nm_info \<Rightarrow> nm_err option \<times> f2fs_nm_info" where
  "flush_nat_entry_set L c umount s nm =
     (case nat_set_root nm s of
        None \<Rightarrow> (None, nm)
      | Some h \<Rightarrow>
          (let start_nid = s * NAT_ENTRY_PER_BLOCK L; to_journal = (\<not> umount \<and> has_cursum_space L nm (entry_cnt h))
           in case (if to_journal then (Inr None, nm)
                    else case get_next_nat_page L c start_nid nm of (Inl e, nm) \<Rightarrow> (Inl e, nm) | (Inr a, nm) \<Rightarrow> (Inr (Some a), nm)) of
                (Inl e, nm) \<Rightarrow> (Some e, nm)
              | (Inr page, nm) \<Rightarrow>
                  (let nm = fold (flush_nat_entry L page s) (nes_entry_list h) nm;
                       nm = (case page of None \<Rightarrow> nm | Some a \<Rightarrow> update_nat_bits L c start_nid (nat_meta nm a) nm)
                   in (None, case nat_set_root nm s of
                               Some h \<Rightarrow> (if entry_cnt h = 0 then nm\<lparr>nat_set_root := (nat_set_root nm)(s := None)\<rparr> else nm)
                             | None \<Rightarrow> nm))))"

fun flush_sets :: "node_lay \<Rightarrow> node_cond \<Rightarrow> bool \<Rightarrow> nat list \<Rightarrow> f2fs_nm_info \<Rightarrow> nm_err option \<times> f2fs_nm_info" where
  "flush_sets L c umount [] nm = (None, nm)"
| "flush_sets L c umount (s # ss) nm =
     (case flush_nat_entry_set L c umount s nm of (Some e, nm) \<Rightarrow> (Some e, nm) | (None, nm) \<Rightarrow> flush_sets L c umount ss nm)"

text \<open>The sets are found in the order of their numbers.\<close>

definition f2fs_flush_nat_entries :: "node_lay \<Rightarrow> node_cond \<Rightarrow> bool \<Rightarrow> f2fs_nm_info \<Rightarrow> nm_err option \<times> f2fs_nm_info" where
  "f2fs_flush_nat_entries L c umount nm =
     (let nm = (if umount then remove_nats_in_journal L nm else nm)
      in if nat_cnt nm DIRTY_NAT = 0 then (None, nm)
         else
           (let nm = (if umount \<or> \<not> has_cursum_space L nm (nat_cnt nm DIRTY_NAT) then remove_nats_in_journal L nm else nm);
                sets = fold (adjust_nat_entry_set L nm) (filter (\<lambda>s. nat_set_root nm s \<noteq> None) [0..<nat_blocks nm]) []
            in flush_sets L c umount sets nm))"

end
