(* ===== verification/Nat_Inv.thy ===== *)
theory Nat_Inv
  imports Free_Nids "HOL-Library.Multiset"
begin

unbundle bit_operations_syntax

text \<open>
  What the table holds for a node id, whether it is cached or not, and the invariant of the cache:
  clean entries agree with the journal and the disk, the lists hold exactly the clean and the
  dirty entries, the counters count. Every operation of \<open>Nat_Cache\<close> keeps it and changes the
  table only where it means to.
\<close>

section \<open>The two copies of a block\<close>

text \<open>What a mounted volume guarantees.\<close>

definition lay_ok :: "node_lay \<Rightarrow> f2fs_nm_info \<Rightarrow> bool" where
  "lay_ok L nm \<longleftrightarrow> blocks_per_seg (nm_sbi L) = 2 ^ log_blocks_per_seg (nm_sbi L) \<and> 0 < NAT_ENTRY_PER_BLOCK L \<and> 0 < nat_blocks nm \<and>
     max_nid nm = NAT_ENTRY_PER_BLOCK L * nat_blocks nm \<and> max_nid nm + NAT_ENTRY_PER_BLOCK L < 2 ^ 32 \<and> 0 < F2FS_ROOT_INO L \<and>
     NULL_ADDR (nm_sbi L) \<noteq> NEW_ADDR (nm_sbi L)"

definition nat_slot :: "node_lay \<Rightarrow> f2fs_nm_info \<Rightarrow> nat \<Rightarrow> bool \<Rightarrow> nat" where
  "nat_slot L nm b v = (let n = 2 ^ log_blocks_per_seg (nm_sbi L) in nat_blkaddr nm + (2 * (b div n) + of_bool v) * n + b mod n)"

lemma current_nat_addr_slot:
  assumes "lay_ok L nm"
  shows "current_nat_addr L nm nid = nat_slot L nm (NAT_BLOCK_OFFSET L nid) (nat_bitmap nm (NAT_BLOCK_OFFSET L nid))"
proof -
  define k b where "k = log_blocks_per_seg (nm_sbi L)" and "b = NAT_BLOCK_OFFSET L nid"
  have n: "blocks_per_seg (nm_sbi L) = 2 ^ k" using assms by (simp add: lay_ok_def k_def)
  have a: "b AND (2 ^ k - 1) = b mod 2 ^ k" by (metis mask_eq_exp_minus_1 take_bit_eq_mod take_bit_eq_mask)
  have "b = b div 2 ^ k * 2 ^ k + b mod 2 ^ k" by (rule div_mult_mod_eq[symmetric])
  then have "2 * b - b mod 2 ^ k = 2 * (b div 2 ^ k) * 2 ^ k + b mod 2 ^ k" by linarith
  moreover have "b mod 2 ^ k \<le> 2 * b" by (rule order_trans[OF mod_less_eq_dividend]) simp
  ultimately have c: "nat_blkaddr nm + 2 * b - b mod 2 ^ k = nat_blkaddr nm + 2 * (b div 2 ^ k) * 2 ^ k + b mod 2 ^ k" by linarith
  show ?thesis
    unfolding current_nat_addr_def nat_slot_def Let_def b_def[symmetric] n k_def[symmetric] a c
    by (cases "nat_bitmap nm b") (simp_all add: distrib_right)
qed

lemma nat_slot_inj:
  assumes "nat_slot L nm b v = nat_slot L nm b' v'"
  shows "b = b' \<and> v = v'"
proof -
  define n where "n = (2 ^ log_blocks_per_seg (nm_sbi L) :: nat)"
  have n: "0 < n" by (simp add: n_def)
  have e: "(2 * (b div n) + of_bool v) * n + b mod n = (2 * (b' div n) + of_bool v') * n + b' mod n"
    using assms by (simp add: nat_slot_def Let_def n_def)
  have "((2 * (b div n) + of_bool v) * n + b mod n) mod n = ((2 * (b' div n) + of_bool v') * n + b' mod n) mod n" using e by simp
  then have m: "b mod n = b' mod n" by simp
  then have d: "2 * (b div n) + of_bool v = 2 * (b' div n) + of_bool v'" using e n by simp
  then have "odd (2 * (b div n) + of_bool v) = odd (2 * (b' div n) + of_bool v')" by (rule arg_cong)
  then have "v = v'" by simp
  moreover from this d have "b div n = b' div n" by simp
  ultimately have "b div n = b' div n" "v = v'" by blast+
  then show ?thesis using m by (metis div_mult_mod_eq)
qed

lemma xor_slot: "((2 * (b div 2 ^ k) + of_bool v) * 2 ^ k + b mod 2 ^ k) XOR 2 ^ k = (2 * (b div 2 ^ k) + of_bool (\<not> v)) * 2 ^ k + b mod (2 ^ k :: nat)"
proof -
  define x where "x = 2 * (b div 2 ^ k) * 2 ^ k + b mod 2 ^ k"
  have "x div 2 ^ k = 2 * (b div 2 ^ k)" by (simp add: x_def)
  then have v: "\<not> bit x k" by (simp add: bit_iff_odd)
  have "x XOR 2 ^ k = flip_bit k x" by (simp add: flip_bit_eq_xor push_bit_eq_mult)
  also have "\<dots> = x + 2 ^ k" using v by (simp add: flip_bit_eq_if set_bit_eq)
  finally have u: "x XOR 2 ^ k = x + 2 ^ k" .
  then have d: "(x + 2 ^ k) XOR 2 ^ k = x" by (metis xor.assoc xor.right_neutral xor_self_eq)
  have e: "(2 * (b div 2 ^ k) + of_bool False) * 2 ^ k + b mod 2 ^ k = x" "(2 * (b div 2 ^ k) + of_bool True) * 2 ^ k + b mod 2 ^ k = x + 2 ^ k"
    by (simp_all add: x_def algebra_simps)
  show ?thesis by (cases v) (simp_all only: e u d not_True_eq_False not_False_eq_True)
qed

lemma next_nat_addr_slot: "next_nat_addr L nm (nat_slot L nm b v) = nat_slot L nm b (\<not> v)"
  using xor_slot[of b "log_blocks_per_seg (nm_sbi L)" v] by (simp add: next_nat_addr_def nat_slot_def Let_def del: of_bool_eq_iff)


section \<open>What the table holds\<close>

definition valid_nid :: "node_lay \<Rightarrow> f2fs_nm_info \<Rightarrow> nat \<Rightarrow> bool" where
  "valid_nid L nm n \<longleftrightarrow> F2FS_ROOT_INO L \<le> n \<and> n < max_nid nm"

lemma check_nid_range [simp]: "f2fs_check_nid_range L nm n \<longleftrightarrow> \<not> valid_nid L nm n"
  by (auto simp: f2fs_check_nid_range_def valid_nid_def)

definition disk_nat :: "node_lay \<Rightarrow> f2fs_nm_info \<Rightarrow> nat \<Rightarrow> raw_nat" where
  "disk_nat L nm n = nat_meta nm (current_nat_addr L nm n) (n - START_NID L n)"

definition saved_nat :: "node_lay \<Rightarrow> f2fs_nm_info \<Rightarrow> nat \<Rightarrow> raw_nat" where
  "saved_nat L nm n = (case map_of (nat_journal nm) n of Some r \<Rightarrow> r | None \<Rightarrow> disk_nat L nm n)"

definition nat_of :: "node_lay \<Rightarrow> f2fs_nm_info \<Rightarrow> nat \<Rightarrow> raw_nat" where
  "nat_of L nm n = (case nat_root nm n of Some e \<Rightarrow> raw_nat_from_node_info (ni e) | None \<Rightarrow> saved_nat L nm n)"

abbreviation dirty :: "nat_entry \<Rightarrow> bool" where "dirty e \<equiv> nat_flags e IS_DIRTY"
abbreviation prealloc :: "nat_entry \<Rightarrow> bool" where "prealloc e \<equiv> nat_flags e IS_PREALLOC"

definition nid_dirty :: "f2fs_nm_info \<Rightarrow> nat \<Rightarrow> bool" where
  "nid_dirty nm n \<longleftrightarrow> (\<exists>e. nat_root nm n = Some e \<and> dirty e)"

definition elist :: "f2fs_nm_info \<Rightarrow> nat \<Rightarrow> nat list" where
  "elist nm s = (case nat_set_root nm s of None \<Rightarrow> [] | Some h \<Rightarrow> nes_entry_list h)"

definition ecnt :: "f2fs_nm_info \<Rightarrow> nat \<Rightarrow> nat" where
  "ecnt nm s = (case nat_set_root nm s of None \<Rightarrow> 0 | Some h \<Rightarrow> entry_cnt h)"

lemma flag_simps [simp]:
  "nat_flags (set_nat_flag t b e) = (nat_flags e)(t := b)" "ni (set_nat_flag t b e) = ni e" "get_nat_flag e t = nat_flags e t"
  "ni (nat_reset_flag e) = ni e" "nat_flags (nat_reset_flag e) IS_DIRTY = nat_flags e IS_DIRTY"
  "nat_flags (nat_reset_flag e) IS_PREALLOC = nat_flags e IS_PREALLOC" "nat_flags (nat_reset_flag e) IS_CHECKPOINTED"
  by (simp_all add: set_nat_flag_def get_nat_flag_def nat_reset_flag_def)

lemma raw_info [simp]:
  "raw_nat_from_node_info (node_info_from_raw_nat r i) = r" "ni_nid (node_info_from_raw_nat r i) = ni_nid i"
  "block_addr (raw_nat_from_node_info i) = blk_addr i"
  by (simp_all add: raw_nat_from_node_info_def node_info_from_raw_nat_def)

lemma alloc_nat_entry_simps [simp]:
  "ni_nid (ni (alloc_nat_entry n)) = n" "\<not> nat_flags (alloc_nat_entry n) IS_DIRTY" "\<not> nat_flags (alloc_nat_entry n) IS_PREALLOC"
  "nat_flags (alloc_nat_entry n) IS_CHECKPOINTED"
  by (simp_all add: alloc_nat_entry_def)

section \<open>The operations as updates\<close>

definition touch :: "f2fs_nm_info \<Rightarrow> nat \<Rightarrow> nat list" where
  "touch nm n = (case nat_root nm n of
     Some e \<Rightarrow> (if \<not> dirty e \<and> n \<in> set (nat_entries nm) then remove1 n (nat_entries nm) @ [n] else nat_entries nm) | None \<Rightarrow> nat_entries nm)"

lemma mset_touch [simp]: "mset (touch nm n) = mset (nat_entries nm)"
  by (simp add: touch_def split: option.split)

lemma lookup_eq [simp]: "lookup_nat_cache n nm = (nat_root nm n, nm\<lparr>nat_entries := touch nm n\<rparr>)"
  by (simp add: lookup_nat_cache_def touch_def split: option.split)

text \<open>Two states with the same table; the order of the clean entries may differ.\<close>

definition same_table :: "f2fs_nm_info \<Rightarrow> f2fs_nm_info \<Rightarrow> bool" where
  "same_table nm nm' \<longleftrightarrow> nat_root nm' = nat_root nm \<and> nat_set_root nm' = nat_set_root nm \<and> mset (nat_entries nm') = mset (nat_entries nm) \<and>
     nat_cnt nm' = nat_cnt nm \<and> nat_journal nm' = nat_journal nm \<and> nat_meta nm' = nat_meta nm \<and> nat_bitmap nm' = nat_bitmap nm \<and>
     nat_blkaddr nm' = nat_blkaddr nm \<and> max_nid nm' = max_nid nm \<and> nat_blocks nm' = nat_blocks nm"

lemma same_table_refl [simp]: "same_table nm nm" by (simp add: same_table_def)

lemma same_table_trans: "same_table a b \<Longrightarrow> same_table b c \<Longrightarrow> same_table a c" by (simp add: same_table_def)

lemma same_table_touch [simp]: "same_table nm (nm\<lparr>nat_entries := touch nm n\<rparr>)" by (simp add: same_table_def)

text \<open>Two states with the same free ids.\<close>

definition same_ids :: "f2fs_nm_info \<Rightarrow> f2fs_nm_info \<Rightarrow> bool" where
  "same_ids nm nm' \<longleftrightarrow> free_nid_root nm' = free_nid_root nm \<and> free_nid_list nm' = free_nid_list nm \<and> nid_cnt nm' = nid_cnt nm \<and>
     free_nid_bitmap nm' = free_nid_bitmap nm \<and> nat_block_bitmap nm' = nat_block_bitmap nm \<and> max_nid nm' = max_nid nm"

lemma same_ids_refl [simp]: "same_ids nm nm" by (simp add: same_ids_def)

lemma same_ids_trans: "same_ids a b \<Longrightarrow> same_ids b c \<Longrightarrow> same_ids a c" by (simp add: same_ids_def)

definition same_disk :: "f2fs_nm_info \<Rightarrow> f2fs_nm_info \<Rightarrow> bool" where
  "same_disk nm nm' \<longleftrightarrow> nat_journal nm' = nat_journal nm \<and> nat_meta nm' = nat_meta nm \<and> nat_bitmap nm' = nat_bitmap nm \<and>
     nat_blkaddr nm' = nat_blkaddr nm \<and> max_nid nm' = max_nid nm \<and> nat_blocks nm' = nat_blocks nm"

lemma same_disk_refl [simp]: "same_disk nm nm" by (simp add: same_disk_def)

lemma same_disk_trans: "same_disk a b \<Longrightarrow> same_disk b c \<Longrightarrow> same_disk a c" by (simp add: same_disk_def)

lemma same_table_disk: "same_table a b \<Longrightarrow> same_disk a b" by (simp add: same_table_def same_disk_def)

lemma same_disk_saved: "same_disk nm nm' \<Longrightarrow> saved_nat L nm' = saved_nat L nm"
  by (intro ext) (simp add: same_disk_def saved_nat_def disk_nat_def current_nat_addr_def Let_def split: option.split)

lemma same_disk_valid: "same_disk nm nm' \<Longrightarrow> valid_nid L nm' = valid_nid L nm"
  by (intro ext) (simp add: same_disk_def valid_nid_def)

lemma same_disk_lay: "same_disk nm nm' \<Longrightarrow> lay_ok L nm' = lay_ok L nm"
  by (simp add: same_disk_def lay_ok_def)

lemma same_table_views:
  assumes "same_table nm nm'"
  shows "nat_of L nm' = nat_of L nm" "nid_dirty nm' = nid_dirty nm" "elist nm' = elist nm" "ecnt nm' = ecnt nm"
    "saved_nat L nm' = saved_nat L nm" "valid_nid L nm' = valid_nid L nm" "lay_ok L nm' = lay_ok L nm"
  using assms same_disk_saved[OF same_table_disk[OF assms]] same_disk_valid[OF same_table_disk[OF assms]] same_disk_lay[OF same_table_disk[OF assms]]
  by (auto simp: same_table_def nat_of_def nid_dirty_def elist_def ecnt_def fun_eq_iff split: option.split)

text \<open>Marking an entry dirty.\<close>

definition dirtied :: "node_lay \<Rightarrow> nat_entry \<Rightarrow> nat_entry" where
  "dirtied L e = set_nat_flag IS_DIRTY True (set_nat_flag IS_PREALLOC (blk_addr (ni e) = NEW_ADDR (nm_sbi L)) e)"

lemma put_dirty_eq: "dirty e \<Longrightarrow> set_nat_flag IS_PREALLOC b e = set_nat_flag IS_DIRTY True (set_nat_flag IS_PREALLOC b e)"
  by (simp add: set_nat_flag_def fun_upd_idem fun_upd_twist)

lemmas nat_ops_def = put_nat_def nat_cnt_add_def grab_nat_entry_set_def upd_nat_set_def unlink_nat_def nm_bug_on_def

lemma set_dirty_fields:
  assumes "ni_nid (ni e) = n"
  shows "nat_root (set_nat_cache_dirty L e nm) = (nat_root nm)(n \<mapsto> dirtied L e)"
    "nat_entries (set_nat_cache_dirty L e nm) = remove1 n (nat_entries nm)"
    "nat_cnt (set_nat_cache_dirty L e nm) = (if dirty e then nat_cnt nm
      else (nat_cnt nm)(DIRTY_NAT := addu 32 (nat_cnt nm DIRTY_NAT) 1, RECLAIMABLE_NAT := addu 32 (nat_cnt nm RECLAIMABLE_NAT) (- 1)))"
    "same_disk nm (set_nat_cache_dirty L e nm)" "same_ids nm (set_nat_cache_dirty L e nm)"
    "available_nids (set_nat_cache_dirty L e nm) = available_nids nm" "nm_bug (set_nat_cache_dirty L e nm) = nm_bug nm"
  using assms by (auto simp: set_nat_cache_dirty_def Let_def nat_ops_def dirtied_def same_disk_def same_ids_def put_dirty_eq[symmetric] split: option.split)

lemma set_dirty_sets:
  assumes "ni_nid (ni e) = n"
  shows "elist (set_nat_cache_dirty L e nm) s = (if s = NAT_BLOCK_OFFSET L n
      then remove1 n (elist nm s) @ (if blk_addr (ni e) = NEW_ADDR (nm_sbi L) then [] else [n]) else elist nm s)"
    "ecnt (set_nat_cache_dirty L e nm) s = (if s = NAT_BLOCK_OFFSET L n \<and> blk_addr (ni e) \<noteq> NEW_ADDR (nm_sbi L) \<and> (prealloc e \<or> \<not> dirty e)
      then u32 (ecnt nm s + 1) else ecnt nm s)"
  using assms by (auto simp: set_nat_cache_dirty_def Let_def nat_ops_def elist_def ecnt_def split: option.split)


section \<open>The invariant of the cache\<close>

text \<open>An entry agrees with what is saved unless it is dirty.\<close>

definition coherent :: "node_lay \<Rightarrow> f2fs_nm_info \<Rightarrow> nat \<Rightarrow> nat_entry \<Rightarrow> bool" where
  "coherent L nm n e \<longleftrightarrow> (prealloc e \<longleftrightarrow> blk_addr (ni e) = NEW_ADDR (nm_sbi L)) \<and> (dirty e \<or> raw_nat_from_node_info (ni e) = saved_nat L nm n)"

text \<open>The entries, except for those of \<open>X\<close> that an operation is changing.\<close>

definition entries_ok :: "node_lay \<Rightarrow> nat set \<Rightarrow> f2fs_nm_info \<Rightarrow> bool" where
  "entries_ok L X nm \<longleftrightarrow> (\<forall>n e. nat_root nm n = Some e \<longrightarrow>
     ni_nid (ni e) = n \<and> valid_nid L nm n \<and> (prealloc e \<longrightarrow> dirty e) \<and> (n \<notin> X \<longrightarrow> coherent L nm n e))"

definition nat_lists_ok :: "node_lay \<Rightarrow> f2fs_nm_info \<Rightarrow> bool" where
  "nat_lists_ok L nm \<longleftrightarrow>
     distinct (nat_entries nm) \<and> (\<forall>n. n \<in> set (nat_entries nm) \<longleftrightarrow> (\<exists>e. nat_root nm n = Some e \<and> \<not> dirty e)) \<and>
     (\<forall>s. distinct (elist nm s) \<and> ecnt nm s = length (elist nm s) \<and>
       (\<forall>n. n \<in> set (elist nm s) \<longleftrightarrow> NAT_BLOCK_OFFSET L n = s \<and> (\<exists>e. nat_root nm n = Some e \<and> dirty e \<and> \<not> prealloc e)))"

definition is_dirty :: "nat_entry option \<Rightarrow> bool" where
  "is_dirty x = (case x of None \<Rightarrow> False | Some e \<Rightarrow> dirty e)"

definition is_clean :: "nat_entry option \<Rightarrow> bool" where
  "is_clean x = (case x of None \<Rightarrow> False | Some e \<Rightarrow> \<not> dirty e)"

definition counts_ok :: "f2fs_nm_info \<Rightarrow> bool" where
  "counts_ok nm \<longleftrightarrow> nat_cnt nm DIRTY_NAT = count_idx is_dirty (nat_root nm) (max_nid nm) \<and>
     nat_cnt nm RECLAIMABLE_NAT = count_idx is_clean (nat_root nm) (max_nid nm) \<and>
     nat_cnt nm TOTAL_NAT = count_idx (\<lambda>x. x \<noteq> None) (nat_root nm) (max_nid nm)"

definition journal_ok :: "node_lay \<Rightarrow> f2fs_nm_info \<Rightarrow> bool" where
  "journal_ok L nm \<longleftrightarrow> length (nat_journal nm) \<le> NAT_JOURNAL_ENTRIES L \<and> distinct (map fst (nat_journal nm)) \<and>
     (\<forall>n \<in> fst ` set (nat_journal nm). valid_nid L nm n) \<and>
     (\<forall>n. valid_nid L nm n \<longrightarrow> block_addr (saved_nat L nm n) \<noteq> NEW_ADDR (nm_sbi L)) \<and>
     (\<forall>n < max_nid nm. block_addr (disk_nat L nm n) \<noteq> NEW_ADDR (nm_sbi L))"

definition nat_cache_ok :: "node_lay \<Rightarrow> nat set \<Rightarrow> f2fs_nm_info \<Rightarrow> bool" where
  "nat_cache_ok L X nm \<longleftrightarrow> lay_ok L nm \<and> entries_ok L X nm \<and> nat_lists_ok L nm \<and> counts_ok nm \<and> journal_ok L nm"

lemma cache_okD:
  assumes "nat_cache_ok L X nm"
  shows "lay_ok L nm" "entries_ok L X nm" "nat_lists_ok L nm" "counts_ok nm" "journal_ok L nm"
  using assms by (simp_all add: nat_cache_ok_def)

lemma same_disk_disk_nat: "same_disk nm nm' \<Longrightarrow> disk_nat L nm' n = disk_nat L nm n"
  by (simp add: same_disk_def disk_nat_def current_nat_addr_def Let_def)

lemma same_disk_journal: "same_disk nm nm' \<Longrightarrow> journal_ok L nm' = journal_ok L nm"
  using same_disk_saved[of nm nm'] same_disk_valid[of nm nm' L] same_disk_disk_nat[of nm nm' L] by (simp add: journal_ok_def same_disk_def)

lemma same_table_ok:
  assumes "same_table nm nm'"
  shows "nat_cache_ok L X nm' = nat_cache_ok L X nm"
proof -
  note V = same_table_views[OF assms]
  have f: "nat_root nm' = nat_root nm" "mset (nat_entries nm') = mset (nat_entries nm)" "nat_cnt nm' = nat_cnt nm" "max_nid nm' = max_nid nm"
    using assms by (simp_all add: same_table_def)
  have s: "set (nat_entries nm') = set (nat_entries nm)" "distinct (nat_entries nm') = distinct (nat_entries nm)"
    using f(2) by (metis set_mset_mset, metis distinct_count_atmost_1 mset_eq_setD f(2))
  show ?thesis using V f s same_disk_journal[OF same_table_disk[OF assms]]
    by (simp add: nat_cache_ok_def entries_ok_def nat_lists_ok_def counts_ok_def coherent_def)
qed

lemma entry_bound:
  assumes "entries_ok L X nm" "nat_root nm n = Some e"
  shows "n < max_nid nm" "ni_nid (ni e) = n" "valid_nid L nm n"
  using assms by (auto simp: entries_ok_def valid_nid_def)

lemma elist_bound:
  assumes "entries_ok L X nm" "nat_lists_ok L nm"
  shows "length (elist nm s) \<le> max_nid nm" "n \<notin> set (elist nm s) \<Longrightarrow> n < max_nid nm \<Longrightarrow> length (elist nm s) < max_nid nm"
proof -
  have d: "distinct (elist nm s)" and b: "set (elist nm s) \<subseteq> {..<max_nid nm}"
    using assms by (auto simp: nat_lists_ok_def dest: entry_bound(1))
  show "length (elist nm s) \<le> max_nid nm" using card_mono[OF _ b] distinct_card[OF d] by simp
  assume "n \<notin> set (elist nm s)" "n < max_nid nm"
  then have "insert n (set (elist nm s)) \<subseteq> {..<max_nid nm}" "card (insert n (set (elist nm s))) = Suc (length (elist nm s))"
    using b distinct_card[OF d] by auto
  then show "length (elist nm s) < max_nid nm" using card_mono[of "{..<max_nid nm}" "insert n (set (elist nm s))"] by simp
qed

text \<open>Counters after an entry has changed.\<close>

lemma count_change:
  assumes "n < m" "m < 2 ^ 32"
  shows "\<not> P (f n) \<Longrightarrow> P x \<Longrightarrow> addu 32 (count_idx P f m) 1 = count_idx P (f(n := x)) m"
    "P (f n) \<Longrightarrow> \<not> P x \<Longrightarrow> addu 32 (count_idx P f m) (- 1) = count_idx P (f(n := x)) m"
    "P (f n) = P x \<Longrightarrow> count_idx P (f(n := x)) m = count_idx P f m"
proof -
  have u: "count_idx P (f(n := x)) m + of_bool (P (f n)) = count_idx P f m + of_bool (P x)" by (rule count_idx_upd[OF assms(1)])
  have l: "count_idx P (f(n := x)) m < 2 ^ 32" "count_idx P f m < 2 ^ 32" using count_idx_le[of P _ m] assms(2) le_less_trans by blast+
  show "\<not> P (f n) \<Longrightarrow> P x \<Longrightarrow> addu 32 (count_idx P f m) 1 = count_idx P (f(n := x)) m" using u l by simp
  show "P (f n) \<Longrightarrow> \<not> P x \<Longrightarrow> addu 32 (count_idx P f m) (- 1) = count_idx P (f(n := x)) m" using u l by simp
  show "P (f n) = P x \<Longrightarrow> count_idx P (f(n := x)) m = count_idx P f m" using u by simp
qed


lemma dirtied_simps [simp]:
  "ni (dirtied L e) = ni e" "dirty (dirtied L e)" "prealloc (dirtied L e) = (blk_addr (ni e) = NEW_ADDR (nm_sbi L))"
  "nat_flags (dirtied L e) IS_CHECKPOINTED = nat_flags e IS_CHECKPOINTED"
  by (simp_all add: dirtied_def)

lemma cache_ok_weaken: "nat_cache_ok L {} nm \<Longrightarrow> nat_cache_ok L X nm"
  by (auto simp: nat_cache_ok_def entries_ok_def)

lemma set_dirty_entries:
  assumes "entries_ok L {n} nm" "nat_root nm n = Some e0" "ni_nid (ni e) = n"
  shows "entries_ok L {} (set_nat_cache_dirty L e nm)"
proof -
  note F = set_dirty_fields[OF assms(3), where L = L and nm = nm]
  have "valid_nid L nm n" by (rule entry_bound(3)[OF assms(1,2)])
  then show ?thesis using assms same_disk_saved[OF F(4)] same_disk_valid[OF F(4)] by (auto simp: entries_ok_def F(1) coherent_def)
qed

lemma set_dirty_lists:
  assumes ok: "nat_lists_ok L nm" "entries_ok L {n} nm" "lay_ok L nm" and e: "nat_root nm n = Some e0" "ni_nid (ni e) = n" "dirty e = dirty e0" "prealloc e = prealloc e0"
    and new: "blk_addr (ni e) = NEW_ADDR (nm_sbi L) \<Longrightarrow> \<not> dirty e0 \<or> prealloc e0"
  shows "nat_lists_ok L (set_nat_cache_dirty L e nm)"
proof -
  define nm' where "nm' = set_nat_cache_dirty L e nm"
  note F = set_dirty_fields[OF e(2), where L = L and nm = nm, folded nm'_def] and S = set_dirty_sets[OF e(2), of L nm, folded nm'_def]
  define t where "t = NAT_BLOCK_OFFSET L n"
  have o: "distinct (nat_entries nm)" "\<And>m. m \<in> set (nat_entries nm) \<longleftrightarrow> (\<exists>e. nat_root nm m = Some e \<and> \<not> dirty e)"
    "\<And>s. distinct (elist nm s)" "\<And>s. ecnt nm s = length (elist nm s)"
    "\<And>s m. m \<in> set (elist nm s) \<longleftrightarrow> NAT_BLOCK_OFFSET L m = s \<and> (\<exists>e. nat_root nm m = Some e \<and> dirty e \<and> \<not> prealloc e)"
    using ok(1) by (auto simp: nat_lists_ok_def)
  have c: "distinct (nat_entries nm')" "m \<in> set (nat_entries nm') \<longleftrightarrow> (\<exists>e. nat_root nm' m = Some e \<and> \<not> dirty e)" for m
    using o(1,2) by (auto simp: F(1,2))
  have inn: "n \<in> set (elist nm t) \<longleftrightarrow> dirty e \<and> \<not> prealloc e" using e by (auto simp: o(5) t_def)
  have bound: "n \<notin> set (elist nm t) \<Longrightarrow> length (elist nm t) + 1 < 2 ^ 32"
    using elist_bound(2)[OF ok(2,1), of n t] entry_bound(1)[OF ok(2) e(1)] ok(3) by (simp add: lay_ok_def)
  have d: "distinct (elist nm' s)" "ecnt nm' s = length (elist nm' s)"
    "m \<in> set (elist nm' s) \<longleftrightarrow> NAT_BLOCK_OFFSET L m = s \<and> (\<exists>e. nat_root nm' m = Some e \<and> dirty e \<and> \<not> prealloc e)" for s m
  proof -
    show "distinct (elist nm' s)" using o(3) by (simp add: S(1))
    show "m \<in> set (elist nm' s) \<longleftrightarrow> NAT_BLOCK_OFFSET L m = s \<and> (\<exists>e. nat_root nm' m = Some e \<and> dirty e \<and> \<not> prealloc e)"
      using o(3,5) by (auto simp: S(1) F(1))
    have "n \<in> set (elist nm t) \<Longrightarrow> 0 < length (elist nm t)" by (cases "elist nm t") auto
    then show "ecnt nm' s = length (elist nm' s)" using inn bound new e(3,4) o(4)[of s]
      by (auto simp: S t_def[symmetric] length_remove1 u32_id)
  qed
  show ?thesis unfolding nat_lists_ok_def nm'_def[symmetric] using c d by blast
qed

lemma set_dirty_counts:
  assumes "counts_ok nm" "nat_root nm n = Some e0" "ni_nid (ni e) = n" "dirty e = dirty e0" "n < max_nid nm" "max_nid nm < 2 ^ 32"
  shows "counts_ok (set_nat_cache_dirty L e nm)"
proof -
  note F = set_dirty_fields[OF assms(3), where L = L and nm = nm]
  have m: "max_nid (set_nat_cache_dirty L e nm) = max_nid nm" using F(4) by (simp add: same_disk_def)
  note C = count_change[OF assms(5,6), of _ "nat_root nm" "Some (dirtied L e)"]
  show ?thesis
  proof (cases "dirty e0")
    case True
    then show ?thesis using assms C(3)[of is_dirty] C(3)[of is_clean] C(3)[of "\<lambda>x. x \<noteq> None"]
      by (simp add: counts_ok_def F m is_dirty_def is_clean_def)
  next
    case False
    then show ?thesis using assms C(1)[of is_dirty] C(2)[of is_clean] C(3)[of "\<lambda>x. x \<noteq> None"]
      by (simp add: counts_ok_def F m is_dirty_def is_clean_def)
  qed
qed

lemma set_dirty_ok:
  assumes ok: "nat_cache_ok L {n} nm" and e: "nat_root nm n = Some e0" "ni_nid (ni e) = n" "dirty e = dirty e0" "prealloc e = prealloc e0"
    and new: "blk_addr (ni e) = NEW_ADDR (nm_sbi L) \<Longrightarrow> \<not> dirty e0 \<or> prealloc e0"
  shows "nat_cache_ok L {} (set_nat_cache_dirty L e nm)"
proof -
  note O = cache_okD[OF ok] and F = set_dirty_fields[OF e(2), where L = L and nm = nm]
  have b: "n < max_nid nm" "max_nid nm < 2 ^ 32" using entry_bound(1)[OF O(2) e(1)] O(1) by (simp_all add: lay_ok_def)
  show ?thesis unfolding nat_cache_ok_def
    using set_dirty_entries[OF O(2) e(1,2)] set_dirty_lists[OF O(3,2,1) e new] set_dirty_counts[OF O(4) e(1,2,3) b]
      O(1,5) same_disk_lay[OF F(4)] same_disk_journal[OF F(4)] by blast
qed


section \<open>Taking entries in and out\<close>

definition new_entry :: "nat \<Rightarrow> raw_nat option \<Rightarrow> nat_entry" where
  "new_entry n raw = (case raw of None \<Rightarrow> alloc_nat_entry n
     | Some r \<Rightarrow> (alloc_nat_entry n)\<lparr>ni := node_info_from_raw_nat r (ni (alloc_nat_entry n))\<rparr>)"

lemma new_entry_simps [simp]:
  "ni_nid (ni (new_entry n raw)) = n" "\<not> dirty (new_entry n raw)" "\<not> prealloc (new_entry n raw)" "nat_flags (new_entry n raw) IS_CHECKPOINTED"
  "raw_nat_from_node_info (ni (new_entry n (Some r))) = r" "blk_addr (ni (new_entry n (Some r))) = block_addr r"
  by (simp_all add: new_entry_def node_info_from_raw_nat_def raw_nat_from_node_info_def split: option.split)

lemma init_nat_entry_eq:
  "init_nat_entry (alloc_nat_entry n) raw nm = (new_entry n raw, nm\<lparr>nat_root := (nat_root nm)(n \<mapsto> new_entry n raw), nat_entries := nat_entries nm @ [n],
     nat_cnt := (nat_cnt nm)(TOTAL_NAT := addu 32 (nat_cnt nm TOTAL_NAT) 1, RECLAIMABLE_NAT := addu 32 (nat_cnt nm RECLAIMABLE_NAT) 1)\<rparr>)"
  by (simp add: init_nat_entry_def Let_def nat_ops_def new_entry_def split: option.split)

lemma init_nat_entry_disk: "same_disk nm (snd (init_nat_entry (alloc_nat_entry n) raw nm))" "same_ids nm (snd (init_nat_entry (alloc_nat_entry n) raw nm))"
  by (simp_all add: init_nat_entry_eq same_disk_def same_ids_def)

lemma init_nat_entry_ok:
  assumes ok: "nat_cache_ok L {} nm" and n: "nat_root nm n = None" "valid_nid L nm n"
    and raw: "X = {} \<Longrightarrow> raw = Some (saved_nat L nm n)" "X = {} \<or> X = {n}"
  shows "nat_cache_ok L X (snd (init_nat_entry (alloc_nat_entry n) raw nm))"
proof -
  define nm' where "nm' = snd (init_nat_entry (alloc_nat_entry n) raw nm)"
  note O = cache_okD[OF ok]
  have D: "same_disk nm nm'" unfolding nm'_def by (rule init_nat_entry_disk)
  have f: "nat_root nm' = (nat_root nm)(n \<mapsto> new_entry n raw)" "nat_entries nm' = nat_entries nm @ [n]" "nat_set_root nm' = nat_set_root nm" "max_nid nm' = max_nid nm"
    "nat_cnt nm' = (nat_cnt nm)(TOTAL_NAT := addu 32 (nat_cnt nm TOTAL_NAT) 1, RECLAIMABLE_NAT := addu 32 (nat_cnt nm RECLAIMABLE_NAT) 1)"
    by (simp_all add: nm'_def init_nat_entry_eq)
  have "block_addr (saved_nat L nm n) \<noteq> NEW_ADDR (nm_sbi L)" using O(5) n(2) by (simp add: journal_ok_def)
  then have "entries_ok L X nm'" using O(2) n raw same_disk_saved[OF D] same_disk_valid[OF D] by (auto simp: entries_ok_def f coherent_def)
  moreover have "nat_lists_ok L nm'" using O(3) n by (auto simp: nat_lists_ok_def f elist_def ecnt_def)
  moreover have "counts_ok nm'"
  proof -
    have b: "n < max_nid nm" "max_nid nm < 2 ^ 32" using n(2) O(1) by (simp_all add: valid_nid_def lay_ok_def)
    note C = count_change[OF b, of _ "nat_root nm" "Some (new_entry n raw)"]
    show ?thesis using O(4) n(1) C(1)[of "\<lambda>x. x \<noteq> None"] C(1)[of is_clean] C(3)[of is_dirty]
      by (simp add: counts_ok_def f is_dirty_def is_clean_def)
  qed
  ultimately show ?thesis unfolding nm'_def[symmetric] nat_cache_ok_def using O(1,5) same_disk_lay[OF D] same_disk_journal[OF D] by blast
qed

lemma init_nat_entry_view:
  assumes "nat_root nm n = None" "raw = Some (saved_nat L nm n)"
  shows "nat_of L (snd (init_nat_entry (alloc_nat_entry n) raw nm)) = nat_of L nm" "nid_dirty (snd (init_nat_entry (alloc_nat_entry n) raw nm)) = nid_dirty nm"
  using assms same_disk_saved[OF init_nat_entry_disk(1)[of nm n raw], of L]
  by (auto simp: init_nat_entry_eq nat_of_def nid_dirty_def fun_eq_iff split: option.split)

text \<open>Dropping the oldest clean entry.\<close>

lemma del_clean:
  assumes ok: "nat_cache_ok L {} nm" and n: "nat_entries nm = n # rest"
  defines "nm' \<equiv> del_from_nat_cache n (nm\<lparr>nat_entries := rest\<rparr>)"
  shows "nat_cache_ok L {} nm'" "nat_of L nm' = nat_of L nm" "nid_dirty nm' = nid_dirty nm" "same_disk nm nm'" "same_ids nm nm'"
proof -
  note O = cache_okD[OF ok]
  have "n \<in> set (nat_entries nm)" using n by simp
  then obtain e where e: "nat_root nm n = Some e" "\<not> dirty e" using O(3) by (auto simp: nat_lists_ok_def)
  show D: "same_disk nm nm'" and "same_ids nm nm'" by (simp_all add: nm'_def del_from_nat_cache_def nat_ops_def same_disk_def same_ids_def)
  have f: "nat_root nm' = (nat_root nm)(n := None)" "nat_entries nm' = rest" "nat_set_root nm' = nat_set_root nm" "max_nid nm' = max_nid nm"
    "nat_cnt nm' = (nat_cnt nm)(TOTAL_NAT := addu 32 (nat_cnt nm TOTAL_NAT) (- 1), RECLAIMABLE_NAT := addu 32 (nat_cnt nm RECLAIMABLE_NAT) (- 1))"
    by (simp_all add: nm'_def del_from_nat_cache_def nat_ops_def)
  have coh: "raw_nat_from_node_info (ni e) = saved_nat L nm n" "valid_nid L nm n" using O(2) e by (auto simp: entries_ok_def coherent_def)
  then show "nat_of L nm' = nat_of L nm" using same_disk_saved[OF D] e by (auto simp: nat_of_def f fun_eq_iff split: option.split)
  show "nid_dirty nm' = nid_dirty nm" using e by (auto simp: nid_dirty_def f fun_eq_iff)
  have "entries_ok L {} nm'" using O(2) same_disk_saved[OF D] same_disk_valid[OF D] by (auto simp: entries_ok_def f coherent_def)
  moreover have "nat_lists_ok L nm'" using O(3) n e by (auto simp: nat_lists_ok_def f elist_def ecnt_def)
  moreover have "counts_ok nm'"
  proof -
    have b: "n < max_nid nm" "max_nid nm < 2 ^ 32" using coh(2) O(1) by (simp_all add: valid_nid_def lay_ok_def)
    note C = count_change[OF b, of _ "nat_root nm" None]
    show ?thesis using O(4) e C(2)[of "\<lambda>x. x \<noteq> None"] C(2)[of is_clean] C(3)[of is_dirty]
      by (simp add: counts_ok_def f is_dirty_def is_clean_def)
  qed
  ultimately show "nat_cache_ok L {} nm'" unfolding nat_cache_ok_def using O(1,5) same_disk_lay[OF D] same_disk_journal[OF D] by blast
qed

text \<open>Changing flags that do not concern the lists.\<close>

lemma put_flags:
  assumes ok: "nat_cache_ok L {} nm" and e: "nat_root nm n = Some e" "ni e' = ni e" "dirty e' = dirty e" "prealloc e' = prealloc e"
  shows "nat_cache_ok L {} (put_nat e' nm)" "nat_of L (put_nat e' nm) = nat_of L nm" "nid_dirty (put_nat e' nm) = nid_dirty nm"
    "same_disk nm (put_nat e' nm)" "same_ids nm (put_nat e' nm)"
proof -
  define nm' where "nm' = put_nat e' nm"
  note O = cache_okD[OF ok]
  have n: "ni_nid (ni e') = n" "n < max_nid nm" "max_nid nm < 2 ^ 32" using entry_bound[OF O(2) e(1)] e(2) O(1) by (simp_all add: lay_ok_def)
  have f: "nat_root nm' = (nat_root nm)(n \<mapsto> e')" "nat_entries nm' = nat_entries nm" "nat_set_root nm' = nat_set_root nm" "max_nid nm' = max_nid nm"
    "nat_cnt nm' = nat_cnt nm" using n(1) by (simp_all add: nm'_def nat_ops_def)
  show D: "same_disk nm (put_nat e' nm)" and "same_ids nm (put_nat e' nm)" by (simp_all add: nat_ops_def same_disk_def same_ids_def)
  note D = D[folded nm'_def]
  show "nat_of L (put_nat e' nm) = nat_of L nm" using same_disk_saved[OF D] e by (auto simp: nat_of_def f fun_eq_iff nm'_def[symmetric] split: option.split)
  show "nid_dirty (put_nat e' nm) = nid_dirty nm" using e by (auto simp: nid_dirty_def f fun_eq_iff nm'_def[symmetric])
  have "entries_ok L {} nm'" using O(2) e same_disk_saved[OF D] same_disk_valid[OF D] by (auto simp: entries_ok_def f coherent_def)
  moreover have "nat_lists_ok L nm'" using O(3) e by (auto simp: nat_lists_ok_def f elist_def ecnt_def)
  moreover have "counts_ok nm'" using O(4) e count_change(3)[OF n(2,3), of _ "nat_root nm" "Some e'"]
    by (simp add: counts_ok_def f is_dirty_def is_clean_def)
  ultimately show "nat_cache_ok L {} (put_nat e' nm)" unfolding nat_cache_ok_def nm'_def[symmetric] using O(1,5) same_disk_lay[OF D] same_disk_journal[OF D] by blast
qed

end
