(* ===== verification/Nat_Ops.thy ===== *)
theory Nat_Ops
  imports Nat_Inv
begin

text \<open>
  Looking up a node returns what the table holds, changing its address changes the table there
  and nowhere else, and shrinking the cache changes nothing.
\<close>

section \<open>Looking up\<close>

lemma journal_index_Some:
  "journal_index n j = Some i \<Longrightarrow> i < length j \<and> fst (j ! i) = n \<and> map_of j n = Some (snd (j ! i)) \<and>
     map_of (j[i := (n, r)]) = (map_of j)(n \<mapsto> r) \<and> map fst (j[i := (n, r)]) = map fst j"
proof (induction j arbitrary: i)
  case (Cons x xs)
  show ?case
  proof (cases "fst x = n")
    case True
    then show ?thesis using Cons.prems by (cases x) (auto simp: fun_eq_iff)
  next
    case False
    then obtain k where k: "journal_index n xs = Some k" "i = Suc k" using Cons.prems by auto
    show ?thesis using Cons.IH[OF k(1)] k(2) False by (cases x) (auto simp: fun_eq_iff)
  qed
qed simp

lemma journal_index_None: "journal_index n j = None \<longleftrightarrow> n \<notin> fst ` set j"
  by (induction j) auto

lemma lookup_journal_saved:
  "(case fst (f2fs_lookup_journal_in_cursum L n False nm) of Some i \<Rightarrow> Some (snd (nat_journal nm ! i)) | None \<Rightarrow> None) = map_of (nat_journal nm) n"
proof (cases "journal_index n (nat_journal nm)")
  case None
  then have "map_of (nat_journal nm) n = None" by (simp only: journal_index_None map_of_eq_None_iff not_False_eq_True)
  then show ?thesis using None by (simp add: f2fs_lookup_journal_in_cursum_def)
next
  case (Some i)
  then show ?thesis using journal_index_Some[OF Some] by (simp add: f2fs_lookup_journal_in_cursum_def)
qed

definition keeps_table :: "node_lay \<Rightarrow> f2fs_nm_info \<Rightarrow> f2fs_nm_info \<Rightarrow> bool" where
  "keeps_table L nm nm' \<longleftrightarrow> nat_cache_ok L {} nm' \<and> nat_of L nm' = nat_of L nm \<and> nid_dirty nm' = nid_dirty nm \<and> same_disk nm nm' \<and> same_ids nm nm'"

lemma keeps_table_trans: "keeps_table L a b \<Longrightarrow> keeps_table L b c \<Longrightarrow> keeps_table L a c"
  by (auto simp: keeps_table_def intro: same_disk_trans same_ids_trans)

lemma keeps_table_touch: "nat_cache_ok L {} nm \<Longrightarrow> keeps_table L nm (nm\<lparr>nat_entries := touch nm n\<rparr>)"
  using same_table_ok[OF same_table_touch] same_table_views[OF same_table_touch] same_table_disk[OF same_table_touch]
  by (simp add: keeps_table_def same_ids_def)

lemma touch_other [simp]: "nat_root nm n = None \<Longrightarrow> nm\<lparr>nat_entries := touch nm n\<rparr> = nm"
  by (simp add: touch_def)

lemma stop_same [simp]: "same_table nm (f2fs_stop_checkpoint nm)" "same_ids nm (f2fs_stop_checkpoint nm)" "nm_bug (f2fs_stop_checkpoint nm) = nm_bug nm"
  by (simp_all add: f2fs_stop_checkpoint_def same_table_def same_ids_def)

lemma keeps_table_stop: "nat_cache_ok L {} nm \<Longrightarrow> keeps_table L nm (f2fs_stop_checkpoint nm)"
  using same_table_ok[OF stop_same(1)] same_table_views[OF stop_same(1)] same_table_disk[OF stop_same(1)] by (simp add: keeps_table_def)

lemmas page_defs = get_current_nat_page_def f2fs_get_meta_page_retry_def f2fs_get_meta_page_def

lemma cache_nat_entry_keeps:
  assumes "nat_cache_ok L {} nm" "valid_nid L nm n" "nat_root nm n = None"
  shows "keeps_table L nm (cache_nat_entry L c n (saved_nat L nm n) nm)"
  using assms init_nat_entry_ok[OF assms(1,3,2), of "{}" "Some (saved_nat L nm n)"] init_nat_entry_view[OF assms(3), of "Some (saved_nat L nm n)" L]
    init_nat_entry_disk[of nm n "Some (saved_nat L nm n)"]
  by (simp add: cache_nat_entry_def keeps_table_def)

lemma get_node_info_spec:
  assumes ok: "nat_cache_ok L {} nm" and v: "valid_nid L nm n"
  shows "keeps_table L nm (snd (f2fs_get_node_info L c n nm))"
    "fst (f2fs_get_node_info L c n nm) = Inr i \<Longrightarrow> ni_nid i = n \<and> raw_nat_from_node_info i = nat_of L nm n"
    "fst (f2fs_get_node_info L c n nm) = Inl e \<Longrightarrow> page_err c (current_nat_addr L nm n) = Some e \<or>
       e = EFAULT \<and> is_valid_data_blkaddr (nm_sbi L) (block_addr (nat_of L nm n)) \<and> \<not> blkaddr_ok c (block_addr (nat_of L nm n))"
proof -
  define src where "src = (case map_of (nat_journal nm) n of Some r \<Rightarrow> Inr r
      | None \<Rightarrow> (case page_err c (current_nat_addr L nm n) of Some e \<Rightarrow> Inl e | None \<Rightarrow> Inr (disk_nat L nm n)))"
  have src_eq: "(case fst (f2fs_lookup_journal_in_cursum L n False nm) of Some i \<Rightarrow> Inr (snd (nat_journal nm ! i))
      | None \<Rightarrow> (case f2fs_get_meta_page c (current_nat_addr L nm n) nm of Inl e \<Rightarrow> Inl e | Inr page \<Rightarrow> Inr (page (n - START_NID L n)))) = src"
    unfolding src_def lookup_journal_saved[symmetric, where L = L and n = n and nm = nm]
    by (auto simp: f2fs_get_meta_page_def disk_nat_def split: option.splits)
  have src: "\<And>r. src = Inr r \<Longrightarrow> r = saved_nat L nm n" "\<And>e. src = Inl e \<Longrightarrow> page_err c (current_nat_addr L nm n) = Some e"
    by (auto simp: src_def saved_nat_def split: option.splits)
  show "keeps_table L nm (snd (f2fs_get_node_info L c n nm))"
  proof (cases "nat_root nm n")
    case None
    have r: "keeps_table L nm nm" using ok by (simp add: keeps_table_def)
    show ?thesis using None src cache_nat_entry_keeps[OF ok v None, of c] r
      by (auto simp: f2fs_get_node_info_def Let_def src_eq split: sum.split)
  next
    case (Some e)
    then show ?thesis using keeps_table_touch[OF ok] by (simp add: f2fs_get_node_info_def)
  qed
  show "fst (f2fs_get_node_info L c n nm) = Inr i \<Longrightarrow> ni_nid i = n \<and> raw_nat_from_node_info i = nat_of L nm n"
    using src by (cases "nat_root nm n") (auto simp: f2fs_get_node_info_def Let_def src_eq nat_of_def raw_nat_from_node_info_def node_info_from_raw_nat_def split: sum.splits if_splits)
  show "fst (f2fs_get_node_info L c n nm) = Inl e \<Longrightarrow> page_err c (current_nat_addr L nm n) = Some e \<or>
       e = EFAULT \<and> is_valid_data_blkaddr (nm_sbi L) (block_addr (nat_of L nm n)) \<and> \<not> blkaddr_ok c (block_addr (nat_of L nm n))"
    using src by (cases "nat_root nm n") (auto simp: f2fs_get_node_info_def Let_def src_eq nat_of_def split: sum.splits if_splits)
qed

lemma free_nats_keeps: "nat_cache_ok L {} nm \<Longrightarrow> keeps_table L nm (snd (free_nats n nm))"
proof (induction n arbitrary: nm)
  case 0
  then show ?case by (simp add: keeps_table_def)
next
  case (Suc n)
  show ?case
  proof (cases "nat_entries nm")
    case Nil
    then show ?thesis using Suc.prems by (simp add: keeps_table_def)
  next
    case (Cons x rest)
    note D = del_clean[OF Suc.prems Cons]
    have "keeps_table L nm (del_from_nat_cache x (nm\<lparr>nat_entries := rest\<rparr>))" unfolding keeps_table_def using D by blast
    then show ?thesis using Suc.IH[OF D(1)] Cons by (simp add: keeps_table_trans)
  qed
qed

lemma try_to_free_nats_keeps: "nat_cache_ok L {} nm \<Longrightarrow> keeps_table L nm (snd (f2fs_try_to_free_nats locked n nm))"
  using free_nats_keeps[of L nm n] by (cases "free_nats n nm") (auto simp: f2fs_try_to_free_nats_def keeps_table_def)


section \<open>Changing an address\<close>

lemma node_info_eq:
  assumes "ni_nid i = ni_nid j" "raw_nat_from_node_info i = raw_nat_from_node_info j"
  shows "i = (j :: node_info)"
  using assms by (simp add: raw_nat_from_node_info_def)

text \<open>What a caller has to know: the entry as the table has it, or a fresh one for an unused id.\<close>

definition addr_change :: "node_lay \<Rightarrow> f2fs_nm_info \<Rightarrow> node_info \<Rightarrow> nat \<Rightarrow> bool" where
  "addr_change L nm i new_blkaddr \<longleftrightarrow> valid_nid L nm (ni_nid i) \<and>
     (if new_blkaddr = NEW_ADDR (nm_sbi L)
      then blk_addr i = NULL_ADDR (nm_sbi L) \<and> block_addr (nat_of L nm (ni_nid i)) = NULL_ADDR (nm_sbi L) \<and> \<not> nid_dirty nm (ni_nid i)
      else raw_nat_from_node_info i = nat_of L nm (ni_nid i) \<and> blk_addr i \<noteq> NULL_ADDR (nm_sbi L))"

lemma grab_entry_ok:
  assumes ok: "nat_cache_ok L {} nm" and a: "addr_change L nm i b"
  obtains e nm1 e0 where "grab_entry L i b nm = (e, nm1)" "ni e = i" "nat_root nm1 (ni_nid i) = Some e0" "dirty e = dirty e0" "prealloc e = prealloc e0"
    "nat_cache_ok L {ni_nid i} nm1" "same_disk nm nm1" "same_ids nm nm1" "nm_bug nm1 = nm_bug nm" "dirty e0 = nid_dirty nm (ni_nid i)"
    "\<And>n. n \<noteq> ni_nid i \<Longrightarrow> nat_root nm1 n = nat_root nm n"
proof (cases "nat_root nm (ni_nid i)")
  case None
  define n where "n = ni_nid i"
  have n: "nat_root nm n = None" "valid_nid L nm n" using None a by (simp_all add: n_def addr_change_def)
  have "block_addr (saved_nat L nm n) \<noteq> NEW_ADDR (nm_sbi L)" using cache_okD(5)[OF ok] n(2) by (simp add: journal_ok_def)
  then have b: "blk_addr i \<noteq> NEW_ADDR (nm_sbi L)" using a n(1) cache_okD(1)[OF ok]
    by (auto simp: addr_change_def n_def[symmetric] nat_of_def lay_ok_def dest: arg_cong[where f = block_addr] split: if_splits)
  define nm1 where "nm1 = snd (init_nat_entry (alloc_nat_entry n) None nm)"
  have g: "grab_entry L i b nm = (copy_node_info i (new_entry n None), nm1)" using n(1) b unfolding n_def nm1_def
    by (simp add: grab_entry_def init_nat_entry_eq nm_bug_on_def)
  have r: "nat_root nm1 n = Some (new_entry n None)" "nm_bug nm1 = nm_bug nm" "\<And>m. m \<noteq> n \<Longrightarrow> nat_root nm1 m = nat_root nm m"
    by (simp_all add: nm1_def init_nat_entry_eq)
  have c: "ni (copy_node_info i (new_entry n None)) = i" "\<not> dirty (copy_node_info i (new_entry n None))" "\<not> prealloc (copy_node_info i (new_entry n None))"
    by (simp_all add: copy_node_info_def)
  have d: "nid_dirty nm n = False" using n by (simp add: nid_dirty_def)
  have o: "nat_cache_ok L {n} nm1" unfolding nm1_def by (rule init_nat_entry_ok[OF ok n]) simp_all
  show ?thesis by (rule that[OF g c(1) r(1)[unfolded n_def]])
      (use c d r o init_nat_entry_disk[of nm n None] in \<open>simp_all add: n_def nm1_def\<close>)
next
  case (Some e)
  define n where "n = ni_nid i"
  have k: "ni_nid (ni e) = n" using entry_bound(2)[OF cache_okD(2)[OF ok] Some] by (simp add: n_def)
  have d: "dirty e = nid_dirty nm n" using Some by (simp add: nid_dirty_def n_def)
  define e1 where "e1 = (if b = NEW_ADDR (nm_sbi L) then copy_node_info i e else e)"
  have i: "ni e1 = i"
  proof (cases "b = NEW_ADDR (nm_sbi L)")
    case False
    then have "raw_nat_from_node_info i = raw_nat_from_node_info (ni e)" using a Some by (simp add: addr_change_def nat_of_def)
    then show ?thesis using node_info_eq[of i "ni e"] k False by (simp add: e1_def n_def)
  qed (simp add: e1_def copy_node_info_def)
  define nm1 where "nm1 = nm\<lparr>nat_entries := touch nm n\<rparr>"
  have g: "grab_entry L i b nm = (e1, nm1)" using Some a
    by (auto simp: grab_entry_def e1_def addr_change_def nm_bug_on_def nm1_def n_def)
  have f: "dirty e1 = dirty e" "prealloc e1 = prealloc e" by (simp_all add: e1_def copy_node_info_def)
  have t: "keeps_table L nm nm1" "nat_root nm1 = nat_root nm" "nm_bug nm1 = nm_bug nm" using keeps_table_touch[OF ok] by (simp_all add: nm1_def)
  then have "nat_cache_ok L {} nm1" by (simp add: keeps_table_def)
  then have ok1: "nat_cache_ok L {ni_nid i} nm1" by (rule cache_ok_weaken)
  show ?thesis by (rule that[OF g i _ f ok1]) (use d t Some in \<open>simp_all add: n_def keeps_table_def\<close>)
qed

lemma changed_entry_simps [simp]:
  "dirty (changed_entry L b e) = dirty e" "prealloc (changed_entry L b e) = prealloc e" "ni_nid (ni (changed_entry L b e)) = ni_nid (ni e)"
  "blk_addr (ni (changed_entry L b e)) = b" "ni_ino (ni (changed_entry L b e)) = ni_ino (ni e)"
  by (simp_all add: changed_entry_def Let_def)

lemma changed_entry_checkpointed:
  "\<not> is_valid_data_blkaddr (nm_sbi L) b \<Longrightarrow> \<not> nat_flags (changed_entry L b e) IS_CHECKPOINTED"
  by (simp add: changed_entry_def Let_def)

lemma set_node_addr_eq:
  assumes "lay_ok L nm" and a: "addr_change L nm i b" and g: "grab_entry L i b nm = (e, nm1)" "ni e = i"
  shows "set_node_addr L i b fs nm = mark_inode i fs (set_nat_cache_dirty L (changed_entry L b e) nm1)"
proof -
  have nb: "nm_bug_on False x = x" for x by (simp add: nm_bug_on_def)
  have c: "(blk_addr i = NULL_ADDR (nm_sbi L) \<and> b = NULL_ADDR (nm_sbi L)) = False" "(blk_addr i = NEW_ADDR (nm_sbi L) \<and> b = NEW_ADDR (nm_sbi L)) = False"
    "(is_valid_data_blkaddr (nm_sbi L) (blk_addr i) \<and> b = NEW_ADDR (nm_sbi L)) = False"
    using a assms(1) by (auto simp: addr_change_def is_valid_data_blkaddr_def lay_ok_def split: if_splits)
  show ?thesis unfolding set_node_addr_def Let_def g prod.case c nb by (simp add: nb)
qed


lemma mark_inode_keeps:
  assumes "nat_cache_ok L {} nm"
  shows "keeps_table L nm (mark_inode i fs nm)" "nm_bug (mark_inode i fs nm) = nm_bug nm"
    "\<And>n e'. nat_root (mark_inode i fs nm) n = Some e' \<Longrightarrow> \<exists>e. nat_root nm n = Some e \<and> ni e' = ni e \<and> dirty e' = dirty e \<and>
       nat_flags e' IS_CHECKPOINTED = nat_flags e IS_CHECKPOINTED"
proof -
  define nm1 where "nm1 = (if ni_nid i \<noteq> ni_ino i then nm\<lparr>nat_entries := touch nm (ni_ino i)\<rparr> else nm)"
  have k1: "keeps_table L nm nm1" using keeps_table_touch[OF assms] assms by (simp add: nm1_def keeps_table_def)
  have r1: "nat_root nm1 = nat_root nm" "nm_bug nm1 = nm_bug nm" by (simp_all add: nm1_def)
  define e' where "e' = (\<lambda>e. set_nat_flag HAS_LAST_FSYNC fs (if fs \<and> ni_nid i = ni_ino i then set_nat_flag HAS_FSYNCED_INODE True e else e))"
  have f: "ni (e' e) = ni e" "dirty (e' e) = dirty e" "prealloc (e' e) = prealloc e" "nat_flags (e' e) IS_CHECKPOINTED = nat_flags e IS_CHECKPOINTED" for e
    by (simp_all add: e'_def)
  have m: "mark_inode i fs nm = (case nat_root nm (ni_ino i) of None \<Rightarrow> nm1 | Some e \<Rightarrow> put_nat (e' e) nm1)"
    by (auto simp: mark_inode_def nm1_def e'_def split: option.split)
  have ok1: "nat_cache_ok L {} nm1" using k1 by (simp add: keeps_table_def)
  show "keeps_table L nm (mark_inode i fs nm)"
  proof (cases "nat_root nm (ni_ino i)")
    case (Some e)
    note P = put_flags[OF ok1 _ f(1,2,3), of "ni_ino i" e]
    have "keeps_table L nm1 (put_nat (e' e) nm1)" unfolding keeps_table_def using P Some r1 by simp
    then show ?thesis using keeps_table_trans[OF k1] Some m by simp
  qed (use k1 m in simp)
  show "nm_bug (mark_inode i fs nm) = nm_bug nm" by (simp add: m r1 nat_ops_def split: option.split)
  fix n x assume x: "nat_root (mark_inode i fs nm) n = Some x"
  show "\<exists>e. nat_root nm n = Some e \<and> ni x = ni e \<and> dirty x = dirty e \<and> nat_flags x IS_CHECKPOINTED = nat_flags e IS_CHECKPOINTED"
  proof (cases "nat_root nm (ni_ino i)")
    case (Some e)
    have "ni_nid (ni e) = ni_ino i" by (rule entry_bound(2)[OF cache_okD(2)[OF assms] Some])
    then show ?thesis using x Some f m by (auto simp: put_nat_def r1 split: if_splits)
  qed (use x m r1 in simp)
qed

text \<open>Removed entries are not checkpointed before they have been written.\<close>

definition freed_ok :: "node_lay \<Rightarrow> f2fs_nm_info \<Rightarrow> bool" where
  "freed_ok L nm \<longleftrightarrow> (\<forall>n e. nat_root nm n = Some e \<and> dirty e \<and> blk_addr (ni e) = NULL_ADDR (nm_sbi L) \<longrightarrow> \<not> nat_flags e IS_CHECKPOINTED)"

lemma set_node_addr_spec:
  fixes fs :: bool
  assumes ok: "nat_cache_ok L {} nm" and a: "addr_change L nm i b"
  defines "nm' \<equiv> set_node_addr L i b fs nm"
  shows "nat_cache_ok L {} nm'" "same_disk nm nm'" "same_ids nm nm'" "nm_bug nm' = nm_bug nm"
    "\<exists>v. nat_of L nm' = (nat_of L nm)(ni_nid i := \<lparr>raw_version = v, raw_ino = ni_ino i, block_addr = b\<rparr>)"
    "nid_dirty nm' = (nid_dirty nm)(ni_nid i := True)" "freed_ok L nm \<Longrightarrow> freed_ok L nm'"
proof -
  obtain e nm1 e0 where g: "grab_entry L i b nm = (e, nm1)" "ni e = i" "nat_root nm1 (ni_nid i) = Some e0" "dirty e = dirty e0" "prealloc e = prealloc e0"
    "nat_cache_ok L {ni_nid i} nm1" "same_disk nm nm1" "same_ids nm nm1" "nm_bug nm1 = nm_bug nm" "dirty e0 = nid_dirty nm (ni_nid i)"
    "\<And>n. n \<noteq> ni_nid i \<Longrightarrow> nat_root nm1 n = nat_root nm n" using grab_entry_ok[OF ok a] by metis
  define c where "c = changed_entry L b e"
  define nm2 where "nm2 = set_nat_cache_dirty L c nm1"
  have c: "ni_nid (ni c) = ni_nid i" "dirty c = dirty e0" "prealloc c = prealloc e0" "blk_addr (ni c) = b" "ni_ino (ni c) = ni_ino i"
    using g(2,4,5) by (simp_all add: c_def)
  have new: "blk_addr (ni c) = NEW_ADDR (nm_sbi L) \<Longrightarrow> \<not> dirty e0 \<or> prealloc e0" using a g(10) c(4) by (auto simp: addr_change_def split: if_splits)
  have ok2: "nat_cache_ok L {} nm2" unfolding nm2_def by (rule set_dirty_ok[OF g(6,3) c(1,2,3) new])
  note F = set_dirty_fields[OF c(1), where L = L and nm = nm1, folded nm2_def]
  have e: "nm' = mark_inode i fs nm2" unfolding nm'_def nm2_def c_def by (rule set_node_addr_eq[OF cache_okD(1)[OF ok] a g(1,2)])
  note M = mark_inode_keeps[OF ok2, of i fs, folded e]
  have K: "nat_cache_ok L {} nm'" "nat_of L nm' = nat_of L nm2" "nid_dirty nm' = nid_dirty nm2" "same_disk nm2 nm'" "same_ids nm2 nm'"
    using M(1) by (simp_all add: keeps_table_def)
  show "nat_cache_ok L {} nm'" by (rule K(1))
  show D: "same_disk nm nm'" using same_disk_trans[OF g(7) same_disk_trans[OF F(4) K(4)]] .
  show "same_ids nm nm'" using same_ids_trans[OF g(8) same_ids_trans[OF F(5) K(5)]] .
  show "nm_bug nm' = nm_bug nm" using M(2) F(7) g(9) by simp
  have sv: "saved_nat L nm2 = saved_nat L nm" using same_disk_saved[OF same_disk_trans[OF g(7) F(4)]] .
  have "nat_of L nm2 = (nat_of L nm)(ni_nid i := raw_nat_from_node_info (ni c))"
    using g(11) sv by (auto simp: nat_of_def F(1) fun_eq_iff split: option.split)
  then show "\<exists>v. nat_of L nm' = (nat_of L nm)(ni_nid i := \<lparr>raw_version = v, raw_ino = ni_ino i, block_addr = b\<rparr>)"
    using c(4,5) by (auto simp: K(2) raw_nat_from_node_info_def)
  show "nid_dirty nm' = (nid_dirty nm)(ni_nid i := True)" using g(11) by (auto simp: K(3) nid_dirty_def F(1) fun_eq_iff)
  assume fr: "freed_ok L nm"
  show "freed_ok L nm'" unfolding freed_ok_def
  proof (intro allI impI)
    fix n x assume x: "nat_root nm' n = Some x \<and> dirty x \<and> blk_addr (ni x) = NULL_ADDR (nm_sbi L)"
    then obtain y where y: "nat_root nm2 n = Some y" "ni x = ni y" "dirty x = dirty y" "nat_flags x IS_CHECKPOINTED = nat_flags y IS_CHECKPOINTED" using M(3) by blast
    show "\<not> nat_flags x IS_CHECKPOINTED"
    proof (cases "n = ni_nid i")
      case True
      then have "y = dirtied L c" using y(1) by (simp add: F(1))
      moreover have "b = NULL_ADDR (nm_sbi L)" using x y(2) calculation c(4) by simp
      then have "\<not> nat_flags c IS_CHECKPOINTED" unfolding c_def by (intro changed_entry_checkpointed) (simp add: is_valid_data_blkaddr_def)
      ultimately show ?thesis using y(4) by simp
    next
      case False
      then have "nat_root nm n = Some y" using y(1) g(11) by (simp add: F(1))
      then show ?thesis using fr x y by (auto simp: freed_ok_def)
    qed
  qed
qed

end
