(* ===== verification/Nid_Inv.thy ===== *)
theory Nid_Inv
  imports Nat_Ops
begin

text \<open>
  The invariant of the free ids: the list holds the ids that the tree marks as free, the counters
  count, a free id has no node, and an id whose bit is set has no node unless its entry is
  dirty or in the journal. Collecting, handing out and giving back ids keep it.
\<close>

section \<open>The tree, the list and the bits\<close>

definition nid_tree_ok :: "node_lay \<Rightarrow> f2fs_nm_info \<Rightarrow> bool" where
  "nid_tree_ok L nm \<longleftrightarrow> distinct (free_nid_list nm) \<and> (\<forall>n. n \<in> set (free_nid_list nm) \<longleftrightarrow> free_nid_root nm n = Some FREE_NID) \<and>
     (\<forall>n. free_nid_root nm n \<noteq> None \<longrightarrow> valid_nid L nm n) \<and>
     (\<forall>st. nid_cnt nm st = count_idx (\<lambda>x. x = Some st) (free_nid_root nm) (max_nid nm))"

text \<open>The ids that are handed out.\<close>

definition held :: "f2fs_nm_info \<Rightarrow> nat set" where
  "held nm = {n. free_nid_root nm n = Some PREALLOC_NID}"

definition nid_bit :: "node_lay \<Rightarrow> f2fs_nm_info \<Rightarrow> nat \<Rightarrow> bool" where
  "nid_bit L nm n = free_nid_bitmap nm (NAT_BLOCK_OFFSET L n) (n - START_NID L n)"

definition bits_ok :: "node_lay \<Rightarrow> f2fs_nm_info \<Rightarrow> bool" where
  "bits_ok L nm \<longleftrightarrow> (\<forall>b k. free_nid_bitmap nm b k \<longrightarrow> nat_block_bitmap nm b) \<and>
     (\<forall>n. valid_nid L nm n \<and> nid_bit L nm n \<longrightarrow>
        block_addr (nat_of L nm n) = NULL_ADDR (nm_sbi L) \<or> nid_dirty nm n \<or> n \<in> fst ` set (nat_journal nm))"

text \<open>
  Free ids have no node, except for those of \<open>J\<close> that are still to be compared with the journal;
  ids of the tree without a node have no dirty entry.
\<close>

definition nids_free_ok :: "node_lay \<Rightarrow> nat set \<Rightarrow> f2fs_nm_info \<Rightarrow> bool" where
  "nids_free_ok L J nm \<longleftrightarrow> (\<forall>n. free_nid_root nm n = Some FREE_NID \<longrightarrow>
     block_addr (nat_of L nm n) = NULL_ADDR (nm_sbi L) \<or> n \<in> J \<and> \<not> nid_dirty nm n)"

definition quiet :: "node_lay \<Rightarrow> f2fs_nm_info \<Rightarrow> bool" where
  "quiet L nm \<longleftrightarrow> (\<forall>n. free_nid_root nm n \<noteq> None \<and> block_addr (nat_of L nm n) = NULL_ADDR (nm_sbi L) \<longrightarrow> \<not> nid_dirty nm n)"

definition ids_ok :: "node_lay \<Rightarrow> nat set \<Rightarrow> f2fs_nm_info \<Rightarrow> bool" where
  "ids_ok L J nm \<longleftrightarrow> nat_cache_ok L {} nm \<and> nid_tree_ok L nm \<and> bits_ok L nm \<and> nids_free_ok L J nm \<and> quiet L nm \<and> freed_ok L nm"

lemma ids_okD:
  assumes "ids_ok L J nm"
  shows "nat_cache_ok L {} nm" "nid_tree_ok L nm" "bits_ok L nm" "nids_free_ok L J nm" "quiet L nm" "freed_ok L nm" "lay_ok L nm" "journal_ok L nm"
  using assms cache_okD[of L "{}" nm] by (simp_all add: ids_ok_def)

lemma split_nid: "NAT_BLOCK_OFFSET L n * NAT_ENTRY_PER_BLOCK L + (n - START_NID L n) = n"
  unfolding NAT_BLOCK_OFFSET_def START_NID_def by (rule le_add_diff_inverse) (rule div_times_less_eq_dividend)

lemma split_nid_eq: "NAT_BLOCK_OFFSET L n = NAT_BLOCK_OFFSET L m \<Longrightarrow> n - START_NID L n = m - START_NID L m \<Longrightarrow> n = m"
  using split_nid[of L n] split_nid[of L m] by metis

section \<open>The primitives\<close>

lemmas nid_ops_def = nid_cnt_add_def nm_bug_on_def

lemma tree_change:
  assumes ok: "nid_tree_ok L nm" and lay: "lay_ok L nm" and n: "valid_nid L nm n"
    and f: "free_nid_root nm' = (free_nid_root nm)(n := x)" "max_nid nm' = max_nid nm" "free_nid_root nm n \<noteq> x"
    and c: "nid_cnt nm' = (\<lambda>st. if free_nid_root nm n = Some st then addu 32 (nid_cnt nm st) (- 1)
      else if x = Some st then addu 32 (nid_cnt nm st) 1 else nid_cnt nm st)"
    and l: "distinct (free_nid_list nm')" "set (free_nid_list nm') = (if x = Some FREE_NID then insert n (set (free_nid_list nm)) else set (free_nid_list nm) - {n})"
  shows "nid_tree_ok L nm'"
proof -
  have b: "n < max_nid nm" "max_nid nm < 2 ^ 32" using n lay by (simp_all add: valid_nid_def lay_ok_def)
  have "nid_cnt nm' st = count_idx (\<lambda>x. x = Some st) (free_nid_root nm') (max_nid nm')" for st
    using count_change[OF b, of "\<lambda>x. x = Some st" "free_nid_root nm" x] ok f(3) by (auto simp: c f(1,2) nid_tree_ok_def)
  moreover have "valid_nid L nm' = valid_nid L nm" by (simp add: valid_nid_def f(2) fun_eq_iff)
  ultimately show ?thesis using ok n l by (auto simp: nid_tree_ok_def f(1))
qed

lemma insert_free_nid_tree:
  assumes "nid_tree_ok L nm" "lay_ok L nm" "valid_nid L nm n" "free_nid_root nm n = None"
  defines "nm' \<equiv> snd (insert_free_nid n nm)"
  shows "nid_tree_ok L nm'" "free_nid_root nm' = (free_nid_root nm)(n \<mapsto> FREE_NID)"
proof -
  have f: "free_nid_root nm' = (free_nid_root nm)(n \<mapsto> FREE_NID)" "max_nid nm' = max_nid nm" "free_nid_list nm' = free_nid_list nm @ [n]"
    "nid_cnt nm' = (nid_cnt nm)(FREE_NID := addu 32 (nid_cnt nm FREE_NID) 1)"
    using assms(4) by (simp_all add: nm'_def insert_free_nid_def nid_ops_def Let_def)
  show "free_nid_root nm' = (free_nid_root nm)(n \<mapsto> FREE_NID)" by (rule f(1))
  show "nid_tree_ok L nm'" by (rule tree_change[OF assms(1-3) f(1,2)]) (use assms(1,4) in \<open>auto simp: f(3,4) nid_tree_ok_def fun_eq_iff\<close>)
qed

lemma drop_free_nid_tree:
  assumes "nid_tree_ok L nm" "lay_ok L nm" "free_nid_root nm n = Some st"
  defines "nm' \<equiv> drop_free_nid n st nm"
  shows "nid_tree_ok L nm'" "free_nid_root nm' = (free_nid_root nm)(n := None)" "nm_bug nm' = nm_bug nm"
proof -
  have f: "free_nid_root nm' = (free_nid_root nm)(n := None)" "max_nid nm' = max_nid nm"
    "free_nid_list nm' = (if st = FREE_NID then remove1 n (free_nid_list nm) else free_nid_list nm)"
    "nid_cnt nm' = (nid_cnt nm)(st := addu 32 (nid_cnt nm st) (- 1))"
    by (simp_all add: nm'_def drop_free_nid_def nid_ops_def Let_def)
  show "free_nid_root nm' = (free_nid_root nm)(n := None)" by (rule f(1))
  show "nm_bug nm' = nm_bug nm" using assms(3) by (simp add: nm'_def drop_free_nid_def nid_ops_def Let_def)
  have v: "valid_nid L nm n" using assms(1,3) by (simp add: nid_tree_ok_def)
  show "nid_tree_ok L nm'" by (rule tree_change[OF assms(1,2) v f(1,2)]) (use assms(1,3) in \<open>auto simp: f(3,4) nid_tree_ok_def fun_eq_iff\<close>)
qed

lemma move_free_nid_tree:
  assumes "nid_tree_ok L nm" "lay_ok L nm" "free_nid_root nm n = Some st" "st \<noteq> st'"
  defines "nm' \<equiv> move_free_nid n st st' nm"
  shows "nid_tree_ok L nm'" "free_nid_root nm' = (free_nid_root nm)(n \<mapsto> st')" "nm_bug nm' = nm_bug nm"
proof -
  have f: "free_nid_root nm' = (free_nid_root nm)(n \<mapsto> st')" "max_nid nm' = max_nid nm"
    "free_nid_list nm' = (if st' = FREE_NID then free_nid_list nm @ [n] else remove1 n (free_nid_list nm))"
    "nid_cnt nm' = (nid_cnt nm)(st := addu 32 (nid_cnt nm st) (- 1), st' := addu 32 (nid_cnt nm st') 1)"
    using assms(4) by (cases st'; simp add: nm'_def move_free_nid_def nid_ops_def Let_def)+
  show "free_nid_root nm' = (free_nid_root nm)(n \<mapsto> st')" by (rule f(1))
  show "nm_bug nm' = nm_bug nm" using assms(3) by (cases st') (simp_all add: nm'_def move_free_nid_def nid_ops_def Let_def)
  have v: "valid_nid L nm n" using assms(1,3) by (simp add: nid_tree_ok_def)
  show "nid_tree_ok L nm'"
    by (rule tree_change[OF assms(1,2) v f(1,2)]) (use assms(1,3,4) in \<open>cases st; cases st'; auto simp: f(3,4) nid_tree_ok_def fun_eq_iff\<close>)+
qed

lemma prim_same_table [simp]:
  "same_table nm (snd (insert_free_nid n nm))" "same_table nm (drop_free_nid n st nm)" "same_table nm (move_free_nid n st st' nm)"
  "same_table nm (update_free_nid_bitmap L n b bld nm)"
  by (cases st'; auto simp: same_table_def insert_free_nid_def drop_free_nid_def move_free_nid_def update_free_nid_bitmap_def nid_ops_def Let_def split: option.split)+

lemma prim_bits [simp]:
  "free_nid_bitmap (snd (insert_free_nid n nm)) = free_nid_bitmap nm" "free_nid_bitmap (drop_free_nid n st nm) = free_nid_bitmap nm"
  "free_nid_bitmap (move_free_nid n st st' nm) = free_nid_bitmap nm"
  "nat_block_bitmap (snd (insert_free_nid n nm)) = nat_block_bitmap nm" "nat_block_bitmap (drop_free_nid n st nm) = nat_block_bitmap nm"
  "nat_block_bitmap (move_free_nid n st st' nm) = nat_block_bitmap nm"
  by (cases st'; simp add: insert_free_nid_def drop_free_nid_def move_free_nid_def nid_ops_def Let_def split: option.split)+

lemma update_bitmap_fields [simp]:
  "free_nid_root (update_free_nid_bitmap L n b bld nm) = free_nid_root nm" "free_nid_list (update_free_nid_bitmap L n b bld nm) = free_nid_list nm"
  "nid_cnt (update_free_nid_bitmap L n b bld nm) = nid_cnt nm" "nat_block_bitmap (update_free_nid_bitmap L n b bld nm) = nat_block_bitmap nm"
  "nm_bug (update_free_nid_bitmap L n b bld nm) = nm_bug nm"
  by (simp_all add: update_free_nid_bitmap_def Let_def)

lemma update_bitmap_bit: "nid_bit L (update_free_nid_bitmap L n b bld nm) m = (if m = n \<and> nat_block_bitmap nm (NAT_BLOCK_OFFSET L n) then b else nid_bit L nm m)"
  using split_nid_eq[of L m n] by (auto simp: nid_bit_def update_free_nid_bitmap_def Let_def)

lemma update_bitmap_scanned:
  assumes "\<And>x k. free_nid_bitmap nm x k \<Longrightarrow> nat_block_bitmap nm x" "free_nid_bitmap (update_free_nid_bitmap L n b bld nm) x k"
  shows "nat_block_bitmap nm x"
  using assms by (auto simp: update_free_nid_bitmap_def Let_def split: if_splits)


section \<open>Adding an id while collecting\<close>

lemma same_table_freed: "same_table nm nm' \<Longrightarrow> freed_ok L nm' = freed_ok L nm"
  by (simp add: same_table_def freed_ok_def)

text \<open>Changes of the tree and of the bits under a fixed table.\<close>

lemma ids_change:
  assumes ok: "ids_ok L J nm" and t: "same_table nm nm'" and tr: "nid_tree_ok L nm'"
    and free: "\<And>n. free_nid_root nm' n = Some FREE_NID \<Longrightarrow> free_nid_root nm n \<noteq> Some FREE_NID \<Longrightarrow>
      \<not> nid_dirty nm n \<and> (block_addr (nat_of L nm n) = NULL_ADDR (nm_sbi L) \<or> n \<in> J)"
    and pre: "\<And>n. free_nid_root nm' n = Some PREALLOC_NID \<Longrightarrow> free_nid_root nm n = None \<Longrightarrow> False"
    and bits: "\<And>b k. free_nid_bitmap nm' b k \<Longrightarrow> nat_block_bitmap nm' b"
      "\<And>n. valid_nid L nm n \<Longrightarrow> nid_bit L nm' n \<Longrightarrow> \<not> nid_bit L nm n \<Longrightarrow>
        block_addr (nat_of L nm n) = NULL_ADDR (nm_sbi L) \<or> n \<in> fst ` set (nat_journal nm)"
  shows "ids_ok L J nm'"
proof -
  note O = ids_okD[OF ok] and V = same_table_views[OF t]
  have j: "nat_journal nm' = nat_journal nm" using t by (simp add: same_table_def)
  have "bits_ok L nm'" using bits O(3) unfolding bits_ok_def V j by blast
  moreover have "nids_free_ok L J nm'" using free O(4) unfolding nids_free_ok_def V by blast
  moreover have "quiet L nm'" unfolding quiet_def V
  proof (intro allI impI)
    fix n assume n: "free_nid_root nm' n \<noteq> None \<and> block_addr (nat_of L nm n) = NULL_ADDR (nm_sbi L)"
    show "\<not> nid_dirty nm n"
    proof (cases "free_nid_root nm n")
      case None
      then have "free_nid_root nm' n = Some FREE_NID" using n pre[of n] by (metis nid_state.exhaust option.exhaust)
      then show ?thesis using free[of n] None by simp
    qed (use O(5) n in \<open>auto simp: quiet_def\<close>)
  qed
  ultimately show ?thesis unfolding ids_ok_def same_table_ok[OF t] same_table_freed[OF t] using O tr by blast
qed

lemma same_table_tree:
  assumes "same_table nm nm'" "free_nid_root nm' = free_nid_root nm" "free_nid_list nm' = free_nid_list nm" "nid_cnt nm' = nid_cnt nm"
  shows "nid_tree_ok L nm' = nid_tree_ok L nm"
  using assms by (simp add: nid_tree_ok_def valid_nid_def same_table_def)

text \<open>The decision of \<open>add_free_nid\<close> while collecting.\<close>

lemma add_free_nid_build:
  "add_free_nid L n True upd nm =
     (if n = 0 \<or> \<not> valid_nid L nm n then (False, nm)
      else let nm1 = nm\<lparr>nat_entries := touch nm n\<rparr>;
        rejected = (\<exists>e. nat_root nm n = Some e \<and> (\<not> nat_flags e IS_CHECKPOINTED \<or> blk_addr (ni e) \<noteq> NULL_ADDR (nm_sbi L)));
        ret = (\<not> rejected \<and> free_nid_root nm n \<noteq> Some PREALLOC_NID);
        nm2 = (if ret \<and> free_nid_root nm n = None then snd (insert_free_nid n nm1) else nm1)
      in (ret, if upd then update_free_nid_bitmap L n ret True nm2 else nm2))"
proof -
  have s: "st = FREE_NID \<longleftrightarrow> st \<noteq> PREALLOC_NID" for st by (cases st) simp_all
  show ?thesis by (auto simp: add_free_nid_def Let_def lookup_free_nid_list_def s split: option.splits)
qed

lemma add_build_ok:
  fixes upd :: bool and m :: nat
  assumes ok: "ids_ok L J nm" and J: "J \<subseteq> fst ` set (nat_journal nm)"
    and un: "valid_nid L nm n \<Longrightarrow> nat_root nm n = None \<Longrightarrow> block_addr (saved_nat L nm n) = NULL_ADDR (nm_sbi L) \<or> n \<in> J"
  defines "nm' \<equiv> snd (add_free_nid L n True upd nm)"
  shows "ids_ok L J nm'" "same_table nm nm'" "free_nid_root nm m = Some FREE_NID \<Longrightarrow> free_nid_root nm' m = Some FREE_NID"
    "nat_block_bitmap nm' = nat_block_bitmap nm" "nm_bug nm' = nm_bug nm" "held nm' = held nm"
proof -
  note O = ids_okD[OF ok]
  have "ids_ok L J nm' \<and> same_table nm nm' \<and> (free_nid_root nm m = Some FREE_NID \<longrightarrow> free_nid_root nm' m = Some FREE_NID) \<and>
      nat_block_bitmap nm' = nat_block_bitmap nm \<and> nm_bug nm' = nm_bug nm \<and> held nm' = held nm"
  proof (cases "n = 0 \<or> \<not> valid_nid L nm n")
    case True
    then have "nm' = nm" by (simp add: nm'_def add_free_nid_build)
    then show ?thesis using ok by simp
  next
    case False
    then have v: "valid_nid L nm n" by simp
    define nm1 where "nm1 = nm\<lparr>nat_entries := touch nm n\<rparr>"
    define rej where "rej = (\<exists>e. nat_root nm n = Some e \<and> (\<not> nat_flags e IS_CHECKPOINTED \<or> blk_addr (ni e) \<noteq> NULL_ADDR (nm_sbi L)))"
    define ret where "ret = (\<not> rej \<and> free_nid_root nm n \<noteq> Some PREALLOC_NID)"
    define nm2 where "nm2 = (if ret \<and> free_nid_root nm n = None then snd (insert_free_nid n nm1) else nm1)"
    have nm': "nm' = (if upd then update_free_nid_bitmap L n ret True nm2 else nm2)"
      unfolding nm'_def add_free_nid_build Let_def if_not_P[OF False] snd_conv nm2_def ret_def rej_def nm1_def by (rule refl)
    have t1: "same_table nm nm1" by (simp add: nm1_def)
    have r1: "free_nid_root nm1 = free_nid_root nm" "free_nid_list nm1 = free_nid_list nm" "nid_cnt nm1 = nid_cnt nm" "free_nid_bitmap nm1 = free_nid_bitmap nm"
      "nat_block_bitmap nm1 = nat_block_bitmap nm" "nm_bug nm1 = nm_bug nm" by (simp_all add: nm1_def)
    have tr1: "nid_tree_ok L nm1" using same_table_tree[OF t1 r1(1-3)] O(2) by simp
    have t2: "same_table nm nm2" using same_table_trans[OF t1] t1 by (simp add: nm2_def)
    have t': "same_table nm nm'" using same_table_trans[OF t2] t2 by (simp add: nm')
    have r2: "free_nid_root nm2 = (if ret \<and> free_nid_root nm n = None then (free_nid_root nm)(n \<mapsto> FREE_NID) else free_nid_root nm)"
      "free_nid_bitmap nm2 = free_nid_bitmap nm" "nat_block_bitmap nm2 = nat_block_bitmap nm" "nm_bug nm2 = nm_bug nm"
      using r1 by (simp_all add: nm2_def insert_free_nid_def nid_ops_def Let_def split: option.split)
    have tr2: "nid_tree_ok L nm2" using insert_free_nid_tree(1)[OF tr1, of n] same_table_views(6,7)[OF t1, of L] O(7) v r1(1) tr1 by (simp add: nm2_def)
    have tr': "nid_tree_ok L nm'" using same_table_tree[of nm2 nm' L] tr2 by (simp add: nm')
    have ok_n: "\<not> rej \<Longrightarrow> \<not> nid_dirty nm n \<and> (block_addr (nat_of L nm n) = NULL_ADDR (nm_sbi L) \<or> n \<in> J)"
      using O(6) un[OF v] by (cases "nat_root nm n") (auto simp: rej_def nid_dirty_def nat_of_def freed_ok_def)
    have root': "free_nid_root nm' = free_nid_root nm2" "nat_block_bitmap nm' = nat_block_bitmap nm" "nm_bug nm' = nm_bug nm" by (simp_all add: nm' r2)
    have bits': "nid_bit L nm' m = (if upd \<and> m = n \<and> nat_block_bitmap nm (NAT_BLOCK_OFFSET L n) then ret else nid_bit L nm m)" for m
      by (simp add: nm' update_bitmap_bit r2) (simp add: nid_bit_def r2)
    have sc: "free_nid_bitmap nm' b k \<Longrightarrow> nat_block_bitmap nm' b" for b k
      using O(3) update_bitmap_scanned[of nm2 L n ret True b k] by (auto simp: nm' bits_ok_def r2 split: if_splits)
    have "ids_ok L J nm'"
      by (rule ids_change[OF ok t' tr' _ _ sc])
        (use ok_n J in \<open>auto simp: root' r2(1) bits' ret_def split: if_splits\<close>)
    moreover have "held nm' = held nm" by (auto simp: held_def root' r2(1))
    ultimately show ?thesis using t' root' r2(1) by auto
  qed
  then show "ids_ok L J nm'" "same_table nm nm'" "free_nid_root nm m = Some FREE_NID \<Longrightarrow> free_nid_root nm' m = Some FREE_NID"
    "nat_block_bitmap nm' = nat_block_bitmap nm" "nm_bug nm' = nm_bug nm" "held nm' = held nm" by blast+
qed

end
