(* ===== verification/Nid_Scan.thy ===== *)
theory Nid_Scan
  imports Nid_Inv
begin

text \<open>
  Collecting free ids from the bitmaps, the NAT blocks and the journal. Ids that the bitmaps and the
  blocks offer can be in use according to the journal: they are taken off the list again at the
  end.
\<close>

section \<open>The journal\<close>

text \<open>Fields that do not matter here.\<close>

lemma ids_other:
  assumes "ids_ok L J nm"
  shows "ids_ok L J (nm\<lparr>next_scan_nid := x\<rparr>)" "ids_ok L J (nm\<lparr>available_nids := y\<rparr>)"
  by (rule ids_change[OF assms]; use ids_okD(2,3)[OF assms] in \<open>auto simp: same_table_def nid_tree_ok_def valid_nid_def nid_bit_def bits_ok_def\<close>)+

lemma clean_saved:
  assumes "nat_cache_ok L {} nm" "\<not> nid_dirty nm n"
  shows "nat_of L nm n = saved_nat L nm n"
proof (cases "nat_root nm n")
  case (Some e)
  then show ?thesis using assms cache_okD(2)[OF assms(1)] by (auto simp: entries_ok_def coherent_def nid_dirty_def nat_of_def)
qed (simp add: nat_of_def)

lemma ids_reduce:
  assumes "ids_ok L (insert n J) nm" "free_nid_root nm n = Some FREE_NID \<Longrightarrow> \<not> nid_dirty nm n \<Longrightarrow> block_addr (nat_of L nm n) = NULL_ADDR (nm_sbi L)"
  shows "ids_ok L J nm"
proof -
  have "nids_free_ok L J nm" using ids_okD(4)[OF assms(1)] assms(2) by (auto simp: nids_free_ok_def)
  then show ?thesis using assms(1) by (simp add: ids_ok_def)
qed

lemma ids_weaken: "ids_ok L J nm \<Longrightarrow> J \<subseteq> J' \<Longrightarrow> ids_ok L J' nm"
  by (auto simp: ids_ok_def nids_free_ok_def)

lemma drop_free_ok:
  assumes ok: "ids_ok L J nm" and n: "free_nid_root nm n = Some st"
  shows "ids_ok L J (drop_free_nid n st nm)"
proof (rule ids_change[OF ok])
  note O = ids_okD[OF ok] and D = drop_free_nid_tree[OF ids_okD(2,7)[OF ok] n]
  show "same_table nm (drop_free_nid n st nm)" by simp
  show "nid_tree_ok L (drop_free_nid n st nm)" by (rule D(1))
  show "nat_block_bitmap (drop_free_nid n st nm) b" if "free_nid_bitmap (drop_free_nid n st nm) b k" for b k
    using that O(3) by (auto simp: bits_ok_def)
qed (use drop_free_nid_tree(2)[OF ids_okD(2,7)[OF ok] n] in \<open>auto simp: nid_bit_def split: if_splits\<close>)

lemma remove_free_nid_ok:
  assumes ok: "ids_ok L J nm"
  shows "ids_ok L J (remove_free_nid n nm)" "same_table nm (remove_free_nid n nm)" "free_nid_root (remove_free_nid n nm) n \<noteq> Some FREE_NID"
    "nm_bug (remove_free_nid n nm) = nm_bug nm" "held (remove_free_nid n nm) = held nm"
  using drop_free_ok[OF ok, of n FREE_NID] drop_free_nid_tree[OF ids_okD(2,7)[OF ok], of n FREE_NID] ok
  by (auto simp: remove_free_nid_def lookup_free_nid_list_def held_def)

definition curseg_step :: "node_lay \<Rightarrow> nat \<times> raw_nat \<Rightarrow> f2fs_nm_info \<Rightarrow> f2fs_nm_info" where
  "curseg_step L x nm = (case x of (nid, r) \<Rightarrow>
     if block_addr r = NULL_ADDR (nm_sbi L) then snd (add_free_nid L nid True False nm) else remove_free_nid nid nm)"

lemma scan_curseg_eq: "scan_curseg_cache L nm = fold (curseg_step L) (nat_journal nm) nm"
  unfolding scan_curseg_cache_def curseg_step_def by (intro fold_cong refl) auto

lemma curseg_step_ok:
  assumes ok: "ids_ok L (insert n J) nm" and J: "insert n J \<subseteq> fst ` set (nat_journal nm)" and m: "map_of (nat_journal nm) n = Some r"
  shows "ids_ok L J (curseg_step L (n, r) nm)" "same_table nm (curseg_step L (n, r) nm)" "nm_bug (curseg_step L (n, r) nm) = nm_bug nm"
    "held (curseg_step L (n, r) nm) = held nm"
proof -
  have sv: "saved_nat L nm n = r" using m by (simp add: saved_nat_def)
  have "ids_ok L J (curseg_step L (n, r) nm) \<and> same_table nm (curseg_step L (n, r) nm) \<and> nm_bug (curseg_step L (n, r) nm) = nm_bug nm \<and>
      held (curseg_step L (n, r) nm) = held nm"
  proof (cases "block_addr r = NULL_ADDR (nm_sbi L)")
    case True
    define nm' where "nm' = snd (add_free_nid L n True False nm)"
    have A: "ids_ok L (insert n J) nm'" "same_table nm nm'" "nm_bug nm' = nm_bug nm" "held nm' = held nm"
      unfolding nm'_def by (rule add_build_ok[OF ok J]; simp)+
    have "ids_ok L J nm'"
    proof (rule ids_reduce[OF A(1)])
      assume "\<not> nid_dirty nm' n"
      then show "block_addr (nat_of L nm' n) = NULL_ADDR (nm_sbi L)"
        using clean_saved[OF ids_okD(1)[OF A(1)], of n] same_table_views(5)[OF A(2), of L] sv True by simp
    qed
    then show ?thesis using A True by (simp add: curseg_step_def nm'_def)
  next
    case False
    note R = remove_free_nid_ok[OF ok, of n]
    have "ids_ok L J (remove_free_nid n nm)" by (rule ids_reduce[OF R(1)]) (use R(3) in simp)
    then show ?thesis using R False by (simp add: curseg_step_def)
  qed
  then show "ids_ok L J (curseg_step L (n, r) nm)" "same_table nm (curseg_step L (n, r) nm)" "nm_bug (curseg_step L (n, r) nm) = nm_bug nm"
    "held (curseg_step L (n, r) nm) = held nm" by blast+
qed

lemma scan_curseg_ok:
  assumes "ids_ok L (fst ` set (nat_journal nm)) nm"
  shows "ids_ok L {} (scan_curseg_cache L nm)" "same_table nm (scan_curseg_cache L nm)" "nm_bug (scan_curseg_cache L nm) = nm_bug nm"
    "held (scan_curseg_cache L nm) = held nm"
proof -
  have d: "distinct (map fst (nat_journal nm))" using ids_okD(8)[OF assms] by (simp add: journal_ok_def)
  have "ids_ok L {} (fold (curseg_step L) xs nm1) \<and> same_table nm (fold (curseg_step L) xs nm1) \<and> nm_bug (fold (curseg_step L) xs nm1) = nm_bug nm1 \<and>
      held (fold (curseg_step L) xs nm1) = held nm1"
    if "ids_ok L (fst ` set xs) nm1" "same_table nm nm1" "set xs \<subseteq> set (nat_journal nm)" "distinct (map fst xs)" for xs nm1
    using that
  proof (induction xs arbitrary: nm1)
    case (Cons x xs)
    obtain n r where x: "x = (n, r)" by (cases x) auto
    have j: "nat_journal nm1 = nat_journal nm" using Cons.prems(2) by (simp add: same_table_def)
    have m: "map_of (nat_journal nm1) n = Some r" using Cons.prems(3) d by (simp add: j x)
    have ok: "ids_ok L (insert n (fst ` set xs)) nm1" using Cons.prems(1) by (simp add: x)
    have J: "insert n (fst ` set xs) \<subseteq> fst ` set (nat_journal nm1)" using Cons.prems(3) by (force simp: j x)
    note S = curseg_step_ok[OF ok J m]
    have i: "ids_ok L {} (fold (curseg_step L) xs (curseg_step L x nm1)) \<and> same_table nm (fold (curseg_step L) xs (curseg_step L x nm1)) \<and>
        nm_bug (fold (curseg_step L) xs (curseg_step L x nm1)) = nm_bug (curseg_step L x nm1) \<and>
        held (fold (curseg_step L) xs (curseg_step L x nm1)) = held (curseg_step L x nm1)"
      by (rule Cons.IH) (use S Cons.prems same_table_trans[OF Cons.prems(2) S(2)] in \<open>auto simp: x\<close>)
    then show ?case using S(3,4) by (simp add: x)
  qed simp
  from this[OF assms] d show "ids_ok L {} (scan_curseg_cache L nm)" "same_table nm (scan_curseg_cache L nm)" "nm_bug (scan_curseg_cache L nm) = nm_bug nm"
    "held (scan_curseg_cache L nm) = held nm"
    by (simp_all add: scan_curseg_eq)
qed


section \<open>The bitmaps\<close>

text \<open>A step while collecting: the table stays, and what may still be wrong is in the journal.\<close>

definition collecting :: "node_lay \<Rightarrow> f2fs_nm_info \<Rightarrow> f2fs_nm_info \<Rightarrow> bool" where
  "collecting L nm nm' \<longleftrightarrow> ids_ok L (fst ` set (nat_journal nm)) nm' \<and> same_table nm nm' \<and> nm_bug nm' = nm_bug nm \<and> held nm' = held nm"

lemma collecting_trans: "collecting L a b \<Longrightarrow> collecting L b c \<Longrightarrow> collecting L a c"
  by (auto simp: collecting_def same_table_def)

lemma collecting_refl: "ids_ok L (fst ` set (nat_journal nm)) nm \<Longrightarrow> collecting L nm nm"
  by (simp add: collecting_def)

lemma collectingD: "collecting L nm nm' \<Longrightarrow> ids_ok L (fst ` set (nat_journal nm')) nm'"
  by (simp add: collecting_def same_table_def)

lemma add_collecting:
  assumes "ids_ok L (fst ` set (nat_journal nm)) nm"
    "valid_nid L nm n \<Longrightarrow> nat_root nm n = None \<Longrightarrow> block_addr (saved_nat L nm n) = NULL_ADDR (nm_sbi L) \<or> n \<in> fst ` set (nat_journal nm)"
  shows "collecting L nm (snd (add_free_nid L n True upd nm))"
  unfolding collecting_def using add_build_ok[OF assms(1) order_refl assms(2)] by blast

lemma split_block: "k < NAT_ENTRY_PER_BLOCK L \<Longrightarrow> NAT_BLOCK_OFFSET L (i * NAT_ENTRY_PER_BLOCK L + k) = i"
  "k < NAT_ENTRY_PER_BLOCK L \<Longrightarrow> i * NAT_ENTRY_PER_BLOCK L + k - START_NID L (i * NAT_ENTRY_PER_BLOCK L + k) = k"
  by (simp_all add: NAT_BLOCK_OFFSET_def START_NID_def)

lemma scan_block_bits_ok:
  "ids_ok L (fst ` set (nat_journal nm)) nm \<Longrightarrow> set js \<subseteq> {..<NAT_ENTRY_PER_BLOCK L} \<Longrightarrow> collecting L nm (snd (scan_block_bits L i js nm))"
proof (induction js arbitrary: nm)
  case Nil
  then show ?case by (simp add: collecting_refl)
next
  case (Cons k js)
  show ?case
  proof (cases "free_nid_bitmap nm i k")
    case False
    then show ?thesis using Cons by simp
  next
    case True
    define n where "n = i * NAT_ENTRY_PER_BLOCK L + k"
    have b: "nid_bit L nm n" using True Cons.prems(2) split_block[of k L i] by (simp add: nid_bit_def n_def)
    have C: "collecting L nm (snd (add_free_nid L n True False nm))"
    proof (rule add_collecting[OF Cons.prems(1)])
      assume "valid_nid L nm n" "nat_root nm n = None"
      then show "block_addr (saved_nat L nm n) = NULL_ADDR (nm_sbi L) \<or> n \<in> fst ` set (nat_journal nm)"
        using ids_okD(3)[OF Cons.prems(1)] b by (auto simp: bits_ok_def nat_of_def nid_dirty_def)
    qed
    have "collecting L nm (snd (scan_block_bits L i js (snd (add_free_nid L n True False nm))))"
      using collecting_trans[OF C Cons.IH[OF collectingD[OF C]]] Cons.prems(2) by simp
    then show ?thesis using True C by (simp add: n_def Let_def)
  qed
qed

lemma scan_blocks_ok: "ids_ok L (fst ` set (nat_journal nm)) nm \<Longrightarrow> collecting L nm (scan_blocks L is nm)"
proof (induction "is" arbitrary: nm)
  case Nil
  then show ?case by (simp add: collecting_refl)
next
  case (Cons i js)
  have C: "collecting L nm (snd (scan_block_bits L i [0..<NAT_ENTRY_PER_BLOCK L] nm))" by (rule scan_block_bits_ok[OF Cons.prems]) auto
  show ?case using Cons C collecting_trans[OF C Cons.IH[OF collectingD[OF C]]]
    by (auto split: prod.split simp: Let_def)
qed

lemma scan_free_nid_bits_ok:
  assumes "ids_ok L {} nm"
  shows "ids_ok L {} (scan_free_nid_bits L nm)" "same_table nm (scan_free_nid_bits L nm)" "nm_bug (scan_free_nid_bits L nm) = nm_bug nm"
    "held (scan_free_nid_bits L nm) = held nm"
proof -
  have C: "collecting L nm (scan_blocks L [0..<nat_blocks nm] nm)" by (rule scan_blocks_ok[OF ids_weaken[OF assms]]) simp
  note S = scan_curseg_ok[OF collectingD[OF C], folded scan_free_nid_bits_def]
  show "ids_ok L {} (scan_free_nid_bits L nm)" by (rule S(1))
  show "same_table nm (scan_free_nid_bits L nm)" "nm_bug (scan_free_nid_bits L nm) = nm_bug nm" "held (scan_free_nid_bits L nm) = held nm"
    using S(2,3,4) C same_table_trans by (auto simp: collecting_def)
qed

section \<open>The blocks\<close>

lemma set_scanned_ok:
  assumes "ids_ok L J nm"
  shows "ids_ok L J (nm\<lparr>nat_block_bitmap := (nat_block_bitmap nm)(b := True)\<rparr>)"
proof (rule ids_change[OF assms])
  show "nat_block_bitmap (nm\<lparr>nat_block_bitmap := (nat_block_bitmap nm)(b := True)\<rparr>) x" if "free_nid_bitmap (nm\<lparr>nat_block_bitmap := (nat_block_bitmap nm)(b := True)\<rparr>) x k" for x k
    using that ids_okD(3)[OF assms] by (auto simp: bits_ok_def)
qed (use ids_okD(2)[OF assms] in \<open>auto simp: same_table_def nid_tree_ok_def valid_nid_def nid_bit_def\<close>)

lemma clear_bit_ok:
  assumes "ids_ok L J nm"
  shows "ids_ok L J (update_free_nid_bitmap L n False bld nm)"
proof (rule ids_change[OF assms])
  show "nat_block_bitmap (update_free_nid_bitmap L n False bld nm) x" if "free_nid_bitmap (update_free_nid_bitmap L n False bld nm) x k" for x k
    using update_bitmap_scanned[of nm L n False bld x k] that ids_okD(3)[OF assms] by (auto simp: bits_ok_def)
  show "nid_tree_ok L (update_free_nid_bitmap L n False bld nm)" using same_table_tree[of nm "update_free_nid_bitmap L n False bld nm" L] ids_okD(2)[OF assms] by simp
qed (auto simp: update_bitmap_bit split: if_splits)

lemma scan_nat_entries_ok:
  assumes "ids_ok L (fst ` set (nat_journal nm)) nm" "\<And>k. k < NAT_ENTRY_PER_BLOCK L \<Longrightarrow> blk k = disk_nat L nm (b * NAT_ENTRY_PER_BLOCK L + k)" "k \<le> NAT_ENTRY_PER_BLOCK L"
  shows "collecting L nm (snd (scan_nat_entries L blk [k..<NAT_ENTRY_PER_BLOCK L] (b * NAT_ENTRY_PER_BLOCK L + k) nm))"
  using assms
proof (induction "NAT_ENTRY_PER_BLOCK L - k" arbitrary: k nm)
  case 0
  then show ?case by (simp add: collecting_refl)
next
  case (Suc x)
  define n where "n = b * NAT_ENTRY_PER_BLOCK L + k"
  have k: "k < NAT_ENTRY_PER_BLOCK L" using Suc(2) by simp
  then have l: "[k..<NAT_ENTRY_PER_BLOCK L] = k # [Suc k..<NAT_ENTRY_PER_BLOCK L]" by (rule upt_conv_Cons)
  define nm1 where "nm1 = (if block_addr (blk k) = NULL_ADDR (nm_sbi L) then snd (add_free_nid L n True True nm) else update_free_nid_bitmap L n False True nm)"
  have C: "collecting L nm nm1"
  proof (cases "block_addr (blk k) = NULL_ADDR (nm_sbi L)")
    case True
    have "collecting L nm (snd (add_free_nid L n True True nm))"
    proof (rule add_collecting[OF Suc(3)])
      show "block_addr (saved_nat L nm n) = NULL_ADDR (nm_sbi L) \<or> n \<in> fst ` set (nat_journal nm)"
      proof (cases "map_of (nat_journal nm) n")
        case None
        then show ?thesis using True Suc(4)[OF k] by (simp add: saved_nat_def n_def)
      next
        case (Some r)
        then have "(n, r) \<in> set (nat_journal nm)" by (rule map_of_SomeD)
        then show ?thesis by force
      qed
    qed
    then show ?thesis using True by (simp add: nm1_def)
  next
    case False
    then show ?thesis using clear_bit_ok[OF Suc(3), of n True] by (simp add: nm1_def collecting_def held_def)
  qed
  have "disk_nat L nm1 = disk_nat L nm" using same_disk_disk_nat[OF same_table_disk, of nm nm1 L] C by (auto simp: collecting_def)
  then have "collecting L nm1 (snd (scan_nat_entries L blk [Suc k..<NAT_ENTRY_PER_BLOCK L] (b * NAT_ENTRY_PER_BLOCK L + Suc k) nm1))"
    using Suc(2,4) k by (intro Suc(1)[OF _ collectingD[OF C]]) auto
  from collecting_trans[OF C this] show ?case using Suc(3) by (auto simp: l nm1_def n_def collecting_refl)
qed

lemma scan_nat_page_ok:
  assumes ok: "ids_ok L (fst ` set (nat_journal nm)) nm" and pg: "page = nat_meta nm (current_nat_addr L nm n)" and n: "n mod NAT_ENTRY_PER_BLOCK L = 0"
  shows "collecting L nm (snd (scan_nat_page L page n nm))"
proof -
  define nm1 where "nm1 = nm\<lparr>nat_block_bitmap := (nat_block_bitmap nm)(NAT_BLOCK_OFFSET L n := True)\<rparr>"
  have C: "collecting L nm nm1" unfolding collecting_def nm1_def using set_scanned_ok[OF ok] by (simp add: same_table_def held_def)
  have e: "n = NAT_BLOCK_OFFSET L n * NAT_ENTRY_PER_BLOCK L" using n by (simp add: NAT_BLOCK_OFFSET_def mult.commute mod_0_imp_dvd)
  have "page k = disk_nat L nm1 (NAT_BLOCK_OFFSET L n * NAT_ENTRY_PER_BLOCK L + k)" if "k < NAT_ENTRY_PER_BLOCK L" for k
    using split_block[OF that, of "NAT_BLOCK_OFFSET L n"] by (simp add: disk_nat_def pg nm1_def current_nat_addr_def)
  then have "collecting L nm1 (snd (scan_nat_entries L page [0..<NAT_ENTRY_PER_BLOCK L] (NAT_BLOCK_OFFSET L n * NAT_ENTRY_PER_BLOCK L + 0) nm1))"
    by (intro scan_nat_entries_ok[OF collectingD[OF C]]) simp_all
  from collecting_trans[OF C this] show ?thesis using e n by (simp add: scan_nat_page_def nm1_def)
qed

lemma collecting_stop:
  assumes "ids_ok L (fst ` set (nat_journal nm)) nm"
  shows "collecting L nm (f2fs_stop_checkpoint nm)"
proof -
  have f: "free_nid_root (f2fs_stop_checkpoint nm) = free_nid_root nm" "free_nid_list (f2fs_stop_checkpoint nm) = free_nid_list nm"
    "nid_cnt (f2fs_stop_checkpoint nm) = nid_cnt nm" "free_nid_bitmap (f2fs_stop_checkpoint nm) = free_nid_bitmap nm"
    "nat_block_bitmap (f2fs_stop_checkpoint nm) = nat_block_bitmap nm" by (simp_all add: f2fs_stop_checkpoint_def)
  have "nid_tree_ok L (f2fs_stop_checkpoint nm)" using same_table_tree[OF stop_same(1) f(1-3)] ids_okD(2)[OF assms] by simp
  then have "ids_ok L (fst ` set (nat_journal nm)) (f2fs_stop_checkpoint nm)"
    by (rule ids_change[OF assms stop_same(1)]) (use f ids_okD(3)[OF assms] in \<open>auto simp: nid_bit_def bits_ok_def\<close>)
  then show ?thesis by (simp add: collecting_def held_def f)
qed

lemma scan_nat_pages_ok:
  "ids_ok L (fst ` set (nat_journal nm)) nm \<Longrightarrow> n mod NAT_ENTRY_PER_BLOCK L = 0 \<Longrightarrow> n < max_nid nm \<Longrightarrow> collecting L nm (snd (scan_nat_pages L c k n nm))"
proof (induction k arbitrary: n nm)
  case 0
  then show ?case by (simp add: collecting_refl)
next
  case (Suc k)
  define st where "st = (if nat_block_bitmap nm (NAT_BLOCK_OFFSET L n) then (None, nm)
      else case get_current_nat_page L c n nm of (Inl e, nm) \<Rightarrow> (Some e, nm) | (Inr page, nm) \<Rightarrow> scan_nat_page L page n nm)"
  have C: "collecting L nm (snd st)" using scan_nat_page_ok[OF Suc.prems(1) refl Suc.prems(2)] collecting_refl[OF Suc.prems(1)] collecting_stop[OF Suc.prems(1)]
    by (auto simp: st_def page_defs split: option.split)
  note O = ids_okD(7)[OF Suc.prems(1)]
  define n' where "n' = u32 (n + (NAT_ENTRY_PER_BLOCK L - n mod NAT_ENTRY_PER_BLOCK L))"
  have "n + NAT_ENTRY_PER_BLOCK L < 2 ^ 32" using O Suc.prems(3) by (simp add: lay_ok_def)
  then have n': "n' = n + NAT_ENTRY_PER_BLOCK L" using Suc.prems(2) by (simp add: n'_def u32_id)
  define n2 where "n2 = (if n' \<ge> max_nid (snd st) then 0 else n')"
  have m: "max_nid (snd st) = max_nid nm" using C by (simp add: collecting_def same_table_def)
  have "n2 mod NAT_ENTRY_PER_BLOCK L = 0" "n2 < max_nid (snd st)" using n' Suc.prems(2,3) m by (auto simp: n2_def)
  then have "collecting L nm (snd (scan_nat_pages L c k n2 (snd st)))" by (rule collecting_trans[OF C Suc.IH[OF collectingD[OF C]]])
  then show ?case using C by (auto simp: st_def[symmetric] n'_def[symmetric] n2_def[symmetric] Let_def split: prod.split option.split) (simp_all add: n2_def n'_def split: if_splits)
qed


section \<open>Collecting\<close>

lemma build_free_nids_ok:
  assumes ok: "ids_ok L {} nm" and r: "f2fs_build_free_nids L c sync mount nm = (None, nm')"
  shows "ids_ok L {} nm'" "same_table nm nm'" "nm_bug nm' = nm_bug nm" "held nm' = held nm"
proof -
  define n0 where "n0 = (if next_scan_nid nm \<ge> max_nid nm then 0 else next_scan_nid nm)"
  define n where "n = (if n0 mod NAT_ENTRY_PER_BLOCK L \<noteq> 0 then NAT_BLOCK_OFFSET L n0 * NAT_ENTRY_PER_BLOCK L else n0)"
  define nm1 where "nm1 = (if mount then nm else scan_free_nid_bits L nm)"
  have S: "ids_ok L {} nm1" "same_table nm nm1" "nm_bug nm1 = nm_bug nm" "held nm1 = held nm" using scan_free_nid_bits_ok[OF ok] ok by (simp_all add: nm1_def)
  have lay: "0 < NAT_ENTRY_PER_BLOCK L" "max_nid nm = NAT_ENTRY_PER_BLOCK L * nat_blocks nm" "0 < nat_blocks nm"
    using ids_okD(7)[OF ok] by (simp_all add: lay_ok_def)
  have n0: "n0 < max_nid nm" using lay by (simp add: n0_def)
  have "NAT_BLOCK_OFFSET L n0 * NAT_ENTRY_PER_BLOCK L \<le> n0" by (simp add: NAT_BLOCK_OFFSET_def div_times_less_eq_dividend)
  then have n: "n mod NAT_ENTRY_PER_BLOCK L = 0" "n < max_nid nm1" using n0 S(2) by (simp_all add: n_def same_table_def)
  define pg where "pg = scan_nat_pages L c FREE_NID_PAGES n nm1"
  have C: "collecting L nm1 (snd pg)" unfolding pg_def by (rule scan_nat_pages_ok[OF ids_weaken[OF S(1)] n]) simp
  define nm2 where "nm2 = (snd pg)\<lparr>next_scan_nid := projr (fst pg)\<rparr>"
  have t2: "same_table nm1 nm2" and b2: "nm_bug nm2 = nm_bug nm1" "held nm2 = held nm1"
    using C by (simp_all add: collecting_def same_table_def nm2_def held_def)
  have ok2: "ids_ok L (fst ` set (nat_journal nm2)) nm2"
    using ids_other(1)[OF collectingD[OF C]] by (simp add: nm2_def)
  note Z = scan_curseg_ok[OF ok2]
  have e: "f2fs_build_free_nids L c sync mount nm = (if nid_cnt nm FREE_NID \<ge> NAT_ENTRY_PER_BLOCK L then (None, nm)
      else if \<not> sync \<and> \<not> free_nids_memory L c nm then (None, nm)
      else if \<not> mount \<and> nid_cnt nm1 FREE_NID \<ge> NAT_ENTRY_PER_BLOCK L then (None, nm1)
      else case pg of (Inl e, x) \<Rightarrow> (Some e, x) | (Inr k, x) \<Rightarrow> (None, scan_curseg_cache L (x\<lparr>next_scan_nid := k\<rparr>)))"
    unfolding f2fs_build_free_nids_def Let_def n0_def n_def nm1_def pg_def by (rule refl)
  have "nm' = nm \<or> nm' = nm1 \<or> nm' = scan_curseg_cache L nm2"
    using r by (cases pg; cases "fst pg") (auto simp: e nm2_def split: if_splits)
  then have "ids_ok L {} nm' \<and> same_table nm nm' \<and> nm_bug nm' = nm_bug nm \<and> held nm' = held nm"
    using ok S Z b2 same_table_trans[OF S(2) same_table_trans[OF t2 Z(2)]] by auto
  then show "ids_ok L {} nm'" "same_table nm nm'" "nm_bug nm' = nm_bug nm" "held nm' = held nm" by blast+
qed

text \<open>When it fails, ids that only the journal knows to be in use may be on the free list.\<close>

lemma build_free_nids_err:
  assumes ok: "ids_ok L {} nm" and r: "f2fs_build_free_nids L c sync mount nm = (Some e, nm')"
  shows "ids_ok L (fst ` set (nat_journal nm)) nm'" "same_table nm nm'" "nm_bug nm' = nm_bug nm" "held nm' = held nm"
proof -
  define n0 where "n0 = (if next_scan_nid nm \<ge> max_nid nm then 0 else next_scan_nid nm)"
  define n where "n = (if n0 mod NAT_ENTRY_PER_BLOCK L \<noteq> 0 then NAT_BLOCK_OFFSET L n0 * NAT_ENTRY_PER_BLOCK L else n0)"
  define nm1 where "nm1 = (if mount then nm else scan_free_nid_bits L nm)"
  have S: "ids_ok L {} nm1" "same_table nm nm1" "nm_bug nm1 = nm_bug nm" "held nm1 = held nm" using scan_free_nid_bits_ok[OF ok] ok by (simp_all add: nm1_def)
  have "n0 < max_nid nm" using ids_okD(7)[OF ok] by (simp add: n0_def lay_ok_def)
  moreover have "NAT_BLOCK_OFFSET L n0 * NAT_ENTRY_PER_BLOCK L \<le> n0" by (simp add: NAT_BLOCK_OFFSET_def div_times_less_eq_dividend)
  ultimately have n: "n mod NAT_ENTRY_PER_BLOCK L = 0" "n < max_nid nm1" using S(2) by (simp_all add: n_def same_table_def)
  have C: "collecting L nm1 (snd (scan_nat_pages L c FREE_NID_PAGES n nm1))" by (rule scan_nat_pages_ok[OF ids_weaken[OF S(1)] n]) simp
  have "nm' = snd (scan_nat_pages L c FREE_NID_PAGES n nm1)"
    using r unfolding f2fs_build_free_nids_def Let_def n0_def[symmetric] n_def[symmetric] nm1_def[symmetric]
    by (auto split: if_splits prod.splits sum.splits)
  then show "ids_ok L (fst ` set (nat_journal nm)) nm'" "same_table nm nm'" "nm_bug nm' = nm_bug nm" "held nm' = held nm"
    using C S same_table_trans[OF S(2)] by (simp_all add: collecting_def) (simp add: same_table_def)
qed

end
