(* ===== verification/Nid_Alloc.thy ===== *)
theory Nid_Alloc
  imports Nid_Scan
begin

text \<open>
  Handing out ids and taking them back. While the NAT blocks are readable an id that is handed out
  has no node and is held by nobody.
\<close>

section \<open>Reading the blocks\<close>

definition readable :: "node_cond \<Rightarrow> bool" where
  "readable c \<longleftrightarrow> (\<forall>a. page_err c a = None)"

lemma max_nid_add [simp]: "max_nid (snd (add_free_nid L n build upd nm)) = max_nid nm"
  by (auto simp: add_free_nid_def insert_free_nid_def update_free_nid_bitmap_def nid_ops_def Let_def split: option.split)

lemma max_nid_update [simp]: "max_nid (update_free_nid_bitmap L n b bld nm) = max_nid nm"
  by (simp add: update_free_nid_bitmap_def Let_def)

lemma scan_nat_entries_no_err:
  assumes "\<And>k. k \<in> set js \<Longrightarrow> start + (k - k0) < max_nid nm \<Longrightarrow> block_addr (blk k) \<noteq> NEW_ADDR (nm_sbi L)" "js = [k0..<m]"
  shows "fst (scan_nat_entries L blk js start nm) = None"
  using assms
proof (induction js arbitrary: start nm k0)
  case (Cons k js)
  have k: "k = k0" "js = [Suc k0..<m]" using Cons.prems(2)[symmetric] by (auto simp: upt_eq_Cons_conv)
  have "block_addr (blk k) \<noteq> NEW_ADDR (nm_sbi L)" if "start < max_nid nm" using Cons.prems(1)[of k] that k(1) by simp
  moreover have "fst (scan_nat_entries L blk js (start + 1) nm2) = None" if "max_nid nm2 = max_nid nm" for nm2
  proof (rule Cons.IH[OF _ k(2)])
    fix x assume x: "x \<in> set js" "start + 1 + (x - Suc k0) < max_nid nm2"
    then have "Suc k0 \<le> x" using k(2) by simp
    then have "start + 1 + (x - Suc k0) = start + (x - k0)" by simp
    then show "block_addr (blk x) \<noteq> NEW_ADDR (nm_sbi L)" using Cons.prems(1)[of x] x that by simp
  qed
  ultimately show ?case by simp
qed simp

lemma scan_nat_pages_no_err:
  "ids_ok L (fst ` set (nat_journal nm)) nm \<Longrightarrow> n mod NAT_ENTRY_PER_BLOCK L = 0 \<Longrightarrow> n < max_nid nm \<Longrightarrow>
    (\<exists>k. fst (scan_nat_pages L c j n nm) = Inr k) \<or> \<not> readable c \<and> nm_cp_error (snd (scan_nat_pages L c j n nm))"
proof (induction j arbitrary: n nm)
  case (Suc j)
  define st where "st = (if nat_block_bitmap nm (NAT_BLOCK_OFFSET L n) then (None, nm)
      else case get_current_nat_page L c n nm of (Inl e, nm) \<Rightarrow> (Some e, nm) | (Inr page, nm) \<Rightarrow> scan_nat_page L page n nm)"
  have e: "n = NAT_BLOCK_OFFSET L n * NAT_ENTRY_PER_BLOCK L" using Suc.prems(2) by (simp add: NAT_BLOCK_OFFSET_def mult.commute mod_0_imp_dvd)
  have "fst (scan_nat_page L (nat_meta nm (current_nat_addr L nm n)) n nm) = None"
    unfolding scan_nat_page_def Suc.prems(2)
  proof (rule scan_nat_entries_no_err[OF _ refl])
    fix k assume k: "k \<in> set [0..<NAT_ENTRY_PER_BLOCK L]" "n + (k - 0) < max_nid (nm\<lparr>nat_block_bitmap := (nat_block_bitmap nm)(NAT_BLOCK_OFFSET L n := True)\<rparr>)"
    then have "NAT_BLOCK_OFFSET L (n + k) = NAT_BLOCK_OFFSET L n" "n + k - START_NID L (n + k) = k" using split_block[of k L "NAT_BLOCK_OFFSET L n"] e by simp_all
    then have "disk_nat L nm (n + k) = nat_meta nm (current_nat_addr L nm n) k" by (simp add: disk_nat_def current_nat_addr_def)
    then show "block_addr (nat_meta nm (current_nat_addr L nm n) k) \<noteq> NEW_ADDR (nm_sbi L)"
      using ids_okD(8)[OF Suc.prems(1)] k by (auto simp: journal_ok_def)
  qed
  then have st0: "fst st = None \<or> \<not> readable c \<and> nm_cp_error (snd st)" by (auto simp: st_def page_defs readable_def f2fs_stop_checkpoint_def split: option.split)
  have C: "collecting L nm (snd st)" using scan_nat_page_ok[OF Suc.prems(1) refl Suc.prems(2)] collecting_refl[OF Suc.prems(1)] collecting_stop[OF Suc.prems(1)]
    by (auto simp: st_def page_defs split: option.split)
  define n' where "n' = u32 (n + (NAT_ENTRY_PER_BLOCK L - n mod NAT_ENTRY_PER_BLOCK L))"
  have "n + NAT_ENTRY_PER_BLOCK L < 2 ^ 32" using ids_okD(7)[OF Suc.prems(1)] Suc.prems(3) by (simp add: lay_ok_def)
  then have n': "n' = n + NAT_ENTRY_PER_BLOCK L" using Suc.prems(2) by (simp add: n'_def u32_id)
  define n2 where "n2 = (if n' \<ge> max_nid (snd st) then 0 else n')"
  have "max_nid (snd st) = max_nid nm" using C by (simp add: collecting_def same_table_def)
  then have "n2 mod NAT_ENTRY_PER_BLOCK L = 0" "n2 < max_nid (snd st)" using n' Suc.prems(2,3) by (auto simp: n2_def)
  then have I: "(\<exists>k. fst (scan_nat_pages L c j n2 (snd st)) = Inr k) \<or> \<not> readable c \<and> nm_cp_error (snd (scan_nat_pages L c j n2 (snd st)))"
    by (rule Suc.IH[OF collectingD[OF C]])
  show ?case
  proof (cases "fst st")
    case None
    then have "scan_nat_pages L c (Suc j) n nm = scan_nat_pages L c j n2 (snd st)" by (cases st) (simp add: st_def[symmetric] n'_def[symmetric] n2_def Let_def)
    then show ?thesis using I by simp
  next
    case (Some e)
    then have "scan_nat_pages L c (Suc j) n nm = (Inl e, snd st)" by (cases st) (simp add: st_def[symmetric] Let_def)
    then show ?thesis using st0 Some by simp
  qed
qed simp

lemma build_no_err:
  assumes ok: "ids_ok L {} nm"
  shows "fst (f2fs_build_free_nids L c sync mount nm) = None \<or> \<not> readable c \<and> nm_cp_error (snd (f2fs_build_free_nids L c sync mount nm))"
proof -
  define n0 where "n0 = (if next_scan_nid nm \<ge> max_nid nm then 0 else next_scan_nid nm)"
  define n where "n = (if n0 mod NAT_ENTRY_PER_BLOCK L \<noteq> 0 then NAT_BLOCK_OFFSET L n0 * NAT_ENTRY_PER_BLOCK L else n0)"
  define nm1 where "nm1 = (if mount then nm else scan_free_nid_bits L nm)"
  have S: "ids_ok L {} nm1" "same_table nm nm1" using scan_free_nid_bits_ok[OF ok] ok by (simp_all add: nm1_def)
  have "n0 < max_nid nm" using ids_okD(7)[OF ok] by (simp add: lay_ok_def n0_def)
  moreover have "NAT_BLOCK_OFFSET L n0 * NAT_ENTRY_PER_BLOCK L \<le> n0" by (simp add: NAT_BLOCK_OFFSET_def div_times_less_eq_dividend)
  ultimately have n: "n mod NAT_ENTRY_PER_BLOCK L = 0" "n < max_nid nm1" using S(2) by (simp_all add: n_def same_table_def)
  have k: "(\<exists>k. fst (scan_nat_pages L c FREE_NID_PAGES n nm1) = Inr k) \<or> \<not> readable c \<and> nm_cp_error (snd (scan_nat_pages L c FREE_NID_PAGES n nm1))"
    by (rule scan_nat_pages_no_err[OF ids_weaken[OF S(1)] n]) simp
  have e: "f2fs_build_free_nids L c sync mount nm = (if nid_cnt nm FREE_NID \<ge> NAT_ENTRY_PER_BLOCK L then (None, nm)
      else if \<not> sync \<and> \<not> free_nids_memory L c nm then (None, nm)
      else if \<not> mount \<and> nid_cnt nm1 FREE_NID \<ge> NAT_ENTRY_PER_BLOCK L then (None, nm1)
      else case scan_nat_pages L c FREE_NID_PAGES n nm1 of (Inl e, x) \<Rightarrow> (Some e, x) | (Inr k, x) \<Rightarrow> (None, scan_curseg_cache L (x\<lparr>next_scan_nid := k\<rparr>)))"
    unfolding f2fs_build_free_nids_def Let_def n0_def n_def nm1_def by (rule refl)
  show ?thesis using k by (auto simp: e split: prod.split sum.split)
qed

section \<open>Handing out\<close>

lemma free_listE:
  assumes "nid_tree_ok L nm" "nid_cnt nm FREE_NID \<noteq> 0"
  obtains n rest where "free_nid_list nm = n # rest" "free_nid_root nm n = Some FREE_NID"
proof -
  have "count_idx (\<lambda>x. x = Some FREE_NID) (free_nid_root nm) (max_nid nm) \<noteq> 0" using assms by (simp add: nid_tree_ok_def)
  then obtain m where "free_nid_root nm m = Some FREE_NID" unfolding count_idx_0_iff by blast
  then have "m \<in> set (free_nid_list nm)" using assms(1) by (simp add: nid_tree_ok_def)
  then obtain n rest where l: "free_nid_list nm = n # rest" by (cases "free_nid_list nm") auto
  then have "free_nid_root nm n = Some FREE_NID" using assms(1) unfolding nid_tree_ok_def by (metis list.set_intros(1))
  then show ?thesis using that l by blast
qed

lemma take_nid_ok:
  assumes ok: "ids_ok L {} nm" and n: "free_nid_root nm n = Some FREE_NID"
  defines "nm' \<equiv> update_free_nid_bitmap L n False False
    ((move_free_nid n FREE_NID PREALLOC_NID nm)\<lparr>available_nids := addu 32 (available_nids (move_free_nid n FREE_NID PREALLOC_NID nm)) (- 1)\<rparr>)"
  shows "ids_ok L {} nm'" "same_table nm nm'" "held nm' = insert n (held nm)" "nm_bug nm' = nm_bug nm"
proof -
  define nm1 where "nm1 = move_free_nid n FREE_NID PREALLOC_NID nm"
  note M = move_free_nid_tree[OF ids_okD(2,7)[OF ok] n, of PREALLOC_NID, simplified, folded nm1_def]
  have t1: "same_table nm nm1" by (simp add: nm1_def)
  have ok1: "ids_ok L {} nm1"
    by (rule ids_change[OF ok t1 M(1)]) (use M(2) n ids_okD(3)[OF ok] in \<open>auto simp: nm1_def nid_bit_def bits_ok_def split: if_splits\<close>)
  define nm2 where "nm2 = nm1\<lparr>available_nids := addu 32 (available_nids nm1) (- 1)\<rparr>"
  have t2: "same_table nm1 nm2" "free_nid_root nm2 = free_nid_root nm1" "nm_bug nm2 = nm_bug nm1" by (simp_all add: nm2_def same_table_def)
  have ok2: "ids_ok L {} nm2" unfolding nm2_def by (rule ids_other(2)[OF ok1])
  have e: "nm' = update_free_nid_bitmap L n False False nm2" by (simp add: nm'_def nm2_def nm1_def)
  show "ids_ok L {} nm'" unfolding e by (rule clear_bit_ok[OF ok2])
  show "same_table nm nm'" unfolding e using same_table_trans[OF same_table_trans[OF t1 t2(1)]] by simp
  show "held nm' = insert n (held nm)" "nm_bug nm' = nm_bug nm" unfolding e using M(2,3) t2 by (auto simp: held_def)
qed

lemma alloc_nid_ok:
  assumes "ids_ok L {} nm" "f2fs_alloc_nid L cs nm = (res, nm')"
  shows "same_table nm nm' \<and> nm_bug nm' = nm_bug nm \<and> nid_tree_ok L nm' \<and> (ids_ok L {} nm' \<or> nm_cp_error nm') \<and>
    (case res of Some (Some n) \<Rightarrow> ids_ok L {} nm' \<and> valid_nid L nm n \<and> block_addr (nat_of L nm n) = NULL_ADDR (nm_sbi L) \<and> n \<notin> held nm \<and> held nm' = insert n (held nm)
     | _ \<Rightarrow> held nm' = held nm)"
  using assms
proof (induction cs arbitrary: nm)
  case (Cons c cs)
  show ?case
  proof (cases "inject_alloc_nid c \<or> available_nids nm = 0")
    case True
    then show ?thesis using Cons.prems ids_okD(2)[OF Cons.prems(1)] by auto
  next
    case False
    show ?thesis
    proof (cases "nid_cnt nm FREE_NID \<noteq> 0 \<and> \<not> on_f2fs_build_free_nids c")
      case True
      then obtain n rest where l: "free_nid_list nm = n # rest" "free_nid_root nm n = Some FREE_NID" using free_listE[OF ids_okD(2)[OF Cons.prems(1)]] by blast
      note T = take_nid_ok[OF Cons.prems(1) l(2)]
      have "res = Some (Some n)" "nm' = update_free_nid_bitmap L n False False
          ((move_free_nid n FREE_NID PREALLOC_NID nm)\<lparr>available_nids := addu 32 (available_nids (move_free_nid n FREE_NID PREALLOC_NID nm)) (- 1)\<rparr>)"
        using Cons.prems(2) False True l(1) by (simp_all add: Let_def)
      moreover have "valid_nid L nm n" "block_addr (nat_of L nm n) = NULL_ADDR (nm_sbi L)" "n \<notin> held nm"
        using ids_okD(2,4)[OF Cons.prems(1)] l(2) by (auto simp: nid_tree_ok_def nids_free_ok_def held_def)
      ultimately show ?thesis using T ids_okD(2)[OF T(1)] by simp
    next
      case nb: False
      obtain r nm1 where b: "f2fs_build_free_nids L c True False nm = (r, nm1)" by fastforce
      show ?thesis
      proof (cases r)
        case None
        note B = build_free_nids_ok[OF Cons.prems(1) b[unfolded None]]
        have "f2fs_alloc_nid L cs nm1 = (res, nm')" using Cons.prems(2) False nb b None by (simp split: if_splits)
        from Cons.IH[OF B(1) this]
        show ?thesis using B same_table_trans[OF B(2), of nm'] same_table_views(1,6)[OF B(2), of L] by (auto split: option.splits)
      next
        case (Some e)
        note B = build_free_nids_err[OF Cons.prems(1) b[unfolded Some]]
        have "res = Some None" "nm' = nm1" using Cons.prems(2) False nb b Some by (auto split: if_splits)
        moreover have "nm_cp_error nm1" using build_no_err[OF Cons.prems(1), of c True False] b Some by simp
        ultimately show ?thesis using B ids_okD(2)[OF B(1)] by simp
      qed
    qed
  qed
qed (auto dest: ids_okD(2))

section \<open>Taking back\<close>

lemma alloc_nid_done_ok:
  assumes ok: "ids_ok L {} nm" and n: "n \<in> held nm"
  shows "ids_ok L {} (f2fs_alloc_nid_done n nm)" "same_table nm (f2fs_alloc_nid_done n nm)" "held (f2fs_alloc_nid_done n nm) = held nm - {n}"
    "nm_bug (f2fs_alloc_nid_done n nm) = nm_bug nm"
proof -
  have e: "f2fs_alloc_nid_done n nm = drop_free_nid n PREALLOC_NID nm"
    using n by (simp add: f2fs_alloc_nid_done_def lookup_free_nid_list_def held_def nm_bug_on_def)
  have r: "free_nid_root nm n = Some PREALLOC_NID" using n by (simp add: held_def)
  note D = drop_free_nid_tree[OF ids_okD(2,7)[OF ok] r]
  show "ids_ok L {} (f2fs_alloc_nid_done n nm)" unfolding e by (rule drop_free_ok[OF ok r])
  show "same_table nm (f2fs_alloc_nid_done n nm)" unfolding e by simp
  show "held (f2fs_alloc_nid_done n nm) = held nm - {n}" "nm_bug (f2fs_alloc_nid_done n nm) = nm_bug nm" unfolding e using D by (auto simp: held_def)
qed

lemma set_bit_ok:
  assumes ok: "ids_ok L J nm" and n: "block_addr (nat_of L nm n) = NULL_ADDR (nm_sbi L)"
  shows "ids_ok L J (update_free_nid_bitmap L n b bld nm)"
proof (rule ids_change[OF ok])
  show "nat_block_bitmap (update_free_nid_bitmap L n b bld nm) x" if "free_nid_bitmap (update_free_nid_bitmap L n b bld nm) x k" for x k
    using update_bitmap_scanned[of nm L n b bld x k] that ids_okD(3)[OF ok] by (auto simp: bits_ok_def)
  show "nid_tree_ok L (update_free_nid_bitmap L n b bld nm)" using same_table_tree[of nm "update_free_nid_bitmap L n b bld nm" L] ids_okD(2)[OF ok] by simp
qed (use n in \<open>auto simp: update_bitmap_bit split: if_splits\<close>)

lemma alloc_nid_failed_ok:
  assumes ok: "ids_ok L {} nm" and n: "n \<in> held nm" "block_addr (nat_of L nm n) = NULL_ADDR (nm_sbi L)"
  shows "ids_ok L {} (f2fs_alloc_nid_failed L c n nm)" "same_table nm (f2fs_alloc_nid_failed L c n nm)"
    "held (f2fs_alloc_nid_failed L c n nm) = held nm - {n}" "nm_bug (f2fs_alloc_nid_failed L c n nm) = nm_bug nm"
proof -
  have r: "free_nid_root nm n = Some PREALLOC_NID" using n by (simp add: held_def)
  have "valid_nid L nm n" using ids_okD(2)[OF ok] r by (simp add: nid_tree_ok_def)
  then have n0: "n \<noteq> 0" using ids_okD(7)[OF ok] by (auto simp: valid_nid_def lay_ok_def)
  define nm1 where "nm1 = (if \<not> free_nids_memory L c nm then drop_free_nid n PREALLOC_NID nm else move_free_nid n PREALLOC_NID FREE_NID nm)"
  have t1: "same_table nm nm1" by (simp add: nm1_def)
  note D = drop_free_nid_tree[OF ids_okD(2,7)[OF ok] r] and M = move_free_nid_tree[OF ids_okD(2,7)[OF ok] r, of FREE_NID, simplified]
  have "ids_ok L {} (move_free_nid n PREALLOC_NID FREE_NID nm)"
    by (rule ids_change[OF ok prim_same_table(3) M(1)])
      (use M(2) n r ids_okD(3,5)[OF ok] in \<open>auto simp: nid_bit_def bits_ok_def quiet_def split: if_splits\<close>)
  then have ok1: "ids_ok L {} nm1" using drop_free_ok[OF ok r] by (simp add: nm1_def)
  have h1: "held nm1 = held nm - {n}" "nm_bug nm1 = nm_bug nm" using D M by (auto simp: nm1_def held_def)
  define nm2 where "nm2 = nm1\<lparr>available_nids := addu 32 (available_nids nm1) 1\<rparr>"
  have t2: "same_table nm nm2" "held nm2 = held nm1" "nm_bug nm2 = nm_bug nm1" using t1 by (simp_all add: nm2_def same_table_def held_def)
  have ok2: "ids_ok L {} nm2" unfolding nm2_def by (rule ids_other(2)[OF ok1])
  have e: "f2fs_alloc_nid_failed L c n nm = update_free_nid_bitmap L n True False nm2"
    using n0 r by (simp add: f2fs_alloc_nid_failed_def lookup_free_nid_list_def nm_bug_on_def nm2_def nm1_def Let_def)
  show "ids_ok L {} (f2fs_alloc_nid_failed L c n nm)" unfolding e by (rule set_bit_ok[OF ok2]) (use n same_table_views(1)[OF t2(1), of L] in simp)
  show "same_table nm (f2fs_alloc_nid_failed L c n nm)" unfolding e using same_table_trans[OF t2(1)] by simp
  show "held (f2fs_alloc_nid_failed L c n nm) = held nm - {n}" "nm_bug (f2fs_alloc_nid_failed L c n nm) = nm_bug nm" unfolding e using t2 h1 by (auto simp: held_def)
qed

lemma free_nids_loop_ok:
  "ids_ok L {} nm \<Longrightarrow> ids_ok L {} (snd (free_nids_loop L k nm)) \<and> same_table nm (snd (free_nids_loop L k nm)) \<and>
     held (snd (free_nids_loop L k nm)) = held nm \<and> nm_bug (snd (free_nids_loop L k nm)) = nm_bug nm"
proof (induction k arbitrary: nm)
  case (Suc k)
  show ?case
  proof (cases "free_nid_list nm")
    case Nil
    then show ?thesis using Suc.prems by simp
  next
    case (Cons n rest)
    have r: "free_nid_root nm n = Some FREE_NID" using ids_okD(2)[OF Suc.prems] Cons unfolding nid_tree_ok_def by (metis list.set_intros(1))
    note D = drop_free_ok[OF Suc.prems r] drop_free_nid_tree[OF ids_okD(2,7)[OF Suc.prems] r]
    have "held (drop_free_nid n FREE_NID nm) = held nm" using D(3) r by (auto simp: held_def)
    then show ?thesis using Suc.IH[OF D(1)] D(4) same_table_trans[OF prim_same_table(2)[of nm n FREE_NID]] Suc.prems Cons by auto
  qed
qed simp

lemma try_to_free_nids_ok:
  fixes k :: nat and c :: node_cond
  assumes "ids_ok L {} nm"
  defines "nm' \<equiv> snd (f2fs_try_to_free_nids L c k nm)"
  shows "ids_ok L {} nm'" "same_table nm nm'" "held nm' = held nm" "nm_bug nm' = nm_bug nm"
  using free_nids_loop_ok[OF assms(1), of k] assms(1) unfolding nm'_def f2fs_try_to_free_nids_def
  by (cases "free_nids_loop L k nm"; simp)+

end
