(* ===== verification/Nat_Flush.thy ===== *)
theory Nat_Flush
  imports Nid_Alloc
begin

text \<open>
  Writing the dirty entries: one entry goes to the journal or to the copy of its NAT block that is
  not in use. The table does not change, what is saved comes to agree with it, and the ids of
  removed nodes become free.
\<close>

section \<open>Writing one entry\<close>

definition same_cache :: "f2fs_nm_info \<Rightarrow> f2fs_nm_info \<Rightarrow> bool" where
  "same_cache nm nm' \<longleftrightarrow> nat_root nm' = nat_root nm \<and> nat_set_root nm' = nat_set_root nm \<and> nat_entries nm' = nat_entries nm \<and> nat_cnt nm' = nat_cnt nm \<and>
     max_nid nm' = max_nid nm \<and> nat_blocks nm' = nat_blocks nm"

lemma cache_ok_disk:
  assumes ok: "nat_cache_ok L {} nm" and c: "same_cache nm nm'" and j: "journal_ok L nm'"
    and s: "\<And>n e. nat_root nm n = Some e \<Longrightarrow> \<not> dirty e \<Longrightarrow> saved_nat L nm' n = saved_nat L nm n"
  shows "nat_cache_ok L {} nm'"
proof -
  have v: "valid_nid L nm' = valid_nid L nm" using c by (simp add: valid_nid_def same_cache_def fun_eq_iff)
  have "entries_ok L {} nm'" unfolding entries_ok_def v
  proof (intro allI impI)
    fix n e assume "nat_root nm' n = Some e"
    then have e: "nat_root nm n = Some e" using c by (simp add: same_cache_def)
    have "coherent L nm' n e" using cache_okD(2)[OF ok] e s[OF e] by (cases "dirty e") (auto simp: entries_ok_def coherent_def)
    then show "ni_nid (ni e) = n \<and> valid_nid L nm n \<and> (prealloc e \<longrightarrow> dirty e) \<and> (n \<notin> {} \<longrightarrow> coherent L nm' n e)"
      using cache_okD(2)[OF ok] e by (simp add: entries_ok_def)
  qed
  moreover have "nat_lists_ok L nm'" using cache_okD(3)[OF ok] c by (simp add: nat_lists_ok_def same_cache_def elist_def ecnt_def)
  moreover have "counts_ok nm'" using cache_okD(4)[OF ok] c by (simp add: counts_ok_def same_cache_def)
  moreover have "lay_ok L nm'" using cache_okD(1)[OF ok] c by (simp add: lay_ok_def same_cache_def)
  ultimately show ?thesis using j by (simp add: nat_cache_ok_def)
qed

text \<open>Where an entry goes: the journal with room for it, or the block that is current for its ids.\<close>

definition target_ok :: "node_lay \<Rightarrow> f2fs_nm_info \<Rightarrow> nat \<Rightarrow> nat option \<Rightarrow> bool" where
  "target_ok L nm n page \<longleftrightarrow>
     (case page of None \<Rightarrow> n \<in> fst ` set (nat_journal nm) \<or> has_cursum_space L nm 1
      | Some a \<Rightarrow> a = current_nat_addr L nm n \<and> n \<notin> fst ` set (nat_journal nm))"

lemma current_nat_addr_inj:
  assumes "lay_ok L nm" "current_nat_addr L nm n = current_nat_addr L nm m"
  shows "NAT_BLOCK_OFFSET L n = NAT_BLOCK_OFFSET L m"
  using nat_slot_inj assms by (simp add: current_nat_addr_slot)

lemma write_nat_spec:
  assumes lay: "lay_ok L nm" and j: "journal_ok L nm" and n: "ni_nid (ni e) = n" "valid_nid L nm n" "blk_addr (ni e) \<noteq> NEW_ADDR (nm_sbi L)"
    and t: "target_ok L nm n page" and st: "start = START_NID L n"
  defines "nm' \<equiv> write_nat L page start e nm"
  shows "same_cache nm nm'" "same_ids nm nm'" "saved_nat L nm' = (saved_nat L nm)(n := raw_nat_from_node_info (ni e))" "journal_ok L nm'"
    "nm_bug nm' = nm_bug nm" "nat_bitmap nm' = nat_bitmap nm" "nat_blkaddr nm' = nat_blkaddr nm" "available_nids nm' = available_nids nm"
    "fst ` set (nat_journal nm') \<subseteq> (if page = None then {n} else {}) \<union> fst ` set (nat_journal nm)" "fst ` set (nat_journal nm) \<subseteq> fst ` set (nat_journal nm')"
    "length (nat_journal nm') \<le> length (nat_journal nm) + (if page = None then 1 else 0)"
    "\<And>x. Some x \<noteq> page \<Longrightarrow> nat_meta nm' x = nat_meta nm x"
proof -
  define r where "r = raw_nat_from_node_info (ni e)"
  have rn: "block_addr r \<noteq> NEW_ADDR (nm_sbi L)" using n(3) by (simp add: r_def)
  consider (j1) i where "page = None" "journal_index n (nat_journal nm) = Some i"
    | (j2) "page = None" "journal_index n (nat_journal nm) = None" "has_cursum_space L nm 1"
    | (pg) a where "page = Some a" "a = current_nat_addr L nm n" "n \<notin> fst ` set (nat_journal nm)"
    using t by (cases page; cases "journal_index n (nat_journal nm)") (auto simp: target_ok_def journal_index_None dest: journal_index_Some)
  then have "same_cache nm nm' \<and> same_ids nm nm' \<and> saved_nat L nm' = (saved_nat L nm)(n := r) \<and> journal_ok L nm' \<and> nm_bug nm' = nm_bug nm \<and>
      nat_bitmap nm' = nat_bitmap nm \<and> nat_blkaddr nm' = nat_blkaddr nm \<and> available_nids nm' = available_nids nm \<and>
      fst ` set (nat_journal nm') \<subseteq> (if page = None then {n} else {}) \<union> fst ` set (nat_journal nm) \<and> fst ` set (nat_journal nm) \<subseteq> fst ` set (nat_journal nm') \<and>
      length (nat_journal nm') \<le> length (nat_journal nm) + (if page = None then 1 else 0) \<and> (\<forall>x. Some x \<noteq> page \<longrightarrow> nat_meta nm' x = nat_meta nm x)"
  proof cases
    case j1
    note I = journal_index_Some[OF j1(2), of r]
    have e: "nm' = nm\<lparr>nat_journal := (nat_journal nm)[i := (n, r)]\<rparr>"
      using j1 n(1) by (simp add: nm'_def write_nat_def f2fs_lookup_journal_in_cursum_def r_def Let_def)
    have d: "disk_nat L nm' = disk_nat L nm" by (simp add: e disk_nat_def current_nat_addr_def fun_eq_iff Let_def)
    have s: "saved_nat L nm' = (saved_nat L nm)(n := r)" using I by (auto simp: e saved_nat_def fun_eq_iff d[unfolded e] split: option.split)
    have "nat_journal nm' = (nat_journal nm)[i := (n, r)]" by (simp add: e)
    then have f: "fst ` set (nat_journal nm') = fst ` set (nat_journal nm)" using I by (metis list.set_map)
    show ?thesis using s f d j rn I by (auto simp: e journal_ok_def valid_nid_def same_cache_def same_ids_def)
  next
    case j2
    have e: "nm' = nm\<lparr>nat_journal := nat_journal nm @ [(n, r)]\<rparr>"
      using j2 n(1) by (simp add: nm'_def write_nat_def f2fs_lookup_journal_in_cursum_def r_def Let_def)
    have ni: "n \<notin> fst ` set (nat_journal nm)" using j2(2) by (simp add: journal_index_None)
    have d: "disk_nat L nm' = disk_nat L nm" by (simp add: e disk_nat_def current_nat_addr_def fun_eq_iff Let_def)
    have m: "map_of (nat_journal nm @ [(n, r)]) = (map_of (nat_journal nm))(n \<mapsto> r)"
    proof -
      have "[n \<mapsto> r] ++ map_of (nat_journal nm) = map_of (nat_journal nm) ++ [n \<mapsto> r]"
        using ni by (intro map_add_comm) (simp add: dom_map_of_conv_image_fst)
      then show ?thesis by simp
    qed
    have "map_of (nat_journal nm') = (map_of (nat_journal nm))(n \<mapsto> r)" using m by (simp add: e)
    then have s: "saved_nat L nm' = (saved_nat L nm)(n := r)" by (auto simp: saved_nat_def fun_eq_iff d split: option.split)
    show ?thesis using s d j rn ni n(2) j2(1,3) by (auto simp: e journal_ok_def valid_nid_def same_cache_def same_ids_def has_cursum_space_def)
  next
    case pg
    have e: "nm' = nm\<lparr>nat_meta := (nat_meta nm)(a := (nat_meta nm a)(n - START_NID L n := r))\<rparr>"
      using pg n(1) by (simp add: nm'_def write_nat_def st r_def Let_def)
    have ca: "current_nat_addr L nm' = current_nat_addr L nm" by (simp add: e current_nat_addr_def fun_eq_iff Let_def)
    have d: "disk_nat L nm' m = (if m = n then r else disk_nat L nm m)" for m
    proof (cases "m = n")
      case True
      then show ?thesis by (simp add: disk_nat_def ca) (simp add: e pg(2))
    next
      case False
      then have "\<not> (current_nat_addr L nm m = a \<and> m - START_NID L m = n - START_NID L n)"
        using current_nat_addr_inj[OF lay, of m n] split_nid_eq[of L m n] pg(2) by auto
      then show ?thesis using False by (auto simp: disk_nat_def ca) (auto simp: e)
    qed
    have "map_of (nat_journal nm) n = None" using pg(3) by (simp add: map_of_eq_None_iff)
    then have s: "saved_nat L nm' = (saved_nat L nm)(n := r)" using d by (auto simp: saved_nat_def fun_eq_iff e split: option.split)
    show ?thesis using s d j rn pg by (auto simp: e journal_ok_def valid_nid_def same_cache_def same_ids_def)
  qed
  then show "same_cache nm nm'" "same_ids nm nm'" "saved_nat L nm' = (saved_nat L nm)(n := raw_nat_from_node_info (ni e))" "journal_ok L nm'"
    "nm_bug nm' = nm_bug nm" "nat_bitmap nm' = nat_bitmap nm" "nat_blkaddr nm' = nat_blkaddr nm" "available_nids nm' = available_nids nm"
    "fst ` set (nat_journal nm') \<subseteq> (if page = None then {n} else {}) \<union> fst ` set (nat_journal nm)" "fst ` set (nat_journal nm) \<subseteq> fst ` set (nat_journal nm')"
    "length (nat_journal nm') \<le> length (nat_journal nm) + (if page = None then 1 else 0)"
    "\<And>x. Some x \<noteq> page \<Longrightarrow> nat_meta nm' x = nat_meta nm x" unfolding r_def by blast+
qed


section \<open>Clean entries again\<close>

lemma clear_dirty_fields:
  assumes "ni_nid (ni e) = n"
  shows "nat_root (clear_nat_cache_dirty L s e nm) = (nat_root nm)(n \<mapsto> set_nat_flag IS_DIRTY False e)"
    "nat_entries (clear_nat_cache_dirty L s e nm) = remove1 n (nat_entries nm) @ [n]"
    "nat_cnt (clear_nat_cache_dirty L s e nm) =
       (nat_cnt nm)(DIRTY_NAT := addu 32 (nat_cnt nm DIRTY_NAT) (- 1), RECLAIMABLE_NAT := addu 32 (nat_cnt nm RECLAIMABLE_NAT) 1)"
    "same_disk nm (clear_nat_cache_dirty L s e nm)" "same_ids nm (clear_nat_cache_dirty L s e nm)"
    "nm_bug (clear_nat_cache_dirty L s e nm) = nm_bug nm" "available_nids (clear_nat_cache_dirty L s e nm) = available_nids nm"
  using assms by (auto simp: clear_nat_cache_dirty_def Let_def nat_ops_def same_disk_def same_ids_def)

lemma clear_dirty_sets:
  assumes "ni_nid (ni e) = n"
  shows "elist (clear_nat_cache_dirty L s e nm) t = (if t = NAT_BLOCK_OFFSET L n then remove1 n (elist nm t) else elist nm t)"
    "ecnt (clear_nat_cache_dirty L s e nm) t = (if t = s \<and> nat_set_root nm t \<noteq> None then sub32 (ecnt nm t) 1 else ecnt nm t)"
  using assms by (auto simp: clear_nat_cache_dirty_def Let_def nat_ops_def elist_def ecnt_def split: option.split)

lemma clear_dirty_ok:
  assumes ok: "nat_cache_ok L {} nm" and e: "nat_root nm n = Some e0" "dirty e0" "\<not> prealloc e0" and e': "ni e = ni e0" "\<not> prealloc e"
    and s: "s = NAT_BLOCK_OFFSET L n" and sv: "saved_nat L nm n = raw_nat_from_node_info (ni e0)"
  shows "nat_cache_ok L {} (clear_nat_cache_dirty L s e nm)"
proof -
  define nm' where "nm' = clear_nat_cache_dirty L s e nm"
  note O = cache_okD[OF ok]
  have n: "ni_nid (ni e) = n" "n < max_nid nm" "valid_nid L nm n" using entry_bound[OF O(2) e(1)] e'(1) by simp_all
  note F = clear_dirty_fields[OF n(1), where L = L and nm = nm and s = s, folded nm'_def] and S = clear_dirty_sets[OF n(1), where L = L and nm = nm and s = s, folded nm'_def]
  have m: "max_nid nm' = max_nid nm" "max_nid nm < 2 ^ 32" using F(4) O(1) by (simp_all add: same_disk_def lay_ok_def)
  have "coherent L nm n e0" using O(2) e(1) by (simp add: entries_ok_def)
  then have nb: "blk_addr (ni e0) \<noteq> NEW_ADDR (nm_sbi L)" using e(3) by (simp add: coherent_def)
  have "entries_ok L {} nm'" using O(2) e e' n nb sv same_disk_saved[OF F(4)] same_disk_valid[OF F(4)] by (auto simp: entries_ok_def F(1) coherent_def)
  moreover have "nat_lists_ok L nm'"
  proof -
    have o: "distinct (nat_entries nm)" "\<And>m. m \<in> set (nat_entries nm) \<longleftrightarrow> (\<exists>e. nat_root nm m = Some e \<and> \<not> dirty e)"
      "\<And>s. distinct (elist nm s)" "\<And>s. ecnt nm s = length (elist nm s)"
      "\<And>s m. m \<in> set (elist nm s) \<longleftrightarrow> NAT_BLOCK_OFFSET L m = s \<and> (\<exists>e. nat_root nm m = Some e \<and> dirty e \<and> \<not> prealloc e)"
      using O(3) by (auto simp: nat_lists_ok_def)
    have i: "n \<in> set (elist nm s)" using e by (simp add: o(5) s)
    then have h: "nat_set_root nm s \<noteq> None" "0 < length (elist nm s)" by (cases "nat_set_root nm s"; auto simp: elist_def)+
    have sub: "sub32 (length (elist nm s)) (Suc 0) = length (elist nm s) - Suc 0" using h(2) by (intro sub32_le) linarith
    have a: "n \<notin> set (nat_entries nm)" using e by (simp add: o(2))
    have b: "distinct (nat_entries nm')" "m \<in> set (nat_entries nm') \<longleftrightarrow> (\<exists>e. nat_root nm' m = Some e \<and> \<not> dirty e)" for m
      using o(1,2) a by (auto simp: F(1,2))
    have d: "distinct (elist nm' t)" "ecnt nm' t = length (elist nm' t)"
      "m \<in> set (elist nm' t) \<longleftrightarrow> NAT_BLOCK_OFFSET L m = t \<and> (\<exists>e. nat_root nm' m = Some e \<and> dirty e \<and> \<not> prealloc e)" for t m
      using o(3)[of t] o(4)[of t] o(5)[of m t] i h s sub by (auto simp: S F(1) length_remove1)
    show ?thesis unfolding nat_lists_ok_def using b d by blast
  qed
  moreover have "counts_ok nm'"
    using O(4) e count_change(1)[OF n(2) m(2), of is_clean "nat_root nm" "Some (set_nat_flag IS_DIRTY False e)"]
      count_change(2)[OF n(2) m(2), of is_dirty "nat_root nm" "Some (set_nat_flag IS_DIRTY False e)"]
      count_change(3)[OF n(2) m(2), of "\<lambda>x. x \<noteq> None" "nat_root nm" "Some (set_nat_flag IS_DIRTY False e)"]
    by (simp add: counts_ok_def F m(1) is_dirty_def is_clean_def)
  ultimately show ?thesis unfolding nm'_def[symmetric] nat_cache_ok_def using O(1,5) same_disk_lay[OF F(4)] same_disk_journal[OF F(4)] by blast
qed

section \<open>One entry of a set\<close>

definition flush_ok :: "node_lay \<Rightarrow> f2fs_nm_info \<Rightarrow> bool" where
  "flush_ok L nm \<longleftrightarrow> nat_cache_ok L {} nm \<and> nid_tree_ok L nm \<and> bits_ok L nm \<and> nids_free_ok L {} nm"

lemma flush_okD:
  assumes "flush_ok L nm"
  shows "nat_cache_ok L {} nm" "entries_ok L {} nm" "nid_tree_ok L nm" "bits_ok L nm" "nids_free_ok L {} nm" "lay_ok L nm" "journal_ok L nm"
  using assms cache_okD[of L "{}" nm] by (simp_all add: flush_ok_def)

text \<open>Giving back an id, or clearing its bit, after its entry has become clean.\<close>

definition settle :: "node_lay \<Rightarrow> nat \<Rightarrow> nat \<Rightarrow> f2fs_nm_info \<Rightarrow> f2fs_nm_info" where
  "settle L n blk nm = (if blk = NULL_ADDR (nm_sbi L) then snd (add_free_nid L n False True nm) else update_free_nid_bitmap L n False False nm)"

lemma settle_null:
  assumes "valid_nid L nm n" "n \<noteq> 0" "blk = NULL_ADDR (nm_sbi L)"
  shows "settle L n blk nm = (let nm = update_free_nid_bitmap L n True False (if free_nid_root nm n = None then snd (insert_free_nid n nm) else nm)
    in nm\<lparr>available_nids := addu 32 (available_nids nm) 1\<rparr>)"
  using assms by (auto simp: settle_def add_free_nid_def Let_def insert_free_nid_def split: option.split)

lemma settle_ok:
  fixes blk :: nat
  assumes lay: "lay_ok L nm" and tr: "nid_tree_ok L nm" and sc: "\<forall>b k. free_nid_bitmap nm b k \<longrightarrow> nat_block_bitmap nm b" and v: "valid_nid L nm n"
  defines "nm' \<equiv> settle L n blk nm"
  shows "same_table nm nm'" "nid_tree_ok L nm'" "\<And>b k. free_nid_bitmap nm' b k \<Longrightarrow> nat_block_bitmap nm' b" "held nm' = held nm" "nm_bug nm' = nm_bug nm"
    "\<And>m. free_nid_root nm' m = Some FREE_NID \<Longrightarrow> free_nid_root nm m = Some FREE_NID \<or> m = n \<and> blk = NULL_ADDR (nm_sbi L)"
    "\<And>m. nid_bit L nm' m \<Longrightarrow> (m \<noteq> n \<and> nid_bit L nm m) \<or> (m = n \<and> blk = NULL_ADDR (nm_sbi L))"
proof -
  have n0: "n \<noteq> 0" using v lay by (auto simp: valid_nid_def lay_ok_def)
  define null where "null \<longleftrightarrow> blk = NULL_ADDR (nm_sbi L)"
  define nm1 where "nm1 = (if null \<and> free_nid_root nm n = None then snd (insert_free_nid n nm) else nm)"
  define nm2 where "nm2 = update_free_nid_bitmap L n null False nm1"
  have e: "nm' = (if null then nm2\<lparr>available_nids := addu 32 (available_nids nm2) 1\<rparr> else nm2)"
    using settle_null[OF v n0, of blk] by (auto simp: nm'_def null_def nm2_def nm1_def Let_def settle_def)
  have t1: "same_table nm nm1" "same_table nm1 nm2" by (simp_all add: nm1_def nm2_def)
  have t1: "same_table nm nm1" "same_table nm1 nm2" "same_table nm2 nm'" using t1 by (simp_all add: e) (simp add: same_table_def)
  show "same_table nm nm'" using same_table_trans[OF same_table_trans[OF t1(1,2)] t1(3)] .
  note I = insert_free_nid_tree[OF tr lay v]
  have tr1: "nid_tree_ok L nm1" using I tr by (simp add: nm1_def)
  have r1: "free_nid_root nm1 = (if null \<and> free_nid_root nm n = None then (free_nid_root nm)(n \<mapsto> FREE_NID) else free_nid_root nm)"
    "free_nid_bitmap nm1 = free_nid_bitmap nm" "nat_block_bitmap nm1 = nat_block_bitmap nm" "nm_bug nm1 = nm_bug nm"
    using I(2) by (simp_all add: nm1_def insert_free_nid_def nid_ops_def Let_def split: option.split)
  have r: "free_nid_root nm' = free_nid_root nm1" "free_nid_list nm' = free_nid_list nm1" "nid_cnt nm' = nid_cnt nm1" "nm_bug nm' = nm_bug nm1"
    "nat_block_bitmap nm' = nat_block_bitmap nm" "free_nid_bitmap nm' = free_nid_bitmap nm2" by (simp_all add: e nm2_def r1)
  show "nid_tree_ok L nm'" using same_table_tree[OF same_table_trans[OF t1(2,3)] r(1-3)] tr1 by simp
  show "held nm' = held nm" "nm_bug nm' = nm_bug nm" using r1 r by (auto simp: held_def)
  show "free_nid_root nm' m = Some FREE_NID \<Longrightarrow> free_nid_root nm m = Some FREE_NID \<or> m = n \<and> blk = NULL_ADDR (nm_sbi L)" for m
    by (auto simp: r r1 null_def split: if_splits)
  show "free_nid_bitmap nm' b k \<Longrightarrow> nat_block_bitmap nm' b" for b k
    using update_bitmap_scanned[of nm1 L n null False b k] sc by (simp add: r r1 nm2_def)
  show "nid_bit L nm' m \<Longrightarrow> (m \<noteq> n \<and> nid_bit L nm m) \<or> (m = n \<and> blk = NULL_ADDR (nm_sbi L))" for m
  proof -
    assume a: "nid_bit L nm' m"
    have "nid_bit L nm' m = nid_bit L nm2 m" by (simp add: nid_bit_def r)
    then have b: "nid_bit L nm' m = (if m = n \<and> nat_block_bitmap nm (NAT_BLOCK_OFFSET L n) then null else nid_bit L nm1 m)"
      by (simp add: nm2_def update_bitmap_bit r1)
    have c: "nid_bit L nm1 m = nid_bit L nm m" by (simp add: nid_bit_def r1)
    show ?thesis using a b c sc[rule_format, of "NAT_BLOCK_OFFSET L n"] by (auto simp: nid_bit_def null_def split: if_splits)
  qed
qed


lemma flush_nat_entry_eq:
  assumes "nat_root nm n = Some e" "ni_nid (ni e) = n" "blk_addr (ni e) \<noteq> NEW_ADDR (nm_sbi L)"
  shows "flush_nat_entry L page s n nm =
    settle L n (blk_addr (ni e)) (clear_nat_cache_dirty L s (nat_reset_flag e) (write_nat L page (s * NAT_ENTRY_PER_BLOCK L) e nm))"
  using assms by (simp add: flush_nat_entry_def settle_def nm_bug_on_def Let_def)

text \<open>What one entry does to the rest of the state.\<close>

definition flush_step :: "node_lay \<Rightarrow> nat option \<Rightarrow> nat set \<Rightarrow> f2fs_nm_info \<Rightarrow> f2fs_nm_info \<Rightarrow> bool" where
  "flush_step L page N nm nm' \<longleftrightarrow> flush_ok L nm' \<and> nat_of L nm' = nat_of L nm \<and> held nm' = held nm \<and> nm_bug nm' = nm_bug nm \<and>
     max_nid nm' = max_nid nm \<and> nat_blocks nm' = nat_blocks nm \<and> nat_bitmap nm' = nat_bitmap nm \<and> nat_blkaddr nm' = nat_blkaddr nm \<and>
     (\<forall>n. nid_dirty nm' n \<longleftrightarrow> nid_dirty nm n \<and> n \<notin> N) \<and>
     fst ` set (nat_journal nm') \<subseteq> (if page = None then N else {}) \<union> fst ` set (nat_journal nm) \<and>
     (page = None \<longrightarrow> length (nat_journal nm') \<le> length (nat_journal nm) + card N) \<and>
     (\<forall>x. Some x \<noteq> page \<longrightarrow> nat_meta nm' x = nat_meta nm x)"

lemma flush_nat_entry_ok:
  assumes ok: "flush_ok L nm" and n: "n \<in> set (elist nm s)" and t: "target_ok L nm n page"
  shows "flush_step L page {n} nm (flush_nat_entry L page s n nm)"
proof -
  note O = flush_okD[OF ok]
  obtain e where e: "nat_root nm n = Some e" "dirty e" "\<not> prealloc e" and s: "s = NAT_BLOCK_OFFSET L n"
    using n cache_okD(3)[OF O(1)] by (auto simp: nat_lists_ok_def)
  have b: "ni_nid (ni e) = n" "valid_nid L nm n" using entry_bound[OF cache_okD(2)[OF O(1)] e(1)] by simp_all
  have nb: "blk_addr (ni e) \<noteq> NEW_ADDR (nm_sbi L)" using O(2) e by (auto simp: entries_ok_def coherent_def)
  define nm1 where "nm1 = write_nat L page (s * NAT_ENTRY_PER_BLOCK L) e nm"
  have st: "s * NAT_ENTRY_PER_BLOCK L = START_NID L n" by (simp add: s START_NID_def NAT_BLOCK_OFFSET_def)
  note W = write_nat_spec[OF O(6,7) b nb t st, folded nm1_def]
  have ok1: "nat_cache_ok L {} nm1" by (rule cache_ok_disk[OF O(1) W(1,4)]) (use W(3) e in auto)
  define nm2 where "nm2 = clear_nat_cache_dirty L s (nat_reset_flag e) nm1"
  have r1: "nat_root nm1 = nat_root nm" "max_nid nm1 = max_nid nm" "nat_blocks nm1 = nat_blocks nm" using W(1) by (simp_all add: same_cache_def)
  have e1: "nat_root nm1 n = Some e" using e(1) r1 by simp
  have ok2: "nat_cache_ok L {} nm2" unfolding nm2_def by (rule clear_dirty_ok[OF ok1 e1 e(2,3) _ _ s]) (use W(3) e(3) in auto)
  have rb: "ni_nid (ni (nat_reset_flag e)) = n" using b(1) by simp
  note F = clear_dirty_fields[OF rb, where L = L and nm = nm1 and s = s, folded nm2_def]
  have i2: "same_ids nm nm2" using same_ids_trans[OF W(2) F(5)] .
  have sv: "saved_nat L nm2 = (saved_nat L nm)(n := raw_nat_from_node_info (ni e))" using same_disk_saved[OF F(4), of L] W(3) by simp
  have no2: "nat_of L nm2 = nat_of L nm" using sv e(1) by (auto simp: nat_of_def F(1) r1 fun_eq_iff split: option.split)
  have d2: "nid_dirty nm2 m \<longleftrightarrow> nid_dirty nm m \<and> m \<noteq> n" for m by (auto simp: nid_dirty_def F(1) r1)
  have m2: "max_nid nm2 = max_nid nm" "nat_blocks nm2 = nat_blocks nm" "nat_journal nm2 = nat_journal nm1" "nat_meta nm2 = nat_meta nm1" "nat_bitmap nm2 = nat_bitmap nm"
    "nat_blkaddr nm2 = nat_blkaddr nm" using F(4) r1 W(6,7) by (simp_all add: same_disk_def)
  have tr2: "nid_tree_ok L nm2" using O(3) i2 by (simp add: nid_tree_ok_def same_ids_def valid_nid_def)
  have sc2: "\<forall>b k. free_nid_bitmap nm2 b k \<longrightarrow> nat_block_bitmap nm2 b" using O(4) i2 by (auto simp: bits_ok_def same_ids_def)
  have v2: "valid_nid L nm2 n" using b(2) m2(1) by (simp add: valid_nid_def)
  define nm' where "nm' = flush_nat_entry L page s n nm"
  have e': "nm' = settle L n (blk_addr (ni e)) nm2" unfolding nm'_def nm2_def nm1_def by (rule flush_nat_entry_eq[OF e(1) b(1) nb])
  note S = settle_ok[where blk = "blk_addr (ni e)", OF cache_okD(1)[OF ok2] tr2 sc2 v2, folded e']
  note V = same_table_views[OF S(1)]
  have no': "nat_of L nm' = nat_of L nm" and d': "nid_dirty nm' m \<longleftrightarrow> nid_dirty nm m \<and> m \<noteq> n" for m using V(1,2) no2 d2 by simp_all
  have blk: "block_addr (nat_of L nm n) = blk_addr (ni e)" using e(1) by (simp add: nat_of_def)
  have f': "nat_journal nm' = nat_journal nm1" "nat_meta nm' = nat_meta nm1" "max_nid nm' = max_nid nm" "nat_blocks nm' = nat_blocks nm" "nat_bitmap nm' = nat_bitmap nm"
    "nat_blkaddr nm' = nat_blkaddr nm" "nat_root nm' = nat_root nm2" using S(1) m2 by (simp_all add: same_table_def)
  have "nat_cache_ok L {} nm'" using same_table_ok[OF S(1)] ok2 by simp
  moreover have "bits_ok L nm'" unfolding bits_ok_def
  proof (intro conjI allI impI)
    show "nat_block_bitmap nm' x" if "free_nid_bitmap nm' x k" for x k using S(3) that .
    fix m assume m: "valid_nid L nm' m \<and> nid_bit L nm' m"
    show "block_addr (nat_of L nm' m) = NULL_ADDR (nm_sbi L) \<or> nid_dirty nm' m \<or> m \<in> fst ` set (nat_journal nm')"
    proof (cases "m = n")
      case True
      then show ?thesis using S(7)[of m] m blk no' by auto
    next
      case False
      then have "nid_bit L nm2 m" using S(7)[of m] m by blast
      then have "nid_bit L nm m" using i2 by (simp add: nid_bit_def same_ids_def)
      moreover have "valid_nid L nm m" using m f'(3) by (simp add: valid_nid_def)
      ultimately have "block_addr (nat_of L nm m) = NULL_ADDR (nm_sbi L) \<or> nid_dirty nm m \<or> m \<in> fst ` set (nat_journal nm)" using O(4) by (simp add: bits_ok_def)
      then show ?thesis using subsetD[OF W(10), of m] False by (auto simp only: no' d' f'(1))
    qed
  qed
  moreover have "nids_free_ok L {} nm'" unfolding nids_free_ok_def no'
  proof (intro allI impI)
    fix m assume "free_nid_root nm' m = Some FREE_NID"
    then have "free_nid_root nm m = Some FREE_NID \<or> m = n \<and> blk_addr (ni e) = NULL_ADDR (nm_sbi L)" using S(6)[of m] i2 by (simp add: same_ids_def)
    then show "block_addr (nat_of L nm m) = NULL_ADDR (nm_sbi L) \<or> m \<in> {} \<and> \<not> nid_dirty nm' m" using O(5) blk by (auto simp: nids_free_ok_def)
  qed
  ultimately have "flush_ok L nm'" using S(2) by (simp add: flush_ok_def)
  moreover have "held nm' = held nm" "nm_bug nm' = nm_bug nm" using S(4,5) i2 F(6) W(5) by (auto simp: held_def same_ids_def)
  ultimately show ?thesis unfolding flush_step_def nm'_def[symmetric]
    using no' d' f' W(9,11,12) by (auto split: if_splits)
qed

end
