(* ===== verification/Nat_Sets.thy ===== *)
theory Nat_Sets
  imports Nat_Flush
begin

text \<open>
  Writing all sets of dirty entries. A set goes to the journal when it fits; a set that goes to its
  NAT block has no entry in the journal, which would hide what is written. The copies of the blocks
  that are current before are not touched.
\<close>

section \<open>The entries of a set\<close>

lemma flush_step_trans:
  assumes "flush_step L page N a b" "flush_step L page M b c" "finite N" "finite M" "N \<inter> M = {}"
  shows "flush_step L page (N \<union> M) a c"
proof -
  have c: "card (N \<union> M) = card N + card M" using assms(3,4,5) by (rule card_Un_disjoint)
  note A = assms(1)[unfolded flush_step_def] and B = assms(2)[unfolded flush_step_def]
  have "fst ` set (nat_journal c) \<subseteq> (if page = None then N \<union> M else {}) \<union> fst ` set (nat_journal a)"
    using A B by (cases page) (simp_all, blast+)
  moreover have "page = None \<longrightarrow> length (nat_journal c) \<le> length (nat_journal a) + card (N \<union> M)" using A B c by auto
  moreover have "\<forall>n. nid_dirty c n \<longleftrightarrow> nid_dirty a n \<and> n \<notin> N \<union> M" using A B by simp
  ultimately show ?thesis unfolding flush_step_def using A B by simp
qed

text \<open>
  Nodes without an address yet (\<open>NEW_ADDR\<close>) are dirty but on no list: a flush passes them over.
\<close>

definition is_new :: "node_lay \<Rightarrow> f2fs_nm_info \<Rightarrow> nat \<Rightarrow> bool" where
  "is_new L nm n \<longleftrightarrow> block_addr (nat_of L nm n) = NEW_ADDR (nm_sbi L)"

lemma is_new_cong: "nat_of L nm' = nat_of L nm \<Longrightarrow> is_new L nm' = is_new L nm"
  by (simp add: is_new_def fun_eq_iff)

lemma flush_elist:
  assumes "flush_ok L nm"
  shows "n \<in> set (elist nm s) \<longleftrightarrow> NAT_BLOCK_OFFSET L n = s \<and> nid_dirty nm n \<and> \<not> is_new L nm n"
proof -
  note O = flush_okD[OF assms]
  have "prealloc e \<longleftrightarrow> is_new L nm n" if "nat_root nm n = Some e" for e
    using that O(2) by (auto simp: entries_ok_def coherent_def is_new_def nat_of_def)
  then show ?thesis using cache_okD(3)[OF O(1)] by (auto simp: nat_lists_ok_def nid_dirty_def)
qed

lemma flush_entries_ok:
  assumes "flush_ok L nm" "distinct xs" "set xs \<subseteq> set (elist nm s)"
    "case page of None \<Rightarrow> length xs + length (nat_journal nm) \<le> NAT_JOURNAL_ENTRIES L
     | Some a \<Rightarrow> \<forall>n \<in> set xs. a = current_nat_addr L nm n \<and> n \<notin> fst ` set (nat_journal nm)"
  shows "flush_step L page (set xs) nm (fold (flush_nat_entry L page s) xs nm)"
  using assms
proof (induction xs arbitrary: nm)
  case Nil
  then show ?case by (auto simp: flush_step_def)
next
  case (Cons n xs)
  have t: "target_ok L nm n page" using Cons.prems(4) by (auto simp: target_ok_def has_cursum_space_def split: option.splits)
  have S: "flush_step L page {n} nm (flush_nat_entry L page s n nm)" using flush_nat_entry_ok[OF Cons.prems(1) _ t, of s] Cons.prems(3) by simp
  define nm1 where "nm1 = flush_nat_entry L page s n nm"
  note S = S[folded nm1_def]
  have ok1: "flush_ok L nm1" using S by (simp add: flush_step_def)
  have "set xs \<subseteq> set (elist nm1 s)"
  proof
    fix m assume m: "m \<in> set xs"
    then have "m \<in> set (elist nm s)" "m \<noteq> n" using Cons.prems(2,3) by auto
    then show "m \<in> set (elist nm1 s)" using flush_elist[OF Cons.prems(1)] flush_elist[OF ok1] S is_new_cong[of L nm1 nm] by (auto simp: flush_step_def)
  qed
  moreover have "case page of None \<Rightarrow> length xs + length (nat_journal nm1) \<le> NAT_JOURNAL_ENTRIES L
     | Some a \<Rightarrow> \<forall>n \<in> set xs. a = current_nat_addr L nm1 n \<and> n \<notin> fst ` set (nat_journal nm1)"
  proof (cases page)
    case None
    then show ?thesis using Cons.prems(4) S by (auto simp: flush_step_def)
  next
    case (Some a)
    have "current_nat_addr L nm1 = current_nat_addr L nm" using S by (simp add: flush_step_def current_nat_addr_def fun_eq_iff Let_def)
    moreover have "fst ` set (nat_journal nm1) \<subseteq> fst ` set (nat_journal nm)" using S Some by (simp add: flush_step_def)
    ultimately show ?thesis using Cons.prems(4) Some by auto
  qed
  ultimately have "flush_step L page (set xs) nm1 (fold (flush_nat_entry L page s) xs nm1)" using Cons.IH[OF ok1] Cons.prems(2) by simp
  from flush_step_trans[OF S this] show ?case using Cons.prems(2) by (simp add: nm1_def)
qed

section \<open>Switching to the other copy\<close>

lemma next_page_ok:
  assumes ok: "flush_ok L nm" and p: "get_next_nat_page L c (s * NAT_ENTRY_PER_BLOCK L) nm = (Inr a, nm')"
  shows "a = nat_slot L nm s (\<not> nat_bitmap nm s)" "flush_ok L nm'" "same_cache nm nm'" "same_ids nm nm'" "nat_of L nm' = nat_of L nm"
    "nat_bitmap nm' = (nat_bitmap nm)(s := \<not> nat_bitmap nm s)" "nat_journal nm' = nat_journal nm" "nat_blkaddr nm' = nat_blkaddr nm" "nm_bug nm' = nm_bug nm"
    "\<And>x. x \<noteq> a \<Longrightarrow> nat_meta nm' x = nat_meta nm x"
proof -
  note O = flush_okD[OF ok]
  have bo: "NAT_BLOCK_OFFSET L (s * NAT_ENTRY_PER_BLOCK L) = s" using O(6) by (simp add: NAT_BLOCK_OFFSET_def lay_ok_def)
  have cur: "current_nat_addr L nm (s * NAT_ENTRY_PER_BLOCK L) = nat_slot L nm s (nat_bitmap nm s)" using current_nat_addr_slot[OF O(6)] bo by simp
  show a: "a = nat_slot L nm s (\<not> nat_bitmap nm s)"
    using p cur next_nat_addr_slot by (auto simp: get_next_nat_page_def Let_def split: sum.splits prod.splits)
  have e: "nm' = nm\<lparr>nat_meta := (nat_meta nm)(a := nat_meta nm (nat_slot L nm s (nat_bitmap nm s))), nat_bitmap := (nat_bitmap nm)(s := \<not> nat_bitmap nm s)\<rparr>"
    using p cur a next_nat_addr_slot by (auto simp: get_next_nat_page_def page_defs set_to_next_nat_def bo Let_def split: option.splits)
  show f: "same_cache nm nm'" "same_ids nm nm'" "nat_bitmap nm' = (nat_bitmap nm)(s := \<not> nat_bitmap nm s)" "nat_journal nm' = nat_journal nm"
    "nat_blkaddr nm' = nat_blkaddr nm" "nm_bug nm' = nm_bug nm" by (simp_all add: e same_cache_def same_ids_def)
  show m: "\<And>x. x \<noteq> a \<Longrightarrow> nat_meta nm' x = nat_meta nm x" by (simp add: e)
  have lay': "lay_ok L nm'" using O(6) f(1) by (simp add: lay_ok_def same_cache_def)
  have sl: "nat_slot L nm' = nat_slot L nm" by (simp add: nat_slot_def e fun_eq_iff Let_def)
  have d: "disk_nat L nm' n = disk_nat L nm n" for n
  proof (cases "NAT_BLOCK_OFFSET L n = s")
    case True
    then have "current_nat_addr L nm' n = a" "current_nat_addr L nm n = nat_slot L nm s (nat_bitmap nm s)"
      using current_nat_addr_slot[OF lay'] current_nat_addr_slot[OF O(6)] sl f(3) a by simp_all
    then show ?thesis unfolding disk_nat_def by (simp add: e)
  next
    case False
    then have c: "current_nat_addr L nm' n = current_nat_addr L nm n" using current_nat_addr_slot[OF lay'] current_nat_addr_slot[OF O(6)] sl f(3) by simp
    have "current_nat_addr L nm n \<noteq> a" using False nat_slot_inj[of L nm "NAT_BLOCK_OFFSET L n" _ s] current_nat_addr_slot[OF O(6)] a by metis
    then show ?thesis using m c by (simp add: disk_nat_def)
  qed
  have sv: "saved_nat L nm' = saved_nat L nm" by (simp add: saved_nat_def d f(4) fun_eq_iff split: option.split)
  have v: "valid_nid L nm' = valid_nid L nm" using f(1) by (simp add: valid_nid_def same_cache_def fun_eq_iff)
  show no: "nat_of L nm' = nat_of L nm" using f(1) by (simp add: nat_of_def sv same_cache_def fun_eq_iff split: option.split)
  have nd: "nid_dirty nm' = nid_dirty nm" using f(1) by (simp add: nid_dirty_def same_cache_def fun_eq_iff)
  have "journal_ok L nm'" using O(7) f(1) by (simp add: journal_ok_def sv v d f(4) same_cache_def)
  then have "nat_cache_ok L {} nm'" using cache_ok_disk[OF O(1) f(1)] sv by simp
  moreover have "nid_tree_ok L nm'" using O(3) f(2) by (simp add: nid_tree_ok_def v same_ids_def)
  moreover have "bits_ok L nm'" using O(4) f(2) by (simp add: bits_ok_def nid_bit_def v no nd f(4) same_ids_def)
  moreover have "nids_free_ok L {} nm'" using O(5) f(2) by (simp add: nids_free_ok_def no same_ids_def)
  ultimately show "flush_ok L nm'" by (simp add: flush_ok_def)
qed


section \<open>A set\<close>

text \<open>The bits of full and empty blocks, and empty sets, are not part of the table.\<close>

lemmas table_defs = nat_of_def saved_nat_def disk_nat_def current_nat_addr_def nid_dirty_def valid_nid_def held_def nid_bit_def

definition drop_empty :: "nat \<Rightarrow> f2fs_nm_info \<Rightarrow> f2fs_nm_info" where
  "drop_empty s nm = (case nat_set_root nm s of
     Some h \<Rightarrow> (if entry_cnt h = 0 then nm\<lparr>nat_set_root := (nat_set_root nm)(s := None)\<rparr> else nm) | None \<Rightarrow> nm)"

lemma drop_empty_sets:
  assumes "nat_lists_ok L nm"
  shows "elist (drop_empty s nm) = elist nm" "ecnt (drop_empty s nm) = ecnt nm"
proof -
  have "ecnt nm s = length (elist nm s)" using assms by (simp add: nat_lists_ok_def)
  then show "elist (drop_empty s nm) = elist nm" "ecnt (drop_empty s nm) = ecnt nm"
    by (auto simp: drop_empty_def elist_def ecnt_def fun_eq_iff split: option.splits)
qed

lemma drop_empty_same [simp]:
  "nat_root (drop_empty s nm) = nat_root nm" "nat_entries (drop_empty s nm) = nat_entries nm" "nat_cnt (drop_empty s nm) = nat_cnt nm"
  "nat_journal (drop_empty s nm) = nat_journal nm" "nat_meta (drop_empty s nm) = nat_meta nm" "nat_bitmap (drop_empty s nm) = nat_bitmap nm"
  "nat_blkaddr (drop_empty s nm) = nat_blkaddr nm" "max_nid (drop_empty s nm) = max_nid nm" "nat_blocks (drop_empty s nm) = nat_blocks nm"
  "free_nid_root (drop_empty s nm) = free_nid_root nm" "free_nid_list (drop_empty s nm) = free_nid_list nm" "nid_cnt (drop_empty s nm) = nid_cnt nm"
  "free_nid_bitmap (drop_empty s nm) = free_nid_bitmap nm" "nat_block_bitmap (drop_empty s nm) = nat_block_bitmap nm" "nm_bug (drop_empty s nm) = nm_bug nm"
  by (simp_all add: drop_empty_def split: option.split)

lemma drop_empty_views [simp]:
  "nat_of L (drop_empty s nm) = nat_of L nm" "saved_nat L (drop_empty s nm) = saved_nat L nm" "disk_nat L (drop_empty s nm) = disk_nat L nm"
  "nid_dirty (drop_empty s nm) = nid_dirty nm" "valid_nid L (drop_empty s nm) = valid_nid L nm" "held (drop_empty s nm) = held nm"
  "nid_bit L (drop_empty s nm) = nid_bit L nm" "lay_ok L (drop_empty s nm) = lay_ok L nm"
  by (simp_all add: table_defs lay_ok_def fun_eq_iff Let_def split: option.split)

lemma drop_empty_ok:
  assumes "flush_ok L nm"
  shows "flush_ok L (drop_empty s nm)"
proof -
  note O = flush_okD[OF assms]
  note E = drop_empty_sets[OF cache_okD(3)[OF O(1)]]
  have "nat_cache_ok L {} (drop_empty s nm)"
    using O(1) by (simp add: nat_cache_ok_def entries_ok_def nat_lists_ok_def counts_ok_def journal_ok_def coherent_def E)
  then show ?thesis using O by (simp add: flush_ok_def nid_tree_ok_def bits_ok_def nids_free_ok_def)
qed

lemma nat_bits_same [simp]:
  "nat_root (update_nat_bits L c s blk nm) = nat_root nm" "nat_set_root (update_nat_bits L c s blk nm) = nat_set_root nm"
  "nat_entries (update_nat_bits L c s blk nm) = nat_entries nm" "nat_cnt (update_nat_bits L c s blk nm) = nat_cnt nm"
  "nat_journal (update_nat_bits L c s blk nm) = nat_journal nm" "nat_meta (update_nat_bits L c s blk nm) = nat_meta nm"
  "nat_bitmap (update_nat_bits L c s blk nm) = nat_bitmap nm" "nat_blkaddr (update_nat_bits L c s blk nm) = nat_blkaddr nm"
  "max_nid (update_nat_bits L c s blk nm) = max_nid nm" "nat_blocks (update_nat_bits L c s blk nm) = nat_blocks nm"
  "free_nid_root (update_nat_bits L c s blk nm) = free_nid_root nm" "free_nid_list (update_nat_bits L c s blk nm) = free_nid_list nm"
  "nid_cnt (update_nat_bits L c s blk nm) = nid_cnt nm" "free_nid_bitmap (update_nat_bits L c s blk nm) = free_nid_bitmap nm"
  "nat_block_bitmap (update_nat_bits L c s blk nm) = nat_block_bitmap nm" "nm_bug (update_nat_bits L c s blk nm) = nm_bug nm"
  by (simp_all add: update_nat_bits_def update_nat_bit_def Let_def)

lemma nat_bits_table [simp]: "same_table nm (update_nat_bits L c s blk nm)" "same_ids nm (update_nat_bits L c s blk nm)"
  by (simp_all add: same_table_def same_ids_def)

lemma same_all_flush:
  assumes "same_table nm nm'" "same_ids nm nm'"
  shows "flush_ok L nm' = flush_ok L nm" "held nm' = held nm"
proof -
  note V = same_table_views[OF assms(1)]
  have r: "nat_root nm' = nat_root nm" "nat_journal nm' = nat_journal nm" using assms(1) by (simp_all add: same_table_def)
  have i: "free_nid_root nm' = free_nid_root nm" "free_nid_list nm' = free_nid_list nm" "nid_cnt nm' = nid_cnt nm" "free_nid_bitmap nm' = free_nid_bitmap nm"
    "nat_block_bitmap nm' = nat_block_bitmap nm" "max_nid nm' = max_nid nm" using assms(2) by (simp_all add: same_ids_def)
  show "flush_ok L nm' = flush_ok L nm" using same_table_ok[OF assms(1), of L "{}"] V r i
    by (simp add: flush_ok_def nid_tree_ok_def bits_ok_def nids_free_ok_def nid_bit_def)
  show "held nm' = held nm" by (simp add: held_def i)
qed

text \<open>What writing the sets \<open>S\<close> changes.\<close>

definition sets_step :: "node_lay \<Rightarrow> nat set \<Rightarrow> f2fs_nm_info \<Rightarrow> f2fs_nm_info \<Rightarrow> bool" where
  "sets_step L S nm nm' \<longleftrightarrow> flush_ok L nm' \<and> nat_of L nm' = nat_of L nm \<and> held nm' = held nm \<and> nm_bug nm' = nm_bug nm \<and>
     max_nid nm' = max_nid nm \<and> nat_blocks nm' = nat_blocks nm \<and> nat_blkaddr nm' = nat_blkaddr nm \<and>
     (\<forall>n. nid_dirty nm' n \<longleftrightarrow> nid_dirty nm n \<and> (NAT_BLOCK_OFFSET L n \<notin> S \<or> is_new L nm n)) \<and>
     (\<forall>s. s \<notin> S \<longrightarrow> nat_bitmap nm' s = nat_bitmap nm s) \<and>
     (\<forall>x. (\<forall>s \<in> S. x \<noteq> nat_slot L nm s (\<not> nat_bitmap nm s)) \<longrightarrow> nat_meta nm' x = nat_meta nm x)"

text \<open>Either all sets fit into the journal, or it has no entry of theirs.\<close>

definition journal_room :: "node_lay \<Rightarrow> bool \<Rightarrow> nat set \<Rightarrow> f2fs_nm_info \<Rightarrow> bool" where
  "journal_room L umount S nm \<longleftrightarrow> \<not> umount \<and> (\<Sum>t \<in> S. ecnt nm t) + length (nat_journal nm) \<le> NAT_JOURNAL_ENTRIES L \<or>
     (\<forall>n \<in> fst ` set (nat_journal nm). NAT_BLOCK_OFFSET L n \<notin> S)"

lemma flush_set_eq:
  assumes "nat_set_root nm s = Some h" "flush_nat_entry_set L c umount s nm = (None, nm')"
  obtains (journal) "\<not> umount" "has_cursum_space L nm (entry_cnt h)" "nm' = drop_empty s (fold (flush_nat_entry L None s) (nes_entry_list h) nm)"
  | (block) a nm1 where "umount \<or> \<not> has_cursum_space L nm (entry_cnt h)" "get_next_nat_page L c (s * NAT_ENTRY_PER_BLOCK L) nm = (Inr a, nm1)"
      "nm' = drop_empty s (update_nat_bits L c (s * NAT_ENTRY_PER_BLOCK L) (nat_meta (fold (flush_nat_entry L (Some a) s) (nes_entry_list h) nm1) a)
         (fold (flush_nat_entry L (Some a) s) (nes_entry_list h) nm1))"
  using assms by (auto simp: flush_nat_entry_set_def drop_empty_def[symmetric] Let_def split: if_splits sum.splits prod.splits)

lemma ecnt_other:
  assumes "flush_ok L nm" "flush_ok L nm'" "\<And>n. NAT_BLOCK_OFFSET L n = t \<Longrightarrow> nid_dirty nm' n = nid_dirty nm n" "nat_of L nm' = nat_of L nm"
  shows "ecnt nm' t = ecnt nm t"
proof -
  have "set (elist nm' t) = set (elist nm t)" using flush_elist[OF assms(1)] flush_elist[OF assms(2)] assms(3) is_new_cong[OF assms(4)] by auto
  moreover have "distinct (elist nm t)" "distinct (elist nm' t)" "ecnt nm t = length (elist nm t)" "ecnt nm' t = length (elist nm' t)"
    using cache_okD(3)[OF flush_okD(1)[OF assms(1)]] cache_okD(3)[OF flush_okD(1)[OF assms(2)]] by (simp_all add: nat_lists_ok_def)
  ultimately show ?thesis by (metis distinct_card)
qed

lemma set_written:
  assumes ok: "flush_ok L nm" and h: "nat_set_root nm s = Some h" and st: "flush_step L page (set (nes_entry_list h)) nm nm1"
    and d: "same_table nm1 nm2" "same_ids nm1 nm2" "nm_bug nm2 = nm_bug nm1"
  shows "flush_ok L (drop_empty s nm2)" "nat_of L (drop_empty s nm2) = nat_of L nm" "held (drop_empty s nm2) = held nm"
    "nid_dirty (drop_empty s nm2) n \<longleftrightarrow> nid_dirty nm n \<and> (NAT_BLOCK_OFFSET L n \<noteq> s \<or> is_new L nm n)"
    "max_nid (drop_empty s nm2) = max_nid nm" "nat_blocks (drop_empty s nm2) = nat_blocks nm" "nat_blkaddr (drop_empty s nm2) = nat_blkaddr nm"
    "nat_bitmap (drop_empty s nm2) = nat_bitmap nm" "nm_bug (drop_empty s nm2) = nm_bug nm"
    "nat_journal (drop_empty s nm2) = nat_journal nm1" "nat_meta (drop_empty s nm2) = nat_meta nm1"
proof -
  note S = st[unfolded flush_step_def] and A = same_all_flush[OF d(1,2)] and V = same_table_views[OF d(1)]
  have el: "set (nes_entry_list h) = {n. NAT_BLOCK_OFFSET L n = s \<and> nid_dirty nm n \<and> \<not> is_new L nm n}" using flush_elist[OF ok, of _ s] h by (auto simp: elist_def)
  show "flush_ok L (drop_empty s nm2)" by (rule drop_empty_ok) (use A S in simp)
  show "nat_of L (drop_empty s nm2) = nat_of L nm" "held (drop_empty s nm2) = held nm" using A V S by simp_all
  show "nid_dirty (drop_empty s nm2) n \<longleftrightarrow> nid_dirty nm n \<and> (NAT_BLOCK_OFFSET L n \<noteq> s \<or> is_new L nm n)" using V S el by auto
  show "max_nid (drop_empty s nm2) = max_nid nm" "nat_blocks (drop_empty s nm2) = nat_blocks nm" "nat_blkaddr (drop_empty s nm2) = nat_blkaddr nm"
    "nat_bitmap (drop_empty s nm2) = nat_bitmap nm" "nm_bug (drop_empty s nm2) = nm_bug nm"
    "nat_journal (drop_empty s nm2) = nat_journal nm1" "nat_meta (drop_empty s nm2) = nat_meta nm1" using d S by (simp_all add: same_table_def)
qed

lemma room_remaining:
  assumes ok: "flush_ok L nm" "flush_ok L nm'" and r: "journal_room L umount (insert s S) nm" and S: "finite S" "s \<notin> S"
    and d: "\<And>n. nid_dirty nm' n \<longleftrightarrow> nid_dirty nm n \<and> (NAT_BLOCK_OFFSET L n \<noteq> s \<or> is_new L nm n)" and no: "nat_of L nm' = nat_of L nm"
    and j: "fst ` set (nat_journal nm') \<subseteq> {n. NAT_BLOCK_OFFSET L n = s} \<union> fst ` set (nat_journal nm)"
      "length (nat_journal nm') \<le> length (nat_journal nm) + ecnt nm s \<or> fst ` set (nat_journal nm') \<subseteq> fst ` set (nat_journal nm) \<and> \<not> (\<not> umount \<and> has_cursum_space L nm (ecnt nm s))"
  shows "journal_room L umount S nm'"
proof (cases "\<not> umount \<and> (\<Sum>t \<in> insert s S. ecnt nm t) + length (nat_journal nm) \<le> NAT_JOURNAL_ENTRIES L")
  case True
  have e: "(\<Sum>t \<in> S. ecnt nm' t) = (\<Sum>t \<in> S. ecnt nm t)"
  proof (rule sum.cong)
    fix t assume "t \<in> S"
    then have "t \<noteq> s" using S by auto
    then show "ecnt nm' t = ecnt nm t" by (intro ecnt_other[OF ok _ no]) (simp add: d)
  qed simp
  have "has_cursum_space L nm (ecnt nm s)" using True S by (simp add: has_cursum_space_def)
  then have "length (nat_journal nm') \<le> length (nat_journal nm) + ecnt nm s" using j(2) True by auto
  then have "(\<Sum>t \<in> S. ecnt nm' t) + length (nat_journal nm') \<le> NAT_JOURNAL_ENTRIES L" using True S e by simp
  then show ?thesis using True by (simp add: journal_room_def)
next
  case False
  then have "\<forall>n \<in> fst ` set (nat_journal nm). NAT_BLOCK_OFFSET L n \<notin> insert s S" using r unfolding journal_room_def by blast
  then have "\<forall>n \<in> fst ` set (nat_journal nm'). NAT_BLOCK_OFFSET L n \<notin> S" using j(1) S(2) by blast
  then show ?thesis by (simp add: journal_room_def)
qed

lemma flush_set_ok:
  assumes ok: "flush_ok L nm" and r: "journal_room L umount (insert s S) nm" and S: "finite S" "s \<notin> S"
    and f: "flush_nat_entry_set L c umount s nm = (None, nm')"
  shows "sets_step L {s} nm nm'" "journal_room L umount S nm'"
proof -
  note O = flush_okD[OF ok]
  have "sets_step L {s} nm nm' \<and> journal_room L umount S nm'"
  proof (cases "nat_set_root nm s")
    case None
    then have e: "nm' = nm" and n: "elist nm s = []" "ecnt nm s = 0" using f by (simp_all add: flush_nat_entry_set_def elist_def ecnt_def)
    have "NAT_BLOCK_OFFSET L n \<noteq> s \<or> is_new L nm n" if "nid_dirty nm n" for n using flush_elist[OF ok, of n s] n that by auto
    then have d: "nid_dirty nm n \<longleftrightarrow> nid_dirty nm n \<and> (NAT_BLOCK_OFFSET L n \<noteq> s \<or> is_new L nm n)" for n by blast
    have "journal_room L umount S nm" by (rule room_remaining[OF ok ok r S d refl]) auto
    then show ?thesis using d ok e unfolding sets_step_def by auto
  next
    case (Some h)
    have d: "distinct (nes_entry_list h)" "entry_cnt h = length (nes_entry_list h)" "elist nm s = nes_entry_list h" "ecnt nm s = entry_cnt h"
      using cache_okD(3)[OF O(1)] Some unfolding nat_lists_ok_def elist_def ecnt_def by (auto dest: spec[where x = s])
    have el: "set (nes_entry_list h) = {n. NAT_BLOCK_OFFSET L n = s \<and> nid_dirty nm n \<and> \<not> is_new L nm n}" using flush_elist[OF ok, of _ s] d(3) by auto
    from Some f show ?thesis
    proof (cases rule: flush_set_eq)
      case journal
      define nm1 where "nm1 = fold (flush_nat_entry L None s) (nes_entry_list h) nm"
      have st: "flush_step L None (set (nes_entry_list h)) nm nm1" unfolding nm1_def
        by (rule flush_entries_ok[where s = s, OF ok d(1)]) (use d journal(2) in \<open>simp_all add: has_cursum_space_def\<close>)
      note W = set_written[OF ok Some st same_table_refl same_ids_refl refl, folded journal(3)[folded nm1_def]]
      have jr: "fst ` set (nat_journal nm') \<subseteq> {n. NAT_BLOCK_OFFSET L n = s} \<union> fst ` set (nat_journal nm)"
        "length (nat_journal nm') \<le> length (nat_journal nm) + ecnt nm s"
        using st[unfolded flush_step_def] W(10) el distinct_card[OF d(1)] d(2,4) by (simp_all, blast)
      have "journal_room L umount S nm'" by (rule room_remaining[OF ok W(1) r S W(4) W(2) jr(1)]) (use jr(2) in blast)
      moreover have "nat_meta nm' = nat_meta nm" using st W(11) by (simp add: flush_step_def fun_eq_iff)
      ultimately show ?thesis using W unfolding sets_step_def by simp
    next
      case (block a nm0)
      note P = next_page_ok[OF ok block(2)]
      define nm1 where "nm1 = fold (flush_nat_entry L (Some a) s) (nes_entry_list h) nm0"
      have nj: "NAT_BLOCK_OFFSET L n \<noteq> s" if "n \<in> fst ` set (nat_journal nm)" for n
      proof -
        have "\<not> (\<not> umount \<and> (\<Sum>t \<in> insert s S. ecnt nm t) + length (nat_journal nm) \<le> NAT_JOURNAL_ENTRIES L)"
          using block(1) S d(4) by (auto simp: has_cursum_space_def)
        then show ?thesis using r that by (auto simp: journal_room_def)
      qed
      have lay0: "lay_ok L nm0" by (rule flush_okD(6)[OF P(2)])
      have cur: "current_nat_addr L nm0 n = a" if "NAT_BLOCK_OFFSET L n = s" for n
        using current_nat_addr_slot[OF lay0, of n] that P(1,6,8) by (simp add: nat_slot_def)
      have s0: "nat_set_root nm0 s = Some h" "elist nm0 s = nes_entry_list h" using P(3) Some by (simp_all add: same_cache_def elist_def)
      have st: "flush_step L (Some a) (set (nes_entry_list h)) nm0 nm1" unfolding nm1_def
      proof (rule flush_entries_ok[where s = s, OF P(2) d(1)])
        show "set (nes_entry_list h) \<subseteq> set (elist nm0 s)" using s0(2) by simp
        show "case Some a of None \<Rightarrow> length (nes_entry_list h) + length (nat_journal nm0) \<le> NAT_JOURNAL_ENTRIES L
          | Some a \<Rightarrow> \<forall>n\<in>set (nes_entry_list h). a = current_nat_addr L nm0 n \<and> n \<notin> fst ` set (nat_journal nm0)"
          using nj cur el P(7) by auto
      qed
      define nm2 where "nm2 = update_nat_bits L c (s * NAT_ENTRY_PER_BLOCK L) (nat_meta nm1 a) nm1"
      have nm': "nm' = drop_empty s nm2" using block(3) by (simp add: nm2_def nm1_def)
      have sm: "same_table nm1 nm2" "same_ids nm1 nm2" "nm_bug nm2 = nm_bug nm1" by (simp_all add: nm2_def)
      note W = set_written[OF P(2) s0(1) st sm, folded nm']
      have d0: "nid_dirty nm0 = nid_dirty nm" "max_nid nm0 = max_nid nm" "nat_blocks nm0 = nat_blocks nm" using P(3) by (auto simp: nid_dirty_def same_cache_def fun_eq_iff)
      have h0: "held nm0 = held nm" using P(4) by (simp add: held_def same_ids_def)
      have dd: "nid_dirty nm' n \<longleftrightarrow> nid_dirty nm n \<and> (NAT_BLOCK_OFFSET L n \<noteq> s \<or> is_new L nm n)" for n using W(4) d0(1) is_new_cong[OF P(5)] by simp
      have no': "nat_of L nm' = nat_of L nm" using W(2) P(5) by simp
      have jr: "fst ` set (nat_journal nm') \<subseteq> fst ` set (nat_journal nm)" using st W(10) P(7) by (simp add: flush_step_def)
      have "journal_room L umount S nm'" by (rule room_remaining[OF ok W(1) r S dd no']) (use jr block(1) d(4) in auto)
      moreover have "nat_meta nm' x = nat_meta nm x" if "x \<noteq> a" for x using st W(11) P(10)[of x] that by (simp add: flush_step_def)
      moreover have "nat_bitmap nm' x = nat_bitmap nm x" if "x \<noteq> s" for x using W(8) P(6) that by simp
      ultimately show ?thesis using W(1,2,3,5,6,7,9) dd d0 h0 P(1,5,8,9) unfolding sets_step_def by simp
    qed
  qed
  then show "sets_step L {s} nm nm'" "journal_room L umount S nm'" by blast+
qed

end
