(* ===== verification/Nat_Checkpoint.thy ===== *)
theory Nat_Checkpoint
  imports Nat_Sets
begin

text \<open>
  \<open>f2fs_flush_nat_entries\<close> as a whole: moving the journal into the cache, ordering the sets and
  writing them. The table is the same before and after; afterwards it is on disk, and the blocks
  of the previous checkpoint have not been touched.
\<close>

section \<open>All sets\<close>

lemma sets_step_refl: "flush_ok L nm \<Longrightarrow> sets_step L {} nm nm"
  by (simp add: sets_step_def)

lemma sets_step_stop: "flush_ok L nm \<Longrightarrow> sets_step L {} nm (f2fs_stop_checkpoint nm)"
  using same_all_flush[OF stop_same(1,2), where nm = nm] same_table_views(1,2)[OF stop_same(1), where nm = nm]
  by (simp add: sets_step_def) (simp add: f2fs_stop_checkpoint_def)

lemma sets_step_trans:
  assumes "sets_step L S a b" "sets_step L T b c" "S \<inter> T = {}"
  shows "sets_step L (S \<union> T) a c"
proof -
  note A = assms(1)[unfolded sets_step_def] and B = assms(2)[unfolded sets_step_def]
  have sl: "nat_slot L b = nat_slot L a" using A by (simp add: nat_slot_def fun_eq_iff)
  have bm: "nat_bitmap b s = nat_bitmap a s" if "s \<in> T" for s using A assms(3) that by blast
  have "nat_meta c x = nat_meta a x" if "\<forall>s \<in> S \<union> T. x \<noteq> nat_slot L a s (\<not> nat_bitmap a s)" for x
  proof -
    have "nat_meta c x = nat_meta b x" using B that sl bm by simp
    then show ?thesis using A that by simp
  qed
  moreover have "is_new L b = is_new L a" using A by (intro is_new_cong) blast
  ultimately show ?thesis unfolding sets_step_def using A B by auto
qed

lemma flush_sets_ok:
  assumes "flush_ok L nm" "journal_room L umount (set ss) nm" "distinct ss" "flush_sets L c umount ss nm = (r, nm')"
  shows "\<exists>T \<subseteq> set ss. sets_step L T nm nm' \<and> (r = None \<longrightarrow> T = set ss)"
  using assms
proof (induction ss arbitrary: nm)
  case Nil
  then show ?case using sets_step_refl by auto
next
  case (Cons s ss)
  obtain q nm1 where f: "flush_nat_entry_set L c umount s nm = (q, nm1)" by fastforce
  show ?case
  proof (cases q)
    case None
    note F = flush_set_ok[OF Cons.prems(1) _ _ _ f[unfolded None], of "set ss"]
    have st: "sets_step L {s} nm nm1" "journal_room L umount (set ss) nm1" using F Cons.prems(2,3) by simp_all
    moreover have "flush_ok L nm1" using st(1) by (simp add: sets_step_def)
    moreover have "flush_sets L c umount ss nm1 = (r, nm')" using Cons.prems(4) f None by simp
    ultimately obtain T where T: "T \<subseteq> set ss" "sets_step L T nm1 nm'" "r = None \<longrightarrow> T = set ss" using Cons.IH[of nm1] Cons.prems(3) by auto
    have "s \<notin> T" using T(1) Cons.prems(3) by auto
    then have "sets_step L (insert s T) nm nm'" using sets_step_trans[OF st(1) T(2)] by simp
    then show ?thesis using T(1,3) by (intro exI[of _ "insert s T"]) auto
  next
    case (Some e)
    then have "nm' = f2fs_stop_checkpoint nm" "r = Some e"
      using Cons.prems(4) f by (auto simp: flush_nat_entry_set_def get_next_nat_page_def page_defs Let_def split: option.splits if_splits)
    then show ?thesis using sets_step_stop[OF Cons.prems(1)] by auto
  qed
qed

section \<open>Moving the journal into the cache\<close>

lemma remove_nat_in_journal_ok:
  fixes r :: raw_nat
  assumes ok: "flush_ok L nm" and j: "(n, r) \<in> set (nat_journal nm)"
  defines "nm' \<equiv> remove_nat_in_journal L (n, r) nm"
  shows "flush_ok L nm'" "same_disk nm nm'" "nat_of L nm' = nat_of L nm" "held nm' = held nm" "nm_bug nm' = nm_bug nm"
    "nid_dirty nm' = (nid_dirty nm)(n := True)"
proof -
  note O = flush_okD[OF ok] and C = cache_okD[OF flush_okD(1)[OF ok]]
  have m: "map_of (nat_journal nm) n = Some r" using j O(7) by (simp add: journal_ok_def)
  have v: "valid_nid L nm n" using j O(7) by (force simp: journal_ok_def)
  have sv: "saved_nat L nm n = r" using m by (simp add: saved_nat_def)
  define nm0 where "nm0 = nm\<lparr>nat_entries := touch nm n\<rparr>"
  define e where "e = (case nat_root nm n of None \<Rightarrow> new_entry n (Some r) | Some e \<Rightarrow> e)"
  define nm1 where "nm1 = (case nat_root nm n of None \<Rightarrow> snd (init_nat_entry (alloc_nat_entry n) (Some r) nm0) | Some _ \<Rightarrow> nm0)"
  have t0: "same_table nm nm0" "same_ids nm nm0" "nm_bug nm0 = nm_bug nm" by (simp_all add: nm0_def same_ids_def)
  have ok0: "nat_cache_ok L {} nm0" using same_table_ok[OF t0(1)] O(1) by simp
  have e1: "nat_root nm1 = (nat_root nm)(n \<mapsto> e)" "same_disk nm nm1" "same_ids nm nm1" "nm_bug nm1 = nm_bug nm"
    by (auto simp: nm1_def nm0_def e_def init_nat_entry_eq same_disk_def same_ids_def fun_upd_idem split: option.split)
  have ok1: "nat_cache_ok L {n} nm1"
  proof (cases "nat_root nm n")
    case None
    have "nat_cache_ok L {n} (snd (init_nat_entry (alloc_nat_entry n) (Some r) nm0))"
      by (rule init_nat_entry_ok[OF ok0]) (use None v in \<open>simp_all add: nm0_def valid_nid_def\<close>)
    then show ?thesis using None by (simp add: nm1_def)
  qed (use ok0 cache_ok_weaken in \<open>simp add: nm1_def\<close>)
  have ne: "ni_nid (ni e) = n" "raw_nat_from_node_info (ni e) = nat_of L nm n" "blk_addr (ni e) = NEW_ADDR (nm_sbi L) \<Longrightarrow> \<not> dirty e \<or> prealloc e"
  proof -
    have nb: "block_addr r \<noteq> NEW_ADDR (nm_sbi L)" using O(7) v sv by (auto simp: journal_ok_def)
    show "ni_nid (ni e) = n" "raw_nat_from_node_info (ni e) = nat_of L nm n" "blk_addr (ni e) = NEW_ADDR (nm_sbi L) \<Longrightarrow> \<not> dirty e \<or> prealloc e"
      using sv nb C(2) by (auto simp: e_def nat_of_def entries_ok_def coherent_def split: option.splits)
  qed
  define nm2 where "nm2 = (if \<not> dirty e \<and> block_addr r = NULL_ADDR (nm_sbi L) then nm1\<lparr>available_nids := addu 32 (available_nids nm1) (- 1)\<rparr> else nm1)"
  have e2: "nat_root nm2 = nat_root nm1" "same_table nm1 nm2" "same_ids nm1 nm2" "nm_bug nm2 = nm_bug nm1" by (simp_all add: nm2_def same_table_def same_ids_def)
  have nm': "nm' = set_nat_cache_dirty L e nm2"
    using v by (auto simp: nm'_def remove_nat_in_journal_def Let_def nm2_def nm1_def e_def nm0_def init_nat_entry_eq new_entry_def split: option.split)
  have e0: "nat_root nm2 n = Some e" using e1(1) e2(1) by simp
  have ok2: "nat_cache_ok L {n} nm2" using same_table_ok[OF e2(2)] ok1 by simp
  note F = set_dirty_fields[OF ne(1), where L = L and nm = nm2, folded nm']
  have ok': "nat_cache_ok L {} nm'" unfolding nm' by (rule set_dirty_ok[OF ok2 e0 ne(1)]) (use ne(3) in simp_all)
  show sd: "same_disk nm nm'" using same_disk_trans[OF same_disk_trans[OF e1(2) same_table_disk[OF e2(2)]] F(4)] .
  have si: "same_ids nm nm'" using same_ids_trans[OF same_ids_trans[OF e1(3) e2(3)] F(5)] .
  have root: "nat_root nm' = (nat_root nm)(n \<mapsto> dirtied L e)" by (simp add: F(1) e2(1) e1(1))
  show no: "nat_of L nm' = nat_of L nm" using ne(2) same_disk_saved[OF sd, of L] by (auto simp: nat_of_def root fun_eq_iff split: option.split)
  show d: "nid_dirty nm' = (nid_dirty nm)(n := True)" by (auto simp: nid_dirty_def root fun_eq_iff)
  show h: "held nm' = held nm" using si by (simp add: held_def same_ids_def)
  show "nm_bug nm' = nm_bug nm" using F(7) e1(4) e2(4) by simp
  have f: "nat_journal nm' = nat_journal nm" "valid_nid L nm' = valid_nid L nm" using sd same_disk_valid[OF sd] by (simp_all add: same_disk_def)
  have "nid_tree_ok L nm'" using O(3) si f by (simp add: nid_tree_ok_def same_ids_def)
  moreover have "bits_ok L nm'" using O(4) si by (auto simp: bits_ok_def nid_bit_def same_ids_def no d f)
  moreover have "nids_free_ok L {} nm'" using O(5) si by (simp add: nids_free_ok_def no same_ids_def)
  ultimately show "flush_ok L nm'" using ok' by (simp add: flush_ok_def)
qed

lemma remove_fold_ok:
  fixes xs :: "(nat \<times> raw_nat) list"
  assumes "flush_ok L nm" "set xs \<subseteq> set (nat_journal nm)"
  shows "flush_ok L (fold (remove_nat_in_journal L) xs nm) \<and> same_disk nm (fold (remove_nat_in_journal L) xs nm) \<and>
    nat_of L (fold (remove_nat_in_journal L) xs nm) = nat_of L nm \<and> held (fold (remove_nat_in_journal L) xs nm) = held nm \<and>
    nm_bug (fold (remove_nat_in_journal L) xs nm) = nm_bug nm \<and>
    (\<forall>n. nid_dirty (fold (remove_nat_in_journal L) xs nm) n \<longleftrightarrow> nid_dirty nm n \<or> n \<in> fst ` set xs)"
  using assms
proof (induction xs arbitrary: nm)
  case (Cons x xs)
  obtain n r where x: "x = (n, r)" by fastforce
  have j: "(n, r) \<in> set (nat_journal nm)" using Cons.prems(2) x by simp
  note R = remove_nat_in_journal_ok[OF Cons.prems(1) j]
  have "set xs \<subseteq> set (nat_journal (remove_nat_in_journal L (n, r) nm))" using R(2) Cons.prems(2) by (simp add: same_disk_def)
  note I = Cons.IH[OF R(1) this]
  show ?case using R I same_disk_trans[OF R(2)] by (auto simp: x)
qed simp

lemma remove_nats_in_journal_ok:
  assumes ok: "flush_ok L nm"
  defines "nm' \<equiv> remove_nats_in_journal L nm"
  shows "flush_ok L nm'" "nat_of L nm' = nat_of L nm" "held nm' = held nm" "nm_bug nm' = nm_bug nm" "nat_journal nm' = []"
    "max_nid nm' = max_nid nm" "nat_blocks nm' = nat_blocks nm" "nat_blkaddr nm' = nat_blkaddr nm" "nat_bitmap nm' = nat_bitmap nm" "nat_meta nm' = nat_meta nm"
proof -
  define nm1 where "nm1 = fold (remove_nat_in_journal L) (nat_journal nm) nm"
  have R: "flush_ok L nm1" "same_disk nm nm1" "nat_of L nm1 = nat_of L nm" "held nm1 = held nm" "nm_bug nm1 = nm_bug nm"
    "\<And>n. nid_dirty nm1 n \<longleftrightarrow> nid_dirty nm n \<or> n \<in> fst ` set (nat_journal nm)" using remove_fold_ok[OF ok, of "nat_journal nm"] by (simp_all add: nm1_def)
  have nm': "nm' = nm1\<lparr>nat_journal := []\<rparr>" by (simp add: nm'_def remove_nats_in_journal_def nm1_def)
  note O = flush_okD[OF R(1)]
  have j1: "nat_journal nm1 = nat_journal nm" using R(2) by (simp add: same_disk_def)
  have di: "disk_nat L nm' = disk_nat L nm1" "valid_nid L nm' = valid_nid L nm1" by (simp_all add: nm' disk_nat_def current_nat_addr_def valid_nid_def Let_def fun_eq_iff)
  have sv: "saved_nat L nm' n = (if n \<in> fst ` set (nat_journal nm) then disk_nat L nm1 n else saved_nat L nm1 n)" for n
  proof -
    have "saved_nat L nm' n = disk_nat L nm1 n" using di(1) by (simp add: saved_nat_def nm')
    moreover have "n \<notin> fst ` set (nat_journal nm) \<Longrightarrow> map_of (nat_journal nm1) n = None" by (simp add: j1 map_of_eq_None_iff)
    ultimately show ?thesis by (simp add: saved_nat_def[of L nm1])
  qed
  have sc: "same_cache nm1 nm'" by (simp add: nm' same_cache_def)
  have d: "nid_dirty nm' = nid_dirty nm1" by (simp add: nm' nid_dirty_def fun_eq_iff)
  have "nat_journal nm' = []" "max_nid nm' = max_nid nm1" by (simp_all add: nm')
  then have "journal_ok L nm'" using O(7) unfolding journal_ok_def sv di by (simp add: valid_nid_def)
  moreover have "saved_nat L nm' n = saved_nat L nm1 n" if "nat_root nm1 n = Some e" "\<not> dirty e" for n e
    using R(6)[of n] that by (simp add: sv nid_dirty_def)
  ultimately have c: "nat_cache_ok L {} nm'" by (rule cache_ok_disk[OF O(1) sc])
  show no: "nat_of L nm' = nat_of L nm"
  proof
    fix n
    have r: "nat_root nm' = nat_root nm1" by (simp add: nm')
    have "saved_nat L nm' n = saved_nat L nm1 n" if "nat_root nm1 n = None" using R(6)[of n] that by (simp add: sv nid_dirty_def)
    then have "nat_of L nm' n = nat_of L nm1 n" by (simp add: nat_of_def r split: option.split)
    then show "nat_of L nm' n = nat_of L nm n" using R(3) by simp
  qed
  have b: "nid_bit L nm' = nid_bit L nm1" "free_nid_bitmap nm' = free_nid_bitmap nm1" "nat_block_bitmap nm' = nat_block_bitmap nm1"
    by (simp_all add: nid_bit_def nm' fun_eq_iff)
  have "bits_ok L nm'" using O(4) R(6) unfolding bits_ok_def no R(3) d di b j1 by blast
  moreover have "nids_free_ok L {} nm'" using O(5) by (simp add: nids_free_ok_def no R(3)) (simp add: nm')
  moreover have "nid_tree_ok L nm'" using O(3) by (simp add: nid_tree_ok_def di) (simp add: nm')
  ultimately show "flush_ok L nm'" using c by (simp add: flush_ok_def)
  show "held nm' = held nm" "nm_bug nm' = nm_bug nm" using R(4,5) by (simp_all add: nm' held_def)
  show "nat_journal nm' = []" by (simp add: nm')
  show "max_nid nm' = max_nid nm" "nat_blocks nm' = nat_blocks nm" "nat_blkaddr nm' = nat_blkaddr nm" "nat_bitmap nm' = nat_bitmap nm" "nat_meta nm' = nat_meta nm"
    using R(2) by (simp_all add: nm' same_disk_def)
qed


section \<open>The whole table\<close>

lemma mset_insert_nat_set: "mset (insert_nat_set nm s xs) = add_mset s (mset xs)"
  by (induction xs) simp_all

lemma mset_sets: "mset (fold (adjust_nat_entry_set L nm) xs ys) = mset xs + mset ys"
  by (induction xs arbitrary: ys) (simp_all add: adjust_nat_entry_set_def mset_insert_nat_set)

text \<open>The dirty entries of all sets together are at most as many as the counter says.\<close>

lemma sum_ecnt:
  assumes ok: "flush_ok L nm" and S: "finite S"
  shows "(\<Sum>t \<in> S. ecnt nm t) \<le> nat_cnt nm DIRTY_NAT"
proof -
  note C = cache_okD[OF flush_okD(1)[OF ok]]
  have "distinct (elist nm t)" "ecnt nm t = length (elist nm t)" for t using C(3) by (simp_all add: nat_lists_ok_def)
  then have "ecnt nm t = card (set (elist nm t))" for t by (simp add: distinct_card)
  then have "(\<Sum>t \<in> S. ecnt nm t) = card (\<Union>t \<in> S. set (elist nm t))"
    using S flush_elist[OF ok] by (subst card_UN_disjoint) auto
  also have "\<dots> \<le> card {n. n < max_nid nm \<and> is_dirty (nat_root nm n)}"
  proof (rule card_mono)
    show "(\<Union>t \<in> S. set (elist nm t)) \<subseteq> {n. n < max_nid nm \<and> is_dirty (nat_root nm n)}"
      using flush_elist[OF ok] entry_bound(1)[OF C(2)] by (auto simp: nid_dirty_def is_dirty_def)
  qed simp
  also have "\<dots> = nat_cnt nm DIRTY_NAT"
  proof -
    have "card (set (filter (\<lambda>i. is_dirty (nat_root nm i)) [0..<max_nid nm])) = nat_cnt nm DIRTY_NAT"
      using C(4) distinct_card[of "filter (\<lambda>i. is_dirty (nat_root nm i)) [0..<max_nid nm]"] unfolding counts_ok_def count_idx_def by simp
    then show ?thesis by simp
  qed
  finally show ?thesis .
qed

lemma no_dirty_count:
  assumes "nat_cache_ok L {} nm" "nat_cnt nm DIRTY_NAT = 0"
  shows "\<not> nid_dirty nm n"
proof
  note C = cache_okD[OF assms(1)]
  assume "nid_dirty nm n"
  then obtain e where e: "nat_root nm n = Some e" "dirty e" by (auto simp: nid_dirty_def)
  then have "n < max_nid nm" "is_dirty (nat_root nm n)" using entry_bound(1)[OF C(2)] by (auto simp: is_dirty_def)
  then have "n \<in> set (filter (\<lambda>i. is_dirty (nat_root nm i)) [0..<max_nid nm])" by simp
  then have "filter (\<lambda>i. is_dirty (nat_root nm i)) [0..<max_nid nm] \<noteq> []" by (metis empty_iff list.set(1))
  then show False using C(4) assms(2) by (simp add: counts_ok_def count_idx_def)
qed

lemma dirty_block:
  assumes "flush_ok L nm" "nid_dirty nm n" "\<not> is_new L nm n"
  shows "nat_set_root nm (NAT_BLOCK_OFFSET L n) \<noteq> None" "NAT_BLOCK_OFFSET L n < nat_blocks nm"
proof -
  note C = cache_okD[OF flush_okD(1)[OF assms(1)]]
  have "n \<in> set (elist nm (NAT_BLOCK_OFFSET L n))" using flush_elist[OF assms(1)] assms(2,3) by simp
  then show "nat_set_root nm (NAT_BLOCK_OFFSET L n) \<noteq> None" by (cases "nat_set_root nm (NAT_BLOCK_OFFSET L n)") (simp_all add: elist_def)
  have "n < NAT_ENTRY_PER_BLOCK L * nat_blocks nm" using assms(2) entry_bound(1)[OF C(2)] C(1) by (auto simp: nid_dirty_def lay_ok_def)
  then show "NAT_BLOCK_OFFSET L n < nat_blocks nm" by (simp add: NAT_BLOCK_OFFSET_def less_mult_imp_div_less mult.commute)
qed

lemma other_copy:
  assumes "lay_ok L nm" "sets_step L S nm nm'"
  shows "nat_meta nm' (current_nat_addr L nm n) = nat_meta nm (current_nat_addr L nm n)"
proof -
  have "current_nat_addr L nm n \<noteq> nat_slot L nm s (\<not> nat_bitmap nm s)" for s
    unfolding current_nat_addr_slot[OF assms(1)] using nat_slot_inj[of L nm "NAT_BLOCK_OFFSET L n" _ s] by (metis (full_types))
  then show ?thesis using assms(2) by (simp add: sets_step_def)
qed

text \<open>Whatever the result: the table and the ids are the same, and the old copies are untouched.\<close>

lemma flush_nat_entries_ok:
  assumes ok: "flush_ok L nm" and f: "f2fs_flush_nat_entries L c umount nm = (r, nm')"
  shows "flush_ok L nm'" "nat_of L nm' = nat_of L nm" "held nm' = held nm" "nm_bug nm' = nm_bug nm"
    "nat_meta nm' (current_nat_addr L nm n) = nat_meta nm (current_nat_addr L nm n)"
    "r = None \<Longrightarrow> nid_dirty nm' m \<Longrightarrow> is_new L nm m" "nat_blocks nm' = nat_blocks nm" "nat_blkaddr nm' = nat_blkaddr nm"
proof -
  define same where "same a \<longleftrightarrow> flush_ok L a \<and> nat_of L a = nat_of L nm \<and> held a = held nm \<and> nm_bug a = nm_bug nm \<and> nat_blocks a = nat_blocks nm \<and>
    nat_blkaddr a = nat_blkaddr nm \<and> nat_bitmap a = nat_bitmap nm \<and> nat_meta a = nat_meta nm" for a
  have R: "same (remove_nats_in_journal L a) \<and> nat_journal (remove_nats_in_journal L a) = []" if "same a" for a
    using that remove_nats_in_journal_ok[of L a] by (simp add: same_def)
  have ca: "current_nat_addr L a = current_nat_addr L nm" if "same a" for a using that by (simp add: same_def current_nat_addr_def Let_def fun_eq_iff)
  define nm0 where "nm0 = (if umount then remove_nats_in_journal L nm else nm)"
  have s0: "same nm0" using R[of nm] ok by (simp add: nm0_def same_def)
  have g: "flush_ok L nm' \<and> nat_of L nm' = nat_of L nm \<and> held nm' = held nm \<and> nm_bug nm' = nm_bug nm \<and> nat_blocks nm' = nat_blocks nm \<and> nat_blkaddr nm' = nat_blkaddr nm \<and>
    (\<forall>n. nat_meta nm' (current_nat_addr L nm n) = nat_meta nm (current_nat_addr L nm n)) \<and> (r = None \<longrightarrow> (\<forall>m. nid_dirty nm' m \<longrightarrow> is_new L nm m))"
  proof (cases "nat_cnt nm0 DIRTY_NAT = 0")
    case True
    then have "nm' = nm0" using f by (simp add: f2fs_flush_nat_entries_def nm0_def[symmetric] Let_def)
    then show ?thesis using s0 no_dirty_count[OF flush_okD(1) True, of L] by (simp add: same_def)
  next
    case False
    define nm1 where "nm1 = (if umount \<or> \<not> has_cursum_space L nm0 (nat_cnt nm0 DIRTY_NAT) then remove_nats_in_journal L nm0 else nm0)"
    define ss where "ss = fold (adjust_nat_entry_set L nm1) (filter (\<lambda>s. nat_set_root nm1 s \<noteq> None) [0..<nat_blocks nm1]) []"
    have s1: "same nm1" using R[OF s0] s0 by (simp add: nm1_def)
    then have ok1: "flush_ok L nm1" by (simp add: same_def)
    have m: "mset ss = mset (filter (\<lambda>s. nat_set_root nm1 s \<noteq> None) [0..<nat_blocks nm1])" unfolding ss_def mset_sets by simp
    have ss: "distinct ss" "set ss = {s. s < nat_blocks nm1 \<and> nat_set_root nm1 s \<noteq> None}"
      unfolding mset_eq_imp_distinct_iff[OF m] mset_eq_setD[OF m] by auto
    have "journal_room L umount (set ss) nm1"
    proof (cases "umount \<or> \<not> has_cursum_space L nm0 (nat_cnt nm0 DIRTY_NAT)")
      case True
      then show ?thesis using R[OF s0] by (simp add: nm1_def journal_room_def)
    next
      case False
      then have "nm1 = nm0" "\<not> umount" by (simp_all add: nm1_def)
      then show ?thesis using False sum_ecnt[OF ok1, of "set ss"] by (auto simp: journal_room_def has_cursum_space_def)
    qed
    moreover have "flush_sets L c umount ss nm1 = (r, nm')" using f False unfolding f2fs_flush_nat_entries_def nm0_def[symmetric] Let_def nm1_def[symmetric] ss_def[symmetric] by simp
    ultimately obtain T where T: "sets_step L T nm1 nm'" "r = None \<longrightarrow> T = set ss" using flush_sets_ok[OF ok1 _ ss(1)] by blast
    have "is_new L nm m" if "r = None" "nid_dirty nm' m" for m
      using T that ss(2) dirty_block[OF ok1, of m] is_new_cong[of L nm1 nm] s1 by (auto simp: sets_step_def same_def)
    moreover have "nat_meta nm' (current_nat_addr L nm n) = nat_meta nm (current_nat_addr L nm n)" for n
      using other_copy[OF flush_okD(6)[OF ok1] T(1), of n] ca[OF s1] s1 by (simp add: same_def)
    ultimately show ?thesis using T(1) s1 by (simp add: sets_step_def same_def)
  qed
  then show "flush_ok L nm'" "nat_of L nm' = nat_of L nm" "held nm' = held nm" "nm_bug nm' = nm_bug nm"
    "nat_meta nm' (current_nat_addr L nm n) = nat_meta nm (current_nat_addr L nm n)" "r = None \<Longrightarrow> nid_dirty nm' m \<Longrightarrow> is_new L nm m" "nat_blocks nm' = nat_blocks nm" "nat_blkaddr nm' = nat_blkaddr nm" by blast+
qed

text \<open>A flush fails only when a block of the table cannot be read, and then checkpointing is stopped.\<close>

lemma flush_sets_err: "fst (flush_sets L c umount ss nm) = None \<or> \<not> readable c \<and> nm_cp_error (snd (flush_sets L c umount ss nm))"
proof (induction ss arbitrary: nm)
  case (Cons s ss)
  have "fst (flush_nat_entry_set L c umount s nm) = None \<or> \<not> readable c \<and> nm_cp_error (snd (flush_nat_entry_set L c umount s nm))"
    by (auto simp: flush_nat_entry_set_def get_next_nat_page_def page_defs readable_def f2fs_stop_checkpoint_def Let_def split: option.split)
  then show ?case using Cons by (auto split: prod.split option.split)
qed simp

lemma flush_err: "fst (f2fs_flush_nat_entries L c umount nm) = None \<or> \<not> readable c \<and> nm_cp_error (snd (f2fs_flush_nat_entries L c umount nm))"
  using flush_sets_err by (simp add: f2fs_flush_nat_entries_def Let_def)

lemma ids_flush: "ids_ok L {} nm \<Longrightarrow> flush_ok L nm"
  by (simp add: ids_ok_def flush_ok_def)

lemma flush_ids:
  assumes "flush_ok L nm" "\<And>n. nid_dirty nm n \<Longrightarrow> is_new L nm n"
  shows "ids_ok L {} nm"
proof -
  have ne: "NULL_ADDR (nm_sbi L) \<noteq> NEW_ADDR (nm_sbi L)" using flush_okD(6)[OF assms(1)] by (simp add: lay_ok_def)
  have "freed_ok L nm" unfolding freed_ok_def
  proof (intro allI impI)
    fix n e assume e: "nat_root nm n = Some e \<and> dirty e \<and> blk_addr (ni e) = NULL_ADDR (nm_sbi L)"
    then have "is_new L nm n" using assms(2)[of n] by (auto simp: nid_dirty_def)
    then show "\<not> nat_flags e IS_CHECKPOINTED" using e ne by (simp add: is_new_def nat_of_def)
  qed
  moreover have "quiet L nm" using assms(2) ne by (auto simp: quiet_def is_new_def)
  ultimately show ?thesis using assms(1) by (simp add: ids_ok_def flush_ok_def)
qed

lemma flush_saves:
  assumes ok: "ids_ok L {} nm" and f: "f2fs_flush_nat_entries L c umount nm = (None, nm')"
  shows "ids_ok L {} nm'" "\<not> is_new L nm n \<Longrightarrow> saved_nat L nm' n = nat_of L nm n"
proof -
  note F = flush_nat_entries_ok[OF ids_flush[OF ok] f]
  show o: "ids_ok L {} nm'" using flush_ids[OF F(1)] F(6) is_new_cong[OF F(2)] by simp
  show "saved_nat L nm' n = nat_of L nm n" if "\<not> is_new L nm n"
  proof -
    have "\<not> nid_dirty nm' n" using F(6)[of n] that by blast
    then show ?thesis using clean_saved[OF ids_okD(1)[OF o], of n] F(2) by simp
  qed
qed

end
