(* ===== verification/Nat_Machine.thy ===== *)
theory Nat_Machine
  imports Nat_Checkpoint State_Machine
begin

text \<open>
  The node manager as a state machine over the calls of the rest of the file system: looking up a
  node, changing its address, taking and giving back ids, shrinking the caches and writing the
  table at a checkpoint. It implements a table of nodes and a set of ids that have been handed out.
\<close>

section \<open>Operations that only cache\<close>

definition keeps_dirty :: "f2fs_nm_info \<Rightarrow> f2fs_nm_info \<Rightarrow> bool" where
  "keeps_dirty nm nm' \<longleftrightarrow> nm_bug nm' = nm_bug nm \<and> (\<forall>n e. nat_root nm' n = Some e \<and> dirty e \<longrightarrow> nat_root nm n = Some e)"

lemma keeps_dirty_trans: "keeps_dirty a b \<Longrightarrow> keeps_dirty b c \<Longrightarrow> keeps_dirty a c"
  by (simp add: keeps_dirty_def)

lemma get_node_info_dirty: "keeps_dirty nm (snd (f2fs_get_node_info L c n nm))"
  by (auto simp: keeps_dirty_def f2fs_get_node_info_def cache_nat_entry_def init_nat_entry_eq Let_def split: option.splits sum.splits if_splits)

lemma free_nats_dirty: "keeps_dirty nm (snd (free_nats k nm))"
proof (induction k arbitrary: nm)
  case (Suc k)
  have d: "keeps_dirty nm (del_from_nat_cache x (nm\<lparr>nat_entries := rest\<rparr>))" for x rest
    unfolding keeps_dirty_def del_from_nat_cache_def nat_cnt_add_def by (simp add: Let_def)
  show ?case
  proof (cases "nat_entries nm")
    case (Cons x rest)
    then show ?thesis using keeps_dirty_trans[OF d Suc.IH] by simp
  qed (simp add: keeps_dirty_def)
qed (simp add: keeps_dirty_def)

lemma ids_keeps:
  assumes ok: "ids_ok L J nm" and k: "keeps_table L nm nm'" "keeps_dirty nm nm'"
  shows "ids_ok L J nm'"
proof -
  note O = ids_okD[OF ok] and K = k(1)[unfolded keeps_table_def]
  have i: "same_ids nm nm'" and v: "valid_nid L nm' = valid_nid L nm" and j: "nat_journal nm' = nat_journal nm" and n: "nat_of L nm' = nat_of L nm" and d: "nid_dirty nm' = nid_dirty nm"
    using K same_disk_valid[of nm nm'] by (simp_all add: same_disk_def)
  have "freed_ok L nm'" using O(6) k(2) by (auto simp: freed_ok_def keeps_dirty_def)
  moreover have "nid_tree_ok L nm'" using O(2) i v by (simp add: nid_tree_ok_def same_ids_def)
  moreover have "bits_ok L nm'" using O(3) i by (simp add: bits_ok_def nid_bit_def v n d j same_ids_def)
  moreover have "nids_free_ok L J nm'" "quiet L nm'" using O(4,5) i by (simp_all add: nids_free_ok_def quiet_def n d same_ids_def)
  ultimately show ?thesis using K by (simp add: ids_ok_def)
qed

lemma held_same_ids: "same_ids nm nm' \<Longrightarrow> held nm' = held nm"
  by (simp add: held_def same_ids_def)

section \<open>Changing an address\<close>

definition set_allowed :: "node_lay \<Rightarrow> node_info \<Rightarrow> nat \<Rightarrow> f2fs_nm_info \<Rightarrow> bool" where
  "set_allowed L i b nm \<longleftrightarrow> valid_nid L nm (ni_nid i) \<and>
     (if b = NEW_ADDR (nm_sbi L)
      then blk_addr i = NULL_ADDR (nm_sbi L) \<and> ni_nid i \<in> held nm \<and> block_addr (nat_of L nm (ni_nid i)) = NULL_ADDR (nm_sbi L)
      else raw_nat_from_node_info i = nat_of L nm (ni_nid i) \<and> blk_addr i \<noteq> NULL_ADDR (nm_sbi L) \<and>
        (b = NULL_ADDR (nm_sbi L) \<longrightarrow> ni_nid i \<notin> held nm))"

lemma set_node_addr_ids:
  fixes fs :: bool
  assumes ok: "ids_ok L {} nm" and a: "set_allowed L i b nm"
  defines "nm' \<equiv> set_node_addr L i b fs nm"
  shows "ids_ok L {} nm'" "held nm' = held nm" "nm_bug nm' = nm_bug nm"
    "\<exists>v. nat_of L nm' = (nat_of L nm)(ni_nid i := \<lparr>raw_version = v, raw_ino = ni_ino i, block_addr = b\<rparr>)" "same_disk nm nm'"
proof -
  note O = ids_okD[OF ok]
  define n where "n = ni_nid i"
  have neq: "NULL_ADDR (nm_sbi L) \<noteq> NEW_ADDR (nm_sbi L)" using O(7) by (simp add: lay_ok_def)
  have "\<not> nid_dirty nm n" if "n \<in> held nm" "block_addr (nat_of L nm n) = NULL_ADDR (nm_sbi L)" using O(5) that by (simp add: quiet_def held_def)
  then have ac: "addr_change L nm i b" using a by (auto simp: addr_change_def set_allowed_def n_def)
  note S = set_node_addr_spec[where fs = fs, OF O(1) ac, folded nm'_def n_def]
  show v: "\<exists>v. nat_of L nm' = (nat_of L nm)(ni_nid i := \<lparr>raw_version = v, raw_ino = ni_ino i, block_addr = b\<rparr>)" using S(5) by (simp add: n_def)
  show "held nm' = held nm" by (rule held_same_ids[OF S(3)])
  show "nm_bug nm' = nm_bug nm" by (rule S(4))
  show "same_disk nm nm'" by (rule S(2))
  have blk: "block_addr (nat_of L nm' m) = (if m = n then b else block_addr (nat_of L nm m))" for m using v by (auto simp: n_def)
  have f: "free_nid_root nm' = free_nid_root nm" "free_nid_bitmap nm' = free_nid_bitmap nm" "nat_block_bitmap nm' = nat_block_bitmap nm" using S(3) by (simp_all add: same_ids_def)
  have vd: "valid_nid L nm' = valid_nid L nm" "nat_journal nm' = nat_journal nm" using S(2) same_disk_valid[OF S(2)] by (simp_all add: same_disk_def)
  have nf: "free_nid_root nm n \<noteq> Some FREE_NID" "b = NULL_ADDR (nm_sbi L) \<Longrightarrow> free_nid_root nm n = None"
  proof -
    have w: "block_addr (nat_of L nm n) = blk_addr i" if "b \<noteq> NEW_ADDR (nm_sbi L)" using a that unfolding set_allowed_def n_def by (metis raw_info(3))
    show fr: "free_nid_root nm n \<noteq> Some FREE_NID"
    proof
      assume r: "free_nid_root nm n = Some FREE_NID"
      then have "block_addr (nat_of L nm n) = NULL_ADDR (nm_sbi L)" using O(4) by (simp add: nids_free_ok_def)
      then show False using a r w by (auto simp: set_allowed_def held_def n_def split: if_splits)
    qed
    show "free_nid_root nm n = None" if "b = NULL_ADDR (nm_sbi L)"
      using that a neq fr by (cases "free_nid_root nm n"; cases "the (free_nid_root nm n)") (auto simp: set_allowed_def held_def n_def)
  qed
  have "nid_tree_ok L nm'" using O(2) S(3) vd by (simp add: nid_tree_ok_def same_ids_def)
  moreover have "bits_ok L nm'" using O(3) by (auto simp: bits_ok_def nid_bit_def f vd blk S(6))
  moreover have "nids_free_ok L {} nm'" using O(4) nf(1) by (auto simp: nids_free_ok_def f blk)
  moreover have "quiet L nm'" using O(5) nf(2) by (auto simp: quiet_def f blk S(6) split: if_splits)
  ultimately show "ids_ok L {} nm'" using S(1,7) O(6) by (simp add: ids_ok_def)
qed

section \<open>Events\<close>

datatype nm_event =
    Nm_get node_cond nat
  | Nm_set node_info nat bool
  | Nm_alloc "node_cond list"
  | Nm_done nat
  | Nm_failed node_cond nat
  | Nm_build node_cond bool bool
  | Nm_shrink_nats bool nat
  | Nm_shrink_nids node_cond nat
  | Nm_flush node_cond bool

fun nm_step :: "node_lay \<Rightarrow> nm_event \<Rightarrow> f2fs_nm_info \<Rightarrow> f2fs_nm_info" where
  "nm_step L (Nm_get c n) nm = snd (f2fs_get_node_info L c n nm)"
| "nm_step L (Nm_set i b fs) nm = set_node_addr L i b fs nm"
| "nm_step L (Nm_alloc cs) nm = snd (f2fs_alloc_nid L cs nm)"
| "nm_step L (Nm_done n) nm = f2fs_alloc_nid_done n nm"
| "nm_step L (Nm_failed c n) nm = f2fs_alloc_nid_failed L c n nm"
| "nm_step L (Nm_build c sync mount) nm = snd (f2fs_build_free_nids L c sync mount nm)"
| "nm_step L (Nm_shrink_nats locked k) nm = snd (f2fs_try_to_free_nats locked k nm)"
| "nm_step L (Nm_shrink_nids c k) nm = snd (f2fs_try_to_free_nids L c k nm)"
| "nm_step L (Nm_flush c umount) nm = snd (f2fs_flush_nat_entries L c umount nm)"

text \<open>
  What callers ensure: node ids are in range, an address is changed from what the table holds, a
  new node has an id that was handed out to it and a removed one does not, and an id is given back only
  while it has no node. Any block of the table may be unreadable. When the collection of free ids, an
  allocation or a flush meets such a block, \<open>f2fs_get_meta_page_retry\<close> stops checkpointing; a run
  ends with that call, since nothing that happens after it reaches the disk.
\<close>

fun nm_guard :: "node_lay \<Rightarrow> nm_event \<Rightarrow> f2fs_nm_info \<Rightarrow> bool" where
  "nm_guard L (Nm_get c n) nm \<longleftrightarrow> valid_nid L nm n"
| "nm_guard L (Nm_set i b fs) nm \<longleftrightarrow> set_allowed L i b nm"
| "nm_guard L (Nm_done n) nm \<longleftrightarrow> n \<in> held nm"
| "nm_guard L (Nm_failed c n) nm \<longleftrightarrow> n \<in> held nm \<and> block_addr (nat_of L nm n) = NULL_ADDR (nm_sbi L)"
| "nm_guard L e nm \<longleftrightarrow> True"

definition nm_enabled :: "node_lay \<Rightarrow> nm_event \<Rightarrow> f2fs_nm_info \<Rightarrow> bool" where
  "nm_enabled L e nm \<longleftrightarrow> \<not> nm_cp_error nm \<and> nm_guard L e nm"

text \<open>
  The cache and the tree of ids are consistent in every state; that no free id has a node is guaranteed
  as long as checkpointing has not been stopped.
\<close>

definition nm_inv :: "node_lay \<Rightarrow> f2fs_nm_info \<Rightarrow> bool" where
  "nm_inv L nm \<longleftrightarrow> \<not> nm_bug nm \<and> nat_cache_ok L {} nm \<and> nid_tree_ok L nm \<and> (nm_cp_error nm \<or> ids_ok L {} nm)"

lemma nm_invD: "nm_inv L nm \<Longrightarrow> \<not> nm_cp_error nm \<Longrightarrow> ids_ok L {} nm"
  by (simp add: nm_inv_def)

lemma ids_inv: "ids_ok L {} nm \<Longrightarrow> \<not> nm_bug nm \<Longrightarrow> nm_inv L nm"
  using ids_okD(1,2)[of L "{}" nm] by (simp add: nm_inv_def)

section \<open>The specification\<close>

text \<open>A table of nodes and the ids that have been handed out and not settled yet.\<close>

record node_table =
  nodes :: "nat \<Rightarrow> raw_nat"
  taken :: "nat set"

definition table_of :: "node_lay \<Rightarrow> f2fs_nm_info \<Rightarrow> node_table" where
  "table_of L nm = \<lparr>nodes = nat_of L nm, taken = held nm\<rparr>"

fun table_step :: "node_lay \<Rightarrow> nm_event \<Rightarrow> node_table \<Rightarrow> node_table \<Rightarrow> bool" where
  "table_step L (Nm_set i b fs) t t' \<longleftrightarrow>
     (\<exists>v. t' = t\<lparr>nodes := (nodes t)(ni_nid i := \<lparr>raw_version = v, raw_ino = ni_ino i, block_addr = b\<rparr>)\<rparr>)"
| "table_step L (Nm_alloc cs) t t' \<longleftrightarrow>
     t' = t \<or> (\<exists>n. n \<notin> taken t \<and> block_addr (nodes t n) = NULL_ADDR (nm_sbi L) \<and> t' = t\<lparr>taken := insert n (taken t)\<rparr>)"
| "table_step L (Nm_done n) t t' \<longleftrightarrow> t' = t\<lparr>taken := taken t - {n}\<rparr>"
| "table_step L (Nm_failed c n) t t' \<longleftrightarrow> t' = t\<lparr>taken := taken t - {n}\<rparr>"
| "table_step L e t t' \<longleftrightarrow> t' = t"

lemma build_table:
  assumes ok: "ids_ok L {} nm" and b: "\<not> nm_bug nm" and r: "f2fs_build_free_nids L c sync mount nm = (r, nm')"
  shows "nm_inv L nm'" "table_of L nm' = table_of L nm"
proof -
  have "nm_inv L nm' \<and> same_table nm nm' \<and> held nm' = held nm"
  proof (cases r)
    case None
    then show ?thesis using build_free_nids_ok[OF ok, of c sync mount nm'] r b ids_inv by simp
  next
    case (Some e)
    note E = build_free_nids_err[OF ok r[unfolded Some]]
    have "nm_cp_error nm'" using build_no_err[OF ok, of c sync mount] r Some by simp
    then show ?thesis using E b ids_okD(1,2)[OF E(1)] by (simp add: nm_inv_def)
  qed
  then show "nm_inv L nm'" "table_of L nm' = table_of L nm" using same_table_views(1)[of nm nm' L] by (simp_all add: table_of_def)
qed

lemma flush_table:
  assumes ok: "ids_ok L {} nm" and b: "\<not> nm_bug nm" and f: "f2fs_flush_nat_entries L c umount nm = (r, nm')"
  shows "nm_inv L nm'" "table_of L nm' = table_of L nm"
proof -
  note F = flush_nat_entries_ok[OF ids_flush[OF ok] f]
  show "table_of L nm' = table_of L nm" using F(2,3) by (simp add: table_of_def)
  show "nm_inv L nm'"
  proof (cases r)
    case None
    then show ?thesis using flush_saves(1)[OF ok, of c umount nm'] f F(4) b ids_inv by simp
  next
    case (Some e)
    then have "nm_cp_error nm'" using flush_err[of L c umount nm] f by simp
    then show ?thesis using F(1,4) b by (simp add: nm_inv_def flush_ok_def)
  qed
qed

lemma alloc_table:
  assumes ok: "ids_ok L {} nm" and b: "\<not> nm_bug nm" and r: "f2fs_alloc_nid L cs nm = (res, nm')"
  shows "nm_inv L nm'" "table_step L (Nm_alloc cs) (table_of L nm) (table_of L nm')"
proof -
  note A = alloc_nid_ok[OF ok r]
  have t: "nat_of L nm' = nat_of L nm" using same_table_views(1)[of nm nm' L] A by simp
  show "nm_inv L nm'" using A b same_table_ok[of nm nm' L "{}"] ids_okD(1)[OF ok] by (auto simp: nm_inv_def)
  show "table_step L (Nm_alloc cs) (table_of L nm) (table_of L nm')"
  proof (cases "\<exists>n. res = Some (Some n)")
    case True
    then show ?thesis using A t by (auto simp: table_of_def)
  next
    case False
    then have "held nm' = held nm" using A by (simp split: option.splits)
    then show ?thesis using t by (simp add: table_of_def)
  qed
qed

lemma nm_step_table:
  assumes i: "nm_inv L nm" and en: "nm_enabled L e nm"
  shows "nm_inv L (nm_step L e nm) \<and> table_step L e (table_of L nm) (table_of L (nm_step L e nm))"
proof -
  have ok: "ids_ok L {} nm" and b: "\<not> nm_bug nm" and g: "nm_guard L e nm" using i en by (auto simp: nm_inv_def nm_enabled_def)
  show ?thesis
  proof (cases e)
    case (Nm_get c n)
    note K = get_node_info_spec(1)[OF ids_okD(1)[OF ok], of n c] and D = get_node_info_dirty[of nm L c n]
    have k: "keeps_table L nm (snd (f2fs_get_node_info L c n nm))" using K g Nm_get by simp
    then show ?thesis using ids_inv[OF ids_keeps[OF ok k D]] b D held_same_ids
      by (auto simp: Nm_get table_of_def keeps_table_def keeps_dirty_def)
  next
    case (Nm_set ii blk fs)
    note S = set_node_addr_ids[where fs = fs, OF ok, of ii blk]
    show ?thesis using S g b ids_inv by (auto simp: Nm_set table_of_def)
  next
    case (Nm_alloc cs)
    show ?thesis using alloc_table[OF ok b prod.collapse[symmetric], of cs] by (simp add: Nm_alloc)
  next
    case (Nm_done n)
    have n: "n \<in> held nm" using g Nm_done by simp
    note A = alloc_nid_done_ok[OF ok n]
    show ?thesis using A(3,4) b ids_inv[OF A(1)] same_table_views(1)[OF A(2), of L] by (simp add: Nm_done table_of_def)
  next
    case (Nm_failed c n)
    have n: "n \<in> held nm" "block_addr (nat_of L nm n) = NULL_ADDR (nm_sbi L)" using g Nm_failed by simp_all
    note A = alloc_nid_failed_ok[OF ok n, of c]
    show ?thesis using A(3,4) b ids_inv[OF A(1)] same_table_views(1)[OF A(2), of L] by (simp add: Nm_failed table_of_def)
  next
    case (Nm_build c sync mount)
    show ?thesis using build_table[OF ok b prod.collapse[symmetric], of c sync mount] by (simp add: Nm_build)
  next
    case (Nm_shrink_nats locked k)
    define nm' where "nm' = snd (f2fs_try_to_free_nats locked k nm)"
    have k: "keeps_table L nm nm'" unfolding nm'_def by (rule try_to_free_nats_keeps[OF ids_okD(1)[OF ok]])
    have d: "keeps_dirty nm nm'" using free_nats_dirty[of nm k] by (auto simp: nm'_def f2fs_try_to_free_nats_def keeps_dirty_def split: prod.split)
    show ?thesis using ids_inv[OF ids_keeps[OF ok k d]] b d k held_same_ids
      by (auto simp: Nm_shrink_nats nm'_def[symmetric] table_of_def keeps_table_def keeps_dirty_def)
  next
    case (Nm_shrink_nids c k)
    note T = try_to_free_nids_ok[OF ok, of c k]
    show ?thesis using T(3,4) b ids_inv[OF T(1)] same_table_views(1)[OF T(2), of L] by (simp add: Nm_shrink_nids table_of_def)
  next
    case (Nm_flush c umount)
    show ?thesis using flush_table[OF ok b prod.collapse[symmetric], of c umount] by (simp add: Nm_flush)
  qed
qed

interpretation natm: guarded_machine "nm_step L" "nm_enabled L" "nm_inv L" for L
  by unfold_locales (use nm_step_table in blast)

end
