(* ===== verification/Nat_Stop.thy ===== *)
theory Nat_Stop
  imports Nat_Machine
begin

text \<open>
  When checkpointing is stopped: only a block of the table that cannot be read, while ids are
  collected or the table is written, sets \<open>CP_ERROR_FLAG\<close>. No other operation of the node manager
  changes it, so runs on readable volumes never end.
\<close>

section \<open>Operations that cannot stop it\<close>

abbreviation cpe :: "f2fs_nm_info \<Rightarrow> bool" where
  "cpe \<equiv> nm_cp_error"

lemma cpe_cache [simp]:
  "cpe (nm_bug_on b nm) = cpe nm" "cpe (put_nat e nm) = cpe nm" "cpe (nat_cnt_add st d nm) = cpe nm" "cpe (snd (init_nat_entry ne r nm)) = cpe nm"
  "cpe (snd (lookup_nat_cache n nm)) = cpe nm" "cpe (del_from_nat_cache n nm) = cpe nm" "cpe (grab_nat_entry_set s nm) = cpe nm"
  "cpe (upd_nat_set s f nm) = cpe nm" "cpe (unlink_nat L n nm) = cpe nm"
  by (simp_all add: nm_bug_on_def put_nat_def nat_cnt_add_def init_nat_entry_def lookup_nat_cache_def del_from_nat_cache_def grab_nat_entry_set_def
      upd_nat_set_def unlink_nat_def Let_def split: option.split)

lemma cpe_entries [simp]:
  "cpe (set_nat_cache_dirty L e nm) = cpe nm" "cpe (clear_nat_cache_dirty L s e nm) = cpe nm" "cpe (snd (grab_entry L i b nm)) = cpe nm" "cpe (mark_inode i fs nm) = cpe nm"
  by (simp_all add: set_nat_cache_dirty_def clear_nat_cache_dirty_def grab_entry_def mark_inode_def Let_def case_prod_beta split: option.split)

lemma cpe_ids [simp]:
  "cpe (nid_cnt_add st d nm) = cpe nm" "cpe (snd (insert_free_nid n nm)) = cpe nm" "cpe (drop_free_nid n st nm) = cpe nm" "cpe (move_free_nid n st st' nm) = cpe nm"
  "cpe (update_free_nid_bitmap L n b bl nm) = cpe nm" "cpe (remove_free_nid n nm) = cpe nm"
  by (simp_all add: nid_cnt_add_def insert_free_nid_def drop_free_nid_def move_free_nid_def update_free_nid_bitmap_def remove_free_nid_def Let_def
      split: option.split nid_state.split)

lemma cpe_add_free_nid [simp]: "cpe (snd (add_free_nid L n bl u nm)) = cpe nm"
  using cpe_cache(5)[of n nm] by (auto simp: add_free_nid_def Let_def split: prod.split option.split)

lemma cpe_free_nats: "cpe (snd (free_nats k nm)) = cpe nm"
  by (induction k arbitrary: nm) (auto split: list.split)

lemma cpe_free_nids: "cpe (snd (free_nids_loop L k nm)) = cpe nm"
  by (induction k arbitrary: nm) (auto split: list.split)

lemma cpe_get: "cpe (snd (f2fs_get_node_info L c n nm)) = cpe nm"
  by (auto simp: f2fs_get_node_info_def lookup_nat_cache_def cache_nat_entry_def init_nat_entry_def nm_bug_on_def put_nat_def nat_cnt_add_def Let_def
      split: option.split sum.split prod.split)

section \<open>Collecting ids\<close>

lemma cpe_scan_entries: "cpe (snd (scan_nat_entries L blk js s nm)) = cpe nm"
  by (induction js arbitrary: s nm) auto

lemma cpe_curseg [simp]: "cpe (scan_curseg_cache L nm) = cpe nm"
proof -
  have "cpe (fold (\<lambda>(nid, r) nm. if block_addr r = NULL_ADDR (nm_sbi L) then snd (add_free_nid L nid True False nm) else remove_free_nid nid nm) xs a) = cpe a" for xs a
    by (induction xs arbitrary: a) (auto split: prod.split)
  then show ?thesis by (simp add: scan_curseg_cache_def)
qed

lemma cpe_scan_bits [simp]: "cpe (scan_free_nid_bits L nm) = cpe nm"
proof -
  have b: "cpe (snd (scan_block_bits L i js a)) = cpe a" for i js a
    by (induction js arbitrary: a) (auto simp: Let_def)
  have "cpe (scan_blocks L is a) = cpe a" for "is" a
  proof (induction "is" arbitrary: a)
    case (Cons i "is")
    then show ?case using b[of i "[0..<NAT_ENTRY_PER_BLOCK L]" a] by (simp add: case_prod_beta)
  qed simp
  then show ?thesis by (simp add: scan_free_nid_bits_def)
qed

lemma cpe_scan_pages:
  "readable c \<or> (\<exists>k. fst (scan_nat_pages L c j n nm) = Inr k) \<Longrightarrow> cpe (snd (scan_nat_pages L c j n nm)) = cpe nm"
proof (induction j arbitrary: n nm)
  case (Suc j)
  obtain r nm1 where st: "(if nat_block_bitmap nm (NAT_BLOCK_OFFSET L n) then (None, nm)
      else case get_current_nat_page L c n nm of (Inl e, nm) \<Rightarrow> (Some e, nm) | (Inr page, nm) \<Rightarrow> scan_nat_page L page n nm) = (r, nm1)" by fastforce
  have p: "cpe nm1 = cpe nm" if "readable c \<or> r = None"
  proof (cases "nat_block_bitmap nm (NAT_BLOCK_OFFSET L n) \<or> page_err c (current_nat_addr L nm n) \<noteq> None")
    case True
    then show ?thesis using st that by (auto simp: page_defs readable_def split: if_splits)
  next
    case False
    then have "nm1 = snd (scan_nat_page L (nat_meta nm (current_nat_addr L nm n)) n nm)" using st by (simp add: page_defs)
    then show ?thesis by (simp add: scan_nat_page_def cpe_scan_entries)
  qed
  show ?case
  proof (cases r)
    case None
    then show ?thesis using Suc.IH Suc.prems p st by (simp add: Let_def)
  next
    case (Some e)
    then show ?thesis using Suc.prems p st by (simp add: Let_def)
  qed
qed simp

lemma cpe_build:
  assumes "readable c \<or> fst (f2fs_build_free_nids L c sync mount nm) = None"
  shows "cpe (snd (f2fs_build_free_nids L c sync mount nm)) = cpe nm"
proof -
  define n0 where "n0 = (if next_scan_nid nm \<ge> max_nid nm then 0 else next_scan_nid nm)"
  define n where "n = (if n0 mod NAT_ENTRY_PER_BLOCK L \<noteq> 0 then NAT_BLOCK_OFFSET L n0 * NAT_ENTRY_PER_BLOCK L else n0)"
  define nm1 where "nm1 = (if mount then nm else scan_free_nid_bits L nm)"
  have c1: "cpe nm1 = cpe nm" by (simp add: nm1_def)
  have e: "f2fs_build_free_nids L c sync mount nm = (if nid_cnt nm FREE_NID \<ge> NAT_ENTRY_PER_BLOCK L then (None, nm)
      else if \<not> sync \<and> \<not> free_nids_memory L c nm then (None, nm)
      else if \<not> mount \<and> nid_cnt nm1 FREE_NID \<ge> NAT_ENTRY_PER_BLOCK L then (None, nm1)
      else case scan_nat_pages L c FREE_NID_PAGES n nm1 of (Inl e, x) \<Rightarrow> (Some e, x) | (Inr k, x) \<Rightarrow> (None, scan_curseg_cache L (x\<lparr>next_scan_nid := k\<rparr>)))"
    unfolding f2fs_build_free_nids_def Let_def n0_def n_def nm1_def by (rule refl)
  show ?thesis using assms cpe_scan_pages[of c L FREE_NID_PAGES n nm1] c1 unfolding e by (auto split: prod.splits sum.splits if_splits)
qed

lemma cpe_alloc: "\<forall>c \<in> set cs. readable c \<Longrightarrow> cpe (snd (f2fs_alloc_nid L cs nm)) = cpe nm"
proof (induction cs arbitrary: nm)
  case (Cons c cs)
  have "cpe (snd (f2fs_build_free_nids L c True False nm)) = cpe nm" using Cons.prems by (intro cpe_build) simp
  then show ?case using Cons by (auto simp: Let_def split: list.split prod.split option.split)
qed simp

section \<open>Writing the table\<close>

lemma cpe_journal [simp]: "cpe (remove_nats_in_journal L nm) = cpe nm"
proof -
  have "cpe (remove_nat_in_journal L x a) = cpe a" for x a
    by (auto simp: remove_nat_in_journal_def lookup_nat_cache_def init_nat_entry_def Let_def split: prod.split option.split)
  then have "cpe (fold (remove_nat_in_journal L) xs a) = cpe a" for xs a by (induction xs arbitrary: a) simp_all
  then show ?thesis by (simp add: remove_nats_in_journal_def)
qed

lemma cpe_flush_entries [simp]: "cpe (fold (flush_nat_entry L page s) ns nm) = cpe nm"
proof -
  have "cpe (write_nat L page s e a) = cpe a" for s e a
    by (auto simp: write_nat_def f2fs_lookup_journal_in_cursum_def nm_bug_on_def Let_def split: option.split)
  then have "cpe (flush_nat_entry L page s n a) = cpe a" for n a by (simp add: flush_nat_entry_def Let_def split: option.split)
  then show ?thesis by (induction ns arbitrary: nm) simp_all
qed

lemma cpe_flush_set: "readable c \<Longrightarrow> cpe (snd (flush_nat_entry_set L c umount s nm)) = cpe nm"
  by (auto simp: flush_nat_entry_set_def get_next_nat_page_def page_defs readable_def set_to_next_nat_def update_nat_bits_def update_nat_bit_def Let_def split: option.split)

lemma cpe_flush:
  assumes "readable c"
  shows "cpe (snd (f2fs_flush_nat_entries L c umount nm)) = cpe nm"
proof -
  have "cpe (snd (flush_sets L c umount ss a)) = cpe a" for ss a
  proof (induction ss arbitrary: a)
    case (Cons s ss)
    then show ?case using cpe_flush_set[OF assms, of L umount s a] by (simp add: case_prod_beta split: option.split)
  qed simp
  then show ?thesis by (simp add: f2fs_flush_nat_entries_def Let_def)
qed

section \<open>Steps\<close>

text \<open>The conditions that the collection of ids or a flush meets in an event.\<close>

fun nm_conds :: "nm_event \<Rightarrow> node_cond list" where
  "nm_conds (Nm_alloc cs) = cs"
| "nm_conds (Nm_build c sync mount) = [c]"
| "nm_conds (Nm_flush c umount) = [c]"
| "nm_conds e = []"

lemma nm_step_goes_on: "\<forall>c \<in> set (nm_conds e). readable c \<Longrightarrow> cpe (nm_step L e nm) = cpe nm"
proof (cases e)
  case (Nm_set i b fs)
  show ?thesis by (simp add: Nm_set set_node_addr_def Let_def case_prod_beta)
next
  case (Nm_shrink_nats locked k)
  then show ?thesis using cpe_free_nats[of k nm] by (auto simp: f2fs_try_to_free_nats_def split: prod.split)
next
  case (Nm_shrink_nids c k)
  then show ?thesis using cpe_free_nids[of L k nm] by (auto simp: f2fs_try_to_free_nids_def split: prod.split)
qed (simp_all add: cpe_get cpe_alloc cpe_build cpe_flush f2fs_alloc_nid_done_def f2fs_alloc_nid_failed_def Let_def)

end
