(* ===== verification/Nat_Mount.thy ===== *)
theory Nat_Mount
  imports Nat_Stop
begin

text \<open>
  Building the node manager at mount time (\<open>node.c\<close>): what the super block and the checkpoint say,
  the bits of full and empty NAT blocks, and the first collection of free ids. A mount establishes
  the invariant of \<open>Nat_Machine\<close>, and its table is the one that is stored.
\<close>

text \<open>
  What the mount reads: fields of the super block and of the checkpoint, the pages of the NAT bits
  (the version at their start and the two maps), the NAT blocks and the journal.
\<close>

record nat_img =
  sb_nat_blkaddr :: nat
  segment_count_nat :: nat
  total_valid_node_count :: nat
  next_free_nid :: nat
  nat_ver_bitmap :: bitmap
  CP_NAT_BITS_FLAG :: bool
  start_cp_addr :: nat
  ckpt_ver :: nat
  nat_bits_ver :: nat
  img_full_bits :: bitmap
  img_empty_bits :: bitmap
  img_nat_meta :: "nat \<Rightarrow> nat \<Rightarrow> raw_nat"
  img_nat_journal :: "(nat \<times> raw_nat) list"
  F2FS_RESERVED_NODE_NUM :: nat

text \<open>Which allocations succeed.\<close>

record nat_allocs =
  al_nm_info :: bool
  al_nat_bitmap :: bool
  al_nat_bits :: bool
  al_nid_bitmaps :: bool
  al_nid_bitmap :: "nat \<Rightarrow> bool"
  al_block_bitmap :: bool
  al_nid_count :: bool

section \<open>The operations\<close>

definition DEF_RAM_THRESHOLD :: nat where "DEF_RAM_THRESHOLD = 1"

text \<open>The zeroed \<open>struct f2fs_nm_info\<close>, on a volume with these blocks and this journal.\<close>

definition zero_nm :: "nat_img \<Rightarrow> f2fs_nm_info" where
  "zero_nm img = \<lparr>nat_blkaddr = 0, max_nid = 0, available_nids = 0, next_scan_nid = 0, ram_thresh = 0, nat_root = (\<lambda>_. None),
     nat_set_root = (\<lambda>_. None), nat_entries = [], nat_cnt = (\<lambda>_. 0), nat_blocks = 0, free_nid_root = (\<lambda>_. None), free_nid_list = [],
     nid_cnt = (\<lambda>_. 0), free_nid_bitmap = (\<lambda>_ _. False), nat_block_bitmap = (\<lambda>_. False), free_nid_count = (\<lambda>_. 0),
     nat_bitmap = (\<lambda>_. False), full_nat_bits = (\<lambda>_. False), empty_nat_bits = (\<lambda>_. False),
     nat_meta = img_nat_meta img, nat_journal = img_nat_journal img, nm_bug = False, nm_cp_error = False\<rparr>"

text \<open>\<open>F2FS_BLK_ALIGN\<close> of the two maps and the version before them.\<close>

definition nat_bits_blocks :: "node_lay \<Rightarrow> f2fs_nm_info \<Rightarrow> nat" where
  "nat_bits_blocks L nm = (nat_blocks nm div 8 * 2 + 8 + (2 ^ log_blocksize (nm_sbi L) - 1)) div 2 ^ log_blocksize (nm_sbi L)"

text \<open>The first error when the pages at these addresses are read.\<close>

fun read_err :: "node_cond \<Rightarrow> nat list \<Rightarrow> nm_err option" where
  "read_err c [] = None"
| "read_err c (a # as) = (case page_err c a of Some e \<Rightarrow> Some e | None \<Rightarrow> read_err c as)"

text \<open>
  \<open>__get_nat_bitmaps\<close>: the state, and whether \<open>CP_NAT_BITS_FLAG\<close> is still set. Maps that were read are
  kept when their version does not fit, but the flag is not.
\<close>

definition get_nat_bitmaps :: "node_lay \<Rightarrow> node_cond \<Rightarrow> nat_img \<Rightarrow> nat_allocs \<Rightarrow> f2fs_nm_info \<Rightarrow> nm_err + bool \<times> f2fs_nm_info" where
  "get_nat_bitmaps L c img al nm =
     (if \<not> al_nat_bits al then Inl ENOMEM
      else if \<not> CP_NAT_BITS_FLAG img then Inr (False, nm)
      else
        (let blks = nat_bits_blocks L nm; nat_bits_addr = start_cp_addr img + blocks_per_seg (nm_sbi L) - blks
         in case read_err c [nat_bits_addr..<nat_bits_addr + blks] of
              Some e \<Rightarrow> Inl e
            | None \<Rightarrow> Inr (ckpt_ver img = nat_bits_ver img, nm\<lparr>full_nat_bits := img_full_bits img, empty_nat_bits := img_empty_bits img\<rparr>)))"

definition init_node_manager :: "node_lay \<Rightarrow> node_cond \<Rightarrow> nat_img \<Rightarrow> nat_allocs \<Rightarrow> f2fs_nm_info \<Rightarrow> nm_err + bool \<times> f2fs_nm_info" where
  "init_node_manager L c img al nm =
     (let nat_segs = segment_count_nat img div 2; blks = u32 (nat_segs * 2 ^ log_blocks_per_seg (nm_sbi L));
          nm = nm\<lparr>nat_blkaddr := sb_nat_blkaddr img, nat_blocks := blks, max_nid := u32 (NAT_ENTRY_PER_BLOCK L * blks)\<rparr>;
          nm = nm\<lparr>available_nids := sub32 (sub32 (max_nid nm) (total_valid_node_count img)) (F2FS_RESERVED_NODE_NUM img),
                  nid_cnt := (nid_cnt nm)(FREE_NID := 0, PREALLOC_NID := 0), ram_thresh := DEF_RAM_THRESHOLD,
                  free_nid_root := (\<lambda>_. None), free_nid_list := [], nat_root := (\<lambda>_. None), nat_set_root := (\<lambda>_. None), nat_entries := [],
                  next_scan_nid := next_free_nid img\<rparr>
      in if \<not> al_nat_bitmap al then Inl ENOMEM
         else get_nat_bitmaps L c img al (nm\<lparr>nat_bitmap := nat_ver_bitmap img\<rparr>))"

definition init_free_nid_cache :: "nat_allocs \<Rightarrow> f2fs_nm_info \<Rightarrow> nm_err + f2fs_nm_info" where
  "init_free_nid_cache al nm =
     (if \<not> al_nid_bitmaps al \<or> (\<exists>i \<in> set [0..<nat_blocks nm]. \<not> al_nid_bitmap al i) \<or> \<not> al_block_bitmap al \<or> \<not> al_nid_count al then Inl ENOMEM
      else Inr (nm\<lparr>free_nid_bitmap := (\<lambda>_ _. False), nat_block_bitmap := (\<lambda>_. False), free_nid_count := (\<lambda>_. 0)\<rparr>))"

text \<open>
  \<open>load_free_nid_bitmap\<close>: all ids of the blocks whose bit is set are free; the loops go from set
  bit to set bit.
\<close>

definition load_empty_block :: "node_lay \<Rightarrow> nat \<Rightarrow> f2fs_nm_info \<Rightarrow> f2fs_nm_info" where
  "load_empty_block L i nm =
     (let nid = i * NAT_ENTRY_PER_BLOCK L
      in fold (\<lambda>nid. update_free_nid_bitmap L nid True True) [nid..<nid + NAT_ENTRY_PER_BLOCK L]
           (nm\<lparr>nat_block_bitmap := (nat_block_bitmap nm)(i := True)\<rparr>))"

definition load_free_nid_bitmap :: "node_lay \<Rightarrow> bool \<Rightarrow> f2fs_nm_info \<Rightarrow> f2fs_nm_info" where
  "load_free_nid_bitmap L flag nm =
     (if \<not> flag then nm
      else
        (let nm = fold (load_empty_block L) (filter (empty_nat_bits nm) [0..<nat_blocks nm]) nm
         in fold (\<lambda>i nm. nm\<lparr>nat_block_bitmap := (nat_block_bitmap nm)(i := True)\<rparr>) (filter (full_nat_bits nm) [0..<nat_blocks nm]) nm))"

definition f2fs_build_node_manager :: "node_lay \<Rightarrow> node_cond \<Rightarrow> nat_img \<Rightarrow> nat_allocs \<Rightarrow> nm_err + f2fs_nm_info" where
  "f2fs_build_node_manager L c img al =
     (if \<not> al_nm_info al then Inl ENOMEM
      else case init_node_manager L c img al (zero_nm img) of
             Inl e \<Rightarrow> Inl e
           | Inr (flag, nm) \<Rightarrow>
               (case init_free_nid_cache al nm of
                  Inl e \<Rightarrow> Inl e
                | Inr nm \<Rightarrow>
                    (case f2fs_build_free_nids L c True True (load_free_nid_bitmap L flag nm) of
                       (Some e, nm) \<Rightarrow> Inl e
                     | (None, nm) \<Rightarrow> Inr nm)))"

section \<open>The stored table\<close>

text \<open>The state before the first collection, as far as the table depends on it.\<close>

definition stored_nm :: "node_lay \<Rightarrow> nat_img \<Rightarrow> f2fs_nm_info" where
  "stored_nm L img = (zero_nm img)\<lparr>nat_blkaddr := sb_nat_blkaddr img, nat_bitmap := nat_ver_bitmap img,
     nat_blocks := segment_count_nat img div 2 * 2 ^ log_blocks_per_seg (nm_sbi L),
     max_nid := NAT_ENTRY_PER_BLOCK L * (segment_count_nat img div 2 * 2 ^ log_blocks_per_seg (nm_sbi L))\<rparr>"

definition stored_nat :: "node_lay \<Rightarrow> nat_img \<Rightarrow> nat \<Rightarrow> raw_nat" where
  "stored_nat L img n = saved_nat L (stored_nm L img) n"

text \<open>
  A consistent volume: the sizes fit, the journal holds every id once, no stored address is that of
  a node that was never written, and the blocks that the bits call empty are.
\<close>

definition empty_bits_sound :: "node_lay \<Rightarrow> nat_img \<Rightarrow> bool" where
  "empty_bits_sound L img \<longleftrightarrow> (CP_NAT_BITS_FLAG img \<and> ckpt_ver img = nat_bits_ver img \<longrightarrow>
     (\<forall>n < max_nid (stored_nm L img). img_empty_bits img (NAT_BLOCK_OFFSET L n) \<longrightarrow> block_addr (disk_nat L (stored_nm L img) n) = NULL_ADDR (nm_sbi L)))"

definition nat_img_ok :: "node_lay \<Rightarrow> nat_img \<Rightarrow> bool" where
  "nat_img_ok L img \<longleftrightarrow> lay_ok L (stored_nm L img) \<and> journal_ok L (stored_nm L img) \<and> empty_bits_sound L img"

section \<open>A mount establishes the invariant\<close>

lemma empty_block_bits:
  assumes "\<And>b k. free_nid_bitmap nm b k \<Longrightarrow> nat_block_bitmap nm b" "\<And>n. nid_bit L nm n \<Longrightarrow> E (NAT_BLOCK_OFFSET L n)" "E i" "0 < NAT_ENTRY_PER_BLOCK L"
  shows "(\<forall>b k. free_nid_bitmap (load_empty_block L i nm) b k \<longrightarrow> nat_block_bitmap (load_empty_block L i nm) b) \<and>
    (\<forall>n. nid_bit L (load_empty_block L i nm) n \<longrightarrow> E (NAT_BLOCK_OFFSET L n))"
proof -
  define P where "P a \<longleftrightarrow> (\<forall>b k. free_nid_bitmap a b k \<longrightarrow> nat_block_bitmap a b) \<and> (\<forall>n. nid_bit L a n \<longrightarrow> E (NAT_BLOCK_OFFSET L n))" for a
  have st: "P (update_free_nid_bitmap L n True True a)" if "P a" "NAT_BLOCK_OFFSET L n = i" for a n
    using that assms(3) update_bitmap_scanned[of a L n True True] by (auto simp: P_def update_bitmap_bit)
  have fd: "P (fold (\<lambda>nid. update_free_nid_bitmap L nid True True) xs a)" if "P a" "\<forall>n \<in> set xs. NAT_BLOCK_OFFSET L n = i" for xs a
    using that by (induction xs arbitrary: a) (simp_all add: st)
  have "P (nm\<lparr>nat_block_bitmap := (nat_block_bitmap nm)(i := True)\<rparr>)" using assms(1,2) by (auto simp: P_def nid_bit_def)
  moreover have "\<forall>n \<in> set [i * NAT_ENTRY_PER_BLOCK L..<i * NAT_ENTRY_PER_BLOCK L + NAT_ENTRY_PER_BLOCK L]. NAT_BLOCK_OFFSET L n = i"
  proof
    fix n assume "n \<in> set [i * NAT_ENTRY_PER_BLOCK L..<i * NAT_ENTRY_PER_BLOCK L + NAT_ENTRY_PER_BLOCK L]"
    then have "n = i * NAT_ENTRY_PER_BLOCK L + (n - i * NAT_ENTRY_PER_BLOCK L)" "n - i * NAT_ENTRY_PER_BLOCK L < NAT_ENTRY_PER_BLOCK L" by auto
    then show "NAT_BLOCK_OFFSET L n = i" by (metis split_block(1))
  qed
  ultimately show ?thesis using fd unfolding load_empty_block_def Let_def P_def by blast
qed

lemma load_empty_same:
  "same_table nm (load_empty_block L i nm)" "free_nid_root (load_empty_block L i nm) = free_nid_root nm" "free_nid_list (load_empty_block L i nm) = free_nid_list nm"
  "nid_cnt (load_empty_block L i nm) = nid_cnt nm" "nm_bug (load_empty_block L i nm) = nm_bug nm" "nm_cp_error (load_empty_block L i nm) = nm_cp_error nm"
proof -
  define P where "P a \<longleftrightarrow> same_table nm a \<and> free_nid_root a = free_nid_root nm \<and> free_nid_list a = free_nid_list nm \<and> nid_cnt a = nid_cnt nm \<and> nm_bug a = nm_bug nm \<and> nm_cp_error a = nm_cp_error nm" for a
  have "P (fold (\<lambda>nid. update_free_nid_bitmap L nid True True) xs a)" if "P a" for xs a
    using that
  proof (induction xs arbitrary: a)
    case (Cons x xs)
    have "P (update_free_nid_bitmap L x True True a)" using Cons.prems same_table_trans[OF _ prim_same_table(4)] unfolding P_def by simp
    then show ?case using Cons.IH by simp
  qed simp
  moreover have "P (nm\<lparr>nat_block_bitmap := (nat_block_bitmap nm)(i := True)\<rparr>)" by (simp add: P_def same_table_def)
  ultimately have "P (load_empty_block L i nm)" by (simp add: load_empty_block_def Let_def)
  then show "same_table nm (load_empty_block L i nm)" "free_nid_root (load_empty_block L i nm) = free_nid_root nm" "free_nid_list (load_empty_block L i nm) = free_nid_list nm"
    "nid_cnt (load_empty_block L i nm) = nid_cnt nm" "nm_bug (load_empty_block L i nm) = nm_bug nm" "nm_cp_error (load_empty_block L i nm) = nm_cp_error nm" by (simp_all add: P_def)
qed

text \<open>A state without cached entries and free ids, as far as the ids are concerned.\<close>

definition fresh :: "f2fs_nm_info \<Rightarrow> bool" where
  "fresh nm \<longleftrightarrow> nat_root nm = (\<lambda>_. None) \<and> nat_set_root nm = (\<lambda>_. None) \<and> nat_entries nm = [] \<and> nat_cnt nm = (\<lambda>_. 0) \<and>
     free_nid_root nm = (\<lambda>_. None) \<and> free_nid_list nm = [] \<and> nid_cnt nm = (\<lambda>_. 0) \<and> \<not> nm_bug nm \<and> \<not> nm_cp_error nm"

lemma load_bitmap_ok:
  fixes flag :: bool
  assumes f: "free_nid_bitmap nm = (\<lambda>_ _. False)" and N: "0 < NAT_ENTRY_PER_BLOCK L"
  defines "nm' \<equiv> load_free_nid_bitmap L flag nm"
  shows "same_table nm nm'" "fresh nm \<Longrightarrow> fresh nm'" "\<And>b k. free_nid_bitmap nm' b k \<Longrightarrow> nat_block_bitmap nm' b"
    "\<And>n. nid_bit L nm' n \<Longrightarrow> flag \<and> empty_nat_bits nm (NAT_BLOCK_OFFSET L n)"
proof -
  define P where "P a \<longleftrightarrow> same_table nm a \<and> (fresh nm \<longrightarrow> fresh a) \<and> (\<forall>b k. free_nid_bitmap a b k \<longrightarrow> nat_block_bitmap a b) \<and>
    (\<forall>n. nid_bit L a n \<longrightarrow> flag \<and> empty_nat_bits nm (NAT_BLOCK_OFFSET L n))" for a
  have p0: "P nm" by (simp add: P_def f nid_bit_def)
  have e: "P (load_empty_block L i a)" if "P a" "flag" "empty_nat_bits nm i" for i a
  proof -
    note S = load_empty_same[where nm = a and L = L and i = i]
    have "same_table nm (load_empty_block L i a)" using same_table_trans[OF _ S(1)] that(1) by (simp add: P_def)
    moreover have "fresh (load_empty_block L i a)" if "fresh a"
      using S that unfolding fresh_def same_table_def by simp
    ultimately show ?thesis using empty_block_bits[of a L "\<lambda>b. flag \<and> empty_nat_bits nm b" i] N that unfolding P_def by blast
  qed
  have g: "P (a\<lparr>nat_block_bitmap := (nat_block_bitmap a)(i := True)\<rparr>)" if "P a" for i a
    using that by (auto simp: P_def same_table_def fresh_def nid_bit_def)
  have "P (fold (load_empty_block L) xs a)" if "P a" "flag" "\<forall>i \<in> set xs. empty_nat_bits nm i" for xs a
    using that by (induction xs arbitrary: a) (simp_all add: e)
  moreover have "P (fold (\<lambda>i nm. nm\<lparr>nat_block_bitmap := (nat_block_bitmap nm)(i := True)\<rparr>) xs a)" if "P a" for xs a
    using that by (induction xs arbitrary: a) (simp_all add: g)
  ultimately have "P nm'" using p0 by (cases flag) (simp_all add: nm'_def load_free_nid_bitmap_def Let_def)
  then show "same_table nm nm'" "fresh nm \<Longrightarrow> fresh nm'" "\<And>b k. free_nid_bitmap nm' b k \<Longrightarrow> nat_block_bitmap nm' b"
    "\<And>n. nid_bit L nm' n \<Longrightarrow> flag \<and> empty_nat_bits nm (NAT_BLOCK_OFFSET L n)" unfolding P_def by blast+
qed

lemma init_node_manager_ok:
  assumes lay: "lay_ok L (stored_nm L img)" and r: "init_node_manager L c img al (zero_nm img) = Inr (flag, nm)"
  shows "same_table (stored_nm L img) nm" "fresh nm" "flag \<longrightarrow> CP_NAT_BITS_FLAG img \<and> ckpt_ver img = nat_bits_ver img \<and> empty_nat_bits nm = img_empty_bits img"
proof -
  define B where "B = segment_count_nat img div 2 * 2 ^ log_blocks_per_seg (nm_sbi L)"
  have b: "0 < NAT_ENTRY_PER_BLOCK L" "NAT_ENTRY_PER_BLOCK L * B < 2 ^ 32" using lay by (simp_all add: lay_ok_def stored_nm_def B_def)
  have "B \<le> NAT_ENTRY_PER_BLOCK L * B" using b(1) by simp
  then have "B < 2 ^ 32" using b(2) by (rule order.strict_trans1)
  then have u: "u32 B = B" "u32 (NAT_ENTRY_PER_BLOCK L * B) = NAT_ENTRY_PER_BLOCK L * B" using b(2) by (simp_all add: u32_id)
  have "same_table (stored_nm L img) nm \<and> fresh nm \<and> (flag \<longrightarrow> CP_NAT_BITS_FLAG img \<and> ckpt_ver img = nat_bits_ver img \<and> empty_nat_bits nm = img_empty_bits img)"
    using r unfolding init_node_manager_def get_nat_bitmaps_def Let_def B_def[symmetric] u
    by (auto simp: stored_nm_def same_table_def fresh_def zero_nm_def B_def split: if_splits option.splits)
  then show "same_table (stored_nm L img) nm" "fresh nm" "flag \<longrightarrow> CP_NAT_BITS_FLAG img \<and> ckpt_ver img = nat_bits_ver img \<and> empty_nat_bits nm = img_empty_bits img" by blast+
qed

lemma fresh_ok:
  assumes f: "fresh nm" and l: "lay_ok L nm" "journal_ok L nm" and s: "\<And>b k. free_nid_bitmap nm b k \<Longrightarrow> nat_block_bitmap nm b"
    and b: "\<And>n. valid_nid L nm n \<Longrightarrow> nid_bit L nm n \<Longrightarrow> block_addr (disk_nat L nm n) = NULL_ADDR (nm_sbi L)"
  shows "ids_ok L {} nm"
proof -
  have c: "count_idx (\<lambda>x. False) g m = 0" for g :: "nat \<Rightarrow> 'a" and m by (simp add: count_idx_def)
  note F = f[unfolded fresh_def]
  have "nat_cache_ok L {} nm" using F l by (simp add: nat_cache_ok_def entries_ok_def nat_lists_ok_def counts_ok_def elist_def ecnt_def is_dirty_def is_clean_def count_idx_def)
  moreover have "nid_tree_ok L nm" using F by (simp add: nid_tree_ok_def count_idx_def)
  moreover have "bits_ok L nm" unfolding bits_ok_def
  proof (intro conjI allI impI)
    fix n assume n: "valid_nid L nm n \<and> nid_bit L nm n"
    then show "block_addr (nat_of L nm n) = NULL_ADDR (nm_sbi L) \<or> nid_dirty nm n \<or> n \<in> fst ` set (nat_journal nm)"
      using b[of n] F by (cases "map_of (nat_journal nm) n") (auto simp: nat_of_def saved_nat_def dest: map_of_SomeD intro: rev_image_eqI)
  qed (rule s)
  ultimately show ?thesis using F by (simp add: ids_ok_def nids_free_ok_def quiet_def freed_ok_def)
qed

text \<open>The state that the first collection of free ids finds.\<close>

lemma loaded_ok:
  assumes ok: "nat_img_ok L img" and i: "init_node_manager L c img al (zero_nm img) = Inr (flag, nm1)" and n: "init_free_nid_cache al nm1 = Inr nm2"
  shows "ids_ok L {} (load_free_nid_bitmap L flag nm2)" "fresh (load_free_nid_bitmap L flag nm2)" "nat_of L (load_free_nid_bitmap L flag nm2) = stored_nat L img"
    "max_nid (load_free_nid_bitmap L flag nm2) = max_nid (stored_nm L img)"
proof -
  have lay: "lay_ok L (stored_nm L img)" "journal_ok L (stored_nm L img)" using ok by (simp_all add: nat_img_ok_def)
  note I = init_node_manager_ok[OF lay(1) i]
  have n2: "nm2 = nm1\<lparr>free_nid_bitmap := (\<lambda>_ _. False), nat_block_bitmap := (\<lambda>_. False), free_nid_count := (\<lambda>_. 0)\<rparr>" using n by (simp add: init_free_nid_cache_def split: if_splits)
  have s2: "same_table (stored_nm L img) nm2" "fresh nm2" "empty_nat_bits nm2 = empty_nat_bits nm1" using I(1,2) by (simp_all add: n2 same_table_def fresh_def)
  define nm3 where "nm3 = load_free_nid_bitmap L flag nm2"
  have N: "0 < NAT_ENTRY_PER_BLOCK L" using lay(1) by (simp add: lay_ok_def)
  have f2: "free_nid_bitmap nm2 = (\<lambda>_ _. False)" by (simp add: n2)
  note B = load_bitmap_ok[OF f2 N, of flag, folded nm3_def]
  have s3: "same_table (stored_nm L img) nm3" using same_table_trans[OF s2(1) B(1)] .
  note V = same_table_views[OF s3] and D = same_table_disk[OF s3]
  have f3: "fresh nm3" using B(2) s2(2) by blast
  have "ids_ok L {} nm3"
  proof (rule fresh_ok[OF f3])
    show "lay_ok L nm3" "journal_ok L nm3" using V(7) lay same_disk_journal[OF D] by simp_all
    show "free_nid_bitmap nm3 b k \<Longrightarrow> nat_block_bitmap nm3 b" for b k by (rule B(3))
    fix m assume v: "valid_nid L nm3 m" and m: "nid_bit L nm3 m"
    have "m < max_nid (stored_nm L img)" using v V(6) by (simp add: valid_nid_def)
    then show "block_addr (disk_nat L nm3 m) = NULL_ADDR (nm_sbi L)"
      using B(4)[OF m] I(3) s2(3) ok same_disk_disk_nat[OF D, of L m] by (auto simp: nat_img_ok_def empty_bits_sound_def)
  qed
  moreover have "nat_of L nm3 = stored_nat L img" using f3 V(5) by (simp add: nat_of_def stored_nat_def fresh_def fun_eq_iff)
  ultimately show "ids_ok L {} (load_free_nid_bitmap L flag nm2)" "fresh (load_free_nid_bitmap L flag nm2)" "nat_of L (load_free_nid_bitmap L flag nm2) = stored_nat L img"
    "max_nid (load_free_nid_bitmap L flag nm2) = max_nid (stored_nm L img)"
    using f3 D by (simp_all add: nm3_def same_disk_def)
qed

lemma build_node_manager_ok:
  assumes ok: "nat_img_ok L img" and r: "f2fs_build_node_manager L c img al = Inr nm"
  shows "nm_inv L nm" "table_of L nm = \<lparr>nodes = stored_nat L img, taken = {}\<rparr>" "max_nid nm = max_nid (stored_nm L img)" "\<not> nm_cp_error nm"
proof -
  obtain flag nm1 nm2 where i: "init_node_manager L c img al (zero_nm img) = Inr (flag, nm1)" and n: "init_free_nid_cache al nm1 = Inr nm2"
    and b: "f2fs_build_free_nids L c True True (load_free_nid_bitmap L flag nm2) = (None, nm)"
    using r by (auto simp: f2fs_build_node_manager_def split: if_splits sum.splits prod.splits option.splits)
  note K = loaded_ok[OF ok i n]
  note F = build_free_nids_ok[OF K(1) b]
  show "nm_inv L nm" using F(1,3) K(2) ids_inv by (simp add: fresh_def)
  show "\<not> nm_cp_error nm" using cpe_build[of c L True True "load_free_nid_bitmap L flag nm2"] b K(2) by (simp add: fresh_def)
  show "max_nid nm = max_nid (stored_nm L img)" using F(2) K(4) by (simp add: same_table_def)
  show "table_of L nm = \<lparr>nodes = stored_nat L img, taken = {}\<rparr>"
    using F(4) K(2,3) same_table_views(1)[OF F(2), of L] by (simp add: table_of_def held_def fresh_def)
qed

text \<open>A mount fails only when memory is short or a block cannot be read.\<close>

definition all_allocs :: "nat_allocs \<Rightarrow> bool" where
  "all_allocs al \<longleftrightarrow> al_nm_info al \<and> al_nat_bitmap al \<and> al_nat_bits al \<and> al_nid_bitmaps al \<and> (\<forall>i. al_nid_bitmap al i) \<and> al_block_bitmap al \<and> al_nid_count al"

lemma read_no_err: "readable c \<Longrightarrow> read_err c as = None"
  by (induction as) (simp_all add: readable_def)

lemma build_node_manager_total:
  assumes ok: "nat_img_ok L img" and c: "readable c" and a: "all_allocs al"
  shows "\<exists>nm. f2fs_build_node_manager L c img al = Inr nm"
proof -
  obtain flag nm1 where i: "init_node_manager L c img al (zero_nm img) = Inr (flag, nm1)"
    using a read_no_err[OF c] by (cases "CP_NAT_BITS_FLAG img") (simp_all add: init_node_manager_def get_nat_bitmaps_def all_allocs_def Let_def)
  obtain nm2 where n: "init_free_nid_cache al nm1 = Inr nm2" using a by (simp add: init_free_nid_cache_def all_allocs_def)
  have "fst (f2fs_build_free_nids L c True True (load_free_nid_bitmap L flag nm2)) = None" using build_no_err[OF loaded_ok(1)[OF ok i n]] c by blast
  then obtain nm where "f2fs_build_free_nids L c True True (load_free_nid_bitmap L flag nm2) = (None, nm)" by (metis prod.collapse)
  then show ?thesis using i n a by (simp add: f2fs_build_node_manager_def all_allocs_def)
qed

section \<open>What a volume stores\<close>

definition stores_nat :: "node_lay \<Rightarrow> f2fs_nm_info \<Rightarrow> nat_img \<Rightarrow> bool" where
  "stores_nat L nm img \<longleftrightarrow> sb_nat_blkaddr img = nat_blkaddr nm \<and> segment_count_nat img div 2 * 2 ^ log_blocks_per_seg (nm_sbi L) = nat_blocks nm \<and>
     nat_ver_bitmap img = nat_bitmap nm \<and> img_nat_meta img = nat_meta nm \<and> img_nat_journal img = nat_journal nm"

lemma stores_ok:
  assumes "stores_nat L nm img" "nat_cache_ok L {} nm" "empty_bits_sound L img"
  shows "nat_img_ok L img" "stored_nat L img = saved_nat L nm"
proof -
  have l: "max_nid nm = NAT_ENTRY_PER_BLOCK L * nat_blocks nm" using cache_okD(1)[OF assms(2)] by (simp add: lay_ok_def)
  have d: "same_disk nm (stored_nm L img)" using assms(1) l by (simp add: same_disk_def stores_nat_def stored_nm_def zero_nm_def)
  show "nat_img_ok L img" using same_disk_lay[OF d] same_disk_journal[OF d] cache_okD(1,5)[OF assms(2)] assms(3) by (simp add: nat_img_ok_def)
  show "stored_nat L img = saved_nat L nm" using same_disk_saved[OF d, of L] by (simp add: stored_nat_def fun_eq_iff)
qed

end
