(* ===== verification/Node_Example.thy ===== *)
theory Node_Example
  imports Nat_Mount Swod_Example
begin

text \<open>
  A small volume: ten NAT blocks with one entry each, of which the first eight are in use, two
  entries of journal. The id 8 is in use by the journal only; 9 is free.
\<close>

definition nx_lay :: node_lay where
  "nx_lay = \<lparr>nm_sbi = ex_sbi\<lparr>log_blocks_per_seg := 1, blocks_per_seg := 2\<rparr>, NAT_ENTRY_PER_BLOCK = 1, NAT_JOURNAL_ENTRIES = 2, F2FS_ROOT_INO = 3, sizeof_free_nid = 32\<rparr>"

definition nx_cond :: node_cond where
  "nx_cond = \<lparr>page_err = (\<lambda>_. None), blkaddr_ok = (\<lambda>_. True), cp_global_locked = False, nat_no_memory = False, avail_ram = 1000000,
     on_f2fs_build_free_nids = False, inject_alloc_nid = False, cp_nat_bits_flag = False\<rparr>"

text \<open>The last block of the table cannot be read.\<close>

definition nx_bad :: node_cond where
  "nx_bad = nx_cond\<lparr>page_err := (\<lambda>a. if a = 117 then Some (Page_err 5) else None)\<rparr>"

definition nx_raw :: "nat \<Rightarrow> raw_nat" where
  "nx_raw b = \<lparr>raw_version = 0, raw_ino = 3, block_addr = b\<rparr>"

definition nx_img :: nat_img where
  "nx_img = \<lparr>sb_nat_blkaddr = 100, segment_count_nat = 10, total_valid_node_count = 6, next_free_nid = 0, nat_ver_bitmap = (\<lambda>_. False),
     CP_NAT_BITS_FLAG = False, start_cp_addr = 2, ckpt_ver = 1, nat_bits_ver = 1, img_full_bits = (\<lambda>_. False), img_empty_bits = (\<lambda>_. False),
     img_nat_meta = (\<lambda>a _. nx_raw (if a < 116 then 500 else 0)), img_nat_journal = [(8, nx_raw 600)], F2FS_RESERVED_NODE_NUM = 3\<rparr>"

definition nx_al :: nat_allocs where
  "nx_al = \<lparr>al_nm_info = True, al_nat_bitmap = True, al_nat_bits = True, al_nid_bitmaps = True, al_nid_bitmap = (\<lambda>_. True), al_block_bitmap = True, al_nid_count = True\<rparr>"

text \<open>The volume without cached entries and free ids; the scan goes on at the id 8.\<close>

definition nx_nm :: f2fs_nm_info where
  "nx_nm = (stored_nm nx_lay nx_img)\<lparr>available_nids := 1, next_scan_nid := 8\<rparr>"

lemmas nx_defs = nx_lay_def nx_cond_def nx_img_def nx_al_def nx_raw_def ex_sbi_def

lemma nx_readable [simp]: "readable nx_cond"
  by (simp add: readable_def nx_cond_def)

lemma nx_img_ok: "nat_img_ok nx_lay nx_img"
proof -
  have "valid_nid nx_lay (stored_nm nx_lay nx_img) 8" by (simp add: valid_nid_def stored_nm_def nx_defs)
  moreover have "block_addr (disk_nat nx_lay (stored_nm nx_lay nx_img) n) \<noteq> UINT_MAX" for n
    by (simp add: disk_nat_def stored_nm_def zero_nm_def nx_img_def nx_raw_def UINT_MAX_def)
  ultimately show ?thesis
    by (simp add: nat_img_ok_def lay_ok_def journal_ok_def empty_bits_sound_def saved_nat_def split: option.split)
      (simp add: stored_nm_def zero_nm_def nx_defs UINT_MAX_def)
qed

lemma nx_same: "same_table (stored_nm nx_lay nx_img) nx_nm"
  by (simp add: nx_nm_def same_table_def)

lemma nx_inv: "nm_inv nx_lay nx_nm"
proof -
  have f: "fresh nx_nm" "free_nid_bitmap nx_nm = (\<lambda>_ _. False)" by (simp_all add: nx_nm_def fresh_def stored_nm_def zero_nm_def)
  have "ids_ok nx_lay {} nx_nm"
    by (rule fresh_ok[OF f(1)])
      (use nx_img_ok f(2) same_table_views(7)[OF nx_same] same_disk_journal[OF same_table_disk[OF nx_same]] in \<open>auto simp: nat_img_ok_def nid_bit_def\<close>)
  then show ?thesis using f(1) ids_inv by (simp add: fresh_def)
qed

lemma nx_nat_of: "nat_of nx_lay nx_nm = stored_nat nx_lay nx_img"
  using same_table_views(5)[OF nx_same, of nx_lay] by (simp add: nat_of_def stored_nat_def fun_eq_iff) (simp add: nx_nm_def stored_nm_def zero_nm_def)

lemma nx_max: "max_nid nx_nm = 10"
  by (simp add: nx_nm_def stored_nm_def nx_defs)

lemma nx_reach: "reach (nm_step nx_lay) (nm_enabled nx_lay) nx_nm nx_nm"
  by (rule reach_start)

end
