(* ===== verification/Node_Path.thy ===== *)
theory Node_Path
  imports Kernel_Prelude
begin

text \<open>
  The tree of node blocks of an inode: which nodes lead to a block of the file
  (\<open>get_node_path\<close> of \<open>node.c\<close>), which blocks a node holds (\<open>f2fs_start_bidx_of_node\<close> of \<open>gc.c\<close>,
  \<open>IS_DNODE\<close> of \<open>node.h\<close>), and where a file goes on behind a missing node
  (\<open>f2fs_get_next_page_offset\<close>). The sizes are constants of \<open>linux/f2fs_fs.h\<close> and depend on
  the inode: they are fields of a record.
\<close>

record node_geo =
  ADDRS_PER_INODE :: nat
  ADDRS_PER_BLOCK :: nat
  NIDS_PER_BLOCK :: nat
  NODE_DIR1_BLOCK :: nat
  NODE_DIR2_BLOCK :: nat
  NODE_IND1_BLOCK :: nat
  NODE_IND2_BLOCK :: nat
  NODE_DIND_BLOCK :: nat
  XATTR_NODE_OFFSET :: nat

datatype path_err = E2BIG

text \<open>The arrays \<open>offset\<close> and \<open>noffset\<close> up to the level that is returned.\<close>

definition get_node_path :: "node_geo \<Rightarrow> nat \<Rightarrow> path_err + nat list \<times> nat list" where
  "get_node_path g block =
     (let direct_index = ADDRS_PER_INODE g; direct_blks = ADDRS_PER_BLOCK g; dptrs_per_blk = NIDS_PER_BLOCK g;
          indirect_blks = ADDRS_PER_BLOCK g * NIDS_PER_BLOCK g; dindirect_blks = indirect_blks * NIDS_PER_BLOCK g
      in if block < direct_index then Inr ([block], [0])
         else let block = block - direct_index
         in if block < direct_blks then Inr ([NODE_DIR1_BLOCK g, block], [0, 1])
         else let block = block - direct_blks
         in if block < direct_blks then Inr ([NODE_DIR2_BLOCK g, block], [0, 2])
         else let block = block - direct_blks
         in if block < indirect_blks then
              (let o1 = block div direct_blks
               in Inr ([NODE_IND1_BLOCK g, o1, block mod direct_blks], [0, 3, 4 + o1]))
         else let block = block - indirect_blks
         in if block < indirect_blks then
              (let o1 = block div direct_blks
               in Inr ([NODE_IND2_BLOCK g, o1, block mod direct_blks], [0, 4 + dptrs_per_blk, 5 + dptrs_per_blk + o1]))
         else let block = block - indirect_blks
         in if block < dindirect_blks then
              (let o1 = block div indirect_blks; o2 = (block div direct_blks) mod dptrs_per_blk
               in Inr ([NODE_DIND_BLOCK g, o1, o2, block mod direct_blks],
                       [0, 5 + dptrs_per_blk * 2, 6 + dptrs_per_blk * 2 + o1 * (dptrs_per_blk + 1),
                        7 + dptrs_per_blk * 2 + o1 * (dptrs_per_blk + 1) + o2]))
         else Inl E2BIG)"

definition f2fs_start_bidx_of_node :: "node_geo \<Rightarrow> nat \<Rightarrow> nat" where
  "f2fs_start_bidx_of_node g node_ofs =
     (let indirect_blks = u32 (2 * NIDS_PER_BLOCK g + 4);
          bidx = (if node_ofs \<le> 2 then node_ofs - 1
                  else if node_ofs \<le> indirect_blks
                  then (let dec = sub32 node_ofs 4 div (NIDS_PER_BLOCK g + 1) in sub32 (sub32 node_ofs 2) dec)
                  else (let dec = sub32 (sub32 node_ofs indirect_blks) 3 div (NIDS_PER_BLOCK g + 1) in sub32 (sub32 node_ofs 5) dec))
      in if node_ofs = 0 then 0 else u32 (bidx * ADDRS_PER_BLOCK g + ADDRS_PER_INODE g))"

definition f2fs_has_xattr_block :: "node_geo \<Rightarrow> nat \<Rightarrow> bool" where
  "f2fs_has_xattr_block g ofs \<longleftrightarrow> ofs = XATTR_NODE_OFFSET g"

definition IS_DNODE :: "node_geo \<Rightarrow> nat \<Rightarrow> bool" where
  "IS_DNODE g ofs =
     (let n = NIDS_PER_BLOCK g
      in if f2fs_has_xattr_block g ofs then True
         else if ofs = 3 \<or> ofs = 4 + n \<or> ofs = 5 + 2 * n then False
         else if ofs \<ge> 6 + 2 * n \<and> (ofs - (6 + 2 * n)) mod (n + 1) = 0 then False
         else True)"

text \<open>
  \<open>max_level\<close> is the depth of the path and \<open>cur_level\<close> the depth of the missing node. The loop
  multiplies \<open>skipped_unit\<close> once for every level between them.
\<close>

fun skipped_units :: "node_geo \<Rightarrow> nat \<Rightarrow> nat \<Rightarrow> nat \<Rightarrow> nat" where
  "skipped_units g cur_level max_level unit =
     (if cur_level < max_level then skipped_units g cur_level (max_level - 1) (u32 (unit * NIDS_PER_BLOCK g)) else unit)"

declare skipped_units.simps [simp del]

definition level_base :: "node_geo \<Rightarrow> nat \<Rightarrow> nat" where
  "level_base g max_level =
     (let direct_blks = ADDRS_PER_BLOCK g; indirect_blks = ADDRS_PER_BLOCK g * NIDS_PER_BLOCK g
      in (if max_level = 3 then 2 * indirect_blks else 0) + (if max_level = 2 \<or> max_level = 3 then 2 * direct_blks else 0) +
         (if max_level = 1 \<or> max_level = 2 \<or> max_level = 3 then ADDRS_PER_INODE g else 0))"

definition f2fs_get_next_page_offset :: "node_geo \<Rightarrow> nat \<Rightarrow> nat \<Rightarrow> nat \<Rightarrow> nat" where
  "f2fs_get_next_page_offset g cur_level max_level pgofs =
     (if max_level = 0 then pgofs + 1
      else
        (let skipped_unit = skipped_units g cur_level max_level (ADDRS_PER_BLOCK g); base = level_base g max_level
         in ((pgofs - base) div skipped_unit + 1) * skipped_unit + base))"

section \<open>What they compute\<close>

text \<open>The number of blocks that a file can have.\<close>

definition max_file_blocks :: "node_geo \<Rightarrow> nat" where
  "max_file_blocks g = ADDRS_PER_INODE g + 2 * ADDRS_PER_BLOCK g + 2 * (ADDRS_PER_BLOCK g * NIDS_PER_BLOCK g) +
     ADDRS_PER_BLOCK g * NIDS_PER_BLOCK g * NIDS_PER_BLOCK g"

text \<open>
  The sizes that the format has: a block index fits into 32 bits, and the offset that marks the
  block of extended attributes is no offset of the tree.
\<close>

definition node_geo_ok :: "node_geo \<Rightarrow> bool" where
  "node_geo_ok g \<longleftrightarrow> 0 < ADDRS_PER_BLOCK g \<and> 0 < NIDS_PER_BLOCK g \<and> max_file_blocks g < 2 ^ 32 \<and>
     7 + 3 * NIDS_PER_BLOCK g + NIDS_PER_BLOCK g * (NIDS_PER_BLOCK g + 1) < 2 ^ 32 \<and>
     7 + 3 * NIDS_PER_BLOCK g + NIDS_PER_BLOCK g * (NIDS_PER_BLOCK g + 1) \<le> XATTR_NODE_OFFSET g"


lemma geo_bounds:
  assumes "node_geo_ok g" "a < NIDS_PER_BLOCK g" "b < NIDS_PER_BLOCK g"
  shows "a * (NIDS_PER_BLOCK g + 1) + b < NIDS_PER_BLOCK g * (NIDS_PER_BLOCK g + 1)"
proof -
  have "(a + 1) * (NIDS_PER_BLOCK g + 1) \<le> NIDS_PER_BLOCK g * (NIDS_PER_BLOCK g + 1)" using assms(2) by (intro mult_le_mono1) simp
  then show ?thesis using assms(3) by simp
qed

text \<open>The first block of the direct nodes of each kind.\<close>

lemma start_bidx_small:
  assumes "node_geo_ok g"
  shows "f2fs_start_bidx_of_node g 0 = 0" "f2fs_start_bidx_of_node g 1 = ADDRS_PER_INODE g"
    "f2fs_start_bidx_of_node g 2 = ADDRS_PER_BLOCK g + ADDRS_PER_INODE g"
  using assms by (simp_all add: f2fs_start_bidx_of_node_def node_geo_ok_def max_file_blocks_def u32_id)

lemma start_bidx_ind:
  assumes ok: "node_geo_ok g" and k: "k < NIDS_PER_BLOCK g"
  shows "f2fs_start_bidx_of_node g (4 + k) = (2 + k) * ADDRS_PER_BLOCK g + ADDRS_PER_INODE g"
    "f2fs_start_bidx_of_node g (5 + NIDS_PER_BLOCK g + k) = (2 + NIDS_PER_BLOCK g + k) * ADDRS_PER_BLOCK g + ADDRS_PER_INODE g"
proof -
  define N A where "N = NIDS_PER_BLOCK g" and "A = ADDRS_PER_BLOCK g"
  have b: "2 * N + 4 < 2 ^ 32" "ADDRS_PER_INODE g + 2 * A + 2 * (A * N) < 2 ^ 32"
    using ok by (auto simp: node_geo_ok_def max_file_blocks_def N_def A_def)
  have "(2 + k) * A \<le> (2 + 2 * N) * A" "(2 + N + k) * A \<le> (2 + 2 * N) * A" using k by (intro mult_le_mono1; simp add: N_def)+
  moreover have "(2 + 2 * N) * A + ADDRS_PER_INODE g < 2 ^ 32" using b(2) by (simp add: algebra_simps)
  ultimately have m: "(2 + k) * A + ADDRS_PER_INODE g < 2 ^ 32" "(2 + N + k) * A + ADDRS_PER_INODE g < 2 ^ 32" by linarith+
  have d: "(N + 1 + k) div (N + 1) = 1" using k by (simp add: N_def div_nat_eqI)
  show "f2fs_start_bidx_of_node g (4 + k) = (2 + k) * ADDRS_PER_BLOCK g + ADDRS_PER_INODE g"
    using b m(1) k unfolding f2fs_start_bidx_of_node_def Let_def N_def[symmetric] A_def[symmetric] by (simp add: u32_id sub32_le)
  have "sub32 (5 + N + k) 4 = N + 1 + k" by (simp add: sub32_le)
  then show "f2fs_start_bidx_of_node g (5 + NIDS_PER_BLOCK g + k) = (2 + NIDS_PER_BLOCK g + k) * ADDRS_PER_BLOCK g + ADDRS_PER_INODE g"
    using b m(2) k d unfolding f2fs_start_bidx_of_node_def Let_def N_def[symmetric] A_def[symmetric] by (simp add: u32_id sub32_le)
qed

lemma start_bidx_dind:
  assumes ok: "node_geo_ok g" and ab: "a < NIDS_PER_BLOCK g" "b < NIDS_PER_BLOCK g"
  shows "f2fs_start_bidx_of_node g (7 + NIDS_PER_BLOCK g * 2 + a * (NIDS_PER_BLOCK g + 1) + b) =
    (2 + 2 * NIDS_PER_BLOCK g + a * NIDS_PER_BLOCK g + b) * ADDRS_PER_BLOCK g + ADDRS_PER_INODE g"
proof -
  define N A where "N = NIDS_PER_BLOCK g" and "A = ADDRS_PER_BLOCK g"
  have i: "2 * N + 4 < 2 ^ 32" using ok by (simp add: node_geo_ok_def N_def)
  have "(a + 1) * N \<le> N * N" using ab(1) by (intro mult_le_mono1) (simp add: N_def)
  then have "2 + 2 * N + a * N + b \<le> 2 + 2 * N + N * N" using ab(2) by (simp add: N_def)
  then have "(2 + 2 * N + a * N + b) * A \<le> (2 + 2 * N + N * N) * A" by (rule mult_le_mono1)
  then have m: "(2 + 2 * N + a * N + b) * A + ADDRS_PER_INODE g < 2 ^ 32"
    using ok by (simp add: node_geo_ok_def max_file_blocks_def N_def A_def algebra_simps)
  have d: "(a * (N + 1) + b) div (N + 1) = a" using ab(2) by (simp add: N_def div_nat_eqI)
  define ofs where "ofs = 7 + N * 2 + a * (N + 1) + b"
  have ofs: "sub32 (sub32 ofs (2 * N + 4)) 3 = a * (N + 1) + b" "sub32 (sub32 ofs 5) a = 2 + 2 * N + a * N + b" "\<not> ofs \<le> 2 * N + 4" "\<not> ofs \<le> 2" "ofs \<noteq> 0"
    by (simp_all add: ofs_def sub32_le)
  show ?thesis unfolding N_def[symmetric] A_def[symmetric] ofs_def[symmetric]
    unfolding f2fs_start_bidx_of_node_def Let_def N_def[symmetric] A_def[symmetric] using m d ofs by (simp add: u32_id[OF i] u32_id)
qed

lemma direct_nodes:
  assumes ok: "node_geo_ok g" and k: "k < NIDS_PER_BLOCK g" and l: "l < NIDS_PER_BLOCK g"
  shows "IS_DNODE g 0" "IS_DNODE g 1" "IS_DNODE g 2" "IS_DNODE g (4 + k)" "IS_DNODE g (5 + NIDS_PER_BLOCK g + k)"
    "IS_DNODE g (7 + NIDS_PER_BLOCK g * 2 + k * (NIDS_PER_BLOCK g + 1) + l)"
proof -
  define N where "N = NIDS_PER_BLOCK g"
  have m: "(k * (N + 1) + (l + 1)) mod (N + 1) = l + 1" using l mod_mult_self3[of k "N + 1" "l + 1"] by (simp add: N_def)
  define ofs where "ofs = 7 + N * 2 + k * (N + 1) + l"
  have ofs: "ofs - (6 + 2 * N) = k * (N + 1) + (l + 1)" "ofs \<noteq> 3" "ofs \<noteq> 4 + N" "ofs \<noteq> 5 + 2 * N" by (simp_all add: ofs_def)
  show "IS_DNODE g (7 + NIDS_PER_BLOCK g * 2 + k * (NIDS_PER_BLOCK g + 1) + l)"
    unfolding N_def[symmetric] ofs_def[symmetric] unfolding IS_DNODE_def Let_def N_def[symmetric] using ofs m by simp
qed (use k in \<open>simp_all add: IS_DNODE_def\<close>)


section \<open>The path of a block\<close>

text \<open>A path leads to a direct node that holds the block at the last offset.\<close>

definition path_ok :: "node_geo \<Rightarrow> nat \<Rightarrow> nat list \<times> nat list \<Rightarrow> bool" where
  "path_ok g block p =
     (let (offs, nofs) = p
      in length offs = length nofs \<and> 1 \<le> length nofs \<and> length nofs \<le> 4 \<and> hd nofs = 0 \<and> IS_DNODE g (last nofs) \<and>
         f2fs_start_bidx_of_node g (last nofs) + last offs = block \<and>
         last offs < (if length offs = 1 then ADDRS_PER_INODE g else ADDRS_PER_BLOCK g))"

lemma path_ind_ok:
  assumes ok: "node_geo_ok g" and x: "x < ADDRS_PER_BLOCK g * NIDS_PER_BLOCK g"
  defines "A \<equiv> ADDRS_PER_BLOCK g"
  shows "path_ok g (ADDRS_PER_INODE g + 2 * A + x) ([NODE_IND1_BLOCK g, x div A, x mod A], [0, 3, 4 + x div A])"
    "path_ok g (ADDRS_PER_INODE g + 2 * A + A * NIDS_PER_BLOCK g + x)
       ([NODE_IND2_BLOCK g, x div A, x mod A], [0, 4 + NIDS_PER_BLOCK g, 5 + NIDS_PER_BLOCK g + x div A])"
proof -
  have A: "0 < A" and q: "x div A < NIDS_PER_BLOCK g" using ok x by (simp_all add: A_def node_geo_ok_def less_mult_imp_div_less mult.commute)
  have x: "A * (x div A) + x mod A = x" by simp
  show "path_ok g (ADDRS_PER_INODE g + 2 * A + x) ([NODE_IND1_BLOCK g, x div A, x mod A], [0, 3, 4 + x div A])"
    using start_bidx_ind(1)[OF ok q] direct_nodes(4)[OF ok q q] A x by (simp add: path_ok_def A_def[symmetric] algebra_simps)
  show "path_ok g (ADDRS_PER_INODE g + 2 * A + A * NIDS_PER_BLOCK g + x)
       ([NODE_IND2_BLOCK g, x div A, x mod A], [0, 4 + NIDS_PER_BLOCK g, 5 + NIDS_PER_BLOCK g + x div A])"
    using start_bidx_ind(2)[OF ok q] direct_nodes(5)[OF ok q q] A x by (simp add: path_ok_def A_def[symmetric] algebra_simps)
qed

lemma path_dind_ok:
  assumes ok: "node_geo_ok g" and x: "x < ADDRS_PER_BLOCK g * NIDS_PER_BLOCK g * NIDS_PER_BLOCK g"
  defines "A \<equiv> ADDRS_PER_BLOCK g" and "N \<equiv> NIDS_PER_BLOCK g"
  shows "path_ok g (ADDRS_PER_INODE g + 2 * A + 2 * (A * N) + x)
    ([NODE_DIND_BLOCK g, x div (A * N), (x div A) mod N, x mod A],
     [0, 5 + N * 2, 6 + N * 2 + x div (A * N) * (N + 1), 7 + N * 2 + x div (A * N) * (N + 1) + (x div A) mod N])"
proof -
  define a b where "a = x div (A * N)" and "b = (x div A) mod N"
  have AN: "0 < A" "0 < N" using ok by (simp_all add: A_def N_def node_geo_ok_def)
  have a: "a < N" using x unfolding a_def A_def N_def by (metis less_mult_imp_div_less mult.commute)
  have b: "b < N" using AN by (simp add: b_def)
  have "a * N + b = x div A" by (simp add: a_def b_def div_mult2_eq)
  then have x: "(a * N + b) * A + x mod A = x" by (metis mult.commute mult_div_mod_eq)
  have e: "(2 + 2 * N + a * N + b) * A = 2 * A + 2 * (A * N) + (a * N + b) * A" by (simp add: algebra_simps)
  show ?thesis unfolding a_def[symmetric] b_def[symmetric]
    using start_bidx_dind[OF ok a[unfolded N_def] b[unfolded N_def]] direct_nodes(6)[OF ok a[unfolded N_def] b[unfolded N_def]] AN x e
    by (simp add: path_ok_def A_def[symmetric] N_def[symmetric])
qed

lemma get_node_path_spec:
  assumes ok: "node_geo_ok g"
  shows "case get_node_path g block of Inl e \<Rightarrow> max_file_blocks g \<le> block | Inr p \<Rightarrow> block < max_file_blocks g \<and> path_ok g block p"
proof -
  define I A N where "I = ADDRS_PER_INODE g" and "A = ADDRS_PER_BLOCK g" and "N = NIDS_PER_BLOCK g"
  have N0: "0 < NIDS_PER_BLOCK g" using ok by (simp add: node_geo_ok_def)
  note D = I_def[symmetric] A_def[symmetric] N_def[symmetric]
  consider "block < I" | "\<not> block < I" "block - I < A" | "\<not> block < I" "\<not> block - I < A" "block - I - A < A"
    | "\<not> block < I" "\<not> block - I < A" "\<not> block - I - A < A" "block - I - A - A < A * N"
    | "\<not> block < I" "\<not> block - I < A" "\<not> block - I - A < A" "\<not> block - I - A - A < A * N" "block - I - A - A - A * N < A * N"
    | "\<not> block < I" "\<not> block - I < A" "\<not> block - I - A < A" "\<not> block - I - A - A < A * N" "\<not> block - I - A - A - A * N < A * N" by blast
  then show ?thesis
  proof cases
    case 1
    then show ?thesis using direct_nodes(1)[OF ok N0 N0] ok start_bidx_small[OF ok]
      by (simp add: get_node_path_def Let_def D path_ok_def max_file_blocks_def node_geo_ok_def)
  next
    case 2
    then show ?thesis using direct_nodes(2)[OF ok N0 N0] ok start_bidx_small(2)[OF ok]
      by (simp add: get_node_path_def Let_def D path_ok_def max_file_blocks_def node_geo_ok_def)
  next
    case 3
    then show ?thesis using direct_nodes(3)[OF ok N0 N0] ok start_bidx_small(3)[OF ok]
      by (simp add: get_node_path_def Let_def D path_ok_def max_file_blocks_def node_geo_ok_def)
  next
    case 4
    then have "I + 2 * A + (block - I - A - A) = block" by simp
    moreover have "block < max_file_blocks g" using 4 by (simp add: max_file_blocks_def D)
    ultimately show ?thesis using path_ind_ok(1)[OF ok 4(4)[unfolded A_def N_def]]
      by (simp only: get_node_path_def Let_def D 4 if_True if_False sum.case simp_thms)
  next
    case 5
    then have "I + 2 * A + A * N + (block - I - A - A - A * N) = block" by simp
    moreover have "block < max_file_blocks g" using 5 by (simp add: max_file_blocks_def D)
    ultimately show ?thesis using path_ind_ok(2)[OF ok 5(5)[unfolded A_def N_def]]
      by (simp only: get_node_path_def Let_def D 5 if_True if_False sum.case simp_thms)
  next
    case 6
    define x where "x = block - I - A - A - A * N - A * N"
    have x: "I + 2 * A + 2 * (A * N) + x = block" using 6 by (simp add: x_def)
    have p: "get_node_path g block = (if x < A * N * N
        then Inr ([NODE_DIND_BLOCK g, x div (A * N), (x div A) mod N, x mod A],
          [0, 5 + N * 2, 6 + N * 2 + x div (A * N) * (N + 1), 7 + N * 2 + x div (A * N) * (N + 1) + (x div A) mod N]) else Inl E2BIG)"
      using 6 by (simp add: get_node_path_def Let_def D x_def)
    show ?thesis
    proof (cases "x < A * N * N")
      case True
      then show ?thesis using path_dind_ok[OF ok True[unfolded A_def N_def]] x by (simp add: p D max_file_blocks_def)
    next
      case False
      then show ?thesis using x by (simp add: p D max_file_blocks_def)
    qed
  qed
qed


section \<open>Behind a missing node\<close>

lemma skipped_units_pow:
  assumes "ADDRS_PER_BLOCK g * NIDS_PER_BLOCK g ^ k < 2 ^ 32" "0 < NIDS_PER_BLOCK g"
  shows "skipped_units g cur (cur + k) (ADDRS_PER_BLOCK g) = ADDRS_PER_BLOCK g * NIDS_PER_BLOCK g ^ k"
proof -
  have "skipped_units g cur (cur + k) u = u * NIDS_PER_BLOCK g ^ k" if "u * NIDS_PER_BLOCK g ^ k < 2 ^ 32" for u
    using that
  proof (induction k arbitrary: u)
    case 0
    then show ?case by (simp add: skipped_units.simps)
  next
    case (Suc k)
    have "u * NIDS_PER_BLOCK g \<le> u * NIDS_PER_BLOCK g * NIDS_PER_BLOCK g ^ k" using assms(2) by simp
    also have "\<dots> < 2 ^ 32" using Suc.prems by (simp add: mult.assoc)
    finally have u: "u32 (u * NIDS_PER_BLOCK g) = u * NIDS_PER_BLOCK g" by (rule u32_id)
    have "skipped_units g cur (cur + Suc k) u = skipped_units g cur (cur + k) (u * NIDS_PER_BLOCK g)"
      by (subst skipped_units.simps) (simp add: u)
    then show ?case using Suc.IH[of "u * NIDS_PER_BLOCK g"] Suc.prems by (simp add: mult.assoc)
  qed
  then show ?thesis using assms(1) .
qed


lemma unit_less:
  assumes "node_geo_ok g" "k \<le> 2"
  shows "ADDRS_PER_BLOCK g * NIDS_PER_BLOCK g ^ k < 2 ^ 32"
proof -
  have "ADDRS_PER_BLOCK g * NIDS_PER_BLOCK g ^ k \<le> ADDRS_PER_BLOCK g * NIDS_PER_BLOCK g ^ 2"
    using assms by (intro mult_le_mono2 power_increasing) (auto simp: node_geo_ok_def)
  also have "\<dots> < 2 ^ 32" using assms(1) by (simp add: node_geo_ok_def max_file_blocks_def power2_eq_square mult.assoc)
  finally show ?thesis .
qed

text \<open>The nodes on the path of a block, by the part of the file in which it lies.\<close>

lemma path_level1:
  assumes "ADDRS_PER_INODE g \<le> b" "b < ADDRS_PER_INODE g + 2 * ADDRS_PER_BLOCK g"
  shows "\<exists>offs. get_node_path g b = Inr (offs, [0, 1 + (b - ADDRS_PER_INODE g) div ADDRS_PER_BLOCK g])"
proof (cases "b - ADDRS_PER_INODE g < ADDRS_PER_BLOCK g")
  case True
  then show ?thesis using assms(1) by (simp add: get_node_path_def Let_def)
next
  case False
  then have "(b - ADDRS_PER_INODE g) div ADDRS_PER_BLOCK g = 1" using assms by (intro div_nat_eqI) simp_all
  moreover have "b - ADDRS_PER_INODE g - ADDRS_PER_BLOCK g < ADDRS_PER_BLOCK g" "\<not> b < ADDRS_PER_INODE g" using False assms by simp_all
  ultimately show ?thesis using False by (simp add: get_node_path_def Let_def del: diff_diff_left)
qed

lemma path_level2:
  assumes "level_base g 2 \<le> b" "b < level_base g 2 + 2 * (ADDRS_PER_BLOCK g * NIDS_PER_BLOCK g)" "0 < ADDRS_PER_BLOCK g"
  shows "\<exists>offs. get_node_path g b = Inr (offs, [0, if (b - level_base g 2) div ADDRS_PER_BLOCK g < NIDS_PER_BLOCK g then 3 else 4 + NIDS_PER_BLOCK g,
    (if (b - level_base g 2) div ADDRS_PER_BLOCK g < NIDS_PER_BLOCK g then 4 else 5) + (b - level_base g 2) div ADDRS_PER_BLOCK g])"
proof -
  define I A N where "I = ADDRS_PER_INODE g" and "A = ADDRS_PER_BLOCK g" and "N = NIDS_PER_BLOCK g"
  note D = I_def[symmetric] A_def[symmetric] N_def[symmetric]
  define x where "x = b - level_base g 2"
  have lb: "level_base g 2 = 2 * A + I" by (simp add: level_base_def D)
  have x: "b - I - A - A = x" "x < 2 * (A * N)" and oo: "\<not> b < I" "\<not> b - I < A" "\<not> b - I - A < A" using assms(1,2) by (simp_all add: x_def lb D)
  have A: "0 < A" using assms(3) by (simp add: A_def)
  have q: "x div A < N \<longleftrightarrow> x < A * N" using A by (metis div_less_iff_less_mult mult.commute)
  show ?thesis
  proof (cases "x < A * N")
    case True
    then have "get_node_path g b = Inr ([NODE_IND1_BLOCK g, x div A, x mod A], [0, 3, 4 + x div A])"
      using oo by (simp only: get_node_path_def Let_def D x if_True if_False simp_thms)
    then show ?thesis using True q by (simp add: x_def[symmetric] D)
  next
    case False
    have "x = (x - A * N) + N * A" using False by (simp add: mult.commute)
    then have "x div A = ((x - A * N) + N * A) div A" by simp
    also have "\<dots> = N + (x - A * N) div A" using A by (intro div_mult_self1) simp
    finally have d: "N + (x - A * N) div A = x div A" by simp
    have "\<not> x < A * N" "x - A * N < A * N" using False x(2) by simp_all
    then have "get_node_path g b = Inr ([NODE_IND2_BLOCK g, (x - A * N) div A, (x - A * N) mod A], [0, 4 + N, 5 + N + (x - A * N) div A])"
      using oo by (simp only: get_node_path_def Let_def D x if_True if_False simp_thms)
    moreover have "5 + N + (x - A * N) div A = 5 + x div A" using d by simp
    ultimately show ?thesis using False q by (simp add: x_def[symmetric] D)
  qed
qed

lemma path_level3:
  assumes "level_base g 3 \<le> b" "b < level_base g 3 + ADDRS_PER_BLOCK g * NIDS_PER_BLOCK g * NIDS_PER_BLOCK g"
  shows "\<exists>offs. get_node_path g b = Inr (offs, [0, 5 + NIDS_PER_BLOCK g * 2,
    6 + NIDS_PER_BLOCK g * 2 + (b - level_base g 3) div (ADDRS_PER_BLOCK g * NIDS_PER_BLOCK g) * (NIDS_PER_BLOCK g + 1),
    7 + NIDS_PER_BLOCK g * 2 + (b - level_base g 3) div (ADDRS_PER_BLOCK g * NIDS_PER_BLOCK g) * (NIDS_PER_BLOCK g + 1) +
      (b - level_base g 3) div ADDRS_PER_BLOCK g mod NIDS_PER_BLOCK g])"
proof -
  define I A N where "I = ADDRS_PER_INODE g" and "A = ADDRS_PER_BLOCK g" and "N = NIDS_PER_BLOCK g"
  note D = I_def[symmetric] A_def[symmetric] N_def[symmetric]
  define x where "x = b - level_base g 3"
  have lb: "level_base g 3 = 2 * (A * N) + 2 * A + I" by (simp add: level_base_def D)
  have x: "b - I - A - A - A * N - A * N = x" "x < A * N * N"
    and oo: "\<not> b < I" "\<not> b - I < A" "\<not> b - I - A < A" "\<not> b - I - A - A < A * N" "\<not> b - I - A - A - A * N < A * N"
    using assms by (simp_all add: x_def lb D)
  have "get_node_path g b = Inr ([NODE_DIND_BLOCK g, x div (A * N), (x div A) mod N, x mod A],
      [0, 5 + N * 2, 6 + N * 2 + x div (A * N) * (N + 1), 7 + N * 2 + x div (A * N) * (N + 1) + (x div A) mod N])"
    using oo x(2) by (simp only: get_node_path_def Let_def D x(1) if_True if_False simp_thms)
  then show ?thesis by (simp add: x_def[symmetric] D)
qed


lemma path_region:
  assumes "get_node_path g b = Inr (offs, nofs)"
  shows "length nofs = 1 \<or>
    length nofs = 2 \<and> ADDRS_PER_INODE g \<le> b \<and> b < ADDRS_PER_INODE g + 2 * ADDRS_PER_BLOCK g \<or>
    length nofs = 3 \<and> level_base g 2 \<le> b \<and> b < level_base g 2 + 2 * (ADDRS_PER_BLOCK g * NIDS_PER_BLOCK g) \<or>
    length nofs = 4 \<and> level_base g 3 \<le> b \<and> b < level_base g 3 + ADDRS_PER_BLOCK g * NIDS_PER_BLOCK g * NIDS_PER_BLOCK g"
proof -
  define I A P Q where "I = ADDRS_PER_INODE g" and "A = ADDRS_PER_BLOCK g" and "P = A * NIDS_PER_BLOCK g" and "Q = A * NIDS_PER_BLOCK g * NIDS_PER_BLOCK g"
  have Q: "P * NIDS_PER_BLOCK g = Q" by (simp add: P_def Q_def)
  note D = P_def[symmetric] Q I_def[symmetric] A_def[symmetric]
  have l: "level_base g 2 = 2 * A + I" "level_base g 3 = 2 * P + 2 * A + I" by (simp_all add: level_base_def I_def A_def P_def)
  consider "length nofs = 1" | "length nofs = 2" "I \<le> b" "b < I + 2 * A" | "length nofs = 3" "2 * A + I \<le> b" "b < 2 * A + I + 2 * P"
    | "length nofs = 4" "2 * P + 2 * A + I \<le> b" "b < 2 * P + 2 * A + I + Q"
    using assms unfolding get_node_path_def Let_def D by (auto split: if_split_asm)
  then show ?thesis by cases (simp_all add: l I_def[symmetric] A_def[symmetric] P_def[symmetric] Q)
qed

text \<open>The blocks up to the next multiple of a unit.\<close>

lemma same_unit:
  fixes p :: nat
  assumes U: "0 < U" and p: "base \<le> p" "p < base + n * U" and nx: "nx = ((p - base) div U + 1) * U + base"
  shows "p < nx" "\<And>k. p \<le> k \<Longrightarrow> k < nx \<Longrightarrow> base \<le> k \<and> k < base + n * U \<and> (k - base) div U = (p - base) div U"
proof -
  define q where "q = (p - base) div U"
  define m where "m = (p - base) mod U"
  have "p - base = q * U + m" "m < U" using U by (simp_all add: q_def m_def)
  then have pb: "q * U \<le> p - base" "p - base < (q + 1) * U" by simp_all
  then show "p < nx" using p(1) by (simp add: nx q_def[symmetric])
  have "q < n" using p U by (simp add: q_def less_mult_imp_div_less)
  then have n: "(q + 1) * U \<le> n * U" by (intro mult_le_mono1) simp
  fix k assume k: "p \<le> k" "k < nx"
  then have kb: "q * U \<le> k - base" "k - base < (q + 1) * U" "base \<le> k" using p(1) pb by (simp_all add: nx q_def[symmetric])
  then have "(k - base) div U = q" by (intro div_nat_eqI) (simp_all add: mult.commute)
  then show "base \<le> k \<and> k < base + n * U \<and> (k - base) div U = (p - base) div U" using kb n by (simp add: q_def)
qed

definition same_node :: "node_geo \<Rightarrow> nat \<Rightarrow> nat list \<Rightarrow> nat \<Rightarrow> bool" where
  "same_node g cur_level nofs k \<longleftrightarrow>
     (\<exists>offs' nofs'. get_node_path g k = Inr (offs', nofs') \<and> length nofs' = length nofs \<and> nofs' ! cur_level = nofs ! cur_level)"

lemma next_offset_level1:
  assumes ok: "node_geo_ok g" and r: "ADDRS_PER_INODE g \<le> b" "b < ADDRS_PER_INODE g + 2 * ADDRS_PER_BLOCK g"
    and p: "get_node_path g b = Inr (offs, nofs)" and k: "b \<le> k" "k < f2fs_get_next_page_offset g 1 1 b"
  shows "same_node g 1 nofs k"
proof -
  have A: "0 < ADDRS_PER_BLOCK g" using ok by (simp add: node_geo_ok_def)
  have nx: "f2fs_get_next_page_offset g 1 1 b = ((b - ADDRS_PER_INODE g) div ADDRS_PER_BLOCK g + 1) * ADDRS_PER_BLOCK g + ADDRS_PER_INODE g"
    by (simp add: f2fs_get_next_page_offset_def level_base_def skipped_units.simps Let_def)
  note S = same_unit(2)[OF A r(1) _ nx k, of 2, OF r(2)]
  show ?thesis using path_level1[of g k] path_level1[OF r] S p by (auto simp: same_node_def)
qed

lemma next_offset_level2:
  assumes ok: "node_geo_ok g" and r: "level_base g 2 \<le> b" "b < level_base g 2 + 2 * (ADDRS_PER_BLOCK g * NIDS_PER_BLOCK g)"
    and p: "get_node_path g b = Inr (offs, nofs)" and c: "c = 1 \<or> c = 2" and k: "b \<le> k" "k < f2fs_get_next_page_offset g c 2 b"
  shows "same_node g c nofs k"
proof -
  define A N where "A = ADDRS_PER_BLOCK g" and "N = NIDS_PER_BLOCK g"
  have AN: "0 < A" "0 < N" using ok by (simp_all add: node_geo_ok_def A_def N_def)
  have lt: "A * N ^ 1 < 2 ^ 32" unfolding A_def N_def by (rule unit_less[OF ok]) simp
  define U where "U = (if c = 1 then A * N else A)"
  have U: "0 < U" using AN by (simp add: U_def)
  have u: "skipped_units g c 2 A = U"
  proof (cases "c = 1")
    case True
    then show ?thesis using skipped_units_pow[of g 1 1] lt AN by (simp add: U_def A_def N_def numeral_2_eq_2)
  next
    case False
    then show ?thesis using c by (simp add: U_def skipped_units.simps)
  qed
  have nx: "f2fs_get_next_page_offset g c 2 b = ((b - level_base g 2) div U + 1) * U + level_base g 2"
    by (simp add: f2fs_get_next_page_offset_def Let_def u[unfolded A_def])
  have "b < level_base g 2 + (if c = 1 then 2 else 2 * N) * U" using r(2) by (simp add: U_def A_def N_def mult_ac)
  note S = same_unit(2)[OF U r(1) this nx k]
  have kr: "k < level_base g 2 + 2 * (ADDRS_PER_BLOCK g * NIDS_PER_BLOCK g)" using S by (simp add: U_def A_def N_def mult_ac split: if_splits)
  have h: "x div A < N \<longleftrightarrow> x div (A * N) = 0" for x using AN by (simp add: div_mult2_eq div_eq_0_iff)
  have e: "(k - level_base g 2) div A < N \<longleftrightarrow> (b - level_base g 2) div A < N"
    using S c unfolding U_def h by (auto simp: div_mult2_eq)
  show ?thesis using path_level2[of g k] path_level2[OF r] S kr p e c AN unfolding A_def N_def same_node_def
    by (auto simp: U_def A_def N_def)
qed


lemma next_offset_level3:
  assumes ok: "node_geo_ok g"
    and r: "level_base g 3 \<le> b" "b < level_base g 3 + ADDRS_PER_BLOCK g * NIDS_PER_BLOCK g * NIDS_PER_BLOCK g"
    and p: "get_node_path g b = Inr (offs, nofs)" and c: "c = 1 \<or> c = 2 \<or> c = 3" and k: "b \<le> k" "k < f2fs_get_next_page_offset g c 3 b"
  shows "same_node g c nofs k"
proof -
  define A N where "A = ADDRS_PER_BLOCK g" and "N = NIDS_PER_BLOCK g"
  have AN: "0 < A" "0 < N" using ok by (simp_all add: node_geo_ok_def A_def N_def)
  have lt: "A * N ^ (3 - c) < 2 ^ 32" unfolding A_def N_def using c by (intro unit_less[OF ok]) auto
  define U where "U = A * N ^ (3 - c)"
  have U: "0 < U" using AN by (simp add: U_def)
  have u: "skipped_units g c 3 A = U"
  proof -
    have "c + (3 - c) = 3" using c by auto
    then show ?thesis using skipped_units_pow[of g "3 - c" c] lt AN by (simp add: U_def A_def N_def)
  qed
  have nx: "f2fs_get_next_page_offset g c 3 b = ((b - level_base g 3) div U + 1) * U + level_base g 3"
    by (simp add: f2fs_get_next_page_offset_def Let_def u[unfolded A_def])
  have m: "N ^ (c - 1) * U = A * N * N" using c by (auto simp: U_def power2_eq_square numeral_2_eq_2 mult_ac)
  then have "b < level_base g 3 + N ^ (c - 1) * U" using r(2) by (simp add: A_def N_def)
  note S = same_unit(2)[OF U r(1) this nx k]
  have kr: "k < level_base g 3 + ADDRS_PER_BLOCK g * NIDS_PER_BLOCK g * NIDS_PER_BLOCK g" using S m by (simp add: A_def N_def)
  have e: "c \<noteq> 1 \<Longrightarrow> (k - level_base g 3) div (A * N) = (b - level_base g 3) div (A * N)"
    "c = 3 \<Longrightarrow> (k - level_base g 3) div A = (b - level_base g 3) div A"
    using S c unfolding U_def by (auto simp: div_mult2_eq)
  obtain offs' where k': "get_node_path g k = Inr (offs', [0, 5 + N * 2, 6 + N * 2 + (k - level_base g 3) div (A * N) * (N + 1),
      7 + N * 2 + (k - level_base g 3) div (A * N) * (N + 1) + (k - level_base g 3) div A mod N])"
    using path_level3[of g k] S kr unfolding A_def N_def by blast
  have "nofs = [0, 5 + N * 2, 6 + N * 2 + (b - level_base g 3) div (A * N) * (N + 1),
      7 + N * 2 + (b - level_base g 3) div (A * N) * (N + 1) + (b - level_base g 3) div A mod N]"
    using path_level3[OF r] p unfolding A_def N_def by auto
  then show ?thesis using k' e c unfolding same_node_def by auto
qed

text \<open>Every block up to the next offset is reached through the missing node.\<close>

lemma next_offset_same_node:
  assumes ok: "node_geo_ok g" and p: "get_node_path g b = Inr (offs, nofs)"
    and c: "if length nofs = 1 then c = 0 else 1 \<le> c \<and> c < length nofs"
    and k: "b \<le> k" "k < f2fs_get_next_page_offset g c (length nofs - 1) b"
  shows "same_node g c nofs k"
proof -
  consider "length nofs = 1"
    | "length nofs = 2" "ADDRS_PER_INODE g \<le> b" "b < ADDRS_PER_INODE g + 2 * ADDRS_PER_BLOCK g"
    | "length nofs = 3" "level_base g 2 \<le> b" "b < level_base g 2 + 2 * (ADDRS_PER_BLOCK g * NIDS_PER_BLOCK g)"
    | "length nofs = 4" "level_base g 3 \<le> b" "b < level_base g 3 + ADDRS_PER_BLOCK g * NIDS_PER_BLOCK g * NIDS_PER_BLOCK g"
    using path_region[OF p] by blast
  then show ?thesis
  proof cases
    case 1
    then have "k = b" using k by (simp add: f2fs_get_next_page_offset_def)
    then show ?thesis using p by (simp add: same_node_def)
  next
    case 2
    then have "c = 1" using c by simp
    then show ?thesis using next_offset_level1[OF ok 2(2,3) p k(1)] k(2) 2(1) by simp
  next
    case 3
    then have "c = 1 \<or> c = 2" "length nofs - 1 = 2" using c by auto
    then show ?thesis using next_offset_level2[OF ok 3(2,3) p _ k(1)] k(2) by simp
  next
    case 4
    then have "c = 1 \<or> c = 2 \<or> c = 3" "length nofs - 1 = 3" using c by auto
    then show ?thesis using next_offset_level3[OF ok 4(2,3) p _ k(1)] k(2) by simp
  qed
qed

lemma next_offset_progress:
  assumes "node_geo_ok g" "get_node_path g b = Inr (offs, nofs)" "if length nofs = 1 then c = 0 else 1 \<le> c \<and> c < length nofs"
  shows "b < f2fs_get_next_page_offset g c (length nofs - 1) b"
proof (cases "length nofs = 1")
  case True
  then show ?thesis by (simp add: f2fs_get_next_page_offset_def)
next
  case False
  define l where "l = length nofs - 1"
  have r: "level_base g l \<le> b" "l = 1 \<or> l = 2 \<or> l = 3" using path_region[OF assms(2)] False by (auto simp: l_def level_base_def)
  define A N where "A = ADDRS_PER_BLOCK g" and "N = NIDS_PER_BLOCK g"
  have AN: "0 < A" "0 < N" using assms(1) by (simp_all add: node_geo_ok_def A_def N_def)
  have lt: "A * N ^ (l - c) < 2 ^ 32" unfolding A_def N_def using r(2) assms(3) False by (intro unit_less[OF assms(1)]) auto
  have "c \<le> l" using assms(3) False by (auto simp: l_def)
  then have u: "skipped_units g c l A = A * N ^ (l - c)" using skipped_units_pow[of g "l - c" c] lt AN by (simp add: A_def N_def)
  define U where "U = A * N ^ (l - c)"
  have U: "0 < U" using AN by (simp add: U_def)
  have "f2fs_get_next_page_offset g c l b = ((b - level_base g l) div U + 1) * U + level_base g l"
    using r(2) by (auto simp: f2fs_get_next_page_offset_def Let_def u[unfolded A_def] U_def A_def N_def)
  moreover have "b < level_base g l + (b + 1) * U"
    using U mult_le_mono2[of 1 U "b + 1"] by simp
  ultimately show ?thesis using same_unit(1)[OF U r(1), of "b + 1"] by (simp add: l_def)
qed

end
