(* ===== verification/Node_Props.thy ===== *)
theory Node_Props
  imports Node_Example Node_Path
begin

text \<open>
  The properties of the node manager: its table and ids along runs, what a checkpoint writes, what a
  mount reads, and the path from an inode to the blocks of its file.
\<close>

section \<open>Facts about the example\<close>

lemma nx_going: "\<not> nm_cp_error nx_nm"
  by (simp add: nx_nm_def stored_nm_def zero_nm_def)

text \<open>The node 5 moves from block 500 to block 700.\<close>

definition nx_five :: node_info where
  "nx_five = \<lparr>ni_nid = 5, ni_ino = 3, blk_addr = 500, version = 0\<rparr>"

definition nx_moved :: f2fs_nm_info where
  "nx_moved = set_node_addr nx_lay nx_five 700 False nx_nm"

lemma nx_moved_allowed: "set_allowed nx_lay nx_five 700 nx_nm"
proof -
  have "nat_of nx_lay nx_nm 5 = nx_raw 500" by code_simp
  then show ?thesis using nx_max by (simp add: set_allowed_def nx_five_def valid_nid_def raw_nat_from_node_info_def nx_defs UINT_MAX_def)
qed

lemma nx_moved_disk: "same_disk nx_nm nx_moved"
  using set_node_addr_ids(5)[where fs = False, OF nm_invD[OF nx_inv nx_going] nx_moved_allowed] by (simp add: nx_moved_def)

lemma nx_moved_reach: "reach (nm_step nx_lay) (nm_enabled nx_lay) nx_nm nx_moved"
  using reach_step[OF nx_reach, of "Nm_set nx_five 700 False"] nx_moved_allowed nx_going by (simp add: nx_moved_def nm_enabled_def)

lemma nx_moved_inv: "nm_inv nx_lay nx_moved"
  by (rule natm.reach_inv[OF nx_moved_reach nx_inv])

lemma nx_moved_going: "\<not> nm_cp_error nx_moved"
  using nm_step_goes_on[of "Nm_set nx_five 700 False" nx_lay nx_nm] nx_going by (simp add: nx_moved_def)

section \<open>The table and the ids\<close>

text \<open>
  C2. The node manager refines a table of nodes with a set of ids that have been handed out.
  Along every run, each call does to the table exactly what it means to: \<open>set_node_addr\<close> changes one
  entry, \<open>f2fs_alloc_nid\<close> hands out an id without a node that nobody else has or none,
  \<open>f2fs_alloc_nid_done\<close> and \<open>f2fs_alloc_nid_failed\<close> settle it, and lookups, shrinkers, the
  collection of free ids and checkpoints change nothing, also when they fail because a block of the table
  cannot be read. Callers pass ids in range, change an address from what the table holds, and give back only
  ids they hold (\<open>nm_guard\<close>). A failed read in the collection of ids, an allocation or a flush stops
  checkpointing (\<open>CP_ERROR_FLAG\<close>) and ends the run with that call; calls that can read the table never
  do that.
\<close>

theorem node_manager_refines_table:
  assumes "reach (nm_step L) (nm_enabled L) nm0 nm" "nm_inv L nm0" "\<not> nm_cp_error nm" "nm_guard L e nm"
  shows "table_step L e (table_of L nm) (table_of L (nm_step L e nm)) \<and> nm_inv L (nm_step L e nm) \<and>
    ((\<forall>c \<in> set (nm_conds e). readable c) \<longrightarrow> \<not> nm_cp_error (nm_step L e nm))"
  using nm_step_table[OF natm.reach_inv[OF assms(1,2)], of e] nm_step_goes_on[of e L nm] assms(3,4) by (simp add: nm_enabled_def)

theorem node_manager_refines_table_witness:
  "table_step nx_lay (Nm_alloc [nx_bad, nx_cond]) (table_of nx_lay nx_moved) (table_of nx_lay (nm_step nx_lay (Nm_alloc [nx_bad, nx_cond]) nx_moved))"
  using node_manager_refines_table[OF nx_moved_reach nx_inv nx_moved_going, of "Nm_alloc [nx_bad, nx_cond]"] by simp

text \<open>
  C14. Along every run, a lookup of a node returns what the table holds for it, whether the entry
  is cached, in the journal or on disk. It fails only when the NAT block cannot be read or the address
  that the table holds is outside of the main area.
\<close>

theorem node_lookup_coherent:
  assumes "reach (nm_step L) (nm_enabled L) nm0 nm" "nm_inv L nm0" "valid_nid L nm n"
  shows "case fst (f2fs_get_node_info L c n nm) of
      Inr i \<Rightarrow> ni_nid i = n \<and> raw_nat_from_node_info i = nodes (table_of L nm) n
    | Inl e \<Rightarrow> page_err c (current_nat_addr L nm n) = Some e \<or>
        e = EFAULT \<and> is_valid_data_blkaddr (nm_sbi L) (block_addr (nodes (table_of L nm) n)) \<and> \<not> blkaddr_ok c (block_addr (nodes (table_of L nm) n))"
proof -
  have ok: "nat_cache_ok L {} nm" using natm.reach_inv[OF assms(1,2)] by (simp add: nm_inv_def)
  note G = get_node_info_spec(2,3)[OF ok assms(3), of c]
  show ?thesis using G by (auto simp: table_of_def split: sum.split)
qed

theorem node_lookup_coherent_witness:
  "\<exists>i. fst (f2fs_get_node_info nx_lay nx_cond 5 nx_moved) = Inr i \<and> ni_nid i = 5 \<and> raw_nat_from_node_info i = nodes (table_of nx_lay nx_moved) 5"
proof -
  have m: "max_nid nx_moved = 10"
    using nx_moved_disk nx_max by (simp add: same_disk_def)
  have v: "valid_nid nx_lay nx_moved 5" using m by (simp add: valid_nid_def nx_lay_def)
  show ?thesis using node_lookup_coherent[OF nx_moved_reach nx_inv v, of nx_cond] by (auto simp: nx_cond_def split: sum.splits)
qed

text \<open>
  C7. Along every run an id is handed out only while it has no node and nobody holds it, and it
  is held afterwards: no two callers get the same id, and no id of a node that is in use, by the cache,
  the journal or the disk, is given away. This holds for every call while checkpointing has not been
  stopped by a failed read of the table (\<open>CP_ERROR_FLAG\<close>), whatever the call itself can or cannot read.
\<close>

theorem nids_handed_out_once:
  assumes "reach (nm_step L) (nm_enabled L) nm0 nm" "nm_inv L nm0" "\<not> nm_cp_error nm"
    and "f2fs_alloc_nid L cs nm = (Some (Some n), nm')"
  shows "valid_nid L nm n \<and> n \<notin> taken (table_of L nm) \<and> block_addr (nodes (table_of L nm) n) = NULL_ADDR (nm_sbi L) \<and>
    taken (table_of L nm') = insert n (taken (table_of L nm)) \<and> nodes (table_of L nm') = nodes (table_of L nm)"
proof -
  have ok: "ids_ok L {} nm" by (rule nm_invD[OF natm.reach_inv[OF assms(1,2)] assms(3)])
  have A: "same_table nm nm'" "valid_nid L nm n" "block_addr (nat_of L nm n) = NULL_ADDR (nm_sbi L)" "n \<notin> held nm" "held nm' = insert n (held nm)"
    using alloc_nid_ok[OF ok assms(4)] by simp_all
  show ?thesis using A(2-5) same_table_views(1)[OF A(1), of L] by (simp add: table_of_def)
qed

theorem nids_handed_out_once_witness:
  "9 \<notin> taken (table_of nx_lay nx_nm) \<and> taken (table_of nx_lay (snd (f2fs_alloc_nid nx_lay [nx_cond, nx_cond] nx_nm))) = insert 9 (taken (table_of nx_lay nx_nm))"
proof -
  have "fst (f2fs_alloc_nid nx_lay [nx_cond, nx_cond] nx_nm) = Some (Some 9)" by code_simp
  then have r: "f2fs_alloc_nid nx_lay [nx_cond, nx_cond] nx_nm = (Some (Some 9), snd (f2fs_alloc_nid nx_lay [nx_cond, nx_cond] nx_nm))" by (simp add: prod_eq_iff)
  show ?thesis using nids_handed_out_once[OF nx_reach nx_inv nx_going r] by simp
qed



section \<open>Checkpoints and mounts\<close>

text \<open>
  C4. The table survives a checkpoint and the next mount. Take any state of a run in which checkpointing
  has not been stopped, write the table with \<open>f2fs_flush_nat_entries\<close> while its blocks can be read, and mount a
  volume that stores the NAT blocks, the version bitmap and the journal that this left, with readable blocks
  and enough memory; if the mount uses NAT bits, the blocks they call empty hold no node. Then the flush and the mount
  succeed, the new node manager satisfies the invariant, hands out no id, and holds the same entry for every
  node, except for nodes that have no block yet (\<open>NEW_ADDR\<close>), which a checkpoint does not write.
\<close>

theorem node_table_survives_remount:
  assumes "reach (nm_step L) (nm_enabled L) nm0 nm" "nm_inv L nm0" "\<not> nm_cp_error nm" "readable c" "readable c'" "all_allocs al"
    and "stores_nat L (snd (f2fs_flush_nat_entries L c umount nm)) img" "empty_bits_sound L img"
  shows "fst (f2fs_flush_nat_entries L c umount nm) = None \<and>
    (\<exists>nm'. f2fs_build_node_manager L c' img al = Inr nm' \<and> nm_inv L nm' \<and> \<not> nm_cp_error nm' \<and> taken (table_of L nm') = {} \<and>
      (\<forall>n. block_addr (nodes (table_of L nm) n) \<noteq> NEW_ADDR (nm_sbi L) \<longrightarrow> nodes (table_of L nm') n = nodes (table_of L nm) n))"
proof -
  have ok: "ids_ok L {} nm" by (rule nm_invD[OF natm.reach_inv[OF assms(1,2)] assms(3)])
  define nm1 where "nm1 = snd (f2fs_flush_nat_entries L c umount nm)"
  have n: "fst (f2fs_flush_nat_entries L c umount nm) = None" using flush_err[of L c umount nm] assms(4) by blast
  then have r: "f2fs_flush_nat_entries L c umount nm = (None, nm1)" by (simp add: nm1_def prod_eq_iff)
  note F = flush_saves[OF ok r]
  note S = stores_ok[OF assms(7)[folded nm1_def] ids_okD(1)[OF F(1)] assms(8)]
  obtain nm' where b: "f2fs_build_node_manager L c' img al = Inr nm'" using build_node_manager_total[OF S(1) assms(5,6)] by blast
  note M = build_node_manager_ok[OF S(1) b]
  have "nodes (table_of L nm') n = nodes (table_of L nm) n" if "block_addr (nodes (table_of L nm) n) \<noteq> NEW_ADDR (nm_sbi L)" for n
    using M(2) S(2) F(2)[of n] that by (simp add: table_of_def is_new_def)
  then show ?thesis using n b M by simp
qed

text \<open>The volume that the flush of the example leaves.\<close>

definition nx_saved :: nat_img where
  "nx_saved = nx_img\<lparr>nat_ver_bitmap := nat_bitmap (snd (f2fs_flush_nat_entries nx_lay nx_cond True nx_moved)),
     img_nat_meta := nat_meta (snd (f2fs_flush_nat_entries nx_lay nx_cond True nx_moved)),
     img_nat_journal := nat_journal (snd (f2fs_flush_nat_entries nx_lay nx_cond True nx_moved))\<rparr>"

theorem node_table_survives_remount_witness:
  "\<exists>nm'. f2fs_build_node_manager nx_lay nx_cond nx_saved nx_al = Inr nm' \<and> block_addr (nodes (table_of nx_lay nm') 5) = 700"
proof -
  have "flush_ok nx_lay nx_moved" by (rule ids_flush[OF nm_invD[OF nx_moved_inv nx_moved_going]])
  note F = flush_nat_entries_ok(7,8)[OF this prod.collapse[symmetric], of nx_cond True]
  have "nat_blkaddr nx_moved = 100" "nat_blocks nx_moved = 10"
    using nx_moved_disk by (simp_all add: same_disk_def nx_nm_def stored_nm_def nx_defs)
  then have "nat_blkaddr (snd (f2fs_flush_nat_entries nx_lay nx_cond True nx_moved)) = 100" "nat_blocks (snd (f2fs_flush_nat_entries nx_lay nx_cond True nx_moved)) = 10"
    using F by simp_all
  then have "stores_nat nx_lay (snd (f2fs_flush_nat_entries nx_lay nx_cond True nx_moved)) nx_saved" by (simp add: stores_nat_def nx_saved_def nx_defs)
  moreover have "empty_bits_sound nx_lay nx_saved" "all_allocs nx_al" by (simp_all add: empty_bits_sound_def nx_saved_def nx_img_def all_allocs_def nx_al_def)
  moreover have "block_addr (nodes (table_of nx_lay nx_moved) 5) = 700" "NEW_ADDR (nm_sbi nx_lay) = 4294967295"
    using set_node_addr_ids(4)[where fs = False, OF nm_invD[OF nx_inv nx_going] nx_moved_allowed]
    by (auto simp: table_of_def nx_moved_def nx_five_def nx_lay_def ex_sbi_def UINT_MAX_def)
  ultimately show ?thesis
    using node_table_survives_remount[OF nx_moved_reach nx_inv nx_moved_going nx_readable nx_readable, of nx_al True nx_saved] by fastforce
qed

text \<open>
  C10. A checkpoint can be abandoned at any point: in any state of a run in which checkpointing has not been
  stopped before, whether \<open>f2fs_flush_nat_entries\<close> succeeds or fails on an unreadable block, it changes no NAT
  block that the last checkpoint uses, since it writes only the other copy of a block, and the table and the
  ids that have been handed out are the same. Nodes without a block (\<open>NEW_ADDR\<close>) may be present.
\<close>

theorem flush_keeps_last_checkpoint:
  assumes "reach (nm_step L) (nm_enabled L) nm0 nm" "nm_inv L nm0" "\<not> nm_cp_error nm" "f2fs_flush_nat_entries L c umount nm = (r, nm')"
  shows "nat_meta nm' (current_nat_addr L nm n) = nat_meta nm (current_nat_addr L nm n) \<and> nodes (table_of L nm') = nodes (table_of L nm) \<and>
    taken (table_of L nm') = taken (table_of L nm) \<and> (r = None \<or> \<not> readable c \<and> nm_cp_error nm')"
proof -
  have "flush_ok L nm" by (rule ids_flush[OF nm_invD[OF natm.reach_inv[OF assms(1,2)] assms(3)]])
  note F = flush_nat_entries_ok[OF this assms(4)]
  show ?thesis using F(2,3,5) flush_err[of L c umount nm] assms(4) by (simp add: table_of_def)
qed

theorem flush_keeps_last_checkpoint_witness:
  "nat_meta (snd (f2fs_flush_nat_entries nx_lay nx_bad True nx_moved)) (current_nat_addr nx_lay nx_moved 5) = nat_meta nx_moved (current_nat_addr nx_lay nx_moved 5)"
proof -
  obtain r nm' where r: "f2fs_flush_nat_entries nx_lay nx_bad True nx_moved = (r, nm')" by fastforce
  show ?thesis using flush_keeps_last_checkpoint[OF nx_moved_reach nx_inv nx_moved_going r, of 5] by (simp add: r)
qed

text \<open>
  Why the ids are guaranteed only until a failed read has stopped checkpointing: \<open>__f2fs_build_free_nids\<close> returns
  without looking at the journal when a NAT block cannot be read, so ids that only the journal knows to be in use stay on the
  list of free ids. On the example volume the first call of \<open>f2fs_alloc_nid\<close> fails and sets \<open>CP_ERROR_FLAG\<close>, and
  another call would hand out the id of a node that is in use.
\<close>

lemma read_error_hands_out_used_id:
  "nm_inv nx_lay nx_nm \<and> block_addr (nat_of nx_lay nx_nm 8) = 600 \<and> fst (f2fs_alloc_nid nx_lay [nx_bad] nx_nm) = Some None \<and>
   nm_cp_error (snd (f2fs_alloc_nid nx_lay [nx_bad] nx_nm)) \<and>
   fst (f2fs_alloc_nid nx_lay [nx_cond] (snd (f2fs_alloc_nid nx_lay [nx_bad] nx_nm))) = Some (Some 8)"
proof (intro conjI)
  show "nm_inv nx_lay nx_nm" by (rule nx_inv)
  show "block_addr (nat_of nx_lay nx_nm 8) = 600" by code_simp
  show "fst (f2fs_alloc_nid nx_lay [nx_bad] nx_nm) = Some None" by code_simp
  show "nm_cp_error (snd (f2fs_alloc_nid nx_lay [nx_bad] nx_nm))" by code_simp
  show "fst (f2fs_alloc_nid nx_lay [nx_cond] (snd (f2fs_alloc_nid nx_lay [nx_bad] nx_nm))) = Some (Some 8)" by code_simp
qed

section \<open>The path to a block\<close>

text \<open>The sizes of the format with 4 KB blocks and no inline attributes.\<close>

definition px_geo :: node_geo where
  "px_geo = \<lparr>ADDRS_PER_INODE = 923, ADDRS_PER_BLOCK = 1018, NIDS_PER_BLOCK = 1018, NODE_DIR1_BLOCK = 924, NODE_DIR2_BLOCK = 925, NODE_IND1_BLOCK = 926,
     NODE_IND2_BLOCK = 927, NODE_DIND_BLOCK = 928, XATTR_NODE_OFFSET = 536870911\<rparr>"

lemma px_geo_ok: "node_geo_ok px_geo"
  by (simp add: node_geo_ok_def px_geo_def max_file_blocks_def)

text \<open>
  C15. The path from an inode to a block of its file leads back to the block: for every index below the
  largest file, \<open>get_node_path\<close> finds a path of one to four nodes that starts at the inode and ends at a node of
  data addresses, and \<open>f2fs_start_bidx_of_node\<close> of that node, plus the offset in it, is the index. Beyond,
  and only there, it fails with \<open>E2BIG\<close>.
\<close>

theorem node_path_roundtrip:
  assumes "node_geo_ok g"
  shows "case get_node_path g block of
      Inl e \<Rightarrow> max_file_blocks g \<le> block
    | Inr (offs, nofs) \<Rightarrow> block < max_file_blocks g \<and> length offs = length nofs \<and> 1 \<le> length nofs \<and> length nofs \<le> 4 \<and> hd nofs = 0 \<and>
        IS_DNODE g (last nofs) \<and> f2fs_start_bidx_of_node g (last nofs) + last offs = block \<and>
        last offs < (if length offs = 1 then ADDRS_PER_INODE g else ADDRS_PER_BLOCK g)"
  using get_node_path_spec[OF assms, of block] by (auto simp: path_ok_def split: sum.splits prod.splits)

theorem node_path_roundtrip_witness:
  "get_node_path px_geo 3000000 = Inr ([928, 0, 908, 49], [0, 2041, 2042, 2951]) \<and> f2fs_start_bidx_of_node px_geo 2951 + 49 = 3000000"
proof -
  have "get_node_path px_geo 3000000 = Inr ([928, 0, 908, 49], [0, 2041, 2042, 2951])" by code_simp
  then show ?thesis using node_path_roundtrip[OF px_geo_ok, of 3000000] by simp
qed

text \<open>
  C27. Skipping a hole never skips a block: when the node at level \<open>c\<close> of the path to block \<open>b\<close> is missing,
  \<open>f2fs_get_next_page_offset\<close> makes progress, and every block from \<open>b\<close> up to its result has a path through
  the same missing node.
\<close>

theorem next_page_offset_skips_hole:
  assumes "node_geo_ok g" "get_node_path g b = Inr (offs, nofs)" "if length nofs = 1 then c = 0 else 1 \<le> c \<and> c < length nofs"
  shows "b < f2fs_get_next_page_offset g c (length nofs - 1) b \<and>
    (\<forall>k. b \<le> k \<and> k < f2fs_get_next_page_offset g c (length nofs - 1) b \<longrightarrow> same_node g c nofs k)"
  using next_offset_progress[OF assms] next_offset_same_node[OF assms] by blast

theorem next_page_offset_skips_hole_witness:
  "3000000 < f2fs_get_next_page_offset px_geo 2 3 3000000 \<and> same_node px_geo 2 [0, 2041, 2042, 2951] 3000001"
proof -
  have p: "get_node_path px_geo 3000000 = Inr ([928, 0, 908, 49], [0, 2041, 2042, 2951])" by code_simp
  have "f2fs_get_next_page_offset px_geo 2 3 3000000 > 3000001" by code_simp
  moreover have "length [0, 2041, 2042, 2951 :: nat] - 1 = 3" by simp
  ultimately show ?thesis using next_page_offset_skips_hole[OF px_geo_ok p, of 2] by (simp del: One_nat_def)
qed

end
