(* ===== verification/Spec2Isabelle.thy ===== *)
theory Spec2Isabelle
  imports Swod_Props Swod_Findings Discard_Props Extent_Props Segment_Props Segment_Section Gc_Props Gc_Findings Rev_Bits Mount_Props Node_Props
begin

text \<open>
  Verification of the core of \<open>ef2fs\<close>, an F2FS for Linux 5.15 with SWOD, a mechanism that holds
  back discards of a window of segments until more of the window is free. All file names are
  relative to \<open>src/\<close>.

  \<^bold>\<open>The program.\<close> The volume is a log of segments. The segment manager (\<open>segment.c\<close>,
  \<open>segment.h\<close>) hands out blocks at the heads of several logs, keeps which blocks of which segment are
  valid now and in the last checkpoint, and finds new segments: free ones, or dirty ones that victim
  selection (\<open>gc.c\<close>) chooses. At a checkpoint the maps are committed, emptied segments become free,
  and freed blocks become discard commands: ranges of blocks in an rb-tree ordered by address,
  each pending command also on one of 512 lists by its length. A kernel thread, fstrim and umount issue
  them in passes governed by a policy; a block that is written again is cut out of its command first.
  SWOD (\<open>swod.c\<close>) keeps, per segment, how many blocks are pending, and per group of segments the state
  of a window: normal, held, or parked for garbage collection to complete. The node manager (\<open>node.c\<close>)
  maps node ids to block addresses through a cache, a journal and two copies of every NAT block, and
  hands out free ids. The extent cache (\<open>extent_cache.c\<close>) remembers runs of a file's mapping.
  At mount time the segment manager and the node manager are built from the last checkpoint.

  \<^bold>\<open>Shared theories.\<close>
  \<^item> \<open>Kernel_Prelude\<close>, \<open>Kernel_Bits\<close>: 16- and 32-bit arithmetic with its wrap-around, jiffies as 64-bit
    words with the \<open>time_after\<close> family, bitmaps with the kernel's searches, counts, and the lemmas that
    the components share.
  \<^item> \<open>F2fs_Sb\<close>: the part of \<open>struct f2fs_sb_info\<close> that is read, the address macros of \<open>segment.h\<close>,
    \<open>utilization\<close>, and the memory check. \<open>geom_ok\<close> says what a mounted volume guarantees.
  \<^item> \<open>State_Machine\<close>: reachability, and the locales \<open>guarded_machine\<close> and \<open>bounded_machine\<close> that SWOD
    (\<open>swodm\<close>, \<open>swodl\<close>, \<open>livem\<close>), the discard commands (\<open>discardm\<close>), the extent cache (\<open>extentm\<close>), the
    segment manager with GC and discards (\<open>smm\<close>) and the node manager (\<open>natm\<close>) interpret.
  \<^item> \<open>Rev_Bits\<close>: bitmaps as bytes in memory; the word-wise searches of \<open>segment.c\<close> equal the searches
    bit by bit.

  \<^bold>\<open>Discard commands and SWOD.\<close>
  \<^item> \<open>Rb_Tree\<close>: the tree searches of \<open>extent_cache.c\<close> and \<open>swod_rb_lower_bound\<close>, with the locale
    \<open>interval_index\<close> and its interpretation on the tree code; \<open>rb_tree_refines_list\<close> connects it to the
    in-order lists that the discard model uses.
  \<^item> \<open>Dcc_Types\<close>: \<open>discard_cmd\<close>, \<open>discard_policy\<close>, \<open>discard_cmd_control\<close> of \<open>f2fs.h\<close> and the structures
    of \<open>swod.h\<close>, field by field.
  \<^item> \<open>Swod_Window\<close>, \<open>Swod_Eval\<close>, \<open>Swod_Api\<close>: all functions of \<open>swod.c\<close> in its order. \<open>Swod_Inv\<close>,
    \<open>Swod_Api_Inv\<close>, \<open>Swod_Rebuild\<close>, \<open>Swod_Limits\<close>, \<open>Swod_Live\<close>: the invariant of a \<open>swod_ctrl\<close> (counters
    count, the bitmaps are the union of the windows, windows lie in their group), kept by every entry
    point; what rebuilding computes; the limits on held and parked groups; the control as the rest of
    the program drives it. \<open>Swod_Example\<close>, \<open>Swod_Props\<close>, \<open>Swod_Findings\<close>: a small volume, the properties,
    and the behaviours that differ from what the code means to do.
  \<^item> \<open>Discard\<close>: the discard commands of \<open>segment.c\<close>, from \<open>__create_discard_cmd\<close> to the rounds of
    \<open>issue_discard_thread\<close>. \<open>Discard_Inv\<close>, \<open>Discard_Merge\<close>, \<open>Discard_Ops\<close>, \<open>Discard_Flow\<close>,
    \<open>Discard_Machine\<close>, \<open>Discard_Props\<close>: the bookkeeping invariant and what each primitive does to it;
    adding ranges; punching, dropping and submitting; waiting and issuing; the machine of all events
    and the umount path; the properties.

  \<^bold>\<open>Extent cache.\<close> \<open>Extent\<close> has the functions of \<open>extent_cache.c\<close>, \<open>Extent_Inv\<close> and
  \<open>Extent_Update\<close> the structure of a tree and what updating a range does to it, \<open>Extent_Machine\<close> all trees
  of a volume with the mapping of every file as a ghost, \<open>Extent_Props\<close> the properties: a lookup never
  returns a stale address.

  \<^bold>\<open>Segment manager and victim selection.\<close>
  \<^item> \<open>Segment\<close>, \<open>Segment_Cp\<close>: the SIT cache, free and dirty maps, logs, free segment search, allocation,
    invalidation; small discards, prefree segments and the segment part of a checkpoint.
  \<^item> \<open>Gc_Victim\<close>: policies, costs and the search of \<open>get_victim_by_default\<close>, by cost or by age, with the
    preference for SWOD windows.
  \<^item> \<open>Segment_Inv\<close>, \<open>Segment_Ops\<close>, \<open>Segment_Free\<close>, \<open>Segment_Logs\<close>, \<open>Segment_Alloc\<close>, \<open>Segment_Flush\<close>,
    \<open>Segment_Prefree\<close>, \<open>Segment_Checkpoint\<close>: the invariant and how every operation keeps it. The allocator is
    verified against the locale \<open>victim_selection\<close>; \<open>Gc_Ssr\<close> interprets it (\<open>ssrv\<close>) with the code of \<open>gc.c\<close>.
  \<^item> \<open>Segment_Machine\<close>, \<open>Segment_Example\<close>, \<open>Segment_Props\<close>: the machine of allocation, invalidation,
    checkpoints and discards; the allocator refines an abstract one, and no discard covers a block that is
    in use. \<open>Segment_Section\<close>: the configuration that these properties exclude, discards by section on large sections
    outside LFS mode, where blocks in use are discarded. \<open>Gc_Best\<close>, \<open>Gc_Props\<close>, \<open>Gc_Findings\<close>: what the search finds, and where the SWOD pass breaks it.
  \<^item> \<open>Sit_Raw\<close>, \<open>Segment_Mount\<close>: the on-disk form of SIT entries with its checks, and
    \<open>f2fs_build_segment_manager\<close> with the checks of the checkpoint pack. \<open>Mount_Inv\<close>, \<open>Mount_Total\<close>,
    \<open>Mount_Props\<close>: a mount that succeeds establishes the invariant of the machine, consistent volumes
    mount, and mounting a volume that stores the state of a run gives it back. Volumes with the read-only feature
    are outside of these properties.

  \<^bold>\<open>Node manager.\<close>
  \<^item> \<open>Nat_Cache\<close>: NAT entries, the cache with its list of clean entries and its sets of dirty ones, the
    journal and the two copies of every block; \<open>f2fs_get_node_info\<close> and \<open>set_node_addr\<close>. \<open>Free_Nids\<close>:
    free ids and their bitmaps, collecting and handing out ids, and \<open>f2fs_flush_nat_entries\<close>.
  \<^item> \<open>Nat_Inv\<close>, \<open>Nat_Ops\<close>: what the table holds for a node (\<open>nat_of\<close>: the cache, else the journal, else
    the disk) and the invariant of the cache. \<open>Nid_Inv\<close>, \<open>Nid_Scan\<close>, \<open>Nid_Alloc\<close>: the invariant of the
    ids; ids on the free list have no node. \<open>Nat_Flush\<close>, \<open>Nat_Sets\<close>, \<open>Nat_Checkpoint\<close>: one dirty entry, one
    set, the whole table.
  \<^item> \<open>Nat_Machine\<close>: the machine, and the specification it refines, a table of nodes and the set of ids
    that are handed out. Blocks of the table may be unreadable; a run ends with the call that stops checkpointing
    for that reason. \<open>Nat_Stop\<close>: nothing else stops it. \<open>Nat_Mount\<close>: \<open>f2fs_build_node_manager\<close>. \<open>Node_Path\<close>: the path from an inode to
    a block of its file. \<open>Node_Example\<close>, \<open>Node_Props\<close>: a small volume and the properties.

  \<^bold>\<open>Correspondence.\<close> State is passed explicitly: an operation takes and returns the record of its
  component (\<open>discard_cmd_control\<close>, \<open>swod_ctrl\<close>, \<open>sm_info\<close>, \<open>f2fs_nm_info\<close>, the extent state). Operations are
  atomic as the code makes them with its locks; between operations any event may happen, so the
  machines interleave them freely. Pointers are addresses (\<open>dc_id\<close>, \<open>en_id\<close>) or the key of the
  structure they point into; rb-trees are their in-order sequences, radix trees maps. Block addresses and
  lengths are natural numbers below \<open>2 ^ 32\<close>, and \<open>u32\<close>, \<open>sub32\<close> and \<open>addu\<close> are written where a
  field can wrap. In the segment manager and the node manager a failed \<open>f2fs_bug_on\<close> sets a flag (\<open>sm_bug\<close>,
  \<open>nm_bug\<close>) and the code goes on; the machines show that the flags stay clear. Not recorded are the
  warnings of the discard commands and of the extent cache, and those of the SIT sets and the SIT journal in
  \<open>f2fs_flush_sit_entries\<close>. \<open>nm_cp_error\<close> is \<open>CP_ERROR_FLAG\<close> as the node manager sets it. The kernel (clock, random numbers, memory, block layer, errors of
  reading a block, contents of uninitialised memory) is a parameter: fields of \<open>f2fs_sb_info\<close>,
  \<open>dev_env\<close>, \<open>thread_env\<close>, \<open>seg_env\<close>, \<open>node_cond\<close> and the records of allocation results. Constants of
  \<open>linux/f2fs_fs.h\<close>, which is not part of the repository, are fields too.

  \<^bold>\<open>Conditions.\<close> What the environment must do is part of the statements: devices accept discard requests
  (\<open>healthy\<close>; \<open>submit_error_loses_blocks\<close> shows what an error does), SWOD starts on zeroed arrays (\<open>zeroed\<close>;
  the code does not clear them), checkpoints do not discard by section outside LFS mode on large sections (\<open>cp_ok\<close>),
  and callers of the node manager use ids as \<open>nm_guard\<close> says.

  \<^bold>\<open>Loops.\<close> Loops over groups, lists and maps are folds or structural recursion; \<open>count_runs\<close>,
  \<open>init_dirty_loop\<close> and the word-wise searches end by a measure. Loops with fuel have a proof that it
  suffices: cutting a range into segments (the length of the range), adding a range (the number of commands
  plus one), waiting (the number of commands plus one), the retry loop of umount (more than the number of
  blocks), and the search for an SSR segment (twice the number of segments plus three, \<open>Gc_Ssr\<close>).
  For foreground GC no fuel is enough (\<open>gc_search_never_ends\<close>). \<open>f2fs_alloc_nid\<close> retries as long as other
  threads collect ids; it takes the list of conditions that its rounds find.

  \<^bold>\<open>Not modelled.\<close> Log output, \<open>iostat\<close> and the \<open>mot2\<close> statistics; rebalancing of rb-trees, which keeps
  the in-order sequence; thread handles and wait queues; bios that end while \<open>__submit_discard_cmd\<close> is still
  running; evaluation racing with the lock holders (only the start of the evaluation work and its test of
  \<open>eval_running\<close> are separate steps); zoned devices. Of the segment manager, the summary
  blocks and the SIT journal as pages, and resizing; of GC, moving the blocks of a victim; of the node manager,
  the node pages themselves. The other parts of F2FS are not modelled: the data path, the checkpoint
  packs and orphans, roll-forward recovery, compression, directories, files, the super block and mount
  options, extended attributes, sysfs and debug output are mostly calls into the VFS, the page
  cache and the block layer, whose behaviour the sources do not define.
\<close>

end
